(* ===== verification/Syn_Prelude.thy ===== *)
theory Syn_Prelude
  imports Main "HOL-Library.Word"
begin

unbundle bit_operations_syntax

text \<open>
  The prelude of the SynapticOS development: the error numbers the C code returns, the
  machine-integer types, little-endian byte codecs, C strings, first-match array scans and
  the address-range lemmas that the components share.

  Conventions of the whole development.
  \<^item> A C function that returns 0 or a negative errno returns a value of \<open>'a res\<close>, that is
    \<open>errno + 'a\<close>: \<open>Err e\<close> is \<open>-e\<close> and \<open>Ok v\<close> is the success value. A function that changes
    the static state of its file takes that state and returns it, changed or not, next to the
    result, so a partial effect before an error return is visible.
  \<^item> \<open>uint8_t\<close>, \<open>uint16_t\<close>, \<open>uint32_t\<close> and the 32-bit \<open>size_t\<close> of the target are words where
    wrap-around matters, and \<open>nat\<close> with the \<open>mod\<close> written out elsewhere.
  \<^item> A pointer argument that the code compares with NULL is an \<open>option\<close>.
\<close>

section \<open>Machine integers\<close>

type_synonym u8 = "8 word"
type_synonym u16 = "16 word"
type_synonym u32 = "32 word"

lemma unat_add32: "unat ((a :: u32) + b) = (unat a + unat b) mod 2 ^ 32"
  by (simp add: unat_word_ariths)

lemma unat_of_nat32: "unat (of_nat n :: u32) = n mod 2 ^ 32"
  by (simp add: unat_of_nat take_bit_eq_mod)

lemma unat_lt32: "unat (a :: u32) < 2 ^ 32"
  by (rule order_less_le_trans [OF unsigned_less]) simp

lemma unat_lt16: "unat (a :: u16) < 2 ^ 16"
  by (rule order_less_le_trans [OF unsigned_less]) simp

lemma unat_lt8: "unat (a :: u8) < 2 ^ 8"
  by (rule order_less_le_trans [OF unsigned_less]) simp

lemma mod_shift_inj:
  fixes i j n t :: nat
  assumes "i < n" "j < n" "(t + i) mod n = (t + j) mod n"
  shows "i = j"
proof -
  have "i = j" if "i \<le> j" "j < n" "(t + j) mod n = (t + i) mod n" for i j :: nat
  proof -
    from that have "n dvd (t + j) - (t + i)" by (simp add: mod_eq_dvd_iff_nat)
    then have "n dvd j - i" by simp
    moreover have "j - i < n" using that by simp
    ultimately show ?thesis using that dvd_imp_le [of n "j - i"] by (cases "j - i") auto
  qed
  from this [of i j] this [of j i] assms show ?thesis by (metis nat_le_linear)
qed

lemma replicate_num: "replicate (numeral k) x = x # replicate (pred_numeral k) x"
  by (simp add: numeral_eq_Suc)

lemma ball_list_update: "(\<forall>c \<in> set xs. P c) \<Longrightarrow> P x \<Longrightarrow> \<forall>c \<in> set (xs[i := x]). P c"
  using set_update_subset_insert [of xs i x] by auto

section \<open>Error numbers and results\<close>

datatype errno =
    EPERM | ENOENT | EINTR | EIO | ENOEXEC | EAGAIN | ENOMEM | EACCES | EBUSY | EEXIST
  | ENODEV | EINVAL | EFBIG | ENOSPC | EILSEQ | EMSGSIZE | ETIMEDOUT | EALREADY
  | EINPROGRESS | ECANCELED | ENOTSUP | ENODATA

type_synonym 'a res = "errno + 'a"

abbreviation Err :: "errno \<Rightarrow> 'a res" where "Err e \<equiv> Inl e"
abbreviation Ok :: "'a \<Rightarrow> 'a res" where "Ok v \<equiv> Inr v"

fun is_ok :: "'a res \<Rightarrow> bool" where
  "is_ok (Inr _) = True"
| "is_ok (Inl _) = False"

lemma is_ok_iff: "is_ok r \<longleftrightarrow> (\<exists>v. r = Ok v)"
  by (cases r) auto

section \<open>Hint collections\<close>

named_theorems codec_simps \<open>little-endian codecs and the lengths of encoded structures\<close>
named_theorems range_simps \<open>disjointness and containment of address ranges\<close>

section \<open>First-match scans of a static array\<close>

text \<open>
  Most tables of the code are scanned by \<open>for (i = 0; i < N; i++) if (P(a[i])) ...\<close>:
  the scan stops at the least matching index.
\<close>

fun first_index :: "('a \<Rightarrow> bool) \<Rightarrow> 'a list \<Rightarrow> nat option" where
  "first_index P [] = None"
| "first_index P (x # xs) = (if P x then Some 0 else map_option Suc (first_index P xs))"

lemma first_index_None [simp]: "first_index P xs = None \<longleftrightarrow> (\<forall>x \<in> set xs. \<not> P x)"
  by (induction xs) auto

lemma first_index_SomeD:
  "first_index P xs = Some i \<Longrightarrow> i < length xs \<and> P (xs ! i) \<and> (\<forall>j < i. \<not> P (xs ! j))"
  by (induction xs arbitrary: i)
     (auto split: if_splits simp: less_Suc_eq_0_disj nth_Cons')

lemma first_index_Some_iff:
  "first_index P xs = Some i \<longleftrightarrow> i < length xs \<and> P (xs ! i) \<and> (\<forall>j < i. \<not> P (xs ! j))"
proof
  assume *: "i < length xs \<and> P (xs ! i) \<and> (\<forall>j < i. \<not> P (xs ! j))"
  then have "first_index P xs \<noteq> None" using nth_mem first_index_None by metis
  then obtain k where k: "first_index P xs = Some k" by blast
  with first_index_SomeD [OF k] * have "k = i" by (metis linorder_neqE_nat)
  with k show "first_index P xs = Some i" by simp
qed (rule first_index_SomeD)

lemma first_index_SomeI:
  "i < length xs \<Longrightarrow> P (xs ! i) \<Longrightarrow> (\<And>j. j < i \<Longrightarrow> \<not> P (xs ! j)) \<Longrightarrow> first_index P xs = Some i"
  by (simp add: first_index_Some_iff)

section \<open>C strings\<close>

text \<open>
  A \<open>char\<close> array is a list of bytes; the text in it stops at the first NUL (a list that ends
  stands for a literal, whose terminator is the end of the list). \<open>strncmp (a, b, n) == 0\<close>
  holds exactly when the texts of the first \<open>n\<close> bytes agree.
\<close>

definition cstr :: "nat \<Rightarrow> u8 list \<Rightarrow> u8 list" where
  "cstr n s = takeWhile (\<lambda>c. c \<noteq> 0) (take n s)"

definition strncmp_eq :: "u8 list \<Rightarrow> u8 list \<Rightarrow> nat \<Rightarrow> bool" where
  "strncmp_eq a b n \<longleftrightarrow> cstr n a = cstr n b"

text \<open>\<open>memset (dst, 0, size); strncpy (dst, src, size - 1)\<close>, the idiom of the code.\<close>

definition strncpy_z :: "u8 list \<Rightarrow> nat \<Rightarrow> u8 list" where
  "strncpy_z src sz = (let t = cstr (sz - 1) src in t @ replicate (sz - length t) 0)"

lemma strncmp_eq_refl [simp]: "strncmp_eq a a n"
  by (simp add: strncmp_eq_def)

lemma strncmp_eq_sym: "strncmp_eq a b n \<Longrightarrow> strncmp_eq b a n"
  by (simp add: strncmp_eq_def)

lemma strncmp_eq_trans: "strncmp_eq a b n \<Longrightarrow> strncmp_eq b c n \<Longrightarrow> strncmp_eq a c n"
  by (simp add: strncmp_eq_def)

lemma length_cstr_le: "length (cstr n s) \<le> n"
  using length_takeWhile_le [of "\<lambda>c. c \<noteq> 0" "take n s"] by (simp add: cstr_def)

lemma length_strncpy_z [simp]: "0 < sz \<Longrightarrow> length (strncpy_z src sz) = sz"
  using length_cstr_le [of "sz - 1" src] by (simp add: strncpy_z_def Let_def)

section \<open>Little-endian codecs\<close>

definition le16 :: "u16 \<Rightarrow> u8 list" where
  "le16 w = [ucast w, ucast (drop_bit 8 w)]"

definition le32 :: "u32 \<Rightarrow> u8 list" where
  "le32 w = [ucast w, ucast (drop_bit 8 w), ucast (drop_bit 16 w), ucast (drop_bit 24 w)]"

definition get16 :: "u8 list \<Rightarrow> nat \<Rightarrow> u16" where
  "get16 p k = ucast (p ! k) OR push_bit 8 (ucast (p ! (k + 1)))"

definition get32 :: "u8 list \<Rightarrow> nat \<Rightarrow> u32" where
  "get32 p k = ucast (p ! k) OR push_bit 8 (ucast (p ! (k + 1))) OR
     push_bit 16 (ucast (p ! (k + 2))) OR push_bit 24 (ucast (p ! (k + 3)))"

lemma length_le16 [simp, codec_simps]: "length (le16 w) = 2"
  by (simp add: le16_def)

lemma length_le32 [simp, codec_simps]: "length (le32 w) = 4"
  by (simp add: le32_def)

lemma le32_nth [simp]: "le32 w ! 0 = ucast w" "le32 w ! Suc 0 = ucast (drop_bit 8 w)"
  "le32 w ! 2 = ucast (drop_bit 16 w)" "le32 w ! 3 = ucast (drop_bit 24 w)"
  by (simp_all add: le32_def numeral_2_eq_2 numeral_3_eq_3)

lemma join16: "(ucast (ucast (w :: u16) :: u8) :: u16) OR
   push_bit 8 (ucast (ucast (drop_bit 8 w) :: u8)) = w"
  by (rule bit_word_eqI) (auto simp: bit_simps not_less)

lemma join32: "(ucast (ucast (w :: u32) :: u8) :: u32) OR
   push_bit 8 (ucast (ucast (drop_bit 8 w) :: u8)) OR
   push_bit 16 (ucast (ucast (drop_bit 16 w) :: u8)) OR
   push_bit 24 (ucast (ucast (drop_bit 24 w) :: u8)) = w"
proof (rule bit_word_eqI)
  fix n assume "n < LENGTH(32)"
  then consider "n < 8" | "8 \<le> n" "n < 16" | "16 \<le> n" "n < 24" | "24 \<le> n" "n < 32"
    by (simp, linarith)
  then show "bit ((ucast (ucast w :: u8) :: u32) OR
      push_bit 8 (ucast (ucast (drop_bit 8 w) :: u8)) OR
      push_bit 16 (ucast (ucast (drop_bit 16 w) :: u8)) OR
      push_bit 24 (ucast (ucast (drop_bit 24 w) :: u8))) n = bit w n"
    by cases (auto simp: bit_simps)
qed

lemma get16_le16 [codec_simps]: "k = length xs \<Longrightarrow> get16 (xs @ le16 w @ ys) k = w"
  by (simp add: get16_def le16_def nth_append join16)

lemma get32_le32 [codec_simps]: "k = length xs \<Longrightarrow> get32 (xs @ le32 w @ ys) k = w"
  by (simp add: get32_def le32_def nth_append join32)

section \<open>Address ranges\<close>

definition disjoint_ranges :: "nat \<Rightarrow> nat \<Rightarrow> nat \<Rightarrow> nat \<Rightarrow> bool" where
  "disjoint_ranges a n b m \<longleftrightarrow> a + n \<le> b \<or> b + m \<le> a"

lemma disjoint_ranges_sym [range_simps]: "disjoint_ranges a n b m = disjoint_ranges b m a n"
  by (auto simp: disjoint_ranges_def)

text \<open>A byte region of a memory image, and a block copy into one.\<close>

definition slice :: "nat \<Rightarrow> nat \<Rightarrow> 'a list \<Rightarrow> 'a list" where
  "slice off len m = take len (drop off m)"

definition blit :: "nat \<Rightarrow> 'a list \<Rightarrow> 'a list \<Rightarrow> 'a list" where
  "blit off src m = take off m @ src @ drop (off + length src) m"

lemma length_slice [simp]: "off + len \<le> length m \<Longrightarrow> length (slice off len m) = len"
  by (simp add: slice_def)

lemma length_blit [simp]: "off + length src \<le> length m \<Longrightarrow> length (blit off src m) = length m"
  by (simp add: blit_def)

lemma nth_blit:
  "off + length src \<le> length m \<Longrightarrow> i < length m \<Longrightarrow>
   blit off src m ! i = (if off \<le> i \<and> i < off + length src then src ! (i - off) else m ! i)"
  by (auto simp: blit_def nth_append min_def)

lemma slice_blit_same [simp]:
  "off + length src \<le> length m \<Longrightarrow> n = length src \<Longrightarrow> slice off n (blit off src m) = src"
  by (simp add: slice_def blit_def)

lemma nth_slice: "i < len \<Longrightarrow> off + len \<le> length m \<Longrightarrow> slice off len m ! i = m ! (off + i)"
  by (simp add: slice_def)

lemma slice_blit_other:
  assumes "off + length src \<le> length m" and "a + n \<le> length m"
    and "disjoint_ranges a n off (length src)"
  shows "slice a n (blit off src m) = slice a n m"
proof (rule nth_equalityI)
  show "length (slice a n (blit off src m)) = length (slice a n m)"
    using assms by simp
next
  fix i assume "i < length (slice a n (blit off src m))"
  with assms show "slice a n (blit off src m) ! i = slice a n m ! i"
    by (auto simp: nth_slice nth_blit disjoint_ranges_def)
qed

lemma slice_append: "slice off (a + b) m = slice off a m @ slice (off + a) b m"
  by (simp add: slice_def take_add add.commute)

lemma slice_0 [simp]: "slice off 0 m = []"
  by (simp add: slice_def)

lemma slice_slice: "a + n \<le> len \<Longrightarrow> slice a n (slice off len m) = slice (off + a) n m"
  by (simp add: slice_def drop_take min_def add.commute)

end
