(* ===== verification/Float32.thy ===== *)
theory Float32
  imports Syn_Prelude
begin

text \<open>
  The \<open>float\<close> of the C code: IEEE 754 binary32, held as its 32 bits, with the operations the sources
  use: arithmetic rounded to nearest even, the comparisons, the conversions from and to integers and
  the exact functions of \<open>math.h\<close>. Every finite value is a whole number of units of \<open>2 ^ -149\<close>, so the
  arithmetic is exact integer arithmetic followed by one rounding. A NaN result is the default NaN of
  the target. Each C operation is rounded on its own (no fused multiply-add). The functions of
  \<open>math.h\<close> whose last bit the C standard leaves open are the fields of a record \<open>libm\<close>.
\<close>

section \<open>Values\<close>

type_synonym f32 = u32

datatype fval = F_nan | F_inf bool | F_fin bool nat

fun bit_len :: "nat \<Rightarrow> nat" where
  "bit_len n = (if n = 0 then 0 else Suc (bit_len (n div 2)))"

declare bit_len.simps [simp del]

definition f_decode :: "f32 \<Rightarrow> fval" where
  "f_decode w =
     (let s = bit w 31; e = unat w div 2 ^ 23 mod 2 ^ 8; m = unat w mod 2 ^ 23
      in if e = 255 then if m = 0 then F_inf s else F_nan
         else if e = 0 then F_fin s m
         else F_fin s ((2 ^ 23 + m) * 2 ^ (e - 1)))"

definition f_sign :: "bool \<Rightarrow> u32" where
  "f_sign s = (if s then 0x80000000 else 0)"

text \<open>\<open>n\<close> units, \<open>n\<close> a multiple of its unit in the last place.\<close>

fun f_encode :: "fval \<Rightarrow> f32" where
  "f_encode F_nan = 0x7FC00000"
| "f_encode (F_inf s) = f_sign s + 0x7F800000"
| "f_encode (F_fin s n) =
     (if n < 2 ^ 23 then f_sign s + of_nat n
      else let k = bit_len n - 24 in f_sign s + of_nat ((k + 1) * 2 ^ 23 + (n div 2 ^ k - 2 ^ 23)))"

text \<open>The quotient \<open>num / den\<close> (in units) to 24 significant bits, ties to even.\<close>

definition div_even :: "nat \<Rightarrow> nat \<Rightarrow> nat" where
  "div_even num den =
     (let q = num div den; r = num mod den
      in if 2 * r < den then q else if 2 * r > den then q + 1 else if even q then q else q + 1)"

definition f_round :: "bool \<Rightarrow> nat \<Rightarrow> nat \<Rightarrow> fval" where
  "f_round s num den =
     (let k = bit_len (num div den) - 24; n = div_even num (den * 2 ^ k) * 2 ^ k
      in if n \<ge> 2 ^ 277 then F_inf s else F_fin s n)"

definition f_int :: "fval \<Rightarrow> int" where
  "f_int v = (case v of F_fin s n \<Rightarrow> (if s then - int n else int n) | F_inf s \<Rightarrow> (if s then - (2 ^ 300) else 2 ^ 300) | F_nan \<Rightarrow> 0)"

section \<open>Arithmetic\<close>

definition v_neg :: "fval \<Rightarrow> fval" where
  "v_neg v = (case v of F_fin s n \<Rightarrow> F_fin (\<not> s) n | F_inf s \<Rightarrow> F_inf (\<not> s) | F_nan \<Rightarrow> F_nan)"

fun v_add :: "fval \<Rightarrow> fval \<Rightarrow> fval" where
  "v_add (F_fin s m) (F_fin t n) =
     (let v = f_int (F_fin s m) + f_int (F_fin t n)
      in if v = 0 then F_fin (s \<and> t) 0 else f_round (v < 0) (nat \<bar>v\<bar>) 1)"
| "v_add (F_inf s) (F_inf t) = (if s = t then F_inf s else F_nan)"
| "v_add (F_inf s) (F_fin t n) = F_inf s"
| "v_add (F_fin s m) (F_inf t) = F_inf t"
| "v_add _ _ = F_nan"

fun v_mul :: "fval \<Rightarrow> fval \<Rightarrow> fval" where
  "v_mul (F_fin s m) (F_fin t n) = f_round (s \<noteq> t) (m * n) (2 ^ 149)"
| "v_mul (F_inf s) (F_inf t) = F_inf (s \<noteq> t)"
| "v_mul (F_inf s) (F_fin t n) = (if n = 0 then F_nan else F_inf (s \<noteq> t))"
| "v_mul (F_fin s m) (F_inf t) = (if m = 0 then F_nan else F_inf (s \<noteq> t))"
| "v_mul _ _ = F_nan"

fun v_div :: "fval \<Rightarrow> fval \<Rightarrow> fval" where
  "v_div (F_fin s m) (F_fin t n) =
     (if n = 0 then if m = 0 then F_nan else F_inf (s \<noteq> t) else f_round (s \<noteq> t) (m * 2 ^ 149) n)"
| "v_div (F_inf s) (F_fin t n) = F_inf (s \<noteq> t)"
| "v_div (F_fin s m) (F_inf t) = F_fin (s \<noteq> t) 0"
| "v_div _ _ = F_nan"

definition f_add :: "f32 \<Rightarrow> f32 \<Rightarrow> f32" where "f_add a b = f_encode (v_add (f_decode a) (f_decode b))"
definition f_sub :: "f32 \<Rightarrow> f32 \<Rightarrow> f32" where "f_sub a b = f_encode (v_add (f_decode a) (v_neg (f_decode b)))"
definition f_mul :: "f32 \<Rightarrow> f32 \<Rightarrow> f32" where "f_mul a b = f_encode (v_mul (f_decode a) (f_decode b))"
definition f_div :: "f32 \<Rightarrow> f32 \<Rightarrow> f32" where "f_div a b = f_encode (v_div (f_decode a) (f_decode b))"
definition f_abs :: "f32 \<Rightarrow> f32" where "f_abs a = a AND 0x7FFFFFFF"

section \<open>Comparisons\<close>

definition f_is_nan :: "f32 \<Rightarrow> bool" where "f_is_nan a \<longleftrightarrow> f_decode a = F_nan"
definition f_key :: "f32 \<Rightarrow> int" where "f_key a = f_int (f_decode a)"
definition f_lt :: "f32 \<Rightarrow> f32 \<Rightarrow> bool" where "f_lt a b \<longleftrightarrow> \<not> f_is_nan a \<and> \<not> f_is_nan b \<and> f_key a < f_key b"
definition f_le :: "f32 \<Rightarrow> f32 \<Rightarrow> bool" where "f_le a b \<longleftrightarrow> \<not> f_is_nan a \<and> \<not> f_is_nan b \<and> f_key a \<le> f_key b"
definition f_eq :: "f32 \<Rightarrow> f32 \<Rightarrow> bool" where "f_eq a b \<longleftrightarrow> \<not> f_is_nan a \<and> \<not> f_is_nan b \<and> f_key a = f_key b"

lemma f_lt_iff: "\<not> f_is_nan a \<Longrightarrow> \<not> f_is_nan b \<Longrightarrow> f_lt a b \<longleftrightarrow> f_key a < f_key b"
  by (simp add: f_lt_def)

lemma f_lt_irrefl [simp]: "\<not> f_lt a a"
  by (simp add: f_lt_def)

lemma f_lt_trans: "f_lt a b \<Longrightarrow> f_lt b c \<Longrightarrow> f_lt a c"
  by (auto simp: f_lt_def)

section \<open>Conversions\<close>

definition f_of_int :: "int \<Rightarrow> f32" where
  "f_of_int i = f_encode (f_round (i < 0) (nat \<bar>i\<bar> * 2 ^ 149) 1)"

text \<open>A decimal literal \<open>num / den\<close>.\<close>

definition f_lit :: "int \<Rightarrow> nat \<Rightarrow> f32" where
  "f_lit num den = f_encode (f_round (num < 0) (nat \<bar>num\<bar> * 2 ^ 149) den)"

text \<open>
  \<open>(int32_t)x\<close> and \<open>(uint32_t)x\<close> truncate towards zero. Out of range the C standard leaves the result
  open and the conversion instruction of the target saturates, with 0 for a NaN.
\<close>

definition f_trunc :: "f32 \<Rightarrow> int" where
  "f_trunc a = (case f_decode a of
       F_fin s n \<Rightarrow> (let q = int (n div 2 ^ 149) in if s then - q else q)
     | F_inf s \<Rightarrow> (if s then - (2 ^ 40) else 2 ^ 40)
     | F_nan \<Rightarrow> 0)"

definition sat_int :: "int \<Rightarrow> int \<Rightarrow> int \<Rightarrow> int" where
  "sat_int lo hi v = (if v < lo then lo else if v > hi then hi else v)"

definition f_to_i32 :: "f32 \<Rightarrow> int" where "f_to_i32 a = sat_int (- (2 ^ 31)) (2 ^ 31 - 1) (f_trunc a)"
definition f_to_u32 :: "f32 \<Rightarrow> u32" where "f_to_u32 a = of_int (sat_int 0 (2 ^ 32 - 1) (f_trunc a))"

text \<open>\<open>lroundf\<close>: to the nearest integer, halves away from zero.\<close>

definition f_lround :: "f32 \<Rightarrow> int" where
  "f_lround a = (case f_decode a of
       F_fin s n \<Rightarrow> (let q = int ((2 * n + 2 ^ 149) div 2 ^ 150) in sat_int (- (2 ^ 31)) (2 ^ 31 - 1) (if s then - q else q))
     | F_inf s \<Rightarrow> (if s then - (2 ^ 31) else 2 ^ 31 - 1)
     | F_nan \<Rightarrow> 0)"

text \<open>A 32-bit signed addition, with the wrap-around of the target.\<close>

definition add_i32 :: "int \<Rightarrow> int \<Rightarrow> int" where
  "add_i32 a b = (a + b + 2 ^ 31) mod 2 ^ 32 - 2 ^ 31"

text \<open>\<open>frexpf\<close> (the exponent it stores) and \<open>ldexpf (1.0f, e)\<close>, for finite nonzero arguments.\<close>

definition f_frexp :: "f32 \<Rightarrow> int" where
  "f_frexp a = (case f_decode a of F_fin s n \<Rightarrow> int (bit_len n) - 149 | _ \<Rightarrow> 0)"

definition f_exp2 :: "int \<Rightarrow> f32" where
  "f_exp2 e = (if e \<ge> 0 then f_encode (f_round False (2 ^ (nat e + 149)) 1) else f_encode (f_round False (2 ^ 149) (2 ^ nat (- e))))"

record libm =
  m_exp :: "f32 \<Rightarrow> f32"
  m_cos :: "f32 \<Rightarrow> f32"
  m_sin :: "f32 \<Rightarrow> f32"
  m_log :: "f32 \<Rightarrow> f32"
  m_log10 :: "f32 \<Rightarrow> f32"
  m_pow :: "f32 \<Rightarrow> f32 \<Rightarrow> f32"

section \<open>Evaluation\<close>

lemma bit_len_eval:
  "bit_len 0 = 0" "bit_len (Suc 0) = 1" "bit_len 1 = 1" "bit_len (numeral k) = Suc (bit_len (numeral k div 2))"
  by (subst bit_len.simps; simp add: bit_len.simps [of 0])+

named_theorems float_simps \<open>evaluation of binary32 operations at numerals\<close>

lemmas [float_simps] = f_div_def f_mul_def f_add_def f_sub_def f_abs_def f_decode_def f_round_def div_even_def f_sign_def
  f_int_def v_neg_def f_lit_def f_of_int_def f_lround_def f_trunc_def f_frexp_def f_exp2_def f_to_i32_def f_to_u32_def
  sat_int_def add_i32_def f_key_def f_is_nan_def f_lt_def f_le_def f_eq_def Let_def bit_len_eval

text \<open>Known answers: a rounded quotient and product, a denormal result, overflow, a tie to even.\<close>

lemma float_known_answers:
  "f_div 0x3F800000 0x40400000 = 0x3EAAAAAB" "f_mul 0x3DCCCCCD 0x3DCCCCCD = 0x3C23D70B" "f_lit 1 10 = 0x3DCCCCCD"
  "f_mul 0x00800000 0x3F000000 = 0x00400000" "f_mul 0x7F7FFFFF 0x40000000 = 0x7F800000" "f_lround 0xC0200000 = - 3"
  "f_trunc 0xC0200000 = - 2" "f_of_int 16777217 = f_of_int 16777216"
  by (simp_all add: float_simps)

section \<open>Small integers are exact\<close>

lemma bit_len_0 [simp]: "bit_len 0 = 0"
  by (simp add: bit_len.simps)

lemma bit_len_le_iff: "bit_len n \<le> k \<longleftrightarrow> n < 2 ^ k"
proof (induction n arbitrary: k rule: bit_len.induct)
  case (1 n)
  show ?case
  proof (cases "n = 0")
    case False
    then show ?thesis using 1 [of "k - 1"] by (cases k) (auto simp: bit_len.simps [of n])
  qed simp
qed

lemma bit_len_eqI:
  assumes "2 ^ k \<le> n" "n < 2 ^ Suc k" shows "bit_len n = Suc k"
  using bit_len_le_iff [of n "Suc k"] bit_len_le_iff [of n k] assms by linarith

lemma bit_len_shift: "0 < n \<Longrightarrow> bit_len (n * 2 ^ k) = bit_len n + k"
proof -
  assume n: "0 < n"
  then have "bit_len n \<noteq> 0" using bit_len.simps [of n] by simp
  then obtain l where l: "bit_len n = Suc l" by (cases "bit_len n") auto
  have "2 ^ l \<le> n" "n < 2 ^ Suc l" using bit_len_le_iff [of n l] bit_len_le_iff [of n "Suc l"] l by auto
  then have "bit_len (n * 2 ^ k) = Suc (l + k)" by (intro bit_len_eqI) (simp_all add: power_add)
  then show ?thesis using l by simp
qed

lemma div_even_exact: "0 < d \<Longrightarrow> div_even (q * d) d = q"
  by (simp add: div_even_def Let_def)

lemma bit_len_ge: "0 < n \<Longrightarrow> 2 ^ (bit_len n - 1) \<le> n"
  using bit_len_le_iff [of n "bit_len n - 1"] bit_len.simps [of n] by (simp add: linorder_not_less [symmetric])

lemma div_mod_split: "m < (d :: nat) \<Longrightarrow> (a * d + m) div d = a \<and> (a * d + m) mod d = m"
  by simp

lemma f_decode_mk:
  assumes "e < 256" "m < 2 ^ 23"
  shows "f_decode (f_sign s + of_nat (e * 2 ^ 23 + m)) =
    (if e = 255 then if m = 0 then F_inf s else F_nan else if e = 0 then F_fin s m else F_fin s ((2 ^ 23 + m) * 2 ^ (e - 1)))"
proof -
  define N where "N = e * 2 ^ 23 + m"
  define w where "w = (f_sign s + of_nat N :: u32)"
  have lt: "N < 2 ^ 31" using assms by (simp add: N_def)
  then have w: "unat w = (if s then 2 ^ 31 else 0) + N"
    by (simp add: w_def f_sign_def unat_add32 unat_of_nat32)
  have "bit w 31 = odd (unat w div 2 ^ 31)" using bit_unsigned_iff [where 'a = nat, of w 31] by (simp add: bit_iff_odd [where 'a = nat])
  moreover have "unat w div 2 ^ 31 = (if s then 1 else 0)" using lt by (simp add: w div_nat_eqI)
  ultimately have s: "bit w 31 = s" by simp
  have "unat w = ((if s then 256 else 0) + e) * 2 ^ 23 + m" by (simp add: w N_def)
  then have e: "unat w div 2 ^ 23 mod 2 ^ 8 = e" and m: "unat w mod 2 ^ 23 = m"
    using div_mod_split [OF assms(2), of "(if s then 256 else 0) + e"] assms(1) by simp_all
  show ?thesis unfolding N_def [symmetric] w_def [symmetric] f_decode_def Let_def s e m by simp
qed

lemma f_decode_encode_int:
  assumes "n < 2 ^ 24" shows "f_decode (f_encode (F_fin s (n * 2 ^ 149))) = F_fin s (n * 2 ^ 149)"
proof (cases "n = 0")
  case True
  then show ?thesis using f_decode_mk [of 0 0 s] by simp
next
  case False
  define l where "l = bit_len n"
  have l: "1 \<le> l" "l \<le> 24" using bit_len_le_iff [of n 24] bit_len.simps [of n] False assms by (auto simp: l_def)
  have bl: "bit_len (n * 2 ^ 149) = l + 149" using bit_len_shift [of n 149] False by (simp add: l_def)
  have big: "\<not> n * 2 ^ 149 < 2 ^ 23" using False by (simp add: linorder_not_less)
  have d: "n * 2 ^ 149 div 2 ^ (l + 125) = n * 2 ^ (24 - l)"
  proof -
    have "n * 2 ^ 149 = n * 2 ^ (24 - l) * 2 ^ (l + 125)" using l by (simp add: mult.assoc power_add [symmetric])
    then show ?thesis by (metis nonzero_mult_div_cancel_right power_not_zero zero_neq_numeral)
  qed
  have r: "2 ^ 23 \<le> n * 2 ^ (24 - l)" "n * 2 ^ (24 - l) < 2 ^ 24"
  proof -
    have "2 ^ (l - 1) * 2 ^ (24 - l) \<le> n * 2 ^ (24 - l)" using bit_len_ge [of n] False by (simp add: l_def)
    then show "2 ^ 23 \<le> n * 2 ^ (24 - l)" using l by (simp add: power_add [symmetric])
    have "n < 2 ^ l" using bit_len_le_iff [of n l] by (simp add: l_def)
    then have "n * 2 ^ (24 - l) < 2 ^ l * 2 ^ (24 - l)" by simp
    then show "n * 2 ^ (24 - l) < 2 ^ 24" using l by (simp only: power_add [symmetric]) simp
  qed
  have "f_decode (f_encode (F_fin s (n * 2 ^ 149))) =
      f_decode (f_sign s + of_nat ((l + 126) * 2 ^ 23 + (n * 2 ^ (24 - l) - 2 ^ 23)))"
    using big bl d l by (simp add: Let_def add.commute)
  also have "\<dots> = F_fin s ((2 ^ 23 + (n * 2 ^ (24 - l) - 2 ^ 23)) * 2 ^ (l + 125))"
    using f_decode_mk [of "l + 126" "n * 2 ^ (24 - l) - 2 ^ 23" s] l r by simp
  also have "(2 ^ 23 + (n * 2 ^ (24 - l) - 2 ^ 23)) * 2 ^ (l + 125) = n * 2 ^ 149"
    using l r by (simp add: mult.assoc power_add [symmetric])
  finally show ?thesis .
qed

lemma f_round_int: "n < 2 ^ 24 \<Longrightarrow> f_round s (n * 2 ^ 149) 1 = F_fin s (n * 2 ^ 149)"
proof -
  assume n: "n < 2 ^ 24"
  have k: "bit_len (n * 2 ^ 149) - 24 \<le> 149"
  proof (cases "n = 0")
    case False
    then show ?thesis using bit_len_shift [of n 149] bit_len_le_iff [of n 24] n by simp
  qed simp
  define k where "k = bit_len (n * 2 ^ 149) - 24"
  have "n * 2 ^ 149 = (n * 2 ^ (149 - k)) * 2 ^ k" using k by (simp add: k_def mult.assoc power_add [symmetric])
  then have "div_even (n * 2 ^ 149) (1 * 2 ^ k) * 2 ^ k = n * 2 ^ 149"
    using div_even_exact [of "2 ^ k" "n * 2 ^ (149 - k)"] by (metis mult_1 zero_less_numeral zero_less_power)
  moreover have "n * 2 ^ 149 < 2 ^ 277"
  proof -
    have "n * 2 ^ 149 < 2 ^ 24 * 2 ^ 149" using n by simp
    also have "(2 :: nat) ^ 24 * 2 ^ 149 \<le> 2 ^ 277" by simp
    finally show ?thesis .
  qed
  ultimately show ?thesis by (simp add: f_round_def Let_def k_def)
qed

lemma f_of_int_key:
  assumes "\<bar>i\<bar> < 2 ^ 24" shows "f_decode (f_of_int i) = F_fin (i < 0) (nat \<bar>i\<bar> * 2 ^ 149)"
  using f_round_int [of "nat \<bar>i\<bar>" "i < 0"] f_decode_encode_int [of "nat \<bar>i\<bar>" "i < 0"] assms
  by (simp add: f_of_int_def nat_less_iff)

lemma f_of_int_lt:
  assumes "\<bar>i\<bar> < 2 ^ 24" "\<bar>j\<bar> < 2 ^ 24" shows "f_lt (f_of_int i) (f_of_int j) \<longleftrightarrow> i < j"
proof -
  have "f_key (f_of_int i) = i * 2 ^ 149" if "\<bar>i\<bar> < 2 ^ 24" for i
    using f_of_int_key [OF that] by (simp add: f_key_def f_int_def)
  moreover have "\<not> f_is_nan (f_of_int i)" if "\<bar>i\<bar> < 2 ^ 24" for i
    using f_of_int_key [OF that] by (simp add: f_is_nan_def)
  ultimately show ?thesis using assms by (simp add: f_lt_def)
qed

end
