(* ===== verification/Ipc_Ring.thy ===== *)
theory Ipc_Ring
  imports Syn_Prelude
begin

text \<open>
  The single-producer single-consumer ring of \<open>src/core/syn_ipc_ring.c\<close> over the shared
  structure of \<open>src/core/syn_shared_layout.h\<close>: free-running 32-bit indices, slot number
  \<open>index % SYN_IPC_RING_ENTRIES\<close>. The number of entries is the length of the slot list.

  The sequential operations refine a bounded FIFO list (locale \<open>bounded_fifo\<close>), across the
  wrap-around of the indices, when the entry count divides \<open>2 ^ 32\<close>. The interleaved model
  splits push and pop at their barriers and shows that no interleaving of one producer and
  one consumer loses, duplicates, reorders or tears a message.
\<close>

section \<open>Data\<close>

record syn_ipc_msg =
  im_msg_id :: u32
  im_type :: u8
  im_priority :: u8
  im_payload_len :: u16
  im_payload_offset :: u32
  im_timestamp_us :: u32
  im_status :: int

record 'm syn_ipc_ring =
  rb_head :: u32
  rb_tail :: u32
  rb_slots :: "'m list"

definition ring_entries :: "'m syn_ipc_ring \<Rightarrow> u32" where
  "ring_entries r = of_nat (length (rb_slots r))"

section \<open>Operations\<close>

definition syn_ipc_ring_reset :: "'m syn_ipc_ring \<Rightarrow> 'm syn_ipc_ring" where
  "syn_ipc_ring_reset r = r\<lparr>rb_head := 0, rb_tail := 0\<rparr>"

definition syn_ipc_ring_push :: "'m syn_ipc_ring \<Rightarrow> 'm \<Rightarrow> unit res \<times> 'm syn_ipc_ring" where
  "syn_ipc_ring_push r m =
     (let head = rb_head r in
      if head - rb_tail r \<ge> ring_entries r then (Err EAGAIN, r)
      else (Ok (), r\<lparr>rb_slots := (rb_slots r)[unat (head mod ring_entries r) := m],
                     rb_head := head + 1\<rparr>))"

definition syn_ipc_ring_pop :: "'m syn_ipc_ring \<Rightarrow> 'm res \<times> 'm syn_ipc_ring" where
  "syn_ipc_ring_pop r =
     (let tail = rb_tail r in
      if rb_head r = tail then (Err EAGAIN, r)
      else (Ok (rb_slots r ! unat (tail mod ring_entries r)), r\<lparr>rb_tail := tail + 1\<rparr>))"

definition syn_ipc_ring_is_empty :: "'m syn_ipc_ring \<Rightarrow> bool" where
  "syn_ipc_ring_is_empty r \<longleftrightarrow> rb_head r = rb_tail r"

definition syn_ipc_ring_is_full :: "'m syn_ipc_ring \<Rightarrow> bool" where
  "syn_ipc_ring_is_full r \<longleftrightarrow> rb_head r - rb_tail r \<ge> ring_entries r"

definition syn_ipc_ring_count :: "'m syn_ipc_ring \<Rightarrow> u32" where
  "syn_ipc_ring_count r = rb_head r - rb_tail r"

section \<open>Abstraction to a list\<close>

definition ring_wf :: "'m syn_ipc_ring \<Rightarrow> bool" where
  "ring_wf r \<longleftrightarrow> 0 < length (rb_slots r) \<and> length (rb_slots r) dvd 2 ^ 32 \<and>
     length (rb_slots r) < 2 ^ 32 \<and> unat (rb_head r - rb_tail r) \<le> length (rb_slots r)"

definition ring_slot :: "'m syn_ipc_ring \<Rightarrow> nat \<Rightarrow> nat" where
  "ring_slot r i = (unat (rb_tail r) + i) mod length (rb_slots r)"

definition ring_abs :: "'m syn_ipc_ring \<Rightarrow> 'm list" where
  "ring_abs r = map (\<lambda>i. rb_slots r ! ring_slot r i) [0..<unat (rb_head r - rb_tail r)]"

lemma length_ring_abs [simp]: "length (ring_abs r) = unat (rb_head r - rb_tail r)"
  by (simp add: ring_abs_def)

lemma ring_abs_nth:
  "i < unat (rb_head r - rb_tail r) \<Longrightarrow> ring_abs r ! i = rb_slots r ! ring_slot r i"
  by (simp add: ring_abs_def)

lemma unat_ring_entries: "ring_wf r \<Longrightarrow> unat (ring_entries r) = length (rb_slots r)"
  by (simp add: ring_wf_def ring_entries_def unat_of_nat take_bit_nat_eq_self)

lemma index_mod:
  assumes "ring_wf r"
  shows "unat (w mod ring_entries r) = unat w mod length (rb_slots r)"
  using assms by (simp add: unat_mod_distrib unat_ring_entries)

lemma tail_slot: "ring_wf r \<Longrightarrow> unat (rb_tail r mod ring_entries r) = ring_slot r 0"
  by (simp add: index_mod ring_slot_def)

lemma head_slot:
  assumes "ring_wf r"
  shows "unat (rb_head r mod ring_entries r) = ring_slot r (unat (rb_head r - rb_tail r))"
proof -
  have "rb_head r = rb_tail r + (rb_head r - rb_tail r)" by simp
  then have "unat (rb_head r) = (unat (rb_tail r) + unat (rb_head r - rb_tail r)) mod 2 ^ 32"
    by (metis unat_add32)
  moreover have "length (rb_slots r) dvd 2 ^ 32" using assms by (simp add: ring_wf_def)
  ultimately show ?thesis
    using assms by (simp add: index_mod ring_slot_def mod_mod_cancel)
qed

lemma ring_slot_bound: "ring_wf r \<Longrightarrow> ring_slot r i < length (rb_slots r)"
  by (simp add: ring_slot_def ring_wf_def)

lemma ring_slot_inj:
  assumes "i < length (rb_slots r)" "j < length (rb_slots r)" "ring_slot r i = ring_slot r j"
  shows "i = j"
  using assms unfolding ring_slot_def by (rule mod_shift_inj)

lemma full_iff:
  "ring_wf r \<Longrightarrow> ring_entries r \<le> rb_head r - rb_tail r \<longleftrightarrow>
     length (ring_abs r) = length (rb_slots r)"
  by (auto simp: word_le_nat_alt unat_ring_entries ring_wf_def)

lemma empty_iff_abs: "rb_head r = rb_tail r \<longleftrightarrow> ring_abs r = []"
proof -
  have "ring_abs r = [] \<longleftrightarrow> unat (rb_head r - rb_tail r) = 0"
    by (metis length_0_conv length_ring_abs)
  then show ?thesis by (simp add: unat_eq_0)
qed

lemma ring_wf_reset: "ring_wf r \<Longrightarrow> ring_wf (syn_ipc_ring_reset r)"
  by (simp add: ring_wf_def syn_ipc_ring_reset_def)

lemma ring_abs_reset: "ring_abs (syn_ipc_ring_reset r) = []"
  by (simp add: ring_abs_def syn_ipc_ring_reset_def)

section \<open>Refinement: the ring is a bounded FIFO\<close>

text \<open>The indices after one push and after one pop, away from the wrap of the difference.\<close>

lemma count_after_push:
  assumes "unat (h - t) < n" "n < 2 ^ 32"
  shows "unat (h + 1 - t :: u32) = Suc (unat (h - t))"
proof -
  have "h + 1 - t = (h - t) + 1" by simp
  then have "unat (h + 1 - t) = (unat (h - t) + 1) mod 2 ^ 32"
    by (metis unat_add32 unsigned_1)
  with assms show ?thesis by simp
qed

lemma count_after_pop:
  assumes "h \<noteq> t"
  shows "unat (h - (t + 1) :: u32) = unat (h - t) - 1"
proof -
  have "unat (h - t) \<noteq> 0" using assms by (simp add: unat_eq_0)
  then have "unat ((h - t) - 1) = unat (h - t) - 1"
    by (metis unat_minus_one unsigned_0)
  then show ?thesis by (simp add: diff_diff_eq)
qed

lemma slot_after_pop:
  assumes "ring_wf r"
  shows "(unat (rb_tail r + 1) + i) mod length (rb_slots r) = ring_slot r (Suc i)"
proof -
  have d: "length (rb_slots r) dvd 2 ^ 32" using assms by (simp add: ring_wf_def)
  have "unat (rb_tail r + 1) = (unat (rb_tail r) + 1) mod 2 ^ 32"
    by (metis unat_add32 unsigned_1)
  then have "unat (rb_tail r + 1) mod length (rb_slots r) = (unat (rb_tail r) + 1) mod length (rb_slots r)"
    using d by (simp add: mod_mod_cancel)
  then show ?thesis unfolding ring_slot_def
    by (metis add_Suc_shift mod_add_left_eq Suc_eq_plus1)
qed

lemma ring_push_full:
  assumes "ring_wf r" "length (ring_abs r) = length (rb_slots r)"
  shows "syn_ipc_ring_push r m = (Err EAGAIN, r)"
  using assms full_iff [OF assms(1)] by (simp add: syn_ipc_ring_push_def)

lemma ring_push_ok:
  fixes r :: "'m syn_ipc_ring" and m :: 'm
  assumes wf: "ring_wf r" and room: "length (ring_abs r) < length (rb_slots r)"
  defines "r' \<equiv> r\<lparr>rb_slots := (rb_slots r)[ring_slot r (length (ring_abs r)) := m],
                   rb_head := rb_head r + 1\<rparr>"
  shows "syn_ipc_ring_push r m = (Ok (), r')" and "ring_wf r'" and "ring_abs r' = ring_abs r @ [m]"
proof -
  show "syn_ipc_ring_push r m = (Ok (), r')"
    using room full_iff [OF wf] head_slot [OF wf]
    by (simp add: syn_ipc_ring_push_def r'_def Let_def)
  have lt: "length (rb_slots r) < 2 ^ 32" using wf by (simp add: ring_wf_def)
  have cnt: "unat (rb_head r + 1 - rb_tail r) = Suc (unat (rb_head r - rb_tail r))"
    using room lt by (intro count_after_push [of _ _ "length (rb_slots r)"]) simp_all
  show "ring_wf r'" using wf room cnt by (simp add: ring_wf_def r'_def)
  show "ring_abs r' = ring_abs r @ [m]"
  proof (rule nth_equalityI)
    show "length (ring_abs r') = length (ring_abs r @ [m])" using cnt by (simp add: r'_def)
  next
    fix i assume "i < length (ring_abs r')"
    then have i: "i < Suc (length (ring_abs r))" using cnt by (simp add: r'_def)
    have sl: "ring_slot r' i = ring_slot r i" for i by (simp add: ring_slot_def r'_def)
    have "ring_abs r' ! i = rb_slots r' ! ring_slot r i"
      using i cnt by (subst ring_abs_nth) (simp_all add: sl, simp add: r'_def)
    also have "\<dots> = (ring_abs r @ [m]) ! i"
    proof (cases "i = length (ring_abs r)")
      case True
      then show ?thesis using ring_slot_bound [OF wf] by (simp add: r'_def nth_append)
    next
      case False
      then have lti: "i < length (ring_abs r)" using i by simp
      then have "ring_slot r i \<noteq> ring_slot r (length (ring_abs r))"
        using ring_slot_inj [of i r "length (ring_abs r)"] room by auto
      then show ?thesis using lti by (simp add: r'_def nth_append ring_abs_nth)
    qed
    finally show "ring_abs r' ! i = (ring_abs r @ [m]) ! i" .
  qed
qed

lemma ring_pop_empty: "ring_abs r = [] \<Longrightarrow> syn_ipc_ring_pop r = (Err EAGAIN, r)"
  using empty_iff_abs [of r] by (simp add: syn_ipc_ring_pop_def)

lemma ring_pop_ok:
  assumes wf: "ring_wf r" and ne: "ring_abs r \<noteq> []"
  defines "r' \<equiv> r\<lparr>rb_tail := rb_tail r + 1\<rparr>"
  shows "syn_ipc_ring_pop r = (Ok (hd (ring_abs r)), r')" and "ring_wf r'"
    and "ring_abs r' = tl (ring_abs r)"
proof -
  have neq: "rb_head r \<noteq> rb_tail r" using ne empty_iff_abs by blast
  have pos: "0 < unat (rb_head r - rb_tail r)" using neq by (simp add: unat_gt_0)
  have "hd (ring_abs r) = rb_slots r ! ring_slot r 0"
    using ne pos by (simp add: hd_conv_nth ring_abs_nth)
  then show "syn_ipc_ring_pop r = (Ok (hd (ring_abs r)), r')"
    using neq tail_slot [OF wf] by (simp add: syn_ipc_ring_pop_def r'_def)
  have cnt: "unat (rb_head r - (rb_tail r + 1)) = unat (rb_head r - rb_tail r) - 1"
    using neq by (rule count_after_pop)
  show "ring_wf r'" using wf cnt by (auto simp: ring_wf_def r'_def)
  show "ring_abs r' = tl (ring_abs r)"
  proof (rule nth_equalityI)
    show "length (ring_abs r') = length (tl (ring_abs r))" using cnt by (simp add: r'_def)
  next
    fix i assume "i < length (ring_abs r')"
    then have i: "Suc i < unat (rb_head r - rb_tail r)" using cnt by (simp add: r'_def)
    have "ring_slot r' i = ring_slot r (Suc i)"
      using slot_after_pop [OF wf, of i] by (simp add: ring_slot_def r'_def)
    moreover have "ring_abs r' ! i = rb_slots r' ! ring_slot r' i"
      using i cnt by (intro ring_abs_nth) (simp add: r'_def)
    ultimately show "ring_abs r' ! i = tl (ring_abs r) ! i"
      using i by (simp add: nth_tl ring_abs_nth r'_def)
  qed
qed

subsection \<open>The interface the ring's clients rely on\<close>

text \<open>
  What a sender and the receive loop of \<open>syn_ipc.c\<close> rely on: a bounded FIFO with an
  abstraction to lists. \<open>enq_all\<close> is a burst of sends that stops at the first failure,
  \<open>deq_all\<close> the receive loop \<open>while (pop (&msg) == 0) ...\<close>, whose fuel is the capacity.
\<close>

fun enq_all :: "('q \<Rightarrow> 'm \<Rightarrow> unit res \<times> 'q) \<Rightarrow> 'q \<Rightarrow> 'm list \<Rightarrow> nat \<times> 'q" where
  "enq_all enq q [] = (0, q)"
| "enq_all enq q (m # ms) =
     (case enq q m of (Inl _, q') \<Rightarrow> (0, q')
      | (Inr _, q') \<Rightarrow> (let (n, q'') = enq_all enq q' ms in (Suc n, q'')))"

fun deq_all :: "('q \<Rightarrow> 'm res \<times> 'q) \<Rightarrow> nat \<Rightarrow> 'q \<Rightarrow> 'm list \<times> 'q" where
  "deq_all deq 0 q = ([], q)"
| "deq_all deq (Suc k) q =
     (case deq q of (Inl _, q') \<Rightarrow> ([], q')
      | (Inr m, q') \<Rightarrow> (let (ms, q'') = deq_all deq k q' in (m # ms, q'')))"

locale bounded_fifo =
  fixes enq :: "'q \<Rightarrow> 'm \<Rightarrow> unit res \<times> 'q"
    and deq :: "'q \<Rightarrow> 'm res \<times> 'q"
    and content :: "'q \<Rightarrow> 'm list"
    and cap :: "'q \<Rightarrow> nat"
    and wf :: "'q \<Rightarrow> bool"
  assumes content_le_cap: "wf q \<Longrightarrow> length (content q) \<le> cap q"
    and enq_full: "wf q \<Longrightarrow> length (content q) = cap q \<Longrightarrow> enq q m = (Err EAGAIN, q)"
    and enq_room: "wf q \<Longrightarrow> length (content q) < cap q \<Longrightarrow>
      \<exists>q'. enq q m = (Ok (), q') \<and> wf q' \<and> content q' = content q @ [m] \<and> cap q' = cap q"
    and deq_empty: "wf q \<Longrightarrow> content q = [] \<Longrightarrow> deq q = (Err EAGAIN, q)"
    and deq_some: "wf q \<Longrightarrow> content q \<noteq> [] \<Longrightarrow>
      \<exists>q'. deq q = (Ok (hd (content q)), q') \<and> wf q' \<and> content q' = tl (content q) \<and> cap q' = cap q"
begin

lemma enq_all_content:
  assumes "wf q"
  shows "\<exists>q'. enq_all enq q ms = (min (length ms) (cap q - length (content q)), q') \<and> wf q' \<and>
    content q' = content q @ take (cap q - length (content q)) ms \<and> cap q' = cap q"
  using assms
proof (induction ms arbitrary: q)
  case Nil
  then show ?case by simp
next
  case (Cons m ms)
  show ?case
  proof (cases "length (content q) = cap q")
    case True
    then show ?thesis using enq_full [OF Cons.prems True] Cons.prems by simp
  next
    case False
    then have room: "length (content q) < cap q" using content_le_cap [OF Cons.prems] by simp
    then obtain q1 where q1: "enq q m = (Ok (), q1)" "wf q1" "content q1 = content q @ [m]"
      "cap q1 = cap q" using enq_room [OF Cons.prems room] by blast
    from Cons.IH [OF q1(2)] obtain q2 where "enq_all enq q1 ms =
        (min (length ms) (cap q1 - length (content q1)), q2)" "wf q2"
      "content q2 = content q1 @ take (cap q1 - length (content q1)) ms" "cap q2 = cap q1" by blast
    moreover have "cap q - length (content q) = Suc (cap q - Suc (length (content q)))"
      using room by simp
    ultimately show ?thesis using q1 by simp
  qed
qed

lemma deq_all_content:
  assumes "wf q"
  shows "\<exists>q'. deq_all deq k q = (take k (content q), q') \<and> wf q' \<and>
    content q' = drop k (content q) \<and> cap q' = cap q"
  using assms
proof (induction k arbitrary: q)
  case 0
  then show ?case by simp
next
  case (Suc k)
  show ?case
  proof (cases "content q = []")
    case True
    then show ?thesis using deq_empty [OF Suc.prems True] Suc.prems by simp
  next
    case False
    obtain q1 where q1: "deq q = (Ok (hd (content q)), q1)" "wf q1" "content q1 = tl (content q)"
      "cap q1 = cap q" using deq_some [OF Suc.prems False] by blast
    from Suc.IH [OF q1(2)] obtain q2 where "deq_all deq k q1 = (take k (content q1), q2)" "wf q2"
      "content q2 = drop k (content q1)" "cap q2 = cap q1" by blast
    then show ?thesis using q1 False by (cases "content q") auto
  qed
qed

text \<open>The receive loop hands out everything that was queued, in order, and empties the queue.\<close>

lemma burst_roundtrip:
  assumes "wf q" "content q = []" "length ms \<le> cap q"
  shows "fst (deq_all deq (cap q) (snd (enq_all enq q ms))) = ms"
proof -
  obtain q1 where q1: "enq_all enq q ms = (length ms, q1)" "wf q1" "content q1 = ms" "cap q1 = cap q"
    using enq_all_content [OF assms(1), of ms] assms(2,3) by (auto simp: min_absorb1)
  obtain q2 where "deq_all deq (cap q) q1 = (take (cap q) ms, q2)"
    using deq_all_content [OF q1(2), of "cap q"] q1(3) by auto
  then show ?thesis using q1 assms(3) by simp
qed

end

interpretation ring: bounded_fifo syn_ipc_ring_push syn_ipc_ring_pop ring_abs
  "\<lambda>r. length (rb_slots r)" ring_wf
proof (unfold_locales, goal_cases)
  case (1 q)
  then show ?case by (simp add: ring_wf_def)
next
  case (2 q m)
  then show ?case by (rule ring_push_full)
next
  case (3 q m)
  then show ?case using ring_push_ok [OF 3, of m] by simp
next
  case (4 q)
  then show ?case by (simp add: ring_pop_empty)
next
  case (5 q)
  then show ?case using ring_pop_ok [OF 5] by simp
qed

section \<open>Interleaved execution of one producer and one consumer\<close>

text \<open>
  The cores run push and pop concurrently. The barriers split each operation into atomic
  steps: the producer reads the indices (its own \<open>head\<close> cannot change under it), writes the
  slot, then publishes \<open>head\<close>; the consumer reads the indices, copies the slot, then publishes
  \<open>tail\<close>. The ghost lists record the messages whose push and pop have completed.
\<close>

datatype 'm prod_pc = P_idle | P_room 'm | P_filled 'm
datatype 'm cons_pc = C_idle | C_avail | C_copied 'm

record 'm spsc =
  sp_ring :: "'m syn_ipc_ring"
  sp_prod :: "'m prod_pc"
  sp_cons :: "'m cons_pc"
  sp_sent :: "'m list"
  sp_received :: "'m list"

inductive spsc_step :: "'m spsc \<Rightarrow> 'm spsc \<Rightarrow> bool" where
  push_full: "sp_prod s = P_idle \<Longrightarrow>
     rb_head (sp_ring s) - rb_tail (sp_ring s) \<ge> ring_entries (sp_ring s) \<Longrightarrow> spsc_step s s"
| push_check: "sp_prod s = P_idle \<Longrightarrow>
     \<not> rb_head (sp_ring s) - rb_tail (sp_ring s) \<ge> ring_entries (sp_ring s) \<Longrightarrow>
     spsc_step s (s\<lparr>sp_prod := P_room m\<rparr>)"
| push_fill: "sp_prod s = P_room m \<Longrightarrow> r = sp_ring s \<Longrightarrow>
     spsc_step s (s\<lparr>sp_ring := r\<lparr>rb_slots := (rb_slots r)[unat (rb_head r mod ring_entries r) := m]\<rparr>,
                    sp_prod := P_filled m\<rparr>)"
| push_publish: "sp_prod s = P_filled m \<Longrightarrow> r = sp_ring s \<Longrightarrow>
     spsc_step s (s\<lparr>sp_ring := r\<lparr>rb_head := rb_head r + 1\<rparr>, sp_prod := P_idle,
                    sp_sent := sp_sent s @ [m]\<rparr>)"
| pop_empty: "sp_cons s = C_idle \<Longrightarrow> rb_head (sp_ring s) = rb_tail (sp_ring s) \<Longrightarrow> spsc_step s s"
| pop_check: "sp_cons s = C_idle \<Longrightarrow> rb_head (sp_ring s) \<noteq> rb_tail (sp_ring s) \<Longrightarrow>
     spsc_step s (s\<lparr>sp_cons := C_avail\<rparr>)"
| pop_copy: "sp_cons s = C_avail \<Longrightarrow> r = sp_ring s \<Longrightarrow>
     spsc_step s (s\<lparr>sp_cons := C_copied (rb_slots r ! unat (rb_tail r mod ring_entries r))\<rparr>)"
| pop_publish: "sp_cons s = C_copied m \<Longrightarrow> r = sp_ring s \<Longrightarrow>
     spsc_step s (s\<lparr>sp_ring := r\<lparr>rb_tail := rb_tail r + 1\<rparr>, sp_cons := C_idle,
                    sp_received := sp_received s @ [m]\<rparr>)"

definition spsc_init :: "'m list \<Rightarrow> 'm spsc \<Rightarrow> bool" where
  "spsc_init slots s \<longleftrightarrow> s = \<lparr>sp_ring = \<lparr>rb_head = 0, rb_tail = 0, rb_slots = slots\<rparr>,
     sp_prod = P_idle, sp_cons = C_idle, sp_sent = [], sp_received = []\<rparr>"

inductive spsc_reach :: "'m list \<Rightarrow> 'm spsc \<Rightarrow> bool" for slots :: "'m list" where
  start: "spsc_init slots s \<Longrightarrow> spsc_reach slots s"
| step: "spsc_reach slots s \<Longrightarrow> spsc_step s t \<Longrightarrow> spsc_reach slots t"

definition spsc_inv :: "'m spsc \<Rightarrow> bool" where
  "spsc_inv s \<longleftrightarrow> (let r = sp_ring s; q = ring_abs r in
     ring_wf r \<and> sp_sent s = sp_received s @ q \<and>
     (case sp_prod s of P_idle \<Rightarrow> True
      | P_room m \<Rightarrow> length q < length (rb_slots r)
      | P_filled m \<Rightarrow> length q < length (rb_slots r) \<and> rb_slots r ! ring_slot r (length q) = m) \<and>
     (case sp_cons s of C_idle \<Rightarrow> True
      | C_avail \<Rightarrow> q \<noteq> []
      | C_copied m \<Rightarrow> q \<noteq> [] \<and> m = hd q))"

lemma spsc_inv_init:
  assumes "spsc_init slots s" "0 < length slots" "length slots dvd 2 ^ 32" "length slots < 2 ^ 32"
  shows "spsc_inv s"
  using assms by (simp add: spsc_init_def spsc_inv_def ring_wf_def ring_abs_def)

text \<open>Filling the free slot touches no queued message; publishing then appends it.\<close>

lemma fill_keeps:
  fixes r :: "'m syn_ipc_ring" and m :: 'm
  assumes wf: "ring_wf r" and room: "length (ring_abs r) < length (rb_slots r)"
  defines "r' \<equiv> r\<lparr>rb_slots := (rb_slots r)[unat (rb_head r mod ring_entries r) := m]\<rparr>"
  shows "ring_wf r'" "ring_abs r' = ring_abs r"
    "rb_slots r' ! ring_slot r' (length (ring_abs r')) = m" "length (rb_slots r') = length (rb_slots r)"
proof -
  show "ring_wf r'" and l: "length (rb_slots r') = length (rb_slots r)"
    using wf by (simp_all add: r'_def ring_wf_def)
  have sl: "ring_slot r' i = ring_slot r i" for i by (simp add: ring_slot_def r'_def)
  have h: "unat (rb_head r mod ring_entries r) = ring_slot r (length (ring_abs r))"
    using head_slot [OF wf] by simp
  show "ring_abs r' = ring_abs r"
  proof (rule nth_equalityI)
    show "length (ring_abs r') = length (ring_abs r)" by (simp add: r'_def)
  next
    fix i assume "i < length (ring_abs r')"
    then have i: "i < length (ring_abs r)" by (simp add: r'_def)
    then have "ring_slot r i \<noteq> ring_slot r (length (ring_abs r))"
      using ring_slot_inj [of i r "length (ring_abs r)"] room by auto
    moreover have "ring_abs r' ! i = rb_slots r' ! ring_slot r i"
      using i by (subst ring_abs_nth) (simp_all add: sl, simp add: r'_def)
    ultimately show "ring_abs r' ! i = ring_abs r ! i"
      using i h by (simp add: ring_abs_nth r'_def)
  qed
  then show "rb_slots r' ! ring_slot r' (length (ring_abs r')) = m"
    using h sl ring_slot_bound [OF wf] by (simp add: r'_def)
qed

lemma publish_head:
  assumes wf: "ring_wf r" and room: "length (ring_abs r) < length (rb_slots r)"
    and m: "rb_slots r ! ring_slot r (length (ring_abs r)) = m"
  defines "r' \<equiv> r\<lparr>rb_head := rb_head r + 1\<rparr>"
  shows "ring_wf r'" "ring_abs r' = ring_abs r @ [m]"
proof -
  have "r\<lparr>rb_slots := (rb_slots r)[ring_slot r (length (ring_abs r)) := m],
          rb_head := rb_head r + 1\<rparr> = r'"
    using m by (simp add: r'_def list_update_same_conv ring_slot_bound [OF wf])
  with ring_push_ok(2,3) [OF wf room, of m] show "ring_wf r'" "ring_abs r' = ring_abs r @ [m]"
    by simp_all
qed

lemma spsc_inv_step: "spsc_step s t \<Longrightarrow> spsc_inv s \<Longrightarrow> spsc_inv t"
proof (induction rule: spsc_step.induct)
  case (push_check s m)
  then show ?case
    using full_iff [of "sp_ring s"] ring.content_le_cap [of "sp_ring s"]
    by (auto simp: spsc_inv_def Let_def split: cons_pc.splits)
next
  case (push_fill s m r)
  then have wf: "ring_wf r" and room: "length (ring_abs r) < length (rb_slots r)"
    by (simp_all add: spsc_inv_def Let_def)
  from fill_keeps [OF this, of m] push_fill show ?case
    by (simp add: spsc_inv_def Let_def split: cons_pc.splits)
next
  case (push_publish s m r)
  then have "ring_wf r" "length (ring_abs r) < length (rb_slots r)"
    "rb_slots r ! ring_slot r (length (ring_abs r)) = m"
    by (simp_all add: spsc_inv_def Let_def)
  from publish_head [OF this] push_publish show ?case
    by (auto simp: spsc_inv_def Let_def split: cons_pc.splits)
next
  case (pop_check s)
  then show ?case using empty_iff_abs [of "sp_ring s"] by (simp add: spsc_inv_def Let_def)
next
  case (pop_copy s r)
  then have wf: "ring_wf r" and ne: "ring_abs r \<noteq> []" by (simp_all add: spsc_inv_def Let_def)
  then have "rb_slots r ! unat (rb_tail r mod ring_entries r) = hd (ring_abs r)"
    by (simp add: tail_slot hd_conv_nth ring_abs_nth flip: length_greater_0_conv)
  with pop_copy ne show ?case by (simp add: spsc_inv_def Let_def)
next
  case (pop_publish s m r)
  then have wf: "ring_wf r" and ne: "ring_abs r \<noteq> []" and m: "m = hd (ring_abs r)"
    by (simp_all add: spsc_inv_def Let_def)
  let ?r' = "r\<lparr>rb_tail := rb_tail r + 1\<rparr>"
  have p: "ring_wf ?r'" "ring_abs ?r' = tl (ring_abs r)" using ring_pop_ok [OF wf ne] by simp_all
  have "ring_slot ?r' (length (ring_abs r) - 1) = ring_slot r (length (ring_abs r))"
    using slot_after_pop [OF wf, of "length (ring_abs r) - 1"] ne
    by (simp add: ring_slot_def flip: length_greater_0_conv)
  moreover have "length (ring_abs ?r') < length (ring_abs r)" using p(2) ne by (cases "ring_abs r") auto
  moreover have "sp_sent s = (sp_received s @ [m]) @ ring_abs ?r'"
    using pop_publish.prems pop_publish.hyps m ne p(2) by (simp add: spsc_inv_def Let_def)
  ultimately show ?case using p pop_publish
    by (auto simp: spsc_inv_def Let_def split: prod_pc.splits)
qed auto

lemma spsc_reach_inv:
  assumes "spsc_reach slots s" "0 < length slots" "length slots dvd 2 ^ 32" "length slots < 2 ^ 32"
  shows "spsc_inv s"
  using assms(1)
proof (induction rule: spsc_reach.induct)
  case (start s)
  then show ?case using assms(2-4) by (rule spsc_inv_init)
next
  case (step s t)
  from step.hyps(2) step.IH show ?case by (rule spsc_inv_step)
qed

section \<open>Properties\<close>

text \<open>
  C11: when the number of entries divides \<open>2 ^ 32\<close> (a power of two: the configuration also allows other
  numbers from 4 to 64, for which \<open>ring_wrap_loses_message\<close> shows a loss), push, pop, count, is_empty and
  is_full implement a bounded FIFO list for every index value, across the wrap-around of the 32-bit
  indices: push appends or answers EAGAIN when full, pop returns the oldest message or EAGAIN.
\<close>

theorem ring_refines_fifo:
  assumes "ring_wf r"
  shows "(case syn_ipc_ring_push r m of (res, r') \<Rightarrow>
            ring_wf r' \<and> length (rb_slots r') = length (rb_slots r) \<and>
            (if length (ring_abs r) < length (rb_slots r)
             then res = Ok () \<and> ring_abs r' = ring_abs r @ [m]
             else res = Err EAGAIN \<and> r' = r)) \<and>
         (case syn_ipc_ring_pop r of (res, r') \<Rightarrow>
            ring_wf r' \<and> ring_abs r' = tl (ring_abs r) \<and>
            res = (if ring_abs r = [] then Err EAGAIN else Ok (hd (ring_abs r)))) \<and>
         unat (syn_ipc_ring_count r) = length (ring_abs r) \<and>
         (syn_ipc_ring_is_empty r \<longleftrightarrow> ring_abs r = []) \<and>
         (syn_ipc_ring_is_full r \<longleftrightarrow> length (ring_abs r) = length (rb_slots r))"
proof (intro conjI)
  show "case syn_ipc_ring_push r m of (res, r') \<Rightarrow>
      ring_wf r' \<and> length (rb_slots r') = length (rb_slots r) \<and>
      (if length (ring_abs r) < length (rb_slots r)
       then res = Ok () \<and> ring_abs r' = ring_abs r @ [m]
       else res = Err EAGAIN \<and> r' = r)"
  proof (cases "length (ring_abs r) < length (rb_slots r)")
    case True
    then show ?thesis using ring_push_ok [OF assms True, of m] by simp
  next
    case False
    then show ?thesis using ring_push_full [OF assms, of m] ring.content_le_cap [OF assms] assms
      by simp
  qed
  show "case syn_ipc_ring_pop r of (res, r') \<Rightarrow>
      ring_wf r' \<and> ring_abs r' = tl (ring_abs r) \<and>
      res = (if ring_abs r = [] then Err EAGAIN else Ok (hd (ring_abs r)))"
    using ring_pop_empty [of r] ring_pop_ok [OF assms] assms by (cases "ring_abs r = []") simp_all
qed (use full_iff [OF assms] empty_iff_abs [of r] in
      \<open>simp_all add: syn_ipc_ring_count_def syn_ipc_ring_is_empty_def syn_ipc_ring_is_full_def\<close>)

definition wrapping_ring :: "nat syn_ipc_ring" where
  "wrapping_ring = \<lparr>rb_head = 1, rb_tail = 4294967295, rb_slots = replicate 16 7\<rparr>"

lemma wrapping_ring_wf: "ring_wf wrapping_ring"
  by (simp add: ring_wf_def wrapping_ring_def)

theorem ring_refines_fifo_witness:
  "fst (syn_ipc_ring_push wrapping_ring 5) = Ok () \<and>
   ring_abs (snd (syn_ipc_ring_push wrapping_ring 5)) = ring_abs wrapping_ring @ [5] \<and>
   unat (syn_ipc_ring_count wrapping_ring) = 2"
  using ring_refines_fifo [OF wrapping_ring_wf, of 5]
  by (auto simp: wrapping_ring_def split: prod.splits)

text \<open>
  C10: when the number of entries divides \<open>2 ^ 32\<close> (a power of two), under every interleaving of one
  producer and one consumer core the messages received plus the ones still queued are exactly the
  messages sent, in order, and never more than the ring holds: nothing is lost, duplicated, reordered or
  read half-written.
\<close>

theorem spsc_no_loss:
  assumes "spsc_reach slots s" "0 < length slots" "length slots dvd 2 ^ 32" "length slots < 2 ^ 32"
  shows "sp_sent s = sp_received s @ ring_abs (sp_ring s) \<and>
         length (ring_abs (sp_ring s)) \<le> length (rb_slots (sp_ring s))"
  using spsc_reach_inv [OF assms] ring.content_le_cap [of "sp_ring s"]
  by (simp add: spsc_inv_def Let_def)

definition spsc_start :: "nat spsc" where
  "spsc_start = \<lparr>sp_ring = \<lparr>rb_head = 0, rb_tail = 0, rb_slots = replicate 16 0\<rparr>,
     sp_prod = P_idle, sp_cons = C_idle, sp_sent = [], sp_received = []\<rparr>"

theorem spsc_no_loss_witness:
  "\<exists>s. spsc_reach (replicate 16 (0 :: nat)) s \<and> sp_prod s = P_room 9 \<and>
     sp_sent s = sp_received s @ ring_abs (sp_ring s)"
proof -
  have "spsc_reach (replicate 16 0) spsc_start"
    by (rule spsc_reach.start) (simp add: spsc_init_def spsc_start_def)
  then have r: "spsc_reach (replicate 16 0) (spsc_start\<lparr>sp_prod := P_room 9\<rparr>)"
    by (rule spsc_reach.step)
       (rule spsc_step.push_check, simp_all add: spsc_start_def ring_entries_def word_le_nat_alt)
  show ?thesis
    using r spsc_no_loss [OF r] by (intro exI [of _ "spsc_start\<lparr>sp_prod := P_room 9\<rparr>"]) simp
qed

text \<open>
  The entry count is a Kconfig integer between 4 and 64. With 5 entries the slot number
  is not continuous where the free-running index wraps, although the source says that the
  indices are well defined across the wrap: on an empty ring whose indices are
  \<open>2 ^ 32 - 1\<close>, the second push overwrites the first message and pop returns the second.
\<close>

definition ring5 :: "nat syn_ipc_ring" where
  "ring5 = \<lparr>rb_head = 4294967295, rb_tail = 4294967295, rb_slots = [0, 0, 0, 0, 0]\<rparr>"

theorem ring_wrap_loses_message:
  "syn_ipc_ring_is_empty ring5 \<and>
   (let (res1, r1) = syn_ipc_ring_push ring5 1; (res2, r2) = syn_ipc_ring_push r1 2;
        (res3, r3) = syn_ipc_ring_pop r2
    in res1 = Ok () \<and> res2 = Ok () \<and> res3 = Ok 2)"
  by (simp add: ring5_def syn_ipc_ring_pop_def syn_ipc_ring_push_def ring_entries_def
      syn_ipc_ring_is_empty_def word_le_nat_alt)

end
