(* ===== verification/Ipc.thy ===== *)
theory Ipc
  imports Ipc_Ring
begin

text \<open>
  The messages between the two cores, \<open>src/core/syn_ipc.c\<close>, over the shared region of
  \<open>src/core/syn_shared_layout.h\<close>. The model is of one core; \<open>cpu1\<close> says which. The mailbox is the
  flag that a send sets for the other core; a handler with its context is a value of \<open>'c\<close>.
\<close>

section \<open>The shared region\<close>

abbreviation (input) SYN_SHM_MAGIC :: u32 where "SYN_SHM_MAGIC \<equiv> 0x53594E33"
abbreviation (input) SYN_SHM_LAYOUT_VERSION :: u32 where "SYN_SHM_LAYOUT_VERSION \<equiv> 2"
abbreviation (input) SYN_SHM_DEBUG_CPU1_HANG :: u32 where "SYN_SHM_DEBUG_CPU1_HANG \<equiv> 0x48414E47"
abbreviation (input) SYN_SHM_INFER_INPUT_SIZE :: nat where "SYN_SHM_INFER_INPUT_SIZE \<equiv> 27648"
abbreviation (input) SYN_SHM_INFER_OUTPUT_SIZE :: nat where "SYN_SHM_INFER_OUTPUT_SIZE \<equiv> 4096"
abbreviation (input) SYN_IPC_TYPE_COUNT :: nat where "SYN_IPC_TYPE_COUNT \<equiv> 6"

record syn_shm_ctrl =
  sc_magic :: u32
  sc_layout_version :: u32
  sc_ring_entries :: u32
  sc_shared_size :: u32
  sc_cpu0_ready :: u32
  sc_cpu1_ready :: u32
  sc_rtt_last_us :: u32
  sc_rtt_min_us :: u32
  sc_rtt_max_us :: u32
  sc_rtt_count :: u32
  sc_cpu1_heartbeat :: u32
  sc_debug_cmd :: u32

record syn_shm_infer_slot =
  si_model :: u32
  si_model_name :: "u8 list"
  si_input_len :: u32
  si_output_len :: u32
  si_infer_status :: int
  si_input :: "u8 list"
  si_output :: "u8 list"

record syn_shm_region =
  shm_ctrl :: syn_shm_ctrl
  shm_ring_c0_to_c1 :: "syn_ipc_msg syn_ipc_ring"
  shm_ring_c1_to_c0 :: "syn_ipc_msg syn_ipc_ring"
  shm_slot :: syn_shm_infer_slot

text \<open>The control block has 64 bytes, a ring 128 bytes and 20 per entry, the slot a header of 64.\<close>

definition SYN_SHM_PAYLOAD_OFFSET :: "nat \<Rightarrow> nat" where
  "SYN_SHM_PAYLOAD_OFFSET entries = 64 + 2 * (128 + 20 * entries)"

definition infer_slot_size :: nat where
  "infer_slot_size = 64 + SYN_SHM_INFER_INPUT_SIZE + SYN_SHM_INFER_OUTPUT_SIZE"

definition zero_msg :: syn_ipc_msg where
  "zero_msg = \<lparr>im_msg_id = 0, im_type = 0, im_priority = 0, im_payload_len = 0, im_payload_offset = 0,
     im_timestamp_us = 0, im_status = 0\<rparr>"

definition zero_shm :: "nat \<Rightarrow> syn_shm_region" where
  "zero_shm entries =
     (let r = \<lparr>rb_head = 0, rb_tail = 0, rb_slots = replicate entries zero_msg\<rparr> in
      \<lparr>shm_ctrl = \<lparr>sc_magic = 0, sc_layout_version = 0, sc_ring_entries = 0, sc_shared_size = 0, sc_cpu0_ready = 0,
         sc_cpu1_ready = 0, sc_rtt_last_us = 0, sc_rtt_min_us = 0, sc_rtt_max_us = 0, sc_rtt_count = 0,
         sc_cpu1_heartbeat = 0, sc_debug_cmd = 0\<rparr>,
       shm_ring_c0_to_c1 = r, shm_ring_c1_to_c0 = r,
       shm_slot = \<lparr>si_model = 0, si_model_name = replicate 32 0, si_input_len = 0, si_output_len = 0, si_infer_status = 0,
         si_input = replicate SYN_SHM_INFER_INPUT_SIZE 0, si_output = replicate SYN_SHM_INFER_OUTPUT_SIZE 0\<rparr>\<rparr>)"

section \<open>One core\<close>

record 'c ipc =
  ic_ready :: bool
  ic_rx_event :: bool
  ic_rx_queue :: "syn_ipc_msg list"
  ic_handlers :: "'c option list"
  ic_msg_id :: u32

definition boot_ipc :: "'c ipc" where
  "boot_ipc = \<lparr>ic_ready = False, ic_rx_event = False, ic_rx_queue = [], ic_handlers = replicate SYN_IPC_TYPE_COUNT None, ic_msg_id = 0\<rparr>"

definition tx_ring :: "bool \<Rightarrow> syn_shm_region \<Rightarrow> syn_ipc_msg syn_ipc_ring" where
  "tx_ring cpu1 m = (if cpu1 then shm_ring_c1_to_c0 m else shm_ring_c0_to_c1 m)"

definition put_tx :: "bool \<Rightarrow> syn_ipc_msg syn_ipc_ring \<Rightarrow> syn_shm_region \<Rightarrow> syn_shm_region" where
  "put_tx cpu1 r m = (if cpu1 then m\<lparr>shm_ring_c1_to_c0 := r\<rparr> else m\<lparr>shm_ring_c0_to_c1 := r\<rparr>)"

text \<open>
  The start of a core. CPU0 clears the region and publishes the layout, the magic last; CPU1 attaches
  to what it finds. \<open>entries\<close> is the configured number of ring entries.
\<close>

definition syn_ipc_init :: "bool \<Rightarrow> nat \<Rightarrow> bool \<Rightarrow> nat \<Rightarrow> 'c ipc \<times> syn_shm_region \<Rightarrow> unit res \<times> 'c ipc \<times> syn_shm_region" where
  "syn_ipc_init cpu1 entries shared_base shared_size cm =
     (let (c, m) = cm; started = c\<lparr>ic_rx_event := False, ic_rx_queue := [], ic_ready := True\<rparr> in
      if \<not> shared_base then (Err EINVAL, c, m)
      else if shared_size < SYN_SHM_PAYLOAD_OFFSET entries + SYN_SHM_INFER_INPUT_SIZE + SYN_SHM_INFER_OUTPUT_SIZE then (Err EINVAL, c, m)
      else if ic_ready c then (Err EALREADY, c, m)
      else if cpu1 then
        let k = shm_ctrl m in
        if sc_magic k \<noteq> SYN_SHM_MAGIC then (Err ENODEV, c, m)
        else if sc_layout_version k \<noteq> SYN_SHM_LAYOUT_VERSION \<or> sc_ring_entries k \<noteq> of_nat entries then (Err ENODEV, c, m)
        else (Ok (), started, m\<lparr>shm_ctrl := k\<lparr>sc_cpu1_ready := 1\<rparr>\<rparr>)
      else
        let z = zero_shm entries
        in (Ok (), started, z\<lparr>shm_ctrl := (shm_ctrl z)\<lparr>sc_layout_version := SYN_SHM_LAYOUT_VERSION, sc_ring_entries := of_nat entries,
               sc_shared_size := of_nat shared_size, sc_magic := SYN_SHM_MAGIC, sc_cpu0_ready := 1\<rparr>,
             shm_ring_c0_to_c1 := syn_ipc_ring_reset (shm_ring_c0_to_c1 z),
             shm_ring_c1_to_c0 := syn_ipc_ring_reset (shm_ring_c1_to_c0 z)\<rparr>))"

definition syn_ipc_region :: "'c ipc \<Rightarrow> syn_shm_region \<Rightarrow> syn_shm_region option" where
  "syn_ipc_region c m = (if ic_ready c then Some m else None)"

text \<open>The message as it is sent, and the next id; \<open>us\<close> is the time stamp.\<close>

definition stamp :: "u32 \<Rightarrow> syn_ipc_msg \<Rightarrow> 'c ipc \<Rightarrow> syn_ipc_msg \<times> 'c ipc" where
  "stamp us msg c =
     (if im_msg_id msg = 0 then (msg\<lparr>im_msg_id := ic_msg_id c + 1, im_timestamp_us := us\<rparr>, c\<lparr>ic_msg_id := ic_msg_id c + 1\<rparr>)
      else (msg\<lparr>im_timestamp_us := us\<rparr>, c))"

text \<open>The second result says whether the mailbox of the other core was raised.\<close>

definition syn_ipc_send ::
  "bool \<Rightarrow> u32 \<Rightarrow> syn_ipc_msg option \<Rightarrow> 'c ipc \<times> syn_shm_region \<Rightarrow> unit res \<times> bool \<times> 'c ipc \<times> syn_shm_region" where
  "syn_ipc_send cpu1 us msg cm =
     (let (c, m) = cm in
      if \<not> ic_ready c then (Err ENODEV, False, c, m)
      else (case msg of None \<Rightarrow> (Err EINVAL, False, c, m)
        | Some x \<Rightarrow>
            if unat (im_type x) \<ge> SYN_IPC_TYPE_COUNT then (Err EINVAL, False, c, m)
            else
              let (out, c1) = stamp us x c; (ret, r) = syn_ipc_ring_push (tx_ring cpu1 m) out
              in (ret, is_ok ret, c1, put_tx cpu1 r m)))"

text \<open>
  \<open>None\<close> while the caller of a receive with a timeout is still blocked; \<open>EAGAIN\<close> when a poll or an
  expired timeout finds the queue empty.
\<close>

definition syn_ipc_receive :: "bool \<Rightarrow> bool \<Rightarrow> 'c ipc \<Rightarrow> syn_ipc_msg res option \<times> 'c ipc" where
  "syn_ipc_receive msg expired c =
     (if \<not> ic_ready c then (Some (Err ENODEV), c)
      else if \<not> msg then (Some (Err EINVAL), c)
      else (case ic_rx_queue c of
              [] \<Rightarrow> (if expired then Some (Err EAGAIN) else None, c)
            | x # xs \<Rightarrow> (Some (Ok x), c\<lparr>ic_rx_queue := xs\<rparr>)))"

definition syn_ipc_register_handler :: "int \<Rightarrow> 'c option \<Rightarrow> 'c ipc \<Rightarrow> unit res \<times> 'c ipc" where
  "syn_ipc_register_handler type handler c =
     (if type < 0 \<or> type \<ge> int SYN_IPC_TYPE_COUNT then (Err EINVAL, c)
      else (Ok (), c\<lparr>ic_handlers := (ic_handlers c)[nat type := handler]\<rparr>))"

definition syn_ipc_mailbox_isr :: "u32 \<Rightarrow> 'c ipc \<Rightarrow> u32 \<times> 'c ipc" where
  "syn_ipc_mailbox_isr value c = (value AND NOT value, c\<lparr>ic_rx_event := True\<rparr>)"

section \<open>The receive thread\<close>

datatype 'c rx_action = Handled 'c syn_ipc_msg | Queued syn_ipc_msg | Dropped syn_ipc_msg

definition handler_of :: "'c ipc \<Rightarrow> syn_ipc_msg \<Rightarrow> 'c option" where
  "handler_of c msg = (if unat (im_type msg) < SYN_IPC_TYPE_COUNT then ic_handlers c ! unat (im_type msg) else None)"

text \<open>What happens to one message; the queue holds as many messages as a ring.\<close>

definition rx_dispatch :: "nat \<Rightarrow> syn_ipc_msg \<Rightarrow> 'c ipc \<Rightarrow> 'c rx_action \<times> 'c ipc" where
  "rx_dispatch entries msg c =
     (case handler_of c msg of
        Some h \<Rightarrow> (Handled h msg, c)
      | None \<Rightarrow> if length (ic_rx_queue c) < entries then (Queued msg, c\<lparr>ic_rx_queue := ic_rx_queue c @ [msg]\<rparr>) else (Dropped msg, c))"

text \<open>
  The inner loop of the thread: pop until the ring is empty. The handlers only get the message, what
  they do is up to their module; each pop takes one message of the finitely many in the ring. The run
  is one step: a message that the other core pushes while the thread drains counts as pushed after it. That
  a push and a pop may overlap is what the finer steps of \<open>spsc_step\<close> show.
\<close>

lemma pop_shrinks:
  "(Ok msg, r') = syn_ipc_ring_pop r \<Longrightarrow> unat (rb_head r' - rb_tail r') < unat (rb_head r - rb_tail r)"
  using count_after_pop [of "rb_head r" "rb_tail r"]
  by (auto simp: syn_ipc_ring_pop_def Let_def unat_gt_0 split: if_split_asm)

function rx_drain :: "nat \<Rightarrow> 'c ipc \<Rightarrow> syn_ipc_msg syn_ipc_ring \<Rightarrow> 'c rx_action list \<times> 'c ipc \<times> syn_ipc_msg syn_ipc_ring" where
  "rx_drain entries c r =
     (case syn_ipc_ring_pop r of
        (Inl _, r1) \<Rightarrow> ([], c, r1)
      | (Inr msg, r1) \<Rightarrow>
          let (a, c1) = rx_dispatch entries msg c; (as, c2, r2) = rx_drain entries c1 r1 in (a # as, c2, r2))"
  by pat_completeness auto
termination
  by (relation "measure (\<lambda>(entries, c, r). unat (rb_head r - rb_tail r))") (auto dest: pop_shrinks)

declare rx_drain.simps [simp del]

definition syn_ipc_rx_thread :: "bool \<Rightarrow> nat \<Rightarrow> 'c ipc \<times> syn_shm_region \<Rightarrow> 'c rx_action list \<times> 'c ipc \<times> syn_shm_region" where
  "syn_ipc_rx_thread cpu1 entries cm =
     (let (c, m) = cm; (as, c1, r) = rx_drain entries c (tx_ring (\<not> cpu1) m) in (as, c1\<lparr>ic_rx_event := False\<rparr>, put_tx (\<not> cpu1) r m))"

text \<open>The heartbeat of CPU1; \<open>None\<close> when it spins for ever on a request to hang.\<close>

definition cpu1_heartbeat_fn :: "'c ipc \<Rightarrow> syn_shm_region \<Rightarrow> syn_shm_region option" where
  "cpu1_heartbeat_fn c m =
     (if \<not> ic_ready c then Some m
      else if sc_debug_cmd (shm_ctrl m) = SYN_SHM_DEBUG_CPU1_HANG then None
      else Some (m\<lparr>shm_ctrl := (shm_ctrl m)\<lparr>sc_cpu1_heartbeat := sc_cpu1_heartbeat (shm_ctrl m) + 1\<rparr>\<rparr>))"

section \<open>What a run of the receive thread does\<close>

fun rx_msg :: "'c rx_action \<Rightarrow> syn_ipc_msg" where
  "rx_msg (Handled h x) = x"
| "rx_msg (Queued x) = x"
| "rx_msg (Dropped x) = x"

fun is_handled :: "'c rx_action \<Rightarrow> bool" where
  "is_handled (Handled h x) = True"
| "is_handled a = False"

text \<open>The queue after a burst: what has no handler is appended while there is room.\<close>

definition queue_after :: "nat \<Rightarrow> 'c ipc \<Rightarrow> syn_ipc_msg list \<Rightarrow> syn_ipc_msg list" where
  "queue_after entries c xs = take entries (ic_rx_queue c @ filter (\<lambda>x. handler_of c x = None) xs)"

lemma rx_dispatch_msg: "rx_dispatch n x c = (a, c1) \<Longrightarrow> rx_msg a = x"
  by (auto simp: rx_dispatch_def split: option.splits if_split_asm)

lemma handler_of_queue [simp]: "handler_of (c\<lparr>ic_rx_queue := q\<rparr>) = handler_of c"
  by (rule ext) (simp add: handler_of_def)

lemma rx_dispatch_core:
  assumes "rx_dispatch n x c = (a, c1)" "length (ic_rx_queue c) \<le> n"
  shows "c1 = c\<lparr>ic_rx_queue := queue_after n c [x]\<rparr>" "length (ic_rx_queue c1) \<le> n"
    "filter is_handled [a] = map (\<lambda>x. Handled (the (handler_of c x)) x) (filter (\<lambda>x. handler_of c x \<noteq> None) [x])"
  using assms by (auto simp: rx_dispatch_def queue_after_def split: option.splits if_split_asm)

lemma queue_after_Cons:
  assumes "length (ic_rx_queue c) \<le> n"
  shows "queue_after n (c\<lparr>ic_rx_queue := queue_after n c [x]\<rparr>) xs = queue_after n c (x # xs)"
proof (cases "handler_of c x")
  case None
  have "take n (take n (q @ [x]) @ ys) = take n (q @ x # ys)" if "length q \<le> n" for q ys :: "syn_ipc_msg list"
    using that by (cases "length q = n") auto
  then show ?thesis using None assms by (simp add: queue_after_def)
qed (use assms in \<open>simp add: queue_after_def\<close>)

lemma rx_drain_spec:
  assumes "ring_wf r" "length (ic_rx_queue c) \<le> n" "rx_drain n c r = (as, c', r')"
  shows "map rx_msg as = ring_abs r \<and> ring_abs r' = [] \<and> ring_wf r' \<and> length (rb_slots r') = length (rb_slots r) \<and>
    c' = c\<lparr>ic_rx_queue := queue_after n c (ring_abs r)\<rparr> \<and>
    filter is_handled as = map (\<lambda>x. Handled (the (handler_of c x)) x) (filter (\<lambda>x. handler_of c x \<noteq> None) (ring_abs r))"
  using assms
proof (induction n c r arbitrary: as c' r' rule: rx_drain.induct)
  case (1 n c r)
  show ?case
  proof (cases "ring_abs r = []")
    case True
    then show ?thesis using "1.prems" ring_pop_empty [of r] rx_drain.simps [of n c r] by (simp add: queue_after_def)
  next
    case False
    define r1 where "r1 = r\<lparr>rb_tail := rb_tail r + 1\<rparr>"
    have pop: "syn_ipc_ring_pop r = (Ok (hd (ring_abs r)), r1)" and wf1: "ring_wf r1" and abs1: "ring_abs r1 = tl (ring_abs r)"
      using ring_pop_ok [OF "1.prems"(1) False] by (simp_all add: r1_def)
    obtain a c1 where d: "rx_dispatch n (hd (ring_abs r)) c = (a, c1)" by fastforce
    obtain as2 c2 r2 where rec: "rx_drain n c1 r1 = (as2, c2, r2)" by (metis prod_cases3)
    have out: "as = a # as2" "c' = c2" "r' = r2"
      using "1.prems"(3) unfolding rx_drain.simps [of n c r] pop by (simp_all add: d rec)
    note D = rx_dispatch_core [OF d "1.prems"(2)]
    note IH = "1.IH" [OF pop [symmetric] refl refl d [symmetric] wf1 D(2) rec]
    have q: "ring_abs r = hd (ring_abs r) # ring_abs r1" using False abs1 by simp
    have h: "handler_of c1 = handler_of c" unfolding D(1) by simp
    have "c2 = c\<lparr>ic_rx_queue := queue_after n c (ring_abs r)\<rparr>"
      using IH queue_after_Cons [OF "1.prems"(2), of "hd (ring_abs r)" "ring_abs r1"] q unfolding D(1) by simp
    moreover have "map rx_msg as = ring_abs r" using IH rx_dispatch_msg [OF d] q by (simp add: out)
    moreover have "filter is_handled as = filter is_handled [a] @ filter is_handled as2" by (simp add: out)
    then have "filter is_handled as = map (\<lambda>x. Handled (the (handler_of c x)) x)
        (filter (\<lambda>x. handler_of c x \<noteq> None) (hd (ring_abs r) # ring_abs r1))"
      using IH D(3) h by (simp split: if_split_asm)
    then have "filter is_handled as = map (\<lambda>x. Handled (the (handler_of c x)) x) (filter (\<lambda>x. handler_of c x \<noteq> None) (ring_abs r))"
      using q by simp
    ultimately show ?thesis using IH by (simp add: out r1_def)
  qed
qed

section \<open>Both cores\<close>

text \<open>
  Histories over the region: either core sends, drains, receives or registers at any time, and CPU1
  may be reset, which loses its static state while the rings stay. The ghost lists hold, per core,
  the messages whose send returned 0 and the actions of the receive thread.
\<close>

record 'c link =
  lk_region :: syn_shm_region
  lk_core :: "bool \<Rightarrow> 'c ipc"
  lk_sent :: "bool \<Rightarrow> syn_ipc_msg list"
  lk_got :: "bool \<Rightarrow> 'c rx_action list"

inductive link_step :: "nat \<Rightarrow> 'c link \<Rightarrow> 'c link \<Rightarrow> bool" for entries :: nat where
  Link_send: "syn_ipc_send cpu1 us (Some x) (lk_core s cpu1, lk_region s) = (ret, mailbox, c, m) \<Longrightarrow>
     link_step entries s (s\<lparr>lk_region := m, lk_core := (lk_core s)(cpu1 := c),
       lk_sent := (if is_ok ret then (lk_sent s)(cpu1 := lk_sent s cpu1 @ [fst (stamp us x (lk_core s cpu1))]) else lk_sent s)\<rparr>)"
| Link_rx: "ic_ready (lk_core s cpu1) \<Longrightarrow> syn_ipc_rx_thread cpu1 entries (lk_core s cpu1, lk_region s) = (as, c, m) \<Longrightarrow>
     link_step entries s (s\<lparr>lk_region := m, lk_core := (lk_core s)(cpu1 := c), lk_got := (lk_got s)(cpu1 := lk_got s cpu1 @ as)\<rparr>)"
| Link_receive: "syn_ipc_receive True expired (lk_core s cpu1) = (ret, c) \<Longrightarrow>
     link_step entries s (s\<lparr>lk_core := (lk_core s)(cpu1 := c)\<rparr>)"
| Link_register: "syn_ipc_register_handler ty h (lk_core s cpu1) = (ret, c) \<Longrightarrow>
     link_step entries s (s\<lparr>lk_core := (lk_core s)(cpu1 := c)\<rparr>)"
| Link_attach: "syn_ipc_init True entries True sz (lk_core s True, lk_region s) = (ret, c, m) \<Longrightarrow>
     link_step entries s (s\<lparr>lk_region := m, lk_core := (lk_core s)(True := c)\<rparr>)"
| Link_again: "syn_ipc_init False entries True sz (lk_core s False, lk_region s) = (ret, c, m) \<Longrightarrow>
     link_step entries s (s\<lparr>lk_region := m, lk_core := (lk_core s)(False := c)\<rparr>)"
| Link_reset_cpu1: "link_step entries s (s\<lparr>lk_core := (lk_core s)(True := boot_ipc)\<rparr>)"

text \<open>The start: CPU0 has brought the region up, whatever it held, and CPU1 is in reset.\<close>

inductive link_reach :: "nat \<Rightarrow> 'c link \<Rightarrow> bool" for entries :: nat where
  Link_start: "syn_ipc_init False entries True sz (boot_ipc, m0) = (Ok (), c, m) \<Longrightarrow>
     link_reach entries \<lparr>lk_region = m, lk_core = (\<lambda>cpu1. if cpu1 then boot_ipc else c), lk_sent = (\<lambda>_. []), lk_got = (\<lambda>_. [])\<rparr>"
| Link_next: "link_reach entries s \<Longrightarrow> link_step entries s t \<Longrightarrow> link_reach entries t"

definition link_inv :: "nat \<Rightarrow> 'c link \<Rightarrow> bool" where
  "link_inv entries s \<longleftrightarrow> ic_ready (lk_core s False) \<and>
     (\<forall>cpu1. length (ic_rx_queue (lk_core s cpu1)) \<le> entries \<and>
       (let r = tx_ring cpu1 (lk_region s) in
          ring_wf r \<and> length (rb_slots r) = entries \<and> lk_sent s cpu1 = map rx_msg (lk_got s (\<not> cpu1)) @ ring_abs r))"

lemma tx_put_tx: "tx_ring b (put_tx a r m) = (if a = b then r else tx_ring b m)"
  by (auto simp: tx_ring_def put_tx_def)

lemma stamp_core: "stamp us x c = (y, c') \<Longrightarrow> ic_ready c' = ic_ready c \<and> ic_rx_queue c' = ic_rx_queue c \<and> ic_handlers c' = ic_handlers c"
  by (auto simp: stamp_def split: if_split_asm)

text \<open>A send appends the stamped message to its own ring, or changes no ring.\<close>

lemma send_spec:
  assumes "ring_wf (tx_ring cpu1 m)" "syn_ipc_send cpu1 us (Some x) (c, m) = (ret, mailbox, c', m')"
  shows "ic_ready c' = ic_ready c" "ic_rx_queue c' = ic_rx_queue c" "\<And>b. b \<noteq> cpu1 \<Longrightarrow> tx_ring b m' = tx_ring b m"
    "ring_wf (tx_ring cpu1 m')" "length (rb_slots (tx_ring cpu1 m')) = length (rb_slots (tx_ring cpu1 m))"
    "ring_abs (tx_ring cpu1 m') = ring_abs (tx_ring cpu1 m) @ (if is_ok ret then [fst (stamp us x c)] else [])"
proof -
  let ?t = "tx_ring cpu1 m"
  obtain out c1 where st: "stamp us x c = (out, c1)" by fastforce
  obtain pr r where pu: "syn_ipc_ring_push ?t out = (pr, r)" by fastforce
  have P: "ring_wf r \<and> length (rb_slots r) = length (rb_slots ?t) \<and> ring_abs r = ring_abs ?t @ (if is_ok pr then [out] else [])"
    using ring_push_ok [OF assms(1), of out] ring_push_full [OF assms(1), of out] ring.content_le_cap [OF assms(1)] pu assms(1)
    by (cases "length (ring_abs ?t) < length (rb_slots ?t)") auto
  have "(ret, c', m') = (pr, c1, put_tx cpu1 r m) \<or> (\<not> is_ok ret \<and> c' = c \<and> m' = m)"
    using assms(2) by (auto simp: syn_ipc_send_def Let_def st pu split: if_split_asm)
  then show "ic_ready c' = ic_ready c" "ic_rx_queue c' = ic_rx_queue c" "\<And>b. b \<noteq> cpu1 \<Longrightarrow> tx_ring b m' = tx_ring b m"
    "ring_wf (tx_ring cpu1 m')" "length (rb_slots (tx_ring cpu1 m')) = length (rb_slots ?t)"
    "ring_abs (tx_ring cpu1 m') = ring_abs ?t @ (if is_ok ret then [fst (stamp us x c)] else [])"
    using P stamp_core [OF st] assms(1) by (auto simp: tx_put_tx st)
qed

lemma queue_after_le: "length (queue_after n c xs) \<le> n"
  by (simp add: queue_after_def)

text \<open>A run of the receive thread hands over all that its ring holds.\<close>

lemma rx_thread_spec:
  assumes "ring_wf (tx_ring (\<not> cpu1) m)" "length (ic_rx_queue c) \<le> n" "syn_ipc_rx_thread cpu1 n (c, m) = (as, c', m')"
  defines "r \<equiv> tx_ring (\<not> cpu1) m" and "r' \<equiv> tx_ring (\<not> cpu1) m'"
  shows "map rx_msg as = ring_abs r" "ring_abs r' = []" "ring_wf r'" "length (rb_slots r') = length (rb_slots r)"
    "tx_ring cpu1 m' = tx_ring cpu1 m" "c' = c\<lparr>ic_rx_queue := queue_after n c (ring_abs r), ic_rx_event := False\<rparr>"
    "filter is_handled as = map (\<lambda>x. Handled (the (handler_of c x)) x) (filter (\<lambda>x. handler_of c x \<noteq> None) (ring_abs r))"
proof -
  obtain as1 c1 r1 where d: "rx_drain n c r = (as1, c1, r1)" by (metis prod_cases3)
  have o: "as = as1" "c' = c1\<lparr>ic_rx_event := False\<rparr>" "m' = put_tx (\<not> cpu1) r1 m"
    using assms(3) d by (simp_all add: syn_ipc_rx_thread_def r_def)
  note D = rx_drain_spec [OF assms(1) [folded r_def] assms(2) d]
  have r1: "r' = r1" by (simp add: r'_def o tx_put_tx)
  show "map rx_msg as = ring_abs r" using D o by simp
  show "ring_abs r' = []" using D r1 by simp
  show "ring_wf r'" using D r1 by simp
  show "length (rb_slots r') = length (rb_slots r)" using D r1 by simp
  show "tx_ring cpu1 m' = tx_ring cpu1 m" by (simp add: o tx_put_tx)
  show "c' = c\<lparr>ic_rx_queue := queue_after n c (ring_abs r), ic_rx_event := False\<rparr>" using D o by simp
  show "filter is_handled as = map (\<lambda>x. Handled (the (handler_of c x)) x) (filter (\<lambda>x. handler_of c x \<noteq> None) (ring_abs r))"
    using D o by simp
qed

lemma init_keeps_rings:
  assumes "syn_ipc_init cpu1 n base sz (c, m) = (ret, c', m')" "cpu1 \<or> ic_ready c"
  shows "tx_ring b m' = tx_ring b m" "ic_ready c \<Longrightarrow> ic_ready c'" "length (ic_rx_queue c') \<le> length (ic_rx_queue c)"
  using assms by (auto simp: syn_ipc_init_def Let_def tx_ring_def split: if_split_asm)

lemma receive_core:
  "syn_ipc_receive b expired c = (ret, c') \<Longrightarrow> ic_ready c' = ic_ready c \<and> length (ic_rx_queue c') \<le> length (ic_rx_queue c)"
  by (auto simp: syn_ipc_receive_def split: if_split_asm list.splits)

lemma register_core:
  "syn_ipc_register_handler ty h c = (ret, c') \<Longrightarrow> ic_ready c' = ic_ready c \<and> ic_rx_queue c' = ic_rx_queue c"
  by (auto simp: syn_ipc_register_handler_def split: if_split_asm)

text \<open>A step that leaves the rings and shortens no more than a queue.\<close>

lemma link_inv_core:
  assumes "link_inv n s" "\<And>b. tx_ring b m = tx_ring b (lk_region s)" "ic_ready (lk_core s False) \<Longrightarrow> \<not> cpu1 \<Longrightarrow> ic_ready c"
    "length (ic_rx_queue c) \<le> length (ic_rx_queue (lk_core s cpu1))"
  shows "link_inv n (s\<lparr>lk_region := m, lk_core := (lk_core s)(cpu1 := c)\<rparr>)"
  using assms unfolding link_inv_def Let_def by (auto intro: order_trans)

lemma link_inv_send:
  assumes "link_inv n s" "syn_ipc_send cpu1 us (Some x) (lk_core s cpu1, lk_region s) = (ret, mailbox, c, m)"
  defines "t \<equiv> s\<lparr>lk_region := m, lk_core := (lk_core s)(cpu1 := c),
       lk_sent := (if is_ok ret then (lk_sent s)(cpu1 := lk_sent s cpu1 @ [fst (stamp us x (lk_core s cpu1))]) else lk_sent s)\<rparr>"
  shows "link_inv n t"
proof -
  have I: "ring_wf (tx_ring b (lk_region s))" "length (rb_slots (tx_ring b (lk_region s))) = n"
    "lk_sent s b = map rx_msg (lk_got s (\<not> b)) @ ring_abs (tx_ring b (lk_region s))"
    "length (ic_rx_queue (lk_core s b)) \<le> n" "ic_ready (lk_core s False)" for b
    using assms(1) by (simp_all add: link_inv_def Let_def)
  note S = send_spec [OF I(1) assms(2)]
  show ?thesis unfolding link_inv_def Let_def
  proof (intro conjI allI)
    fix b
    show "lk_sent t b = map rx_msg (lk_got t (\<not> b)) @ ring_abs (tx_ring b (lk_region t))"
      using S(3) [of b] S(6) I(3) by (cases "b = cpu1") (simp_all add: t_def)
    show "ring_wf (tx_ring b (lk_region t))" using S(3) [of b] S(4) I(1) by (cases "b = cpu1") (simp_all add: t_def)
    show "length (rb_slots (tx_ring b (lk_region t))) = n"
      using S(3) [of b] S(5) I(2) by (cases "b = cpu1") (simp_all add: t_def)
  qed (use S(1,2) I(4,5) in \<open>simp_all add: t_def\<close>)
qed

lemma link_inv_rx:
  assumes "link_inv n s" "syn_ipc_rx_thread cpu1 n (lk_core s cpu1, lk_region s) = (as, c, m)"
  defines "t \<equiv> s\<lparr>lk_region := m, lk_core := (lk_core s)(cpu1 := c), lk_got := (lk_got s)(cpu1 := lk_got s cpu1 @ as)\<rparr>"
  shows "link_inv n t"
proof -
  have I: "ring_wf (tx_ring b (lk_region s))" "length (rb_slots (tx_ring b (lk_region s))) = n"
    "lk_sent s b = map rx_msg (lk_got s (\<not> b)) @ ring_abs (tx_ring b (lk_region s))"
    "length (ic_rx_queue (lk_core s b)) \<le> n" "ic_ready (lk_core s False)" for b
    using assms(1) by (simp_all add: link_inv_def Let_def)
  note R = rx_thread_spec [OF I(1) I(4) assms(2)]
  have ready: "ic_ready c = ic_ready (lk_core s cpu1)" by (simp add: R(6))
  have queue: "length (ic_rx_queue c) \<le> n" by (simp add: R(6) queue_after_le)
  show ?thesis unfolding link_inv_def Let_def
  proof (intro conjI allI)
    fix b
    show "lk_sent t b = map rx_msg (lk_got t (\<not> b)) @ ring_abs (tx_ring b (lk_region t))"
      using R(1,2,5) I(3) by (cases "b = cpu1") (simp_all add: t_def)
    show "ring_wf (tx_ring b (lk_region t))" using R(3,5) I(1) by (cases "b = cpu1") (simp_all add: t_def)
    show "length (rb_slots (tx_ring b (lk_region t))) = n" using R(4,5) I(2) by (cases "b = cpu1") (simp_all add: t_def)
  qed (use ready queue I(4,5) in \<open>simp_all add: t_def\<close>)
qed

lemma link_inv_step: "link_step n s t \<Longrightarrow> link_inv n s \<Longrightarrow> link_inv n t"
proof (induction rule: link_step.induct)
  case (Link_receive expired s cpu1 ret c)
  then show ?case using link_inv_core [of n s "lk_region s" cpu1 c] receive_core [OF Link_receive(1)] by (cases cpu1) simp_all
next
  case (Link_register ty h s cpu1 ret c)
  then show ?case using link_inv_core [of n s "lk_region s" cpu1 c] register_core [OF Link_register(1)] by (cases cpu1) simp_all
next
  case (Link_attach sz s ret c m)
  then show ?case by (intro link_inv_core) (auto dest: init_keeps_rings)
next
  case (Link_again sz s ret c m)
  moreover have "ic_ready (lk_core s False)" using Link_again(2) by (simp add: link_inv_def)
  ultimately show ?case by (intro link_inv_core) (auto dest: init_keeps_rings)
next
  case (Link_reset_cpu1 s)
  then show ?case using link_inv_core [of n s "lk_region s" True boot_ipc] by (simp add: boot_ipc_def)
next
  case (Link_send cpu1 us x s ret mailbox c m)
  then show ?case by (intro link_inv_send)
next
  case (Link_rx s cpu1 as c m)
  then show ?case by (intro link_inv_rx)
qed

lemma link_inv_start:
  assumes "syn_ipc_init False n True sz (boot_ipc, m0) = (Ok (), c, m)" "0 < n" "n dvd 2 ^ 32" "n < 2 ^ 32"
  shows "link_inv n \<lparr>lk_region = m, lk_core = (\<lambda>cpu1. if cpu1 then boot_ipc else c), lk_sent = (\<lambda>_. []), lk_got = (\<lambda>_. [])\<rparr>"
  using assms
  by (auto simp: link_inv_def syn_ipc_init_def Let_def boot_ipc_def zero_shm_def tx_ring_def ring_wf_def ring_abs_def
      syn_ipc_ring_reset_def split: if_split_asm)

lemma link_reach_inv:
  assumes "link_reach n s" "0 < n" "n dvd 2 ^ 32" "n < 2 ^ 32"
  shows "link_inv n s"
  using assms
proof (induction rule: link_reach.induct)
  case (Link_start sz m0 c m)
  then show ?case by (intro link_inv_start)
next
  case (Link_next s t)
  then show ?case using link_inv_step by blast
qed

section \<open>Properties\<close>

text \<open>
  C7: with rings whose number of entries divides \<open>2 ^ 32\<close> (the powers of two; for others see
  \<open>ring_wrap_loses_message\<close>), in every history of the two cores, restarts of CPU1 included, what a core's
  receive thread has taken is what the other core sent with result 0, once each and in order, up to the
  messages still in the ring; and a run of the thread takes all of those.
\<close>

theorem messages_arrive_once_in_order:
  assumes "link_reach n s" "0 < n" "n dvd 2 ^ 32" "n < 2 ^ 32"
  shows "lk_sent s cpu1 = map rx_msg (lk_got s (\<not> cpu1)) @ ring_abs (tx_ring cpu1 (lk_region s)) \<and>
    length (ring_abs (tx_ring cpu1 (lk_region s))) \<le> n \<and>
    (case syn_ipc_rx_thread (\<not> cpu1) n (lk_core s (\<not> cpu1), lk_region s) of (as, c, m) \<Rightarrow>
       map rx_msg (lk_got s (\<not> cpu1) @ as) = lk_sent s cpu1)"
proof -
  have I: "ring_wf (tx_ring b (lk_region s))" "length (rb_slots (tx_ring b (lk_region s))) = n"
    "lk_sent s b = map rx_msg (lk_got s (\<not> b)) @ ring_abs (tx_ring b (lk_region s))"
    "length (ic_rx_queue (lk_core s b)) \<le> n" for b
    using link_reach_inv [OF assms] by (simp_all add: link_inv_def Let_def)
  obtain as c m where t: "syn_ipc_rx_thread (\<not> cpu1) n (lk_core s (\<not> cpu1), lk_region s) = (as, c, m)" by (metis prod_cases3)
  have "map rx_msg as = ring_abs (tx_ring cpu1 (lk_region s))"
    using rx_thread_spec(1) [OF I(1) I(4) t] by simp
  moreover have "length (ring_abs (tx_ring cpu1 (lk_region s))) \<le> n"
    using ring.content_le_cap [OF I(1)] I(2) by simp
  ultimately show ?thesis using I(3) [of cpu1] t by simp
qed

definition demo_msg :: syn_ipc_msg where
  "demo_msg = \<lparr>im_msg_id = 0, im_type = 4, im_priority = 1, im_payload_len = 0, im_payload_offset = 0, im_timestamp_us = 0, im_status = 0\<rparr>"

definition demo_up :: "nat ipc \<times> syn_shm_region" where
  "demo_up = snd (syn_ipc_init False 4 True 40000 (boot_ipc, zero_shm 4))"

definition demo_link :: "nat link" where
  "demo_link = \<lparr>lk_region = snd demo_up, lk_core = (\<lambda>cpu1. if cpu1 then boot_ipc else fst demo_up), lk_sent = (\<lambda>_. []), lk_got = (\<lambda>_. [])\<rparr>"

definition demo_link_sent :: "nat link" where
  "demo_link_sent = (case syn_ipc_send False 7 (Some demo_msg) (lk_core demo_link False, lk_region demo_link) of (ret, mailbox, c, m) \<Rightarrow>
     demo_link\<lparr>lk_region := m, lk_core := (lk_core demo_link)(False := c),
       lk_sent := (if is_ok ret then (lk_sent demo_link)(False := lk_sent demo_link False @ [fst (stamp 7 demo_msg (lk_core demo_link False))]) else lk_sent demo_link)\<rparr>)"

lemma demo_init: "syn_ipc_init False 4 True 40000 (boot_ipc :: nat ipc, zero_shm 4) = (Ok (), fst demo_up, snd demo_up)"
  unfolding demo_up_def by (simp add: syn_ipc_init_def Let_def boot_ipc_def SYN_SHM_PAYLOAD_OFFSET_def)

lemma demo_link_reach: "link_reach 4 demo_link_sent"
proof -
  obtain ret mailbox c m where d: "syn_ipc_send False 7 (Some demo_msg) (lk_core demo_link False, lk_region demo_link) = (ret, mailbox, c, m)"
    by (metis prod_cases4)
  have "link_reach 4 demo_link" unfolding demo_link_def by (rule Link_start [OF demo_init])
  then show ?thesis using Link_next [OF _ Link_send [OF d]] unfolding demo_link_sent_def d by simp
qed

theorem messages_arrive_once_in_order_witness:
  "lk_sent demo_link_sent False = [demo_msg\<lparr>im_msg_id := 1, im_timestamp_us := 7\<rparr>] \<and>
   lk_sent demo_link_sent False = ring_abs (tx_ring False (lk_region demo_link_sent))"
proof -
  have L: "lk_sent demo_link_sent False = [demo_msg\<lparr>im_msg_id := 1, im_timestamp_us := 7\<rparr>]" "lk_got demo_link_sent = (\<lambda>_. [])"
    by (simp_all add: demo_link_sent_def demo_link_def demo_up_def syn_ipc_init_def syn_ipc_send_def Let_def boot_ipc_def
        SYN_SHM_PAYLOAD_OFFSET_def demo_msg_def stamp_def tx_ring_def zero_shm_def syn_ipc_ring_reset_def syn_ipc_ring_push_def
        ring_entries_def)
  have "lk_sent demo_link_sent False = map rx_msg (lk_got demo_link_sent True) @ ring_abs (tx_ring False (lk_region demo_link_sent))"
    using messages_arrive_once_in_order [OF demo_link_reach, of False] by simp
  then have "lk_sent demo_link_sent False = ring_abs (tx_ring False (lk_region demo_link_sent))" unfolding L(2) by simp
  with L(1) show ?thesis by blast
qed

text \<open>
  One run of the receive thread gives the messages with a handler to it in order, appends the
  others to the receive queue while there is room, drops only what the full queue refuses, and leaves
  the ring empty and the ring of the other direction as it was.
\<close>

theorem rx_thread_dispatches_all:
  assumes "ring_wf (tx_ring (\<not> cpu1) m)" "length (ic_rx_queue c) \<le> n"
  shows "case syn_ipc_rx_thread cpu1 n (c, m) of (as, c', m') \<Rightarrow>
    (let q = ring_abs (tx_ring (\<not> cpu1) m) in
      map rx_msg as = q \<and> ring_abs (tx_ring (\<not> cpu1) m') = [] \<and> tx_ring cpu1 m' = tx_ring cpu1 m \<and>
      filter is_handled as = map (\<lambda>x. Handled (the (handler_of c x)) x) (filter (\<lambda>x. handler_of c x \<noteq> None) q) \<and>
      ic_rx_queue c' = take n (ic_rx_queue c @ filter (\<lambda>x. handler_of c x = None) q) \<and> ic_handlers c' = ic_handlers c)"
proof -
  obtain as c' m' where t: "syn_ipc_rx_thread cpu1 n (c, m) = (as, c', m')" by (metis prod_cases3)
  show ?thesis using rx_thread_spec [OF assms t] t unfolding Let_def by (simp add: queue_after_def)
qed

theorem rx_thread_dispatches_all_witness:
  "ring_abs (tx_ring False (snd (snd (syn_ipc_rx_thread True 4 (fst demo_up, snd demo_up))))) = [] \<and>
   ic_rx_queue (fst (snd (syn_ipc_rx_thread True 4 (fst demo_up, snd demo_up)))) = []"
proof -
  have u: "ring_wf (tx_ring False (snd demo_up))" "ring_abs (tx_ring False (snd demo_up)) = []" "ic_rx_queue (fst demo_up) = []"
    by (simp_all add: demo_up_def syn_ipc_init_def Let_def boot_ipc_def SYN_SHM_PAYLOAD_OFFSET_def tx_ring_def zero_shm_def
        ring_wf_def ring_abs_def syn_ipc_ring_reset_def)
  show ?thesis using rx_thread_dispatches_all [of True "snd demo_up" "fst demo_up" 4] u by (simp add: split_beta Let_def)
qed

end
