(* ===== verification/Health.thy ===== *)
theory Health
  imports Syn_Prelude
begin

text \<open>
  The health monitor \<open>src/core/syn_health.c\<close>: a table of software sources that must check in
  within their period while busy, a monitor tick that counts stale episodes and feeds the
  hardware watchdog only while every busy source is fresh, and the recovery of a second core
  whose heartbeat stopped. Times are the milliseconds of the 64-bit uptime clock.
\<close>

section \<open>State\<close>

abbreviation (input) SYN_HEALTH_MAX_SOURCES :: nat where "SYN_HEALTH_MAX_SOURCES \<equiv> 4"

record health_source =
  hs_name :: "u8 list option"
  hs_period_ms :: u32
  hs_last_kick :: int
  hs_busy :: bool
  hs_stale :: bool
  hs_stale_count :: u32

record health =
  he_sources :: "health_source list"
  he_fault_cb :: bool
  he_fault_count :: u32
  he_cpu1_recoveries :: u32
  he_wdt_armed :: bool
  he_last_hb :: u32
  he_last_change :: int
  he_primed :: bool

record syn_health_info =
  hi_name :: "u8 list option"
  hi_period_ms :: u32
  hi_age_ms :: int
  hi_busy :: bool
  hi_stale :: bool
  hi_stale_count :: u32

text \<open>A source id is an \<open>int\<close> of the code; the guard of each call is \<open>health_id\<close>.\<close>

definition health_id :: "int \<Rightarrow> bool" where
  "health_id i \<longleftrightarrow> 0 \<le> i \<and> i < int SYN_HEALTH_MAX_SOURCES"

definition upd_source :: "int \<Rightarrow> (health_source \<Rightarrow> health_source) \<Rightarrow> health \<Rightarrow> health" where
  "upd_source i u h =
     (if health_id i then h\<lparr>he_sources := (he_sources h)[nat i := u (he_sources h ! nat i)]\<rparr> else h)"

section \<open>Sources\<close>

definition syn_health_register :: "int \<Rightarrow> u8 list \<Rightarrow> u32 \<Rightarrow> health \<Rightarrow> nat res \<times> health" where
  "syn_health_register now name period_ms h =
     (case first_index (\<lambda>s. hs_name s = None) (he_sources h) of
        None \<Rightarrow> (Err ENOSPC, h)
      | Some i \<Rightarrow> (Ok i, h\<lparr>he_sources := (he_sources h)[i := \<lparr>hs_name = Some name, hs_period_ms = period_ms,
           hs_last_kick = now, hs_busy = True, hs_stale = False, hs_stale_count = 0\<rparr>]\<rparr>))"

definition syn_health_kick :: "int \<Rightarrow> int \<Rightarrow> health \<Rightarrow> health" where
  "syn_health_kick now i = upd_source i (\<lambda>s. s\<lparr>hs_last_kick := now, hs_stale := False\<rparr>)"

definition syn_health_set_busy :: "int \<Rightarrow> int \<Rightarrow> bool \<Rightarrow> health \<Rightarrow> health" where
  "syn_health_set_busy now i busy =
     upd_source i (\<lambda>s. if busy then s\<lparr>hs_busy := busy, hs_last_kick := now\<rparr> else s\<lparr>hs_busy := busy\<rparr>)"

definition syn_health_get :: "int \<Rightarrow> int \<Rightarrow> bool \<Rightarrow> health \<Rightarrow> syn_health_info res" where
  "syn_health_get now idx info h =
     (if \<not> health_id idx \<or> \<not> info \<or> hs_name (he_sources h ! nat idx) = None then Err ENOENT
      else let s = he_sources h ! nat idx in
        Ok \<lparr>hi_name = hs_name s, hi_period_ms = hs_period_ms s, hi_age_ms = now - hs_last_kick s,
          hi_busy = hs_busy s, hi_stale = hs_stale s, hi_stale_count = hs_stale_count s\<rparr>)"

definition syn_health_set_fault_cb :: "bool \<Rightarrow> health \<Rightarrow> health" where
  "syn_health_set_fault_cb cb h = h\<lparr>he_fault_cb := cb\<rparr>"

definition syn_health_fault_count :: "health \<Rightarrow> u32" where
  "syn_health_fault_count h = he_fault_count h"

definition syn_health_watchdog_armed :: "health \<Rightarrow> bool" where
  "syn_health_watchdog_armed h = he_wdt_armed h"

definition syn_health_cpu1_recoveries :: "health \<Rightarrow> u32" where
  "syn_health_cpu1_recoveries h = he_cpu1_recoveries h"

section \<open>The monitor tick\<close>

definition source_late :: "int \<Rightarrow> health_source \<Rightarrow> bool" where
  "source_late now s \<longleftrightarrow> hs_name s \<noteq> None \<and> hs_busy s \<and> int (unat (hs_period_ms s)) < now - hs_last_kick s"

definition mark_stale :: "health_source \<Rightarrow> health_source" where
  "mark_stale s = s\<lparr>hs_stale := True, hs_stale_count := hs_stale_count s + 1\<rparr>"

text \<open>
  One pass over the table: whether every busy source is fresh, the names handed to the fault
  callback, the new state.
\<close>

fun check_loop :: "int \<Rightarrow> nat list \<Rightarrow> bool \<Rightarrow> u8 list list \<Rightarrow> health \<Rightarrow> bool \<times> u8 list list \<times> health" where
  "check_loop now [] ok calls h = (ok, calls, h)"
| "check_loop now (i # is) ok calls h =
     (let s = he_sources h ! i in
      if \<not> source_late now s then check_loop now is ok calls h
      else if hs_stale s then check_loop now is False calls h
      else check_loop now is False (if he_fault_cb h then calls @ [the (hs_name s)] else calls)
             (h\<lparr>he_sources := (he_sources h)[i := mark_stale s], he_fault_count := he_fault_count h + 1\<rparr>))"

definition check_sources :: "int \<Rightarrow> health \<Rightarrow> bool \<times> u8 list list \<times> health" where
  "check_sources now h = check_loop now [0..<SYN_HEALTH_MAX_SOURCES] True [] h"

text \<open>
  The watch of the second core. \<open>shm\<close> is the heartbeat and the debug command of the shared
  region (\<open>None\<close>: no region); the outcomes of the stop and resume calls are arguments.
\<close>

record health_env =
  hv_now :: int
  hv_hang_ms :: int
  hv_linked :: bool
  hv_stop_ok :: bool
  hv_resume_ok :: bool

definition check_cpu1 :: "health_env \<Rightarrow> (u32 \<times> u32) option \<Rightarrow> health \<Rightarrow> (u32 \<times> u32) option \<times> health" where
  "check_cpu1 v shm h =
     (if \<not> hv_linked v then (shm, h\<lparr>he_primed := False\<rparr>)
      else (case shm of None \<Rightarrow> (shm, h)
        | Some (hb, cmd) \<Rightarrow>
            if \<not> he_primed h \<or> hb \<noteq> he_last_hb h
            then (shm, h\<lparr>he_last_hb := hb, he_last_change := hv_now v, he_primed := True\<rparr>)
            else if hv_now v - he_last_change h \<le> hv_hang_ms v then (shm, h)
            else (Some (hb, 0), h\<lparr>he_primed := False,
                   he_cpu1_recoveries := he_cpu1_recoveries h + (if hv_stop_ok v \<and> hv_resume_ok v then 1 else 0)\<rparr>)))"

text \<open>One iteration of the monitor thread; the first result says whether the watchdog was fed.\<close>

definition health_tick :: "bool \<Rightarrow> health_env \<Rightarrow> (u32 \<times> u32) option \<Rightarrow> health \<Rightarrow>
    bool \<times> u8 list list \<times> (u32 \<times> u32) option \<times> health" where
  "health_tick cpu1_watch v shm h =
     (let (all_ok, calls, h1) = check_sources (hv_now v) h;
          (shm2, h2) = (if cpu1_watch then check_cpu1 v shm h1 else (shm, h1))
      in (he_wdt_armed h2 \<and> all_ok, calls, shm2, h2))"

text \<open>The start of the monitor: the watchdog is armed when it is ready and its setup succeeds.\<close>

definition syn_health_init :: "bool \<Rightarrow> bool \<Rightarrow> bool \<Rightarrow> health \<Rightarrow> health" where
  "syn_health_init ready install_ok setup_ok h = (if ready \<and> install_ok \<and> setup_ok then h\<lparr>he_wdt_armed := True\<rparr> else h)"

section \<open>One pass over the table\<close>

definition health_wf :: "health \<Rightarrow> bool" where
  "health_wf h \<longleftrightarrow> length (he_sources h) = SYN_HEALTH_MAX_SOURCES"

definition swept :: "int \<Rightarrow> health_source \<Rightarrow> health_source" where
  "swept now s = (if source_late now s \<and> \<not> hs_stale s then mark_stale s else s)"

lemma check_loop_spec:
  assumes "check_loop now is ok calls h = (ok', calls', h')" "distinct is" "\<forall>i \<in> set is. i < length (he_sources h)"
  shows "length (he_sources h') = length (he_sources h) \<and>
    (\<forall>j < length (he_sources h). he_sources h' ! j = (if j \<in> set is then swept now (he_sources h ! j) else he_sources h ! j)) \<and>
    (ok' \<longleftrightarrow> ok \<and> (\<forall>i \<in> set is. \<not> source_late now (he_sources h ! i))) \<and>
    he_wdt_armed h' = he_wdt_armed h \<and> he_fault_cb h' = he_fault_cb h \<and>
    he_fault_count h' = he_fault_count h +
      of_nat (length (filter (\<lambda>i. source_late now (he_sources h ! i) \<and> \<not> hs_stale (he_sources h ! i)) is)) \<and>
    calls' = calls @ (if he_fault_cb h
      then map (\<lambda>i. the (hs_name (he_sources h ! i)))
             (filter (\<lambda>i. source_late now (he_sources h ! i) \<and> \<not> hs_stale (he_sources h ! i)) is)
      else [])"
  using assms
proof (induction "is" arbitrary: ok calls h)
  case (Cons i "is")
  let ?s = "he_sources h ! i"
  let ?h1 = "h\<lparr>he_sources := (he_sources h)[i := mark_stale ?s], he_fault_count := he_fault_count h + 1\<rparr>"
  have d: "i \<notin> set is" "distinct is" "i < length (he_sources h)" "\<forall>j \<in> set is. j < length (he_sources h)"
    using Cons.prems(2,3) by auto
  show ?case
  proof (cases "source_late now ?s \<and> \<not> hs_stale ?s")
    case True
    have r: "check_loop now is False (if he_fault_cb h then calls @ [the (hs_name ?s)] else calls) ?h1 = (ok', calls', h')"
      using Cons.prems(1) True by (simp add: Let_def)
    have o: "he_sources ?h1 ! j = he_sources h ! j" if "j \<in> set is" for j
      using d(1) that by (cases "j = i") auto
    have f: "filter (\<lambda>j. source_late now (he_sources ?h1 ! j) \<and> \<not> hs_stale (he_sources ?h1 ! j)) is =
        filter (\<lambda>j. source_late now (he_sources h ! j) \<and> \<not> hs_stale (he_sources h ! j)) is"
      by (rule filter_cong) (use o in simp_all)
    have m: "map (\<lambda>j. the (hs_name (he_sources ?h1 ! j))) (filter P is) = map (\<lambda>j. the (hs_name (he_sources h ! j))) (filter P is)" for P
      by (rule map_cong) (use o in auto)
    note I = Cons.IH [OF r d(2)]
    have "\<forall>j \<in> set is. j < length (he_sources ?h1)" using d(4) by simp
    note I = I [OF this, unfolded f m]
    show ?thesis
      using I True d o by (auto simp: swept_def nth_list_update)
  next
    case False
    then have r: "check_loop now is (ok \<and> \<not> source_late now ?s) calls h = (ok', calls', h')"
      using Cons.prems(1) by (auto simp: Let_def split: if_split_asm)
    show ?thesis using Cons.IH [OF r d(2,4)] False d by (auto simp: swept_def)
  qed
qed simp

lemma check_sources_spec:
  assumes "health_wf h" "check_sources now h = (ok, calls, h')"
  shows "health_wf h'" "\<And>j. j < 4 \<Longrightarrow> he_sources h' ! j = swept now (he_sources h ! j)"
    "ok \<longleftrightarrow> (\<forall>j < 4. \<not> source_late now (he_sources h ! j))" "he_wdt_armed h' = he_wdt_armed h"
    "he_fault_count h' = he_fault_count h +
       of_nat (length (filter (\<lambda>j. source_late now (he_sources h ! j) \<and> \<not> hs_stale (he_sources h ! j)) [0..<4]))"
    "calls = (if he_fault_cb h then map (\<lambda>j. the (hs_name (he_sources h ! j)))
       (filter (\<lambda>j. source_late now (he_sources h ! j) \<and> \<not> hs_stale (he_sources h ! j)) [0..<4]) else [])"
    "he_fault_cb h' = he_fault_cb h"
proof -
  have "distinct [0..<SYN_HEALTH_MAX_SOURCES]" "\<forall>i \<in> set [0..<SYN_HEALTH_MAX_SOURCES]. i < length (he_sources h)"
    using assms(1) by (auto simp: health_wf_def)
  note S = check_loop_spec [OF assms(2) [unfolded check_sources_def] this]
  then show "health_wf h'" "\<And>j. j < 4 \<Longrightarrow> he_sources h' ! j = swept now (he_sources h ! j)"
    "he_wdt_armed h' = he_wdt_armed h"
    using assms(1) by (simp_all add: health_wf_def)
  show "ok \<longleftrightarrow> (\<forall>j < 4. \<not> source_late now (he_sources h ! j))" using S by auto
  show "he_fault_count h' = he_fault_count h +
       of_nat (length (filter (\<lambda>j. source_late now (he_sources h ! j) \<and> \<not> hs_stale (he_sources h ! j)) [0..<4]))"
    using S by blast
  show "calls = (if he_fault_cb h then map (\<lambda>j. the (hs_name (he_sources h ! j)))
       (filter (\<lambda>j. source_late now (he_sources h ! j) \<and> \<not> hs_stale (he_sources h ! j)) [0..<4]) else [])"
    "he_fault_cb h' = he_fault_cb h"
    using S by simp_all
qed

lemma check_cpu1_keeps: "check_cpu1 v shm h = (shm', h') \<Longrightarrow> he_sources h' = he_sources h \<and> he_wdt_armed h' = he_wdt_armed h \<and>
    he_fault_count h' = he_fault_count h \<and> he_fault_cb h' = he_fault_cb h"
  by (auto simp: check_cpu1_def split: if_split_asm option.splits)

lemma health_tick_spec:
  assumes "health_wf h" "health_tick w v shm h = (fed, calls, shm', h')"
  shows "health_wf h'" "\<And>j. j < 4 \<Longrightarrow> he_sources h' ! j = swept (hv_now v) (he_sources h ! j)"
    "fed \<longleftrightarrow> he_wdt_armed h \<and> (\<forall>j < 4. \<not> source_late (hv_now v) (he_sources h ! j))"
    "he_fault_count h' = he_fault_count h +
       of_nat (length (filter (\<lambda>j. source_late (hv_now v) (he_sources h ! j) \<and> \<not> hs_stale (he_sources h ! j)) [0..<4]))"
    "calls = (if he_fault_cb h then map (\<lambda>j. the (hs_name (he_sources h ! j)))
       (filter (\<lambda>j. source_late (hv_now v) (he_sources h ! j) \<and> \<not> hs_stale (he_sources h ! j)) [0..<4]) else [])"
    "he_fault_cb h' = he_fault_cb h"
proof -
  obtain ok c1 h1 where c: "check_sources (hv_now v) h = (ok, c1, h1)" using prod_cases3 by blast
  note C = check_sources_spec [OF assms(1) c]
  have k: "he_sources h' = he_sources h1 \<and> he_wdt_armed h' = he_wdt_armed h1 \<and> he_fault_count h' = he_fault_count h1 \<and>
      he_fault_cb h' = he_fault_cb h1 \<and> fed = (he_wdt_armed h' \<and> ok) \<and> calls = c1"
    using assms(2) c check_cpu1_keeps [of v shm h1] by (auto simp: health_tick_def split: prod.splits if_split_asm)
  show "health_wf h'" "\<And>j. j < 4 \<Longrightarrow> he_sources h' ! j = swept (hv_now v) (he_sources h ! j)"
    using k C(1,2) by (simp_all add: health_wf_def)
  show "fed \<longleftrightarrow> he_wdt_armed h \<and> (\<forall>j < 4. \<not> source_late (hv_now v) (he_sources h ! j))" using k C(3,4) by simp
  show "he_fault_count h' = he_fault_count h +
       of_nat (length (filter (\<lambda>j. source_late (hv_now v) (he_sources h ! j) \<and> \<not> hs_stale (he_sources h ! j)) [0..<4]))"
    using k C(5) by simp
  show "calls = (if he_fault_cb h then map (\<lambda>j. the (hs_name (he_sources h ! j)))
       (filter (\<lambda>j. source_late (hv_now v) (he_sources h ! j) \<and> \<not> hs_stale (he_sources h ! j)) [0..<4]) else [])"
    using k C(6) by simp
  show "he_fault_cb h' = he_fault_cb h" using k C(7) by simp
qed

section \<open>Histories\<close>

datatype health_op =
    Hop_Register int "u8 list" u32 | Hop_Kick int int | Hop_Busy int int bool
  | Hop_Tick bool health_env "(u32 \<times> u32) option"

text \<open>For each tick whether the watchdog was fed, and the names handed to the fault callback.\<close>

fun health_run :: "health_op list \<Rightarrow> health \<Rightarrow> (bool \<times> u8 list list) list \<times> health" where
  "health_run [] h = ([], h)"
| "health_run (Hop_Register now name period # ops) h = health_run ops (snd (syn_health_register now name period h))"
| "health_run (Hop_Kick now i # ops) h = health_run ops (syn_health_kick now i h)"
| "health_run (Hop_Busy now i b # ops) h = health_run ops (syn_health_set_busy now i b h)"
| "health_run (Hop_Tick w v shm # ops) h =
     (let (fed, calls, _, h1) = health_tick w v shm h; (ticks, h2) = health_run ops h1 in ((fed, calls) # ticks, h2))"

fun concerns :: "int \<Rightarrow> health_op \<Rightarrow> bool" where
  "concerns i (Hop_Kick _ j) = (j = i)"
| "concerns i (Hop_Busy _ j _) = (j = i)"
| "concerns i _ = False"

fun tick_after :: "int \<Rightarrow> health_op \<Rightarrow> bool" where
  "tick_after t (Hop_Tick w v shm) = (t < hv_now v)"
| "tick_after t _ = True"

fun is_tick :: "health_op \<Rightarrow> bool" where
  "is_tick (Hop_Tick w v shm) = True"
| "is_tick _ = False"

fun registers :: "u8 list \<Rightarrow> health_op \<Rightarrow> bool" where
  "registers nm (Hop_Register now name period) = (name = nm)"
| "registers nm _ = False"

text \<open>The name belongs to source \<open>i\<close> alone.\<close>

definition own_name :: "nat \<Rightarrow> u8 list \<Rightarrow> health \<Rightarrow> bool" where
  "own_name i nm h \<longleftrightarrow> (\<forall>j < 4. hs_name (he_sources h ! j) = Some nm \<longleftrightarrow> j = i)"

lemma mark_stale_sel [simp]: "hs_name (mark_stale s) = hs_name s" "hs_busy (mark_stale s) = hs_busy s"
  "hs_last_kick (mark_stale s) = hs_last_kick s" "hs_period_ms (mark_stale s) = hs_period_ms s" "hs_stale (mark_stale s)"
  by (simp_all add: mark_stale_def)

lemma upd_source_keeps [simp]: "he_fault_count (upd_source j u h) = he_fault_count h" "he_fault_cb (upd_source j u h) = he_fault_cb h"
  by (simp_all add: upd_source_def)

lemma health_wf_upd: "health_wf h \<Longrightarrow> health_wf (upd_source i u h)"
  by (simp add: health_wf_def upd_source_def)

lemma upd_source_other: "health_id i \<Longrightarrow> j \<noteq> i \<Longrightarrow> he_sources (upd_source j u h) ! nat i = he_sources h ! nat i"
  by (auto simp: upd_source_def health_id_def nat_eq_iff)

lemma register_other:
  assumes "hs_name (he_sources h ! n) \<noteq> None"
  shows "he_sources (snd (syn_health_register now name p h)) ! n = he_sources h ! n"
    "health_wf h \<Longrightarrow> health_wf (snd (syn_health_register now name p h))"
  using assms by (auto simp: syn_health_register_def health_wf_def nth_list_update first_index_Some_iff split: option.splits)

text \<open>A tick that finds a hung source: no feed, and its stale episode is counted and reported once.\<close>

lemma count_named:
  assumes "i < 4" "own_name i nm h" "\<And>j. P j \<Longrightarrow> hs_name (he_sources h ! j) \<noteq> None"
  shows "count_list (map (\<lambda>j. the (hs_name (he_sources h ! j))) (filter P [0..<4])) nm = (if P i then 1 else 0)"
proof -
  have e: "the (hs_name (he_sources h ! j)) = nm \<longleftrightarrow> j = i" if "j < 4" "P j" for j
    using assms(2,3) that by (auto simp: own_name_def)
  have "count_list (map (\<lambda>j. the (hs_name (he_sources h ! j))) (filter P js)) nm = count_list (filter P js) i"
    if "set js \<subseteq> {..<4}" for js using that e by (induction js) auto
  moreover have "count_list (filter P js) i = (if P i then count_list js i else 0)" for js :: "nat list" by (induction js) auto
  moreover have "count_list [0..<4] i = 1" using assms(1) by (auto simp: upt_rec less_Suc_eq numeral_eq_Suc)
  ultimately show ?thesis by (simp add: lessThan_atLeast0)
qed

lemma hung_tick:
  assumes "health_wf h" "nat i < 4" "he_sources h ! nat i = src" "hs_name src = Some nm" "hs_busy src" "own_name (nat i) nm h"
    and "tick_after (hs_last_kick src + int (unat (hs_period_ms src))) (Hop_Tick w v shm)" "health_tick w v shm h = (fd, calls, s2, h1)"
  shows "\<not> fd" "health_wf h1" "he_sources h1 ! nat i = (if hs_stale src then src else mark_stale src)"
    "count_list calls nm = (if he_fault_cb h \<and> \<not> hs_stale src then 1 else 0)"
    "he_fault_cb h \<Longrightarrow> he_fault_count h1 = he_fault_count h + of_nat (length calls)"
    "he_fault_cb h1 = he_fault_cb h" "own_name (nat i) nm h1"
proof -
  note T = health_tick_spec [OF assms(1,8)]
  have late: "source_late (hv_now v) src" using assms(4,5,7) by (simp add: source_late_def)
  show "\<not> fd" using late T(3) assms(2,3) by auto
  show "health_wf h1" by (rule T(1))
  show "he_sources h1 ! nat i = (if hs_stale src then src else mark_stale src)"
    using T(2) [OF assms(2)] assms(3) late by (simp add: swept_def)
  show "he_fault_cb h1 = he_fault_cb h" by (rule T(6))
  show "own_name (nat i) nm h1" using assms(6) T(2) by (simp add: own_name_def swept_def)
  show "he_fault_cb h \<Longrightarrow> he_fault_count h1 = he_fault_count h + of_nat (length calls)" using T(4,5) by simp
  show "count_list calls nm = (if he_fault_cb h \<and> \<not> hs_stale src then 1 else 0)"
    using count_named [OF assms(2,6), of "\<lambda>j. source_late (hv_now v) (he_sources h ! j) \<and> \<not> hs_stale (he_sources h ! j)"]
      T(5) assms(3) late by (simp add: source_late_def)
qed

definition hung_outcome :: "nat \<Rightarrow> u8 list \<Rightarrow> bool \<Rightarrow> health \<Rightarrow> (bool \<times> u8 list list) list \<Rightarrow> health \<Rightarrow> bool" where
  "hung_outcome i nm ticked h ticks h' \<longleftrightarrow> True \<notin> fst ` set ticks \<and>
     he_sources h' ! i = (if hs_stale (he_sources h ! i) \<or> \<not> ticked then he_sources h ! i else mark_stale (he_sources h ! i)) \<and>
     count_list (concat (map snd ticks)) nm = (if he_fault_cb h \<and> \<not> hs_stale (he_sources h ! i) \<and> ticked then 1 else 0) \<and>
     (he_fault_cb h \<longrightarrow> he_fault_count h' = he_fault_count h + of_nat (length (concat (map snd ticks))))"

lemma hung_run:
  assumes "health_id i" "health_wf h" "he_sources h ! nat i = src" "hs_name src = Some nm" "hs_busy src" "own_name (nat i) nm h"
    and "\<forall>op \<in> set ops. \<not> concerns i op \<and> \<not> registers nm op \<and> tick_after (hs_last_kick src + int (unat (hs_period_ms src))) op"
    and "health_run ops h = (ticks, h')"
  shows "hung_outcome (nat i) nm (\<exists>op \<in> set ops. is_tick op) h ticks h'"
  using assms(2-8)
proof (induction ops arbitrary: h src ticks)
  case Nil
  then show ?case by (simp add: hung_outcome_def)
next
  case (Cons op ops)
  note pr = Cons.prems
  have i4: "nat i < 4" using assms(1) by (auto simp: health_id_def)
  have own: "own_name (nat i) nm (upd_source j u h)" if u: "\<And>s. hs_name (u s) = hs_name s" for j u
  proof -
    have "hs_name ((he_sources h)[m := u (he_sources h ! m)] ! k) = hs_name (he_sources h ! k)" for m k
      by (cases "m = k"; cases "k < length (he_sources h)") (simp_all add: u not_less list_update_beyond)
    then show ?thesis using pr(5) by (simp add: own_name_def upd_source_def)
  qed
  have lift: "hung_outcome (nat i) nm (\<exists>op \<in> set ops. is_tick op) h ticks h'"
    if "health_run ops h1 = (ticks, h')" "health_wf h1" "he_sources h1 ! nat i = src" "own_name (nat i) nm h1"
      "he_fault_count h1 = he_fault_count h" "he_fault_cb h1 = he_fault_cb h" for h1
    using Cons.IH [OF that(2,3) pr(3,4) that(4) _ that(1)] pr(2,6) that(3,5,6) by (simp add: hung_outcome_def)
  show ?case
  proof (cases op)
    case (Hop_Register now name p)
    let ?h = "snd (syn_health_register now name p h)"
    have "health_wf ?h" "he_sources ?h ! nat i = src" using register_other [of h "nat i"] pr(1-3) by auto
    moreover have "own_name (nat i) nm ?h"
      using pr(1,5,6) Hop_Register
      by (auto simp: own_name_def syn_health_register_def health_wf_def nth_list_update first_index_Some_iff split: option.splits)
    moreover have "he_fault_count ?h = he_fault_count h" "he_fault_cb ?h = he_fault_cb h"
      by (simp_all add: syn_health_register_def split: option.split)
    ultimately show ?thesis using lift [of ?h] pr(7) Hop_Register by simp
  next
    case (Hop_Kick now j)
    then have "he_sources (syn_health_kick now j h) ! nat i = src"
      using upd_source_other [OF assms(1)] pr(2,6) by (simp add: syn_health_kick_def)
    then show ?thesis using lift [of "syn_health_kick now j h"] pr(7) Hop_Kick health_wf_upd [OF pr(1)] own
      by (simp add: syn_health_kick_def)
  next
    case (Hop_Busy now j b)
    then have "he_sources (syn_health_set_busy now j b h) ! nat i = src"
      using upd_source_other [OF assms(1)] pr(2,6) by (simp add: syn_health_set_busy_def)
    then show ?thesis using lift [of "syn_health_set_busy now j b h"] pr(7) Hop_Busy health_wf_upd [OF pr(1)] own
      by (simp add: syn_health_set_busy_def)
  next
    case (Hop_Tick w v shm)
    obtain fd c s2 h1 where t: "health_tick w v shm h = (fd, c, s2, h1)" using prod_cases4 by blast
    obtain rest where rest: "health_run ops h1 = (rest, h')" "ticks = (fd, c) # rest"
      using pr(7) Hop_Tick t by (auto split: prod.splits)
    have ta: "tick_after (hs_last_kick src + int (unat (hs_period_ms src))) (Hop_Tick w v shm)" using pr(6) Hop_Tick by simp
    note T = hung_tick [OF pr(1) i4 pr(2-5) ta t]
    have "hung_outcome (nat i) nm (\<exists>op \<in> set ops. is_tick op) h1 rest h'"
      using Cons.IH [OF T(2,3) _ _ T(7) _ rest(1)] pr(3,4,6) by (simp add: mark_stale_sel split: if_splits)
    then show ?thesis using T(1,3-6) rest(2) Hop_Tick pr(2) by (auto simp: hung_outcome_def mark_stale_sel)
  qed
qed

text \<open>
  C31: while a busy source has not checked in for longer than its period, no monitor tick feeds the
  watchdog, whatever the other sources and the second core do. An episode that starts with the stale
  flag clear is counted once at the source and its name, which no other source has, is handed to the
  fault callback once; when the flag still stands from an earlier episode nothing is counted or
  reported. With a callback the fault count is the number of reports.
\<close>

theorem hung_source_starves_watchdog:
  assumes "health_wf h" "health_id i" "he_sources h ! nat i = src" "hs_name src = Some nm" "hs_busy src" "own_name (nat i) nm h"
    and "\<forall>op \<in> set ops. \<not> concerns i op \<and> \<not> registers nm op \<and> tick_after (hs_last_kick src + int (unat (hs_period_ms src))) op"
    and "\<exists>op \<in> set ops. is_tick op" "health_run ops h = (ticks, h')"
  shows "True \<notin> fst ` set ticks \<and>
    he_sources h' ! nat i = (if hs_stale src then src else src\<lparr>hs_stale := True, hs_stale_count := hs_stale_count src + 1\<rparr>) \<and>
    count_list (concat (map snd ticks)) nm = (if he_fault_cb h \<and> \<not> hs_stale src then 1 else 0) \<and>
    (he_fault_cb h \<longrightarrow> he_fault_count h' = he_fault_count h + of_nat (length (concat (map snd ticks))))"
  using hung_run [OF assms(2,1,3-7,9)] assms(3,8) by (simp add: hung_outcome_def mark_stale_def)

text \<open>The table after start-up with one registered source, and a tick 6 s later.\<close>

definition demo_health :: health where
  "demo_health = snd (syn_health_register 0 [115] 5000 (syn_health_init True True True
     \<lparr>he_sources = replicate 4 \<lparr>hs_name = None, hs_period_ms = 0, hs_last_kick = 0, hs_busy = False, hs_stale = False, hs_stale_count = 0\<rparr>,
      he_fault_cb = True, he_fault_count = 0, he_cpu1_recoveries = 0, he_wdt_armed = False, he_last_hb = 0,
      he_last_change = 0, he_primed = False\<rparr>))"

abbreviation "tick_at t \<equiv> Hop_Tick False \<lparr>hv_now = t, hv_hang_ms = 1000, hv_linked = False, hv_stop_ok = True, hv_resume_ok = True\<rparr> None"

theorem hung_source_starves_watchdog_witness:
  "True \<notin> fst ` set (fst (health_run [tick_at 6000, Hop_Kick 6050 1, tick_at 6100] demo_health)) \<and>
   count_list (concat (map snd (fst (health_run [tick_at 6000, Hop_Kick 6050 1, tick_at 6100] demo_health)))) [115] = 1 \<and>
   hs_stale_count (he_sources (snd (health_run [tick_at 6000, Hop_Kick 6050 1, tick_at 6100] demo_health)) ! 0) = 1"
proof -
  let ?ops = "[tick_at 6000, Hop_Kick 6050 1, tick_at 6100]"
  let ?src = "\<lparr>hs_name = Some [115], hs_period_ms = 5000, hs_last_kick = 0, hs_busy = True, hs_stale = False, hs_stale_count = 0\<rparr>"
  obtain ticks h' where r: "health_run ?ops demo_health = (ticks, h')" by fastforce
  have "he_sources demo_health ! nat 0 = ?src" "health_wf demo_health" "he_fault_cb demo_health"
    by (simp_all add: demo_health_def syn_health_register_def syn_health_init_def health_wf_def replicate_num)
  moreover have "own_name (nat 0) [115] demo_health"
    by (auto simp: own_name_def demo_health_def syn_health_register_def syn_health_init_def replicate_num nth_Cons' less_Suc_eq numeral_eq_Suc)
  ultimately show ?thesis
    using hung_source_starves_watchdog [OF _ _ _ _ _ _ _ _ r, of 0 ?src "[115]"] r by (simp add: health_id_def)
qed

text \<open>
  A source that hung in an earlier job and went busy again without a kick is not reported when
  it hangs again: the stale flag of the first episode still stands, so neither the fault count
  nor the callback sees the second one.
\<close>

theorem second_hang_is_not_reported:
  assumes "health_wf h" "health_id i" "hs_stale (he_sources h ! nat i)" "hs_name (he_sources h ! nat i) = Some name"
    and "syn_health_set_busy t i True (syn_health_set_busy t i False h) = h1"
    and "health_tick w v shm h1 = (fed, calls, shm', h2)"
    and "\<forall>j < 4. source_late (hv_now v) (he_sources h1 ! j) \<longrightarrow> j = nat i"
  shows "he_fault_count h2 = he_fault_count h \<and> hs_stale_count (he_sources h2 ! nat i) = hs_stale_count (he_sources h ! nat i)"
proof -
  have i4: "nat i < 4" "nat i < length (he_sources h)" using assms(1,2) by (auto simp: health_id_def health_wf_def)
  have s1: "he_sources h1 ! nat i = (he_sources h ! nat i)\<lparr>hs_busy := True, hs_last_kick := t\<rparr>" "he_fault_count h1 = he_fault_count h"
    "health_wf h1"
    using assms(1,2,5) i4(2) by (auto simp: syn_health_set_busy_def upd_source_def health_wf_def)
  note T = health_tick_spec [OF s1(3) assms(6)]
  have "filter (\<lambda>j. source_late (hv_now v) (he_sources h1 ! j) \<and> \<not> hs_stale (he_sources h1 ! j)) [0..<4] = []"
    using assms(3,7) s1(1) by (auto simp: filter_empty_conv)
  then have "he_fault_count h2 = he_fault_count h1" using T(4) by simp
  moreover have "he_sources h2 ! nat i = he_sources h1 ! nat i" using T(2) [OF i4(1)] s1(1) assms(3) by (simp add: swept_def)
  ultimately show ?thesis using s1 by simp
qed

text \<open>The demo source after its first stale episode.\<close>

definition stale_source :: health_source where
  "stale_source = \<lparr>hs_name = Some [115], hs_period_ms = 5000, hs_last_kick = 0, hs_busy = True, hs_stale = True, hs_stale_count = 1\<rparr>"

definition stale_health :: health where
  "stale_health = demo_health\<lparr>he_sources := (he_sources demo_health)[0 := stale_source], he_fault_count := 1\<rparr>"

lemma demo_health_sources: "length (he_sources demo_health) = 4" "0 < j \<Longrightarrow> j < 4 \<Longrightarrow> hs_name (he_sources demo_health ! j) = None"
  by (auto simp: demo_health_def syn_health_register_def syn_health_init_def replicate_num nth_Cons' less_Suc_eq numeral_eq_Suc)

theorem second_hang_is_not_reported_witness:
  "\<exists>fed calls shm' h2. health_tick False \<lparr>hv_now = 13000, hv_hang_ms = 1000, hv_linked = False, hv_stop_ok = True, hv_resume_ok = True\<rparr> None
       (syn_health_set_busy 7000 0 True (syn_health_set_busy 7000 0 False stale_health)) = (fed, calls, shm', h2) \<and>
     \<not> fed \<and> he_fault_count h2 = 1"
proof -
  let ?v = "\<lparr>hv_now = 13000, hv_hang_ms = 1000, hv_linked = False, hv_stop_ok = True, hv_resume_ok = True\<rparr>"
  define h1 where "h1 = syn_health_set_busy 7000 0 True (syn_health_set_busy 7000 0 False stale_health)"
  obtain fed calls shm' h2 where t: "health_tick False ?v None h1 = (fed, calls, shm', h2)" using prod_cases4 by blast
  have wf: "health_wf stale_health" "health_wf h1"
    using demo_health_sources(1) by (simp_all add: stale_health_def health_wf_def h1_def syn_health_set_busy_def upd_source_def)
  have s0: "he_sources stale_health ! 0 = stale_source" using demo_health_sources(1) by (simp add: stale_health_def)
  have "he_sources h1 = (he_sources demo_health)[0 := stale_source\<lparr>hs_last_kick := 7000\<rparr>]"
    using demo_health_sources(1) by (simp add: h1_def stale_health_def syn_health_set_busy_def upd_source_def health_id_def stale_source_def)
  then have h1: "he_sources h1 ! j = (if j = 0 then stale_source\<lparr>hs_last_kick := 7000\<rparr> else he_sources demo_health ! j)" for j
    using demo_health_sources(1) by simp
  have late: "j < 4 \<Longrightarrow> source_late 13000 (he_sources h1 ! j) \<longleftrightarrow> j = 0" for j
    using demo_health_sources(2) [of j] unfolding h1 by (auto simp: source_late_def stale_source_def)
  then have l: "\<forall>j < 4. source_late (hv_now ?v) (he_sources h1 ! j) \<longrightarrow> j = nat 0" by simp
  have "he_fault_count h2 = 1"
    using second_hang_is_not_reported [OF wf(1) _ _ _ h1_def [symmetric] t l] s0 by (simp add: health_id_def stale_source_def stale_health_def)
  moreover have "\<not> fed" using health_tick_spec(3) [OF wf(2) t] late [of 0] by auto
  ultimately show ?thesis using t h1_def by blast
qed

end
