(* ===== verification/Boot.thy ===== *)
theory Boot
  imports Ipc Health
begin

text \<open>
  The start, the stop and the restart of the second core, \<open>src/core/syn_boot.c\<close> (CPU0). The writes to
  the two SYSCON registers are kept in order in \<open>bt_trace\<close>; the masks of the clock and the reset bit
  are of the vendor's header and are arguments, and so are the answers of the flash routines. What the
  rest of the system does while this code waits, the other core and the receive thread, is a list of
  functions, one per wait.
\<close>

section \<open>State\<close>

abbreviation (input) SYN_BOOT_CPU1_VECTOR :: u32 where "SYN_BOOT_CPU1_VECTOR \<equiv> 0x00100000"
abbreviation (input) SYN_CPUCTRL_KEY :: u32 where "SYN_CPUCTRL_KEY \<equiv> 0xC0C40000"
abbreviation (input) SYN_IPC_STATUS_REQ :: int where "SYN_IPC_STATUS_REQ \<equiv> 4"
abbreviation (input) SYN_IPC_STATUS_RESP :: u8 where "SYN_IPC_STATUS_RESP \<equiv> 5"

datatype syscon_write = CPBOOT u32 | CPUCTRL u32

record 'c boot =
  bt_shm_ctrl :: bool
  bt_handler_registered :: bool
  bt_status_req_count :: u32
  bt_link_up :: bool
  bt_cpu1_boot_us :: u32
  bt_handshake_us :: u32
  bt_cpuctrl :: u32
  bt_trace :: "syscon_write list"
  bt_ipc :: "'c ipc"
  bt_shm :: syn_shm_region

section \<open>Operations\<close>

definition status_req_handler :: "u32 \<Rightarrow> syn_ipc_msg \<Rightarrow> 'c boot \<Rightarrow> 'c boot" where
  "status_req_handler us msg s =
     (let resp = \<lparr>im_msg_id = 0, im_type = SYN_IPC_STATUS_RESP, im_priority = im_priority msg, im_payload_len = 0,
                  im_payload_offset = im_msg_id msg, im_timestamp_us = 0, im_status = 0\<rparr>;
          s1 = s\<lparr>bt_status_req_count := bt_status_req_count s + 1, bt_link_up := True\<rparr>;
          (ret, mailbox, c, m) = syn_ipc_send False us (Some resp) (bt_ipc s1, bt_shm s1)
      in s1\<lparr>bt_ipc := c, bt_shm := m\<rparr>)"

text \<open>
  \<open>flash\<close> is \<open>None\<close> without the flash driver; else whether its start and the check for erased flash
  succeed, and the first two words of the vector table when they can be read. A driver that does not
  start counts as an image that is present, as in the code.
\<close>

type_synonym flash_answer = "(bool \<times> bool \<times> (u32 \<times> u32) option) option"

definition cpu1_image_present :: "flash_answer \<Rightarrow> bool" where
  "cpu1_image_present flash =
     (case flash of None \<Rightarrow> True
      | Some (init_ok, erased, vec) \<Rightarrow>
          if \<not> init_ok then True
          else if erased then False
          else (case vec of None \<Rightarrow> False
            | Some (sp, pc) \<Rightarrow> \<not> (sp < 0x20000000 \<or> sp > 0x30070000) \<and> pc AND 1 \<noteq> 0))"

definition put_cpuctrl :: "u32 \<Rightarrow> 'c boot \<Rightarrow> 'c boot" where
  "put_cpuctrl v s = s\<lparr>bt_cpuctrl := v, bt_trace := bt_trace s @ [CPUCTRL v]\<rparr>"

definition put_cpboot :: "u32 \<Rightarrow> 'c boot \<Rightarrow> 'c boot" where
  "put_cpboot v s = s\<lparr>bt_trace := bt_trace s @ [CPBOOT v]\<rparr>"

definition release_cpu1 :: "u32 \<Rightarrow> u32 \<Rightarrow> 'c boot \<Rightarrow> 'c boot" where
  "release_cpu1 clken rsten s =
     (let s1 = put_cpboot SYN_BOOT_CPU1_VECTOR s; ctrl = bt_cpuctrl s1 OR SYN_CPUCTRL_KEY;
          s2 = put_cpuctrl (ctrl OR clken OR rsten) s1
      in put_cpuctrl ((ctrl OR clken) AND NOT rsten) s2)"

text \<open>
  \<open>while (!up && waited < budget) { wait; waited += step; }\<close>. \<open>None\<close> when the loop still runs after the
  given waits; else the time waited, the waits left and the state.
\<close>

fun wait_up :: "('s \<Rightarrow> bool) \<Rightarrow> u32 \<Rightarrow> u32 \<Rightarrow> u32 \<Rightarrow> ('s \<Rightarrow> 's) list \<Rightarrow> 's \<Rightarrow> (u32 \<times> ('s \<Rightarrow> 's) list \<times> 's) option" where
  "wait_up up step budget waited [] s = (if \<not> up s \<and> waited < budget then None else Some (waited, [], s))"
| "wait_up up step budget waited (e # env) s =
     (if \<not> up s \<and> waited < budget then wait_up up step budget (waited + step) env (e s) else Some (waited, e # env, s))"

definition cpu1_up :: "'c boot \<Rightarrow> bool" where
  "cpu1_up s \<longleftrightarrow> sc_cpu1_ready (shm_ctrl (bt_shm s)) = 1"

text \<open>\<open>boot_us\<close> and \<open>shake_us\<close> are what the clock shows at the two measurements.\<close>

definition release_and_wait ::
  "u32 \<Rightarrow> u32 \<Rightarrow> u32 \<Rightarrow> u32 \<Rightarrow> ('c boot \<Rightarrow> 'c boot) list \<Rightarrow> u32 \<Rightarrow> 'c boot \<Rightarrow> (unit res \<times> 'c boot) option" where
  "release_and_wait clken rsten boot_us shake_us env timeout_ms s =
     (let budget = timeout_ms * 1000 in
      case wait_up cpu1_up 100 budget 0 env (release_cpu1 clken rsten s) of None \<Rightarrow> None
      | Some (waited, env1, s1) \<Rightarrow>
          if \<not> cpu1_up s1 then Some (Err ETIMEDOUT, s1)
          else
            case wait_up bt_link_up 1000 budget waited env1 (s1\<lparr>bt_cpu1_boot_us := boot_us\<rparr>) of None \<Rightarrow> None
            | Some (waited2, env2, s2) \<Rightarrow>
                if \<not> bt_link_up s2 then Some (Err ETIMEDOUT, s2) else Some (Ok (), s2\<lparr>bt_handshake_us := shake_us\<rparr>))"

text \<open>\<open>h\<close> stands for the handler of status requests with its context.\<close>

definition syn_boot_secondary ::
  "u32 \<Rightarrow> u32 \<Rightarrow> u32 \<Rightarrow> u32 \<Rightarrow> 'c \<Rightarrow> flash_answer \<Rightarrow> ('c boot \<Rightarrow> 'c boot) list \<Rightarrow> bool \<Rightarrow> u32 \<Rightarrow>
    'c boot \<Rightarrow> (unit res \<times> 'c boot) option" where
  "syn_boot_secondary clken rsten boot_us shake_us h flash env shared_base timeout_ms s =
     (if \<not> shared_base \<or> timeout_ms = 0 then Some (Err EINVAL, s)
      else if \<not> cpu1_image_present flash then Some (Err ENODEV, s)
      else
        let s1 = s\<lparr>bt_shm_ctrl := True\<rparr>; k = shm_ctrl (bt_shm s1) in
        if sc_magic k \<noteq> SYN_SHM_MAGIC \<or> sc_cpu0_ready k \<noteq> 1 then Some (Err EINVAL, s1)
        else if bt_handler_registered s1 then release_and_wait clken rsten boot_us shake_us env timeout_ms s1
        else
          case syn_ipc_register_handler SYN_IPC_STATUS_REQ (Some h) (bt_ipc s1) of
            (Inl e, c) \<Rightarrow> Some (Err e, s1\<lparr>bt_ipc := c\<rparr>)
          | (Inr _, c) \<Rightarrow> release_and_wait clken rsten boot_us shake_us env timeout_ms (s1\<lparr>bt_ipc := c, bt_handler_registered := True\<rparr>))"

definition clear_cpu1 :: "'c boot \<Rightarrow> 'c boot" where
  "clear_cpu1 s = s\<lparr>bt_shm := (bt_shm s)\<lparr>shm_ctrl := (shm_ctrl (bt_shm s))\<lparr>sc_cpu1_ready := 0\<rparr>\<rparr>, bt_link_up := False\<rparr>"

definition syn_boot_secondary_stop :: "u32 \<Rightarrow> u32 \<Rightarrow> 'c boot \<Rightarrow> unit res \<times> 'c boot" where
  "syn_boot_secondary_stop clken rsten s =
     (if \<not> bt_shm_ctrl s then (Err ENODEV, s)
      else
        let ctrl = bt_cpuctrl s OR SYN_CPUCTRL_KEY; s1 = put_cpuctrl (ctrl OR clken OR rsten) s;
            s2 = put_cpuctrl ((ctrl OR rsten) AND NOT clken) s1
        in (Ok (), clear_cpu1 s2))"

definition syn_boot_secondary_resume ::
  "u32 \<Rightarrow> u32 \<Rightarrow> u32 \<Rightarrow> u32 \<Rightarrow> ('c boot \<Rightarrow> 'c boot) list \<Rightarrow> u32 \<Rightarrow> 'c boot \<Rightarrow> (unit res \<times> 'c boot) option" where
  "syn_boot_secondary_resume clken rsten boot_us shake_us env timeout_ms s =
     (if \<not> bt_shm_ctrl s then Some (Err ENODEV, s)
      else if timeout_ms = 0 then Some (Err EINVAL, s)
      else release_and_wait clken rsten boot_us shake_us env timeout_ms (clear_cpu1 s))"

definition syn_boot_secondary_linked :: "'c boot \<Rightarrow> bool" where
  "syn_boot_secondary_linked s \<longleftrightarrow> bt_link_up s"

definition syn_boot_cpu1_boot_us :: "'c boot \<Rightarrow> u32" where
  "syn_boot_cpu1_boot_us s = bt_cpu1_boot_us s"

definition syn_boot_handshake_us :: "'c boot \<Rightarrow> u32" where
  "syn_boot_handshake_us s = bt_handshake_us s"

definition syn_boot_status_req_count :: "'c boot \<Rightarrow> u32" where
  "syn_boot_status_req_count s = bt_status_req_count s"

section \<open>The waits end\<close>

lemma wait_up_returns:
  assumes "unat budget + unat step \<le> 2 ^ 32" "unat budget \<le> unat waited + length env * unat step"
  shows "\<exists>w env' s'. wait_up up step budget waited env s = Some (w, env', s') \<and>
    unat w + length env' * unat step = unat waited + length env * unat step"
  using assms
proof (induction env arbitrary: waited s)
  case Nil
  then show ?case by (auto simp: word_less_nat_alt)
next
  case (Cons e env)
  show ?case
  proof (cases "\<not> up s \<and> waited < budget")
    case True
    then have "unat (waited + step) = unat waited + unat step"
      using Cons.prems(1) by (simp add: unat_add32 word_less_nat_alt)
    then show ?thesis using Cons.IH [of "waited + step" "e s"] Cons.prems True by (simp add: algebra_simps)
  next
    case False
    then show ?thesis by auto
  qed
qed

lemma wait_up_exit:
  "wait_up up step budget waited env s = Some (w, env', s') \<Longrightarrow> up s' \<or> \<not> w < budget"
  by (induction up step budget waited env s rule: wait_up.induct) (auto split: if_split_asm)

lemma wait_up_keeps:
  assumes "wait_up up step budget waited env s = Some (w, env', s')" "\<And>e x. e \<in> set env \<Longrightarrow> P x \<Longrightarrow> P (e x)" "P s"
  shows "P s'" "set env' \<subseteq> set env"
  using assms
  by (induction up step budget waited env s rule: wait_up.induct) (auto split: if_split_asm)

section \<open>The registers\<close>

lemma disjoint_bits: "a AND r = (0 :: u32) \<Longrightarrow> \<not> (bit a n \<and> bit r n)"
  by (metis bit_and_iff bit_0_eq bot_apply bot_bool_def)

lemma mask_run:
  assumes "a AND r = (0 :: u32)"
  shows "((c OR a) AND NOT r) AND a = a" "((c OR a) AND NOT r) AND r = 0"
  using disjoint_bits [OF assms] by (auto intro!: bit_word_eqI simp: bit_simps)

lemma mask_both: "(c OR a OR r) AND a = (a :: u32)" "(c OR a OR r) AND r = r"
  by (auto intro!: bit_word_eqI simp: bit_simps)

text \<open>
  What the registers see: a release writes the vector address, then reset asserted with the clock on,
  then reset released; a park asserts reset with the clock on, then gates the clock.
\<close>

inductive cpu1_protocol :: "u32 \<Rightarrow> u32 \<Rightarrow> syscon_write list \<Rightarrow> bool" for clken rsten :: u32 where
  Untouched: "cpu1_protocol clken rsten []"
| Released: "cpu1_protocol clken rsten tr \<Longrightarrow> on AND clken = clken \<Longrightarrow> on AND rsten = rsten \<Longrightarrow>
     run AND clken = clken \<Longrightarrow> run AND rsten = 0 \<Longrightarrow>
     cpu1_protocol clken rsten (tr @ [CPBOOT SYN_BOOT_CPU1_VECTOR, CPUCTRL on, CPUCTRL run])"
| Parked: "cpu1_protocol clken rsten tr \<Longrightarrow> on AND clken = clken \<Longrightarrow> on AND rsten = rsten \<Longrightarrow>
     held AND rsten = rsten \<Longrightarrow> held AND clken = 0 \<Longrightarrow>
     cpu1_protocol clken rsten (tr @ [CPUCTRL on, CPUCTRL held])"

lemma release_protocol:
  assumes "clken AND rsten = 0" "cpu1_protocol clken rsten (bt_trace s)"
  shows "cpu1_protocol clken rsten (bt_trace (release_cpu1 clken rsten s))"
proof -
  let ?c = "bt_cpuctrl s OR SYN_CPUCTRL_KEY"
  have "cpu1_protocol clken rsten (bt_trace s @ [CPBOOT SYN_BOOT_CPU1_VECTOR, CPUCTRL (?c OR clken OR rsten), CPUCTRL ((?c OR clken) AND NOT rsten)])"
    using assms(2) by (rule Released) (rule mask_both mask_run [OF assms(1)])+
  then show ?thesis by (simp add: release_cpu1_def put_cpuctrl_def put_cpboot_def Let_def)
qed

lemma stop_protocol:
  assumes "clken AND rsten = 0" "cpu1_protocol clken rsten (bt_trace s)"
  shows "cpu1_protocol clken rsten (bt_trace (snd (syn_boot_secondary_stop clken rsten s)))"
proof -
  let ?c = "bt_cpuctrl s OR SYN_CPUCTRL_KEY"
  have d: "rsten AND clken = 0" using assms(1) by (simp add: and.commute)
  have "cpu1_protocol clken rsten (bt_trace s @ [CPUCTRL (?c OR clken OR rsten), CPUCTRL ((?c OR rsten) AND NOT clken)])"
    using assms(2) by (rule Parked) (rule mask_both mask_run [OF d])+
  then show ?thesis using assms(2) by (simp add: syn_boot_secondary_stop_def put_cpuctrl_def clear_cpu1_def Let_def)
qed

section \<open>Histories\<close>

text \<open>What does not touch the registers and the attachment: all that is not this file.\<close>

definition same_core :: "'c boot \<Rightarrow> 'c boot \<Rightarrow> bool" where
  "same_core s t \<longleftrightarrow> bt_trace t = bt_trace s \<and> bt_cpuctrl t = bt_cpuctrl s \<and> bt_shm_ctrl t = bt_shm_ctrl s"

text \<open>
  The flash is asked anew at every start call that gets that far, and may answer differently each
  time; a restart by \<open>syn_boot_secondary_resume\<close> does not ask it. The list of a step is what the flash
  answered in it; the history of a run also has the number of register writes before each answer.
\<close>

inductive boot_step :: "u32 \<Rightarrow> u32 \<Rightarrow> 'c boot \<Rightarrow> flash_answer list \<Rightarrow> 'c boot \<Rightarrow> bool" for clken rsten where
  Boot_start: "syn_boot_secondary clken rsten b_us k_us h flash env base ms s = Some (ret, t) \<Longrightarrow>
     (\<forall>e \<in> set env. \<forall>x. same_core x (e x)) \<Longrightarrow> boot_step clken rsten s (if base \<and> ms \<noteq> 0 then [flash] else []) t"
| Boot_resume: "syn_boot_secondary_resume clken rsten b_us k_us env ms s = Some (ret, t) \<Longrightarrow>
     (\<forall>e \<in> set env. \<forall>x. same_core x (e x)) \<Longrightarrow> boot_step clken rsten s [] t"
| Boot_stop: "syn_boot_secondary_stop clken rsten s = (ret, t) \<Longrightarrow> boot_step clken rsten s [] t"
| Boot_status: "boot_step clken rsten s [] (status_req_handler us msg s)"
| Boot_other: "same_core s t \<Longrightarrow> boot_step clken rsten s [] t"

inductive boot_reach :: "u32 \<Rightarrow> u32 \<Rightarrow> (nat \<times> flash_answer) list \<Rightarrow> 'c boot \<Rightarrow> bool" for clken rsten where
  Boot_init: "bt_trace s = [] \<Longrightarrow> \<not> bt_shm_ctrl s \<Longrightarrow> boot_reach clken rsten [] s"
| Boot_next: "boot_reach clken rsten hist s \<Longrightarrow> boot_step clken rsten s log t \<Longrightarrow>
     boot_reach clken rsten (hist @ map (Pair (length (bt_trace s))) log) t"

definition boot_inv :: "u32 \<Rightarrow> u32 \<Rightarrow> (nat \<times> flash_answer) list \<Rightarrow> 'c boot \<Rightarrow> bool" where
  "boot_inv clken rsten hist s \<longleftrightarrow> cpu1_protocol clken rsten (bt_trace s) \<and>
     (bt_shm_ctrl s \<longrightarrow> (\<exists>flash. (0, flash) \<in> set hist \<and> cpu1_image_present flash)) \<and> (bt_trace s \<noteq> [] \<longrightarrow> bt_shm_ctrl s)"

lemma boot_inv_mono: "boot_inv clken rsten hist s \<Longrightarrow> boot_inv clken rsten (hist @ xs) s"
  by (auto simp: boot_inv_def)

lemma boot_inv_same: "boot_inv clken rsten hist s \<Longrightarrow> same_core s t \<Longrightarrow> boot_inv clken rsten hist t"
  by (simp add: boot_inv_def same_core_def)

lemma status_same: "same_core s (status_req_handler us msg s)"
  by (simp add: status_req_handler_def Let_def same_core_def split_beta)

lemma release_and_wait_inv:
  assumes "release_and_wait clken rsten b_us k_us env ms s = Some (ret, t)" "\<forall>e \<in> set env. \<forall>x. same_core x (e x)"
    "clken AND rsten = 0" "boot_inv clken rsten hist s" "bt_shm_ctrl s"
  shows "boot_inv clken rsten hist t"
proof -
  let ?I = "boot_inv clken rsten hist"
  have keep: "?I (e x)" if "e \<in> set env" "?I x" for e x using assms(2) that boot_inv_same by blast
  have "?I (release_cpu1 clken rsten s)"
    using release_protocol [OF assms(3), of s] assms(4,5)
    by (simp add: boot_inv_def release_cpu1_def put_cpuctrl_def put_cpboot_def Let_def)
  note start = this
  obtain w env1 s1 where p1: "wait_up cpu1_up 100 (ms * 1000) 0 env (release_cpu1 clken rsten s) = Some (w, env1, s1)"
    using assms(1) by (auto simp: release_and_wait_def Let_def split: option.splits)
  have K1: "?I s1" by (rule wait_up_keeps(1) [where P = "?I", OF p1]) (use keep start in auto)
  have K2: "set env1 \<subseteq> set env" by (rule wait_up_keeps(2) [where P = "?I", OF p1]) (use keep start in auto)
  have m: "?I (x\<lparr>bt_cpu1_boot_us := b\<rparr>) = ?I x" "?I (x\<lparr>bt_handshake_us := b\<rparr>) = ?I x" for x :: "'a boot" and b
    by (simp_all add: boot_inv_def)
  show ?thesis
  proof (cases "cpu1_up s1")
    case False
    then show ?thesis using assms(1) K1 p1 by (simp add: release_and_wait_def Let_def)
  next
    case True
    then obtain w2 env2 s2 where p2: "wait_up bt_link_up 1000 (ms * 1000) w env1 (s1\<lparr>bt_cpu1_boot_us := b_us\<rparr>) = Some (w2, env2, s2)"
      using assms(1) p1 by (auto simp: release_and_wait_def Let_def split: option.splits)
    have "?I s2" by (rule wait_up_keeps(1) [where P = "?I", OF p2]) (use K1 K2 keep m in auto)
    then show ?thesis using assms(1) p1 p2 True m by (auto simp: release_and_wait_def Let_def split: if_split_asm)
  qed
qed

lemma boot_inv_step:
  assumes "boot_step clken rsten s log t" "boot_inv clken rsten hist s" "clken AND rsten = 0"
  shows "boot_inv clken rsten (hist @ map (Pair (length (bt_trace s))) log) t"
  using assms
proof (induction rule: boot_step.induct)
  case (Boot_start b_us k_us h flash env base ms s ret t)
  let ?s1 = "s\<lparr>bt_shm_ctrl := True\<rparr>" and ?r = "release_and_wait clken rsten b_us k_us env ms"
  let ?hist = "hist @ map (Pair (length (bt_trace s))) (if base \<and> ms \<noteq> 0 then [flash] else [])"
  note I = boot_inv_mono [OF Boot_start(3), of "map (Pair (length (bt_trace s))) (if base \<and> ms \<noteq> 0 then [flash] else [])"]
  have new: "boot_inv clken rsten ?hist ?s1" if "cpu1_image_present flash" "base \<and> ms \<noteq> 0"
    using I that by (cases "bt_shm_ctrl s") (auto simp: boot_inv_def)
  consider "t = s" | "cpu1_image_present flash" "base \<and> ms \<noteq> 0" "t = ?s1 \<or> (\<exists>c. t = ?s1\<lparr>bt_ipc := c\<rparr>)"
    | s2 where "cpu1_image_present flash" "base \<and> ms \<noteq> 0" "?r s2 = Some (ret, t)"
        "s2 = ?s1 \<or> (\<exists>c. s2 = ?s1\<lparr>bt_ipc := c, bt_handler_registered := True\<rparr>)"
    using Boot_start(1) by (auto simp: syn_boot_secondary_def Let_def split: if_split_asm prod.splits sum.splits)
  then show ?case
  proof cases
    case 1
    then show ?thesis using I by simp
  next
    case 2
    then show ?thesis using new by (auto simp: boot_inv_def)
  next
    case (3 s2)
    have "boot_inv clken rsten ?hist s2" "bt_shm_ctrl s2" using new [OF 3(1,2)] 3(4) by (auto simp: boot_inv_def)
    then show ?thesis using release_and_wait_inv [OF 3(3) Boot_start(2) Boot_start(4)] by blast
  qed
next
  case (Boot_resume b_us k_us env ms s ret t)
  have c: "boot_inv clken rsten hist (clear_cpu1 s)" "bt_shm_ctrl (clear_cpu1 s) = bt_shm_ctrl s"
    using Boot_resume(3) by (simp_all add: boot_inv_def clear_cpu1_def)
  show ?case
  proof (cases "bt_shm_ctrl s \<and> ms \<noteq> 0")
    case True
    then have "release_and_wait clken rsten b_us k_us env ms (clear_cpu1 s) = Some (ret, t)"
      using Boot_resume(1) by (simp add: syn_boot_secondary_resume_def)
    then show ?thesis using release_and_wait_inv [OF _ Boot_resume(2) Boot_resume(4) c(1)] c(2) True by simp
  next
    case False
    then show ?thesis using Boot_resume by (auto simp: syn_boot_secondary_resume_def split: if_split_asm)
  qed
next
  case (Boot_stop s ret t)
  then show ?case using stop_protocol [OF Boot_stop(3), of s]
    by (cases "bt_shm_ctrl s") (auto simp: boot_inv_def syn_boot_secondary_stop_def put_cpuctrl_def clear_cpu1_def Let_def)
next
  case (Boot_status s us msg)
  then show ?case using boot_inv_same [OF _ status_same] by simp
next
  case (Boot_other s t)
  then show ?case using boot_inv_same by simp
qed

lemma boot_reach_inv:
  assumes "boot_reach clken rsten hist s" "clken AND rsten = 0"
  shows "boot_inv clken rsten hist s"
  using assms
proof (induction rule: boot_reach.induct)
  case (Boot_init s)
  then show ?case by (simp add: boot_inv_def Untouched)
next
  case (Boot_next hist s log t)
  then show ?case using boot_inv_step by blast
qed

text \<open>The vector table of the image looks sound, unless the flash cannot be asked at all.\<close>

definition image_plausible :: "flash_answer \<Rightarrow> bool" where
  "image_plausible flash \<longleftrightarrow>
     (\<forall>init_ok erased vec. flash = Some (init_ok, erased, vec) \<and> init_ok \<longrightarrow>
        \<not> erased \<and> (\<exists>sp pc. vec = Some (sp, pc) \<and> 0x20000000 \<le> sp \<and> sp \<le> 0x30070000 \<and> odd pc))"

lemma present_plausible: "cpu1_image_present flash \<Longrightarrow> image_plausible flash"
  by (auto simp: cpu1_image_present_def image_plausible_def not_less even_iff_mod_2_eq_zero and_one_eq
      split: option.splits prod.splits if_split_asm)

lemma start_checks:
  assumes "syn_boot_secondary clken rsten b_us k_us h flash env base ms s = Some (ret, t)" "bt_trace t \<noteq> bt_trace s"
  shows "cpu1_image_present flash"
  using assms by (auto simp: syn_boot_secondary_def split: if_split_asm)

section \<open>Properties\<close>

text \<open>
  C26: in every history of starts, stops, restarts and status requests, the second core is not
  touched before a start call asked the flash and found a sound vector table or could not ask
  (no driver, or one that does not start); a start call only releases it when the answer to that very
  call was so; a restart relies on the answer of the start before it and does not ask again. Every
  release writes the boot address and asserts the reset with the clock on before it releases it,
  and the clock is only gated in reset.
\<close>

theorem cpu1_release_follows_an_image_check:
  assumes "boot_reach clken rsten hist s" "clken AND rsten = 0"
  shows "cpu1_protocol clken rsten (bt_trace s) \<and>
    (bt_trace s = [] \<or> (\<exists>flash. (0, flash) \<in> set hist \<and> image_plausible flash)) \<and>
    (syn_boot_secondary clken rsten b_us k_us h flash env base ms s = Some (ret, t) \<longrightarrow>
       bt_trace t = bt_trace s \<or> image_plausible flash)"
proof (intro conjI impI)
  note I = boot_reach_inv [OF assms, unfolded boot_inv_def]
  show "cpu1_protocol clken rsten (bt_trace s)" using I by blast
  show "bt_trace s = [] \<or> (\<exists>flash. (0, flash) \<in> set hist \<and> image_plausible flash)" using I present_plausible by blast
  show "bt_trace t = bt_trace s \<or> image_plausible flash"
    if "syn_boot_secondary clken rsten b_us k_us h flash env base ms s = Some (ret, t)"
    using start_checks [OF that] present_plausible by blast
qed

definition demo_boot :: "nat boot" where
  "demo_boot = \<lparr>bt_shm_ctrl = False, bt_handler_registered = False, bt_status_req_count = 0, bt_link_up = False,
     bt_cpu1_boot_us = 0, bt_handshake_us = 0, bt_cpuctrl = 0, bt_trace = [], bt_ipc = fst demo_up, bt_shm = snd demo_up\<rparr>"

definition demo_ready :: "nat boot \<Rightarrow> nat boot" where
  "demo_ready s = s\<lparr>bt_shm := (bt_shm s)\<lparr>shm_ctrl := (shm_ctrl (bt_shm s))\<lparr>sc_cpu1_ready := 1\<rparr>\<rparr>\<rparr>"

definition demo_started :: "unit res \<times> nat boot" where
  "demo_started = the (syn_boot_secondary 8 32 3 5 9 (Some (True, False, Some (0x20001000, 0x100101)))
     [demo_ready, status_req_handler 2 demo_msg] True 10 demo_boot)"

lemma demo_up_ctrl: "shm_ctrl (snd demo_up) = \<lparr>sc_magic = 0x53594E33, sc_layout_version = 2, sc_ring_entries = 4,
    sc_shared_size = 40000, sc_cpu0_ready = 1, sc_cpu1_ready = 0, sc_rtt_last_us = 0, sc_rtt_min_us = 0, sc_rtt_max_us = 0,
    sc_rtt_count = 0, sc_cpu1_heartbeat = 0, sc_debug_cmd = 0\<rparr>"
  by (simp add: demo_up_def syn_ipc_init_def Let_def boot_ipc_def SYN_SHM_PAYLOAD_OFFSET_def zero_shm_def)

lemma status_fields: "bt_link_up (status_req_handler us msg s)" "bt_trace (status_req_handler us msg s) = bt_trace s"
    "bt_cpuctrl (status_req_handler us msg s) = bt_cpuctrl s" "bt_shm_ctrl (status_req_handler us msg s) = bt_shm_ctrl s"
  by (simp_all add: status_req_handler_def Let_def split_beta)

lemma demo_started_value:
  "syn_boot_secondary 8 32 3 5 9 (Some (True, False, Some (0x20001000, 0x100101))) [demo_ready, status_req_handler 2 demo_msg] True 10 demo_boot
     = Some demo_started \<and> fst demo_started = Ok () \<and>
   bt_trace (snd demo_started) = [CPBOOT 0x00100000, CPUCTRL 0xC0C40028, CPUCTRL 0xC0C40008]"
  by (simp add: demo_started_def syn_boot_secondary_def cpu1_image_present_def demo_boot_def demo_up_ctrl
      syn_ipc_register_handler_def release_and_wait_def Let_def release_cpu1_def put_cpuctrl_def put_cpboot_def
      cpu1_up_def demo_ready_def status_fields)

theorem cpu1_release_follows_an_image_check_witness:
  "boot_reach 8 32 [(0, Some (True, False, Some (0x20001000, 0x100101)))] (snd demo_started) \<and>
   cpu1_protocol 8 32 (bt_trace (snd demo_started)) \<and> bt_trace (snd demo_started) \<noteq> []"
proof -
  have q: "\<forall>e \<in> set [demo_ready, status_req_handler 2 demo_msg]. \<forall>x. same_core x (e x)"
    by (simp add: status_same) (simp add: same_core_def demo_ready_def)
  have v: "syn_boot_secondary 8 32 3 5 9 (Some (True, False, Some (0x20001000, 0x100101))) [demo_ready, status_req_handler 2 demo_msg] True 10 demo_boot
      = Some (fst demo_started, snd demo_started)" unfolding prod.collapse by (rule demo_started_value [THEN conjunct1])
  have "bt_trace demo_boot = []" "\<not> bt_shm_ctrl demo_boot" by (simp_all add: demo_boot_def)
  from Boot_next [OF Boot_init [OF this] Boot_start [OF v q]]
  have "boot_reach 8 32 [(0, Some (True, False, Some (0x20001000, 0x100101)))] (snd demo_started)" by (simp add: demo_boot_def)
  then show ?thesis using cpu1_release_follows_an_image_check [of 8 32 _ "snd demo_started"] demo_started_value by simp
qed

text \<open>
  When the budget in microseconds and one long wait fit 32 bits, a release returns after at most
  one wait per 100 microseconds of the budget, with 0 or a timeout, and with 0 only when the link is up.
\<close>

theorem release_returns_within_the_budget:
  assumes "unat (ms * 1000) + 1000 \<le> 2 ^ 32" "unat (ms * 1000) \<le> 100 * length env"
  shows "\<exists>ret t. release_and_wait clken rsten b_us k_us env ms s = Some (ret, t) \<and>
    (ret = Ok () \<and> bt_link_up t \<or> ret = Err ETIMEDOUT \<and> (\<not> cpu1_up t \<or> \<not> bt_link_up t))"
proof -
  let ?b = "ms * 1000"
  have u: "unat (100 :: u32) = 100" "unat (1000 :: u32) = 1000" by simp_all
  obtain w env1 s1 where p1: "wait_up cpu1_up 100 ?b 0 env (release_cpu1 clken rsten s) = Some (w, env1, s1)"
    and w1: "unat w + length env1 * 100 = length env * 100"
    using wait_up_returns [of ?b 100 0 env cpu1_up "release_cpu1 clken rsten s"] assms u by auto
  show ?thesis
  proof (cases "cpu1_up s1")
    case False
    then show ?thesis using p1 by (simp add: release_and_wait_def Let_def)
  next
    case True
    have "unat ?b \<le> unat w + length env1 * unat (1000 :: u32)" using w1 assms(2) u by simp
    then obtain w2 env2 s2 where p2: "wait_up bt_link_up 1000 ?b w env1 (s1\<lparr>bt_cpu1_boot_us := b_us\<rparr>) = Some (w2, env2, s2)"
      using wait_up_returns [of ?b 1000 w env1 bt_link_up "s1\<lparr>bt_cpu1_boot_us := b_us\<rparr>"] assms(1) u by auto
    show ?thesis using p1 p2 True by (simp add: release_and_wait_def Let_def)
  qed
qed

theorem release_returns_within_the_budget_witness:
  "\<exists>ret t. release_and_wait 8 32 3 5 (replicate 10 demo_ready) 1 demo_boot = Some (ret, t) \<and>
    (ret = Ok () \<and> bt_link_up t \<or> ret = Err ETIMEDOUT \<and> (\<not> cpu1_up t \<or> \<not> bt_link_up t))"
  by (rule release_returns_within_the_budget) simp_all

text \<open>
  A status request that is handled after a stop marks the link of a core that is held in reset as
  up, so that the health monitor, which sees no heartbeat, takes its branch that releases the core again.
\<close>

theorem late_status_request_revives_a_parked_core:
  fixes s :: "'c boot" and msg :: syn_ipc_msg and us :: u32
  assumes "bt_shm_ctrl s" "clken AND rsten = 0" "he_primed h" "hb = he_last_hb h" "hv_now v - he_last_change h > hv_hang_ms v"
  defines "t \<equiv> status_req_handler us msg (snd (syn_boot_secondary_stop clken rsten s))"
  shows "bt_cpuctrl t AND rsten = rsten \<and> bt_cpuctrl t AND clken = 0 \<and> syn_boot_secondary_linked t \<and>
    fst (check_cpu1 (v\<lparr>hv_linked := syn_boot_secondary_linked t\<rparr>) (Some (hb, cmd)) h) = Some (hb, 0) \<and>
    \<not> he_primed (snd (check_cpu1 (v\<lparr>hv_linked := syn_boot_secondary_linked t\<rparr>) (Some (hb, cmd)) h))"
proof -
  have d: "rsten AND clken = 0" using assms(2) by (simp add: and.commute)
  have r: "bt_cpuctrl t = ((bt_cpuctrl s OR SYN_CPUCTRL_KEY) OR rsten) AND NOT clken"
    using assms(1) by (simp add: t_def status_fields syn_boot_secondary_stop_def put_cpuctrl_def clear_cpu1_def Let_def)
  have l: "syn_boot_secondary_linked t" by (simp add: t_def syn_boot_secondary_linked_def status_fields)
  show ?thesis using assms(3,4,5) unfolding r mask_run [OF d] by (simp add: l check_cpu1_def)
qed

definition demo_watch :: health_env where
  "demo_watch = \<lparr>hv_now = 9000, hv_hang_ms = 1000, hv_linked = False, hv_stop_ok = True, hv_resume_ok = True\<rparr>"

definition demo_watched :: health where
  "demo_watched = demo_health\<lparr>he_primed := True, he_last_hb := 5, he_last_change := 100\<rparr>"

theorem late_status_request_revives_a_parked_core_witness:
  "syn_boot_secondary_linked (status_req_handler 2 demo_msg (snd (syn_boot_secondary_stop 8 32 (demo_boot\<lparr>bt_shm_ctrl := True\<rparr>)))) \<and>
   fst (check_cpu1 (demo_watch\<lparr>hv_linked := True\<rparr>) (Some (5, 0)) demo_watched) = Some (5, 0)"
proof -
  have l: "bt_shm_ctrl (demo_boot\<lparr>bt_shm_ctrl := True\<rparr>)" "(8 :: u32) AND 32 = 0" "he_primed demo_watched"
    "5 = he_last_hb demo_watched" "hv_now demo_watch - he_last_change demo_watched > hv_hang_ms demo_watch"
    by (simp_all add: demo_watch_def demo_watched_def)
  note T = late_status_request_revives_a_parked_core [OF l, where us = 2 and msg = demo_msg and cmd = 0]
  then have L: "syn_boot_secondary_linked (status_req_handler 2 demo_msg (snd (syn_boot_secondary_stop 8 32 (demo_boot\<lparr>bt_shm_ctrl := True\<rparr>)))) = True" by blast
  show ?thesis using T unfolding L by blast
qed

end
