(* ===== verification/Drain_Gate.thy ===== *)
theory Drain_Gate
  imports Syn_Prelude
begin

text \<open>
  The admission gate \<open>src/core/syn_drain_gate.c\<close> between the loop that serves the second core and an
  update that wants it quiet. Each critical section of the lock is one definition; the semaphore
  \<open>idle\<close> counts to one.
\<close>

section \<open>Operations\<close>

record syn_drain_gate =
  dg_idle :: bool
  dg_paused :: bool
  dg_busy :: bool

definition syn_drain_gate_init :: syn_drain_gate where
  "syn_drain_gate_init = \<lparr>dg_idle = False, dg_paused = False, dg_busy = False\<rparr>"

definition syn_drain_gate_enter :: "syn_drain_gate \<Rightarrow> bool \<times> syn_drain_gate" where
  "syn_drain_gate_enter g = (let admitted = \<not> dg_paused g in (admitted, if admitted then g\<lparr>dg_busy := True\<rparr> else g))"

definition gate_exit_locked :: "syn_drain_gate \<Rightarrow> bool \<times> syn_drain_gate" where
  "gate_exit_locked g = (dg_paused g, g\<lparr>dg_busy := False\<rparr>)"

definition gate_notify :: "bool \<Rightarrow> syn_drain_gate \<Rightarrow> syn_drain_gate" where
  "gate_notify notify g = (if notify then g\<lparr>dg_idle := True\<rparr> else g)"

definition syn_drain_gate_exit :: "syn_drain_gate \<Rightarrow> syn_drain_gate" where
  "syn_drain_gate_exit g = (let (notify, g1) = gate_exit_locked g in gate_notify notify g1)"

definition gate_drain_locked :: "syn_drain_gate \<Rightarrow> bool \<times> syn_drain_gate" where
  "gate_drain_locked g = (dg_busy g, g\<lparr>dg_paused := True, dg_idle := False\<rparr>)"

text \<open>
  The whole drain: \<open>meanwhile\<close> is what the server does during the wait; without a token at its end
  the wait times out.
\<close>

definition syn_drain_gate_drain :: "(syn_drain_gate \<Rightarrow> syn_drain_gate) \<Rightarrow> syn_drain_gate \<Rightarrow> unit res \<times> syn_drain_gate" where
  "syn_drain_gate_drain meanwhile g =
     (let (busy, g1) = gate_drain_locked g in
      if \<not> busy then (Ok (), g1)
      else let g2 = meanwhile g1 in
        if dg_idle g2 then (Ok (), g2\<lparr>dg_idle := False\<rparr>) else (Err ETIMEDOUT, g2))"

definition syn_drain_gate_resume :: "syn_drain_gate \<Rightarrow> syn_drain_gate" where
  "syn_drain_gate_resume g = g\<lparr>dg_paused := False\<rparr>"

section \<open>One server and one drainer\<close>

datatype server_pc = Srv_out | Srv_in | Srv_notify bool
datatype drainer_pc = Dr_open | Dr_waiting | Dr_drained | Dr_timed_out

record gate_sys =
  gs_gate :: syn_drain_gate
  gs_server :: server_pc
  gs_drainer :: drainer_pc

inductive gate_step :: "gate_sys \<Rightarrow> gate_sys \<Rightarrow> bool" where
  Gate_enter: "gs_server s = Srv_out \<Longrightarrow> syn_drain_gate_enter (gs_gate s) = (admitted, g) \<Longrightarrow>
     gate_step s (s\<lparr>gs_gate := g, gs_server := (if admitted then Srv_in else Srv_out)\<rparr>)"
| Gate_leave: "gs_server s = Srv_in \<Longrightarrow> gate_exit_locked (gs_gate s) = (notify, g) \<Longrightarrow>
     gate_step s (s\<lparr>gs_gate := g, gs_server := Srv_notify notify\<rparr>)"
| Gate_notify: "gs_server s = Srv_notify notify \<Longrightarrow>
     gate_step s (s\<lparr>gs_gate := gate_notify notify (gs_gate s), gs_server := Srv_out\<rparr>)"
| Gate_drain: "gs_drainer s \<noteq> Dr_waiting \<Longrightarrow> gate_drain_locked (gs_gate s) = (busy, g) \<Longrightarrow>
     gate_step s (s\<lparr>gs_gate := g, gs_drainer := (if busy then Dr_waiting else Dr_drained)\<rparr>)"
| Gate_take: "gs_drainer s = Dr_waiting \<Longrightarrow> dg_idle (gs_gate s) \<Longrightarrow>
     gate_step s (s\<lparr>gs_gate := (gs_gate s)\<lparr>dg_idle := False\<rparr>, gs_drainer := Dr_drained\<rparr>)"
| Gate_timeout: "gs_drainer s = Dr_waiting \<Longrightarrow> gate_step s (s\<lparr>gs_drainer := Dr_timed_out\<rparr>)"
| Gate_resume: "gs_drainer s \<noteq> Dr_waiting \<Longrightarrow>
     gate_step s (s\<lparr>gs_gate := syn_drain_gate_resume (gs_gate s), gs_drainer := Dr_open\<rparr>)"

inductive_cases gate_stepE: "gate_step s t"

inductive gate_reach :: "gate_sys \<Rightarrow> bool" where
  Gate_init: "gate_reach \<lparr>gs_gate = syn_drain_gate_init, gs_server = Srv_out, gs_drainer = Dr_open\<rparr>"
| Gate_next: "gate_reach s \<Longrightarrow> gate_step s t \<Longrightarrow> gate_reach t"

definition gate_inv :: "gate_sys \<Rightarrow> bool" where
  "gate_inv s \<longleftrightarrow> (let g = gs_gate s in
     (dg_busy g \<longleftrightarrow> gs_server s = Srv_in) \<and> (dg_paused g \<longleftrightarrow> gs_drainer s \<noteq> Dr_open) \<and>
     (gs_drainer s = Dr_drained \<longrightarrow> gs_server s \<noteq> Srv_in) \<and>
     (gs_drainer s = Dr_waiting \<longrightarrow> gs_server s = Srv_in \<and> \<not> dg_idle g \<or> gs_server s = Srv_notify True \<or>
        gs_server s \<noteq> Srv_in \<and> dg_idle g))"

lemmas gate_defs = syn_drain_gate_enter_def gate_exit_locked_def gate_notify_def gate_drain_locked_def
  syn_drain_gate_resume_def syn_drain_gate_init_def

lemma gate_inv_step: "gate_step s t \<Longrightarrow> gate_inv s \<Longrightarrow> gate_inv t"
  by (erule gate_stepE) (auto simp: gate_inv_def gate_defs Let_def split: if_split_asm)

lemma gate_reach_inv: "gate_reach s \<Longrightarrow> gate_inv s"
proof (induction rule: gate_reach.induct)
  case Gate_init
  show ?case by (simp add: gate_inv_def gate_defs)
next
  case (Gate_next s t)
  then show ?case using gate_inv_step by blast
qed

text \<open>
  C32: once a drain has returned 0 the server is outside and no step lets it in until the gate is
  resumed, a stale token never ends a drain early, and a drain that waits either still has its server
  inside or its token given or about to be given.
\<close>

theorem drained_gate_stays_empty:
  assumes "gate_reach s"
  shows "(gs_drainer s = Dr_drained \<longrightarrow> gs_server s \<noteq> Srv_in \<and>
      (\<forall>t. gate_step s t \<longrightarrow> gs_server t \<noteq> Srv_in)) \<and>
    (gs_drainer s = Dr_waiting \<and> dg_idle (gs_gate s) \<longrightarrow> gs_server s \<noteq> Srv_in) \<and>
    (gs_drainer s = Dr_waiting \<longrightarrow> gs_server s = Srv_in \<or> gs_server s = Srv_notify True \<or> dg_idle (gs_gate s))"
proof -
  have I: "gate_inv s" by (rule gate_reach_inv [OF assms])
  have "gs_server t \<noteq> Srv_in" if "gs_drainer s = Dr_drained" "gate_step s t" for t
    using that(2) by (rule gate_stepE) (use I that(1) in \<open>auto simp: gate_inv_def gate_defs Let_def\<close>)
  then show ?thesis using I unfolding gate_inv_def Let_def by auto
qed

definition demo_drained :: gate_sys where
  "demo_drained = \<lparr>gs_gate = \<lparr>dg_idle = False, dg_paused = True, dg_busy = False\<rparr>, gs_server = Srv_out, gs_drainer = Dr_drained\<rparr>"

theorem drained_gate_stays_empty_witness: "gate_reach demo_drained \<and> gs_drainer demo_drained = Dr_drained \<and> gs_server demo_drained \<noteq> Srv_in"
proof -
  have "gate_step \<lparr>gs_gate = syn_drain_gate_init, gs_server = Srv_out, gs_drainer = Dr_open\<rparr> demo_drained"
    using Gate_drain [of "\<lparr>gs_gate = syn_drain_gate_init, gs_server = Srv_out, gs_drainer = Dr_open\<rparr>" False]
    by (simp add: gate_defs demo_drained_def)
  then have r: "gate_reach demo_drained" by (rule Gate_next [OF Gate_init])
  have "gs_drainer demo_drained = Dr_drained" by (simp add: demo_drained_def)
  then show ?thesis using r drained_gate_stays_empty [OF r] by blast
qed

end
