(* ===== verification/Mem.thy ===== *)
theory Mem
  imports Syn_Prelude
begin

text \<open>
  The tensor arena of \<open>src/core/syn_mem.c\<close>: a bump allocator with a persistent region, an
  ephemeral region placed after it, and a scratch pool at the top. All sizes and offsets are
  32-bit words, as \<open>size_t\<close> is on the target. The Kconfig scratch size and the ABI's
  \<open>sizeof (syn_tensor_t)\<close> are arguments.
\<close>

section \<open>Data\<close>

datatype syn_npu_dtype =
    SYN_NPU_DTYPE_INT8 | SYN_NPU_DTYPE_UINT8 | SYN_NPU_DTYPE_INT16
  | SYN_NPU_DTYPE_FLOAT16 | SYN_NPU_DTYPE_FLOAT32

datatype syn_mem_lifetime = SYN_MEM_PERSISTENT | SYN_MEM_EPHEMERAL | SYN_MEM_SHARED

record syn_tensor =
  tn_data :: u32
  tn_size :: u32
  tn_dtype :: syn_npu_dtype
  tn_ndim :: nat
  tn_shape :: "u32 list"
  tn_lifetime :: syn_mem_lifetime

record mem_arena =
  ar_base :: u32
  ar_total :: u32
  ar_usable :: u32
  ar_persistent_used :: u32
  ar_ephemeral_used :: u32
  ar_peak :: u32
  ar_scratch_total :: u32
  ar_scratch_used :: u32
  ar_alloc_count :: u32
  ar_reset_count :: u32
  ar_initialized :: bool

record syn_mem_stats =
  ms_arena_total :: u32
  ms_arena_used :: u32
  ms_arena_peak :: u32
  ms_scratch_total :: u32
  ms_scratch_used :: u32
  ms_alloc_count :: u32
  ms_reset_count :: u32

record syn_mem_layout =
  ml_base :: u32
  ml_total :: u32
  ml_usable :: u32
  ml_persistent_used :: u32
  ml_ephemeral_used :: u32
  ml_scratch_total :: u32
  ml_scratch_used :: u32

section \<open>Operations\<close>

definition align_up :: "u32 \<Rightarrow> u32 \<Rightarrow> u32" where
  "align_up x a = (x + a - 1) AND NOT (a - 1)"

abbreviation TENSOR_ALIGNMENT :: u32 where "TENSOR_ALIGNMENT \<equiv> 16"

definition syn_mem_init :: "u32 \<Rightarrow> u32 option \<Rightarrow> u32 \<Rightarrow> mem_arena \<Rightarrow> unit res \<times> mem_arena" where
  "syn_mem_init scratch_size arena_base arena_size a =
     (case arena_base of None \<Rightarrow> (Err EINVAL, a)
      | Some base \<Rightarrow>
          if arena_size = 0 then (Err EINVAL, a)
          else if arena_size \<le> scratch_size then (Err EINVAL, a)
          else (Ok (), \<lparr>ar_base = base, ar_total = arena_size,
                  ar_usable = arena_size - scratch_size, ar_persistent_used = 0,
                  ar_ephemeral_used = 0, ar_peak = 0, ar_scratch_total = scratch_size,
                  ar_scratch_used = 0, ar_alloc_count = 0, ar_reset_count = 0,
                  ar_initialized = True\<rparr>))"

definition syn_mem_reset_ephemeral :: "mem_arena \<Rightarrow> mem_arena" where
  "syn_mem_reset_ephemeral a =
     (if \<not> ar_initialized a then a
      else a\<lparr>ar_ephemeral_used := 0, ar_scratch_used := 0,
             ar_reset_count := ar_reset_count a + 1\<rparr>)"

fun dtype_size :: "syn_npu_dtype \<Rightarrow> u32" where
  "dtype_size SYN_NPU_DTYPE_INT8 = 1"
| "dtype_size SYN_NPU_DTYPE_UINT8 = 1"
| "dtype_size SYN_NPU_DTYPE_INT16 = 2"
| "dtype_size SYN_NPU_DTYPE_FLOAT16 = 2"
| "dtype_size SYN_NPU_DTYPE_FLOAT32 = 4"

definition arena_alloc :: "syn_mem_lifetime \<Rightarrow> u32 \<Rightarrow> mem_arena \<Rightarrow> u32 option \<times> mem_arena" where
  "arena_alloc lifetime sz a =
     (let offset = (if lifetime = SYN_MEM_PERSISTENT then ar_persistent_used a
                    else ar_persistent_used a + ar_ephemeral_used a);
          aligned_offset = align_up offset TENSOR_ALIGNMENT;
          end' = aligned_offset + sz
      in if end' > ar_usable a then (None, a)
         else
           let ptr = ar_base a + aligned_offset;
               a1 = (if lifetime = SYN_MEM_PERSISTENT then a\<lparr>ar_persistent_used := end'\<rparr>
                     else a\<lparr>ar_ephemeral_used := end' - ar_persistent_used a\<rparr>);
               current = ar_persistent_used a1 + ar_ephemeral_used a1;
               a2 = (if current > ar_peak a1 then a1\<lparr>ar_peak := current\<rparr> else a1)
           in (Some ptr, a2\<lparr>ar_alloc_count := ar_alloc_count a2 + 1\<rparr>))"

text \<open>The element count of a shape: the 32-bit product of its first \<open>ndim\<close> entries.\<close>

definition num_elements :: "u32 list \<Rightarrow> nat \<Rightarrow> u32" where
  "num_elements shape ndim = foldl (\<lambda>n d. n * d) 1 (take ndim shape)"

definition shape4 :: "u32 list \<Rightarrow> nat \<Rightarrow> u32 list" where
  "shape4 shape ndim = take ndim shape @ replicate (4 - ndim) 0"

definition desc_size :: "u32 \<Rightarrow> u32" where
  "desc_size tensor_sz = align_up tensor_sz TENSOR_ALIGNMENT"

definition syn_mem_tensor_alloc ::
  "u32 \<Rightarrow> u32 list option \<Rightarrow> nat \<Rightarrow> syn_npu_dtype \<Rightarrow> syn_mem_lifetime \<Rightarrow> mem_arena \<Rightarrow>
     (u32 \<times> syn_tensor) option \<times> mem_arena" where
  "syn_mem_tensor_alloc tensor_sz shape ndim dtype lifetime a =
     (case shape of None \<Rightarrow> (None, a)
      | Some sh \<Rightarrow>
          if \<not> ar_initialized a \<or> ndim = 0 \<or> ndim > 4 then (None, a)
          else
            let data_size = num_elements sh ndim * dtype_size dtype;
                total = desc_size tensor_sz + data_size
            in (case arena_alloc lifetime total a of
                  (None, a') \<Rightarrow> (None, a')
                | (Some block, a') \<Rightarrow>
                    (Some (block, \<lparr>tn_data = block + desc_size tensor_sz, tn_size = data_size,
                        tn_dtype = dtype, tn_ndim = ndim, tn_shape = shape4 sh ndim,
                        tn_lifetime = lifetime\<rparr>), a')))"

definition syn_mem_tensor_free :: "u32 option \<Rightarrow> mem_arena \<Rightarrow> mem_arena" where
  "syn_mem_tensor_free tensor a = a"

definition syn_mem_tensor_init ::
  "syn_tensor option \<Rightarrow> u32 list option \<Rightarrow> nat \<Rightarrow> syn_npu_dtype \<Rightarrow> unit res \<times> syn_tensor option" where
  "syn_mem_tensor_init tensor shape ndim dtype =
     (case (tensor, shape) of
        (Some t, Some sh) \<Rightarrow>
          if ndim = 0 \<or> ndim > 4 then (Err EINVAL, Some t)
          else (Ok (), Some (t\<lparr>tn_size := num_elements sh ndim * dtype_size dtype,
                  tn_dtype := dtype, tn_ndim := ndim, tn_shape := shape4 sh ndim\<rparr>))
      | _ \<Rightarrow> (Err EINVAL, tensor))"

definition syn_mem_scratch_acquire :: "u32 \<Rightarrow> mem_arena \<Rightarrow> u32 option \<times> mem_arena" where
  "syn_mem_scratch_acquire sz a =
     (if \<not> ar_initialized a \<or> sz = 0 then (None, a)
      else
        let aligned_offset = align_up (ar_scratch_used a) TENSOR_ALIGNMENT;
            end' = aligned_offset + sz
        in if end' > ar_scratch_total a then (None, a)
           else (Some (ar_base a + ar_usable a + aligned_offset),
                 a\<lparr>ar_scratch_used := end', ar_alloc_count := ar_alloc_count a + 1\<rparr>))"

definition syn_mem_scratch_release :: "u32 option \<Rightarrow> mem_arena \<Rightarrow> mem_arena" where
  "syn_mem_scratch_release ptr a = a"

definition syn_mem_get_stats :: "bool \<Rightarrow> mem_arena \<Rightarrow> syn_mem_stats res" where
  "syn_mem_get_stats stats_ptr a =
     (if \<not> stats_ptr \<or> \<not> ar_initialized a then Err EINVAL
      else Ok \<lparr>ms_arena_total = ar_usable a,
               ms_arena_used = ar_persistent_used a + ar_ephemeral_used a,
               ms_arena_peak = ar_peak a, ms_scratch_total = ar_scratch_total a,
               ms_scratch_used = ar_scratch_used a, ms_alloc_count = ar_alloc_count a,
               ms_reset_count = ar_reset_count a\<rparr>)"

definition syn_mem_get_layout :: "bool \<Rightarrow> mem_arena \<Rightarrow> syn_mem_layout res" where
  "syn_mem_get_layout layout_ptr a =
     (if \<not> layout_ptr then Err EINVAL
      else if \<not> ar_initialized a then Err ENODEV
      else Ok \<lparr>ml_base = ar_base a, ml_total = ar_total a, ml_usable = ar_usable a,
               ml_persistent_used = ar_persistent_used a,
               ml_ephemeral_used = ar_ephemeral_used a, ml_scratch_total = ar_scratch_total a,
               ml_scratch_used = ar_scratch_used a\<rparr>)"

section \<open>Alignment\<close>

lemma push_drop_unat:
  fixes y :: u32
  shows "unat (push_bit n (drop_bit n y)) = unat y - unat y mod 2 ^ n"
proof -
  have eq: "push_bit n (drop_bit n y) + take_bit n y = y"
    by (rule bits_ident)
  have tb: "unat (take_bit n y) = unat y mod 2 ^ n"
    unfolding unsigned_take_bit_eq by (rule take_bit_eq_mod)
  have "take_bit n y \<le> y"
    by (simp add: word_le_nat_alt tb)
  moreover have "push_bit n (drop_bit n y) = y - take_bit n y"
    using eq by (metis add_diff_cancel_right')
  ultimately show ?thesis by (simp add: unat_sub tb)
qed

definition round16 :: "nat \<Rightarrow> nat" where
  "round16 n = (n + 15) div 16 * 16"

lemma round16_bounds: "n \<le> round16 n" "round16 n < n + 16" "16 dvd round16 n"
  by (simp_all add: round16_def)

lemma unat_align_up:
  assumes "unat x \<le> 2 ^ 31"
  shows "unat (align_up x 16) = round16 (unat x)"
proof -
  have "align_up x 16 = (x + 15) AND NOT (mask 4)"
    by (simp add: align_up_def mask_eq_exp_minus_1 add.commute)
  also have "\<dots> = push_bit 4 (drop_bit 4 (x + 15))"
    by (rule bit_word_eqI) (auto simp: bit_simps)
  finally have "unat (align_up x 16) = unat (x + 15) - unat (x + 15) mod 16"
    by (simp add: push_drop_unat)
  moreover have "unat (x + 15) = unat x + 15"
    using assms by (simp add: unat_add32)
  ultimately show ?thesis by (simp add: minus_mod_eq_div_mult round16_def)
qed

lemma unat_add32_small: "unat (a :: u32) + unat b < 2 ^ 32 \<Longrightarrow> unat (a + b) = unat a + unat b"
  by (simp add: unat_add32)

section \<open>Well-formedness and the effect of each operation\<close>

text \<open>
  The arenas below are at most \<open>2 ^ 30\<close> bytes (Kconfig allows 512 KB) and do not straddle the
  end of the address space, and a request is less than \<open>2 ^ 30\<close> bytes, so no sum wraps.
\<close>

definition arena_wf :: "mem_arena \<Rightarrow> bool" where
  "arena_wf a \<longleftrightarrow> ar_initialized a \<and> unat (ar_base a) + unat (ar_total a) < 2 ^ 32 \<and>
     unat (ar_total a) \<le> 2 ^ 30 \<and>
     unat (ar_usable a) + unat (ar_scratch_total a) = unat (ar_total a) \<and>
     unat (ar_persistent_used a) + unat (ar_ephemeral_used a) \<le> unat (ar_peak a) \<and>
     unat (ar_peak a) \<le> unat (ar_usable a) \<and>
     unat (ar_scratch_used a) \<le> unat (ar_scratch_total a)"

definition bump_base :: "syn_mem_lifetime \<Rightarrow> mem_arena \<Rightarrow> nat" where
  "bump_base lt a = unat (ar_persistent_used a) +
     (if lt = SYN_MEM_PERSISTENT then 0 else unat (ar_ephemeral_used a))"

lemma arena_wf_init:
  assumes "syn_mem_init scr (Some base) sz a0 = (Ok (), a)"
    and "unat base + unat sz < 2 ^ 32" "unat sz \<le> 2 ^ 30"
  shows "arena_wf a"
  using assms
  by (auto simp: syn_mem_init_def arena_wf_def unat_sub word_less_nat_alt word_le_nat_alt not_le split: if_splits)

lemma arena_alloc_fits:
  assumes wf: "arena_wf a" and sz: "unat sz < 2 ^ 30"
  shows "fst (arena_alloc lt sz a) =
    (if round16 (bump_base lt a) + unat sz \<le> unat (ar_usable a)
     then Some (ar_base a + of_nat (round16 (bump_base lt a))) else None)"
proof -
  let ?off = "if lt = SYN_MEM_PERSISTENT then ar_persistent_used a
              else ar_persistent_used a + ar_ephemeral_used a"
  have off: "unat ?off = bump_base lt a" and b: "bump_base lt a \<le> 2 ^ 30"
    using wf by (auto simp: bump_base_def arena_wf_def unat_add32_small)
  then have al: "unat (align_up ?off 16) = round16 (bump_base lt a)"
    using unat_align_up [of ?off] by simp
  then have e: "unat (align_up ?off 16 + sz) = round16 (bump_base lt a) + unat sz"
    using sz b round16_bounds(2) [of "bump_base lt a"] by (simp add: unat_add32_small)
  have "align_up ?off 16 = of_nat (round16 (bump_base lt a))"
    by (simp flip: al)
  then show ?thesis
    using e by (simp add: arena_alloc_def Let_def word_less_nat_alt)
qed

text \<open>A successful allocation keeps the arena well formed when no persistent block is placed
  while ephemeral blocks are live.\<close>

lemma arena_alloc_Some:
  assumes wf: "arena_wf a" and sz: "unat sz < 2 ^ 30"
    and ok: "lt = SYN_MEM_PERSISTENT \<longrightarrow> ar_ephemeral_used a = 0"
    and alloc: "arena_alloc lt sz a = (Some ptr, a')"
  shows "arena_wf a'" "unat ptr = unat (ar_base a) + round16 (bump_base lt a)"
    "round16 (bump_base lt a) + unat sz \<le> unat (ar_usable a)"
    "unat (ar_persistent_used a') = (if lt = SYN_MEM_PERSISTENT then round16 (bump_base lt a) + unat sz
       else unat (ar_persistent_used a))"
    "unat (ar_persistent_used a') + unat (ar_ephemeral_used a') = round16 (bump_base lt a) + unat sz"
    "ar_base a' = ar_base a" "ar_usable a' = ar_usable a" "ar_scratch_used a' = ar_scratch_used a"
proof -
  let ?off = "if lt = SYN_MEM_PERSISTENT then ar_persistent_used a
              else ar_persistent_used a + ar_ephemeral_used a"
  let ?e = "align_up ?off 16 + sz"
  have off: "unat ?off = bump_base lt a" and b: "bump_base lt a \<le> 2 ^ 30"
    using wf by (auto simp: bump_base_def arena_wf_def unat_add32_small)
  then have al: "unat (align_up ?off 16) = round16 (bump_base lt a)"
    using unat_align_up [of ?off] by simp
  then have e: "unat ?e = round16 (bump_base lt a) + unat sz"
    using sz b round16_bounds(2) [of "bump_base lt a"] by (simp add: unat_add32_small)
  show fit: "round16 (bump_base lt a) + unat sz \<le> unat (ar_usable a)"
    using arena_alloc_fits [OF wf sz, of lt] alloc by (simp split: if_splits)
  have "ptr = ar_base a + align_up ?off 16"
    using alloc by (auto simp: arena_alloc_def Let_def split: if_splits)
  then show "unat ptr = unat (ar_base a) + round16 (bump_base lt a)"
    using fit wf al by (simp add: unat_add32_small arena_wf_def)
  have p: "ar_persistent_used a' = (if lt = SYN_MEM_PERSISTENT then ?e else ar_persistent_used a)"
    and q: "ar_ephemeral_used a' = (if lt = SYN_MEM_PERSISTENT then ar_ephemeral_used a
              else ?e - ar_persistent_used a)"
    and pk: "ar_peak a' = max (ar_peak a) (ar_persistent_used a' + ar_ephemeral_used a')"
    and same: "ar_base a' = ar_base a" "ar_usable a' = ar_usable a" "ar_total a' = ar_total a"
      "ar_scratch_used a' = ar_scratch_used a" "ar_scratch_total a' = ar_scratch_total a"
      "ar_initialized a' = ar_initialized a"
    using alloc by (auto simp: arena_alloc_def Let_def max_def split: if_splits)
  show "ar_base a' = ar_base a" "ar_usable a' = ar_usable a" "ar_scratch_used a' = ar_scratch_used a"
    by (fact same)+
  have ge: "unat (ar_persistent_used a) \<le> unat ?e"
    using e round16_bounds(1) [of "bump_base lt a"] by (simp add: bump_base_def split: if_splits)
  show pn: "unat (ar_persistent_used a') = (if lt = SYN_MEM_PERSISTENT
      then round16 (bump_base lt a) + unat sz else unat (ar_persistent_used a))"
    using p e by (cases "lt = SYN_MEM_PERSISTENT") simp_all
  have qn: "unat (ar_ephemeral_used a') =
      (if lt = SYN_MEM_PERSISTENT then 0 else unat ?e - unat (ar_persistent_used a))"
    using q ok ge by (cases "lt = SYN_MEM_PERSISTENT") (simp_all add: unat_sub word_le_nat_alt)
  show sum: "unat (ar_persistent_used a') + unat (ar_ephemeral_used a') =
      round16 (bump_base lt a) + unat sz"
    using pn qn ge e by auto
  have "unat (ar_persistent_used a' + ar_ephemeral_used a') = round16 (bump_base lt a) + unat sz"
    using sum fit wf by (subst unat_add32_small) (auto simp: arena_wf_def)
  then show "arena_wf a'"
    using wf sum fit by (auto simp: arena_wf_def same pk max_def word_le_nat_alt)
qed

lemma arena_alloc_None: "arena_alloc lt sz a = (None, a') \<Longrightarrow> a' = a"
  by (auto simp: arena_alloc_def Let_def split: if_splits)

lemma scratch_acquire_Some:
  assumes wf: "arena_wf a" and sz: "unat sz < 2 ^ 30"
    and acq: "syn_mem_scratch_acquire sz a = (Some ptr, a')"
  shows "arena_wf a'" "0 < unat sz"
    "unat ptr = unat (ar_base a) + unat (ar_usable a) + round16 (unat (ar_scratch_used a))"
    "unat (ar_scratch_used a') = round16 (unat (ar_scratch_used a)) + unat sz"
    "unat (ar_scratch_used a') \<le> unat (ar_scratch_total a)"
    "ar_base a' = ar_base a" "ar_usable a' = ar_usable a"
    "ar_persistent_used a' = ar_persistent_used a" "ar_ephemeral_used a' = ar_ephemeral_used a"
proof -
  let ?al = "align_up (ar_scratch_used a) 16"
  have b: "unat (ar_scratch_used a) \<le> 2 ^ 30" using wf by (auto simp: arena_wf_def)
  then have al: "unat ?al = round16 (unat (ar_scratch_used a))" using unat_align_up by simp
  then have e: "unat (?al + sz) = round16 (unat (ar_scratch_used a)) + unat sz"
    using sz b round16_bounds(2) [of "unat (ar_scratch_used a)"] by (simp add: unat_add32_small)
  have s: "ptr = ar_base a + ar_usable a + ?al" "\<not> ?al + sz > ar_scratch_total a" "sz \<noteq> 0"
    and a': "a' = a\<lparr>ar_scratch_used := ?al + sz, ar_alloc_count := ar_alloc_count a + 1\<rparr>"
    using acq by (auto simp: syn_mem_scratch_acquire_def Let_def split: if_splits)
  show "0 < unat sz" using s(3) by (simp add: unat_gt_0)
  have le: "round16 (unat (ar_scratch_used a)) + unat sz \<le> unat (ar_scratch_total a)"
    using s(2) e by (simp add: word_less_nat_alt)
  show "unat ptr = unat (ar_base a) + unat (ar_usable a) + round16 (unat (ar_scratch_used a))"
    using s(1) al le wf by (simp add: unat_add32_small arena_wf_def)
  show "unat (ar_scratch_used a') = round16 (unat (ar_scratch_used a)) + unat sz"
    "unat (ar_scratch_used a') \<le> unat (ar_scratch_total a)"
    "ar_base a' = ar_base a" "ar_usable a' = ar_usable a"
    "ar_persistent_used a' = ar_persistent_used a" "ar_ephemeral_used a' = ar_ephemeral_used a"
    using e le by (simp_all add: a')
  show "arena_wf a'" using wf e le by (simp add: a' arena_wf_def)
qed

lemma scratch_acquire_None: "syn_mem_scratch_acquire sz a = (None, a') \<Longrightarrow> a' = a"
  by (auto simp: syn_mem_scratch_acquire_def Let_def split: if_splits)

lemma arena_wf_reset: "arena_wf a \<Longrightarrow> arena_wf (syn_mem_reset_ephemeral a)"
  by (simp add: arena_wf_def syn_mem_reset_ephemeral_def)

section \<open>Histories of allocations\<close>

text \<open>
  A history records the blocks handed out since init and still live: a reset of the ephemeral
  region drops the ephemeral and the scratch blocks. The block of a tensor spans its
  descriptor and its data.
\<close>

datatype mem_pool = Pool_persistent | Pool_ephemeral | Pool_scratch

record mem_block =
  mb_pool :: mem_pool
  mb_addr :: nat
  mb_size :: nat

datatype mem_op =
    Op_tensor "u32 list" nat syn_npu_dtype syn_mem_lifetime
  | Op_scratch u32
  | Op_reset

definition pool_of :: "syn_mem_lifetime \<Rightarrow> mem_pool" where
  "pool_of lt = (if lt = SYN_MEM_PERSISTENT then Pool_persistent else Pool_ephemeral)"

fun mem_step :: "u32 \<Rightarrow> mem_op \<Rightarrow> mem_arena \<times> mem_block list \<Rightarrow> mem_arena \<times> mem_block list" where
  "mem_step tsz (Op_tensor shape ndim dtype lt) (a, bs) =
     (case syn_mem_tensor_alloc tsz (Some shape) ndim dtype lt a of
        (None, a') \<Rightarrow> (a', bs)
      | (Some (block, t), a') \<Rightarrow>
          (a', \<lparr>mb_pool = pool_of lt, mb_addr = unat block,
                mb_size = unat (tn_data t) - unat block + unat (tn_size t)\<rparr> # bs))"
| "mem_step tsz (Op_scratch sz) (a, bs) =
     (case syn_mem_scratch_acquire sz a of
        (None, a') \<Rightarrow> (a', bs)
      | (Some ptr, a') \<Rightarrow>
          (a', \<lparr>mb_pool = Pool_scratch, mb_addr = unat ptr, mb_size = unat sz\<rparr> # bs))"
| "mem_step tsz Op_reset (a, bs) =
     (syn_mem_reset_ephemeral a, filter (\<lambda>b. mb_pool b = Pool_persistent) bs)"

text \<open>
  The discipline the allocator relies on and does not check: the byte size of the tensor does
  not overflow, and persistent tensors are allocated while no ephemeral block is live.
\<close>

fun op_disciplined :: "u32 \<Rightarrow> mem_op \<Rightarrow> mem_arena \<Rightarrow> bool" where
  "op_disciplined tsz (Op_tensor shape ndim dtype lt) a \<longleftrightarrow>
     prod_list (map unat (take ndim shape)) * unat (dtype_size dtype) < 2 ^ 29 \<and>
     (lt = SYN_MEM_PERSISTENT \<longrightarrow> ar_ephemeral_used a = 0)"
| "op_disciplined tsz (Op_scratch sz) a \<longleftrightarrow> unat sz < 2 ^ 30"
| "op_disciplined tsz Op_reset a \<longleftrightarrow> True"

inductive mem_reach :: "u32 \<Rightarrow> mem_arena \<Rightarrow> mem_arena \<times> mem_block list \<Rightarrow> bool"
  for tsz :: u32 and a0 :: mem_arena where
  start: "mem_reach tsz a0 (a0, [])"
| step: "mem_reach tsz a0 (a, bs) \<Longrightarrow> op_disciplined tsz opn a \<Longrightarrow>
     mem_reach tsz a0 (mem_step tsz opn (a, bs))"

fun blocks_disjoint :: "mem_block list \<Rightarrow> bool" where
  "blocks_disjoint [] \<longleftrightarrow> True"
| "blocks_disjoint (b # bs) \<longleftrightarrow>
     (\<forall>c \<in> set bs. disjoint_ranges (mb_addr b) (mb_size b) (mb_addr c) (mb_size c)) \<and>
     blocks_disjoint bs"

fun block_region :: "mem_arena \<Rightarrow> mem_pool \<Rightarrow> nat \<times> nat" where
  "block_region a Pool_persistent = (unat (ar_base a), unat (ar_base a) + unat (ar_persistent_used a))"
| "block_region a Pool_ephemeral = (unat (ar_base a) + unat (ar_persistent_used a),
     unat (ar_base a) + unat (ar_persistent_used a) + unat (ar_ephemeral_used a))"
| "block_region a Pool_scratch = (unat (ar_base a) + unat (ar_usable a),
     unat (ar_base a) + unat (ar_usable a) + unat (ar_scratch_used a))"

definition block_in :: "mem_arena \<Rightarrow> mem_block \<Rightarrow> bool" where
  "block_in a b \<longleftrightarrow> 0 < mb_size b \<and> fst (block_region a (mb_pool b)) \<le> mb_addr b \<and>
     mb_addr b + mb_size b \<le> snd (block_region a (mb_pool b))"

definition mem_inv :: "mem_arena \<times> mem_block list \<Rightarrow> bool" where
  "mem_inv s \<longleftrightarrow> (case s of (a, bs) \<Rightarrow> arena_wf a \<and> 16 dvd unat (ar_base a) \<and>
     16 dvd unat (ar_usable a) \<and> blocks_disjoint bs \<and>
     (\<forall>b \<in> set bs. block_in a b \<and> 16 dvd mb_addr b))"

lemma blocks_disjoint_filter: "blocks_disjoint bs \<Longrightarrow> blocks_disjoint (filter P bs)"
  by (induction bs) auto

lemma num_elements_unat:
  assumes "prod_list (map unat (take ndim shape)) < 2 ^ 32"
  shows "unat (num_elements shape ndim) = prod_list (map unat (take ndim shape))"
proof -
  have "unat (foldl (\<lambda>n d. n * d) (x :: u32) xs) = (unat x * prod_list (map unat xs)) mod 2 ^ 32"
    for x and xs :: "u32 list"
  proof (induction xs arbitrary: x)
    case Nil
    then show ?case using unat_lt32 [of x] by simp
  next
    case (Cons d xs)
    show ?case by (simp add: Cons.IH unat_word_ariths mult.assoc mod_mult_left_eq)
  qed
  from this [of 1 "take ndim shape"] show ?thesis using assms by (simp add: num_elements_def)
qed

lemma tensor_bytes_unat:
  assumes "prod_list (map unat (take ndim shape)) * unat (dtype_size dtype) < 2 ^ 29"
  shows "unat (num_elements shape ndim * dtype_size dtype) =
    prod_list (map unat (take ndim shape)) * unat (dtype_size dtype)"
proof -
  have "1 \<le> unat (dtype_size dtype)" by (cases dtype) simp_all
  then have "prod_list (map unat (take ndim shape)) * 1 \<le>
      prod_list (map unat (take ndim shape)) * unat (dtype_size dtype)"
    by (rule mult_le_mono2)
  from le_less_trans [OF this assms] have "prod_list (map unat (take ndim shape)) < 2 ^ 32" by simp
  then show ?thesis using assms by (simp add: unat_word_ariths num_elements_unat)
qed

lemma tensor_alloc_Some:
  assumes wf: "arena_wf a" and tsz: "0 < unat tsz" "unat tsz \<le> 4096"
    and disc: "op_disciplined tsz (Op_tensor shape ndim dtype lt) a"
    and alloc: "syn_mem_tensor_alloc tsz (Some shape) ndim dtype lt a = (Some (block, t), a')"
  defines "n \<equiv> round16 (unat tsz) +
             prod_list (map unat (take ndim shape)) * unat (dtype_size dtype)"
  shows "\<exists>sz. unat sz = n \<and> n < 2 ^ 30 \<and> arena_alloc lt sz a = (Some block, a') \<and>
    unat (tn_data t) - unat block + unat (tn_size t) = n"
proof -
  let ?sz = "desc_size tsz + num_elements shape ndim * dtype_size dtype"
  have d: "unat (desc_size tsz) = round16 (unat tsz)"
    using tsz unat_align_up [of tsz] by (simp add: desc_size_def)
  have b: "unat (num_elements shape ndim * dtype_size dtype) =
      prod_list (map unat (take ndim shape)) * unat (dtype_size dtype)"
    using disc by (intro tensor_bytes_unat) simp
  have n: "n < 2 ^ 30"
    using disc tsz round16_bounds(2) [of "unat tsz"] by (simp add: n_def)
  then have sz: "unat ?sz = n" using d b by (simp add: n_def unat_add32_small)
  have al: "arena_alloc lt ?sz a = (Some block, a')"
    and t: "tn_data t = block + desc_size tsz"
      "tn_size t = num_elements shape ndim * dtype_size dtype"
    using alloc by (auto simp: syn_mem_tensor_alloc_def Let_def split: if_splits option.splits prod.splits)
  have ok: "lt = SYN_MEM_PERSISTENT \<longrightarrow> ar_ephemeral_used a = 0" using disc by simp
  have "unat block + n \<le> unat (ar_base a) + unat (ar_usable a)"
    using arena_alloc_Some(2,3) [OF wf _ ok al] n sz by simp
  then have "unat block + unat (desc_size tsz) < 2 ^ 32"
    using wf d by (simp add: n_def arena_wf_def)
  then have "unat (tn_data t) = unat block + round16 (unat tsz)"
    using d by (simp add: t unat_add32_small)
  then have "unat (tn_data t) - unat block + unat (tn_size t) = n" using b by (simp add: t n_def)
  with sz n al show ?thesis by blast
qed

lemma tensor_alloc_None:
  "syn_mem_tensor_alloc tsz (Some shape) ndim dtype lt a = (None, a') \<Longrightarrow> a' = a"
  by (auto simp: syn_mem_tensor_alloc_def Let_def dest: arena_alloc_None
      split: if_splits option.splits prod.splits)

text \<open>Placing one more block that starts at or above the end of every block of its region.\<close>

lemma mem_inv_tensor:
  assumes inv: "mem_inv (a, bs)" and sz: "unat sz < 2 ^ 30" "0 < unat sz"
    and ok: "lt = SYN_MEM_PERSISTENT \<longrightarrow> ar_ephemeral_used a = 0"
    and alloc: "arena_alloc lt sz a = (Some ptr, a')"
  shows "mem_inv (a', \<lparr>mb_pool = pool_of lt, mb_addr = unat ptr, mb_size = unat sz\<rparr> # bs)"
proof -
  let ?b = "\<lparr>mb_pool = pool_of lt, mb_addr = unat ptr, mb_size = unat sz\<rparr>"
  have wf: "arena_wf a" and al: "16 dvd unat (ar_base a)" and au: "16 dvd unat (ar_usable a)"
    and bin: "\<And>b. b \<in> set bs \<Longrightarrow> block_in a b \<and> 16 dvd mb_addr b"
    using inv by (auto simp: mem_inv_def)
  note r = arena_alloc_Some [OF wf sz(1) ok alloc]
  have ptr: "unat (ar_base a) + bump_base lt a \<le> unat ptr" "16 dvd unat ptr"
    "unat ptr + unat sz \<le> unat (ar_base a) + unat (ar_usable a)"
    using r(2,3) al round16_bounds [of "bump_base lt a"] by (simp_all add: dvd_add)
  have new: "block_in a' ?b"
    using r sz(2) ptr(1) by (auto simp: block_in_def pool_of_def bump_base_def)
  have old: "block_in a' b \<and> disjoint_ranges (unat ptr) (unat sz) (mb_addr b) (mb_size b)"
    if b: "b \<in> set bs" for b
  proof (cases "mb_pool b")
    case Pool_persistent
    then show ?thesis
      using bin [OF b] r(4,6) ptr(1) round16_bounds(1) [of "bump_base lt a"]
      by (auto simp: block_in_def disjoint_ranges_def bump_base_def)
  next
    case Pool_ephemeral
    with bin [OF b] have "ar_ephemeral_used a \<noteq> 0" by (auto simp: block_in_def)
    with ok have lt: "lt \<noteq> SYN_MEM_PERSISTENT" by simp
    then show ?thesis
      using bin [OF b] r(4,5,6) ptr(1) round16_bounds(1) [of "bump_base lt a"] Pool_ephemeral
      by (auto simp: block_in_def disjoint_ranges_def bump_base_def)
  next
    case Pool_scratch
    then show ?thesis
      using bin [OF b] r(6,7,8) ptr(3) by (auto simp: block_in_def disjoint_ranges_def)
  qed
  show ?thesis using inv r(1,6,7) new old ptr(2) bin by (simp add: mem_inv_def)
qed

lemma mem_inv_scratch:
  assumes inv: "mem_inv (a, bs)" and sz: "unat sz < 2 ^ 30"
    and acq: "syn_mem_scratch_acquire sz a = (Some ptr, a')"
  shows "mem_inv (a', \<lparr>mb_pool = Pool_scratch, mb_addr = unat ptr, mb_size = unat sz\<rparr> # bs)"
proof -
  let ?b = "\<lparr>mb_pool = Pool_scratch, mb_addr = unat ptr, mb_size = unat sz\<rparr>"
  have wf: "arena_wf a" and al: "16 dvd unat (ar_base a)" and au: "16 dvd unat (ar_usable a)"
    and bin: "\<And>b. b \<in> set bs \<Longrightarrow> block_in a b \<and> 16 dvd mb_addr b"
    using inv by (auto simp: mem_inv_def)
  note r = scratch_acquire_Some [OF wf sz acq]
  note rb = round16_bounds [of "unat (ar_scratch_used a)"]
  have ptr: "16 dvd unat ptr" using r(3) al au rb(3) by (simp add: dvd_add)
  have new: "block_in a' ?b" using r rb by (simp add: block_in_def)
  have low: "unat (ar_persistent_used a) + unat (ar_ephemeral_used a) \<le> unat (ar_usable a)"
    using wf by (simp add: arena_wf_def)
  have old: "block_in a' b \<and> disjoint_ranges (unat ptr) (unat sz) (mb_addr b) (mb_size b)"
    if b: "b \<in> set bs" for b
    using bin [OF b] r(3,4,6-9) rb(1) low
    by (cases "mb_pool b") (auto simp: block_in_def disjoint_ranges_def)
  show ?thesis using inv r(1,6,7) new old ptr bin by (simp add: mem_inv_def)
qed

lemma mem_inv_step:
  assumes inv: "mem_inv (a, bs)" and tsz: "0 < unat tsz" "unat tsz \<le> 4096"
    and disc: "op_disciplined tsz opn a"
  shows "mem_inv (mem_step tsz opn (a, bs))"
proof (cases opn)
  case (Op_tensor shape ndim dtype lt)
  have wf: "arena_wf a" using inv by (simp add: mem_inv_def)
  show ?thesis
  proof (cases "syn_mem_tensor_alloc tsz (Some shape) ndim dtype lt a")
    case (Pair r a')
    show ?thesis
    proof (cases r)
      case None
      then show ?thesis using inv Pair tensor_alloc_None [of tsz shape ndim dtype lt a a']
        by (simp add: Op_tensor)
    next
      case (Some bt)
      obtain block t where bt: "bt = (block, t)" by (cases bt)
      obtain sz where sz: "unat sz < 2 ^ 30" "arena_alloc lt sz a = (Some block, a')"
        "unat (tn_data t) - unat block + unat (tn_size t) = unat sz"
        "unat sz = round16 (unat tsz) + prod_list (map unat (take ndim shape)) * unat (dtype_size dtype)"
        using tensor_alloc_Some [OF wf tsz, of shape ndim dtype lt block t a'] disc Pair Some bt
        by (auto simp: Op_tensor)
      have "0 < unat sz" using sz(4) tsz(1) round16_bounds(1) [of "unat tsz"] by simp
      then show ?thesis
        using mem_inv_tensor [OF inv sz(1) _ _ sz(2)] disc sz(3) Pair Some bt
        by (simp add: Op_tensor)
    qed
  qed
next
  case (Op_scratch sz)
  then show ?thesis
    using mem_inv_scratch [OF inv, of sz] disc inv scratch_acquire_None [of sz a]
    by (auto split: prod.splits option.splits)
next
  case Op_reset
  have "block_in (syn_mem_reset_ephemeral a) b" if "b \<in> set bs" "mb_pool b = Pool_persistent" for b
    using that inv by (auto simp: mem_inv_def block_in_def syn_mem_reset_ephemeral_def)
  then show ?thesis
    using inv arena_wf_reset [of a]
    by (auto simp: Op_reset mem_inv_def blocks_disjoint_filter syn_mem_reset_ephemeral_def)
qed

lemma mem_reach_inv:
  "mem_reach tsz a0 s \<Longrightarrow> mem_inv (a0, []) \<Longrightarrow> 0 < unat tsz \<Longrightarrow> unat tsz \<le> 4096 \<Longrightarrow> mem_inv s"
proof (induction rule: mem_reach.induct)
  case (step a bs opn)
  then show ?case by (intro mem_inv_step) simp_all
qed

section \<open>Properties\<close>

text \<open>
  C20: on an arena whose base, size and scratch size are multiples of 16 (of at most 1 GB, below the end
  of the address space, with a tensor descriptor of at most 4 KB), after any disciplined sequence of
  tensor allocations, scratch acquisitions and resets from the initialisation on, all live blocks are
  16-byte aligned, pairwise disjoint and inside the arena, persistent and ephemeral blocks below the
  usable limit, scratch blocks above it; the high-water mark bounds the use and stays within the
  usable size.
\<close>

theorem mem_allocations_disjoint:
  assumes "syn_mem_init scr (Some base) sz a00 = (Ok (), a0)"
    and "unat base + unat sz < 2 ^ 32" "unat sz \<le> 2 ^ 30" "16 dvd unat base"
    and "16 dvd unat sz" "16 dvd unat scr" "0 < unat tsz" "unat tsz \<le> 4096"
    and "mem_reach tsz a0 (a, bs)"
  shows "blocks_disjoint bs \<and>
    (\<forall>b. b \<in> set bs \<longrightarrow> 16 dvd mb_addr b \<and> block_in a b) \<and>
    unat (ar_persistent_used a) + unat (ar_ephemeral_used a) \<le> unat (ar_peak a) \<and>
    unat (ar_peak a) \<le> unat (ar_usable a) \<and>
    unat (ar_usable a) + unat (ar_scratch_used a) \<le> unat (ar_total a)"
proof -
  have "ar_base a0 = base" "ar_usable a0 = sz - scr" "scr \<le> sz"
    using assms(1) by (auto simp: syn_mem_init_def split: if_splits)
  then have "mem_inv (a0, [])"
    using arena_wf_init [OF assms(1-3)] assms(4-6)
    by (simp add: mem_inv_def unat_sub word_le_nat_alt dvd_diff_nat)
  from mem_reach_inv [OF assms(9) this assms(7,8)] show ?thesis
    by (auto simp: mem_inv_def arena_wf_def)
qed

definition demo_arena :: mem_arena where
  "demo_arena = snd (syn_mem_init 1024 (Some 536870912) 4096 \<lparr>ar_base = 0, ar_total = 0,
     ar_usable = 0, ar_persistent_used = 0, ar_ephemeral_used = 0, ar_peak = 0,
     ar_scratch_total = 0, ar_scratch_used = 0, ar_alloc_count = 0, ar_reset_count = 0,
     ar_initialized = False\<rparr>)"

lemma demo_arena_eq: "demo_arena = \<lparr>ar_base = 536870912, ar_total = 4096, ar_usable = 3072,
    ar_persistent_used = 0, ar_ephemeral_used = 0, ar_peak = 0, ar_scratch_total = 1024,
    ar_scratch_used = 0, ar_alloc_count = 0, ar_reset_count = 0, ar_initialized = True\<rparr>"
  by (simp add: demo_arena_def syn_mem_init_def word_le_nat_alt)

lemma align_up_demo: "align_up 0 16 = 0" "align_up 36 16 = 48" "align_up 56 16 = 64"
  "align_up 48 16 = 48"
  by (simp_all add: align_up_def)

lemmas mem_eval = syn_mem_tensor_alloc_def arena_alloc_def num_elements_def shape4_def
  desc_size_def Let_def word_less_nat_alt word_le_nat_alt

theorem mem_allocations_disjoint_witness:
  "\<exists>a bs. mem_reach 36 demo_arena (a, bs) \<and> length bs = 2 \<and> blocks_disjoint bs"
proof -
  let ?s1 = "mem_step 36 (Op_tensor [2, 4] 2 SYN_NPU_DTYPE_INT8 SYN_MEM_PERSISTENT) (demo_arena, [])"
  obtain a1 bs1 where s1: "?s1 = (a1, bs1)" by (cases ?s1)
  have l1: "length bs1 = 1"
    using s1 by (simp add: demo_arena_eq mem_eval align_up_demo split: prod.splits) auto
  have r1: "mem_reach 36 demo_arena (a1, bs1)"
    unfolding s1 [symmetric]
    by (intro mem_reach.step mem_reach.start) (simp add: demo_arena_eq)
  let ?s2 = "mem_step 36 (Op_scratch 100) (a1, bs1)"
  obtain a2 bs2 where s2: "?s2 = (a2, bs2)" by (cases ?s2)
  have "length bs2 = 2"
    using s1 s2 l1
    by (auto simp: demo_arena_eq mem_eval align_up_demo syn_mem_scratch_acquire_def
        split: prod.splits option.splits if_splits)
  moreover have r2: "mem_reach 36 demo_arena (a2, bs2)"
    unfolding s2 [symmetric] by (intro mem_reach.step r1) simp
  moreover have "syn_mem_init 1024 (Some 536870912) 4096 demo_arena = (Ok (), demo_arena)"
    by (simp add: syn_mem_init_def demo_arena_eq word_le_nat_alt)
  from mem_allocations_disjoint [OF this _ _ _ _ _ _ _ r2] have "blocks_disjoint bs2" by simp
  ultimately show ?thesis by blast
qed

text \<open>
  Without wrap-around a tensor allocation succeeds exactly when the descriptor and the
  data, rounded up to the next 16-byte boundary of the region, fit below the usable limit, and
  then returns that address; a failure leaves the arena unchanged.
\<close>

theorem tensor_alloc_succeeds_iff:
  fixes lt :: syn_mem_lifetime and a :: mem_arena
  assumes "arena_wf a" "0 < unat tsz" "unat tsz \<le> 4096" "0 < ndim" "ndim \<le> 4"
    and "prod_list (map unat (take ndim shape)) * unat (dtype_size dtype) < 2 ^ 29"
  defines "need \<equiv> round16 (bump_base lt a) + round16 (unat tsz) +
     prod_list (map unat (take ndim shape)) * unat (dtype_size dtype)"
  shows "(case syn_mem_tensor_alloc tsz (Some shape) ndim dtype lt a of
      (Some (block, t), a') \<Rightarrow> need \<le> unat (ar_usable a) \<and>
         block = ar_base a + of_nat (round16 (bump_base lt a)) \<and>
         unat (tn_size t) = prod_list (map unat (take ndim shape)) * unat (dtype_size dtype) \<and>
         tn_data t = block + of_nat (round16 (unat tsz)) \<and> tn_lifetime t = lt
    | (None, a') \<Rightarrow> unat (ar_usable a) < need \<and> a' = a)"
proof -
  let ?bytes = "num_elements shape ndim * dtype_size dtype"
  have d: "unat (desc_size tsz) = round16 (unat tsz)"
    using assms(2,3) unat_align_up [of tsz] by (simp add: desc_size_def)
  have dw: "desc_size tsz = of_nat (round16 (unat tsz))" by (simp flip: d)
  have b: "unat ?bytes = prod_list (map unat (take ndim shape)) * unat (dtype_size dtype)"
    using assms(6) by (rule tensor_bytes_unat)
  have sz: "unat (desc_size tsz + ?bytes) = round16 (unat tsz) + unat ?bytes"
    using d b assms(3,6) round16_bounds(2) [of "unat tsz"] by (simp add: unat_add32_small)
  then have lt: "unat (desc_size tsz + ?bytes) < 2 ^ 30"
    using b assms(3,6) round16_bounds(2) [of "unat tsz"] by simp
  show ?thesis
    using arena_alloc_fits [OF assms(1) lt, of lt] assms(1,4,5) arena_alloc_None [of lt _ a] sz b dw
    by (auto simp: syn_mem_tensor_alloc_def Let_def need_def arena_wf_def
        split: prod.splits option.splits if_splits)
qed

lemma demo_arena_wf: "arena_wf demo_arena"
  by (simp add: demo_arena_eq arena_wf_def)

theorem tensor_alloc_succeeds_iff_witness:
  "fst (syn_mem_tensor_alloc 36 (Some [100, 100]) 2 SYN_NPU_DTYPE_INT8 SYN_MEM_EPHEMERAL demo_arena)
     = None"
  using tensor_alloc_succeeds_iff [OF demo_arena_wf, of 36 2 "[100, 100]" SYN_NPU_DTYPE_INT8
      SYN_MEM_EPHEMERAL]
  by (simp add: demo_arena_eq round16_def bump_base_def split: prod.splits option.splits)

text \<open>
  A persistent allocation made while an ephemeral tensor is live is placed over that
  tensor: the check of \<open>arena_alloc\<close> looks only at the persistent bump pointer. The two
  returned blocks start at the same address.
\<close>

theorem persistent_overlaps_live_ephemeral:
  "(let (r1, a1) = syn_mem_tensor_alloc 36 (Some [8]) 1 SYN_NPU_DTYPE_INT8 SYN_MEM_EPHEMERAL demo_arena;
        (r2, a2) = syn_mem_tensor_alloc 36 (Some [8]) 1 SYN_NPU_DTYPE_INT8 SYN_MEM_PERSISTENT a1
    in r1 \<noteq> None \<and> r2 \<noteq> None \<and> map_option fst r1 = map_option fst r2 \<and>
       ar_reset_count a2 = 0)"
  by (simp add: demo_arena_eq mem_eval align_up_demo)

text \<open>
  The element count of a tensor is a 32-bit product without an overflow check: a shape of
  65536 x 65536 bytes is granted in a 3 KB arena, with a data size of 0.
\<close>

theorem tensor_shape_product_wraps:
  "map_option (\<lambda>(block, t). (tn_size t, tn_shape t)) (fst (syn_mem_tensor_alloc 36
     (Some [65536, 65536]) 2 SYN_NPU_DTYPE_INT8 SYN_MEM_EPHEMERAL demo_arena)) =
   Some (0, [65536, 65536, 0, 0])"
  by (simp add: demo_arena_eq mem_eval align_up_demo replicate_num)

end
