(* ===== verification/Npu_Layered.thy ===== *)
theory Npu_Layered
  imports Syn_Prelude
begin

text \<open>
  The layer-granular executor of \<open>src/hal/common/syn_npu_layered.c\<close>: parsing of the SYNL chain
  and SYND DAG formats, the greedy first-fit placement of activations from their lifetimes, the
  step-wise execution over the shared plan area, and suspension and resumption of a session.

  The Kconfig limits \<open>ACT_MAX\<close> and \<open>PLAN_MAX\<close> are arguments. A model pointer is an address;
  \<open>blob m\<close> is the memory found behind it at the time of the call, since a suspended session
  keeps the pointer and not the bytes. The plan arrays keep their stale entries, as the static
  struct does. The emulated compute loop and the timing of the planner have no effect on the
  results; the duration is an argument of the planning functions.
\<close>

section \<open>Data\<close>

abbreviation (input) SYN_LAYERED_MAGIC :: u32 where "SYN_LAYERED_MAGIC \<equiv> 0x4C4E5953"
abbreviation (input) SYN_LAYERED_DAG_MAGIC :: u32 where "SYN_LAYERED_DAG_MAGIC \<equiv> 0x444E5953"
abbreviation (input) SYN_LAYERED_HDR_SIZE :: nat where "SYN_LAYERED_HDR_SIZE \<equiv> 8"
abbreviation (input) SYN_LAYERED_MAX_LAYERS :: nat where "SYN_LAYERED_MAX_LAYERS \<equiv> 16"
abbreviation (input) SYN_LAYERED_CTX_SLOTS :: nat where "SYN_LAYERED_CTX_SLOTS \<equiv> 2"
abbreviation (input) SYN_LAYERED_SRC_PREV :: int where "SYN_LAYERED_SRC_PREV \<equiv> - 1"
abbreviation (input) SYN_LAYERED_SRC_INPUT :: int where "SYN_LAYERED_SRC_INPUT \<equiv> - 2"
abbreviation (input) SYN_LAYERED_SRC_NONE :: int where "SYN_LAYERED_SRC_NONE \<equiv> - 3"

record model_plan =
  mp_model :: nat
  mp_model_size :: nat
  mp_layer_count :: nat
  mp_input_size :: nat
  mp_out_size :: "nat list"
  mp_work :: "nat list"
  mp_src_a :: "int list"
  mp_src_b :: "int list"
  mp_buf_size :: "nat list"
  mp_buf_off :: "nat list"
  mp_def :: "nat list"
  mp_last :: "nat list"
  mp_planned_peak :: nat
  mp_naive_peak :: nat

record layered_ctx =
  lc_model :: "nat option"
  lc_model_size :: nat
  lc_next_layer :: nat
  lc_live_bytes :: nat
  lc_area :: "u8 list"

record layered =
  ly_resident :: "(nat \<times> nat) option"
  ly_plan :: model_plan
  ly_area :: "u8 list"
  ly_next :: nat
  ly_active :: bool
  ly_plan_us :: u32
  ly_slots :: "layered_ctx list"

record dag_layer =
  dl_out_size :: u16
  dl_work :: u16
  dl_src_a :: "16 word"
  dl_src_b :: "16 word"

section \<open>Parsing\<close>

definition resolve_src :: "int \<Rightarrow> nat \<Rightarrow> bool \<Rightarrow> int res" where
  "resolve_src raw i allow_none =
     (if raw = SYN_LAYERED_SRC_NONE then (if allow_none then Ok (- 1) else Err EINVAL)
      else if raw = SYN_LAYERED_SRC_PREV then Ok (int i)
      else if raw = SYN_LAYERED_SRC_INPUT then Ok 0
      else if raw \<ge> 0 \<and> raw < int i then Ok (raw + 1)
      else Err EINVAL)"

definition desc_bytes :: "bool \<Rightarrow> nat" where
  "desc_bytes dag = (if dag then 8 else 4)"

definition layer_srcs :: "u8 list \<Rightarrow> bool \<Rightarrow> nat \<Rightarrow> int res \<times> int res" where
  "layer_srcs data dag i =
     (let d = SYN_LAYERED_HDR_SIZE + i * desc_bytes dag in
      (resolve_src (if dag then sint (get16 data (d + 4)) else SYN_LAYERED_SRC_PREV) i False,
       resolve_src (if dag then sint (get16 data (d + 6)) else SYN_LAYERED_SRC_NONE) i True))"

fun parse_layers ::
  "nat \<Rightarrow> u8 list \<Rightarrow> bool \<Rightarrow> nat list \<Rightarrow> model_plan \<Rightarrow> unit res \<times> model_plan" where
  "parse_layers act_max data dag [] p = (Ok (), p)"
| "parse_layers act_max data dag (i # is) p =
     (let d = SYN_LAYERED_HDR_SIZE + i * desc_bytes dag;
          out = unat (get16 data d);
          p1 = p\<lparr>mp_out_size := (mp_out_size p)[i := out],
                 mp_work := (mp_work p)[i := unat (get16 data (d + 2))]\<rparr>
      in if out = 0 \<or> out > act_max then (Err EINVAL, p1)
         else (case layer_srcs data dag i of
                 (Inr a, Inr b) \<Rightarrow>
                   parse_layers act_max data dag is
                     (p1\<lparr>mp_src_a := (mp_src_a p1)[i := a], mp_src_b := (mp_src_b p1)[i := b]\<rparr>)
               | _ \<Rightarrow> (Err EINVAL, p1)))"

definition parse_model ::
  "nat \<Rightarrow> (nat \<Rightarrow> u8 list) \<Rightarrow> nat option \<Rightarrow> nat \<Rightarrow> model_plan \<Rightarrow> unit res \<times> model_plan" where
  "parse_model act_max blob ptr sz p =
     (case ptr of None \<Rightarrow> (Err ENOTSUP, p)
      | Some m \<Rightarrow>
          if sz < SYN_LAYERED_HDR_SIZE then (Err ENOTSUP, p)
          else
            let data = blob m; magic = get32 data 0; dag = (magic = SYN_LAYERED_DAG_MAGIC) in
            if \<not> dag \<and> magic \<noteq> SYN_LAYERED_MAGIC then (Err ENOTSUP, p)
            else
              let n = unat (get16 data 4); inp = unat (get16 data 6) in
              if n = 0 \<or> n > SYN_LAYERED_MAX_LAYERS \<or> inp = 0 \<or> inp > act_max then (Err EINVAL, p)
              else if sz < SYN_LAYERED_HDR_SIZE + n * desc_bytes dag then (Err EINVAL, p)
              else parse_layers act_max data dag [0..<n]
                     (p\<lparr>mp_model := m, mp_model_size := sz, mp_layer_count := n,
                        mp_input_size := inp\<rparr>))"

section \<open>Placement\<close>

definition init_step :: "nat \<Rightarrow> model_plan \<Rightarrow> model_plan" where
  "init_step i p = p\<lparr>mp_buf_size := (mp_buf_size p)[Suc i := mp_out_size p ! i],
                     mp_def := (mp_def p)[Suc i := i], mp_last := (mp_last p)[Suc i := i]\<rparr>"

definition init_lifetimes :: "model_plan \<Rightarrow> model_plan" where
  "init_lifetimes p = fold init_step [0..<mp_layer_count p]
     (p\<lparr>mp_buf_size := (mp_buf_size p)[0 := mp_input_size p],
        mp_def := (mp_def p)[0 := 0], mp_last := (mp_last p)[0 := 0]\<rparr>)"

definition extend_last :: "int \<Rightarrow> nat \<Rightarrow> nat list \<Rightarrow> nat list" where
  "extend_last b i last' = (if last' ! nat b < i then last'[nat b := i] else last')"

definition consume_step :: "nat \<Rightarrow> model_plan \<Rightarrow> model_plan" where
  "consume_step i p =
     (let l = extend_last (mp_src_a p ! i) i (mp_last p)
      in p\<lparr>mp_last := (if mp_src_b p ! i \<ge> 0 then extend_last (mp_src_b p ! i) i l else l)\<rparr>)"

definition consume_lifetimes :: "model_plan \<Rightarrow> model_plan" where
  "consume_lifetimes p = fold consume_step [0..<mp_layer_count p] p"

definition time_overlap :: "model_plan \<Rightarrow> nat \<Rightarrow> nat \<Rightarrow> bool" where
  "time_overlap p b o' \<longleftrightarrow> mp_def p ! b \<le> mp_last p ! o' \<and> mp_def p ! o' \<le> mp_last p ! b"

definition addr_overlap :: "model_plan \<Rightarrow> nat \<Rightarrow> nat \<Rightarrow> nat \<Rightarrow> bool" where
  "addr_overlap p off b o' \<longleftrightarrow> off < mp_buf_off p ! o' + mp_buf_size p ! o' \<and>
     mp_buf_off p ! o' < off + mp_buf_size p ! b"

text \<open>One pass over the placed buffers, and the search that repeats it until nothing moved.\<close>

fun ff_pass :: "model_plan \<Rightarrow> nat \<Rightarrow> nat list \<Rightarrow> nat \<times> bool \<Rightarrow> nat \<times> bool" where
  "ff_pass p b [] st = st"
| "ff_pass p b (o' # os) (off, moved) =
     (if time_overlap p b o' \<and> addr_overlap p off b o'
      then ff_pass p b os (mp_buf_off p ! o' + mp_buf_size p ! o', True)
      else ff_pass p b os (off, moved))"

definition ff_bound :: "model_plan \<Rightarrow> nat \<Rightarrow> nat" where
  "ff_bound p b = (\<Sum>o'<b. mp_buf_off p ! o' + mp_buf_size p ! o')"

lemma ff_pass_mono:
  assumes "ff_pass p b os (off, mv) = (off', mv')" "set os \<subseteq> {..<b}"
  shows "off \<le> off' \<and> (off < off' \<longrightarrow> off' \<le> ff_bound p b) \<and> (mv' \<longrightarrow> mv \<or> off < off') \<and>
    (mv \<longrightarrow> mv')"
  using assms
proof (induction p b os "(off, mv)" arbitrary: off mv rule: ff_pass.induct)
  case (2 p b o' os off mv)
  have le: "mp_buf_off p ! o' + mp_buf_size p ! o' \<le> ff_bound p b"
    unfolding ff_bound_def using 2(4)
    by (intro member_le_sum [of o' "{..<b}" "\<lambda>o'. mp_buf_off p ! o' + mp_buf_size p ! o'"]) auto
  show ?case
  proof (cases "time_overlap p b o' \<and> addr_overlap p off b o'")
    case True
    with 2(1) [OF True] 2(3,4) le show ?thesis by (fastforce simp: addr_overlap_def)
  next
    case False
    with 2(2) [OF False] 2(3,4) show ?thesis by auto
  qed
qed simp

function ff_search :: "model_plan \<Rightarrow> nat \<Rightarrow> nat \<Rightarrow> nat" where
  "ff_search p b off =
     (case ff_pass p b [0..<b] (off, False) of
        (off', moved) \<Rightarrow> if moved then ff_search p b off' else off')"
  by pat_completeness auto
termination
proof (relation "measure (\<lambda>(p, b, off). ff_bound p b - off)", goal_cases)
  case (2 p b off off' moved)
  then have "off < off'" "off' \<le> ff_bound p b"
    using ff_pass_mono [of p b "[0..<b]" off False off' moved] by (auto simp: atLeast0LessThan)
  then show ?case by simp
qed simp

declare ff_search.simps [simp del]

fun place_loop :: "nat \<Rightarrow> nat list \<Rightarrow> nat \<Rightarrow> model_plan \<Rightarrow> unit res \<times> model_plan" where
  "place_loop plan_max [] peak p = (Ok (), p\<lparr>mp_planned_peak := peak\<rparr>)"
| "place_loop plan_max (b # bs) peak p =
     (let off = ff_search p b 0 in
      if off + mp_buf_size p ! b > plan_max then (Err ENOMEM, p)
      else place_loop plan_max bs (max peak (off + mp_buf_size p ! b))
             (p\<lparr>mp_buf_off := (mp_buf_off p)[b := off mod 2 ^ 16]\<rparr>))"

definition prepare_buffers :: "model_plan \<Rightarrow> model_plan" where
  "prepare_buffers p =
     (let p1 = consume_lifetimes (init_lifetimes p); n = mp_layer_count p1;
          p2 = p1\<lparr>mp_last := (mp_last p1)[n := n]\<rparr>
      in p2\<lparr>mp_naive_peak := sum_list (take (Suc n) (mp_buf_size p2))\<rparr>)"

definition place_buffers :: "nat \<Rightarrow> model_plan \<Rightarrow> unit res \<times> model_plan" where
  "place_buffers plan_max p =
     (let p1 = prepare_buffers p
      in place_loop plan_max [0..<Suc (mp_layer_count p1)] 0 p1)"

section \<open>Sessions\<close>

definition syn_npu_layered_on_load ::
  "nat \<Rightarrow> (nat \<Rightarrow> u8 list) \<Rightarrow> nat option \<Rightarrow> nat \<Rightarrow> layered \<Rightarrow> layered" where
  "syn_npu_layered_on_load act_max blob ptr sz st =
     (case (parse_model act_max blob ptr sz (ly_plan st), ptr) of
        ((Inr _, _), Some m) \<Rightarrow> st\<lparr>ly_resident := Some (m, sz)\<rparr>
      | _ \<Rightarrow> st\<lparr>ly_resident := None\<rparr>)"

definition plan_live ::
  "nat \<Rightarrow> nat \<Rightarrow> (nat \<Rightarrow> u8 list) \<Rightarrow> u32 \<Rightarrow> nat \<Rightarrow> nat \<Rightarrow> layered \<Rightarrow> unit res \<times> layered" where
  "plan_live act_max plan_max blob us m sz st =
     (case parse_model act_max blob (Some m) sz (ly_plan st) of
        (Inl e, p) \<Rightarrow> (Err e, st\<lparr>ly_plan := p\<rparr>)
      | (Inr _, p) \<Rightarrow>
          (case place_buffers plan_max p of
             (Inl e, q) \<Rightarrow> (Err e, st\<lparr>ly_plan := q\<rparr>)
           | (Inr _, q) \<Rightarrow> (Ok (), st\<lparr>ly_plan := q, ly_plan_us := us\<rparr>)))"

definition syn_npu_layered_begin ::
  "nat \<Rightarrow> nat \<Rightarrow> (nat \<Rightarrow> u8 list) \<Rightarrow> u32 \<Rightarrow> u8 list option \<Rightarrow> nat \<Rightarrow> layered \<Rightarrow>
     nat res \<times> layered" where
  "syn_npu_layered_begin act_max plan_max blob us input in_size st =
     (case ly_resident st of None \<Rightarrow> (Ok 0, st)
      | Some (m, sz) \<Rightarrow>
          (case plan_live act_max plan_max blob us m sz st of
             (Inl e, st1) \<Rightarrow> (if e = ENOTSUP then Ok 0 else Err e, st1)
           | (Inr _, st1) \<Rightarrow>
               (case input of None \<Rightarrow> (Err EINVAL, st1)
                | Some bytes \<Rightarrow>
                    if in_size \<noteq> mp_input_size (ly_plan st1) then (Err EINVAL, st1)
                    else (Ok (mp_layer_count (ly_plan st1)),
                          st1\<lparr>ly_area := blit (mp_buf_off (ly_plan st1) ! 0) (take in_size bytes)
                                            (ly_area st1),
                              ly_next := 0, ly_active := True\<rparr>))))"

definition layer_byte :: "nat \<Rightarrow> nat \<Rightarrow> u8 \<Rightarrow> u8 \<Rightarrow> u8 option \<Rightarrow> u8" where
  "layer_byte i j a0 a1 b =
     (let acc = (ucast a0 :: u32) * 31 + ucast a1 + of_nat i * 13 + of_nat j * 3;
          acc' = (case b of None \<Rightarrow> acc | Some x \<Rightarrow> acc + ucast x * 17)
      in ucast acc')"

fun layer_write ::
  "nat \<Rightarrow> nat \<times> nat \<Rightarrow> (nat \<times> nat) option \<Rightarrow> nat \<Rightarrow> nat list \<Rightarrow> u8 list \<Rightarrow> u8 list" where
  "layer_write i a b o_off [] area = area"
| "layer_write i (a_off, a_size) b o_off (j # js) area =
     layer_write i (a_off, a_size) b o_off js
       (area[o_off + j := layer_byte i j (area ! (a_off + j mod a_size))
          (area ! (a_off + (j * 7 + i) mod a_size))
          (map_option (\<lambda>(b_off, b_size). area ! (b_off + j mod b_size)) b)])"

definition buf_loc :: "model_plan \<Rightarrow> int \<Rightarrow> nat \<times> nat" where
  "buf_loc p b = (mp_buf_off p ! nat b, mp_buf_size p ! nat b)"

definition syn_npu_layered_step :: "layered \<Rightarrow> nat res \<times> layered" where
  "syn_npu_layered_step st =
     (let p = ly_plan st; i = ly_next st in
      if \<not> ly_active st \<or> i \<ge> mp_layer_count p then (Err EPERM, st)
      else
        let b = (if mp_src_b p ! i \<ge> 0 then Some (buf_loc p (mp_src_b p ! i)) else None);
            area = layer_write i (buf_loc p (mp_src_a p ! i)) b (mp_buf_off p ! Suc i)
                     [0..<mp_out_size p ! i] (ly_area st)
        in (Ok (mp_layer_count p - Suc i), st\<lparr>ly_area := area, ly_next := Suc i\<rparr>))"

definition syn_npu_layered_remaining :: "layered \<Rightarrow> nat res" where
  "syn_npu_layered_remaining st =
     (if \<not> ly_active st then Err EPERM else Ok (mp_layer_count (ly_plan st) - ly_next st))"

definition syn_npu_layered_output :: "bool \<Rightarrow> nat option \<Rightarrow> layered \<Rightarrow> u8 list res \<times> layered" where
  "syn_npu_layered_output out_ptr cap st =
     (let p = ly_plan st in
      if \<not> ly_active st then (Err EPERM, st)
      else if ly_next st < mp_layer_count p then (Err EBUSY, st)
      else
        let final = mp_layer_count p; final_size = mp_buf_size p ! final in
        (case cap of None \<Rightarrow> (Err ENOMEM, st)
         | Some c \<Rightarrow>
             if \<not> out_ptr \<or> c < final_size then (Err ENOMEM, st)
             else (Ok (slice (mp_buf_off p ! final) final_size (ly_area st)),
                   st\<lparr>ly_active := False\<rparr>)))"

definition syn_npu_layered_plan_info :: "layered \<Rightarrow> nat \<times> nat \<times> u32" where
  "syn_npu_layered_plan_info st =
     (mp_planned_peak (ly_plan st), mp_naive_peak (ly_plan st), ly_plan_us st)"

definition syn_npu_layered_save :: "layered \<Rightarrow> nat res \<times> layered" where
  "syn_npu_layered_save st =
     (if \<not> ly_active st then (Err EPERM, st)
      else (case first_index (\<lambda>c. lc_model c = None) (ly_slots st) of
              None \<Rightarrow> (Err ENOSPC, st)
            | Some s \<Rightarrow>
                let p = ly_plan st; c = ly_slots st ! s in
                (Ok s, st\<lparr>ly_slots := (ly_slots st)[s := c\<lparr>lc_model := Some (mp_model p),
                     lc_model_size := mp_model_size p, lc_next_layer := ly_next st,
                     lc_live_bytes := mp_planned_peak p mod 2 ^ 16,
                     lc_area := blit 0 (take (mp_planned_peak p) (ly_area st)) (lc_area c)\<rparr>],
                   ly_active := False\<rparr>)))"

definition syn_npu_layered_restore ::
  "nat \<Rightarrow> nat \<Rightarrow> (nat \<Rightarrow> u8 list) \<Rightarrow> u32 \<Rightarrow> int \<Rightarrow> layered \<Rightarrow> unit res \<times> layered" where
  "syn_npu_layered_restore act_max plan_max blob us slot st =
     (if slot < 0 \<or> slot \<ge> int SYN_LAYERED_CTX_SLOTS then (Err EINVAL, st)
      else
        let c = ly_slots st ! nat slot in
        (case lc_model c of None \<Rightarrow> (Err EINVAL, st)
         | Some m \<Rightarrow>
             (case plan_live act_max plan_max blob us m (lc_model_size c) st of
                (Inl _, st1) \<Rightarrow> (Err EINVAL, st1)
              | (Inr _, st1) \<Rightarrow>
                  (Ok (), st1\<lparr>ly_area := blit 0 (take (lc_live_bytes c) (lc_area c)) (ly_area st1),
                     ly_next := lc_next_layer c, ly_active := True,
                     ly_slots := (ly_slots st1)[nat slot := c\<lparr>lc_model := None\<rparr>]\<rparr>))))"

definition syn_npu_layered_slot_free :: "int \<Rightarrow> layered \<Rightarrow> layered" where
  "syn_npu_layered_slot_free slot st =
     (if slot \<ge> 0 \<and> slot < int SYN_LAYERED_CTX_SLOTS
      then st\<lparr>ly_slots := (ly_slots st)[nat slot := (ly_slots st ! nat slot)\<lparr>lc_model := None\<rparr>]\<rparr>
      else st)"

section \<open>Building model blobs\<close>

definition write_header :: "u32 \<Rightarrow> u16 \<Rightarrow> u16 \<Rightarrow> u8 list \<Rightarrow> u8 list" where
  "write_header magic layer_count input_size buf =
     blit 6 (le16 input_size) (blit 4 (le16 layer_count) (blit 0 (le32 magic) buf))"

fun make_layers ::
  "nat \<Rightarrow> u16 list \<Rightarrow> u16 list option \<Rightarrow> nat list \<Rightarrow> u8 list \<Rightarrow> unit res \<times> u8 list" where
  "make_layers act_max out_sizes work [] buf = (Ok (), buf)"
| "make_layers act_max out_sizes work (i # is) buf =
     (let d = SYN_LAYERED_HDR_SIZE + i * 4 in
      if out_sizes ! i = 0 \<or> unat (out_sizes ! i) > act_max then (Err EINVAL, buf)
      else make_layers act_max out_sizes work is
             (blit (d + 2) (le16 (case work of None \<Rightarrow> 0 | Some w \<Rightarrow> w ! i))
               (blit d (le16 (out_sizes ! i)) buf)))"

definition syn_npu_layered_make_model ::
  "nat \<Rightarrow> u8 list option \<Rightarrow> nat \<Rightarrow> u16 \<Rightarrow> u16 \<Rightarrow> u16 list option \<Rightarrow> u16 list option \<Rightarrow>
     nat res \<times> u8 list option" where
  "syn_npu_layered_make_model act_max buf buf_size input_size layer_count out_sizes work =
     (case (buf, out_sizes) of
        (Some bytes, Some outs) \<Rightarrow>
          if layer_count = 0 \<or> unat layer_count > SYN_LAYERED_MAX_LAYERS \<or> input_size = 0 \<or>
             unat input_size > act_max then (Err EINVAL, buf)
          else
            let total = SYN_LAYERED_HDR_SIZE + unat layer_count * 4 in
            if buf_size < total then (Err ENOMEM, buf)
            else (case make_layers act_max outs work [0..<unat layer_count]
                         (write_header SYN_LAYERED_MAGIC layer_count input_size bytes) of
                    (Inl e, bytes') \<Rightarrow> (Err e, Some bytes')
                  | (Inr _, bytes') \<Rightarrow> (Ok total, Some bytes'))
      | _ \<Rightarrow> (Err EINVAL, buf))"

fun make_dag_layers :: "nat \<Rightarrow> dag_layer list \<Rightarrow> nat list \<Rightarrow> u8 list \<Rightarrow> unit res \<times> u8 list" where
  "make_dag_layers act_max layers [] buf = (Ok (), buf)"
| "make_dag_layers act_max layers (i # is) buf =
     (let d = SYN_LAYERED_HDR_SIZE + i * 8; l = layers ! i in
      if dl_out_size l = 0 \<or> unat (dl_out_size l) > act_max \<or>
         \<not> is_ok (resolve_src (sint (dl_src_a l)) i False) \<or>
         \<not> is_ok (resolve_src (sint (dl_src_b l)) i True) then (Err EINVAL, buf)
      else make_dag_layers act_max layers is
             (blit (d + 6) (le16 (dl_src_b l)) (blit (d + 4) (le16 (dl_src_a l))
               (blit (d + 2) (le16 (dl_work l)) (blit d (le16 (dl_out_size l)) buf)))))"

definition syn_npu_layered_make_dag ::
  "nat \<Rightarrow> u8 list option \<Rightarrow> nat \<Rightarrow> u16 \<Rightarrow> u16 \<Rightarrow> dag_layer list option \<Rightarrow>
     nat res \<times> u8 list option" where
  "syn_npu_layered_make_dag act_max buf buf_size input_size layer_count layers =
     (case (buf, layers) of
        (Some bytes, Some ls) \<Rightarrow>
          if layer_count = 0 \<or> unat layer_count > SYN_LAYERED_MAX_LAYERS \<or> input_size = 0 \<or>
             unat input_size > act_max then (Err EINVAL, buf)
          else
            let total = SYN_LAYERED_HDR_SIZE + unat layer_count * 8 in
            if buf_size < total then (Err ENOMEM, buf)
            else (case make_dag_layers act_max ls [0..<unat layer_count]
                         (write_header SYN_LAYERED_DAG_MAGIC layer_count input_size bytes) of
                    (Inl e, bytes') \<Rightarrow> (Err e, Some bytes')
                  | (Inr _, bytes') \<Rightarrow> (Ok total, Some bytes'))
      | _ \<Rightarrow> (Err EINVAL, buf))"

section \<open>The parsed fields\<close>

definition plan_arrays :: "model_plan \<Rightarrow> bool" where
  "plan_arrays p \<longleftrightarrow> length (mp_out_size p) = SYN_LAYERED_MAX_LAYERS \<and>
     length (mp_work p) = SYN_LAYERED_MAX_LAYERS \<and> length (mp_src_a p) = SYN_LAYERED_MAX_LAYERS \<and>
     length (mp_src_b p) = SYN_LAYERED_MAX_LAYERS \<and>
     length (mp_buf_size p) = Suc SYN_LAYERED_MAX_LAYERS \<and>
     length (mp_buf_off p) = Suc SYN_LAYERED_MAX_LAYERS \<and>
     length (mp_def p) = Suc SYN_LAYERED_MAX_LAYERS \<and>
     length (mp_last p) = Suc SYN_LAYERED_MAX_LAYERS"

text \<open>Layer \<open>i\<close> reads only buffers written before it and produces a non-empty output.\<close>

definition layer_ok :: "nat \<Rightarrow> model_plan \<Rightarrow> nat \<Rightarrow> bool" where
  "layer_ok act_max p i \<longleftrightarrow> 0 < mp_out_size p ! i \<and> mp_out_size p ! i \<le> act_max \<and>
     0 \<le> mp_src_a p ! i \<and> mp_src_a p ! i \<le> int i \<and> - 1 \<le> mp_src_b p ! i \<and> mp_src_b p ! i \<le> int i"

definition parsed_ok :: "nat \<Rightarrow> model_plan \<Rightarrow> bool" where
  "parsed_ok act_max p \<longleftrightarrow> plan_arrays p \<and> 0 < mp_layer_count p \<and>
     mp_layer_count p \<le> SYN_LAYERED_MAX_LAYERS \<and> 0 < mp_input_size p \<and>
     mp_input_size p \<le> act_max \<and> (\<forall>i < mp_layer_count p. layer_ok act_max p i)"

lemma resolve_src_Ok:
  "resolve_src raw i al = Ok b \<Longrightarrow> - 1 \<le> b \<and> b \<le> int i \<and> (\<not> al \<longrightarrow> 0 \<le> b)"
  by (auto simp: resolve_src_def split: if_splits)

lemma parse_layers_arrays:
  "parse_layers act data dag is p = (r, q) \<Longrightarrow> plan_arrays p \<Longrightarrow> plan_arrays q"
  by (induction act data dag "is" p arbitrary: r q rule: parse_layers.induct)
     (auto simp: Let_def plan_arrays_def split: if_splits sum.splits prod.splits)

lemma parse_layers_frame:
  "parse_layers act data dag is p = (r, q) \<Longrightarrow> mp_layer_count q = mp_layer_count p \<and>
     mp_input_size q = mp_input_size p \<and> mp_model q = mp_model p \<and>
     mp_model_size q = mp_model_size p \<and>
     (\<forall>k. k \<notin> set is \<longrightarrow> mp_out_size q ! k = mp_out_size p ! k \<and> mp_work q ! k = mp_work p ! k \<and>
        mp_src_a q ! k = mp_src_a p ! k \<and> mp_src_b q ! k = mp_src_b p ! k)"
  by (induction act data dag "is" p arbitrary: r q rule: parse_layers.induct)
     (fastforce simp: Let_def split: if_splits sum.splits prod.splits)+

text \<open>What a successful parse leaves at layer \<open>k\<close>.\<close>

definition layer_parsed :: "nat \<Rightarrow> u8 list \<Rightarrow> bool \<Rightarrow> model_plan \<Rightarrow> nat \<Rightarrow> bool" where
  "layer_parsed act data dag p k \<longleftrightarrow>
     (let d = SYN_LAYERED_HDR_SIZE + k * desc_bytes dag in
      mp_out_size p ! k = unat (get16 data d) \<and> mp_work p ! k = unat (get16 data (d + 2)) \<and>
      0 < unat (get16 data d) \<and> unat (get16 data d) \<le> act \<and>
      layer_srcs data dag k = (Ok (mp_src_a p ! k), Ok (mp_src_b p ! k)))"

lemma parse_layers_Ok:
  assumes "parse_layers act data dag is p = (Ok (), q)" "plan_arrays p" "distinct is"
    and "set is \<subseteq> {..<SYN_LAYERED_MAX_LAYERS}" "k \<in> set is"
  shows "layer_parsed act data dag q k"
  using assms
proof (induction act data dag "is" p arbitrary: q rule: parse_layers.induct)
  case (2 act data dag i "is" p)
  let ?d = "SYN_LAYERED_HDR_SIZE + i * desc_bytes dag"
  let ?p1 = "p\<lparr>mp_out_size := (mp_out_size p)[i := unat (get16 data ?d)],
               mp_work := (mp_work p)[i := unat (get16 data (?d + 2))]\<rparr>"
  from 2(2) obtain a b where ab: "layer_srcs data dag i = (Ok a, Ok b)"
    and out: "0 < unat (get16 data ?d)" "unat (get16 data ?d) \<le> act"
    and rec: "parse_layers act data dag is
      (?p1\<lparr>mp_src_a := (mp_src_a ?p1)[i := a], mp_src_b := (mp_src_b ?p1)[i := b]\<rparr>) = (Ok (), q)"
    by (auto simp: Let_def not_le split: if_splits sum.splits prod.splits)
  show ?case
  proof (cases "k = i")
    case True
    then show ?thesis
      using parse_layers_frame [OF rec] 2(3-5) ab out
      by (auto simp: layer_parsed_def Let_def plan_arrays_def)
  next
    case False
    have pa: "plan_arrays (?p1\<lparr>mp_src_a := (mp_src_a ?p1)[i := a],
        mp_src_b := (mp_src_b ?p1)[i := b]\<rparr>)" using 2(3) by (simp add: plan_arrays_def)
    have c: "\<not> (unat (get16 data ?d) = 0 \<or> act < unat (get16 data ?d))" using out by simp
    show ?thesis
      by (rule 2(1) [OF refl refl refl c ab [symmetric] refl refl rec pa]) (use 2(4-6) False in auto)
  qed
qed simp

lemma layer_parsed_ok: "layer_parsed act data dag p k \<Longrightarrow> layer_ok act p k"
  by (auto simp: layer_parsed_def layer_ok_def Let_def layer_srcs_def dest!: resolve_src_Ok)

definition blob_parsed :: "nat \<Rightarrow> u8 list \<Rightarrow> nat \<Rightarrow> model_plan \<Rightarrow> bool" where
  "blob_parsed act data sz p \<longleftrightarrow>
     (let dag = (get32 data 0 = SYN_LAYERED_DAG_MAGIC) in
      mp_layer_count p = unat (get16 data 4) \<and> mp_input_size p = unat (get16 data 6) \<and>
      SYN_LAYERED_HDR_SIZE + mp_layer_count p * desc_bytes dag \<le> sz \<and>
      (\<forall>k < mp_layer_count p. layer_parsed act data dag p k))"

lemma parse_model_Ok:
  assumes "parse_model act blob (Some m) sz p = (Ok (), q)" "plan_arrays p"
  shows "parsed_ok act q" "blob_parsed act (blob m) sz q" "mp_model q = m" "mp_model_size q = sz"
proof -
  let ?data = "blob m" let ?dag = "get32 (blob m) 0 = SYN_LAYERED_DAG_MAGIC"
  let ?n = "unat (get16 (blob m) 4)" let ?in = "unat (get16 (blob m) 6)"
  let ?p1 = "p\<lparr>mp_model := m, mp_model_size := sz, mp_layer_count := ?n, mp_input_size := ?in\<rparr>"
  have n: "0 < ?n" "?n \<le> SYN_LAYERED_MAX_LAYERS" "0 < ?in" "?in \<le> act"
      "SYN_LAYERED_HDR_SIZE + ?n * desc_bytes ?dag \<le> sz"
    and rec: "parse_layers act ?data ?dag [0..<?n] ?p1 = (Ok (), q)"
    using assms(1) by (auto simp: parse_model_def Let_def not_less split: if_splits)
  have pa: "plan_arrays ?p1" using assms(2) by (simp add: plan_arrays_def)
  note fr = parse_layers_frame [OF rec]
  have lp: "layer_parsed act ?data ?dag q k" if "k < ?n" for k
    using that n(2) by (intro parse_layers_Ok [OF rec pa]) auto
  have lo: "layer_ok act q k" if "k < ?n" for k
    using layer_parsed_ok [OF lp [OF that]] .
  show "parsed_ok act q"
    using n fr lo parse_layers_arrays [OF rec pa] by (simp add: parsed_ok_def)
  show "blob_parsed act (blob m) sz q" using n fr lp by (simp add: blob_parsed_def Let_def)
  show "mp_model q = m" "mp_model_size q = sz" using fr by simp_all
qed

section \<open>Lifetimes\<close>

text \<open>The planning passes leave the parsed fields alone.\<close>

definition same_source :: "model_plan \<Rightarrow> model_plan \<Rightarrow> bool" where
  "same_source p q \<longleftrightarrow> mp_model q = mp_model p \<and> mp_model_size q = mp_model_size p \<and>
     mp_layer_count q = mp_layer_count p \<and> mp_input_size q = mp_input_size p \<and>
     mp_out_size q = mp_out_size p \<and> mp_work q = mp_work p \<and> mp_src_a q = mp_src_a p \<and>
     mp_src_b q = mp_src_b p"

lemma same_source_refl [simp]: "same_source p p"
  by (simp add: same_source_def)

lemma same_source_trans: "same_source p q \<Longrightarrow> same_source q r \<Longrightarrow> same_source p r"
  by (simp add: same_source_def)

lemma init_lifetimes_spec:
  assumes "plan_arrays p" "mp_layer_count p \<le> SYN_LAYERED_MAX_LAYERS"
  shows "same_source p (init_lifetimes p) \<and> plan_arrays (init_lifetimes p) \<and>
    mp_buf_size (init_lifetimes p) ! 0 = mp_input_size p \<and>
    mp_def (init_lifetimes p) ! 0 = 0 \<and> mp_last (init_lifetimes p) ! 0 = 0 \<and>
    (\<forall>i < mp_layer_count p. mp_buf_size (init_lifetimes p) ! Suc i = mp_out_size p ! i \<and>
       mp_def (init_lifetimes p) ! Suc i = i \<and> mp_last (init_lifetimes p) ! Suc i = i)"
proof -
  let ?p0 = "p\<lparr>mp_buf_size := (mp_buf_size p)[0 := mp_input_size p],
               mp_def := (mp_def p)[0 := 0], mp_last := (mp_last p)[0 := 0]\<rparr>"
  have "same_source p (fold init_step [0..<n] ?p0) \<and> plan_arrays (fold init_step [0..<n] ?p0) \<and>
    mp_buf_size (fold init_step [0..<n] ?p0) ! 0 = mp_input_size p \<and>
    mp_def (fold init_step [0..<n] ?p0) ! 0 = 0 \<and> mp_last (fold init_step [0..<n] ?p0) ! 0 = 0 \<and>
    (\<forall>i < n. mp_buf_size (fold init_step [0..<n] ?p0) ! Suc i = mp_out_size p ! i \<and>
       mp_def (fold init_step [0..<n] ?p0) ! Suc i = i \<and>
       mp_last (fold init_step [0..<n] ?p0) ! Suc i = i)"
    if "n \<le> SYN_LAYERED_MAX_LAYERS" for n
    using that
  proof (induction n)
    case 0
    then show ?case using assms(1) by (auto simp: same_source_def plan_arrays_def)
  next
    case (Suc n)
    then have "plan_arrays (fold init_step [0..<n] ?p0)" by simp
    with Suc show ?case
      by (auto simp: init_step_def same_source_def plan_arrays_def less_Suc_eq nth_list_update)
  qed
  from this [OF assms(2)] show ?thesis by (simp add: init_lifetimes_def)
qed

lemma extend_last_props:
  assumes "nat b < length l"
  shows "length (extend_last b i l) = length l" "k < length l \<Longrightarrow> l ! k \<le> extend_last b i l ! k"
    "i \<le> extend_last b i l ! nat b"
  using assms by (auto simp: extend_last_def nth_list_update)

lemma consume_step_props:
  assumes "plan_arrays p" "layer_ok act p i" "i < SYN_LAYERED_MAX_LAYERS"
  shows "same_source p (consume_step i p)" "plan_arrays (consume_step i p)"
    "mp_buf_size (consume_step i p) = mp_buf_size p" "mp_def (consume_step i p) = mp_def p"
    "k \<le> SYN_LAYERED_MAX_LAYERS \<Longrightarrow> mp_last p ! k \<le> mp_last (consume_step i p) ! k"
    "i \<le> mp_last (consume_step i p) ! nat (mp_src_a p ! i)"
    "0 \<le> mp_src_b p ! i \<Longrightarrow> i \<le> mp_last (consume_step i p) ! nat (mp_src_b p ! i)"
proof -
  have a: "nat (mp_src_a p ! i) < length (mp_last p)"
    and b: "nat (mp_src_b p ! i) < length (mp_last p)"
    using assms by (auto simp: plan_arrays_def layer_ok_def)
  let ?l = "extend_last (mp_src_a p ! i) i (mp_last p)"
  have l: "length ?l = length (mp_last p)" using extend_last_props(1) [OF a] .
  note b' = b [folded l]
  show "same_source p (consume_step i p)" "plan_arrays (consume_step i p)"
    "mp_buf_size (consume_step i p) = mp_buf_size p" "mp_def (consume_step i p) = mp_def p"
    using assms(1) l extend_last_props(1) [OF b', of i]
    by (simp_all add: consume_step_def Let_def same_source_def plan_arrays_def)
  show "mp_last p ! k \<le> mp_last (consume_step i p) ! k" if "k \<le> SYN_LAYERED_MAX_LAYERS" for k
    using extend_last_props(2) [OF a, of k i] extend_last_props(2) [OF b', of k i] that assms(1) l
    by (simp add: consume_step_def Let_def plan_arrays_def)
  show "i \<le> mp_last (consume_step i p) ! nat (mp_src_a p ! i)"
    using extend_last_props(3) [OF a, of i] extend_last_props(2) [OF b', of "nat (mp_src_a p ! i)" i] a l
    by (simp add: consume_step_def Let_def)
  show "i \<le> mp_last (consume_step i p) ! nat (mp_src_b p ! i)" if "0 \<le> mp_src_b p ! i"
    using extend_last_props(3) [OF b', of i] that by (simp add: consume_step_def Let_def)
qed

lemma consume_lifetimes_spec:
  assumes "plan_arrays p" "mp_layer_count p \<le> SYN_LAYERED_MAX_LAYERS"
    and "\<forall>i < mp_layer_count p. layer_ok act p i"
  defines "q \<equiv> consume_lifetimes p"
  shows "same_source p q \<and> plan_arrays q \<and> mp_buf_size q = mp_buf_size p \<and> mp_def q = mp_def p \<and>
    (\<forall>k \<le> SYN_LAYERED_MAX_LAYERS. mp_last p ! k \<le> mp_last q ! k) \<and>
    (\<forall>i < mp_layer_count p. i \<le> mp_last q ! nat (mp_src_a p ! i) \<and>
       (0 \<le> mp_src_b p ! i \<longrightarrow> i \<le> mp_last q ! nat (mp_src_b p ! i)))"
proof -
  let ?f = "\<lambda>n. fold consume_step [0..<n] p"
  have "same_source p (?f n) \<and> plan_arrays (?f n) \<and> mp_buf_size (?f n) = mp_buf_size p \<and>
      mp_def (?f n) = mp_def p \<and> (\<forall>k \<le> SYN_LAYERED_MAX_LAYERS. mp_last p ! k \<le> mp_last (?f n) ! k) \<and>
      (\<forall>i < n. i \<le> mp_last (?f n) ! nat (mp_src_a p ! i) \<and>
         (0 \<le> mp_src_b p ! i \<longrightarrow> i \<le> mp_last (?f n) ! nat (mp_src_b p ! i)))"
    if "n \<le> mp_layer_count p" for n
    using that
  proof (induction n)
    case 0
    then show ?case using assms(1) by simp
  next
    case (Suc n)
    then have IH: "same_source p (?f n)" "plan_arrays (?f n)" "mp_buf_size (?f n) = mp_buf_size p"
      "mp_def (?f n) = mp_def p" "\<forall>k \<le> SYN_LAYERED_MAX_LAYERS. mp_last p ! k \<le> mp_last (?f n) ! k"
      "\<forall>i < n. i \<le> mp_last (?f n) ! nat (mp_src_a p ! i) \<and>
         (0 \<le> mp_src_b p ! i \<longrightarrow> i \<le> mp_last (?f n) ! nat (mp_src_b p ! i))" by simp_all
    have lok: "layer_ok act (?f n) n" and n16: "n < SYN_LAYERED_MAX_LAYERS"
      using assms(2,3) Suc.prems IH(1) by (auto simp: layer_ok_def same_source_def)
    note st = consume_step_props [OF IH(2) lok n16]
    have src: "nat (mp_src_a p ! i) \<le> SYN_LAYERED_MAX_LAYERS" "nat (mp_src_b p ! i) \<le> SYN_LAYERED_MAX_LAYERS"
      if "i < n" for i
      using assms(2,3) Suc.prems that by (auto simp: layer_ok_def dest!: spec [of _ i])
    have e: "?f (Suc n) = consume_step n (?f n)" by simp
    show ?case unfolding e
    proof (intro conjI allI impI)
      show "same_source p (consume_step n (?f n))" by (rule same_source_trans [OF IH(1) st(1)])
      show "plan_arrays (consume_step n (?f n))" by (rule st(2))
      show "mp_buf_size (consume_step n (?f n)) = mp_buf_size p" using st(3) IH(3) by simp
      show "mp_def (consume_step n (?f n)) = mp_def p" using st(4) IH(4) by simp
      show "mp_last p ! k \<le> mp_last (consume_step n (?f n)) ! k" if "k \<le> SYN_LAYERED_MAX_LAYERS" for k
        using st(5) [OF that] IH(5) that by (meson le_trans)
      fix i assume i: "i < Suc n"
      show "i \<le> mp_last (consume_step n (?f n)) ! nat (mp_src_a p ! i)"
        using i st(6) IH(1,6) st(5) [OF src(1), of i]
        by (cases "i = n") (auto simp: same_source_def dest!: spec [of _ i])
      show "i \<le> mp_last (consume_step n (?f n)) ! nat (mp_src_b p ! i)" if "0 \<le> mp_src_b p ! i"
        using i st(7) IH(1,6) st(5) [OF src(2), of i] that
        by (cases "i = n") (auto simp: same_source_def dest!: spec [of _ i])
    qed
  qed
  from this [of "mp_layer_count p"] show ?thesis by (simp add: q_def consume_lifetimes_def)
qed

text \<open>Everything the planner knows about the buffers before it places them.\<close>

definition lifetimes_ok :: "model_plan \<Rightarrow> bool" where
  "lifetimes_ok p \<longleftrightarrow>
     (let n = mp_layer_count p in
      mp_buf_size p ! 0 = mp_input_size p \<and> mp_def p ! 0 = 0 \<and>
      (\<forall>i < n. mp_buf_size p ! Suc i = mp_out_size p ! i \<and> mp_def p ! Suc i = i \<and>
         i \<le> mp_last p ! Suc i \<and> i \<le> mp_last p ! nat (mp_src_a p ! i) \<and>
         (0 \<le> mp_src_b p ! i \<longrightarrow> i \<le> mp_last p ! nat (mp_src_b p ! i))) \<and>
      mp_last p ! n = n)"

lemma prepare_buffers_spec:
  assumes "parsed_ok act p"
  shows "same_source p (prepare_buffers p)" "plan_arrays (prepare_buffers p)"
    "lifetimes_ok (prepare_buffers p)" "parsed_ok act (prepare_buffers p)"
    "mp_naive_peak (prepare_buffers p) =
       sum_list (take (Suc (mp_layer_count p)) (mp_buf_size (prepare_buffers p)))"
proof -
  let ?a = "init_lifetimes p" let ?b = "consume_lifetimes ?a" let ?n = "mp_layer_count p"
  have pa: "plan_arrays p" "?n \<le> SYN_LAYERED_MAX_LAYERS" "\<forall>i < ?n. layer_ok act p i"
    using assms by (auto simp: parsed_ok_def)
  note I = init_lifetimes_spec [OF pa(1,2)]
  have "mp_layer_count ?a = ?n" using I by (simp add: same_source_def)
  moreover have "\<forall>i < mp_layer_count ?a. layer_ok act ?a i"
    using pa(3) I by (simp add: layer_ok_def same_source_def)
  ultimately have C: "same_source ?a ?b \<and> plan_arrays ?b \<and> mp_buf_size ?b = mp_buf_size ?a \<and>
    mp_def ?b = mp_def ?a \<and> (\<forall>k \<le> SYN_LAYERED_MAX_LAYERS. mp_last ?a ! k \<le> mp_last ?b ! k) \<and>
    (\<forall>i < ?n. i \<le> mp_last ?b ! nat (mp_src_a ?a ! i) \<and>
       (0 \<le> mp_src_b ?a ! i \<longrightarrow> i \<le> mp_last ?b ! nat (mp_src_b ?a ! i)))"
    using consume_lifetimes_spec [of ?a act] I pa(2) by simp
  have ss: "same_source p ?b" using I C same_source_trans by blast
  show ssp: "same_source p (prepare_buffers p)"
    using ss by (simp add: prepare_buffers_def Let_def same_source_def)
  show arr: "plan_arrays (prepare_buffers p)"
    using C I by (simp add: prepare_buffers_def Let_def plan_arrays_def)
  show "parsed_ok act (prepare_buffers p)"
    using assms ssp arr by (simp add: parsed_ok_def same_source_def layer_ok_def)
  show "mp_naive_peak (prepare_buffers p) =
      sum_list (take (Suc ?n) (mp_buf_size (prepare_buffers p)))"
    using ss by (simp add: prepare_buffers_def Let_def same_source_def)
  have last': "mp_last (prepare_buffers p) = (mp_last ?b)[?n := ?n]"
    and other: "mp_buf_size (prepare_buffers p) = mp_buf_size ?b" "mp_def (prepare_buffers p) = mp_def ?b"
    using ss by (simp_all add: prepare_buffers_def Let_def same_source_def)
  have len: "length (mp_last ?b) = Suc SYN_LAYERED_MAX_LAYERS" using C by (simp add: plan_arrays_def)
  have ge: "mp_last ?b ! k \<le> mp_last (prepare_buffers p) ! k \<or> k = ?n" for k
    by (cases "k = ?n") (auto simp: last' nth_list_update_neq)
  have nn: "mp_last (prepare_buffers p) ! ?n = ?n" using len pa(2) by (simp add: last')
  show "lifetimes_ok (prepare_buffers p)"
    unfolding lifetimes_ok_def Let_def
  proof (intro conjI allI impI)
    fix i assume "i < mp_layer_count (prepare_buffers p)"
    then have i: "i < ?n" using ssp by (simp add: same_source_def)
    have up: "x \<le> mp_last (prepare_buffers p) ! k" if "x \<le> mp_last ?b ! k" "x < ?n" for x k
      using ge [of k] nn that by auto
    show "mp_buf_size (prepare_buffers p) ! Suc i = mp_out_size (prepare_buffers p) ! i"
      "mp_def (prepare_buffers p) ! Suc i = i"
      using C I i other ssp by (simp_all add: same_source_def)
    have "mp_last ?a ! Suc i \<le> mp_last ?b ! Suc i" using C i pa(2) by simp
    then show "i \<le> mp_last (prepare_buffers p) ! Suc i" using I i by (intro up) auto
    show "i \<le> mp_last (prepare_buffers p) ! nat (mp_src_a (prepare_buffers p) ! i)"
      using C I i ssp by (intro up) (auto simp: same_source_def)
    show "i \<le> mp_last (prepare_buffers p) ! nat (mp_src_b (prepare_buffers p) ! i)"
      if "0 \<le> mp_src_b (prepare_buffers p) ! i"
      using C I i ssp that by (intro up) (auto simp: same_source_def)
  qed (use C I other nn ssp in \<open>simp_all add: same_source_def\<close>)
qed

section \<open>First-fit placement\<close>

lemma ff_pass_stable:
  "ff_pass p b os (off, mv) = (off', False) \<Longrightarrow> off' = off \<and> \<not> mv \<and>
     (\<forall>o' \<in> set os. \<not> (time_overlap p b o' \<and> addr_overlap p off b o'))"
proof (induction p b os "(off, mv)" arbitrary: off mv rule: ff_pass.induct)
  case (2 p b o' os off mv)
  show ?case
  proof (cases "time_overlap p b o' \<and> addr_overlap p off b o'")
    case True
    with 2(1) [OF True] 2(3) show ?thesis by simp
  next
    case False
    with 2(2) [OF False] 2(3) show ?thesis by auto
  qed
qed simp

lemma ff_pass_form:
  "ff_pass p b os (off, mv) = (off', mv') \<Longrightarrow>
     off' = off \<or> (\<exists>o' \<in> set os. off' = mp_buf_off p ! o' + mp_buf_size p ! o')"
proof (induction p b os "(off, mv)" arbitrary: off mv rule: ff_pass.induct)
  case (2 p b o' os off mv)
  show ?case
  proof (cases "time_overlap p b o' \<and> addr_overlap p off b o'")
    case True
    with 2(1) [OF True] 2(3) show ?thesis by auto
  next
    case False
    with 2(2) [OF False] 2(3) show ?thesis by auto
  qed
qed simp

lemma ff_search_free: "\<forall>o' < b. \<not> (time_overlap p b o' \<and> addr_overlap p (ff_search p b off) b o')"
proof (induction p b off rule: ff_search.induct)
  case (1 p b off)
  obtain off' mv where e: "ff_pass p b [0..<b] (off, False) = (off', mv)" by fastforce
  show ?case
  proof (cases mv)
    case True
    then show ?thesis using 1 [OF e [symmetric]] e by (simp add: ff_search.simps [of p b off])
  next
    case False
    then show ?thesis using ff_pass_stable [of p b "[0..<b]" off False off'] e
      by (simp add: ff_search.simps [of p b off])
  qed
qed

lemma ff_search_form:
  "ff_search p b off = off \<or> (\<exists>o' < b. ff_search p b off = mp_buf_off p ! o' + mp_buf_size p ! o')"
proof (induction p b off rule: ff_search.induct)
  case (1 p b off)
  obtain off' mv where e: "ff_pass p b [0..<b] (off, False) = (off', mv)" by fastforce
  show ?case
    using 1 [OF e [symmetric]] ff_pass_form [OF e] e
    by (cases mv) (auto simp: ff_search.simps [of p b off])
qed

text \<open>Buffers \<open>0 ..< k\<close> are placed: pairwise apart where their lifetimes meet, below the peak.\<close>

definition placed :: "model_plan \<Rightarrow> nat \<Rightarrow> nat \<Rightarrow> bool" where
  "placed p k peak \<longleftrightarrow> peak \<le> (\<Sum>c<k. mp_buf_size p ! c) \<and>
     (\<forall>b < k. mp_buf_off p ! b + mp_buf_size p ! b \<le> peak \<and>
        mp_buf_off p ! b + mp_buf_size p ! b \<le> (\<Sum>c\<le>b. mp_buf_size p ! c)) \<and>
     (\<forall>b < k. \<forall>o' < b. time_overlap p b o' \<longrightarrow>
        disjoint_ranges (mp_buf_off p ! b) (mp_buf_size p ! b)
                        (mp_buf_off p ! o') (mp_buf_size p ! o'))"

lemma placed_step:
  fixes p :: model_plan
  assumes pl: "placed p k peak" and k: "k < length (mp_buf_off p)"
    and fit: "ff_search p k 0 + mp_buf_size p ! k \<le> plan_max" and pm: "plan_max < 2 ^ 16"
  defines "p' \<equiv> p\<lparr>mp_buf_off := (mp_buf_off p)[k := ff_search p k 0 mod 2 ^ 16]\<rparr>"
  shows "placed p' (Suc k) (max peak (ff_search p k 0 + mp_buf_size p ! k))"
proof -
  let ?r = "ff_search p k 0"
  have r: "?r mod 2 ^ 16 = ?r" using fit pm by simp
  have off: "mp_buf_off p' ! b = (if b = k then ?r else mp_buf_off p ! b)" for b
    using k r by (simp add: p'_def)
  have same: "mp_buf_size p' = mp_buf_size p" "time_overlap p' = time_overlap p"
    by (auto simp: p'_def time_overlap_def fun_eq_iff)
  have sum: "?r + mp_buf_size p ! k \<le> (\<Sum>c\<le>k. mp_buf_size p ! c)"
  proof (cases "?r = 0")
    case False
    then obtain o' where o': "o' < k" "?r = mp_buf_off p ! o' + mp_buf_size p ! o'"
      using ff_search_form [of p k 0] by auto
    then have "?r \<le> (\<Sum>c\<le>o'. mp_buf_size p ! c)" using pl by (simp add: placed_def)
    also have "\<dots> \<le> (\<Sum>c<k. mp_buf_size p ! c)"
      using o'(1) by (intro sum_mono2) auto
    finally show ?thesis by (simp add: lessThan_Suc_atMost [symmetric])
  qed (simp add: lessThan_Suc_atMost [symmetric])
  have dis: "disjoint_ranges ?r (mp_buf_size p ! k) (mp_buf_off p ! o') (mp_buf_size p ! o')"
    if "o' < k" "time_overlap p k o'" for o'
    using ff_search_free [of k p 0] that by (auto simp: addr_overlap_def disjoint_ranges_def)
  have "max peak (?r + mp_buf_size p ! k) \<le> (\<Sum>c<Suc k. mp_buf_size p ! c)"
    using pl sum by (simp add: placed_def lessThan_Suc_atMost [symmetric])
  then show ?thesis
    using pl sum dis unfolding placed_def
    by (auto simp: off same less_Suc_eq le_max_iff_disj)
qed

lemma place_loop_spec:
  assumes "place_loop plan_max [k..<m] peak p = (Ok (), q)"
    and "placed p k peak" "m \<le> length (mp_buf_off p)" "k \<le> m" "peak \<le> plan_max" "plan_max < 2 ^ 16"
  shows "placed q m (mp_planned_peak q) \<and> mp_planned_peak q \<le> plan_max \<and>
    length (mp_buf_off q) = length (mp_buf_off p) \<and> same_source p q \<and>
    mp_buf_size q = mp_buf_size p \<and> mp_def q = mp_def p \<and> mp_last q = mp_last p \<and>
    mp_naive_peak q = mp_naive_peak p"
  using assms
proof (induction "m - k" arbitrary: k peak p)
  case 0
  then have "q = p\<lparr>mp_planned_peak := peak\<rparr>" "k = m" by auto
  with 0 show ?case by (simp add: placed_def time_overlap_def same_source_def)
next
  case (Suc d)
  let ?r = "ff_search p k 0"
  let ?p' = "p\<lparr>mp_buf_off := (mp_buf_off p)[k := ?r mod 2 ^ 16]\<rparr>"
  have km: "k < m" using Suc.hyps(2) by simp
  then have u: "[k..<m] = k # [Suc k..<m]" by (rule upt_conv_Cons)
  have fit: "?r + mp_buf_size p ! k \<le> plan_max"
    and rec: "place_loop plan_max [Suc k..<m] (max peak (?r + mp_buf_size p ! k)) ?p' = (Ok (), q)"
    using Suc.prems(1) by (auto simp: u Let_def split: if_splits)
  have "placed ?p' (Suc k) (max peak (?r + mp_buf_size p ! k))"
    using Suc.prems km by (intro placed_step [OF _ _ fit]) simp_all
  with Suc.hyps(1) [OF _ rec] Suc.hyps(2) Suc.prems km fit show ?case
    by (simp add: same_source_def)
qed

text \<open>A plan a session may run on.\<close>

definition plan_ok :: "nat \<Rightarrow> nat \<Rightarrow> model_plan \<Rightarrow> bool" where
  "plan_ok act_max plan_max p \<longleftrightarrow> parsed_ok act_max p \<and> lifetimes_ok p \<and>
     placed p (Suc (mp_layer_count p)) (mp_planned_peak p) \<and> mp_planned_peak p \<le> plan_max \<and>
     mp_planned_peak p \<le> mp_naive_peak p"

lemma sum_list_take_Suc:
  "n < length l \<Longrightarrow> sum_list (take (Suc n) l) = (\<Sum>c\<le>n. (l ! c :: nat))"
  by (simp add: sum_list_sum_nth atLeast0LessThan lessThan_Suc_atMost)

lemma place_buffers_spec:
  assumes "parsed_ok act p" "place_buffers plan_max p = (Ok (), q)" "plan_max < 2 ^ 16"
  shows "plan_ok act plan_max q" "same_source p q"
proof -
  let ?p1 = "prepare_buffers p" let ?n = "mp_layer_count p"
  note P = prepare_buffers_spec [OF assms(1)]
  have n: "mp_layer_count ?p1 = ?n" "?n \<le> SYN_LAYERED_MAX_LAYERS"
    using P(1) assms(1) by (simp_all add: same_source_def parsed_ok_def)
  have lens: "length (mp_buf_off ?p1) = 17" "length (mp_buf_size ?p1) = 17"
    using P(2) by (simp_all add: plan_arrays_def)
  have "place_loop plan_max [0..<Suc ?n] 0 ?p1 = (Ok (), q)"
    using assms(2) n by (simp add: place_buffers_def Let_def)
  note L = place_loop_spec [OF this]
  have L: "placed q (Suc ?n) (mp_planned_peak q) \<and> mp_planned_peak q \<le> plan_max \<and>
    length (mp_buf_off q) = length (mp_buf_off ?p1) \<and> same_source ?p1 q \<and>
    mp_buf_size q = mp_buf_size ?p1 \<and> mp_def q = mp_def ?p1 \<and> mp_last q = mp_last ?p1 \<and>
    mp_naive_peak q = mp_naive_peak ?p1"
    using n lens assms(3) by (intro L) (simp_all add: placed_def)
  show ss: "same_source p q" using L P(1) same_source_trans by blast
  have lo: "lifetimes_ok q" using P(3) L by (simp add: lifetimes_ok_def same_source_def Let_def)
  have po: "parsed_ok act q"
    using P(4) L by (simp add: parsed_ok_def plan_arrays_def same_source_def layer_ok_def)
  have "mp_naive_peak q = (\<Sum>c\<le>?n. mp_buf_size q ! c)"
    using P(5) L n lens by (simp add: sum_list_take_Suc)
  moreover have "mp_planned_peak q \<le> (\<Sum>c\<le>?n. mp_buf_size q ! c)"
    using L lessThan_Suc_atMost [of ?n] unfolding placed_def by metis
  ultimately show "plan_ok act plan_max q" using L lo po ss by (simp add: plan_ok_def same_source_def)
qed

section \<open>Planning is deterministic\<close>

text \<open>
  A plan computed over stale arrays equals one computed over any other stale arrays on every
  entry below the layer count: the resumed session finds its buffers where it left them.
\<close>

definition src_agree :: "model_plan \<Rightarrow> model_plan \<Rightarrow> bool" where
  "src_agree p q \<longleftrightarrow> mp_model p = mp_model q \<and> mp_model_size p = mp_model_size q \<and>
     mp_layer_count p = mp_layer_count q \<and> mp_input_size p = mp_input_size q \<and>
     (\<forall>i < mp_layer_count p. mp_out_size p ! i = mp_out_size q ! i \<and> mp_work p ! i = mp_work q ! i \<and>
        mp_src_a p ! i = mp_src_a q ! i \<and> mp_src_b p ! i = mp_src_b q ! i)"

definition buf_agree :: "model_plan \<Rightarrow> model_plan \<Rightarrow> bool" where
  "buf_agree p q \<longleftrightarrow> (\<forall>b \<le> mp_layer_count p. mp_buf_size p ! b = mp_buf_size q ! b \<and>
     mp_def p ! b = mp_def q ! b \<and> mp_last p ! b = mp_last q ! b)"

definition off_agree :: "nat \<Rightarrow> model_plan \<Rightarrow> model_plan \<Rightarrow> bool" where
  "off_agree k p q \<longleftrightarrow> (\<forall>b < k. mp_buf_off p ! b = mp_buf_off q ! b)"

definition plan_agree :: "model_plan \<Rightarrow> model_plan \<Rightarrow> bool" where
  "plan_agree p q \<longleftrightarrow> src_agree p q \<and> buf_agree p q \<and> off_agree (Suc (mp_layer_count p)) p q \<and>
     mp_planned_peak p = mp_planned_peak q"

lemma parse_layers_status:
  "fst (parse_layers act data dag is p) = fst (parse_layers act data dag is p')"
proof (induction "is" arbitrary: p p')
  case (Cons i "is")
  show ?case by (auto simp: Let_def intro!: Cons.IH split: sum.splits prod.splits)
qed simp

lemma parse_model_status:
  "fst (parse_model act blob ptr sz p) = fst (parse_model act blob ptr sz p')"
  by (auto simp: parse_model_def Let_def split: option.splits intro!: parse_layers_status)

lemma blob_parsed_agree:
  assumes "blob_parsed act data sz p" "blob_parsed act data sz q"
    and "mp_model p = mp_model q" "mp_model_size p = mp_model_size q"
  shows "src_agree p q"
proof -
  have lp: "layer_parsed act data (get32 data 0 = SYN_LAYERED_DAG_MAGIC) p k \<and>
      layer_parsed act data (get32 data 0 = SYN_LAYERED_DAG_MAGIC) q k" if "k < mp_layer_count p" for k
    using assms(1,2) that by (simp add: blob_parsed_def Let_def)
  have "mp_out_size p ! k = mp_out_size q ! k \<and> mp_work p ! k = mp_work q ! k \<and>
      mp_src_a p ! k = mp_src_a q ! k \<and> mp_src_b p ! k = mp_src_b q ! k"
    if "k < mp_layer_count p" for k
  proof -
    note l = lp [OF that, unfolded layer_parsed_def Let_def]
    then have "(Ok (mp_src_a p ! k), Ok (mp_src_b p ! k)) =
        ((Ok (mp_src_a q ! k), Ok (mp_src_b q ! k)) :: int res \<times> int res)" by metis
    with l show ?thesis by simp
  qed
  then show ?thesis using assms by (simp add: src_agree_def blob_parsed_def Let_def)
qed

lemma blob_parsed_same_source: "same_source p q \<Longrightarrow> blob_parsed act data sz q = blob_parsed act data sz p"
  by (simp add: blob_parsed_def layer_parsed_def same_source_def Let_def)

lemma same_source_agree:
  "same_source p p' \<Longrightarrow> same_source q q' \<Longrightarrow> src_agree p q \<Longrightarrow> src_agree p' q'"
  by (simp add: src_agree_def same_source_def)

lemma extend_last_agree:
  assumes "\<forall>b \<le> n. l ! b = l' ! b" "n < length l" "n < length l'" "nat s \<le> n" "k \<le> n"
  shows "extend_last s i l ! k = extend_last s i l' ! k"
  using assms by (auto simp: extend_last_def nth_list_update)

lemma consume_step_agree:
  assumes "plan_arrays p" "plan_arrays q" "src_agree p q" "buf_agree p q" "i < mp_layer_count p"
    and "mp_layer_count p \<le> SYN_LAYERED_MAX_LAYERS" "layer_ok act p i"
  shows "buf_agree (consume_step i p) (consume_step i q)"
proof -
  let ?n = "mp_layer_count p"
  have s: "mp_src_a q ! i = mp_src_a p ! i" "mp_src_b q ! i = mp_src_b p ! i"
    "nat (mp_src_a p ! i) \<le> ?n" "nat (mp_src_b p ! i) \<le> ?n"
    using assms(3,5,7) by (auto simp: src_agree_def layer_ok_def)
  have l: "\<forall>b \<le> ?n. mp_last p ! b = mp_last q ! b" "?n < length (mp_last p)" "?n < length (mp_last q)"
    using assms(1,2,4,6) by (auto simp: buf_agree_def plan_arrays_def)
  let ?l = "extend_last (mp_src_a p ! i) i (mp_last p)" and ?l' = "extend_last (mp_src_a p ! i) i (mp_last q)"
  have a: "\<forall>b \<le> ?n. ?l ! b = ?l' ! b" using extend_last_agree [OF l s(3)] by blast
  have len: "?n < length ?l" "?n < length ?l'" using l by (auto simp: extend_last_def)
  have "\<forall>b \<le> ?n. extend_last (mp_src_b p ! i) i ?l ! b = extend_last (mp_src_b p ! i) i ?l' ! b"
    using extend_last_agree [OF a len s(4)] by blast
  then show ?thesis using a assms(4) s(1,2) by (simp add: buf_agree_def consume_step_def Let_def)
qed

lemma init_lifetimes_agree:
  assumes "parsed_ok act p" "parsed_ok act q" "src_agree p q"
  shows "buf_agree (init_lifetimes p) (init_lifetimes q)"
proof -
  have "mp_buf_size (init_lifetimes p) ! b = mp_buf_size (init_lifetimes q) ! b \<and>
      mp_def (init_lifetimes p) ! b = mp_def (init_lifetimes q) ! b \<and>
      mp_last (init_lifetimes p) ! b = mp_last (init_lifetimes q) ! b" if "b \<le> mp_layer_count p" for b
    using that assms init_lifetimes_spec [of p] init_lifetimes_spec [of q]
    by (cases b) (auto simp: parsed_ok_def src_agree_def)
  moreover have "mp_layer_count (init_lifetimes p) = mp_layer_count p"
    using assms(1) init_lifetimes_spec [of p] by (simp add: parsed_ok_def same_source_def)
  ultimately show ?thesis by (simp add: buf_agree_def)
qed

lemma consume_lifetimes_agree:
  assumes "plan_arrays p" "plan_arrays q" "src_agree p q" "buf_agree p q"
    and "mp_layer_count p \<le> SYN_LAYERED_MAX_LAYERS" "\<forall>i < mp_layer_count p. layer_ok act p i"
  shows "buf_agree (consume_lifetimes p) (consume_lifetimes q)"
proof -
  let ?f = "\<lambda>n. fold consume_step [0..<n] p" and ?g = "\<lambda>n. fold consume_step [0..<n] q"
  have "same_source p (?f n) \<and> same_source q (?g n) \<and> plan_arrays (?f n) \<and> plan_arrays (?g n) \<and>
      buf_agree (?f n) (?g n)" if "n \<le> mp_layer_count p" for n
    using that
  proof (induction n)
    case 0
    then show ?case using assms by simp
  next
    case (Suc n)
    then have IH: "same_source p (?f n)" "same_source q (?g n)" "plan_arrays (?f n)"
      "plan_arrays (?g n)" "buf_agree (?f n) (?g n)" by simp_all
    have sa: "src_agree (?f n) (?g n)" by (rule same_source_agree [OF IH(1,2) assms(3)])
    have lok: "layer_ok act (?f n) n" "layer_ok act (?g n) n" and n16: "n < SYN_LAYERED_MAX_LAYERS"
      and nn: "n < mp_layer_count (?f n)" "mp_layer_count (?f n) \<le> SYN_LAYERED_MAX_LAYERS"
      using assms(3,5,6) Suc.prems IH(1,2) by (auto simp: layer_ok_def same_source_def src_agree_def)
    note cp = consume_step_props [OF IH(3) lok(1) n16] and cq = consume_step_props [OF IH(4) lok(2) n16]
    show ?case
      using consume_step_agree [OF IH(3,4) sa IH(5) nn lok(1)] cp(1,2) cq(1,2)
        same_source_trans [OF IH(1) cp(1)] same_source_trans [OF IH(2) cq(1)] by simp
  qed
  from this [of "mp_layer_count p"] show ?thesis
    using assms(3) by (simp add: consume_lifetimes_def src_agree_def)
qed

lemma prepare_buffers_agree:
  assumes "parsed_ok act p" "parsed_ok act q" "src_agree p q"
  shows "buf_agree (prepare_buffers p) (prepare_buffers q)" "src_agree (prepare_buffers p) (prepare_buffers q)"
proof -
  let ?a = "init_lifetimes p" and ?b = "init_lifetimes q"
  have P: "plan_arrays p" "mp_layer_count p \<le> SYN_LAYERED_MAX_LAYERS" "\<forall>i < mp_layer_count p. layer_ok act p i"
    and Q: "plan_arrays q" "mp_layer_count q \<le> SYN_LAYERED_MAX_LAYERS"
    "\<forall>i < mp_layer_count q. layer_ok act q i"
    using assms by (auto simp: parsed_ok_def)
  note I = init_lifetimes_spec [OF P(1,2)] and J = init_lifetimes_spec [OF Q(1,2)]
  have lok: "\<forall>i < mp_layer_count ?a. layer_ok act ?a i" "mp_layer_count ?a = mp_layer_count p"
    "\<forall>i < mp_layer_count ?b. layer_ok act ?b i" "mp_layer_count ?b = mp_layer_count p"
    using P(3) Q(3) I J assms(3) by (auto simp: layer_ok_def same_source_def src_agree_def)
  have sa: "src_agree ?a ?b" using I J same_source_agree [OF _ _ assms(3)] by blast
  have "buf_agree (consume_lifetimes ?a) (consume_lifetimes ?b)"
    using I J sa init_lifetimes_agree [OF assms] lok P(2) by (intro consume_lifetimes_agree) auto
  moreover have "plan_arrays (consume_lifetimes ?a)" "plan_arrays (consume_lifetimes ?b)"
    "same_source ?a (consume_lifetimes ?a)" "same_source ?b (consume_lifetimes ?b)"
    using consume_lifetimes_spec [of ?a act] consume_lifetimes_spec [of ?b act] I J lok P(2) by auto
  ultimately show "buf_agree (prepare_buffers p) (prepare_buffers q)"
    using lok P(2)
    by (auto simp: prepare_buffers_def Let_def buf_agree_def same_source_def plan_arrays_def
        nth_list_update)
  show "src_agree (prepare_buffers p) (prepare_buffers q)"
    using prepare_buffers_spec(1) [OF assms(1)] prepare_buffers_spec(1) [OF assms(2)]
      same_source_agree [OF _ _ assms(3)] by blast
qed

lemma overlap_agree:
  assumes "buf_agree p q" "off_agree b p q" "b \<le> mp_layer_count p" "o' < b"
  shows "time_overlap p b o' = time_overlap q b o'" "addr_overlap p off b o' = addr_overlap q off b o'"
    "mp_buf_off p ! o' + mp_buf_size p ! o' = mp_buf_off q ! o' + mp_buf_size q ! o'"
  using assms by (auto simp: buf_agree_def off_agree_def time_overlap_def addr_overlap_def)

lemma ff_pass_agree:
  assumes "buf_agree p q" "off_agree b p q" "b \<le> mp_layer_count p" "set os \<subseteq> {..<b}"
  shows "ff_pass p b os st = ff_pass q b os st"
  using assms(4)
proof (induction os arbitrary: st)
  case (Cons o' os)
  then have "o' < b" by simp
  note ov = overlap_agree [OF assms(1-3) this]
  show ?case using Cons by (cases st) (simp add: ov)
qed simp

lemma ff_search_agree:
  assumes "buf_agree p q" "off_agree b p q" "b \<le> mp_layer_count p"
  shows "ff_search p b off = ff_search q b off"
  using assms
proof (induction p b off rule: ff_search.induct)
  case (1 p b off)
  obtain off' mv where e: "ff_pass p b [0..<b] (off, False) = (off', mv)" by fastforce
  have "ff_pass q b [0..<b] (off, False) = (off', mv)"
    using ff_pass_agree [OF 1(2-4), of "[0..<b]"] e by (simp add: atLeast0LessThan)
  then show ?case using 1(1) [OF e [symmetric]] 1(2-4) e
    by (simp add: ff_search.simps [of p b off] ff_search.simps [of q b off])
qed

lemma place_loop_agree:
  assumes "buf_agree p q" "src_agree p q" "off_agree k p q" "m = Suc (mp_layer_count p)" "k \<le> m"
    and "m \<le> length (mp_buf_off p)" "m \<le> length (mp_buf_off q)"
  shows "fst (place_loop pm [k..<m] peak p) = fst (place_loop pm [k..<m] peak q) \<and>
    (fst (place_loop pm [k..<m] peak p) = Ok () \<longrightarrow>
       plan_agree (snd (place_loop pm [k..<m] peak p)) (snd (place_loop pm [k..<m] peak q)))"
  using assms
proof (induction "m - k" arbitrary: k peak p q)
  case 0
  then show ?case by (auto simp: plan_agree_def src_agree_def buf_agree_def off_agree_def)
next
  case (Suc d)
  have km: "k < m" using Suc.hyps(2) by simp
  then have u: "[k..<m] = k # [Suc k..<m]" by (rule upt_conv_Cons)
  have kl: "k \<le> mp_layer_count p" using km Suc.prems(4) by simp
  have r: "ff_search p k 0 = ff_search q k 0"
    using ff_search_agree [OF Suc.prems(1,3) kl] .
  have sz: "mp_buf_size p ! k = mp_buf_size q ! k"
    using Suc.prems(1) kl by (simp add: buf_agree_def)
  let ?r = "ff_search q k 0 mod 2 ^ 16"
  let ?p = "p\<lparr>mp_buf_off := (mp_buf_off p)[k := ?r]\<rparr>" and ?q = "q\<lparr>mp_buf_off := (mp_buf_off q)[k := ?r]\<rparr>"
  have ag: "buf_agree ?p ?q" "src_agree ?p ?q" "off_agree (Suc k) ?p ?q"
    using Suc.prems km
    by (auto simp: buf_agree_def src_agree_def off_agree_def less_Suc_eq nth_list_update)
  have pr: "d = m - Suc k" "m = Suc (mp_layer_count ?p)" "Suc k \<le> m"
    "m \<le> length (mp_buf_off ?p)" "m \<le> length (mp_buf_off ?q)"
    using Suc.hyps(2) Suc.prems(4,6,7) km by auto
  show ?case using Suc.hyps(1) [OF pr(1) ag pr(2-5)]
    by (simp add: u Let_def r sz del: upt_Suc)
qed

lemma place_buffers_agree:
  assumes "parsed_ok act p" "parsed_ok act q" "src_agree p q"
  shows "fst (place_buffers pm p) = fst (place_buffers pm q) \<and>
    (fst (place_buffers pm p) = Ok () \<longrightarrow>
       plan_agree (snd (place_buffers pm p)) (snd (place_buffers pm q)))"
proof -
  have "length (mp_buf_off (prepare_buffers p)) = 17" "length (mp_buf_off (prepare_buffers q)) = 17"
    "mp_layer_count (prepare_buffers p) \<le> 16"
    "mp_layer_count (prepare_buffers q) = mp_layer_count (prepare_buffers p)"
    using prepare_buffers_spec(2,4) [OF assms(1)] prepare_buffers_spec(2) [OF assms(2)]
      prepare_buffers_agree(2) [OF assms]
    by (auto simp: plan_arrays_def parsed_ok_def src_agree_def)
  with place_loop_agree [OF prepare_buffers_agree [OF assms], of 0] show ?thesis
    by (simp add: place_buffers_def Let_def off_agree_def del: upt_Suc)
qed

text \<open>The planning of a session: parse, then place.\<close>

lemma plan_live_Ok:
  assumes "plan_live act pm blob us m sz st = (Ok (), st')" "plan_arrays (ly_plan st)" "pm < 2 ^ 16"
  shows "plan_ok act pm (ly_plan st')" "blob_parsed act (blob m) sz (ly_plan st')"
    "mp_model (ly_plan st') = m" "mp_model_size (ly_plan st') = sz"
    "st' = st\<lparr>ly_plan := ly_plan st', ly_plan_us := us\<rparr>"
proof -
  obtain p q where p: "parse_model act blob (Some m) sz (ly_plan st) = (Ok (), p)"
    and q: "place_buffers pm p = (Ok (), q)" and st': "st' = st\<lparr>ly_plan := q, ly_plan_us := us\<rparr>"
    using assms(1) by (auto simp: plan_live_def split: prod.splits sum.splits)
  note P = parse_model_Ok [OF p assms(2)]
  note Q = place_buffers_spec [OF P(1) q assms(3)]
  show "plan_ok act pm (ly_plan st')" using Q(1) st' by simp
  show "blob_parsed act (blob m) sz (ly_plan st')"
    using blob_parsed_same_source [OF Q(2)] P(2) st' by simp
  show "mp_model (ly_plan st') = m" "mp_model_size (ly_plan st') = sz"
    using P(3,4) Q(2) st' by (simp_all add: same_source_def)
  show "st' = st\<lparr>ly_plan := ly_plan st', ly_plan_us := us\<rparr>" using st' by simp
qed

lemma plan_live_again:
  assumes "plan_live act pm blob us m sz st = (Ok (), st1)" "plan_arrays (ly_plan st)"
    and "plan_arrays (ly_plan t)" "blob' m = blob m"
  shows "\<exists>t1. plan_live act pm blob' us' m sz t = (Ok (), t1) \<and> plan_agree (ly_plan st1) (ly_plan t1)"
proof -
  obtain p q where p: "parse_model act blob (Some m) sz (ly_plan st) = (Ok (), p)"
    and q: "place_buffers pm p = (Ok (), q)" and st1: "ly_plan st1 = q"
    using assms(1) by (auto simp: plan_live_def split: prod.splits sum.splits)
  have "parse_model act blob' (Some m) sz x = parse_model act blob (Some m) sz x" for x
    using assms(4) by (simp add: parse_model_def)
  then obtain p' where p': "parse_model act blob (Some m) sz (ly_plan t) = (Ok (), p')"
    "parse_model act blob' (Some m) sz (ly_plan t) = (Ok (), p')"
    using parse_model_status [of act blob "Some m" sz "ly_plan t" "ly_plan st"] p
    by (cases "parse_model act blob (Some m) sz (ly_plan t)") auto
  note P = parse_model_Ok [OF p assms(2)] and P' = parse_model_Ok [OF p'(1) assms(3)]
  have "src_agree p p'" using blob_parsed_agree [OF P(2) P'(2)] P(3,4) P'(3,4) by simp
  from place_buffers_agree [OF P(1) P'(1) this, of pm] q
  obtain q' where "place_buffers pm p' = (Ok (), q')" "plan_agree q q'"
    by (cases "place_buffers pm p'") auto
  then show ?thesis using p'(2) st1 by (simp add: plan_live_def)
qed

section \<open>Execution against a reference semantics\<close>

text \<open>
  The reference keeps every activation in a list of its own: entry 0 is the model input, entry
  \<open>Suc i\<close> the output of layer \<open>i\<close>. No storage is shared.
\<close>

definition ref_layer :: "nat \<Rightarrow> nat \<Rightarrow> u8 list \<Rightarrow> u8 list option \<Rightarrow> u8 list" where
  "ref_layer i out a b =
     map (\<lambda>j. layer_byte i j (a ! (j mod length a)) (a ! ((j * 7 + i) mod length a))
                (map_option (\<lambda>x. x ! (j mod length x)) b)) [0..<out]"

primrec ref_acts :: "model_plan \<Rightarrow> u8 list \<Rightarrow> nat \<Rightarrow> u8 list list" where
  "ref_acts p inp 0 = [inp]"
| "ref_acts p inp (Suc k) =
     (let acts = ref_acts p inp k in
      acts @ [ref_layer k (mp_out_size p ! k) (acts ! nat (mp_src_a p ! k))
                (if mp_src_b p ! k \<ge> 0 then Some (acts ! nat (mp_src_b p ! k)) else None)])"

lemma length_ref_acts [simp]: "length (ref_acts p inp k) = Suc k"
  by (induction k) (simp_all add: Let_def)

lemma ref_acts_nth_Suc: "b \<le> k \<Longrightarrow> ref_acts p inp (Suc k) ! b = ref_acts p inp k ! b"
  by (simp add: Let_def nth_append)

lemma length_ref_layer [simp]: "length (ref_layer i out a b) = out"
  by (simp add: ref_layer_def)

lemma length_ref_act:
  assumes "lifetimes_ok p" "length inp = mp_input_size p" "k \<le> mp_layer_count p" "b \<le> k"
  shows "length (ref_acts p inp k ! b) = mp_buf_size p ! b"
  using assms(3,4)
proof (induction k)
  case 0
  then show ?case using assms(1,2) by (simp add: lifetimes_ok_def Let_def)
next
  case (Suc k)
  then show ?case using assms(1)
    by (cases "b = Suc k") (auto simp: ref_acts_nth_Suc lifetimes_ok_def Let_def nth_append)
qed

lemma ref_acts_agree:
  "src_agree p q \<Longrightarrow> k \<le> mp_layer_count p \<Longrightarrow> ref_acts p inp k = ref_acts q inp k"
  by (induction k) (simp_all add: src_agree_def Let_def)

subsection \<open>One layer\<close>

lemma blit_snoc:
  "off + length xs < length m \<Longrightarrow> blit off (xs @ [x]) m = (blit off xs m)[off + length xs := x]"
  by (rule nth_equalityI) (auto simp: nth_blit nth_append nth_list_update)

lemma layer_write_append:
  "layer_write i a b off (xs @ ys) area = layer_write i a b off ys (layer_write i a b off xs area)"
  by (induction xs arbitrary: area; cases a) simp_all

lemma layer_write_blit:
  assumes "0 < a_size" "a_off + a_size \<le> length area" "disjoint_ranges a_off a_size off m"
    and "\<And>b_off b_size. b = Some (b_off, b_size) \<Longrightarrow> 0 < b_size \<and> b_off + b_size \<le> length area \<and>
           disjoint_ranges b_off b_size off m"
    and "off + m \<le> length area"
  shows "layer_write i (a_off, a_size) b off [0..<m] area =
    blit off (ref_layer i m (slice a_off a_size area)
      (map_option (\<lambda>(b_off, b_size). slice b_off b_size area) b)) area"
proof -
  let ?f = "\<lambda>j. layer_byte i j (area ! (a_off + j mod a_size)) (area ! (a_off + (j * 7 + i) mod a_size))
              (map_option (\<lambda>(b_off, b_size). area ! (b_off + j mod b_size)) b)"
  have "layer_write i (a_off, a_size) b off [0..<k] area = blit off (map ?f [0..<k]) area"
    if "k \<le> m" for k
    using that
  proof (induction k)
    case 0
    then show ?case by (simp add: blit_def)
  next
    case (Suc k)
    let ?w = "blit off (map ?f [0..<k]) area"
    have rd: "?w ! (x + y mod z) = area ! (x + y mod z)"
      if z: "0 < z" and zl: "x + z \<le> length area" "disjoint_ranges x z off m" for x y z
    proof -
      obtain r where r: "y mod z = r" "r < z" using mod_less_divisor [OF z, of y] by blast
      show ?thesis unfolding r(1) using r(2) zl Suc.prems assms(5)
        by (subst nth_blit) (auto simp: disjoint_ranges_def)
    qed
    have "map_option (\<lambda>(b_off, b_size). ?w ! (b_off + k mod b_size)) b =
        map_option (\<lambda>(b_off, b_size). area ! (b_off + k mod b_size)) b"
      using rd assms(4) by (cases b) auto
    then have "layer_write i (a_off, a_size) b off [k] ?w = ?w[off + k := ?f k]"
      using rd [OF assms(1-3)] by simp
    also have "\<dots> = blit off (map ?f [0..<k] @ [?f k]) area"
      using Suc.prems assms(5) by (subst blit_snoc) simp_all
    finally show ?case using Suc by (simp add: layer_write_append del: layer_write.simps)
  qed
  from this [of m] have "layer_write i (a_off, a_size) b off [0..<m] area =
      blit off (map ?f [0..<m]) area" by simp
  moreover have "map ?f [0..<m] = ref_layer i m (slice a_off a_size area)
      (map_option (\<lambda>(b_off, b_size). slice b_off b_size area) b)"
    using assms(1,2,4) by (cases b) (auto simp: ref_layer_def nth_slice)
  ultimately show ?thesis by simp
qed

text \<open>The buffers still needed at layer time \<open>k\<close> hold the reference activations.\<close>

definition area_inv :: "model_plan \<Rightarrow> u8 list \<Rightarrow> nat \<Rightarrow> u8 list \<Rightarrow> bool" where
  "area_inv p inp k area \<longleftrightarrow> (\<forall>b \<le> k. k \<le> mp_last p ! b \<longrightarrow>
     slice (mp_buf_off p ! b) (mp_buf_size p ! b) area = ref_acts p inp k ! b)"

lemma def_le: "lifetimes_ok p \<Longrightarrow> b \<le> k \<Longrightarrow> k \<le> mp_layer_count p \<Longrightarrow> mp_def p ! b \<le> k"
  by (cases b) (auto simp: lifetimes_ok_def Let_def)

lemma def_Suc: "lifetimes_ok p \<Longrightarrow> k < mp_layer_count p \<Longrightarrow> mp_def p ! Suc k = k"
  by (simp add: lifetimes_ok_def Let_def)

lemma buf_pos:
  assumes "parsed_ok act p" "lifetimes_ok p" "b \<le> mp_layer_count p"
  shows "0 < mp_buf_size p ! b"
  using assms by (cases b) (auto simp: parsed_ok_def lifetimes_ok_def Let_def layer_ok_def)

lemma area_inv_step:
  assumes ok: "plan_ok act pm p" and len: "length area = pm" and inp: "length inp = mp_input_size p"
    and inv: "area_inv p inp k area" and k: "k < mp_layer_count p"
  shows "area_inv p inp (Suc k)
      (layer_write k (buf_loc p (mp_src_a p ! k))
        (if mp_src_b p ! k \<ge> 0 then Some (buf_loc p (mp_src_b p ! k)) else None)
        (mp_buf_off p ! Suc k) [0..<mp_out_size p ! k] area)"
proof -
  have lo: "lifetimes_ok p" and po: "parsed_ok act p" and pl: "placed p (Suc (mp_layer_count p)) (mp_planned_peak p)"
    and pk: "mp_planned_peak p \<le> pm" using ok by (simp_all add: plan_ok_def)
  have lok: "layer_ok act p k" using po k by (simp add: parsed_ok_def)
  have osz: "mp_buf_size p ! Suc k = mp_out_size p ! k" and ldef: "mp_def p ! Suc k = k"
    and llast: "k \<le> mp_last p ! Suc k"
    and sa: "k \<le> mp_last p ! nat (mp_src_a p ! k)"
    and sb: "0 \<le> mp_src_b p ! k \<Longrightarrow> k \<le> mp_last p ! nat (mp_src_b p ! k)"
    using lo k by (simp_all add: lifetimes_ok_def Let_def)
  have fit: "mp_buf_off p ! b + mp_buf_size p ! b \<le> length area" if "b \<le> mp_layer_count p" for b
    using pl pk len that by (auto simp: placed_def less_Suc_eq_le intro: le_trans)
  have apart: "disjoint_ranges (mp_buf_off p ! b) (mp_buf_size p ! b) (mp_buf_off p ! Suc k) (mp_out_size p ! k)"
    if "b \<le> k" "k \<le> mp_last p ! b" for b
  proof -
    have "time_overlap p (Suc k) b"
      using that ldef llast def_le [OF lo that(1)] k by (simp add: time_overlap_def)
    then show ?thesis using pl that(1) k osz disjoint_ranges_sym by (auto simp: placed_def)
  qed
  let ?a = "nat (mp_src_a p ! k)" and ?b = "nat (mp_src_b p ! k)"
  let ?bo = "if mp_src_b p ! k \<ge> 0 then Some (buf_loc p (mp_src_b p ! k)) else None"
  have ab: "?a \<le> k" "0 \<le> mp_src_b p ! k \<Longrightarrow> ?b \<le> k" using lok by (auto simp: layer_ok_def)
  let ?new = "ref_layer k (mp_out_size p ! k) (ref_acts p inp k ! ?a)
      (if mp_src_b p ! k \<ge> 0 then Some (ref_acts p inp k ! ?b) else None)"
  have "layer_write k (buf_loc p (mp_src_a p ! k)) ?bo (mp_buf_off p ! Suc k) [0..<mp_out_size p ! k] area =
      blit (mp_buf_off p ! Suc k) (ref_layer k (mp_out_size p ! k)
        (slice (mp_buf_off p ! ?a) (mp_buf_size p ! ?a) area)
        (map_option (\<lambda>(bo, bs). slice bo bs area) ?bo)) area"
    unfolding buf_loc_def
    using buf_pos [OF po lo] ab k fit apart [OF ab(1) sa] apart [OF ab(2) sb] osz fit [of "Suc k"]
    by (intro layer_write_blit) (auto split: if_splits)
  also have "slice (mp_buf_off p ! ?a) (mp_buf_size p ! ?a) area = ref_acts p inp k ! ?a"
    using inv ab(1) sa by (simp add: area_inv_def)
  also have "map_option (\<lambda>(bo, bs). slice bo bs area) ?bo =
      (if mp_src_b p ! k \<ge> 0 then Some (ref_acts p inp k ! ?b) else None)"
    using inv ab(2) sb by (simp add: area_inv_def buf_loc_def)
  finally have w: "layer_write k (buf_loc p (mp_src_a p ! k)) ?bo (mp_buf_off p ! Suc k)
      [0..<mp_out_size p ! k] area = blit (mp_buf_off p ! Suc k) ?new area" .
  have fitS: "mp_buf_off p ! Suc k + length ?new \<le> length area" using fit [of "Suc k"] k osz by simp
  show ?thesis
    unfolding w area_inv_def
  proof (intro allI impI)
    fix b assume b: "b \<le> Suc k" "Suc k \<le> mp_last p ! b"
    show "slice (mp_buf_off p ! b) (mp_buf_size p ! b) (blit (mp_buf_off p ! Suc k) ?new area) =
        ref_acts p inp (Suc k) ! b"
    proof (cases "b = Suc k")
      case True
      then show ?thesis using fitS osz by (simp add: Let_def nth_append)
    next
      case False
      then have bk: "b \<le> k" "k \<le> mp_last p ! b" using b by simp_all
      have "slice (mp_buf_off p ! b) (mp_buf_size p ! b) (blit (mp_buf_off p ! Suc k) ?new area) =
          slice (mp_buf_off p ! b) (mp_buf_size p ! b) area"
        using fitS fit [of b] bk k apart [OF bk] by (intro slice_blit_other) auto
      then show ?thesis
        using inv bk ref_acts_nth_Suc [OF bk(1), of p inp] unfolding area_inv_def by metis
    qed
  qed
qed

subsection \<open>Sessions\<close>

definition layered_wf :: "nat \<Rightarrow> layered \<Rightarrow> bool" where
  "layered_wf pm st \<longleftrightarrow> plan_arrays (ly_plan st) \<and> length (ly_area st) = pm \<and>
     length (ly_slots st) = SYN_LAYERED_CTX_SLOTS \<and> (\<forall>c \<in> set (ly_slots st). length (lc_area c) = pm)"

text \<open>The plan is the one that planning this blob produces.\<close>

definition planned :: "nat \<Rightarrow> nat \<Rightarrow> (nat \<Rightarrow> u8 list) \<Rightarrow> model_plan \<Rightarrow> bool" where
  "planned act pm blob p \<longleftrightarrow> (\<exists>us st st'. plan_arrays (ly_plan st) \<and> ly_plan st' = p \<and>
     plan_live act pm blob us (mp_model p) (mp_model_size p) st = (Ok (), st'))"

definition session_inv :: "nat \<Rightarrow> nat \<Rightarrow> (nat \<Rightarrow> u8 list) \<Rightarrow> u8 list \<Rightarrow> layered \<Rightarrow> bool" where
  "session_inv act pm blob inp st \<longleftrightarrow> layered_wf pm st \<and> ly_active st \<and>
     planned act pm blob (ly_plan st) \<and> length inp = mp_input_size (ly_plan st) \<and>
     ly_next st \<le> mp_layer_count (ly_plan st) \<and>
     area_inv (ly_plan st) inp (ly_next st) (ly_area st)"

lemma planned_ok:
  assumes "planned act pm blob p" "pm < 2 ^ 16"
  shows "plan_ok act pm p" "blob_parsed act (blob (mp_model p)) (mp_model_size p) p"
  using assms plan_live_Ok unfolding planned_def by blast+

lemma plan_ok_arrays: "plan_ok act pm p \<Longrightarrow> plan_arrays p"
  by (simp add: plan_ok_def parsed_ok_def)

lemma begin_session:
  assumes wf: "layered_wf pm st" and pm: "pm < 2 ^ 16" and len: "length inp = in_size"
    and ok: "syn_npu_layered_begin act pm blob us (Some inp) in_size st = (Ok n, st')" and n: "0 < n"
  shows "session_inv act pm blob inp st'" "ly_next st' = 0" "n = mp_layer_count (ly_plan st')"
    "ly_slots st' = ly_slots st"
proof -
  obtain m sz st1 where r: "ly_resident st = Some (m, sz)" "plan_live act pm blob us m sz st = (Ok (), st1)"
    and e: "in_size = mp_input_size (ly_plan st1)" "n = mp_layer_count (ly_plan st1)"
    and st': "st' = st1\<lparr>ly_area := blit (mp_buf_off (ly_plan st1) ! 0) (take in_size inp) (ly_area st1),
                       ly_next := 0, ly_active := True\<rparr>"
    using ok n by (auto simp: syn_npu_layered_begin_def split: option.splits prod.splits sum.splits if_splits)
  have pa: "plan_arrays (ly_plan st)" using wf by (simp add: layered_wf_def)
  note P = plan_live_Ok [OF r(2) pa pm]
  have st1: "ly_area st1 = ly_area st" "ly_slots st1 = ly_slots st"
    by (subst P(5), simp)+
  have pl: "planned act pm blob (ly_plan st1)"
    unfolding planned_def using r(2) pa P(3,4) by blast
  have lo: "lifetimes_ok (ly_plan st1)" and fit: "mp_buf_off (ly_plan st1) ! 0 + mp_buf_size (ly_plan st1) ! 0 \<le> pm"
    using P(1) by (auto simp: plan_ok_def placed_def intro: le_trans)
  have z: "mp_buf_size (ly_plan st1) ! 0 = length inp"
    using lo len e by (simp add: lifetimes_ok_def Let_def)
  have al: "length (ly_area st) = pm" using wf by (simp add: layered_wf_def)
  have "area_inv (ly_plan st') inp 0 (ly_area st')"
    using fit z al len by (simp add: st' st1 area_inv_def)
  then show "session_inv act pm blob inp st'"
    using wf st1 plan_ok_arrays [OF P(1)] pl e len fit z al
    by (simp add: session_inv_def st' layered_wf_def)
  show "ly_next st' = 0" "n = mp_layer_count (ly_plan st')" "ly_slots st' = ly_slots st"
    using e st1 by (simp_all add: st')
qed

lemma length_layer_write [simp]: "length (layer_write i a b off js area) = length area"
  by (induction js arbitrary: area; cases a) simp_all

lemma step_session:
  assumes "session_inv act pm blob inp st" "pm < 2 ^ 16" "ly_next st < mp_layer_count (ly_plan st)"
  shows "fst (syn_npu_layered_step st) = Ok (mp_layer_count (ly_plan st) - Suc (ly_next st))"
    "session_inv act pm blob inp (snd (syn_npu_layered_step st))"
    "ly_plan (snd (syn_npu_layered_step st)) = ly_plan st"
    "ly_next (snd (syn_npu_layered_step st)) = Suc (ly_next st)"
proof -
  have ai: "area_inv (ly_plan st) inp (ly_next st) (ly_area st)" and al: "length (ly_area st) = pm"
    and pl: "planned act pm blob (ly_plan st)" and li: "length inp = mp_input_size (ly_plan st)"
    and act: "ly_active st" using assms(1) by (simp_all add: session_inv_def layered_wf_def)
  note A = area_inv_step [OF planned_ok(1) [OF pl assms(2)] al li ai assms(3)]
  show "fst (syn_npu_layered_step st) = Ok (mp_layer_count (ly_plan st) - Suc (ly_next st))"
    "ly_plan (snd (syn_npu_layered_step st)) = ly_plan st"
    "ly_next (snd (syn_npu_layered_step st)) = Suc (ly_next st)"
    using act assms(3) by (simp_all add: syn_npu_layered_step_def Let_def)
  show "session_inv act pm blob inp (snd (syn_npu_layered_step st))"
    using assms(1,3) A act
    by (simp add: syn_npu_layered_step_def Let_def session_inv_def layered_wf_def)
qed

text \<open>\<open>k\<close> calls of step, as the scheduler makes them at the layer boundaries.\<close>

primrec run_layers :: "nat \<Rightarrow> layered \<Rightarrow> layered" where
  "run_layers 0 st = st"
| "run_layers (Suc k) st = run_layers k (snd (syn_npu_layered_step st))"

lemma run_layers_session:
  "session_inv act pm blob inp st \<Longrightarrow> pm < 2 ^ 16 \<Longrightarrow>
   ly_next st + k \<le> mp_layer_count (ly_plan st) \<Longrightarrow>
   session_inv act pm blob inp (run_layers k st) \<and> ly_plan (run_layers k st) = ly_plan st \<and>
   ly_next (run_layers k st) = ly_next st + k"
proof (induction k arbitrary: st)
  case (Suc k)
  note s = step_session [OF Suc.prems(1,2)]
  show ?case using Suc.IH [OF s(2) Suc.prems(2)] s(3,4) Suc.prems(3) by simp
qed simp

text \<open>The reference output of a plan on an input.\<close>

definition ref_output :: "model_plan \<Rightarrow> u8 list \<Rightarrow> u8 list" where
  "ref_output p inp = ref_acts p inp (mp_layer_count p) ! mp_layer_count p"

lemma output_session:
  assumes "session_inv act pm blob inp st" "pm < 2 ^ 16" "ly_next st = mp_layer_count (ly_plan st)"
    and "mp_buf_size (ly_plan st) ! mp_layer_count (ly_plan st) \<le> cap"
  shows "syn_npu_layered_output True (Some cap) st =
    (Ok (ref_output (ly_plan st) inp), st\<lparr>ly_active := False\<rparr>)"
proof -
  let ?p = "ly_plan st"
  have act: "ly_active st" and ai: "area_inv ?p inp (mp_layer_count ?p) (ly_area st)"
    and pl: "planned act pm blob ?p" using assms(1,3) by (simp_all add: session_inv_def)
  have "mp_last ?p ! mp_layer_count ?p = mp_layer_count ?p"
    using planned_ok(1) [OF pl assms(2)] by (simp add: plan_ok_def lifetimes_ok_def Let_def)
  then have "slice (mp_buf_off ?p ! mp_layer_count ?p) (mp_buf_size ?p ! mp_layer_count ?p) (ly_area st) =
      ref_output ?p inp" using ai by (simp add: area_inv_def ref_output_def)
  then show ?thesis using act assms(3,4) by (simp add: syn_npu_layered_output_def Let_def)
qed

subsection \<open>Suspension\<close>

definition slot_inv :: "nat \<Rightarrow> nat \<Rightarrow> (nat \<Rightarrow> u8 list) \<Rightarrow> u8 list \<Rightarrow> model_plan \<Rightarrow> nat \<Rightarrow> layered_ctx \<Rightarrow> bool" where
  "slot_inv act pm blob inp p k c \<longleftrightarrow> lc_model c = Some (mp_model p) \<and> lc_model_size c = mp_model_size p \<and>
     lc_next_layer c = k \<and> lc_live_bytes c = mp_planned_peak p \<and> length (lc_area c) = pm \<and>
     planned act pm blob p \<and> length inp = mp_input_size p \<and> k \<le> mp_layer_count p \<and>
     area_inv p inp k (lc_area c)"

text \<open>The invariant needs only the first \<open>planned_peak\<close> bytes of the area.\<close>

lemma area_inv_transfer:
  assumes "plan_agree p q" "plan_ok act pm p" "area_inv p inp k area" "k \<le> mp_layer_count p"
    and "take (mp_planned_peak p) area = take (mp_planned_peak p) area'"
  shows "area_inv q inp k area'"
  unfolding area_inv_def
proof (intro allI impI)
  fix b assume b: "b \<le> k" "k \<le> mp_last q ! b"
  have e: "mp_buf_off q ! b = mp_buf_off p ! b" "mp_buf_size q ! b = mp_buf_size p ! b"
    "mp_last q ! b = mp_last p ! b"
    using assms(1,4) b(1) by (auto simp: plan_agree_def buf_agree_def off_agree_def)
  have fit: "mp_buf_off p ! b + mp_buf_size p ! b \<le> mp_planned_peak p"
    using assms(2,4) b(1) by (auto simp: plan_ok_def placed_def)
  have sl: "slice x n a = slice x n (take t a)" if "x + n \<le> t" for x n t and a :: "u8 list"
    using that by (simp add: slice_def drop_take min_def)
  have "slice (mp_buf_off p ! b) (mp_buf_size p ! b) area' = slice (mp_buf_off p ! b) (mp_buf_size p ! b) area"
    using sl [OF fit, of area] sl [OF fit, of area'] assms(5) by simp
  then show "slice (mp_buf_off q ! b) (mp_buf_size q ! b) area' = ref_acts q inp k ! b"
    using assms(1,3,4) b e ref_acts_agree [of p q k inp] by (simp add: area_inv_def plan_agree_def)
qed

lemma plan_agree_refl [simp]: "plan_agree p p"
  by (simp add: plan_agree_def src_agree_def buf_agree_def off_agree_def)

lemma take_blit0: "n \<le> length src \<Longrightarrow> take n src = take n (blit 0 (take n src) m)"
  by (simp add: blit_def)

lemma save_session:
  assumes inv: "session_inv act pm blob inp st" and pm: "pm < 2 ^ 16"
    and ok: "syn_npu_layered_save st = (Ok s, st')"
  shows "s < SYN_LAYERED_CTX_SLOTS \<and> \<not> ly_active st' \<and> layered_wf pm st' \<and>
    slot_inv act pm blob inp (ly_plan st) (ly_next st) (ly_slots st' ! s)"
proof -
  let ?p = "ly_plan st" let ?c = "ly_slots st ! s"
  have wf: "layered_wf pm st" and pl: "planned act pm blob ?p"
    and ai: "area_inv ?p inp (ly_next st) (ly_area st)" and le: "ly_next st \<le> mp_layer_count ?p"
    and li: "length inp = mp_input_size ?p" using inv by (simp_all add: session_inv_def)
  note P = planned_ok(1) [OF pl pm]
  have pk: "mp_planned_peak ?p \<le> pm" using P by (simp add: plan_ok_def)
  have f: "first_index (\<lambda>c. lc_model c = None) (ly_slots st) = Some s"
    and st': "st' = st\<lparr>ly_slots := (ly_slots st)[s := ?c\<lparr>lc_model := Some (mp_model ?p),
                     lc_model_size := mp_model_size ?p, lc_next_layer := ly_next st,
                     lc_live_bytes := mp_planned_peak ?p mod 2 ^ 16,
                     lc_area := blit 0 (take (mp_planned_peak ?p) (ly_area st)) (lc_area ?c)\<rparr>],
                   ly_active := False\<rparr>"
    using ok by (auto simp: syn_npu_layered_save_def Let_def split: option.splits if_splits)
  have s: "s < SYN_LAYERED_CTX_SLOTS" using first_index_SomeD [OF f] wf by (simp add: layered_wf_def)
  then have ca: "length (lc_area ?c) = pm" "length (ly_slots st) = SYN_LAYERED_CTX_SLOTS"
    "length (ly_area st) = pm" using wf by (simp_all add: layered_wf_def)
  let ?area = "blit 0 (take (mp_planned_peak ?p) (ly_area st)) (lc_area ?c)"
  have la: "length ?area = pm" using ca pk by simp
  have "take (mp_planned_peak ?p) (ly_area st) = take (mp_planned_peak ?p) ?area"
    using ca pk by (intro take_blit0) simp
  then have "area_inv ?p inp (ly_next st) ?area"
    using area_inv_transfer [OF plan_agree_refl P ai le] by blast
  moreover have "mp_planned_peak ?p mod 2 ^ 16 = mp_planned_peak ?p" using pk pm by simp
  ultimately have "slot_inv act pm blob inp ?p (ly_next st) (ly_slots st' ! s)"
    using s ca la pl li le by (simp add: st' slot_inv_def)
  moreover have "layered_wf pm st'"
  proof -
    have e: "ly_slots st' = (ly_slots st)[s := ly_slots st' ! s]" "length (lc_area (ly_slots st' ! s)) = pm"
      using s ca la by (simp_all add: st')
    have w: "\<forall>c \<in> set (ly_slots st). length (lc_area c) = pm" using wf by (simp add: layered_wf_def)
    have "\<forall>c \<in> set (ly_slots st'). length (lc_area c) = pm"
      by (subst e(1)) (rule ball_list_update [where P = "\<lambda>c. length (lc_area c) = pm", OF w e(2)])
    then show ?thesis using wf by (simp add: layered_wf_def st')
  qed
  ultimately show ?thesis using s by (simp add: st')
qed

lemma restore_session:
  assumes sl: "slot_inv act pm blob inp p k (ly_slots st ! s)" and wf: "layered_wf pm st"
    and pm: "pm < 2 ^ 16" and s: "s < SYN_LAYERED_CTX_SLOTS" and same: "blob' (mp_model p) = blob (mp_model p)"
  shows "\<exists>st'. syn_npu_layered_restore act pm blob' us (int s) st = (Ok (), st') \<and>
    session_inv act pm blob' inp st' \<and> plan_agree p (ly_plan st') \<and> ly_next st' = k \<and>
    lc_model (ly_slots st' ! s) = None"
proof -
  let ?c = "ly_slots st ! s"
  have c: "lc_model ?c = Some (mp_model p)" "lc_model_size ?c = mp_model_size p" "lc_next_layer ?c = k"
    "lc_live_bytes ?c = mp_planned_peak p" "length (lc_area ?c) = pm"
    and pl: "planned act pm blob p" and li: "length inp = mp_input_size p" and k: "k \<le> mp_layer_count p"
    and ai: "area_inv p inp k (lc_area ?c)" using sl by (simp_all add: slot_inv_def)
  note P = planned_ok(1) [OF pl pm]
  have pa: "plan_arrays (ly_plan st)" using wf by (simp add: layered_wf_def)
  obtain us0 st0 st0' where o: "plan_arrays (ly_plan st0)" "ly_plan st0' = p"
    "plan_live act pm blob us0 (mp_model p) (mp_model_size p) st0 = (Ok (), st0')"
    using pl by (auto simp: planned_def)
  obtain st1 where st1: "plan_live act pm blob' us (mp_model p) (mp_model_size p) st = (Ok (), st1)"
    and ag: "plan_agree p (ly_plan st1)"
    using plan_live_again [where blob' = blob', OF o(3,1) pa same] o(2) by auto
  note Q = plan_live_Ok [OF st1 pa pm]
  have fr: "ly_area st1 = ly_area st" "ly_slots st1 = ly_slots st" by (subst Q(5), simp)+
  let ?area = "blit 0 (take (mp_planned_peak p) (lc_area ?c)) (ly_area st1)"
  let ?st' = "st1\<lparr>ly_area := ?area, ly_next := k, ly_active := True,
                  ly_slots := (ly_slots st1)[s := ?c\<lparr>lc_model := None\<rparr>]\<rparr>"
  have r: "syn_npu_layered_restore act pm blob' us (int s) st = (Ok (), ?st')"
    using s c st1 by (simp add: syn_npu_layered_restore_def Let_def)
  have pk: "mp_planned_peak p \<le> pm" using P by (simp add: plan_ok_def)
  have al: "length (ly_area st) = pm" "length (ly_slots st) = SYN_LAYERED_CTX_SLOTS"
    using wf by (simp_all add: layered_wf_def)
  have "take (mp_planned_peak p) (lc_area ?c) = take (mp_planned_peak p) ?area"
    using c(5) pk by (intro take_blit0) simp
  then have ai': "area_inv (ly_plan st1) inp k ?area"
    using area_inv_transfer [OF ag P ai k] by blast
  have pl': "planned act pm blob' (ly_plan st1)"
    unfolding planned_def Q(3,4) using st1 pa by blast
  have "\<forall>c \<in> set (ly_slots st). length (lc_area c) = pm" using wf by (simp add: layered_wf_def)
  then have "\<forall>c \<in> set ((ly_slots st1)[s := ?c\<lparr>lc_model := None\<rparr>]). length (lc_area c) = pm"
    unfolding fr by (rule ball_list_update) (simp add: c)
  then have "layered_wf pm ?st'"
    using plan_ok_arrays [OF Q(1)] c(5) pk fr al by (simp add: layered_wf_def)
  then have "session_inv act pm blob' inp ?st'"
    using pl' ai' li k ag by (simp add: session_inv_def plan_agree_def src_agree_def)
  then show ?thesis using r ag s fr al by (intro exI [of _ ?st']) simp
qed

section \<open>Round trips of the blob builders\<close>

lemma get16_blit_same:
  "off + 2 \<le> length m \<Longrightarrow> k = off \<Longrightarrow> get16 (blit off (le16 w) m) k = w"
  by (simp add: get16_def nth_blit) (simp add: le16_def join16)

lemma get32_blit_same:
  "off + 4 \<le> length m \<Longrightarrow> k = off \<Longrightarrow> get32 (blit off (le32 w) m) k = w"
  by (simp add: get32_def nth_blit join32)

lemma get16_blit_other:
  "off + length src \<le> length m \<Longrightarrow> k + 2 \<le> length m \<Longrightarrow> disjoint_ranges k 2 off (length src) \<Longrightarrow>
   get16 (blit off src m) k = get16 m k"
  by (auto simp: get16_def nth_blit disjoint_ranges_def)

lemma get32_blit_other:
  "off + length src \<le> length m \<Longrightarrow> k + 4 \<le> length m \<Longrightarrow> disjoint_ranges k 4 off (length src) \<Longrightarrow>
   get32 (blit off src m) k = get32 m k"
  by (auto simp: get32_def nth_blit disjoint_ranges_def)

lemmas blit_get = get16_blit_same get32_blit_same get16_blit_other get32_blit_other disjoint_ranges_def

lemma make_layers_length:
  "make_layers act outs work is buf = (r, buf') \<Longrightarrow>
   \<forall>i \<in> set is. SYN_LAYERED_HDR_SIZE + i * 4 + 4 \<le> length buf \<Longrightarrow> length buf' = length buf"
  by (induction act outs work "is" buf rule: make_layers.induct)
     (auto simp: Let_def split: if_splits)

lemma make_layers_Ok:
  assumes "make_layers act outs work [0..<k] buf = (Ok (), buf')"
    and "SYN_LAYERED_HDR_SIZE + k * 4 \<le> length buf"
  shows "length buf' = length buf \<and> (\<forall>j. j + 2 \<le> SYN_LAYERED_HDR_SIZE \<longrightarrow> get16 buf' j = get16 buf j) \<and>
    get32 buf' 0 = get32 buf 0 \<and>
    (\<forall>i < k. get16 buf' (SYN_LAYERED_HDR_SIZE + i * 4) = outs ! i \<and> outs ! i \<noteq> 0 \<and>
       unat (outs ! i) \<le> act \<and>
       get16 buf' (SYN_LAYERED_HDR_SIZE + i * 4 + 2) = (case work of None \<Rightarrow> 0 | Some w \<Rightarrow> w ! i))"
  using assms
proof (induction k arbitrary: buf')
  case (Suc k)
  have app: "make_layers act outs work (xs @ ys) b =
      (case make_layers act outs work xs b of (Inl e, b') \<Rightarrow> (Inl e, b')
       | (Inr _, b') \<Rightarrow> make_layers act outs work ys b')" for xs ys b
    by (induction act outs work xs b rule: make_layers.induct) (auto simp: Let_def)
  obtain b1 where b1: "make_layers act outs work [0..<k] buf = (Ok (), b1)"
    and last': "make_layers act outs work [k] b1 = (Ok (), buf')"
    using Suc.prems(1) by (auto simp: app split: prod.splits sum.splits)
  let ?d = "SYN_LAYERED_HDR_SIZE + k * 4"
  note IH = Suc.IH [OF b1]
  let ?w = "case work of None \<Rightarrow> 0 | Some w \<Rightarrow> w ! k"
  have ok: "outs ! k \<noteq> 0" "unat (outs ! k) \<le> act"
    and buf': "buf' = blit (?d + 2) (le16 ?w) (blit ?d (le16 (outs ! k)) b1)"
    using last' by (auto simp: Let_def split: if_splits)
  have len: "length b1 = length buf" "?d + 4 \<le> length b1" using IH Suc.prems(2) by simp_all
  have old: "get16 buf' j = get16 b1 j" if "j + 2 \<le> ?d" for j
    using that len by (simp add: buf' blit_get)
  have old32: "get32 buf' 0 = get32 b1 0"
    using len by (simp add: buf' blit_get)
  have new: "get16 buf' ?d = outs ! k" "get16 buf' (?d + 2) = ?w"
    using len by (simp_all add: buf' blit_get)
  have "get16 buf' (SYN_LAYERED_HDR_SIZE + i * 4) = get16 b1 (SYN_LAYERED_HDR_SIZE + i * 4) \<and>
      get16 buf' (SYN_LAYERED_HDR_SIZE + i * 4 + 2) = get16 b1 (SYN_LAYERED_HDR_SIZE + i * 4 + 2)"
    if "i < k" for i using that by (intro conjI old) auto
  moreover have "length buf' = length buf" using len by (simp add: buf')
  ultimately show ?case
    using IH ok new old old32 Suc.prems(2) len by (auto simp: less_Suc_eq)
qed simp

lemma make_dag_layers_append:
  "make_dag_layers act ls (xs @ ys) b =
     (case make_dag_layers act ls xs b of (Inl e, b') \<Rightarrow> (Inl e, b')
      | (Inr _, b') \<Rightarrow> make_dag_layers act ls ys b')"
  by (induction act ls xs b rule: make_dag_layers.induct) (auto simp: Let_def)

definition dag_layer_ok :: "nat \<Rightarrow> dag_layer \<Rightarrow> nat \<Rightarrow> bool" where
  "dag_layer_ok act l i \<longleftrightarrow> dl_out_size l \<noteq> 0 \<and> unat (dl_out_size l) \<le> act \<and>
     is_ok (resolve_src (sint (dl_src_a l)) i False) \<and> is_ok (resolve_src (sint (dl_src_b l)) i True)"

lemma make_dag_layers_Ok:
  assumes "make_dag_layers act ls [0..<k] buf = (Ok (), buf')"
    and "SYN_LAYERED_HDR_SIZE + k * 8 \<le> length buf"
  shows "length buf' = length buf \<and> (\<forall>j. j + 2 \<le> SYN_LAYERED_HDR_SIZE \<longrightarrow> get16 buf' j = get16 buf j) \<and>
    get32 buf' 0 = get32 buf 0 \<and>
    (\<forall>i < k. let d = SYN_LAYERED_HDR_SIZE + i * 8; l = ls ! i in
       get16 buf' d = dl_out_size l \<and> get16 buf' (d + 2) = dl_work l \<and>
       get16 buf' (d + 4) = dl_src_a l \<and> get16 buf' (d + 6) = dl_src_b l \<and> dag_layer_ok act l i)"
  using assms
proof (induction k arbitrary: buf')
  case (Suc k)
  obtain b1 where b1: "make_dag_layers act ls [0..<k] buf = (Ok (), b1)"
    and last': "make_dag_layers act ls [k] b1 = (Ok (), buf')"
    using Suc.prems(1) by (auto simp: make_dag_layers_append split: prod.splits sum.splits)
  let ?d = "SYN_LAYERED_HDR_SIZE + k * 8" let ?l = "ls ! k"
  note IH = Suc.IH [OF b1]
  have ok: "dag_layer_ok act ?l k"
    and buf': "buf' = blit (?d + 6) (le16 (dl_src_b ?l)) (blit (?d + 4) (le16 (dl_src_a ?l))
        (blit (?d + 2) (le16 (dl_work ?l)) (blit ?d (le16 (dl_out_size ?l)) b1)))"
    using last' by (auto simp: Let_def dag_layer_ok_def split: if_splits)
  have len: "length b1 = length buf" "?d + 8 \<le> length b1" using IH Suc.prems(2) by simp_all
  have old: "get16 buf' j = get16 b1 j" if "j + 2 \<le> ?d" for j
    using that len by (simp add: buf' blit_get)
  have old32: "get32 buf' 0 = get32 b1 0"
    using len by (simp add: buf' blit_get)
  have new: "get16 buf' ?d = dl_out_size ?l" "get16 buf' (?d + 2) = dl_work ?l"
    "get16 buf' (?d + 4) = dl_src_a ?l" "get16 buf' (?d + 6) = dl_src_b ?l"
    using len by (simp_all add: buf' blit_get)
  have keep: "get16 buf' (SYN_LAYERED_HDR_SIZE + i * 8 + x) = get16 b1 (SYN_LAYERED_HDR_SIZE + i * 8 + x)"
    if "i < k" "x \<le> 6" for i x using that by (intro old) auto
  have keep0: "get16 buf' (SYN_LAYERED_HDR_SIZE + i * 8) = get16 b1 (SYN_LAYERED_HDR_SIZE + i * 8)"
    if "i < k" for i using that by (intro old) auto
  have lay: "let d = SYN_LAYERED_HDR_SIZE + i * 8; l = ls ! i in
       get16 buf' d = dl_out_size l \<and> get16 buf' (d + 2) = dl_work l \<and>
       get16 buf' (d + 4) = dl_src_a l \<and> get16 buf' (d + 6) = dl_src_b l \<and> dag_layer_ok act l i"
    if i: "i < Suc k" for i
  proof (cases "i = k")
    case True
    then show ?thesis using new ok by (simp add: Let_def)
  next
    case False
    then have ik: "i < k" using i by simp
    then show ?thesis
      using IH Suc.prems(2) keep0 [OF ik] keep [OF ik, of 2] keep [OF ik, of 4] keep [OF ik, of 6]
      by (simp add: Let_def)
  qed
  have "length buf' = length buf" using len by (simp add: buf')
  moreover have "\<forall>j. j + 2 \<le> SYN_LAYERED_HDR_SIZE \<longrightarrow> get16 buf' j = get16 buf j"
    using IH Suc.prems(2) old by simp
  ultimately show ?case using IH Suc.prems(2) old32 lay by simp
qed simp

text \<open>Parsing a buffer whose header and descriptors are well formed succeeds.\<close>

lemma parse_layers_complete:
  assumes "\<forall>i \<in> set is. 0 < unat (get16 data (SYN_LAYERED_HDR_SIZE + i * desc_bytes dag)) \<and>
      unat (get16 data (SYN_LAYERED_HDR_SIZE + i * desc_bytes dag)) \<le> act \<and>
      is_ok (fst (layer_srcs data dag i)) \<and> is_ok (snd (layer_srcs data dag i))"
  shows "fst (parse_layers act data dag is p) = Ok ()"
  using assms
proof (induction "is" arbitrary: p)
  case (Cons i "is")
  then obtain a b where "layer_srcs data dag i = (Ok a, Ok b)"
    by (cases "layer_srcs data dag i") (auto simp: is_ok_iff)
  then show ?case using Cons by (simp add: Let_def)
qed simp

lemma write_header_get:
  assumes "8 \<le> length buf"
  shows "get32 (write_header mg n inp buf) 0 = mg" "get16 (write_header mg n inp buf) 4 = n"
    "get16 (write_header mg n inp buf) 6 = inp" "length (write_header mg n inp buf) = length buf"
  using assms by (simp_all add: write_header_def blit_get)

section \<open>Properties\<close>

text \<open>
  C14: whenever parsing and placing a layered blob succeed, two buffers whose lifetimes meet
  never share a byte of the plan area, every buffer lies below the planned peak, the peak fits
  the plan area and is never worse than the naive all-live sum. The placement search terminates
  on every plan, since \<open>ff_search\<close> is a total function.
\<close>

theorem plan_never_aliases:
  assumes "plan_arrays p0" "plan_max < 2 ^ 16"
    and "parse_model act_max blob (Some m) sz p0 = (Ok (), p)"
    and "place_buffers plan_max p = (Ok (), q)"
    and "b \<le> mp_layer_count q" "o' < b" "mp_def q ! b \<le> mp_last q ! o'" "mp_def q ! o' \<le> mp_last q ! b"
  shows "disjoint_ranges (mp_buf_off q ! b) (mp_buf_size q ! b) (mp_buf_off q ! o') (mp_buf_size q ! o') \<and>
    mp_buf_off q ! b + mp_buf_size q ! b \<le> mp_planned_peak q \<and> mp_planned_peak q \<le> plan_max \<and>
    mp_planned_peak q \<le> mp_naive_peak q"
proof -
  have "plan_ok act_max plan_max q"
    using place_buffers_spec(1) [OF parse_model_Ok(1) [OF assms(3,1)] assms(4,2)] .
  then show ?thesis using assms(5-8) by (simp add: plan_ok_def placed_def time_overlap_def)
qed

definition demo_blob :: "u8 list" where
  "demo_blob = [0x53, 0x59, 0x4E, 0x4C, 1, 0, 2, 0, 3, 0, 0, 0]"

definition demo_plan :: model_plan where
  "demo_plan = \<lparr>mp_model = 0, mp_model_size = 0, mp_layer_count = 0, mp_input_size = 0,
     mp_out_size = replicate 16 0, mp_work = replicate 16 0, mp_src_a = replicate 16 0,
     mp_src_b = replicate 16 0, mp_buf_size = replicate 17 0, mp_buf_off = replicate 17 0,
     mp_def = replicate 17 0, mp_last = replicate 17 0, mp_planned_peak = 0, mp_naive_peak = 0\<rparr>"

lemma demo_plan_arrays: "plan_arrays demo_plan"
  by (simp add: plan_arrays_def demo_plan_def)

lemma demo_get: "get32 demo_blob 0 = 0x4C4E5953" "get16 demo_blob 4 = 1" "get16 demo_blob 6 = 2"
  "get16 demo_blob 8 = 3" "get16 demo_blob 10 = 0"
  by (simp_all add: get32_def get16_def demo_blob_def)

lemma upt_01: "[0..<Suc 0] = [0]" "[0..<2] = [0, Suc 0]" "[0..<3] = [0, Suc 0, 2]"
  by (simp_all add: eval_nat_numeral)

lemma rep16: "replicate 16 x = x # replicate 15 x" "replicate 17 x = x # x # replicate 15 x"
  by (simp_all add: numeral_eq_Suc)

definition demo_parsed :: model_plan where
  "demo_parsed = demo_plan\<lparr>mp_model := 0,
     mp_model_size := 12, mp_layer_count := 1, mp_input_size := 2, mp_out_size := 3 # replicate 15 0,
     mp_work := 0 # replicate 15 0, mp_src_a := 0 # replicate 15 0, mp_src_b := - 1 # replicate 15 0\<rparr>"

definition demo_placed :: model_plan where
  "demo_placed = demo_parsed\<lparr>mp_buf_size := 2 # 3 # replicate 15 0, mp_buf_off := 0 # 2 # replicate 15 0,
     mp_def := 0 # 0 # replicate 15 0, mp_last := 0 # 1 # replicate 15 0, mp_planned_peak := 5,
     mp_naive_peak := 5\<rparr>"

lemma demo_parsed_eq:
  "parse_model 64 (\<lambda>_. demo_blob) (Some 0) 12 demo_plan = (Ok (), demo_parsed)"
  by (simp add: parse_model_def demo_get upt_01 layer_srcs_def desc_bytes_def resolve_src_def Let_def
      demo_plan_def demo_parsed_def rep16)

lemma demo_prepared: "prepare_buffers demo_parsed = demo_placed\<lparr>mp_buf_off := replicate 17 0,
    mp_planned_peak := 0\<rparr>"
  by (simp add: prepare_buffers_def consume_lifetimes_def init_lifetimes_def init_step_def upt_01
      consume_step_def extend_last_def demo_placed_def demo_parsed_def demo_plan_def rep16 Let_def
      replicate_num)

lemma demo_placed_eq: "place_buffers 128 demo_parsed = (Ok (), demo_placed)"
  unfolding place_buffers_def Let_def demo_prepared
  by (simp add: ff_search.simps upt_01 time_overlap_def addr_overlap_def demo_placed_def
      demo_parsed_def demo_plan_def rep16)

theorem plan_never_aliases_witness:
  "disjoint_ranges (mp_buf_off demo_placed ! 1) (mp_buf_size demo_placed ! 1)
     (mp_buf_off demo_placed ! 0) (mp_buf_size demo_placed ! 0) \<and> mp_planned_peak demo_placed \<le> 128"
  using plan_never_aliases [OF demo_plan_arrays _ demo_parsed_eq demo_placed_eq, of 1 0]
  by (simp add: demo_placed_def demo_parsed_def)

text \<open>
  C4: a session that begins on a layered model and runs all its layers outputs exactly the
  activation the reference semantics computes with unshared storage, for the layers encoded in
  the resident blob.
\<close>

theorem layered_run_computes_reference:
  assumes "layered_wf plan_max st" "plan_max < 2 ^ 16" "length inp = in_size" "0 < n"
    and "syn_npu_layered_begin act_max plan_max blob us (Some inp) in_size st = (Ok n, st1)"
  shows "n = mp_layer_count (ly_plan st1) \<and>
    blob_parsed act_max (blob (mp_model (ly_plan st1))) (mp_model_size (ly_plan st1)) (ly_plan st1) \<and>
    fst (syn_npu_layered_output True (Some (mp_buf_size (ly_plan st1) ! n)) (run_layers n st1)) =
      Ok (ref_output (ly_plan st1) inp)"
proof -
  note B = begin_session [OF assms(1,2,3,5,4)]
  have R: "session_inv act_max plan_max blob inp (run_layers n st1)"
    "ly_plan (run_layers n st1) = ly_plan st1" "ly_next (run_layers n st1) = n"
    using run_layers_session [OF B(1) assms(2), of n] B(2,3) by simp_all
  have "planned act_max plan_max blob (ly_plan st1)" using B(1) by (simp add: session_inv_def)
  from planned_ok(2) [OF this assms(2)] show ?thesis
    using output_session [OF R(1) assms(2)] R(2,3) B(3) by simp
qed

definition demo_layered :: layered where
  "demo_layered = \<lparr>ly_resident = Some (0, 12), ly_plan = demo_plan, ly_area = replicate 128 0,
     ly_next = 0, ly_active = False, ly_plan_us = 0,
     ly_slots = replicate 2 \<lparr>lc_model = None, lc_model_size = 0, lc_next_layer = 0,
       lc_live_bytes = 0, lc_area = replicate 128 0\<rparr>\<rparr>"

lemma demo_layered_wf: "layered_wf 128 demo_layered"
  by (simp add: layered_wf_def demo_layered_def demo_plan_arrays)

definition demo_begun :: layered where
  "demo_begun = snd (syn_npu_layered_begin 64 128 (\<lambda>_. demo_blob) 0 (Some [5, 7]) 2 demo_layered)"

lemma demo_begin: "syn_npu_layered_begin 64 128 (\<lambda>_. demo_blob) 0 (Some [5, 7]) 2 demo_layered = (Ok 1, demo_begun)"
  and demo_begun_plan: "ly_plan demo_begun = demo_placed"
  by (simp_all add: demo_begun_def syn_npu_layered_begin_def plan_live_def demo_layered_def
      demo_parsed_eq demo_placed_eq)
     (simp_all add: demo_placed_def demo_parsed_def)

lemma demo_final_size: "mp_buf_size demo_placed ! Suc 0 = 3"
  and demo_count: "mp_layer_count demo_placed = Suc 0"
  by (simp_all add: demo_placed_def demo_parsed_def)

theorem layered_run_computes_reference_witness:
  "fst (syn_npu_layered_output True (Some 3) (run_layers 1 demo_begun)) = Ok (ref_output demo_placed [5, 7])"
  using layered_run_computes_reference [OF demo_layered_wf _ _ _ demo_begin]
  by (simp add: demo_begun_plan demo_final_size demo_count)

text \<open>
  A session suspended after any number of layers, whose slot is then left alone whatever
  other sessions run, resumes and completes with exactly the output of an uninterrupted run.
\<close>

theorem suspended_session_resumes_exactly:
  assumes "layered_wf plan_max st" "plan_max < 2 ^ 16" "length inp = in_size" "0 < n"
    and "syn_npu_layered_begin act_max plan_max blob us (Some inp) in_size st = (Ok n, st1)"
    and "k \<le> n" "syn_npu_layered_save (run_layers k st1) = (Ok s, st2)"
    and "layered_wf plan_max st3" "ly_slots st3 ! s = ly_slots st2 ! s"
    and "blob' (mp_model (ly_plan st1)) = blob (mp_model (ly_plan st1))"
  shows "(case syn_npu_layered_restore act_max plan_max blob' us' (int s) st3 of
      (res, st4) \<Rightarrow> res = Ok () \<and>
        fst (syn_npu_layered_output True (Some (mp_buf_size (ly_plan st1) ! n)) (run_layers (n - k) st4)) =
          fst (syn_npu_layered_output True (Some (mp_buf_size (ly_plan st1) ! n)) (run_layers n st1)))"
proof -
  note B = begin_session [OF assms(1,2,3,5,4)]
  have R: "session_inv act_max plan_max blob inp (run_layers k st1)"
    "ly_plan (run_layers k st1) = ly_plan st1" "ly_next (run_layers k st1) = k"
    using run_layers_session [OF B(1) assms(2), of k] B(2,3) assms(6) by simp_all
  have sv: "s < 2" "slot_inv act_max plan_max blob inp (ly_plan st1) k (ly_slots st3 ! s)"
    using save_session [OF R(1) assms(2,7)] R(2,3) assms(9) by simp_all
  obtain st4 where st4: "syn_npu_layered_restore act_max plan_max blob' us' (int s) st3 = (Ok (), st4)"
    "session_inv act_max plan_max blob' inp st4" "plan_agree (ly_plan st1) (ly_plan st4)" "ly_next st4 = k"
    using restore_session [where blob' = blob', OF sv(2) assms(8,2) sv(1) assms(10)] by blast
  have ag: "mp_layer_count (ly_plan st4) = n" "mp_buf_size (ly_plan st4) ! n = mp_buf_size (ly_plan st1) ! n"
    "ref_output (ly_plan st4) inp = ref_output (ly_plan st1) inp"
    using st4(3) B(3) ref_acts_agree [of "ly_plan st1" "ly_plan st4" n inp]
    by (simp_all add: plan_agree_def src_agree_def buf_agree_def ref_output_def)
  have F: "session_inv act_max plan_max blob' inp (run_layers (n - k) st4)"
    "ly_plan (run_layers (n - k) st4) = ly_plan st4" "ly_next (run_layers (n - k) st4) = n"
    using run_layers_session [OF st4(2) assms(2), of "n - k"] st4(4) ag(1) assms(6) by simp_all
  have "fst (syn_npu_layered_output True (Some (mp_buf_size (ly_plan st1) ! n)) (run_layers n st1)) =
      Ok (ref_output (ly_plan st1) inp)"
    using output_session [of act_max plan_max blob inp "run_layers n st1"] assms(2) B(1,2,3)
      run_layers_session [OF B(1) assms(2), of n] by simp
  then show ?thesis
    using output_session [OF F(1) assms(2)] F(2,3) ag st4(1) by simp
qed

definition demo_saved :: layered where
  "demo_saved = snd (syn_npu_layered_save (run_layers 0 demo_begun))"

lemma demo_save: "syn_npu_layered_save (run_layers 0 demo_begun) = (Ok 0, demo_saved)"
proof -
  have "ly_active demo_begun" "ly_slots demo_begun = ly_slots demo_layered"
    using begin_session [OF demo_layered_wf _ _ demo_begin] by (simp_all add: session_inv_def)
  then show ?thesis
    by (simp add: demo_saved_def syn_npu_layered_save_def demo_layered_def replicate_num Let_def)
qed

lemma demo_saved_wf: "layered_wf 128 demo_saved"
proof -
  have "session_inv 64 128 (\<lambda>_. demo_blob) [5, 7] (run_layers 0 demo_begun)"
    using begin_session [OF demo_layered_wf _ _ demo_begin] by simp
  from save_session [OF this _ demo_save] show ?thesis by simp
qed

theorem suspended_session_resumes_exactly_witness:
  "fst (syn_npu_layered_restore 64 128 (\<lambda>_. demo_blob) 0 0 demo_saved) = Ok ()"
  using suspended_session_resumes_exactly [where us' = 0, OF demo_layered_wf _ _ _ demo_begin _ demo_save demo_saved_wf refl refl]
  by (simp split: prod.splits)

text \<open>
  A chain blob built by \<open>syn_npu_layered_make_model\<close> parses back to exactly the sizes and
  work factors it was built from, each layer reading the previous output.
\<close>

theorem make_model_parse_roundtrip:
  assumes "syn_npu_layered_make_model act (Some buf) buf_size inp n (Some outs) work = (Ok tot, Some buf')"
    and "buf_size \<le> length buf" "plan_arrays p0"
  shows "(case parse_model act (\<lambda>_. buf') (Some m) tot p0 of (res, p) \<Rightarrow> res = Ok () \<and>
     mp_layer_count p = unat n \<and> mp_input_size p = unat inp \<and>
     (\<forall>i < unat n. mp_out_size p ! i = unat (outs ! i) \<and>
        mp_work p ! i = (case work of None \<Rightarrow> 0 | Some w \<Rightarrow> unat (w ! i)) \<and>
        mp_src_a p ! i = int i \<and> mp_src_b p ! i = - 1))"
proof -
  let ?h = "write_header SYN_LAYERED_MAGIC n inp buf"
  have g: "n \<noteq> 0" "unat n \<le> 16" "inp \<noteq> 0" "unat inp \<le> act" "8 + unat n * 4 \<le> buf_size"
    and tot: "tot = 8 + unat n * 4" and mk: "make_layers act outs work [0..<unat n] ?h = (Ok (), buf')"
    using assms(1) by (auto simp: syn_npu_layered_make_model_def Let_def not_less
        split: if_splits sum.splits prod.splits)
  have l8: "8 \<le> length buf" "8 + unat n * 4 \<le> length ?h"
    using g assms(2) by (simp_all add: write_header_get(4))
  note H = write_header_get [OF l8(1), of SYN_LAYERED_MAGIC n inp]
  note M = make_layers_Ok [OF mk l8(2)]
  have hdr: "get32 buf' 0 = SYN_LAYERED_MAGIC" "get16 buf' 4 = n" "get16 buf' 6 = inp"
    using M H by simp_all
  have "fst (parse_layers act buf' False [0..<unat n] q) = Ok ()" for q
    using M by (intro parse_layers_complete)
      (auto simp: desc_bytes_def layer_srcs_def resolve_src_def unat_gt_0)
  then have "fst (parse_model act (\<lambda>_. buf') (Some m) tot p0) = Ok ()"
    using g tot by (simp add: parse_model_def Let_def hdr desc_bytes_def unat_gt_0)
  then obtain p where p: "parse_model act (\<lambda>_. buf') (Some m) tot p0 = (Ok (), p)"
    by (cases "parse_model act (\<lambda>_. buf') (Some m) tot p0") auto
  have B: "blob_parsed act buf' tot p" using parse_model_Ok(2) [OF p assms(3)] by simp
  then have "layer_parsed act buf' False p i" if "i < unat n" for i
    using that by (simp add: blob_parsed_def hdr Let_def)
  then have "mp_out_size p ! i = unat (outs ! i) \<and>
        mp_work p ! i = (case work of None \<Rightarrow> 0 | Some w \<Rightarrow> unat (w ! i)) \<and>
        mp_src_a p ! i = int i \<and> mp_src_b p ! i = - 1" if "i < unat n" for i
    using that M by (auto simp: layer_parsed_def Let_def desc_bytes_def layer_srcs_def resolve_src_def
        split: option.splits)
  then show ?thesis using p B by (simp add: blob_parsed_def hdr Let_def)
qed

theorem make_model_parse_roundtrip_witness:
  "fst (parse_model 64 (\<lambda>_. the (snd (syn_npu_layered_make_model 64 (Some (replicate 16 0)) 16 2 1 (Some [3]) None)))
     (Some 0) 12 demo_plan) = Ok ()"
proof -
  obtain buf' where "syn_npu_layered_make_model 64 (Some (replicate 16 0)) 16 2 1 (Some [3]) None =
      (Ok 12, Some buf')"
    by (simp add: syn_npu_layered_make_model_def upt_01 Let_def)
  from make_model_parse_roundtrip [OF this _ demo_plan_arrays, of 0] this show ?thesis
    by (simp split: prod.splits)
qed

text \<open>
  A DAG blob built by \<open>syn_npu_layered_make_dag\<close> parses back to the sizes and work factors
  it was built from, with every source reference resolved to its buffer index.
\<close>

theorem make_dag_parse_roundtrip:
  assumes "syn_npu_layered_make_dag act (Some buf) buf_size inp n (Some ls) = (Ok tot, Some buf')"
    and "buf_size \<le> length buf" "plan_arrays p0"
  shows "(case parse_model act (\<lambda>_. buf') (Some m) tot p0 of (res, p) \<Rightarrow> res = Ok () \<and>
     mp_layer_count p = unat n \<and> mp_input_size p = unat inp \<and>
     (\<forall>i < unat n. mp_out_size p ! i = unat (dl_out_size (ls ! i)) \<and>
        mp_work p ! i = unat (dl_work (ls ! i)) \<and>
        Ok (mp_src_a p ! i) = resolve_src (sint (dl_src_a (ls ! i))) i False \<and>
        Ok (mp_src_b p ! i) = resolve_src (sint (dl_src_b (ls ! i))) i True))"
proof -
  let ?h = "write_header SYN_LAYERED_DAG_MAGIC n inp buf"
  have g: "n \<noteq> 0" "unat n \<le> 16" "inp \<noteq> 0" "unat inp \<le> act" "8 + unat n * 8 \<le> buf_size"
    and tot: "tot = 8 + unat n * 8" and mk: "make_dag_layers act ls [0..<unat n] ?h = (Ok (), buf')"
    using assms(1) by (auto simp: syn_npu_layered_make_dag_def Let_def not_less
        split: if_splits sum.splits prod.splits)
  have l8: "8 \<le> length buf" "8 + unat n * 8 \<le> length ?h"
    using g assms(2) by (simp_all add: write_header_get(4))
  note H = write_header_get [OF l8(1), of SYN_LAYERED_DAG_MAGIC n inp]
  note M = make_dag_layers_Ok [OF mk l8(2)]
  have hdr: "get32 buf' 0 = SYN_LAYERED_DAG_MAGIC" "get16 buf' 4 = n" "get16 buf' 6 = inp"
    using M H by simp_all
  have lay: "get16 buf' (8 + i * 8) = dl_out_size (ls ! i)" "get16 buf' (8 + i * 8 + 2) = dl_work (ls ! i)"
    "get16 buf' (8 + i * 8 + 4) = dl_src_a (ls ! i)" "get16 buf' (8 + i * 8 + 6) = dl_src_b (ls ! i)"
    "dag_layer_ok act (ls ! i) i" if "i < unat n" for i
    using M that by (auto simp: Let_def)
  have srcs: "layer_srcs buf' True i = (resolve_src (sint (dl_src_a (ls ! i))) i False,
      resolve_src (sint (dl_src_b (ls ! i))) i True)" if "i < unat n" for i
    unfolding layer_srcs_def Let_def desc_bytes_def using lay(3,4) [OF that] by simp
  have "fst (parse_layers act buf' True [0..<unat n] q) = Ok ()" for q
    using lay(1,5) srcs by (intro parse_layers_complete) (auto simp: desc_bytes_def dag_layer_ok_def unat_gt_0)
  then have "fst (parse_model act (\<lambda>_. buf') (Some m) tot p0) = Ok ()"
    using g tot by (simp add: parse_model_def Let_def hdr desc_bytes_def unat_gt_0)
  then obtain p where p: "parse_model act (\<lambda>_. buf') (Some m) tot p0 = (Ok (), p)"
    by (cases "parse_model act (\<lambda>_. buf') (Some m) tot p0") auto
  have B: "blob_parsed act buf' tot p" using parse_model_Ok(2) [OF p assms(3)] by simp
  then have lp: "layer_parsed act buf' True p i" if "i < unat n" for i
    using that by (simp add: blob_parsed_def hdr Let_def)
  have "mp_out_size p ! i = unat (dl_out_size (ls ! i)) \<and> mp_work p ! i = unat (dl_work (ls ! i)) \<and>
      Ok (mp_src_a p ! i) = resolve_src (sint (dl_src_a (ls ! i))) i False \<and>
      Ok (mp_src_b p ! i) = resolve_src (sint (dl_src_b (ls ! i))) i True" if i: "i < unat n" for i
    using lp [OF i] srcs [OF i] lay(1,2) [OF i] by (simp add: layer_parsed_def Let_def desc_bytes_def)
  then show ?thesis using p B by (simp add: blob_parsed_def hdr Let_def)
qed

theorem make_dag_parse_roundtrip_witness:
  "fst (parse_model 64 (\<lambda>_. the (snd (syn_npu_layered_make_dag 64 (Some (replicate 16 0)) 16 2 1
     (Some [\<lparr>dl_out_size = 3, dl_work = 1, dl_src_a = - 2, dl_src_b = - 3\<rparr>])))) (Some 0) 16 demo_plan) = Ok ()"
proof -
  obtain buf' where "syn_npu_layered_make_dag 64 (Some (replicate 16 0)) 16 2 1
      (Some [\<lparr>dl_out_size = 3, dl_work = 1, dl_src_a = - 2, dl_src_b = - 3\<rparr>]) = (Ok 16, Some buf')"
    by (simp add: syn_npu_layered_make_dag_def upt_01 Let_def resolve_src_def)
  from make_dag_parse_roundtrip [OF this _ demo_plan_arrays, of 0] this show ?thesis
    by (simp split: prod.splits)
qed

end
