(* ===== verification/Npu_Stub.thy ===== *)
theory Npu_Stub
  imports Npu_Layered
begin

text \<open>
  The software NPU backend \<open>src/hal/stub/syn_hal_npu_stub.c\<close>, the HAL session interface the
  model registry and the scheduler rely on (record \<open>npu_ops\<close>, locale \<open>npu_hal\<close>) and its
  interpretation on the stub. Loading a model also records it with the layered executor.
\<close>

section \<open>State\<close>

datatype syn_npu_state =
    SYN_NPU_STATE_IDLE | SYN_NPU_STATE_BUSY | SYN_NPU_STATE_ERROR | SYN_NPU_STATE_SUSPENDED

abbreviation (input) STUB_MAX_MODEL_SIZE :: nat where "STUB_MAX_MODEL_SIZE \<equiv> 262144"
abbreviation (input) STUB_MAX_INPUT_SIZE :: nat where "STUB_MAX_INPUT_SIZE \<equiv> 1024"
abbreviation (input) STUB_MAX_OUTPUT_SIZE :: nat where "STUB_MAX_OUTPUT_SIZE \<equiv> 256"

record npu_stub =
  ns_state :: syn_npu_state
  ns_model_loaded :: bool
  ns_model_size :: nat
  ns_input_buf :: "u8 list"
  ns_input_size :: nat
  ns_output_buf :: "u8 list"
  ns_output_size :: nat
  ns_initialized :: bool
  ns_layered :: layered

record syn_npu_caps =
  nc_max_ops_per_sec :: nat
  nc_scratch_size :: nat
  nc_supported_dtypes :: u8
  nc_supports_async :: bool

section \<open>Operations\<close>

definition syn_hal_npu_init :: "npu_stub \<Rightarrow> unit res \<times> npu_stub" where
  "syn_hal_npu_init h =
     (if ns_initialized h then (Err EALREADY, h)
      else (Ok (), h\<lparr>ns_state := SYN_NPU_STATE_IDLE, ns_model_loaded := False, ns_model_size := 0,
              ns_input_buf := replicate STUB_MAX_INPUT_SIZE 0, ns_input_size := 0,
              ns_output_buf := replicate STUB_MAX_OUTPUT_SIZE 0, ns_output_size := 0,
              ns_initialized := True\<rparr>))"

definition syn_hal_npu_deinit :: "npu_stub \<Rightarrow> npu_stub" where
  "syn_hal_npu_deinit h =
     h\<lparr>ns_initialized := False, ns_state := SYN_NPU_STATE_IDLE, ns_model_loaded := False\<rparr>"

definition syn_hal_npu_get_caps :: "bool \<Rightarrow> syn_npu_caps res" where
  "syn_hal_npu_get_caps caps_ptr =
     (if \<not> caps_ptr then Err EINVAL
      else Ok \<lparr>nc_max_ops_per_sec = 0, nc_scratch_size = 0, nc_supported_dtypes = 0x1F,
               nc_supports_async = False\<rparr>)"

definition syn_hal_npu_get_state :: "npu_stub \<Rightarrow> syn_npu_state" where
  "syn_hal_npu_get_state h = ns_state h"

definition syn_hal_npu_load_model ::
  "nat \<Rightarrow> (nat \<Rightarrow> u8 list) \<Rightarrow> nat option \<Rightarrow> nat \<Rightarrow> npu_stub \<Rightarrow> unit res \<times> npu_stub" where
  "syn_hal_npu_load_model act_max blob model_data model_size h =
     (if model_data = None \<or> model_size = 0 then (Err EINVAL, h)
      else if \<not> ns_initialized h then (Err EPERM, h)
      else if ns_state h = SYN_NPU_STATE_BUSY then (Err EBUSY, h)
      else if model_size > STUB_MAX_MODEL_SIZE then (Err ENOMEM, h)
      else (Ok (), h\<lparr>ns_model_size := model_size, ns_model_loaded := True,
              ns_layered := syn_npu_layered_on_load act_max blob model_data model_size (ns_layered h)\<rparr>))"

definition syn_hal_npu_unload_model ::
  "nat \<Rightarrow> (nat \<Rightarrow> u8 list) \<Rightarrow> npu_stub \<Rightarrow> unit res \<times> npu_stub" where
  "syn_hal_npu_unload_model act_max blob h =
     (if \<not> ns_initialized h then (Err EPERM, h)
      else if ns_state h = SYN_NPU_STATE_BUSY then (Err EBUSY, h)
      else (Ok (), h\<lparr>ns_model_loaded := False, ns_model_size := 0,
              ns_layered := syn_npu_layered_on_load act_max blob None 0 (ns_layered h)\<rparr>))"

definition syn_hal_npu_set_input :: "nat \<Rightarrow> u8 list option \<Rightarrow> nat \<Rightarrow> npu_stub \<Rightarrow> unit res \<times> npu_stub" where
  "syn_hal_npu_set_input index data sz h =
     (case data of None \<Rightarrow> (Err EINVAL, h)
      | Some bytes \<Rightarrow>
          if sz = 0 \<or> index \<noteq> 0 then (Err EINVAL, h)
          else if \<not> ns_initialized h \<or> \<not> ns_model_loaded h then (Err EPERM, h)
          else if ns_state h = SYN_NPU_STATE_BUSY then (Err EBUSY, h)
          else if sz > STUB_MAX_INPUT_SIZE then (Err ENOMEM, h)
          else (Ok (), h\<lparr>ns_input_buf := blit 0 (take sz bytes) (ns_input_buf h),
                         ns_input_size := sz\<rparr>))"

text \<open>The winner class: the 32-bit sum of the staged bytes modulo the ten classes.\<close>

definition stub_winner :: "u8 list \<Rightarrow> nat" where
  "stub_winner bytes = unat (foldl (\<lambda>s b. s + ucast b) (0 :: u32) bytes) mod 10"

definition syn_hal_npu_invoke :: "npu_stub \<Rightarrow> unit res \<times> npu_stub" where
  "syn_hal_npu_invoke h =
     (if \<not> ns_initialized h \<or> \<not> ns_model_loaded h then (Err EPERM, h)
      else if ns_state h = SYN_NPU_STATE_BUSY then (Err EBUSY, h)
      else
        let zeroed = blit 0 (replicate 10 0) (ns_output_buf h);
            winner = stub_winner (take (ns_input_size h) (ns_input_buf h))
        in (Ok (), h\<lparr>ns_output_size := 10, ns_output_buf := zeroed[winner := 127],
                     ns_state := SYN_NPU_STATE_IDLE\<rparr>))"

definition syn_hal_npu_invoke_async :: "npu_stub \<Rightarrow> unit res \<times> npu_stub" where
  "syn_hal_npu_invoke_async h = (Err ENOTSUP, h)"

text \<open>The \<open>size\<close> argument is only an output: its incoming value is not read.\<close>

definition syn_hal_npu_get_output :: "nat \<Rightarrow> bool \<Rightarrow> nat option \<Rightarrow> npu_stub \<Rightarrow> u8 list res" where
  "syn_hal_npu_get_output index data_ptr sz h =
     (if \<not> data_ptr \<or> sz = None \<or> index \<noteq> 0 then Err EINVAL
      else if \<not> ns_initialized h then Err EPERM
      else if ns_state h = SYN_NPU_STATE_BUSY then Err EBUSY
      else Ok (take (ns_output_size h) (ns_output_buf h)))"

definition syn_hal_npu_suspend :: "npu_stub \<Rightarrow> unit res \<times> npu_stub" where
  "syn_hal_npu_suspend h =
     (if \<not> ns_initialized h then (Err EPERM, h)
      else (Ok (), h\<lparr>ns_state := SYN_NPU_STATE_SUSPENDED\<rparr>))"

definition syn_hal_npu_resume :: "npu_stub \<Rightarrow> unit res \<times> npu_stub" where
  "syn_hal_npu_resume h =
     (if \<not> ns_initialized h then (Err EPERM, h)
      else if ns_state h \<noteq> SYN_NPU_STATE_SUSPENDED then (Err EINVAL, h)
      else (Ok (), h\<lparr>ns_state := SYN_NPU_STATE_IDLE\<rparr>))"

section \<open>The session interface of a backend\<close>

text \<open>
  The registry and the scheduler are linked against one backend: they take its operations as a
  record of functions over the backend's state.
\<close>

record 'h npu_ops =
  no_load :: "nat option \<Rightarrow> nat \<Rightarrow> 'h \<Rightarrow> unit res \<times> 'h"
  no_unload :: "'h \<Rightarrow> unit res \<times> 'h"
  no_set_input :: "nat \<Rightarrow> u8 list option \<Rightarrow> nat \<Rightarrow> 'h \<Rightarrow> unit res \<times> 'h"
  no_invoke :: "'h \<Rightarrow> unit res \<times> 'h"
  no_get_output :: "nat \<Rightarrow> bool \<Rightarrow> nat option \<Rightarrow> 'h \<Rightarrow> u8 list res"

text \<open>One inference on the resident model, as the monolithic path of the scheduler runs it.\<close>

definition npu_infer_once :: "'h npu_ops \<Rightarrow> u8 list \<Rightarrow> nat \<Rightarrow> 'h \<Rightarrow> u8 list res \<times> 'h" where
  "npu_infer_once ops bytes cap h =
     (case no_set_input ops 0 (Some bytes) (length bytes) h of
        (Inl e, h1) \<Rightarrow> (Err e, h1)
      | (Inr _, h1) \<Rightarrow>
          (case no_invoke ops h1 of
             (Inl e, h2) \<Rightarrow> (Err e, h2)
           | (Inr _, h2) \<Rightarrow> (no_get_output ops 0 True (Some cap) h2, h2)))"

locale npu_hal =
  fixes ops :: "'h npu_ops" and has_model :: "'h \<Rightarrow> nat option"
  assumes load_ok: "no_load ops p n h = (Ok (), h') \<Longrightarrow> has_model h' = Some n \<and> p \<noteq> None \<and> 0 < n"
    and load_err: "no_load ops p n h = (Inl e, h') \<Longrightarrow> has_model h' = has_model h"
    and unload_ok: "no_unload ops h = (Ok (), h') \<Longrightarrow> has_model h' = None"
    and unload_err: "no_unload ops h = (Inl e, h') \<Longrightarrow> has_model h' = has_model h"
    and input_keeps: "no_set_input ops i d n h = (r, h') \<Longrightarrow> has_model h' = has_model h"
    and invoke_keeps: "no_invoke ops h = (r, h') \<Longrightarrow> has_model h' = has_model h"
    and invoke_needs_model: "no_invoke ops h = (Ok (), h') \<Longrightarrow> has_model h \<noteq> None"
begin

lemma infer_once_keeps: "has_model (snd (npu_infer_once ops bytes cap h)) = has_model h"
  using input_keeps invoke_keeps
  by (auto simp: npu_infer_once_def split: prod.splits sum.splits)

lemma infer_once_needs_model:
  assumes "npu_infer_once ops bytes cap h = (Ok out, h')"
  shows "has_model h \<noteq> None"
proof -
  obtain h1 h2 where "no_set_input ops 0 (Some bytes) (length bytes) h = (Ok (), h1)"
    "no_invoke ops h1 = (Ok (), h2)"
    using assms by (auto simp: npu_infer_once_def split: prod.splits sum.splits)
  then show ?thesis using input_keeps invoke_needs_model by metis
qed

end

definition stub_ops :: "nat \<Rightarrow> (nat \<Rightarrow> u8 list) \<Rightarrow> npu_stub npu_ops" where
  "stub_ops act_max blob = \<lparr>no_load = syn_hal_npu_load_model act_max blob,
     no_unload = syn_hal_npu_unload_model act_max blob, no_set_input = syn_hal_npu_set_input,
     no_invoke = syn_hal_npu_invoke, no_get_output = syn_hal_npu_get_output\<rparr>"

definition stub_model :: "npu_stub \<Rightarrow> nat option" where
  "stub_model h = (if ns_model_loaded h then Some (ns_model_size h) else None)"

lemmas stub_defs = stub_ops_def stub_model_def syn_hal_npu_load_model_def syn_hal_npu_unload_model_def
  syn_hal_npu_set_input_def syn_hal_npu_invoke_def

interpretation stub: npu_hal "stub_ops act_max blob" stub_model for act_max blob
  by unfold_locales (auto simp: stub_defs Let_def split: if_splits option.splits)

section \<open>Lemmas\<close>

definition stub_wf :: "npu_stub \<Rightarrow> bool" where
  "stub_wf h \<longleftrightarrow> (ns_initialized h \<longrightarrow> length (ns_input_buf h) = STUB_MAX_INPUT_SIZE \<and>
     length (ns_output_buf h) = STUB_MAX_OUTPUT_SIZE \<and> ns_input_size h \<le> STUB_MAX_INPUT_SIZE \<and>
     ns_output_size h \<le> STUB_MAX_OUTPUT_SIZE) \<and> ns_state h \<noteq> SYN_NPU_STATE_BUSY"

lemma stub_sum_no_wrap:
  assumes "length bytes \<le> STUB_MAX_INPUT_SIZE"
  shows "stub_winner bytes = sum_list (map unat bytes) mod 10"
proof -
  have s: "unat (foldl (\<lambda>s b. s + ucast b) (x :: u32) bs) = unat x + sum_list (map unat bs)"
    if "unat x + 255 * length bs < 2 ^ 32" for x and bs :: "u8 list"
    using that
  proof (induction bs arbitrary: x)
    case (Cons b bs)
    have b: "unat b \<le> 255" using unat_lt8 [of b] by simp
    then have "unat (x + ucast b) = unat x + unat b"
      using Cons.prems by (simp add: unat_add32 unsigned_ucast_eq take_bit_nat_eq_self)
    then show ?case using Cons b by simp
  qed simp
  show ?thesis using s [of 0 bytes] assms by (simp add: stub_winner_def)
qed

inductive stub_reach :: "nat \<Rightarrow> (nat \<Rightarrow> u8 list) \<Rightarrow> npu_stub \<Rightarrow> npu_stub \<Rightarrow> bool"
  for act_max :: nat and blob :: "nat \<Rightarrow> u8 list" and h0 :: npu_stub where
  start: "stub_reach act_max blob h0 h0"
| init: "stub_reach act_max blob h0 h \<Longrightarrow> stub_reach act_max blob h0 (snd (syn_hal_npu_init h))"
| deinit: "stub_reach act_max blob h0 h \<Longrightarrow> stub_reach act_max blob h0 (syn_hal_npu_deinit h)"
| load: "stub_reach act_max blob h0 h \<Longrightarrow>
     stub_reach act_max blob h0 (snd (syn_hal_npu_load_model act_max blob p n h))"
| unload: "stub_reach act_max blob h0 h \<Longrightarrow>
     stub_reach act_max blob h0 (snd (syn_hal_npu_unload_model act_max blob h))"
| input: "stub_reach act_max blob h0 h \<Longrightarrow> sz \<le> length bytes \<Longrightarrow>
     stub_reach act_max blob h0 (snd (syn_hal_npu_set_input i (Some bytes) sz h))"
| invoke: "stub_reach act_max blob h0 h \<Longrightarrow> stub_reach act_max blob h0 (snd (syn_hal_npu_invoke h))"
| suspend: "stub_reach act_max blob h0 h \<Longrightarrow> stub_reach act_max blob h0 (snd (syn_hal_npu_suspend h))"
| resume: "stub_reach act_max blob h0 h \<Longrightarrow> stub_reach act_max blob h0 (snd (syn_hal_npu_resume h))"

lemma stub_wf_invoke: "stub_wf h \<Longrightarrow> stub_wf (snd (syn_hal_npu_invoke h))"
  by (auto simp: stub_wf_def syn_hal_npu_invoke_def Let_def)

lemma stub_reach_wf: "stub_reach act_max blob h0 h \<Longrightarrow> stub_wf h0 \<Longrightarrow> stub_wf h"
proof (induction rule: stub_reach.induct)
  case (invoke h)
  then show ?case by (simp add: stub_wf_invoke)
next
  case (input h sz bytes i)
  then show ?case by (auto simp: stub_wf_def syn_hal_npu_set_input_def)
qed (auto simp: stub_wf_def syn_hal_npu_init_def syn_hal_npu_deinit_def syn_hal_npu_load_model_def
      syn_hal_npu_unload_model_def syn_hal_npu_suspend_def syn_hal_npu_resume_def)

section \<open>Properties\<close>

text \<open>
  On an initialised stub with a resident model, staging an input, invoking and reading back
  yields a ten-class vector that is 127 at the class given by the exact byte sum modulo ten and
  0 elsewhere; the sum does not wrap for any input the stub accepts.
\<close>

theorem stub_inference_one_hot:
  assumes "stub_wf h" "ns_initialized h" "ns_model_loaded h"
    and "0 < length bytes" "length bytes \<le> STUB_MAX_INPUT_SIZE"
  shows "fst (npu_infer_once (stub_ops act_max blob) bytes cap h) =
    Ok ((replicate 10 0)[sum_list (map unat bytes) mod 10 := 127])"
proof -
  have b: "take (length bytes) (blit 0 bytes (ns_input_buf h)) = bytes"
    by (simp add: blit_def)
  have "take 10 ((blit 0 (replicate 10 0) (ns_output_buf h))[w := 127]) = (replicate 10 0)[w := 127]" for w
    by (simp add: take_update_swap blit_def)
  then show ?thesis
    using assms b stub_sum_no_wrap [OF assms(5)]
    by (simp add: npu_infer_once_def stub_ops_def syn_hal_npu_set_input_def syn_hal_npu_invoke_def
        syn_hal_npu_get_output_def stub_wf_def Let_def)
qed

definition demo_stub :: npu_stub where
  "demo_stub = \<lparr>ns_state = SYN_NPU_STATE_IDLE, ns_model_loaded = True, ns_model_size = 12,
     ns_input_buf = replicate 1024 0, ns_input_size = 0, ns_output_buf = replicate 256 0,
     ns_output_size = 0, ns_initialized = True, ns_layered = demo_layered\<rparr>"

lemma demo_stub_wf: "stub_wf demo_stub" "ns_initialized demo_stub" "ns_model_loaded demo_stub"
  by (simp_all add: stub_wf_def demo_stub_def)

theorem stub_inference_one_hot_witness:
  "fst (npu_infer_once (stub_ops 64 (\<lambda>_. demo_blob)) [200, 103] 10 demo_stub) = Ok [0, 0, 0, 127, 0, 0, 0, 0, 0, 0]"
  using stub_inference_one_hot [OF demo_stub_wf, of "[200, 103]"] by (simp add: replicate_num)

text \<open>
  No sequence of HAL calls from a state that is not busy leaves the stub busy or its buffers
  overrun: every operation after a completed one is refused only by its documented guards.
\<close>

theorem stub_never_left_busy:
  assumes "stub_reach act_max blob h0 h" "stub_wf h0" "ns_initialized h"
  shows "ns_state h \<noteq> SYN_NPU_STATE_BUSY \<and> ns_output_size h \<le> length (ns_output_buf h) \<and>
    ns_input_size h \<le> length (ns_input_buf h)"
  using stub_reach_wf [OF assms(1,2)] assms(3) by (simp add: stub_wf_def)

theorem stub_never_left_busy_witness:
  "ns_state (snd (syn_hal_npu_invoke demo_stub)) \<noteq> SYN_NPU_STATE_BUSY"
  using stub_never_left_busy [OF stub_reach.invoke [OF stub_reach.start [of 64 "\<lambda>_. demo_blob" demo_stub]]
      demo_stub_wf(1)]
  by (simp add: syn_hal_npu_invoke_def demo_stub_def Let_def)

text \<open>
  An invoke on a suspended stub is not refused: it runs, and leaves the NPU idle, so the
  suspension is lost and the later resume fails with EINVAL.
\<close>

theorem invoke_discards_suspension:
  "(let (r1, h1) = syn_hal_npu_suspend demo_stub; (r2, h2) = syn_hal_npu_invoke h1;
        (r3, h3) = syn_hal_npu_resume h2
    in r1 = Ok () \<and> r2 = Ok () \<and> ns_state h2 = SYN_NPU_STATE_IDLE \<and> r3 = Err EINVAL)"
  by (simp add: syn_hal_npu_suspend_def syn_hal_npu_invoke_def syn_hal_npu_resume_def demo_stub_def Let_def)

text \<open>
  Reading an output into a buffer declared shorter than the output succeeds and returns all
  ten bytes: the capacity passed in is not checked.
\<close>

theorem get_output_ignores_capacity:
  "map_sum id length (syn_hal_npu_get_output 0 True (Some 4) (snd (syn_hal_npu_invoke demo_stub))) = Ok 10"
  by (simp add: syn_hal_npu_get_output_def syn_hal_npu_invoke_def demo_stub_def Let_def)

end
