(* ===== verification/Model_Registry.thy ===== *)
theory Model_Registry
  imports Npu_Stub
begin

text \<open>
  The model registry \<open>src/core/syn_model.c\<close>: a fixed array of slots with 1-based handles, unique
  names, and the residency of the single-model NPU. The backend is a record of operations
  (locale \<open>npu_hal\<close>). The CRC-32 of the Zephyr library, the reader of the memory behind a data
  pointer, the test for a suspended job of the scheduler and the measured durations are
  arguments. The residency mutex and the quiesce gate make a residency change atomic with
  respect to jobs, so each operation is one step here.
\<close>

section \<open>Data\<close>

record syn_model_info =
  mi_name :: "u8 list"
  mi_version :: "u8 list"
  mi_input_size :: u32
  mi_output_size :: u32
  mi_flash_offset :: u32
  mi_flash_size :: u32
  mi_sram_required :: u32
  mi_crc32 :: u32
  mi_input_dtype :: u32
  mi_output_dtype :: u32
  mi_input_shape :: "u8 list"
  mi_output_shape :: "u8 list"

abbreviation (input) MODEL_NAME_LEN :: nat where "MODEL_NAME_LEN \<equiv> 32"
abbreviation (input) SYN_MODEL_INVALID :: nat where "SYN_MODEL_INVALID \<equiv> 0"

record model_slot =
  sl_active :: bool
  sl_loaded :: bool
  sl_info :: syn_model_info
  sl_data :: "nat option"
  sl_data_size :: nat

record 'h registry =
  rg_slots :: "model_slot list"
  rg_resident :: "nat option"
  rg_swaps :: u32
  rg_last_us :: u32
  rg_last_swap_us :: u32
  rg_hal :: 'h

type_synonym crc_fn = "u8 list \<Rightarrow> u32"
type_synonym mem_view = "nat \<Rightarrow> nat \<Rightarrow> u8 list"

section \<open>Operations\<close>

definition handle_to_index :: "'h registry \<Rightarrow> nat \<Rightarrow> nat option" where
  "handle_to_index g handle =
     (if handle = SYN_MODEL_INVALID \<or> handle > length (rg_slots g) then None else Some (handle - 1))"

text \<open>The guard \<open>idx < 0 || !slots[idx].active\<close> that opens most operations.\<close>

definition active_index :: "'h registry \<Rightarrow> nat \<Rightarrow> nat option" where
  "active_index g handle =
     (case handle_to_index g handle of None \<Rightarrow> None
      | Some idx \<Rightarrow> if sl_active (rg_slots g ! idx) then Some idx else None)"

definition set_slot :: "nat \<Rightarrow> model_slot \<Rightarrow> 'h registry \<Rightarrow> 'h registry" where
  "set_slot idx s g = g\<lparr>rg_slots := (rg_slots g)[idx := s]\<rparr>"

definition name_match :: "u8 list \<Rightarrow> model_slot \<Rightarrow> bool" where
  "name_match name s \<longleftrightarrow> sl_active s \<and> strncmp_eq (mi_name (sl_info s)) name MODEL_NAME_LEN"

text \<open>On EEXIST and ENOMEM the code also stores \<open>SYN_MODEL_INVALID\<close> through \<open>handle\<close>.\<close>

definition syn_model_register ::
  "syn_model_info option \<Rightarrow> bool \<Rightarrow> 'h registry \<Rightarrow> nat res \<times> 'h registry" where
  "syn_model_register info handle_ptr g =
     (case info of None \<Rightarrow> (Err EINVAL, g)
      | Some nfo \<Rightarrow>
          if \<not> handle_ptr then (Err EINVAL, g)
          else if first_index (name_match (mi_name nfo)) (rg_slots g) \<noteq> None then (Err EEXIST, g)
          else (case first_index (\<lambda>s. \<not> sl_active s) (rg_slots g) of
                  None \<Rightarrow> (Err ENOMEM, g)
                | Some i \<Rightarrow> (Ok (i + 1),
                    set_slot i \<lparr>sl_active = True, sl_loaded = False, sl_info = nfo,
                                sl_data = None, sl_data_size = 0\<rparr> g)))"

definition syn_model_unload ::
  "'h npu_ops \<Rightarrow> (nat \<Rightarrow> bool) \<Rightarrow> nat \<Rightarrow> 'h registry \<Rightarrow> unit res \<times> 'h registry" where
  "syn_model_unload ops suspended handle g =
     (case active_index g handle of None \<Rightarrow> (Err EINVAL, g)
      | Some idx \<Rightarrow>
          let s = rg_slots g ! idx in
          if \<not> sl_loaded s then (Err EALREADY, g)
          else if suspended handle then (Err EBUSY, g)
          else
            let g1 = set_slot idx (s\<lparr>sl_loaded := False\<rparr>) g in
            if sl_data s \<noteq> None \<and> sl_data s = rg_resident g
            then (Ok (), g1\<lparr>rg_hal := snd (no_unload ops (rg_hal g1)), rg_resident := None\<rparr>)
            else (Ok (), g1))"

definition syn_model_unregister ::
  "'h npu_ops \<Rightarrow> (nat \<Rightarrow> bool) \<Rightarrow> nat \<Rightarrow> 'h registry \<Rightarrow> unit res \<times> 'h registry" where
  "syn_model_unregister ops suspended handle g =
     (case active_index g handle of None \<Rightarrow> (Err EINVAL, g)
      | Some idx \<Rightarrow>
          if suspended handle then (Err EBUSY, g)
          else
            let g1 = (if sl_loaded (rg_slots g ! idx) then snd (syn_model_unload ops suspended handle g)
                      else g)
            in (Ok (), set_slot idx ((rg_slots g1 ! idx)\<lparr>sl_active := False, sl_loaded := False,
                         sl_data := None, sl_data_size := 0\<rparr>) g1))"

definition syn_model_get_info :: "nat \<Rightarrow> bool \<Rightarrow> 'h registry \<Rightarrow> syn_model_info res" where
  "syn_model_get_info handle info_ptr g =
     (case active_index g handle of None \<Rightarrow> Err EINVAL
      | Some idx \<Rightarrow> if \<not> info_ptr then Err EINVAL else Ok (sl_info (rg_slots g ! idx)))"

definition syn_model_get_by_name :: "u8 list option \<Rightarrow> bool \<Rightarrow> 'h registry \<Rightarrow> nat res" where
  "syn_model_get_by_name name handle_ptr g =
     (case name of None \<Rightarrow> Err EINVAL
      | Some nm \<Rightarrow>
          if \<not> handle_ptr then Err EINVAL
          else (case first_index (name_match nm) (rg_slots g) of
                  None \<Rightarrow> Err ENOENT | Some i \<Rightarrow> Ok (i + 1)))"

text \<open>The handles of the active slots in slot order, at most \<open>max\<close> of them.\<close>

definition syn_model_list :: "bool \<Rightarrow> bool \<Rightarrow> nat \<Rightarrow> 'h registry \<Rightarrow> nat list res" where
  "syn_model_list handles_ptr count_ptr mx g =
     (if \<not> handles_ptr \<or> \<not> count_ptr then Err EINVAL
      else Ok (take mx (map Suc (filter (\<lambda>i. sl_active (rg_slots g ! i)) [0..<length (rg_slots g)]))))"

definition model_hal_load ::
  "'h npu_ops \<Rightarrow> crc_fn \<Rightarrow> mem_view \<Rightarrow> nat \<Rightarrow> 'h registry \<Rightarrow> unit res \<times> 'h registry" where
  "model_hal_load ops crc rd idx g =
     (let s = rg_slots g ! idx in
      case sl_data s of None \<Rightarrow> (Ok (), g)
      | Some p \<Rightarrow>
          if sl_data_size s > 0 then
            if mi_crc32 (sl_info s) \<noteq> 0 \<and> crc (rd p (sl_data_size s)) \<noteq> mi_crc32 (sl_info s)
            then (Err EILSEQ, g)
            else (case no_load ops (Some p) (sl_data_size s) (rg_hal g) of
                    (Inl e, h) \<Rightarrow> (Err e, g\<lparr>rg_hal := h\<rparr>)
                  | (Inr _, h) \<Rightarrow> (Ok (), g\<lparr>rg_hal := h, rg_resident := Some p\<rparr>))
          else (Ok (), g))"

definition model_do_load ::
  "'h npu_ops \<Rightarrow> crc_fn \<Rightarrow> mem_view \<Rightarrow> nat \<Rightarrow> 'h registry \<Rightarrow> unit res \<times> 'h registry" where
  "model_do_load ops crc rd idx g =
     (case model_hal_load ops crc rd idx g of
        (Inl e, g1) \<Rightarrow> (Err e, g1)
      | (Inr _, g1) \<Rightarrow> (Ok (), set_slot idx ((rg_slots g1 ! idx)\<lparr>sl_loaded := True\<rparr>) g1))"

definition syn_model_load ::
  "'h npu_ops \<Rightarrow> crc_fn \<Rightarrow> mem_view \<Rightarrow> nat \<Rightarrow> 'h registry \<Rightarrow> unit res \<times> 'h registry" where
  "syn_model_load ops crc rd handle g =
     (case active_index g handle of None \<Rightarrow> (Err EINVAL, g)
      | Some idx \<Rightarrow>
          if sl_loaded (rg_slots g ! idx) then (Err EALREADY, g)
          else model_do_load ops crc rd idx g)"

definition syn_model_ensure_resident ::
  "'h npu_ops \<Rightarrow> crc_fn \<Rightarrow> mem_view \<Rightarrow> u32 \<Rightarrow> nat \<Rightarrow> 'h registry \<Rightarrow> unit res \<times> 'h registry" where
  "syn_model_ensure_resident ops crc rd us handle g =
     (case active_index g handle of None \<Rightarrow> (Err EINVAL, g)
      | Some idx \<Rightarrow>
          let s = rg_slots g ! idx in
          if \<not> sl_loaded s then (Err ENOEXEC, g)
          else if sl_data s = None \<or> sl_data s = rg_resident g then (Ok (), g)
          else (case model_hal_load ops crc rd idx g of
                  (Inl e, g1) \<Rightarrow> (Err e, g1)
                | (Inr _, g1) \<Rightarrow> (Ok (), g1\<lparr>rg_last_us := us, rg_swaps := rg_swaps g1 + 1\<rparr>)))"

definition syn_model_residency_stats :: "'h registry \<Rightarrow> u32 \<times> u32" where
  "syn_model_residency_stats g = (rg_swaps g, rg_last_us g)"

definition syn_model_is_loaded :: "nat \<Rightarrow> 'h registry \<Rightarrow> bool" where
  "syn_model_is_loaded handle g =
     (case active_index g handle of None \<Rightarrow> False | Some idx \<Rightarrow> sl_loaded (rg_slots g ! idx))"

definition syn_model_set_data :: "nat \<Rightarrow> nat option \<Rightarrow> nat \<Rightarrow> 'h registry \<Rightarrow> unit res \<times> 'h registry" where
  "syn_model_set_data handle data sz g =
     (case active_index g handle of None \<Rightarrow> (Err EINVAL, g)
      | Some idx \<Rightarrow>
          if data \<noteq> None \<and> sz = 0 then (Err EINVAL, g)
          else (Ok (), set_slot idx ((rg_slots g ! idx)\<lparr>sl_data := data,
                         sl_data_size := (if data \<noteq> None then sz else 0)\<rparr>) g))"

definition empty_slot :: model_slot where
  "empty_slot = \<lparr>sl_active = False, sl_loaded = False,
     sl_info = \<lparr>mi_name = replicate 32 0, mi_version = replicate 16 0, mi_input_size = 0,
       mi_output_size = 0, mi_flash_offset = 0, mi_flash_size = 0, mi_sram_required = 0,
       mi_crc32 = 0, mi_input_dtype = 0, mi_output_dtype = 0, mi_input_shape = replicate 4 0,
       mi_output_shape = replicate 4 0\<rparr>,
     sl_data = None, sl_data_size = 0\<rparr>"

fun unload_loop ::
  "'h npu_ops \<Rightarrow> (nat \<Rightarrow> bool) \<Rightarrow> nat list \<Rightarrow> 'h registry \<Rightarrow> 'h registry" where
  "unload_loop ops suspended [] g = g"
| "unload_loop ops suspended (i # is) g =
     unload_loop ops suspended is
       (if sl_active (rg_slots g ! i) \<and> sl_loaded (rg_slots g ! i)
        then snd (syn_model_unload ops suspended (i + 1) g) else g)"

definition syn_model_reset_all :: "'h npu_ops \<Rightarrow> (nat \<Rightarrow> bool) \<Rightarrow> 'h registry \<Rightarrow> 'h registry" where
  "syn_model_reset_all ops suspended g =
     (let g1 = unload_loop ops suspended [0..<length (rg_slots g)] g
      in g1\<lparr>rg_slots := replicate (length (rg_slots g1)) empty_slot, rg_resident := None\<rparr>)"

definition syn_model_swap ::
  "'h npu_ops \<Rightarrow> crc_fn \<Rightarrow> mem_view \<Rightarrow> u32 \<Rightarrow> nat \<Rightarrow> nat \<Rightarrow> 'h registry \<Rightarrow> unit res \<times> 'h registry" where
  "syn_model_swap ops crc rd us old_handle new_handle g =
     (case (active_index g old_handle, active_index g new_handle) of
        (Some old_idx, Some new_idx) \<Rightarrow>
          if old_idx = new_idx then (Err EINVAL, g)
          else
            let g1 = set_slot old_idx ((rg_slots g ! old_idx)\<lparr>sl_loaded := False\<rparr>) g;
                (ret, g2) = (if sl_loaded (rg_slots g1 ! new_idx) then (Ok (), g1)
                             else model_do_load ops crc rd new_idx g1)
            in (ret, g2\<lparr>rg_last_swap_us := us\<rparr>)
      | _ \<Rightarrow> (Err EINVAL, g))"

definition syn_model_last_swap_us :: "'h registry \<Rightarrow> u32" where
  "syn_model_last_swap_us g = rg_last_swap_us g"

section \<open>Invariant\<close>

text \<open>
  Active names are pairwise different as C strings of the name field, an inactive slot is
  neither loaded nor attached, and attached data has a size.
\<close>

definition slot_ok :: "model_slot \<Rightarrow> bool" where
  "slot_ok s \<longleftrightarrow> (sl_active s \<or> \<not> sl_loaded s \<and> sl_data s = None) \<and>
     (sl_data s \<noteq> None \<longleftrightarrow> 0 < sl_data_size s)"

definition names_unique :: "model_slot list \<Rightarrow> bool" where
  "names_unique ss \<longleftrightarrow> (\<forall>i < length ss. \<forall>j < length ss. sl_active (ss ! i) \<longrightarrow>
     name_match (mi_name (sl_info (ss ! i))) (ss ! j) \<longrightarrow> i = j)"

definition registry_wf :: "'h registry \<Rightarrow> bool" where
  "registry_wf g \<longleftrightarrow> names_unique (rg_slots g) \<and> (\<forall>s \<in> set (rg_slots g). slot_ok s)"

lemma active_index_SomeD:
  "active_index g h = Some i \<Longrightarrow> i < length (rg_slots g) \<and> sl_active (rg_slots g ! i) \<and> h = Suc i"
  by (auto simp: active_index_def handle_to_index_def split: if_splits option.splits)

lemma active_index_Suc [simp]:
  "i < length (rg_slots g) \<Longrightarrow> active_index g (Suc i) = (if sl_active (rg_slots g ! i) then Some i else None)"
  by (simp add: active_index_def handle_to_index_def)

lemma rg_slots_set_slot [simp]: "rg_slots (set_slot i s g) = (rg_slots g)[i := s]"
  by (simp add: set_slot_def)

lemma rg_other_set_slot [simp]: "rg_hal (set_slot i s g) = rg_hal g" "rg_resident (set_slot i s g) = rg_resident g"
  "rg_swaps (set_slot i s g) = rg_swaps g"
  by (simp_all add: set_slot_def)

lemma slot_ok_nth: "registry_wf g \<Longrightarrow> i < length (rg_slots g) \<Longrightarrow> slot_ok (rg_slots g ! i)"
  by (simp add: registry_wf_def)

text \<open>Updating a slot without touching its name keeps the names unique.\<close>

lemma wf_same_name:
  assumes "registry_wf g" "slot_ok s" "i < length (rg_slots g)" "rg_slots g' = (rg_slots g)[i := s]"
    and "sl_active s \<longrightarrow> sl_active (rg_slots g ! i) \<and> sl_info s = sl_info (rg_slots g ! i)"
  shows "registry_wf g'"
proof -
  have "\<forall>s \<in> set (rg_slots g'). slot_ok s"
    unfolding assms(4) by (rule ball_list_update) (use assms(1,2) in \<open>auto simp: registry_wf_def\<close>)
  moreover have "names_unique (rg_slots g')"
    using assms unfolding registry_wf_def names_unique_def
    by (auto simp: nth_list_update name_match_def split: if_splits)
  ultimately show ?thesis by (simp add: registry_wf_def)
qed

lemma strncmp_eq_comm: "strncmp_eq a b n = strncmp_eq b a n"
  by (auto simp: strncmp_eq_def)

lemma register_wf:
  assumes "registry_wf g" "syn_model_register info hp g = (r, g')"
  shows "registry_wf g'"
proof (cases "g' = g")
  case False
  then obtain nfo i where nfo: "info = Some nfo" and no: "first_index (name_match (mi_name nfo)) (rg_slots g) = None"
    and i: "first_index (\<lambda>s. \<not> sl_active s) (rg_slots g) = Some i"
    and g': "g' = set_slot i \<lparr>sl_active = True, sl_loaded = False, sl_info = nfo, sl_data = None,
                             sl_data_size = 0\<rparr> g"
    using assms(2) by (auto simp: syn_model_register_def split: option.splits if_splits)
  let ?s = "\<lparr>sl_active = True, sl_loaded = False, sl_info = nfo, sl_data = None, sl_data_size = 0\<rparr>"
  have il: "i < length (rg_slots g)" using first_index_SomeD [OF i] by simp
  have none: "\<not> name_match (mi_name nfo) (rg_slots g ! j)" if "j < length (rg_slots g)" for j
    using no that by simp
  have "\<forall>s \<in> set (rg_slots g'). slot_ok s"
    unfolding g' rg_slots_set_slot
    by (rule ball_list_update) (use assms(1) in \<open>auto simp: registry_wf_def slot_ok_def\<close>)
  moreover have "names_unique (rg_slots g')"
    using assms(1) none il unfolding registry_wf_def names_unique_def g'
    by (auto simp: nth_list_update name_match_def strncmp_eq_comm)
  ultimately show ?thesis by (simp add: registry_wf_def)
qed (use assms in simp)

lemma hal_load_slots: "model_hal_load ops crc rd idx g = (r, g') \<Longrightarrow> rg_slots g' = rg_slots g"
  by (auto simp: model_hal_load_def Let_def split: option.splits if_splits prod.splits sum.splits)

lemma do_load_slots:
  assumes "model_do_load ops crc rd idx g = (r, g')"
  shows "rg_slots g' = (if is_ok r then (rg_slots g)[idx := (rg_slots g ! idx)\<lparr>sl_loaded := True\<rparr>] else rg_slots g)"
  using assms hal_load_slots [of ops crc rd idx g]
  by (auto simp: model_do_load_def split: prod.splits sum.splits)

lemma unload_slots:
  assumes "syn_model_unload ops susp h g = (r, g')"
  shows "g' = g \<or> (\<exists>i. active_index g h = Some i \<and> \<not> susp h \<and>
    rg_slots g' = (rg_slots g)[i := (rg_slots g ! i)\<lparr>sl_loaded := False\<rparr>])"
  using assms by (auto simp: syn_model_unload_def Let_def split: option.splits if_splits)

lemma unload_wf:
  assumes "registry_wf g" "syn_model_unload ops susp h g = (r, g')"
  shows "registry_wf g'"
  using unload_slots [OF assms(2)]
proof (elim disjE)
  assume "\<exists>i. active_index g h = Some i \<and> \<not> susp h \<and>
    rg_slots g' = (rg_slots g)[i := (rg_slots g ! i)\<lparr>sl_loaded := False\<rparr>]"
  then obtain i where i: "active_index g h = Some i"
    and e: "rg_slots g' = (rg_slots g)[i := (rg_slots g ! i)\<lparr>sl_loaded := False\<rparr>]" by blast
  note a = active_index_SomeD [OF i]
  show ?thesis
    using a slot_ok_nth [OF assms(1), of i] by (intro wf_same_name [OF assms(1) _ _ e]) (auto simp: slot_ok_def)
qed (use assms(1) in simp)

lemma do_load_wf:
  assumes "registry_wf g" "model_do_load ops crc rd idx g = (r, g')" "idx < length (rg_slots g)"
    and "sl_active (rg_slots g ! idx)"
  shows "registry_wf g'"
proof (cases "is_ok r")
  case True
  then have e: "rg_slots g' = (rg_slots g)[idx := (rg_slots g ! idx)\<lparr>sl_loaded := True\<rparr>]"
    using do_load_slots [OF assms(2)] by simp
  show ?thesis using assms(3,4) slot_ok_nth [OF assms(1,3)]
    by (intro wf_same_name [OF assms(1) _ _ e]) (auto simp: slot_ok_def)
next
  case False
  then show ?thesis using do_load_slots [OF assms(2)] assms(1) by (simp add: registry_wf_def)
qed

lemma unregister_wf:
  assumes "registry_wf g" "syn_model_unregister ops susp h g = (r, g')"
  shows "registry_wf g'"
proof (cases "active_index g h")
  case (Some i)
  note a = active_index_SomeD [OF Some]
  let ?g1 = "if sl_loaded (rg_slots g ! i) then snd (syn_model_unload ops susp h g) else g"
  have wf1: "registry_wf ?g1"
    using assms(1) unload_wf [OF assms(1), of ops susp h] by (cases "syn_model_unload ops susp h g") auto
  have l1: "i < length (rg_slots ?g1)"
    using a unload_slots [of ops susp h g] by (cases "syn_model_unload ops susp h g") auto
  show ?thesis
  proof (cases "susp h")
    case False
    then have e: "rg_slots g' = (rg_slots ?g1)[i := (rg_slots ?g1 ! i)\<lparr>sl_active := False,
        sl_loaded := False, sl_data := None, sl_data_size := 0\<rparr>]"
      using assms(2) Some by (auto simp: syn_model_unregister_def Let_def split: if_splits)
    show ?thesis by (rule wf_same_name [OF wf1 _ l1 e]) (simp_all add: slot_ok_def)
  qed (use assms Some in \<open>simp add: syn_model_unregister_def\<close>)
qed (use assms in \<open>simp add: syn_model_unregister_def\<close>)

lemma load_wf:
  assumes "registry_wf g" "syn_model_load ops crc rd h g = (r, g')"
  shows "registry_wf g'"
  using assms do_load_wf [OF assms(1)] active_index_SomeD [of g h]
  by (auto simp: syn_model_load_def split: option.splits if_splits)

lemma ensure_slots: "syn_model_ensure_resident ops crc rd us h g = (r, g') \<Longrightarrow> rg_slots g' = rg_slots g"
  using hal_load_slots
  by (fastforce simp: syn_model_ensure_resident_def Let_def split: option.splits if_splits prod.splits sum.splits)

lemma set_data_wf:
  assumes "registry_wf g" "syn_model_set_data h d n g = (r, g')"
  shows "registry_wf g'"
proof (cases "active_index g h")
  case (Some i)
  note a = active_index_SomeD [OF Some]
  show ?thesis
  proof (cases "d \<noteq> None \<and> n = 0")
    case False
    then have e: "rg_slots g' = (rg_slots g)[i := (rg_slots g ! i)\<lparr>sl_data := d,
        sl_data_size := (if d \<noteq> None then n else 0)\<rparr>]"
      using assms(2) Some by (auto simp: syn_model_set_data_def split: if_splits)
    show ?thesis using a False by (intro wf_same_name [OF assms(1) _ _ e]) (auto simp: slot_ok_def)
  qed (use assms Some in \<open>auto simp: syn_model_set_data_def\<close>)
qed (use assms in \<open>simp add: syn_model_set_data_def\<close>)

lemma swap_wf:
  assumes "registry_wf g" "syn_model_swap ops crc rd us ho hn g = (r, g')"
  shows "registry_wf g'"
proof (cases "g' = g")
  case False
  then obtain i j where ij: "active_index g ho = Some i" "active_index g hn = Some j" "i \<noteq> j"
    using assms(2) by (auto simp: syn_model_swap_def split: option.splits if_splits)
  let ?g1 = "set_slot i ((rg_slots g ! i)\<lparr>sl_loaded := False\<rparr>) g"
  note a = active_index_SomeD [OF ij(1)] active_index_SomeD [OF ij(2)]
  have wf1: "registry_wf ?g1"
    by (rule wf_same_name [OF assms(1) _ _ rg_slots_set_slot])
       (use a slot_ok_nth [OF assms(1), of i] in \<open>auto simp: slot_ok_def\<close>)
  let ?g2 = "if sl_loaded (rg_slots ?g1 ! j) then ?g1 else snd (model_do_load ops crc rd j ?g1)"
  have "rg_slots g' = rg_slots ?g2"
    using assms(2) ij by (auto simp: syn_model_swap_def Let_def split: if_splits prod.splits)
  moreover have "registry_wf ?g2"
    using wf1 do_load_wf [OF wf1 surjective_pairing, of j] a ij(3) by simp
  ultimately show ?thesis by (simp add: registry_wf_def)
qed (use assms in simp)

lemma reset_all_wf: "registry_wf (syn_model_reset_all ops susp g)"
  by (auto simp: syn_model_reset_all_def registry_wf_def names_unique_def slot_ok_def empty_slot_def Let_def)

text \<open>Every state the operations reach, with any suspended jobs, memory and timing at each call.\<close>

inductive reg_reach :: "'h npu_ops \<Rightarrow> crc_fn \<Rightarrow> 'h registry \<Rightarrow> 'h registry \<Rightarrow> bool"
  for ops :: "'h npu_ops" and crc :: crc_fn and g0 :: "'h registry" where
  start: "reg_reach ops crc g0 g0"
| register: "reg_reach ops crc g0 g \<Longrightarrow> reg_reach ops crc g0 (snd (syn_model_register info hp g))"
| unregister: "reg_reach ops crc g0 g \<Longrightarrow> reg_reach ops crc g0 (snd (syn_model_unregister ops susp h g))"
| load: "reg_reach ops crc g0 g \<Longrightarrow> reg_reach ops crc g0 (snd (syn_model_load ops crc rd h g))"
| unload: "reg_reach ops crc g0 g \<Longrightarrow> reg_reach ops crc g0 (snd (syn_model_unload ops susp h g))"
| ensure: "reg_reach ops crc g0 g \<Longrightarrow>
     reg_reach ops crc g0 (snd (syn_model_ensure_resident ops crc rd us h g))"
| set_data: "reg_reach ops crc g0 g \<Longrightarrow> reg_reach ops crc g0 (snd (syn_model_set_data h d n g))"
| swap: "reg_reach ops crc g0 g \<Longrightarrow> reg_reach ops crc g0 (snd (syn_model_swap ops crc rd us h h' g))"
| reset: "reg_reach ops crc g0 g \<Longrightarrow> reg_reach ops crc g0 (syn_model_reset_all ops susp g)"

lemma reg_reach_wf: "reg_reach ops crc g0 g \<Longrightarrow> registry_wf g0 \<Longrightarrow> registry_wf g"
proof (induction rule: reg_reach.induct)
  case (ensure g rd us h)
  then show ?case by (simp add: registry_wf_def ensure_slots [OF surjective_pairing])
qed (simp_all add: register_wf [OF _ surjective_pairing] unregister_wf [OF _ surjective_pairing]
      load_wf [OF _ surjective_pairing] unload_wf [OF _ surjective_pairing]
      set_data_wf [OF _ surjective_pairing] swap_wf [OF _ surjective_pairing] reset_all_wf)

section \<open>Residency, for any backend that obeys the HAL laws\<close>

definition resident_backed :: "('h \<Rightarrow> nat option) \<Rightarrow> 'h registry \<Rightarrow> bool" where
  "resident_backed has_model g \<longleftrightarrow> (rg_resident g \<noteq> None \<longrightarrow> has_model (rg_hal g) \<noteq> None)"

context npu_hal
begin

lemma hal_load_backed:
  assumes "resident_backed has_model g" "model_hal_load ops crc rd idx g = (r, g')"
  shows "resident_backed has_model g'"
  using assms load_ok load_err
  by (fastforce simp: model_hal_load_def resident_backed_def Let_def
      split: option.splits if_splits prod.splits sum.splits)

lemma hal_load_resident:
  assumes "model_hal_load ops crc rd idx g = (Ok (), g')" "sl_data (rg_slots g ! idx) = Some p"
    and "0 < sl_data_size (rg_slots g ! idx)"
  shows "rg_resident g' = Some p \<and> has_model (rg_hal g') = Some (sl_data_size (rg_slots g ! idx)) \<and>
    (mi_crc32 (sl_info (rg_slots g ! idx)) = 0 \<or>
     crc (rd p (sl_data_size (rg_slots g ! idx))) = mi_crc32 (sl_info (rg_slots g ! idx)))"
  using assms load_ok
  by (auto simp: model_hal_load_def Let_def split: if_splits prod.splits sum.splits)

lemma do_load_backed:
  assumes "resident_backed has_model g" "model_do_load ops crc rd idx g = (r, g')"
  shows "resident_backed has_model g'"
  using assms(2) hal_load_backed [OF assms(1), of crc rd idx]
  by (auto simp: model_do_load_def resident_backed_def split: prod.splits sum.splits)

lemma unload_backed:
  "resident_backed has_model g \<Longrightarrow> syn_model_unload ops susp h g = (r, g') \<Longrightarrow> resident_backed has_model g'"
  by (auto simp: syn_model_unload_def resident_backed_def Let_def split: option.splits if_splits)

lemma unload_loop_backed:
  "resident_backed has_model g \<Longrightarrow> resident_backed has_model (unload_loop ops susp is g)"
proof (induction "is" arbitrary: g)
  case (Cons i "is")
  have "resident_backed has_model (snd (syn_model_unload ops susp (i + 1) g))"
    using unload_backed [OF Cons.prems surjective_pairing] .
  then show ?case using Cons by simp
qed simp

lemma reach_backed:
  "reg_reach ops crc g0 g \<Longrightarrow> resident_backed has_model g0 \<Longrightarrow> resident_backed has_model g"
proof (induction rule: reg_reach.induct)
  case (register g info hp)
  then show ?case
    by (auto simp: syn_model_register_def resident_backed_def split: option.splits)
next
  case (unregister g susp h)
  moreover have "resident_backed has_model (snd (syn_model_unload ops susp h g))"
    using unload_backed [OF _ surjective_pairing] unregister by blast
  ultimately show ?case
    by (auto simp: syn_model_unregister_def resident_backed_def Let_def split: option.splits)
next
  case (load g rd h)
  moreover have "resident_backed has_model (snd (model_do_load ops crc rd idx g))" for idx
    using do_load_backed [OF _ surjective_pairing] load by blast
  ultimately show ?case
    by (auto simp: syn_model_load_def split: option.splits)
next
  case (unload g susp h)
  then show ?case using unload_backed [OF _ surjective_pairing] by blast
next
  case (ensure g rd us h)
  then show ?case using hal_load_backed [of g crc rd]
    by (fastforce simp: syn_model_ensure_resident_def resident_backed_def Let_def
        split: option.splits prod.splits sum.splits)
next
  case (set_data g h d n)
  then show ?case by (auto simp: syn_model_set_data_def resident_backed_def split: option.splits)
next
  case (swap g rd us h h')
  have b: "resident_backed has_model (set_slot i s g)" for i s
    using swap by (simp add: resident_backed_def)
  show ?case using swap do_load_backed [OF b]
    by (fastforce simp: syn_model_swap_def resident_backed_def Let_def split: option.splits prod.splits)
next
  case (reset g susp)
  then show ?case using unload_loop_backed by (simp add: syn_model_reset_all_def resident_backed_def Let_def)
qed

end

section \<open>Properties\<close>

text \<open>
  In every state the registry operations reach from an empty or well-formed registry, two
  valid handles whose models have the same name are the same handle, and an inactive slot is
  never loaded.
\<close>

theorem registry_names_unique:
  assumes "reg_reach ops crc g0 g" "registry_wf g0"
    and "syn_model_get_info h1 True g = Ok i1" "syn_model_get_info h2 True g = Ok i2"
    and "strncmp_eq (mi_name i1) (mi_name i2) MODEL_NAME_LEN"
  shows "h1 = h2 \<and> (\<forall>h. syn_model_is_loaded h g \<longrightarrow> is_ok (syn_model_get_info h True g))"
proof -
  have wf: "names_unique (rg_slots g)" using reg_reach_wf [OF assms(1,2)] by (simp add: registry_wf_def)
  obtain a b where ab: "active_index g h1 = Some a" "active_index g h2 = Some b"
    "i1 = sl_info (rg_slots g ! a)" "i2 = sl_info (rg_slots g ! b)"
    using assms(3,4) by (auto simp: syn_model_get_info_def split: option.splits)
  have "a = b"
    using wf assms(5) active_index_SomeD [OF ab(1)] active_index_SomeD [OF ab(2)] ab(3,4)
    by (simp add: names_unique_def name_match_def strncmp_eq_comm)
  then show ?thesis
    using active_index_SomeD [OF ab(1)] active_index_SomeD [OF ab(2)]
    by (auto simp: syn_model_is_loaded_def syn_model_get_info_def split: option.splits)
qed

definition demo_info :: "u8 list \<Rightarrow> u32 \<Rightarrow> syn_model_info" where
  "demo_info nm c = (sl_info empty_slot)\<lparr>mi_name := nm, mi_crc32 := c\<rparr>"

definition demo_registry :: "npu_stub registry" where
  "demo_registry = \<lparr>rg_slots = replicate 4 empty_slot, rg_resident = None, rg_swaps = 0,
     rg_last_us = 0, rg_last_swap_us = 0, rg_hal = demo_stub\<rparr>"

lemma demo_registry_wf: "registry_wf demo_registry"
  by (simp add: demo_registry_def registry_wf_def names_unique_def slot_ok_def empty_slot_def)

definition demo_reg1 :: "npu_stub registry" where
  "demo_reg1 = snd (syn_model_register (Some (demo_info [107, 119, 115] 7)) True demo_registry)"

lemma demo_reg1_eq: "syn_model_register (Some (demo_info [107, 119, 115] 7)) True demo_registry = (Ok 1, demo_reg1)"
  and demo_reg1_info: "syn_model_get_info 1 True demo_reg1 = Ok (demo_info [107, 119, 115] 7)"
  by (simp_all add: demo_reg1_def syn_model_register_def demo_registry_def empty_slot_def name_match_def
      syn_model_get_info_def active_index_def handle_to_index_def replicate_num)

theorem registry_names_unique_witness:
  "\<forall>h. \<not> (syn_model_is_loaded h demo_reg1 \<and> \<not> is_ok (syn_model_get_info h True demo_reg1))"
proof -
  have "reg_reach (stub_ops 64 (\<lambda>_. demo_blob)) (\<lambda>_. 7) demo_registry demo_reg1"
    unfolding demo_reg1_def by (intro reg_reach.register reg_reach.start)
  from registry_names_unique [OF this demo_registry_wf demo_reg1_info demo_reg1_info strncmp_eq_refl]
  show ?thesis by blast
qed

text \<open>
  Registering succeeds exactly when no active model has the name and a slot is free; the
  new handle was not in use, the name and the metadata are found again under it, the model is
  not loaded, and every other handle reads as before.
\<close>

theorem register_then_lookup:
  assumes "registry_wf g"
  shows "(case syn_model_register (Some nfo) True g of
      (Inr h, g') \<Rightarrow> syn_model_get_info h True g = Err EINVAL \<and>
         syn_model_get_by_name (Some (mi_name nfo)) True g' = Ok h \<and>
         syn_model_get_info h True g' = Ok nfo \<and> \<not> syn_model_is_loaded h g' \<and>
         (\<forall>k. k \<noteq> h \<longrightarrow> syn_model_get_info k True g' = syn_model_get_info k True g)
    | (Inl e, g') \<Rightarrow> g' = g \<and>
         (if syn_model_get_by_name (Some (mi_name nfo)) True g = Err ENOENT
          then e = ENOMEM \<and> (\<forall>s \<in> set (rg_slots g). sl_active s) else e = EEXIST))"
proof (cases "first_index (name_match (mi_name nfo)) (rg_slots g)")
  case None
  show ?thesis
  proof (cases "first_index (\<lambda>s. \<not> sl_active s) (rg_slots g)")
    case None2: None
    then have "\<forall>s \<in> set (rg_slots g). sl_active s" by simp
    then show ?thesis using None None2
      by (simp add: syn_model_register_def syn_model_get_by_name_def del: first_index_None)
  next
    case (Some i)
    let ?s = "\<lparr>sl_active = True, sl_loaded = False, sl_info = nfo, sl_data = None, sl_data_size = 0\<rparr>"
    have i: "i < length (rg_slots g)" "\<not> sl_active (rg_slots g ! i)"
      using first_index_SomeD [OF Some] by simp_all
    have "\<not> name_match (mi_name nfo) (rg_slots g ! j)" if "j < i" for j
      using None i(1) that by simp
    then have f: "first_index (name_match (mi_name nfo)) ((rg_slots g)[i := ?s]) = Some i"
      using i by (intro first_index_SomeI) (auto simp: name_match_def)
    have "syn_model_get_info k True (set_slot i ?s g) = syn_model_get_info k True g" if "k \<noteq> Suc i" for k
      using that i
      by (cases k) (auto simp: syn_model_get_info_def active_index_def handle_to_index_def nth_list_update)
    then show ?thesis
      using None Some i f
      by (simp add: syn_model_register_def syn_model_get_by_name_def syn_model_get_info_def
          syn_model_is_loaded_def)
  qed
next
  case (Some i)
  then show ?thesis by (simp add: syn_model_register_def syn_model_get_by_name_def)
qed

theorem register_then_lookup_witness:
  "syn_model_get_by_name (Some [107, 119, 115]) True demo_reg1 = Ok 1"
  using register_then_lookup [OF demo_registry_wf, of "demo_info [107, 119, 115] 7"]
  by (simp add: demo_reg1_eq) (simp add: demo_info_def)

text \<open>
  C30: a load that succeeds on a model with attached data leaves that data resident in the NPU
  backend, and only after its CRC-32 was recomputed and matched, when the metadata carries one;
  a model that is not loaded is never made resident for a job, and a resident pointer always
  means that the backend holds a model.
\<close>

theorem load_is_crc_gated:
  assumes "reg_reach (stub_ops act_max blob) crc g0 g" "registry_wf g0" "resident_backed stub_model g0"
    and "active_index g h = Some idx" "sl_data (rg_slots g ! idx) = Some p"
  shows "(case syn_model_load (stub_ops act_max blob) crc rd h g of (res, g') \<Rightarrow>
      resident_backed stub_model g' \<and>
      (if is_ok res then syn_model_is_loaded h g' \<and> rg_resident g' = Some p \<and>
          stub_model (rg_hal g') = Some (sl_data_size (rg_slots g ! idx)) \<and>
          (mi_crc32 (sl_info (rg_slots g ! idx)) = 0 \<or>
           crc (rd p (sl_data_size (rg_slots g ! idx))) = mi_crc32 (sl_info (rg_slots g ! idx)))
       else syn_model_is_loaded h g' = syn_model_is_loaded h g)) \<and>
    (\<not> syn_model_is_loaded h g \<longrightarrow>
       syn_model_ensure_resident (stub_ops act_max blob) crc rd us h g = (Err ENOEXEC, g))"
proof -
  let ?ops = "stub_ops act_max blob"
  have wf: "registry_wf g" by (rule reg_reach_wf [OF assms(1,2)])
  have bk: "resident_backed stub_model g" by (rule stub.reach_backed [OF assms(1,3)])
  note a = active_index_SomeD [OF assms(4)]
  have sz: "0 < sl_data_size (rg_slots g ! idx)"
    using slot_ok_nth [OF wf, of idx] a assms(5) by (simp add: slot_ok_def)
  obtain res g' where l: "syn_model_load ?ops crc rd h g = (res, g')" by (cases "syn_model_load ?ops crc rd h g")
  show ?thesis
  proof (cases "sl_loaded (rg_slots g ! idx)")
    case True
    then show ?thesis using l bk assms(4) by (auto simp: syn_model_load_def syn_model_is_loaded_def)
  next
    case False
    then have d: "model_do_load ?ops crc rd idx g = (res, g')"
      using l assms(4) by (simp add: syn_model_load_def)
    have bk': "resident_backed stub_model g'" by (rule stub.do_load_backed [OF bk d])
    note sl = do_load_slots [OF d]
    have ai: "active_index g' h = Some idx"
      using a sl by (auto simp: active_index_def handle_to_index_def)
    have ok: "rg_resident g' = Some p \<and> stub_model (rg_hal g') = Some (sl_data_size (rg_slots g ! idx)) \<and>
        (mi_crc32 (sl_info (rg_slots g ! idx)) = 0 \<or>
         crc (rd p (sl_data_size (rg_slots g ! idx))) = mi_crc32 (sl_info (rg_slots g ! idx)))" if okr: "is_ok res"
    proof -
      obtain g1 where g1: "model_hal_load ?ops crc rd idx g = (Ok (), g1)"
        and e: "rg_resident g' = rg_resident g1" "rg_hal g' = rg_hal g1"
        using d okr by (auto simp: model_do_load_def split: prod.splits sum.splits)
      show ?thesis using stub.hal_load_resident [OF g1 assms(5) sz] e by simp
    qed
    show ?thesis using l bk' ok sl ai assms(4) a False
      by (auto simp: syn_model_is_loaded_def syn_model_ensure_resident_def)
  qed
qed

definition demo_reg2 :: "npu_stub registry" where
  "demo_reg2 = snd (syn_model_set_data 1 (Some 4096) 12 demo_reg1)"

lemma demo_reg2_slot: "active_index demo_reg2 1 = Some 0" "sl_data (rg_slots demo_reg2 ! 0) = Some 4096"
  by (simp_all add: demo_reg2_def demo_reg1_def syn_model_register_def demo_registry_def empty_slot_def
      name_match_def syn_model_set_data_def active_index_def handle_to_index_def replicate_num)

lemma demo_reg2_reach: "reg_reach (stub_ops 64 (\<lambda>_. demo_blob)) crc demo_registry demo_reg2"
  unfolding demo_reg2_def demo_reg1_def
  by (intro reg_reach.set_data reg_reach.register reg_reach.start)

lemma demo_registry_backed: "resident_backed stub_model demo_registry"
  by (simp add: resident_backed_def demo_registry_def)

theorem load_is_crc_gated_witness:
  "syn_model_ensure_resident (stub_ops 64 (\<lambda>_. demo_blob)) (\<lambda>_. 7) (\<lambda>_ _. []) 0 1 demo_reg2 = (Err ENOEXEC, demo_reg2)"
  using load_is_crc_gated [OF demo_reg2_reach demo_registry_wf demo_registry_backed demo_reg2_slot,
      of "\<lambda>_. 7" "\<lambda>_ _. []" 0]
  by (simp add: syn_model_is_loaded_def demo_reg2_slot)
    (simp add: demo_reg2_def demo_reg1_def syn_model_register_def demo_registry_def empty_slot_def
      name_match_def syn_model_set_data_def active_index_def handle_to_index_def replicate_num)

text \<open>
  While a suspended job still refers to a model, neither unload nor unregister changes
  anything: both are refused with EBUSY.
\<close>

theorem suspended_model_is_pinned:
  assumes "active_index g h = Some idx" "sl_loaded (rg_slots g ! idx)" "susp h"
  shows "syn_model_unload ops susp h g = (Err EBUSY, g) \<and> syn_model_unregister ops susp h g = (Err EBUSY, g)"
  using assms by (simp add: syn_model_unload_def syn_model_unregister_def Let_def)

definition demo_reg3 :: "npu_stub registry" where
  "demo_reg3 = snd (syn_model_load (stub_ops 64 (\<lambda>_. demo_blob)) (\<lambda>_. 7) (\<lambda>_ _. []) 1 demo_reg2)"

lemmas demo_reg_eval = demo_reg3_def demo_reg2_def demo_reg1_def syn_model_register_def demo_registry_def
  empty_slot_def name_match_def syn_model_set_data_def active_index_def handle_to_index_def replicate_num
  syn_model_load_def model_do_load_def model_hal_load_def demo_info_def Let_def stub_ops_def
  syn_hal_npu_load_model_def demo_stub_def

theorem suspended_model_is_pinned_witness:
  "fst (syn_model_unload (stub_ops 64 (\<lambda>_. demo_blob)) (\<lambda>h. h = 1) 1 demo_reg3) = Err EBUSY"
proof -
  have "active_index demo_reg3 1 = Some 0" "sl_loaded (rg_slots demo_reg3 ! 0)"
    by (simp_all add: demo_reg_eval)
  from suspended_model_is_pinned [OF this, of "\<lambda>h. h = 1"] show ?thesis by simp
qed

text \<open>
  When a swap between two registered models fails after its argument checks, neither model
  is loaded any more and the registry still records the old data as resident or nothing: the
  old model does not stay authoritative.
\<close>

theorem failed_swap_unloads_both:
  assumes "active_index g ho = Some i" "active_index g hn = Some j" "ho \<noteq> hn"
    and "syn_model_swap ops crc rd us ho hn g = (Inl e, g')"
  shows "\<not> syn_model_is_loaded ho g' \<and> \<not> syn_model_is_loaded hn g'"
proof -
  note a = active_index_SomeD [OF assms(1)] active_index_SomeD [OF assms(2)]
  have ij: "i \<noteq> j" using a assms(3) by auto
  let ?g1 = "set_slot i ((rg_slots g ! i)\<lparr>sl_loaded := False\<rparr>) g"
  have nl: "\<not> sl_loaded (rg_slots g ! j)" and d: "\<exists>g2. model_do_load ops crc rd j ?g1 = (Inl e, g2) \<and> rg_slots g' = rg_slots g2"
    using assms(1,2,4) ij by (auto simp: syn_model_swap_def Let_def split: if_splits prod.splits)
  then have "rg_slots g' = rg_slots ?g1" using do_load_slots by fastforce
  then show ?thesis using a ij nl
    by (simp add: syn_model_is_loaded_def active_index_def handle_to_index_def)
qed

definition demo_reg4 :: "npu_stub registry" where
  "demo_reg4 = snd (syn_model_set_data 2 (Some 8192) 12
     (snd (syn_model_register (Some (demo_info [118] 9)) True demo_reg3)))"

theorem failed_swap_unloads_both_witness:
  "syn_model_is_loaded 1 demo_reg4 \<and>
   \<not> syn_model_is_loaded 1 (snd (syn_model_swap (stub_ops 64 (\<lambda>_. demo_blob)) (\<lambda>_. 7) (\<lambda>_ _. []) 0 1 2 demo_reg4))"
proof -
  have a: "active_index demo_reg4 1 = Some 0" "active_index demo_reg4 2 = Some 1" "syn_model_is_loaded 1 demo_reg4"
    and r: "fst (syn_model_swap (stub_ops 64 (\<lambda>_. demo_blob)) (\<lambda>_. 7) (\<lambda>_ _. []) 0 1 2 demo_reg4) = Err EILSEQ"
    by (simp_all add: demo_reg4_def demo_reg_eval syn_model_is_loaded_def syn_model_swap_def strncmp_eq_def cstr_def)
  obtain g' where "syn_model_swap (stub_ops 64 (\<lambda>_. demo_blob)) (\<lambda>_. 7) (\<lambda>_ _. []) 0 1 2 demo_reg4 = (Inl EILSEQ, g')"
    using r by (cases "syn_model_swap (stub_ops 64 (\<lambda>_. demo_blob)) (\<lambda>_. 7) (\<lambda>_ _. []) 0 1 2 demo_reg4") auto
  from failed_swap_unloads_both [OF a(1,2) _ this] a(3) this show ?thesis by simp
qed

end
