(* ===== verification/Synn.thy ===== *)
theory Synn
  imports Syn_Prelude
begin

text \<open>
  The container of compiled NPU models, \<open>src/core/syn_synn.c\<close>: a 48-byte header and three sections.
  A section pointer of the descriptor is its offset from the blob; sizes are 32-bit, their sums are
  taken in 64 bits by the code and as naturals here.
\<close>

unbundle bit_operations_syntax

abbreviation (input) SYN_SYNN_MAGIC :: u32 where "SYN_SYNN_MAGIC \<equiv> 0x4E4E5953"
abbreviation (input) SYN_SYNN_VERSION :: u32 where "SYN_SYNN_VERSION \<equiv> 1"
abbreviation (input) SYN_SYNN_HDR_SIZE :: nat where "SYN_SYNN_HDR_SIZE \<equiv> 48"

record syn_synn_hdr =
  sn_magic :: u32
  sn_version :: u32
  sn_microcode_off :: u32
  sn_microcode_size :: u32
  sn_weights_off :: u32
  sn_weights_size :: u32
  sn_kernels_off :: u32
  sn_kernels_size :: u32
  sn_input_size :: u32
  sn_output_size :: u32
  sn_scratch_size :: u32
  sn_flags :: u32

record syn_synn_desc =
  sd_microcode :: nat
  sd_weights :: nat
  sd_kernels :: nat
  sd_microcode_size :: u32
  sd_weights_size :: u32
  sd_kernels_size :: u32
  sd_input_size :: u32
  sd_output_size :: u32
  sd_scratch_size :: u32

text \<open>The \<open>memcpy\<close> into the structure, and the layout it assumes.\<close>

definition synn_hdr_of :: "u8 list \<Rightarrow> syn_synn_hdr" where
  "synn_hdr_of d = \<lparr>sn_magic = get32 d 0, sn_version = get32 d 4, sn_microcode_off = get32 d 8,
     sn_microcode_size = get32 d 12, sn_weights_off = get32 d 16, sn_weights_size = get32 d 20,
     sn_kernels_off = get32 d 24, sn_kernels_size = get32 d 28, sn_input_size = get32 d 32,
     sn_output_size = get32 d 36, sn_scratch_size = get32 d 40, sn_flags = get32 d 44\<rparr>"

definition synn_hdr_bytes :: "syn_synn_hdr \<Rightarrow> u8 list" where
  "synn_hdr_bytes h = concat (map le32 [sn_magic h, sn_version h, sn_microcode_off h, sn_microcode_size h, sn_weights_off h,
     sn_weights_size h, sn_kernels_off h, sn_kernels_size h, sn_input_size h, sn_output_size h, sn_scratch_size h, sn_flags h])"

definition section_out :: "u32 \<Rightarrow> u32 \<Rightarrow> nat \<Rightarrow> bool" where
  "section_out off len sz \<longleftrightarrow> unat off + unat len > sz"

definition syn_synn_parse :: "u8 list option \<Rightarrow> nat \<Rightarrow> bool \<Rightarrow> syn_synn_desc res" where
  "syn_synn_parse data sz desc =
     (if data = None \<or> \<not> desc then Err EINVAL
      else if sz < SYN_SYNN_HDR_SIZE then Err ENOTSUP
      else
        let hdr = synn_hdr_of (the data) in
        if sn_magic hdr \<noteq> SYN_SYNN_MAGIC then Err ENOTSUP
        else if sn_version hdr \<noteq> SYN_SYNN_VERSION then Err EINVAL
        else if sn_flags hdr \<noteq> 0 then Err EINVAL
        else if section_out (sn_microcode_off hdr) (sn_microcode_size hdr) sz \<or>
                section_out (sn_weights_off hdr) (sn_weights_size hdr) sz \<or>
                section_out (sn_kernels_off hdr) (sn_kernels_size hdr) sz then Err EINVAL
        else if (sn_microcode_off hdr OR sn_weights_off hdr OR sn_kernels_off hdr) AND 0xF \<noteq> 0 then Err EINVAL
        else if sn_input_size hdr = 0 \<or> sn_output_size hdr = 0 then Err EINVAL
        else Ok \<lparr>sd_microcode = unat (sn_microcode_off hdr), sd_weights = unat (sn_weights_off hdr),
            sd_kernels = unat (sn_kernels_off hdr), sd_microcode_size = sn_microcode_size hdr,
            sd_weights_size = sn_weights_size hdr, sd_kernels_size = sn_kernels_size hdr, sd_input_size = sn_input_size hdr,
            sd_output_size = sn_output_size hdr, sd_scratch_size = sn_scratch_size hdr\<rparr>)"

section \<open>Correctness\<close>

lemma align16: "(w :: u32) AND 0xF = 0 \<longleftrightarrow> unat w mod 16 = 0"
proof -
  have "(w AND 0xF) = take_bit 4 w" by (simp add: take_bit_eq_mask mask_eq_exp_minus_1)
  then have "unat (w AND 0xF) = unat w mod 16" by (simp add: unsigned_take_bit_eq take_bit_nat_def)
  then show ?thesis by (metis unsigned_0 unat_eq_0)
qed

lemma or_align16: "((a :: u32) OR b OR c) AND 0xF = 0 \<longleftrightarrow> unat a mod 16 = 0 \<and> unat b mod 16 = 0 \<and> unat c mod 16 = 0"
  by (simp add: bit.conj_disj_distrib2 or_eq_0_iff align16)

lemma synn_roundtrip_hdr: "synn_hdr_of (synn_hdr_bytes h @ rest) = h"
  by (simp add: synn_hdr_of_def synn_hdr_bytes_def get32_def le32_def nth_append join32)

lemma synn_hdr_length: "length (synn_hdr_bytes h) = SYN_SYNN_HDR_SIZE"
  by (simp add: synn_hdr_bytes_def)

definition synn_sections :: "syn_synn_hdr \<Rightarrow> (u32 \<times> u32) list" where
  "synn_sections h = [(sn_microcode_off h, sn_microcode_size h), (sn_weights_off h, sn_weights_size h),
     (sn_kernels_off h, sn_kernels_size h)]"

text \<open>
  C36: a blob laid out from a header is accepted exactly when the header is sound: magic, version, no
  flags, non-empty input and output, every section aligned and, without wrap-around, inside the blob;
  and then the descriptor gives back every field, so its sections are read within the blob.
\<close>

theorem synn_accepts_exactly_the_sound_blobs:
  fixes h :: syn_synn_hdr and rest :: "u8 list"
  defines "blob \<equiv> synn_hdr_bytes h @ rest"
  shows "(case syn_synn_parse (Some blob) (length blob) True of
      Inr d \<Rightarrow> (sn_magic h = SYN_SYNN_MAGIC \<and> sn_version h = SYN_SYNN_VERSION \<and> sn_flags h = 0 \<and>
          sn_input_size h \<noteq> 0 \<and> sn_output_size h \<noteq> 0 \<and>
          list_all (\<lambda>(off, len). unat off mod 16 = 0 \<and> unat off + unat len \<le> length blob) (synn_sections h)) \<and>
        [(sd_microcode d, sd_microcode_size d), (sd_weights d, sd_weights_size d), (sd_kernels d, sd_kernels_size d)] =
          map (apfst unat) (synn_sections h) \<and>
        sd_input_size d = sn_input_size h \<and> sd_output_size d = sn_output_size h \<and> sd_scratch_size d = sn_scratch_size h
    | Inl e \<Rightarrow> \<not> (sn_magic h = SYN_SYNN_MAGIC \<and> sn_version h = SYN_SYNN_VERSION \<and> sn_flags h = 0 \<and>
          sn_input_size h \<noteq> 0 \<and> sn_output_size h \<noteq> 0 \<and>
          list_all (\<lambda>(off, len). unat off mod 16 = 0 \<and> unat off + unat len \<le> length blob) (synn_sections h)) \<and>
        (e = ENOTSUP \<longleftrightarrow> sn_magic h \<noteq> SYN_SYNN_MAGIC))"
proof -
  have hdr: "synn_hdr_of blob = h" by (simp add: blob_def synn_roundtrip_hdr)
  have len: "\<not> length blob < SYN_SYNN_HDR_SIZE" by (simp add: blob_def synn_hdr_length)
  show ?thesis unfolding syn_synn_parse_def option.sel Let_def hdr if_not_P [OF len]
    by (simp add: synn_sections_def section_out_def or_align16 not_less)
qed

end
