(* ===== verification/Npu_Neutron.thy ===== *)
theory Npu_Neutron
  imports Model_Registry Synn
begin

text \<open>
  The backend of the eIQ Neutron NPU, \<open>src/hal/mcxn947/syn_hal_npu_neutron.c\<close>, and its
  interpretation of the session interface \<open>npu_hal\<close>. The vendor's driver is a record of functions over
  a state of its own, with the two buffer sizes of the build; without it (\<open>None\<close>) the build only has
  the software path.
\<close>

section \<open>The driver and the state\<close>

abbreviation (input) NEUTRON_MAX_MODEL_SIZE :: nat where "NEUTRON_MAX_MODEL_SIZE \<equiv> 450496"
abbreviation (input) NEUTRON_MAX_INPUT_SIZE :: nat where "NEUTRON_MAX_INPUT_SIZE \<equiv> 27648"
abbreviation (input) NEUTRON_MAX_OUTPUT_SIZE :: nat where "NEUTRON_MAX_OUTPUT_SIZE \<equiv> 256"

record neutron_mcfg =
  mc_microcode :: u32
  mc_weights :: u32
  mc_kernels :: u32

text \<open>
  A function of the driver says whether it returned \<open>ENONE\<close>. A run gets the prepared configuration
  and the input buffer, and gives the content of the output buffer after it.
\<close>

record 'd neutron_env =
  nv_init :: "'d \<Rightarrow> bool \<times> 'd"
  nv_deinit :: "'d \<Rightarrow> bool \<times> 'd"
  nv_ctx_need :: nat
  nv_prepare :: "neutron_mcfg \<Rightarrow> 'd \<Rightarrow> bool \<times> 'd"
  nv_unprepare :: "'d \<Rightarrow> bool \<times> 'd"
  nv_run :: "neutron_mcfg \<Rightarrow> u8 list \<Rightarrow> u8 list \<Rightarrow> 'd \<Rightarrow> bool \<times> u8 list \<times> 'd"
  nv_suspend :: "'d \<Rightarrow> bool \<times> 'd"
  nv_resume :: "'d \<Rightarrow> bool \<times> 'd"
  nv_ctx_max :: nat
  nv_scratch_max :: nat

record 'd npu_neutron =
  nn_state :: syn_npu_state
  nn_model_loaded :: bool
  nn_model_size :: nat
  nn_model_data :: "nat option"
  nn_input_buf :: "u8 list"
  nn_input_size :: nat
  nn_output_buf :: "u8 list"
  nn_output_size :: nat
  nn_initialized :: bool
  nn_hw_ok :: bool
  nn_prepared :: bool
  nn_mcfg :: neutron_mcfg
  nn_desc_input :: u32
  nn_desc_output :: u32
  nn_drv :: 'd
  nn_layered :: layered

section \<open>Operations\<close>

definition npu_addr :: "nat \<Rightarrow> u32" where
  "npu_addr p = of_nat p AND NOT (push_bit 28 1)"

definition neutron_unprepare :: "'d neutron_env \<Rightarrow> 'd npu_neutron \<Rightarrow> unit res \<times> 'd npu_neutron" where
  "neutron_unprepare N h =
     (if \<not> nn_prepared h then (Ok (), h)
      else let (ok, d) = nv_unprepare N (nn_drv h); h1 = h\<lparr>nn_prepared := False, nn_drv := d\<rparr>
        in if ok then (Ok (), h1) else (Err EIO, h1))"

definition neutron_prepare ::
  "'d neutron_env \<Rightarrow> (nat \<Rightarrow> u8 list) \<Rightarrow> nat \<Rightarrow> nat \<Rightarrow> 'd npu_neutron \<Rightarrow> unit res \<times> 'd npu_neutron" where
  "neutron_prepare N blob data sz h =
     (case syn_synn_parse (Some (blob data)) sz True of
        Inl e \<Rightarrow> (Err e, h)
      | Inr desc \<Rightarrow>
          if \<not> nn_hw_ok h then (Err ENODEV, h)
          else if unat (sd_input_size desc) > NEUTRON_MAX_INPUT_SIZE \<or> unat (sd_output_size desc) > NEUTRON_MAX_OUTPUT_SIZE then (Err EINVAL, h)
          else if unat (sd_scratch_size desc) > nv_scratch_max N then (Err ENOMEM, h)
          else if nv_ctx_need N > nv_ctx_max N then (Err ENOMEM, h)
          else
            (case neutron_unprepare N h of
               (Inl e, h1) \<Rightarrow> (Err e, h1)
             | (Inr _, h1) \<Rightarrow>
                 let cfg = \<lparr>mc_microcode = npu_addr (data + sd_microcode desc), mc_weights = npu_addr (data + sd_weights desc),
                            mc_kernels = npu_addr (data + sd_kernels desc)\<rparr>;
                     (ok, d) = nv_prepare N cfg (nn_drv h1); h2 = h1\<lparr>nn_mcfg := cfg, nn_drv := d\<rparr>
                 in if \<not> ok then (Err EIO, h2)
                    else (Ok (), h2\<lparr>nn_prepared := True, nn_desc_input := sd_input_size desc, nn_desc_output := sd_output_size desc\<rparr>)))"

definition neutron_npu_init :: "'d neutron_env option \<Rightarrow> 'd npu_neutron \<Rightarrow> unit res \<times> 'd npu_neutron" where
  "neutron_npu_init drv h =
     (if nn_initialized h then (Err EALREADY, h)
      else
        let h1 = h\<lparr>nn_model_loaded := False, nn_model_size := 0, nn_model_data := None,
              nn_input_buf := replicate NEUTRON_MAX_INPUT_SIZE 0, nn_input_size := 0,
              nn_output_buf := replicate NEUTRON_MAX_OUTPUT_SIZE 0, nn_output_size := 0\<rparr>;
            h2 = (case drv of None \<Rightarrow> h1
                  | Some N \<Rightarrow>
                      let (ok, d) = nv_init N (nn_drv h1)
                      in h1\<lparr>nn_hw_ok := ok, nn_prepared := False, nn_mcfg := \<lparr>mc_microcode = 0, mc_weights = 0, mc_kernels = 0\<rparr>,
                            nn_desc_input := 0, nn_desc_output := 0, nn_drv := d\<rparr>)
        in (Ok (), h2\<lparr>nn_state := SYN_NPU_STATE_IDLE, nn_initialized := True\<rparr>))"

definition neutron_npu_deinit :: "'d neutron_env option \<Rightarrow> 'd npu_neutron \<Rightarrow> 'd npu_neutron" where
  "neutron_npu_deinit drv h =
     (let h1 = (case drv of None \<Rightarrow> h
                | Some N \<Rightarrow>
                    if nn_hw_ok h then
                      let h0 = snd (neutron_unprepare N h) in h0\<lparr>nn_drv := snd (nv_deinit N (nn_drv h0)), nn_hw_ok := False\<rparr>
                    else h)
      in h1\<lparr>nn_initialized := False, nn_state := SYN_NPU_STATE_IDLE, nn_model_loaded := False\<rparr>)"

definition neutron_npu_get_caps :: "nat \<Rightarrow> bool \<Rightarrow> syn_npu_caps res" where
  "neutron_npu_get_caps scratch_pool caps_ptr =
     (if \<not> caps_ptr then Err EINVAL
      else Ok \<lparr>nc_max_ops_per_sec = 100000000, nc_scratch_size = scratch_pool, nc_supported_dtypes = 0x03, nc_supports_async = True\<rparr>)"

definition neutron_npu_get_state :: "'d npu_neutron \<Rightarrow> syn_npu_state" where
  "neutron_npu_get_state h = nn_state h"

text \<open>The software path of a load: whatever is no container of the NPU.\<close>

definition neutron_load_stub ::
  "nat \<Rightarrow> (nat \<Rightarrow> u8 list) \<Rightarrow> nat \<Rightarrow> nat \<Rightarrow> 'd npu_neutron \<Rightarrow> unit res \<times> 'd npu_neutron" where
  "neutron_load_stub act_max blob p sz h =
     (Ok (), h\<lparr>nn_model_data := Some p, nn_model_size := sz, nn_model_loaded := True,
        nn_layered := syn_npu_layered_on_load act_max blob (Some p) sz (nn_layered h)\<rparr>)"

definition neutron_npu_load_model ::
  "'d neutron_env option \<Rightarrow> nat \<Rightarrow> (nat \<Rightarrow> u8 list) \<Rightarrow> nat option \<Rightarrow> nat \<Rightarrow> 'd npu_neutron \<Rightarrow> unit res \<times> 'd npu_neutron" where
  "neutron_npu_load_model drv act_max blob model_data model_size h =
     (case model_data of None \<Rightarrow> (Err EINVAL, h)
      | Some p \<Rightarrow>
          if model_size = 0 then (Err EINVAL, h)
          else if \<not> nn_initialized h then (Err EPERM, h)
          else if nn_state h = SYN_NPU_STATE_BUSY then (Err EBUSY, h)
          else if model_size > NEUTRON_MAX_MODEL_SIZE then (Err ENOMEM, h)
          else (case drv of None \<Rightarrow> neutron_load_stub act_max blob p model_size h
            | Some N \<Rightarrow>
                (case neutron_prepare N blob p model_size h of
                   (Inr _, h1) \<Rightarrow> (Ok (), h1\<lparr>nn_model_data := Some p, nn_model_size := model_size, nn_model_loaded := True\<rparr>)
                 | (Inl e, h1) \<Rightarrow>
                     if e \<noteq> ENOTSUP then (Err e, h1)
                     else neutron_load_stub act_max blob p model_size (snd (neutron_unprepare N h1)))))"

definition neutron_npu_unload_model ::
  "'d neutron_env option \<Rightarrow> nat \<Rightarrow> (nat \<Rightarrow> u8 list) \<Rightarrow> 'd npu_neutron \<Rightarrow> unit res \<times> 'd npu_neutron" where
  "neutron_npu_unload_model drv act_max blob h =
     (if \<not> nn_initialized h then (Err EPERM, h)
      else if nn_state h = SYN_NPU_STATE_BUSY then (Err EBUSY, h)
      else
        let h1 = (case drv of None \<Rightarrow> h | Some N \<Rightarrow> snd (neutron_unprepare N h))
        in (Ok (), h1\<lparr>nn_model_loaded := False, nn_model_data := None, nn_model_size := 0,
              nn_layered := syn_npu_layered_on_load act_max blob None 0 (nn_layered h1)\<rparr>))"

definition neutron_npu_set_input :: "nat \<Rightarrow> u8 list option \<Rightarrow> nat \<Rightarrow> 'd npu_neutron \<Rightarrow> unit res \<times> 'd npu_neutron" where
  "neutron_npu_set_input index data sz h =
     (case data of None \<Rightarrow> (Err EINVAL, h)
      | Some bytes \<Rightarrow>
          if sz = 0 \<or> index \<noteq> 0 then (Err EINVAL, h)
          else if \<not> nn_initialized h \<or> \<not> nn_model_loaded h then (Err EPERM, h)
          else if nn_state h = SYN_NPU_STATE_BUSY then (Err EBUSY, h)
          else if sz > NEUTRON_MAX_INPUT_SIZE then (Err ENOMEM, h)
          else (Ok (), h\<lparr>nn_input_buf := blit 0 (take sz bytes) (nn_input_buf h), nn_input_size := sz\<rparr>))"

text \<open>The run of a prepared model, and the software classification of any other.\<close>

definition neutron_run :: "'d neutron_env \<Rightarrow> 'd npu_neutron \<Rightarrow> unit res \<times> 'd npu_neutron" where
  "neutron_run N h =
     (if of_nat (nn_input_size h) \<noteq> nn_desc_input h then (Err EINVAL, h\<lparr>nn_state := SYN_NPU_STATE_IDLE\<rparr>)
      else
        let (ok, out, d) = nv_run N (nn_mcfg h) (nn_input_buf h) (nn_output_buf h) (nn_drv h);
            h1 = h\<lparr>nn_output_buf := out, nn_drv := d\<rparr>
        in if \<not> ok then (Err EIO, h1\<lparr>nn_state := SYN_NPU_STATE_ERROR\<rparr>)
           else (Ok (), h1\<lparr>nn_output_size := unat (nn_desc_output h1), nn_state := SYN_NPU_STATE_IDLE\<rparr>))"

definition neutron_classify :: "'d npu_neutron \<Rightarrow> unit res \<times> 'd npu_neutron" where
  "neutron_classify h =
     (let zeroed = blit 0 (replicate 10 0) (nn_output_buf h); winner = stub_winner (take (nn_input_size h) (nn_input_buf h))
      in (Ok (), h\<lparr>nn_output_size := 10, nn_output_buf := zeroed[winner := 127], nn_state := SYN_NPU_STATE_IDLE\<rparr>))"

definition neutron_npu_invoke :: "'d neutron_env option \<Rightarrow> 'd npu_neutron \<Rightarrow> unit res \<times> 'd npu_neutron" where
  "neutron_npu_invoke drv h =
     (if \<not> nn_initialized h \<or> \<not> nn_model_loaded h then (Err EPERM, h)
      else if nn_state h = SYN_NPU_STATE_BUSY then (Err EBUSY, h)
      else
        let h1 = h\<lparr>nn_state := SYN_NPU_STATE_BUSY\<rparr>
        in (case drv of None \<Rightarrow> neutron_classify h1
            | Some N \<Rightarrow> if nn_prepared h1 then neutron_run N h1 else neutron_classify h1))"

definition neutron_npu_invoke_async :: "'d npu_neutron \<Rightarrow> unit res \<times> 'd npu_neutron" where
  "neutron_npu_invoke_async h = (Err ENOTSUP, h)"

definition neutron_npu_get_output :: "nat \<Rightarrow> bool \<Rightarrow> nat option \<Rightarrow> 'd npu_neutron \<Rightarrow> u8 list res" where
  "neutron_npu_get_output index data_ptr sz h =
     (if \<not> data_ptr \<or> sz = None \<or> index \<noteq> 0 then Err EINVAL
      else if \<not> nn_initialized h then Err EPERM
      else if nn_state h = SYN_NPU_STATE_BUSY then Err EBUSY
      else Ok (take (nn_output_size h) (nn_output_buf h)))"

definition neutron_npu_suspend :: "'d neutron_env option \<Rightarrow> 'd npu_neutron \<Rightarrow> unit res \<times> 'd npu_neutron" where
  "neutron_npu_suspend drv h =
     (if \<not> nn_initialized h then (Err EPERM, h)
      else (case drv of
          Some N \<Rightarrow>
            if nn_hw_ok h then
              let (ok, d) = nv_suspend N (nn_drv h); h1 = h\<lparr>nn_drv := d\<rparr>
              in if ok then (Ok (), h1\<lparr>nn_state := SYN_NPU_STATE_SUSPENDED\<rparr>) else (Err EIO, h1)
            else (Ok (), h\<lparr>nn_state := SYN_NPU_STATE_SUSPENDED\<rparr>)
        | None \<Rightarrow> (Ok (), h\<lparr>nn_state := SYN_NPU_STATE_SUSPENDED\<rparr>)))"

definition neutron_npu_resume :: "'d neutron_env option \<Rightarrow> 'd npu_neutron \<Rightarrow> unit res \<times> 'd npu_neutron" where
  "neutron_npu_resume drv h =
     (if \<not> nn_initialized h then (Err EPERM, h)
      else if nn_state h \<noteq> SYN_NPU_STATE_SUSPENDED then (Err EINVAL, h)
      else (case drv of
          Some N \<Rightarrow>
            if nn_hw_ok h then
              let (ok, d) = nv_resume N (nn_drv h); h1 = h\<lparr>nn_drv := d\<rparr>
              in if ok then (Ok (), h1\<lparr>nn_state := SYN_NPU_STATE_IDLE\<rparr>) else (Err EIO, h1)
            else (Ok (), h\<lparr>nn_state := SYN_NPU_STATE_IDLE\<rparr>)
        | None \<Rightarrow> (Ok (), h\<lparr>nn_state := SYN_NPU_STATE_IDLE\<rparr>)))"

section \<open>The session interface\<close>

definition neutron_ops :: "'d neutron_env option \<Rightarrow> nat \<Rightarrow> (nat \<Rightarrow> u8 list) \<Rightarrow> 'd npu_neutron npu_ops" where
  "neutron_ops drv act_max blob = \<lparr>no_load = neutron_npu_load_model drv act_max blob,
     no_unload = neutron_npu_unload_model drv act_max blob, no_set_input = neutron_npu_set_input,
     no_invoke = neutron_npu_invoke drv, no_get_output = neutron_npu_get_output\<rparr>"

definition neutron_model :: "'d npu_neutron \<Rightarrow> nat option" where
  "neutron_model h = (if nn_model_loaded h then Some (nn_model_size h) else None)"

text \<open>The part of the state that only the operations of the interface change.\<close>

definition host_part :: "'d npu_neutron \<Rightarrow> syn_npu_state \<times> bool \<times> nat \<times> nat option \<times> u8 list \<times> nat \<times> u8 list \<times> nat \<times> bool \<times> layered" where
  "host_part h = (nn_state h, nn_model_loaded h, nn_model_size h, nn_model_data h, nn_input_buf h, nn_input_size h,
     nn_output_buf h, nn_output_size h, nn_initialized h, nn_layered h)"

lemma unprepare_frame:
  assumes "neutron_unprepare N h = (r, h')"
  shows "\<not> nn_prepared h'" "host_part h' = host_part h" "r = Ok () \<or> r = Err EIO"
  using assms by (auto simp: neutron_unprepare_def host_part_def Let_def split: if_split_asm prod.split_asm)

lemma unprepare_snd: "\<not> nn_prepared (snd (neutron_unprepare N h))" "host_part (snd (neutron_unprepare N h)) = host_part h"
  using unprepare_frame [of N h "fst (neutron_unprepare N h)" "snd (neutron_unprepare N h)"] by simp_all

lemma prepare_frame:
  assumes "neutron_prepare N blob p sz h = (r, h')"
  shows "host_part h' = host_part h"
proof -
  obtain r1 h1 where u: "neutron_unprepare N h = (r1, h1)" by fastforce
  show ?thesis using assms unprepare_frame(2) [OF u]
    by (auto simp: neutron_prepare_def u Let_def host_part_def split: if_split_asm prod.splits sum.splits)
qed

lemma prepare_io_error:
  assumes "neutron_prepare N blob p sz h = (Err EIO, h')"
  shows "\<not> nn_prepared h'"
proof -
  obtain r1 h1 where u: "neutron_unprepare N h = (r1, h1)" by fastforce
  have "syn_synn_parse (Some (blob p)) sz True \<noteq> Err EIO"
    by (simp add: syn_synn_parse_def Let_def)
  then show ?thesis using assms unprepare_frame(1) [OF u]
    by (auto simp: neutron_prepare_def u Let_def split: if_split_asm prod.splits sum.splits)
qed

lemma prepare_ok:
  assumes "neutron_prepare N blob p sz h = (Ok (), h')"
  shows "\<exists>desc. syn_synn_parse (Some (blob p)) sz True = Ok desc \<and> nn_prepared h' \<and>
    nn_desc_input h' = sd_input_size desc \<and> nn_desc_output h' = sd_output_size desc \<and>
    unat (sd_input_size desc) \<le> NEUTRON_MAX_INPUT_SIZE \<and> unat (sd_output_size desc) \<le> NEUTRON_MAX_OUTPUT_SIZE \<and>
    nn_mcfg h' = \<lparr>mc_microcode = npu_addr (p + sd_microcode desc), mc_weights = npu_addr (p + sd_weights desc),
                  mc_kernels = npu_addr (p + sd_kernels desc)\<rparr>"
proof -
  obtain r1 h1 where u: "neutron_unprepare N h = (r1, h1)" by fastforce
  show ?thesis using assms
    by (auto simp: neutron_prepare_def u Let_def split: if_split_asm prod.splits sum.splits)
qed

text \<open>What a load does, by case.\<close>

lemma neutron_load_cases:
  assumes "neutron_npu_load_model drv am blob q n h = (r, h')"
  obtains (refused) e where "r = Err e" "h' = h"
  | (failed) N p e where "drv = Some N" "q = Some p" "r = Err e" "neutron_prepare N blob p n h = (Err e, h')"
  | (npu) N p h1 where "drv = Some N" "q = Some p" "r = Ok ()" "0 < n" "neutron_prepare N blob p n h = (Ok (), h1)"
      "h' = h1\<lparr>nn_model_data := Some p, nn_model_size := n, nn_model_loaded := True\<rparr>"
  | (software) p h1 where "q = Some p" "r = Ok ()" "0 < n" "host_part h1 = host_part h" "drv \<noteq> None \<Longrightarrow> \<not> nn_prepared h1"
      "h' = h1\<lparr>nn_model_data := Some p, nn_model_size := n, nn_model_loaded := True,
        nn_layered := syn_npu_layered_on_load am blob (Some p) n (nn_layered h1)\<rparr>"
proof (cases "q = None \<or> n = 0 \<or> \<not> nn_initialized h \<or> nn_state h = SYN_NPU_STATE_BUSY \<or> n > NEUTRON_MAX_MODEL_SIZE")
  case True
  then show thesis using assms refused by (auto simp: neutron_npu_load_model_def split: option.splits if_split_asm)
next
  case False
  then obtain p where q: "q = Some p" by auto
  have n: "0 < n" using False by simp
  show thesis
  proof (cases drv)
    case None
    then show thesis using assms False q n software [of p h] by (simp add: neutron_npu_load_model_def neutron_load_stub_def)
  next
    case (Some N)
    obtain r1 h1 where p1: "neutron_prepare N blob p n h = (r1, h1)" by fastforce
    show thesis
    proof (cases r1)
      case (Inr x)
      then show thesis using assms False q n Some p1 npu [of N p h1] by (simp add: neutron_npu_load_model_def)
    next
      case (Inl e)
      show thesis
      proof (cases "e = ENOTSUP")
        case True
        have "host_part (snd (neutron_unprepare N h1)) = host_part h"
          using unprepare_snd(2) [of N h1] prepare_frame [OF p1] by simp
        then show thesis using assms False q n Some p1 Inl True software [of p "snd (neutron_unprepare N h1)"] unprepare_snd(1) [of N h1]
          by (simp add: neutron_npu_load_model_def neutron_load_stub_def)
      next
        case ne: False
        then show thesis using assms False q Some p1 Inl failed [of N p e] by (simp add: neutron_npu_load_model_def)
      qed
    qed
  qed
qed

lemma host_part_model: "host_part h' = host_part h \<Longrightarrow> neutron_model h' = neutron_model h"
  by (simp add: host_part_def neutron_model_def)

lemma neutron_run_model: "neutron_model (snd (neutron_npu_invoke drv h)) = neutron_model h"
  by (auto simp: neutron_npu_invoke_def neutron_classify_def neutron_run_def Let_def neutron_model_def split: prod.splits option.splits)

interpretation neutron: npu_hal "neutron_ops drv act_max blob" neutron_model for drv :: "'d neutron_env option" and act_max blob
proof (unfold_locales, goal_cases)
  case (1 p n h h')
  then have "neutron_npu_load_model drv act_max blob p n h = (Ok (), h')" by (simp add: neutron_ops_def)
  then show ?case by (cases rule: neutron_load_cases) (auto simp: neutron_model_def)
next
  case (2 p n h e h')
  then have "neutron_npu_load_model drv act_max blob p n h = (Err e, h')" by (simp add: neutron_ops_def)
  then show ?case by (cases rule: neutron_load_cases) (auto dest: prepare_frame host_part_model)
next
  case (6 h r h')
  then show ?case using neutron_run_model [of drv h] by (simp add: neutron_ops_def)
next
  case (7 h h')
  then show ?case by (auto simp: neutron_ops_def neutron_npu_invoke_def neutron_model_def split: if_split_asm)
qed (auto simp: neutron_ops_def neutron_npu_unload_model_def neutron_npu_set_input_def neutron_model_def Let_def split: if_split_asm option.split_asm)

section \<open>Properties\<close>

lemma prepare_parsed:
  assumes "syn_synn_parse (Some (blob p)) n True = Ok desc" "neutron_prepare N blob p n h = (Err e, h')"
  shows "e \<noteq> ENOTSUP"
proof -
  obtain r1 h1 where u: "neutron_unprepare N h = (r1, h1)" by fastforce
  show ?thesis using assms unprepare_frame(3) [OF u]
    by (auto simp: neutron_prepare_def u Let_def split: if_split_asm prod.splits sum.splits)
qed

lemma npu_load:
  assumes "neutron_npu_load_model (Some N) am blob (Some p) n h = (Ok (), h1)" "syn_synn_parse (Some (blob p)) n True = Ok desc"
  shows "nn_prepared h1" "nn_desc_input h1 = sd_input_size desc" "nn_desc_output h1 = sd_output_size desc"
    "nn_mcfg h1 = \<lparr>mc_microcode = npu_addr (p + sd_microcode desc), mc_weights = npu_addr (p + sd_weights desc),
                    mc_kernels = npu_addr (p + sd_kernels desc)\<rparr>"
    "nn_initialized h1" "nn_state h1 \<noteq> SYN_NPU_STATE_BUSY" "nn_model_loaded h1" "nn_model_size h1 = n" "nn_model_data h1 = Some p"
    "nn_layered h1 = nn_layered h"
proof -
  have g: "0 < n" "nn_initialized h" "nn_state h \<noteq> SYN_NPU_STATE_BUSY"
    using assms(1) by (auto simp: neutron_npu_load_model_def split: if_split_asm)
  obtain r h2 where p2: "neutron_prepare N blob p n h = (r, h2)" by fastforce
  have h1: "r = Ok ()" "h1 = h2\<lparr>nn_model_data := Some p, nn_model_size := n, nn_model_loaded := True\<rparr>"
    using assms p2 prepare_parsed [where blob = blob and p = p and n = n and desc = desc and N = N and h = h and h' = h2]
    by (auto simp: neutron_npu_load_model_def split: if_split_asm sum.split_asm)
  note F = prepare_frame [OF p2]
  obtain desc' where D: "syn_synn_parse (Some (blob p)) n True = Ok desc'" "nn_prepared h2" "nn_desc_input h2 = sd_input_size desc'"
    "nn_desc_output h2 = sd_output_size desc'" "nn_mcfg h2 = \<lparr>mc_microcode = npu_addr (p + sd_microcode desc'),
       mc_weights = npu_addr (p + sd_weights desc'), mc_kernels = npu_addr (p + sd_kernels desc')\<rparr>"
    using prepare_ok [of N blob p n h h2] p2 h1(1) by auto
  then show "nn_prepared h1" "nn_desc_input h1 = sd_input_size desc" "nn_desc_output h1 = sd_output_size desc"
    "nn_mcfg h1 = \<lparr>mc_microcode = npu_addr (p + sd_microcode desc), mc_weights = npu_addr (p + sd_weights desc),
                    mc_kernels = npu_addr (p + sd_kernels desc)\<rparr>"
    "nn_initialized h1" "nn_state h1 \<noteq> SYN_NPU_STATE_BUSY" "nn_model_loaded h1" "nn_model_size h1 = n" "nn_model_data h1 = Some p"
    "nn_layered h1 = nn_layered h"
    using assms(2) F g by (simp_all add: h1(2) host_part_def)
qed

lemma set_input_ok:
  assumes "nn_initialized h" "nn_model_loaded h" "nn_state h \<noteq> SYN_NPU_STATE_BUSY" "bytes \<noteq> []" "length bytes \<le> NEUTRON_MAX_INPUT_SIZE"
  shows "neutron_npu_set_input 0 (Some bytes) (length bytes) h =
    (Ok (), h\<lparr>nn_input_buf := blit 0 bytes (nn_input_buf h), nn_input_size := length bytes\<rparr>)"
  using assms by (simp add: neutron_npu_set_input_def)

text \<open>
  C33: a compiled model that was loaded runs on the NPU: an input of exactly the size in its header is
  handed to the driver with the plain addresses of the sections, and the output is as many bytes as the
  header says; an input of another size is refused and never reaches the driver.
\<close>

theorem compiled_model_runs_on_the_npu:
  assumes "neutron_npu_load_model (Some N) am blob (Some p) n h = (Ok (), h1)" "syn_synn_parse (Some (blob p)) n True = Ok desc"
    "bytes \<noteq> []" "length bytes \<le> NEUTRON_MAX_INPUT_SIZE"
  shows "fst (npu_infer_once (neutron_ops (Some N) am blob) bytes cap h1) =
    (if length bytes \<noteq> unat (sd_input_size desc) then Err EINVAL
     else case nv_run N \<lparr>mc_microcode = npu_addr (p + sd_microcode desc), mc_weights = npu_addr (p + sd_weights desc),
                mc_kernels = npu_addr (p + sd_kernels desc)\<rparr> (blit 0 bytes (nn_input_buf h1)) (nn_output_buf h1) (nn_drv h1) of
       (ok, out, d) \<Rightarrow> if ok then Ok (take (unat (sd_output_size desc)) out) else Err EIO)"
proof -
  note L = npu_load [OF assms(1,2)]
  have len: "(of_nat (length bytes) = sd_input_size desc) = (length bytes = unat (sd_input_size desc))"
    using assms(4) by (auto simp: word_unat_eq_iff unat_of_nat32)
  obtain ok out d where run: "nv_run N (nn_mcfg h1) (blit 0 bytes (nn_input_buf h1)) (nn_output_buf h1) (nn_drv h1) = (ok, out, d)"
    by (metis prod_cases3)
  show ?thesis unfolding npu_infer_once_def neutron_ops_def npu_ops.simps set_input_ok [OF L(5,7,6) assms(3,4)]
    using L run len by (auto simp: neutron_npu_invoke_def neutron_run_def neutron_npu_get_output_def)
qed

text \<open>
  C37: a swap to a compiled model whose preparation fails leaves the previous compiled model resident
  and loaded, but no longer prepared: the registry does not load it again, and its inferences succeed
  with the output of the built-in software classifier.
\<close>

theorem failed_swap_leaves_a_fake_model:
  fixes N :: "'d neutron_env"
  defines "ops am blob \<equiv> neutron_ops (Some N) am blob"
  assumes "syn_model_ensure_resident (ops am blob) crc rd us b g = (Err EIO, g')"
    "active_index g a = Some i" "sl_loaded (rg_slots g ! i)" "sl_data (rg_slots g ! i) = rg_resident g" "sl_data (rg_slots g ! i) \<noteq> None"
    "nn_model_loaded (rg_hal g)" "bytes \<noteq> []" "length bytes \<le> NEUTRON_MAX_INPUT_SIZE"
  shows "syn_model_ensure_resident (ops am blob) crc rd us a g' = (Ok (), g') \<and>
    fst (npu_infer_once (ops am blob) bytes cap (rg_hal g')) = Ok (take 10 ((blit 0 (replicate 10 0) (nn_output_buf (rg_hal g)))[stub_winner bytes := 127]))"
proof -
  obtain j p h' where l: "neutron_npu_load_model (Some N) am blob (Some p) (sl_data_size (rg_slots g ! j)) (rg_hal g) = (Err EIO, h')"
    and g': "g' = g\<lparr>rg_hal := h'\<rparr>"
    using assms(2) by (auto simp: syn_model_ensure_resident_def model_hal_load_def ops_def neutron_ops_def Let_def
        split: option.split_asm if_split_asm prod.split_asm sum.split_asm)
  have guards: "nn_initialized (rg_hal g)" "nn_state (rg_hal g) \<noteq> SYN_NPU_STATE_BUSY"
    using l by (auto simp: neutron_npu_load_model_def split: if_split_asm)
  obtain q where pr: "neutron_prepare N blob q (sl_data_size (rg_slots g ! j)) (rg_hal g) = (Err EIO, h')"
    using l guards by (auto simp: neutron_npu_load_model_def neutron_load_stub_def split: if_split_asm prod.split_asm sum.split_asm)
  have F: "nn_initialized h'" "nn_state h' \<noteq> SYN_NPU_STATE_BUSY" "nn_model_loaded h'" "nn_output_buf h' = nn_output_buf (rg_hal g)"
    using prepare_frame [OF pr] guards assms(7) by (simp_all add: host_part_def)
  have np: "\<not> nn_prepared h'" by (rule prepare_io_error [OF pr])
  have b: "take (length bytes) (blit 0 bytes (nn_input_buf h')) = bytes" by (simp add: blit_def)
  have "fst (npu_infer_once (neutron_ops (Some N) am blob) bytes cap h') =
      Ok (take 10 ((blit 0 (replicate 10 0) (nn_output_buf (rg_hal g)))[stub_winner bytes := 127]))"
    unfolding npu_infer_once_def neutron_ops_def npu_ops.simps set_input_ok [OF F(1,3,2) assms(8,9)]
    using F np b by (simp add: neutron_npu_invoke_def neutron_classify_def neutron_npu_get_output_def Let_def)
  moreover have "syn_model_ensure_resident (ops am blob) crc rd us a g' = (Ok (), g')"
    using assms(3-6) by (simp add: syn_model_ensure_resident_def g' active_index_def handle_to_index_def Let_def split: option.split_asm if_split_asm)
  ultimately show ?thesis by (simp add: g' ops_def)
qed

text \<open>
  A load of a compiled model does not tell the layered executor: when a layered model was resident
  before, the next inference still begins the layers of that model (a load on the software path leaves
  the executor with the loaded model or with none).
\<close>

theorem npu_load_keeps_the_old_layers:
  assumes "neutron_npu_load_model (Some N) am blob (Some p) n h = (Ok (), h1)" "syn_synn_parse (Some (blob p)) n True = Ok desc"
    "ly_resident (nn_layered h) = Some (m, sz)"
  shows "nn_model_data h1 = Some p \<and> ly_resident (nn_layered h1) = Some (m, sz) \<and>
    syn_npu_layered_begin am pm blob us inp len (nn_layered h1) = syn_npu_layered_begin am pm blob us inp len (nn_layered h) \<and>
    (\<forall>q k h2. neutron_npu_load_model None am blob (Some q) k h = (Ok (), h2) \<longrightarrow>
       ly_resident (nn_layered h2) = None \<or> ly_resident (nn_layered h2) = Some (q, k))"
proof -
  have "ly_resident (nn_layered h2) = None \<or> ly_resident (nn_layered h2) = Some (q, k)"
    if "neutron_npu_load_model None am blob (Some q) k h = (Ok (), h2)" for q k h2
    using that by (auto simp: neutron_npu_load_model_def neutron_load_stub_def syn_npu_layered_on_load_def
        split: if_split_asm prod.splits sum.splits)
  then show ?thesis using npu_load(9,10) [OF assms(1,2)] assms(3) by simp
qed

definition demo_synn_hdr :: syn_synn_hdr where
  "demo_synn_hdr = \<lparr>sn_magic = 0x4E4E5953, sn_version = 1, sn_microcode_off = 0, sn_microcode_size = 48, sn_weights_off = 0,
     sn_weights_size = 48, sn_kernels_off = 16, sn_kernels_size = 32, sn_input_size = 2, sn_output_size = 3, sn_scratch_size = 0,
     sn_flags = 0\<rparr>"

definition demo_synn_desc :: syn_synn_desc where
  "demo_synn_desc = \<lparr>sd_microcode = 0, sd_weights = 0, sd_kernels = 16, sd_microcode_size = 48, sd_weights_size = 48,
     sd_kernels_size = 32, sd_input_size = 2, sd_output_size = 3, sd_scratch_size = 0\<rparr>"

lemma demo_synn_parse: "syn_synn_parse (Some (synn_hdr_bytes demo_synn_hdr)) 48 True = Ok demo_synn_desc"
  using synn_roundtrip_hdr [of demo_synn_hdr "[]"]
  by (simp add: syn_synn_parse_def Let_def demo_synn_hdr_def demo_synn_desc_def section_out_def)

definition demo_npu :: "bool \<Rightarrow> nat neutron_env" where
  "demo_npu ok = \<lparr>nv_init = Pair True, nv_deinit = Pair True, nv_ctx_need = 8, nv_prepare = (\<lambda>_. Pair ok), nv_unprepare = Pair True,
     nv_run = (\<lambda>c inp out d. (True, [9, 8, 7, 6], d + 1)), nv_suspend = Pair True, nv_resume = Pair True, nv_ctx_max = 16, nv_scratch_max = 64\<rparr>"

definition demo_neutron :: "nat npu_neutron" where
  "demo_neutron = \<lparr>nn_state = SYN_NPU_STATE_IDLE, nn_model_loaded = True, nn_model_size = 12, nn_model_data = Some 4096,
     nn_input_buf = replicate NEUTRON_MAX_INPUT_SIZE 0, nn_input_size = 0, nn_output_buf = replicate NEUTRON_MAX_OUTPUT_SIZE 0,
     nn_output_size = 0, nn_initialized = True, nn_hw_ok = True, nn_prepared = True,
     nn_mcfg = \<lparr>mc_microcode = 0, mc_weights = 0, mc_kernels = 0\<rparr>, nn_desc_input = 4, nn_desc_output = 4, nn_drv = 0,
     nn_layered = demo_layered\<lparr>ly_resident := Some (4096, 12)\<rparr>\<rparr>"

definition demo_neutron_loaded :: "nat npu_neutron" where
  "demo_neutron_loaded = snd (neutron_npu_load_model (Some (demo_npu True)) 64 (\<lambda>_. synn_hdr_bytes demo_synn_hdr) (Some 8192) 48 demo_neutron)"

lemma demo_neutron_load:
  "neutron_npu_load_model (Some (demo_npu True)) 64 (\<lambda>_. synn_hdr_bytes demo_synn_hdr) (Some 8192) 48 demo_neutron = (Ok (), demo_neutron_loaded)"
proof -
  have "fst (neutron_npu_load_model (Some (demo_npu True)) 64 (\<lambda>_. synn_hdr_bytes demo_synn_hdr) (Some 8192) 48 demo_neutron) = Ok ()"
    by (simp add: neutron_npu_load_model_def neutron_prepare_def demo_synn_parse neutron_unprepare_def demo_npu_def Let_def)
       (simp add: demo_neutron_def demo_synn_desc_def)
  then show ?thesis by (simp add: demo_neutron_loaded_def prod_eq_iff)
qed

theorem compiled_model_runs_on_the_npu_witness:
  "fst (npu_infer_once (neutron_ops (Some (demo_npu True)) 64 (\<lambda>_. synn_hdr_bytes demo_synn_hdr)) [5, 7] 64 demo_neutron_loaded) = Ok [9, 8, 7]"
  using compiled_model_runs_on_the_npu [OF demo_neutron_load demo_synn_parse, of "[5, 7]" 64]
  by (simp add: demo_synn_desc_def demo_npu_def)

theorem npu_load_keeps_the_old_layers_witness:
  "nn_model_data demo_neutron_loaded = Some 8192 \<and> ly_resident (nn_layered demo_neutron_loaded) = Some (4096, 12)"
proof -
  have "ly_resident (nn_layered demo_neutron) = Some (4096, 12)" by (simp add: demo_neutron_def)
  then show ?thesis using npu_load_keeps_the_old_layers [OF demo_neutron_load demo_synn_parse] by blast
qed

definition demo_swap_slot :: "u8 list \<Rightarrow> nat \<Rightarrow> nat \<Rightarrow> model_slot" where
  "demo_swap_slot nm p sz = empty_slot\<lparr>sl_active := True, sl_loaded := True, sl_info := (sl_info empty_slot)\<lparr>mi_name := nm\<rparr>, sl_data := Some p, sl_data_size := sz\<rparr>"

definition demo_swap_reg :: "nat npu_neutron registry" where
  "demo_swap_reg = \<lparr>rg_slots = [demo_swap_slot [97] 4096 12, demo_swap_slot [98] 8192 48], rg_resident = Some 4096, rg_swaps = 0,
     rg_last_us = 0, rg_last_swap_us = 0, rg_hal = demo_neutron\<rparr>"

definition demo_swapped :: "nat npu_neutron registry" where
  "demo_swapped = snd (syn_model_ensure_resident (neutron_ops (Some (demo_npu False)) 64 (\<lambda>_. synn_hdr_bytes demo_synn_hdr)) (\<lambda>_. 0) (\<lambda>_ _. []) 0 2 demo_swap_reg)"

lemma demo_swap_fails:
  "syn_model_ensure_resident (neutron_ops (Some (demo_npu False)) 64 (\<lambda>_. synn_hdr_bytes demo_synn_hdr)) (\<lambda>_. 0) (\<lambda>_ _. []) 0 2 demo_swap_reg
     = (Err EIO, demo_swapped)"
proof -
  have l: "fst (neutron_npu_load_model (Some (demo_npu False)) 64 (\<lambda>_. synn_hdr_bytes demo_synn_hdr) (Some 8192) 48 demo_neutron) = Err EIO"
    by (simp add: neutron_npu_load_model_def neutron_prepare_def demo_synn_parse neutron_unprepare_def demo_npu_def Let_def)
       (simp add: demo_neutron_def demo_synn_desc_def)
  then obtain h where h: "neutron_npu_load_model (Some (demo_npu False)) 64 (\<lambda>_. synn_hdr_bytes demo_synn_hdr) (Some 8192) 48 demo_neutron = (Err EIO, h)"
    by (metis prod.collapse)
  have "fst (syn_model_ensure_resident (neutron_ops (Some (demo_npu False)) 64 (\<lambda>_. synn_hdr_bytes demo_synn_hdr)) (\<lambda>_. 0) (\<lambda>_ _. []) 0 2 demo_swap_reg) = Err EIO"
    by (simp add: syn_model_ensure_resident_def active_index_def handle_to_index_def demo_swap_reg_def demo_swap_slot_def
        empty_slot_def model_hal_load_def neutron_ops_def h)
  then show ?thesis by (simp add: demo_swapped_def prod_eq_iff)
qed

theorem failed_swap_leaves_a_fake_model_witness:
  "fst (npu_infer_once (neutron_ops (Some (demo_npu False)) 64 (\<lambda>_. synn_hdr_bytes demo_synn_hdr)) [200, 103] 64 (rg_hal demo_swapped)) =
     Ok [0, 0, 0, 127, 0, 0, 0, 0, 0, 0]"
proof -
  have f: "active_index demo_swap_reg 1 = Some 0" "sl_loaded (rg_slots demo_swap_reg ! 0)" "sl_data (rg_slots demo_swap_reg ! 0) = rg_resident demo_swap_reg"
    "sl_data (rg_slots demo_swap_reg ! 0) \<noteq> None" "nn_model_loaded (rg_hal demo_swap_reg)" "[200, 103 :: u8] \<noteq> []"
    "length [200, 103 :: u8] \<le> NEUTRON_MAX_INPUT_SIZE" "nn_output_buf (rg_hal demo_swap_reg) = replicate NEUTRON_MAX_OUTPUT_SIZE 0"
    by (simp_all add: demo_swap_reg_def demo_swap_slot_def empty_slot_def active_index_def handle_to_index_def) (simp_all add: demo_neutron_def)
  have w: "stub_winner [200, 103] = 3" by (simp add: stub_winner_def)
  show ?thesis using failed_swap_leaves_a_fake_model [OF demo_swap_fails f(1-7)] unfolding f(8) w
    by (simp add: blit_def replicate_num)
qed

end
