(* ===== verification/Flash_Port.thy ===== *)
theory Flash_Port
  imports Syn_Prelude
begin

text \<open>
  The flash seam \<open>src/core/syn_flash_port.h\<close>: the checked wrappers that every caller uses, the
  RAM backend with NOR semantics and power-loss injection (\<open>syn_flash_port_ram.c\<close>), and the MCX
  backend over the ROM API (\<open>syn_flash_port_mcx.c\<close>), whose ROM functions are an argument. A
  port is a record of functions over the device state \<open>'f\<close>; offsets and sizes are numbers
  below \<open>2 ^ 32\<close>. Locale \<open>flash_laws\<close> states what the store and the OTA engine rely on.
\<close>

section \<open>Ports and checked wrappers\<close>

record 'f flash_port =
  fp_base :: nat
  fp_size :: nat
  fp_sector_size :: nat
  fp_page_size :: nat
  fp_read :: "nat \<Rightarrow> nat \<Rightarrow> 'f \<Rightarrow> u8 list res"
  fp_write :: "nat \<Rightarrow> u8 list \<Rightarrow> 'f \<Rightarrow> unit res \<times> 'f"
  fp_erase :: "nat \<Rightarrow> nat \<Rightarrow> 'f \<Rightarrow> unit res \<times> 'f"
  fp_is_blank :: "nat \<Rightarrow> nat \<Rightarrow> 'f \<Rightarrow> bool res"
  fp_mmap :: "(nat \<Rightarrow> nat option) option"

definition check_range :: "'f flash_port \<Rightarrow> nat \<Rightarrow> nat \<Rightarrow> unit res" where
  "check_range p off len =
     (if len = 0 \<or> off > fp_size p \<or> len > fp_size p - off then Err EINVAL else Ok ())"

definition syn_flash_read :: "'f flash_port \<Rightarrow> nat \<Rightarrow> nat \<Rightarrow> 'f \<Rightarrow> u8 list res" where
  "syn_flash_read p off len f =
     (case check_range p off len of Inl e \<Rightarrow> Err e | Inr _ \<Rightarrow> fp_read p off len f)"

definition syn_flash_write :: "'f flash_port \<Rightarrow> nat \<Rightarrow> u8 list \<Rightarrow> 'f \<Rightarrow> unit res \<times> 'f" where
  "syn_flash_write p off bs f =
     (case check_range p off (length bs) of Inl e \<Rightarrow> (Err e, f)
      | Inr _ \<Rightarrow>
          if off mod fp_page_size p \<noteq> 0 \<or> length bs mod fp_page_size p \<noteq> 0 then (Err EINVAL, f)
          else fp_write p off bs f)"

definition syn_flash_erase :: "'f flash_port \<Rightarrow> nat \<Rightarrow> nat \<Rightarrow> 'f \<Rightarrow> unit res \<times> 'f" where
  "syn_flash_erase p off len f =
     (case check_range p off len of Inl e \<Rightarrow> (Err e, f)
      | Inr _ \<Rightarrow>
          if off mod fp_sector_size p \<noteq> 0 \<or> len mod fp_sector_size p \<noteq> 0 then (Err EINVAL, f)
          else fp_erase p off len f)"

text \<open>One erase command per sector; \<open>n\<close> sectors are left from offset \<open>off\<close>.\<close>

fun erase_sector_loop :: "'f flash_port \<Rightarrow> nat \<Rightarrow> nat \<Rightarrow> 'f \<Rightarrow> unit res \<times> 'f" where
  "erase_sector_loop p off 0 f = (Ok (), f)"
| "erase_sector_loop p off (Suc n) f =
     (case fp_erase p off (fp_sector_size p) f of
        (Inl e, f1) \<Rightarrow> (Err e, f1)
      | (Inr _, f1) \<Rightarrow> erase_sector_loop p (off + fp_sector_size p) n f1)"

definition syn_flash_erase_sectors :: "'f flash_port \<Rightarrow> nat \<Rightarrow> nat \<Rightarrow> 'f \<Rightarrow> unit res \<times> 'f" where
  "syn_flash_erase_sectors p off len f =
     (case check_range p off len of Inl e \<Rightarrow> (Err e, f)
      | Inr _ \<Rightarrow>
          if off mod fp_sector_size p \<noteq> 0 \<or> len mod fp_sector_size p \<noteq> 0 then (Err EINVAL, f)
          else erase_sector_loop p off (len div fp_sector_size p) f)"

definition syn_flash_is_blank :: "'f flash_port \<Rightarrow> nat \<Rightarrow> nat \<Rightarrow> 'f \<Rightarrow> bool res" where
  "syn_flash_is_blank p off len f =
     (case check_range p off len of Inl e \<Rightarrow> Err e | Inr _ \<Rightarrow> fp_is_blank p off len f)"

definition syn_flash_mmap :: "'f flash_port \<Rightarrow> nat \<Rightarrow> nat option" where
  "syn_flash_mmap p off =
     (if off \<ge> fp_size p then None
      else (case fp_mmap p of None \<Rightarrow> None | Some m \<Rightarrow> m off))"

section \<open>The RAM backend\<close>

record flash_ram =
  fr_mem :: "u8 list"
  fr_fail_after :: nat
  fr_pages_written :: nat
  fr_sectors_erased :: nat

definition ram_read :: "nat \<Rightarrow> nat \<Rightarrow> flash_ram \<Rightarrow> u8 list res" where
  "ram_read off len c = Ok (slice off len (fr_mem c))"

text \<open>
  The page loop. A pending fault counts down before each page; when it reaches zero, half a page
  lands and the write fails with EIO. A page that is not blank is refused with EACCES.
\<close>

fun ram_write_pages :: "nat \<Rightarrow> nat \<Rightarrow> u8 list \<Rightarrow> nat \<Rightarrow> flash_ram \<Rightarrow> unit res \<times> flash_ram" where
  "ram_write_pages page off src 0 c = (Ok (), c)"
| "ram_write_pages page off src (Suc n) c =
     (let c1 = (if fr_fail_after c \<noteq> 0 then c\<lparr>fr_fail_after := fr_fail_after c - 1\<rparr> else c) in
      if fr_fail_after c \<noteq> 0 \<and> fr_fail_after c1 = 0
      then (Err EIO, c1\<lparr>fr_mem := blit off (take (page div 2) src) (fr_mem c1)\<rparr>)
      else if slice off page (fr_mem c1) \<noteq> replicate page 0xFF then (Err EACCES, c1)
      else ram_write_pages page (off + page) (drop page src) n
             (c1\<lparr>fr_mem := blit off (take page src) (fr_mem c1),
                 fr_pages_written := fr_pages_written c1 + 1\<rparr>))"

definition ram_write :: "nat \<Rightarrow> nat \<Rightarrow> u8 list \<Rightarrow> flash_ram \<Rightarrow> unit res \<times> flash_ram" where
  "ram_write page off bs c = ram_write_pages page off bs (length bs div page) c"

definition ram_erase :: "nat \<Rightarrow> nat \<Rightarrow> nat \<Rightarrow> flash_ram \<Rightarrow> unit res \<times> flash_ram" where
  "ram_erase sector off len c =
     (Ok (), c\<lparr>fr_mem := blit off (replicate len 0xFF) (fr_mem c),
              fr_sectors_erased := fr_sectors_erased c + len div sector\<rparr>)"

definition ram_is_blank :: "nat \<Rightarrow> nat \<Rightarrow> flash_ram \<Rightarrow> bool res" where
  "ram_is_blank off len c = Ok (list_all (\<lambda>b. b = 0xFF) (slice off len (fr_mem c)))"

definition ram_mmap :: "nat \<Rightarrow> nat \<Rightarrow> nat option" where
  "ram_mmap mem_addr off = Some (mem_addr + off)"

definition ram_port :: "nat \<Rightarrow> nat \<Rightarrow> nat \<Rightarrow> nat \<Rightarrow> flash_ram flash_port" where
  "ram_port mem_addr sz sector page =
     \<lparr>fp_base = 0, fp_size = sz, fp_sector_size = sector, fp_page_size = page,
      fp_read = ram_read, fp_write = ram_write page, fp_erase = ram_erase sector,
      fp_is_blank = ram_is_blank, fp_mmap = Some (ram_mmap mem_addr)\<rparr>"

definition syn_flash_port_ram_init ::
  "bool \<Rightarrow> bool \<Rightarrow> nat option \<Rightarrow> nat \<Rightarrow> nat \<Rightarrow> nat \<Rightarrow> (flash_ram flash_port \<times> flash_ram) res" where
  "syn_flash_port_ram_init port_ptr ctx_ptr mem sz sector page =
     (case mem of None \<Rightarrow> Err EINVAL
      | Some mem_addr \<Rightarrow>
          if \<not> port_ptr \<or> \<not> ctx_ptr \<or> sector = 0 \<or> page = 0 \<or> sz = 0 \<or> sz mod sector \<noteq> 0 \<or>
             sector mod page \<noteq> 0 then Err EINVAL
          else Ok (ram_port mem_addr sz sector page,
                   \<lparr>fr_mem = replicate sz 0xFF, fr_fail_after = 0, fr_pages_written = 0,
                    fr_sectors_erased = 0\<rparr>))"

section \<open>The MCX backend\<close>

text \<open>The ROM API by absolute address; a boolean result is \<open>kStatus_Success\<close>.\<close>

record 'f rom_api =
  rom_read :: "nat \<Rightarrow> nat \<Rightarrow> 'f \<Rightarrow> u8 list option"
  rom_program :: "nat \<Rightarrow> u8 list \<Rightarrow> 'f \<Rightarrow> bool \<times> 'f"
  rom_erase :: "nat \<Rightarrow> nat \<Rightarrow> 'f \<Rightarrow> bool \<times> 'f"
  rom_verify_erase :: "nat \<Rightarrow> nat \<Rightarrow> 'f \<Rightarrow> bool"
  rom_init :: "'f \<Rightarrow> bool \<times> 'f"

abbreviation (input) SYN_FLASH_WRITABLE_BASE :: nat where "SYN_FLASH_WRITABLE_BASE \<equiv> 0x120000"
abbreviation (input) SYN_FLASH_WRITABLE_END :: nat where "SYN_FLASH_WRITABLE_END \<equiv> 0x200000"
abbreviation (input) SYN_FLASH_SECTOR_SIZE :: nat where "SYN_FLASH_SECTOR_SIZE \<equiv> 0x2000"
abbreviation (input) SYN_FLASH_PAGE_SIZE :: nat where "SYN_FLASH_PAGE_SIZE \<equiv> 128"
abbreviation (input) SYN_FLASH_SECURE_ALIAS :: nat where "SYN_FLASH_SECURE_ALIAS \<equiv> 0x10000000"

definition mcx_status :: "bool \<Rightarrow> unit res" where
  "mcx_status ok = (if ok then Ok () else Err EIO)"

definition mcx_read :: "'f rom_api \<Rightarrow> nat \<Rightarrow> nat \<Rightarrow> nat \<Rightarrow> 'f \<Rightarrow> u8 list res" where
  "mcx_read rom base off len f =
     (case rom_read rom (base + off) len f of None \<Rightarrow> Err EIO | Some bs \<Rightarrow> Ok bs)"

definition mcx_write :: "'f rom_api \<Rightarrow> nat \<Rightarrow> nat \<Rightarrow> u8 list \<Rightarrow> 'f \<Rightarrow> unit res \<times> 'f" where
  "mcx_write rom base off bs f = apfst mcx_status (rom_program rom (base + off) bs f)"

definition mcx_erase :: "'f rom_api \<Rightarrow> nat \<Rightarrow> nat \<Rightarrow> nat \<Rightarrow> 'f \<Rightarrow> unit res \<times> 'f" where
  "mcx_erase rom base off len f = apfst mcx_status (rom_erase rom (base + off) len f)"

definition mcx_is_blank :: "'f rom_api \<Rightarrow> nat \<Rightarrow> nat \<Rightarrow> nat \<Rightarrow> 'f \<Rightarrow> bool res" where
  "mcx_is_blank rom base off len f = Ok (rom_verify_erase rom (base + off) len f)"

definition mcx_mmap :: "nat \<Rightarrow> nat \<Rightarrow> nat option" where
  "mcx_mmap base off = Some (SYN_FLASH_SECURE_ALIAS + (base + off))"

definition mcx_port :: "'f rom_api \<Rightarrow> 'f flash_port" where
  "mcx_port rom =
     (let base = SYN_FLASH_WRITABLE_BASE in
      \<lparr>fp_base = base, fp_size = SYN_FLASH_WRITABLE_END - SYN_FLASH_WRITABLE_BASE,
       fp_sector_size = SYN_FLASH_SECTOR_SIZE, fp_page_size = SYN_FLASH_PAGE_SIZE,
       fp_read = mcx_read rom base, fp_write = mcx_write rom base, fp_erase = mcx_erase rom base,
       fp_is_blank = mcx_is_blank rom base, fp_mmap = Some (mcx_mmap base)\<rparr>)"

definition syn_flash_port_mcx_init ::
  "'f rom_api \<Rightarrow> bool \<Rightarrow> bool \<Rightarrow> 'f \<Rightarrow> 'f flash_port res \<times> bool \<times> 'f" where
  "syn_flash_port_mcx_init rom port_ptr fcfg_ready f =
     (if \<not> port_ptr then (Err EINVAL, fcfg_ready, f)
      else if fcfg_ready then (Ok (mcx_port rom), True, f)
      else (case rom_init rom f of
              (False, f1) \<Rightarrow> (Err EIO, False, f1)
            | (True, f1) \<Rightarrow> (Ok (mcx_port rom), True, f1)))"

section \<open>What the clients rely on\<close>

text \<open>
  \<open>content\<close> is the byte image of the window. An operation of the port touches at most the range
  it is given, whatever its result: this is what makes a torn write harmless outside it. A
  successful write or erase has its full effect, a successful read returns the image.
\<close>

locale flash_laws =
  fixes port :: "'f flash_port" and content :: "'f \<Rightarrow> u8 list" and dev_ok :: "'f \<Rightarrow> bool"
  assumes content_length: "dev_ok f \<Longrightarrow> length (content f) = fp_size port"
    and geometry: "0 < fp_page_size port" "0 < fp_sector_size port"
    and read_content: "dev_ok f \<Longrightarrow> off + len \<le> fp_size port \<Longrightarrow> fp_read port off len f = Ok bs \<Longrightarrow>
      bs = slice off len (content f)"
    and write_frame: "dev_ok f \<Longrightarrow> off + length bs \<le> fp_size port \<Longrightarrow>
      length bs mod fp_page_size port = 0 \<Longrightarrow> fp_write port off bs f = (r, f') \<Longrightarrow>
      dev_ok f' \<and> (\<forall>a n. a + n \<le> fp_size port \<longrightarrow> disjoint_ranges a n off (length bs) \<longrightarrow>
        slice a n (content f') = slice a n (content f))"
    and write_content: "dev_ok f \<Longrightarrow> off + length bs \<le> fp_size port \<Longrightarrow>
      length bs mod fp_page_size port = 0 \<Longrightarrow> fp_write port off bs f = (Ok (), f') \<Longrightarrow>
      slice off (length bs) (content f') = bs"
    and erase_frame: "dev_ok f \<Longrightarrow> off + len \<le> fp_size port \<Longrightarrow> fp_erase port off len f = (r, f') \<Longrightarrow>
      dev_ok f' \<and> (\<forall>a n. a + n \<le> fp_size port \<longrightarrow> disjoint_ranges a n off len \<longrightarrow>
        slice a n (content f') = slice a n (content f))"
    and erase_content: "dev_ok f \<Longrightarrow> off + len \<le> fp_size port \<Longrightarrow> fp_erase port off len f = (Ok (), f') \<Longrightarrow>
      slice off len (content f') = replicate len 0xFF"
    and blank_content: "dev_ok f \<Longrightarrow> off + len \<le> fp_size port \<Longrightarrow> fp_is_blank port off len f = Ok b \<Longrightarrow>
      b = (slice off len (content f) = replicate len 0xFF)"
begin

lemma check_range_Ok: "check_range port off len = Ok u \<longleftrightarrow> 0 < len \<and> off + len \<le> fp_size port"
  by (auto simp: check_range_def)

lemma read_slice: "dev_ok f \<Longrightarrow> syn_flash_read port off len f = Ok bs \<Longrightarrow>
    bs = slice off len (content f) \<and> off + len \<le> fp_size port"
  using read_content by (auto simp: syn_flash_read_def check_range_def split: sum.splits if_splits)

lemma write_spec:
  assumes "dev_ok f" "syn_flash_write port off bs f = (r, f')"
  shows "dev_ok f'" "a + n \<le> fp_size port \<Longrightarrow> disjoint_ranges a n off (length bs) \<Longrightarrow>
      slice a n (content f') = slice a n (content f)"
    "r = Ok () \<Longrightarrow> slice off (length bs) (content f') = bs \<and> off + length bs \<le> fp_size port"
proof -
  have c: "f' = f \<and> r \<noteq> Ok () \<or> off + length bs \<le> fp_size port \<and>
      length bs mod fp_page_size port = 0 \<and> fp_write port off bs f = (r, f')"
    using assms(2) by (auto simp: syn_flash_write_def check_range_def split: sum.splits if_splits)
  then have s: "f' = f \<and> r \<noteq> Ok () \<or> off + length bs \<le> fp_size port \<and> dev_ok f' \<and>
      (\<forall>a n. a + n \<le> fp_size port \<longrightarrow> disjoint_ranges a n off (length bs) \<longrightarrow>
        slice a n (content f') = slice a n (content f)) \<and>
      (r = Ok () \<longrightarrow> slice off (length bs) (content f') = bs)"
    using write_frame [OF assms(1), of off bs r f'] write_content [OF assms(1), of off bs f'] by auto
  then show "dev_ok f'" using assms(1) by blast
  show "slice a n (content f') = slice a n (content f)"
    if "a + n \<le> fp_size port" "disjoint_ranges a n off (length bs)" for a n using s that by blast
  show "slice off (length bs) (content f') = bs \<and> off + length bs \<le> fp_size port" if "r = Ok ()"
    using s that by blast
qed

lemma erase_spec:
  assumes "dev_ok f" "syn_flash_erase port off len f = (r, f')"
  shows "dev_ok f'" "a + n \<le> fp_size port \<Longrightarrow> disjoint_ranges a n off len \<Longrightarrow>
      slice a n (content f') = slice a n (content f)"
    "r = Ok () \<Longrightarrow> slice off len (content f') = replicate len 0xFF \<and> off + len \<le> fp_size port"
proof -
  have c: "f' = f \<and> r \<noteq> Ok () \<or> off + len \<le> fp_size port \<and> fp_erase port off len f = (r, f')"
    using assms(2) by (auto simp: syn_flash_erase_def check_range_def split: sum.splits if_splits)
  then have s: "f' = f \<and> r \<noteq> Ok () \<or> off + len \<le> fp_size port \<and> dev_ok f' \<and>
      (\<forall>a n. a + n \<le> fp_size port \<longrightarrow> disjoint_ranges a n off len \<longrightarrow>
        slice a n (content f') = slice a n (content f)) \<and>
      (r = Ok () \<longrightarrow> slice off len (content f') = replicate len 0xFF)"
    using erase_frame [OF assms(1), of off len r f'] erase_content [OF assms(1), of off len f'] by auto
  then show "dev_ok f'" using assms(1) by blast
  show "slice a n (content f') = slice a n (content f)"
    if "a + n \<le> fp_size port" "disjoint_ranges a n off len" for a n using s that by blast
  show "slice off len (content f') = replicate len 0xFF \<and> off + len \<le> fp_size port" if "r = Ok ()"
    using s that by blast
qed

lemma erase_loop_spec:
  assumes "dev_ok f" "off + n * fp_sector_size port \<le> fp_size port"
    and "erase_sector_loop port off n f = (r, f')"
  shows "dev_ok f' \<and> (\<forall>a k. a + k \<le> fp_size port \<longrightarrow> disjoint_ranges a k off (n * fp_sector_size port) \<longrightarrow>
      slice a k (content f') = slice a k (content f)) \<and>
    (r = Ok () \<longrightarrow> slice off (n * fp_sector_size port) (content f') = replicate (n * fp_sector_size port) 0xFF)"
  using assms
proof (induction n arbitrary: off f)
  case 0
  then show ?case by simp
next
  case (Suc n)
  let ?s = "fp_sector_size port"
  obtain r1 f1 where e: "fp_erase port off ?s f = (r1, f1)" by (cases "fp_erase port off ?s f")
  have le: "off + ?s \<le> fp_size port" "(off + ?s) + n * ?s \<le> fp_size port" using Suc.prems(2) by simp_all
  note fr = erase_frame [OF Suc.prems(1) le(1) e]
  show ?case
  proof (cases r1)
    case (Inl x)
    then have "r \<noteq> Ok ()" "f' = f1" using Suc.prems(3) e by auto
    then show ?thesis using fr by (auto simp: disjoint_ranges_def)
  next
    case (Inr u)
    then have rec: "erase_sector_loop port (off + ?s) n f1 = (r, f')" using Suc.prems(3) e by simp
    have blank: "slice off ?s (content f1) = replicate ?s 0xFF"
      using erase_content [OF Suc.prems(1) le(1)] e Inr by simp
    note IH = Suc.IH [OF _ le(2) rec]
    have d1: "dev_ok f1" using fr by blast
    have keep: "slice off ?s (content f') = slice off ?s (content f1)"
      using IH [OF d1] le by (simp add: disjoint_ranges_def)
    have "slice a k (content f') = slice a k (content f)"
      if "a + k \<le> fp_size port" "disjoint_ranges a k off (Suc n * ?s)" for a k
    proof -
      have "disjoint_ranges a k (off + ?s) (n * ?s)" "disjoint_ranges a k off ?s"
        using that(2) by (auto simp: disjoint_ranges_def)
      then show ?thesis using IH [OF d1] fr that(1) by auto
    qed
    moreover have "slice off (Suc n * ?s) (content f') = replicate (Suc n * ?s) 0xFF" if "r = Ok ()"
      using IH [OF d1] that keep blank by (simp add: slice_append replicate_add)
    ultimately show ?thesis using IH [OF d1] by blast
  qed
qed

lemma erase_sectors_spec:
  assumes "dev_ok f" "syn_flash_erase_sectors port off len f = (r, f')"
  shows "dev_ok f'" "a + n \<le> fp_size port \<Longrightarrow> disjoint_ranges a n off len \<Longrightarrow>
      slice a n (content f') = slice a n (content f)"
    "r = Ok () \<Longrightarrow> slice off len (content f') = replicate len 0xFF \<and> off + len \<le> fp_size port"
proof -
  let ?k = "len div fp_sector_size port"
  have c: "f' = f \<and> r \<noteq> Ok () \<or> off + len \<le> fp_size port \<and> ?k * fp_sector_size port = len \<and>
      erase_sector_loop port off ?k f = (r, f')"
    using assms(2) by (auto simp: syn_flash_erase_sectors_def check_range_def split: sum.splits if_splits)
  then have s: "f' = f \<and> r \<noteq> Ok () \<or> off + len \<le> fp_size port \<and> dev_ok f' \<and>
    (\<forall>a k. a + k \<le> fp_size port \<longrightarrow> disjoint_ranges a k off len \<longrightarrow>
      slice a k (content f') = slice a k (content f)) \<and>
    (r = Ok () \<longrightarrow> slice off len (content f') = replicate len 0xFF)"
    using erase_loop_spec [OF assms(1), of off ?k r f'] by auto
  then show "dev_ok f'" using assms(1) by blast
  show "slice a n (content f') = slice a n (content f)"
    if "a + n \<le> fp_size port" "disjoint_ranges a n off len" for a n using s that by blast
  show "slice off len (content f') = replicate len 0xFF \<and> off + len \<le> fp_size port" if "r = Ok ()"
    using s that by blast
qed

end

section \<open>The RAM backend obeys the laws\<close>

lemma ram_write_pages_spec:
  assumes "ram_write_pages page off src n c = (r, c')" "length src = n * page"
    and "off + n * page \<le> length (fr_mem c)"
  shows "length (fr_mem c') = length (fr_mem c) \<and>
    (\<forall>a k. a + k \<le> length (fr_mem c) \<longrightarrow> disjoint_ranges a k off (n * page) \<longrightarrow>
       slice a k (fr_mem c') = slice a k (fr_mem c)) \<and>
    (r = Ok () \<longrightarrow> slice off (n * page) (fr_mem c') = src)"
  using assms
proof (induction page off src n c arbitrary: r c' rule: ram_write_pages.induct)
  case (1 page off src c)
  then show ?case by simp
next
  case (2 page off src n c)
  let ?c1 = "if fr_fail_after c \<noteq> 0 then c\<lparr>fr_fail_after := fr_fail_after c - 1\<rparr> else c"
  have m1: "fr_mem ?c1 = fr_mem c" by simp
  have l: "page \<le> length src" "off + page \<le> length (fr_mem c)"
    "off + page + n * page \<le> length (fr_mem c)" using 2(3,4) by auto
  show ?case
  proof (cases "fr_fail_after c \<noteq> 0 \<and> fr_fail_after ?c1 = 0")
    case True
    then have r: "r = Err EIO" "c' = ?c1\<lparr>fr_mem := blit off (take (page div 2) src) (fr_mem ?c1)\<rparr>"
      using 2(2) by (auto simp: Let_def)
    have h: "length (take (page div 2) src) = page div 2" using l by simp
    have half: "page div 2 \<le> page" by simp
    have "off + length (take (page div 2) src) \<le> length (fr_mem c)" using l(2) h half by linarith
    moreover have "disjoint_ranges a k off (length (take (page div 2) src))"
      if "disjoint_ranges a k off (Suc n * page)" for a k
      using that half unfolding h by (auto simp: disjoint_ranges_def)
    ultimately show ?thesis using r m1 by (auto intro: slice_blit_other)
  next
    case nf: False
    show ?thesis
    proof (cases "slice off page (fr_mem ?c1) = replicate page 0xFF")
      case False
      then have "r = Err EACCES" "c' = ?c1" using 2(2) nf by (auto simp: Let_def split: if_splits)
      then show ?thesis using m1 by simp
    next
      case True
      let ?c2 = "?c1\<lparr>fr_mem := blit off (take page src) (fr_mem ?c1), fr_pages_written := fr_pages_written ?c1 + 1\<rparr>"
      have rec: "ram_write_pages page (off + page) (drop page src) n ?c2 = (r, c')"
        using 2(2) nf True by (auto simp: Let_def split: if_splits)
      have m2: "fr_mem ?c2 = blit off (take page src) (fr_mem c)" using m1 by simp
      have tl: "length (take page src) = page" using l by simp
      have len2: "length (fr_mem ?c2) = length (fr_mem c)" using m2 l tl by simp
      have "\<not> \<not> slice off page (fr_mem ?c1) = replicate page 0xFF" using True by simp
      note IH = 2(1) [OF refl nf this rec]
      have IH': "length (fr_mem c') = length (fr_mem c) \<and>
        (\<forall>a k. a + k \<le> length (fr_mem c) \<longrightarrow> disjoint_ranges a k (off + page) (n * page) \<longrightarrow>
           slice a k (fr_mem c') = slice a k (fr_mem ?c2)) \<and>
        (r = Ok () \<longrightarrow> slice (off + page) (n * page) (fr_mem c') = drop page src)"
        using IH 2(3) l len2 by simp
      have old: "slice a k (fr_mem c') = slice a k (fr_mem c)"
        if "a + k \<le> length (fr_mem c)" "disjoint_ranges a k off (Suc n * page)" for a k
      proof -
        have d: "disjoint_ranges a k (off + page) (n * page)" "disjoint_ranges a k off (length (take page src))"
          using that(2) tl by (auto simp: disjoint_ranges_def)
        have "slice a k (fr_mem ?c2) = slice a k (fr_mem c)"
          unfolding m2 using that(1) l tl d(2) by (intro slice_blit_other) simp_all
        then show ?thesis using IH' d(1) that(1) by metis
      qed
      have "slice off (Suc n * page) (fr_mem c') = src" if "r = Ok ()"
      proof -
        have "slice off page (fr_mem c') = slice off page (fr_mem ?c2)"
          using IH' l by (auto simp: disjoint_ranges_def)
        also have "\<dots> = take page src" unfolding m2 using l tl by (intro slice_blit_same) simp_all
        finally show ?thesis using IH' that by (simp add: slice_append)
      qed
      then show ?thesis using IH' old by blast
    qed
  qed
qed

lemma list_all_replicate: "list_all (\<lambda>b. b = x) xs \<longleftrightarrow> xs = replicate (length xs) x"
  by (induction xs) auto

text \<open>The port of the geometry the RAM backend was initialised with; other arguments give a fixed one.\<close>

definition ram_dev :: "nat \<Rightarrow> nat \<Rightarrow> nat \<Rightarrow> nat \<Rightarrow> flash_ram flash_port" where
  "ram_dev mem_addr sz sector page = ram_port mem_addr sz (max 1 sector) (max 1 page)"

lemma ram_dev_eq: "0 < sector \<Longrightarrow> 0 < page \<Longrightarrow> ram_dev mem_addr sz sector page = ram_port mem_addr sz sector page"
  by (simp add: ram_dev_def max_def)

interpretation ram: flash_laws "ram_dev mem_addr sz sector page" fr_mem "\<lambda>c. length (fr_mem c) = sz"
  for mem_addr sz sector page
proof (unfold_locales, goal_cases)
  case (5 f off bs r f')
  let ?p = "max 1 page"
  have n: "length bs = length bs div ?p * ?p" using 5(3) by (simp add: ram_dev_def ram_port_def) auto
  have "ram_write_pages ?p off bs (length bs div ?p) f = (r, f')"
    using 5(4) by (simp add: ram_dev_def ram_port_def ram_write_def)
  from ram_write_pages_spec [OF this n] 5(1,2) n show ?case
    by (simp add: ram_dev_def ram_port_def)
next
  case (6 f off bs f')
  let ?p = "max 1 page"
  have n: "length bs = length bs div ?p * ?p" using 6(3) by (simp add: ram_dev_def ram_port_def) auto
  have "ram_write_pages ?p off bs (length bs div ?p) f = (Ok (), f')"
    using 6(4) by (simp add: ram_dev_def ram_port_def ram_write_def)
  from ram_write_pages_spec [OF this n] 6(1,2) n show ?case
    by (simp add: ram_dev_def ram_port_def)
next
  case (7 f off len r f')
  then show ?case by (auto simp: ram_dev_def ram_port_def ram_erase_def slice_blit_other)
next
  case (8 f off len f')
  then show ?case by (auto simp: ram_dev_def ram_port_def ram_erase_def)
next
  case (9 f off len b)
  then show ?case by (simp add: ram_dev_def ram_port_def ram_is_blank_def list_all_replicate)
qed (simp_all add: ram_dev_def ram_port_def ram_read_def)

text \<open>
  A device whose in-range reads and blank checks do not fail: the state of the window after
  writes that completed. The law is one of the
  RAM port, on which it is interpreted, torn writes included. The board does not give it: a page torn by a
  power loss can read as an ECC error there, so a property that assumes this locale says nothing of the MCX
  port in the boots after such a loss.
\<close>

locale flash_reliable = flash_laws +
  assumes read_ok: "dev_ok f \<Longrightarrow> 0 < len \<Longrightarrow> off + len \<le> fp_size port \<Longrightarrow> \<exists>bs. fp_read port off len f = Ok bs"
    and blank_ok: "dev_ok f \<Longrightarrow> 0 < len \<Longrightarrow> off + len \<le> fp_size port \<Longrightarrow> \<exists>b. fp_is_blank port off len f = Ok b"
begin

lemma read_eq: "dev_ok f \<Longrightarrow> syn_flash_read port off len f =
    (if 0 < len \<and> off + len \<le> fp_size port then Ok (slice off len (content f)) else Err EINVAL)"
  using read_ok [of f len off] read_content [of f off len]
  by (auto simp: syn_flash_read_def check_range_def)

lemma blank_eq: "dev_ok f \<Longrightarrow> syn_flash_is_blank port off len f =
    (if 0 < len \<and> off + len \<le> fp_size port then Ok (slice off len (content f) = replicate len 0xFF)
     else Err EINVAL)"
  using blank_ok [of f len off] blank_content [of f off len]
  by (auto simp: syn_flash_is_blank_def check_range_def)

end

interpretation ram_rel: flash_reliable "ram_dev mem_addr sz sector page" fr_mem "\<lambda>c. length (fr_mem c) = sz"
  for mem_addr sz sector page
  by unfold_locales (simp_all add: ram_dev_def ram_port_def ram_read_def ram_is_blank_def)

section \<open>Properties\<close>

lemma ram_port_is_dev: "0 < sector \<Longrightarrow> 0 < page \<Longrightarrow> ram_port mem_addr sz sector page = ram_dev mem_addr sz sector page"
  by (simp add: ram_dev_eq)

lemma ram_port_sel [simp]: "fp_size (ram_port mem_addr sz sector page) = sz"
  "fp_page_size (ram_port mem_addr sz sector page) = page"
  "fp_sector_size (ram_port mem_addr sz sector page) = sector"
  "fp_read (ram_port mem_addr sz sector page) = ram_read"
  "fp_write (ram_port mem_addr sz sector page) = ram_write page"
  "fp_erase (ram_port mem_addr sz sector page) = ram_erase sector"
  by (simp_all add: ram_port_def)

text \<open>
  On the RAM backend a checked write, whether it succeeds, meets a page that is not blank or
  loses power in the middle of a page, changes nothing outside its range and never the size of
  the window; when it succeeds, the range reads back exactly as written.
\<close>

theorem flash_write_contained:
  assumes "0 < sector" "0 < page" "length (fr_mem c) = sz"
    and "syn_flash_write (ram_port mem_addr sz sector page) off bs c = (r, c')"
  shows "length (fr_mem c') = sz \<and>
    (\<forall>a n. a + n \<le> sz \<longrightarrow> disjoint_ranges a n off (length bs) \<longrightarrow>
       slice a n (fr_mem c') = slice a n (fr_mem c)) \<and>
    (r = Ok () \<longrightarrow> syn_flash_read (ram_port mem_addr sz sector page) off (length bs) c' = Ok bs)"
proof -
  let ?p = "ram_port mem_addr sz sector page"
  have w: "syn_flash_write (ram_dev mem_addr sz sector page) off bs c = (r, c')"
    using assms(4) ram_port_is_dev [OF assms(1,2)] by metis
  have r: "syn_flash_read ?p off (length bs) c' = Ok bs" if "r = Ok ()"
  proof -
    have "0 < length bs" "off + length bs \<le> sz"
      using assms(4) that by (auto simp: syn_flash_write_def check_range_def split: sum.splits if_splits)
    then show ?thesis using ram.write_spec(3) [OF assms(3) w that]
      by (simp add: syn_flash_read_def check_range_def ram_read_def)
  qed
  have sz: "fp_size (ram_dev mem_addr sz sector page) = sz" by (simp add: ram_dev_def ram_port_def)
  show ?thesis
    using ram.write_spec(1) [OF assms(3) w] ram.write_spec(2) [OF assms(3) w] r sz by simp
qed

definition demo_flash :: flash_ram where
  "demo_flash = \<lparr>fr_mem = replicate 8 0xFF, fr_fail_after = 1, fr_pages_written = 0, fr_sectors_erased = 0\<rparr>"

theorem flash_write_contained_witness:
  "slice 0 4 (fr_mem (snd (syn_flash_write (ram_port 0 8 4 4) 4 [1, 2, 3, 4] demo_flash))) = [0xFF, 0xFF, 0xFF, 0xFF] \<and>
   fst (syn_flash_write (ram_port 0 8 4 4) 4 [1, 2, 3, 4] demo_flash) = Err EIO"
proof -
  obtain r c' where w: "syn_flash_write (ram_port 0 8 4 4) 4 [1, 2, 3, 4] demo_flash = (r, c')"
    by (cases "syn_flash_write (ram_port 0 8 4 4) 4 [1, 2, 3, 4] demo_flash")
  have "fst (syn_flash_write (ram_port 0 8 4 4) 4 [1, 2, 3, 4] demo_flash) = Err EIO"
    by (simp add: syn_flash_write_def check_range_def ram_write_def demo_flash_def Let_def)
  moreover have "slice 0 4 (fr_mem c') = slice 0 4 (fr_mem demo_flash)"
    using flash_write_contained [OF _ _ _ w] by (simp add: demo_flash_def disjoint_ranges_def)
  ultimately show ?thesis using w by (simp add: demo_flash_def slice_def replicate_num)
qed

lemma blank_after_page:
  assumes "slice off (n * page) m = replicate (n * page) (0xFF :: u8)" "k \<le> n" "off + n * page \<le> length m"
  shows "slice (off + (n - k) * page) (k * page) m = replicate (k * page) 0xFF"
proof -
  have n: "n * page = (n - k) * page + k * page" using assms(2) by (simp flip: distrib_right)
  have "slice (off + (n - k) * page) (k * page) m = slice ((n - k) * page) (k * page) (slice off (n * page) m)"
    by (rule slice_slice [symmetric]) (simp add: n)
  then show ?thesis using assms(1) n by (simp add: slice_def)
qed

lemma ram_write_blank:
  assumes "fr_fail_after c = 0" "length src = n * page" "off + n * page \<le> length (fr_mem c)"
    and "slice off (n * page) (fr_mem c) = replicate (n * page) 0xFF"
  shows "fst (ram_write_pages page off src n c) = Ok ()"
  using assms
proof (induction n arbitrary: off src c)
  case (Suc n)
  let ?c = "c\<lparr>fr_mem := blit off (take page src) (fr_mem c), fr_pages_written := fr_pages_written c + 1\<rparr>"
  have sp: "slice off page (fr_mem c) = replicate page 0xFF"
    "slice (off + page) (n * page) (fr_mem c) = replicate (n * page) 0xFF"
    using Suc.prems(3,4) slice_append [of off page "n * page" "fr_mem c"]
    by (auto simp: replicate_add append_eq_append_conv)
  have l: "length (take page src) = page" using Suc.prems(2) by simp
  have "slice (off + page) (n * page) (fr_mem ?c) = slice (off + page) (n * page) (fr_mem c)"
    using Suc.prems(3) l by (simp add: slice_blit_other disjoint_ranges_def)
  then have "fst (ram_write_pages page (off + page) (drop page src) n ?c) = Ok ()"
    using Suc.prems sp l by (intro Suc.IH) simp_all
  then show ?case using Suc.prems(1) sp(1) by (simp add: Let_def)
qed simp

text \<open>
  With no power loss pending, erasing a sector range and then writing page-aligned data
  inside it always succeeds on the RAM backend, and the data reads back.
\<close>

theorem erased_flash_accepts_write:
  assumes "0 < sector" "0 < page" "length (fr_mem c) = sz" "fr_fail_after c = 0"
    and "syn_flash_erase_sectors (ram_port mem_addr sz sector page) off len c = (Ok (), c1)"
    and "off \<le> woff" "woff + length bs \<le> off + len" "bs \<noteq> []"
    and "woff mod page = 0" "length bs mod page = 0"
  shows "(case syn_flash_write (ram_port mem_addr sz sector page) woff bs c1 of (r, c2) \<Rightarrow>
    r = Ok () \<and> syn_flash_read (ram_port mem_addr sz sector page) woff (length bs) c2 = Ok bs)"
proof -
  let ?p = "ram_port mem_addr sz sector page"
  have e: "syn_flash_erase_sectors (ram_dev mem_addr sz sector page) off len c = (Ok (), c1)"
    using assms(5) ram_port_is_dev [OF assms(1,2)] by metis
  have sz: "fp_size (ram_dev mem_addr sz sector page) = sz" by (simp add: ram_dev_def ram_port_def)
  have E: "length (fr_mem c1) = sz" "slice off len (fr_mem c1) = replicate len 0xFF" "off + len \<le> sz"
    using ram.erase_sectors_spec(1,3) [OF assms(3) e] sz by simp_all
  have fa: "fr_fail_after (snd (erase_sector_loop ?p x n d)) = fr_fail_after d" for x n d
    by (induction n arbitrary: x d) (simp_all add: ram_erase_def)
  have f0: "fr_fail_after c1 = 0"
    using assms(4,5) fa [of off "len div sector" c]
    by (auto simp: syn_flash_erase_sectors_def split: sum.splits if_splits)
  have "slice woff (length bs) (fr_mem c1) = slice (woff - off) (length bs) (slice off len (fr_mem c1))"
    using assms(6,7) by (subst slice_slice) simp_all
  then have blank: "slice woff (length bs) (fr_mem c1) = replicate (length bs) 0xFF"
    using E(2) assms(6,7) by (auto simp: slice_def min_def)
  have n: "length bs div page * page = length bs" using assms(10) by auto
  have "fst (ram_write_pages page woff bs (length bs div page) c1) = Ok ()"
    using f0 n blank E(1,3) assms(7) by (intro ram_write_blank) simp_all
  then have ok: "fst (syn_flash_write ?p woff bs c1) = Ok ()"
    using E(1,3) assms(6-10) by (simp add: syn_flash_write_def check_range_def ram_write_def)
  obtain r c2 where w: "syn_flash_write ?p woff bs c1 = (r, c2)" by (cases "syn_flash_write ?p woff bs c1")
  then show ?thesis using ok flash_write_contained [OF assms(1,2) E(1) w] by simp
qed

theorem erased_flash_accepts_write_witness:
  "fst (syn_flash_write (ram_port 0 8 4 4) 4 [1, 2, 3, 4] (snd (syn_flash_erase_sectors (ram_port 0 8 4 4) 4 4
     (demo_flash\<lparr>fr_mem := replicate 8 7, fr_fail_after := 0\<rparr>)))) = Ok ()"
proof -
  let ?c = "demo_flash\<lparr>fr_mem := replicate 8 7, fr_fail_after := 0\<rparr>"
  have "fst (syn_flash_erase_sectors (ram_port 0 8 4 4) 4 4 ?c) = Ok ()"
    by (simp add: syn_flash_erase_sectors_def check_range_def ram_erase_def)
  then obtain c1 where c1: "syn_flash_erase_sectors (ram_port 0 8 4 4) 4 4 ?c = (Ok (), c1)"
    by (cases "syn_flash_erase_sectors (ram_port 0 8 4 4) 4 4 ?c") auto
  have "length (fr_mem ?c) = 8" "fr_fail_after ?c = 0" by simp_all
  from erased_flash_accepts_write [OF _ _ this c1, of 4 "[1, 2, 3, 4]"] c1 show ?thesis
    by (simp split: prod.splits)
qed

text \<open>Two ROMs that answer alike for every address range inside the writable window.\<close>

definition rom_agree :: "'f rom_api \<Rightarrow> 'f rom_api \<Rightarrow> bool" where
  "rom_agree r s \<longleftrightarrow> (\<forall>a n. SYN_FLASH_WRITABLE_BASE \<le> a \<and> a + n \<le> SYN_FLASH_WRITABLE_END \<longrightarrow>
     rom_read r a n = rom_read s a n \<and> rom_erase r a n = rom_erase s a n \<and>
     rom_verify_erase r a n = rom_verify_erase s a n \<and>
     (\<forall>bs. length bs = n \<longrightarrow> rom_program r a bs = rom_program s a bs))"

lemma mcx_port_sel [simp]: "fp_size (mcx_port rom) = 0xE0000" "fp_sector_size (mcx_port rom) = 0x2000"
  "fp_page_size (mcx_port rom) = 128" "fp_read (mcx_port rom) = mcx_read rom 0x120000"
  "fp_write (mcx_port rom) = mcx_write rom 0x120000" "fp_erase (mcx_port rom) = mcx_erase rom 0x120000"
  "fp_is_blank (mcx_port rom) = mcx_is_blank rom 0x120000"
  by (simp_all add: mcx_port_def Let_def)

text \<open>
  C35: the checked operations on the MCX port behave the same for any two ROMs that agree inside
  the writable window of bank 1: no argument makes them read, program or erase an address
  outside it, bank 0 and the CPU1 image reserve included.
\<close>

theorem mcx_confined_to_window:
  assumes "rom_agree r s"
  shows "syn_flash_read (mcx_port r) off len f = syn_flash_read (mcx_port s) off len f \<and>
    syn_flash_write (mcx_port r) off bs f = syn_flash_write (mcx_port s) off bs f \<and>
    syn_flash_erase (mcx_port r) off len f = syn_flash_erase (mcx_port s) off len f \<and>
    syn_flash_erase_sectors (mcx_port r) off len f = syn_flash_erase_sectors (mcx_port s) off len f \<and>
    syn_flash_is_blank (mcx_port r) off len f = syn_flash_is_blank (mcx_port s) off len f"
proof -
  have ag: "rom_read r (0x120000 + o') n = rom_read s (0x120000 + o') n \<and>
      rom_erase r (0x120000 + o') n = rom_erase s (0x120000 + o') n \<and>
      rom_verify_erase r (0x120000 + o') n = rom_verify_erase s (0x120000 + o') n \<and>
      (\<forall>bs. length bs = n \<longrightarrow> rom_program r (0x120000 + o') bs = rom_program s (0x120000 + o') bs)"
    if "o' + n \<le> 0xE0000" for o' n
    using assms that unfolding rom_agree_def by simp
  have cr: "check_range (mcx_port r) off len = check_range (mcx_port s) off len" for off len
    by (simp add: check_range_def)
  have el: "erase_sector_loop (mcx_port r) o' n f = erase_sector_loop (mcx_port s) o' n f"
    if "o' + n * 0x2000 \<le> 0xE0000" for o' n f
    using that
  proof (induction n arbitrary: o' f)
    case (Suc n)
    then have "mcx_erase r 0x120000 o' 0x2000 f = mcx_erase s 0x120000 o' 0x2000 f"
      using ag [where o' = o' and n = "0x2000"] by (simp add: mcx_erase_def)
    then show ?case using Suc by (auto split: prod.splits sum.splits)
  qed simp
  have bd: "off + len \<le> 0xE0000" if "check_range (mcx_port s) off len = Ok u" for off len u
    using that by (auto simp: check_range_def split: if_splits)
  have "syn_flash_read (mcx_port r) off len f = syn_flash_read (mcx_port s) off len f"
    using ag [OF bd] by (auto simp: syn_flash_read_def cr mcx_read_def split: sum.splits)
  moreover have "syn_flash_write (mcx_port r) off bs f = syn_flash_write (mcx_port s) off bs f"
    using ag [OF bd] by (auto simp: syn_flash_write_def cr mcx_write_def split: sum.splits)
  moreover have "syn_flash_erase (mcx_port r) off len f = syn_flash_erase (mcx_port s) off len f"
    using ag [OF bd] by (auto simp: syn_flash_erase_def cr mcx_erase_def split: sum.splits)
  moreover have "syn_flash_erase_sectors (mcx_port r) off len f = syn_flash_erase_sectors (mcx_port s) off len f"
  proof (cases "check_range (mcx_port s) off len")
    case (Inr u)
    have "off + len div 0x2000 * 0x2000 \<le> off + len" by simp
    with bd [OF Inr] have "off + len div 0x2000 * 0x2000 \<le> 0xE0000" by linarith
    then show ?thesis using el Inr by (simp add: syn_flash_erase_sectors_def cr)
  qed (simp add: syn_flash_erase_sectors_def cr)
  moreover have "syn_flash_is_blank (mcx_port r) off len f = syn_flash_is_blank (mcx_port s) off len f"
    using ag [OF bd] by (auto simp: syn_flash_is_blank_def cr mcx_is_blank_def split: sum.splits)
  ultimately show ?thesis by blast
qed

definition demo_rom :: "u8 list rom_api" where
  "demo_rom = \<lparr>rom_read = \<lambda>a n f. Some (take n (drop a f)), rom_program = \<lambda>a bs f. (True, blit a bs f),
     rom_erase = \<lambda>a n f. (True, blit a (replicate n 0xFF) f), rom_verify_erase = \<lambda>a n f. True,
     rom_init = \<lambda>f. (True, f)\<rparr>"

theorem mcx_confined_to_window_witness:
  "syn_flash_erase (mcx_port (demo_rom\<lparr>rom_erase := \<lambda>a n f. if a < 0x120000 then (False, []) else rom_erase demo_rom a n f\<rparr>))
     0x2000 0x2000 [] = syn_flash_erase (mcx_port demo_rom) 0x2000 0x2000 []"
  using mcx_confined_to_window [of "demo_rom\<lparr>rom_erase := \<lambda>a n f. if a < 0x120000 then (False, []) else rom_erase demo_rom a n f\<rparr>"
      demo_rom, where off = "0x2000" and len = "0x2000" and f = "[]"]
  by (simp add: rom_agree_def)

end
