(* ===== verification/Store_Image.thy ===== *)
theory Store_Image
  imports Flash_Port Model_Registry
begin

text \<open>
  The persistent image of the model store \<open>src/core/syn_model_store.c\<close>: the flash layout and its
  validation, the byte layout of the registry header and of the records (the little-endian
  layout the target gives to \<open>struct store_hdr\<close> and \<open>syn_model_info_t\<close>, 4-byte enums included),
  \<open>image_build\<close> and \<open>copy_load\<close>. Numbers below \<open>2 ^ 32\<close> are \<open>nat\<close>, with the reduction written
  out where the C expression can wrap; slot numbers and \<open>SYN_STORE_SLOT_NONE\<close> are bytes kept as
  \<open>nat\<close>.
\<close>

section \<open>Layout\<close>

record store_layout =
  lo_registry_off :: "nat list"
  lo_registry_size :: nat
  lo_slot_off :: "nat list"
  lo_slot_size :: nat
  lo_slot_count :: nat

abbreviation (input) SLOT_NONE :: nat where "SLOT_NONE \<equiv> 255"
abbreviation (input) SYN_SYNM_HDR_SIZE :: nat where "SYN_SYNM_HDR_SIZE \<equiv> 64"
abbreviation (input) STORE_HDR_SIZE :: nat where "STORE_HDR_SIZE \<equiv> 24"
abbreviation (input) INFO_SIZE :: nat where "INFO_SIZE \<equiv> 88"
abbreviation (input) STORE_BUF_SIZE :: nat where "STORE_BUF_SIZE \<equiv> 1024"
abbreviation (input) IO_BUF_SIZE :: nat where "IO_BUF_SIZE \<equiv> 256"
abbreviation (input) STORE_MAGIC :: u32 where "STORE_MAGIC \<equiv> 0x524E5953"

definition img_size :: "nat \<Rightarrow> nat" where
  "img_size slots = STORE_HDR_SIZE + slots * INFO_SIZE"

definition round_up :: "nat \<Rightarrow> nat \<Rightarrow> nat" where
  "round_up v align = (v + align - 1) mod 2 ^ 32 div align * align"

definition layout_regions :: "store_layout \<Rightarrow> (nat \<times> nat) list" where
  "layout_regions lay =
     map (\<lambda>c. (lo_registry_off lay ! c, lo_registry_size lay)) [0..<2] @
     map (\<lambda>s. (lo_slot_off lay ! s, lo_slot_size lay)) [0..<lo_slot_count lay]"

definition region_ok :: "'f flash_port \<Rightarrow> nat \<times> nat \<Rightarrow> bool" where
  "region_ok port r \<longleftrightarrow> fst r mod fp_sector_size port = 0 \<and> snd r mod fp_sector_size port = 0 \<and>
     fst r \<le> fp_size port \<and> snd r \<le> fp_size port - fst r"

definition regions_overlap :: "nat \<times> nat \<Rightarrow> nat \<times> nat \<Rightarrow> bool" where
  "regions_overlap a b \<longleftrightarrow> fst a < (fst b + snd b) mod 2 ^ 32 \<and> fst b < (fst a + snd a) mod 2 ^ 32"

text \<open>The double loop: each region is checked, then compared with the later ones.\<close>

fun regions_check :: "'f flash_port \<Rightarrow> (nat \<times> nat) list \<Rightarrow> bool" where
  "regions_check port [] = True"
| "regions_check port (r # rs) =
     (region_ok port r \<and> \<not> list_ex (regions_overlap r) rs \<and> regions_check port rs)"

text \<open>\<open>mx\<close> is \<open>SYN_STORE_MAX_SLOTS\<close>; every failing check returns EINVAL.\<close>

definition layout_validate :: "nat \<Rightarrow> 'f flash_port \<Rightarrow> store_layout \<Rightarrow> unit res" where
  "layout_validate mx port lay =
     (if lo_slot_count lay < 2 \<or> lo_slot_count lay > mx then Err EINVAL
      else if lo_registry_size lay = 0 \<or> lo_slot_size lay = 0 then Err EINVAL
      else if lo_registry_size lay < round_up (img_size (lo_slot_count lay)) (fp_page_size port)
      then Err EINVAL
      else if lo_slot_size lay \<le> SYN_SYNM_HDR_SIZE then Err EINVAL
      else if fp_page_size port > IO_BUF_SIZE \<or> IO_BUF_SIZE mod fp_page_size port \<noteq> 0
      then Err EINVAL
      else if \<not> regions_check port (layout_regions lay) then Err EINVAL
      else Ok ())"

section \<open>Byte layout\<close>

record store_hdr =
  sh_magic :: u32
  sh_version :: u16
  sh_slot_count :: nat
  sh_prev_active :: nat
  sh_generation :: u32
  sh_wear :: u32
  sh_active_slot :: nat
  sh_staged_slot :: nat
  sh_occupied :: u8
  sh_rsvd1 :: u8
  sh_crc32 :: u32

definition hdr_bytes :: "store_hdr \<Rightarrow> u8 list" where
  "hdr_bytes h = le32 (sh_magic h) @ le16 (sh_version h) @
     [of_nat (sh_slot_count h), of_nat (sh_prev_active h)] @
     le32 (sh_generation h) @ le32 (sh_wear h) @
     [of_nat (sh_active_slot h), of_nat (sh_staged_slot h), sh_occupied h, sh_rsvd1 h] @
     le32 (sh_crc32 h)"

definition hdr_of_bytes :: "u8 list \<Rightarrow> store_hdr" where
  "hdr_of_bytes b =
     \<lparr>sh_magic = get32 b 0, sh_version = get16 b 4, sh_slot_count = unat (b ! 6),
      sh_prev_active = unat (b ! 7), sh_generation = get32 b 8, sh_wear = get32 b 12,
      sh_active_slot = unat (b ! 16), sh_staged_slot = unat (b ! 17), sh_occupied = b ! 18,
      sh_rsvd1 = b ! 19, sh_crc32 = get32 b 20\<rparr>"

definition info_bytes :: "syn_model_info \<Rightarrow> u8 list" where
  "info_bytes i = mi_name i @ mi_version i @ le32 (mi_input_size i) @ le32 (mi_output_size i) @
     le32 (mi_flash_offset i) @ le32 (mi_flash_size i) @ le32 (mi_sram_required i) @
     le32 (mi_crc32 i) @ le32 (mi_input_dtype i) @ le32 (mi_output_dtype i) @
     mi_input_shape i @ mi_output_shape i"

definition info_of_bytes :: "u8 list \<Rightarrow> syn_model_info" where
  "info_of_bytes b =
     \<lparr>mi_name = slice 0 32 b, mi_version = slice 32 16 b, mi_input_size = get32 b 48,
      mi_output_size = get32 b 52, mi_flash_offset = get32 b 56, mi_flash_size = get32 b 60,
      mi_sram_required = get32 b 64, mi_crc32 = get32 b 68, mi_input_dtype = get32 b 72,
      mi_output_dtype = get32 b 76, mi_input_shape = slice 80 4 b, mi_output_shape = slice 84 4 b\<rparr>"

text \<open>The fixed array sizes of \<open>syn_model_info_t\<close>.\<close>

definition info_ok :: "syn_model_info \<Rightarrow> bool" where
  "info_ok i \<longleftrightarrow> length (mi_name i) = 32 \<and> length (mi_version i) = 16 \<and>
     length (mi_input_shape i) = 4 \<and> length (mi_output_shape i) = 4"

section \<open>Building and loading a registry image\<close>

type_synonym crc_upd = "u32 \<Rightarrow> u8 list \<Rightarrow> u32"

text \<open>The loop that copies the records behind the header.\<close>

definition put_recs :: "syn_model_info list \<Rightarrow> nat \<Rightarrow> u8 list \<Rightarrow> u8 list" where
  "put_recs recs n buf =
     foldl (\<lambda>b s. blit (STORE_HDR_SIZE + s * INFO_SIZE) (info_bytes (recs ! s)) b) buf [0..<n]"

text \<open>
  \<open>image_build\<close> over the header fields of the current state (its CRC field is 0): the filled
  1024-byte buffer and the padded length.
\<close>

definition image_build :: "crc_upd \<Rightarrow> nat \<Rightarrow> store_hdr \<Rightarrow> syn_model_info list \<Rightarrow> u8 list \<times> nat" where
  "image_build upd page hdr recs =
     (let size = img_size (sh_slot_count hdr);
          buf = put_recs recs (sh_slot_count hdr)
                  (blit 0 (hdr_bytes hdr) (replicate STORE_BUF_SIZE 0xFF));
          crc = upd 0 (take size buf)
      in (blit 20 (le32 crc) buf, round_up size page))"

definition hdr_slots :: "store_hdr \<Rightarrow> nat" where
  "hdr_slots h = (if sh_version h = 1 then 2 else sh_slot_count h)"

definition slot_field_ok :: "nat \<Rightarrow> nat \<Rightarrow> bool" where
  "slot_field_ok slots s \<longleftrightarrow> s < slots \<or> s = SLOT_NONE"

text \<open>
  The checks of \<open>copy_load\<close> behind its reads: \<open>b\<close> is the header read first, \<open>img\<close> the image
  read with the size the header implies. The result is the header and the buffer, whose CRC
  field the code has zeroed.
\<close>

definition image_accept :: "crc_upd \<Rightarrow> store_hdr \<Rightarrow> u8 list \<Rightarrow> (store_hdr \<times> u8 list) option" where
  "image_accept upd hdr img =
     (let slots = hdr_slots hdr; z = blit 20 [0, 0, 0, 0] img;
          hdr1 = (if sh_version hdr = 1 then hdr\<lparr>sh_prev_active := SLOT_NONE\<rparr> else hdr)
      in if \<not> slot_field_ok slots (sh_active_slot hdr) \<or> \<not> slot_field_ok slots (sh_staged_slot hdr) \<or>
            sh_occupied hdr AND NOT (mask slots) \<noteq> 0 then None
         else if \<not> slot_field_ok slots (sh_prev_active hdr1) then None
         else if upd 0 z \<noteq> sh_crc32 hdr then None
         else Some (hdr1, z))"

definition copy_load ::
  "crc_upd \<Rightarrow> nat \<Rightarrow> 'f flash_port \<Rightarrow> store_layout \<Rightarrow> nat \<Rightarrow> 'f \<Rightarrow> (store_hdr \<times> u8 list) option" where
  "copy_load upd mx port lay copy f =
     (let off = lo_registry_off lay ! copy in
      case syn_flash_is_blank port off (fp_page_size port) f of
        Inl _ \<Rightarrow> None
      | Inr True \<Rightarrow> None
      | Inr False \<Rightarrow>
        (case syn_flash_read port off STORE_HDR_SIZE f of
           Inl _ \<Rightarrow> None
         | Inr b \<Rightarrow>
             let hdr = hdr_of_bytes b in
             if sh_magic hdr \<noteq> STORE_MAGIC \<or> sh_version hdr \<noteq> 2 \<and> sh_version hdr \<noteq> 1 then None
             else if hdr_slots hdr < 2 \<or> hdr_slots hdr > mx \<or> hdr_slots hdr > lo_slot_count lay then None
             else (case syn_flash_read port off (img_size (hdr_slots hdr)) f of
                     Inl _ \<Rightarrow> None
                   | Inr img \<Rightarrow> image_accept upd hdr img)))"

text \<open>The unpacking loop of the boot scan over an accepted buffer.\<close>

definition unpack_recs :: "u8 list \<Rightarrow> nat \<Rightarrow> syn_model_info list \<Rightarrow> syn_model_info list" where
  "unpack_recs img n recs =
     foldl (\<lambda>r s. r[s := info_of_bytes (slice (STORE_HDR_SIZE + s * INFO_SIZE) INFO_SIZE img)]) recs [0..<n]"

section \<open>Round trips of the byte layout\<close>

lemma slice_at [codec_simps]:
  "length xs = off \<Longrightarrow> length ys = n \<Longrightarrow> slice off n (xs @ ys @ zs) = ys"
  by (simp add: slice_def)

lemma length_info_bytes [codec_simps]: "info_ok i \<Longrightarrow> length (info_bytes i) = 88"
  by (simp add: info_ok_def info_bytes_def)

lemma length_hdr_bytes [simp, codec_simps]: "length (hdr_bytes h) = 24"
  by (simp add: hdr_bytes_def)

text \<open>Reading a little-endian word behind a prefix of known length.\<close>

lemma get32_skip: "length xs \<le> k \<Longrightarrow> get32 (xs @ ys) k = get32 ys (k - length xs)"
  by (simp add: get32_def nth_append Suc_diff_le)

lemma get32_Cons: "0 < k \<Longrightarrow> get32 (x # ys) k = get32 ys (k - 1)"
  using get32_skip [of "[x]" k ys] by simp

lemma get32_head [simp]: "get32 (le32 w @ ys) 0 = w"
  using get32_le32 [of 0 "[]" w ys] by simp

lemma get32_head' [simp]: "get32 (le32 w) 0 = w"
  using get32_head [of w "[]"] by simp

lemma slice_skip: "length xs \<le> k \<Longrightarrow> slice k n (xs @ ys) = slice (k - length xs) n ys"
  by (simp add: slice_def)

lemma slice_head: "length xs = n \<Longrightarrow> slice 0 n (xs @ ys) = xs"
  by (simp add: slice_def)

lemma info_roundtrip: "info_ok i \<Longrightarrow> info_of_bytes (info_bytes i) = i"
  by (cases i) (simp add: info_ok_def info_of_bytes_def info_bytes_def get32_skip slice_skip slice_head,
      simp add: slice_def)

definition hdr_fields_ok :: "store_hdr \<Rightarrow> bool" where
  "hdr_fields_ok h \<longleftrightarrow> sh_slot_count h < 256 \<and> sh_prev_active h < 256 \<and> sh_active_slot h < 256 \<and>
     sh_staged_slot h < 256"

lemma unat_byte: "n < 256 \<Longrightarrow> unat (of_nat n :: u8) = n"
  by (simp add: unat_of_nat take_bit_eq_mod)

lemma hdr_bytes_nth [simp]:
  "hdr_bytes h ! 6 = of_nat (sh_slot_count h)" "hdr_bytes h ! 7 = of_nat (sh_prev_active h)"
  "hdr_bytes h ! 16 = of_nat (sh_active_slot h)" "hdr_bytes h ! 17 = of_nat (sh_staged_slot h)"
  "hdr_bytes h ! 18 = sh_occupied h" "hdr_bytes h ! 19 = sh_rsvd1 h"
  by (simp_all add: hdr_bytes_def nth_append)

lemma hdr_bytes_get [simp]:
  "get32 (hdr_bytes h) 0 = sh_magic h" "get16 (hdr_bytes h) 4 = sh_version h"
  "get32 (hdr_bytes h) 8 = sh_generation h" "get32 (hdr_bytes h) 12 = sh_wear h"
  "get32 (hdr_bytes h) 20 = sh_crc32 h"
  using get16_le16 [of 4 "le32 (sh_magic h)" "sh_version h"]
  by (simp_all add: hdr_bytes_def get32_skip get32_Cons)

lemma hdr_roundtrip: "hdr_fields_ok h \<Longrightarrow> hdr_of_bytes (hdr_bytes h) = h"
  by (cases h) (simp add: hdr_of_bytes_def hdr_fields_ok_def unat_byte)

section \<open>The records behind the header\<close>

lemma put_recs_Suc: "put_recs recs (Suc n) buf = blit (24 + n * 88) (info_bytes (recs ! n)) (put_recs recs n buf)"
  by (simp add: put_recs_def)

lemma put_recs_0 [simp]: "put_recs recs 0 buf = buf"
  by (simp add: put_recs_def)

lemma put_recs_spec:
  assumes "24 + n * 88 \<le> length buf" "\<forall>s < n. info_ok (recs ! s)"
  shows "length (put_recs recs n buf) = length buf \<and>
    (\<forall>a k. a + k \<le> 24 \<longrightarrow> slice a k (put_recs recs n buf) = slice a k buf) \<and>
    (\<forall>s < n. slice (24 + s * 88) 88 (put_recs recs n buf) = info_bytes (recs ! s))"
  using assms
proof (induction n)
  case (Suc n)
  let ?b = "put_recs recs n buf" and ?i = "info_bytes (recs ! n)"
  have IH: "length ?b = length buf" "\<forall>a k. a + k \<le> 24 \<longrightarrow> slice a k ?b = slice a k buf"
    "\<forall>s < n. slice (24 + s * 88) 88 ?b = info_bytes (recs ! s)"
    using Suc by auto
  have l: "length ?i = 88" using Suc.prems(2) by (simp add: length_info_bytes)
  have b: "24 + n * 88 + length ?i \<le> length ?b" using IH(1) l Suc.prems(1) by simp
  have "slice a k (blit (24 + n * 88) ?i ?b) = slice a k buf" if "a + k \<le> 24" for a k
    using IH(1,2) that b Suc.prems(1) by (subst slice_blit_other) (auto simp: disjoint_ranges_def)
  moreover have "slice (24 + s * 88) 88 (blit (24 + n * 88) ?i ?b) = info_bytes (recs ! s)" if "s < Suc n" for s
  proof (cases "s = n")
    case True
    then show ?thesis using b l by simp
  next
    case False
    with that have "s < n" by simp
    moreover from this have "24 + s * 88 + 88 \<le> 24 + n * 88" by linarith
    ultimately show ?thesis using b IH(1,3) Suc.prems(1)
      by (subst slice_blit_other) (auto simp: disjoint_ranges_def)
  qed
  ultimately show ?case using IH(1) b by (simp add: put_recs_Suc)
qed simp

lemma unpack_recs_spec:
  assumes "n \<le> length recs"
  shows "length (unpack_recs img n recs) = length recs \<and>
    (\<forall>s. unpack_recs img n recs ! s =
       (if s < n then info_of_bytes (slice (24 + s * 88) 88 img) else recs ! s))"
  using assms
proof (induction n)
  case (Suc n)
  then show ?case by (auto simp: unpack_recs_def nth_list_update less_Suc_eq)
qed (simp add: unpack_recs_def)

section \<open>An image that was built is accepted\<close>

text \<open>The header fields a state of the store puts into an image.\<close>

definition built_hdr_ok :: "store_hdr \<Rightarrow> bool" where
  "built_hdr_ok h \<longleftrightarrow> sh_magic h = STORE_MAGIC \<and> sh_version h = 2 \<and> 2 \<le> sh_slot_count h \<and>
     sh_slot_count h \<le> 8 \<and> sh_crc32 h = 0 \<and>
     slot_field_ok (sh_slot_count h) (sh_active_slot h) \<and>
     slot_field_ok (sh_slot_count h) (sh_staged_slot h) \<and>
     slot_field_ok (sh_slot_count h) (sh_prev_active h) \<and>
     sh_occupied h AND NOT (mask (sh_slot_count h)) = 0"

lemma built_fields: "built_hdr_ok h \<Longrightarrow> hdr_fields_ok h"
  by (auto simp: built_hdr_ok_def hdr_fields_ok_def slot_field_ok_def)

lemma hdr_bytes_crc: "blit 20 (le32 c) (hdr_bytes h) = hdr_bytes (h\<lparr>sh_crc32 := c\<rparr>)"
  by (simp add: blit_def hdr_bytes_def)

lemma blit_blit_same:
  assumes "length a = length b" "off + length a \<le> length m"
  shows "blit off a (blit off b m) = blit off a m"
  using assms by (intro nth_equalityI) (simp_all add: nth_blit)

lemma blit_slice:
  assumes "off + n \<le> length m"
  shows "blit off (slice off n m) m = m"
  using assms by (intro nth_equalityI) (auto simp: nth_blit nth_slice)

lemma slice_blit_inside:
  assumes "off + length src \<le> n" "n \<le> length m"
  shows "slice 0 n (blit off src m) = blit off src (slice 0 n m)"
  using assms by (intro nth_equalityI) (simp_all add: nth_blit nth_slice)

lemma image_build_spec:
  assumes "built_hdr_ok h" "\<forall>s < sh_slot_count h. info_ok (recs ! s)"
    and "image_build upd page h recs = (img, len)"
  shows "length img = 1024" "len = round_up (img_size (sh_slot_count h)) page"
    "\<exists>c. c = upd 0 (blit 20 [0, 0, 0, 0] (slice 0 (img_size (sh_slot_count h)) img)) \<and>
       slice 0 24 img = hdr_bytes (h\<lparr>sh_crc32 := c\<rparr>)"
    "s < sh_slot_count h \<Longrightarrow> slice (24 + s * 88) 88 img = info_bytes (recs ! s)"
proof -
  let ?n = "sh_slot_count h" and ?base = "blit 0 (hdr_bytes h) (replicate 1024 (0xFF :: u8))"
  let ?b = "put_recs recs ?n ?base" and ?sz = "img_size (sh_slot_count h)"
  let ?c = "upd 0 (take ?sz ?b)"
  have n8: "?n \<le> 8" using assms(1) by (simp add: built_hdr_ok_def)
  have l0: "length ?base = 1024" by simp
  have P: "length ?b = 1024" "\<And>a k. a + k \<le> 24 \<Longrightarrow> slice a k ?b = slice a k ?base"
    "\<And>s. s < ?n \<Longrightarrow> slice (24 + s * 88) 88 ?b = info_bytes (recs ! s)"
  proof -
    have "24 + ?n * 88 \<le> length ?base" using n8 l0 by linarith
    note S = put_recs_spec [OF this assms(2)]
    show "length ?b = 1024" using conjunct1 [OF S] l0 by (rule trans)
    show "slice a k ?b = slice a k ?base" if "a + k \<le> 24" for a k using S that by blast
    show "slice (24 + s * 88) 88 ?b = info_bytes (recs ! s)" if "s < ?n" for s using S that by blast
  qed
  have img: "img = blit 20 (le32 ?c) ?b" and len: "len = round_up ?sz page"
    using assms(3) by (simp_all add: image_build_def Let_def)
  show "length img = 1024" using P(1) img by simp
  show "len = round_up ?sz page" by (rule len)
  have h0: "slice 0 24 ?b = hdr_bytes h" using P(2) [of 0 24] by simp
  have sz: "24 \<le> ?sz" "?sz \<le> 1024" using n8 by (simp_all add: img_size_def)
  have z20: "slice 20 4 (hdr_bytes h) = [0, 0, 0, 0]"
    using assms(1) by (simp add: built_hdr_ok_def hdr_bytes_def slice_def le32_def)
  have z: "slice 20 4 ?b = [0, 0, 0, 0]"
    using h0 z20 slice_slice [of 20 4 24 0 ?b] by simp
  have "blit 20 [0, 0, 0, 0] (slice 0 ?sz img) = blit 20 [0, 0, 0, 0] (slice 0 ?sz ?b)"
    unfolding img using sz P(1) by (simp add: slice_blit_inside blit_blit_same)
  also have "\<dots> = slice 0 ?sz ?b"
  proof -
    have "slice 20 4 (slice 0 ?sz ?b) = [0, 0, 0, 0]" using z sz slice_slice [of 20 4 ?sz 0 ?b] by simp
    then show ?thesis using blit_slice [of 20 4 "slice 0 ?sz ?b"] sz P(1) by simp
  qed
  finally have c: "?c = upd 0 (blit 20 [0, 0, 0, 0] (slice 0 ?sz img))" by (simp add: slice_def)
  have "slice 0 24 img = blit 20 (le32 ?c) (slice 0 24 ?b)"
    unfolding img using P(1) by (subst slice_blit_inside) simp_all
  then have "slice 0 24 img = hdr_bytes (h\<lparr>sh_crc32 := ?c\<rparr>)" using h0 hdr_bytes_crc by simp
  with c show "\<exists>c. c = upd 0 (blit 20 [0, 0, 0, 0] (slice 0 ?sz img)) \<and> slice 0 24 img = hdr_bytes (h\<lparr>sh_crc32 := c\<rparr>)"
    by blast
  show "slice (24 + s * 88) 88 img = info_bytes (recs ! s)" if "s < ?n"
  proof -
    have "s * 88 + 88 \<le> ?n * 88" using that by linarith
    then have "24 + s * 88 + 88 \<le> 1024" using n8 by linarith
    then show ?thesis unfolding img using P(1) P(3) [OF that]
      by (subst slice_blit_other) (auto simp: disjoint_ranges_def)
  qed
qed

lemma round_up_ge:
  assumes "0 < page" "v + page - 1 < 2 ^ 32"
  shows "v \<le> round_up v page"
proof -
  let ?x = "v + page - 1"
  have "?x div page * page + ?x mod page = ?x" by (rule div_mult_mod_eq)
  moreover have "?x mod page < page" using assms(1) by simp
  ultimately have "v \<le> ?x div page * page" using assms(1) by linarith
  then show ?thesis using assms(2) by (simp add: round_up_def)
qed

lemma round_up_dvd [simp]: "round_up v page mod page = 0"
  by (simp add: round_up_def)

lemma round_up_le: "0 < page \<Longrightarrow> v + page - 1 < 2 ^ 32 \<Longrightarrow> round_up v page < v + page"
  using div_times_less_eq_dividend [of "v + page - 1" page] unfolding round_up_def
  by (simp del: div_times_less_eq_dividend)

text \<open>Accepting the bytes of a built image.\<close>

lemma image_accept_built:
  assumes "built_hdr_ok h" "c = upd 0 (blit 20 [0, 0, 0, 0] img)"
  shows "image_accept upd (h\<lparr>sh_crc32 := c\<rparr>) img = Some (h\<lparr>sh_crc32 := c\<rparr>, blit 20 [0, 0, 0, 0] img)"
  using assms by (simp add: image_accept_def Let_def hdr_slots_def built_hdr_ok_def)

context flash_reliable
begin

lemma copy_load_built:
  assumes ok: "dev_ok f" and h: "built_hdr_ok h" and recs: "\<forall>s < sh_slot_count h. info_ok (recs ! s)"
    and b: "image_build upd (fp_page_size port) h recs = (img, len)"
    and on: "slice off len (content f) = slice 0 len img" "off + len \<le> fp_size port"
    and off: "off = lo_registry_off lay ! copy"
    and n: "sh_slot_count h \<le> mx" "sh_slot_count h \<le> lo_slot_count lay" and pg: "fp_page_size port \<le> 256"
  shows "\<exists>c. copy_load upd mx port lay copy f =
    Some (h\<lparr>sh_crc32 := c\<rparr>, blit 20 [0, 0, 0, 0] (slice 0 (img_size (sh_slot_count h)) img))"
proof -
  let ?sz = "img_size (sh_slot_count h)" and ?pg = "fp_page_size port"
  note B = image_build_spec [OF h recs b]
  obtain c where c: "c = upd 0 (blit 20 [0, 0, 0, 0] (slice 0 ?sz img))"
    and hb: "slice 0 24 img = hdr_bytes (h\<lparr>sh_crc32 := c\<rparr>)" using B(3) by blast
  have n8: "2 \<le> sh_slot_count h" "sh_slot_count h \<le> 8" using h by (simp_all add: built_hdr_ok_def)
  have sz: "24 < ?sz" "?sz \<le> 1000" using n8 by (simp_all add: img_size_def)
  have "?sz \<le> len" using B(2) sz geometry(1) pg round_up_ge [of ?pg ?sz] by simp
  then have len: "?sz \<le> len" "len mod ?pg = 0" "0 < len" using B(2) sz by simp_all
  then have pl: "?pg \<le> len" by (metis dvd_imp_le mod_0_imp_dvd)
  have sl: "slice off k (content f) = slice 0 k img" if "k \<le> len" for k
    using on(1) that slice_slice [of 0 k len off "content f"] slice_slice [of 0 k len 0 img] by simp
  have hdr: "syn_flash_read port off 24 f = Ok (hdr_bytes (h\<lparr>sh_crc32 := c\<rparr>))"
    using ok sl [of 24] hb len sz on(2) by (simp add: read_eq)
  have rd: "syn_flash_read port off ?sz f = Ok (slice 0 ?sz img)"
    using ok sl [of ?sz] len sz on(2) by (simp add: read_eq)
  have "syn_flash_is_blank port off ?pg f = Ok False"
  proof -
    have "slice 0 1 img = [ucast STORE_MAGIC]"
      using hb slice_slice [of 0 1 24 0 img] h
      by (simp add: hdr_bytes_def built_hdr_ok_def slice_def le32_def)
    moreover have "slice 0 1 (replicate ?pg (0xFF :: u8)) = [0xFF]"
      using geometry(1) by (cases ?pg) (simp_all add: slice_def)
    ultimately have "slice 0 ?pg img \<noteq> replicate ?pg 0xFF"
      using slice_slice [of 0 1 ?pg 0 img] geometry(1) by auto
    then show ?thesis using ok sl [OF pl] geometry(1) pl on(2) by (simp add: blank_eq)
  qed
  moreover have "hdr_fields_ok (h\<lparr>sh_crc32 := c\<rparr>)" using built_fields [OF h] by (simp add: hdr_fields_ok_def)
  ultimately have "copy_load upd mx port lay copy f = Some (h\<lparr>sh_crc32 := c\<rparr>, blit 20 [0, 0, 0, 0] (slice 0 ?sz img))"
    using hdr rd n n8 h image_accept_built [of h c upd "slice 0 ?sz img", OF h c]
    by (simp add: copy_load_def Let_def off [symmetric] hdr_roundtrip hdr_slots_def built_hdr_ok_def)
  then show ?thesis by blast
qed

lemma copy_load_frame:
  assumes "dev_ok f" "dev_ok f'" and "off = lo_registry_off lay ! copy" "off + sz \<le> fp_size port"
    and "slice off sz (content f') = slice off sz (content f)"
    and "fp_page_size port \<le> sz" "img_size (lo_slot_count lay) \<le> sz"
  shows "copy_load upd mx port lay copy f' = copy_load upd mx port lay copy f"
proof -
  have sl: "slice off k (content f') = slice off k (content f)" if "k \<le> sz" for k
    using assms(5) that slice_slice [of 0 k sz off "content f"] slice_slice [of 0 k sz off "content f'"] by simp
  have rd: "syn_flash_read port off k f' = syn_flash_read port off k f" if "k \<le> sz" for k
    using assms(1,2) sl [OF that] by (simp add: read_eq)
  have bl: "syn_flash_is_blank port off (fp_page_size port) f' = syn_flash_is_blank port off (fp_page_size port) f"
    using assms(1,2) sl [OF assms(6)] by (simp add: blank_eq)
  have r24: "syn_flash_read port off 24 f' = syn_flash_read port off 24 f"
    using assms(7) by (intro rd) (simp add: img_size_def)
  have mono: "img_size n \<le> sz" if "n \<le> lo_slot_count lay" for n
    using that assms(7) by (simp add: img_size_def)
  show ?thesis unfolding copy_load_def assms(3) [symmetric] bl Let_def r24
    using rd mono by (auto split: sum.splits bool.splits)
qed

end

section \<open>What a valid layout guarantees\<close>

lemma regions_check_ok: "regions_check port rs \<Longrightarrow> r \<in> set rs \<Longrightarrow> region_ok port r"
  by (induction rs) auto

lemma region_okD: "region_ok port r \<Longrightarrow> fst r + snd r \<le> fp_size port"
  by (auto simp: region_ok_def)

lemma not_overlap:
  assumes "region_ok port a" "region_ok port b" "fp_size port < 2 ^ 32" "\<not> regions_overlap a b"
  shows "disjoint_ranges (fst a) (snd a) (fst b) (snd b)"
proof -
  have "fst a + snd a < 2 ^ 32" "fst b + snd b < 2 ^ 32"
    using region_okD [OF assms(1)] region_okD [OF assms(2)] assms(3) by linarith+
  then have "(fst a + snd a) mod 2 ^ 32 = fst a + snd a" "(fst b + snd b) mod 2 ^ 32 = fst b + snd b"
    by (simp_all only: mod_less)
  then show ?thesis using assms(4) unfolding regions_overlap_def disjoint_ranges_def
    by (simp only: not_less de_Morgan_conj) blast
qed

lemma regions_check_disjoint:
  assumes "regions_check port rs" "fp_size port < 2 ^ 32" "i < j" "j < length rs"
  shows "disjoint_ranges (fst (rs ! i)) (snd (rs ! i)) (fst (rs ! j)) (snd (rs ! j))"
  using assms
proof (induction rs arbitrary: i j)
  case (Cons r rs)
  then obtain j' where j: "j = Suc j'" by (cases j) auto
  show ?case
  proof (cases i)
    case 0
    have m: "rs ! j' \<in> set rs" using Cons.prems(4) j by simp
    then have "\<not> regions_overlap r (rs ! j')" "region_ok port (rs ! j')" "region_ok port r"
      using Cons.prems(1) regions_check_ok [of port rs "rs ! j'"] by (auto simp: list_ex_iff)
    from not_overlap [OF this(3,2) Cons.prems(2) this(1)] show ?thesis by (simp add: 0 j)
  next
    case (Suc i')
    then show ?thesis using Cons.IH [of i' j'] Cons.prems j by simp
  qed
qed simp

lemma length_layout_regions [simp]: "length (layout_regions lay) = 2 + lo_slot_count lay"
  by (simp add: layout_regions_def)

lemma layout_region_nth:
  "c < 2 \<Longrightarrow> layout_regions lay ! c = (lo_registry_off lay ! c, lo_registry_size lay)"
  "s < lo_slot_count lay \<Longrightarrow> layout_regions lay ! (2 + s) = (lo_slot_off lay ! s, lo_slot_size lay)"
  by (auto simp: layout_regions_def nth_append)

definition layout_sound :: "nat \<Rightarrow> 'f flash_port \<Rightarrow> store_layout \<Rightarrow> bool" where
  "layout_sound mx port lay \<longleftrightarrow> 2 \<le> lo_slot_count lay \<and> lo_slot_count lay \<le> mx \<and>
     64 < lo_slot_size lay \<and> fp_page_size port \<le> 256 \<and> 256 mod fp_page_size port = 0 \<and>
     round_up (img_size (lo_slot_count lay)) (fp_page_size port) \<le> lo_registry_size lay \<and>
     (\<forall>i < 2 + lo_slot_count lay. region_ok port (layout_regions lay ! i)) \<and>
     (\<forall>i < 2 + lo_slot_count lay. \<forall>j < 2 + lo_slot_count lay. i \<noteq> j \<longrightarrow>
        disjoint_ranges (fst (layout_regions lay ! i)) (snd (layout_regions lay ! i))
          (fst (layout_regions lay ! j)) (snd (layout_regions lay ! j)))"

lemma layout_validate_sound:
  assumes "layout_validate mx port lay = Ok ()" "fp_size port < 2 ^ 32"
  shows "layout_sound mx port lay"
proof -
  have c: "regions_check port (layout_regions lay)" and
    o: "2 \<le> lo_slot_count lay" "lo_slot_count lay \<le> mx" "64 < lo_slot_size lay" "fp_page_size port \<le> 256"
      "256 mod fp_page_size port = 0" "round_up (img_size (lo_slot_count lay)) (fp_page_size port) \<le> lo_registry_size lay"
    using assms(1) by (auto simp: layout_validate_def split: if_splits)
  have "disjoint_ranges (fst (layout_regions lay ! i)) (snd (layout_regions lay ! i))
      (fst (layout_regions lay ! j)) (snd (layout_regions lay ! j))"
    if "i < 2 + lo_slot_count lay" "j < 2 + lo_slot_count lay" "i \<noteq> j" for i j
    using regions_check_disjoint [OF c assms(2), of i j] regions_check_disjoint [OF c assms(2), of j i] that
    by (cases "i < j") (auto simp: disjoint_ranges_def)
  moreover have "region_ok port (layout_regions lay ! i)" if "i < 2 + lo_slot_count lay" for i
    using regions_check_ok [OF c, of "layout_regions lay ! i"] that by simp
  ultimately show ?thesis using o unfolding layout_sound_def by blast
qed

end
