(* ===== verification/Model_Store.thy ===== *)
theory Model_Store
  imports Store_Image
begin

text \<open>
  The persistent multi-slot model store \<open>src/core/syn_model_store.c\<close>: its static state, the boot
  scan, the commit of the registry image into the older of two copies, and the operations that
  stage, activate, roll back, clear and install models. The operations also act on the flash
  device and on the RAM registry, so they map a record of the three. The port, the NPU backend,
  the CRC-32 update function of the Zephyr library, the CPU's view of mapped flash, the test for
  a suspended job, \<open>SYN_STORE_MAX_SLOTS\<close> and the measured duration are an environment record.
  The store's mutex makes each operation one step.
\<close>

section \<open>State\<close>

record store =
  so_ready :: bool
  so_lay :: store_layout
  so_gen :: u32
  so_active :: nat
  so_prev :: nat
  so_staged :: nat
  so_occ :: u8
  so_rec :: "syn_model_info list"
  so_wear :: "u32 list"
  so_valid :: "bool list"
  so_newest :: nat
  so_scan_us :: u32
  so_commit_us :: u32

record ('f, 'h) sys =
  sy_st :: store
  sy_flash :: 'f
  sy_reg :: "'h registry"

record ('f, 'h) senv =
  se_port :: "'f flash_port"
  se_ops :: "'h npu_ops"
  se_upd :: crc_upd
  se_view :: "'f \<Rightarrow> mem_view"
  se_susp :: "nat \<Rightarrow> bool"
  se_max :: nat
  se_us :: u32

definition set_st :: "store \<Rightarrow> ('f, 'h) sys \<Rightarrow> ('f, 'h) sys" where
  "set_st st s = s\<lparr>sy_st := st\<rparr>"

definition se_crc :: "('f, 'h) senv \<Rightarrow> crc_fn" where
  "se_crc e bs = se_upd e 0 bs"

section \<open>Commit\<close>

text \<open>The header \<open>image_build\<close> fills from the state.\<close>

definition state_hdr :: "store \<Rightarrow> u32 \<Rightarrow> u32 \<Rightarrow> store_hdr" where
  "state_hdr st gen wear =
     \<lparr>sh_magic = STORE_MAGIC, sh_version = 2, sh_slot_count = lo_slot_count (so_lay st),
      sh_prev_active = so_prev st, sh_generation = gen, sh_wear = wear,
      sh_active_slot = so_active st, sh_staged_slot = so_staged st, sh_occupied = so_occ st,
      sh_rsvd1 = 0, sh_crc32 = 0\<rparr>"

text \<open>The read-back loop over 64-byte chunks.\<close>

function verify_loop :: "'f flash_port \<Rightarrow> nat \<Rightarrow> u8 list \<Rightarrow> nat \<Rightarrow> nat \<Rightarrow> 'f \<Rightarrow> unit res" where
  "verify_loop port off img verify pos f =
     (if pos < verify then
        let n = min 64 (verify - pos) in
        (case syn_flash_read port (off + pos) n f of
           Inl e \<Rightarrow> Err e
         | Inr page \<Rightarrow>
             if page \<noteq> slice pos n img then Err EIO
             else verify_loop port off img verify (pos + n) f)
      else Ok ())"
  by pat_completeness auto
termination by (relation "measure (\<lambda>(_, _, _, verify, pos, _). verify - pos)") auto

declare verify_loop.simps [simp del]

definition copy_commit :: "('f, 'h) senv \<Rightarrow> nat \<Rightarrow> u32 \<Rightarrow> ('f, 'h) sys \<Rightarrow> unit res \<times> ('f, 'h) sys" where
  "copy_commit e copy gen s =
     (let st = sy_st s; port = se_port e; lay = so_lay st;
          off = lo_registry_off lay ! copy;
          wear = so_wear st ! copy + 1;
          (img, len) = image_build (se_upd e) (fp_page_size port) (state_hdr st gen wear) (so_rec st);
          invalid = (\<lambda>st. st\<lparr>so_valid := (so_valid st)[copy := False]\<rparr>)
      in case syn_flash_erase port off (lo_registry_size lay) (sy_flash s) of
           (Inl er, f1) \<Rightarrow> (Err er, s\<lparr>sy_st := invalid st, sy_flash := f1\<rparr>)
         | (Inr _, f1) \<Rightarrow>
             let st1 = st\<lparr>so_wear := (so_wear st)[copy := wear]\<rparr> in
             (case syn_flash_write port off (slice 0 len img) f1 of
                (Inl er, f2) \<Rightarrow> (Err er, s\<lparr>sy_st := invalid st1, sy_flash := f2\<rparr>)
              | (Inr _, f2) \<Rightarrow>
                  (case verify_loop port off img (img_size (lo_slot_count lay)) 0 f2 of
                     Inl er \<Rightarrow> (Err er, s\<lparr>sy_st := invalid st1, sy_flash := f2\<rparr>)
                   | Inr _ \<Rightarrow>
                       (Ok (), s\<lparr>sy_flash := f2, sy_st := st1\<lparr>so_valid := (so_valid st1)[copy := True],
                           so_newest := copy, so_gen := gen, so_commit_us := se_us e\<rparr>\<rparr>))))"

definition commit_target :: "store \<Rightarrow> nat" where
  "commit_target st = (if so_valid st ! so_newest st then 1 - so_newest st else 0)"

definition commit :: "('f, 'h) senv \<Rightarrow> ('f, 'h) sys \<Rightarrow> unit res \<times> ('f, 'h) sys" where
  "commit e s = copy_commit e (commit_target (sy_st s)) (so_gen (sy_st s) + 1) s"

section \<open>Slots and the RAM registry\<close>

definition slot_payload_ptr :: "('f, 'h) senv \<Rightarrow> store \<Rightarrow> nat \<Rightarrow> nat option" where
  "slot_payload_ptr e st slot =
     syn_flash_mmap (se_port e) (lo_slot_off (so_lay st) ! slot + SYN_SYNM_HDR_SIZE)"

text \<open>The CRC of a payload read in 256-byte chunks; \<open>pos\<close> bytes are done, with CRC \<open>crc\<close>.\<close>

function payload_crc_loop ::
  "crc_upd \<Rightarrow> 'f flash_port \<Rightarrow> nat \<Rightarrow> nat \<Rightarrow> nat \<Rightarrow> u32 \<Rightarrow> 'f \<Rightarrow> u32 res" where
  "payload_crc_loop upd port off sz pos crc f =
     (if pos < sz then
        let n = min IO_BUF_SIZE (sz - pos) in
        (case syn_flash_read port (off + pos) n f of
           Inl e \<Rightarrow> Err e
         | Inr b \<Rightarrow> payload_crc_loop upd port off sz (pos + n) (upd crc b) f)
      else Ok crc)"
  by pat_completeness auto
termination by (relation "measure (\<lambda>(_, _, _, sz, pos, _, _). sz - pos)") auto

declare payload_crc_loop.simps [simp del]

definition slot_payload_crc :: "('f, 'h) senv \<Rightarrow> nat \<Rightarrow> nat \<Rightarrow> ('f, 'h) sys \<Rightarrow> u32 res" where
  "slot_payload_crc e slot sz s =
     payload_crc_loop (se_upd e) (se_port e)
       (lo_slot_off (so_lay (sy_st s)) ! slot + SYN_SYNM_HDR_SIZE) sz 0 0 (sy_flash s)"

definition slot_handle :: "store \<Rightarrow> nat \<Rightarrow> 'h registry \<Rightarrow> nat option" where
  "slot_handle st slot g =
     (case syn_model_get_by_name (Some (mi_name (so_rec st ! slot))) True g of
        Inl _ \<Rightarrow> None
      | Inr h \<Rightarrow>
          (case syn_model_get_info h True g of
             Inl _ \<Rightarrow> None
           | Inr info \<Rightarrow>
               if mi_flash_offset info = mi_flash_offset (so_rec st ! slot) then Some h else None))"

definition ram_unregister :: "('f, 'h) senv \<Rightarrow> nat \<Rightarrow> ('f, 'h) sys \<Rightarrow> unit res \<times> ('f, 'h) sys" where
  "ram_unregister e slot s =
     (case slot_handle (sy_st s) slot (sy_reg s) of
        None \<Rightarrow> (Ok (), s)
      | Some h \<Rightarrow>
          (case syn_model_unregister (se_ops e) (se_susp e) h (sy_reg s) of
             (r, g) \<Rightarrow> (r, s\<lparr>sy_reg := g\<rparr>)))"

text \<open>
  The value of a success is the handle that the code stores through \<open>handle\<close>, when that is not
  NULL. \<open>register_slot\<close> is the part behind the name replacement.
\<close>

definition register_slot :: "('f, 'h) senv \<Rightarrow> nat \<Rightarrow> ('f, 'h) sys \<Rightarrow> nat res \<times> ('f, 'h) sys" where
  "register_slot e slot s =
     (let rec = so_rec (sy_st s) ! slot in
      case syn_model_register (Some rec) True (sy_reg s) of
        (Inl er, g) \<Rightarrow> (Err er, s\<lparr>sy_reg := g\<rparr>)
      | (Inr h, g) \<Rightarrow>
          (case slot_payload_ptr e (sy_st s) slot of
             None \<Rightarrow> (Ok h, s\<lparr>sy_reg := g\<rparr>)
           | Some p \<Rightarrow> (Ok h, s\<lparr>sy_reg :=
               snd (syn_model_set_data h (Some p) (unat (mi_flash_size rec)) g)\<rparr>)))"

definition ram_register :: "('f, 'h) senv \<Rightarrow> nat \<Rightarrow> ('f, 'h) sys \<Rightarrow> nat res \<times> ('f, 'h) sys" where
  "ram_register e slot s =
     (let rec = so_rec (sy_st s) ! slot in
      case syn_model_get_by_name (Some (mi_name rec)) True (sy_reg s) of
        Inl _ \<Rightarrow> register_slot e slot s
      | Inr h \<Rightarrow>
          if (case syn_model_get_info h True (sy_reg s) of Inl _ \<Rightarrow> False
              | Inr info \<Rightarrow> mi_flash_offset info = mi_flash_offset rec)
          then (Ok h, s)
          else (case syn_model_unregister (se_ops e) (se_susp e) h (sy_reg s) of
                  (Inl er, g) \<Rightarrow> (Err er, s\<lparr>sy_reg := g\<rparr>)
                | (Inr _, g) \<Rightarrow> register_slot e slot (s\<lparr>sy_reg := g\<rparr>)))"

definition model_load :: "('f, 'h) senv \<Rightarrow> nat \<Rightarrow> ('f, 'h) sys \<Rightarrow> unit res \<times> ('f, 'h) sys" where
  "model_load e h s =
     (case syn_model_load (se_ops e) (se_crc e) (se_view e (sy_flash s)) h (sy_reg s) of
        (r, g) \<Rightarrow> (r, s\<lparr>sy_reg := g\<rparr>))"

section \<open>Boot\<close>

text \<open>The scan: which copy is adopted, given the two loads.\<close>

definition pick_newest :: "store_hdr option \<Rightarrow> store_hdr option \<Rightarrow> nat option" where
  "pick_newest h0 h1 =
     (case (h0, h1) of
        (Some a, Some b) \<Rightarrow> Some (if sh_generation b > sh_generation a then 1 else 0)
      | (Some _, None) \<Rightarrow> Some 0
      | (None, Some _) \<Rightarrow> Some 1
      | (None, None) \<Rightarrow> None)"

definition zero_info :: syn_model_info where
  "zero_info = sl_info empty_slot"

definition fresh_store :: "nat \<Rightarrow> store_layout \<Rightarrow> store" where
  "fresh_store mx lay =
     \<lparr>so_ready = False, so_lay = lay, so_gen = 0, so_active = SLOT_NONE, so_prev = SLOT_NONE,
      so_staged = SLOT_NONE, so_occ = 0, so_rec = replicate mx zero_info, so_wear = [0, 0],
      so_valid = [False, False], so_newest = 0, so_scan_us = 0, so_commit_us = 0\<rparr>"

definition scan_copies :: "('f, 'h) senv \<Rightarrow> store_layout \<Rightarrow> 'f \<Rightarrow> store" where
  "scan_copies e lay f =
     (let ld = (\<lambda>c. copy_load (se_upd e) (se_max e) (se_port e) lay c f);
          h0 = map_option fst (ld 0); h1 = map_option fst (ld 1);
          wear = map (\<lambda>h. case h of None \<Rightarrow> 0 | Some hx \<Rightarrow> sh_wear hx) [h0, h1];
          st = (fresh_store (se_max e) lay)\<lparr>so_wear := wear\<rparr>
      in case pick_newest h0 h1 of
           None \<Rightarrow> st
         | Some c \<Rightarrow>
             (case ld c of None \<Rightarrow> st
              | Some (h, img) \<Rightarrow>
                  st\<lparr>so_valid := [h0 \<noteq> None, h1 \<noteq> None], so_newest := c,
                     so_gen := sh_generation h, so_active := sh_active_slot h,
                     so_prev := sh_prev_active h, so_staged := sh_staged_slot h,
                     so_occ := sh_occupied h,
                     so_rec := unpack_recs img (hdr_slots h) (so_rec st)\<rparr>))"

text \<open>The loop that makes every occupied slot resident, except the active and the staged one.\<close>

fun resident_loop :: "('f, 'h) senv \<Rightarrow> nat list \<Rightarrow> ('f, 'h) sys \<Rightarrow> ('f, 'h) sys" where
  "resident_loop e [] s = s"
| "resident_loop e (n # ns) s =
     (let st = sy_st s in
      if \<not> bit (so_occ st) n \<or> n = so_active st \<or> n = so_staged st then resident_loop e ns s
      else if is_ok (syn_model_get_by_name (Some (mi_name (so_rec st ! n))) True (sy_reg s))
      then resident_loop e ns s
      else resident_loop e ns (snd (ram_register e n s)))"

definition syn_store_init ::
  "('f, 'h) senv \<Rightarrow> bool \<Rightarrow> store_layout option \<Rightarrow> ('f, 'h) sys \<Rightarrow> unit res \<times> ('f, 'h) sys" where
  "syn_store_init e port_ptr layout s =
     (case layout of None \<Rightarrow> (Err EINVAL, s)
      | Some lay \<Rightarrow>
          if \<not> port_ptr then (Err EINVAL, s)
          else if so_ready (sy_st s) then (Err EALREADY, s)
          else (case layout_validate (se_max e) (se_port e) lay of
                  Inl er \<Rightarrow> (Err er, s)
                | Inr _ \<Rightarrow>
                    let s1 = set_st ((scan_copies e lay (sy_flash s))\<lparr>so_ready := True\<rparr>) s;
                        s2 = (if so_active (sy_st s1) \<noteq> SLOT_NONE
                              then snd (ram_register e (so_active (sy_st s1)) s1) else s1);
                        s3 = resident_loop e [0..<lo_slot_count lay] s2
                    in (Ok (), set_st ((sy_st s3)\<lparr>so_scan_us := se_us e\<rparr>) s3)))"

definition syn_store_deinit :: "('f, 'h) sys \<Rightarrow> ('f, 'h) sys" where
  "syn_store_deinit s = set_st ((sy_st s)\<lparr>so_ready := False\<rparr>) s"

section \<open>Operations\<close>

abbreviation (input) no_slot :: "store \<Rightarrow> nat \<Rightarrow> bool" where
  "no_slot st slot \<equiv> \<not> so_ready st \<or> slot \<ge> lo_slot_count (so_lay st)"

definition syn_store_staging_slot :: "bool \<Rightarrow> store \<Rightarrow> nat res" where
  "syn_store_staging_slot slot_ptr st =
     (let slots = [0..<lo_slot_count (so_lay st)] in
      if \<not> so_ready st \<or> \<not> slot_ptr then Err EINVAL
      else (case first_index (\<lambda>s. \<not> bit (so_occ st) s) slots of
              Some s \<Rightarrow> Ok s
            | None \<Rightarrow>
                (case first_index (\<lambda>s. s \<noteq> so_active st \<and> s \<noteq> so_prev st) slots of
                   Some s \<Rightarrow> Ok s
                 | None \<Rightarrow>
                     (case first_index (\<lambda>s. s \<noteq> so_active st) slots of
                        Some s \<Rightarrow> Ok s | None \<Rightarrow> Err ENOSPC))))"

definition syn_store_slot_bounds :: "nat \<Rightarrow> store \<Rightarrow> (nat \<times> nat) res" where
  "syn_store_slot_bounds slot st =
     (if no_slot st slot then Err EINVAL
      else Ok (lo_slot_off (so_lay st) ! slot, lo_slot_size (so_lay st)))"

text \<open>
  A commit under tentative fields: \<open>upd\<close> changes them, \<open>undo\<close> restores them when the commit fails.
\<close>

definition commit_or_undo ::
  "('f, 'h) senv \<Rightarrow> (store \<Rightarrow> store) \<Rightarrow> (store \<Rightarrow> store) \<Rightarrow> ('f, 'h) sys \<Rightarrow> unit res \<times> ('f, 'h) sys" where
  "commit_or_undo e upd undo s =
     (case commit e (set_st (upd (sy_st s)) s) of
        (Inl er, s1) \<Rightarrow> (Err er, set_st (undo (sy_st s1)) s1)
      | (Inr _, s1) \<Rightarrow> (Ok (), s1))"

definition syn_store_begin_staging :: "('f, 'h) senv \<Rightarrow> nat \<Rightarrow> ('f, 'h) sys \<Rightarrow> unit res \<times> ('f, 'h) sys" where
  "syn_store_begin_staging e slot s =
     (let st = sy_st s in
      if no_slot st slot then (Err EINVAL, s)
      else if slot = so_active st then (Err EBUSY, s)
      else if \<not> bit (so_occ st) slot then (Ok (), s)
      else (case ram_unregister e slot s of
              (Inl er, s1) \<Rightarrow> (Err er, s1)
            | (Inr _, s1) \<Rightarrow>
                commit_or_undo e
                  (\<lambda>st. st\<lparr>so_occ := unset_bit slot (so_occ st),
                     so_staged := (if so_staged st = slot then SLOT_NONE else so_staged st),
                     so_prev := (if so_prev st = slot then SLOT_NONE else so_prev st)\<rparr>)
                  (\<lambda>st1. st1\<lparr>so_occ := so_occ st, so_staged := so_staged st, so_prev := so_prev st\<rparr>) s1))"

definition syn_store_mark_staged ::
  "('f, 'h) senv \<Rightarrow> nat \<Rightarrow> syn_model_info option \<Rightarrow> ('f, 'h) sys \<Rightarrow> unit res \<times> ('f, 'h) sys" where
  "syn_store_mark_staged e slot info s =
     (let st = sy_st s in
      case info of None \<Rightarrow> (Err EINVAL, s)
      | Some nfo \<Rightarrow>
          if no_slot st slot then (Err EINVAL, s)
          else if slot = so_active st then (Err EBUSY, s)
          else commit_or_undo e
                 (\<lambda>st. st\<lparr>so_rec := (so_rec st)[slot := nfo], so_occ := set_bit slot (so_occ st),
                    so_staged := slot\<rparr>)
                 (\<lambda>st1. st1\<lparr>so_rec := (so_rec st1)[slot := so_rec st ! slot], so_occ := so_occ st,
                    so_staged := so_staged st\<rparr>) s)"

text \<open>
  The common part of activate and rollback: the NPU residency of the outgoing slot. \<open>release\<close>
  refuses when its model is pinned, otherwise it tells whether the model was loaded, and its handle.
\<close>

definition release_npu :: "('f, 'h) senv \<Rightarrow> nat \<Rightarrow> ('f, 'h) sys \<Rightarrow> nat option res \<times> ('f, 'h) sys" where
  "release_npu e old s =
     (case (if old \<noteq> SLOT_NONE then slot_handle (sy_st s) old (sy_reg s) else None) of
        None \<Rightarrow> (Ok None, s)
      | Some h \<Rightarrow>
          if syn_model_is_loaded h (sy_reg s) then
            (case syn_model_unload (se_ops e) (se_susp e) h (sy_reg s) of
               (Inl _, g) \<Rightarrow> (Err EBUSY, s\<lparr>sy_reg := g\<rparr>)
             | (Inr _, g) \<Rightarrow> (Ok (Some h), s\<lparr>sy_reg := g\<rparr>))
          else (Ok None, s))"

definition hand_over_npu :: "('f, 'h) senv \<Rightarrow> nat \<Rightarrow> bool \<Rightarrow> ('f, 'h) sys \<Rightarrow> ('f, 'h) sys" where
  "hand_over_npu e slot was_loaded s =
     (case ram_register e slot s of
        (Inl _, s1) \<Rightarrow> s1
      | (Inr h, s1) \<Rightarrow> if was_loaded then snd (model_load e h s1) else s1)"

definition switch_active ::
  "('f, 'h) senv \<Rightarrow> nat \<Rightarrow> (store \<Rightarrow> store) \<Rightarrow> (store \<Rightarrow> store) \<Rightarrow> ('f, 'h) sys \<Rightarrow> unit res \<times> ('f, 'h) sys" where
  "switch_active e slot upd undo s =
     (case release_npu e (so_active (sy_st s)) s of
        (Inl er, s1) \<Rightarrow> (Err er, s1)
      | (Inr held, s1) \<Rightarrow>
          (case commit_or_undo e upd undo s1 of
             (Inl er, s2) \<Rightarrow> (Err er, case held of None \<Rightarrow> s2 | Some h \<Rightarrow> snd (model_load e h s2))
           | (Inr _, s2) \<Rightarrow> (Ok (), hand_over_npu e slot (held \<noteq> None) s2)))"

definition syn_store_activate :: "('f, 'h) senv \<Rightarrow> nat \<Rightarrow> ('f, 'h) sys \<Rightarrow> unit res \<times> ('f, 'h) sys" where
  "syn_store_activate e slot s =
     (let st = sy_st s in
      if no_slot st slot then (Err EINVAL, s)
      else if \<not> bit (so_occ st) slot then (Err ENOENT, s)
      else if slot = so_active st then (Err EALREADY, s)
      else switch_active e slot
             (\<lambda>st. st\<lparr>so_active := slot, so_prev := so_active st,
                so_staged := (if so_staged st = slot then SLOT_NONE else so_staged st)\<rparr>)
             (\<lambda>st1. st1\<lparr>so_active := so_active st, so_staged := so_staged st, so_prev := so_prev st\<rparr>) s)"

text \<open>The rollback target: the recorded pivot, else the last slot the scan accepts.\<close>

definition rollback_target :: "store \<Rightarrow> nat" where
  "rollback_target st =
     (if so_prev st \<noteq> SLOT_NONE \<and> so_prev st \<noteq> so_active st \<and> bit (so_occ st) (so_prev st)
      then so_prev st
      else foldl (\<lambda>prev s. if bit (so_occ st) s \<and> s \<noteq> so_active st \<and> s \<noteq> so_staged st then s else prev)
             SLOT_NONE [0..<lo_slot_count (so_lay st)])"

definition syn_store_rollback :: "('f, 'h) senv \<Rightarrow> ('f, 'h) sys \<Rightarrow> unit res \<times> ('f, 'h) sys" where
  "syn_store_rollback e s =
     (let st = sy_st s; prev = rollback_target st in
      if \<not> so_ready st then (Err EINVAL, s)
      else if prev = SLOT_NONE then (Err ENOENT, s)
      else switch_active e prev
             (\<lambda>st. st\<lparr>so_active := prev, so_prev := so_active st\<rparr>)
             (\<lambda>st1. st1\<lparr>so_active := so_active st, so_prev := so_prev st\<rparr>) s)"

definition syn_store_clear_staged :: "('f, 'h) senv \<Rightarrow> ('f, 'h) sys \<Rightarrow> unit res \<times> ('f, 'h) sys" where
  "syn_store_clear_staged e s =
     (let st = sy_st s in
      if \<not> so_ready st then (Err EINVAL, s)
      else if so_staged st = SLOT_NONE then (Ok (), s)
      else commit_or_undo e
             (\<lambda>st. st\<lparr>so_occ := unset_bit (so_staged st) (so_occ st), so_staged := SLOT_NONE\<rparr>)
             (\<lambda>st1. st1\<lparr>so_occ := so_occ st, so_staged := so_staged st\<rparr>) s)"

section \<open>Install\<close>

text \<open>The 64-byte \<open>.synm\<close> header; the shape bytes of the registry become 16-bit fields.\<close>

definition synm_hdr_bytes :: "u8 list \<Rightarrow> u32 \<Rightarrow> u32 \<Rightarrow> u8 list \<Rightarrow> u8 list \<Rightarrow> u8 list" where
  "synm_hdr_bytes name model_size crc in_shape out_shape =
     le32 0x4D4E5953 @ le32 1 @ take 32 name @ le32 model_size @ le32 crc @
     concat (map (\<lambda>b. le16 (ucast b)) (take 4 in_shape)) @
     concat (map (\<lambda>b. le16 (ucast b)) (take 4 out_shape))"

function payload_write_loop ::
  "'f flash_port \<Rightarrow> nat \<Rightarrow> u8 list \<Rightarrow> nat \<Rightarrow> 'f \<Rightarrow> unit res \<times> 'f" where
  "payload_write_loop port off src pos f =
     (if pos < length src then
        let n = min IO_BUF_SIZE (length src - pos);
            padded = round_up n (fp_page_size port);
            buf = blit 0 (slice pos n src) (replicate padded 0xFF)
        in (case syn_flash_write port (off + SYN_SYNM_HDR_SIZE + pos) buf f of
              (Inl e, f1) \<Rightarrow> (Err e, f1)
            | (Inr _, f1) \<Rightarrow> payload_write_loop port off src (pos + n) f1)
      else (Ok (), f))"
  by pat_completeness auto
termination by (relation "measure (\<lambda>(_, _, src, pos, _). length src - pos)") auto

declare payload_write_loop.simps [simp del]

text \<open>Erase, header pages and payload of the slot at \<open>off\<close>.\<close>

definition slot_write ::
  "'f flash_port \<Rightarrow> nat \<Rightarrow> nat \<Rightarrow> u8 list \<Rightarrow> u8 list \<Rightarrow> 'f \<Rightarrow> unit res \<times> 'f" where
  "slot_write port off total_sz hdr src f =
     (case syn_flash_erase_sectors port off (round_up total_sz (fp_sector_size port)) f of
        (Inl e, f1) \<Rightarrow> (Err e, f1)
      | (Inr _, f1) \<Rightarrow>
          let hdr_pages = round_up SYN_SYNM_HDR_SIZE (fp_page_size port);
              lead = min (hdr_pages - SYN_SYNM_HDR_SIZE) (length src);
              buf = blit SYN_SYNM_HDR_SIZE (take lead src) (blit 0 hdr (replicate hdr_pages 0xFF))
          in (case syn_flash_write port off buf f1 of
                (Inl e, f2) \<Rightarrow> (Err e, f2)
              | (Inr _, f2) \<Rightarrow> payload_write_loop port off src lead f2))"

text \<open>
  \<open>data\<close> and \<open>size\<close> are one list. The result of the staging-slot query is not looked at; it
  cannot fail on a ready store.
\<close>

definition syn_store_install ::
  "('f, 'h) senv \<Rightarrow> syn_model_info option \<Rightarrow> u8 list option \<Rightarrow> ('f, 'h) sys \<Rightarrow> nat res \<times> ('f, 'h) sys" where
  "syn_store_install e info data s =
     (case (info, data, syn_store_staging_slot True (sy_st s)) of
        (Some nfo, Some src, Inr slot) \<Rightarrow>
          let st = sy_st s; port = se_port e; lay = so_lay st;
              total_sz = (SYN_SYNM_HDR_SIZE + length src) mod 2 ^ 32;
              crc = se_crc e src; off = lo_slot_off lay ! slot
          in if length src = 0 \<or> mi_name nfo ! 0 = 0 then (Err EINVAL, s)
             else if total_sz > lo_slot_size lay then (Err EFBIG, s)
             else if mi_crc32 nfo \<noteq> 0 \<and> mi_crc32 nfo \<noteq> crc then (Err EILSEQ, s)
             else (case syn_store_begin_staging e slot s of
                     (Inl er, s1) \<Rightarrow> (Err er, s1)
                   | (Inr _, s1) \<Rightarrow>
                     (case slot_write port off total_sz (synm_hdr_bytes (mi_name nfo) (of_nat (length src)) crc
                               (mi_input_shape nfo) (mi_output_shape nfo)) src (sy_flash s1) of
                        (Inl er, f1) \<Rightarrow> (Err er, s1\<lparr>sy_flash := f1\<rparr>)
                      | (Inr _, f1) \<Rightarrow>
                          let s2 = s1\<lparr>sy_flash := f1\<rparr>; st2 = sy_st s2;
                              rec = nfo\<lparr>mi_flash_offset := of_nat (fp_base port + off + SYN_SYNM_HDR_SIZE),
                                        mi_flash_size := of_nat (length src), mi_crc32 := crc\<rparr>
                          in (case slot_payload_crc e slot (length src) s2 of
                                Inl er \<Rightarrow> (Err er, s2)
                              | Inr fcrc \<Rightarrow>
                                  if fcrc \<noteq> crc then (Err EILSEQ, s2)
                                  else (case commit_or_undo e
                                          (\<lambda>st. st\<lparr>so_rec := (so_rec st)[slot := rec],
                                             so_occ := set_bit slot (so_occ st),
                                             so_staged := (if so_staged st = slot then SLOT_NONE else so_staged st),
                                             so_active := slot,
                                             so_prev := (if so_active st \<noteq> slot then so_active st else so_prev st)\<rparr>)
                                          (\<lambda>st. st\<lparr>so_rec := (so_rec st)[slot := so_rec st2 ! slot],
                                             so_occ := so_occ st2, so_staged := so_staged st2,
                                             so_active := so_active st2, so_prev := so_prev st2\<rparr>) s2 of
                                          (Inl er, s3) \<Rightarrow> (Err er, s3)
                                        | (Inr _, s3) \<Rightarrow> ram_register e slot s3))))
      | _ \<Rightarrow> (Err EINVAL, s))"

section \<open>Accessors\<close>

definition syn_store_active_slot :: "store \<Rightarrow> nat" where
  "syn_store_active_slot st = (if so_ready st then so_active st else SLOT_NONE)"

definition syn_store_prev_active_slot :: "store \<Rightarrow> nat" where
  "syn_store_prev_active_slot st = (if so_ready st then so_prev st else SLOT_NONE)"

definition syn_store_slot_count :: "store \<Rightarrow> nat" where
  "syn_store_slot_count st = (if so_ready st then lo_slot_count (so_lay st) else 0)"

definition syn_store_staged_slot :: "store \<Rightarrow> nat" where
  "syn_store_staged_slot st = (if so_ready st then so_staged st else SLOT_NONE)"

definition syn_store_slot_info :: "nat \<Rightarrow> bool \<Rightarrow> store \<Rightarrow> syn_model_info res" where
  "syn_store_slot_info slot info_ptr st =
     (if no_slot st slot \<or> \<not> info_ptr then Err EINVAL
      else if \<not> bit (so_occ st) slot then Err ENOENT
      else Ok (so_rec st ! slot))"

definition syn_store_generation :: "store \<Rightarrow> u32" where
  "syn_store_generation st = (if so_ready st then so_gen st else 0)"

definition syn_store_wear :: "nat \<Rightarrow> store \<Rightarrow> u32" where
  "syn_store_wear copy st = (if so_ready st \<and> copy < 2 then so_wear st ! copy else 0)"

definition syn_store_last_commit_us :: "store \<Rightarrow> u32" where
  "syn_store_last_commit_us st = so_commit_us st"

definition syn_store_scan_us :: "store \<Rightarrow> u32" where
  "syn_store_scan_us st = so_scan_us st"

definition syn_store_layout_get :: "store \<Rightarrow> store_layout option" where
  "syn_store_layout_get st = (if so_ready st then Some (so_lay st) else None)"

text \<open>The layout of the board, relative to the writable window (\<open>syn_flash_map.h\<close>).\<close>

definition map_layout :: store_layout where
  "map_layout = \<lparr>lo_registry_off = [0x120000 - SYN_FLASH_WRITABLE_BASE, 0x122000 - SYN_FLASH_WRITABLE_BASE],
     lo_registry_size = 0x2000,
     lo_slot_off = [0x124000 - SYN_FLASH_WRITABLE_BASE, 0x192000 - SYN_FLASH_WRITABLE_BASE],
     lo_slot_size = 0x6E000, lo_slot_count = 2\<rparr>"

text \<open>
  The boot hook of the board. It never fails: a store that does not come up is only logged. The
  flag of the ROM driver is threaded through.
\<close>

definition syn_store_auto_init ::
  "'f rom_api \<Rightarrow> ('f, 'h) senv \<Rightarrow> bool \<Rightarrow> ('f, 'h) sys \<Rightarrow> bool \<times> ('f, 'h) sys" where
  "syn_store_auto_init rom e fcfg_ready s =
     (case syn_flash_port_mcx_init rom True fcfg_ready (sy_flash s) of
        (Inl _, rdy, f) \<Rightarrow> (rdy, s\<lparr>sy_flash := f\<rparr>)
      | (Inr port, rdy, f) \<Rightarrow>
          (rdy, snd (syn_store_init (e\<lparr>se_port := port\<rparr>) True (Some map_layout) (s\<lparr>sy_flash := f\<rparr>))))"

section \<open>Well-formed states and the copy that holds them\<close>

text \<open>
  \<open>store_wf\<close>: the state fits its validated layout. \<open>persisted\<close>: registry copy \<open>c\<close> is accepted
  and unpacks to exactly the current fields. \<open>synced\<close>: the newest copy holds the current state; a
  store without a valid copy is the fresh one, and its copy 1, which the next commit spares, does
  not load.
\<close>

definition store_wf :: "('f, 'h) senv \<Rightarrow> store \<Rightarrow> bool" where
  "store_wf e st \<longleftrightarrow> layout_sound (se_max e) (se_port e) (so_lay st) \<and> se_max e \<le> 8 \<and>
     length (so_rec st) = se_max e \<and> (\<forall>i < se_max e. info_ok (so_rec st ! i)) \<and>
     (\<forall>i < se_max e. lo_slot_count (so_lay st) \<le> i \<longrightarrow> so_rec st ! i = zero_info) \<and>
     length (so_wear st) = 2 \<and> length (so_valid st) = 2 \<and> so_newest st < 2 \<and>
     slot_field_ok (lo_slot_count (so_lay st)) (so_active st) \<and>
     slot_field_ok (lo_slot_count (so_lay st)) (so_staged st) \<and>
     slot_field_ok (lo_slot_count (so_lay st)) (so_prev st) \<and>
     so_occ st AND NOT (mask (lo_slot_count (so_lay st))) = 0"

definition load_copy :: "('f, 'h) senv \<Rightarrow> store_layout \<Rightarrow> nat \<Rightarrow> 'f \<Rightarrow> (store_hdr \<times> u8 list) option" where
  "load_copy e lay c f = copy_load (se_upd e) (se_max e) (se_port e) lay c f"

text \<open>The persistent fields of a state.\<close>

definition pfields :: "store \<Rightarrow> nat \<times> nat \<times> nat \<times> u8 \<times> syn_model_info list" where
  "pfields st = (so_active st, so_prev st, so_staged st, so_occ st, so_rec st)"

definition persisted :: "('f, 'h) senv \<Rightarrow> nat \<Rightarrow> 'f \<Rightarrow> store \<Rightarrow> bool" where
  "persisted e c f st \<longleftrightarrow>
     (case load_copy e (so_lay st) c f of None \<Rightarrow> False
      | Some (h, img) \<Rightarrow> sh_generation h = so_gen st \<and>
          pfields st = (sh_active_slot h, sh_prev_active h, sh_staged_slot h, sh_occupied h,
            unpack_recs img (hdr_slots h) (replicate (se_max e) zero_info)))"

definition synced :: "('f, 'h) senv \<Rightarrow> 'f \<Rightarrow> store \<Rightarrow> bool" where
  "synced e f st \<longleftrightarrow>
     (if so_valid st ! so_newest st then persisted e (so_newest st) f st
      else so_newest st = 0 \<and> load_copy e (so_lay st) 1 f = None \<and>
        pfields st = pfields (fresh_store (se_max e) (so_lay st)))"

text \<open>The bookkeeping fields, which only the commit changes.\<close>

definition bfields :: "store \<Rightarrow> bool \<times> store_layout \<times> u32 \<times> u32 list \<times> bool list \<times> nat" where
  "bfields st = (so_ready st, so_lay st, so_gen st, so_wear st, so_valid st, so_newest st)"

lemma store_wf_state_hdr:
  "store_wf e st \<Longrightarrow> built_hdr_ok (state_hdr st gen wear) \<and> (\<forall>s < lo_slot_count (so_lay st). info_ok (so_rec st ! s))"
  by (auto simp: store_wf_def built_hdr_ok_def state_hdr_def layout_sound_def)

lemma registry_region:
  assumes "layout_sound mx port lay" "c < 2"
  shows "lo_registry_off lay ! c + lo_registry_size lay \<le> fp_size port"
    "lo_registry_off lay ! c mod fp_sector_size port = 0"
  using assms layout_region_nth(1) [OF assms(2), of lay]
  unfolding layout_sound_def region_ok_def by (auto dest!: spec [of _ c])

lemma registry_copies_disjoint:
  assumes "layout_sound mx port lay" "c < 2" "d < 2" "c \<noteq> d"
  shows "disjoint_ranges (lo_registry_off lay ! c) (lo_registry_size lay) (lo_registry_off lay ! d) (lo_registry_size lay)"
  using assms layout_region_nth(1) [OF assms(2), of lay] layout_region_nth(1) [OF assms(3), of lay]
  unfolding layout_sound_def by (metis fst_conv snd_conv trans_less_add1)

lemma slot_region:
  assumes "layout_sound mx port lay" "s < lo_slot_count lay"
  shows "lo_slot_off lay ! s + lo_slot_size lay \<le> fp_size port"
  using assms layout_region_nth(2) [OF assms(2)] unfolding layout_sound_def
  by (auto dest!: spec [of _ "2 + s"] region_okD)

lemma slot_registry_disjoint:
  assumes "layout_sound mx port lay" "s < lo_slot_count lay" "c < 2"
  shows "disjoint_ranges (lo_slot_off lay ! s) (lo_slot_size lay) (lo_registry_off lay ! c) (lo_registry_size lay)"
proof -
  have "2 + s < 2 + lo_slot_count lay" "c < 2 + lo_slot_count lay" "2 + s \<noteq> c" using assms(2,3) by auto
  then have "disjoint_ranges (fst (layout_regions lay ! (2 + s))) (snd (layout_regions lay ! (2 + s)))
      (fst (layout_regions lay ! c)) (snd (layout_regions lay ! c))"
    using assms(1) unfolding layout_sound_def by blast
  then show ?thesis using layout_region_nth(1) [OF assms(3), of lay] layout_region_nth(2) [OF assms(2)] by simp
qed

lemma slots_disjoint:
  assumes "layout_sound mx port lay" "s < lo_slot_count lay" "t < lo_slot_count lay" "s \<noteq> t"
  shows "disjoint_ranges (lo_slot_off lay ! s) (lo_slot_size lay) (lo_slot_off lay ! t) (lo_slot_size lay)"
proof -
  have "2 + s < 2 + lo_slot_count lay" "2 + t < 2 + lo_slot_count lay" "2 + s \<noteq> 2 + t" using assms(2-4) by auto
  then have "disjoint_ranges (fst (layout_regions lay ! (2 + s))) (snd (layout_regions lay ! (2 + s)))
      (fst (layout_regions lay ! (2 + t))) (snd (layout_regions lay ! (2 + t)))"
    using assms(1) unfolding layout_sound_def by blast
  then show ?thesis using layout_region_nth(2) [OF assms(2)] layout_region_nth(2) [OF assms(3)] by simp
qed

lemma verify_loop_Ok:
  assumes "\<And>a n. off \<le> a \<Longrightarrow> 0 < n \<Longrightarrow> a + n \<le> off + verify \<Longrightarrow>
    syn_flash_read port a n f = Ok (slice (a - off) n img)"
  shows "pos \<le> verify \<Longrightarrow> verify_loop port off img verify pos f = Ok ()"
proof (induction "verify - pos" arbitrary: pos rule: less_induct)
  case less
  show ?case
  proof (cases "pos < verify")
    case True
    have "syn_flash_read port (off + pos) (min 64 (verify - pos)) f = Ok (slice pos (min 64 (verify - pos)) img)"
      using assms [of "off + pos" "min 64 (verify - pos)"] True by simp
    moreover have "verify_loop port off img verify (pos + min 64 (verify - pos)) f = Ok ()"
      using less True by simp
    ultimately show ?thesis using True by (subst verify_loop.simps) (simp add: Let_def)
  qed (subst verify_loop.simps, simp)
qed

text \<open>The copy that is not the newest does not load, or is one generation behind.\<close>

definition other_older :: "('f, 'h) senv \<Rightarrow> 'f \<Rightarrow> store \<Rightarrow> bool" where
  "other_older e f st \<longleftrightarrow> so_valid st ! so_newest st \<and>
     (case load_copy e (so_lay st) (1 - so_newest st) f of None \<Rightarrow> True
      | Some (h, img) \<Rightarrow> sh_generation h + 1 = so_gen st)"

lemma store_wf_fields:
  assumes "store_wf e st" "store_wf e st1" "so_lay st1 = so_lay st" "pfields st' = pfields st" "bfields st' = bfields st1"
  shows "store_wf e st'"
  using assms unfolding store_wf_def pfields_def bfields_def by simp

lemma occ_mask: "(w :: u8) AND NOT (mask n) = 0 \<longleftrightarrow> (\<forall>i. bit w i \<longrightarrow> i < n)"
proof
  assume *: "w AND NOT (mask n) = 0"
  show "\<forall>i. bit w i \<longrightarrow> i < n"
  proof (intro allI impI)
    fix i assume b: "bit w i"
    have "\<not> bit (w AND NOT (mask n)) i" using * by simp
    then show "i < n" using b bit_imp_le_length [OF b] by (auto simp: bit_simps)
  qed
qed (auto intro!: bit_word_eqI simp: bit_simps)

lemma occ_set_bit: "w AND NOT (mask n) = 0 \<Longrightarrow> i < n \<Longrightarrow> set_bit i (w :: u8) AND NOT (mask n) = 0"
  unfolding occ_mask by (auto simp: bit_simps)

lemma occ_unset_bit: "w AND NOT (mask n) = 0 \<Longrightarrow> unset_bit i (w :: u8) AND NOT (mask n) = 0"
  unfolding occ_mask by (auto simp: bit_simps)

lemmas store_wf_update = store_wf_def bfields_def pfields_def slot_field_ok_def occ_set_bit occ_unset_bit

lemma rollback_target_ok:
  assumes "store_wf e st" "rollback_target st \<noteq> SLOT_NONE"
  shows "rollback_target st < lo_slot_count (so_lay st) \<and> bit (so_occ st) (rollback_target st) \<and>
    rollback_target st \<noteq> so_active st"
proof -
  let ?f = "\<lambda>prev s. if bit (so_occ st) s \<and> s \<noteq> so_active st \<and> s \<noteq> so_staged st then s else prev"
  have occ: "bit (so_occ st) i \<Longrightarrow> i < lo_slot_count (so_lay st)" for i
    using assms(1) occ_mask [of "so_occ st" "lo_slot_count (so_lay st)"] by (auto simp: store_wf_def)
  have "foldl ?f SLOT_NONE xs = SLOT_NONE \<or> bit (so_occ st) (foldl ?f SLOT_NONE xs) \<and>
      foldl ?f SLOT_NONE xs \<noteq> so_active st" for xs
    by (induction xs rule: rev_induct) auto
  then show ?thesis using assms(2) occ unfolding rollback_target_def by (auto split: if_split_asm)
qed

lemma round_up_fits:
  assumes "n \<le> m" "m mod page = 0" "0 < page" "n + page - 1 < 2 ^ 32"
  shows "round_up n page \<le> m"
proof -
  obtain k where k: "m = page * k" using assms(2) by (auto simp: mod_eq_0_iff_dvd)
  have "round_up n page < n + page" by (rule round_up_le [OF assms(3,4)])
  moreover obtain x where x: "round_up n page = page * x"
    using mod_0_imp_dvd [OF round_up_dvd [of n page]] by (elim dvdE)
  ultimately have "page * x < page * Suc k" using assms(1) k by simp
  then have "x < Suc k" by (simp only: mult_less_cancel1)
  then have "x \<le> k" by simp
  then show ?thesis using k x by simp
qed

lemma staging_slot_bound:
  assumes "syn_store_staging_slot b st = Ok slot"
  shows "slot < lo_slot_count (so_lay st) \<and> b \<and> so_ready st"
proof -
  have "x < lo_slot_count (so_lay st)"
    if f: "first_index P [0..<lo_slot_count (so_lay st)] = Some k" and x: "k = x" for P k x
    using first_index_SomeD [OF f] x by auto
  note b = this [OF _ refl]
  show ?thesis using assms b
    by (auto simp del: first_index_None simp: syn_store_staging_slot_def Let_def split: if_split_asm option.splits)
qed

lemma length_synm_hdr_bytes: "info_ok i \<Longrightarrow>
    length (synm_hdr_bytes (mi_name i) a b (mi_input_shape i) (mi_output_shape i)) = 64"
  by (auto simp: info_ok_def synm_hdr_bytes_def length_concat comp_def sum_list_triv)

text \<open>The record an install writes, and the fields after its commit.\<close>

definition install_rec :: "('f, 'h) senv \<Rightarrow> store_layout \<Rightarrow> nat \<Rightarrow> syn_model_info \<Rightarrow> u8 list \<Rightarrow> syn_model_info" where
  "install_rec e lay slot nfo src = nfo\<lparr>mi_flash_offset := of_nat (fp_base (se_port e) + lo_slot_off lay ! slot + 64),
     mi_flash_size := of_nat (length src), mi_crc32 := se_crc e src\<rparr>"

definition install_fields :: "('f, 'h) senv \<Rightarrow> store \<Rightarrow> nat \<Rightarrow> syn_model_info \<Rightarrow> u8 list \<Rightarrow>
    nat \<times> nat \<times> nat \<times> u8 \<times> syn_model_info list" where
  "install_fields e st slot nfo src = (slot, so_active st,
     if so_staged st = slot then SLOT_NONE else so_staged st, set_bit slot (so_occ st),
     (so_rec st)[slot := install_rec e (so_lay st) slot nfo src])"

lemma install_unfold:
  assumes "syn_store_install e (Some nfo) (Some src) s = (r, s')"
  shows "(\<not> is_ok r \<and> s' = s) \<or> (\<exists>slot r1 s1. syn_store_staging_slot True (sy_st s) = Ok slot \<and>
     (64 + length src) mod 2 ^ 32 \<le> lo_slot_size (so_lay (sy_st s)) \<and>
     syn_store_begin_staging e slot s = (r1, s1) \<and>
     ((\<exists>er. r1 = Err er \<and> r = Err er \<and> s' = s1) \<or> (\<exists>r2 f1.
       r1 = Ok () \<and> slot_write (se_port e) (lo_slot_off (so_lay (sy_st s)) ! slot) ((64 + length src) mod 2 ^ 32)
         (synm_hdr_bytes (mi_name nfo) (of_nat (length src)) (se_crc e src) (mi_input_shape nfo) (mi_output_shape nfo))
         src (sy_flash s1) = (r2, f1) \<and>
       (\<not> is_ok r \<and> s' = s1\<lparr>sy_flash := f1\<rparr> \<or> (\<exists>r3 s3. r2 = Ok () \<and>
          commit_or_undo e
            (\<lambda>st. st\<lparr>so_rec := (so_rec st)[slot := install_rec e (so_lay (sy_st s)) slot nfo src],
               so_occ := set_bit slot (so_occ st),
               so_staged := (if so_staged st = slot then SLOT_NONE else so_staged st),
               so_active := slot,
               so_prev := (if so_active st \<noteq> slot then so_active st else so_prev st)\<rparr>)
            (\<lambda>st. st\<lparr>so_rec := (so_rec st)[slot := so_rec (sy_st s1) ! slot],
               so_occ := so_occ (sy_st s1), so_staged := so_staged (sy_st s1),
               so_active := so_active (sy_st s1), so_prev := so_prev (sy_st s1)\<rparr>) (s1\<lparr>sy_flash := f1\<rparr>) = (r3, s3) \<and>
          (r3 \<noteq> Ok () \<and> \<not> is_ok r \<and> s' = s3 \<or> r3 = Ok () \<and> ram_register e slot s3 = (r, s')))))))"
  using assms unfolding syn_store_install_def Let_def install_rec_def
  by (cases "syn_store_staging_slot True (sy_st s)"; cases "syn_store_begin_staging e (projr (syn_store_staging_slot True (sy_st s))) s")
    (auto simp del: set_bit_eq split: if_split_asm sum.split_asm prod.split_asm)

text \<open>A sound state of store and device, and the effect of an operation that commits.\<close>

definition store_sound :: "('f, 'h) senv \<Rightarrow> ('f \<Rightarrow> bool) \<Rightarrow> ('f, 'h) sys \<Rightarrow> bool" where
  "store_sound e dev_ok s \<longleftrightarrow> so_ready (sy_st s) \<and> store_wf e (sy_st s) \<and> dev_ok (sy_flash s) \<and>
     synced e (sy_flash s) (sy_st s)"

definition slots_kept :: "('f \<Rightarrow> u8 list) \<Rightarrow> store_layout \<Rightarrow> nat set \<Rightarrow> 'f \<Rightarrow> 'f \<Rightarrow> bool" where
  "slots_kept content lay X f f' \<longleftrightarrow> (\<forall>sl < lo_slot_count lay. sl \<notin> X \<longrightarrow>
     slice (lo_slot_off lay ! sl) (lo_slot_size lay) (content f') =
     slice (lo_slot_off lay ! sl) (lo_slot_size lay) (content f))"

definition op_effect :: "('f, 'h) senv \<Rightarrow> ('f \<Rightarrow> u8 list) \<Rightarrow> ('f \<Rightarrow> bool) \<Rightarrow> ('f, 'h) sys \<Rightarrow>
    unit res \<Rightarrow> ('f, 'h) sys \<Rightarrow> nat \<times> nat \<times> nat \<times> u8 \<times> syn_model_info list \<Rightarrow> bool" where
  "op_effect e content dev_ok s r s' pf \<longleftrightarrow> store_sound e dev_ok s' \<and>
     so_lay (sy_st s') = so_lay (sy_st s) \<and>
     slots_kept content (so_lay (sy_st s)) {} (sy_flash s) (sy_flash s') \<and>
     (r = Ok () \<longrightarrow> so_gen (sy_st s') = so_gen (sy_st s) + 1 \<and> pfields (sy_st s') = pf \<and>
        other_older e (sy_flash s') (sy_st s')) \<and>
     (r \<noteq> Ok () \<longrightarrow> so_gen (sy_st s') = so_gen (sy_st s) \<and> pfields (sy_st s') = pfields (sy_st s))"

text \<open>The registry operations leave the store and the device alone.\<close>

lemma registry_ops_keep:
  "ram_unregister e n s = (r, s') \<Longrightarrow> sy_st s' = sy_st s \<and> sy_flash s' = sy_flash s"
  "register_slot e n s = (r', s') \<Longrightarrow> sy_st s' = sy_st s \<and> sy_flash s' = sy_flash s"
  "model_load e n s = (r, s') \<Longrightarrow> sy_st s' = sy_st s \<and> sy_flash s' = sy_flash s"
  "release_npu e n s = (r'', s') \<Longrightarrow> sy_st s' = sy_st s \<and> sy_flash s' = sy_flash s"
  by (auto simp: ram_unregister_def register_slot_def model_load_def release_npu_def Let_def
      split: option.splits prod.splits sum.splits if_splits)

lemma ram_register_keep:
  "ram_register e n s = (r, s') \<Longrightarrow> sy_st s' = sy_st s \<and> sy_flash s' = sy_flash s"
  by (auto simp: ram_register_def Let_def dest!: registry_ops_keep(2)
      split: option.splits prod.splits sum.splits if_splits)

lemma hand_over_keep:
  "sy_st (hand_over_npu e n b s) = sy_st s \<and> sy_flash (hand_over_npu e n b s) = sy_flash s"
proof -
  obtain r s1 where 1: "ram_register e n s = (r, s1)" by fastforce
  show ?thesis
  proof (cases r)
    case (Inr h)
    obtain r2 s2 where "model_load e h s1 = (r2, s2)" by fastforce
    then show ?thesis using 1 Inr ram_register_keep [OF 1] registry_ops_keep(3) [of e h s1 r2 s2]
      by (simp add: hand_over_npu_def)
  qed (use 1 ram_register_keep [OF 1] in \<open>simp add: hand_over_npu_def\<close>)
qed

context flash_reliable
begin

lemma registry_sizes:
  assumes "layout_sound mx port lay" "mx \<le> 8"
  shows "fp_page_size port \<le> lo_registry_size lay" "img_size (lo_slot_count lay) \<le> lo_registry_size lay"
    "round_up (img_size (lo_slot_count lay)) (fp_page_size port) \<le> lo_registry_size lay"
proof -
  let ?r = "round_up (img_size (lo_slot_count lay)) (fp_page_size port)"
  have b: "lo_slot_count lay \<le> 8" "fp_page_size port \<le> 256" "?r \<le> lo_registry_size lay" "2 \<le> lo_slot_count lay"
    using assms by (auto simp: layout_sound_def)
  then have "24 < img_size (lo_slot_count lay)" "img_size (lo_slot_count lay) \<le> 1000" by (simp_all add: img_size_def)
  moreover have "img_size (lo_slot_count lay) \<le> ?r"
    using round_up_ge [of "fp_page_size port" "img_size (lo_slot_count lay)"] geometry(1) b calculation by simp
  moreover have "fp_page_size port dvd ?r" by (rule mod_0_imp_dvd) simp
  then have "fp_page_size port \<le> ?r" using calculation by (auto intro: dvd_imp_le)
  ultimately show "fp_page_size port \<le> lo_registry_size lay" "img_size (lo_slot_count lay) \<le> lo_registry_size lay"
    "?r \<le> lo_registry_size lay" using b by linarith+
qed

lemma load_copy_frame:
  assumes "se_port e = port" "layout_sound (se_max e) port lay" "se_max e \<le> 8" "c < 2" "dev_ok f" "dev_ok f'"
    and "slice (lo_registry_off lay ! c) (lo_registry_size lay) (content f') =
         slice (lo_registry_off lay ! c) (lo_registry_size lay) (content f)"
  shows "load_copy e lay c f' = load_copy e lay c f"
  unfolding load_copy_def assms(1)
  by (rule copy_load_frame [OF assms(5,6) refl registry_region(1) [OF assms(2,4)] assms(7)])
     (use registry_sizes [OF assms(2,3)] in simp_all)

lemma copy_commit_frame:
  assumes p: "se_port e = port" and wf: "store_wf e (sy_st s)" and ok: "dev_ok (sy_flash s)" and c: "c < 2"
    and r: "copy_commit e c gen s = (r, s')"
    and a: "a + n \<le> fp_size port"
      "disjoint_ranges a n (lo_registry_off (so_lay (sy_st s)) ! c) (lo_registry_size (so_lay (sy_st s)))"
  shows "dev_ok (sy_flash s')" "slice a n (content (sy_flash s')) = slice a n (content (sy_flash s))"
proof -
  let ?st = "sy_st s" let ?lay = "so_lay ?st"
  let ?off = "lo_registry_off ?lay ! c" and ?h = "state_hdr ?st gen (so_wear ?st ! c + 1)"
  have lay: "layout_sound (se_max e) port ?lay" "se_max e \<le> 8" using wf p by (auto simp: store_wf_def)
  obtain img len where b: "image_build (se_upd e) (fp_page_size port) ?h (so_rec ?st) = (img, len)" by fastforce
  note H = store_wf_state_hdr [OF wf, of gen "so_wear ?st ! c + 1"]
  have B: "length img = 1024" "len = round_up (img_size (lo_slot_count ?lay)) (fp_page_size port)"
    using image_build_spec(1,2) [OF conjunct1 [OF H] _ b] conjunct2 [OF H] by (auto simp: state_hdr_def)
  have len: "length (slice 0 len img) \<le> lo_registry_size ?lay"
    using B(2) registry_sizes(3) [OF lay] by (simp add: slice_def)
  have d: "disjoint_ranges a n ?off (length (slice 0 len img))"
    using a(2) len by (auto simp: disjoint_ranges_def)
  obtain r1 f1 where e1: "syn_flash_erase port ?off (lo_registry_size ?lay) (sy_flash s) = (r1, f1)" by fastforce
  obtain r2 f2 where e2: "syn_flash_write port ?off (slice 0 len img) f1 = (r2, f2)" by fastforce
  have f': "sy_flash s' = f1 \<or> sy_flash s' = f2"
    using r b e1 e2 p by (auto simp: copy_commit_def Let_def split: sum.splits)
  note E = erase_spec [OF ok e1]
  note W = write_spec [OF E(1) e2]
  show "dev_ok (sy_flash s')" using f' E(1) W(1) by auto
  show "slice a n (content (sy_flash s')) = slice a n (content (sy_flash s))"
    using f' E(2) [OF a] W(2) [OF a(1) d] by auto
qed

lemma persisted_built:
  assumes p: "se_port e = port" and wf: "store_wf e st" and ok: "dev_ok f" and c: "c < 2"
    and b: "image_build (se_upd e) (fp_page_size port) (state_hdr st gen wear) (so_rec st) = (img, len)"
    and on: "slice (lo_registry_off (so_lay st) ! c) len (content f) = slice 0 len img"
    and st': "pfields st' = pfields st" "so_lay st' = so_lay st" "so_gen st' = gen"
  shows "persisted e c f st'"
proof -
  let ?lay = "so_lay st" and ?h = "state_hdr st gen wear" and ?n = "lo_slot_count (so_lay st)"
  have lay: "layout_sound (se_max e) port ?lay" "se_max e \<le> 8" using wf p by (auto simp: store_wf_def)
  have H: "built_hdr_ok ?h" "\<forall>s < sh_slot_count ?h. info_ok (so_rec st ! s)"
    using store_wf_state_hdr [OF wf, of gen wear] by (auto simp: state_hdr_def)
  note B = image_build_spec [OF H b]
  have n: "sh_slot_count ?h = ?n" by (simp add: state_hdr_def)
  have len: "len \<le> lo_registry_size ?lay" using B(2) registry_sizes(3) [OF lay] n by simp
  then have "lo_registry_off ?lay ! c + len \<le> fp_size port"
    using registry_region(1) [OF lay(1) c] by linarith
  moreover have "?n \<le> se_max e" "fp_page_size port \<le> 256" using lay(1) by (simp_all add: layout_sound_def)
  ultimately obtain c' where L: "load_copy e ?lay c f =
      Some (?h\<lparr>sh_crc32 := c'\<rparr>, blit 20 [0, 0, 0, 0] (slice 0 (img_size ?n) img))"
    using copy_load_built [OF ok H b on _ refl] n p unfolding load_copy_def by (metis order_refl)
  let ?z = "blit 20 [0, 0, 0, 0] (slice 0 (img_size ?n) img)"
  have n8: "?n \<le> se_max e" "?n \<le> 8" using lay by (simp_all add: layout_sound_def)
  have li: "length (slice 0 (img_size ?n) img) = img_size ?n"
    using B(1) n8 by (simp add: img_size_def)
  have rec: "info_of_bytes (slice (24 + s * 88) 88 ?z) = so_rec st ! s" if "s < ?n" for s
  proof -
    have i: "24 + s * 88 + 88 \<le> img_size ?n" using that by (simp add: img_size_def)
    have "slice (24 + s * 88) 88 ?z = slice (24 + s * 88) 88 (slice 0 (img_size ?n) img)"
      using i li by (intro slice_blit_other) (auto simp: disjoint_ranges_def)
    also have "\<dots> = info_bytes (so_rec st ! s)" using i B(4) [of s] that n by (subst slice_slice) simp_all
    finally show ?thesis using info_roundtrip H(2) that n by simp
  qed
  have "unpack_recs ?z ?n (replicate (se_max e) zero_info) = so_rec st"
    using unpack_recs_spec [of ?n "replicate (se_max e) zero_info" ?z] n8 rec wf
    by (intro nth_equalityI) (auto simp: store_wf_def)
  then show ?thesis using L st' by (simp add: persisted_def pfields_def hdr_slots_def state_hdr_def)
qed

lemma copy_commit_result:
  assumes p: "se_port e = port" and wf: "store_wf e (sy_st s)" and ok: "dev_ok (sy_flash s)" and c: "c < 2"
    and r: "copy_commit e c gen s = (r, s')"
  shows "sy_reg s' = sy_reg s" "pfields (sy_st s') = pfields (sy_st s)"
    "so_ready (sy_st s') = so_ready (sy_st s)" "so_lay (sy_st s') = so_lay (sy_st s)"
    "store_wf e (sy_st s')"
    "r \<noteq> Ok () \<Longrightarrow> so_gen (sy_st s') = so_gen (sy_st s) \<and> so_newest (sy_st s') = so_newest (sy_st s) \<and>
       so_valid (sy_st s') = (so_valid (sy_st s))[c := False]"
    "r = Ok () \<Longrightarrow> so_gen (sy_st s') = gen \<and> so_newest (sy_st s') = c \<and>
       so_valid (sy_st s') = (so_valid (sy_st s))[c := True] \<and> persisted e c (sy_flash s') (sy_st s')"
proof -
  let ?st = "sy_st s" let ?lay = "so_lay ?st"
  let ?off = "lo_registry_off ?lay ! c" and ?h = "state_hdr ?st gen (so_wear ?st ! c + 1)"
  obtain img len where b: "image_build (se_upd e) (fp_page_size port) ?h (so_rec ?st) = (img, len)" by fastforce
  obtain r1 f1 where e1: "syn_flash_erase port ?off (lo_registry_size ?lay) (sy_flash s) = (r1, f1)" by fastforce
  obtain r2 f2 where e2: "syn_flash_write port ?off (slice 0 len img) f1 = (r2, f2)" by fastforce
  note D = r b e1 e2 p
  show reg: "sy_reg s' = sy_reg s" and pf: "pfields (sy_st s') = pfields ?st"
    and rdy: "so_ready (sy_st s') = so_ready ?st" and lay: "so_lay (sy_st s') = ?lay"
    using D by (auto simp: copy_commit_def Let_def pfields_def split: sum.splits)
  have other: "length (so_wear (sy_st s')) = length (so_wear ?st)" "length (so_valid (sy_st s')) = length (so_valid ?st)"
    "so_newest (sy_st s') = so_newest ?st \<or> so_newest (sy_st s') = c"
    using D by (auto simp: copy_commit_def Let_def split: sum.splits)
  have "so_newest (sy_st s') < 2" using other(3) c wf by (auto simp: store_wf_def)
  then show "store_wf e (sy_st s')"
    using wf pf lay other(1,2) unfolding store_wf_def pfields_def by simp
  show "so_gen (sy_st s') = so_gen ?st \<and> so_newest (sy_st s') = so_newest ?st \<and>
       so_valid (sy_st s') = (so_valid ?st)[c := False]" if "r \<noteq> Ok ()"
    using D that by (auto simp: copy_commit_def Let_def split: sum.splits)
  show "so_gen (sy_st s') = gen \<and> so_newest (sy_st s') = c \<and>
       so_valid (sy_st s') = (so_valid ?st)[c := True] \<and> persisted e c (sy_flash s') (sy_st s')" if "r = Ok ()"
  proof -
    have o: "r1 = Ok ()" "r2 = Ok ()" "sy_flash s' = f2" "so_gen (sy_st s') = gen" "so_newest (sy_st s') = c"
      "so_valid (sy_st s') = (so_valid ?st)[c := True]"
      using D that by (auto simp: copy_commit_def Let_def split: sum.splits)
    note W = write_spec [OF erase_spec(1) [OF ok e1] e2]
    have H: "built_hdr_ok ?h" "\<forall>s < sh_slot_count ?h. info_ok (so_rec ?st ! s)"
      using store_wf_state_hdr [OF wf, of gen "so_wear ?st ! c + 1"] by (auto simp: state_hdr_def)
    note B = image_build_spec(1,2) [OF H b]
    have "lo_slot_count ?lay \<le> 8" "fp_page_size port \<le> 256" using wf p by (auto simp: store_wf_def layout_sound_def)
    then have "img_size (lo_slot_count ?lay) \<le> 728" by (simp add: img_size_def)
    moreover from this have "img_size (lo_slot_count ?lay) + fp_page_size port - 1 < 2 ^ 32"
      using \<open>fp_page_size port \<le> 256\<close> by simp
    from round_up_le [OF geometry(1) this] have "len < img_size (lo_slot_count ?lay) + fp_page_size port"
      using B(2) by (simp add: state_hdr_def)
    ultimately have "len \<le> 1024" using \<open>fp_page_size port \<le> 256\<close> by linarith
    then have "length (slice 0 len img) = len" using B(1) by simp
    then have "slice ?off len (content f2) = slice 0 len img" using W(3) o(2) by simp
    then have "persisted e c f2 (sy_st s')"
      by (rule persisted_built [OF p wf W(1) c b _ pf lay o(4)])
    with o show ?thesis by simp
  qed
qed

text \<open>The commit spares the newest valid copy, whatever its result.\<close>

lemma commit_spec:
  assumes p: "se_port e = port" and wf: "store_wf e (sy_st s)" and ok: "dev_ok (sy_flash s)"
    and base: "store_wf e st0" "synced e (sy_flash s) st0" "bfields st0 = bfields (sy_st s)"
    and r: "commit e s = (r, s')"
  shows "dev_ok (sy_flash s')" "sy_reg s' = sy_reg s" "pfields (sy_st s') = pfields (sy_st s)"
    "so_ready (sy_st s') = so_ready (sy_st s)" "so_lay (sy_st s') = so_lay (sy_st s)" "store_wf e (sy_st s')"
    "r = Ok () \<Longrightarrow> so_gen (sy_st s') = so_gen (sy_st s) + 1 \<and> synced e (sy_flash s') (sy_st s') \<and>
      so_valid (sy_st s') ! so_newest (sy_st s') \<and>
      (load_copy e (so_lay (sy_st s)) (1 - so_newest (sy_st s')) (sy_flash s') = None \<or>
       (\<exists>h img. load_copy e (so_lay (sy_st s)) (1 - so_newest (sy_st s')) (sy_flash s') = Some (h, img) \<and>
          sh_generation h = so_gen (sy_st s)))"
    "r \<noteq> Ok () \<Longrightarrow> so_gen (sy_st s') = so_gen (sy_st s) \<and> (\<forall>st. so_lay st = so_lay (sy_st s) \<longrightarrow>
      pfields st = pfields st0 \<longrightarrow> bfields st = bfields (sy_st s') \<longrightarrow> synced e (sy_flash s') st)"
    "\<And>a n. a + n \<le> fp_size port \<Longrightarrow>
      (\<And>c. c < 2 \<Longrightarrow> disjoint_ranges a n (lo_registry_off (so_lay (sy_st s)) ! c) (lo_registry_size (so_lay (sy_st s)))) \<Longrightarrow>
      slice a n (content (sy_flash s')) = slice a n (content (sy_flash s))"
proof -
  let ?st = "sy_st s" let ?lay = "so_lay ?st" and ?t = "commit_target (sy_st s)"
  have t: "?t < 2" using wf by (auto simp: commit_target_def store_wf_def)
  have len: "length (so_valid ?st) = 2" "so_newest ?st < 2" using wf by (simp_all add: store_wf_def)
  have c: "copy_commit e ?t (so_gen ?st + 1) s = (r, s')" using r by (simp add: commit_def)
  note R = copy_commit_result [OF p wf ok t c]
  note F = copy_commit_frame [OF p wf ok t c]
  have lay: "layout_sound (se_max e) port ?lay" "se_max e \<le> 8" using wf p by (auto simp: store_wf_def)
  have b0: "so_lay st0 = ?lay" "so_newest st0 = so_newest ?st" "so_valid st0 = so_valid ?st" "so_gen st0 = so_gen ?st"
    using base(3) by (simp_all add: bfields_def)
  show dok: "dev_ok (sy_flash s')" using F(1) [of 0 0] by (simp add: disjoint_ranges_def)
  show "sy_reg s' = sy_reg s" "pfields (sy_st s') = pfields ?st" "so_ready (sy_st s') = so_ready ?st"
    "so_lay (sy_st s') = ?lay" "store_wf e (sy_st s')" by (rule R(1-5))+
  have keep: "load_copy e ?lay d (sy_flash s') = load_copy e ?lay d (sy_flash s)" if "d < 2" "d \<noteq> ?t" for d
    using that t F(2) [OF registry_region(1) [OF lay(1) that(1)] registry_copies_disjoint [OF lay(1) that(1) t that(2)]]
    by (intro load_copy_frame [OF p lay that(1) ok dok])
  have other: "1 - so_newest ?st \<noteq> so_newest ?st" "1 - so_newest ?st < 2" using len(2) by arith+
  have o1: "1 - ?t < 2" "1 - ?t \<noteq> ?t" using t by arith+
  have tn: "?t = (if so_valid ?st ! so_newest ?st then 1 - so_newest ?st else 0)" by (simp add: commit_target_def)
  show "so_gen (sy_st s') = so_gen ?st + 1 \<and> synced e (sy_flash s') (sy_st s') \<and>
      so_valid (sy_st s') ! so_newest (sy_st s') \<and>
      (load_copy e ?lay (1 - so_newest (sy_st s')) (sy_flash s') = None \<or>
       (\<exists>h img. load_copy e ?lay (1 - so_newest (sy_st s')) (sy_flash s') = Some (h, img) \<and>
          sh_generation h = so_gen ?st))" if "r = Ok ()"
  proof -
    have v: "so_valid (sy_st s') ! so_newest (sy_st s')" using R(7) [OF that] len t by simp
    have "load_copy e ?lay (1 - ?t) (sy_flash s) = None \<or>
       (\<exists>h img. load_copy e ?lay (1 - ?t) (sy_flash s) = Some (h, img) \<and> sh_generation h = so_gen ?st)"
    proof (cases "so_valid ?st ! so_newest ?st")
      case True
      then have "1 - ?t = so_newest ?st" using tn len(2) by auto
      then show ?thesis using base(2) True b0 by (auto simp: synced_def persisted_def split: option.splits)
    next
      case False
      then show ?thesis using base(2) b0 tn by (auto simp: synced_def)
    qed
    then show ?thesis using R(7) [OF that] v keep [OF o1] by (simp add: synced_def)
  qed
  show "so_gen (sy_st s') = so_gen ?st \<and> (\<forall>st. so_lay st = ?lay \<longrightarrow>
      pfields st = pfields st0 \<longrightarrow> bfields st = bfields (sy_st s') \<longrightarrow> synced e (sy_flash s') st)" if "r \<noteq> Ok ()"
  proof (intro conjI allI impI)
    show "so_gen (sy_st s') = so_gen ?st" using R(6) [OF that] by simp
    fix st assume st: "so_lay st = ?lay" "pfields st = pfields st0" "bfields st = bfields (sy_st s')"
    have n: "so_newest st = so_newest ?st" "so_gen st = so_gen ?st" "so_valid st = (so_valid ?st)[?t := False]"
      using st(3) R(6) [OF that] by (simp_all add: bfields_def)
    show "synced e (sy_flash s') st"
    proof (cases "so_valid ?st ! so_newest ?st")
      case True
      then have "?t \<noteq> so_newest ?st" using tn other by simp
      then show ?thesis using base(2) True b0 n st keep [of "so_newest ?st"] len(2)
        by (auto simp: synced_def persisted_def split: option.splits prod.splits)
    next
      case False
      then have "so_newest ?st = 0" "?t = 0" "pfields st0 = pfields (fresh_store (se_max e) ?lay)"
        "load_copy e ?lay 1 (sy_flash s) = None"
        using base(2) b0 tn by (simp_all add: synced_def)
      then show ?thesis using n st keep [of 1] len by (simp add: synced_def)
    qed
  qed
  show "slice a n (content (sy_flash s')) = slice a n (content (sy_flash s))"
    if "a + n \<le> fp_size port" "\<And>c. c < 2 \<Longrightarrow> disjoint_ranges a n (lo_registry_off ?lay ! c) (lo_registry_size ?lay)" for a n
    using F(2) [OF that(1) that(2) [OF t]] .
qed

lemma commit_or_undo_spec:
  assumes p: "se_port e = port" and wf: "store_wf e (sy_st s)" and ok: "dev_ok (sy_flash s)"
    and sy: "synced e (sy_flash s) (sy_st s)"
    and u: "store_wf e (u (sy_st s))" "bfields (u (sy_st s)) = bfields (sy_st s)"
    and d: "\<And>st1. pfields st1 = pfields (u (sy_st s)) \<Longrightarrow> pfields (d st1) = pfields (sy_st s) \<and> bfields (d st1) = bfields st1"
    and r: "commit_or_undo e u d s = (r, s')"
  shows "dev_ok (sy_flash s')" "sy_reg s' = sy_reg s" "so_ready (sy_st s') = so_ready (sy_st s)"
    "so_lay (sy_st s') = so_lay (sy_st s)" "store_wf e (sy_st s')" "synced e (sy_flash s') (sy_st s')"
    "r = Ok () \<Longrightarrow> so_gen (sy_st s') = so_gen (sy_st s) + 1 \<and> pfields (sy_st s') = pfields (u (sy_st s)) \<and>
       other_older e (sy_flash s') (sy_st s')"
    "r \<noteq> Ok () \<Longrightarrow> so_gen (sy_st s') = so_gen (sy_st s) \<and> pfields (sy_st s') = pfields (sy_st s)"
    "\<And>a n. a + n \<le> fp_size port \<Longrightarrow>
      (\<And>c. c < 2 \<Longrightarrow> disjoint_ranges a n (lo_registry_off (so_lay (sy_st s)) ! c) (lo_registry_size (so_lay (sy_st s)))) \<Longrightarrow>
      slice a n (content (sy_flash s')) = slice a n (content (sy_flash s))"
proof -
  let ?s = "set_st (u (sy_st s)) s"
  obtain r1 s1 where c: "commit e ?s = (r1, s1)" by fastforce
  have lay: "so_lay (u (sy_st s)) = so_lay (sy_st s)" "so_gen (u (sy_st s)) = so_gen (sy_st s)"
    "so_ready (u (sy_st s)) = so_ready (sy_st s)" using u(2) by (simp_all add: bfields_def)
  have fl: "sy_flash ?s = sy_flash s" "sy_st ?s = u (sy_st s)" "sy_reg ?s = sy_reg s" by (simp_all add: set_st_def)
  note C = commit_spec [OF p _ _ wf _ _ c, unfolded fl lay, OF u(1) ok sy u(2) [symmetric]]
  have rs: "r = r1" "s' = (if r1 = Ok () then s1 else set_st (d (sy_st s1)) s1)"
    using r c by (auto simp: commit_or_undo_def split: sum.splits)
  note D = d [OF C(3)]
  have bd: "so_lay (d (sy_st s1)) = so_lay (sy_st s)" "so_gen (d (sy_st s1)) = so_gen (sy_st s1)"
    "so_ready (d (sy_st s1)) = so_ready (sy_st s)"
    using D C(4,5) by (simp_all add: bfields_def)
  show "dev_ok (sy_flash s')" "sy_reg s' = sy_reg s" using C(1,2) rs(2) by (simp_all add: set_st_def)
  show "so_ready (sy_st s') = so_ready (sy_st s)" "so_lay (sy_st s') = so_lay (sy_st s)"
    using C(4,5) bd rs(2) by (simp_all add: set_st_def)
  show "store_wf e (sy_st s')"
    using C(5,6) rs(2) store_wf_fields [OF wf C(6) C(5) conjunct1 [OF D] conjunct2 [OF D]] by (simp add: set_st_def)
  show "synced e (sy_flash s') (sy_st s')"
    using C(7,8) D bd(1) rs(2) by (simp add: set_st_def)
  show "so_gen (sy_st s') = so_gen (sy_st s) + 1 \<and> pfields (sy_st s') = pfields (u (sy_st s)) \<and>
       other_older e (sy_flash s') (sy_st s')" if "r = Ok ()"
    using C(3,5,7) rs that by (auto simp: other_older_def split: option.splits)
  show "so_gen (sy_st s') = so_gen (sy_st s) \<and> pfields (sy_st s') = pfields (sy_st s)" if "r \<noteq> Ok ()"
    using C(8) D bd(2) rs that by (simp add: set_st_def)
  show "slice a n (content (sy_flash s')) = slice a n (content (sy_flash s))"
    if "a + n \<le> fp_size port" "\<And>c. c < 2 \<Longrightarrow> disjoint_ranges a n (lo_registry_off (so_lay (sy_st s)) ! c) (lo_registry_size (so_lay (sy_st s)))" for a n
    using C(9) [OF that] rs(2) by (simp add: set_st_def)
qed

lemma commit_effect:
  assumes "se_port e = port" "store_sound e dev_ok s"
    and "store_wf e (u (sy_st s))" "bfields (u (sy_st s)) = bfields (sy_st s)"
    and "\<And>st1. pfields st1 = pfields (u (sy_st s)) \<Longrightarrow> pfields (d st1) = pfields (sy_st s) \<and> bfields (d st1) = bfields st1"
    and "commit_or_undo e u d s = (r, s')"
  shows "op_effect e content dev_ok s r s' (pfields (u (sy_st s)))"
proof -
  have a: "store_wf e (sy_st s)" "dev_ok (sy_flash s)" "synced e (sy_flash s) (sy_st s)" "so_ready (sy_st s)"
    using assms(2) by (simp_all add: store_sound_def)
  note C = commit_or_undo_spec [OF assms(1) a(1-3) assms(3-6)]
  have lay: "layout_sound (se_max e) port (so_lay (sy_st s))" using a(1) assms(1) by (simp add: store_wf_def)
  have "slots_kept content (so_lay (sy_st s)) {} (sy_flash s) (sy_flash s')"
    unfolding slots_kept_def by (intro allI impI C(9) slot_region [OF lay] slot_registry_disjoint [OF lay])
  then show ?thesis using C(1,3-8) a(4) by (simp add: op_effect_def store_sound_def)
qed

lemma op_effect_via:
  assumes "op_effect e content dev_ok s1 r s2 pf" "sy_st s1 = sy_st s" "sy_flash s1 = sy_flash s"
    and "sy_st s' = sy_st s2" "sy_flash s' = sy_flash s2"
  shows "op_effect e content dev_ok s r s' pf"
  using assms by (simp add: op_effect_def store_sound_def)

lemma op_effect_refused:
  assumes "store_sound e dev_ok s" "sy_st s' = sy_st s" "sy_flash s' = sy_flash s"
  shows "op_effect e content dev_ok s (Err er) s' pf"
  using assms by (simp add: op_effect_def store_sound_def slots_kept_def)

lemma begin_staging_effect:
  assumes p: "se_port e = port" and so: "store_sound e dev_ok s"
    and r: "syn_store_begin_staging e slot s = (r, s')"
  shows "(r = Ok () \<and> s' = s \<and> \<not> bit (so_occ (sy_st s)) slot \<and> slot < lo_slot_count (so_lay (sy_st s)) \<and>
      slot \<noteq> so_active (sy_st s)) \<or>
    op_effect e content dev_ok s r s' (so_active (sy_st s),
      if so_prev (sy_st s) = slot then SLOT_NONE else so_prev (sy_st s),
      if so_staged (sy_st s) = slot then SLOT_NONE else so_staged (sy_st s),
      unset_bit slot (so_occ (sy_st s)), so_rec (sy_st s)) \<and>
    (r = Ok () \<longrightarrow> slot < lo_slot_count (so_lay (sy_st s)) \<and> slot \<noteq> so_active (sy_st s))"
proof -
  let ?st = "sy_st s"
  define u :: "store \<Rightarrow> store" where "u = (\<lambda>st. st\<lparr>so_occ := unset_bit slot (so_occ st),
      so_staged := (if so_staged st = slot then SLOT_NONE else so_staged st),
      so_prev := (if so_prev st = slot then SLOT_NONE else so_prev st)\<rparr>)"
  define d :: "store \<Rightarrow> store" where "d = (\<lambda>st1. st1\<lparr>so_occ := so_occ ?st, so_staged := so_staged ?st, so_prev := so_prev ?st\<rparr>)"
  obtain r1 s1 where ru: "ram_unregister e slot s = (r1, s1)" by fastforce
  note k = registry_ops_keep(1) [OF ru]
  have eq: "(if \<not> so_ready ?st \<or> lo_slot_count (so_lay ?st) \<le> slot then (Err EINVAL, s)
      else if slot = so_active ?st then (Err EBUSY, s)
      else if \<not> bit (so_occ ?st) slot then (Ok (), s)
      else (case r1 of Inl er \<Rightarrow> (Err er, s1) | Inr _ \<Rightarrow> commit_or_undo e u d s1)) = (r, s')"
    using r unfolding syn_store_begin_staging_def Let_def ru u_def d_def by (simp only: prod.case)
  show ?thesis
  proof (cases "(\<exists>er. (r, s') = (Err er, s)) \<or> (\<exists>er. (r, s') = (Err er, s1))")
    case True
    then show ?thesis using k op_effect_refused [OF so] by (elim disjE exE) auto
  next
    case False
    note False' = this
    then have n: "so_ready ?st" "slot < lo_slot_count (so_lay ?st)" "slot \<noteq> so_active ?st"
      using eq by (metis not_le)+
    show ?thesis
    proof (cases "bit (so_occ ?st) slot")
      case False
      then show ?thesis using eq n by simp
    next
      case True
      then have go: "commit_or_undo e u d s1 = (r, s')" using eq n False' by (cases r1) auto
    have so1: "store_sound e dev_ok s1" using so k by (simp add: store_sound_def)
    have wf: "store_wf e ?st" using so by (simp add: store_sound_def)
    have "op_effect e content dev_ok s1 r s' (pfields (u (sy_st s1)))"
      using wf k by (intro commit_effect [OF p so1 _ _ _ go]) (auto simp: u_def d_def store_wf_update)
    then have "op_effect e content dev_ok s r s' (pfields (u ?st))"
      using k by (auto intro: op_effect_via)
    then show ?thesis using n unfolding u_def pfields_def by simp
    qed
  qed
qed

lemma mark_staged_effect:
  assumes p: "se_port e = port" and so: "store_sound e dev_ok s" and i: "\<forall>nfo. info = Some nfo \<longrightarrow> info_ok nfo"
    and r: "syn_store_mark_staged e slot info s = (r, s')"
  shows "(r \<noteq> Ok () \<and> s' = s) \<or> (\<exists>nfo. info = Some nfo \<and> slot < lo_slot_count (so_lay (sy_st s)) \<and>
    slot \<noteq> so_active (sy_st s) \<and>
    op_effect e content dev_ok s r s' (so_active (sy_st s), so_prev (sy_st s), slot,
      set_bit slot (so_occ (sy_st s)), (so_rec (sy_st s))[slot := nfo]))"
proof -
  let ?st = "sy_st s"
  have wf: "store_wf e ?st" using so by (simp add: store_sound_def)
  show ?thesis
  proof (cases "info = None \<or> \<not> so_ready ?st \<or> lo_slot_count (so_lay ?st) \<le> slot \<or> slot = so_active ?st")
    case True
    then have "r \<noteq> Ok () \<and> s' = s"
      using r by (cases info) (auto simp: syn_store_mark_staged_def Let_def split: if_split_asm)
    then show ?thesis by blast
  next
    case False
    then obtain nfo where n: "info = Some nfo" "slot < lo_slot_count (so_lay ?st)" "slot \<noteq> so_active ?st" "so_ready ?st"
      by auto
    define u :: "store \<Rightarrow> store" where
      "u = (\<lambda>st. st\<lparr>so_rec := (so_rec st)[slot := nfo], so_occ := set_bit slot (so_occ st), so_staged := slot\<rparr>)"
    define d :: "store \<Rightarrow> store" where
      "d = (\<lambda>st1. st1\<lparr>so_rec := (so_rec st1)[slot := so_rec ?st ! slot], so_occ := so_occ ?st, so_staged := so_staged ?st\<rparr>)"
    have go: "commit_or_undo e u d s = (r, s')"
      using r n unfolding syn_store_mark_staged_def Let_def u_def d_def by simp
    have rl: "length (so_rec ?st) = se_max e" "lo_slot_count (so_lay ?st) \<le> se_max e"
      using wf by (auto simp: store_wf_def layout_sound_def)
    have "(so_rec ?st)[slot := nfo] ! j = (if j = slot then nfo else so_rec ?st ! j)" for j
      using n(2) rl by (simp add: nth_list_update)
    then have "store_wf e (u ?st)"
      using wf n i unfolding u_def store_wf_def by (auto simp: slot_field_ok_def occ_set_bit)
    then have "op_effect e content dev_ok s r s' (pfields (u ?st))"
      by (intro commit_effect [OF p so _ _ _ go]) (auto simp: u_def d_def pfields_def bfields_def)
    then show ?thesis using n unfolding u_def pfields_def by simp
  qed
qed

lemma switch_active_effect:
  assumes p: "se_port e = port" and so: "store_sound e dev_ok s"
    and u: "store_wf e (u (sy_st s))" "bfields (u (sy_st s)) = bfields (sy_st s)"
    and d: "\<And>st1. pfields st1 = pfields (u (sy_st s)) \<Longrightarrow> pfields (d st1) = pfields (sy_st s) \<and> bfields (d st1) = bfields st1"
    and r: "switch_active e slot u d s = (r, s')"
  shows "op_effect e content dev_ok s r s' (pfields (u (sy_st s)))"
proof -
  obtain r1 s1 where 1: "release_npu e (so_active (sy_st s)) s = (r1, s1)" by fastforce
  note k = registry_ops_keep(4) [OF 1]
  show ?thesis
  proof (cases r1)
    case (Inl er)
    then have "r = Err er" "s' = s1" using r 1 by (auto simp: switch_active_def)
    then show ?thesis using k op_effect_refused [OF so, of s1] by simp
  next
    case (Inr held)
    obtain r2 s2 where 2: "commit_or_undo e u d s1 = (r2, s2)" by fastforce
    have so1: "store_sound e dev_ok s1" using so k by (simp add: store_sound_def)
    have E: "op_effect e content dev_ok s1 r2 s2 (pfields (u (sy_st s)))"
      using commit_effect [OF p so1 _ _ _ 2] u d k by simp
    have "r = r2 \<and> sy_st s' = sy_st s2 \<and> sy_flash s' = sy_flash s2"
    proof (cases r2)
      case (Inl er)
      have "sy_st (snd (model_load e h s2)) = sy_st s2 \<and> sy_flash (snd (model_load e h s2)) = sy_flash s2" for h
        using registry_ops_keep(3) [OF surjective_pairing] by blast
      then show ?thesis using r 1 2 Inl \<open>r1 = Inr held\<close> by (auto simp: switch_active_def split: option.splits)
    next
      case (Inr v)
      then show ?thesis using r 1 2 \<open>r1 = Inr held\<close> hand_over_keep by (auto simp: switch_active_def)
    qed
    then show ?thesis using op_effect_via [OF E] k by simp
  qed
qed

lemma activate_effect:
  assumes p: "se_port e = port" and so: "store_sound e dev_ok s" and r: "syn_store_activate e slot s = (r, s')"
  shows "(r \<noteq> Ok () \<and> s' = s) \<or> slot < lo_slot_count (so_lay (sy_st s)) \<and> slot \<noteq> so_active (sy_st s) \<and>
    bit (so_occ (sy_st s)) slot \<and>
    op_effect e content dev_ok s r s' (slot, so_active (sy_st s),
      if so_staged (sy_st s) = slot then SLOT_NONE else so_staged (sy_st s), so_occ (sy_st s), so_rec (sy_st s))"
proof -
  let ?st = "sy_st s"
  have wf: "store_wf e ?st" using so by (simp add: store_sound_def)
  show ?thesis
  proof (cases "\<not> so_ready ?st \<or> lo_slot_count (so_lay ?st) \<le> slot \<or> \<not> bit (so_occ ?st) slot \<or> slot = so_active ?st")
    case True
    then show ?thesis using r by (auto simp: syn_store_activate_def Let_def split: if_split_asm)
  next
    case False
    define u :: "store \<Rightarrow> store" where
      "u = (\<lambda>st. st\<lparr>so_active := slot, so_prev := so_active st,
                so_staged := (if so_staged st = slot then SLOT_NONE else so_staged st)\<rparr>)"
    define d :: "store \<Rightarrow> store" where
      "d = (\<lambda>st1. st1\<lparr>so_active := so_active ?st, so_staged := so_staged ?st, so_prev := so_prev ?st\<rparr>)"
    have go: "switch_active e slot u d s = (r, s')"
      using r False unfolding syn_store_activate_def Let_def u_def d_def by (simp del: if_split)
    have "store_wf e (u ?st)" using wf False unfolding u_def store_wf_def by (auto simp: slot_field_ok_def)
    then have "op_effect e content dev_ok s r s' (pfields (u ?st))"
      by (intro switch_active_effect [OF p so _ _ _ go]) (auto simp: u_def d_def pfields_def bfields_def)
    then show ?thesis using False unfolding u_def pfields_def by simp
  qed
qed

lemma clear_staged_effect:
  assumes p: "se_port e = port" and so: "store_sound e dev_ok s" and r: "syn_store_clear_staged e s = (r, s')"
  shows "s' = s \<and> (r = Ok () \<longrightarrow> so_staged (sy_st s) = SLOT_NONE) \<or>
    so_staged (sy_st s) \<noteq> SLOT_NONE \<and> op_effect e content dev_ok s r s' (so_active (sy_st s), so_prev (sy_st s), SLOT_NONE,
      unset_bit (so_staged (sy_st s)) (so_occ (sy_st s)), so_rec (sy_st s))"
proof -
  let ?st = "sy_st s"
  have wf: "store_wf e ?st" using so by (simp add: store_sound_def)
  show ?thesis
  proof (cases "\<not> so_ready ?st \<or> so_staged ?st = SLOT_NONE")
    case True
    then show ?thesis using r by (auto simp: syn_store_clear_staged_def Let_def split: if_split_asm)
  next
    case False
    define u :: "store \<Rightarrow> store" where
      "u = (\<lambda>st. st\<lparr>so_occ := unset_bit (so_staged st) (so_occ st), so_staged := SLOT_NONE\<rparr>)"
    define d :: "store \<Rightarrow> store" where
      "d = (\<lambda>st1. st1\<lparr>so_occ := so_occ ?st, so_staged := so_staged ?st\<rparr>)"
    have go: "commit_or_undo e u d s = (r, s')"
      using r False unfolding syn_store_clear_staged_def Let_def u_def d_def by simp
    have "store_wf e (u ?st)" using wf unfolding u_def store_wf_def by (auto simp: slot_field_ok_def occ_unset_bit)
    then have "op_effect e content dev_ok s r s' (pfields (u ?st))"
      by (intro commit_effect [OF p so _ _ _ go]) (auto simp: u_def d_def pfields_def bfields_def)
    then show ?thesis using False unfolding u_def pfields_def by simp
  qed
qed

lemma rollback_effect:
  assumes p: "se_port e = port" and so: "store_sound e dev_ok s" and r: "syn_store_rollback e s = (r, s')"
  shows "(r \<noteq> Ok () \<and> s' = s) \<or> rollback_target (sy_st s) < lo_slot_count (so_lay (sy_st s)) \<and>
    bit (so_occ (sy_st s)) (rollback_target (sy_st s)) \<and> rollback_target (sy_st s) \<noteq> so_active (sy_st s) \<and>
    op_effect e content dev_ok s r s' (rollback_target (sy_st s), so_active (sy_st s), so_staged (sy_st s),
      so_occ (sy_st s), so_rec (sy_st s))"
proof -
  let ?st = "sy_st s" let ?t = "rollback_target ?st"
  have wf: "store_wf e ?st" using so by (simp add: store_sound_def)
  show ?thesis
  proof (cases "\<not> so_ready ?st \<or> ?t = SLOT_NONE")
    case True
    then show ?thesis using r by (auto simp: syn_store_rollback_def Let_def split: if_split_asm)
  next
    case False
    note t = rollback_target_ok [OF wf conjunct2 [OF False [unfolded de_Morgan_disj not_not]]]
    define u :: "store \<Rightarrow> store" where "u = (\<lambda>st. st\<lparr>so_active := ?t, so_prev := so_active st\<rparr>)"
    define d :: "store \<Rightarrow> store" where
      "d = (\<lambda>st1. st1\<lparr>so_active := so_active ?st, so_prev := so_prev ?st\<rparr>)"
    have go: "switch_active e ?t u d s = (r, s')"
      using r False unfolding syn_store_rollback_def Let_def u_def d_def by simp
    have "store_wf e (u ?st)" using wf t unfolding u_def store_wf_def by (auto simp: slot_field_ok_def)
    then have "op_effect e content dev_ok s r s' (pfields (u ?st))"
      by (intro switch_active_effect [OF p so _ _ _ go]) (auto simp: u_def d_def pfields_def bfields_def)
    then show ?thesis using t unfolding u_def pfields_def by simp
  qed
qed

lemma payload_write_spec:
  assumes "payload_write_loop port off src pos f = (r, f')" and "dev_ok f"
    and "(64 + pos) mod fp_page_size port = 0 \<or> length src \<le> pos" "pos \<le> length src"
    and "256 mod fp_page_size port = 0" "sz mod fp_page_size port = 0"
    and "64 + length src \<le> sz" "off + sz \<le> fp_size port" "fp_size port < 2 ^ 32"
  shows "dev_ok f' \<and> (\<forall>a n. a + n \<le> fp_size port \<longrightarrow> disjoint_ranges a n (off + 64 + pos) (sz - 64 - pos) \<longrightarrow>
      slice a n (content f') = slice a n (content f)) \<and>
    (r = Ok () \<longrightarrow> slice (off + 64 + pos) (length src - pos) (content f') = drop pos src)"
  using assms
proof (induction "length src - pos" arbitrary: pos f rule: less_induct)
  case less
  let ?pg = "fp_page_size port"
  note pg = geometry(1)
  show ?case
  proof (cases "pos < length src")
    case False
    then show ?thesis using less.prems by (subst (asm) payload_write_loop.simps) simp
  next
    case True
    define n where "n = min 256 (length src - pos)"
    define buf where "buf = blit 0 (slice pos n src) (replicate (round_up n ?pg) (0xFF :: u8))"
    have n: "0 < n" "n \<le> length src - pos" "n \<le> 256" using True by (auto simp: n_def)
    have pg256: "?pg \<le> 256" using less.prems(5) by (auto intro: dvd_imp_le)
    have al: "(64 + pos) mod ?pg = 0" using less.prems(3) True by simp
    have "(sz - (64 + pos)) mod ?pg = 0"
      using al less.prems(6) by (simp add: dvd_diff_nat mod_0_imp_dvd dvd_imp_mod_0)
    then have fit: "round_up n ?pg \<le> sz - (64 + pos)"
      using n pg pg256 less.prems(7) by (intro round_up_fits) auto
    have ge: "n \<le> round_up n ?pg" using pg n(3) pg256 by (intro round_up_ge) auto
    have ls: "length (slice pos n src) = n" using n by simp
    have lb: "length buf = round_up n ?pg" using ge ls by (simp add: buf_def)
    obtain r1 f1 where w: "syn_flash_write port (off + 64 + pos) buf f = (r1, f1)" by fastforce
    note W = write_spec [OF less.prems(2) w]
    have eq: "payload_write_loop port off src pos f =
        (case r1 of Inl e \<Rightarrow> (Err e, f1) | Inr _ \<Rightarrow> payload_write_loop port off src (pos + n) f1)"
      using True w unfolding n_def buf_def by (subst payload_write_loop.simps) (simp add: Let_def)
    have fr1: "slice a k (content f1) = slice a k (content f)"
      if "a + k \<le> fp_size port" "disjoint_ranges a k (off + 64 + pos) (sz - 64 - pos)" for a k
      using W(2) that fit lb by (auto simp: disjoint_ranges_def)
    show ?thesis
    proof (cases r1)
      case (Inl e)
      then show ?thesis using eq less.prems(1) W(1) fr1 by auto
    next
      case (Inr u)
      have "(64 + (pos + n)) mod ?pg = 0 \<or> length src \<le> pos + n"
      proof (cases "n = 256")
        case True
        have "(64 + pos + 256) mod ?pg = 0" using al less.prems(5) by (metis add_cancel_right_right mod_add_eq mod_0)
        then show ?thesis using True by (simp add: ac_simps)
      qed (auto simp: n_def)
      from less.hyps [OF _ _ W(1) this _ less.prems(5-9)] True n eq less.prems(1) Inr
      have IH: "dev_ok f' \<and> (\<forall>a k. a + k \<le> fp_size port \<longrightarrow>
          disjoint_ranges a k (off + 64 + (pos + n)) (sz - 64 - (pos + n)) \<longrightarrow>
          slice a k (content f') = slice a k (content f1)) \<and>
        (r = Ok () \<longrightarrow> slice (off + 64 + (pos + n)) (length src - (pos + n)) (content f') = drop (pos + n) src)"
        by simp
      have "slice a k (content f') = slice a k (content f)"
        if "a + k \<le> fp_size port" "disjoint_ranges a k (off + 64 + pos) (sz - 64 - pos)" for a k
      proof -
        have "disjoint_ranges a k (off + 64 + (pos + n)) (sz - 64 - (pos + n))"
          using that(2) n less.prems(7) by (auto simp: disjoint_ranges_def)
        then show ?thesis using IH that(1) fr1 [OF that] by simp
      qed
      moreover have "slice (off + 64 + pos) (length src - pos) (content f') = drop pos src" if "r = Ok ()"
      proof -
        have b: "slice (off + 64 + pos) (length buf) (content f1) = buf" using W(3) Inr by simp
        have "slice (off + 64 + pos) n (content f') = slice (off + 64 + pos) n (content f1)"
          using IH n less.prems(7,8) by (simp add: disjoint_ranges_def)
        also have "\<dots> = slice 0 n (slice (off + 64 + pos) (length buf) (content f1))"
          using ge lb by (subst slice_slice) simp_all
        also have "\<dots> = slice pos n src" using ls ge unfolding b by (simp add: buf_def)
        finally have "slice (off + 64 + pos) n (content f') = take n (drop pos src)" by (simp add: slice_def)
        moreover have "slice (off + 64 + pos + n) (length src - pos - n) (content f') = drop n (drop pos src)"
          using IH that by (simp add: ac_simps)
        moreover have "length src - pos = n + (length src - pos - n)" using n by simp
        ultimately show ?thesis using slice_append [of "off + 64 + pos" n "length src - pos - n" "content f'"]
          by (metis append_take_drop_id)
      qed
      ultimately show ?thesis using IH by blast
    qed
  qed
qed

lemma slot_write_spec:
  assumes w: "slot_write port off (64 + length src) hdr src f = (r, f')" and ok: "dev_ok f"
    and hdr: "length hdr = 64" and sz: "64 + length src \<le> sz" "sz mod fp_sector_size port = 0"
    and pg: "fp_page_size port dvd fp_sector_size port" "256 mod fp_page_size port = 0"
    and win: "off + sz \<le> fp_size port" "fp_size port \<le> 2 ^ 31"
  shows "dev_ok f' \<and> (\<forall>a n. a + n \<le> fp_size port \<longrightarrow> disjoint_ranges a n off sz \<longrightarrow>
      slice a n (content f') = slice a n (content f)) \<and>
    (r = Ok () \<longrightarrow> slice off 64 (content f') = hdr \<and> slice (off + 64) (length src) (content f') = src)"
proof -
  let ?pg = "fp_page_size port" and ?sec = "fp_sector_size port"
  define hp where "hp = round_up 64 ?pg"
  define lead where "lead = min (hp - 64) (length src)"
  define buf where "buf = blit 64 (take lead src) (blit 0 hdr (replicate hp (0xFF :: u8)))"
  obtain r1 f1 where e: "syn_flash_erase_sectors port off (round_up (64 + length src) ?sec) f = (r1, f1)" by fastforce
  note E = erase_sectors_spec [OF ok e]
  have szpg: "sz mod ?pg = 0" using sz(2) pg(1) by (meson dvd_trans mod_0_imp_dvd dvd_imp_mod_0)
  have pg256: "?pg \<le> 256" using pg(2) by (auto intro: dvd_imp_le)
  have "0 < sz" using sz(1) by simp
  then have "?sec \<le> sz" using sz(2) by (auto intro: dvd_imp_le)
  then have er: "round_up (64 + length src) ?sec \<le> sz"
    using sz win geometry(2) by (intro round_up_fits) auto
  have hp: "hp \<le> sz" using szpg sz(1) pg256 geometry(1) unfolding hp_def by (intro round_up_fits) auto
  have hp64: "64 \<le> hp" using geometry(1) pg256 unfolding hp_def by (intro round_up_ge) auto
  have lead: "lead \<le> length src" "64 + lead \<le> hp" using hp64 by (auto simp: lead_def)
  have l1: "length (blit 0 hdr (replicate hp (0xFF :: u8))) = hp" using hdr hp64 by simp
  have lb: "length buf = hp" using lead l1 unfolding buf_def by (subst length_blit) auto
  obtain r2 f2 where w1: "syn_flash_write port off buf f1 = (r2, f2)" by fastforce
  note W = write_spec [OF E(1) w1]
  obtain r3 f3 where w2: "payload_write_loop port off src lead f2 = (r3, f3)" by fastforce
  have al: "(64 + lead) mod ?pg = 0 \<or> length src \<le> lead"
  proof (cases "hp - 64 \<le> length src")
    case True
    then have "64 + lead = hp" using hp64 by (simp add: lead_def)
    then show ?thesis by (simp add: hp_def)
  qed (simp add: lead_def)
  have "fp_size port < 2 ^ 32" using win(2) by simp
  note P = payload_write_spec [OF w2 W(1) al lead(1) pg(2) szpg sz(1) win(1) this]
  have eq: "slot_write port off (64 + length src) hdr src f =
      (case r1 of Inl er \<Rightarrow> (Err er, f1) | Inr _ \<Rightarrow> (case r2 of Inl er \<Rightarrow> (Err er, f2) | Inr _ \<Rightarrow> (r3, f3)))"
    using e w1 w2 by (auto simp: slot_write_def Let_def hp_def lead_def buf_def split: sum.splits)
  have cases: "f' = f1 \<and> r \<noteq> Ok () \<or> f' = f2 \<and> r \<noteq> Ok () \<or> f' = f3 \<and> r = r3 \<and> r2 = Ok ()"
    using w eq by (cases r1; cases r2) auto
  have fr: "slice a n (content f1) = slice a n (content f) \<and> slice a n (content f2) = slice a n (content f) \<and>
      slice a n (content f3) = slice a n (content f)"
    if "a + n \<le> fp_size port" "disjoint_ranges a n off sz" for a n
  proof -
    have "disjoint_ranges a n off (round_up (64 + length src) ?sec)" "disjoint_ranges a n off (length buf)"
      "disjoint_ranges a n (off + 64 + lead) (sz - 64 - lead)"
      using that(2) er hp lb lead sz(1) by (auto simp: disjoint_ranges_def)
    then show ?thesis using E(2) W(2) P that(1) by metis
  qed
  have res: "slice off 64 (content f3) = hdr \<and> slice (off + 64) (length src) (content f3) = src"
    if "r2 = Ok ()" "r3 = Ok ()"
  proof -
    have b: "slice off (length buf) (content f2) = buf" using W(3) that(1) by simp
    have s2: "slice (off + a) n (content f2) = slice a n buf" if "a + n \<le> hp" for a n
      using that lb b slice_slice [of a n hp off "content f2"] by simp
    have s3: "slice a n (content f3) = slice a n (content f2)" if "a + n \<le> off + 64 + lead" for a n
      using P that win sz(1) lead(1) by (simp add: disjoint_ranges_def)
    have "slice off 64 (content f3) = slice 0 64 buf" using s3 [of off 64] s2 [of 0 64] hp64 by simp
    also have "\<dots> = hdr" using hdr l1 lead hp64 unfolding buf_def
      by (subst slice_blit_other) (auto simp: disjoint_ranges_def)
    finally have 1: "slice off 64 (content f3) = hdr" .
    have "slice (off + 64) lead (content f3) = slice 64 lead buf" using s3 [of "off + 64" lead] s2 [of 64 lead] lead by simp
    also have "\<dots> = take lead src" using l1 lead unfolding buf_def by (subst slice_blit_same) auto
    finally have 2: "slice (off + 64) lead (content f3) = take lead src" .
    have "slice (off + 64) (length src) (content f3) = take lead src @ drop lead src"
      using slice_append [of "off + 64" lead "length src - lead" "content f3"] 2 P that(2) lead(1) by simp
    with 1 show ?thesis by simp
  qed
  show ?thesis using cases E(1) W(1) P fr res by auto
qed

lemma synced_frame:
  assumes "se_port e = port" "store_wf e st" "dev_ok f" "dev_ok f'" "synced e f st"
    and "\<And>c. c < 2 \<Longrightarrow> slice (lo_registry_off (so_lay st) ! c) (lo_registry_size (so_lay st)) (content f') =
      slice (lo_registry_off (so_lay st) ! c) (lo_registry_size (so_lay st)) (content f)"
  shows "synced e f' st"
proof -
  have lay: "layout_sound (se_max e) port (so_lay st)" "se_max e \<le> 8" "so_newest st < 2"
    using assms(1,2) by (auto simp: store_wf_def)
  have "load_copy e (so_lay st) c f' = load_copy e (so_lay st) c f" if "c < 2" for c
    by (rule load_copy_frame [OF assms(1) lay(1,2) that assms(3,4) assms(6) [OF that]])
  from this [OF lay(3)] this [of 1] assms(5) show ?thesis
    by (auto simp: synced_def persisted_def split: option.splits)
qed

lemma slots_kept_trans:
  "slots_kept content lay X f f1 \<Longrightarrow> slots_kept content lay Y f1 f2 \<Longrightarrow> slots_kept content lay (X \<union> Y) f f2"
  by (simp add: slots_kept_def)

lemma begin_staging_sound:
  assumes p: "se_port e = port" and so: "store_sound e dev_ok s"
    and r: "syn_store_begin_staging e slot s = (r, s')"
  shows "store_sound e dev_ok s'" "so_lay (sy_st s') = so_lay (sy_st s)"
    "slots_kept content (so_lay (sy_st s)) {} (sy_flash s) (sy_flash s')" "so_active (sy_st s') = so_active (sy_st s)"
    "r = Ok () \<Longrightarrow> slot < lo_slot_count (so_lay (sy_st s)) \<and> slot \<noteq> so_active (sy_st s) \<and>
      so_rec (sy_st s') = so_rec (sy_st s) \<and> set_bit slot (so_occ (sy_st s')) = set_bit slot (so_occ (sy_st s)) \<and>
      (so_staged (sy_st s') = (if so_staged (sy_st s) = slot then SLOT_NONE else so_staged (sy_st s)) \<or>
       so_staged (sy_st s') = so_staged (sy_st s)) \<and> \<not> bit (so_occ (sy_st s')) slot"
proof -
  have sb: "set_bit slot (unset_bit slot w) = set_bit slot w" for w :: u8
    by (rule bit_word_eqI) (auto simp: bit_simps)
  have ub: "\<not> bit (unset_bit slot w) slot" for w :: u8 by (simp add: bit_simps)
  note E = begin_staging_effect [OF p so r]
  show "store_sound e dev_ok s'" "so_lay (sy_st s') = so_lay (sy_st s)"
    "slots_kept content (so_lay (sy_st s)) {} (sy_flash s) (sy_flash s')"
    using E so by (auto simp: op_effect_def slots_kept_def)
  show "so_active (sy_st s') = so_active (sy_st s)"
    using E by (cases "r = Ok ()") (auto simp: op_effect_def pfields_def)
  show "slot < lo_slot_count (so_lay (sy_st s)) \<and> slot \<noteq> so_active (sy_st s) \<and>
      so_rec (sy_st s') = so_rec (sy_st s) \<and> set_bit slot (so_occ (sy_st s')) = set_bit slot (so_occ (sy_st s)) \<and>
      (so_staged (sy_st s') = (if so_staged (sy_st s) = slot then SLOT_NONE else so_staged (sy_st s)) \<or>
       so_staged (sy_st s') = so_staged (sy_st s)) \<and> \<not> bit (so_occ (sy_st s')) slot" if "r = Ok ()"
    using E that
  proof (elim disjE conjE)
    assume o: "op_effect e content dev_ok s r s' (so_active (sy_st s),
      if so_prev (sy_st s) = slot then SLOT_NONE else so_prev (sy_st s),
      if so_staged (sy_st s) = slot then SLOT_NONE else so_staged (sy_st s),
      unset_bit slot (so_occ (sy_st s)), so_rec (sy_st s))" "r = Ok ()"
      "r = Ok () \<longrightarrow> slot < lo_slot_count (so_lay (sy_st s)) \<and> slot \<noteq> so_active (sy_st s)"
    then show ?thesis using sb ub by (simp only: op_effect_def pfields_def prod.inject simp_thms)
  qed simp
qed

lemma slot_write_sound:
  assumes p: "se_port e = port" and so: "store_sound e dev_ok s" and slot: "slot < lo_slot_count (so_lay (sy_st s))"
    and geo: "fp_page_size port dvd fp_sector_size port" "fp_size port \<le> 2 ^ 31"
    and t: "64 + length src \<le> lo_slot_size (so_lay (sy_st s))" and h: "length hdr = 64"
    and w: "slot_write port (lo_slot_off (so_lay (sy_st s)) ! slot) (64 + length src) hdr src (sy_flash s) = (r, f1)"
  shows "store_sound e dev_ok (s\<lparr>sy_flash := f1\<rparr>)" "slots_kept content (so_lay (sy_st s)) {slot} (sy_flash s) f1"
    "r = Ok () \<Longrightarrow> slice (lo_slot_off (so_lay (sy_st s)) ! slot) 64 (content f1) = hdr \<and>
       slice (lo_slot_off (so_lay (sy_st s)) ! slot + 64) (length src) (content f1) = src"
proof -
  let ?lay = "so_lay (sy_st s)" let ?off = "lo_slot_off ?lay ! slot"
  have a: "store_wf e (sy_st s)" "dev_ok (sy_flash s)" "synced e (sy_flash s) (sy_st s)" "so_ready (sy_st s)"
    using so by (simp_all add: store_sound_def)
  have lay: "layout_sound (se_max e) port ?lay" using a(1) p by (simp add: store_wf_def)
  have "region_ok port (layout_regions ?lay ! (2 + slot))" using lay slot by (simp add: layout_sound_def)
  then have szs: "lo_slot_size ?lay mod fp_sector_size port = 0"
    using layout_region_nth(2) [OF slot] by (simp add: region_ok_def)
  have pg: "256 mod fp_page_size port = 0" using lay by (simp add: layout_sound_def)
  note W = slot_write_spec [OF w a(2) h t szs geo(1) pg slot_region [OF lay slot] geo(2)]
  have "slice (lo_registry_off ?lay ! c) (lo_registry_size ?lay) (content f1) =
      slice (lo_registry_off ?lay ! c) (lo_registry_size ?lay) (content (sy_flash s))" if "c < 2" for c
    using W registry_region(1) [OF lay that] slot_registry_disjoint [OF lay slot that]
    by (simp add: disjoint_ranges_sym)
  then have "synced e f1 (sy_st s)" using W by (intro synced_frame [OF p a(1,2) _ a(3)]) auto
  then show "store_sound e dev_ok (s\<lparr>sy_flash := f1\<rparr>)" using W a by (simp add: store_sound_def)
  show "slots_kept content ?lay {slot} (sy_flash s) f1"
    unfolding slots_kept_def using W slot_region [OF lay] slots_disjoint [OF lay _ slot] by auto
  show "slice ?off 64 (content f1) = hdr \<and> slice (?off + 64) (length src) (content f1) = src" if "r = Ok ()"
    using W that by simp
qed

lemma install_commit_sound:
  assumes p: "se_port e = port" and so: "store_sound e dev_ok s" and nfo: "info_ok nfo"
    and slot: "slot < lo_slot_count (so_lay (sy_st s))" "slot \<noteq> so_active (sy_st s)"
    and r: "commit_or_undo e
            (\<lambda>st. st\<lparr>so_rec := (so_rec st)[slot := install_rec e lay slot nfo src],
               so_occ := set_bit slot (so_occ st),
               so_staged := (if so_staged st = slot then SLOT_NONE else so_staged st),
               so_active := slot,
               so_prev := (if so_active st \<noteq> slot then so_active st else so_prev st)\<rparr>)
            (\<lambda>st. st\<lparr>so_rec := (so_rec st)[slot := so_rec (sy_st s) ! slot],
               so_occ := so_occ (sy_st s), so_staged := so_staged (sy_st s),
               so_active := so_active (sy_st s), so_prev := so_prev (sy_st s)\<rparr>) s = (r, s')"
  shows "op_effect e content dev_ok s r s' (slot, so_active (sy_st s),
     if so_staged (sy_st s) = slot then SLOT_NONE else so_staged (sy_st s), set_bit slot (so_occ (sy_st s)),
     (so_rec (sy_st s))[slot := install_rec e lay slot nfo src])"
proof -
  let ?st = "sy_st s"
  have wf: "store_wf e ?st" using so by (simp add: store_sound_def)
  define u :: "store \<Rightarrow> store" where
    "u = (\<lambda>st. st\<lparr>so_rec := (so_rec st)[slot := install_rec e lay slot nfo src],
               so_occ := set_bit slot (so_occ st),
               so_staged := (if so_staged st = slot then SLOT_NONE else so_staged st),
               so_active := slot,
               so_prev := (if so_active st \<noteq> slot then so_active st else so_prev st)\<rparr>)"
  define d :: "store \<Rightarrow> store" where
    "d = (\<lambda>st. st\<lparr>so_rec := (so_rec st)[slot := so_rec ?st ! slot],
               so_occ := so_occ ?st, so_staged := so_staged ?st,
               so_active := so_active ?st, so_prev := so_prev ?st\<rparr>)"
  have go: "commit_or_undo e u d s = (r, s')" using r unfolding u_def d_def .
  have rl: "length (so_rec ?st) = se_max e" "lo_slot_count (so_lay ?st) \<le> se_max e"
    using wf by (auto simp: store_wf_def layout_sound_def)
  have io: "info_ok (install_rec e lay slot nfo src)" using nfo by (simp add: info_ok_def install_rec_def)
  have "(so_rec ?st)[slot := x] ! j = (if j = slot then x else so_rec ?st ! j)" for j x
    using slot rl by (simp add: nth_list_update)
  then have "store_wf e (u ?st)"
    using wf slot io unfolding u_def store_wf_def by (auto simp: slot_field_ok_def occ_set_bit)
  then have "op_effect e content dev_ok s r s' (pfields (u ?st))"
    by (intro commit_effect [OF p so _ _ _ go]) (auto simp: u_def d_def pfields_def bfields_def)
  then show ?thesis using slot(2) unfolding u_def pfields_def by simp
qed

lemma install_tail:
  assumes p: "se_port e = port" and so: "store_sound e dev_ok s" and nfo: "info_ok nfo"
    and geo: "fp_page_size port dvd fp_sector_size port" "fp_size port \<le> 2 ^ 31"
    and b: "syn_store_begin_staging e slot s = (Ok (), s1)"
    and t: "64 + length src \<le> lo_slot_size (so_lay (sy_st s))"
    and w: "slot_write port (lo_slot_off (so_lay (sy_st s)) ! slot) (64 + length src)
         (synm_hdr_bytes (mi_name nfo) (of_nat (length src)) (se_crc e src) (mi_input_shape nfo) (mi_output_shape nfo))
         src (sy_flash s1) = (Ok (), f1)"
    and c: "commit_or_undo e
            (\<lambda>st. st\<lparr>so_rec := (so_rec st)[slot := install_rec e (so_lay (sy_st s)) slot nfo src],
               so_occ := set_bit slot (so_occ st),
               so_staged := (if so_staged st = slot then SLOT_NONE else so_staged st),
               so_active := slot,
               so_prev := (if so_active st \<noteq> slot then so_active st else so_prev st)\<rparr>)
            (\<lambda>st. st\<lparr>so_rec := (so_rec st)[slot := so_rec (sy_st s1) ! slot],
               so_occ := so_occ (sy_st s1), so_staged := so_staged (sy_st s1),
               so_active := so_active (sy_st s1), so_prev := so_prev (sy_st s1)\<rparr>) (s1\<lparr>sy_flash := f1\<rparr>) = (r3, s3)"
  shows "store_sound e dev_ok s3 \<and> so_lay (sy_st s3) = so_lay (sy_st s) \<and>
    so_active (sy_st s) \<noteq> slot \<and> slots_kept content (so_lay (sy_st s)) {slot} (sy_flash s) (sy_flash s3) \<and>
    (r3 = Ok () \<longrightarrow> slot < lo_slot_count (so_lay (sy_st s)) \<and>
       pfields (sy_st s3) = install_fields e (sy_st s) slot nfo src \<and>
       slice (lo_slot_off (so_lay (sy_st s)) ! slot) 64 (content (sy_flash s3)) =
         synm_hdr_bytes (mi_name nfo) (of_nat (length src)) (se_crc e src) (mi_input_shape nfo) (mi_output_shape nfo) \<and>
       slice (lo_slot_off (so_lay (sy_st s)) ! slot + 64) (length src) (content (sy_flash s3)) = src \<and>
       other_older e (sy_flash s3) (sy_st s3))"
proof -
  let ?lay = "so_lay (sy_st s)" let ?off = "lo_slot_off ?lay ! slot" and ?sz = "lo_slot_size ?lay"
  note B = begin_staging_sound [OF p so b] 
  note B5 = B(5) [OF refl]
  have slot: "slot < lo_slot_count (so_lay (sy_st s1))" "slot \<noteq> so_active (sy_st s1)" using B5 B(2,4) by simp_all
  note S = slot_write_sound [OF p B(1) slot(1) geo _ length_synm_hdr_bytes [OF nfo], unfolded B(2), OF t w]
  let ?s2 = "s1\<lparr>sy_flash := f1\<rparr>"
  have slot2: "slot < lo_slot_count (so_lay (sy_st ?s2))" "slot \<noteq> so_active (sy_st ?s2)" using slot by simp_all
  have c2: "commit_or_undo e
            (\<lambda>st. st\<lparr>so_rec := (so_rec st)[slot := install_rec e ?lay slot nfo src],
               so_occ := set_bit slot (so_occ st),
               so_staged := (if so_staged st = slot then SLOT_NONE else so_staged st),
               so_active := slot,
               so_prev := (if so_active st \<noteq> slot then so_active st else so_prev st)\<rparr>)
            (\<lambda>st. st\<lparr>so_rec := (so_rec st)[slot := so_rec (sy_st ?s2) ! slot],
               so_occ := so_occ (sy_st ?s2), so_staged := so_staged (sy_st ?s2),
               so_active := so_active (sy_st ?s2), so_prev := so_prev (sy_st ?s2)\<rparr>) ?s2 = (r3, s3)"
    using c by simp
  note C = install_commit_sound [OF p S(1) nfo slot2 c2]
  have k3: "slots_kept content ?lay {} f1 (sy_flash s3)" and s3: "store_sound e dev_ok s3" "so_lay (sy_st s3) = ?lay"
    using C B(2) by (simp_all add: op_effect_def)
  have "slots_kept content ?lay {slot} (sy_flash s) (sy_flash s3)"
    using slots_kept_trans [OF slots_kept_trans [OF B(3) S(2)] k3] by simp
  moreover have "pfields (sy_st s3) = install_fields e (sy_st s) slot nfo src \<and> other_older e (sy_flash s3) (sy_st s3) \<and>
      slice ?off 64 (content (sy_flash s3)) =
         synm_hdr_bytes (mi_name nfo) (of_nat (length src)) (se_crc e src) (mi_input_shape nfo) (mi_output_shape nfo) \<and>
      slice (?off + 64) (length src) (content (sy_flash s3)) = src" if r3: "r3 = Ok ()"
  proof -
    have "slice ?off ?sz (content (sy_flash s3)) = slice ?off ?sz (content f1)"
      using k3 B5 by (simp add: slots_kept_def)
    then have sub: "slice (?off + a) n (content (sy_flash s3)) = slice (?off + a) n (content f1)" if "a + n \<le> ?sz" for a n
      using slice_slice [OF that, of ?off "content (sy_flash s3)"] slice_slice [OF that, of ?off "content f1"] by simp
    have pf: "pfields (sy_st s3) = install_fields e (sy_st s) slot nfo src"
      using C r3 B(4) B5 by (auto simp: op_effect_def install_fields_def)
    show ?thesis using pf C r3 S(3) sub [of 0 64] sub [of 64 "length src"] t by (simp add: op_effect_def)
  qed
  ultimately show ?thesis using s3 B5 by auto
qed

lemma install_effect:
  assumes p: "se_port e = port" and so: "store_sound e dev_ok s" and nfo: "info_ok nfo"
    and geo: "fp_page_size port dvd fp_sector_size port" "fp_size port \<le> 2 ^ 31"
    and src: "64 + length src < 2 ^ 32"
    and r: "syn_store_install e (Some nfo) (Some src) s = (r, s')"
  shows "store_sound e dev_ok s' \<and> so_lay (sy_st s') = so_lay (sy_st s) \<and>
    (\<exists>X. so_active (sy_st s) \<notin> X \<and> slots_kept content (so_lay (sy_st s)) X (sy_flash s) (sy_flash s')) \<and>
    (is_ok r \<longrightarrow> (\<exists>slot. slot < lo_slot_count (so_lay (sy_st s)) \<and> slot \<noteq> so_active (sy_st s) \<and>
       syn_store_staging_slot True (sy_st s) = Ok slot \<and>
       pfields (sy_st s') = install_fields e (sy_st s) slot nfo src \<and>
       slice (lo_slot_off (so_lay (sy_st s)) ! slot) 64 (content (sy_flash s')) =
         synm_hdr_bytes (mi_name nfo) (of_nat (length src)) (se_crc e src) (mi_input_shape nfo) (mi_output_shape nfo) \<and>
       slice (lo_slot_off (so_lay (sy_st s)) ! slot + 64) (length src) (content (sy_flash s')) = src \<and>
       other_older e (sy_flash s') (sy_st s')))"
  using install_unfold [OF r]
proof (elim disjE exE conjE)
  assume "\<not> is_ok r" "s' = s"
  then show ?thesis using so by (auto simp: slots_kept_def intro!: exI [of _ "{}"])
next
  fix slot r1 s1 er
  assume "syn_store_begin_staging e slot s = (r1, s1)" "r = Err er" "s' = s1"
  then show ?thesis using begin_staging_sound(1-3) [OF p so] by (auto intro!: exI [of _ "{}"])
next
  fix slot r1 s1 r2 f1
  assume b: "syn_store_begin_staging e slot s = (r1, s1)" "r1 = Ok ()"
    and t: "(64 + length src) mod 2 ^ 32 \<le> lo_slot_size (so_lay (sy_st s))"
    and w: "slot_write (se_port e) (lo_slot_off (so_lay (sy_st s)) ! slot) ((64 + length src) mod 2 ^ 32)
         (synm_hdr_bytes (mi_name nfo) (of_nat (length src)) (se_crc e src) (mi_input_shape nfo) (mi_output_shape nfo))
         src (sy_flash s1) = (r2, f1)"
    and s': "\<not> is_ok r" "s' = s1\<lparr>sy_flash := f1\<rparr>"
  note B = begin_staging_sound [OF p so b(1)]
  note S = slot_write_sound [OF p B(1) _ geo _ length_synm_hdr_bytes [OF nfo]]
  have "store_sound e dev_ok s'" "slots_kept content (so_lay (sy_st s)) {slot} (sy_flash s1) f1"
    using S [of slot src "of_nat (length src)" "se_crc e src" r2 f1] B(2,5) b(2) t w p src s'(2) by simp_all
  then show ?thesis using B(2,3,5) b(2) s' slots_kept_trans [of "so_lay (sy_st s)" "{}"]
    by (auto intro!: exI [of _ "{slot}"])
next
  fix slot r1 s1 r2 f1 r3 s3
  assume a: "syn_store_staging_slot True (sy_st s) = Ok slot" "(64 + length src) mod 2 ^ 32 \<le> lo_slot_size (so_lay (sy_st s))"
    "syn_store_begin_staging e slot s = (r1, s1)" "r1 = Ok ()"
    "slot_write (se_port e) (lo_slot_off (so_lay (sy_st s)) ! slot) ((64 + length src) mod 2 ^ 32)
         (synm_hdr_bytes (mi_name nfo) (of_nat (length src)) (se_crc e src) (mi_input_shape nfo) (mi_output_shape nfo))
         src (sy_flash s1) = (r2, f1)" "r2 = Ok ()"
    and c: "commit_or_undo e
            (\<lambda>st. st\<lparr>so_rec := (so_rec st)[slot := install_rec e (so_lay (sy_st s)) slot nfo src],
               so_occ := set_bit slot (so_occ st),
               so_staged := (if so_staged st = slot then SLOT_NONE else so_staged st),
               so_active := slot,
               so_prev := (if so_active st \<noteq> slot then so_active st else so_prev st)\<rparr>)
            (\<lambda>st. st\<lparr>so_rec := (so_rec st)[slot := so_rec (sy_st s1) ! slot],
               so_occ := so_occ (sy_st s1), so_staged := so_staged (sy_st s1),
               so_active := so_active (sy_st s1), so_prev := so_prev (sy_st s1)\<rparr>) (s1\<lparr>sy_flash := f1\<rparr>) = (r3, s3)"
  have m: "(64 + length src) mod 2 ^ 32 = 64 + length src" using src by (rule mod_less)
  have T: "store_sound e dev_ok s3 \<and> so_lay (sy_st s3) = so_lay (sy_st s) \<and>
    so_active (sy_st s) \<noteq> slot \<and> slots_kept content (so_lay (sy_st s)) {slot} (sy_flash s) (sy_flash s3) \<and>
    (r3 = Ok () \<longrightarrow> slot < lo_slot_count (so_lay (sy_st s)) \<and>
       pfields (sy_st s3) = install_fields e (sy_st s) slot nfo src \<and>
       slice (lo_slot_off (so_lay (sy_st s)) ! slot) 64 (content (sy_flash s3)) =
         synm_hdr_bytes (mi_name nfo) (of_nat (length src)) (se_crc e src) (mi_input_shape nfo) (mi_output_shape nfo) \<and>
       slice (lo_slot_off (so_lay (sy_st s)) ! slot + 64) (length src) (content (sy_flash s3)) = src \<and>
       other_older e (sy_flash s3) (sy_st s3))"
    using a(2-6) p m by (intro install_tail [OF p so nfo geo _ _ _ c]) simp_all
  {
    assume "\<not> is_ok r" "s' = s3"
    then show ?thesis using T by (auto intro!: exI [of _ "{slot}"])
  next
    assume "r3 = Ok ()" "ram_register e slot s3 = (r, s')"
    then show ?thesis using T a(1) ram_register_keep [of e slot s3 r s']
      by (auto simp: store_sound_def intro!: exI [of _ "{slot}"])
  }
qed

end

section \<open>Histories of operations\<close>

datatype store_op =
    Begin_Staging nat | Mark_Staged nat syn_model_info | Activate nat | Rollback | Clear_Staged
  | Install syn_model_info "u8 list"

text \<open>One call of the API; the result is whether it returned 0.\<close>

fun store_apply :: "('f, 'h) senv \<Rightarrow> store_op \<Rightarrow> ('f, 'h) sys \<Rightarrow> bool \<times> ('f, 'h) sys" where
  "store_apply e (Begin_Staging n) s = apfst is_ok (syn_store_begin_staging e n s)"
| "store_apply e (Mark_Staged n i) s = apfst is_ok (syn_store_mark_staged e n (Some i) s)"
| "store_apply e (Activate n) s = apfst is_ok (syn_store_activate e n s)"
| "store_apply e Rollback s = apfst is_ok (syn_store_rollback e s)"
| "store_apply e Clear_Staged s = apfst is_ok (syn_store_clear_staged e s)"
| "store_apply e (Install i d) s = apfst is_ok (syn_store_install e (Some i) (Some d) s)"

text \<open>The sizes the C types give the arguments.\<close>

fun op_args_ok :: "store_op \<Rightarrow> bool" where
  "op_args_ok (Mark_Staged n i) = info_ok i"
| "op_args_ok (Install i d) = (info_ok i \<and> 64 + length d < 2 ^ 32)"
| "op_args_ok _ = True"

text \<open>A call at a moment: which models are suspended, and how long it takes, vary.\<close>

definition env_at :: "('f, 'h) senv \<Rightarrow> (nat \<Rightarrow> bool) \<Rightarrow> u32 \<Rightarrow> ('f, 'h) senv" where
  "env_at e susp us = e\<lparr>se_susp := susp, se_us := us\<rparr>"

fun store_run :: "('f, 'h) senv \<Rightarrow> (store_op \<times> (nat \<Rightarrow> bool) \<times> u32) list \<Rightarrow> ('f, 'h) sys \<Rightarrow> ('f, 'h) sys" where
  "store_run e [] s = s"
| "store_run e ((op, susp, us) # ops) s = store_run e ops (snd (store_apply (env_at e susp us) op s))"

lemma env_at_load [simp]:
  "se_port (env_at e susp us) = se_port e" "se_max (env_at e susp us) = se_max e"
  "load_copy (env_at e susp us) lay c f = load_copy e lay c f"
  by (simp_all add: env_at_def load_copy_def)

lemma env_at_persisted [simp]: "persisted (env_at e susp us) c f st = persisted e c f st"
  by (auto simp: persisted_def split: option.splits)

lemma env_at_sound [simp]:
  "store_sound (env_at e susp us) dev_ok s = store_sound e dev_ok s"
  "other_older (env_at e susp us) f st = other_older e f st"
  by (simp_all add: store_sound_def store_wf_def synced_def other_older_def)

definition geometry_ok :: "'f flash_port \<Rightarrow> bool" where
  "geometry_ok port \<longleftrightarrow> fp_page_size port dvd fp_sector_size port \<and> fp_size port \<le> 2 ^ 31"

text \<open>The new generation of a commit that succeeded is what a boot adopts.\<close>

lemma scan_adopts:
  assumes sy: "synced e f st" and o: "other_older e f st" and g: "so_gen st \<noteq> 0" and n: "so_newest st < 2"
  shows "pfields (scan_copies e (so_lay st) f) = pfields st \<and> so_gen (scan_copies e (so_lay st) f) = so_gen st"
proof -
  obtain h img where L: "load_copy e (so_lay st) (so_newest st) f = Some (h, img)" "sh_generation h = so_gen st"
    "pfields st = (sh_active_slot h, sh_prev_active h, sh_staged_slot h, sh_occupied h,
       unpack_recs img (hdr_slots h) (replicate (se_max e) zero_info))"
    using sy o by (auto simp: synced_def other_older_def persisted_def split: option.splits)
  have lt: "x < so_gen st" if "x + 1 = so_gen st" for x
  proof -
    have "unat (so_gen st) = (unat x + 1) mod 2 ^ 32" using unat_add32 [of x 1] that by simp
    moreover have "unat (so_gen st) \<noteq> 0" using g by (simp add: unat_eq_0)
    ultimately have "unat x < unat (so_gen st)" using unat_lt32 [of x] by (cases "unat x + 1 = 2 ^ 32") auto
    then show ?thesis by (simp add: word_less_nat_alt)
  qed
  have p: "pick_newest (map_option fst (load_copy e (so_lay st) 0 f)) (map_option fst (load_copy e (so_lay st) 1 f))
      = Some (so_newest st)"
  proof (cases "so_newest st")
    case 0
    then show ?thesis using L(1,2) o lt
      by (auto simp: pick_newest_def other_older_def split: option.splits dest: less_asym)
  next
    case (Suc k)
    then have "so_newest st = 1" using n by simp
    then show ?thesis using L(1,2) o lt by (auto simp: pick_newest_def other_older_def split: option.splits)
  qed
  show ?thesis using p L
    by (simp add: scan_copies_def Let_def load_copy_def fresh_store_def pfields_def)
qed

text \<open>What a boot adopts is well formed.\<close>

lemma get_bytes_info_ok: "length b = 88 \<Longrightarrow> info_ok (info_of_bytes b)"
  by (simp add: info_ok_def info_of_bytes_def)

lemma zero_info_ok: "info_ok zero_info"
  by (simp add: info_ok_def zero_info_def empty_slot_def)

lemma image_acceptD:
  assumes "image_accept upd hdr img = Some (h, z)"
  shows "z = blit 20 [0, 0, 0, 0] img" "hdr_slots h = hdr_slots hdr"
    "slot_field_ok (hdr_slots h) (sh_active_slot h)" "slot_field_ok (hdr_slots h) (sh_staged_slot h)"
    "slot_field_ok (hdr_slots h) (sh_prev_active h)" "sh_occupied h AND NOT (mask (hdr_slots h)) = 0"
    "upd 0 z = sh_crc32 h"
  using assms by (auto simp: image_accept_def Let_def hdr_slots_def split: if_split_asm)

lemma slot_field_ok_mono: "slot_field_ok m x \<Longrightarrow> m \<le> n \<Longrightarrow> slot_field_ok n x"
  by (auto simp: slot_field_ok_def)

lemma occ_mono: "(w :: u8) AND NOT (mask m) = 0 \<Longrightarrow> m \<le> n \<Longrightarrow> w AND NOT (mask n) = 0"
  unfolding occ_mask by (meson order_less_le_trans)

lemma fresh_wf:
  "layout_sound (se_max e) (se_port e) lay \<Longrightarrow> se_max e \<le> 8 \<Longrightarrow>
   store_wf e ((fresh_store (se_max e) lay)\<lparr>so_wear := [a, b]\<rparr>)"
  by (simp add: store_wf_def fresh_store_def slot_field_ok_def zero_info_ok)

context flash_reliable
begin

lemma copy_loadD:
  assumes "copy_load upd mx port lay c f = Some (h, z)" "dev_ok f"
  shows "2 \<le> hdr_slots h \<and> hdr_slots h \<le> mx \<and> hdr_slots h \<le> lo_slot_count lay \<and> length z = img_size (hdr_slots h) \<and>
    slot_field_ok (hdr_slots h) (sh_active_slot h) \<and> slot_field_ok (hdr_slots h) (sh_staged_slot h) \<and>
    slot_field_ok (hdr_slots h) (sh_prev_active h) \<and> sh_occupied h AND NOT (mask (hdr_slots h)) = 0"
proof -
  let ?off = "lo_registry_off lay ! c"
  obtain b where b: "syn_flash_read port ?off 24 f = Ok b"
    and m: "\<not> (hdr_slots (hdr_of_bytes b) < 2 \<or> hdr_slots (hdr_of_bytes b) > mx \<or> hdr_slots (hdr_of_bytes b) > lo_slot_count lay)"
    and r: "(case syn_flash_read port ?off (img_size (hdr_slots (hdr_of_bytes b))) f of
                     Inl _ \<Rightarrow> None | Inr img \<Rightarrow> image_accept upd (hdr_of_bytes b) img) = Some (h, z)"
    using assms(1) unfolding copy_load_def Let_def
    by (simp split: sum.split_asm bool.split_asm if_split_asm)
  let ?n = "hdr_slots (hdr_of_bytes b)"
  obtain img where i: "syn_flash_read port ?off (img_size ?n) f = Ok img" "image_accept upd (hdr_of_bytes b) img = Some (h, z)"
    using r by (auto split: sum.split_asm)
  have "length img = img_size ?n"
    using i(1) assms(2) content_length [OF assms(2)] by (auto simp: read_eq split: if_split_asm)
  moreover have "24 \<le> img_size ?n" by (simp add: img_size_def)
  ultimately show ?thesis using image_acceptD [OF i(2)] m by simp
qed

lemma adopted_wf:
  assumes L: "copy_load (se_upd e) (se_max e) port lay c f = Some (h, z)" and ok: "dev_ok f" and p: "se_port e = port"
    and lay: "layout_sound (se_max e) port lay" "se_max e \<le> 8" and c: "c < 2" and v: "length v = 2" "length w = 2"
  shows "store_wf e ((fresh_store (se_max e) lay)\<lparr>so_wear := w, so_valid := v, so_newest := c, so_gen := g,
     so_active := sh_active_slot h, so_prev := sh_prev_active h, so_staged := sh_staged_slot h, so_occ := sh_occupied h,
     so_rec := unpack_recs z (hdr_slots h) (replicate (se_max e) zero_info)\<rparr>)"
proof -
  note D = copy_loadD [OF L ok]
  have n: "hdr_slots h \<le> length (replicate (se_max e) zero_info)" using D by simp
  note U = unpack_recs_spec [OF n, of z]
  have "info_ok (info_of_bytes (slice (24 + s * 88) 88 z))" if "s < hdr_slots h" for s
    using D that by (intro get_bytes_info_ok length_slice) (simp add: img_size_def)
  then show ?thesis using D U lay p c v zero_info_ok
    by (auto simp: store_wf_def fresh_store_def intro: slot_field_ok_mono occ_mono)
qed

lemma scan_sound:
  assumes ok: "dev_ok f" and p: "se_port e = port" and lay: "layout_sound (se_max e) port lay" "se_max e \<le> 8"
  shows "store_wf e (scan_copies e lay f) \<and> synced e f (scan_copies e lay f) \<and> so_lay (scan_copies e lay f) = lay"
proof -
  let ?ld = "\<lambda>c. copy_load (se_upd e) (se_max e) port lay c f"
  let ?h = "\<lambda>c. map_option fst (?ld c)"
  let ?w = "map (\<lambda>h. case h of None \<Rightarrow> 0 | Some hx \<Rightarrow> sh_wear hx) [?h 0, ?h 1]"
  show ?thesis
  proof (cases "pick_newest (?h 0) (?h 1)")
    case None
    then have n: "?ld 0 = None" "?ld 1 = None" by (auto simp: pick_newest_def split: option.split_asm)
    then have "scan_copies e lay f = (fresh_store (se_max e) lay)\<lparr>so_wear := [0, 0]\<rparr>"
      using p by (simp add: scan_copies_def pick_newest_def)
    then show ?thesis using n fresh_wf [of e lay 0 0] lay p
      by (simp add: synced_def fresh_store_def load_copy_def pfields_def)
  next
    case (Some c)
    then have c: "c < 2" "?h c \<noteq> None" "[?h 0 \<noteq> None, ?h 1 \<noteq> None] ! c"
      by (auto simp: pick_newest_def split: option.split_asm if_split_asm)
    then obtain h z where L: "?ld c = Some (h, z)" by auto
    have sc: "scan_copies e lay f = (fresh_store (se_max e) lay)\<lparr>so_wear := ?w, so_valid := [?h 0 \<noteq> None, ?h 1 \<noteq> None],
       so_newest := c, so_gen := sh_generation h, so_active := sh_active_slot h, so_prev := sh_prev_active h,
       so_staged := sh_staged_slot h, so_occ := sh_occupied h,
       so_rec := unpack_recs z (hdr_slots h) (replicate (se_max e) zero_info)\<rparr>"
      using Some L p by (simp add: scan_copies_def Let_def fresh_store_def)
    have "persisted e c f (scan_copies e lay f)"
      using L p unfolding sc by (simp add: persisted_def load_copy_def fresh_store_def pfields_def)
    moreover have "so_valid (scan_copies e lay f) ! so_newest (scan_copies e lay f)" "so_newest (scan_copies e lay f) = c"
      using c(3) unfolding sc by simp_all
    ultimately have "synced e f (scan_copies e lay f)" by (simp add: synced_def)
    moreover have "store_wf e (scan_copies e lay f)" unfolding sc by (rule adopted_wf [OF L ok p lay c(1)]) simp_all
    moreover have "so_lay (scan_copies e lay f) = lay" unfolding sc by (simp add: fresh_store_def)
    ultimately show ?thesis by blast
  qed
qed

lemma resident_loop_keep: "sy_st (resident_loop e ns s) = sy_st s \<and> sy_flash (resident_loop e ns s) = sy_flash s"
proof (induction ns arbitrary: s)
  case (Cons n ns)
  have "sy_st (snd (ram_register e n s)) = sy_st s \<and> sy_flash (snd (ram_register e n s)) = sy_flash s"
    using ram_register_keep [OF surjective_pairing] by blast
  then show ?case using Cons by (simp add: Let_def)
qed simp

lemma init_sound:
  assumes p: "se_port e = port" and ok: "dev_ok (sy_flash s)" and b: "se_max e \<le> 8" "fp_size port < 2 ^ 32"
    and r: "syn_store_init e True (Some lay) s = (Ok (), s')"
  shows "store_sound e dev_ok s'" "sy_flash s' = sy_flash s" "so_lay (sy_st s') = lay"
    "pfields (sy_st s') = pfields (scan_copies e lay (sy_flash s))" "so_gen (sy_st s') = so_gen (scan_copies e lay (sy_flash s))"
proof -
  let ?st = "(scan_copies e lay (sy_flash s))\<lparr>so_ready := True\<rparr>"
  let ?s1 = "set_st ?st s"
  let ?s2 = "if so_active ?st \<noteq> SLOT_NONE then snd (ram_register e (so_active ?st) ?s1) else ?s1"
  let ?s3 = "resident_loop e [0..<lo_slot_count lay] ?s2"
  have v: "layout_validate (se_max e) port lay = Ok ()" and
    s': "s' = set_st ((sy_st ?s3)\<lparr>so_scan_us := se_us e\<rparr>) ?s3"
    using r p by (auto simp: syn_store_init_def Let_def set_st_def split: if_split_asm sum.split_asm)
  note S = scan_sound [OF ok p layout_validate_sound [OF v b(2)] b(1)]
  have "sy_st (snd (ram_register e n ?s1)) = ?st \<and> sy_flash (snd (ram_register e n ?s1)) = sy_flash s" for n
    using ram_register_keep [OF surjective_pairing, of e n ?s1] by (simp add: set_st_def)
  then have k: "sy_st ?s2 = ?st" "sy_flash ?s2 = sy_flash s" by (auto simp: set_st_def)
  have st': "sy_st s' = ?st\<lparr>so_scan_us := se_us e\<rparr>" "sy_flash s' = sy_flash s"
    using s' resident_loop_keep [of e "[0..<lo_slot_count lay]" ?s2] k by (simp_all add: set_st_def)
  show "sy_flash s' = sy_flash s" "so_lay (sy_st s') = lay" "pfields (sy_st s') = pfields (scan_copies e lay (sy_flash s))"
    "so_gen (sy_st s') = so_gen (scan_copies e lay (sy_flash s))"
    using st' S by (simp_all add: pfields_def)
  show "store_sound e dev_ok s'" unfolding store_sound_def st'
    using S ok by (auto simp: store_wf_def synced_def persisted_def pfields_def split: option.splits)
qed

end

context flash_reliable
begin

lemma apply_effect:
  assumes p: "se_port e = port" and geo: "geometry_ok port" and so: "store_sound e dev_ok s" and a: "op_args_ok op"
    and r: "store_apply e op s = (ok, s')"
  shows "store_sound e dev_ok s' \<and> so_lay (sy_st s') = so_lay (sy_st s) \<and>
    (\<exists>X. so_active (sy_st s) \<notin> X \<and> slots_kept content (so_lay (sy_st s)) X (sy_flash s) (sy_flash s')) \<and>
    (ok \<longrightarrow> so_gen (sy_st s') = so_gen (sy_st s) \<or> other_older e (sy_flash s') (sy_st s'))"
proof -
  have key: ?thesis if "op_effect e content dev_ok s r0 s' pf" "ok = is_ok r0" for r0 pf
    using that by (cases r0) (auto simp: op_effect_def)
  have same: ?thesis if "s' = s" using so that by (auto simp: slots_kept_def)
  show ?thesis
  proof (cases op)
    case (Begin_Staging n)
    obtain r0 s0 where 1: "syn_store_begin_staging e n s = (r0, s0)" by fastforce
    with r Begin_Staging have "ok = is_ok r0" "s0 = s'" by simp_all
    with begin_staging_effect [OF p so 1] show ?thesis by (elim disjE conjE) (rule same, simp, rule key, simp_all)
  next
    case (Mark_Staged n i)
    obtain r0 s0 where 1: "syn_store_mark_staged e n (Some i) s = (r0, s0)" by fastforce
    with r Mark_Staged have o: "ok = is_ok r0" "s0 = s'" by simp_all
    have "\<forall>nfo. Some i = Some nfo \<longrightarrow> info_ok nfo" using a Mark_Staged by simp
    from mark_staged_effect [OF p so this 1] o show ?thesis by (elim disjE conjE exE) (rule same, simp, rule key, simp_all)
  next
    case (Activate n)
    obtain r0 s0 where 1: "syn_store_activate e n s = (r0, s0)" by fastforce
    with r Activate have "ok = is_ok r0" "s0 = s'" by simp_all
    with activate_effect [OF p so 1] show ?thesis by (elim disjE conjE) (rule same, simp, rule key, simp_all)
  next
    case Rollback
    obtain r0 s0 where 1: "syn_store_rollback e s = (r0, s0)" by fastforce
    with r Rollback have "ok = is_ok r0" "s0 = s'" by simp_all
    with rollback_effect [OF p so 1] show ?thesis by (elim disjE conjE) (rule same, simp, rule key, simp_all)
  next
    case Clear_Staged
    obtain r0 s0 where 1: "syn_store_clear_staged e s = (r0, s0)" by fastforce
    with r Clear_Staged have "ok = is_ok r0" "s0 = s'" by simp_all
    with clear_staged_effect [OF p so 1] show ?thesis by (elim disjE conjE) (rule same, simp, rule key, simp_all)
  next
    case (Install i d)
    obtain r0 s0 where 1: "syn_store_install e (Some i) (Some d) s = (r0, s0)" by fastforce
    with r Install have o: "ok = is_ok r0" "s0 = s'" by simp_all
    have "info_ok i" "64 + length d < 2 ^ 32" using a Install by simp_all
    from install_effect [OF p so this(1) _ _ this(2) 1] geo o show ?thesis
      unfolding geometry_ok_def by blast
  qed
qed

lemma run_sound:
  assumes p: "se_port e = port" and geo: "geometry_ok port"
  shows "store_sound e dev_ok s \<Longrightarrow> (\<forall>(op, susp, us) \<in> set ops. op_args_ok op) \<Longrightarrow>
    store_sound e dev_ok (store_run e ops s) \<and> so_lay (sy_st (store_run e ops s)) = so_lay (sy_st s)"
proof (induction ops arbitrary: s)
  case (Cons x ops)
  obtain op susp us where x: "x = (op, susp, us)" by (cases x)
  obtain ok s1 where 1: "store_apply (env_at e susp us) op s = (ok, s1)" by fastforce
  have "store_sound e dev_ok s1 \<and> so_lay (sy_st s1) = so_lay (sy_st s)"
    using apply_effect [of "env_at e susp us" s op ok s1] p geo Cons.prems 1 x by simp
  then show ?case using Cons.IH [of s1] Cons.prems 1 x by simp
qed simp

end

end
