(* ===== verification/Store_Safety.thy ===== *)
theory Store_Safety
  imports Model_Store
begin

text \<open>
  The properties of the model store over whole histories: boot, any sequence of operations with
  any outcome, power cycle. The device is any port that satisfies \<open>flash_reliable\<close>; the witnesses
  use the RAM port.
\<close>

section \<open>Slot bookkeeping\<close>

text \<open>
  The active slot, the rollback pivot and the staged slot are occupied and pairwise different.
  The OTA engine evicts the slot it stages into, so \<open>mark_staged\<close> meets a free slot.
\<close>

definition slots_consistent :: "store \<Rightarrow> bool" where
  "slots_consistent st \<longleftrightarrow>
     (so_active st \<noteq> SLOT_NONE \<longrightarrow> bit (so_occ st) (so_active st)) \<and>
     (so_staged st \<noteq> SLOT_NONE \<longrightarrow> bit (so_occ st) (so_staged st) \<and> so_staged st \<noteq> so_active st) \<and>
     (so_prev st \<noteq> SLOT_NONE \<longrightarrow> bit (so_occ st) (so_prev st) \<and> so_prev st \<noteq> so_active st \<and>
        so_prev st \<noteq> so_staged st)"

fun op_disciplined :: "store \<Rightarrow> store_op \<Rightarrow> bool" where
  "op_disciplined st (Mark_Staged n i) = (\<not> bit (so_occ st) n)"
| "op_disciplined st _ = True"

fun run_disciplined :: "('f, 'h) senv \<Rightarrow> (store_op \<times> (nat \<Rightarrow> bool) \<times> u32) list \<Rightarrow> ('f, 'h) sys \<Rightarrow> bool" where
  "run_disciplined e [] s = True"
| "run_disciplined e ((op, susp, us) # ops) s =
     (op_disciplined (sy_st s) op \<and>
      run_disciplined e ops (snd (store_apply (env_at e susp us) op s)))"

lemma slots_consistent_pfields: "pfields st' = pfields st \<Longrightarrow> slots_consistent st' = slots_consistent st"
  by (simp add: pfields_def slots_consistent_def)

lemma slots_consistent_effect:
  assumes "op_effect e content dev_ok s r s' (a, p, g, w, recs)" and "slots_consistent (sy_st s)"
    and "\<And>st. so_active st = a \<Longrightarrow> so_prev st = p \<Longrightarrow> so_staged st = g \<Longrightarrow> so_occ st = w \<Longrightarrow> slots_consistent st"
  shows "slots_consistent (sy_st s')"
proof (cases "r = Ok ()")
  case True
  then have "pfields (sy_st s') = (a, p, g, w, recs)" using assms(1) by (simp add: op_effect_def)
  then show ?thesis by (intro assms(3)) (simp_all add: pfields_def)
next
  case False
  then have "pfields (sy_st s') = pfields (sy_st s)" using assms(1) by (simp add: op_effect_def)
  from slots_consistent_pfields [OF this] assms(2) show ?thesis by simp
qed

lemma rollback_not_staged:
  assumes "rollback_target st \<noteq> SLOT_NONE" "so_prev st \<noteq> SLOT_NONE \<longrightarrow> so_prev st \<noteq> so_staged st"
  shows "rollback_target st \<noteq> so_staged st"
proof -
  let ?f = "\<lambda>prev s. if bit (so_occ st) s \<and> s \<noteq> so_active st \<and> s \<noteq> so_staged st then s else prev"
  have "foldl ?f SLOT_NONE xs = SLOT_NONE \<or> foldl ?f SLOT_NONE xs \<noteq> so_staged st" for xs
    by (induction xs rule: rev_induct) auto
  then show ?thesis using assms unfolding rollback_target_def by (auto split: if_split_asm)
qed

section \<open>What a boot finds\<close>

text \<open>
  The slot table in a copy; whether that copy, in the place the next commit would write, is newer than
  the state of the running system; and what a boot has to come up with: that copy if it loads and
  is newer (a tie of generations is decided for copy 0), and otherwise the state of the running system.
\<close>

definition copy_fields :: "('f, 'h) senv \<Rightarrow> store_hdr \<Rightarrow> u8 list \<Rightarrow> nat \<times> nat \<times> nat \<times> u8 \<times> syn_model_info list" where
  "copy_fields e h z = (sh_active_slot h, sh_prev_active h, sh_staged_slot h, sh_occupied h,
     unpack_recs z (hdr_slots h) (replicate (se_max e) zero_info))"

definition newer_copy :: "store \<Rightarrow> store_hdr \<Rightarrow> bool" where
  "newer_copy st h \<longleftrightarrow> \<not> so_valid st ! so_newest st \<or> so_gen st < sh_generation h \<or>
     so_gen st = sh_generation h \<and> commit_target st = 0"

definition boot_state_ok :: "('f, 'h) senv \<Rightarrow> store \<Rightarrow> (store_hdr \<times> u8 list) option \<Rightarrow> store \<Rightarrow> bool" where
  "boot_state_ok e st other t \<longleftrightarrow>
     (case other of
        Some (h, z) \<Rightarrow> if newer_copy st h then pfields t = copy_fields e h z \<and> so_gen t = sh_generation h
                      else pfields t = pfields st \<and> so_gen t = so_gen st
      | None \<Rightarrow> pfields t = pfields st \<and> (so_valid st ! so_newest st \<longrightarrow> so_gen t = so_gen st))"

context flash_reliable
begin

lemma slot_lt8: "se_port e = port \<Longrightarrow> store_sound e dev_ok s \<Longrightarrow> n < lo_slot_count (so_lay (sy_st s)) \<Longrightarrow> n < 8"
  by (auto simp: store_sound_def store_wf_def layout_sound_def)

lemma begin_consistent:
  assumes p: "se_port e = port" and so: "store_sound e dev_ok s" and c: "slots_consistent (sy_st s)"
    and r: "syn_store_begin_staging e n s = (r0, s0)"
  shows "slots_consistent (sy_st s0)"
  using begin_staging_effect [OF p so r]
proof (elim disjE conjE)
  assume o: "op_effect e content dev_ok s r0 s0 (so_active (sy_st s),
    if so_prev (sy_st s) = n then SLOT_NONE else so_prev (sy_st s),
    if so_staged (sy_st s) = n then SLOT_NONE else so_staged (sy_st s),
    unset_bit n (so_occ (sy_st s)), so_rec (sy_st s))" "r0 = Ok () \<longrightarrow> n < lo_slot_count (so_lay (sy_st s)) \<and> n \<noteq> so_active (sy_st s)"
  show ?thesis
  proof (cases "r0 = Ok ()")
    case True
    then have n: "n \<noteq> so_active (sy_st s)" using o(2) by simp
    show ?thesis
      by (rule slots_consistent_effect [OF o(1) c]) (use c n in \<open>auto simp: slots_consistent_def bit_simps\<close>)
  next
    case False
    then have "pfields (sy_st s0) = pfields (sy_st s)" using o(1) by (simp add: op_effect_def)
    from slots_consistent_pfields [OF this] c show ?thesis by simp
  qed
qed (use c in simp)

lemma install_consistent:
  assumes p: "se_port e = port" and geo: "geometry_ok port" and so: "store_sound e dev_ok s" and nfo: "info_ok nfo"
    and src: "64 + length src < 2 ^ 32" and c: "slots_consistent (sy_st s)"
    and r: "syn_store_install e (Some nfo) (Some src) s = (r, s')"
  shows "slots_consistent (sy_st s')"
proof -
  have m: "(64 + length src) mod 2 ^ 32 = 64 + length src" using src by (rule mod_less)
  have g: "fp_page_size port dvd fp_sector_size port" "fp_size port \<le> 2 ^ 31" using geo by (simp_all add: geometry_ok_def)
  have com: "slots_consistent (sy_st s3)"
    if b: "syn_store_begin_staging e slot s = (Ok (), s1)" and t: "(64 + length src) mod 2 ^ 32 \<le> lo_slot_size (so_lay (sy_st s))"
      and w: "slot_write (se_port e) (lo_slot_off (so_lay (sy_st s)) ! slot) ((64 + length src) mod 2 ^ 32)
         (synm_hdr_bytes (mi_name nfo) (of_nat (length src)) (se_crc e src) (mi_input_shape nfo) (mi_output_shape nfo))
         src (sy_flash s1) = (r2, f1)"
      and cm: "commit_or_undo e
            (\<lambda>st. st\<lparr>so_rec := (so_rec st)[slot := install_rec e (so_lay (sy_st s)) slot nfo src],
               so_occ := set_bit slot (so_occ st),
               so_staged := (if so_staged st = slot then SLOT_NONE else so_staged st),
               so_active := slot,
               so_prev := (if so_active st \<noteq> slot then so_active st else so_prev st)\<rparr>)
            (\<lambda>st. st\<lparr>so_rec := (so_rec st)[slot := so_rec (sy_st s1) ! slot],
               so_occ := so_occ (sy_st s1), so_staged := so_staged (sy_st s1),
               so_active := so_active (sy_st s1), so_prev := so_prev (sy_st s1)\<rparr>) (s1\<lparr>sy_flash := f1\<rparr>) = (r3, s3)"
    for slot s1 r2 f1 r3 s3
  proof -
    note B = begin_staging_sound [OF p so b]
    have sl: "slot < lo_slot_count (so_lay (sy_st s1))" "slot \<noteq> so_active (sy_st s1)" using B(2,4,5) by simp_all
    have c1: "slots_consistent (sy_st s1)" by (rule begin_consistent [OF p so c b])
    have S: "store_sound e dev_ok (s1\<lparr>sy_flash := f1\<rparr>)"
      using slot_write_sound(1) [OF p B(1) sl(1) g _ length_synm_hdr_bytes [OF nfo]] w t p B(2) m by simp
    have st2: "sy_st (s1\<lparr>sy_flash := f1\<rparr>) = sy_st s1" by simp
    have E: "op_effect e content dev_ok (s1\<lparr>sy_flash := f1\<rparr>) r3 s3 (slot, so_active (sy_st s1),
      if so_staged (sy_st s1) = slot then SLOT_NONE else so_staged (sy_st s1), set_bit slot (so_occ (sy_st s1)),
      (so_rec (sy_st s1))[slot := install_rec e (so_lay (sy_st s)) slot nfo src])"
      by (rule install_commit_sound [OF p S nfo, where slot = slot, unfolded st2, OF sl cm])
    show ?thesis
      by (rule slots_consistent_effect [OF E])
        (use c1 sl slot_lt8 [OF p B(1) sl(1)] in \<open>auto simp: slots_consistent_def bit_simps\<close>)
  qed
  show ?thesis using install_unfold [OF r]
  proof (elim disjE exE conjE)
    fix slot r1 s1 er assume "syn_store_begin_staging e slot s = (r1, s1)" "s' = s1"
    then show ?thesis using begin_consistent [OF p so c] by simp
  next
    fix slot r1 s1 r2 f1 assume "syn_store_begin_staging e slot s = (r1, s1)" "s' = s1\<lparr>sy_flash := f1\<rparr>"
    then show ?thesis using begin_consistent [OF p so c] by simp
  next
    fix slot r1 s1 r2 f1 r3 s3
    assume "r1 = Ok ()" "syn_store_begin_staging e slot s = (r1, s1)" "s' = s3"
      "(64 + length src) mod 2 ^ 32 \<le> lo_slot_size (so_lay (sy_st s))"
      "slot_write (se_port e) (lo_slot_off (so_lay (sy_st s)) ! slot) ((64 + length src) mod 2 ^ 32)
         (synm_hdr_bytes (mi_name nfo) (of_nat (length src)) (se_crc e src) (mi_input_shape nfo) (mi_output_shape nfo))
         src (sy_flash s1) = (r2, f1)"
      "commit_or_undo e
            (\<lambda>st. st\<lparr>so_rec := (so_rec st)[slot := install_rec e (so_lay (sy_st s)) slot nfo src],
               so_occ := set_bit slot (so_occ st),
               so_staged := (if so_staged st = slot then SLOT_NONE else so_staged st),
               so_active := slot,
               so_prev := (if so_active st \<noteq> slot then so_active st else so_prev st)\<rparr>)
            (\<lambda>st. st\<lparr>so_rec := (so_rec st)[slot := so_rec (sy_st s1) ! slot],
               so_occ := so_occ (sy_st s1), so_staged := so_staged (sy_st s1),
               so_active := so_active (sy_st s1), so_prev := so_prev (sy_st s1)\<rparr>) (s1\<lparr>sy_flash := f1\<rparr>) = (r3, s3)"
    then show ?thesis using com by simp
  next
    fix slot r1 s1 r2 f1 r3 s3
    assume "r1 = Ok ()" "syn_store_begin_staging e slot s = (r1, s1)" "ram_register e slot s3 = (r, s')"
      "(64 + length src) mod 2 ^ 32 \<le> lo_slot_size (so_lay (sy_st s))"
      "slot_write (se_port e) (lo_slot_off (so_lay (sy_st s)) ! slot) ((64 + length src) mod 2 ^ 32)
         (synm_hdr_bytes (mi_name nfo) (of_nat (length src)) (se_crc e src) (mi_input_shape nfo) (mi_output_shape nfo))
         src (sy_flash s1) = (r2, f1)"
      "commit_or_undo e
            (\<lambda>st. st\<lparr>so_rec := (so_rec st)[slot := install_rec e (so_lay (sy_st s)) slot nfo src],
               so_occ := set_bit slot (so_occ st),
               so_staged := (if so_staged st = slot then SLOT_NONE else so_staged st),
               so_active := slot,
               so_prev := (if so_active st \<noteq> slot then so_active st else so_prev st)\<rparr>)
            (\<lambda>st. st\<lparr>so_rec := (so_rec st)[slot := so_rec (sy_st s1) ! slot],
               so_occ := so_occ (sy_st s1), so_staged := so_staged (sy_st s1),
               so_active := so_active (sy_st s1), so_prev := so_prev (sy_st s1)\<rparr>) (s1\<lparr>sy_flash := f1\<rparr>) = (r3, s3)"
    then show ?thesis using com ram_register_keep [of e slot s3 r s'] by simp
  qed (use c in simp)
qed

lemma consistent_step:
  assumes p: "se_port e = port" and geo: "geometry_ok port" and so: "store_sound e dev_ok s" and a: "op_args_ok op"
    and c: "slots_consistent (sy_st s)" and d: "op_disciplined (sy_st s) op"
    and r: "store_apply e op s = (ok, s')"
  shows "slots_consistent (sy_st s')"
proof -
  have lt: "n < lo_slot_count (so_lay (sy_st s)) \<Longrightarrow> n \<noteq> SLOT_NONE" for n
    using so p by (auto simp: store_sound_def store_wf_def layout_sound_def)
  show ?thesis
  proof (cases op)
    case (Begin_Staging n)
    obtain r0 s0 where 1: "syn_store_begin_staging e n s = (r0, s0)" by fastforce
    with r Begin_Staging have s0: "s0 = s'" by simp
    then show ?thesis using begin_consistent [OF p so c 1] by simp
  next
    case (Mark_Staged n i)
    obtain r0 s0 where 1: "syn_store_mark_staged e n (Some i) s = (r0, s0)" by fastforce
    with r Mark_Staged have s0: "s0 = s'" by simp
    have i: "\<forall>nfo. Some i = Some nfo \<longrightarrow> info_ok nfo" and f: "\<not> bit (so_occ (sy_st s)) n" using a d Mark_Staged by simp_all
    note bl = slot_lt8 [OF p so]
    from mark_staged_effect [OF p so i 1] show ?thesis unfolding s0 [symmetric]
    proof (elim disjE conjE exE)
      fix nfo assume o: "op_effect e content dev_ok s r0 s0 (so_active (sy_st s), so_prev (sy_st s), n,
        set_bit n (so_occ (sy_st s)), (so_rec (sy_st s))[n := nfo])" "n \<noteq> so_active (sy_st s)" "n < lo_slot_count (so_lay (sy_st s))"
      show "slots_consistent (sy_st s0)"
        by (rule slots_consistent_effect [OF o(1) c])
          (use c o(2) f bl [OF o(3)] in \<open>auto simp: slots_consistent_def bit_simps\<close>)
    qed (use c in simp)
  next
    case (Activate n)
    obtain r0 s0 where 1: "syn_store_activate e n s = (r0, s0)" by fastforce
    with r Activate have s0: "s0 = s'" by simp
    from activate_effect [OF p so 1] show ?thesis unfolding s0 [symmetric]
    proof (elim disjE conjE)
      assume o: "op_effect e content dev_ok s r0 s0 (n, so_active (sy_st s),
        if so_staged (sy_st s) = n then SLOT_NONE else so_staged (sy_st s), so_occ (sy_st s), so_rec (sy_st s))"
        "n \<noteq> so_active (sy_st s)" "bit (so_occ (sy_st s)) n"
      show "slots_consistent (sy_st s0)"
        by (rule slots_consistent_effect [OF o(1) c]) (use c o(2,3) in \<open>auto simp: slots_consistent_def\<close>)
    qed (use c in simp)
  next
    case Rollback
    obtain r0 s0 where 1: "syn_store_rollback e s = (r0, s0)" by fastforce
    with r Rollback have s0: "s0 = s'" by simp
    from rollback_effect [OF p so 1] show ?thesis unfolding s0 [symmetric]
    proof (elim disjE conjE)
      assume o: "op_effect e content dev_ok s r0 s0 (rollback_target (sy_st s), so_active (sy_st s), so_staged (sy_st s),
        so_occ (sy_st s), so_rec (sy_st s))" "rollback_target (sy_st s) \<noteq> so_active (sy_st s)"
        "bit (so_occ (sy_st s)) (rollback_target (sy_st s))" "rollback_target (sy_st s) < lo_slot_count (so_lay (sy_st s))"
      have "rollback_target (sy_st s) \<noteq> so_staged (sy_st s)"
        using rollback_not_staged [of "sy_st s"] c lt [OF o(4)] by (auto simp: slots_consistent_def)
      then show "slots_consistent (sy_st s0)"
        by (intro slots_consistent_effect [OF o(1) c]) (use c o(2,3) in \<open>auto simp: slots_consistent_def\<close>)
    qed (use c in simp)
  next
    case Clear_Staged
    obtain r0 s0 where 1: "syn_store_clear_staged e s = (r0, s0)" by fastforce
    with r Clear_Staged have s0: "s0 = s'" by simp
    from clear_staged_effect [OF p so 1] show ?thesis unfolding s0 [symmetric]
    proof (elim disjE conjE)
      assume o: "op_effect e content dev_ok s r0 s0 (so_active (sy_st s), so_prev (sy_st s), SLOT_NONE,
        unset_bit (so_staged (sy_st s)) (so_occ (sy_st s)), so_rec (sy_st s))" "so_staged (sy_st s) \<noteq> SLOT_NONE"
      show "slots_consistent (sy_st s0)"
        by (rule slots_consistent_effect [OF o(1) c]) (use c o(2) in \<open>auto simp: slots_consistent_def bit_simps\<close>)
    qed (use c in simp)
  next
    case (Install i d)
    obtain r0 s0 where 1: "syn_store_install e (Some i) (Some d) s = (r0, s0)" by fastforce
    with r Install have s0: "s0 = s'" by simp
    have "info_ok i" "64 + length d < 2 ^ 32" using a Install by simp_all
    from install_consistent [OF p geo so this c 1] s0 show ?thesis by simp
  qed
qed

lemma run_consistent:
  assumes p: "se_port e = port" and geo: "geometry_ok port"
  shows "store_sound e dev_ok s \<Longrightarrow> slots_consistent (sy_st s) \<Longrightarrow>
    (\<forall>(op, susp, us) \<in> set ops. op_args_ok op) \<Longrightarrow> run_disciplined e ops s \<Longrightarrow>
    slots_consistent (sy_st (store_run e ops s))"
proof (induction ops arbitrary: s)
  case (Cons x ops)
  obtain op susp us where x: "x = (op, susp, us)" by (cases x)
  obtain ok s1 where 1: "store_apply (env_at e susp us) op s = (ok, s1)" by fastforce
  have so: "store_sound (env_at e susp us) dev_ok s" and a: "op_args_ok op" and d: "op_disciplined (sy_st s) op"
    and p': "se_port (env_at e susp us) = port"
    using Cons.prems x p by simp_all
  have "store_sound e dev_ok s1" using apply_effect [OF p' geo so a 1] by simp
  moreover have "slots_consistent (sy_st s1)" by (rule consistent_step [OF p' geo so a Cons.prems(2) d 1])
  ultimately show ?case using Cons.IH [of s1] Cons.prems 1 x by simp
qed simp

text \<open>The outcome of a boot on the flash of a sound state.\<close>

lemma reboot_outcome:
  assumes so: "store_sound e dev_ok s" and p: "se_port e = port"
  shows "boot_state_ok e (sy_st s) (load_copy e (so_lay (sy_st s)) (commit_target (sy_st s)) (sy_flash s))
    (scan_copies e (so_lay (sy_st s)) (sy_flash s))"
proof -
  let ?st = "sy_st s" let ?sc = "scan_copies e (so_lay ?st) (sy_flash s)"
  let ?ld = "\<lambda>c. load_copy e (so_lay ?st) c (sy_flash s)" and ?t = "commit_target (sy_st s)"
  have sy: "synced e (sy_flash s) ?st" and n: "so_newest ?st < 2"
    using so by (simp_all add: store_sound_def store_wf_def)
  have ad: "pfields ?sc = copy_fields e h z \<and> so_gen ?sc = sh_generation h"
    if "pick_newest (map_option fst (?ld 0)) (map_option fst (?ld 1)) = Some c" "?ld c = Some (h, z)" for c h z
    using that by (simp add: scan_copies_def Let_def load_copy_def fresh_store_def pfields_def copy_fields_def)
  show ?thesis
  proof (cases "so_valid ?st ! so_newest ?st")
    case True
    then obtain hn zn where N: "?ld (so_newest ?st) = Some (hn, zn)" "sh_generation hn = so_gen ?st" "pfields ?st = copy_fields e hn zn"
      using sy by (auto simp: synced_def persisted_def copy_fields_def split: option.split_asm prod.split_asm)
    have t: "?t = 1 - so_newest ?st" using True by (simp add: commit_target_def)
    consider "so_newest ?st = 0" "?t = 1" | "so_newest ?st = 1" "?t = 0" using n t by (auto simp: less_2_cases_iff)
    then have pk: "pick_newest (map_option fst (?ld 0)) (map_option fst (?ld 1)) =
        Some (case ?ld ?t of None \<Rightarrow> so_newest ?st | Some (h, z) \<Rightarrow> if newer_copy ?st h then ?t else so_newest ?st)"
      by cases (use N True in \<open>auto simp: pick_newest_def newer_copy_def not_less split: option.split\<close>)
    show ?thesis
    proof (cases "?ld ?t")
      case None
      then show ?thesis using ad [OF _ N(1)] pk N by (simp add: boot_state_ok_def)
    next
      case (Some hz)
      then show ?thesis using ad [OF pk] pk N by (cases hz) (auto simp: boot_state_ok_def)
    qed
  next
    case False
    then have s0: "?t = 0" "?ld 1 = None" "pfields ?st = pfields (fresh_store (se_max e) (so_lay ?st))"
      using sy by (simp_all add: commit_target_def synced_def)
    show ?thesis
    proof (cases "?ld 0")
      case None
      then have "?sc = (fresh_store (se_max e) (so_lay ?st))\<lparr>so_wear := [0, 0]\<rparr>"
        using s0 by (simp add: scan_copies_def load_copy_def pick_newest_def Let_def)
      then show ?thesis using None s0 False by (simp add: boot_state_ok_def pfields_def fresh_store_def)
    next
      case (Some hz)
      then have "pick_newest (map_option fst (?ld 0)) (map_option fst (?ld 1)) = Some 0" using s0 by (simp add: pick_newest_def)
      then show ?thesis using ad [of 0] Some s0(1) False by (cases hz) (simp add: boot_state_ok_def newer_copy_def)
    qed
  qed
qed

end

section \<open>A commit on a healthy device completes\<close>

lemma ram_commit_completes:
  assumes p: "se_port e = ram_port mem_addr sz sector page" and pos: "0 < sector" "0 < page" "page dvd sector"
    and wf: "store_wf e (sy_st s)" and mem: "length (fr_mem (sy_flash s)) = sz" "fr_fail_after (sy_flash s) = 0"
  shows "fst (commit e s) = Ok ()"
proof -
  let ?p = "ram_port mem_addr sz sector page"
  let ?st = "sy_st s" let ?lay = "so_lay ?st" and ?c = "commit_target (sy_st s)"
  let ?off = "lo_registry_off ?lay ! ?c" and ?n = "lo_slot_count ?lay"
  let ?h = "state_hdr ?st (so_gen ?st + 1) (so_wear ?st ! ?c + 1)"
  have dev: "ram_dev mem_addr sz sector page = ?p" by (rule ram_dev_eq [OF pos(1,2)])
  have c: "?c < 2" using wf by (auto simp: commit_target_def store_wf_def)
  have lay: "layout_sound (se_max e) ?p ?lay" "se_max e \<le> 8" using wf p by (simp_all add: store_wf_def)
  note R = registry_region [OF lay(1) c]
  note Z = ram_rel.registry_sizes [where mem_addr = mem_addr and sector = sector and page = page and sz = sz, unfolded dev, OF lay]
  have rs: "lo_registry_size ?lay mod sector = 0"
    using lay(1) layout_region_nth(1) [OF c, of ?lay] c unfolding layout_sound_def region_ok_def
    by (auto dest!: spec [of _ ?c])
  obtain img len where b: "image_build (se_upd e) page ?h (so_rec ?st) = (img, len)" by fastforce
  have H: "built_hdr_ok ?h" "\<forall>i < sh_slot_count ?h. info_ok (so_rec ?st ! i)"
    using store_wf_state_hdr [OF wf, of "so_gen ?st + 1" "so_wear ?st ! ?c + 1"] by (auto simp: state_hdr_def)
  note B = image_build_spec(1,2) [OF H b]
  have hn: "sh_slot_count ?h = ?n" by (simp add: state_hdr_def)
  have n8: "2 \<le> ?n" "?n \<le> 8" "page \<le> 256" using lay by (simp_all add: layout_sound_def)
  then have isz: "24 < img_size ?n" "img_size ?n \<le> 728" by (simp_all add: img_size_def)
  have len: "img_size ?n \<le> len" "len \<le> lo_registry_size ?lay" "len mod page = 0" "len < img_size ?n + page"
    using B(2) hn Z(3) round_up_ge [of page "img_size ?n"] round_up_le [of page "img_size ?n"] pos(2) n8 isz by simp_all
  have ll: "length (slice 0 len img) = len" using B(1) len n8 isz by simp
  obtain r1 f1 where e1: "syn_flash_erase ?p ?off (lo_registry_size ?lay) (sy_flash s) = (r1, f1)" by fastforce
  have r1: "r1 = Ok ()" and f1: "fr_fail_after f1 = 0"
    using e1 R rs len isz mem(2) by (auto simp: syn_flash_erase_def check_range_def ram_erase_def split: if_split_asm)
  note E = ram.erase_spec [where mem_addr = mem_addr and sector = sector and page = page and sz = sz, unfolded dev, OF mem(1) e1]
  have blank: "slice ?off len (fr_mem f1) = replicate len 0xFF"
    using E(3) r1 len(2) slice_slice [of 0 len "lo_registry_size ?lay" ?off "fr_mem f1"]
    by (simp add: slice_def min_def)
  obtain r2 f2 where e2: "syn_flash_write ?p ?off (slice 0 len img) f1 = (r2, f2)" by fastforce
  have al: "?off mod page = 0" using R(2) pos(3) by (simp add: mod_eq_0_iff_dvd) (meson dvd_trans)
  have dv: "len div page * page = len" using len(3) by auto
  have "fst (ram_write_pages page ?off (slice 0 len img) (len div page) f1) = Ok ()"
    using ll dv f1 blank R(1) len(2) E(1) by (intro ram_write_blank) simp_all
  then have r2: "r2 = Ok ()"
    using e2 ll al len R(1) isz by (auto simp: syn_flash_write_def check_range_def ram_write_def split: if_split_asm)
  note W = ram.write_spec [where mem_addr = mem_addr and sector = sector and page = page and sz = sz, unfolded dev, OF E(1) e2]
  have sl: "slice ?off len (fr_mem f2) = slice 0 len img" using W(3) r2 ll by simp
  have "verify_loop ?p ?off img (img_size ?n) 0 f2 = Ok ()"
  proof (rule verify_loop_Ok)
    fix a n assume a: "?off \<le> a" "0 < n" "a + n \<le> ?off + img_size ?n"
    then have "slice a n (fr_mem f2) = slice (a - ?off) n (slice ?off len (fr_mem f2))"
      using len(1) by (subst slice_slice) simp_all
    also have "\<dots> = slice (a - ?off) n img" unfolding sl using a len(1) by (subst slice_slice) simp_all
    finally show "syn_flash_read ?p a n f2 = Ok (slice (a - ?off) n img)"
      using a R(1) len by (simp add: syn_flash_read_def check_range_def ram_read_def)
  qed simp
  then show ?thesis using p b e1 e2 r1 r2 by (simp add: commit_def copy_commit_def Let_def)
qed

lemma ram_ops_health:
  "fr_fail_after c = 0 \<Longrightarrow> fr_fail_after (snd (ram_write_pages page off src n c)) = 0"
  "fr_fail_after c = 0 \<Longrightarrow> fr_fail_after (snd (ram_erase sector off len c)) = 0"
proof (induction n arbitrary: off src c)
  case (Suc n) case 1 then show ?case using Suc.IH(1) by (simp add: Let_def)
qed (simp_all add: ram_erase_def)

lemma ram_commit_health:
  assumes "se_port e = ram_port mem_addr sz sector page" "fr_fail_after (sy_flash s) = 0"
  shows "fr_fail_after (sy_flash (snd (commit e s))) = 0"
proof -
  let ?p = "ram_port mem_addr sz sector page"
  have E: "fr_fail_after (snd (syn_flash_erase ?p off len f)) = 0" if "fr_fail_after f = 0" for off len f
    using that ram_ops_health(2) [OF that] by (auto simp: syn_flash_erase_def split: sum.splits)
  have W: "fr_fail_after (snd (syn_flash_write ?p off bs f)) = 0" if "fr_fail_after f = 0" for off bs f
    using that ram_ops_health(1) [OF that] by (auto simp: syn_flash_write_def ram_write_def split: sum.splits)
  show ?thesis
    using E [OF assms(2)] W assms(1)
    by (auto simp: commit_def copy_commit_def Let_def split: prod.splits sum.splits) (metis snd_conv)+
qed

lemma ram_commit_or_undo_completes:
  assumes "se_port e = ram_port mem_addr sz sector page" "0 < sector" "0 < page" "page dvd sector"
    and "store_wf e (u (sy_st s))" "length (fr_mem (sy_flash s)) = sz" "fr_fail_after (sy_flash s) = 0"
  shows "fst (commit_or_undo e u d s) = Ok ()" "fr_fail_after (sy_flash (snd (commit_or_undo e u d s))) = 0"
proof -
  let ?s = "set_st (u (sy_st s)) s"
  obtain r s1 where c: "commit e ?s = (r, s1)" by fastforce
  have "fst (commit e ?s) = Ok ()" by (rule ram_commit_completes [OF assms(1-4)]) (simp_all add: set_st_def assms(5-7))
  moreover have "fr_fail_after (sy_flash (snd (commit e ?s))) = 0"
    by (rule ram_commit_health [OF assms(1)]) (simp add: set_st_def assms(7))
  ultimately show "fst (commit_or_undo e u d s) = Ok ()" "fr_fail_after (sy_flash (snd (commit_or_undo e u d s))) = 0"
    using c by (simp_all add: commit_or_undo_def)
qed

lemma release_npu_free:
  assumes "\<And>h. \<not> se_susp e h"
  shows "is_ok (fst (release_npu e n s))"
proof -
  have "fst (syn_model_unload (se_ops e) (se_susp e) h g) = Ok ()" if "syn_model_is_loaded h g" for h g
    using that assms by (auto simp: syn_model_is_loaded_def syn_model_unload_def Let_def split: option.splits)
  then show ?thesis by (auto simp: release_npu_def split: option.splits prod.splits sum.splits) (metis fst_conv sum.distinct(1))+
qed

lemma ram_switch_completes:
  assumes "se_port e = ram_port mem_addr sz sector page" "0 < sector" "0 < page" "page dvd sector"
    and "store_wf e (u (sy_st s))" "length (fr_mem (sy_flash s)) = sz" "fr_fail_after (sy_flash s) = 0"
    and "\<And>h. \<not> se_susp e h"
  shows "fst (switch_active e n u d s) = Ok ()" "fr_fail_after (sy_flash (snd (switch_active e n u d s))) = 0"
proof -
  obtain held s1 where 1: "release_npu e (so_active (sy_st s)) s = (Ok held, s1)"
    using release_npu_free [of e "so_active (sy_st s)" s] assms(8)
    by (cases "release_npu e (so_active (sy_st s)) s") (auto simp: is_ok_iff)
  have k: "sy_st s1 = sy_st s" "sy_flash s1 = sy_flash s" using registry_ops_keep(4) [OF 1] by simp_all
  obtain r s2 where 2: "commit_or_undo e u d s1 = (r, s2)" by fastforce
  have "r = Ok ()" "fr_fail_after (sy_flash s2) = 0"
    using ram_commit_or_undo_completes [OF assms(1-4), of u s1 d] assms(5-7) k 2 by simp_all
  then show "fst (switch_active e n u d s) = Ok ()" "fr_fail_after (sy_flash (snd (switch_active e n u d s))) = 0"
    using 1 2 by (simp_all add: switch_active_def hand_over_keep)
qed

lemma ram_reliable: "0 < sector \<Longrightarrow> 0 < page \<Longrightarrow>
    flash_reliable (ram_port mem_addr sz sector page) fr_mem (\<lambda>c. length (fr_mem c) = sz)"
  using ram_rel.flash_reliable_axioms [of mem_addr sz sector page] by (simp add: ram_dev_eq)

text \<open>A healthy RAM device under a sound store.\<close>

definition healthy :: "(flash_ram, 'h) senv \<Rightarrow> nat \<Rightarrow> nat \<Rightarrow> nat \<Rightarrow> nat \<Rightarrow> (flash_ram, 'h) sys \<Rightarrow> bool" where
  "healthy e mem_addr sz sector page s \<longleftrightarrow> se_port e = ram_port mem_addr sz sector page \<and> 0 < sector \<and> 0 < page \<and>
     page dvd sector \<and> store_sound e (\<lambda>c. length (fr_mem c) = sz) s \<and> fr_fail_after (sy_flash s) = 0"

lemma healthyD:
  assumes "healthy e mem_addr sz sector page s"
  shows "se_port e = ram_port mem_addr sz sector page" "0 < sector" "0 < page" "page dvd sector"
    "store_sound e (\<lambda>c. length (fr_mem c) = sz) s" "fr_fail_after (sy_flash s) = 0"
    "flash_reliable (se_port e) fr_mem (\<lambda>c. length (fr_mem c) = sz)"
    "store_wf e (sy_st s)" "length (fr_mem (sy_flash s)) = sz" "so_ready (sy_st s)"
  using assms ram_reliable [of sector page mem_addr sz] by (simp_all add: healthy_def store_sound_def)

lemma healthy_mark_staged:
  assumes h: "healthy e mem_addr sz sector page s" and n: "slot < lo_slot_count (so_lay (sy_st s))" "slot \<noteq> so_active (sy_st s)"
    and i: "info_ok nfo"
  shows "\<exists>s'. syn_store_mark_staged e slot (Some nfo) s = (Ok (), s') \<and> healthy e mem_addr sz sector page s' \<and>
    op_effect e fr_mem (\<lambda>c. length (fr_mem c) = sz) s (Ok ()) s' (so_active (sy_st s), so_prev (sy_st s), slot,
      set_bit slot (so_occ (sy_st s)), (so_rec (sy_st s))[slot := nfo])"
proof -
  note H = healthyD [OF h]
  let ?st = "sy_st s"
  define u :: "store \<Rightarrow> store" where
    "u = (\<lambda>st. st\<lparr>so_rec := (so_rec st)[slot := nfo], so_occ := set_bit slot (so_occ st), so_staged := slot\<rparr>)"
  define d :: "store \<Rightarrow> store" where
    "d = (\<lambda>st1. st1\<lparr>so_rec := (so_rec st1)[slot := so_rec ?st ! slot], so_occ := so_occ ?st, so_staged := so_staged ?st\<rparr>)"
  obtain r s' where r: "syn_store_mark_staged e slot (Some nfo) s = (r, s')" by fastforce
  have c: "commit_or_undo e u d s = (r, s')"
    using r n H(10) unfolding syn_store_mark_staged_def Let_def u_def d_def by simp
  have i': "\<forall>x. Some nfo = Some x \<longrightarrow> info_ok x" using i by simp
  have rl: "length (so_rec ?st) = se_max e" "lo_slot_count (so_lay ?st) \<le> se_max e"
    using H(8) by (auto simp: store_wf_def layout_sound_def)
  have "(so_rec ?st)[slot := nfo] ! j = (if j = slot then nfo else so_rec ?st ! j)" for j
    using n rl by (simp add: nth_list_update)
  then have "store_wf e (u ?st)"
    using H(8) n i unfolding u_def store_wf_def by (auto simp: slot_field_ok_def occ_set_bit)
  note C = ram_commit_or_undo_completes [where u = u and d = d, OF H(1-4) this H(9,6), unfolded c]
  then have ok: "r = Ok ()" "fr_fail_after (sy_flash s') = 0" by simp_all
  obtain x where "op_effect e fr_mem (\<lambda>c. length (fr_mem c) = sz) s r s' (so_active ?st, so_prev ?st, slot,
      set_bit slot (so_occ ?st), (so_rec ?st)[slot := x])" "x = nfo"
    using flash_reliable.mark_staged_effect [OF H(7) refl H(5) i' r] ok(1) by auto
  then show ?thesis using r ok H(1-4) by (auto simp: healthy_def op_effect_def)
qed

text \<open>Evicting an occupied slot, and forgetting a staged one: both end with one commit.\<close>

lemma ram_unregister_free:
  assumes "\<And>h. \<not> se_susp e h"
  shows "fst (ram_unregister e slot s) = Ok ()"
proof -
  have "active_index (sy_reg s) h \<noteq> None" if "slot_handle (sy_st s) slot (sy_reg s) = Some h" for h
    using that by (auto simp: slot_handle_def syn_model_get_info_def split: sum.split_asm option.split_asm if_split_asm)
  then show ?thesis using assms
    by (auto simp: ram_unregister_def syn_model_unregister_def Let_def split: option.split prod.split)
qed

lemma healthy_clear_staged:
  assumes h: "healthy e mem_addr sz sector page s"
  shows "\<exists>s'. syn_store_clear_staged e s = (Ok (), s') \<and> healthy e mem_addr sz sector page s' \<and>
    so_lay (sy_st s') = so_lay (sy_st s) \<and> so_active (sy_st s') = so_active (sy_st s)"
proof (cases "so_staged (sy_st s) = SLOT_NONE")
  case True
  then show ?thesis using h healthyD(10) [OF h] by (simp add: syn_store_clear_staged_def)
next
  case False
  note H = healthyD [OF h]
  define u :: "store \<Rightarrow> store" where "u = (\<lambda>st. st\<lparr>so_occ := unset_bit (so_staged st) (so_occ st), so_staged := SLOT_NONE\<rparr>)"
  define d :: "store \<Rightarrow> store" where "d = (\<lambda>st1. st1\<lparr>so_occ := so_occ (sy_st s), so_staged := so_staged (sy_st s)\<rparr>)"
  obtain r s' where r: "syn_store_clear_staged e s = (r, s')" by fastforce
  have c: "commit_or_undo e u d s = (r, s')"
    using r False H(10) unfolding syn_store_clear_staged_def Let_def u_def d_def by simp
  have "store_wf e (u (sy_st s))" using H(8) unfolding u_def store_wf_def by (auto simp: slot_field_ok_def occ_unset_bit)
  note C = ram_commit_or_undo_completes [where u = u and d = d, OF H(1-4) this H(9,6), unfolded c]
  then have ok: "r = Ok ()" "fr_fail_after (sy_flash s') = 0" by simp_all
  then show ?thesis using flash_reliable.clear_staged_effect [OF H(7) refl H(5) r] False r h H(1-4)
    by (auto simp: healthy_def op_effect_def pfields_def)
qed

lemma healthy_begin_staging:
  assumes h: "healthy e mem_addr sz sector page s" and free: "\<And>h. \<not> se_susp e h"
    and n: "slot < lo_slot_count (so_lay (sy_st s))" "slot \<noteq> so_active (sy_st s)"
  shows "\<exists>s'. syn_store_begin_staging e slot s = (Ok (), s') \<and> healthy e mem_addr sz sector page s' \<and>
    so_lay (sy_st s') = so_lay (sy_st s) \<and> so_active (sy_st s') = so_active (sy_st s)"
proof (cases "bit (so_occ (sy_st s)) slot")
  case False
  then show ?thesis using n h healthyD(10) [OF h] by (simp add: syn_store_begin_staging_def Let_def)
next
  case True
  note H = healthyD [OF h]
  let ?st = "sy_st s"
  define u :: "store \<Rightarrow> store" where "u = (\<lambda>st. st\<lparr>so_occ := unset_bit slot (so_occ st),
      so_staged := (if so_staged st = slot then SLOT_NONE else so_staged st),
      so_prev := (if so_prev st = slot then SLOT_NONE else so_prev st)\<rparr>)"
  define d :: "store \<Rightarrow> store" where "d = (\<lambda>st1. st1\<lparr>so_occ := so_occ ?st, so_staged := so_staged ?st, so_prev := so_prev ?st\<rparr>)"
  obtain s1 where ru: "ram_unregister e slot s = (Ok (), s1)"
    using ram_unregister_free [of e slot s] free by (metis surjective_pairing)
  have k: "sy_st s1 = ?st" "sy_flash s1 = sy_flash s" using registry_ops_keep(1) [OF ru] by simp_all
  obtain r s' where r: "syn_store_begin_staging e slot s = (r, s')" by fastforce
  have c: "commit_or_undo e u d s1 = (r, s')"
    using r n True H(10) ru unfolding syn_store_begin_staging_def Let_def u_def d_def by simp
  have wf: "store_wf e (u (sy_st s1))" using H(8) n k unfolding u_def store_wf_def
    by (auto simp: slot_field_ok_def occ_unset_bit)
  have "fst (commit_or_undo e u d s1) = Ok ()" "fr_fail_after (sy_flash (snd (commit_or_undo e u d s1))) = 0"
    using ram_commit_or_undo_completes [where u = u and d = d, OF H(1-4) wf] H(6,9) k by simp_all
  then have ok: "r = Ok ()" "fr_fail_after (sy_flash s') = 0" using c by simp_all
  then show ?thesis using flash_reliable.begin_staging_effect [OF H(7) refl H(5) r] r h H(1-4)
    by (auto simp: healthy_def op_effect_def pfields_def)
qed

lemma healthy_activate:
  assumes h: "healthy e mem_addr sz sector page s" and n: "slot < lo_slot_count (so_lay (sy_st s))" "slot \<noteq> so_active (sy_st s)"
    and b: "bit (so_occ (sy_st s)) slot" and free: "\<And>h. \<not> se_susp e h"
  shows "\<exists>s'. syn_store_activate e slot s = (Ok (), s') \<and> healthy e mem_addr sz sector page s' \<and>
    op_effect e fr_mem (\<lambda>c. length (fr_mem c) = sz) s (Ok ()) s' (slot, so_active (sy_st s),
      if so_staged (sy_st s) = slot then SLOT_NONE else so_staged (sy_st s), so_occ (sy_st s), so_rec (sy_st s))"
proof -
  note H = healthyD [OF h]
  let ?st = "sy_st s"
  define u :: "store \<Rightarrow> store" where
    "u = (\<lambda>st. st\<lparr>so_active := slot, so_prev := so_active st,
              so_staged := (if so_staged st = slot then SLOT_NONE else so_staged st)\<rparr>)"
  define d :: "store \<Rightarrow> store" where
    "d = (\<lambda>st1. st1\<lparr>so_active := so_active ?st, so_staged := so_staged ?st, so_prev := so_prev ?st\<rparr>)"
  obtain r s' where r: "syn_store_activate e slot s = (r, s')" by fastforce
  have c: "switch_active e slot u d s = (r, s')"
    using r n b H(10) unfolding syn_store_activate_def Let_def u_def d_def by (simp del: if_split)
  have "store_wf e (u ?st)" using H(8) n unfolding u_def store_wf_def by (auto simp: slot_field_ok_def)
  note C = ram_switch_completes [where u = u and d = d and n = slot, OF H(1-4) this H(9,6) free, unfolded c]
  then have ok: "r = Ok ()" "fr_fail_after (sy_flash s') = 0" by simp_all
  have "op_effect e fr_mem (\<lambda>c. length (fr_mem c) = sz) s r s' (slot, so_active ?st,
      if so_staged ?st = slot then SLOT_NONE else so_staged ?st, so_occ ?st, so_rec ?st)"
    using flash_reliable.activate_effect [OF H(7) refl H(5) r] ok(1) by (elim disjE conjE) (simp, assumption)
  then show ?thesis using r ok H(1-4) by (auto simp: healthy_def op_effect_def)
qed

lemma healthy_rollback:
  assumes h: "healthy e mem_addr sz sector page s" and pv: "so_prev (sy_st s) \<noteq> SLOT_NONE"
    "so_prev (sy_st s) \<noteq> so_active (sy_st s)" "bit (so_occ (sy_st s)) (so_prev (sy_st s))" and free: "\<And>h. \<not> se_susp e h"
  shows "\<exists>s'. syn_store_rollback e s = (Ok (), s') \<and> healthy e mem_addr sz sector page s' \<and>
    op_effect e fr_mem (\<lambda>c. length (fr_mem c) = sz) s (Ok ()) s' (so_prev (sy_st s), so_active (sy_st s), so_staged (sy_st s),
      so_occ (sy_st s), so_rec (sy_st s))"
proof -
  note H = healthyD [OF h]
  let ?st = "sy_st s"
  have t: "rollback_target ?st = so_prev ?st" using pv by (simp add: rollback_target_def)
  define u :: "store \<Rightarrow> store" where "u = (\<lambda>st. st\<lparr>so_active := so_prev ?st, so_prev := so_active st\<rparr>)"
  define d :: "store \<Rightarrow> store" where
    "d = (\<lambda>st1. st1\<lparr>so_active := so_active ?st, so_prev := so_prev ?st\<rparr>)"
  obtain r s' where r: "syn_store_rollback e s = (r, s')" by fastforce
  have c: "switch_active e (so_prev ?st) u d s = (r, s')"
    using r pv H(10) unfolding syn_store_rollback_def Let_def u_def d_def t by simp
  have "store_wf e (u ?st)" using H(8) pv unfolding u_def store_wf_def by (auto simp: slot_field_ok_def)
  note C = ram_switch_completes [where u = u and d = d and n = "so_prev ?st", OF H(1-4) this H(9,6) free, unfolded c]
  then have ok: "r = Ok ()" "fr_fail_after (sy_flash s') = 0" by simp_all
  have "op_effect e fr_mem (\<lambda>c. length (fr_mem c) = sz) s r s' (so_prev ?st, so_active ?st, so_staged ?st, so_occ ?st, so_rec ?st)"
    using flash_reliable.rollback_effect [OF H(7) refl H(5) r] ok(1) unfolding t by (elim disjE conjE) (simp, assumption)
  then show ?thesis using r ok H(1-4) by (auto simp: healthy_def op_effect_def)
qed

section \<open>An install on a healthy device completes\<close>

text \<open>The CRC-32 of the Zephyr library is a running checksum: chunks compose.\<close>

definition crc_running :: "crc_upd \<Rightarrow> bool" where
  "crc_running upd \<longleftrightarrow> (\<forall>c. upd c [] = c) \<and> (\<forall>c a b. upd (upd c a) b = upd c (a @ b))"

context flash_reliable
begin

lemma payload_crc_ok:
  assumes "crc_running upd" "dev_ok f" "off + sz \<le> fp_size port"
  shows "pos \<le> sz \<Longrightarrow> payload_crc_loop upd port off sz pos crc f = Ok (upd crc (slice (off + pos) (sz - pos) (content f)))"
proof (induction "sz - pos" arbitrary: pos crc rule: less_induct)
  case less
  show ?case
  proof (cases "pos < sz")
    case True
    let ?n = "min 256 (sz - pos)"
    have r: "syn_flash_read port (off + pos) ?n f = Ok (slice (off + pos) ?n (content f))"
      using True assms(2,3) by (simp add: read_eq)
    have "payload_crc_loop upd port off sz pos crc f =
        payload_crc_loop upd port off sz (pos + ?n) (upd crc (slice (off + pos) ?n (content f))) f"
      using True r by (subst payload_crc_loop.simps) (simp add: Let_def)
    also have "\<dots> = Ok (upd (upd crc (slice (off + pos) ?n (content f))) (slice (off + (pos + ?n)) (sz - (pos + ?n)) (content f)))"
      using less.hyps [of "pos + ?n"] True by simp
    also have "\<dots> = Ok (upd crc (slice (off + pos) ?n (content f) @ slice (off + pos + ?n) (sz - pos - ?n) (content f)))"
      using assms(1) by (simp add: crc_running_def add.assoc)
    also have "slice (off + pos) ?n (content f) @ slice (off + pos + ?n) (sz - pos - ?n) (content f) =
        slice (off + pos) (sz - pos) (content f)"
      using slice_append [of "off + pos" ?n "sz - pos - ?n" "content f"] True by simp
    finally show ?thesis .
  next
    case False
    then show ?thesis using less.prems assms(1) by (subst payload_crc_loop.simps) (simp add: crc_running_def)
  qed
qed

end

lemma round_up_id: "v mod page = 0 \<Longrightarrow> 0 < page \<Longrightarrow> v + page - 1 < 2 ^ 32 \<Longrightarrow> round_up v page = v"
  using round_up_ge [of page v] round_up_fits [of v v page] by (simp add: order_antisym)

text \<open>A checked write into a blank part of a healthy RAM device.\<close>

lemma ram_write_ok:
  assumes pos: "0 < sector" "0 < page" and m: "length (fr_mem c) = sz" "fr_fail_after c = 0"
    and w: "off mod page = 0" "length bs mod page = 0" "0 < length bs" "off + length bs \<le> sz"
    and blank: "slice off (length bs) (fr_mem c) = replicate (length bs) 0xFF"
  shows "\<exists>c'. syn_flash_write (ram_port mem_addr sz sector page) off bs c = (Ok (), c') \<and> fr_fail_after c' = 0 \<and>
    length (fr_mem c') = sz \<and> (\<forall>a n. a + n \<le> sz \<longrightarrow> disjoint_ranges a n off (length bs) \<longrightarrow>
       slice a n (fr_mem c') = slice a n (fr_mem c))"
proof -
  let ?p = "ram_port mem_addr sz sector page"
  have dv: "length bs div page * page = length bs" using w(2) by auto
  obtain r c' where e: "syn_flash_write ?p off bs c = (r, c')" by fastforce
  have "fst (ram_write_pages page off bs (length bs div page) c) = Ok ()"
    using dv m w blank by (intro ram_write_blank) simp_all
  then have r: "r = Ok ()" using e w by (auto simp: syn_flash_write_def check_range_def ram_write_def split: if_split_asm)
  have "fr_fail_after c' = 0"
    using e w ram_ops_health(1) [OF m(2), of page off bs "length bs div page"]
    by (auto simp: syn_flash_write_def check_range_def ram_write_def split: if_split_asm)
  moreover note ram.write_spec(1,2) [where mem_addr = mem_addr and sector = sector and page = page and sz = sz,
      unfolded ram_dev_eq [OF pos], OF m(1) e]
  ultimately show ?thesis using e r by simp
qed

lemma ram_payload_ok:
  assumes "length (fr_mem f) = dsz" "fr_fail_after f = 0" "0 < sector" "0 < page" "256 mod page = 0" "off mod page = 0"
    and "(64 + pos) mod page = 0 \<or> length src \<le> pos" "sz mod page = 0" "64 + length src \<le> sz" "off + sz \<le> dsz"
    and "slice (off + 64 + pos) (sz - 64 - pos) (fr_mem f) = replicate (sz - 64 - pos) 0xFF"
  shows "fst (payload_write_loop (ram_port mem_addr dsz sector page) off src pos f) = Ok () \<and>
    fr_fail_after (snd (payload_write_loop (ram_port mem_addr dsz sector page) off src pos f)) = 0"
  using assms
proof (induction "length src - pos" arbitrary: pos f rule: less_induct)
  case less
  let ?p = "ram_port mem_addr dsz sector page"
  show ?case
  proof (cases "pos < length src")
    case False
    then show ?thesis using less.prems(2) by (subst (1 2) payload_write_loop.simps) simp
  next
    case True
    define n where "n = min 256 (length src - pos)"
    define buf where "buf = blit 0 (slice pos n src) (replicate (round_up n page) (0xFF :: u8))"
    have n: "0 < n" "n \<le> length src - pos" "n \<le> 256" using True by (auto simp: n_def)
    have pg256: "page \<le> 256" using less.prems(5) by (auto intro: dvd_imp_le)
    have al: "(64 + pos) mod page = 0" using less.prems(7) True by simp
    have "(sz - (64 + pos)) mod page = 0"
      using al less.prems(8) by (simp add: dvd_diff_nat mod_0_imp_dvd dvd_imp_mod_0)
    then have fit: "round_up n page \<le> sz - (64 + pos)"
      using n less.prems(4,9) pg256 by (intro round_up_fits) auto
    have ge: "n \<le> round_up n page" using less.prems(4) n(3) pg256 by (intro round_up_ge) auto
    have lb: "length buf = round_up n page" using ge n by (simp add: buf_def)
    have bl: "slice (off + 64 + pos) (length buf) (fr_mem f) = replicate (length buf) 0xFF"
      using less.prems(11) fit lb slice_slice [of 0 "length buf" "sz - 64 - pos" "off + 64 + pos" "fr_mem f"]
      by (simp add: slice_def min_def)
    have al2: "(off + 64 + pos) mod page = 0"
      using al less.prems(6) by (metis add.assoc mod_add_left_eq add_0)
    obtain f1 where w: "syn_flash_write ?p (off + 64 + pos) buf f = (Ok (), f1)" "fr_fail_after f1 = 0"
      "length (fr_mem f1) = dsz" and fr: "\<And>a k. a + k \<le> dsz \<Longrightarrow> disjoint_ranges a k (off + 64 + pos) (length buf) \<Longrightarrow>
         slice a k (fr_mem f1) = slice a k (fr_mem f)"
    proof -
      have "off + 64 + pos + length buf \<le> dsz" "length buf mod page = 0" "0 < length buf"
        using lb fit less.prems(9,10) True ge n(1) by simp_all
      from ram_write_ok [OF less.prems(3,4,1,2) al2 this(2,3,1) bl, of mem_addr] that show ?thesis by blast
    qed
    have eq: "payload_write_loop ?p off src pos f = payload_write_loop ?p off src (pos + n) f1"
      using True w(1) unfolding n_def buf_def by (subst payload_write_loop.simps) (simp add: Let_def)
    have rest: "(64 + (pos + n)) mod page = 0 \<and> round_up n page = n \<or> length src \<le> pos + n"
    proof (cases "n = 256")
      case True
      have "(64 + pos + 256) mod page = 0" using al less.prems(5) by (metis add_cancel_right_right mod_add_eq mod_0)
      moreover have "round_up 256 page = 256" using less.prems(4,5) pg256 by (intro round_up_id) auto
      ultimately show ?thesis using True by (simp add: ac_simps)
    qed (auto simp: n_def)
    show ?thesis
    proof (cases "length src \<le> pos + n")
      case True
      then have "payload_write_loop ?p off src (pos + n) f1 = (Ok (), f1)" by (subst payload_write_loop.simps) simp
      then show ?thesis using eq w(2) by simp
    next
      case False
      then have r: "(64 + (pos + n)) mod page = 0" "length buf = n" using rest lb by simp_all
      have "slice (off + 64 + (pos + n)) (sz - 64 - (pos + n)) (fr_mem f1) = slice (off + 64 + (pos + n)) (sz - 64 - (pos + n)) (fr_mem f)"
        using less.prems(9,10) False r(2) by (intro fr) (auto simp: disjoint_ranges_def)
      also have "\<dots> = slice n (sz - 64 - pos - n) (slice (off + 64 + pos) (sz - 64 - pos) (fr_mem f))"
        using fit ge by (subst slice_slice) (simp_all add: add.assoc)
      also have "\<dots> = replicate (sz - 64 - (pos + n)) 0xFF"
        unfolding less.prems(11) by (simp add: slice_def)
      finally have bl': "slice (off + 64 + (pos + n)) (sz - 64 - (pos + n)) (fr_mem f1) = replicate (sz - 64 - (pos + n)) 0xFF" .
      show ?thesis unfolding eq
        using less.hyps [of "pos + n" f1] True n w(2,3) r(1) less.prems(3-6,8-10) bl' by simp
    qed
  qed
qed

lemma ram_erase_loop_ok:
  "fst (erase_sector_loop (ram_port mem_addr dsz sector page) off n c) = Ok () \<and>
   fr_fail_after (snd (erase_sector_loop (ram_port mem_addr dsz sector page) off n c)) = fr_fail_after c"
  by (induction n arbitrary: off c) (simp_all add: ram_erase_def)

lemma ram_slot_write_ok:
  assumes m: "length (fr_mem f) = dsz" "fr_fail_after f = 0" and g: "0 < sector" "0 < page" "page dvd sector" "256 mod page = 0"
    and o: "off mod sector = 0" "sz mod sector = 0" "64 + length src \<le> sz" "off + sz \<le> dsz" "dsz \<le> 2 ^ 31"
    and h: "length hdr = 64"
  shows "fst (slot_write (ram_port mem_addr dsz sector page) off (64 + length src) hdr src f) = Ok () \<and>
    fr_fail_after (snd (slot_write (ram_port mem_addr dsz sector page) off (64 + length src) hdr src f)) = 0"
proof -
  let ?p = "ram_port mem_addr dsz sector page"
  define E where "E = round_up (64 + length src) sector"
  define hp where "hp = round_up 64 page"
  define lead where "lead = min (hp - 64) (length src)"
  define buf where "buf = blit 64 (take lead src) (blit 0 hdr (replicate hp (0xFF :: u8)))"
  have pg256: "page \<le> 256" using g(4) by (auto intro: dvd_imp_le)
  have "0 < sz" using o(3) by simp
  then have sec: "sector \<le> sz" using o(2) by (auto intro: dvd_imp_le)
  have E: "64 + length src \<le> E" "E \<le> sz" "E mod sector = 0"
    using o sec g(1) unfolding E_def by (auto intro!: round_up_fits round_up_ge)
  have Epg: "E mod page = 0" using E(3) g(3) by (meson dvd_trans mod_0_imp_dvd dvd_imp_mod_0)
  have offpg: "off mod page = 0" using o(1) g(3) by (meson dvd_trans mod_0_imp_dvd dvd_imp_mod_0)
  obtain r1 f1 where e: "syn_flash_erase_sectors ?p off E f = (r1, f1)" by fastforce
  have r1: "r1 = Ok ()" and f1: "fr_fail_after f1 = 0"
    using e E o m ram_erase_loop_ok [of mem_addr dsz sector page off "E div sector" f]
    by (auto simp: syn_flash_erase_sectors_def check_range_def split: if_split_asm)
  note S = ram.erase_sectors_spec [where mem_addr = mem_addr and sector = sector and page = page and sz = dsz,
      unfolded ram_dev_eq [OF g(1,2)], OF m(1) e]
  have hp: "hp \<le> E" using Epg E(1) pg256 g(2) unfolding hp_def by (intro round_up_fits) auto
  have hp64: "64 \<le> hp" using g(2) pg256 unfolding hp_def by (intro round_up_ge) auto
  have l1: "length (blit 0 hdr (replicate hp (0xFF :: u8))) = hp" using h hp64 by simp
  have lb: "length buf = hp" using l1 hp64 unfolding buf_def lead_def by (subst length_blit) auto
  have bl: "slice off (length buf) (fr_mem f1) = replicate (length buf) 0xFF"
    using S(3) r1 lb hp slice_slice [of 0 hp E off "fr_mem f1"] by (simp add: slice_def min_def)
  have "hp mod page = 0" by (simp add: hp_def)
  then obtain f2 where w: "syn_flash_write ?p off buf f1 = (Ok (), f2)" "fr_fail_after f2 = 0" "length (fr_mem f2) = dsz"
    and fr: "\<And>a n. a + n \<le> dsz \<Longrightarrow> disjoint_ranges a n off (length buf) \<Longrightarrow> slice a n (fr_mem f2) = slice a n (fr_mem f1)"
    using ram_write_ok [OF g(1,2) S(1) f1 offpg _ _ _ bl, of mem_addr] lb hp hp64 E(2) o(4) by auto
  have eq: "slot_write ?p off (64 + length src) hdr src f = payload_write_loop ?p off src lead f2"
    using e r1 w(1) by (simp add: slot_write_def Let_def E_def hp_def lead_def buf_def)
  show ?thesis
  proof (cases "length src \<le> lead")
    case True
    then have "payload_write_loop ?p off src lead f2 = (Ok (), f2)" by (subst payload_write_loop.simps) simp
    then show ?thesis using eq w(2) by simp
  next
    case False
    then have lead: "64 + lead = hp" using hp64 by (auto simp: lead_def)
    have "slice (off + 64 + lead) (E - 64 - lead) (fr_mem f2) = slice (off + 64 + lead) (E - 64 - lead) (fr_mem f1)"
      using lb lead hp E(2) o(4) by (intro fr) (auto simp: disjoint_ranges_def)
    also have "\<dots> = slice hp (E - hp) (slice off E (fr_mem f1))"
      using hp lead by (subst slice_slice) (simp_all add: add.assoc)
    also have "\<dots> = replicate (E - 64 - lead) 0xFF" using S(3) r1 lead by (simp add: slice_def)
    finally have "slice (off + 64 + lead) (E - 64 - lead) (fr_mem f2) = replicate (E - 64 - lead) 0xFF" .
    then show ?thesis unfolding eq
      using ram_payload_ok [OF w(3,2) g(1,2,4) offpg _ Epg E(1), of lead mem_addr] lead E(2) o(4) by (simp add: hp_def)
  qed
qed

lemma healthy_install:
  assumes h: "healthy e mem_addr dsz sector page s" "dsz \<le> 2 ^ 31" and crc: "crc_running (se_upd e)"
    and st: "syn_store_staging_slot True (sy_st s) = Ok slot" "\<not> bit (so_occ (sy_st s)) slot" "slot \<noteq> so_active (sy_st s)"
    and i: "info_ok nfo" "mi_name nfo ! 0 \<noteq> 0" "mi_crc32 nfo = 0 \<or> mi_crc32 nfo = se_crc e src"
    and src: "src \<noteq> []" "64 + length src \<le> lo_slot_size (so_lay (sy_st s))"
    and reg: "syn_model_get_by_name (Some (mi_name nfo)) True (sy_reg s) = Err ENOENT"
      "first_index (\<lambda>m. \<not> sl_active m) (rg_slots (sy_reg s)) = Some k"
  shows "\<exists>s'. syn_store_install e (Some nfo) (Some src) s = (Ok (k + 1), s')"
proof -
  note H = healthyD [OF h(1)]
  let ?st = "sy_st s" let ?lay = "so_lay ?st" let ?off = "lo_slot_off ?lay ! slot" and ?p = "ram_port mem_addr dsz sector page"
  let ?hdr = "synm_hdr_bytes (mi_name nfo) (of_nat (length src)) (se_crc e src) (mi_input_shape nfo) (mi_output_shape nfo)"
  have sl: "slot < lo_slot_count ?lay" using staging_slot_bound [OF st(1)] by simp
  have lay: "layout_sound (se_max e) ?p ?lay" using H(1,8) by (simp add: store_wf_def)
  have "region_ok ?p (layout_regions ?lay ! (2 + slot))" using lay sl by (simp add: layout_sound_def)
  then have al: "?off mod sector = 0" "lo_slot_size ?lay mod sector = 0"
    using layout_region_nth(2) [OF sl] by (simp_all add: region_ok_def)
  have win: "?off + lo_slot_size ?lay \<le> dsz" using slot_region [OF lay sl] by simp
  have pg: "256 mod page = 0" using lay by (simp add: layout_sound_def)
  have bs: "syn_store_begin_staging e slot s = (Ok (), s)"
    using st(2,3) sl H(10) by (simp add: syn_store_begin_staging_def Let_def)
  have m: "(64 + length src) mod 2 ^ 32 = 64 + length src" using src(2) win h(2) by (intro mod_less) simp
  obtain r1 f1 where w: "slot_write ?p ?off (64 + length src) ?hdr src (sy_flash s) = (r1, f1)" by fastforce
  note W = ram_slot_write_ok [OF H(9,6,2-4) pg al src(2) win h(2) length_synm_hdr_bytes [OF i(1)], of mem_addr
      "of_nat (length src)" "se_crc e src", unfolded w]
  have r1: "r1 = Ok ()" "fr_fail_after f1 = 0" using W by simp_all
  have S: "store_sound e (\<lambda>c. length (fr_mem c) = dsz) (s\<lparr>sy_flash := f1\<rparr>)"
    "slice (?off + 64) (length src) (fr_mem f1) = src"
    using flash_reliable.slot_write_sound(1,3) [OF H(7) refl H(5) sl _ _ src(2) length_synm_hdr_bytes [OF i(1)]]
      w r1(1) H(1,4) h(2) by auto
  let ?s1 = "s\<lparr>sy_flash := f1\<rparr>"
  have dev1: "length (fr_mem f1) = dsz" using S(1) by (simp add: store_sound_def)
  have crcok: "slot_payload_crc e slot (length src) ?s1 = Ok (se_crc e src)"
    using flash_reliable.payload_crc_ok [OF H(7) crc, of f1 "?off + 64" "length src" 0 0] dev1 H(1) S(2) win src(2)
    by (simp add: slot_payload_crc_def se_crc_def)
  define u :: "store \<Rightarrow> store" where
    "u = (\<lambda>st. st\<lparr>so_rec := (so_rec st)[slot := install_rec e ?lay slot nfo src],
               so_occ := set_bit slot (so_occ st),
               so_staged := (if so_staged st = slot then SLOT_NONE else so_staged st),
               so_active := slot,
               so_prev := (if so_active st \<noteq> slot then so_active st else so_prev st)\<rparr>)"
  define d :: "store \<Rightarrow> store" where
    "d = (\<lambda>st. st\<lparr>so_rec := (so_rec st)[slot := so_rec ?st ! slot],
               so_occ := so_occ ?st, so_staged := so_staged ?st,
               so_active := so_active ?st, so_prev := so_prev ?st\<rparr>)"
  have wfu: "store_wf e (u (sy_st ?s1))"
  proof -
    have rl: "length (so_rec ?st) = se_max e" "lo_slot_count ?lay \<le> se_max e"
      using H(8) by (auto simp: store_wf_def layout_sound_def)
    have io: "info_ok (install_rec e ?lay slot nfo src)" using i(1) by (simp add: info_ok_def install_rec_def)
    have "(so_rec ?st)[slot := x] ! j = (if j = slot then x else so_rec ?st ! j)" for j x
      using sl rl by (simp add: nth_list_update)
    then show ?thesis using H(8) sl io unfolding u_def store_wf_def by (auto simp: slot_field_ok_def occ_set_bit)
  qed
  obtain r3 s3 where c: "commit_or_undo e u d ?s1 = (r3, s3)" by fastforce
  have r3: "r3 = Ok ()"
    using ram_commit_or_undo_completes(1) [where s = ?s1 and u = u and d = d, OF H(1-4) wfu] dev1 r1(2) c by simp
  have bu: "bfields (u (sy_st ?s1)) = bfields (sy_st ?s1)" by (simp add: u_def bfields_def)
  have du: "pfields (d st1) = pfields (sy_st ?s1) \<and> bfields (d st1) = bfields st1"
    if "pfields st1 = pfields (u (sy_st ?s1))" for st1
    using that by (simp add: u_def d_def pfields_def bfields_def)
  have so1: "store_wf e (sy_st ?s1)" "length (fr_mem (sy_flash ?s1)) = dsz" "synced e (sy_flash ?s1) (sy_st ?s1)"
    using S(1) by (simp_all add: store_sound_def)
  note C = flash_reliable.commit_or_undo_spec [OF H(7) refl so1 wfu bu du c]
  have reg3: "sy_reg s3 = sy_reg s" using C(2) by simp
  have slr: "slot < length (so_rec ?st)" using H(8) sl by (auto simp: store_wf_def layout_sound_def)
  have rec3: "so_rec (sy_st s3) ! slot = install_rec e ?lay slot nfo src"
    using C(7) r3 slr by (simp add: pfields_def u_def)
  have nm: "mi_name (install_rec e ?lay slot nfo src) = mi_name nfo" by (simp add: install_rec_def)
  have nf: "first_index (name_match (mi_name nfo)) (rg_slots (sy_reg s)) = None"
    using reg(1) by (auto simp: syn_model_get_by_name_def split: option.split_asm)
  have rr: "\<exists>s'. ram_register e slot s3 = (Ok (k + 1), s')"
    using reg nf rec3 nm reg3 by (auto simp: ram_register_def register_slot_def syn_model_register_def Let_def split: option.split)
  have "syn_store_install e (Some nfo) (Some src) s = ram_register e slot s3"
    using st(1) src m i(2,3) bs w r1(1) H(1) crcok c r3
    unfolding syn_store_install_def Let_def u_def d_def install_rec_def by simp blast
  then show ?thesis using rr by simp
qed

section \<open>A small store on the RAM port\<close>

definition demo_lay :: store_layout where
  "demo_lay = \<lparr>lo_registry_off = [0, 200], lo_registry_size = 200, lo_slot_off = [400, 472],
     lo_slot_size = 72, lo_slot_count = 2\<rparr>"

definition demo_env :: "(flash_ram, npu_stub) senv" where
  "demo_env = \<lparr>se_port = ram_port 0 544 8 8, se_ops = stub_ops 64 (\<lambda>_. []),
     se_upd = (\<lambda>c bs. c + of_nat (length bs)), se_view = (\<lambda>f a n. slice a n (fr_mem f)),
     se_susp = (\<lambda>_. False), se_max = 2, se_us = 5\<rparr>"

definition demo_sys :: "(flash_ram, npu_stub) sys" where
  "demo_sys = \<lparr>sy_st = fresh_store 2 demo_lay,
     sy_flash = \<lparr>fr_mem = replicate 544 0xFF, fr_fail_after = 0, fr_pages_written = 0, fr_sectors_erased = 0\<rparr>,
     sy_reg = demo_registry\<rparr>"

abbreviation demo_ok :: "flash_ram \<Rightarrow> bool" where
  "demo_ok \<equiv> \<lambda>c. length (fr_mem c) = 544"

definition demo_booted :: "(flash_ram, npu_stub) sys" where
  "demo_booted = snd (syn_store_init demo_env True (Some demo_lay) demo_sys)"

lemma demo_env_sel [simp]: "se_port demo_env = ram_port 0 544 8 8" "se_max demo_env = 2" "\<not> se_susp demo_env h"
  by (simp_all add: demo_env_def)

lemma demo_lay_sel [simp]: "lo_slot_count demo_lay = 2" "lo_registry_off demo_lay = [0, 200]"
  "lo_slot_off demo_lay = [400, 472]" "lo_slot_size demo_lay = 72" "lo_registry_size demo_lay = 200"
  by (simp_all add: demo_lay_def)

lemma demo_reliable: "flash_reliable (se_port demo_env) fr_mem demo_ok"
  using ram_rel.flash_reliable_axioms [of 0 544 8 8] by (simp add: ram_dev_eq)

lemma demo_geometry: "geometry_ok (se_port demo_env)"
  by (simp add: geometry_ok_def)

lemma demo_layout: "layout_validate (se_max demo_env) (se_port demo_env) demo_lay = Ok ()"
  by (simp add: layout_validate_def layout_regions_def upt_01 region_ok_def regions_overlap_def img_size_def round_up_def)

lemma demo_blank: "load_copy demo_env demo_lay 0 (sy_flash demo_sys) = None" "load_copy demo_env demo_lay 1 (sy_flash demo_sys) = None"
  by (simp_all add: load_copy_def copy_load_def Let_def syn_flash_is_blank_def check_range_def ram_port_def
      ram_is_blank_def demo_sys_def slice_def list_all_iff)

lemma demo_boot: "syn_store_init demo_env True (Some demo_lay) demo_sys = (Ok (), demo_booted)"
  using demo_layout by (simp add: demo_booted_def syn_store_init_def Let_def demo_sys_def fresh_store_def)

lemma demo_scan: "scan_copies demo_env demo_lay (sy_flash demo_sys) = fresh_store 2 demo_lay"
  using demo_blank by (simp add: scan_copies_def load_copy_def pick_newest_def fresh_store_def)

lemma demo_sound: "store_sound demo_env demo_ok demo_booted" "sy_flash demo_booted = sy_flash demo_sys"
  "so_lay (sy_st demo_booted) = demo_lay" "pfields (sy_st demo_booted) = pfields (fresh_store 2 demo_lay)"
  "so_gen (sy_st demo_booted) = 0"
proof -
  have "demo_ok (sy_flash demo_sys)" by (simp add: demo_sys_def)
  note I = flash_reliable.init_sound [OF demo_reliable refl this _ _ demo_boot]
  show "store_sound demo_env demo_ok demo_booted" "sy_flash demo_booted = sy_flash demo_sys"
    "so_lay (sy_st demo_booted) = demo_lay" "pfields (sy_st demo_booted) = pfields (fresh_store 2 demo_lay)"
    "so_gen (sy_st demo_booted) = 0"
    using I demo_scan by (simp_all add: fresh_store_def)
qed

lemma demo_healthy: "healthy demo_env 0 544 8 8 demo_booted"
  using demo_sound(1,2) by (simp add: healthy_def demo_sys_def)

definition demo_marked :: "(flash_ram, npu_stub) sys" where
  "demo_marked = snd (store_apply demo_env (Mark_Staged 1 zero_info) demo_booted)"

lemma demo_mark:
  "store_apply demo_env (Mark_Staged 1 zero_info) demo_booted = (True, demo_marked)"
  "so_gen (sy_st demo_marked) = 1" "so_active (sy_st demo_marked) = 255"
  "so_lay (sy_st demo_marked) = so_lay (sy_st demo_booted)" "store_sound demo_env demo_ok demo_marked"
  "bit (so_occ (sy_st demo_marked)) 1" "healthy demo_env 0 544 8 8 demo_marked"
  "pfields (sy_st demo_marked) = (255, 255, 1, set_bit 1 0, (replicate 2 zero_info)[1 := zero_info])"
proof -
  have "1 < lo_slot_count (so_lay (sy_st demo_booted))" "1 \<noteq> so_active (sy_st demo_booted)"
    using demo_sound(3,4) by (simp_all add: pfields_def fresh_store_def)
  from healthy_mark_staged [OF demo_healthy this zero_info_ok] obtain s' where
    "syn_store_mark_staged demo_env 1 (Some zero_info) demo_booted = (Ok (), s')"
    "healthy demo_env 0 544 8 8 s'"
    "op_effect demo_env fr_mem demo_ok demo_booted (Ok ()) s' (so_active (sy_st demo_booted), so_prev (sy_st demo_booted), 1,
      set_bit 1 (so_occ (sy_st demo_booted)), (so_rec (sy_st demo_booted))[1 := zero_info])" by blast
  moreover from this have "s' = demo_marked" by (simp add: demo_marked_def)
  ultimately show "store_apply demo_env (Mark_Staged 1 zero_info) demo_booted = (True, demo_marked)"
    "so_gen (sy_st demo_marked) = 1" "so_active (sy_st demo_marked) = 255"
    "so_lay (sy_st demo_marked) = so_lay (sy_st demo_booted)" "store_sound demo_env demo_ok demo_marked"
    "bit (so_occ (sy_st demo_marked)) 1" "healthy demo_env 0 544 8 8 demo_marked"
    "pfields (sy_st demo_marked) = (255, 255, 1, set_bit 1 0, (replicate 2 zero_info)[1 := zero_info])"
    using demo_sound(4,5) by (simp_all add: op_effect_def pfields_def fresh_store_def bit_simps)
qed

definition demo_nfo :: syn_model_info where
  "demo_nfo = zero_info\<lparr>mi_name := 65 # replicate 31 0\<rparr>"

lemma demo_nfo_ok: "info_ok demo_nfo" "mi_name demo_nfo ! 0 \<noteq> 0"
  using zero_info_ok by (simp_all add: demo_nfo_def info_ok_def)

definition demo_active :: "(flash_ram, npu_stub) sys" where
  "demo_active = snd (syn_store_activate demo_env 1 demo_marked)"

lemma demo_activate: "store_sound demo_env demo_ok demo_active" "so_active (sy_st demo_active) = 1"
  "so_lay (sy_st demo_active) = demo_lay" "healthy demo_env 0 544 8 8 demo_active"
  "slots_consistent (sy_st demo_active)" "\<not> bit (so_occ (sy_st demo_active)) 0"
  "so_staged (sy_st demo_active) = SLOT_NONE"
proof -
  have "1 < lo_slot_count (so_lay (sy_st demo_marked))" "1 \<noteq> so_active (sy_st demo_marked)" "bit (so_occ (sy_st demo_marked)) 1"
    using demo_mark(3,4,6) demo_sound(3) by simp_all
  from healthy_activate [OF demo_mark(7) this] obtain s' where a: "syn_store_activate demo_env 1 demo_marked = (Ok (), s')"
    "healthy demo_env 0 544 8 8 s'" "pfields (sy_st s') = (1, so_active (sy_st demo_marked),
      if so_staged (sy_st demo_marked) = 1 then SLOT_NONE else so_staged (sy_st demo_marked), so_occ (sy_st demo_marked),
      so_rec (sy_st demo_marked))" "so_lay (sy_st s') = so_lay (sy_st demo_marked)"
    by (auto simp: op_effect_def)
  then have s': "s' = demo_active" by (simp add: demo_active_def)
  show "store_sound demo_env demo_ok demo_active" "so_active (sy_st demo_active) = 1" "so_lay (sy_st demo_active) = demo_lay"
    "healthy demo_env 0 544 8 8 demo_active" "slots_consistent (sy_st demo_active)" "\<not> bit (so_occ (sy_st demo_active)) 0"
    "so_staged (sy_st demo_active) = SLOT_NONE"
    using a(2-4) demo_mark(4,8) demo_sound(3) unfolding s'
    by (simp_all add: healthy_def pfields_def slots_consistent_def bit_simps)
qed

lemma demo_staging: "syn_store_staging_slot True (sy_st demo_booted) = Ok 0"
  using demo_sound(1,3,4) by (simp add: syn_store_staging_slot_def store_sound_def pfields_def fresh_store_def upt_01)

lemma demo_install: "\<exists>s1. syn_store_install demo_env (Some demo_nfo) (Some [1, 2, 3]) demo_booted = (Ok 1, s1)"
proof -
  have "\<not> so_ready (sy_st demo_sys)" "sy_reg demo_sys = demo_registry" by (simp_all add: demo_sys_def fresh_store_def)
  then have r: "sy_reg demo_booted = demo_registry"
    using demo_layout by (simp add: demo_booted_def syn_store_init_def Let_def demo_scan set_st_def fresh_store_def upt_01)
  have c: "crc_running (se_upd demo_env)" by (simp add: crc_running_def demo_env_def add.assoc)
  have n: "syn_model_get_by_name (Some (mi_name demo_nfo)) True (sy_reg demo_booted) = Err ENOENT"
    "first_index (\<lambda>m. \<not> sl_active m) (rg_slots (sy_reg demo_booted)) = Some 0"
    by (simp_all add: r syn_model_get_by_name_def demo_registry_def name_match_def empty_slot_def replicate_num)
  have f: "\<not> bit (so_occ (sy_st demo_booted)) 0" "0 \<noteq> so_active (sy_st demo_booted)"
    "64 + length [1, 2, 3 :: u8] \<le> lo_slot_size (so_lay (sy_st demo_booted))"
    using demo_sound(3,4) by (simp_all add: pfields_def fresh_store_def)
  have z: "mi_crc32 demo_nfo = 0" by (simp add: demo_nfo_def zero_info_def empty_slot_def)
  show ?thesis
    using healthy_install [OF demo_healthy _ c demo_staging f(1,2) demo_nfo_ok _ _ f(3) n] z by simp
qed

section \<open>Properties\<close>

text \<open>
  C8: a boot on any flash content leaves a well-formed state that some registry copy holds, and
  every history of staging, activation, rollback, clearing and installation, whatever each call
  returns and whichever models are suspended, keeps both: the authoritative copy on flash always
  holds the current slot table (a store that never committed is the empty one).
\<close>

theorem store_sound_in_all_histories:
  assumes "flash_reliable (se_port e) content dev_ok" "geometry_ok (se_port e)" "se_max e \<le> 8"
    and "dev_ok (sy_flash s0)" "syn_store_init e True (Some lay) s0 = (Ok (), s1)"
    and "\<forall>(op, susp, us) \<in> set ops. op_args_ok op"
  shows "store_sound e dev_ok (store_run e ops s1) \<and> so_lay (sy_st (store_run e ops s1)) = lay"
proof -
  have "fp_size (se_port e) < 2 ^ 32" using assms(2) by (simp add: geometry_ok_def)
  note I = flash_reliable.init_sound [OF assms(1) refl assms(4,3) this assms(5)]
  show ?thesis using flash_reliable.run_sound [OF assms(1) refl assms(2) I(1) assms(6)] I(3) by simp
qed

theorem store_sound_in_all_histories_witness:
  "store_sound demo_env demo_ok (store_run demo_env
     [(Mark_Staged 1 zero_info, \<lambda>_. False, 3), (Activate 1, \<lambda>_. True, 4), (Rollback, \<lambda>_. False, 5)] demo_booted)"
  using store_sound_in_all_histories [OF demo_reliable demo_geometry _ _ demo_boot,
      of "[(Mark_Staged 1 zero_info, \<lambda>_. False, 3), (Activate 1, \<lambda>_. True, 4), (Rollback, \<lambda>_. False, 5)]"]
  by (simp add: demo_sys_def zero_info_ok)

text \<open>The boot after a power cycle: only the flash survives.\<close>

definition power_cycle :: "('f, 'h) senv \<Rightarrow> 'h registry \<Rightarrow> ('f, 'h) sys \<Rightarrow> unit res \<times> ('f, 'h) sys" where
  "power_cycle e g s = syn_store_init e True (Some (so_lay (sy_st s))) ((syn_store_deinit s)\<lparr>sy_reg := g\<rparr>)"

lemma power_cycle_fields:
  assumes "flash_reliable (se_port e) content dev_ok" "geometry_ok (se_port e)" "store_sound e dev_ok s"
    and "layout_validate (se_max e) (se_port e) (so_lay (sy_st s)) = Ok ()"
  shows "\<exists>s'. power_cycle e g s = (Ok (), s') \<and>
    pfields (sy_st s') = pfields (scan_copies e (so_lay (sy_st s)) (sy_flash s)) \<and>
    so_gen (sy_st s') = so_gen (scan_copies e (so_lay (sy_st s)) (sy_flash s))"
proof -
  let ?s = "(syn_store_deinit s)\<lparr>sy_reg := g\<rparr>"
  have f: "sy_flash ?s = sy_flash s" "\<not> so_ready (sy_st ?s)" by (simp_all add: syn_store_deinit_def set_st_def)
  then obtain s' where i: "syn_store_init e True (Some (so_lay (sy_st s))) ?s = (Ok (), s')"
    using assms(4) by (simp add: syn_store_init_def Let_def)
  have "dev_ok (sy_flash ?s)" "se_max e \<le> 8" "fp_size (se_port e) < 2 ^ 32"
    using assms(2,3) f by (simp_all add: geometry_ok_def store_sound_def store_wf_def)
  from flash_reliable.init_sound(4,5) [OF assms(1) refl this i] i f show ?thesis
    by (simp add: power_cycle_def)
qed

text \<open>
  C12: a call that returns 0 and advanced the generation is durable: a power cycle directly after
  it boots into exactly the same slot table and generation (as long as the 32-bit generation has
  not wrapped to 0).
\<close>

theorem committed_state_survives_power_cycle:
  assumes "flash_reliable (se_port e) content dev_ok" "geometry_ok (se_port e)" "store_sound e dev_ok s"
    and "layout_validate (se_max e) (se_port e) (so_lay (sy_st s)) = Ok ()" "op_args_ok op"
    and "store_apply e op s = (True, s1)" "so_gen (sy_st s1) \<noteq> so_gen (sy_st s)" "so_gen (sy_st s1) \<noteq> 0"
  shows "\<exists>s2. power_cycle e g s1 = (Ok (), s2) \<and> pfields (sy_st s2) = pfields (sy_st s1) \<and>
    so_gen (sy_st s2) = so_gen (sy_st s1)"
proof -
  note A = flash_reliable.apply_effect [OF assms(1) refl assms(2,3,5,6)]
  then have so: "store_sound e dev_ok s1" "so_lay (sy_st s1) = so_lay (sy_st s)" "other_older e (sy_flash s1) (sy_st s1)"
    using assms(7) by auto
  then have "synced e (sy_flash s1) (sy_st s1)" "so_newest (sy_st s1) < 2"
    by (simp_all add: store_sound_def store_wf_def)
  from scan_adopts [OF this(1) so(3) assms(8) this(2)]
    power_cycle_fields [OF assms(1,2) so(1), of g] assms(4) so(2) show ?thesis by simp
qed

theorem committed_state_survives_power_cycle_witness:
  "\<exists>s2. power_cycle demo_env demo_registry demo_marked = (Ok (), s2) \<and> so_gen (sy_st s2) = 1"
  using committed_state_survives_power_cycle [OF demo_reliable demo_geometry demo_sound(1) _ _ demo_mark(1), of demo_registry]
    demo_layout demo_mark(2) demo_sound(3,5) by (auto simp: zero_info_ok)

text \<open>
  C1: a power cycle at any moment after any call, a torn or failed commit included, boots into the slot
  table and the generation the running system had, unless the copy the next commit would write holds an
  image that passes every check of the loader and is newer; then it boots into exactly that one. So an
  older copy never comes back, and a call that returned 0 with a new generation is found again.
\<close>

theorem power_cycle_never_loses_the_store:
  assumes "flash_reliable (se_port e) content dev_ok" "geometry_ok (se_port e)" "store_sound e dev_ok s"
    and "layout_validate (se_max e) (se_port e) (so_lay (sy_st s)) = Ok ()" "op_args_ok op"
    and "store_apply e op s = (ok, s1)"
  shows "\<exists>s2. power_cycle e g s1 = (Ok (), s2) \<and>
    (case load_copy e (so_lay (sy_st s)) (commit_target (sy_st s1)) (sy_flash s1) of
       Some (h, z) \<Rightarrow>
         if newer_copy (sy_st s1) h then pfields (sy_st s2) = copy_fields e h z \<and> so_gen (sy_st s2) = sh_generation h
         else pfields (sy_st s2) = pfields (sy_st s1) \<and> so_gen (sy_st s2) = so_gen (sy_st s1)
     | None \<Rightarrow> pfields (sy_st s2) = pfields (sy_st s1) \<and>
         (so_valid (sy_st s1) ! so_newest (sy_st s1) \<longrightarrow> so_gen (sy_st s2) = so_gen (sy_st s1))) \<and>
    (ok \<and> so_gen (sy_st s1) \<noteq> so_gen (sy_st s) \<and> so_gen (sy_st s1) \<noteq> 0 \<longrightarrow>
       pfields (sy_st s2) = pfields (sy_st s1) \<and> so_gen (sy_st s2) = so_gen (sy_st s1))"
proof -
  note A = flash_reliable.apply_effect [OF assms(1) refl assms(2,3,5,6)]
  then have so: "store_sound e dev_ok s1" "so_lay (sy_st s1) = so_lay (sy_st s)" by simp_all
  obtain s2 where c: "power_cycle e g s1 = (Ok (), s2)" "pfields (sy_st s2) = pfields (scan_copies e (so_lay (sy_st s)) (sy_flash s1))"
    "so_gen (sy_st s2) = so_gen (scan_copies e (so_lay (sy_st s)) (sy_flash s1))"
    using power_cycle_fields [OF assms(1,2) so(1), of g] assms(4) so(2) by auto
  have "pfields (sy_st s2) = pfields (sy_st s1) \<and> so_gen (sy_st s2) = so_gen (sy_st s1)"
    if "ok" "so_gen (sy_st s1) \<noteq> so_gen (sy_st s)" "so_gen (sy_st s1) \<noteq> 0"
  proof -
    have "other_older e (sy_flash s1) (sy_st s1)" using A that(1,2) by auto
    moreover have "synced e (sy_flash s1) (sy_st s1)" "so_newest (sy_st s1) < 2"
      using so(1) by (simp_all add: store_sound_def store_wf_def)
    ultimately show ?thesis using scan_adopts [OF _ _ that(3)] so(2) c(2,3) by simp
  qed
  with flash_reliable.reboot_outcome [OF assms(1) so(1) refl] c so(2) show ?thesis
    by (auto simp: boot_state_ok_def split: option.splits prod.splits if_splits)
qed

theorem power_cycle_never_loses_the_store_witness:
  "\<exists>s2. power_cycle demo_env demo_registry (snd (store_apply demo_env Clear_Staged demo_marked)) = (Ok (), s2)"
proof -
  obtain ok s1 where a: "store_apply demo_env Clear_Staged demo_marked = (ok, s1)" by fastforce
  have "so_lay (sy_st demo_marked) = demo_lay" using demo_mark(4) demo_sound(3) by simp
  with power_cycle_never_loses_the_store [OF demo_reliable demo_geometry demo_mark(5) _ _ a, of demo_registry] a
  show ?thesis using demo_layout by auto
qed

text \<open>
  C13: no call, whatever it returns, changes a byte of the active slot's flash.
\<close>

theorem active_slot_never_written:
  assumes "flash_reliable (se_port e) content dev_ok" "geometry_ok (se_port e)" "store_sound e dev_ok s"
    and "op_args_ok op" "store_apply e op s = (ok, s1)" "so_active (sy_st s) \<noteq> SLOT_NONE"
  shows "slice (lo_slot_off (so_lay (sy_st s)) ! so_active (sy_st s)) (lo_slot_size (so_lay (sy_st s))) (content (sy_flash s1)) =
    slice (lo_slot_off (so_lay (sy_st s)) ! so_active (sy_st s)) (lo_slot_size (so_lay (sy_st s))) (content (sy_flash s))"
proof -
  have "so_active (sy_st s) < lo_slot_count (so_lay (sy_st s))"
    using assms(3,6) by (auto simp: store_sound_def store_wf_def slot_field_ok_def)
  moreover obtain X where "so_active (sy_st s) \<notin> X" "slots_kept content (so_lay (sy_st s)) X (sy_flash s) (sy_flash s1)"
    using flash_reliable.apply_effect [OF assms(1) refl assms(2,3,4,5)] by blast
  ultimately show ?thesis by (simp add: slots_kept_def)
qed

theorem active_slot_never_written_witness:
  "slice 472 72 (fr_mem (sy_flash (snd (store_apply demo_env Rollback demo_active)))) = slice 472 72 (fr_mem (sy_flash demo_active))"
proof -
  obtain ok s1 where a: "store_apply demo_env Rollback demo_active = (ok, s1)" by fastforce
  show ?thesis
    using active_slot_never_written [OF demo_reliable demo_geometry demo_activate(1) _ a] demo_activate(2,3) a by simp
qed

text \<open>
  C21: an install that returns 0 has put the packaged header and the payload into a slot that was
  not active, made that slot the active one with the previous active slot as the rollback pivot,
  and recorded its flash address, size and CRC.
\<close>

theorem install_puts_model_in_place:
  assumes "flash_reliable (se_port e) content dev_ok" "geometry_ok (se_port e)" "store_sound e dev_ok s"
    and "info_ok nfo" "64 + length src < 2 ^ 32"
    and "syn_store_install e (Some nfo) (Some src) s = (Ok h, s1)"
  shows "\<exists>slot. syn_store_staging_slot True (sy_st s) = Ok slot \<and> slot \<noteq> so_active (sy_st s) \<and>
    so_active (sy_st s1) = slot \<and> so_prev (sy_st s1) = so_active (sy_st s) \<and> bit (so_occ (sy_st s1)) slot \<and>
    so_rec (sy_st s1) ! slot = install_rec e (so_lay (sy_st s)) slot nfo src \<and>
    slice (lo_slot_off (so_lay (sy_st s)) ! slot) 64 (content (sy_flash s1)) =
      synm_hdr_bytes (mi_name nfo) (of_nat (length src)) (se_crc e src) (mi_input_shape nfo) (mi_output_shape nfo) \<and>
    slice (lo_slot_off (so_lay (sy_st s)) ! slot + 64) (length src) (content (sy_flash s1)) = src"
proof -
  have g: "fp_page_size (se_port e) dvd fp_sector_size (se_port e)" "fp_size (se_port e) \<le> 2 ^ 31"
    using assms(2) by (simp_all add: geometry_ok_def)
  obtain slot where sl: "slot < lo_slot_count (so_lay (sy_st s))" "slot \<noteq> so_active (sy_st s)"
    "syn_store_staging_slot True (sy_st s) = Ok slot" "pfields (sy_st s1) = install_fields e (sy_st s) slot nfo src"
    "slice (lo_slot_off (so_lay (sy_st s)) ! slot) 64 (content (sy_flash s1)) =
      synm_hdr_bytes (mi_name nfo) (of_nat (length src)) (se_crc e src) (mi_input_shape nfo) (mi_output_shape nfo)"
    "slice (lo_slot_off (so_lay (sy_st s)) ! slot + 64) (length src) (content (sy_flash s1)) = src"
    using flash_reliable.install_effect [OF assms(1) refl assms(3,4) g assms(5,6)] by auto
  have "slot < 8" "slot < length (so_rec (sy_st s))"
    using sl(1) assms(3) by (auto simp: store_sound_def store_wf_def layout_sound_def)
  then show ?thesis using sl by (auto simp: install_fields_def pfields_def bit_simps)
qed

theorem install_puts_model_in_place_witness:
  "\<exists>s1. syn_store_install demo_env (Some demo_nfo) (Some [1, 2, 3]) demo_booted = (Ok 1, s1) \<and> so_active (sy_st s1) = 0"
proof -
  obtain s1 where a: "syn_store_install demo_env (Some demo_nfo) (Some [1, 2, 3]) demo_booted = (Ok 1, s1)"
    using demo_install by blast
  show ?thesis
    using install_puts_model_in_place [OF demo_reliable demo_geometry demo_sound(1) demo_nfo_ok(1) _ a] demo_staging a by auto
qed

text \<open>
  A layout that passes the validation has all its regions (both registry copies and every
  slot) inside the window, aligned to erase sectors and pairwise disjoint, a slot holds more than
  its package header, and a registry copy holds a full image of all records.
\<close>

theorem validated_layout_is_safe:
  assumes "layout_validate mx port lay = Ok ()" "fp_size port < 2 ^ 32"
  shows "2 \<le> lo_slot_count lay \<and> lo_slot_count lay \<le> mx \<and> 64 < lo_slot_size lay \<and>
    (\<forall>i < 2 + lo_slot_count lay. fst (layout_regions lay ! i) mod fp_sector_size port = 0 \<and>
       fst (layout_regions lay ! i) + snd (layout_regions lay ! i) \<le> fp_size port) \<and>
    (\<forall>i < 2 + lo_slot_count lay. \<forall>j < 2 + lo_slot_count lay. i \<noteq> j \<longrightarrow>
       disjoint_ranges (fst (layout_regions lay ! i)) (snd (layout_regions lay ! i))
         (fst (layout_regions lay ! j)) (snd (layout_regions lay ! j)))"
  using layout_validate_sound [OF assms] region_okD [of port]
  unfolding layout_sound_def region_ok_def by auto

theorem validated_layout_is_safe_witness:
  "layout_validate 2 (mcx_port demo_rom) map_layout = Ok () \<and>
   disjoint_ranges (fst (layout_regions map_layout ! 1)) (snd (layout_regions map_layout ! 1))
     (fst (layout_regions map_layout ! 3)) (snd (layout_regions map_layout ! 3))"
proof -
  have v: "layout_validate 2 (mcx_port demo_rom) map_layout = Ok ()"
    by (simp add: layout_validate_def layout_regions_def upt_01 region_ok_def regions_overlap_def img_size_def
        round_up_def map_layout_def)
  then show ?thesis using validated_layout_is_safe [OF v] by (simp add: map_layout_def)
qed

text \<open>
  C24: on a device without faults, and while no model is suspended, staging a record into a free
  slot, activating it and rolling back all return 0; activation makes the slot the active one
  with the old one as pivot, and the rollback restores the old active slot with the new one as
  pivot, the records of both untouched.
\<close>

theorem stage_activate_rollback_completes:
  assumes "healthy e mem_addr sz sector page s" "\<And>h. \<not> se_susp e h" "slots_consistent (sy_st s)"
    and "slot < lo_slot_count (so_lay (sy_st s))" "\<not> bit (so_occ (sy_st s)) slot" "info_ok nfo"
    and "so_active (sy_st s) \<noteq> SLOT_NONE"
  shows "\<exists>s1 s2 s3. syn_store_mark_staged e slot (Some nfo) s = (Ok (), s1) \<and>
    syn_store_activate e slot s1 = (Ok (), s2) \<and> syn_store_rollback e s2 = (Ok (), s3) \<and>
    so_active (sy_st s2) = slot \<and> so_prev (sy_st s2) = so_active (sy_st s) \<and>
    so_active (sy_st s3) = so_active (sy_st s) \<and> so_prev (sy_st s3) = slot \<and>
    so_rec (sy_st s3) = (so_rec (sy_st s))[slot := nfo] \<and> so_gen (sy_st s3) = so_gen (sy_st s) + 3"
proof -
  have a: "bit (so_occ (sy_st s)) (so_active (sy_st s))" "slot \<noteq> so_active (sy_st s)"
    using assms(3,5,7) by (auto simp: slots_consistent_def)
  have sl8: "slot < 8" using healthyD(1,5) [OF assms(1)] assms(4) by (auto simp: store_sound_def store_wf_def layout_sound_def)
  obtain s1 where s1: "syn_store_mark_staged e slot (Some nfo) s = (Ok (), s1)" "healthy e mem_addr sz sector page s1"
    "so_lay (sy_st s1) = so_lay (sy_st s)" "so_gen (sy_st s1) = so_gen (sy_st s) + 1"
    "so_active (sy_st s1) = so_active (sy_st s)" "so_occ (sy_st s1) = set_bit slot (so_occ (sy_st s))"
    "so_staged (sy_st s1) = slot" "so_rec (sy_st s1) = (so_rec (sy_st s))[slot := nfo]"
    using healthy_mark_staged [OF assms(1,4) a(2) assms(6)] by (auto simp: op_effect_def pfields_def)
  have "slot < lo_slot_count (so_lay (sy_st s1))" "slot \<noteq> so_active (sy_st s1)" "bit (so_occ (sy_st s1)) slot"
    using assms(4) a(2) s1 sl8 by (simp_all add: bit_simps)
  from healthy_activate [OF s1(2) this assms(2)] obtain s2 where
    s2: "syn_store_activate e slot s1 = (Ok (), s2)" "healthy e mem_addr sz sector page s2" "so_gen (sy_st s2) = so_gen (sy_st s1) + 1"
      "so_active (sy_st s2) = slot" "so_prev (sy_st s2) = so_active (sy_st s)" "so_occ (sy_st s2) = so_occ (sy_st s1)"
      "so_rec (sy_st s2) = so_rec (sy_st s1)"
    using s1 by (auto simp: op_effect_def pfields_def)
  have "so_prev (sy_st s2) \<noteq> SLOT_NONE" "so_prev (sy_st s2) \<noteq> so_active (sy_st s2)" "bit (so_occ (sy_st s2)) (so_prev (sy_st s2))"
    using s1 s2 a assms(7) by (auto simp: bit_simps)
  from healthy_rollback [OF s2(2) this assms(2)] obtain s3 where "syn_store_rollback e s2 = (Ok (), s3)"
    "so_gen (sy_st s3) = so_gen (sy_st s2) + 1" "so_active (sy_st s3) = so_prev (sy_st s2)" "so_prev (sy_st s3) = slot"
    "so_rec (sy_st s3) = so_rec (sy_st s2)"
    using s2(4) by (auto simp: op_effect_def pfields_def)
  then show ?thesis using s1 s2 by auto
qed

theorem stage_activate_rollback_completes_witness:
  "\<exists>s1 s2 s3. syn_store_mark_staged demo_env 0 (Some demo_nfo) demo_active = (Ok (), s1) \<and>
    syn_store_activate demo_env 0 s1 = (Ok (), s2) \<and> syn_store_rollback demo_env s2 = (Ok (), s3) \<and>
    so_active (sy_st s2) = 0 \<and> so_active (sy_st s3) = 1"
proof -
  have "0 < lo_slot_count (so_lay (sy_st demo_active))" "so_active (sy_st demo_active) \<noteq> SLOT_NONE"
    using demo_activate(2,3) by simp_all
  from stage_activate_rollback_completes [OF demo_activate(4) demo_env_sel(3)
      demo_activate(5) this(1) demo_activate(6) demo_nfo_ok(1) this(2)] demo_activate(2)
  show ?thesis by auto
qed

text \<open>
  From a blank device, in every history in which records are staged only into free slots (the
  OTA engine evicts first), the active, pivot and staged slots are pairwise different and each
  holds a complete model, however the calls end.
\<close>

theorem slot_roles_stay_consistent:
  assumes "flash_reliable (se_port e) content dev_ok" "geometry_ok (se_port e)" "se_max e \<le> 8"
    and "dev_ok (sy_flash s0)" "syn_store_init e True (Some lay) s0 = (Ok (), s1)"
    and "load_copy e lay 0 (sy_flash s0) = None" "load_copy e lay 1 (sy_flash s0) = None"
    and "\<forall>(op, susp, us) \<in> set ops. op_args_ok op" "run_disciplined e ops s1"
  shows "slots_consistent (sy_st (store_run e ops s1))"
proof -
  have "fp_size (se_port e) < 2 ^ 32" using assms(2) by (simp add: geometry_ok_def)
  note I = flash_reliable.init_sound [OF assms(1) refl assms(4,3) this assms(5)]
  have "scan_copies e lay (sy_flash s0) = (fresh_store (se_max e) lay)\<lparr>so_wear := [0, 0]\<rparr>"
    using assms(6,7) by (simp add: scan_copies_def load_copy_def pick_newest_def)
  then have "slots_consistent (sy_st s1)"
    using I(4) by (simp add: slots_consistent_def pfields_def fresh_store_def)
  from flash_reliable.run_consistent [OF assms(1) refl assms(2) I(1) this assms(8,9)] show ?thesis .
qed

theorem slot_roles_stay_consistent_witness:
  "slots_consistent (sy_st (store_run demo_env [(Mark_Staged 1 zero_info, \<lambda>_. False, 3), (Activate 1, \<lambda>_. True, 4)] demo_booted))"
  using slot_roles_stay_consistent [OF demo_reliable demo_geometry _ _ demo_boot demo_blank,
      of "[(Mark_Staged 1 zero_info, \<lambda>_. False, 3), (Activate 1, \<lambda>_. True, 4)]"] demo_sound(4)
  by (simp add: demo_sys_def zero_info_ok pfields_def fresh_store_def)

end
