(* ===== verification/Model_Ota.thy ===== *)
theory Model_Ota
  imports Store_Safety
begin

text \<open>
  The over-the-air update engine \<open>src/core/syn_model_ota.c\<close>: one session that streams a package
  (64-byte header and payload) through a page buffer into the staging slot, checks what landed
  in flash against the header, and hands the record to the store. \<open>os_cpu1_held\<close> is the second core itself:
  stopped by a park that worked, and still stopped after an unpark whose restart fails, although the session
  clears its own flag \<open>ot_cpu1_parked\<close> in both cases. The session state, the store,
  and the two facts of the second core that the session controls (held in reset, cross-core
  serving admitted) form the state; the outcomes of the calls into the boot and remote-inference
  code (\<open>syn_boot_secondary_*\<close>, \<open>syn_remote_serve_drain\<close>), the measured time and the store's own
  environment are arguments (\<open>oe_dual\<close>
  is the dual-core build option, without which those calls are compiled out).
\<close>

section \<open>Session state\<close>

datatype syn_ota_state =
    SYN_OTA_STATE_IDLE | SYN_OTA_STATE_DOWNLOADING | SYN_OTA_STATE_VALIDATING
  | SYN_OTA_STATE_STAGING | SYN_OTA_STATE_READY | SYN_OTA_STATE_ERROR

abbreviation (input) PAGE_BUF_SIZE :: nat where "PAGE_BUF_SIZE \<equiv> 256"
abbreviation (input) SYN_SYNM_MAGIC :: u32 where "SYN_SYNM_MAGIC \<equiv> 0x4D4E5953"
abbreviation (input) SYN_SYNM_VERSION :: u32 where "SYN_SYNM_VERSION \<equiv> 1"

record ota =
  ot_state :: syn_ota_state
  ot_slot :: nat
  ot_cpu1_parked :: bool
  ot_name :: "u8 list"
  ot_total_size :: nat
  ot_received :: nat
  ot_session_us :: u32
  ot_last_error :: "errno option"
  ot_hdr :: "u8 list"
  ot_page_buf :: "u8 list"
  ot_buffered :: nat
  ot_write_off :: nat

record ('f, 'h) osys =
  os_ota :: ota
  os_sys :: "('f, 'h) sys"
  os_cpu1_held :: bool
  os_serving :: bool

record ('f, 'h) oenv =
  oe_store :: "('f, 'h) senv"
  oe_dual :: bool
  oe_linked :: bool
  oe_stop_ok :: bool
  oe_resume_ok :: bool
  oe_drain_ok :: bool
  oe_us :: u32

text \<open>The fields of \<open>struct syn_synm_hdr\<close> in the 64 captured bytes.\<close>

definition sy_magic :: "u8 list \<Rightarrow> u32" where "sy_magic h = get32 h 0"
definition sy_version :: "u8 list \<Rightarrow> u32" where "sy_version h = get32 h 4"
definition sy_name :: "u8 list \<Rightarrow> u8 list" where "sy_name h = slice 8 32 h"
definition sy_model_size :: "u8 list \<Rightarrow> nat" where "sy_model_size h = unat (get32 h 40)"
definition sy_crc32 :: "u8 list \<Rightarrow> u32" where "sy_crc32 h = get32 h 44"
definition sy_in_shape :: "u8 list \<Rightarrow> u16 list" where "sy_in_shape h = map (\<lambda>i. get16 h (48 + 2 * i)) [0..<4]"
definition sy_out_shape :: "u8 list \<Rightarrow> u16 list" where "sy_out_shape h = map (\<lambda>i. get16 h (56 + 2 * i)) [0..<4]"

section \<open>Helpers\<close>

definition set_ota :: "(ota \<Rightarrow> ota) \<Rightarrow> ('f, 'h) osys \<Rightarrow> ('f, 'h) osys" where
  "set_ota u s = s\<lparr>os_ota := u (os_ota s)\<rparr>"

definition session_clock :: "('f, 'h) oenv \<Rightarrow> ('f, 'h) osys \<Rightarrow> ('f, 'h) osys" where
  "session_clock e = set_ota (\<lambda>o1. o1\<lparr>ot_session_us := oe_us e\<rparr>)"

definition cpu1_park :: "('f, 'h) oenv \<Rightarrow> ('f, 'h) osys \<Rightarrow> ('f, 'h) osys" where
  "cpu1_park e s =
     (if oe_dual e \<and> oe_linked e \<and> oe_stop_ok e
      then (set_ota (\<lambda>o1. o1\<lparr>ot_cpu1_parked := True\<rparr>) s)\<lparr>os_cpu1_held := True\<rparr> else s)"

definition cpu1_unpark :: "('f, 'h) oenv \<Rightarrow> ('f, 'h) osys \<Rightarrow> ('f, 'h) osys" where
  "cpu1_unpark e s =
     (let s1 = s\<lparr>os_serving := True\<rparr> in
      if \<not> oe_dual e then s
      else if ot_cpu1_parked (os_ota s1)
      then (set_ota (\<lambda>o1. o1\<lparr>ot_cpu1_parked := False\<rparr>) s1)\<lparr>os_cpu1_held := (os_cpu1_held s1 \<and> \<not> oe_resume_ok e)\<rparr>
      else s1)"

definition enter_error :: "('f, 'h) oenv \<Rightarrow> errno \<Rightarrow> ('f, 'h) osys \<Rightarrow> unit res \<times> ('f, 'h) osys" where
  "enter_error e er s =
     (Err er, cpu1_unpark e (session_clock e
        (set_ota (\<lambda>o1. o1\<lparr>ot_state := SYN_OTA_STATE_ERROR, ot_last_error := Some er\<rparr>) s)))"

section \<open>Begin\<close>

text \<open>
  \<open>ota_start\<close> is the part behind the guards: the fields of the new session, the eviction and the
  erase. A ready store always has a staging slot, so the ignored result of that query is a value.
\<close>

definition ota_start ::
  "('f, 'h) oenv \<Rightarrow> u8 list \<Rightarrow> nat \<Rightarrow> nat \<Rightarrow> nat \<Rightarrow> ('f, 'h) osys \<Rightarrow> unit res \<times> ('f, 'h) osys" where
  "ota_start e model_name total_sz slot slot_off s =
     (let s1 = (if syn_store_staged_slot (sy_st (os_sys s)) \<noteq> SLOT_NONE
                then s\<lparr>os_sys := snd (syn_store_clear_staged (oe_store e) (os_sys s))\<rparr> else s);
          s2 = cpu1_park e (set_ota (\<lambda>o1. o1\<lparr>ot_slot := slot, ot_total_size := total_sz, ot_received := 0,
                 ot_buffered := 0, ot_write_off := 0, ot_last_error := None,
                 ot_name := strncpy_z model_name 32, ot_hdr := replicate 64 0\<rparr>) s1)
      in case syn_store_begin_staging (oe_store e) slot (os_sys s2) of
           (Inl er, y) \<Rightarrow> enter_error e er (s2\<lparr>os_sys := y\<rparr>)
         | (Inr _, y) \<Rightarrow>
             let port = se_port (oe_store e); sector = fp_sector_size port;
                 erase_len = (total_sz + sector - 1) mod 2 ^ 32 div sector * sector
             in (case syn_flash_erase_sectors port slot_off erase_len (sy_flash y) of
                   (Inl er, f) \<Rightarrow> enter_error e er (s2\<lparr>os_sys := y\<lparr>sy_flash := f\<rparr>\<rparr>)
                 | (Inr _, f) \<Rightarrow>
                     (Ok (), session_clock e (set_ota (\<lambda>o1. o1\<lparr>ot_state := SYN_OTA_STATE_DOWNLOADING\<rparr>)
                        (s2\<lparr>os_sys := y\<lparr>sy_flash := f\<rparr>\<rparr>)))))"

definition syn_ota_begin ::
  "('f, 'h) oenv \<Rightarrow> u8 list option \<Rightarrow> nat \<Rightarrow> ('f, 'h) osys \<Rightarrow> unit res \<times> ('f, 'h) osys" where
  "syn_ota_begin e model_name total_sz s =
     (case model_name of None \<Rightarrow> (Err EINVAL, s)
      | Some name \<Rightarrow>
          if cstr 1 name = [] \<or> total_sz \<le> SYN_SYNM_HDR_SIZE then (Err EINVAL, s)
          else if \<not> so_ready (sy_st (os_sys s)) then (Err ENODEV, s)
          else (case syn_store_staging_slot True (sy_st (os_sys s)) of
                  Inl _ \<Rightarrow> (Err EINVAL, s)
                | Inr slot \<Rightarrow>
                    let lay = so_lay (sy_st (os_sys s)) in
                    if total_sz > lo_slot_size lay then (Err EFBIG, s)
                    else if oe_dual e \<and> \<not> oe_drain_ok e then (Err EBUSY, s\<lparr>os_serving := True\<rparr>)
                    else ota_start e name total_sz slot (lo_slot_off lay ! slot)
                           (s\<lparr>os_serving := (os_serving s \<and> \<not> oe_dual e)\<rparr>)))"

section \<open>Streaming\<close>

text \<open>
  The page buffer holds 256 bytes, \<open>ot_buffered\<close> of them valid; a flush writes the whole pages
  (with \<open>final\<close> the rest too, padded with 0xFF) and moves what is left to the front.
\<close>

definition flush_pages :: "('f, 'h) oenv \<Rightarrow> bool \<Rightarrow> ('f, 'h) osys \<Rightarrow> unit res \<times> ('f, 'h) osys" where
  "flush_pages e final s =
     (let o1 = os_ota s; port = se_port (oe_store e); page = fp_page_size port; y = os_sys s;
          slot_off = lo_slot_off (so_lay (sy_st y)) ! ot_slot o1;
          writable = (if final then (ot_buffered o1 + page - 1) div page * page
                      else ot_buffered o1 div page * page);
          buf = (if final \<and> writable > ot_buffered o1
                 then blit (ot_buffered o1) (replicate (writable - ot_buffered o1) 0xFF) (ot_page_buf o1)
                 else ot_page_buf o1)
      in if writable = 0 then (Ok (), s)
         else (case syn_flash_write port (slot_off + ot_write_off o1) (take writable buf) (sy_flash y) of
                 (Inl er, f) \<Rightarrow> (Err er, s\<lparr>os_ota := o1\<lparr>ot_page_buf := buf\<rparr>, os_sys := y\<lparr>sy_flash := f\<rparr>\<rparr>)
               | (Inr _, f) \<Rightarrow>
                   let left = ot_buffered o1 - min (ot_buffered o1) writable in
                   (Ok (), s\<lparr>os_sys := y\<lparr>sy_flash := f\<rparr>,
                      os_ota := o1\<lparr>ot_write_off := ot_write_off o1 + writable, ot_buffered := left,
                        ot_page_buf := (if left > 0 then blit 0 (slice writable left buf) buf else buf)\<rparr>\<rparr>)))"

text \<open>
  The loop over the bytes of a chunk: fill the buffer, flush it when it is full. A full buffer at
  the loop head, on which the code would spin, cannot occur: the page size divides 256, so a flush
  of a full buffer empties it.
\<close>

function buffer_loop :: "('f, 'h) oenv \<Rightarrow> u8 list \<Rightarrow> ('f, 'h) osys \<Rightarrow> unit res \<times> ('f, 'h) osys" where
  "buffer_loop e src s =
     (if src = [] then (Ok (), s)
      else
        let o1 = os_ota s;
            tk = min (PAGE_BUF_SIZE - ot_buffered o1) (length src);
            s1 = s\<lparr>os_ota := o1\<lparr>ot_page_buf := blit (ot_buffered o1) (take tk src) (ot_page_buf o1),
                    ot_buffered := ot_buffered o1 + tk\<rparr>\<rparr>
        in if tk = 0 then (Err EINVAL, s)
           else if ot_buffered (os_ota s1) = PAGE_BUF_SIZE then
             (case flush_pages e False s1 of
                (Inl er, s2) \<Rightarrow> (Err er, s2)
              | (Inr _, s2) \<Rightarrow> buffer_loop e (drop tk src) s2)
           else buffer_loop e (drop tk src) s1)"
  by pat_completeness auto
termination by (relation "measure (\<lambda>(_, src, _). length src)") auto

declare buffer_loop.simps [simp del]

text \<open>The checks made once the 64 header bytes have streamed past.\<close>

definition header_check :: "ota \<Rightarrow> errno option" where
  "header_check o1 =
     (if sy_magic (ot_hdr o1) \<noteq> SYN_SYNM_MAGIC \<or> sy_version (ot_hdr o1) \<noteq> SYN_SYNM_VERSION then Some EILSEQ
      else if sy_model_size (ot_hdr o1) \<noteq> ot_total_size o1 - SYN_SYNM_HDR_SIZE then Some EMSGSIZE
      else if \<not> strncmp_eq (sy_name (ot_hdr o1)) (ot_name o1) 32 then Some EINVAL
      else None)"

definition capture_header :: "u8 list \<Rightarrow> ota \<Rightarrow> errno option \<times> ota" where
  "capture_header data o1 =
     (if ot_received o1 < SYN_SYNM_HDR_SIZE then
        let tk = min (SYN_SYNM_HDR_SIZE - ot_received o1) (length data);
            o2 = o1\<lparr>ot_hdr := blit (ot_received o1) (take tk data) (ot_hdr o1)\<rparr>
        in (if ot_received o1 + tk = SYN_SYNM_HDR_SIZE then header_check o2 else None, o2)
      else (None, o1))"

definition syn_ota_write_chunk ::
  "('f, 'h) oenv \<Rightarrow> u8 list option \<Rightarrow> ('f, 'h) osys \<Rightarrow> unit res \<times> ('f, 'h) osys" where
  "syn_ota_write_chunk e data s =
     (case data of None \<Rightarrow> (Err EINVAL, s)
      | Some src \<Rightarrow>
          if src = [] then (Err EINVAL, s)
          else if ot_state (os_ota s) \<noteq> SYN_OTA_STATE_DOWNLOADING then (Err EPERM, s)
          else if (ot_received (os_ota s) + length src) mod 2 ^ 32 > ot_total_size (os_ota s)
          then enter_error e EFBIG s
          else (case capture_header src (os_ota s) of
                  (Some er, o2) \<Rightarrow> enter_error e er (s\<lparr>os_ota := o2\<rparr>)
                | (None, o2) \<Rightarrow>
                    (case buffer_loop e src (s\<lparr>os_ota := o2\<rparr>) of
                       (Inl er, s2) \<Rightarrow> enter_error e er s2
                     | (Inr _, s2) \<Rightarrow>
                         (Ok (), session_clock e (set_ota (\<lambda>o3. o3\<lparr>ot_received := ot_received o3 + length src\<rparr>) s2)))))"

section \<open>Finish\<close>

text \<open>The CRC of the payload on flash, read in 128-byte chunks.\<close>

function ota_crc_loop ::
  "crc_upd \<Rightarrow> 'f flash_port \<Rightarrow> nat \<Rightarrow> nat \<Rightarrow> nat \<Rightarrow> u32 \<Rightarrow> 'f \<Rightarrow> u32 res" where
  "ota_crc_loop upd port off sz pos crc f =
     (if pos < sz then
        let n = min 128 (sz - pos) in
        (case syn_flash_read port (off + pos) n f of
           Inl e \<Rightarrow> Err e
         | Inr b \<Rightarrow> ota_crc_loop upd port off sz (pos + n) (upd crc b) f)
      else Ok crc)"
  by pat_completeness auto
termination by (relation "measure (\<lambda>(_, _, _, sz, pos, _, _). sz - pos)") auto

declare ota_crc_loop.simps [simp del]

definition shape_elems :: "u16 list \<Rightarrow> u32" where
  "shape_elems sh = foldl (\<lambda>n d. if d \<noteq> 0 then n * ucast d else n) 1 sh"

definition shape_bytes :: "u16 list \<Rightarrow> u8 list" where
  "shape_bytes sh = map (\<lambda>d. ucast (min d 255)) sh"

text \<open>The record of the staged model; the INT8 enumerator is 0.\<close>

definition ota_info :: "ota \<Rightarrow> nat \<Rightarrow> syn_model_info" where
  "ota_info o1 flash_off =
     \<lparr>mi_name = ot_name o1, mi_version = strncpy_z [111, 116, 97] 16,
      mi_input_size = shape_elems (sy_in_shape (ot_hdr o1)), mi_output_size = shape_elems (sy_out_shape (ot_hdr o1)),
      mi_flash_offset = of_nat flash_off, mi_flash_size = of_nat (sy_model_size (ot_hdr o1)), mi_sram_required = 0,
      mi_crc32 = sy_crc32 (ot_hdr o1), mi_input_dtype = 0, mi_output_dtype = 0,
      mi_input_shape = shape_bytes (sy_in_shape (ot_hdr o1)), mi_output_shape = shape_bytes (sy_out_shape (ot_hdr o1))\<rparr>"

definition syn_ota_finish :: "('f, 'h) oenv \<Rightarrow> ('f, 'h) osys \<Rightarrow> unit res \<times> ('f, 'h) osys" where
  "syn_ota_finish e s =
     (if ot_state (os_ota s) \<noteq> SYN_OTA_STATE_DOWNLOADING then (Err EPERM, s)
      else if ot_received (os_ota s) \<noteq> ot_total_size (os_ota s) then enter_error e ENODATA s
      else (case flush_pages e True s of
              (Inl er, s1) \<Rightarrow> enter_error e er s1
            | (Inr _, s1) \<Rightarrow>
                let s2 = set_ota (\<lambda>o1. o1\<lparr>ot_state := SYN_OTA_STATE_VALIDATING\<rparr>) s1;
                    o2 = os_ota s2; port = se_port (oe_store e);
                    slot_off = lo_slot_off (so_lay (sy_st (os_sys s2))) ! ot_slot o2
                in (case ota_crc_loop (se_upd (oe_store e)) port (slot_off + SYN_SYNM_HDR_SIZE)
                           (sy_model_size (ot_hdr o2)) 0 0 (sy_flash (os_sys s2)) of
                      Inl er \<Rightarrow> enter_error e er s2
                    | Inr crc \<Rightarrow>
                        if crc \<noteq> sy_crc32 (ot_hdr o2) then enter_error e EILSEQ s2
                        else
                          let s3 = set_ota (\<lambda>o1. o1\<lparr>ot_state := SYN_OTA_STATE_STAGING\<rparr>) s2 in
                          (case syn_store_mark_staged (oe_store e) (ot_slot o2)
                                  (Some (ota_info o2 (fp_base port + slot_off + SYN_SYNM_HDR_SIZE))) (os_sys s3) of
                             (Inl er, y) \<Rightarrow> enter_error e er (s3\<lparr>os_sys := y\<rparr>)
                           | (Inr _, y) \<Rightarrow>
                               (Ok (), session_clock e (set_ota (\<lambda>o1. o1\<lparr>ot_state := SYN_OTA_STATE_READY\<rparr>)
                                  (s3\<lparr>os_sys := y\<rparr>)))))))"

section \<open>Activate, rollback, status\<close>

definition syn_ota_activate :: "('f, 'h) oenv \<Rightarrow> ('f, 'h) osys \<Rightarrow> unit res \<times> ('f, 'h) osys" where
  "syn_ota_activate e s =
     (let ready = ot_state (os_ota s) = SYN_OTA_STATE_READY;
          slot = (if ready then ot_slot (os_ota s) else syn_store_staged_slot (sy_st (os_sys s)))
      in if \<not> ready \<and> (ot_state (os_ota s) \<noteq> SYN_OTA_STATE_IDLE \<or> slot = SLOT_NONE) then (Err EPERM, s)
         else (case syn_store_activate (oe_store e) slot (os_sys s) of
                 (Inl er, y) \<Rightarrow> enter_error e er (s\<lparr>os_sys := y\<rparr>)
               | (Inr _, y) \<Rightarrow>
                   (Ok (), cpu1_unpark e (session_clock e
                      (set_ota (\<lambda>o1. o1\<lparr>ot_state := SYN_OTA_STATE_IDLE\<rparr>) (s\<lparr>os_sys := y\<rparr>))))))"

definition syn_ota_rollback :: "('f, 'h) oenv \<Rightarrow> ('f, 'h) osys \<Rightarrow> unit res \<times> ('f, 'h) osys" where
  "syn_ota_rollback e s =
     (if ot_state (os_ota s) \<in> {SYN_OTA_STATE_DOWNLOADING, SYN_OTA_STATE_VALIDATING, SYN_OTA_STATE_STAGING}
      then (Err EBUSY, s)
      else (case syn_store_rollback (oe_store e) (os_sys s) of
              (Inl er, y) \<Rightarrow> (Err er, s\<lparr>os_sys := y\<rparr>)
            | (Inr _, y) \<Rightarrow>
                (Ok (), cpu1_unpark e (set_ota (\<lambda>o1. o1\<lparr>ot_state := SYN_OTA_STATE_IDLE\<rparr>) (s\<lparr>os_sys := y\<rparr>)))))"

definition syn_ota_get_state :: "('f, 'h) osys \<Rightarrow> syn_ota_state" where
  "syn_ota_get_state s = ot_state (os_ota s)"

record syn_ota_status =
  oa_state :: syn_ota_state
  oa_slot :: nat
  oa_total_size :: nat
  oa_received :: nat
  oa_session_us :: u32
  oa_last_error :: "errno option"

definition syn_ota_get_status :: "('f, 'h) osys \<Rightarrow> syn_ota_status" where
  "syn_ota_get_status s =
     (let o1 = os_ota s in
      \<lparr>oa_state = ot_state o1, oa_slot = (if ot_state o1 = SYN_OTA_STATE_IDLE then SLOT_NONE else ot_slot o1),
       oa_total_size = ot_total_size o1, oa_received = ot_received o1, oa_session_us = ot_session_us o1,
       oa_last_error = ot_last_error o1\<rparr>)"

definition reset_ota :: ota where
  "reset_ota = \<lparr>ot_state = SYN_OTA_STATE_IDLE, ot_slot = SLOT_NONE, ot_cpu1_parked = False, ot_name = replicate 32 0,
     ot_total_size = 0, ot_received = 0, ot_session_us = 0, ot_last_error = None, ot_hdr = replicate 64 0,
     ot_page_buf = replicate 256 0, ot_buffered = 0, ot_write_off = 0\<rparr>"

definition syn_ota_reset :: "('f, 'h) osys \<Rightarrow> ('f, 'h) osys" where
  "syn_ota_reset = set_ota (\<lambda>_. reset_ota)"

section \<open>The stream as it lands\<close>

text \<open>
  \<open>D\<close> is the stream received so far: whole buffers of it are on flash behind the start of the
  slot, the rest is in the page buffer.
\<close>

definition dl_buf :: "('f \<Rightarrow> u8 list) \<Rightarrow> ('f \<Rightarrow> bool) \<Rightarrow> ('f, 'h) oenv \<Rightarrow> u8 list \<Rightarrow> ('f, 'h) osys \<Rightarrow> bool" where
  "dl_buf content dev_ok e D s \<longleftrightarrow>
     (let o1 = os_ota s; y = os_sys s; lay = so_lay (sy_st y); off = lo_slot_off lay ! ot_slot o1 in
      store_sound (oe_store e) dev_ok y \<and> ot_slot o1 < lo_slot_count lay \<and> ot_slot o1 \<noteq> so_active (sy_st y) \<and>
      ot_total_size o1 \<le> lo_slot_size lay \<and> length (ot_page_buf o1) = 256 \<and> ot_buffered o1 < 256 \<and>
      ot_write_off o1 + ot_buffered o1 = length D \<and> length D \<le> ot_total_size o1 \<and> ot_write_off o1 mod 256 = 0 \<and>
      take (ot_buffered o1) (ot_page_buf o1) = drop (ot_write_off o1) D \<and>
      slice off (ot_write_off o1) (content (sy_flash y)) = take (ot_write_off o1) D)"

text \<open>Only the page buffering of the session changes.\<close>

definition buf_frame :: "('f, 'h) osys \<Rightarrow> ('f, 'h) osys \<Rightarrow> bool" where
  "buf_frame s s' \<longleftrightarrow>
     ot_slot (os_ota s') = ot_slot (os_ota s) \<and> ot_total_size (os_ota s') = ot_total_size (os_ota s) \<and>
     ot_state (os_ota s') = ot_state (os_ota s) \<and> ot_received (os_ota s') = ot_received (os_ota s) \<and>
     ot_hdr (os_ota s') = ot_hdr (os_ota s) \<and> ot_name (os_ota s') = ot_name (os_ota s) \<and>
     ot_cpu1_parked (os_ota s') = ot_cpu1_parked (os_ota s) \<and> ot_last_error (os_ota s') = ot_last_error (os_ota s) \<and>
     os_cpu1_held s' = os_cpu1_held s \<and> os_serving s' = os_serving s \<and>
     sy_st (os_sys s') = sy_st (os_sys s) \<and> sy_reg (os_sys s') = sy_reg (os_sys s) \<and>
     (length (ot_page_buf (os_ota s)) = 256 \<longrightarrow> length (ot_page_buf (os_ota s')) = 256)"

lemma buf_frame_refl [simp]: "buf_frame s s"
  by (simp add: buf_frame_def)

lemma buf_frame_trans: "buf_frame s s1 \<Longrightarrow> buf_frame s1 s2 \<Longrightarrow> buf_frame s s2"
  by (simp add: buf_frame_def)

lemma buf_frame_sel:
  assumes "buf_frame s s'"
  shows "ot_slot (os_ota s') = ot_slot (os_ota s)" "ot_total_size (os_ota s') = ot_total_size (os_ota s)"
    "ot_state (os_ota s') = ot_state (os_ota s)" "ot_received (os_ota s') = ot_received (os_ota s)"
    "ot_hdr (os_ota s') = ot_hdr (os_ota s)" "ot_name (os_ota s') = ot_name (os_ota s)"
    "ot_cpu1_parked (os_ota s') = ot_cpu1_parked (os_ota s)" "sy_st (os_sys s') = sy_st (os_sys s)"
    "os_cpu1_held s' = os_cpu1_held s" "os_serving s' = os_serving s"
    "length (ot_page_buf (os_ota s)) = 256 \<Longrightarrow> length (ot_page_buf (os_ota s')) = 256"
  using assms unfolding buf_frame_def by simp_all

lemma slots_kept_refl [simp]: "slots_kept content lay X f f"
  by (simp add: slots_kept_def)

lemma slots_kept_mono: "slots_kept content lay X f f' \<Longrightarrow> X \<subseteq> Y \<Longrightarrow> slots_kept content lay Y f f'"
  by (auto simp: slots_kept_def)

lemma dl_buf_flushed:
  assumes d: "dl_buf content dev_ok e D s" and f: "buf_frame s s2" and so: "store_sound (oe_store e) dev_ok (os_sys s2)"
    and b: "ot_buffered (os_ota s2) = 0" "ot_write_off (os_ota s2) = ot_write_off (os_ota s) + 256"
      "length (ot_page_buf (os_ota s2)) = 256"
    and l: "length D1 = ot_write_off (os_ota s) + 256" "length D1 \<le> ot_total_size (os_ota s)"
    and c: "slice (lo_slot_off (so_lay (sy_st (os_sys s))) ! ot_slot (os_ota s)) (ot_write_off (os_ota s) + 256)
      (content (sy_flash (os_sys s2))) = D1"
  shows "dl_buf content dev_ok e D1 s2"
  using d so b l c unfolding dl_buf_def Let_def buf_frame_sel [OF f] by (elim conjE, intro conjI) simp_all

context flash_reliable
begin

text \<open>A device operation that touches only a part of one slot.\<close>

lemma slot_area_keep:
  assumes p: "se_port e = port" and so: "store_sound e dev_ok y" and sl: "slot < lo_slot_count (so_lay (sy_st y))"
    and a: "a + k \<le> lo_slot_size (so_lay (sy_st y))" and ok: "dev_ok f'"
    and fr: "\<And>b n. b + n \<le> fp_size port \<Longrightarrow> disjoint_ranges b n (lo_slot_off (so_lay (sy_st y)) ! slot + a) k \<Longrightarrow>
      slice b n (content f') = slice b n (content (sy_flash y))"
  shows "store_sound e dev_ok (y\<lparr>sy_flash := f'\<rparr>)" "slots_kept content (so_lay (sy_st y)) {slot} (sy_flash y) f'"
proof -
  let ?lay = "so_lay (sy_st y)" let ?off = "lo_slot_off ?lay ! slot"
  have h: "store_wf e (sy_st y)" "dev_ok (sy_flash y)" "synced e (sy_flash y) (sy_st y)" "so_ready (sy_st y)"
    using so by (simp_all add: store_sound_def)
  have lay: "layout_sound (se_max e) port ?lay" using h(1) p by (simp add: store_wf_def)
  note R = slot_region [OF lay]
  have sub: "disjoint_ranges b n (?off + a) k" if "disjoint_ranges b n ?off (lo_slot_size ?lay)" for b n
    using that a by (auto simp: disjoint_ranges_def)
  have "slice (lo_registry_off ?lay ! c) (lo_registry_size ?lay) (content f') =
      slice (lo_registry_off ?lay ! c) (lo_registry_size ?lay) (content (sy_flash y))" if "c < 2" for c
    using fr registry_region(1) [OF lay that] sub slot_registry_disjoint [OF lay sl that]
    by (simp add: disjoint_ranges_sym)
  then have "synced e f' (sy_st y)" using ok by (intro synced_frame [OF p h(1,2) _ h(3)]) auto
  then show "store_sound e dev_ok (y\<lparr>sy_flash := f'\<rparr>)" using ok h by (simp add: store_sound_def)
  show "slots_kept content ?lay {slot} (sy_flash y) f'"
    unfolding slots_kept_def using fr R sub slots_disjoint [OF lay _ sl] by auto
qed

lemma slot_area_write:
  assumes p: "se_port e = port" and so: "store_sound e dev_ok y" and sl: "slot < lo_slot_count (so_lay (sy_st y))"
    and a: "a + length bs \<le> lo_slot_size (so_lay (sy_st y))"
    and w: "syn_flash_write port (lo_slot_off (so_lay (sy_st y)) ! slot + a) bs (sy_flash y) = (r, f')"
  shows "store_sound e dev_ok (y\<lparr>sy_flash := f'\<rparr>)" "slots_kept content (so_lay (sy_st y)) {slot} (sy_flash y) f'"
    "slice (lo_slot_off (so_lay (sy_st y)) ! slot) a (content f') =
       slice (lo_slot_off (so_lay (sy_st y)) ! slot) a (content (sy_flash y))"
    "r = Ok () \<Longrightarrow> slice (lo_slot_off (so_lay (sy_st y)) ! slot + a) (length bs) (content f') = bs"
proof -
  have h: "dev_ok (sy_flash y)" "layout_sound (se_max e) port (so_lay (sy_st y))"
    using so p by (simp_all add: store_sound_def store_wf_def)
  note W = write_spec [OF h(1) w] and K = slot_area_keep [OF p so sl a]
  show "store_sound e dev_ok (y\<lparr>sy_flash := f'\<rparr>)" "slots_kept content (so_lay (sy_st y)) {slot} (sy_flash y) f'"
    using K W(1,2) by auto
  show "slice (lo_slot_off (so_lay (sy_st y)) ! slot) a (content f') =
      slice (lo_slot_off (so_lay (sy_st y)) ! slot) a (content (sy_flash y))"
    using slot_region [OF h(2) sl] a by (intro W(2)) (auto simp: disjoint_ranges_def)
  show "slice (lo_slot_off (so_lay (sy_st y)) ! slot + a) (length bs) (content f') = bs" if "r = Ok ()" using W(3) that by simp
qed

lemma flush_full:
  assumes p: "se_port (oe_store e) = port" and pg: "256 mod fp_page_size port = 0"
    and so: "store_sound (oe_store e) dev_ok (os_sys s)" and sl: "ot_slot (os_ota s) < lo_slot_count (so_lay (sy_st (os_sys s)))"
    and b: "length (ot_page_buf (os_ota s)) = 256" "ot_buffered (os_ota s) = 256"
    and w: "ot_write_off (os_ota s) + 256 \<le> lo_slot_size (so_lay (sy_st (os_sys s)))"
    and r: "flush_pages e False s = (r, s')"
  shows "buf_frame s s'" "store_sound (oe_store e) dev_ok (os_sys s')"
    "slots_kept content (so_lay (sy_st (os_sys s))) {ot_slot (os_ota s)} (sy_flash (os_sys s)) (sy_flash (os_sys s'))"
    "r = Ok () \<Longrightarrow> ot_buffered (os_ota s') = 0 \<and> ot_write_off (os_ota s') = ot_write_off (os_ota s) + 256 \<and>
       ot_page_buf (os_ota s') = ot_page_buf (os_ota s) \<and>
       slice (lo_slot_off (so_lay (sy_st (os_sys s))) ! ot_slot (os_ota s)) (ot_write_off (os_ota s) + 256) (content (sy_flash (os_sys s'))) =
       slice (lo_slot_off (so_lay (sy_st (os_sys s))) ! ot_slot (os_ota s)) (ot_write_off (os_ota s)) (content (sy_flash (os_sys s))) @
       ot_page_buf (os_ota s)"
proof -
  let ?o = "os_ota s" and ?y = "os_sys s" let ?lay = "so_lay (sy_st ?y)" let ?off = "lo_slot_off ?lay ! ot_slot ?o"
  have pd: "fp_page_size port dvd 256" using pg by (simp add: mod_eq_0_iff_dvd)
  then have wr: "256 div fp_page_size port * fp_page_size port = 256" by simp
  obtain r1 f1 where e1: "syn_flash_write port (?off + ot_write_off ?o) (take 256 (ot_page_buf ?o)) (sy_flash ?y) = (r1, f1)"
    by fastforce
  have lw: "length (take 256 (ot_page_buf ?o)) = 256" using b(1) by simp
  note A = slot_area_write [OF p so sl _ e1, unfolded lw, OF w]
  have eq: "r = r1 \<and> s' = (case r1 of Inl er \<Rightarrow> s\<lparr>os_ota := ?o\<lparr>ot_page_buf := ot_page_buf ?o\<rparr>, os_sys := ?y\<lparr>sy_flash := f1\<rparr>\<rparr>
      | Inr _ \<Rightarrow> s\<lparr>os_sys := ?y\<lparr>sy_flash := f1\<rparr>, os_ota := ?o\<lparr>ot_write_off := ot_write_off ?o + 256, ot_buffered := 0,
          ot_page_buf := ot_page_buf ?o\<rparr>\<rparr>)"
    using r unfolding flush_pages_def Let_def b(2) p if_False simp_thms wr using e1 by (cases r1) auto
  then show "buf_frame s s'"
    unfolding buf_frame_def by (cases r1) simp_all
  show "store_sound (oe_store e) dev_ok (os_sys s')" using eq A(1) by (cases r1) simp_all
  show "slots_kept content ?lay {ot_slot ?o} (sy_flash ?y) (sy_flash (os_sys s'))" using eq A(2) by (cases r1) simp_all
  show "ot_buffered (os_ota s') = 0 \<and> ot_write_off (os_ota s') = ot_write_off ?o + 256 \<and>
       ot_page_buf (os_ota s') = ot_page_buf ?o \<and>
       slice ?off (ot_write_off ?o + 256) (content (sy_flash (os_sys s'))) =
       slice ?off (ot_write_off ?o) (content (sy_flash ?y)) @ ot_page_buf ?o" if "r = Ok ()"
    using eq that A(3,4) b(1) slice_append [of ?off "ot_write_off ?o" 256 "content f1"] by auto
qed

lemma buffer_loop_spec:
  assumes p: "se_port (oe_store e) = port" and pg: "256 mod fp_page_size port = 0"
    and "dl_buf content dev_ok e D s" "length D + length src \<le> ot_total_size (os_ota s)"
    and "buffer_loop e src s = (r, s')"
  shows "buf_frame s s' \<and> store_sound (oe_store e) dev_ok (os_sys s') \<and>
    slots_kept content (so_lay (sy_st (os_sys s))) {ot_slot (os_ota s)} (sy_flash (os_sys s)) (sy_flash (os_sys s')) \<and>
    (r = Ok () \<longrightarrow> dl_buf content dev_ok e (D @ src) s')"
  using assms(3-5)
proof (induction "length src" arbitrary: src D s rule: less_induct)
  case less
  let ?o = "os_ota s" and ?y = "os_sys s"
  let ?n = "min (256 - ot_buffered ?o) (length src)"
  define s1 where "s1 = s\<lparr>os_ota := ?o\<lparr>ot_page_buf := blit (ot_buffered ?o) (take ?n src) (ot_page_buf ?o),
      ot_buffered := ot_buffered ?o + ?n\<rparr>\<rparr>"
  have so: "store_sound (oe_store e) dev_ok ?y" using less.prems(1) by (simp add: dl_buf_def Let_def)
  have "length (ot_page_buf (os_ota s1)) = 256" using less.prems(1) by (auto simp: s1_def dl_buf_def Let_def blit_def)
  then have fr: "buf_frame s s1" "os_sys s1 = os_sys s" by (simp_all add: s1_def buf_frame_def)
  show ?case
  proof (cases "src = []")
    case True
    then have "r = Ok () \<and> s' = s" using less.prems(3) by (simp add: buffer_loop.simps [of e "[]" s])
    then show ?thesis using less.prems(1) so True by simp
  next
    case False
    have n0: "?n \<noteq> 0" using less.prems(1) False by (simp add: dl_buf_def Let_def)
    have F: "take (ot_buffered (os_ota s1)) (ot_page_buf (os_ota s1)) = drop (ot_write_off ?o) (D @ take ?n src)"
      "length (ot_page_buf (os_ota s1)) = 256" "ot_write_off (os_ota s1) = ot_write_off ?o"
      using less.prems(1) by (auto simp: s1_def dl_buf_def Let_def blit_def)
    have step: "buffer_loop e src s = (if ot_buffered (os_ota s1) = 256
        then (case flush_pages e False s1 of (Inl er, s2) \<Rightarrow> (Err er, s2) | (Inr _, s2) \<Rightarrow> buffer_loop e (drop ?n src) s2)
        else buffer_loop e (drop ?n src) s1)"
      by (subst buffer_loop.simps) (simp only: Let_def s1_def [symmetric] False n0 if_False)
    show ?thesis
    proof (cases "ot_buffered (os_ota s1) = 256")
      case False
      then have n: "?n = length src" using less.prems(1) by (auto simp: s1_def dl_buf_def Let_def)
      then have b: "buffer_loop e src s = (Ok (), s1)"
        unfolding step using False by (simp add: buffer_loop.simps [of e "[]"])
      have "dl_buf content dev_ok e (D @ src) s1"
        using less.prems(1,2) F n False by (auto simp: dl_buf_def Let_def s1_def)
      then show ?thesis using b less.prems(3) fr so by simp
    next
      case True
      obtain r2 s2 where f2: "flush_pages e False s1 = (r2, s2)" by fastforce
      have "ot_write_off ?o + 256 \<le> lo_slot_size (so_lay (sy_st ?y))"
        using True n0 less.prems(1,2) by (auto simp: s1_def dl_buf_def Let_def)
      then have G: "buf_frame s1 s2" "store_sound (oe_store e) dev_ok (os_sys s2)"
        "slots_kept content (so_lay (sy_st ?y)) {ot_slot ?o} (sy_flash ?y) (sy_flash (os_sys s2))"
        "r2 = Ok () \<Longrightarrow> ot_buffered (os_ota s2) = 0 \<and> ot_write_off (os_ota s2) = ot_write_off ?o + 256 \<and>
           ot_page_buf (os_ota s2) = ot_page_buf (os_ota s1) \<and>
           slice (lo_slot_off (so_lay (sy_st ?y)) ! ot_slot ?o) (ot_write_off ?o + 256) (content (sy_flash (os_sys s2))) =
           slice (lo_slot_off (so_lay (sy_st ?y)) ! ot_slot ?o) (ot_write_off ?o) (content (sy_flash ?y)) @ ot_page_buf (os_ota s1)"
        using flush_full [OF p pg _ _ F(2) True _ f2] fr so F(3) less.prems(1)
        by (simp_all add: buf_frame_sel [OF fr(1)] dl_buf_def Let_def)
      have u: "buffer_loop e src s = (case r2 of Inl er \<Rightarrow> (Err er, s2) | Inr _ \<Rightarrow> buffer_loop e (drop ?n src) s2)"
        unfolding step using True f2 by simp
      show ?thesis
      proof (cases r2)
        case (Inl er)
        then show ?thesis using u less.prems(3) G buf_frame_trans [OF fr(1) G(1)] by auto
      next
        case (Inr v)
        then have r2: "r2 = Ok ()" by simp
        note G4 = G(4) [OF r2] and sel = buf_frame_sel [OF buf_frame_trans [OF fr(1) G(1)]]
        have w: "ot_write_off ?o \<le> length D" "ot_write_off ?o mod 256 = 0" "slice (lo_slot_off (so_lay (sy_st ?y)) ! ot_slot ?o)
            (ot_write_off ?o) (content (sy_flash ?y)) = take (ot_write_off ?o) D"
          "length (D @ take ?n src) = ot_write_off ?o + 256"
          using less.prems(1) True by (auto simp: dl_buf_def Let_def s1_def)
        have "ot_page_buf (os_ota s1) = drop (ot_write_off ?o) (D @ take ?n src)" using F(1,2) True by simp
        moreover have "take (ot_write_off ?o) D = take (ot_write_off ?o) (D @ take ?n src)" using w(1) by simp
        ultimately have "slice (lo_slot_off (so_lay (sy_st ?y)) ! ot_slot ?o) (ot_write_off ?o + 256) (content (sy_flash (os_sys s2)))
            = D @ take ?n src"
          using G4 w(3) by (simp only: append_take_drop_id)
        moreover have "length (D @ take ?n src) \<le> ot_total_size ?o" using less.prems(2) by simp
        ultimately have "dl_buf content dev_ok e (D @ take ?n src) s2"
          using G4 F(2) w(4) by (intro dl_buf_flushed [OF less.prems(1) buf_frame_trans [OF fr(1) G(1)] G(2)]) simp_all
        moreover have "length (drop ?n src) < length src" using n0 by auto
        ultimately have "buf_frame s2 s' \<and> store_sound (oe_store e) dev_ok (os_sys s') \<and>
          slots_kept content (so_lay (sy_st (os_sys s2))) {ot_slot (os_ota s2)} (sy_flash (os_sys s2)) (sy_flash (os_sys s')) \<and>
          (r = Ok () \<longrightarrow> dl_buf content dev_ok e ((D @ take ?n src) @ drop ?n src) s')"
          using less.hyps [of "drop ?n src" "D @ take ?n src" s2] less.prems(2,3) u r2 sel by auto
        then have R: "buf_frame s2 s'" "store_sound (oe_store e) dev_ok (os_sys s')"
          "slots_kept content (so_lay (sy_st ?y)) {ot_slot ?o} (sy_flash (os_sys s2)) (sy_flash (os_sys s'))"
          "r = Ok () \<longrightarrow> dl_buf content dev_ok e (D @ src) s'"
          using sel by simp_all
        show ?thesis using buf_frame_trans [OF buf_frame_trans [OF fr(1) G(1)] R(1)] slots_kept_trans [OF G(3) R(3)] R(2,4)
          by simp
      qed
    qed
  qed
qed

end

end
