(* ===== verification/Ota_Safety.thy ===== *)
theory Ota_Safety
  imports Model_Ota
begin

text \<open>
  What an update session guarantees: \<open>dl_session D\<close> describes a session that has received the
  stream \<open>D\<close>; every call of the engine is specified against it, then whole sessions and whole
  histories of calls.
\<close>

section \<open>A download session\<close>

definition dl_session :: "('f \<Rightarrow> u8 list) \<Rightarrow> ('f \<Rightarrow> bool) \<Rightarrow> ('f, 'h) oenv \<Rightarrow> u8 list \<Rightarrow> ('f, 'h) osys \<Rightarrow> bool" where
  "dl_session content dev_ok e D s \<longleftrightarrow> dl_buf content dev_ok e D s \<and>
     ot_state (os_ota s) = SYN_OTA_STATE_DOWNLOADING \<and> ot_received (os_ota s) = length D \<and>
     64 < ot_total_size (os_ota s) \<and> length (ot_name (os_ota s)) = 32 \<and>
     ot_hdr (os_ota s) = take 64 D @ replicate (64 - length D) 0 \<and>
     (64 \<le> length D \<longrightarrow> header_check (os_ota s) = None)"

lemma header_check_cong:
  "ot_hdr o1 = ot_hdr o2 \<Longrightarrow> ot_total_size o1 = ot_total_size o2 \<Longrightarrow> ot_name o1 = ot_name o2 \<Longrightarrow>
   header_check o1 = header_check o2"
  by (simp add: header_check_def)

lemma set_ota_sel [simp]:
  "os_ota (set_ota u s) = u (os_ota s)" "os_sys (set_ota u s) = os_sys s"
  "os_cpu1_held (set_ota u s) = os_cpu1_held s" "os_serving (set_ota u s) = os_serving s"
  by (simp_all add: set_ota_def)

lemma session_clock_sel [simp]:
  "os_ota (session_clock e s) = (os_ota s)\<lparr>ot_session_us := oe_us e\<rparr>" "os_sys (session_clock e s) = os_sys s"
  "os_cpu1_held (session_clock e s) = os_cpu1_held s" "os_serving (session_clock e s) = os_serving s"
  by (simp_all add: session_clock_def)

lemma cpu1_unpark_sel [simp]:
  "os_ota (cpu1_unpark e s) = (os_ota s)\<lparr>ot_cpu1_parked := (ot_cpu1_parked (os_ota s) \<and> \<not> oe_dual e)\<rparr>"
  "os_sys (cpu1_unpark e s) = os_sys s" "os_serving (cpu1_unpark e s) = (os_serving s \<or> oe_dual e)"
  "os_cpu1_held (cpu1_unpark e s) = (os_cpu1_held s \<and> \<not> (oe_dual e \<and> ot_cpu1_parked (os_ota s) \<and> oe_resume_ok e))"
  by (auto simp: cpu1_unpark_def Let_def intro!: ota.equality)

lemma cpu1_park_sel [simp]:
  "os_ota (cpu1_park e s) = (os_ota s)\<lparr>ot_cpu1_parked := (ot_cpu1_parked (os_ota s) \<or> oe_dual e \<and> oe_linked e \<and> oe_stop_ok e)\<rparr>"
  "os_sys (cpu1_park e s) = os_sys s" "os_serving (cpu1_park e s) = os_serving s"
  by (auto simp: cpu1_park_def Let_def intro!: ota.equality)

lemma enter_error_sel:
  assumes "enter_error e er s = (r, s')"
  shows "r = Err er" "os_sys s' = os_sys s" "ot_state (os_ota s') = SYN_OTA_STATE_ERROR"
    "ot_last_error (os_ota s') = Some er" "oe_dual e \<Longrightarrow> os_serving s' \<and> \<not> ot_cpu1_parked (os_ota s')"
    "\<not> oe_dual e \<Longrightarrow> os_serving s' = os_serving s \<and> ot_cpu1_parked (os_ota s') = ot_cpu1_parked (os_ota s)"
  using assms
  by (auto simp: enter_error_def)

definition session_over :: "('f, 'h) oenv \<Rightarrow> ('f, 'h) osys \<Rightarrow> bool" where
  "session_over e s \<longleftrightarrow> ot_state (os_ota s) = SYN_OTA_STATE_ERROR \<and> (oe_dual e \<longrightarrow> os_serving s \<and> \<not> ot_cpu1_parked (os_ota s))"

lemma enter_error_over: "enter_error e er s = (r, s') \<Longrightarrow> session_over e s'"
  using enter_error_sel [of e er s r s'] by (simp add: session_over_def)

lemma capture_header_spec:
  assumes "dl_session content dev_ok e D s" "capture_header src (os_ota s) = (x, o2)"
  shows "o2 = (os_ota s)\<lparr>ot_hdr := take 64 (D @ src) @ replicate (64 - length (D @ src)) 0\<rparr>"
    "64 \<le> length (D @ src) \<Longrightarrow> x = header_check o2" "length (D @ src) < 64 \<Longrightarrow> x = None"
proof -
  have h: "ot_received (os_ota s) = length D" "ot_hdr (os_ota s) = take 64 D @ replicate (64 - length D) 0"
    "64 \<le> length D \<longrightarrow> header_check (os_ota s) = None"
    using assms(1) by (simp_all add: dl_session_def)
  have b: "blit (length D) (take (min (64 - length D) (length src)) src) (take 64 D @ replicate (64 - length D) 0) =
      take 64 (D @ src) @ replicate (64 - length (D @ src)) 0" if "length D < 64"
    using that by (cases "length src \<le> 64 - length D") (auto simp: blit_def min_def)
  show o: "o2 = (os_ota s)\<lparr>ot_hdr := take 64 (D @ src) @ replicate (64 - length (D @ src)) 0\<rparr>"
    using assms(2) h b by (cases "length D < 64") (auto simp: capture_header_def Let_def)
  show "x = header_check o2" if "64 \<le> length (D @ src)"
  proof (cases "length D < 64")
    case True
    then show ?thesis using assms(2) h that by (auto simp: capture_header_def Let_def)
  next
    case False
    then have "x = None \<and> o2 = os_ota s" using assms(2) h by (simp add: capture_header_def)
    then show ?thesis using h False by simp
  qed
  show "x = None" if "length (D @ src) < 64"
    using assms(2) h that by (auto simp: capture_header_def Let_def)
qed

lemma dl_buf_ota_hdr: "dl_buf content dev_ok e D (s\<lparr>os_ota := (os_ota s)\<lparr>ot_hdr := h\<rparr>\<rparr>) = dl_buf content dev_ok e D s"
  by (simp add: dl_buf_def Let_def)

lemma dl_buf_clock: "dl_buf content dev_ok e D (session_clock e (set_ota (\<lambda>o3. o3\<lparr>ot_received := n\<rparr>) s)) =
    dl_buf content dev_ok e D s"
  by (simp add: dl_buf_def Let_def)

text \<open>What every call keeps, whatever it returns.\<close>

definition ota_frame :: "('f \<Rightarrow> u8 list) \<Rightarrow> ('f \<Rightarrow> bool) \<Rightarrow> ('f, 'h) oenv \<Rightarrow> nat set \<Rightarrow> ('f, 'h) osys \<Rightarrow> ('f, 'h) osys \<Rightarrow> bool" where
  "ota_frame content dev_ok e X s s' \<longleftrightarrow> store_sound (oe_store e) dev_ok (os_sys s') \<and>
     so_lay (sy_st (os_sys s')) = so_lay (sy_st (os_sys s)) \<and>
     slots_kept content (so_lay (sy_st (os_sys s))) X (sy_flash (os_sys s)) (sy_flash (os_sys s'))"

lemma ota_frame_error:
  "enter_error e er s1 = (r, s') \<Longrightarrow> ota_frame content dev_ok e X s s1 \<Longrightarrow> ota_frame content dev_ok e X s s'"
  by (simp add: ota_frame_def enter_error_sel(2))

lemma ceil_page_ge: "0 < (page :: nat) \<Longrightarrow> n \<le> (n + page - 1) div page * page"
proof -
  assume "0 < page"
  then have "(n + page - 1) mod page < page" by simp
  then show ?thesis using div_mult_mod_eq [of "n + page - 1" page] \<open>0 < page\<close> by linarith
qed

lemma ceil_page_le: "n \<le> m \<Longrightarrow> page dvd m \<Longrightarrow> 0 < (page :: nat) \<Longrightarrow> (n + page - 1) div page * page \<le> m"
proof (elim dvdE)
  fix k assume k: "n \<le> m" "0 < page" "m = page * k"
  then have "n + page - 1 < page * Suc k" by simp
  then have "(n + page - 1) div page < Suc k" by (simp add: div_less_iff_less_mult k(2) mult.commute)
  then have "(n + page - 1) div page * page \<le> k * page" by simp
  then show ?thesis using k(3) by (simp add: mult.commute)
qed

context flash_reliable
begin

lemma write_chunk_spec:
  assumes p: "se_port (oe_store e) = port" and d: "dl_session content dev_ok e D s"
    and len: "length D + length src < 2 ^ 32" and src: "src \<noteq> []"
    and r: "syn_ota_write_chunk e (Some src) s = (r, s')"
  shows "ota_frame content dev_ok e {ot_slot (os_ota s)} s s'" "sy_st (os_sys s') = sy_st (os_sys s)"
    "sy_reg (os_sys s') = sy_reg (os_sys s)" "length (ot_page_buf (os_ota s')) = 256"
    "r = Ok () \<Longrightarrow> dl_session content dev_ok e (D @ src) s' \<and> ot_slot (os_ota s') = ot_slot (os_ota s) \<and>
       ot_total_size (os_ota s') = ot_total_size (os_ota s) \<and> ot_name (os_ota s') = ot_name (os_ota s)"
    "r = Err er \<Longrightarrow> session_over e s' \<and> ot_last_error (os_ota s') = Some er"
proof -
  let ?o = "os_ota s"
  have h: "ot_state ?o = SYN_OTA_STATE_DOWNLOADING" "ot_received ?o = length D" "dl_buf content dev_ok e D s"
    using d by (simp_all add: dl_session_def)
  have so: "store_sound (oe_store e) dev_ok (os_sys s)" and pg: "256 mod fp_page_size port = 0"
    using h(3) p by (auto simp: dl_buf_def Let_def store_sound_def store_wf_def layout_sound_def)
  have fr0: "ota_frame content dev_ok e {ot_slot ?o} s s" using so by (simp add: ota_frame_def)
  obtain x o2 where c: "capture_header src ?o = (x, o2)" by fastforce
  note C = capture_header_spec [OF d c]
  let ?s1 = "s\<lparr>os_ota := o2\<rparr>"
  have fr1: "ota_frame content dev_ok e {ot_slot ?o} s ?s1" using so by (simp add: ota_frame_def)
  obtain r2 s2 where b: "buffer_loop e src ?s1 = (r2, s2)" by fastforce
  have u: "(r, s') = (if ot_total_size ?o < length D + length src then enter_error e EFBIG s
     else case x of Some er \<Rightarrow> enter_error e er ?s1
     | None \<Rightarrow> (case r2 of Inl er \<Rightarrow> enter_error e er s2
        | Inr _ \<Rightarrow> (Ok (), session_clock e (set_ota (\<lambda>o3. o3\<lparr>ot_received := ot_received o3 + length src\<rparr>) s2))))"
    using r len src h c b by (auto simp: syn_ota_write_chunk_def split: option.splits sum.splits)
  have B: "buf_frame ?s1 s2" "ota_frame content dev_ok e {ot_slot ?o} s s2"
    "r2 = Ok () \<longrightarrow> dl_buf content dev_ok e (D @ src) s2" if "\<not> ot_total_size ?o < length D + length src"
  proof -
    have "dl_buf content dev_ok e D ?s1" using h(3) C(1) dl_buf_ota_hdr by metis
    note B = buffer_loop_spec [OF p pg this _ b]
    show "buf_frame ?s1 s2" "r2 = Ok () \<longrightarrow> dl_buf content dev_ok e (D @ src) s2" using B that C(1) by auto
    show "ota_frame content dev_ok e {ot_slot ?o} s s2"
      using B that C(1) buf_frame_sel(8) [of ?s1 s2] by (auto simp: ota_frame_def)
  qed
  note S = buf_frame_sel [OF B(1)]
  consider (big) "enter_error e EFBIG s = (r, s')" | (hdr) er where "enter_error e er ?s1 = (r, s')"
    | (wr) er where "\<not> ot_total_size ?o < length D + length src" "enter_error e er s2 = (r, s')"
    | (ok) "\<not> ot_total_size ?o < length D + length src" "x = None" "r2 = Ok ()" "r = Ok ()"
       "s' = session_clock e (set_ota (\<lambda>o3. o3\<lparr>ot_received := ot_received o3 + length src\<rparr>) s2)"
    using u by (auto split: if_splits option.splits sum.splits)
  note cases = this
  show "ota_frame content dev_ok e {ot_slot ?o} s s'"
    using cases
  proof cases
    case ok
    then show ?thesis using B(2) by (simp add: ota_frame_def)
  qed (use ota_frame_error fr0 fr1 B(2) in blast)+
  show "sy_st (os_sys s') = sy_st (os_sys s)" "sy_reg (os_sys s') = sy_reg (os_sys s)"
    using cases B(1) by (cases; simp add: enter_error_sel(2) buf_frame_def)+
  have pb: "length (ot_page_buf ?o) = 256" using h(3) by (simp add: dl_buf_def Let_def)
  show "length (ot_page_buf (os_ota s')) = 256"
    using cases
  proof cases
    case wr
    then show ?thesis using S(11) [OF wr(1)] pb C(1) by (auto simp: enter_error_def)
  next
    case ok
    then show ?thesis using S(11) [OF ok(1)] pb C(1) by simp
  qed (use pb C(1) in \<open>auto simp: enter_error_def\<close>)
  show "session_over e s' \<and> ot_last_error (os_ota s') = Some er" if "r = Err er"
    using cases that by cases (auto dest: enter_error_sel(1,4) enter_error_over)
  show "dl_session content dev_ok e (D @ src) s' \<and> ot_slot (os_ota s') = ot_slot (os_ota s) \<and>
       ot_total_size (os_ota s') = ot_total_size (os_ota s) \<and> ot_name (os_ota s') = ot_name (os_ota s)" if "r = Ok ()"
    using cases
  proof cases
    case ok
    have sel: "ot_hdr (os_ota s') = ot_hdr o2" "ot_slot (os_ota s') = ot_slot ?o" "ot_total_size (os_ota s') = ot_total_size ?o"
      "ot_name (os_ota s') = ot_name ?o" "ot_received (os_ota s') = length D + length src"
      "ot_state (os_ota s') = SYN_OTA_STATE_DOWNLOADING"
      using S [OF ok(1)] ok(5) C(1) h by simp_all
    have "dl_buf content dev_ok e (D @ src) s'" using B(3) [OF ok(1)] ok(3,5) by (simp add: dl_buf_def Let_def)
    moreover have "header_check (os_ota s') = None" if "64 \<le> length (D @ src)"
      using C(1,2) that ok(2) sel header_check_cong [of "os_ota s'" o2] by simp
    ultimately show ?thesis using sel d C(1) by (simp add: dl_session_def)
  qed (use that enter_error_sel(1) in fastforce)+
qed

lemma flush_final:
  assumes p: "se_port (oe_store e) = port" and geo: "geometry_ok port" and d: "dl_buf content dev_ok e D s"
    and r: "flush_pages e True s = (r, s')"
  shows "buf_frame s s'" "ota_frame content dev_ok e {ot_slot (os_ota s)} s s'"
    "r = Ok () \<Longrightarrow> slice (lo_slot_off (so_lay (sy_st (os_sys s))) ! ot_slot (os_ota s)) (length D) (content (sy_flash (os_sys s'))) = D"
proof -
  let ?o = "os_ota s" and ?y = "os_sys s" let ?lay = "so_lay (sy_st ?y)" let ?off = "lo_slot_off ?lay ! ot_slot ?o"
  let ?pg = "fp_page_size port" let ?b = "ot_buffered ?o" and ?w = "ot_write_off ?o"
  have h: "store_sound (oe_store e) dev_ok ?y" "ot_slot ?o < lo_slot_count ?lay" "length (ot_page_buf ?o) = 256"
      "?b < 256" "?w + ?b = length D" "?w mod 256 = 0" "take ?b (ot_page_buf ?o) = drop ?w D" "length D \<le> lo_slot_size ?lay"
      "slice ?off ?w (content (sy_flash ?y)) = take ?w D"
    using d by (auto simp: dl_buf_def Let_def)
  have lay: "layout_sound (se_max (oe_store e)) port ?lay" using h(1) p by (simp add: store_sound_def store_wf_def)
  then have pg: "?pg dvd 256" "region_ok port (layout_regions ?lay ! (2 + ot_slot ?o))"
    using h(2) by (auto simp: layout_sound_def)
  then have szs: "?pg dvd lo_slot_size ?lay" "?pg dvd ?w"
    using layout_region_nth(2) [OF h(2)] geo h(6)
    by (auto simp: region_ok_def geometry_ok_def mod_eq_0_iff_dvd intro: dvd_trans)
  define n where "n = (?b + ?pg - 1) div ?pg * ?pg"
  define buf where "buf = (if n > ?b then blit ?b (replicate (n - ?b) 0xFF) (ot_page_buf ?o) else ot_page_buf ?o)"
  have up: "n \<le> m" if "?b \<le> m" "?pg dvd m" for m using that geometry(1) unfolding n_def by (rule ceil_page_le)
  have nb: "?b \<le> n" unfolding n_def by (rule ceil_page_ge [OF geometry(1)])
  have n: "n \<le> 256" "?w + n \<le> lo_slot_size ?lay"
  proof -
    show "n \<le> 256" using up [of 256] pg(1) h(4) by simp
    have "?b \<le> lo_slot_size ?lay - ?w" "?w \<le> lo_slot_size ?lay" using h(5,8) by linarith+
    then show "?w + n \<le> lo_slot_size ?lay" using up [of "lo_slot_size ?lay - ?w"] szs by (simp add: dvd_diff_nat)
  qed
  have buf: "length buf = 256" "take ?b buf = drop ?w D"
  proof -
    show "length buf = 256" using h(3,4) n by (simp add: buf_def)
    have "take ?b buf = take ?b (ot_page_buf ?o)" using h(3,4) by (simp add: buf_def blit_def)
    then show "take ?b buf = drop ?w D" using h(7) by simp
  qed
  have lw: "length (take n buf) = n" using buf n by simp
  obtain r1 f1 where e1: "syn_flash_write port (?off + ?w) (take n buf) (sy_flash ?y) = (r1, f1)" by fastforce
  note A = slot_area_write [OF p h(1,2) _ e1, unfolded lw, OF n(2)]
  have eq: "r = (if n = 0 then Ok () else r1) \<and> s' = (if n = 0 then s else case r1 of
        Inl er \<Rightarrow> s\<lparr>os_ota := ?o\<lparr>ot_page_buf := buf\<rparr>, os_sys := ?y\<lparr>sy_flash := f1\<rparr>\<rparr>
      | Inr _ \<Rightarrow> s\<lparr>os_sys := ?y\<lparr>sy_flash := f1\<rparr>, os_ota := ?o\<lparr>ot_write_off := ?w + n, ot_buffered := ?b - min ?b n,
          ot_page_buf := (if ?b - min ?b n > 0 then blit 0 (slice n (?b - min ?b n) buf) buf else buf)\<rparr>\<rparr>)"
    using r unfolding flush_pages_def Let_def p if_True simp_thms n_def [symmetric] buf_def [symmetric]
    using e1 by (cases r1) (auto split: if_split_asm)
  have "length (ot_page_buf (os_ota s')) = 256" using eq buf(1) h(3) nb by (cases r1) (simp_all split: if_split_asm)
  then show "buf_frame s s'" using eq unfolding buf_frame_def by (cases r1) (simp_all split: if_split_asm)
  show "ota_frame content dev_ok e {ot_slot ?o} s s'"
    using eq A(1,2) h(1) by (cases r1) (auto simp: ota_frame_def split: if_split_asm)
  show "slice ?off (length D) (content (sy_flash (os_sys s'))) = D" if "r = Ok ()"
  proof (cases "n = 0")
    case True
    then have "?b = 0" using nb by simp
    then show ?thesis using eq True h(5,9) by simp
  next
    case False
    then have f: "r1 = Ok ()" "sy_flash (os_sys s') = f1" using eq that by auto
    have "slice (?off + ?w) ?b (content f1) = take ?b (slice (?off + ?w) n (content f1))"
      using nb by (simp add: slice_def min_def)
    also have "\<dots> = drop ?w D" using A(4) [OF f(1)] buf(2) nb by (simp add: min_def)
    finally show ?thesis
      using A(3) h(5,9) f(2) slice_append [of ?off ?w ?b "content f1"] by (metis append_take_drop_id)
  qed
qed

lemma ota_crc_ok:
  assumes "crc_running upd" "dev_ok f" "off + sz \<le> fp_size port"
  shows "pos \<le> sz \<Longrightarrow> ota_crc_loop upd port off sz pos crc f = Ok (upd crc (slice (off + pos) (sz - pos) (content f)))"
proof (induction "sz - pos" arbitrary: pos crc rule: less_induct)
  case less
  show ?case
  proof (cases "pos < sz")
    case True
    let ?n = "min 128 (sz - pos)"
    have r: "syn_flash_read port (off + pos) ?n f = Ok (slice (off + pos) ?n (content f))"
      using True assms(2,3) by (simp add: read_eq)
    have "ota_crc_loop upd port off sz pos crc f =
        ota_crc_loop upd port off sz (pos + ?n) (upd crc (slice (off + pos) ?n (content f))) f"
      using True r by (subst ota_crc_loop.simps) (simp add: Let_def)
    also have "\<dots> = Ok (upd (upd crc (slice (off + pos) ?n (content f))) (slice (off + (pos + ?n)) (sz - (pos + ?n)) (content f)))"
      using True by (intro less.hyps) auto
    also have "upd (upd crc (slice (off + pos) ?n (content f))) (slice (off + (pos + ?n)) (sz - (pos + ?n)) (content f)) =
        upd crc (slice (off + pos) ?n (content f) @ slice (off + pos + ?n) (sz - pos - ?n) (content f))"
      using assms(1) by (simp add: crc_running_def add.assoc)
    also have "slice (off + pos) ?n (content f) @ slice (off + pos + ?n) (sz - pos - ?n) (content f) =
        slice (off + pos) (sz - pos) (content f)"
      using slice_append [of "off + pos" ?n "sz - pos - ?n" "content f"] True by simp
    finally show ?thesis .
  next
    case False
    then show ?thesis using less.prems assms(1) by (subst ota_crc_loop.simps) (simp add: crc_running_def)
  qed
qed

lemma finish_spec:
  assumes p: "se_port (oe_store e) = port" and geo: "geometry_ok port" and crc: "crc_running (se_upd (oe_store e))"
    and d: "dl_session content dev_ok e D s" and r: "syn_ota_finish e s = (r, s')"
  shows "ota_frame content dev_ok e {ot_slot (os_ota s)} s s'" "length (ot_page_buf (os_ota s')) = 256"
    "r = Ok () \<Longrightarrow> length D = ot_total_size (os_ota s) \<and> header_check (os_ota s) = None \<and> ot_hdr (os_ota s) = take 64 D \<and>
       slice (lo_slot_off (so_lay (sy_st (os_sys s))) ! ot_slot (os_ota s)) (length D) (content (sy_flash (os_sys s'))) = D \<and>
       se_crc (oe_store e) (drop 64 D) = sy_crc32 (take 64 D) \<and>
       ot_state (os_ota s') = SYN_OTA_STATE_READY \<and> ot_slot (os_ota s') = ot_slot (os_ota s) \<and>
       pfields (sy_st (os_sys s')) = (so_active (sy_st (os_sys s)), so_prev (sy_st (os_sys s)), ot_slot (os_ota s),
         set_bit (ot_slot (os_ota s)) (so_occ (sy_st (os_sys s))), (so_rec (sy_st (os_sys s)))[ot_slot (os_ota s) :=
           ota_info (os_ota s) (fp_base port + lo_slot_off (so_lay (sy_st (os_sys s))) ! ot_slot (os_ota s) + 64)])"
    "r = Err er \<Longrightarrow> session_over e s' \<and> ot_last_error (os_ota s') = Some er \<and>
       pfields (sy_st (os_sys s')) = pfields (sy_st (os_sys s))"
proof -
  let ?o = "os_ota s" let ?st = "sy_st (os_sys s)" let ?slot = "ot_slot ?o" let ?off = "lo_slot_off (so_lay ?st) ! ?slot"
  have h: "ot_state ?o = SYN_OTA_STATE_DOWNLOADING" "ot_received ?o = length D" "dl_buf content dev_ok e D s"
      "64 < ot_total_size ?o" "length (ot_name ?o) = 32" "ot_hdr ?o = take 64 D @ replicate (64 - length D) 0"
      "64 \<le> length D \<longrightarrow> header_check ?o = None"
    using d by (auto simp: dl_session_def)
  have b: "store_sound (oe_store e) dev_ok (os_sys s)" "?slot < lo_slot_count (so_lay ?st)" "?slot \<noteq> so_active ?st"
      "ot_total_size ?o \<le> lo_slot_size (so_lay ?st)"
    using h(3) by (auto simp: dl_buf_def Let_def)
  have lay: "layout_sound (se_max (oe_store e)) port (so_lay ?st)" using b(1) p by (simp add: store_sound_def store_wf_def)
  have fr0: "ota_frame content dev_ok e {?slot} s s" using b by (simp add: ota_frame_def)
  show "ota_frame content dev_ok e {?slot} s s'" (is ?A) "length (ot_page_buf (os_ota s')) = 256" (is ?L)
    "r = Ok () \<Longrightarrow> length D = ot_total_size ?o \<and> header_check ?o = None \<and> ot_hdr ?o = take 64 D \<and>
       slice ?off (length D) (content (sy_flash (os_sys s'))) = D \<and>
       se_crc (oe_store e) (drop 64 D) = sy_crc32 (take 64 D) \<and>
       ot_state (os_ota s') = SYN_OTA_STATE_READY \<and> ot_slot (os_ota s') = ?slot \<and>
       pfields (sy_st (os_sys s')) = (so_active ?st, so_prev ?st, ?slot,
         set_bit ?slot (so_occ ?st), (so_rec ?st)[?slot := ota_info ?o (fp_base port + ?off + 64)])" (is "_ \<Longrightarrow> ?B")
    "r = Err er \<Longrightarrow> session_over e s' \<and> ot_last_error (os_ota s') = Some er \<and>
       pfields (sy_st (os_sys s')) = pfields ?st" (is "_ \<Longrightarrow> ?C")
  proof -
    have pb: "length (ot_page_buf ?o) = 256" using h(3) by (simp add: dl_buf_def Let_def)
    have fail: "?A \<and> ?L \<and> (r = Ok () \<longrightarrow> ?B) \<and> (r = Err er \<longrightarrow> ?C)"
      if "enter_error e er1 s1 = (r, s')" "ota_frame content dev_ok e {?slot} s s1" "pfields (sy_st (os_sys s1)) = pfields ?st"
        "length (ot_page_buf (os_ota s1)) = 256" for er1 s1
    proof -
      have ?L using that(1,4) by (auto simp: enter_error_def)
      then show ?thesis using enter_error_sel [OF that(1)] enter_error_over [OF that(1)] ota_frame_error [OF that(1,2)] that(3) by simp
    qed
    have "?A \<and> ?L \<and> (r = Ok () \<longrightarrow> ?B) \<and> (r = Err er \<longrightarrow> ?C)"
    proof (cases "length D = ot_total_size ?o")
      case False
      then show ?thesis using r h(1,2) by (intro fail [of ENODATA s, OF _ fr0 refl pb]) (simp add: syn_ota_finish_def)
    next
      case True
      then have hd: "ot_hdr ?o = take 64 D" "header_check ?o = None" using h by simp_all
      then have ms: "sy_model_size (take 64 D) = length D - 64"
        using True by (auto simp: header_check_def split: if_split_asm)
      obtain r1 s1 where f: "flush_pages e True s = (r1, s1)" by fastforce
      note F = flush_final [OF p geo h(3) f] and S = buf_frame_sel [OF flush_final(1) [OF p geo h(3) f]]
      show ?thesis
      proof (cases r1)
        case (Inl er1)
        then show ?thesis using r h(1,2) True f S(8,11) pb by (intro fail [of er1 s1, OF _ F(2)]) (simp_all add: syn_ota_finish_def)
      next
        case (Inr v)
        define s2 where "s2 = set_ota (\<lambda>o1. o1\<lparr>ot_state := SYN_OTA_STATE_VALIDATING\<rparr>) s1"
        define crc where "crc = ota_crc_loop (se_upd (oe_store e)) port (?off + 64) (length D - 64) 0 0 (sy_flash (os_sys s1))"
        have s2: "os_sys s2 = os_sys s1" "ot_slot (os_ota s2) = ?slot" "ot_hdr (os_ota s2) = take 64 D"
            "length (ot_page_buf (os_ota s2)) = 256"
          using S(1-10) S(11) [OF pb] hd(1) by (simp_all add: s2_def)
        have fr2: "ota_frame content dev_ok e {?slot} s s2" using F(2) s2(1) by (simp add: ota_frame_def)
        have info: "ota_info (os_ota s2) n = ota_info ?o n" for n
          using S hd(1) by (simp add: ota_info_def s2_def)
        have u: "(r, s') = (case crc of Inl er1 \<Rightarrow> enter_error e er1 s2 | Inr c \<Rightarrow>
            if c \<noteq> sy_crc32 (take 64 D) then enter_error e EILSEQ s2
            else (case syn_store_mark_staged (oe_store e) ?slot (Some (ota_info ?o (fp_base port + ?off + 64))) (os_sys s1) of
               (Inl er1, y) \<Rightarrow> enter_error e er1 ((set_ota (\<lambda>o1. o1\<lparr>ot_state := SYN_OTA_STATE_STAGING\<rparr>) s2)\<lparr>os_sys := y\<rparr>)
             | (Inr _, y) \<Rightarrow> (Ok (), session_clock e (set_ota (\<lambda>o1. o1\<lparr>ot_state := SYN_OTA_STATE_READY\<rparr>)
                    ((set_ota (\<lambda>o1. o1\<lparr>ot_state := SYN_OTA_STATE_STAGING\<rparr>) s2)\<lparr>os_sys := y\<rparr>)))))"
          using r [symmetric]
          unfolding syn_ota_finish_def Let_def h(1,2) True f Inr prod.case sum.case simp_thms if_False
            s2_def [symmetric] set_ota_sel(2) s2 S(8) p ms [unfolded True] info crc_def .
        show ?thesis
        proof (cases crc)
          case (Inl er1)
          then show ?thesis using u s2(1,4) S(8) by (intro fail [of er1 s2, OF _ fr2]) simp_all
        next
          case (Inr c)
          show ?thesis
          proof (cases "c = sy_crc32 (take 64 D)")
            case False
            then show ?thesis using u Inr s2(1,4) S(8) by (intro fail [of EILSEQ s2, OF _ fr2]) simp_all
          next
            case True2: True
            obtain r3 y where m: "syn_store_mark_staged (oe_store e) ?slot (Some (ota_info ?o (fp_base port + ?off + 64))) (os_sys s1) = (r3, y)"
              by fastforce
            have so1: "store_sound (oe_store e) dev_ok (os_sys s1)" using F(2) by (simp add: ota_frame_def)
            have iok: "info_ok (ota_info ?o (fp_base port + ?off + 64))"
              using h(5) by (simp add: info_ok_def ota_info_def shape_bytes_def sy_in_shape_def sy_out_shape_def)
            note M = mark_staged_effect [OF p so1 _ m]
            have E: "store_sound (oe_store e) dev_ok y" "so_lay (sy_st y) = so_lay ?st"
              "slots_kept content (so_lay ?st) {} (sy_flash (os_sys s1)) (sy_flash y)"
              "r3 = Ok () \<longrightarrow> pfields (sy_st y) = (so_active ?st, so_prev ?st, ?slot,
                 set_bit ?slot (so_occ ?st), (so_rec ?st)[?slot := ota_info ?o (fp_base port + ?off + 64)])"
              "r3 \<noteq> Ok () \<longrightarrow> pfields (sy_st y) = pfields ?st"
              using M iok so1 S(8) by (auto simp: op_effect_def)
            have fr3: "ota_frame content dev_ok e {?slot} s (w\<lparr>os_sys := y\<rparr>)" for w
              using F(2) E slots_kept_trans [of "so_lay ?st" "{?slot}" _ _ "{}"] by (auto simp: ota_frame_def)
            show ?thesis
            proof (cases r3)
              case (Inl er1)
              then show ?thesis using u \<open>crc = Inr c\<close> True2 m E(5) s2(4) by (intro fail [of er1 "(set_ota (\<lambda>o1. o1\<lparr>ot_state := SYN_OTA_STATE_STAGING\<rparr>) s2)\<lparr>os_sys := y\<rparr>", OF _ fr3]) simp_all
            next
              case (Inr v3)
              let ?sz = "lo_slot_size (so_lay ?st)"
              have s': "r = Ok ()" "os_sys s' = y" "ot_state (os_ota s') = SYN_OTA_STATE_READY" "ot_slot (os_ota s') = ?slot"
                "length (ot_page_buf (os_ota s')) = 256"
                using u \<open>crc = Inr c\<close> True2 m Inr s2 by simp_all
              have rg: "?off + ?sz \<le> fp_size port" by (rule slot_region [OF lay b(2)])
              have land: "slice ?off (length D) (content (sy_flash (os_sys s1))) = D" using F(3) \<open>r1 = Inr v\<close> by simp
              have keep: "slice ?off (length D) (content (sy_flash y)) = slice ?off (length D) (content (sy_flash (os_sys s1)))"
              proof -
                have "slice ?off ?sz (content (sy_flash y)) = slice ?off ?sz (content (sy_flash (os_sys s1)))"
                  using E(3) b(2) by (simp add: slots_kept_def)
                then have "slice 0 (length D) (slice ?off ?sz (content (sy_flash y))) =
                    slice 0 (length D) (slice ?off ?sz (content (sy_flash (os_sys s1))))" by simp
                then show ?thesis using b(4) True by (simp add: slice_slice)
              qed
              have "c = se_upd (oe_store e) 0 (slice (?off + 64) (length D - 64) (content (sy_flash (os_sys s1))))"
                using ota_crc_ok [OF crc, of "sy_flash (os_sys s1)" "?off + 64" "length D - 64" 0 0] \<open>crc = Inr c\<close> so1 rg b(4) True h(4)
                by (simp add: crc_def store_sound_def)
              also have "slice (?off + 64) (length D - 64) (content (sy_flash (os_sys s1))) = drop 64 D"
                using slice_slice [of 64 "length D - 64" "length D" ?off "content (sy_flash (os_sys s1))"] land True h(4) by (simp add: slice_def)
              finally have "se_crc (oe_store e) (drop 64 D) = sy_crc32 (take 64 D)" using True2 by (simp add: se_crc_def)
              moreover have "ota_frame content dev_ok e {?slot} s s'" using fr3 [of s'] s'(2) by (simp add: ota_frame_def)
              ultimately show ?thesis using s' True hd E(4) Inr keep land by simp
            qed
          qed
        qed
      qed
    qed
    then show ?A ?L "r = Ok () \<Longrightarrow> ?B" "r = Err er \<Longrightarrow> ?C" by blast+
  qed
qed

lemma erase_slot_keep:
  assumes p: "se_port e = port" and geo: "geometry_ok port" and so: "store_sound e dev_ok y"
    and sl: "slot < lo_slot_count (so_lay (sy_st y))" and n: "n \<le> lo_slot_size (so_lay (sy_st y))"
    and w: "syn_flash_erase_sectors port (lo_slot_off (so_lay (sy_st y)) ! slot) (round_up n (fp_sector_size port)) (sy_flash y) = (r, f')"
  shows "store_sound e dev_ok (y\<lparr>sy_flash := f'\<rparr>)" "slots_kept content (so_lay (sy_st y)) {slot} (sy_flash y) f'"
    "r = Ok () \<Longrightarrow> slice (lo_slot_off (so_lay (sy_st y)) ! slot) (round_up n (fp_sector_size port)) (content f') =
       replicate (round_up n (fp_sector_size port)) 0xFF"
proof -
  let ?lay = "so_lay (sy_st y)" let ?sec = "fp_sector_size port"
  have h: "dev_ok (sy_flash y)" and lay: "layout_sound (se_max e) port ?lay"
    using so p by (simp_all add: store_sound_def store_wf_def)
  have "region_ok port (layout_regions ?lay ! (2 + slot))" using lay sl by (simp add: layout_sound_def)
  then have m: "lo_slot_size ?lay mod ?sec = 0" using layout_region_nth(2) [OF sl] by (simp add: region_ok_def)
  have sz: "lo_slot_size ?lay \<le> 2 ^ 31" "0 < lo_slot_size ?lay"
    using slot_region [OF lay sl] geo lay by (auto simp: geometry_ok_def layout_sound_def)
  have "?sec \<le> lo_slot_size ?lay" using m sz(2) by (auto simp: mod_eq_0_iff_dvd intro: dvd_imp_le)
  then have "n + ?sec \<le> 2 ^ 31 + 2 ^ 31" using n sz(1) by linarith
  then have "n + ?sec - 1 < 2 ^ 32" using geometry(2) by simp
  then have k: "0 + round_up n ?sec \<le> lo_slot_size ?lay" using round_up_fits [OF n m geometry(2)] by simp
  note E = erase_sectors_spec [OF h w] and K = slot_area_keep [OF p so sl k E(1)]
  show "store_sound e dev_ok (y\<lparr>sy_flash := f'\<rparr>)" "slots_kept content ?lay {slot} (sy_flash y) f'"
    using K E(2) by auto
  show "slice (lo_slot_off ?lay ! slot) (round_up n ?sec) (content f') = replicate (round_up n ?sec) 0xFF" if "r = Ok ()"
    using E(3) that by simp
qed

lemma begin_spec:
  assumes p: "se_port (oe_store e) = port" and geo: "geometry_ok port" and so: "store_sound (oe_store e) dev_ok (os_sys s)"
    and pb: "length (ot_page_buf (os_ota s)) = 256" and r: "syn_ota_begin e nm n s = (r, s')"
  shows "\<exists>X. so_active (sy_st (os_sys s)) \<notin> X \<and> ota_frame content dev_ok e X s s'"
    "so_active (sy_st (os_sys s')) = so_active (sy_st (os_sys s))" "length (ot_page_buf (os_ota s')) = 256"
    "r = Ok () \<Longrightarrow> \<exists>name. nm = Some name \<and> dl_session content dev_ok e [] s' \<and>
       syn_store_staging_slot True (sy_st (os_sys s)) = Ok (ot_slot (os_ota s')) \<and>
       ot_total_size (os_ota s') = n \<and> ot_name (os_ota s') = strncpy_z name 32"
    "r \<noteq> Ok () \<Longrightarrow> os_ota s' = os_ota s \<and> os_sys s' = os_sys s \<and> (os_serving s' = os_serving s \<or> os_serving s') \<or> session_over e s'"
proof -
  let ?st = "sy_st (os_sys s)" let ?lay = "so_lay ?st"
  let ?act = "so_active ?st"
  let ?G = "(\<exists>X. ?act \<notin> X \<and> ota_frame content dev_ok e X s s') \<and> so_active (sy_st (os_sys s')) = ?act \<and>
    length (ot_page_buf (os_ota s')) = 256 \<and>
    (r = Ok () \<longrightarrow> (\<exists>name. nm = Some name \<and> dl_session content dev_ok e [] s' \<and>
       syn_store_staging_slot True ?st = Ok (ot_slot (os_ota s')) \<and>
       ot_total_size (os_ota s') = n \<and> ot_name (os_ota s') = strncpy_z name 32)) \<and>
    (r \<noteq> Ok () \<longrightarrow> os_ota s' = os_ota s \<and> os_sys s' = os_sys s \<and> (os_serving s' = os_serving s \<or> os_serving s') \<or> session_over e s')"
  have fr0: "ota_frame content dev_ok e {} s t" if "os_sys t = os_sys s" for t
    using so that by (simp add: ota_frame_def)
  have early: ?G if "r \<noteq> Ok ()" "os_sys s' = os_sys s" "os_ota s' = os_ota s" "os_serving s' = os_serving s \<or> os_serving s'"
    using that fr0 [of s'] pb by (auto intro!: exI [of _ "{}"])
  have start: ?G if st: "syn_store_staging_slot True ?st = Ok slot" and nm: "nm = Some name" "64 < n" "n \<le> lo_slot_size ?lay"
    and u: "ota_start e name n slot (lo_slot_off ?lay ! slot) t = (r, s')" and t: "os_sys t = os_sys s" "os_ota t = os_ota s" for slot name t
  proof -
    define s1 where "s1 = (if syn_store_staged_slot ?st \<noteq> SLOT_NONE
                then t\<lparr>os_sys := snd (syn_store_clear_staged (oe_store e) (os_sys s))\<rparr> else t)"
    define s2 where "s2 = cpu1_park e (set_ota (\<lambda>o1. o1\<lparr>ot_slot := slot, ot_total_size := n, ot_received := 0,
                 ot_buffered := 0, ot_write_off := 0, ot_last_error := None,
                 ot_name := strncpy_z name 32, ot_hdr := replicate 64 0\<rparr>) s1)"
    obtain r1 y where b: "syn_store_begin_staging (oe_store e) slot (os_sys s2) = (r1, y)" by fastforce
    have S1: "store_sound (oe_store e) dev_ok (os_sys s1)" "so_lay (sy_st (os_sys s1)) = ?lay"
      "slots_kept content ?lay {} (sy_flash (os_sys s)) (sy_flash (os_sys s1))" "so_active (sy_st (os_sys s1)) = ?act"
    proof -
      obtain r0 y0 where c: "syn_store_clear_staged (oe_store e) (os_sys s) = (r0, y0)" by fastforce
      have "store_sound (oe_store e) dev_ok y0 \<and> so_lay (sy_st y0) = ?lay \<and>
          slots_kept content ?lay {} (sy_flash (os_sys s)) (sy_flash y0) \<and> so_active (sy_st y0) = ?act"
        using clear_staged_effect [OF p so c] so by (cases "r0 = Ok ()") (auto simp: op_effect_def pfields_def)
      then show "store_sound (oe_store e) dev_ok (os_sys s1)" "so_lay (sy_st (os_sys s1)) = ?lay"
        "slots_kept content ?lay {} (sy_flash (os_sys s)) (sy_flash (os_sys s1))" "so_active (sy_st (os_sys s1)) = ?act"
        using so c t by (auto simp: s1_def)
    qed
    have o1: "os_ota s1 = os_ota s" using t by (simp add: s1_def)
    have s2: "os_sys s2 = os_sys s1" by (simp add: s2_def)
    note B = begin_staging_sound [OF p S1(1) b [unfolded s2]]
    have frb: "ota_frame content dev_ok e {} s (w\<lparr>os_sys := y\<rparr>)" for w
      using B(1-3) S1(2,3) slots_kept_trans [OF S1(3), of "{}" "sy_flash y"] by (simp add: ota_frame_def)
    have actb: "so_active (sy_st y) = ?act" using B(4) S1(4) by simp
    obtain r2 f where er: "syn_flash_erase_sectors port (lo_slot_off ?lay ! slot) (round_up n (fp_sector_size port)) (sy_flash y) = (r2, f)"
      by fastforce
    have u: "(r, s') = (case r1 of Inl er \<Rightarrow> enter_error e er (s2\<lparr>os_sys := y\<rparr>)
      | Inr _ \<Rightarrow> (case r2 of Inl er \<Rightarrow> enter_error e er (s2\<lparr>os_sys := y\<lparr>sy_flash := f\<rparr>\<rparr>)
         | Inr _ \<Rightarrow> (Ok (), session_clock e (set_ota (\<lambda>o1. o1\<lparr>ot_state := SYN_OTA_STATE_DOWNLOADING\<rparr>)
                        (s2\<lparr>os_sys := y\<lparr>sy_flash := f\<rparr>\<rparr>)))))"
      using u [symmetric] unfolding ota_start_def Let_def p t(1) s1_def [symmetric] s2_def [symmetric] b round_up_def [symmetric] er prod.case .
    have pb2: "length (ot_page_buf (os_ota s2)) = 256" using pb o1 by (simp add: s2_def)
    have pbe: "length (ot_page_buf (os_ota s')) = 256" if "enter_error e er1 w = (r, s')" "os_ota w = os_ota s2" for er1 w
      using that pb2 by (auto simp: enter_error_def)
    show ?G
    proof (cases r1)
      case (Inl er1)
      then have w: "enter_error e er1 (s2\<lparr>os_sys := y\<rparr>) = (r, s')" using u by simp
      have "ota_frame content dev_ok e {} s s'" by (rule ota_frame_error [OF w frb])
      then show ?thesis using enter_error_sel(1-3) [OF w] enter_error_over [OF w] actb pbe [OF w] by (auto intro!: exI [of _ "{}"])
    next
      case (Inr v)
      then have sl: "slot < lo_slot_count ?lay" "slot \<noteq> ?act" using B(5) S1(2,4) by auto
      have ly: "so_lay (sy_st y) = ?lay" using B(2) S1(2) by simp
      note K = erase_slot_keep [OF p geo B(1), unfolded ly, OF sl(1) nm(3) er]
      have fr3: "ota_frame content dev_ok e {slot} s (w\<lparr>os_sys := y\<lparr>sy_flash := f\<rparr>\<rparr>)" for w
        using K(1,2) ly slots_kept_trans [of ?lay "{}" _ "sy_flash y" "{slot}" f] frb [of w] by (simp add: ota_frame_def)
      show ?thesis
      proof (cases r2)
        case (Inl er2)
        then have w: "enter_error e er2 (s2\<lparr>os_sys := y\<lparr>sy_flash := f\<rparr>\<rparr>) = (r, s')" using u \<open>r1 = Inr v\<close> by simp
        have "ota_frame content dev_ok e {slot} s s'" by (rule ota_frame_error [OF w fr3])
        then show ?thesis using enter_error_sel(1-3) [OF w] enter_error_over [OF w] actb pbe [OF w] sl(2) by (auto intro!: exI [of _ "{slot}"])
      next
        case (Inr v2)
        then have w: "r = Ok ()" "s' = session_clock e (set_ota (\<lambda>o1. o1\<lparr>ot_state := SYN_OTA_STATE_DOWNLOADING\<rparr>)
                        (s2\<lparr>os_sys := y\<lparr>sy_flash := f\<rparr>\<rparr>))" using u \<open>r1 = Inr v\<close> by simp_all
        have sys: "os_sys s' = y\<lparr>sy_flash := f\<rparr>" using w(2) by simp
        have oo: "ot_slot (os_ota s') = slot" "ot_total_size (os_ota s') = n" "ot_received (os_ota s') = 0"
          "ot_buffered (os_ota s') = 0" "ot_write_off (os_ota s') = 0" "ot_name (os_ota s') = strncpy_z name 32"
          "ot_hdr (os_ota s') = replicate 64 0" "ot_state (os_ota s') = SYN_OTA_STATE_DOWNLOADING"
          "length (ot_page_buf (os_ota s')) = 256"
          using w(2) pb2 by (simp_all add: s2_def)
        have "dl_session content dev_ok e [] s'"
          unfolding dl_session_def dl_buf_def Let_def oo sys using K(1) ly sl nm actb by simp
        moreover have "ota_frame content dev_ok e {slot} s s'" using fr3 [of s'] sys by (simp add: ota_frame_def)
        ultimately show ?thesis using w(1) oo st nm(1) actb sl(2) sys by (auto intro!: exI [of _ "{slot}"])
      qed
    qed
  qed
  have ?G
  proof (cases nm)
    case None
    then show ?thesis using r by (intro early) (auto simp: syn_ota_begin_def)
  next
    case (Some name)
    have rdy: "so_ready ?st" using so by (simp add: store_sound_def)
    obtain x where x: "syn_store_staging_slot True ?st = x" by simp
    show ?thesis
    proof (cases "cstr 1 name = [] \<or> n \<le> 64 \<or> (\<exists>er. x = Inl er) \<or> lo_slot_size ?lay < n \<or> oe_dual e \<and> \<not> oe_drain_ok e")
      case True
      then show ?thesis
        using r rdy Some x by (intro early) (auto simp: syn_ota_begin_def Let_def split: if_split_asm sum.splits)
    next
      case False
      then obtain slot where sl: "x = Ok slot" by (cases x) auto
      let ?t = "s\<lparr>os_serving := (os_serving s \<and> \<not> oe_dual e)\<rparr>"
      have "ota_start e name n slot (lo_slot_off ?lay ! slot) ?t = (r, s')"
        using r False rdy Some x sl by (simp add: syn_ota_begin_def Let_def split: if_split_asm)
      from start [OF _ Some _ _ this] False sl x show ?thesis by simp
    qed
  qed
  then show "\<exists>X. ?act \<notin> X \<and> ota_frame content dev_ok e X s s'"
    "so_active (sy_st (os_sys s')) = ?act" "length (ot_page_buf (os_ota s')) = 256"
    "r = Ok () \<Longrightarrow> \<exists>name. nm = Some name \<and> dl_session content dev_ok e [] s' \<and>
       syn_store_staging_slot True ?st = Ok (ot_slot (os_ota s')) \<and>
       ot_total_size (os_ota s') = n \<and> ot_name (os_ota s') = strncpy_z name 32"
    "r \<noteq> Ok () \<Longrightarrow> os_ota s' = os_ota s \<and> os_sys s' = os_sys s \<and> (os_serving s' = os_serving s \<or> os_serving s') \<or> session_over e s'"
    by blast+
qed

end

section \<open>A session on a healthy device completes\<close>

text \<open>The part of the erased area behind the write position is still blank.\<close>

definition blank_rest :: "nat \<Rightarrow> (flash_ram, 'h) osys \<Rightarrow> bool" where
  "blank_rest E s \<longleftrightarrow> fr_fail_after (sy_flash (os_sys s)) = 0 \<and> ot_write_off (os_ota s) \<le> E \<and>
     slice (lo_slot_off (so_lay (sy_st (os_sys s))) ! ot_slot (os_ota s) + ot_write_off (os_ota s)) (E - ot_write_off (os_ota s))
       (fr_mem (sy_flash (os_sys s))) = replicate (E - ot_write_off (os_ota s)) 0xFF"

lemma blank_flush:
  assumes pos: "0 < sector" "0 < page" and pt: "se_port (oe_store e) = ram_port mem_addr sz sector page"
    and m: "length (fr_mem (sy_flash (os_sys s))) = sz" and bl: "blank_rest E s"
    and al: "(lo_slot_off (so_lay (sy_st (os_sys s))) ! ot_slot (os_ota s) + ot_write_off (os_ota s)) mod page = 0"
    and win: "lo_slot_off (so_lay (sy_st (os_sys s))) ! ot_slot (os_ota s) + E \<le> sz"
    and n: "n = (if final then (ot_buffered (os_ota s) + page - 1) div page * page else ot_buffered (os_ota s) div page * page)"
      "n \<le> 256" "ot_write_off (os_ota s) + n \<le> E" and pb: "length (ot_page_buf (os_ota s)) = 256"
  shows "\<exists>s'. flush_pages e final s = (Ok (), s') \<and> blank_rest E s'"
proof -
  let ?o = "os_ota s" let ?off = "lo_slot_off (so_lay (sy_st (os_sys s))) ! ot_slot ?o" and ?w = "ot_write_off ?o" and ?b = "ot_buffered ?o"
  define buf where "buf = (if final \<and> n > ?b then blit ?b (replicate (n - ?b) 0xFF) (ot_page_buf ?o) else ot_page_buf ?o)"
  have "length buf = 256" using pb n(2) by (simp add: buf_def)
  then have l: "length (take n buf) = n" using n(2) by simp
  show ?thesis
  proof (cases "n = 0")
    case True
    then have "flush_pages e final s = (Ok (), s)" 
      unfolding flush_pages_def Let_def pt ram_port_sel n(1) [symmetric] by simp
    then show ?thesis using bl by simp
  next
    case False
    have b1: "slice (?off + ?w) n (fr_mem (sy_flash (os_sys s))) = replicate n 0xFF"
      using bl n(3) slice_slice [of 0 n "E - ?w" "?off + ?w" "fr_mem (sy_flash (os_sys s))"]
      by (simp add: blank_rest_def) (simp add: slice_def)
    have nm: "n mod page = 0" using n(1) by (cases final) simp_all
    obtain f where f: "syn_flash_write (ram_port mem_addr sz sector page) (?off + ?w) (take n buf) (sy_flash (os_sys s)) = (Ok (), f)"
      "fr_fail_after f = 0" "\<And>a k. a + k \<le> sz \<Longrightarrow> disjoint_ranges a k (?off + ?w) n \<Longrightarrow>
         slice a k (fr_mem f) = slice a k (fr_mem (sy_flash (os_sys s)))"
      using ram_write_ok [OF pos m _ al, of "take n buf" mem_addr, unfolded l] False nm b1 bl n(3) win
      by (auto simp: blank_rest_def)
    have "slice (?off + (?w + n)) (E - (?w + n)) (fr_mem f) = slice (?off + (?w + n)) (E - (?w + n)) (fr_mem (sy_flash (os_sys s)))"
      using n(3) win by (intro f(3)) (auto simp: disjoint_ranges_def)
    also have "\<dots> = slice n (E - ?w - n) (slice (?off + ?w) (E - ?w) (fr_mem (sy_flash (os_sys s))))"
      using n(3) by (simp add: slice_slice add.assoc)
    also have "\<dots> = replicate (E - (?w + n)) 0xFF" using bl n(3) by (simp add: blank_rest_def) (simp add: slice_def)
    finally have rest: "slice (?off + (?w + n)) (E - (?w + n)) (fr_mem f) = replicate (E - (?w + n)) 0xFF" .
    let ?s' = "s\<lparr>os_sys := (os_sys s)\<lparr>sy_flash := f\<rparr>, os_ota := ?o\<lparr>ot_write_off := ?w + n, ot_buffered := ?b - min ?b n,
          ot_page_buf := (if ?b - min ?b n > 0 then blit 0 (slice n (?b - min ?b n) buf) buf else buf)\<rparr>\<rparr>"
    have "flush_pages e final s = (Ok (), ?s')"
      unfolding flush_pages_def Let_def pt ram_port_sel n(1) [symmetric] buf_def [symmetric]
      using False f(1) by simp
    then show ?thesis using rest f(2) n(3) by (auto simp: blank_rest_def)
  qed
qed

definition ram_target :: "(flash_ram, 'h) oenv \<Rightarrow> nat \<Rightarrow> nat \<Rightarrow> nat \<Rightarrow> nat \<Rightarrow> bool" where
  "ram_target e mem_addr sz sector page \<longleftrightarrow> se_port (oe_store e) = ram_port mem_addr sz sector page \<and>
     0 < sector \<and> 0 < page \<and> page dvd sector \<and> sz \<le> 2 ^ 31"

abbreviation "ram_sized sz \<equiv> (\<lambda>c. length (fr_mem c) = sz)"

lemma ram_targetD:
  assumes "ram_target e mem_addr sz sector page"
  shows "se_port (oe_store e) = ram_port mem_addr sz sector page" "0 < sector" "0 < page" "page dvd sector" "sz \<le> 2 ^ 31"
    "flash_reliable (se_port (oe_store e)) fr_mem (ram_sized sz)" "geometry_ok (se_port (oe_store e))"
  using assms ram_reliable [of sector page mem_addr sz] by (simp_all add: ram_target_def geometry_ok_def)

lemma dl_ram_facts:
  assumes t: "ram_target e mem_addr sz sector page" and d: "dl_buf fr_mem (ram_sized sz) e D s"
  shows "(lo_slot_off (so_lay (sy_st (os_sys s))) ! ot_slot (os_ota s) + ot_write_off (os_ota s)) mod page = 0"
    "lo_slot_off (so_lay (sy_st (os_sys s))) ! ot_slot (os_ota s) + round_up (ot_total_size (os_ota s)) sector \<le> sz"
    "ot_total_size (os_ota s) \<le> round_up (ot_total_size (os_ota s)) sector"
    "page dvd 256" "page dvd ot_write_off (os_ota s)" "page dvd round_up (ot_total_size (os_ota s)) sector"
proof -
  note T = ram_targetD [OF t]
  let ?lay = "so_lay (sy_st (os_sys s))" let ?slot = "ot_slot (os_ota s)" let ?n = "ot_total_size (os_ota s)"
  have h: "store_sound (oe_store e) (ram_sized sz) (os_sys s)" "?slot < lo_slot_count ?lay" "?n \<le> lo_slot_size ?lay"
      "ot_write_off (os_ota s) mod 256 = 0"
    using d by (auto simp: dl_buf_def Let_def)
  have lay: "layout_sound (se_max (oe_store e)) (se_port (oe_store e)) ?lay" using h(1) by (simp add: store_sound_def store_wf_def)
  then have "region_ok (se_port (oe_store e)) (layout_regions ?lay ! (2 + ?slot))" using h(2) by (simp add: layout_sound_def)
  then have al: "lo_slot_off ?lay ! ?slot mod sector = 0" "lo_slot_size ?lay mod sector = 0"
    using layout_region_nth(2) [OF h(2)] T(1) by (simp_all add: region_ok_def)
  have win: "lo_slot_off ?lay ! ?slot + lo_slot_size ?lay \<le> sz" using slot_region [OF lay h(2)] T(1) by simp
  show "page dvd 256" using lay T(1) by (simp add: layout_sound_def mod_eq_0_iff_dvd)
  moreover have "256 dvd ot_write_off (os_ota s)" using h(4) by presburger
  ultimately show pw: "page dvd ot_write_off (os_ota s)" by (rule dvd_trans)
  have "sector dvd lo_slot_off ?lay ! ?slot" using al(1) by (simp add: mod_eq_0_iff_dvd)
  then have "page dvd lo_slot_off ?lay ! ?slot" using T(4) by (metis dvd_trans)
  then show "(lo_slot_off ?lay ! ?slot + ot_write_off (os_ota s)) mod page = 0" using pw by (simp add: mod_eq_0_iff_dvd)
  have sz: "0 < lo_slot_size ?lay" using lay by (simp add: layout_sound_def)
  have "sector dvd lo_slot_size ?lay" using al(2) by (simp add: mod_eq_0_iff_dvd)
  then have "sector \<le> lo_slot_size ?lay" using sz by (rule dvd_imp_le)
  then have "?n + sector \<le> 2 ^ 31 + 2 ^ 31" using win T(5) h(3) by linarith
  then have k: "?n + sector - 1 < 2 ^ 32" using T(2) by simp
  show "lo_slot_off ?lay ! ?slot + round_up ?n sector \<le> sz" using round_up_fits [OF h(3) al(2) T(2) k] win by simp
  show "?n \<le> round_up ?n sector" by (rule round_up_ge [OF T(2) k])
  have "sector dvd round_up ?n sector" by (simp add: round_up_def)
  then show "page dvd round_up ?n sector" using T(4) by (metis dvd_trans)
qed

lemma healthy_buffer_loop:
  assumes t: "ram_target e mem_addr sz sector page" and d: "dl_buf fr_mem (ram_sized sz) e D s"
    and b: "blank_rest (round_up (ot_total_size (os_ota s)) sector) s" and l: "length D + length src \<le> ot_total_size (os_ota s)"
  shows "\<exists>s'. buffer_loop e src s = (Ok (), s') \<and> blank_rest (round_up (ot_total_size (os_ota s)) sector) s'"
  using d b l
proof (induction "length src" arbitrary: src D s rule: less_induct)
  case less
  note T = ram_targetD [OF t]
  let ?o = "os_ota s" let ?n = "min (256 - ot_buffered ?o) (length src)" let ?E = "round_up (ot_total_size ?o) sector"
  define s1 where "s1 = s\<lparr>os_ota := ?o\<lparr>ot_page_buf := blit (ot_buffered ?o) (take ?n src) (ot_page_buf ?o),
      ot_buffered := ot_buffered ?o + ?n\<rparr>\<rparr>"
  show ?case
  proof (cases "src = []")
    case True
    then show ?thesis using less.prems(2) by (simp add: buffer_loop.simps [of e "[]"])
  next
    case False
    have n0: "?n \<noteq> 0" using less.prems(1) False by (simp add: dl_buf_def Let_def)
    have step: "buffer_loop e (take ?n src @ x) s = (if ot_buffered (os_ota s1) = 256
        then (case flush_pages e False s1 of (Inl er, s2) \<Rightarrow> (Err er, s2) | (Inr _, s2) \<Rightarrow> buffer_loop e x s2)
        else buffer_loop e x s1)" if "x = [] \<or> ?n = 256 - ot_buffered ?o" for x
    proof -
      have m: "min (256 - ot_buffered ?o) (length (take ?n src @ x)) = ?n" using that by auto
      have ne: "take ?n src @ x \<noteq> []" using n0 False by simp
      have tk: "take ?n (take ?n src @ x) = take ?n src" "drop ?n (take ?n src @ x) = x" by simp_all
      show ?thesis
        by (subst buffer_loop.simps) (simp only: Let_def m tk ne s1_def [symmetric] n0 if_False)
    qed
    have bl1: "blank_rest ?E s1" using less.prems(2) by (simp add: s1_def blank_rest_def)
    show ?thesis
    proof (cases "ot_buffered (os_ota s1) = 256")
      case False
      then have "?n = length src" using less.prems(1) by (auto simp: s1_def dl_buf_def Let_def)
      then have "buffer_loop e src s = (Ok (), s1)"
        using step [of "[]"] False by (simp add: buffer_loop.simps [of e "[]"])
      then show ?thesis using bl1 by simp
    next
      case True
      have F: "length (ot_page_buf (os_ota s1)) = 256" "ot_write_off (os_ota s1) = ot_write_off ?o" "os_sys s1 = os_sys s"
        "ot_slot (os_ota s1) = ot_slot ?o"
        using less.prems(1) by (auto simp: s1_def dl_buf_def Let_def blit_def)
      have n: "?n = 256 - ot_buffered ?o" using True by (auto simp: s1_def)
      note R = dl_ram_facts [OF t less.prems(1)]
      have w: "ot_write_off ?o + 256 \<le> ?E"
        using True n0 less.prems(1,3) R(3) by (auto simp: s1_def dl_buf_def Let_def)
      have dev: "length (fr_mem (sy_flash (os_sys s1))) = sz"
        using less.prems(1) F(3) by (simp add: dl_buf_def Let_def store_sound_def)
      have full: "256 = (if False then (ot_buffered (os_ota s1) + page - 1) div page * page else ot_buffered (os_ota s1) div page * page)"
        using True R(4) by simp
      obtain s2 where f2: "flush_pages e False s1 = (Ok (), s2)" "blank_rest ?E s2"
        using blank_flush [OF T(2,3,1) dev bl1 _ _ full] R(1,2) w F by auto
      have a: "buffer_loop e (take ?n src) s = (Ok (), s2)"
        using step [of "[]"] True f2(1) by (simp add: buffer_loop.simps [of e "[]"])
      have "length D + length (take ?n src) \<le> ot_total_size ?o" using less.prems(3) by simp
      moreover have "256 mod fp_page_size (se_port (oe_store e)) = 0" using R(4) T(1) by (simp add: mod_eq_0_iff_dvd)
      ultimately have s2: "buf_frame s s2" "dl_buf fr_mem (ram_sized sz) e (D @ take ?n src) s2"
        using flash_reliable.buffer_loop_spec [OF T(6) refl _ less.prems(1) _ a] by simp_all
      have "length (drop ?n src) < length src" using n0 by auto
      moreover have "length (D @ take ?n src) + length (drop ?n src) \<le> ot_total_size (os_ota s2)"
        using less.prems(3) buf_frame_sel(2) [OF s2(1)] by simp
      moreover have "blank_rest (round_up (ot_total_size (os_ota s2)) sector) s2"
        using f2(2) buf_frame_sel(2) [OF s2(1)] by simp
      ultimately have "\<exists>s3. buffer_loop e (drop ?n src) s2 = (Ok (), s3) \<and> blank_rest (round_up (ot_total_size (os_ota s2)) sector) s3"
        using less.hyps s2(2) by blast
      then obtain s3 where "buffer_loop e (drop ?n src) s2 = (Ok (), s3)" "blank_rest ?E s3"
        using buf_frame_sel(2) [OF s2(1)] by auto
      then show ?thesis using step [of "drop ?n src"] n True f2(1) by simp
    qed
  qed
qed

lemma healthy_chunk:
  assumes t: "ram_target e mem_addr sz sector page" and d: "dl_session fr_mem (ram_sized sz) e D s"
    and b: "blank_rest (round_up (ot_total_size (os_ota s)) sector) s" and l: "length D + length src \<le> ot_total_size (os_ota s)"
    and src: "src \<noteq> []"
    and hc: "64 \<le> length (D @ src) \<Longrightarrow> header_check ((os_ota s)\<lparr>ot_hdr := take 64 (D @ src)\<rparr>) = None"
  shows "\<exists>s'. syn_ota_write_chunk e (Some src) s = (Ok (), s') \<and> blank_rest (round_up (ot_total_size (os_ota s)) sector) s'"
proof -
  note T = ram_targetD [OF t]
  have h: "ot_state (os_ota s) = SYN_OTA_STATE_DOWNLOADING" "ot_received (os_ota s) = length D" "dl_buf fr_mem (ram_sized sz) e D s"
    using d by (simp_all add: dl_session_def)
  obtain x o2 where c: "capture_header src (os_ota s) = (x, o2)" by fastforce
  note C = capture_header_spec [OF d c]
  have x: "x = None" using C hc by (cases "64 \<le> length (D @ src)") simp_all
  let ?s1 = "s\<lparr>os_ota := o2\<rparr>"
  have d1: "dl_buf fr_mem (ram_sized sz) e D ?s1" using h(3) C(1) dl_buf_ota_hdr by metis
  have b1: "blank_rest (round_up (ot_total_size (os_ota ?s1)) sector) ?s1"
    using b C(1) by (simp add: blank_rest_def)
  have l1: "length D + length src \<le> ot_total_size (os_ota ?s1)" using l C(1) by simp
  obtain s2 where s2: "buffer_loop e src ?s1 = (Ok (), s2)" "blank_rest (round_up (ot_total_size (os_ota ?s1)) sector) s2"
    using healthy_buffer_loop [OF t d1 b1 l1] by auto
  have "ot_total_size (os_ota s) \<le> sz" using dl_ram_facts(2,3) [OF t h(3)] by linarith
  then have "(length D + length src) mod 2 ^ 32 = length D + length src" using l T(5) by (intro mod_less) simp
  then have "syn_ota_write_chunk e (Some src) s =
      (Ok (), session_clock e (set_ota (\<lambda>o3. o3\<lparr>ot_received := ot_received o3 + length src\<rparr>) s2))"
    using src h l c x s2(1) by (simp add: syn_ota_write_chunk_def)
  then show ?thesis using s2(2) C(1) by (simp add: blank_rest_def)
qed

section \<open>A whole stream\<close>

primrec ota_stream :: "('f, 'h) oenv \<Rightarrow> u8 list list \<Rightarrow> ('f, 'h) osys \<Rightarrow> unit res \<times> ('f, 'h) osys" where
  "ota_stream e [] s = (Ok (), s)"
| "ota_stream e (c # cs) s = (case syn_ota_write_chunk e (Some c) s of
     (Inl er, s1) \<Rightarrow> (Err er, s1) | (Inr _, s1) \<Rightarrow> ota_stream e cs s1)"

lemma ota_stream_spec:
  assumes "flash_reliable (se_port (oe_store e)) content dev_ok"
  shows "dl_session content dev_ok e D s \<Longrightarrow> length D + length (concat cs) < 2 ^ 32 \<Longrightarrow> ota_stream e cs s = (Ok (), s') \<Longrightarrow>
    dl_session content dev_ok e (D @ concat cs) s' \<and> ot_slot (os_ota s') = ot_slot (os_ota s) \<and>
    ot_total_size (os_ota s') = ot_total_size (os_ota s) \<and> ot_name (os_ota s') = ot_name (os_ota s) \<and>
    sy_st (os_sys s') = sy_st (os_sys s)"
proof (induction cs arbitrary: D s)
  case (Cons c cs)
  obtain s1 where w: "syn_ota_write_chunk e (Some c) s = (Ok (), s1)" "ota_stream e cs s1 = (Ok (), s')"
    using Cons.prems(3) by (auto split: prod.splits sum.splits)
  have "c \<noteq> []" using w(1) by (auto simp: syn_ota_write_chunk_def)
  note W = flash_reliable.write_chunk_spec [OF assms refl Cons.prems(1) _ this w(1)]
  have "length D + length c < 2 ^ 32" "length (D @ c) + length (concat cs) < 2 ^ 32" using Cons.prems(2) by simp_all
  with W Cons.IH [of "D @ c" s1] w(2) show ?case by simp
qed simp

text \<open>A package that the engine accepts under the name announced at begin.\<close>

definition synm_valid :: "('f, 'h) senv \<Rightarrow> u8 list \<Rightarrow> u8 list \<Rightarrow> bool" where
  "synm_valid e name D \<longleftrightarrow> 64 < length D \<and> sy_magic (take 64 D) = SYN_SYNM_MAGIC \<and> sy_version (take 64 D) = SYN_SYNM_VERSION \<and>
     sy_model_size (take 64 D) = length D - 64 \<and> strncmp_eq (sy_name (take 64 D)) (strncpy_z name 32) 32 \<and>
     sy_crc32 (take 64 D) = se_crc e (drop 64 D)"

lemma healthy_stream:
  assumes t: "ram_target e mem_addr sz sector page" and v: "synm_valid (oe_store e) name P"
    and cs: "\<forall>c \<in> set cs. c \<noteq> []"
  shows "dl_session fr_mem (ram_sized sz) e D s \<Longrightarrow> blank_rest (round_up (ot_total_size (os_ota s)) sector) s \<Longrightarrow>
    D @ concat cs = P \<Longrightarrow> ot_total_size (os_ota s) = length P \<Longrightarrow> ot_name (os_ota s) = strncpy_z name 32 \<Longrightarrow>
    \<exists>s'. ota_stream e cs s = (Ok (), s') \<and> blank_rest (round_up (ot_total_size (os_ota s)) sector) s'"
  using cs
proof (induction cs arbitrary: D s)
  case (Cons c cs)
  note T = ram_targetD [OF t]
  have l: "length D + length c \<le> ot_total_size (os_ota s)" "length D + length c < 2 ^ 32"
  proof -
    show l1: "length D + length c \<le> ot_total_size (os_ota s)" using Cons.prems(3,4) by auto
    have "dl_buf fr_mem (ram_sized sz) e D s" using Cons.prems(1) by (simp add: dl_session_def)
    from dl_ram_facts(2,3) [OF t this] have "ot_total_size (os_ota s) \<le> sz" by linarith
    then show "length D + length c < 2 ^ 32" using l1 T(5) by simp
  qed
  have "header_check ((os_ota s)\<lparr>ot_hdr := take 64 (D @ c)\<rparr>) = None" if "64 \<le> length (D @ c)"
  proof -
    have "take 64 (D @ c) = take 64 P" using Cons.prems(3) that by auto
    then show ?thesis using v Cons.prems(4,5) by (simp add: header_check_def synm_valid_def)
  qed
  with healthy_chunk [OF t Cons.prems(1,2) l(1)] Cons.prems(6)
  obtain s1 where s1: "syn_ota_write_chunk e (Some c) s = (Ok (), s1)" "blank_rest (round_up (ot_total_size (os_ota s)) sector) s1"
    by auto
  have c: "c \<noteq> []" using Cons.prems(6) by simp
  note W = flash_reliable.write_chunk_spec(5) [OF T(6) refl Cons.prems(1) l(2) c s1(1) refl]
  have "D @ c @ concat cs = P" using Cons.prems(3) by simp
  then have "\<exists>s'. ota_stream e cs s1 = (Ok (), s') \<and> blank_rest (round_up (ot_total_size (os_ota s1)) sector) s'"
    using W s1(2) Cons.prems(4-6) by (intro Cons.IH [of "D @ c"]) auto
  then show ?case using s1(1) W by simp
qed simp

lemma healthy_finish:
  assumes t: "ram_target e mem_addr sz sector page" and crc: "crc_running (se_upd (oe_store e))"
    and v: "synm_valid (oe_store e) name D"
    and d: "dl_session fr_mem (ram_sized sz) e D s" and b: "blank_rest (round_up (ot_total_size (os_ota s)) sector) s"
    and n: "ot_total_size (os_ota s) = length D"
  shows "\<exists>s'. syn_ota_finish e s = (Ok (), s') \<and> fr_fail_after (sy_flash (os_sys s')) = 0"
proof -
  note T = ram_targetD [OF t]
  let ?o = "os_ota s" let ?st = "sy_st (os_sys s)" let ?slot = "ot_slot ?o" let ?off = "lo_slot_off (so_lay ?st) ! ?slot"
  let ?E = "round_up (ot_total_size ?o) sector" and ?p = "se_port (oe_store e)"
  have h: "ot_state ?o = SYN_OTA_STATE_DOWNLOADING" "ot_received ?o = length D" "dl_buf fr_mem (ram_sized sz) e D s"
      "64 < ot_total_size ?o" "length (ot_name ?o) = 32" "ot_hdr ?o = take 64 D"
    using d n by (auto simp: dl_session_def)
  have bf: "store_sound (oe_store e) (ram_sized sz) (os_sys s)" "?slot < lo_slot_count (so_lay ?st)" "?slot \<noteq> so_active ?st"
      "length (ot_page_buf ?o) = 256" "ot_buffered ?o < 256" "ot_write_off ?o + ot_buffered ?o = length D"
    using h(3) by (auto simp: dl_buf_def Let_def)
  note R = dl_ram_facts [OF t h(3)]
  have dev: "length (fr_mem (sy_flash (os_sys s))) = sz" using bf(1) by (simp add: store_sound_def)
  have wr: "(ot_buffered ?o + page - 1) div page * page \<le> 256" using bf(5) R(4) T(3) by (intro ceil_page_le) simp_all
  have wE: "ot_write_off ?o + (ot_buffered ?o + page - 1) div page * page \<le> ?E"
  proof -
    have "ot_buffered ?o \<le> ?E - ot_write_off ?o" "ot_write_off ?o \<le> ?E" using bf(6) R(3) n by linarith+
    then show ?thesis using ceil_page_le [of "ot_buffered ?o" "?E - ot_write_off ?o" page] R(5,6) T(3) by (simp add: dvd_diff_nat)
  qed
  obtain s1 where f: "flush_pages e True s = (Ok (), s1)" "blank_rest ?E s1"
    using blank_flush [OF T(2,3,1) dev b R(1,2), of "(ot_buffered ?o + page - 1) div page * page" True] wr wE bf(4) by auto
  note F = flash_reliable.flush_final [OF T(6) refl T(7) h(3) f(1)] and S = buf_frame_sel [OF flash_reliable.flush_final(1) [OF T(6) refl T(7) h(3) f(1)]]
  have so1: "store_sound (oe_store e) (ram_sized sz) (os_sys s1)" using F(2) by (simp add: ota_frame_def)
  have c: "ota_crc_loop (se_upd (oe_store e)) ?p (?off + 64) (length D - 64) 0 0 (sy_flash (os_sys s1)) = Ok (sy_crc32 (take 64 D))"
  proof -
    have "slice (?off + 64) (length D - 64) (fr_mem (sy_flash (os_sys s1))) = drop 64 D"
      using slice_slice [of 64 "length D - 64" "length D" ?off "fr_mem (sy_flash (os_sys s1))"] F(3) n h(4) by (simp add: slice_def)
    moreover have "?off + 64 + (length D - 64) \<le> fp_size ?p" using R(2,3) n h(4) T(1) by simp
    ultimately show ?thesis
      using flash_reliable.ota_crc_ok [OF T(6) crc, of "sy_flash (os_sys s1)" "?off + 64" "length D - 64" 0 0] so1 v
      by (simp add: store_sound_def synm_valid_def se_crc_def)
  qed
  have hs1: "healthy (oe_store e) mem_addr sz sector page (os_sys s1)"
    using T(1-4) so1 f(2) by (simp add: healthy_def blank_rest_def)
  have iok: "info_ok (ota_info (os_ota (set_ota (\<lambda>o1. o1\<lparr>ot_state := SYN_OTA_STATE_VALIDATING\<rparr>) s1)) m)" for m
    using h(5) S(6) by (simp add: info_ok_def ota_info_def shape_bytes_def sy_in_shape_def sy_out_shape_def)
  have sl: "?slot < lo_slot_count (so_lay (sy_st (os_sys s1)))" "?slot \<noteq> so_active (sy_st (os_sys s1))"
    using bf(2,3) S(8) by simp_all
  obtain y where y: "syn_store_mark_staged (oe_store e) ?slot (Some (ota_info (os_ota (set_ota (\<lambda>o1. o1\<lparr>ot_state := SYN_OTA_STATE_VALIDATING\<rparr>) s1))
      (fp_base ?p + ?off + 64))) (os_sys s1) = (Ok (), y)" "healthy (oe_store e) mem_addr sz sector page y"
    using healthy_mark_staged [OF hs1 sl iok] by blast
  have ms: "sy_model_size (take 64 D) = length D - 64" using v by (simp add: synm_valid_def)
  have hd: "ot_hdr (os_ota s1) = take 64 D" using S(5) h(6) by simp
  have "syn_ota_finish e s = (Ok (), session_clock e (set_ota (\<lambda>o1. o1\<lparr>ot_state := SYN_OTA_STATE_READY\<rparr>)
      ((set_ota (\<lambda>o1. o1\<lparr>ot_state := SYN_OTA_STATE_STAGING\<rparr>) (set_ota (\<lambda>o1. o1\<lparr>ot_state := SYN_OTA_STATE_VALIDATING\<rparr>) s1))\<lparr>os_sys := y\<rparr>)))"
    using h(1,2) n f(1) c y(1) by (simp add: syn_ota_finish_def Let_def S(1,8) hd ms)
  then show ?thesis using y(2) by (simp add: healthy_def)
qed

lemma ram_erase_sectors_ok:
  assumes "0 < sector" "0 < page" "length (fr_mem f) = sz" "fr_fail_after f = 0" "off mod sector = 0" "E mod sector = 0"
    "off + E \<le> sz" "0 < E"
  shows "\<exists>f'. syn_flash_erase_sectors (ram_port mem_addr sz sector page) off E f = (Ok (), f') \<and> fr_fail_after f' = 0"
proof -
  let ?p = "ram_port mem_addr sz sector page"
  obtain r f' where e: "syn_flash_erase_sectors ?p off E f = (r, f')" by fastforce
  then have "r = Ok ()" "fr_fail_after f' = 0"
    using assms ram_erase_loop_ok [of mem_addr sz sector page off "E div sector" f]
    by (auto simp: syn_flash_erase_sectors_def check_range_def split: if_split_asm)
  then show ?thesis using e by simp
qed

text \<open>
  A begin on a healthy device: a staged model is forgotten, an occupied slot is evicted, and the slot is
  erased for the announced size.
\<close>

lemma healthy_begin:
  assumes t: "ram_target e mem_addr sz sector page" and so: "store_sound (oe_store e) (ram_sized sz) (os_sys s)"
    and fa: "fr_fail_after (sy_flash (os_sys s)) = 0" and free: "\<And>h. \<not> se_susp (oe_store e) h"
    and st: "syn_store_staging_slot True (sy_st (os_sys s)) = Ok slot" "slot \<noteq> so_active (sy_st (os_sys s))"
    and nm: "cstr 1 name \<noteq> []" and n: "64 < n" "n \<le> lo_slot_size (so_lay (sy_st (os_sys s)))"
    and dr: "oe_dual e \<longrightarrow> oe_drain_ok e"
  shows "\<exists>s'. syn_ota_begin e (Some name) n s = (Ok (), s') \<and> blank_rest (round_up n sector) s'"
proof -
  note T = ram_targetD [OF t]
  let ?st = "sy_st (os_sys s)" let ?lay = "so_lay ?st" let ?off = "lo_slot_off ?lay ! slot"
  have sl: "slot < lo_slot_count ?lay" "so_ready ?st" using staging_slot_bound [OF st(1)] by simp_all
  have lay: "layout_sound (se_max (oe_store e)) (se_port (oe_store e)) ?lay" using so by (simp add: store_sound_def store_wf_def)
  then have "region_ok (se_port (oe_store e)) (layout_regions ?lay ! (2 + slot))" using sl by (simp add: layout_sound_def)
  then have al: "?off mod sector = 0" "lo_slot_size ?lay mod sector = 0"
    using layout_region_nth(2) [OF sl(1)] T(1) by (simp_all add: region_ok_def)
  have win: "?off + lo_slot_size ?lay \<le> sz" using slot_region [OF lay sl(1)] T(1) by simp
  have "sector dvd lo_slot_size ?lay" "0 < lo_slot_size ?lay" using al(2) lay by (simp_all add: mod_eq_0_iff_dvd layout_sound_def)
  then have "sector \<le> lo_slot_size ?lay" by (rule dvd_imp_le)
  then have "n + sector \<le> 2 ^ 31 + 2 ^ 31" using win T(5) n by linarith
  then have k: "n + sector - 1 < 2 ^ 32" using T(2) by simp
  have E: "?off + round_up n sector \<le> sz" "0 < round_up n sector"
    using round_up_fits [OF n(2) al(2) T(2) k] round_up_ge [OF T(2) k] win n(1) by linarith+
  have h0: "healthy (oe_store e) mem_addr sz sector page (os_sys s)" using T(1-4) so fa by (simp add: healthy_def)
  define x where "x = (if so_staged ?st \<noteq> SLOT_NONE then snd (syn_store_clear_staged (oe_store e) (os_sys s)) else os_sys s)"
  have x: "healthy (oe_store e) mem_addr sz sector page x" "so_lay (sy_st x) = ?lay" "so_active (sy_st x) = so_active ?st"
    using healthy_clear_staged [OF h0] h0 by (auto simp: x_def)
  obtain y where y: "syn_store_begin_staging (oe_store e) slot x = (Ok (), y)" "healthy (oe_store e) mem_addr sz sector page y"
    "so_lay (sy_st y) = ?lay"
    using healthy_begin_staging [OF x(1) free, of slot] sl(1) st(2) x(2,3) by auto
  note Y = healthyD [OF y(2)]
  obtain f where f: "syn_flash_erase_sectors (se_port (oe_store e)) ?off (round_up n sector) (sy_flash y) = (Ok (), f)"
    "fr_fail_after f = 0"
    using ram_erase_sectors_ok [OF T(2,3) Y(9,6) al(1) round_up_dvd E] T(1) by auto
  have so_y: "store_sound (oe_store e) (ram_sized sz) y" using Y(5) .
  have bl: "slice ?off (round_up n sector) (fr_mem f) = replicate (round_up n sector) 0xFF"
    using flash_reliable.erase_slot_keep(3) [OF T(6) refl T(7) so_y, unfolded y(3), OF sl(1) n(2)] f(1) T(1) by simp
  let ?t = "s\<lparr>os_serving := (os_serving s \<and> \<not> oe_dual e)\<rparr>"
  have "syn_ota_begin e (Some name) n s = ota_start e name n slot ?off ?t"
    using nm n dr st(1) sl(2) by (auto simp: syn_ota_begin_def Let_def)
  moreover have "\<exists>s'. ota_start e name n slot ?off ?t = (Ok (), s') \<and> os_sys s' = y\<lparr>sy_flash := f\<rparr> \<and>
      ot_write_off (os_ota s') = 0 \<and> ot_slot (os_ota s') = slot"
    using y(1) f(1) T(1) sl(2)
    by (cases "so_staged ?st = SLOT_NONE") (simp_all add: ota_start_def Let_def syn_store_staged_slot_def round_up_def x_def)
  ultimately show ?thesis using f(2) bl y(3) by (auto simp: blank_rest_def)
qed

section \<open>Histories of calls\<close>

datatype ota_op =
    Ota_Begin "u8 list option" nat | Ota_Chunk "u8 list option" | Ota_Finish | Ota_Activate | Ota_Rollback

fun ota_apply :: "('f, 'h) oenv \<Rightarrow> ota_op \<Rightarrow> ('f, 'h) osys \<Rightarrow> unit res \<times> ('f, 'h) osys" where
  "ota_apply e (Ota_Begin nm n) s = syn_ota_begin e nm n s"
| "ota_apply e (Ota_Chunk c) s = syn_ota_write_chunk e c s"
| "ota_apply e Ota_Finish s = syn_ota_finish e s"
| "ota_apply e Ota_Activate s = syn_ota_activate e s"
| "ota_apply e Ota_Rollback s = syn_ota_rollback e s"

primrec ota_run :: "(ota_op \<times> ('f, 'h) oenv) list \<Rightarrow> ('f, 'h) osys \<Rightarrow> ('f, 'h) osys" where
  "ota_run [] s = s"
| "ota_run (x # xs) s = ota_run xs (snd (ota_apply (snd x) (fst x) s))"

fun ota_op_ok :: "ota_op \<Rightarrow> bool" where
  "ota_op_ok (Ota_Chunk (Some c)) = (length c < 2 ^ 31)"
| "ota_op_ok _ = True"

text \<open>Environments of one device: they differ in what may change between two calls.\<close>

definition same_board :: "('f, 'h) oenv \<Rightarrow> ('f, 'h) oenv \<Rightarrow> bool" where
  "same_board e e' \<longleftrightarrow> (\<exists>susp us. oe_store e' = env_at (oe_store e) susp us) \<and> oe_dual e' = oe_dual e"

definition ota_inv :: "('f \<Rightarrow> u8 list) \<Rightarrow> ('f \<Rightarrow> bool) \<Rightarrow> ('f, 'h) oenv \<Rightarrow> ('f, 'h) osys \<Rightarrow> bool" where
  "ota_inv content dev_ok e s \<longleftrightarrow> store_sound (oe_store e) dev_ok (os_sys s) \<and> length (ot_page_buf (os_ota s)) = 256 \<and>
     ot_state (os_ota s) \<notin> {SYN_OTA_STATE_VALIDATING, SYN_OTA_STATE_STAGING} \<and>
     (ot_state (os_ota s) = SYN_OTA_STATE_DOWNLOADING \<longrightarrow> (\<exists>D. dl_session content dev_ok e D s)) \<and>
     (oe_dual e \<and> ot_state (os_ota s) \<notin> {SYN_OTA_STATE_DOWNLOADING, SYN_OTA_STATE_READY} \<longrightarrow>
        os_serving s \<and> \<not> ot_cpu1_parked (os_ota s))"

lemma same_board_sound:
  assumes "same_board e e'"
  shows "store_sound (oe_store e') dev_ok = store_sound (oe_store e) dev_ok" "dl_session content dev_ok e' = dl_session content dev_ok e"
    "ota_inv content dev_ok e' = ota_inv content dev_ok e" "se_port (oe_store e') = se_port (oe_store e)"
    "se_upd (oe_store e') = se_upd (oe_store e)"
proof -
  obtain susp us where x: "oe_store e' = env_at (oe_store e) susp us" "oe_dual e' = oe_dual e"
    using assms by (auto simp: same_board_def)
  show a: "store_sound (oe_store e') dev_ok = store_sound (oe_store e) dev_ok" using x by (auto simp: fun_eq_iff)
  then have b: "dl_buf content dev_ok e' D s = dl_buf content dev_ok e D s" for D s by (simp add: dl_buf_def)
  then show c: "dl_session content dev_ok e' = dl_session content dev_ok e" by (auto simp: fun_eq_iff dl_session_def)
  show "ota_inv content dev_ok e' = ota_inv content dev_ok e" using a c x(2) by (auto simp: fun_eq_iff ota_inv_def)
  show "se_port (oe_store e') = se_port (oe_store e)" "se_upd (oe_store e') = se_upd (oe_store e)"
    using x by (simp_all add: env_at_def)
qed

lemma ota_inv_over:
  "session_over e s \<Longrightarrow> store_sound (oe_store e) dev_ok (os_sys s) \<Longrightarrow> length (ot_page_buf (os_ota s)) = 256 \<Longrightarrow>
   ota_inv content dev_ok e s"
  by (simp add: ota_inv_def session_over_def)

lemma chunk_refused:
  assumes "ot_state (os_ota s) \<noteq> SYN_OTA_STATE_DOWNLOADING \<or> c = None \<or> c = Some []" "syn_ota_write_chunk e c s = (r, s')"
  shows "s' = s \<and> r \<noteq> Ok ()"
  using assms by (auto simp: syn_ota_write_chunk_def split: option.splits if_split_asm)

text \<open>Every call keeps the invariant and writes no byte of the active slot.\<close>

definition ota_step_ok :: "('f \<Rightarrow> u8 list) \<Rightarrow> ('f \<Rightarrow> bool) \<Rightarrow> ('f, 'h) oenv \<Rightarrow> ('f, 'h) osys \<Rightarrow> ('f, 'h) osys \<Rightarrow> bool" where
  "ota_step_ok content dev_ok e s s' \<longleftrightarrow> ota_inv content dev_ok e s' \<and>
     (\<exists>X. so_active (sy_st (os_sys s)) \<notin> X \<and> ota_frame content dev_ok e X s s')"

lemma ota_step_same: "ota_inv content dev_ok e s \<Longrightarrow> ota_step_ok content dev_ok e s s"
proof -
  assume i: "ota_inv content dev_ok e s"
  then have "ota_frame content dev_ok e {} s s" by (simp add: ota_frame_def ota_inv_def)
  then show ?thesis using i unfolding ota_step_ok_def by (auto intro: exI [of _ "{}"])
qed

lemma ota_step_store:
  assumes "ota_inv content dev_ok e s'" "so_lay (sy_st (os_sys s')) = so_lay (sy_st (os_sys s))"
    "slots_kept content (so_lay (sy_st (os_sys s))) {} (sy_flash (os_sys s)) (sy_flash (os_sys s'))"
  shows "ota_step_ok content dev_ok e s s'"
proof -
  have "ota_frame content dev_ok e {} s s'" using assms by (simp add: ota_frame_def ota_inv_def)
  then show ?thesis using assms(1) unfolding ota_step_ok_def by (auto intro: exI [of _ "{}"])
qed

lemma ota_step_slot:
  "ota_inv content dev_ok e s' \<Longrightarrow> ota_frame content dev_ok e {x} s s' \<Longrightarrow> x \<noteq> so_active (sy_st (os_sys s)) \<Longrightarrow>
   ota_step_ok content dev_ok e s s'"
  unfolding ota_step_ok_def by (auto intro: exI [of _ "{x}"])

lemma ota_frame_sound: "ota_frame content dev_ok e X s s' \<Longrightarrow> store_sound (oe_store e) dev_ok (os_sys s')"
  by (simp add: ota_frame_def)

lemma ota_invD:
  assumes "ota_inv content dev_ok e s"
  shows "store_sound (oe_store e) dev_ok (os_sys s)" "length (ot_page_buf (os_ota s)) = 256"
  using assms by (simp_all add: ota_inv_def)

lemma ota_inv_session:
  "dl_session content dev_ok e D s \<Longrightarrow> store_sound (oe_store e) dev_ok (os_sys s) \<Longrightarrow> length (ot_page_buf (os_ota s)) = 256 \<Longrightarrow>
   ota_inv content dev_ok e s"
  by (auto simp: ota_inv_def dl_session_def)

lemma dl_session_cong:
  "os_ota s' = os_ota s \<Longrightarrow> os_sys s' = os_sys s \<Longrightarrow> dl_session content dev_ok e D s' = dl_session content dev_ok e D s"
  by (simp add: dl_session_def dl_buf_def)

lemma ota_inv_serving:
  assumes "ota_inv content dev_ok e s" "os_ota s' = os_ota s" "os_sys s' = os_sys s" "os_serving s' = os_serving s \<or> os_serving s'"
  shows "ota_inv content dev_ok e s'"
proof -
  have "dl_session content dev_ok e D s' = dl_session content dev_ok e D s" for D by (rule dl_session_cong [OF assms(2,3)])
  then show ?thesis using assms unfolding ota_inv_def by auto
qed

lemma ota_inv_idle:
  assumes "ot_state (os_ota s) = SYN_OTA_STATE_IDLE \<or> ot_state (os_ota s) = SYN_OTA_STATE_READY"
    and "store_sound (oe_store e) dev_ok (os_sys s)" "length (ot_page_buf (os_ota s)) = 256"
    and "ot_state (os_ota s) = SYN_OTA_STATE_IDLE \<longrightarrow> oe_dual e \<longrightarrow> os_serving s \<and> \<not> ot_cpu1_parked (os_ota s)"
  shows "ota_inv content dev_ok e s"
  using assms by (auto simp: ota_inv_def)

context flash_reliable
begin

lemma dl_active:
  assumes p: "se_port (oe_store e) = port" and geo: "geometry_ok port" and inv: "ota_inv content dev_ok e s"
    and d: "ot_state (os_ota s) = SYN_OTA_STATE_DOWNLOADING"
  obtains D where "dl_session content dev_ok e D s" "ot_slot (os_ota s) \<noteq> so_active (sy_st (os_sys s))" "length D \<le> 2 ^ 31"
proof -
  obtain D where D: "dl_session content dev_ok e D s" using d inv by (auto simp: ota_inv_def)
  then have b: "ot_slot (os_ota s) \<noteq> so_active (sy_st (os_sys s))" "ot_slot (os_ota s) < lo_slot_count (so_lay (sy_st (os_sys s)))"
    "length D \<le> lo_slot_size (so_lay (sy_st (os_sys s)))"
    by (auto simp: dl_session_def dl_buf_def Let_def)
  have lay: "layout_sound (se_max (oe_store e)) port (so_lay (sy_st (os_sys s)))"
    using ota_invD(1) [OF inv] p by (simp add: store_sound_def store_wf_def)
  have "length D \<le> 2 ^ 31" using slot_region [OF lay b(2)] b(3) geo by (simp add: geometry_ok_def)
  then show thesis using that D b(1) by blast
qed

lemma begin_inv:
  assumes p: "se_port (oe_store e) = port" and geo: "geometry_ok port" and inv: "ota_inv content dev_ok e s"
    and b: "syn_ota_begin e nm n s = (r, s')"
  shows "ota_step_ok content dev_ok e s s'"
proof -
  note B = begin_spec [OF p geo ota_invD [OF inv] b]
  have st: "store_sound (oe_store e) dev_ok (os_sys s')" using B(1) ota_frame_sound by blast
  have "ota_inv content dev_ok e s'"
  proof (cases "r = Ok ()")
    case True
    then obtain D where "dl_session content dev_ok e D s'" using B(4) by blast
    then show ?thesis using st B(3) by (rule ota_inv_session)
  next
    case False
    from B(5) [OF this] show ?thesis
      using ota_inv_serving [OF inv] ota_inv_over st B(3) by blast
  qed
  then show ?thesis using B(1) by (simp add: ota_step_ok_def)
qed

lemma chunk_inv:
  assumes p: "se_port (oe_store e) = port" and geo: "geometry_ok port" and inv: "ota_inv content dev_ok e s"
    and ok: "ota_op_ok (Ota_Chunk c)" and w: "syn_ota_write_chunk e c s = (r, s')"
  shows "ota_step_ok content dev_ok e s s'"
proof (cases "ot_state (os_ota s) \<noteq> SYN_OTA_STATE_DOWNLOADING \<or> c = None \<or> c = Some []")
  case True
  then show ?thesis using chunk_refused [OF _ w] ota_step_same [OF inv] by blast
next
  case False
  then obtain src where c: "c = Some src" "src \<noteq> []" by (cases c) auto
  obtain D where D: "dl_session content dev_ok e D s" "ot_slot (os_ota s) \<noteq> so_active (sy_st (os_sys s))" "length D \<le> 2 ^ 31"
    using dl_active [OF p geo inv] False by blast
  have "length D + length src < 2 ^ 32" using ok c(1) D(3) by simp
  note W = write_chunk_spec [OF p D(1) this c(2) w [unfolded c(1)]]
  have "ota_inv content dev_ok e s'"
  proof (cases r)
    case (Inl er)
    then show ?thesis using W(6) ota_inv_over [OF _ ota_frame_sound [OF W(1)] W(4)] by simp
  next
    case (Inr v)
    then have "r = Ok ()" by simp
    then show ?thesis using W(5) ota_inv_session [OF _ ota_frame_sound [OF W(1)] W(4)] by blast
  qed
  then show ?thesis using W(1) D(2) by (rule ota_step_slot)
qed

lemma finish_inv:
  assumes p: "se_port (oe_store e) = port" and geo: "geometry_ok port" and crc: "crc_running (se_upd (oe_store e))"
    and inv: "ota_inv content dev_ok e s" and f: "syn_ota_finish e s = (r, s')"
  shows "ota_step_ok content dev_ok e s s'"
proof (cases "ot_state (os_ota s) = SYN_OTA_STATE_DOWNLOADING")
  case False
  then have "s' = s" using f by (simp add: syn_ota_finish_def)
  then show ?thesis using ota_step_same [OF inv] by simp
next
  case True
  then obtain D where D: "dl_session content dev_ok e D s" "ot_slot (os_ota s) \<noteq> so_active (sy_st (os_sys s))"
    using dl_active [OF p geo inv] by blast
  note F = finish_spec [OF p geo crc D(1) f]
  have st: "store_sound (oe_store e) dev_ok (os_sys s')" by (rule ota_frame_sound [OF F(1)])
  have "ota_inv content dev_ok e s'"
  proof (cases r)
    case (Inl er)
    then show ?thesis using F(4) st F(2) ota_inv_over by blast
  next
    case (Inr v)
    then show ?thesis using F(3) by (intro ota_inv_idle st F(2)) simp_all
  qed
  then show ?thesis using F(1) D(2) by (rule ota_step_slot)
qed

lemma activate_inv:
  assumes p: "se_port (oe_store e) = port" and inv: "ota_inv content dev_ok e s" and r: "syn_ota_activate e s = (r, s')"
  shows "ota_step_ok content dev_ok e s s'"
proof -
  define slot where "slot = (if ot_state (os_ota s) = SYN_OTA_STATE_READY then ot_slot (os_ota s) else syn_store_staged_slot (sy_st (os_sys s)))"
  obtain r1 y where a: "syn_store_activate (oe_store e) slot (os_sys s) = (r1, y)" by fastforce
  have y: "store_sound (oe_store e) dev_ok y" "so_lay (sy_st y) = so_lay (sy_st (os_sys s))"
    "slots_kept content (so_lay (sy_st (os_sys s))) {} (sy_flash (os_sys s)) (sy_flash y)"
    using activate_effect [OF p ota_invD(1) [OF inv] a] ota_invD(1) [OF inv] by (auto simp: op_effect_def)
  have "s' = s \<or> (\<exists>er. enter_error e er (s\<lparr>os_sys := y\<rparr>) = (r, s')) \<or>
        s' = cpu1_unpark e (session_clock e (set_ota (\<lambda>o1. o1\<lparr>ot_state := SYN_OTA_STATE_IDLE\<rparr>) (s\<lparr>os_sys := y\<rparr>)))"
    using r unfolding syn_ota_activate_def Let_def slot_def [symmetric] a prod.case
    by (cases r1) (auto split: if_split_asm)
  then show ?thesis
  proof (elim disjE exE)
    fix er assume w: "enter_error e er (s\<lparr>os_sys := y\<rparr>) = (r, s')"
    have "length (ot_page_buf (os_ota s')) = 256" using w ota_invD(2) [OF inv] by (auto simp: enter_error_def)
    then show ?thesis using enter_error_over [OF w] enter_error_sel(2) [OF w] y
      by (intro ota_step_store ota_inv_over) simp_all
  next
    assume "s' = cpu1_unpark e (session_clock e (set_ota (\<lambda>o1. o1\<lparr>ot_state := SYN_OTA_STATE_IDLE\<rparr>) (s\<lparr>os_sys := y\<rparr>)))"
    then show ?thesis using ota_invD(2) [OF inv] y by (intro ota_step_store ota_inv_idle) simp_all
  qed (simp add: ota_step_same [OF inv])
qed

lemma rollback_inv:
  assumes p: "se_port (oe_store e) = port" and inv: "ota_inv content dev_ok e s" and r: "syn_ota_rollback e s = (r, s')"
  shows "ota_step_ok content dev_ok e s s'"
proof (cases "ot_state (os_ota s) = SYN_OTA_STATE_DOWNLOADING \<or> s' = s")
  case True
  then have "s' = s" using r by (auto simp: syn_ota_rollback_def)
  then show ?thesis using ota_step_same [OF inv] by simp
next
  case False
  obtain r1 y where a: "syn_store_rollback (oe_store e) (os_sys s) = (r1, y)" by fastforce
  have y: "store_sound (oe_store e) dev_ok y" "so_lay (sy_st y) = so_lay (sy_st (os_sys s))"
    "slots_kept content (so_lay (sy_st (os_sys s))) {} (sy_flash (os_sys s)) (sy_flash y)"
    using rollback_effect [OF p ota_invD(1) [OF inv] a] ota_invD(1) [OF inv] by (auto simp: op_effect_def)
  have "s' = s\<lparr>os_sys := y\<rparr> \<or> s' = cpu1_unpark e (set_ota (\<lambda>o1. o1\<lparr>ot_state := SYN_OTA_STATE_IDLE\<rparr>) (s\<lparr>os_sys := y\<rparr>))"
    using r False a unfolding syn_ota_rollback_def by (cases r1) (simp_all split: if_split_asm)
  then have i: "ota_inv content dev_ok e s' \<and> os_sys s' = y"
  proof
    assume "s' = s\<lparr>os_sys := y\<rparr>"
    then show ?thesis using False inv y(1) by (simp add: ota_inv_def)
  next
    assume "s' = cpu1_unpark e (set_ota (\<lambda>o1. o1\<lparr>ot_state := SYN_OTA_STATE_IDLE\<rparr>) (s\<lparr>os_sys := y\<rparr>))"
    then show ?thesis using ota_invD(2) [OF inv] y(1) by (intro conjI ota_inv_idle) simp_all
  qed
  then show ?thesis using y(2,3) by (intro ota_step_store) simp_all
qed

lemma ota_apply_inv:
  assumes "se_port (oe_store e) = port" "geometry_ok port" "crc_running (se_upd (oe_store e))"
    and "ota_inv content dev_ok e s" "ota_op_ok op" "ota_apply e op s = (r, s')"
  shows "ota_step_ok content dev_ok e s s'"
  using assms by (cases op) (auto intro: begin_inv chunk_inv finish_inv activate_inv rollback_inv)

end

lemma ota_run_inv:
  assumes "flash_reliable (se_port (oe_store e)) content dev_ok" "geometry_ok (se_port (oe_store e))"
    and "crc_running (se_upd (oe_store e))"
  shows "ota_inv content dev_ok e s \<Longrightarrow> \<forall>(op, e') \<in> set ops. same_board e e' \<and> ota_op_ok op \<Longrightarrow>
    ota_inv content dev_ok e (ota_run ops s)"
proof (induction ops arbitrary: s)
  case (Cons x ops)
  obtain op e' where x: "x = (op, e')" by fastforce
  then have sb: "same_board e e'" "ota_op_ok op" using Cons.prems(2) by auto
  note S = same_board_sound [OF sb(1)]
  obtain r s1 where a: "ota_apply e' op s = (r, s1)" by fastforce
  have "ota_step_ok content dev_ok e' s s1"
    using flash_reliable.ota_apply_inv [OF assms(1) S(4) assms(2) _ _ sb(2) a] assms(3) S Cons.prems(1) by simp
  then have "ota_inv content dev_ok e s1" using S(3) by (simp add: ota_step_ok_def)
  then show ?case using Cons.IH Cons.prems(2) a x by simp
qed simp

section \<open>The second core over a history\<close>

text \<open>
  \<open>os_cpu1_held\<close> is the core itself, \<open>ot_cpu1_parked\<close> the flag of the session. Parking and unparking,
  as they act on the two.
\<close>

definition core_of :: "('f, 'h) osys \<Rightarrow> bool \<times> bool" where
  "core_of s = (ot_cpu1_parked (os_ota s), os_cpu1_held s)"

fun park_core :: "('f, 'h) oenv \<Rightarrow> bool \<times> bool \<Rightarrow> bool \<times> bool" where
  "park_core e (p, h) = (let stop = (oe_dual e \<and> oe_linked e \<and> oe_stop_ok e) in (p \<or> stop, h \<or> stop))"

fun unpark_core :: "('f, 'h) oenv \<Rightarrow> bool \<times> bool \<Rightarrow> bool \<times> bool" where
  "unpark_core e (p, h) = (p \<and> \<not> oe_dual e, h \<and> \<not> (oe_dual e \<and> p \<and> oe_resume_ok e))"

lemma core_of_cong: "ot_cpu1_parked (os_ota s') = ot_cpu1_parked (os_ota s) \<Longrightarrow> os_cpu1_held s' = os_cpu1_held s \<Longrightarrow> core_of s' = core_of s"
  by (simp add: core_of_def)

lemma core_of_simps [simp]: "core_of (cpu1_unpark e s) = unpark_core e (core_of s)" "core_of (cpu1_park e s) = park_core e (core_of s)"
  "core_of (session_clock e s) = core_of s" "core_of (s\<lparr>os_sys := y\<rparr>) = core_of s" "core_of (s\<lparr>os_serving := b\<rparr>) = core_of s"
  by (auto simp: core_of_def cpu1_park_def Let_def)

lemma core_of_set: "(\<And>o1. ot_cpu1_parked (u o1) = ot_cpu1_parked o1) \<Longrightarrow> core_of (set_ota u s) = core_of s"
  by (simp add: core_of_def)

lemma enter_error_core: "enter_error e er s = (r, s') \<Longrightarrow> core_of s' = unpark_core e (core_of s)"
  by (auto simp: enter_error_def core_of_set)

lemma capture_header_core: "capture_header src o1 = (x, o2) \<Longrightarrow> ot_cpu1_parked o2 = ot_cpu1_parked o1"
  by (auto simp: capture_header_def Let_def split: if_split_asm)

text \<open>The core after a call is what it was, or has gone through a park, an unpark, or both in this order.\<close>

definition core_moves :: "('f, 'h) oenv \<Rightarrow> bool \<times> bool \<Rightarrow> (bool \<times> bool) set" where
  "core_moves e c = {c, unpark_core e c, park_core e c, unpark_core e (park_core e c)}"

lemma core_moves_I [intro]: "c \<in> core_moves e c" "unpark_core e c \<in> core_moves e c" "park_core e c \<in> core_moves e c"
  "unpark_core e (park_core e c) \<in> core_moves e c"
  by (simp_all add: core_moves_def)

lemma begin_core: "syn_ota_begin e nm n s = (r, s') \<Longrightarrow> core_of s' \<in> core_moves e (core_of s)"
  by (auto simp: syn_ota_begin_def ota_start_def Let_def core_of_set core_moves_def dest!: enter_error_core
      split: option.split_asm if_split_asm sum.split_asm prod.split_asm)

lemma flush_core: "flush_pages e final s = (r, s') \<Longrightarrow> core_of s' = core_of s"
  by (auto simp: flush_pages_def Let_def core_of_def split: if_split_asm sum.split_asm prod.split_asm)

lemma buffer_core: "buffer_loop e src s = (r, s') \<Longrightarrow> core_of s' = core_of s"
proof (induction e src s arbitrary: r s' rule: buffer_loop.induct)
  case (1 e src s)
  show ?case
  proof (cases "src = [] \<or> min (PAGE_BUF_SIZE - ot_buffered (os_ota s)) (length src) = 0")
    case True
    then show ?thesis using "1.prems" by (cases "src = []") (simp_all add: buffer_loop.simps [of e src s] buffer_loop.simps [of e "[]" s] Let_def)
  next
    case False
    let ?tk = "min (PAGE_BUF_SIZE - ot_buffered (os_ota s)) (length src)"
    let ?s1 = "s\<lparr>os_ota := (os_ota s)\<lparr>ot_page_buf := blit (ot_buffered (os_ota s)) (take ?tk src) (ot_page_buf (os_ota s)),
        ot_buffered := ot_buffered (os_ota s) + ?tk\<rparr>\<rparr>"
    have c1: "core_of ?s1 = core_of s" by (simp add: core_of_def)
    have n: "src \<noteq> []" "?tk \<noteq> 0" using False by simp_all
    note IH = "1.IH" [OF n(1) refl refl refl n(2)]
    have U: "(if ot_buffered (os_ota ?s1) = PAGE_BUF_SIZE then
        (case flush_pages e False ?s1 of (Inl er, s2) \<Rightarrow> (Err er, s2) | (Inr _, s2) \<Rightarrow> buffer_loop e (drop ?tk src) s2)
      else buffer_loop e (drop ?tk src) ?s1) = (r, s')"
      using "1.prems" unfolding buffer_loop.simps [of e src s] Let_def if_not_P [OF n(1)] if_not_P [OF n(2)] .
    show ?thesis
    proof (cases "ot_buffered (os_ota ?s1) = PAGE_BUF_SIZE")
      case True
      obtain r2 s2 where f: "flush_pages e False ?s1 = (r2, s2)" by fastforce
      show ?thesis
      proof (cases r2)
        case (Inl er)
        then have "s' = s2" using U [unfolded if_P [OF True] f] by simp
        then show ?thesis using flush_core [OF f] c1 by simp
      next
        case (Inr v)
        then have "buffer_loop e (drop ?tk src) s2 = (r, s')" using U [unfolded if_P [OF True] f] by simp
        with IH(1) [OF True f [symmetric] Inr] show ?thesis using flush_core [OF f] c1 by simp
      qed
    next
      case F: False
      from IH(2) [OF F U [unfolded if_not_P [OF F]]] show ?thesis using c1 by simp
    qed
  qed
qed

lemma chunk_core: "syn_ota_write_chunk e c s = (r, s') \<Longrightarrow> core_of s' \<in> core_moves e (core_of s)"
proof -
  have h: "core_of (s\<lparr>os_ota := o2\<rparr>) = core_of s" if "capture_header src (os_ota s) = (x, o2)" for src x o2
    using capture_header_core [OF that] by (simp add: core_of_def)
  assume "syn_ota_write_chunk e c s = (r, s')"
  then show ?thesis
    by (auto simp: syn_ota_write_chunk_def core_of_set core_moves_def dest!: enter_error_core buffer_core dest: h
      split: option.split_asm if_split_asm sum.split_asm prod.split_asm)
qed

lemma finish_core: "syn_ota_finish e s = (r, s') \<Longrightarrow> core_of s' \<in> core_moves e (core_of s)"
  by (auto simp: syn_ota_finish_def Let_def core_of_set core_moves_def dest!: enter_error_core flush_core
      split: if_split_asm sum.split_asm prod.split_asm)

lemma activate_core: "syn_ota_activate e s = (r, s') \<Longrightarrow> core_of s' \<in> core_moves e (core_of s)"
  by (auto simp: syn_ota_activate_def Let_def core_of_set core_moves_def dest!: enter_error_core
      split: if_split_asm sum.split_asm prod.split_asm)

lemma rollback_core: "syn_ota_rollback e s = (r, s') \<Longrightarrow> core_of s' \<in> core_moves e (core_of s)"
  by (auto simp: syn_ota_rollback_def core_of_set core_moves_def split: if_split_asm sum.split_asm prod.split_asm)

lemma ota_apply_core: "ota_apply e op s = (r, s') \<Longrightarrow> core_of s' \<in> core_moves e (core_of s)"
  by (cases op) (simp_all add: begin_core chunk_core finish_core activate_core rollback_core)

text \<open>
  The core is held while the flag is set; and when every restart so far worked (\<open>ok\<close>), only then.
\<close>

definition core_tracked :: "bool \<Rightarrow> bool \<times> bool \<Rightarrow> bool" where
  "core_tracked ok c \<longleftrightarrow> (fst c \<longrightarrow> snd c) \<and> (ok \<longrightarrow> snd c \<longrightarrow> fst c)"

lemma core_moves_tracked:
  assumes "core_tracked ok c" "d \<in> core_moves e c"
  shows "core_tracked (ok \<and> oe_resume_ok e) d"
  using assms by (cases c) (auto simp: core_moves_def core_tracked_def Let_def)

lemma ota_run_core:
  "core_tracked ok (core_of s) \<Longrightarrow> core_tracked (ok \<and> (\<forall>(op, e) \<in> set ops. oe_resume_ok e)) (core_of (ota_run ops s))"
proof (induction ops arbitrary: s ok)
  case (Cons x ops)
  obtain op e where x: "x = (op, e)" by fastforce
  obtain r s1 where a: "ota_apply e op s = (r, s1)" by fastforce
  from Cons.IH [OF core_moves_tracked [OF Cons.prems ota_apply_core [OF a]]] show ?case
    using a x by (simp add: conj_assoc)
qed simp

lemma healthy_update_staged:
  assumes "ram_target e mem_addr sz sector page" "crc_running (se_upd (oe_store e))"
    and "ota_inv fr_mem (ram_sized sz) e s" "fr_fail_after (sy_flash (os_sys s)) = 0" "\<And>h. \<not> se_susp (oe_store e) h"
    and "syn_store_staging_slot True (sy_st (os_sys s)) = Ok slot" "slot \<noteq> so_active (sy_st (os_sys s))"
    and "cstr 1 name \<noteq> []" "synm_valid (oe_store e) name (concat cs)" "\<forall>c \<in> set cs. c \<noteq> []"
    and "length (concat cs) \<le> lo_slot_size (so_lay (sy_st (os_sys s)))" "oe_dual e \<longrightarrow> oe_drain_ok e"
  shows "\<exists>s1 s2 s3. syn_ota_begin e (Some name) (length (concat cs)) s = (Ok (), s1) \<and> ota_stream e cs s1 = (Ok (), s2) \<and>
    syn_ota_finish e s2 = (Ok (), s3) \<and> fr_fail_after (sy_flash (os_sys s3)) = 0 \<and>
    dl_session fr_mem (ram_sized sz) e (concat cs) s2 \<and> ot_slot (os_ota s2) = slot \<and>
    so_lay (sy_st (os_sys s2)) = so_lay (sy_st (os_sys s))"
proof -
  note T = ram_targetD [OF assms(1)] and I = ota_invD [OF assms(3)]
  let ?n = "length (concat cs)"
  have n: "64 < ?n" using assms(9) by (simp add: synm_valid_def)
  obtain s1 where s1: "syn_ota_begin e (Some name) ?n s = (Ok (), s1)" "blank_rest (round_up ?n sector) s1"
    using healthy_begin [OF assms(1) I(1) assms(4-8) n assms(11,12)] by blast
  note B = flash_reliable.begin_spec [OF T(6) refl T(7) I s1(1)]
  have d: "dl_session fr_mem (ram_sized sz) e [] s1" "ot_total_size (os_ota s1) = ?n" "ot_name (os_ota s1) = strncpy_z name 32"
    "ot_slot (os_ota s1) = slot"
    using B(4) assms(6) by auto
  obtain s2 where s2: "ota_stream e cs s1 = (Ok (), s2)" "blank_rest (round_up ?n sector) s2"
    using healthy_stream [OF assms(1,9,10) d(1)] s1(2) d(2,3) by auto
  have "?n \<le> 2 ^ 31"
  proof -
    have "dl_buf fr_mem (ram_sized sz) e [] s1" using d(1) by (simp add: dl_session_def)
    from dl_ram_facts(2,3) [OF assms(1) this] show ?thesis using d(2) T(5) by simp
  qed
  then have S: "dl_session fr_mem (ram_sized sz) e (concat cs) s2" "ot_slot (os_ota s2) = slot" "ot_total_size (os_ota s2) = ?n"
    "sy_st (os_sys s2) = sy_st (os_sys s1)"
    using ota_stream_spec [OF T(6) d(1) _ s2(1)] d by auto
  obtain s3 where s3: "syn_ota_finish e s2 = (Ok (), s3)" "fr_fail_after (sy_flash (os_sys s3)) = 0"
    using healthy_finish [OF assms(1,2,9) S(1)] s2(2) S(3) by auto
  have "so_lay (sy_st (os_sys s1)) = so_lay (sy_st (os_sys s))" using B(1) by (auto simp: ota_frame_def)
  then show ?thesis using s1(1) s2(1) s3 S(1,2,4) by (intro exI [of _ s1] exI [of _ s2] exI [of _ s3]) simp
qed

section \<open>Properties\<close>

text \<open>The update that witnesses them: slot 1 is active, a 67-byte package goes to slot 0.\<close>

definition demo_oenv :: "(flash_ram, npu_stub) oenv" where
  "demo_oenv = \<lparr>oe_store = demo_env, oe_dual = True, oe_linked = True, oe_stop_ok = True, oe_resume_ok = True,
     oe_drain_ok = True, oe_us = 9\<rparr>"

definition demo_osys :: "(flash_ram, npu_stub) osys" where
  "demo_osys = \<lparr>os_ota = reset_ota, os_sys = demo_active, os_cpu1_held = False, os_serving = True\<rparr>"

definition demo_chunks :: "u8 list list" where
  "demo_chunks = [synm_hdr_bytes (65 # replicate 31 0) 3 3 [0, 0, 0, 0] [0, 0, 0, 0] @ [1], [2, 3]]"

lemma demo_oenv_sel [simp]: "oe_store demo_oenv = demo_env" "oe_dual demo_oenv" "oe_drain_ok demo_oenv"
  by (simp_all add: demo_oenv_def)

lemma demo_target: "ram_target demo_oenv 0 544 8 8" "crc_running (se_upd (oe_store demo_oenv))"
  by (simp_all add: ram_target_def crc_running_def demo_env_def add.assoc)

lemma demo_osys_inv: "ota_inv fr_mem demo_ok demo_oenv demo_osys"
  using demo_activate(1) by (simp add: ota_inv_def demo_osys_def reset_ota_def)

lemma demo_osys_staging: "syn_store_staging_slot True (sy_st (os_sys demo_osys)) = Ok 0"
proof -
  have "so_ready (sy_st demo_active)" using demo_activate(1) by (simp add: store_sound_def)
  then show ?thesis using demo_activate(3,6,7) by (simp add: syn_store_staging_slot_def demo_osys_def upt_01)
qed

lemma demo_chunks_valid: "synm_valid demo_env [65] (concat demo_chunks)"
  by code_simp

lemma demo_chunks_length: "length (concat demo_chunks) = 67" "\<forall>c \<in> set demo_chunks. c \<noteq> []"
  by code_simp+

lemma demo_run_facts: "fr_fail_after (sy_flash (os_sys demo_osys)) = 0"
  "0 \<noteq> so_active (sy_st (os_sys demo_osys))" "cstr 1 [65 :: u8] \<noteq> []" "synm_valid (oe_store demo_oenv) [65] (concat demo_chunks)"
  "length (concat demo_chunks) \<le> lo_slot_size (so_lay (sy_st (os_sys demo_osys)))"
  using demo_activate demo_chunks_valid demo_chunks_length(1) by (simp_all add: demo_osys_def healthy_def cstr_def)

lemma demo_update_runs: "\<exists>s1 s2 s3. syn_ota_begin demo_oenv (Some [65]) 67 demo_osys = (Ok (), s1) \<and>
    ota_stream demo_oenv demo_chunks s1 = (Ok (), s2) \<and> syn_ota_finish demo_oenv s2 = (Ok (), s3)"
  using healthy_update_staged [OF demo_target demo_osys_inv demo_run_facts(1) _ demo_osys_staging demo_run_facts(2),
      of "[65]" demo_chunks] demo_run_facts(3-) demo_chunks_length by auto

text \<open>
  C2: an update that finishes has landed exactly: however the package was split into chunks, the
  stream is a valid package of the announced size and name whose payload CRC matches, the staging
  slot (never the active one) holds it byte for byte, and the committed record is the one of that
  payload, with the active model as before.
\<close>

theorem finished_update_landed_exactly:
  assumes "flash_reliable (se_port (oe_store e)) content dev_ok" "geometry_ok (se_port (oe_store e))"
    and "crc_running (se_upd (oe_store e))" "ota_inv content dev_ok e s"
    and "syn_ota_begin e (Some name) n s = (Ok (), s1)" "ota_stream e cs s1 = (Ok (), s2)"
    and "length (concat cs) < 2 ^ 32" "syn_ota_finish e s2 = (Ok (), s3)"
  shows "\<exists>slot. syn_store_staging_slot True (sy_st (os_sys s)) = Ok slot \<and> slot \<noteq> so_active (sy_st (os_sys s)) \<and>
    synm_valid (oe_store e) name (concat cs) \<and> length (concat cs) = n \<and>
    slice (lo_slot_off (so_lay (sy_st (os_sys s))) ! slot) n (content (sy_flash (os_sys s3))) = concat cs \<and>
    so_active (sy_st (os_sys s3)) = so_active (sy_st (os_sys s)) \<and> so_staged (sy_st (os_sys s3)) = slot \<and>
    (\<exists>nfo. so_rec (sy_st (os_sys s3)) ! slot = nfo \<and> mi_name nfo = strncpy_z name 32 \<and>
       mi_crc32 nfo = se_crc (oe_store e) (drop 64 (concat cs)) \<and> mi_flash_size nfo = of_nat (n - 64) \<and>
       mi_flash_offset nfo = of_nat (fp_base (se_port (oe_store e)) + lo_slot_off (so_lay (sy_st (os_sys s))) ! slot + 64))"
proof -
  note I = ota_invD [OF assms(4)]
  note B = flash_reliable.begin_spec [OF assms(1) refl assms(2) I assms(5)]
  have d: "dl_session content dev_ok e [] s1" and st: "syn_store_staging_slot True (sy_st (os_sys s)) = Ok (ot_slot (os_ota s1))"
    and n: "ot_total_size (os_ota s1) = n" "ot_name (os_ota s1) = strncpy_z name 32"
    using B(4) by auto
  have lay: "so_lay (sy_st (os_sys s1)) = so_lay (sy_st (os_sys s))" using B(1) by (auto simp: ota_frame_def)
  have S: "dl_session content dev_ok e (concat cs) s2" "ot_slot (os_ota s2) = ot_slot (os_ota s1)"
    "ot_total_size (os_ota s2) = n" "ot_name (os_ota s2) = strncpy_z name 32" "sy_st (os_sys s2) = sy_st (os_sys s1)"
    using ota_stream_spec [OF assms(1) d _ assms(6)] assms(7) n by auto
  note F = flash_reliable.finish_spec(3) [OF assms(1) refl assms(2,3) S(1) assms(8) refl]
  have b: "ot_slot (os_ota s2) \<noteq> so_active (sy_st (os_sys s2))" "ot_slot (os_ota s2) < lo_slot_count (so_lay (sy_st (os_sys s2)))"
    "store_sound (oe_store e) dev_ok (os_sys s2)" "64 < n"
    using S(1,3) by (auto simp: dl_session_def dl_buf_def Let_def)
  then have rl: "ot_slot (os_ota s2) < length (so_rec (sy_st (os_sys s2)))"
    by (auto simp: store_sound_def store_wf_def layout_sound_def)
  have v: "synm_valid (oe_store e) name (concat cs)"
    using F S(3,4) b(4) by (auto simp: header_check_def synm_valid_def split: if_split_asm)
  then have ms: "sy_model_size (take 64 (concat cs)) = n - 64" using F S(3) by (simp add: synm_valid_def)
  show ?thesis
    using F S st lay v B(2) b(1) rl by (auto simp: pfields_def ota_info_def ms)
qed

theorem finished_update_landed_exactly_witness:
  "\<exists>s3. syn_ota_finish demo_oenv (snd (ota_stream demo_oenv demo_chunks
       (snd (syn_ota_begin demo_oenv (Some [65]) 67 demo_osys)))) = (Ok (), s3) \<and>
     slice 400 67 (fr_mem (sy_flash (os_sys s3))) = concat demo_chunks \<and> so_staged (sy_st (os_sys s3)) = 0"
proof -
  obtain s1 s2 s3 where r: "syn_ota_begin demo_oenv (Some [65]) 67 demo_osys = (Ok (), s1)"
    "ota_stream demo_oenv demo_chunks s1 = (Ok (), s2)" "syn_ota_finish demo_oenv s2 = (Ok (), s3)"
    using demo_update_runs by blast
  show ?thesis
    using finished_update_landed_exactly [OF _ _ demo_target(2) demo_osys_inv r(1,2) _ r(3)] r demo_osys_staging
      demo_reliable demo_geometry demo_chunks_length demo_activate(3)
    by (auto simp: demo_osys_def)
qed

text \<open>
  C9: in every history of update calls with any outcomes, the store stays sound and the session in
  a stable state; no call changes a byte of the slot that is active when it is made; and the second
  core comes back: outside a session serving is admitted and the core is not parked, the core is held
  in reset whenever the session says so, and it is held without a session only if one of its restarts
  failed.
\<close>

theorem update_calls_keep_the_running_model:
  assumes "flash_reliable (se_port (oe_store e)) content dev_ok" "geometry_ok (se_port (oe_store e))"
    and "crc_running (se_upd (oe_store e))" "ota_inv content dev_ok e s0"
    and "\<forall>(op, e') \<in> set ops. same_board e e' \<and> ota_op_ok op" "ota_op_ok op"
    and "ota_run ops s0 = s" "ota_apply e op s = (r, s')" "so_active (sy_st (os_sys s)) \<noteq> SLOT_NONE"
    and "os_cpu1_held s0 = ot_cpu1_parked (os_ota s0)"
  shows "ota_inv content dev_ok e s' \<and>
    slice (lo_slot_off (so_lay (sy_st (os_sys s))) ! so_active (sy_st (os_sys s))) (lo_slot_size (so_lay (sy_st (os_sys s))))
      (content (sy_flash (os_sys s'))) =
    slice (lo_slot_off (so_lay (sy_st (os_sys s))) ! so_active (sy_st (os_sys s))) (lo_slot_size (so_lay (sy_st (os_sys s))))
      (content (sy_flash (os_sys s))) \<and>
    (ot_cpu1_parked (os_ota s') \<longrightarrow> os_cpu1_held s') \<and>
    (oe_dual e \<and> ot_state (os_ota s') \<notin> {SYN_OTA_STATE_DOWNLOADING, SYN_OTA_STATE_READY} \<longrightarrow>
       os_serving s' \<and> (os_cpu1_held s' \<longrightarrow> (\<exists>e' \<in> insert e (snd ` set ops). \<not> oe_resume_ok e')))"
proof -
  have inv: "ota_inv content dev_ok e s" using ota_run_inv [OF assms(1-5)] assms(7) by simp
  have "so_active (sy_st (os_sys s)) < lo_slot_count (so_lay (sy_st (os_sys s)))"
    using ota_invD(1) [OF inv] assms(9) by (auto simp: store_sound_def store_wf_def slot_field_ok_def)
  with flash_reliable.ota_apply_inv [OF assms(1) refl assms(2,3) inv assms(6,8)]
  have 1: "ota_inv content dev_ok e s'"
    "slice (lo_slot_off (so_lay (sy_st (os_sys s))) ! so_active (sy_st (os_sys s))) (lo_slot_size (so_lay (sy_st (os_sys s))))
      (content (sy_flash (os_sys s'))) =
    slice (lo_slot_off (so_lay (sy_st (os_sys s))) ! so_active (sy_st (os_sys s))) (lo_slot_size (so_lay (sy_st (os_sys s))))
      (content (sy_flash (os_sys s)))"
    by (auto simp: ota_step_ok_def ota_frame_def slots_kept_def)
  have "core_tracked True (core_of s0)" using assms(10) by (simp add: core_tracked_def core_of_def)
  from core_moves_tracked [OF ota_run_core [OF this, of ops, unfolded assms(7)] ota_apply_core [OF assms(8)]]
  have "core_tracked ((\<forall>x \<in> set ops. oe_resume_ok (snd x)) \<and> oe_resume_ok e) (core_of s')" by (simp add: split_beta)
  then have "ot_cpu1_parked (os_ota s') \<longrightarrow> os_cpu1_held s'"
    "os_cpu1_held s' \<Longrightarrow> \<not> ot_cpu1_parked (os_ota s') \<Longrightarrow> \<exists>e' \<in> insert e (snd ` set ops). \<not> oe_resume_ok e'"
    by (auto simp: core_tracked_def core_of_def)
  moreover have "os_serving s' \<and> \<not> ot_cpu1_parked (os_ota s')"
    if "oe_dual e \<and> ot_state (os_ota s') \<notin> {SYN_OTA_STATE_DOWNLOADING, SYN_OTA_STATE_READY}"
    using 1(1) that by (simp add: ota_inv_def)
  ultimately show ?thesis using 1 by blast
qed

theorem update_calls_keep_the_running_model_witness:
  "ota_inv fr_mem demo_ok demo_oenv (snd (ota_apply demo_oenv (Ota_Begin (Some [65]) 67) (ota_run [(Ota_Finish, demo_oenv)] demo_osys)))"
proof -
  obtain r s' where a: "ota_apply demo_oenv (Ota_Begin (Some [65]) 67) (ota_run [(Ota_Finish, demo_oenv)] demo_osys) = (r, s')"
    by fastforce
  have sb: "same_board demo_oenv demo_oenv"
    unfolding same_board_def env_at_def demo_oenv_sel(1)
    by (intro conjI exI [of _ "se_susp demo_env"] exI [of _ "se_us demo_env"]) simp_all
  have "so_active (sy_st (os_sys (ota_run [(Ota_Finish, demo_oenv)] demo_osys))) \<noteq> SLOT_NONE"
    using demo_activate(2) by (simp add: syn_ota_finish_def demo_osys_def reset_ota_def)
  moreover have "os_cpu1_held demo_osys = ot_cpu1_parked (os_ota demo_osys)" by (simp add: demo_osys_def reset_ota_def)
  ultimately show ?thesis
    using update_calls_keep_the_running_model [OF _ _ demo_target(2) demo_osys_inv _ _ refl a] a demo_reliable demo_geometry sb
    by simp
qed

lemma slots_kept_part:
  assumes "slots_kept content lay X f f'" "k < lo_slot_count lay" "k \<notin> X" "n \<le> lo_slot_size lay"
  shows "slice (lo_slot_off lay ! k) n (content f') = slice (lo_slot_off lay ! k) n (content f)"
proof -
  have "slice off n xs = take n (slice off (lo_slot_size lay) xs)" for off and xs :: "u8 list"
    using assms(4) by (simp add: slice_def min_absorb1)
  then show ?thesis using assms(1-3) by (simp add: slots_kept_def)
qed

text \<open>
  On a device without faults, a valid package in any split into non-empty chunks is taken
  from begin to activation without an error, and its slot is then the active one and holds the package.
\<close>

theorem update_completes_on_healthy_device:
  assumes "ram_target e mem_addr sz sector page" "crc_running (se_upd (oe_store e))"
    and "ota_inv fr_mem (ram_sized sz) e s" "fr_fail_after (sy_flash (os_sys s)) = 0" "\<And>h. \<not> se_susp (oe_store e) h"
    and "syn_store_staging_slot True (sy_st (os_sys s)) = Ok slot" "slot \<noteq> so_active (sy_st (os_sys s))"
    and "cstr 1 name \<noteq> []" "synm_valid (oe_store e) name (concat cs)" "\<forall>c \<in> set cs. c \<noteq> []"
    and "length (concat cs) \<le> lo_slot_size (so_lay (sy_st (os_sys s)))" "oe_dual e \<longrightarrow> oe_drain_ok e"
  shows "\<exists>s1 s2 s3 s4. syn_ota_begin e (Some name) (length (concat cs)) s = (Ok (), s1) \<and> ota_stream e cs s1 = (Ok (), s2) \<and>
    syn_ota_finish e s2 = (Ok (), s3) \<and> syn_ota_activate e s3 = (Ok (), s4) \<and>
    so_active (sy_st (os_sys s4)) = slot \<and> syn_ota_get_state s4 = SYN_OTA_STATE_IDLE \<and>
    slice (lo_slot_off (so_lay (sy_st (os_sys s))) ! slot) (length (concat cs)) (fr_mem (sy_flash (os_sys s4))) = concat cs"
proof -
  note T = ram_targetD [OF assms(1)]
  obtain s1 s2 s3 where r: "syn_ota_begin e (Some name) (length (concat cs)) s = (Ok (), s1)" "ota_stream e cs s1 = (Ok (), s2)"
    "syn_ota_finish e s2 = (Ok (), s3)" "fr_fail_after (sy_flash (os_sys s3)) = 0"
    and S: "dl_session fr_mem (ram_sized sz) e (concat cs) s2" "ot_slot (os_ota s2) = slot"
      "so_lay (sy_st (os_sys s2)) = so_lay (sy_st (os_sys s))"
    using healthy_update_staged [OF assms] by blast
  note F = flash_reliable.finish_spec [OF T(6) refl T(7) assms(2) S(1) r(3)]
  have so3: "store_sound (oe_store e) (ram_sized sz) (os_sys s3)" by (rule ota_frame_sound [OF F(1)])
  have h3: "healthy (oe_store e) mem_addr sz sector page (os_sys s3)" using T(1-4) so3 r(4) by (simp add: healthy_def)
  have b: "slot \<noteq> so_active (sy_st (os_sys s2))" "slot < lo_slot_count (so_lay (sy_st (os_sys s2)))" "slot < 8"
    using S(1,2) flash_reliable.slot_lt8 [OF T(6) refl, of "os_sys s2" slot] by (auto simp: dl_session_def dl_buf_def Let_def)
  have a: "slot < lo_slot_count (so_lay (sy_st (os_sys s3)))" "slot \<noteq> so_active (sy_st (os_sys s3))" "bit (so_occ (sy_st (os_sys s3))) slot"
    using F(1,3) S(2) b by (auto simp: ota_frame_def pfields_def bit_simps)
  obtain y where y: "syn_store_activate (oe_store e) slot (os_sys s3) = (Ok (), y)" "so_active (sy_st y) = slot"
    "slots_kept fr_mem (so_lay (sy_st (os_sys s3))) {} (sy_flash (os_sys s3)) (sy_flash y)"
    using healthy_activate [OF h3 a assms(5)] by (auto simp: op_effect_def pfields_def)
  have ly: "so_lay (sy_st (os_sys s3)) = so_lay (sy_st (os_sys s2))" using F(1) by (simp add: ota_frame_def)
  have "slice (lo_slot_off (so_lay (sy_st (os_sys s))) ! slot) (length (concat cs)) (fr_mem (sy_flash (os_sys s3))) = concat cs"
    using F(3) S(2,3) by metis
  then have c: "slice (lo_slot_off (so_lay (sy_st (os_sys s))) ! slot) (length (concat cs)) (fr_mem (sy_flash y)) = concat cs"
    using slots_kept_part [OF y(3), of slot "length (concat cs)"] b(2) ly S(3) assms(11) by simp
  have "syn_ota_activate e s3 = (Ok (), cpu1_unpark e (session_clock e
      (set_ota (\<lambda>o1. o1\<lparr>ot_state := SYN_OTA_STATE_IDLE\<rparr>) (s3\<lparr>os_sys := y\<rparr>))))"
    using F(3) S(2) y(1) by (simp add: syn_ota_activate_def Let_def)
  then show ?thesis using r(1-3) y(2) c by (simp add: syn_ota_get_state_def)
qed

theorem update_completes_on_healthy_device_witness:
  "\<exists>s1 s2 s3 s4. syn_ota_begin demo_oenv (Some [65]) 67 demo_osys = (Ok (), s1) \<and>
    ota_stream demo_oenv demo_chunks s1 = (Ok (), s2) \<and> syn_ota_finish demo_oenv s2 = (Ok (), s3) \<and>
    syn_ota_activate demo_oenv s3 = (Ok (), s4) \<and> so_active (sy_st (os_sys s4)) = 0"
  using update_completes_on_healthy_device [OF demo_target demo_osys_inv demo_run_facts(1) _ demo_osys_staging demo_run_facts(2),
      of "[65]" demo_chunks] demo_run_facts(3-) demo_chunks_length by auto

end
