(* ===== verification/Ota_Shell.thy ===== *)
theory Ota_Shell
  imports Ota_Safety
begin

text \<open>
  The shell transport of an update in \<open>src/core/syn_shell.c\<close>: the \<open>syn ota\<close> and \<open>syn store activate\<close>
  commands, the hex chunks and the raw binary mode, which takes the UART bytes in whatever fragments the
  shell hands over, collects them in a 512-byte buffer and feeds the engine of \<open>Model_Ota\<close>, with a watchdog
  work item that ends a stalled transfer. Numbers are the values \<open>strtoul\<close> gave for the arguments,
  \<open>hex2bin\<close> of the Zephyr library is an argument, and the lines a command prints are values.
\<close>

section \<open>State\<close>

datatype shell_line =
    Ln_error errno | Ln_begin nat | Ln_ok nat nat | Ln_raw nat | Ln_raw_ok nat nat | Ln_raw_failed errno nat
  | Ln_usage | Ln_done syn_ota_state | Ln_activated nat | Ln_rolled_back nat | Ln_already nat | Ln_active nat

record ('f, 'h) oshell =
  sh_ota :: "('f, 'h) osys"
  sh_out :: "shell_line list"
  rw_open :: bool
  rw_bypass :: bool
  rw_watchdog :: bool
  rw_expected :: nat
  rw_received :: nat
  rw_error :: "errno option"
  rw_buf :: "u8 list"

abbreviation (input) RAW_BUF_SIZE :: nat where "RAW_BUF_SIZE \<equiv> 512"

definition say :: "shell_line \<Rightarrow> ('f, 'h) oshell \<Rightarrow> ('f, 'h) oshell" where
  "say l s = s\<lparr>sh_out := sh_out s @ [l]\<rparr>"

definition progress :: "(nat \<Rightarrow> nat \<Rightarrow> shell_line) \<Rightarrow> ('f, 'h) oshell \<Rightarrow> ('f, 'h) oshell" where
  "progress l s = (let st = syn_ota_get_status (sh_ota s) in say (l (oa_received st) (oa_total_size st)) s)"

section \<open>Commands\<close>

definition cmd_ota_begin :: "('f, 'h) oenv \<Rightarrow> u8 list \<Rightarrow> nat \<Rightarrow> ('f, 'h) oshell \<Rightarrow> unit res \<times> ('f, 'h) oshell" where
  "cmd_ota_begin e name n s =
     (case syn_ota_begin e (Some name) n (sh_ota s) of
        (Inl er, o1) \<Rightarrow> (Err er, say (Ln_error er) (s\<lparr>sh_ota := o1\<rparr>))
      | (Inr _, o1) \<Rightarrow> (Ok (), say (Ln_begin n) (s\<lparr>sh_ota := o1\<rparr>)))"

definition cmd_ota_data ::
  "('f, 'h) oenv \<Rightarrow> (u8 list \<Rightarrow> u8 list) \<Rightarrow> nat \<Rightarrow> u8 list \<Rightarrow> ('f, 'h) oshell \<Rightarrow> unit res \<times> ('f, 'h) oshell" where
  "cmd_ota_data e hex2bin cmd_buff hex s =
     (if length hex = 0 \<or> length hex mod 2 \<noteq> 0 \<or> length hex div 2 > cmd_buff div 2 then (Err EINVAL, say (Ln_error EINVAL) s)
      else if length (hex2bin hex) \<noteq> length hex div 2 then (Err EINVAL, say (Ln_error EINVAL) s)
      else (case syn_ota_write_chunk e (Some (hex2bin hex)) (sh_ota s) of
              (Inl er, o1) \<Rightarrow> (Err er, say (Ln_error er) (s\<lparr>sh_ota := o1\<rparr>))
            | (Inr _, o1) \<Rightarrow> (Ok (), progress Ln_ok (s\<lparr>sh_ota := o1\<rparr>))))"

definition cmd_ota_done :: "('f, 'h) oenv \<Rightarrow> ('f, 'h) oshell \<Rightarrow> unit res \<times> ('f, 'h) oshell" where
  "cmd_ota_done e s =
     (case syn_ota_finish e (sh_ota s) of
        (Inl er, o1) \<Rightarrow> (Err er, say (Ln_error er) (s\<lparr>sh_ota := o1\<rparr>))
      | (Inr _, o1) \<Rightarrow> (Ok (), say (Ln_done (syn_ota_get_state o1)) (s\<lparr>sh_ota := o1\<rparr>)))"

definition cmd_ota_activate :: "('f, 'h) oenv \<Rightarrow> ('f, 'h) oshell \<Rightarrow> unit res \<times> ('f, 'h) oshell" where
  "cmd_ota_activate e s =
     (case syn_ota_activate e (sh_ota s) of
        (Inl er, o1) \<Rightarrow> (Err er, say (Ln_error er) (s\<lparr>sh_ota := o1\<rparr>))
      | (Inr _, o1) \<Rightarrow> (Ok (), say (Ln_activated (so_active (sy_st (os_sys o1)))) (s\<lparr>sh_ota := o1\<rparr>)))"

definition cmd_ota_rollback :: "('f, 'h) oenv \<Rightarrow> ('f, 'h) oshell \<Rightarrow> unit res \<times> ('f, 'h) oshell" where
  "cmd_ota_rollback e s =
     (case syn_ota_rollback e (sh_ota s) of
        (Inl er, o1) \<Rightarrow> (Err er, say (Ln_error er) (s\<lparr>sh_ota := o1\<rparr>))
      | (Inr _, o1) \<Rightarrow> (Ok (), say (Ln_rolled_back (so_active (sy_st (os_sys o1)))) (s\<lparr>sh_ota := o1\<rparr>)))"

text \<open>The slot is the low byte of the number: \<open>(uint8_t)strtoul (...)\<close>.\<close>

definition cmd_store_activate :: "('f, 'h) oenv \<Rightarrow> nat option \<Rightarrow> ('f, 'h) oshell \<Rightarrow> unit res \<times> ('f, 'h) oshell" where
  "cmd_store_activate e arg s =
     (case arg of
        None \<Rightarrow> (Err EINVAL, say Ln_usage s)
      | Some n \<Rightarrow>
          if \<not> so_ready (sy_st (os_sys (sh_ota s))) then (Err ENODEV, say (Ln_error ENODEV) s)
          else let slot = n mod 2 ^ 8 in
            (case syn_store_activate (oe_store e) slot (os_sys (sh_ota s)) of
               (Inl er, y) \<Rightarrow>
                 (let s1 = s\<lparr>sh_ota := (sh_ota s)\<lparr>os_sys := y\<rparr>\<rparr>
                  in if er = EALREADY then (Ok (), say (Ln_already slot) s1) else (Err er, say (Ln_error er) s1))
             | (Inr _, y) \<Rightarrow> (Ok (), say (Ln_active slot) (s\<lparr>sh_ota := (sh_ota s)\<lparr>os_sys := y\<rparr>\<rparr>))))"

section \<open>The raw binary mode\<close>

definition ota_raw_finish :: "('f, 'h) oshell \<Rightarrow> ('f, 'h) oshell" where
  "ota_raw_finish s =
     (let s1 = s\<lparr>rw_watchdog := False, rw_bypass := False\<rparr>
      in case rw_error s1 of
           Some er \<Rightarrow> say (Ln_raw_failed er (rw_received s1)) s1
         | None \<Rightarrow> progress Ln_raw_ok s1)"

definition ota_raw_timeout :: "('f, 'h) oshell \<Rightarrow> ('f, 'h) oshell" where
  "ota_raw_timeout s =
     (if rw_open s \<and> rw_received s < rw_expected s then ota_raw_finish (s\<lparr>rw_error := Some ETIMEDOUT\<rparr>) else s)"

definition ota_raw_flush :: "('f, 'h) oenv \<Rightarrow> ('f, 'h) oshell \<Rightarrow> ('f, 'h) oshell" where
  "ota_raw_flush e s =
     (if rw_buf s = [] \<or> rw_error s \<noteq> None then s\<lparr>rw_buf := []\<rparr>
      else (case syn_ota_write_chunk e (Some (rw_buf s)) (sh_ota s) of
              (Inl er, o1) \<Rightarrow> s\<lparr>sh_ota := o1, rw_error := Some er, rw_buf := []\<rparr>
            | (Inr _, o1) \<Rightarrow> s\<lparr>sh_ota := o1, rw_buf := []\<rparr>))"

text \<open>
  One fragment. A piece of 0 bytes, on which the code would spin, cannot occur: a full buffer is flushed
  at once.
\<close>

function raw_loop :: "('f, 'h) oenv \<Rightarrow> u8 list \<Rightarrow> ('f, 'h) oshell \<Rightarrow> ('f, 'h) oshell" where
  "raw_loop e data s =
     (let n = min (min (length data) (RAW_BUF_SIZE - length (rw_buf s))) (rw_expected s - rw_received s)
      in if data \<noteq> [] \<and> rw_received s < rw_expected s \<and> 0 < n
         then let s1 = s\<lparr>rw_buf := rw_buf s @ take n data, rw_received := rw_received s + n\<rparr>
              in raw_loop e (drop n data) (if length (rw_buf s1) = RAW_BUF_SIZE then ota_raw_flush e s1 else s1)
         else s)"
  by pat_completeness auto
termination by (relation "measure (\<lambda>(_, data, _). length data)") auto

declare raw_loop.simps [simp del]

definition ota_raw_bypass :: "('f, 'h) oenv \<Rightarrow> u8 list \<Rightarrow> ('f, 'h) oshell \<Rightarrow> ('f, 'h) oshell" where
  "ota_raw_bypass e data s =
     (let s1 = raw_loop e data s
      in if rw_received s1 \<ge> rw_expected s1 then ota_raw_finish (ota_raw_flush e s1) else s1\<lparr>rw_watchdog := True\<rparr>)"

definition cmd_ota_rawdata :: "nat \<Rightarrow> ('f, 'h) oshell \<Rightarrow> unit res \<times> ('f, 'h) oshell" where
  "cmd_ota_rawdata n s =
     (if n = 0 then (Err EINVAL, say Ln_usage s)
      else (Ok (), (say (Ln_raw n) (s\<lparr>rw_open := True, rw_expected := n, rw_received := 0, rw_error := None, rw_buf := []\<rparr>))
              \<lparr>rw_bypass := True, rw_watchdog := True\<rparr>))"

section \<open>The stream behind the fragments\<close>

fun pieces :: "'a list \<Rightarrow> 'a list list" where
  "pieces xs = (if xs = [] then [] else take RAW_BUF_SIZE xs # pieces (drop RAW_BUF_SIZE xs))"

declare pieces.simps [simp del]

lemma concat_pieces [simp]: "concat (pieces xs) = xs"
  by (induction xs rule: pieces.induct) (subst pieces.simps, simp)

lemma pieces_nonempty: "\<forall>c \<in> set (pieces xs). c \<noteq> []"
  by (induction xs rule: pieces.induct) (subst pieces.simps, simp)

lemma pieces_full:
  assumes "\<forall>f \<in> set fs. length f = RAW_BUF_SIZE" "length r < RAW_BUF_SIZE"
  shows "pieces (concat fs @ r) = fs @ (if r = [] then [] else [r])"
  using assms(1)
proof (induction fs)
  case Nil
  then show ?case using assms(2) by (simp add: pieces.simps)
next
  case (Cons f fs)
  then have "f \<noteq> []" by auto
  then show ?case using Cons by (subst pieces.simps) simp
qed

lemma ota_stream_snoc:
  "ota_stream e (cs @ [c]) s = (case ota_stream e cs s of
     (Inl er, s1) \<Rightarrow> (Err er, s1)
   | (Inr _, s1) \<Rightarrow> (case syn_ota_write_chunk e (Some c) s1 of (Inl er, s2) \<Rightarrow> (Err er, s2) | (Inr _, s2) \<Rightarrow> (Ok (), s2)))"
  by (induction cs arbitrary: s) (auto split: prod.splits sum.splits)

text \<open>The fragments so far are \<open>D\<close>: whole buffers of it went to the engine, the rest is buffered.\<close>

definition raw_error_of :: "unit res \<Rightarrow> errno option" where
  "raw_error_of r = (case r of Inl er \<Rightarrow> Some er | Inr _ \<Rightarrow> None)"

definition raw_at :: "('f, 'h) oenv \<Rightarrow> ('f, 'h) osys \<Rightarrow> nat \<Rightarrow> shell_line list \<Rightarrow> u8 list \<Rightarrow> ('f, 'h) oshell \<Rightarrow> bool" where
  "raw_at e o0 n out D s \<longleftrightarrow>
     (\<exists>fs. D = concat fs @ rw_buf s \<and> (\<forall>f \<in> set fs. length f = RAW_BUF_SIZE) \<and>
        sh_ota s = snd (ota_stream e fs o0) \<and> rw_error s = raw_error_of (fst (ota_stream e fs o0))) \<and>
     length (rw_buf s) < RAW_BUF_SIZE \<and> rw_received s = length D \<and> rw_expected s = n \<and> length D \<le> n \<and> sh_out s = out"

lemma flush_stream:
  assumes "sh_ota s = snd (ota_stream e fs o0)" "rw_error s = raw_error_of (fst (ota_stream e fs o0))" "rw_buf s \<noteq> []"
  shows "sh_ota (ota_raw_flush e s) = snd (ota_stream e (fs @ [rw_buf s]) o0)"
    "rw_error (ota_raw_flush e s) = raw_error_of (fst (ota_stream e (fs @ [rw_buf s]) o0))"
  using assms
  by (auto simp: ota_raw_flush_def ota_stream_snoc raw_error_of_def split: prod.splits sum.splits)

lemma flush_frame [simp]:
  "rw_received (ota_raw_flush e s) = rw_received s" "rw_expected (ota_raw_flush e s) = rw_expected s"
  "sh_out (ota_raw_flush e s) = sh_out s" "rw_buf (ota_raw_flush e s) = []" "rw_open (ota_raw_flush e s) = rw_open s"
  "rw_bypass (ota_raw_flush e s) = rw_bypass s" "rw_watchdog (ota_raw_flush e s) = rw_watchdog s"
  by (auto simp: ota_raw_flush_def split: prod.splits sum.splits)

lemma raw_loop_spec:
  "raw_at e o0 n out D s \<Longrightarrow> raw_at e o0 n out (D @ take (n - length D) data) (raw_loop e data s)"
proof (induction e data s arbitrary: D rule: raw_loop.induct)
  case (1 e data s)
  obtain fs where I: "D = concat fs @ rw_buf s" "\<forall>f \<in> set fs. length f = RAW_BUF_SIZE"
    "sh_ota s = snd (ota_stream e fs o0)" "rw_error s = raw_error_of (fst (ota_stream e fs o0))"
    "length (rw_buf s) < RAW_BUF_SIZE" "rw_received s = length D" "rw_expected s = n" "length D \<le> n" "sh_out s = out"
    using "1.prems" by (auto simp: raw_at_def)
  define k where "k = min (min (length data) (RAW_BUF_SIZE - length (rw_buf s))) (rw_expected s - rw_received s)"
  define s1 where "s1 = s\<lparr>rw_buf := rw_buf s @ take k data, rw_received := rw_received s + k\<rparr>"
  define s2 where "s2 = (if length (rw_buf s1) = RAW_BUF_SIZE then ota_raw_flush e s1 else s1)"
  show ?case
  proof (cases "data \<noteq> [] \<and> rw_received s < rw_expected s")
    case False
    then have "raw_loop e data s = s" "take (n - length D) data = []" using I(6-8) by (auto simp: raw_loop.simps [of e data s])
    then show ?thesis using "1.prems" by auto
  next
    case True
    then have k: "0 < k" "k \<le> length data" "k \<le> n - length D" "length (rw_buf s) + k \<le> RAW_BUF_SIZE"
      using I(5-8) by (auto simp: k_def)
    have step: "raw_loop e data s = raw_loop e (drop k data) s2"
      using True k(1) by (subst raw_loop.simps) (simp add: k_def [symmetric] s1_def s2_def Let_def)
    have b1: "rw_buf s1 = rw_buf s @ take k data" by (simp add: s1_def)
    have "raw_at e o0 n out (D @ take k data) s2"
    proof (cases "length (rw_buf s1) = RAW_BUF_SIZE")
      case full: True
      have "sh_ota s1 = snd (ota_stream e fs o0)" "rw_error s1 = raw_error_of (fst (ota_stream e fs o0))" "rw_buf s1 \<noteq> []"
        using I(3,4) full by (auto simp: s1_def)
      note F = flush_stream [OF this]
      have "D @ take k data = concat (fs @ [rw_buf s1])" using I(1) by (simp add: b1)
      then show ?thesis unfolding raw_at_def s2_def if_P [OF full] using F I(2,6-9) full k
        by (intro conjI exI [of _ "fs @ [rw_buf s1]"]) (simp_all add: s1_def)
    next
      case False
      then have "length (rw_buf s1) < RAW_BUF_SIZE" using k b1 by simp
      then show ?thesis unfolding raw_at_def s2_def if_not_P [OF False] using I k
        by (intro conjI exI [of _ fs]) (simp_all add: s1_def)
    qed
    then have "raw_at e o0 n out ((D @ take k data) @ take (n - length (D @ take k data)) (drop k data)) (raw_loop e (drop k data) s2)"
      using "1.IH" [OF k_def _ s1_def, of "D @ take k data"] True k(1) unfolding s2_def by blast
    moreover have "(D @ take k data) @ take (n - length (D @ take k data)) (drop k data) = D @ take (n - length D) data"
    proof -
      have "n - length D = k + (n - length (D @ take k data))" using k by simp
      then show ?thesis using take_add [of k "n - length (D @ take k data)" data] by simp
    qed
    ultimately show ?thesis unfolding step by simp
  qed
qed

definition raw_report :: "nat \<Rightarrow> unit res \<times> ('f, 'h) osys \<Rightarrow> shell_line" where
  "raw_report n r = (case r of
       (Inl er, o1) \<Rightarrow> Ln_raw_failed er n
     | (Inr _, o1) \<Rightarrow> Ln_raw_ok (oa_received (syn_ota_get_status o1)) (oa_total_size (syn_ota_get_status o1)))"

lemma bypass_before_end:
  assumes "raw_at e o0 n out D s" "length D + length data < n"
  shows "raw_at e o0 n out (D @ data) (ota_raw_bypass e data s)"
proof -
  have R: "raw_at e o0 n out (D @ data) (raw_loop e data s)" using raw_loop_spec [OF assms(1), of data] assms(2) by simp
  then have "rw_received (raw_loop e data s) < rw_expected (raw_loop e data s)" using assms(2) by (auto simp: raw_at_def)
  then have "ota_raw_bypass e data s = (raw_loop e data s)\<lparr>rw_watchdog := True\<rparr>" by (simp add: ota_raw_bypass_def Let_def)
  then show ?thesis using R by (simp add: raw_at_def)
qed

lemma bypass_at_end:
  assumes "raw_at e o0 n out D s" "length D + length data \<ge> n"
  shows "sh_ota (ota_raw_bypass e data s) = snd (ota_stream e (pieces (take n (D @ data))) o0)"
    "sh_out (ota_raw_bypass e data s) = out @ [raw_report n (ota_stream e (pieces (take n (D @ data))) o0)]"
    "\<not> rw_bypass (ota_raw_bypass e data s)" "\<not> rw_watchdog (ota_raw_bypass e data s)"
proof -
  define s1 where "s1 = raw_loop e data s"
  define P where "P = D @ take (n - length D) data"
  have R: "raw_at e o0 n out P s1" using raw_loop_spec [OF assms(1)] by (simp add: s1_def P_def)
  have D: "length D \<le> n" using assms(1) by (simp add: raw_at_def)
  have P: "P = take n (D @ data)" "length P = n" using assms(2) D by (simp_all add: P_def)
  obtain fs where I: "P = concat fs @ rw_buf s1" "\<forall>f \<in> set fs. length f = RAW_BUF_SIZE"
    "sh_ota s1 = snd (ota_stream e fs o0)" "rw_error s1 = raw_error_of (fst (ota_stream e fs o0))"
    "length (rw_buf s1) < RAW_BUF_SIZE" "rw_received s1 = n" "rw_expected s1 = n" "sh_out s1 = out"
    using R P(2) by (auto simp: raw_at_def)
  have pc: "pieces P = fs @ (if rw_buf s1 = [] then [] else [rw_buf s1])"
    unfolding I(1) by (rule pieces_full [OF I(2,5)])
  define s2 where "s2 = ota_raw_flush e s1"
  have s2: "sh_ota s2 = snd (ota_stream e (pieces P) o0)" "rw_error s2 = raw_error_of (fst (ota_stream e (pieces P) o0))"
    "rw_received s2 = n" "sh_out s2 = out"
  proof -
    show "sh_ota s2 = snd (ota_stream e (pieces P) o0)" "rw_error s2 = raw_error_of (fst (ota_stream e (pieces P) o0))"
      unfolding pc s2_def using I(3,4) flush_stream [OF I(3,4)] by (cases "rw_buf s1 = []"; simp add: ota_raw_flush_def)+
  qed (simp_all add: s2_def I(6,8))
  obtain r o1 where st: "ota_stream e (pieces P) o0 = (r, o1)" by force
  have b: "ota_raw_bypass e data s = ota_raw_finish s2" using I(6,7) by (simp add: ota_raw_bypass_def Let_def s1_def [symmetric] s2_def)
  show "sh_ota (ota_raw_bypass e data s) = snd (ota_stream e (pieces (take n (D @ data))) o0)"
    "sh_out (ota_raw_bypass e data s) = out @ [raw_report n (ota_stream e (pieces (take n (D @ data))) o0)]"
    "\<not> rw_bypass (ota_raw_bypass e data s)" "\<not> rw_watchdog (ota_raw_bypass e data s)"
    unfolding b P(1) [symmetric] using s2 unfolding st
    by (cases r; simp add: ota_raw_finish_def Let_def progress_def say_def raw_report_def raw_error_of_def)+
qed

lemma raw_started: "0 < n \<Longrightarrow> raw_at e (sh_ota s) n (sh_out s @ [Ln_raw n]) [] (snd (cmd_ota_rawdata n s))"
  unfolding raw_at_def
  by (intro conjI exI [of _ "[]"]) (simp_all add: cmd_ota_rawdata_def say_def raw_error_of_def)

text \<open>The shell hands fragments to the bypass for as long as it is installed.\<close>

definition feed :: "('f, 'h) oenv \<Rightarrow> u8 list list \<Rightarrow> ('f, 'h) oshell \<Rightarrow> ('f, 'h) oshell" where
  "feed e frags s = foldl (\<lambda>s f. ota_raw_bypass e f s) s frags"

lemma feed_all:
  assumes "raw_at e o0 n out D s" "length D + length (concat frags) = n" "\<forall>f \<in> set frags. f \<noteq> []" "frags \<noteq> []"
  shows "sh_ota (feed e frags s) = snd (ota_stream e (pieces (D @ concat frags)) o0) \<and>
    sh_out (feed e frags s) = out @ [raw_report n (ota_stream e (pieces (D @ concat frags)) o0)] \<and>
    \<not> rw_bypass (feed e frags s) \<and> \<not> rw_watchdog (feed e frags s)"
  using assms
proof (induction frags arbitrary: D s)
  case (Cons f fs)
  show ?case
  proof (cases "fs = []")
    case True
    then show ?thesis using bypass_at_end [OF Cons.prems(1), of f] Cons.prems(2) by (simp add: feed_def)
  next
    case False
    then have "concat fs \<noteq> []" using Cons.prems(3) by (cases fs) auto
    then have "0 < length (concat fs)" by (rule length_greater_0_conv [THEN iffD2])
    moreover have "length D + length f + length (concat fs) = n" using Cons.prems(2) by (simp only: concat.simps length_append)
    ultimately have "length D + length f < n" by linarith
    then have "raw_at e o0 n out (D @ f) (ota_raw_bypass e f s)" by (rule bypass_before_end [OF Cons.prems(1)])
    then show ?thesis using Cons.IH [of "D @ f" "ota_raw_bypass e f s"] Cons.prems False by (simp add: feed_def)
  qed
qed simp

text \<open>
  C23: the raw transport hides how the UART splits the bytes: for every split of the announced number of
  bytes into fragments the engine receives the same 512-byte pieces up to the first error, the rest is
  consumed all the same, one report is printed at the end, and the shell and its watchdog are released.
\<close>

theorem raw_transfer_ignores_fragments:
  assumes "\<forall>f \<in> set frags. f \<noteq> []" "concat frags = data" "data \<noteq> []"
  shows "sh_ota (feed e frags (snd (cmd_ota_rawdata (length data) s))) = snd (ota_stream e (pieces data) (sh_ota s)) \<and>
    sh_out (feed e frags (snd (cmd_ota_rawdata (length data) s))) =
      sh_out s @ [Ln_raw (length data), raw_report (length data) (ota_stream e (pieces data) (sh_ota s))] \<and>
    \<not> rw_bypass (feed e frags (snd (cmd_ota_rawdata (length data) s))) \<and>
    \<not> rw_watchdog (feed e frags (snd (cmd_ota_rawdata (length data) s)))"
  using feed_all [OF raw_started [of "length data" e s], of frags] assms by auto

text \<open>
  C22: a whole update over the shell: on a RAM device without faults, with no model suspended by the
  engine and a remote client that drains in time, the commands begin, rawdata with the bytes of a valid
  package (its name not empty, not larger than the slot) in any fragments, done and activate all succeed.
  The slot the store offers, which must not be the active one, may be free or may hold an old model, which
  is then evicted, and a model that was staged before is dropped. At the end that slot is the active one, it
  holds the package byte for byte, and the session is over.
\<close>

theorem raw_upload_activates_the_model:
  assumes "ram_target e mem_addr sz sector page" "crc_running (se_upd (oe_store e))"
    and "ota_inv fr_mem (ram_sized sz) e (sh_ota s)" "fr_fail_after (sy_flash (os_sys (sh_ota s))) = 0" "\<And>h. \<not> se_susp (oe_store e) h"
    and "syn_store_staging_slot True (sy_st (os_sys (sh_ota s))) = Ok slot" "slot \<noteq> so_active (sy_st (os_sys (sh_ota s)))"
    and "cstr 1 name \<noteq> []" "synm_valid (oe_store e) name P" "\<forall>f \<in> set frags. f \<noteq> []" "concat frags = P"
    and "length P \<le> lo_slot_size (so_lay (sy_st (os_sys (sh_ota s))))" "oe_dual e \<longrightarrow> oe_drain_ok e"
  shows "\<exists>s1 s2 s3 s4. cmd_ota_begin e name (length P) s = (Ok (), s1) \<and> cmd_ota_rawdata (length P) s1 = (Ok (), s2) \<and>
    cmd_ota_done e (feed e frags s2) = (Ok (), s3) \<and> cmd_ota_activate e s3 = (Ok (), s4) \<and>
    so_active (sy_st (os_sys (sh_ota s4))) = slot \<and> syn_ota_get_state (sh_ota s4) = SYN_OTA_STATE_IDLE \<and>
    slice (lo_slot_off (so_lay (sy_st (os_sys (sh_ota s)))) ! slot) (length P) (fr_mem (sy_flash (os_sys (sh_ota s4)))) = P"
proof -
  have P: "P \<noteq> []" using assms(9) by (auto simp: synm_valid_def)
  have pc: "concat (pieces P) = P" by simp
  obtain o1 o2 o3 o4 where r: "syn_ota_begin e (Some name) (length P) (sh_ota s) = (Ok (), o1)" "ota_stream e (pieces P) o1 = (Ok (), o2)"
    "syn_ota_finish e o2 = (Ok (), o3)" "syn_ota_activate e o3 = (Ok (), o4)" "so_active (sy_st (os_sys o4)) = slot"
    "syn_ota_get_state o4 = SYN_OTA_STATE_IDLE"
    "slice (lo_slot_off (so_lay (sy_st (os_sys (sh_ota s)))) ! slot) (length P) (fr_mem (sy_flash (os_sys o4))) = P"
    using update_completes_on_healthy_device [OF assms(1-8), of "pieces P"] assms(9,12,13) pieces_nonempty [of P] by auto
  define s1 where "s1 = say (Ln_begin (length P)) (s\<lparr>sh_ota := o1\<rparr>)"
  have b: "cmd_ota_begin e name (length P) s = (Ok (), s1)" using r(1) by (simp add: cmd_ota_begin_def s1_def)
  define s2 where "s2 = snd (cmd_ota_rawdata (length P) s1)"
  have w: "cmd_ota_rawdata (length P) s1 = (Ok (), s2)" using P by (simp add: cmd_ota_rawdata_def s2_def)
  have "sh_ota s1 = o1" by (simp add: s1_def say_def)
  then have f: "sh_ota (feed e frags s2) = o2"
    using feed_all [OF raw_started [of "length P" e s1], of frags] assms(10,11) P r(2) by (auto simp: s2_def)
  show ?thesis using b w f r(3-7) by (auto simp: cmd_ota_done_def cmd_ota_activate_def say_def)
qed

section \<open>A stalled transfer\<close>

text \<open>While the shell is in the raw mode its watchdog is armed and bytes are still missing.\<close>

definition raw_guarded :: "('f, 'h) oshell \<Rightarrow> bool" where
  "raw_guarded s \<longleftrightarrow> (rw_bypass s \<longrightarrow> rw_watchdog s \<and> rw_open s \<and> rw_received s < rw_expected s)"

lemma finish_guarded: "raw_guarded (ota_raw_finish s)" "\<not> rw_bypass (ota_raw_finish s)"
  by (auto simp: raw_guarded_def ota_raw_finish_def Let_def progress_def say_def split: option.splits)

lemma raw_loop_frame:
  "rw_expected (raw_loop e data s) = rw_expected s \<and> rw_bypass (raw_loop e data s) = rw_bypass s \<and>
   rw_open (raw_loop e data s) = rw_open s"
proof (induction e data s rule: raw_loop.induct)
  case (1 e data s)
  let ?n = "min (min (length data) (RAW_BUF_SIZE - length (rw_buf s))) (rw_expected s - rw_received s)"
  show ?case
  proof (cases "data \<noteq> [] \<and> rw_received s < rw_expected s \<and> 0 < ?n")
    case True
    show ?thesis using "1.IH" [OF refl True refl] True by (simp add: raw_loop.simps [of e data s] Let_def)
  qed (auto simp: raw_loop.simps [of e data s])
qed

lemma raw_mode_is_guarded:
  "raw_guarded s \<Longrightarrow> raw_guarded (snd (cmd_ota_rawdata n s))"
  "raw_guarded s \<Longrightarrow> raw_guarded (ota_raw_bypass e data s)"
  "raw_guarded s \<Longrightarrow> raw_guarded (ota_raw_timeout s)"
proof -
  show "raw_guarded s \<Longrightarrow> raw_guarded (snd (cmd_ota_rawdata n s))"
    by (simp add: raw_guarded_def cmd_ota_rawdata_def say_def)
  show "raw_guarded s \<Longrightarrow> raw_guarded (ota_raw_timeout s)"
    by (simp add: ota_raw_timeout_def finish_guarded(1))
  show "raw_guarded s \<Longrightarrow> raw_guarded (ota_raw_bypass e data s)"
    using raw_loop_frame [of e data s] unfolding ota_raw_bypass_def Let_def
    by (cases "rw_received (raw_loop e data s) \<ge> rw_expected (raw_loop e data s)") (simp_all add: finish_guarded(1), simp add: raw_guarded_def)
qed

text \<open>The watchdog brings the shell back, whatever has arrived, with the session still open.\<close>

lemma stalled_transfer_returns:
  assumes "raw_guarded s" "rw_bypass s"
  shows "\<not> rw_bypass (ota_raw_timeout s)" "sh_ota (ota_raw_timeout s) = sh_ota s"
    "sh_out (ota_raw_timeout s) = sh_out s @ [Ln_raw_failed ETIMEDOUT (rw_received s)]"
  using assms by (auto simp: raw_guarded_def ota_raw_timeout_def ota_raw_finish_def Let_def say_def)

text \<open>The slot number of \<open>syn store activate\<close> is reduced to a byte before anything checks it.\<close>

lemma store_activate_truncates: "cmd_store_activate e (Some (256 + n)) s = cmd_store_activate e (Some n) s"
  by (simp add: cmd_store_activate_def)

section \<open>Witnesses\<close>

definition demo_oshell :: "(flash_ram, npu_stub) oshell" where
  "demo_oshell = \<lparr>sh_ota = demo_osys, sh_out = [], rw_open = False, rw_bypass = False, rw_watchdog = False, rw_expected = 0,
     rw_received = 0, rw_error = None, rw_buf = []\<rparr>"

theorem raw_transfer_ignores_fragments_witness:
  "sh_ota (feed demo_oenv demo_chunks (snd (cmd_ota_rawdata (length (concat demo_chunks)) demo_oshell))) =
     snd (ota_stream demo_oenv (pieces (concat demo_chunks)) (sh_ota demo_oshell))"
proof -
  have "concat demo_chunks \<noteq> []" using demo_chunks_length(1) by (metis list.size(3) zero_neq_numeral)
  then show ?thesis using raw_transfer_ignores_fragments [OF demo_chunks_length(2) refl, of demo_oenv demo_oshell] by blast
qed

theorem raw_upload_activates_the_model_witness:
  "\<exists>s1 s2 s3 s4. cmd_ota_begin demo_oenv [65] 67 demo_oshell = (Ok (), s1) \<and> cmd_ota_rawdata 67 s1 = (Ok (), s2) \<and>
    cmd_ota_done demo_oenv (feed demo_oenv demo_chunks s2) = (Ok (), s3) \<and> cmd_ota_activate demo_oenv s3 = (Ok (), s4) \<and>
    so_active (sy_st (os_sys (sh_ota s4))) = 0"
proof -
  have s: "sh_ota demo_oshell = demo_osys" by (simp add: demo_oshell_def)
  show ?thesis
    using raw_upload_activates_the_model [OF demo_target, where s = demo_oshell and slot = 0 and name = "[65]" and P = "concat demo_chunks"
        and frags = demo_chunks, unfolded s, OF demo_osys_inv demo_run_facts(1) _ demo_osys_staging demo_run_facts(2)]
      demo_run_facts(3-) demo_chunks_length by auto
qed

end
