(* ===== verification/Prof.thy ===== *)
theory Prof
  imports Mem
begin

text \<open>
  The inference profiler \<open>src/core/syn_prof.c\<close>: four marks set by the pipeline around its stages.
  The cycle counter is an argument of each mark and \<open>k_cyc_to_us_ceil32\<close> of the kernel a
  parameter \<open>us\<close>; \<open>syn_prof_print_summary\<close> only logs.
\<close>

record syn_prof_result =
  pr_total_us :: u32
  pr_preprocess_us :: u32
  pr_npu_us :: u32
  pr_postprocess_us :: u32
  pr_ipc_overhead_us :: u32
  pr_mem_peak_bytes :: u32
  pr_npu_utilization_pct :: u32

record profiler =
  pf_enabled :: bool
  pf_last_result :: syn_prof_result
  pf_start_cycle :: u32
  pf_preprocess_cycle :: u32
  pf_npu_cycle :: u32
  pf_has_result :: bool

definition zero_result :: syn_prof_result where
  "zero_result = \<lparr>pr_total_us = 0, pr_preprocess_us = 0, pr_npu_us = 0, pr_postprocess_us = 0, pr_ipc_overhead_us = 0,
     pr_mem_peak_bytes = 0, pr_npu_utilization_pct = 0\<rparr>"

definition syn_prof_enable :: "profiler \<Rightarrow> unit res \<times> profiler" where
  "syn_prof_enable p = (Ok (), p\<lparr>pf_enabled := True, pf_has_result := False\<rparr>)"

definition syn_prof_disable :: "profiler \<Rightarrow> unit res \<times> profiler" where
  "syn_prof_disable p = (Ok (), p\<lparr>pf_enabled := False\<rparr>)"

definition syn_prof_get_last :: "bool \<Rightarrow> profiler \<Rightarrow> syn_prof_result res" where
  "syn_prof_get_last result p =
     (if \<not> result then Err EINVAL else if \<not> pf_has_result p then Err ENOENT else Ok (pf_last_result p))"

definition syn_prof_enable_layer_trace :: "unit res" where
  "syn_prof_enable_layer_trace = Err ENOTSUP"

text \<open>The time is written through the pointer even though the call is refused.\<close>

definition syn_prof_get_layer_time :: "nat \<Rightarrow> u32 option \<Rightarrow> unit res \<times> u32 option" where
  "syn_prof_get_layer_time layer_index us =
     (case us of None \<Rightarrow> (Err EINVAL, None) | Some _ \<Rightarrow> (Err ENOTSUP, Some 0))"

definition syn_prof_mark_start :: "u32 \<Rightarrow> profiler \<Rightarrow> profiler" where
  "syn_prof_mark_start now p =
     (if \<not> pf_enabled p then p else p\<lparr>pf_last_result := zero_result, pf_start_cycle := now\<rparr>)"

definition syn_prof_mark_preprocess_done :: "(u32 \<Rightarrow> u32) \<Rightarrow> u32 \<Rightarrow> profiler \<Rightarrow> profiler" where
  "syn_prof_mark_preprocess_done us now p =
     (if \<not> pf_enabled p then p
      else p\<lparr>pf_preprocess_cycle := now,
             pf_last_result := (pf_last_result p)\<lparr>pr_preprocess_us := us (now - pf_start_cycle p)\<rparr>\<rparr>)"

definition syn_prof_mark_npu_done :: "(u32 \<Rightarrow> u32) \<Rightarrow> u32 \<Rightarrow> profiler \<Rightarrow> profiler" where
  "syn_prof_mark_npu_done us now p =
     (if \<not> pf_enabled p then p
      else p\<lparr>pf_npu_cycle := now,
             pf_last_result := (pf_last_result p)\<lparr>pr_npu_us := us (now - pf_preprocess_cycle p)\<rparr>\<rparr>)"

definition syn_prof_mark_end :: "(u32 \<Rightarrow> u32) \<Rightarrow> u32 \<Rightarrow> mem_arena \<Rightarrow> profiler \<Rightarrow> profiler" where
  "syn_prof_mark_end us now arena p =
     (if \<not> pf_enabled p then p
      else let r1 = (pf_last_result p)\<lparr>pr_postprocess_us := us (now - pf_npu_cycle p), pr_total_us := us (now - pf_start_cycle p)\<rparr>;
               r2 = (case syn_mem_get_stats True arena of
                       Ok m \<Rightarrow> r1\<lparr>pr_mem_peak_bytes := ms_arena_peak m\<rparr> | Err _ \<Rightarrow> r1);
               r3 = (if pr_total_us r2 > 0
                     then r2\<lparr>pr_npu_utilization_pct := (pr_npu_us r2 * 100) div pr_total_us r2\<rparr> else r2)
           in p\<lparr>pf_last_result := r3, pf_has_result := True\<rparr>)"

section \<open>What a profile says\<close>

text \<open>The marks of one run, at the cycle counts \<open>t0\<close> to \<open>t3\<close>.\<close>

definition profile_run :: "(u32 \<Rightarrow> u32) \<Rightarrow> u32 \<Rightarrow> u32 \<Rightarrow> u32 \<Rightarrow> u32 \<Rightarrow> mem_arena \<Rightarrow> profiler \<Rightarrow> profiler" where
  "profile_run us t0 t1 t2 t3 arena p =
     syn_prof_mark_end us t3 arena (syn_prof_mark_npu_done us t2
       (syn_prof_mark_preprocess_done us t1 (syn_prof_mark_start t0 p)))"

text \<open>
  The profile of an enabled run is computed from the counter differences, across a wrap of the
  32-bit counter too, and its utilisation is the true percentage, at most 100, as long as the time
  in the NPU stays below 2^32 / 100 microseconds.
\<close>

theorem profile_is_the_run:
  assumes "pf_enabled p" "\<And>a b. a \<le> b \<Longrightarrow> us a \<le> us b" "unat (us (t2 - t1)) < 2 ^ 32 div 100"
    and "t2 - t1 \<le> t3 - t0" "0 < us (t3 - t0)"
  shows "\<exists>r. syn_prof_get_last True (profile_run us t0 t1 t2 t3 arena p) = Ok r \<and>
    pr_preprocess_us r = us (t1 - t0) \<and> pr_npu_us r = us (t2 - t1) \<and> pr_postprocess_us r = us (t3 - t2) \<and>
    pr_total_us r = us (t3 - t0) \<and>
    unat (pr_npu_utilization_pct r) = unat (us (t2 - t1)) * 100 div unat (us (t3 - t0)) \<and> pr_npu_utilization_pct r \<le> 100"
proof -
  let ?n = "us (t2 - t1)" and ?t = "us (t3 - t0)"
  have m: "unat (?n * 100) = unat ?n * 100" using assms(3) by (simp add: unat_mult_lem [THEN iffD1])
  then have d: "unat (?n * 100 div ?t) = unat ?n * 100 div unat ?t" by (simp add: unat_div)
  have "?n \<le> ?t" using assms(2,4) by blast
  then have "unat ?n * 100 \<le> 100 * unat ?t" by (simp add: word_le_nat_alt)
  moreover have "0 < unat ?t" using assms(5) by (simp add: word_less_nat_alt)
  ultimately have "unat ?n * 100 div unat ?t \<le> 100"
    using div_le_mono [of "unat ?n * 100" "100 * unat ?t" "unat ?t"] by simp
  then have "?n * 100 div ?t \<le> 100" using d by (simp add: word_le_nat_alt)
  then show ?thesis using assms(1,5) d
    by (auto simp: profile_run_def syn_prof_mark_start_def syn_prof_mark_preprocess_done_def syn_prof_mark_npu_done_def
        syn_prof_mark_end_def syn_prof_get_last_def Let_def split: sum.splits)
qed

theorem profile_is_the_run_witness:
  "\<exists>r. syn_prof_get_last True (profile_run (\<lambda>c. c) (- 10) 5 25 40 demo_arena
      \<lparr>pf_enabled = True, pf_last_result = zero_result, pf_start_cycle = 0, pf_preprocess_cycle = 0, pf_npu_cycle = 0,
       pf_has_result = False\<rparr>) = Ok r \<and> pr_total_us r = 50 \<and> unat (pr_npu_utilization_pct r) = 40"
  using profile_is_the_run [of "\<lparr>pf_enabled = True, pf_last_result = zero_result, pf_start_cycle = 0, pf_preprocess_cycle = 0,
      pf_npu_cycle = 0, pf_has_result = False\<rparr>" "\<lambda>c. c" 25 5 40 "- 10" demo_arena]
  by auto

end
