(* ===== verification/Infer.thy ===== *)
theory Infer
  imports Model_Registry Health Prof
begin

text \<open>
  The pipelines, the job table and the locked sections of the scheduler of
  \<open>src/core/syn_infer.c\<close> (the layered build, \<open>CONFIG_SYNAPTIC_LAYER_EXEC\<close>). A pointer into the
  pipeline pool is an index, a tensor is its descriptor with the bytes it points at. The backend
  operations come as a record; everything that runs outside the lock is in \<open>Infer_Exec\<close>.
\<close>

section \<open>Pipelines and jobs\<close>

abbreviation (input) SYN_MAX_PIPELINES :: nat where "SYN_MAX_PIPELINES \<equiv> 4"
abbreviation (input) STAGE_MIN_CAPACITY :: nat where "STAGE_MIN_CAPACITY \<equiv> 64"
abbreviation (input) SYN_MODEL_INVALID :: nat where "SYN_MODEL_INVALID \<equiv> 0"
abbreviation (input) SYN_JOB_INVALID :: u32 where "SYN_JOB_INVALID \<equiv> 0"
abbreviation (input) INT64_MAX :: int where "INT64_MAX \<equiv> 9223372036854775807"

record itensor = syn_tensor +
  tn_bytes :: "u8 list"

text \<open>
  A stage function with its config pointer: the built-in processors, whose addresses the scheduler
  compares with, and functions of the application. The config of a built-in is of its own type.
\<close>

datatype 'p stage_fn =
    Image_Resize "(u16 \<times> u16) option" | Image_Normalize | Quantize_Int8 | Audio_Mfcc "(u16 \<times> u8) option"
  | Softmax | Argmax | Top_K "u8 option" | Nms | Dequantize | Custom 'p

datatype 'p pipeline_stage = STAGE_PREPROCESS "'p stage_fn" | STAGE_MODEL | STAGE_POSTPROCESS "'p stage_fn"

record 'p pipeline =
  pl_in_use :: bool
  pl_built :: bool
  pl_name :: "u8 list"
  pl_model :: nat
  pl_stages :: "'p pipeline_stage list"
  pl_mem_estimate :: u32

datatype job_state = JOB_FREE | JOB_QUEUED | JOB_RUNNING | JOB_SUSPENDED | JOB_DONE | JOB_ERROR | JOB_CANCELLED

record syn_infer_params =
  ip_priority :: nat
  ip_deadline_us :: u32
  ip_preemptible :: bool
  ip_callback :: bool

record infer_job =
  jb_id :: u32
  jb_state :: job_state
  jb_pipe :: "nat option"
  jb_input :: itensor
  jb_params :: syn_infer_params
  jb_output :: itensor
  jb_result :: "unit res"
  jb_seq :: u32
  jb_deadline_at_us :: int
  jb_start_cyc :: u32
  jb_ctx_slot :: int
  jb_resume_stage :: nat
  jb_resuming :: bool
  jb_done :: bool

record syn_infer_stats =
  is_completed :: u32
  is_errors :: u32
  is_cancelled :: u32
  is_deadline_misses :: u32
  is_preemptions :: u32
  is_resumes :: u32
  is_last_save_us :: u32
  is_max_save_us :: u32

record 'p infer =
  in_pipelines :: "'p pipeline list"
  in_jobs :: "infer_job list"
  in_next_job_id :: u32
  in_next_seq :: u32
  in_max_concurrent :: nat
  in_dispatch_paused :: bool
  in_job_running :: bool
  in_deferred_wakes :: nat
  in_stats :: syn_infer_stats
  in_sched_wake :: nat
  in_drain_sem :: bool
  in_health_id :: int

definition zero_tensor :: itensor where
  "zero_tensor = \<lparr>tn_data = 0, tn_size = 0, tn_dtype = SYN_NPU_DTYPE_INT8, tn_ndim = 0, tn_shape = [0, 0, 0, 0],
     tn_lifetime = SYN_MEM_PERSISTENT, tn_bytes = []\<rparr>"

definition zero_stats :: syn_infer_stats where
  "zero_stats = \<lparr>is_completed = 0, is_errors = 0, is_cancelled = 0, is_deadline_misses = 0, is_preemptions = 0,
     is_resumes = 0, is_last_save_us = 0, is_max_save_us = 0\<rparr>"

definition set_job :: "nat \<Rightarrow> (infer_job \<Rightarrow> infer_job) \<Rightarrow> 'p infer \<Rightarrow> 'p infer" where
  "set_job i u s = s\<lparr>in_jobs := (in_jobs s)[i := u (in_jobs s ! i)]\<rparr>"

definition set_pipe :: "nat \<Rightarrow> ('p pipeline \<Rightarrow> 'p pipeline) \<Rightarrow> 'p infer \<Rightarrow> 'p infer" where
  "set_pipe i u s = s\<lparr>in_pipelines := (in_pipelines s)[i := u (in_pipelines s ! i)]\<rparr>"

definition set_stats :: "(syn_infer_stats \<Rightarrow> syn_infer_stats) \<Rightarrow> 'p infer \<Rightarrow> 'p infer" where
  "set_stats u s = s\<lparr>in_stats := u (in_stats s)\<rparr>"

text \<open>\<open>k_sem_give (&sched_wake)\<close>: the count stops at the number of jobs.\<close>

definition give_wake :: "'p infer \<Rightarrow> 'p infer" where
  "give_wake s = s\<lparr>in_sched_wake := min (in_sched_wake s + 1) (length (in_jobs s))\<rparr>"

definition syn_infer_get_stats :: "bool \<Rightarrow> 'p infer \<Rightarrow> syn_infer_stats option" where
  "syn_infer_get_stats out s = (if \<not> out then None else Some (in_stats s))"

definition syn_infer_reset_stats :: "'p infer \<Rightarrow> 'p infer" where
  "syn_infer_reset_stats = set_stats (\<lambda>_. zero_stats)"

section \<open>Pipeline construction\<close>

definition syn_pipeline_create :: "u8 list option \<Rightarrow> 'p infer \<Rightarrow> nat option \<times> 'p infer" where
  "syn_pipeline_create name s =
     (case first_index (\<lambda>p. \<not> pl_in_use p) (in_pipelines s) of
        None \<Rightarrow> (None, s)
      | Some i \<Rightarrow> (Some i, set_pipe i (\<lambda>_. \<lparr>pl_in_use = True, pl_built = False,
          pl_name = strncpy_z (case name of Some n \<Rightarrow> n | None \<Rightarrow> [117, 110, 110, 97, 109, 101, 100]) 24,
          pl_model = SYN_MODEL_INVALID, pl_stages = [], pl_mem_estimate = 0\<rparr>) s))"

definition pipeline_valid :: "nat option \<Rightarrow> 'p infer \<Rightarrow> bool" where
  "pipeline_valid pipe s \<longleftrightarrow> (case pipe of None \<Rightarrow> False
     | Some i \<Rightarrow> i < SYN_MAX_PIPELINES \<and> pl_in_use (in_pipelines s ! i))"

fun stage_is_pre :: "'p pipeline_stage \<Rightarrow> bool" where
  "stage_is_pre (STAGE_PREPROCESS _) = True"
| "stage_is_pre _ = False"

fun stage_is_post :: "'p pipeline_stage \<Rightarrow> bool" where
  "stage_is_post (STAGE_POSTPROCESS _) = True"
| "stage_is_post _ = False"

definition pipeline_add_stage ::
  "nat \<Rightarrow> nat option \<Rightarrow> ('p stage_fn \<Rightarrow> 'p pipeline_stage) \<Rightarrow> 'p stage_fn option \<Rightarrow> 'p infer \<Rightarrow> unit res \<times> 'p infer" where
  "pipeline_add_stage max_stages pipe mk fn s =
     (if \<not> pipeline_valid pipe s \<or> fn = None then (Err EINVAL, s)
      else
        let i = the pipe; p = in_pipelines s ! i; st = mk (the fn); has_model = (pl_model p \<noteq> SYN_MODEL_INVALID) in
        if pl_built p then (Err EPERM, s)
        else if length (pl_stages p) \<ge> max_stages then (Err ENOMEM, s)
        else if stage_is_pre st \<and> has_model \<or> stage_is_post st \<and> \<not> has_model then (Err EINVAL, s)
        else (Ok (), set_pipe i (\<lambda>p. p\<lparr>pl_stages := pl_stages p @ [st]\<rparr>) s))"

definition syn_pipeline_add_preprocess where
  "syn_pipeline_add_preprocess max_stages pipe fn = pipeline_add_stage max_stages pipe STAGE_PREPROCESS fn"

definition syn_pipeline_add_postprocess where
  "syn_pipeline_add_postprocess max_stages pipe fn = pipeline_add_stage max_stages pipe STAGE_POSTPROCESS fn"

definition syn_pipeline_add_model ::
  "nat \<Rightarrow> 'h registry \<Rightarrow> nat option \<Rightarrow> nat \<Rightarrow> 'p infer \<Rightarrow> unit res \<times> 'p infer" where
  "syn_pipeline_add_model max_stages g pipe model s =
     (if \<not> pipeline_valid pipe s \<or> model = SYN_MODEL_INVALID then (Err EINVAL, s)
      else
        let i = the pipe; p = in_pipelines s ! i in
        if pl_built p then (Err EPERM, s)
        else if pl_model p \<noteq> SYN_MODEL_INVALID then (Err EALREADY, s)
        else if \<not> is_ok (syn_model_get_info model True g) then (Err ENOENT, s)
        else if length (pl_stages p) \<ge> max_stages then (Err ENOMEM, s)
        else (Ok (), set_pipe i (\<lambda>p. p\<lparr>pl_stages := pl_stages p @ [STAGE_MODEL], pl_model := model\<rparr>) s))"

definition stage_capacity :: "u32 \<Rightarrow> u32" where
  "stage_capacity in_size = (let cap = in_size * 4 in if cap < of_nat STAGE_MIN_CAPACITY then of_nat STAGE_MIN_CAPACITY else cap)"

text \<open>The estimate of \<open>syn_pipeline_build\<close>: \<open>(estimate, cur)\<close> over the stages.\<close>

fun estimate_stage :: "syn_model_info \<Rightarrow> u32 \<times> u32 \<Rightarrow> 'p pipeline_stage \<Rightarrow> u32 \<times> u32" where
  "estimate_stage info (est, cur) (STAGE_PREPROCESS _) =
     (let c = stage_capacity cur; c' = (if c < mi_input_size info then mi_input_size info else c) in (est + c', c'))"
| "estimate_stage info (est, cur) STAGE_MODEL = (est + mi_output_size info, mi_output_size info)"
| "estimate_stage info (est, cur) (STAGE_POSTPROCESS _) = (let c = stage_capacity cur in (est + c, c))"

definition syn_pipeline_build :: "'h registry \<Rightarrow> nat option \<Rightarrow> 'p infer \<Rightarrow> unit res \<times> 'p infer" where
  "syn_pipeline_build g pipe s =
     (if \<not> pipeline_valid pipe s then (Err EINVAL, s)
      else
        let i = the pipe; p = in_pipelines s ! i in
        if pl_built p then (Err EALREADY, s)
        else if pl_model p = SYN_MODEL_INVALID then (Err EINVAL, s)
        else (case syn_model_get_info (pl_model p) True g of
                Inl e \<Rightarrow> (Err e, s)
              | Inr info \<Rightarrow>
                  let (est, _) = foldl (estimate_stage info) (mi_sram_required info, mi_input_size info) (pl_stages p)
                  in (Ok (), set_pipe i (\<lambda>p. p\<lparr>pl_mem_estimate := est, pl_built := True\<rparr>) s)))"

section \<open>Jobs\<close>

definition job_waiting :: "infer_job \<Rightarrow> bool" where
  "job_waiting j \<longleftrightarrow> jb_state j = JOB_QUEUED \<or> jb_state j = JOB_SUSPENDED"

definition cancel_job :: "nat \<Rightarrow> 'p infer \<Rightarrow> 'p infer" where
  "cancel_job i s = set_stats (\<lambda>t. t\<lparr>is_cancelled := is_cancelled t + 1\<rparr>)
     (set_job i (\<lambda>j. j\<lparr>jb_state := JOB_CANCELLED, jb_result := Err ECANCELED, jb_done := True\<rparr>) s)"

text \<open>
  The loop of \<open>syn_pipeline_destroy\<close>: as in the code the context slot of every suspended job is
  freed, of whatever pipeline it is. \<open>free\<close> is \<open>syn_npu_layered_slot_free\<close>.
\<close>

fun destroy_loop :: "(int \<Rightarrow> 'h \<Rightarrow> 'h) \<Rightarrow> nat \<Rightarrow> nat list \<Rightarrow> 'p infer \<times> 'h \<Rightarrow> 'p infer \<times> 'h" where
  "destroy_loop free pipe [] s = s"
| "destroy_loop free pipe (i # is) (s, h) =
     (let j = in_jobs s ! i; susp = (jb_state j = JOB_SUSPENDED);
          h1 = (if susp then free (jb_ctx_slot j) h else h);
          s1 = (if susp then set_job i (\<lambda>j. j\<lparr>jb_ctx_slot := - 1\<rparr>) s else s)
      in destroy_loop free pipe is (if job_waiting j \<and> jb_pipe j = Some pipe then cancel_job i s1 else s1, h1))"

definition syn_pipeline_destroy :: "(int \<Rightarrow> 'h \<Rightarrow> 'h) \<Rightarrow> nat option \<Rightarrow> 'p infer \<times> 'h \<Rightarrow> 'p infer \<times> 'h" where
  "syn_pipeline_destroy free pipe sh =
     (if \<not> pipeline_valid pipe (fst sh) then sh
      else let (s1, h1) = destroy_loop free (the pipe) [0..<length (in_jobs (fst sh))] sh
        in (set_pipe (the pipe) (\<lambda>p. p\<lparr>pl_in_use := False, pl_built := False, pl_stages := [], pl_model := SYN_MODEL_INVALID\<rparr>) s1, h1))"

definition find_job :: "u32 \<Rightarrow> 'p infer \<Rightarrow> nat option" where
  "find_job i s = (if i = SYN_JOB_INVALID then None
     else first_index (\<lambda>j. jb_state j \<noteq> JOB_FREE \<and> jb_id j = i) (in_jobs s))"

definition job_active :: "infer_job \<Rightarrow> bool" where
  "job_active j \<longleftrightarrow> jb_state j = JOB_QUEUED \<or> jb_state j = JOB_RUNNING \<or> jb_state j = JOB_SUSPENDED"

definition default_params :: syn_infer_params where
  "default_params = \<lparr>ip_priority = 1, ip_deadline_us = 0, ip_preemptible = False, ip_callback = False\<rparr>"

text \<open>\<open>cyc\<close> and \<open>now_us\<close> are the cycle counter and the uptime at the call; the result is the job id.\<close>

definition new_job :: "u32 \<Rightarrow> int \<Rightarrow> u32 \<Rightarrow> u32 \<Rightarrow> nat \<Rightarrow> itensor \<Rightarrow> syn_infer_params \<Rightarrow> infer_job" where
  "new_job cyc now_us i sq pipe input params =
     \<lparr>jb_id = i, jb_state = JOB_QUEUED, jb_pipe = Some pipe, jb_input = input, jb_params = params,
      jb_output = zero_tensor, jb_result = Err EINPROGRESS, jb_seq = sq,
      jb_deadline_at_us = (if ip_deadline_us params \<noteq> 0 then now_us + int (unat (ip_deadline_us params)) else INT64_MAX),
      jb_start_cyc = cyc, jb_ctx_slot = - 1, jb_resume_stage = 0, jb_resuming = False, jb_done = False\<rparr>"

text \<open>The locked part of \<open>syn_infer_submit\<close>, and the whole: the wake is given after the unlock.\<close>

definition submit_locked ::
  "u32 \<Rightarrow> int \<Rightarrow> nat \<Rightarrow> itensor \<Rightarrow> syn_infer_params option \<Rightarrow> 'p infer \<Rightarrow> u32 option \<times> 'p infer" where
  "submit_locked cyc now_us pipe input params s =
     (if length (filter job_active (in_jobs s)) \<ge> in_max_concurrent s then (None, s)
      else (case first_index (\<lambda>j. jb_state j = JOB_FREE) (in_jobs s) of
              None \<Rightarrow> (None, s)
            | Some i \<Rightarrow>
                let jid = in_next_job_id s; nxt = jid + 1;
                    prm = (case params of Some p \<Rightarrow> p | None \<Rightarrow> default_params)
                in (Some jid, set_job i (\<lambda>_. new_job cyc now_us jid (in_next_seq s) pipe input prm)
                     (s\<lparr>in_next_job_id := (if nxt = SYN_JOB_INVALID then 1 else nxt), in_next_seq := in_next_seq s + 1\<rparr>))))"

definition submit_args_ok :: "nat option \<Rightarrow> itensor option \<Rightarrow> 'p infer \<Rightarrow> bool" where
  "submit_args_ok pipe input s \<longleftrightarrow> pipeline_valid pipe s \<and> pl_built (in_pipelines s ! the pipe) \<and>
     input \<noteq> None \<and> tn_data (the input) \<noteq> 0"

definition syn_infer_submit ::
  "u32 \<Rightarrow> int \<Rightarrow> nat option \<Rightarrow> itensor option \<Rightarrow> syn_infer_params option \<Rightarrow> 'p infer \<Rightarrow> u32 \<times> 'p infer" where
  "syn_infer_submit cyc now_us pipe input params s =
     (if \<not> submit_args_ok pipe input s then (SYN_JOB_INVALID, s)
      else (case submit_locked cyc now_us (the pipe) (the input) params s of
              (None, s1) \<Rightarrow> (SYN_JOB_INVALID, s1)
            | (Some jid, s1) \<Rightarrow> (jid, give_wake s1)))"

text \<open>
  \<open>syn_infer_wait\<close>: \<open>None\<close> when the caller is still blocked on the job's semaphore at the state
  given; a caller whose timeout ran out gets \<open>EAGAIN\<close>. The semaphore keeps its token.
\<close>

definition syn_infer_wait :: "bool \<Rightarrow> u32 \<Rightarrow> 'p infer \<Rightarrow> unit res option" where
  "syn_infer_wait timed_out jid s =
     (case find_job jid s of None \<Rightarrow> Some (Err ENOENT)
      | Some i \<Rightarrow>
          let j = in_jobs s ! i in
          if jb_state j = JOB_DONE then Some (Ok ())
          else if jb_state j = JOB_ERROR then Some (jb_result j)
          else if jb_state j = JOB_CANCELLED then Some (Err ECANCELED)
          else if jb_done j then Some (jb_result j)
          else if timed_out then Some (Err EAGAIN) else None)"

definition syn_infer_cancel :: "(int \<Rightarrow> 'h \<Rightarrow> 'h) \<Rightarrow> u32 \<Rightarrow> 'p infer \<times> 'h \<Rightarrow> unit res \<times> 'p infer \<times> 'h" where
  "syn_infer_cancel free jid sh =
     (let (s, h) = sh in
      case find_job jid s of None \<Rightarrow> (Err ENOENT, s, h)
      | Some i \<Rightarrow>
          let j = in_jobs s ! i in
          (case jb_state j of
             JOB_QUEUED \<Rightarrow> (Ok (), cancel_job i s, h)
           | JOB_SUSPENDED \<Rightarrow> (Ok (), cancel_job i (set_job i (\<lambda>j. j\<lparr>jb_ctx_slot := - 1\<rparr>) s), free (jb_ctx_slot j) h)
           | JOB_RUNNING \<Rightarrow> (Err EBUSY, s, h)
           | _ \<Rightarrow> (Err EALREADY, s, h)))"

text \<open>The second result is what is written through \<open>output\<close>.\<close>

definition syn_infer_get_result :: "u32 \<Rightarrow> bool \<Rightarrow> 'p infer \<Rightarrow> unit res \<times> itensor option \<times> 'p infer" where
  "syn_infer_get_result jid output s =
     (if \<not> output then (Err EINVAL, None, s)
      else (case find_job jid s of None \<Rightarrow> (Err ENOENT, None, s)
            | Some i \<Rightarrow>
                let j = in_jobs s ! i; freed = set_job i (\<lambda>j. j\<lparr>jb_state := JOB_FREE\<rparr>) s in
                (case jb_state j of
                   JOB_DONE \<Rightarrow> (Ok (), Some (jb_output j), freed)
                 | JOB_ERROR \<Rightarrow> (jb_result j, None, freed)
                 | JOB_CANCELLED \<Rightarrow> (Err ECANCELED, None, freed)
                 | _ \<Rightarrow> (Err EBUSY, None, s))))"

definition syn_infer_set_max_concurrent :: "nat \<Rightarrow> 'p infer \<Rightarrow> unit res \<times> 'p infer" where
  "syn_infer_set_max_concurrent max_jobs s =
     (if max_jobs < 1 \<or> max_jobs > length (in_jobs s) then (Err EINVAL, s)
      else (Ok (), s\<lparr>in_max_concurrent := max_jobs\<rparr>))"

definition syn_infer_model_suspended :: "nat \<Rightarrow> 'p infer \<Rightarrow> bool" where
  "syn_infer_model_suspended model s \<longleftrightarrow> model \<noteq> SYN_MODEL_INVALID \<and>
     (\<exists>j \<in> set (in_jobs s). jb_state j = JOB_SUSPENDED \<and>
        (case jb_pipe j of None \<Rightarrow> False | Some p \<Rightarrow> pl_model (in_pipelines s ! p) = model))"

section \<open>Locked sections of the scheduler thread\<close>

definition job_before :: "infer_job \<Rightarrow> infer_job \<Rightarrow> bool" where
  "job_before a b =
     (if ip_priority (jb_params a) \<noteq> ip_priority (jb_params b) then ip_priority (jb_params a) > ip_priority (jb_params b)
      else if jb_deadline_at_us a \<noteq> jb_deadline_at_us b then jb_deadline_at_us a < jb_deadline_at_us b
      else jb_seq a < jb_seq b)"

definition pick_step :: "infer_job list \<Rightarrow> nat option \<Rightarrow> nat \<Rightarrow> nat option" where
  "pick_step js best i =
     (if \<not> job_waiting (js ! i) then best
      else (case best of None \<Rightarrow> Some i | Some b \<Rightarrow> if job_before (js ! i) (js ! b) then Some i else best))"

definition pick_next_job :: "'p infer \<Rightarrow> nat option" where
  "pick_next_job s = foldl (pick_step (in_jobs s)) None [0..<length (in_jobs s)]"

definition preempt_pending :: "infer_job \<Rightarrow> 'p infer \<Rightarrow> bool" where
  "preempt_pending cur s \<longleftrightarrow>
     (\<exists>j \<in> set (in_jobs s). jb_state j = JOB_QUEUED \<and> ip_priority (jb_params j) > ip_priority (jb_params cur))"

text \<open>After a wake: the wake is deferred while dispatch is paused, otherwise the best job starts.\<close>

definition sched_dispatch :: "'p infer \<Rightarrow> nat option \<times> 'p infer" where
  "sched_dispatch s =
     (if in_dispatch_paused s then (None, s\<lparr>in_deferred_wakes := in_deferred_wakes s + 1\<rparr>)
      else (case pick_next_job s of
              None \<Rightarrow> (None, s)
            | Some i \<Rightarrow>
                let s1 = (if jb_state (in_jobs s ! i) = JOB_SUSPENDED
                          then set_stats (\<lambda>t. t\<lparr>is_resumes := is_resumes t + 1\<rparr>) (set_job i (\<lambda>j. j\<lparr>jb_resuming := True\<rparr>) s)
                          else s)
                in (Some i, (set_job i (\<lambda>j. j\<lparr>jb_state := JOB_RUNNING\<rparr>) s1)\<lparr>in_job_running := True\<rparr>)))"

text \<open>
  A preempted job goes back to the table under the lock (the result says whether a quiesce waits
  for the drain); after the unlock the drain is signalled and one extra wake pays for the resume.
\<close>

definition sched_suspend :: "nat \<Rightarrow> 'p infer \<Rightarrow> bool \<times> 'p infer" where
  "sched_suspend i s =
     (in_dispatch_paused s, set_stats (\<lambda>t. t\<lparr>is_preemptions := is_preemptions t + 1\<rparr>)
        ((set_job i (\<lambda>j. j\<lparr>jb_state := JOB_SUSPENDED\<rparr>) s)\<lparr>in_job_running := False\<rparr>))"

definition give_drain :: "bool \<Rightarrow> 'p infer \<Rightarrow> 'p infer" where
  "give_drain drain s = (if drain then s\<lparr>in_drain_sem := True\<rparr> else s)"

definition sched_yield :: "bool \<Rightarrow> 'p infer \<Rightarrow> 'p infer" where
  "sched_yield drain s = give_wake (give_drain drain s)"

text \<open>
  A finished job: under the lock its result, its state and the counters; after the unlock the drain
  of a waiting quiesce and, when the callback has returned, the semaphore of the job.
\<close>

definition sched_complete :: "(u32 \<Rightarrow> u32) \<Rightarrow> u32 \<Rightarrow> nat \<Rightarrow> unit res \<Rightarrow> 'p infer \<Rightarrow> bool \<times> 'p infer" where
  "sched_complete us cyc i ret s =
     (let j = in_jobs s ! i;
          missed = (ip_deadline_us (jb_params j) \<noteq> 0 \<and> us (cyc - jb_start_cyc j) > ip_deadline_us (jb_params j));
          s1 = (set_job i (\<lambda>j. j\<lparr>jb_result := ret, jb_state := (if is_ok ret then JOB_DONE else JOB_ERROR)\<rparr>) s)\<lparr>in_job_running := False\<rparr>;
          s2 = set_stats (\<lambda>t. (if is_ok ret then t\<lparr>is_completed := is_completed t + 1\<rparr> else t\<lparr>is_errors := is_errors t + 1\<rparr>)
                 \<lparr>is_deadline_misses := is_deadline_misses t + (if missed then 1 else 0)\<rparr>) s1
      in (in_dispatch_paused s2, s2))"

definition sched_report :: "bool \<Rightarrow> nat \<Rightarrow> 'p infer \<Rightarrow> 'p infer" where
  "sched_report drain i s = set_job i (\<lambda>j. j\<lparr>jb_done := True\<rparr>) (give_drain drain s)"

text \<open>
  The gate: \<open>quiesce_enter\<close> is the locked part (its result says whether the caller has to wait for
  the drain semaphore), \<open>quiesce_drained\<close> the wait, \<open>release_enter\<close> the locked part of the release
  with the wakes to replay.
\<close>

definition quiesce_enter :: "'p infer \<Rightarrow> bool \<times> 'p infer" where
  "quiesce_enter s = (in_job_running s, s\<lparr>in_dispatch_paused := True, in_drain_sem := False\<rparr>)"

definition quiesce_drained :: "'p infer \<Rightarrow> 'p infer option" where
  "quiesce_drained s = (if in_drain_sem s then Some (s\<lparr>in_drain_sem := False\<rparr>) else None)"

definition release_enter :: "'p infer \<Rightarrow> nat \<times> 'p infer" where
  "release_enter s = (in_deferred_wakes s, s\<lparr>in_dispatch_paused := False, in_deferred_wakes := 0\<rparr>)"

definition syn_infer_release :: "'p infer \<Rightarrow> 'p infer" where
  "syn_infer_release s = (let (n, s1) = release_enter s in (give_wake ^^ n) s1)"

definition fresh_job :: infer_job where
  "fresh_job = \<lparr>jb_id = 0, jb_state = JOB_FREE, jb_pipe = None, jb_input = zero_tensor, jb_params =
     \<lparr>ip_priority = 0, ip_deadline_us = 0, ip_preemptible = False, ip_callback = False\<rparr>, jb_output = zero_tensor,
     jb_result = Ok (), jb_seq = 0, jb_deadline_at_us = 0, jb_start_cyc = 0, jb_ctx_slot = 0, jb_resume_stage = 0,
     jb_resuming = False, jb_done = False\<rparr>"

definition free_pipeline :: "'p pipeline" where
  "free_pipeline = \<lparr>pl_in_use = False, pl_built = False, pl_name = replicate 24 0, pl_model = SYN_MODEL_INVALID,
     pl_stages = [], pl_mem_estimate = 0\<rparr>"

text \<open>The state at boot for \<open>n\<close> jobs, with the health source of the scheduler registered idle.\<close>

definition boot_infer :: "nat \<Rightarrow> 'p infer" where
  "boot_infer n = \<lparr>in_pipelines = replicate SYN_MAX_PIPELINES free_pipeline, in_jobs = replicate n fresh_job,
     in_next_job_id = 1, in_next_seq = 0, in_max_concurrent = n, in_dispatch_paused = False, in_job_running = False,
     in_deferred_wakes = 0, in_stats = zero_stats, in_sched_wake = 0, in_drain_sem = False, in_health_id = - 1\<rparr>"

definition syn_infer_sys_init :: "int \<Rightarrow> 'p infer \<times> health \<Rightarrow> 'p infer \<times> health" where
  "syn_infer_sys_init now sh =
     (let (s, h) = sh; (r, h1) = syn_health_register now [115, 99, 104, 101, 100] 5000 h;
          hid = (case r of Inr i \<Rightarrow> int i | Inl _ \<Rightarrow> - 28)
      in (s\<lparr>in_jobs := map (\<lambda>j. j\<lparr>jb_done := False\<rparr>) (in_jobs s), in_health_id := hid\<rparr>,
          syn_health_set_busy now hid False h1))"

end
