(* ===== verification/Infer_Safety.thy ===== *)
theory Infer_Safety
  imports Infer "HOL-Library.Product_Lexorder"
begin

text \<open>
  The scheduler as a state machine: the client calls and the locked sections of the scheduler
  thread interleave in any order. \<open>gv_pc\<close> is where the scheduler thread stands, \<open>gv_gives\<close> counts the
  wakes that a caller has announced under the lock and not yet given, \<open>gv_gate\<close> is the caller of
  \<open>syn_infer_quiesce\<close> (one at a time).
\<close>

section \<open>The dispatch order\<close>

lemma job_before_irrefl: "\<not> job_before a a"
  by (simp add: job_before_def)

lemma job_before_trans: "job_before a b \<Longrightarrow> job_before b c \<Longrightarrow> job_before a c"
  by (auto simp: job_before_def split: if_split_asm)

lemma job_before_negtrans: "\<not> job_before a b \<Longrightarrow> \<not> job_before b c \<Longrightarrow> \<not> job_before a c"
  by (auto simp: job_before_def split: if_split_asm)

text \<open>The scan keeps the first of the best waiting jobs seen so far.\<close>

definition best_of :: "infer_job list \<Rightarrow> nat \<Rightarrow> nat option \<Rightarrow> bool" where
  "best_of js n best \<longleftrightarrow> (case best of None \<Rightarrow> \<forall>k < n. \<not> job_waiting (js ! k)
     | Some b \<Rightarrow> b < n \<and> job_waiting (js ! b) \<and> (\<forall>k < n. job_waiting (js ! k) \<longrightarrow> \<not> job_before (js ! k) (js ! b)) \<and>
         (\<forall>k < b. job_waiting (js ! k) \<longrightarrow> job_before (js ! b) (js ! k)))"

lemma best_of_step:
  assumes "best_of js n best"
  shows "best_of js (Suc n) (pick_step js best n)"
proof (cases best)
  case None
  then show ?thesis using assms job_before_irrefl by (auto simp: best_of_def pick_step_def less_Suc_eq)
next
  case (Some b)
  note B = assms [unfolded best_of_def Some option.case]
  show ?thesis
  proof (cases "job_waiting (js ! n) \<and> job_before (js ! n) (js ! b)")
    case True
    have "\<not> job_before (js ! k) (js ! n)" if "k < n" "job_waiting (js ! k)" for k
      using B that True job_before_trans by blast
    moreover have "job_before (js ! n) (js ! k)" if "k < n" "job_waiting (js ! k)" for k
      using B that True job_before_negtrans [of "js ! n" "js ! k" "js ! b"] by blast
    ultimately show ?thesis using Some True job_before_irrefl by (auto simp: best_of_def pick_step_def less_Suc_eq)
  next
    case False
    then have "pick_step js best n = Some b" using Some by (auto simp: pick_step_def)
    then show ?thesis using B False by (auto simp: best_of_def less_Suc_eq)
  qed
qed

lemma pick_next_job_best: "best_of (in_jobs s) (length (in_jobs s)) (pick_next_job s)"
proof -
  have "best_of (in_jobs s) n (foldl (pick_step (in_jobs s)) None [0..<n])" for n
  proof (induction n)
    case 0
    then show ?case by (simp add: best_of_def)
  next
    case (Suc n)
    then show ?case using best_of_step by simp
  qed
  then show ?thesis by (simp add: pick_next_job_def)
qed

section \<open>The interleaved system\<close>

datatype sched_pc = Asleep | Woken | Running nat | Yielding bool | Reporting bool nat
datatype gate = Gate_open | Gate_waiting | Gate_held

record ('p, 'h) isched =
  gv_inf :: "'p infer"
  gv_hal :: 'h
  gv_pc :: sched_pc
  gv_gives :: nat
  gv_gate :: gate

definition waiting_count :: "'p infer \<Rightarrow> nat" where
  "waiting_count s = length (filter job_waiting (in_jobs s))"

text \<open>
  \<open>Step_exec\<close> is the running job between two locked sections: it may park its context, finish its
  resume and set its output, of its own table entry only, and change the backend and the counters.
\<close>

inductive sched_step :: "(int \<Rightarrow> 'h \<Rightarrow> 'h) \<Rightarrow> ('p, 'h) isched \<Rightarrow> ('p, 'h) isched \<Rightarrow> bool" for free where
  Step_submit: "submit_args_ok pipe input (gv_inf g) \<Longrightarrow>
     submit_locked cyc now (the pipe) (the input) prm (gv_inf g) = (Some jid, s1) \<Longrightarrow>
     sched_step free g (g\<lparr>gv_inf := s1, gv_gives := gv_gives g + 1\<rparr>)"
| Step_give: "gv_gives g = Suc n \<Longrightarrow> sched_step free g (g\<lparr>gv_inf := give_wake (gv_inf g), gv_gives := n\<rparr>)"
| Step_cancel: "syn_infer_cancel free jid (gv_inf g, gv_hal g) = (r, s1, h1) \<Longrightarrow>
     sched_step free g (g\<lparr>gv_inf := s1, gv_hal := h1\<rparr>)"
| Step_get_result: "syn_infer_get_result jid out (gv_inf g) = (r, x, s1) \<Longrightarrow> sched_step free g (g\<lparr>gv_inf := s1\<rparr>)"
| Step_destroy: "syn_pipeline_destroy free pipe (gv_inf g, gv_hal g) = (s1, h1) \<Longrightarrow>
     sched_step free g (g\<lparr>gv_inf := s1, gv_hal := h1\<rparr>)"
| Step_max: "syn_infer_set_max_concurrent n (gv_inf g) = (r, s1) \<Longrightarrow> sched_step free g (g\<lparr>gv_inf := s1\<rparr>)"
| Step_pipelines: "sched_step free g (g\<lparr>gv_inf := (gv_inf g)\<lparr>in_pipelines := ps\<rparr>\<rparr>)"
| Step_quiesce: "gv_gate g = Gate_open \<Longrightarrow> quiesce_enter (gv_inf g) = (busy, s1) \<Longrightarrow>
     sched_step free g (g\<lparr>gv_inf := s1, gv_gate := (if busy then Gate_waiting else Gate_held)\<rparr>)"
| Step_drained: "gv_gate g = Gate_waiting \<Longrightarrow> quiesce_drained (gv_inf g) = Some s1 \<Longrightarrow>
     sched_step free g (g\<lparr>gv_inf := s1, gv_gate := Gate_held\<rparr>)"
| Step_release: "gv_gate g = Gate_held \<Longrightarrow> release_enter (gv_inf g) = (n, s1) \<Longrightarrow>
     sched_step free g (g\<lparr>gv_inf := s1, gv_gives := gv_gives g + n, gv_gate := Gate_open\<rparr>)"
| Step_take: "gv_pc g = Asleep \<Longrightarrow> in_sched_wake (gv_inf g) = Suc n \<Longrightarrow>
     sched_step free g (g\<lparr>gv_inf := (gv_inf g)\<lparr>in_sched_wake := n\<rparr>, gv_pc := Woken\<rparr>)"
| Step_dispatch: "gv_pc g = Woken \<Longrightarrow> sched_dispatch (gv_inf g) = (x, s1) \<Longrightarrow>
     sched_step free g (g\<lparr>gv_inf := s1, gv_pc := (case x of None \<Rightarrow> Asleep | Some i \<Rightarrow> Running i)\<rparr>)"
| Step_exec: "gv_pc g = Running i \<Longrightarrow> sched_step free g (g\<lparr>gv_inf := set_stats v (set_job i
     (\<lambda>j. j\<lparr>jb_ctx_slot := c, jb_resuming := b, jb_resume_stage := k, jb_output := out\<rparr>) (gv_inf g)), gv_hal := h1\<rparr>)"
| Step_suspend: "gv_pc g = Running i \<Longrightarrow> sched_suspend i (gv_inf g) = (drain, s1) \<Longrightarrow>
     sched_step free g (g\<lparr>gv_inf := s1, gv_pc := Yielding drain\<rparr>)"
| Step_yield: "gv_pc g = Yielding drain \<Longrightarrow>
     sched_step free g (g\<lparr>gv_inf := sched_yield drain (gv_inf g), gv_pc := Asleep\<rparr>)"
| Step_complete: "gv_pc g = Running i \<Longrightarrow> sched_complete us cyc i ret (gv_inf g) = (drain, s1) \<Longrightarrow>
     sched_step free g (g\<lparr>gv_inf := s1, gv_pc := Reporting drain i\<rparr>)"
| Step_report: "gv_pc g = Reporting drain i \<Longrightarrow>
     sched_step free g (g\<lparr>gv_inf := sched_report drain i (gv_inf g), gv_pc := Asleep\<rparr>)"

inductive sched_reach :: "(int \<Rightarrow> 'h \<Rightarrow> 'h) \<Rightarrow> nat \<Rightarrow> ('p, 'h) isched \<Rightarrow> bool" for free n where
  Reach_boot: "sched_reach free n \<lparr>gv_inf = boot_infer n, gv_hal = h, gv_pc = Asleep, gv_gives = 0, gv_gate = Gate_open\<rparr>"
| Reach_step: "sched_reach free n g \<Longrightarrow> sched_step free g g' \<Longrightarrow> sched_reach free n g'"

inductive_cases sched_stepE: "sched_step free g g'"

section \<open>The invariant\<close>

fun pc_slack :: "sched_pc \<Rightarrow> nat" where
  "pc_slack Woken = 1"
| "pc_slack (Yielding _) = 1"
| "pc_slack _ = 0"

fun pc_running :: "sched_pc \<Rightarrow> nat option" where
  "pc_running (Running i) = Some i"
| "pc_running _ = None"

fun pc_drains :: "sched_pc \<Rightarrow> bool" where
  "pc_drains (Yielding d) = d"
| "pc_drains (Reporting d _) = d"
| "pc_drains _ = False"

text \<open>
  The wakes given, deferred or announced pay for every waiting job; exactly the job at the
  scheduler's pc is running; a held gate has no running job and a waiting one has its drain coming.
\<close>

definition sched_inv :: "nat \<Rightarrow> ('p, 'h) isched \<Rightarrow> bool" where
  "sched_inv n g \<longleftrightarrow> (let s = gv_inf g; js = in_jobs s in
     length js = n \<and>
     waiting_count s \<le> in_sched_wake s + in_deferred_wakes s + gv_gives g + pc_slack (gv_pc g) \<and>
     (\<forall>i < n. jb_state (js ! i) = JOB_RUNNING \<longleftrightarrow> pc_running (gv_pc g) = Some i) \<and>
     (\<forall>i. pc_running (gv_pc g) = Some i \<longrightarrow> i < n) \<and>
     in_job_running s = (pc_running (gv_pc g) \<noteq> None) \<and>
     in_dispatch_paused s = (gv_gate g \<noteq> Gate_open) \<and> (gv_gate g = Gate_open \<longrightarrow> in_deferred_wakes s = 0) \<and>
     (gv_gate g = Gate_held \<longrightarrow> pc_running (gv_pc g) = None) \<and>
     (gv_gate g = Gate_waiting \<longrightarrow> in_drain_sem s \<or> pc_running (gv_pc g) \<noteq> None \<or> pc_drains (gv_pc g)) \<and>
     (gv_gate g = Gate_waiting \<and> in_drain_sem s \<longrightarrow> pc_running (gv_pc g) = None) \<and>
     (pc_drains (gv_pc g) \<longrightarrow> gv_gate g = Gate_waiting \<and> \<not> in_drain_sem s))"

text \<open>Updates of the table that start no job and make none wait.\<close>

definition quiet :: "'p infer \<Rightarrow> 'p infer \<Rightarrow> bool" where
  "quiet s s' \<longleftrightarrow> length (in_jobs s') = length (in_jobs s) \<and> waiting_count s' \<le> waiting_count s \<and>
     (\<forall>i < length (in_jobs s). jb_state (in_jobs s' ! i) = JOB_RUNNING \<longleftrightarrow> jb_state (in_jobs s ! i) = JOB_RUNNING) \<and>
     in_sched_wake s' = in_sched_wake s \<and> in_deferred_wakes s' = in_deferred_wakes s \<and>
     in_job_running s' = in_job_running s \<and> in_dispatch_paused s' = in_dispatch_paused s \<and> in_drain_sem s' = in_drain_sem s"

lemma quiet_refl [simp]: "quiet s s"
  by (simp add: quiet_def)

lemma quiet_trans: "quiet s s1 \<Longrightarrow> quiet s1 s2 \<Longrightarrow> quiet s s2"
  by (simp add: quiet_def)

lemma sched_inv_quiet:
  "sched_inv n g \<Longrightarrow> quiet (gv_inf g) s' \<Longrightarrow> sched_inv n (g\<lparr>gv_inf := s', gv_hal := h\<rparr>)"
  unfolding sched_inv_def quiet_def Let_def by (elim conjE, intro conjI) simp_all

lemma count_update:
  "i < length xs \<Longrightarrow> length (filter P (xs[i := x])) + (if P (xs ! i) then 1 else 0) = length (filter P xs) + (if P x then 1 else 0)"
proof (induction xs arbitrary: i)
  case (Cons y xs)
  then show ?case by (cases i) auto
qed simp

lemma set_job_sel [simp]: "length (in_jobs (set_job i u s)) = length (in_jobs s)"
  "in_sched_wake (set_job i u s) = in_sched_wake s" "in_deferred_wakes (set_job i u s) = in_deferred_wakes s"
  "in_job_running (set_job i u s) = in_job_running s" "in_dispatch_paused (set_job i u s) = in_dispatch_paused s"
  "in_drain_sem (set_job i u s) = in_drain_sem s" "in_pipelines (set_job i u s) = in_pipelines s"
  "in_jobs (set_stats v s) = in_jobs s"
  "in_sched_wake (set_stats v s) = in_sched_wake s" "in_deferred_wakes (set_stats v s) = in_deferred_wakes s"
  "in_job_running (set_stats v s) = in_job_running s" "in_dispatch_paused (set_stats v s) = in_dispatch_paused s"
  "in_drain_sem (set_stats v s) = in_drain_sem s" "in_pipelines (set_stats v s) = in_pipelines s"
  by (simp_all add: set_job_def set_stats_def)

lemma nth_set_job: "i < length (in_jobs s) \<Longrightarrow>
    in_jobs (set_job i u s) ! k = (if k = i then u (in_jobs s ! i) else in_jobs s ! k)"
  by (simp add: set_job_def)

lemma waiting_set_job:
  "i < length (in_jobs s) \<Longrightarrow> waiting_count (set_job i u s) + (if job_waiting (in_jobs s ! i) then 1 else 0) =
     waiting_count s + (if job_waiting (u (in_jobs s ! i)) then 1 else 0)"
  using count_update [of i "in_jobs s" job_waiting] by (simp add: waiting_count_def set_job_def)

lemma waiting_set_stats [simp]: "waiting_count (set_stats v s) = waiting_count s"
  by (simp add: waiting_count_def)

lemma quiet_set_job:
  assumes "i < length (in_jobs s)" "jb_state (u (in_jobs s ! i)) = JOB_RUNNING \<longleftrightarrow> jb_state (in_jobs s ! i) = JOB_RUNNING"
    and "job_waiting (u (in_jobs s ! i)) \<longrightarrow> job_waiting (in_jobs s ! i)"
  shows "quiet s (set_job i u s)"
  using assms waiting_set_job [of i s u] by (auto simp: quiet_def nth_set_job split: if_split_asm)

lemma quiet_set_stats [simp]: "quiet s (set_stats v s)"
  by (simp add: quiet_def)

lemma quiet_cancel:
  assumes "i < length (in_jobs s)" "job_waiting (in_jobs s ! i)"
  shows "quiet s (cancel_job i s)"
proof -
  have "quiet s (set_job i (\<lambda>j. j\<lparr>jb_state := JOB_CANCELLED, jb_result := Err ECANCELED, jb_done := True\<rparr>) s)"
    using assms by (intro quiet_set_job) (auto simp: job_waiting_def)
  then show ?thesis unfolding cancel_job_def by (rule quiet_trans) simp
qed

lemma find_job_Some: "find_job jid s = Some i \<Longrightarrow> i < length (in_jobs s) \<and> jb_state (in_jobs s ! i) \<noteq> JOB_FREE \<and> jb_id (in_jobs s ! i) = jid"
  using first_index_SomeD [of _ "in_jobs s" i] by (auto simp: find_job_def split: if_split_asm)

lemma quiet_ctx: "i < length (in_jobs s) \<Longrightarrow> quiet s (set_job i (\<lambda>j. j\<lparr>jb_ctx_slot := c\<rparr>) s)"
  by (rule quiet_set_job) (simp_all add: job_waiting_def)

lemma quiet_cancel_call:
  assumes "syn_infer_cancel free jid (s, h) = (r, s1, h1)"
  shows "quiet s s1"
proof (cases "find_job jid s")
  case (Some i)
  note F = find_job_Some [OF Some]
  have c: "quiet s (cancel_job i s)" if "jb_state (in_jobs s ! i) = JOB_QUEUED"
    using F that by (intro quiet_cancel) (simp_all add: job_waiting_def)
  have d: "quiet s (cancel_job i (set_job i (\<lambda>j. j\<lparr>jb_ctx_slot := - 1\<rparr>) s))" if "jb_state (in_jobs s ! i) = JOB_SUSPENDED"
  proof -
    have "quiet (set_job i (\<lambda>j. j\<lparr>jb_ctx_slot := - 1\<rparr>) s) (cancel_job i (set_job i (\<lambda>j. j\<lparr>jb_ctx_slot := - 1\<rparr>) s))"
      using F that by (intro quiet_cancel) (simp_all add: job_waiting_def nth_set_job)
    then show ?thesis using quiet_ctx F quiet_trans by blast
  qed
  show ?thesis using assms Some c d by (auto simp: syn_infer_cancel_def Let_def split: job_state.split_asm)
qed (use assms in \<open>simp add: syn_infer_cancel_def\<close>)

lemma quiet_get_result:
  assumes "syn_infer_get_result jid out s = (r, x, s1)"
  shows "quiet s s1"
proof (cases "find_job jid s")
  case (Some i)
  note F = find_job_Some [OF Some]
  have "quiet s (set_job i (\<lambda>j. j\<lparr>jb_state := JOB_FREE\<rparr>) s)" if "jb_state (in_jobs s ! i) \<notin> {JOB_RUNNING}"
    using F that by (intro quiet_set_job) (auto simp: job_waiting_def)
  then show ?thesis using assms Some by (auto simp: syn_infer_get_result_def Let_def split: job_state.split_asm if_split_asm)
qed (use assms in \<open>auto simp: syn_infer_get_result_def split: if_split_asm\<close>)

lemma quiet_destroy_loop:
  "\<forall>i \<in> set is. i < length (in_jobs s) \<Longrightarrow> destroy_loop free p is (s, h) = (s1, h1) \<Longrightarrow> quiet s s1"
proof (induction "is" arbitrary: s h)
  case (Cons i "is")
  let ?j = "in_jobs s ! i"
  define s2 where "s2 = (if jb_state ?j = JOB_SUSPENDED then set_job i (\<lambda>j. j\<lparr>jb_ctx_slot := - 1\<rparr>) s else s)"
  define s3 where "s3 = (if job_waiting ?j \<and> jb_pipe ?j = Some p then cancel_job i s2 else s2)"
  have i: "i < length (in_jobs s)" using Cons.prems(1) by simp
  have q2: "quiet s s2" using quiet_ctx [OF i] by (simp add: s2_def)
  have w: "job_waiting (in_jobs s2 ! i) = job_waiting ?j" using i by (simp add: s2_def nth_set_job job_waiting_def)
  have l2: "i < length (in_jobs s2)" using i q2 by (simp add: quiet_def)
  have "quiet s2 s3"
  proof (cases "job_waiting ?j \<and> jb_pipe ?j = Some p")
    case True
    then show ?thesis using quiet_cancel [OF l2] w by (simp add: s3_def)
  next
    case False
    then have "s3 = s2" by (auto simp: s3_def)
    then show ?thesis by simp
  qed
  then have q: "quiet s s3" using q2 quiet_trans by blast
  have d: "destroy_loop free p is (s3, if jb_state ?j = JOB_SUSPENDED then free (jb_ctx_slot ?j) h else h) = (s1, h1)"
    using Cons.prems(2) unfolding destroy_loop.simps Let_def s2_def [symmetric] s3_def [symmetric] .
  have "\<forall>k \<in> set is. k < length (in_jobs s3)" using Cons.prems(1) q by (simp add: quiet_def)
  then have "quiet s3 s1" using d by (rule Cons.IH)
  then show ?case using q quiet_trans by blast
qed simp

lemma quiet_set_pipe [simp]: "quiet s (set_pipe i u s')  = quiet s s'"
  by (simp add: quiet_def set_pipe_def waiting_count_def)

lemma quiet_destroy:
  assumes "syn_pipeline_destroy free pipe (s, h) = (s1, h1)"
  shows "quiet s s1"
proof (cases "pipeline_valid pipe s")
  case True
  obtain s2 h2 where d: "destroy_loop free (the pipe) [0..<length (in_jobs s)] (s, h) = (s2, h2)" by fastforce
  have "quiet s s2" by (rule quiet_destroy_loop [OF _ d]) simp
  then show ?thesis using assms True d by (auto simp: syn_pipeline_destroy_def)
qed (use assms in \<open>simp add: syn_pipeline_destroy_def\<close>)

lemma quiet_exec: "i < length (in_jobs s) \<Longrightarrow>
    quiet s (set_stats v (set_job i (\<lambda>j. j\<lparr>jb_ctx_slot := c, jb_resuming := b, jb_resume_stage := k, jb_output := out\<rparr>) s))"
  by (rule quiet_trans [OF quiet_set_job quiet_set_stats]) (simp_all add: job_waiting_def)


section \<open>Every step keeps the invariant\<close>

lemma waiting_count_le: "waiting_count s \<le> length (in_jobs s)"
  by (simp add: waiting_count_def)

lemma waiting_count_0: "\<forall>k < length (in_jobs s). \<not> job_waiting (in_jobs s ! k) \<Longrightarrow> waiting_count s = 0"
  by (auto simp: waiting_count_def filter_empty_conv in_set_conv_nth)

lemma waiting_fields [simp]: "waiting_count (s\<lparr>in_job_running := b\<rparr>) = waiting_count s"
  "waiting_count (s\<lparr>in_dispatch_paused := b\<rparr>) = waiting_count s"
  "waiting_count (s\<lparr>in_drain_sem := b\<rparr>) = waiting_count s"
  "waiting_count (s\<lparr>in_deferred_wakes := n\<rparr>) = waiting_count s"
  "waiting_count (s\<lparr>in_sched_wake := n\<rparr>) = waiting_count s"
  by (simp_all add: waiting_count_def)

lemma give_wake_sel [simp]: "in_jobs (give_wake s) = in_jobs s" "in_deferred_wakes (give_wake s) = in_deferred_wakes s"
  "in_job_running (give_wake s) = in_job_running s" "in_dispatch_paused (give_wake s) = in_dispatch_paused s"
  "in_drain_sem (give_wake s) = in_drain_sem s" "in_sched_wake (give_wake s) = min (in_sched_wake s + 1) (length (in_jobs s))"
  "waiting_count (give_wake s) = waiting_count s"
  by (simp_all add: give_wake_def waiting_count_def)

lemma give_drain_sel [simp]: "in_jobs (give_drain b s) = in_jobs s" "in_deferred_wakes (give_drain b s) = in_deferred_wakes s"
  "in_job_running (give_drain b s) = in_job_running s" "in_dispatch_paused (give_drain b s) = in_dispatch_paused s"
  "in_drain_sem (give_drain b s) = (b \<or> in_drain_sem s)" "in_sched_wake (give_drain b s) = in_sched_wake s"
  "waiting_count (give_drain b s) = waiting_count s"
  by (simp_all add: give_drain_def)

lemma sched_inv_boot:
  "sched_inv n \<lparr>gv_inf = boot_infer n, gv_hal = h, gv_pc = Asleep, gv_gives = 0, gv_gate = Gate_open\<rparr>"
  by (simp add: sched_inv_def boot_infer_def fresh_job_def waiting_count_0 job_waiting_def)

lemma submit_locked_Some:
  assumes "submit_locked cyc now p inp prm s = (Some jid, s1)"
  obtains i s0 j where "i < length (in_jobs s)" "jb_state (in_jobs s ! i) = JOB_FREE" "jb_state j = JOB_QUEUED"
    "s1 = set_job i (\<lambda>_. j) s0" "s0 = s\<lparr>in_next_job_id := in_next_job_id s0, in_next_seq := in_next_seq s0\<rparr>" "jb_id j = jid"
proof -
  obtain i where i: "first_index (\<lambda>j. jb_state j = JOB_FREE) (in_jobs s) = Some i"
    and s1: "s1 = set_job i (\<lambda>_. new_job cyc now jid (in_next_seq s) p inp (case prm of Some p \<Rightarrow> p | None \<Rightarrow> default_params))
       (s\<lparr>in_next_job_id := (if jid + 1 = SYN_JOB_INVALID then 1 else jid + 1), in_next_seq := in_next_seq s + 1\<rparr>)"
    using assms by (auto simp: submit_locked_def Let_def split: if_split_asm option.split_asm)
  show thesis
    by (rule that [OF _ _ _ s1]) (use first_index_SomeD [OF i] in \<open>auto simp: new_job_def\<close>)
qed

lemma sched_inv_submit:
  assumes "sched_inv n g" "submit_locked cyc now p inp prm (gv_inf g) = (Some jid, s1)"
  shows "sched_inv n (g\<lparr>gv_inf := s1, gv_gives := gv_gives g + 1\<rparr>)"
proof -
  from assms(2) obtain i s0 j where i: "i < length (in_jobs (gv_inf g))" "jb_state (in_jobs (gv_inf g) ! i) = JOB_FREE"
    "jb_state j = JOB_QUEUED" and s1: "s1 = set_job i (\<lambda>_. j) s0" 
    and s0: "s0 = (gv_inf g)\<lparr>in_next_job_id := in_next_job_id s0, in_next_seq := in_next_seq s0\<rparr>"
    by (rule submit_locked_Some)
  have js: "in_jobs s0 = in_jobs (gv_inf g)" "in_sched_wake s0 = in_sched_wake (gv_inf g)"
    "in_deferred_wakes s0 = in_deferred_wakes (gv_inf g)" "in_job_running s0 = in_job_running (gv_inf g)"
    "in_dispatch_paused s0 = in_dispatch_paused (gv_inf g)" "in_drain_sem s0 = in_drain_sem (gv_inf g)"
    by (subst s0, simp)+
  have "waiting_count s1 = waiting_count (gv_inf g) + 1"
    using waiting_set_job [of i s0 "\<lambda>_. j"] i js by (simp add: s1 job_waiting_def waiting_count_def)
  moreover have "jb_state (in_jobs s1 ! k) = JOB_RUNNING \<longleftrightarrow> jb_state (in_jobs (gv_inf g) ! k) = JOB_RUNNING" for k
    using i js by (simp add: s1 nth_set_job)
  moreover have "in_sched_wake s1 = in_sched_wake (gv_inf g)" "in_deferred_wakes s1 = in_deferred_wakes (gv_inf g)"
    "in_job_running s1 = in_job_running (gv_inf g)" "length (in_jobs s1) = length (in_jobs (gv_inf g))"
    "in_dispatch_paused s1 = in_dispatch_paused (gv_inf g)" "in_drain_sem s1 = in_drain_sem (gv_inf g)"
    by (simp_all add: s1 js)
  ultimately show ?thesis using assms(1) unfolding sched_inv_def Let_def by simp
qed

lemma sched_inv_give:
  "sched_inv n g \<Longrightarrow> gv_gives g = Suc m \<Longrightarrow> sched_inv n (g\<lparr>gv_inf := give_wake (gv_inf g), gv_gives := m\<rparr>)"
  using waiting_count_le [of "gv_inf g"] unfolding sched_inv_def Let_def by (simp add: min_def)

lemma sched_inv_quiesce:
  "sched_inv n g \<Longrightarrow> gv_gate g = Gate_open \<Longrightarrow> quiesce_enter (gv_inf g) = (busy, s1) \<Longrightarrow>
     sched_inv n (g\<lparr>gv_inf := s1, gv_gate := (if busy then Gate_waiting else Gate_held)\<rparr>)"
  unfolding sched_inv_def Let_def quiesce_enter_def by (cases busy) auto

lemma sched_inv_drained:
  "sched_inv n g \<Longrightarrow> gv_gate g = Gate_waiting \<Longrightarrow> quiesce_drained (gv_inf g) = Some s1 \<Longrightarrow>
     sched_inv n (g\<lparr>gv_inf := s1, gv_gate := Gate_held\<rparr>)"
  unfolding sched_inv_def Let_def quiesce_drained_def by (cases "in_drain_sem (gv_inf g)") auto

lemma sched_inv_release:
  "sched_inv n g \<Longrightarrow> gv_gate g = Gate_held \<Longrightarrow> release_enter (gv_inf g) = (m, s1) \<Longrightarrow>
     sched_inv n (g\<lparr>gv_inf := s1, gv_gives := gv_gives g + m, gv_gate := Gate_open\<rparr>)"
  unfolding sched_inv_def Let_def release_enter_def by auto

lemma sched_inv_take:
  "sched_inv n g \<Longrightarrow> gv_pc g = Asleep \<Longrightarrow> in_sched_wake (gv_inf g) = Suc m \<Longrightarrow>
     sched_inv n (g\<lparr>gv_inf := (gv_inf g)\<lparr>in_sched_wake := m\<rparr>, gv_pc := Woken\<rparr>)"
  unfolding sched_inv_def Let_def by simp

lemma sched_inv_dispatch:
  assumes inv: "sched_inv n g" and pc: "gv_pc g = Woken" and d: "sched_dispatch (gv_inf g) = (x, s1)"
  shows "sched_inv n (g\<lparr>gv_inf := s1, gv_pc := (case x of None \<Rightarrow> Asleep | Some i \<Rightarrow> Running i)\<rparr>)"
proof (cases "in_dispatch_paused (gv_inf g)")
  case True
  then show ?thesis using inv pc d unfolding sched_inv_def Let_def by (auto simp: sched_dispatch_def)
next
  case False
  let ?s = "gv_inf g"
  note best = pick_next_job_best [of ?s, unfolded best_of_def]
  show ?thesis
  proof (cases "pick_next_job ?s")
    case None
    then have "waiting_count ?s = 0" using best waiting_count_0 [of ?s] by simp
    then show ?thesis using inv pc d None False unfolding sched_inv_def Let_def by (auto simp: sched_dispatch_def)
  next
    case (Some i)
    then have i: "i < length (in_jobs ?s)" "job_waiting (in_jobs ?s ! i)" using best by auto
    define s0 where "s0 = (if jb_state (in_jobs ?s ! i) = JOB_SUSPENDED
      then set_stats (\<lambda>t. t\<lparr>is_resumes := is_resumes t + 1\<rparr>) (set_job i (\<lambda>j. j\<lparr>jb_resuming := True\<rparr>) ?s) else ?s)"
    have x: "x = Some i" and s1: "s1 = (set_job i (\<lambda>j. j\<lparr>jb_state := JOB_RUNNING\<rparr>) s0)\<lparr>in_job_running := True\<rparr>"
      using d False Some by (auto simp: sched_dispatch_def Let_def s0_def)
    have s0: "length (in_jobs s0) = length (in_jobs ?s)" "\<And>k. jb_state (in_jobs s0 ! k) = jb_state (in_jobs ?s ! k)"
      "in_sched_wake s0 = in_sched_wake ?s" "in_deferred_wakes s0 = in_deferred_wakes ?s"
      "in_dispatch_paused s0 = in_dispatch_paused ?s" "in_drain_sem s0 = in_drain_sem ?s" "waiting_count s0 = waiting_count ?s"
      using i waiting_set_job [of i ?s "\<lambda>j. j\<lparr>jb_resuming := True\<rparr>"]
      by (simp_all add: s0_def nth_set_job job_waiting_def split: if_split_asm)
    have "waiting_count s1 + 1 = waiting_count ?s"
      using waiting_set_job [of i s0 "\<lambda>j. j\<lparr>jb_state := JOB_RUNNING\<rparr>"] i s0 by (simp add: s1 job_waiting_def)
    moreover have "\<And>k. jb_state (in_jobs s1 ! k) = JOB_RUNNING \<longleftrightarrow> k = i \<or> jb_state (in_jobs ?s ! k) = JOB_RUNNING"
      using i s0 by (auto simp: s1 nth_set_job)
    ultimately show ?thesis using inv pc False i unfolding sched_inv_def Let_def x by (auto simp: s1 s0)
  qed
qed

lemma sched_inv_suspend:
  assumes inv: "sched_inv n g" and pc: "gv_pc g = Running i" and d: "sched_suspend i (gv_inf g) = (drain, s1)"
  shows "sched_inv n (g\<lparr>gv_inf := s1, gv_pc := Yielding drain\<rparr>)"
proof -
  let ?s = "gv_inf g"
  have i: "i < length (in_jobs ?s)" "jb_state (in_jobs ?s ! i) = JOB_RUNNING" using inv pc by (auto simp: sched_inv_def Let_def)
  have s1: "s1 = set_stats (\<lambda>t. t\<lparr>is_preemptions := is_preemptions t + 1\<rparr>)
     ((set_job i (\<lambda>j. j\<lparr>jb_state := JOB_SUSPENDED\<rparr>) ?s)\<lparr>in_job_running := False\<rparr>)" and dr: "drain = in_dispatch_paused ?s"
    using d by (simp_all add: sched_suspend_def)
  have "waiting_count s1 = waiting_count ?s + 1"
    using waiting_set_job [OF i(1), of "\<lambda>j. j\<lparr>jb_state := JOB_SUSPENDED\<rparr>"] i by (simp add: s1 job_waiting_def)
  moreover have "\<And>k. jb_state (in_jobs s1 ! k) = JOB_RUNNING \<longleftrightarrow> k \<noteq> i \<and> jb_state (in_jobs ?s ! k) = JOB_RUNNING"
    using i by (auto simp: s1 nth_set_job)
  ultimately show ?thesis using inv pc unfolding sched_inv_def Let_def dr
    by (cases "gv_gate g") (auto simp: s1)
qed

lemma sched_inv_yield:
  assumes inv: "sched_inv n g" and pc: "gv_pc g = Yielding drain"
  shows "sched_inv n (g\<lparr>gv_inf := sched_yield drain (gv_inf g), gv_pc := Asleep\<rparr>)"
  using assms waiting_count_le [of "gv_inf g"] unfolding sched_inv_def Let_def sched_yield_def
  by (cases "gv_gate g") (auto simp: min_def)

lemma sched_inv_complete:
  assumes inv: "sched_inv n g" and pc: "gv_pc g = Running i" and d: "sched_complete us cyc i ret (gv_inf g) = (drain, s1)"
  shows "sched_inv n (g\<lparr>gv_inf := s1, gv_pc := Reporting drain i\<rparr>)"
proof -
  let ?s = "gv_inf g"
  let ?u = "\<lambda>j. j\<lparr>jb_result := ret, jb_state := (if is_ok ret then JOB_DONE else JOB_ERROR)\<rparr>"
  have i: "i < length (in_jobs ?s)" "jb_state (in_jobs ?s ! i) = JOB_RUNNING" using inv pc by (auto simp: sched_inv_def Let_def)
  obtain v where s1: "s1 = set_stats v ((set_job i ?u ?s)\<lparr>in_job_running := False\<rparr>)" and dr: "drain = in_dispatch_paused ?s"
    using d by (auto simp: sched_complete_def Let_def)
  have "waiting_count s1 = waiting_count ?s"
    using waiting_set_job [OF i(1), of ?u] i by (simp add: s1 job_waiting_def)
  moreover have "\<And>k. jb_state (in_jobs s1 ! k) = JOB_RUNNING \<longleftrightarrow> k \<noteq> i \<and> jb_state (in_jobs ?s ! k) = JOB_RUNNING"
    using i by (auto simp: s1 nth_set_job)
  ultimately show ?thesis using inv pc unfolding sched_inv_def Let_def dr
    by (cases "gv_gate g") (auto simp: s1)
qed

lemma sched_inv_report:
  assumes inv: "sched_inv n g" and pc: "gv_pc g = Reporting drain i"
  shows "sched_inv n (g\<lparr>gv_inf := sched_report drain i (gv_inf g), gv_pc := Asleep\<rparr>)"
proof -
  let ?s = "gv_inf g"
  let ?s1 = "sched_report drain i ?s"
  have "jb_state (in_jobs ?s1 ! k) = jb_state (in_jobs ?s ! k)" for k
    by (cases "i < length (in_jobs ?s)") (simp_all add: sched_report_def set_job_def nth_list_update list_update_beyond)
  moreover have "waiting_count ?s1 = waiting_count ?s"
  proof (cases "i < length (in_jobs ?s)")
    case True
    then show ?thesis using waiting_set_job [of i "give_drain drain ?s" "\<lambda>j. j\<lparr>jb_done := True\<rparr>"]
      by (simp add: sched_report_def job_waiting_def split: if_split_asm)
  qed (simp add: sched_report_def set_job_def waiting_count_def list_update_beyond)
  ultimately show ?thesis using inv pc unfolding sched_inv_def Let_def
    by (cases "gv_gate g") (auto simp: sched_report_def)
qed

lemma sched_inv_exec:
  assumes "gv_pc g = Running i" "sched_inv n g"
  shows "sched_inv n (g\<lparr>gv_inf := set_stats v (set_job i
     (\<lambda>j. j\<lparr>jb_ctx_slot := c, jb_resuming := b, jb_resume_stage := k, jb_output := out\<rparr>) (gv_inf g)), gv_hal := h1\<rparr>)"
proof -
  have "i < length (in_jobs (gv_inf g))" using assms by (auto simp: sched_inv_def Let_def)
  then have "quiet (gv_inf g) (set_stats v (set_job i
     (\<lambda>j. j\<lparr>jb_ctx_slot := c, jb_resuming := b, jb_resume_stage := k, jb_output := out\<rparr>) (gv_inf g)))"
    by (rule quiet_exec)
  then show ?thesis by (rule sched_inv_quiet [OF assms(2)])
qed

lemma sched_inv_step:
  assumes "sched_step free g g'" "sched_inv n g"
  shows "sched_inv n g'"
  using assms
proof (induction rule: sched_step.induct)
  case (Step_cancel jid g r s1 h1)
  then show ?case by (intro sched_inv_quiet quiet_cancel_call)
next
  case (Step_get_result jid out g r x s1)
  then show ?case using sched_inv_quiet [OF _ quiet_get_result, where h = "gv_hal g"] by fastforce
next
  case (Step_destroy pipe g s1 h1)
  then show ?case by (intro sched_inv_quiet quiet_destroy)
next
  case (Step_max m g r s1)
  then have "quiet (gv_inf g) s1" by (auto simp: syn_infer_set_max_concurrent_def quiet_def waiting_count_def split: if_split_asm)
  then show ?case using sched_inv_quiet [OF Step_max(2), of s1 "gv_hal g"] by simp
next
  case (Step_pipelines g ps)
  have "quiet (gv_inf g) ((gv_inf g)\<lparr>in_pipelines := ps\<rparr>)" by (simp add: quiet_def waiting_count_def)
  then show ?case using sched_inv_quiet [OF Step_pipelines, of _ "gv_hal g"] by simp
next
  case Step_exec
  then show ?case by (intro sched_inv_exec)
next
  case Step_submit
  then show ?case by (intro sched_inv_submit)
next
  case Step_give
  then show ?case by (intro sched_inv_give)
next
  case Step_quiesce
  then show ?case by (intro sched_inv_quiesce)
next
  case Step_drained
  then show ?case by (intro sched_inv_drained)
next
  case Step_release
  then show ?case by (intro sched_inv_release)
next
  case Step_take
  then show ?case by (intro sched_inv_take)
next
  case Step_dispatch
  then show ?case by (intro sched_inv_dispatch)
next
  case Step_suspend
  then show ?case by (intro sched_inv_suspend)
next
  case Step_yield
  then show ?case by (intro sched_inv_yield)
next
  case Step_complete
  then show ?case by (intro sched_inv_complete)
next
  case Step_report
  then show ?case by (intro sched_inv_report)
qed

lemma sched_reach_inv: "sched_reach free n g \<Longrightarrow> sched_inv n g"
proof (induction rule: sched_reach.induct)
  case (Reach_boot h)
  show ?case by (rule sched_inv_boot)
next
  case (Reach_step g g')
  then show ?case using sched_inv_step [OF Reach_step.hyps(2)] by simp
qed

section \<open>Properties of the scheduler\<close>

text \<open>
  C5: no wake is lost. In every interleaving of submissions, cancellations, result reads, residency
  changes and the scheduler thread itself, the waiting jobs are never more than the wakes pending,
  deferred, announced and held by the thread; so when the thread is about to block with the gate open
  and no caller between its unlock and its give, a waiting job means that the wake count is not zero.
\<close>

theorem no_wakeup_is_lost:
  assumes "sched_reach free n g"
  shows "waiting_count (gv_inf g) \<le> in_sched_wake (gv_inf g) + in_deferred_wakes (gv_inf g) + gv_gives g + pc_slack (gv_pc g) \<and>
    (gv_pc g = Asleep \<and> gv_gives g = 0 \<and> gv_gate g = Gate_open \<and> (\<exists>j \<in> set (in_jobs (gv_inf g)). job_waiting j)
       \<longrightarrow> in_sched_wake (gv_inf g) > 0)"
proof -
  note I = sched_reach_inv [OF assms, unfolded sched_inv_def Let_def]
  then have le: "waiting_count (gv_inf g) \<le> in_sched_wake (gv_inf g) + in_deferred_wakes (gv_inf g) + gv_gives g + pc_slack (gv_pc g)"
    and open': "gv_gate g = Gate_open \<longrightarrow> in_deferred_wakes (gv_inf g) = 0" by simp_all
  have "0 < waiting_count (gv_inf g)" if "\<exists>j \<in> set (in_jobs (gv_inf g)). job_waiting j"
    using that by (simp add: waiting_count_def filter_empty_conv)
  then show ?thesis using le open' by fastforce
qed

definition demo_in :: itensor where
  "demo_in = zero_tensor\<lparr>tn_data := 16, tn_size := 4, tn_bytes := [1, 2, 3, 4]\<rparr>"

definition demo_pipes :: "unit pipeline list" where
  "demo_pipes = [free_pipeline\<lparr>pl_in_use := True, pl_built := True, pl_model := 1, pl_stages := [STAGE_MODEL]\<rparr>,
     free_pipeline\<lparr>pl_in_use := True, pl_built := True, pl_model := 2, pl_stages := [STAGE_MODEL]\<rparr>, free_pipeline, free_pipeline]"

definition demo_boot :: "nat \<Rightarrow> (unit, unit) isched" where
  "demo_boot n = \<lparr>gv_inf = (boot_infer n)\<lparr>in_pipelines := demo_pipes\<rparr>, gv_hal = (), gv_pc = Asleep, gv_gives = 0, gv_gate = Gate_open\<rparr>"

definition demo_submit :: "(unit, unit) isched \<Rightarrow> (unit, unit) isched" where
  "demo_submit g = g\<lparr>gv_inf := snd (submit_locked 0 0 0 demo_in None (gv_inf g)), gv_gives := gv_gives g + 1\<rparr>"

definition demo_queued :: "(unit, unit) isched" where
  "demo_queued = (demo_submit (demo_boot 1))\<lparr>gv_inf := give_wake (gv_inf (demo_submit (demo_boot 1))), gv_gives := 0\<rparr>"

lemma demo_boot_reach: "sched_reach free n (demo_boot n)"
  proof -
  have "sched_step free \<lparr>gv_inf = boot_infer n, gv_hal = (), gv_pc = Asleep, gv_gives = 0, gv_gate = Gate_open\<rparr> (demo_boot n)"
    using Step_pipelines [of free "\<lparr>gv_inf = boot_infer n, gv_hal = (), gv_pc = Asleep, gv_gives = 0, gv_gate = Gate_open\<rparr>" demo_pipes]
    by (simp add: demo_boot_def)
  then show ?thesis by (rule Reach_step [OF Reach_boot])
qed

lemma demo_submit_reach:
  assumes "sched_reach free n g" "submit_args_ok (Some 0) (Some demo_in) (gv_inf g)"
    "fst (submit_locked 0 0 0 demo_in None (gv_inf g)) \<noteq> None"
  shows "sched_reach free n (demo_submit g)"
proof -
  obtain jid s1 where s: "submit_locked 0 0 0 demo_in None (gv_inf g) = (Some jid, s1)"
    using assms(3) by (cases "submit_locked 0 0 0 demo_in None (gv_inf g)") auto
  have "sched_step free g (demo_submit g)"
    using Step_submit [OF assms(2), of 0 0 None jid s1 free] by (simp add: demo_submit_def s)
  with assms(1) show ?thesis by (rule Reach_step)
qed

lemma demo_queued_reach: "sched_reach free 1 demo_queued"
proof -
  have "sched_reach free 1 (demo_submit (demo_boot 1))"
    by (rule demo_submit_reach [OF demo_boot_reach]) code_simp+
  then show ?thesis unfolding demo_queued_def
    by (rule Reach_step) (rule Step_give, simp add: demo_submit_def demo_boot_def)
qed

theorem no_wakeup_is_lost_witness:
  "sched_reach (\<lambda>_ h. h) 1 demo_queued \<and> waiting_count (gv_inf demo_queued) = 1 \<and> in_sched_wake (gv_inf demo_queued) = 1 \<and>
   waiting_count (gv_inf demo_queued) \<le> in_sched_wake (gv_inf demo_queued) + in_deferred_wakes (gv_inf demo_queued) +
     gv_gives demo_queued + pc_slack (gv_pc demo_queued)"
proof -
  have "waiting_count (gv_inf demo_queued) = 1" "in_sched_wake (gv_inf demo_queued) = 1" by code_simp+
  then show ?thesis using demo_queued_reach no_wakeup_is_lost [OF demo_queued_reach] by blast
qed

text \<open>The order of dispatch: highest priority, then earliest deadline, then first submitted.\<close>

definition edf_key :: "infer_job \<Rightarrow> int \<times> int \<times> u32" where
  "edf_key j = (- int (ip_priority (jb_params j)), jb_deadline_at_us j, jb_seq j)"

lemma job_before_edf: "job_before a b \<longleftrightarrow> edf_key a < edf_key b"
  by (auto simp: job_before_def edf_key_def less_prod_simp)

text \<open>
  C27: the scan of the scheduler is the reference choice. It picks nothing exactly when no job waits,
  and otherwise the first job of least key: priority descending, absolute deadline ascending,
  submission number ascending.
\<close>

theorem pick_is_priority_edf_fifo:
  "(pick_next_job s = None \<longleftrightarrow> (\<forall>j \<in> set (in_jobs s). \<not> job_waiting j)) \<and>
   (pick_next_job s = Some i \<longleftrightarrow> i < length (in_jobs s) \<and> job_waiting (in_jobs s ! i) \<and>
      (\<forall>k < length (in_jobs s). job_waiting (in_jobs s ! k) \<longrightarrow>
         edf_key (in_jobs s ! i) < edf_key (in_jobs s ! k) \<or> edf_key (in_jobs s ! i) = edf_key (in_jobs s ! k) \<and> i \<le> k))"
proof -
  let ?js = "in_jobs s"
  have B: "best_of ?js (length ?js) (pick_next_job s)" by (rule pick_next_job_best)
  show ?thesis
  proof (cases "pick_next_job s")
    case None
    then show ?thesis using B by (auto simp: best_of_def in_set_conv_nth)
  next
    case (Some b)
    then have b: "b < length ?js" "job_waiting (?js ! b)"
      and le: "\<And>k. k < length ?js \<Longrightarrow> job_waiting (?js ! k) \<Longrightarrow> edf_key (?js ! b) \<le> edf_key (?js ! k)"
      and lt: "\<And>k. k < b \<Longrightarrow> job_waiting (?js ! k) \<Longrightarrow> edf_key (?js ! b) < edf_key (?js ! k)"
      using B by (auto simp: best_of_def job_before_edf not_less)
    have best: "edf_key (?js ! b) < edf_key (?js ! k) \<or> edf_key (?js ! b) = edf_key (?js ! k) \<and> b \<le> k"
      if "k < length ?js" "job_waiting (?js ! k)" for k
      using le [OF that] lt [of k] that by (cases "k < b") (auto simp: order_le_less)
    have "b = i" if "i < length ?js" "job_waiting (?js ! i)" "\<forall>k < length ?js. job_waiting (?js ! k) \<longrightarrow>
         edf_key (?js ! i) < edf_key (?js ! k) \<or> edf_key (?js ! i) = edf_key (?js ! k) \<and> i \<le> k"
      using best [OF that(1,2)] that(3) [rule_format, OF b] order.strict_trans by fastforce
    moreover have "\<exists>j \<in> set ?js. job_waiting j" using b nth_mem by blast
    ultimately show ?thesis using Some b best by auto
  qed
qed

theorem pick_is_priority_edf_fifo_witness: "pick_next_job (gv_inf demo_queued) = Some 0"
proof -
  have l: "length (in_jobs (gv_inf demo_queued)) = 1" "job_waiting (in_jobs (gv_inf demo_queued) ! 0)" by code_simp+
  show ?thesis using pick_is_priority_edf_fifo [of "gv_inf demo_queued" 0] l by simp
qed

text \<open>
  C25: while a residency change holds the gate no job runs and no step starts one, and a change that
  waits for the gate has a running job ahead of it whose drain is still to come, or the drain itself.
\<close>

theorem held_gate_stops_the_engine:
  fixes g :: "('p, 'h) isched"
  assumes "sched_reach free n g"
  shows "(gv_gate g = Gate_held \<longrightarrow> (\<forall>j \<in> set (in_jobs (gv_inf g)). jb_state j \<noteq> JOB_RUNNING) \<and>
      (\<forall>g'. sched_step free g g' \<longrightarrow> (\<forall>j \<in> set (in_jobs (gv_inf g')). jb_state j \<noteq> JOB_RUNNING))) \<and>
    (gv_gate g = Gate_waiting \<longrightarrow> in_drain_sem (gv_inf g) \<or> pc_running (gv_pc g) \<noteq> None \<or> pc_drains (gv_pc g))"
proof -
  have idle: "\<forall>j \<in> set (in_jobs (gv_inf x)). jb_state j \<noteq> JOB_RUNNING" if "sched_inv n x" "pc_running (gv_pc x) = None" for x :: "('p, 'h) isched"
    using that by (auto simp: sched_inv_def Let_def in_set_conv_nth)
  have I: "sched_inv n g" by (rule sched_reach_inv [OF assms])
  have pc: "pc_running (gv_pc g') = None" if h: "gv_gate g = Gate_held" and s: "sched_step free g g'" for g'
  proof -
    have no: "pc_running (gv_pc g) = None" "in_dispatch_paused (gv_inf g)" using I h by (simp_all add: sched_inv_def Let_def)
    from s show ?thesis by (rule sched_stepE) (use no in \<open>auto simp: sched_dispatch_def\<close>)
  qed
  have wait: "gv_gate g = Gate_waiting \<longrightarrow> in_drain_sem (gv_inf g) \<or> pc_running (gv_pc g) \<noteq> None \<or> pc_drains (gv_pc g)"
    and none: "gv_gate g = Gate_held \<longrightarrow> pc_running (gv_pc g) = None" using I by (simp_all add: sched_inv_def Let_def)
  have next': "\<forall>j \<in> set (in_jobs (gv_inf g')). jb_state j \<noteq> JOB_RUNNING" if "gv_gate g = Gate_held" "sched_step free g g'" for g'
    by (rule idle [OF sched_inv_step [OF that(2) I] pc [OF that]])
  show ?thesis using idle [OF I] none next' wait by simp
qed

definition demo_held :: "(unit, unit) isched" where
  "demo_held = demo_queued\<lparr>gv_inf := snd (quiesce_enter (gv_inf demo_queued)), gv_gate := Gate_held\<rparr>"

lemma demo_held_reach: "sched_reach free 1 demo_held"
proof -
  have q: "quiesce_enter (gv_inf demo_queued) = (False, snd (quiesce_enter (gv_inf demo_queued)))"
    by (simp add: quiesce_enter_def demo_queued_def demo_submit_def demo_boot_def) code_simp
  have "gv_gate demo_queued = Gate_open" by (simp add: demo_queued_def demo_submit_def demo_boot_def)
  from Step_quiesce [OF this q, of free] have "sched_step free demo_queued demo_held" by (simp add: demo_held_def)
  then show ?thesis by (rule Reach_step [OF demo_queued_reach])
qed

theorem held_gate_stops_the_engine_witness:
  "gv_gate demo_held = Gate_held \<and> waiting_count (gv_inf demo_held) = 1 \<and> jb_state (in_jobs (gv_inf demo_held) ! 0) \<noteq> JOB_RUNNING"
proof -
  have h: "gv_gate demo_held = Gate_held" "length (in_jobs (gv_inf demo_held)) = 1" "waiting_count (gv_inf demo_held) = 1" by code_simp+
  then have "\<forall>j \<in> set (in_jobs (gv_inf demo_held)). jb_state j \<noteq> JOB_RUNNING"
    using held_gate_stops_the_engine [OF demo_held_reach [of "\<lambda>_ h. h"]] by blast
  then show ?thesis using h by simp
qed

section \<open>Two races of the code\<close>

text \<open>The trace of one job whose result is polled between its completion and its report.\<close>

definition demo_woken :: "(unit, unit) isched" where
  "demo_woken = demo_queued\<lparr>gv_inf := (gv_inf demo_queued)\<lparr>in_sched_wake := 0\<rparr>, gv_pc := Woken\<rparr>"

definition demo_running :: "(unit, unit) isched" where
  "demo_running = demo_woken\<lparr>gv_inf := snd (sched_dispatch (gv_inf demo_woken)), gv_pc := Running 0\<rparr>"

definition demo_done :: "(unit, unit) isched" where
  "demo_done = demo_running\<lparr>gv_inf := snd (sched_complete id 0 0 (Ok ()) (gv_inf demo_running)), gv_pc := Reporting False 0\<rparr>"

definition demo_polled :: "(unit, unit) isched" where
  "demo_polled = demo_done\<lparr>gv_inf := snd (snd (syn_infer_get_result 1 True (gv_inf demo_done)))\<rparr>"

definition demo_reported :: "(unit, unit) isched" where
  "demo_reported = (demo_submit demo_polled)\<lparr>gv_inf := sched_report False 0 (gv_inf (demo_submit demo_polled)), gv_pc := Asleep\<rparr>"

lemma demo_running_reach: "sched_reach free 1 demo_running"
proof -
  have "sched_step free demo_queued demo_woken"
    unfolding demo_woken_def by (rule Step_take) code_simp+
  moreover have "sched_step free demo_woken demo_running"
  proof -
    have "fst (sched_dispatch (gv_inf demo_woken)) = Some 0" by code_simp
    then have d: "sched_dispatch (gv_inf demo_woken) = (Some 0, snd (sched_dispatch (gv_inf demo_woken)))" by (metis prod.collapse)
    have "gv_pc demo_woken = Woken" by (simp add: demo_woken_def)
    from Step_dispatch [OF this d, of free] show ?thesis by (simp add: demo_running_def)
  qed
  ultimately show ?thesis using demo_queued_reach Reach_step by blast
qed

lemma demo_reported_reach: "sched_reach free 1 demo_reported"
proof -
  have d: "sched_complete id 0 0 (Ok ()) (gv_inf demo_running) = (False, snd (sched_complete id 0 0 (Ok ()) (gv_inf demo_running)))"
    by (rule prod_eqI) (simp, code_simp, simp)
  have "gv_pc demo_running = Running 0" by (simp add: demo_running_def)
  from Step_complete [OF this d, of free] have 1: "sched_step free demo_running demo_done" by (simp add: demo_done_def)
  obtain r x where "syn_infer_get_result 1 True (gv_inf demo_done) = (r, x, gv_inf demo_polled)"
    by (cases "syn_infer_get_result 1 True (gv_inf demo_done)") (auto simp: demo_polled_def)
  from Step_get_result [OF this, of free] have 2: "sched_step free demo_done demo_polled" by (simp add: demo_polled_def)
  have 3: "sched_reach free 1 (demo_submit demo_polled)"
    by (rule demo_submit_reach [OF Reach_step [OF Reach_step [OF demo_running_reach 1] 2]]) code_simp+
  have "gv_pc (demo_submit demo_polled) = Reporting False 0" by (simp add: demo_submit_def demo_polled_def demo_done_def)
  from Step_report [OF this, of free] have "sched_step free (demo_submit demo_polled) demo_reported" by (simp add: demo_reported_def)
  with 3 show ?thesis by (rule Reach_step)
qed

text \<open>
  A wait may return before its job ran. The scheduler gives the done semaphore after it has left
  the lock, so when the finished job is polled and its slot reused in between, the late give lands on
  the new job: the wait for the new job, still queued, returns \<open>EINPROGRESS\<close> at once.
\<close>

theorem wait_returns_before_the_job_ran:
  "\<exists>g :: (unit, unit) isched. sched_reach (\<lambda>_ h. h) 1 g \<and> jb_state (in_jobs (gv_inf g) ! 0) = JOB_QUEUED \<and>
     jb_id (in_jobs (gv_inf g) ! 0) = 2 \<and> syn_infer_wait False 2 (gv_inf g) = Some (Err EINPROGRESS)"
proof -
  have "jb_state (in_jobs (gv_inf demo_reported) ! 0) = JOB_QUEUED" "jb_id (in_jobs (gv_inf demo_reported) ! 0) = 2"
    "syn_infer_wait False 2 (gv_inf demo_reported) = Some (Err EINPROGRESS)" by code_simp+
  then show ?thesis using demo_reported_reach by blast
qed

lemma destroy_loop_other:
  "destroy_loop free p is (s, h) = (s1, h1) \<Longrightarrow> i \<notin> set is \<Longrightarrow> in_jobs s1 ! i = in_jobs s ! i"
proof (induction "is" arbitrary: s h)
  case (Cons k "is")
  from Cons.prems Cons.IH show ?case
    by (auto simp: Let_def cancel_job_def set_job_def split: if_split_asm)
qed simp

lemma destroy_loop_suspended:
  "destroy_loop free p is (s, h) = (s1, h1) \<Longrightarrow> distinct is \<Longrightarrow> i \<in> set is \<Longrightarrow> i < length (in_jobs s) \<Longrightarrow>
     jb_state (in_jobs s ! i) = JOB_SUSPENDED \<Longrightarrow> jb_pipe (in_jobs s ! i) \<noteq> Some p \<Longrightarrow>
     in_jobs s1 ! i = (in_jobs s ! i)\<lparr>jb_ctx_slot := - 1\<rparr>"
proof (induction "is" arbitrary: s h)
  case (Cons k "is")
  show ?case
  proof (cases "k = i")
    case True
    have "destroy_loop free p is (set_job i (\<lambda>j. j\<lparr>jb_ctx_slot := - 1\<rparr>) s, free (jb_ctx_slot (in_jobs s ! i)) h) = (s1, h1)"
      using Cons.prems True by (simp add: Let_def)
    then show ?thesis using destroy_loop_other [of free p "is" _ _ s1 h1 i] Cons.prems True by (simp add: nth_set_job)
  next
    case False
    from Cons.prems(1) obtain s2 h2 where d: "destroy_loop free p is (s2, h2) = (s1, h1)"
      and e: "in_jobs s2 ! i = in_jobs s ! i" "length (in_jobs s2) = length (in_jobs s)"
      using False by (simp add: Let_def cancel_job_def set_job_def split: if_split_asm)
    from Cons.IH [OF d] show ?thesis using Cons.prems False e by simp
  qed
qed simp

text \<open>The loop frees the context slot of every suspended job of the table.\<close>

lemma slot_free_keeps_free:
  "lc_model (ly_slots h ! c) = None \<Longrightarrow> lc_model (ly_slots (syn_npu_layered_slot_free k h) ! c) = None"
  by (cases "nat k = c"; cases "c < length (ly_slots h)") (simp_all add: syn_npu_layered_slot_free_def not_less list_update_beyond)

lemma slot_free_length [simp]: "length (ly_slots (syn_npu_layered_slot_free k h)) = length (ly_slots h)"
  by (simp add: syn_npu_layered_slot_free_def)

lemma destroy_loop_keeps_free:
  "destroy_loop syn_npu_layered_slot_free p is (s, h) = (s1, h1) \<Longrightarrow> lc_model (ly_slots h ! c) = None \<Longrightarrow>
     lc_model (ly_slots h1 ! c) = None"
proof (induction "is" arbitrary: s h)
  case (Cons k "is")
  from Cons.prems Cons.IH slot_free_keeps_free [of h c] show ?case
    by (auto simp: Let_def split: if_split_asm)
qed simp

lemma destroy_loop_frees:
  "destroy_loop syn_npu_layered_slot_free p is (s, h) = (s1, h1) \<Longrightarrow> distinct is \<Longrightarrow> i \<in> set is \<Longrightarrow>
     jb_state (in_jobs s ! i) = JOB_SUSPENDED \<Longrightarrow> jb_ctx_slot (in_jobs s ! i) = int c \<Longrightarrow> c < SYN_LAYERED_CTX_SLOTS \<Longrightarrow>
     length (ly_slots h) = SYN_LAYERED_CTX_SLOTS \<Longrightarrow> lc_model (ly_slots h1 ! c) = None"
proof (induction "is" arbitrary: s h)
  case (Cons k "is")
  show ?case
  proof (cases "k = i")
    case True
    have "lc_model (ly_slots (syn_npu_layered_slot_free (int c) h) ! c) = None"
      using Cons.prems by (simp add: syn_npu_layered_slot_free_def)
    then show ?thesis using Cons.prems True by (auto simp: Let_def dest: destroy_loop_keeps_free split: if_split_asm)
  next
    case False
    from Cons.prems(1) obtain s2 h2 where d: "destroy_loop syn_npu_layered_slot_free p is (s2, h2) = (s1, h1)"
      and e: "in_jobs s2 ! i = in_jobs s ! i" "length (ly_slots h2) = length (ly_slots h)"
      using False by (simp add: Let_def cancel_job_def set_job_def split: if_split_asm)
    from Cons.IH [OF d] show ?thesis using Cons.prems False e by simp
  qed
qed simp

text \<open>
  C39: destroying a pipeline breaks the suspended jobs of every other one. The job stays suspended,
  its context slot in the backend is free for the next save and forgotten by the job, and the
  restore of its resume is refused.
\<close>

theorem destroy_strands_foreign_jobs:
  assumes "pipeline_valid (Some p) s" "i < length (in_jobs s)" "jb_state (in_jobs s ! i) = JOB_SUSPENDED"
    and "jb_pipe (in_jobs s ! i) = Some q" "q \<noteq> p"
    and "jb_ctx_slot (in_jobs s ! i) = int c" "c < SYN_LAYERED_CTX_SLOTS" "length (ly_slots h) = SYN_LAYERED_CTX_SLOTS"
    and "syn_pipeline_destroy syn_npu_layered_slot_free (Some p) (s, h) = (s1, h1)"
  shows "lc_model (ly_slots h1 ! c) = None \<and> in_jobs s1 ! i = (in_jobs s ! i)\<lparr>jb_ctx_slot := - 1\<rparr> \<and>
    syn_npu_layered_restore act_max plan_max blob us (jb_ctx_slot (in_jobs s1 ! i)) ly = (Err EINVAL, ly)"
proof -
  obtain s2 where d: "destroy_loop syn_npu_layered_slot_free p [0..<length (in_jobs s)] (s, h) = (s2, h1)"
    and s1: "in_jobs s1 = in_jobs s2"
    using assms(1,9) by (auto simp: syn_pipeline_destroy_def set_pipe_def split: prod.split_asm)
  have "in_jobs s2 ! i = (in_jobs s ! i)\<lparr>jb_ctx_slot := - 1\<rparr>"
    by (rule destroy_loop_suspended [OF d]) (use assms in simp_all)
  moreover have "lc_model (ly_slots h1 ! c) = None"
    by (rule destroy_loop_frees [OF d, of i]) (use assms in simp_all)
  ultimately show ?thesis using s1 by (simp add: syn_npu_layered_restore_def)
qed

definition demo_suspended :: "unit infer" where
  "demo_suspended = snd (sched_suspend 0 (set_job 0 (\<lambda>j. j\<lparr>jb_ctx_slot := 1\<rparr>) (gv_inf demo_running)))"

definition demo_slots :: layered where
  "demo_slots = demo_layered\<lparr>ly_slots := (ly_slots demo_layered)[1 := (ly_slots demo_layered ! 1)\<lparr>lc_model := Some 0\<rparr>]\<rparr>"

theorem destroy_strands_foreign_jobs_witness:
  "lc_model (ly_slots demo_slots ! 1) = Some 0 \<and> jb_ctx_slot (in_jobs demo_suspended ! 0) = 1 \<and>
   (\<exists>s1 h1. syn_pipeline_destroy syn_npu_layered_slot_free (Some 1) (demo_suspended, demo_slots) = (s1, h1) \<and>
      lc_model (ly_slots h1 ! 1) = None \<and>
      in_jobs s1 ! 0 = (in_jobs demo_suspended ! 0)\<lparr>jb_ctx_slot := - 1\<rparr> \<and> jb_state (in_jobs s1 ! 0) = JOB_SUSPENDED)"
proof -
  have h: "pipeline_valid (Some 1) demo_suspended" "0 < length (in_jobs demo_suspended)"
    "jb_state (in_jobs demo_suspended ! 0) = JOB_SUSPENDED" "jb_pipe (in_jobs demo_suspended ! 0) = Some 0"
    "jb_ctx_slot (in_jobs demo_suspended ! 0) = 1" by code_simp+
  have l: "length (ly_slots demo_slots) = SYN_LAYERED_CTX_SLOTS" "lc_model (ly_slots demo_slots ! 1) = Some 0"
    by (simp_all add: demo_slots_def demo_layered_def replicate_num)
  obtain s1 h1 where d: "syn_pipeline_destroy syn_npu_layered_slot_free (Some 1) (demo_suspended, demo_slots) = (s1, h1)"
    by fastforce
  show ?thesis using destroy_strands_foreign_jobs [OF h(1-4) _ _ _ l(1) d, of 1] d h l(2) by simp
qed

section \<open>The form of a pipeline\<close>

fun stage_is_model :: "'p pipeline_stage \<Rightarrow> bool" where
  "stage_is_model STAGE_MODEL = True"
| "stage_is_model _ = False"

definition pipeline_form :: "nat \<Rightarrow> 'p pipeline \<Rightarrow> bool" where
  "pipeline_form max_stages p \<longleftrightarrow> length (pl_stages p) \<le> max_stages \<and>
     (if pl_model p = SYN_MODEL_INVALID then \<not> pl_built p \<and> (\<forall>st \<in> set (pl_stages p). stage_is_pre st)
      else \<exists>pre post. pl_stages p = pre @ [STAGE_MODEL] @ post \<and> (\<forall>st \<in> set pre. stage_is_pre st) \<and> (\<forall>st \<in> set post. stage_is_post st))"

datatype 'p pipe_op = Create "u8 list option" | Add_pre "nat option" "'p stage_fn option"
  | Add_model "nat option" nat | Add_post "nat option" "'p stage_fn option" | Build "nat option" | Destroy "nat option"

fun pipe_call :: "nat \<Rightarrow> (int \<Rightarrow> 'h \<Rightarrow> 'h) \<Rightarrow> 'r registry \<Rightarrow> 'p pipe_op \<Rightarrow> 'p infer \<times> 'h \<Rightarrow> 'p infer \<times> 'h" where
  "pipe_call ms free g (Create name) (s, h) = (snd (syn_pipeline_create name s), h)"
| "pipe_call ms free g (Add_pre p fn) (s, h) = (snd (syn_pipeline_add_preprocess ms p fn s), h)"
| "pipe_call ms free g (Add_model p m) (s, h) = (snd (syn_pipeline_add_model ms g p m s), h)"
| "pipe_call ms free g (Add_post p fn) (s, h) = (snd (syn_pipeline_add_postprocess ms p fn s), h)"
| "pipe_call ms free g (Build p) (s, h) = (snd (syn_pipeline_build g p s), h)"
| "pipe_call ms free g (Destroy p) (s, h) = syn_pipeline_destroy free p (s, h)"

definition pipes_ok :: "nat \<Rightarrow> 'p infer \<Rightarrow> bool" where
  "pipes_ok ms s \<longleftrightarrow> length (in_pipelines s) = SYN_MAX_PIPELINES \<and> (\<forall>p \<in> set (in_pipelines s). pipeline_form ms p)"

lemma pipes_ok_set:
  "pipes_ok ms s \<Longrightarrow> pipeline_form ms (u (in_pipelines s ! i)) \<Longrightarrow> pipes_ok ms (set_pipe i u s)"
  by (auto simp: pipes_ok_def set_pipe_def dest!: set_update_subset_insert [THEN subsetD])

lemma pipes_ok_nth: "pipes_ok ms s \<Longrightarrow> pipeline_valid p s \<Longrightarrow> pipeline_form ms (in_pipelines s ! the p)"
  by (auto simp: pipes_ok_def pipeline_valid_def split: option.split_asm)

lemma destroy_loop_pipelines: "destroy_loop free p is (s, h) = (s1, h1) \<Longrightarrow> in_pipelines s1 = in_pipelines s"
proof (induction "is" arbitrary: s h)
  case (Cons k "is")
  from Cons.prems Cons.IH show ?case
    by (fastforce simp: Let_def cancel_job_def split: if_split_asm)
qed simp

lemma form_model:
  "pl_model q \<noteq> SYN_MODEL_INVALID \<Longrightarrow> length (pl_stages q) \<le> ms \<Longrightarrow> pl_stages q = pre @ [STAGE_MODEL] @ post \<Longrightarrow>
     \<forall>st \<in> set pre. stage_is_pre st \<Longrightarrow> \<forall>st \<in> set post. stage_is_post st \<Longrightarrow> pipeline_form ms q"
  unfolding pipeline_form_def by (simp only: if_False) blast

lemma form_create: "pipeline_form ms \<lparr>pl_in_use = True, pl_built = False, pl_name = n, pl_model = SYN_MODEL_INVALID, pl_stages = [], pl_mem_estimate = 0\<rparr>"
  by (simp add: pipeline_form_def)

lemma form_add:
  assumes "pipeline_form ms p" "length (pl_stages p) < ms" "stage_is_pre st \<or> stage_is_post st"
    and "\<not> (stage_is_pre st \<and> pl_model p \<noteq> SYN_MODEL_INVALID \<or> stage_is_post st \<and> pl_model p = SYN_MODEL_INVALID)"
  shows "pipeline_form ms (p\<lparr>pl_stages := pl_stages p @ [st]\<rparr>)"
proof (cases "pl_model p = SYN_MODEL_INVALID")
  case True
  then show ?thesis using assms by (auto simp: pipeline_form_def)
next
  case False
  then obtain pre post where "pl_stages p = pre @ [STAGE_MODEL] @ post" "\<forall>st \<in> set pre. stage_is_pre st" "\<forall>st \<in> set post. stage_is_post st"
    using assms(1) by (auto simp: pipeline_form_def)
  moreover have "stage_is_post st" using assms(3,4) False by blast
  ultimately show ?thesis using assms(2) False by (intro form_model [of _ _ pre "post @ [st]"]) auto
qed

lemma form_add_model:
  assumes "pipeline_form ms p" "length (pl_stages p) < ms" "pl_model p = SYN_MODEL_INVALID" "m \<noteq> SYN_MODEL_INVALID"
  shows "pipeline_form ms (p\<lparr>pl_stages := pl_stages p @ [STAGE_MODEL], pl_model := m\<rparr>)"
  using assms by (intro form_model [of _ _ "pl_stages p" "[]"]) (auto simp: pipeline_form_def)

lemma form_build: "pipeline_form ms p \<Longrightarrow> pl_model p \<noteq> SYN_MODEL_INVALID \<Longrightarrow> pipeline_form ms (p\<lparr>pl_mem_estimate := e, pl_built := True\<rparr>)"
  by (simp add: pipeline_form_def)

lemma pipes_ok_add:
  assumes "pipes_ok ms s" "\<And>fn. stage_is_pre (mk fn) \<or> stage_is_post (mk fn)"
  shows "pipes_ok ms (snd (pipeline_add_stage ms p mk fn s))"
  using assms pipes_ok_nth
  by (auto simp: pipeline_add_stage_def Let_def intro!: pipes_ok_set form_add split: if_split_asm)

lemma pipes_ok_call:
  assumes "pipes_ok ms s"
  shows "pipes_ok ms (fst (pipe_call ms free g c (s, h)))"
proof (cases c)
  case (Create name)
  then show ?thesis using assms
    by (auto simp: syn_pipeline_create_def intro!: pipes_ok_set form_create split: option.split)
next
  case (Add_pre p fn)
  then show ?thesis using assms by (auto simp: syn_pipeline_add_preprocess_def intro!: pipes_ok_add)
next
  case (Add_post p fn)
  then show ?thesis using assms by (auto simp: syn_pipeline_add_postprocess_def intro!: pipes_ok_add)
next
  case (Add_model p m)
  then show ?thesis using assms pipes_ok_nth
    by (auto simp: syn_pipeline_add_model_def Let_def intro!: pipes_ok_set form_add_model split: if_split_asm)
next
  case (Build p)
  then show ?thesis using assms pipes_ok_nth [OF assms]
    by (auto simp: syn_pipeline_build_def Let_def intro!: pipes_ok_set form_build split: if_split_asm prod.split sum.split)
next
  case (Destroy p)
  show ?thesis
  proof (cases "pipeline_valid p s")
    case True
    obtain s1 h1 where d: "destroy_loop free (the p) [0..<length (in_jobs s)] (s, h) = (s1, h1)" by fastforce
    then have "pipes_ok ms s1" using destroy_loop_pipelines [OF d] assms by (simp add: pipes_ok_def)
    then have "pipes_ok ms (set_pipe (the p) (\<lambda>p. p\<lparr>pl_in_use := False, pl_built := False, pl_stages := [], pl_model := SYN_MODEL_INVALID\<rparr>) s1)"
      by (rule pipes_ok_set) (simp add: pipeline_form_def)
    then show ?thesis using Destroy True d by (simp add: syn_pipeline_destroy_def)
  qed (use Destroy assms in \<open>simp add: syn_pipeline_destroy_def\<close>)
qed

text \<open>
  C34: every pipeline built by any sequence of calls has preprocessing stages, then the one model
  stage, then postprocessing stages, at most the configured number, and only with a model is it
  built; so execution meets the model stage exactly once.
\<close>

theorem pipelines_are_well_formed:
  "\<forall>p \<in> set (in_pipelines (fst (fold (pipe_call ms free g) calls (boot_infer n, h)))). pipeline_form ms p"
proof -
  have "pipes_ok ms (fst (fold (pipe_call ms free g) calls sh))" if "pipes_ok ms (fst sh)" for sh :: "'a infer \<times> 'b"
    using that
  proof (induction calls arbitrary: sh)
    case (Cons c cs)
    have "pipes_ok ms (fst (pipe_call ms free g c (fst sh, snd sh)))" by (rule pipes_ok_call [OF Cons.prems])
    then show ?case using Cons.IH by simp
  qed simp
  moreover have "pipes_ok ms (boot_infer n :: 'a infer)"
    by (simp add: pipes_ok_def boot_infer_def free_pipeline_def pipeline_form_def)
  ultimately have "pipes_ok ms (fst (fold (pipe_call ms free g) calls (boot_infer n, h)))" by simp
  then show ?thesis by (simp add: pipes_ok_def)
qed

definition demo_calls :: "unit pipe_op list" where
  "demo_calls = [Create None, Add_pre (Some 0) (Some Image_Normalize), Add_model (Some 0) 1, Add_post (Some 0) (Some Argmax), Build (Some 0)]"

definition demo_built :: "unit infer" where
  "demo_built = fst (fold (pipe_call 8 (\<lambda>_ h. h) demo_reg1) demo_calls (boot_infer 4, ()))"

theorem pipelines_are_well_formed_witness:
  "pl_built (in_pipelines demo_built ! 0) \<and> length (pl_stages (in_pipelines demo_built ! 0)) = 3 \<and>
   pipeline_form 8 (in_pipelines demo_built ! 0)"
proof -
  have "length (in_pipelines demo_built) = 4" "pl_built (in_pipelines demo_built ! 0)"
    "length (pl_stages (in_pipelines demo_built ! 0)) = 3" by code_simp+
  moreover from this have "in_pipelines demo_built ! 0 \<in> set (in_pipelines demo_built)" by (intro nth_mem) simp
  moreover have "\<forall>p \<in> set (in_pipelines demo_built). pipeline_form 8 p"
    unfolding demo_built_def by (rule pipelines_are_well_formed)
  ultimately show ?thesis by blast
qed

end
