(* ===== verification/Infer_Exec.thy ===== *)
theory Infer_Exec
  imports Infer_Safety
begin

text \<open>
  What the scheduler thread of \<open>src/core/syn_infer.c\<close> does outside its lock: it runs the stages of a
  pipeline, and a layered model layer by layer with a preemption check at every boundary. The build
  is the one with the software NPU backend. The clocks, the processors of the stages and the other
  threads come as an environment: \<open>ev_others\<close> is what the other threads did to the job table and to
  the suspension slots between two layers; every clock read takes the next number \<open>ex_t\<close>. The
  stages of the pipeline are read once: nobody destroys or rebuilds it while its job runs (the code
  does not prevent it).
\<close>

section \<open>State and environment\<close>

record 'p exec =
  ex_inf :: "'p infer"
  ex_reg :: "npu_stub registry"
  ex_mem :: mem_arena
  ex_prof :: profiler
  ex_health :: health
  ex_t :: nat

record 'p exec_env =
  ev_cyc :: "nat \<Rightarrow> u32"
  ev_now :: "nat \<Rightarrow> int"
  ev_us :: "u32 \<Rightarrow> u32"
  ev_plan_us :: "nat \<Rightarrow> u32"
  ev_others :: "nat \<Rightarrow> 'p infer \<times> layered_ctx list \<Rightarrow> 'p infer \<times> layered_ctx list"
  ev_stage :: "'p stage_fn \<Rightarrow> itensor \<Rightarrow> itensor \<Rightarrow> unit res \<times> itensor"
  ev_act_max :: nat
  ev_plan_max :: nat
  ev_blob :: "nat \<Rightarrow> u8 list"
  ev_crc :: crc_fn
  ev_rd :: mem_view
  ev_tensor_sz :: u32

definition ex_ly :: "'p exec \<Rightarrow> layered" where
  "ex_ly w = ns_layered (rg_hal (ex_reg w))"

definition put_ly :: "layered \<Rightarrow> 'p exec \<Rightarrow> 'p exec" where
  "put_ly ly w = w\<lparr>ex_reg := (ex_reg w)\<lparr>rg_hal := (rg_hal (ex_reg w))\<lparr>ns_layered := ly\<rparr>\<rparr>\<rparr>"

definition ex_job :: "nat \<Rightarrow> 'p exec \<Rightarrow> infer_job" where
  "ex_job i w = in_jobs (ex_inf w) ! i"

definition upd_job :: "nat \<Rightarrow> (infer_job \<Rightarrow> infer_job) \<Rightarrow> 'p exec \<Rightarrow> 'p exec" where
  "upd_job i u w = w\<lparr>ex_inf := set_job i u (ex_inf w)\<rparr>"

definition tick :: "'p exec \<Rightarrow> 'p exec" where
  "tick w = w\<lparr>ex_t := ex_t w + 1\<rparr>"

definition others :: "'p exec_env \<Rightarrow> 'p exec \<Rightarrow> 'p exec" where
  "others E w =
     (let (s, sl) = ev_others E (ex_t w) (ex_inf w, ly_slots (ex_ly w))
      in put_ly ((ex_ly w)\<lparr>ly_slots := sl\<rparr>) (w\<lparr>ex_inf := s\<rparr>))"

definition kick :: "'p exec_env \<Rightarrow> 'p exec \<Rightarrow> 'p exec" where
  "kick E w = tick (w\<lparr>ex_health := syn_health_kick (ev_now E (ex_t w)) (in_health_id (ex_inf w)) (ex_health w)\<rparr>)"

definition mark :: "'p exec_env \<Rightarrow> (u32 \<Rightarrow> profiler \<Rightarrow> profiler) \<Rightarrow> 'p exec \<Rightarrow> 'p exec" where
  "mark E m w = tick (w\<lparr>ex_prof := m (ev_cyc E (ex_t w)) (ex_prof w)\<rparr>)"

section \<open>Stage buffers\<close>

text \<open>
  The output dtype of a model is an enumerator of \<open>syn_npu_dtype_t\<close>; a number that is none of them
  is not told apart here, no operation of this file reads it.
\<close>

definition dtype_of :: "u32 \<Rightarrow> syn_npu_dtype" where
  "dtype_of n = (if n = 1 then SYN_NPU_DTYPE_UINT8 else if n = 2 then SYN_NPU_DTYPE_INT16
     else if n = 3 then SYN_NPU_DTYPE_FLOAT16 else if n = 4 then SYN_NPU_DTYPE_FLOAT32 else SYN_NPU_DTYPE_INT8)"

text \<open>
  \<open>sizeof (float)\<close> is 4 and a classification has 8 bytes. A frame length of 0 divides by zero in
  the code; the word division here gives 0, as the core does with its trap off.
\<close>

definition builtin_stage_capacity :: "'p pipeline_stage \<Rightarrow> itensor \<Rightarrow> u32" where
  "builtin_stage_capacity s tin =
     (case s of
        STAGE_PREPROCESS fn \<Rightarrow>
          (case fn of
             Image_Resize (Some (w, h)) \<Rightarrow> ucast w * ucast h * (if tn_ndim tin = 4 then tn_shape tin ! 3 else 1)
           | Image_Normalize \<Rightarrow> tn_size tin * 4
           | Quantize_Int8 \<Rightarrow> tn_size tin div 4
           | Audio_Mfcc (Some (frame_len, num_coeffs)) \<Rightarrow> tn_size tin div 4 div ucast frame_len * ucast num_coeffs * 4
           | _ \<Rightarrow> 0)
      | STAGE_POSTPROCESS fn \<Rightarrow>
          (case fn of
             Softmax \<Rightarrow> (if tn_dtype tin = SYN_NPU_DTYPE_FLOAT32 then tn_size tin else tn_size tin * 4)
           | Argmax \<Rightarrow> 8
           | Top_K (Some k) \<Rightarrow> ucast k * 8
           | Nms \<Rightarrow> tn_size tin
           | Dequantize \<Rightarrow> tn_size tin * 4
           | _ \<Rightarrow> 0)
      | STAGE_MODEL \<Rightarrow> 0)"

text \<open>A fresh buffer has no content yet.\<close>

definition alloc_stage_output :: "'p exec_env \<Rightarrow> u32 \<Rightarrow> 'p exec \<Rightarrow> itensor option \<times> 'p exec" where
  "alloc_stage_output E capacity w =
     (let (r, m) = syn_mem_tensor_alloc (ev_tensor_sz E) (Some [capacity]) 1 SYN_NPU_DTYPE_INT8 SYN_MEM_EPHEMERAL (ex_mem w)
      in (map_option (\<lambda>(_, t). syn_tensor.extend t \<lparr>tn_bytes = []\<rparr>) r, w\<lparr>ex_mem := m\<rparr>))"

definition output_cap :: "syn_model_info \<Rightarrow> u32" where
  "output_cap info = (if mi_output_size info < of_nat STAGE_MIN_CAPACITY then of_nat STAGE_MIN_CAPACITY else mi_output_size info)"

definition fill_output :: "syn_model_info \<Rightarrow> u8 list \<Rightarrow> itensor \<Rightarrow> itensor" where
  "fill_output info bytes t = t\<lparr>tn_size := of_nat (length bytes), tn_dtype := dtype_of (mi_output_dtype info), tn_ndim := 1,
     tn_shape := (tn_shape t)[0 := of_nat (length bytes)], tn_bytes := bytes\<rparr>"

section \<open>The model stage\<close>

datatype leg = Leg_done itensor | Leg_monolithic | Leg_preempted | Leg_failed errno

definition park :: "'p exec_env \<Rightarrow> nat \<Rightarrow> nat \<Rightarrow> u32 \<Rightarrow> 'p exec \<Rightarrow> 'p exec" where
  "park E i slot t0 w =
     (let save_us = ev_us E (ev_cyc E (ex_t w) - t0);
          w1 = upd_job i (\<lambda>j. j\<lparr>jb_ctx_slot := int slot\<rparr>) (tick w)
      in w1\<lparr>ex_inf := set_stats (\<lambda>t. t\<lparr>is_last_save_us := save_us,
           is_max_save_us := (if save_us > is_max_save_us t then save_us else is_max_save_us t)\<rparr>) (ex_inf w1)\<rparr>)"

text \<open>
  The \<open>while\<close> of \<open>execute_layered\<close>: \<open>None\<close> when all layers ran. A context save that finds no slot
  only goes on. Every round of the loop that does not leave it has run one more layer.
\<close>

definition boundary :: "'p exec_env \<Rightarrow> layered \<Rightarrow> 'p exec \<Rightarrow> 'p exec" where
  "boundary E ly w = others E (kick E (put_ly ly w))"

lemma ex_ly_put [simp]: "ex_ly (put_ly ly w) = ly"
  by (simp add: ex_ly_def put_ly_def)

lemma ex_ly_more [simp]: "ex_ly (tick w) = ex_ly w" "ex_ly (upd_job i u w) = ex_ly w" "ex_ly (w\<lparr>ex_inf := s\<rparr>) = ex_ly w"
  "ex_ly (kick E w) = ex_ly w" "ex_ly (w\<lparr>ex_mem := m\<rparr>) = ex_ly w" "ex_ly (mark E f w) = ex_ly w"
  by (simp_all add: ex_ly_def tick_def upd_job_def kick_def mark_def)

lemma boundary_ly: "ly_plan (ex_ly (boundary E ly w)) = ly_plan ly \<and> ly_next (ex_ly (boundary E ly w)) = ly_next ly \<and>
    ly_area (ex_ly (boundary E ly w)) = ly_area ly \<and> ly_active (ex_ly (boundary E ly w)) = ly_active ly"
  by (simp add: boundary_def others_def split: prod.split)

lemma step_progress:
  assumes "syn_npu_layered_step st = (Ok r, st')"
  shows "ly_next st < mp_layer_count (ly_plan st)" "ly_plan st' = ly_plan st" "ly_next st' = Suc (ly_next st)"
    "r = mp_layer_count (ly_plan st) - Suc (ly_next st)"
  using assms by (auto simp: syn_npu_layered_step_def Let_def split: if_split_asm)

lemma save_keeps:
  assumes "syn_npu_layered_save st = (r, st')"
  shows "ly_plan st' = ly_plan st" "ly_next st' = ly_next st" "r = Err e \<Longrightarrow> st' = st"
  using assms by (auto simp: syn_npu_layered_save_def Let_def split: if_split_asm option.split_asm)

lemma step_measure:
  "(Ok r, st') = syn_npu_layered_step st \<Longrightarrow>
     mp_layer_count (ly_plan st') - ly_next st' < mp_layer_count (ly_plan st) - ly_next st"
  using step_progress [of st r st'] by simp

function layered_loop :: "'p exec_env \<Rightarrow> nat \<Rightarrow> nat \<Rightarrow> 'p exec \<Rightarrow> leg option \<times> 'p exec" where
  "layered_loop E i rem w =
     (if rem = 0 then (None, w)
      else (case syn_npu_layered_step (ex_ly w) of
              (Inl e, ly) \<Rightarrow> (Some (Leg_failed e), put_ly ly w)
            | (Inr rem', ly) \<Rightarrow>
                let w1 = boundary E ly w in
                if rem' > 0 \<and> ip_preemptible (jb_params (ex_job i w1)) \<and> preempt_pending (ex_job i w1) (ex_inf w1)
                then (case syn_npu_layered_save (ex_ly w1) of
                        (Inl _, _) \<Rightarrow> layered_loop E i rem' (tick w1)
                      | (Inr slot, ly2) \<Rightarrow> (Some Leg_preempted, park E i slot (ev_cyc E (ex_t w1)) (put_ly ly2 (tick w1))))
                else layered_loop E i rem' w1))"
  by pat_completeness auto
termination
  by (relation "measure (\<lambda>(E, i, rem, w). mp_layer_count (ly_plan (ex_ly w)) - ly_next (ex_ly w))")
     (auto simp: boundary_ly intro: step_measure)

declare layered_loop.simps [simp del]

definition finish_layered :: "'p exec_env \<Rightarrow> syn_model_info \<Rightarrow> 'p exec \<Rightarrow> leg \<times> 'p exec" where
  "finish_layered E info w =
     (case alloc_stage_output E (output_cap info) w of
        (None, w1) \<Rightarrow> (Leg_failed ENOMEM, w1)
      | (Some t, w1) \<Rightarrow>
          (case syn_npu_layered_output True (Some (unat (tn_size t))) (ex_ly w1) of
             (Inl e, ly) \<Rightarrow> (Leg_failed e, put_ly ly w1)
           | (Inr bytes, ly) \<Rightarrow> (Leg_done (fill_output info bytes t), put_ly ly w1)))"

definition run_layered :: "'p exec_env \<Rightarrow> nat \<Rightarrow> syn_model_info \<Rightarrow> nat \<Rightarrow> 'p exec \<Rightarrow> leg \<times> 'p exec" where
  "run_layered E i info rem w =
     (case layered_loop E i rem w of (Some l, w1) \<Rightarrow> (l, w1) | (None, w1) \<Rightarrow> finish_layered E info w1)"

text \<open>A negative count of remaining layers skips the loop.\<close>

definition execute_layered :: "'p exec_env \<Rightarrow> nat \<Rightarrow> syn_model_info \<Rightarrow> itensor \<Rightarrow> 'p exec \<Rightarrow> leg \<times> 'p exec" where
  "execute_layered E i info tin w =
     (if jb_resuming (ex_job i w) then
        let w1 = upd_job i (\<lambda>j. j\<lparr>jb_resuming := False\<rparr>) w in
        (case syn_npu_layered_restore (ev_act_max E) (ev_plan_max E) (ev_blob E) (ev_plan_us E (ex_t w1))
                (jb_ctx_slot (ex_job i w1)) (ex_ly w1) of
           (Inl e, ly) \<Rightarrow> (Leg_failed e, put_ly ly w1)
         | (Inr _, ly) \<Rightarrow>
             run_layered E i info (case syn_npu_layered_remaining ly of Inr n \<Rightarrow> n | Inl _ \<Rightarrow> 0)
               (put_ly ly (upd_job i (\<lambda>j. j\<lparr>jb_ctx_slot := - 1\<rparr>) w1)))
      else
        (case syn_npu_layered_begin (ev_act_max E) (ev_plan_max E) (ev_blob E) (ev_plan_us E (ex_t w))
                (Some (tn_bytes tin)) (unat (tn_size tin)) (ex_ly w) of
           (Inl e, ly) \<Rightarrow> (Leg_failed e, put_ly ly w)
         | (Inr n, ly) \<Rightarrow>
             if n = 0 then (Leg_monolithic, put_ly ly w) else run_layered E i info n (put_ly ly w)))"

text \<open>The monolithic invoke of a model that is not layered.\<close>

definition invoke_monolithic :: "'p exec_env \<Rightarrow> syn_model_info \<Rightarrow> itensor \<Rightarrow> 'p exec \<Rightarrow> leg \<times> 'p exec" where
  "invoke_monolithic E info tin w =
     (let put = (\<lambda>h w. w\<lparr>ex_reg := (ex_reg w)\<lparr>rg_hal := h\<rparr>\<rparr>) in
      case syn_hal_npu_set_input 0 (Some (tn_bytes tin)) (unat (tn_size tin)) (rg_hal (ex_reg w)) of
        (Inl e, h) \<Rightarrow> (Leg_failed e, put h w)
      | (Inr _, h) \<Rightarrow>
          (case syn_hal_npu_invoke h of
             (Inl e, h1) \<Rightarrow> (Leg_failed e, put h1 w)
           | (Inr _, h1) \<Rightarrow>
               (case alloc_stage_output E (output_cap info) (put h1 w) of
                  (None, w1) \<Rightarrow> (Leg_failed ENOMEM, w1)
                | (Some t, w1) \<Rightarrow>
                    (case syn_hal_npu_get_output 0 True (Some (unat (tn_size t))) (rg_hal (ex_reg w1)) of
                       Inl e \<Rightarrow> (Leg_failed e, w1)
                     | Inr bytes \<Rightarrow> (Leg_done (fill_output info bytes t), w1)))))"

definition execute_model_stage :: "'p exec_env \<Rightarrow> nat \<Rightarrow> syn_model_info \<Rightarrow> itensor \<Rightarrow> 'p exec \<Rightarrow> leg \<times> 'p exec" where
  "execute_model_stage E i info tin w =
     (case execute_layered E i info tin w of
        (Leg_monolithic, w1) \<Rightarrow> invoke_monolithic E info tin w1
      | r \<Rightarrow> r)"

section \<open>The pipeline\<close>

datatype exec_result = X_done | X_preempted | X_failed errno

definition stage_cap :: "'p pipeline_stage list \<Rightarrow> nat \<Rightarrow> syn_model_info \<Rightarrow> itensor \<Rightarrow> u32" where
  "stage_cap stages k info cur =
     (let b = builtin_stage_capacity (stages ! k) cur; cap = (if b = 0 then stage_capacity (tn_size cur) else b)
      in if stage_is_pre (stages ! k) \<and> k + 1 < length stages \<and> stage_is_model (stages ! (k + 1)) \<and> cap < mi_input_size info
         then mi_input_size info else cap)"

definition run_processor ::
  "'p exec_env \<Rightarrow> syn_model_info \<Rightarrow> 'p pipeline_stage list \<Rightarrow> nat \<Rightarrow> 'p stage_fn \<Rightarrow> itensor \<Rightarrow> 'p exec \<Rightarrow> itensor res \<times> 'p exec" where
  "run_processor E info stages k fn cur w =
     (case alloc_stage_output E (stage_cap stages k info cur) w of
        (None, w1) \<Rightarrow> (Err ENOMEM, w1)
      | (Some t, w1) \<Rightarrow> (case ev_stage E fn cur t of (Inl e, _) \<Rightarrow> (Err e, w1) | (Inr _, out) \<Rightarrow> (Ok out, w1)))"

fun run_stages ::
  "'p exec_env \<Rightarrow> nat \<Rightarrow> syn_model_info \<Rightarrow> 'p pipeline_stage list \<Rightarrow> nat list \<Rightarrow> itensor \<Rightarrow> bool \<Rightarrow> 'p exec \<Rightarrow> exec_result \<times> 'p exec" where
  "run_stages E i info stages [] cur npu_marked w =
     (let w1 = (if npu_marked then w
                else mark E (syn_prof_mark_npu_done (ev_us E)) (mark E (syn_prof_mark_preprocess_done (ev_us E)) w));
          w2 = mark E (\<lambda>c. syn_prof_mark_end (ev_us E) c (ex_mem w1)) w1
      in (X_done, upd_job i (\<lambda>j. j\<lparr>jb_output := cur\<rparr>) w2))"
| "run_stages E i info stages (k # ks) cur npu_marked w =
     (case stages ! k of
        STAGE_MODEL \<Rightarrow>
          (case execute_model_stage E i info cur (mark E (syn_prof_mark_preprocess_done (ev_us E)) w) of
             (Leg_preempted, w1) \<Rightarrow> (X_preempted, upd_job i (\<lambda>j. j\<lparr>jb_resume_stage := k\<rparr>) w1)
           | (Leg_done out, w1) \<Rightarrow> run_stages E i info stages ks out True (mark E (syn_prof_mark_npu_done (ev_us E)) w1)
           | (Leg_failed e, w1) \<Rightarrow> (X_failed e, mark E (syn_prof_mark_npu_done (ev_us E)) w1)
           | (Leg_monolithic, w1) \<Rightarrow> (X_failed EINVAL, w1))
      | STAGE_PREPROCESS fn \<Rightarrow>
          (case run_processor E info stages k fn cur w of
             (Inl e, w1) \<Rightarrow> (X_failed e, w1) | (Inr out, w1) \<Rightarrow> run_stages E i info stages ks out npu_marked w1)
      | STAGE_POSTPROCESS fn \<Rightarrow>
          (case run_processor E info stages k fn cur w of
             (Inl e, w1) \<Rightarrow> (X_failed e, w1) | (Inr out, w1) \<Rightarrow> run_stages E i info stages ks out npu_marked w1))"

definition execute_pipeline :: "'p exec_env \<Rightarrow> nat \<Rightarrow> 'p exec \<Rightarrow> exec_result \<times> 'p exec" where
  "execute_pipeline E i w =
     (let j = ex_job i w; p = in_pipelines (ex_inf w) ! the (jb_pipe j) in
      case syn_model_get_info (pl_model p) True (ex_reg w) of
        Inl e \<Rightarrow> (X_failed e, w)
      | Inr info \<Rightarrow>
          let (r, g) = (if jb_resuming j then (Ok (), ex_reg w)
                        else syn_model_ensure_resident (stub_ops (ev_act_max E) (ev_blob E)) (ev_crc E) (ev_rd E)
                               (ev_plan_us E (ex_t w)) (pl_model p) (ex_reg w));
              w1 = w\<lparr>ex_reg := g\<rparr>
          in (case r of
                Inl e \<Rightarrow> (X_failed e, w1)
              | Inr _ \<Rightarrow> run_stages E i info (pl_stages p)
                          [(if jb_resuming j then jb_resume_stage j else 0)..<length (pl_stages p)] (jb_input j) False
                          (mark E syn_prof_mark_start w1)))"

section \<open>The scheduler thread and the synchronous run\<close>

definition sched_busy :: "'p exec_env \<Rightarrow> bool \<Rightarrow> 'p exec \<Rightarrow> 'p exec" where
  "sched_busy E b w = tick (w\<lparr>ex_health := syn_health_set_busy (ev_now E (ex_t w)) (in_health_id (ex_inf w)) b (ex_health w)\<rparr>)"

text \<open>One round of the thread; \<open>None\<close> when it blocks for a wake.\<close>

definition scheduler_thread :: "'p exec_env \<Rightarrow> 'p exec \<Rightarrow> 'p exec option" where
  "scheduler_thread E w0 =
     (let w = sched_busy E False w0; s = ex_inf w in
      if in_sched_wake s = 0 then None
      else
        let w1 = sched_busy E True (w\<lparr>ex_inf := s\<lparr>in_sched_wake := in_sched_wake s - 1\<rparr>\<rparr>);
            (x, s1) = sched_dispatch (ex_inf w1); w2 = w1\<lparr>ex_inf := s1\<rparr>
        in Some (case x of None \<Rightarrow> w2
           | Some i \<Rightarrow>
               let (r, w3) = execute_pipeline E i w2 in
               if r = X_preempted then
                 let (drain, s3) = sched_suspend i (ex_inf w3) in w3\<lparr>ex_inf := sched_yield drain s3\<rparr>
               else
                 let ret = (case r of X_failed e \<Rightarrow> Err e | _ \<Rightarrow> Ok ());
                     (drain, s3) = sched_complete (ev_us E) (ev_cyc E (ex_t w3)) i ret (ex_inf w3)
                 in tick (w3\<lparr>ex_inf := sched_report drain i s3\<rparr>)))"

text \<open>
  \<open>syn_infer_run_sync\<close>: \<open>meanwhile\<close> is what the other threads do while the caller waits, at most
  5000 ms; the wait gives up when they left the job unfinished. The second result is what \<open>*output\<close> is after
  the call; a caller buffer that is large enough gets the bytes, otherwise the descriptor is handed
  over.
\<close>

definition copy_result :: "itensor \<Rightarrow> itensor \<Rightarrow> itensor" where
  "copy_result output result =
     (if tn_data output \<noteq> 0 \<and> tn_size output \<ge> tn_size result
      then output\<lparr>tn_bytes := take (unat (tn_size result)) (tn_bytes result), tn_size := tn_size result,
             tn_dtype := tn_dtype result, tn_ndim := tn_ndim result, tn_shape := tn_shape result\<rparr>
      else result)"

definition sync_wait :: "u32 \<Rightarrow> itensor \<Rightarrow> 'p infer \<Rightarrow> unit res \<times> itensor \<times> 'p infer" where
  "sync_wait job output s =
     (case syn_infer_wait True job s of
        Some (Inr _) \<Rightarrow>
          (case syn_infer_get_result job True s of
             (Inr _, Some result, s1) \<Rightarrow> (Ok (), copy_result output result, s1)
           | (r, _, s1) \<Rightarrow> (r, output, s1))
      | Some (Inl e) \<Rightarrow> (Err e, output, snd (snd (syn_infer_get_result job True s)))
      | None \<Rightarrow> (Err EAGAIN, output, s))"

definition syn_infer_run_sync ::
  "'p exec_env \<Rightarrow> nat \<Rightarrow> ('p exec \<Rightarrow> 'p exec) \<Rightarrow> nat \<Rightarrow> itensor option \<Rightarrow> itensor option \<Rightarrow> nat \<Rightarrow> 'p exec
     \<Rightarrow> unit res \<times> itensor option \<times> 'p exec" where
  "syn_infer_run_sync E max_stages meanwhile model input output priority w =
     (if input = None \<or> output = None then (Err EINVAL, output, w)
      else if is_ok (syn_model_get_info model True (ex_reg w)) \<and> \<not> syn_model_is_loaded model (ex_reg w)
      then (Err ENOEXEC, output, w)
      else (case syn_pipeline_create (Some [114, 117, 110, 95, 115, 121, 110, 99]) (ex_inf w) of
              (None, s) \<Rightarrow> (Err ENOMEM, output, w\<lparr>ex_inf := s\<rparr>)
            | (Some p, s) \<Rightarrow>
                let destroy = (\<lambda>w. let (s', h) = syn_pipeline_destroy syn_npu_layered_slot_free (Some p) (ex_inf w, ex_ly w)
                                  in put_ly h (w\<lparr>ex_inf := s'\<rparr>));
                    (r1, s1) = syn_pipeline_add_model max_stages (ex_reg w) (Some p) model s;
                    (r2, s2) = (if is_ok r1 then syn_pipeline_build (ex_reg w) (Some p) s1 else (r1, s1))
                in if \<not> is_ok r2 then (r2, output, destroy (w\<lparr>ex_inf := s2\<rparr>))
                   else
                     let prm = \<lparr>ip_priority = priority, ip_deadline_us = 0, ip_preemptible = False, ip_callback = False\<rparr>;
                         (job, s3) = syn_infer_submit (ev_cyc E (ex_t w)) (ev_now E (ex_t w)) (Some p) input (Some prm) s2
                     in if job = SYN_JOB_INVALID then (Err EBUSY, output, destroy (w\<lparr>ex_inf := s3\<rparr>))
                        else
                          let w4 = meanwhile (tick (w\<lparr>ex_inf := s3\<rparr>));
                              (r, out, s5) = sync_wait job (the output) (ex_inf w4)
                          in (r, Some out, destroy (w4\<lparr>ex_inf := s5\<rparr>))))"

end
