(* ===== verification/Exec_Safety.thy ===== *)
theory Exec_Safety
  imports Infer_Exec
begin

text \<open>
  The layered execution of a job over its preemptions: every leg goes on where the parked context
  stopped and runs at least one layer more; between two legs the other jobs use the backend but
  leave the parked context as it is; the last leg hands over the output of an uninterrupted run.
\<close>

section \<open>One leg\<close>

text \<open>The other threads do not touch the running job and keep the shape of the suspension slots.\<close>

definition others_ok :: "'p exec_env \<Rightarrow> nat \<Rightarrow> bool" where
  "others_ok E i \<longleftrightarrow> (\<forall>n s sl. let (s', sl') = ev_others E n (s, sl) in
     length (in_jobs s') = length (in_jobs s) \<and> in_jobs s' ! i = in_jobs s ! i \<and> length sl' = length sl \<and>
     ((\<forall>c \<in> set sl. length (lc_area c) = ev_plan_max E) \<longrightarrow> (\<forall>c \<in> set sl'. length (lc_area c) = ev_plan_max E)))"

lemma others_okD:
  assumes "others_ok E i" "ev_others E n (s, sl) = (s', sl')"
  shows "length (in_jobs s') = length (in_jobs s)" "in_jobs s' ! i = in_jobs s ! i" "length sl' = length sl"
    "\<forall>c \<in> set sl. length (lc_area c) = ev_plan_max E \<Longrightarrow> \<forall>c \<in> set sl'. length (lc_area c) = ev_plan_max E"
  using assms(1) [unfolded others_ok_def, rule_format, of n s sl] assms(2) by simp_all

abbreviation ex_session :: "'p exec_env \<Rightarrow> u8 list \<Rightarrow> layered \<Rightarrow> bool" where
  "ex_session E \<equiv> session_inv (ev_act_max E) (ev_plan_max E) (ev_blob E)"

lemma session_boundary:
  assumes "ex_session E inp ly" "others_ok E i"
  shows "ex_session E inp (ex_ly (boundary E ly w))"
proof -
  obtain s sl where o: "ev_others E (ex_t (kick E (put_ly ly w))) (ex_inf (kick E (put_ly ly w)), ly_slots ly) = (s, sl)"
    by fastforce
  have "ex_ly (boundary E ly w) = ly\<lparr>ly_slots := sl\<rparr>"
    by (simp add: boundary_def others_def o)
  then show ?thesis using assms(1) others_okD(3,4) [OF assms(2) o] by (simp add: session_inv_def layered_wf_def)
qed

lemma kick_inf [simp]: "ex_inf (kick E w) = ex_inf w" "ex_inf (put_ly ly w) = ex_inf w" "ex_inf (tick w) = ex_inf w"
  by (simp_all add: kick_def put_ly_def tick_def)

lemma boundary_job:
  assumes "others_ok E i"
  shows "length (in_jobs (ex_inf (boundary E ly w))) = length (in_jobs (ex_inf w))" "ex_job i (boundary E ly w) = ex_job i w"
proof -
  obtain s sl where o: "ev_others E (ex_t (kick E (put_ly ly w))) (ex_inf w, ly_slots ly) = (s, sl)"
    by fastforce
  show "length (in_jobs (ex_inf (boundary E ly w))) = length (in_jobs (ex_inf w))" "ex_job i (boundary E ly w) = ex_job i w"
    using others_okD(1,2) [OF assms o] by (simp_all add: boundary_def others_def o ex_job_def)
qed

lemma mem_kept [simp]:
  "ex_mem (boundary E ly w) = ex_mem w" "ex_mem (put_ly ly w) = ex_mem w" "ex_mem (tick w) = ex_mem w"
  "ex_mem (upd_job i u w) = ex_mem w"
  by (simp_all add: boundary_def others_def kick_def put_ly_def tick_def upd_job_def split: prod.split)

lemma park_sel:
  "i < length (in_jobs (ex_inf w)) \<Longrightarrow> ex_ly (park E i slot t0 w) = ex_ly w"
  "i < length (in_jobs (ex_inf w)) \<Longrightarrow> jb_ctx_slot (ex_job i (park E i slot t0 w)) = int slot"
  "length (in_jobs (ex_inf (park E i slot t0 w))) = length (in_jobs (ex_inf w))"
  by (simp_all add: park_def Let_def ex_job_def upd_job_def nth_set_job)

lemma layered_loop_session:
  assumes "layered_loop E i rem w = (x, w1)" "ex_session E inp (ex_ly w)" "ev_plan_max E < 2 ^ 16" "others_ok E i"
    and "i < length (in_jobs (ex_inf w))" "rem = mp_layer_count (ly_plan (ex_ly w)) - ly_next (ex_ly w)"
  shows "case x of
      None \<Rightarrow> ex_session E inp (ex_ly w1) \<and> ly_plan (ex_ly w1) = ly_plan (ex_ly w) \<and> ex_mem w1 = ex_mem w \<and>
        ly_next (ex_ly w1) = mp_layer_count (ly_plan (ex_ly w1))
    | Some l \<Rightarrow> l = Leg_preempted \<and> (\<exists>slot k. jb_ctx_slot (ex_job i w1) = int slot \<and> slot < SYN_LAYERED_CTX_SLOTS \<and> i < length (in_jobs (ex_inf w1)) \<and>
        ly_next (ex_ly w) < k \<and> k < mp_layer_count (ly_plan (ex_ly w)) \<and> layered_wf (ev_plan_max E) (ex_ly w1) \<and>
        slot_inv (ev_act_max E) (ev_plan_max E) (ev_blob E) inp (ly_plan (ex_ly w)) k (ly_slots (ex_ly w1) ! slot))"
  using assms
proof (induction E i rem w rule: layered_loop.induct)
  case (1 E i rem w)
  note pm = "1.prems"(3) and ok = "1.prems"(4) and i = "1.prems"(5)
  have le: "ly_next (ex_ly w) \<le> mp_layer_count (ly_plan (ex_ly w))" using "1.prems"(2) by (simp add: session_inv_def)
  show ?case
  proof (cases "rem = 0")
    case True
    then show ?thesis using "1.prems" le by (auto simp: layered_loop.simps)
  next
    case False
    obtain r ly where st: "syn_npu_layered_step (ex_ly w) = (r, ly)" by fastforce
    have lt: "ly_next (ex_ly w) < mp_layer_count (ly_plan (ex_ly w))" using False "1.prems"(6) by simp
    note S = step_session [OF "1.prems"(2) pm lt, unfolded st fst_conv snd_conv]
    let ?rem' = "mp_layer_count (ly_plan (ex_ly w)) - Suc (ly_next (ex_ly w))"
    let ?w1 = "boundary E ly w"
    have ses: "ex_session E inp (ex_ly ?w1)" by (rule session_boundary [OF S(2) ok])
    have same: "ly_plan (ex_ly ?w1) = ly_plan (ex_ly w)" "ly_next (ex_ly ?w1) = Suc (ly_next (ex_ly w))"
      using boundary_ly [of E ly w] S(3,4) by simp_all
    have st': "syn_npu_layered_step (ex_ly w) = (Ok ?rem', ly)" using st S(1) by simp
    have i1: "i < length (in_jobs (ex_inf ?w1))" using i boundary_job(1) [OF ok] by simp
    note IH = "1.IH" [OF False st' [symmetric] refl refl]
    let ?c = "?rem' > 0 \<and> ip_preemptible (jb_params (ex_job i ?w1)) \<and> preempt_pending (ex_job i ?w1) (ex_inf ?w1)"
    have U: "(if ?c then (case syn_npu_layered_save (ex_ly ?w1) of (Inl _, _) \<Rightarrow> layered_loop E i ?rem' (tick ?w1)
        | (Inr slot, ly2) \<Rightarrow> (Some Leg_preempted, park E i slot (ev_cyc E (ex_t ?w1)) (put_ly ly2 (tick ?w1))))
      else layered_loop E i ?rem' ?w1) = (x, w1)"
      using "1.prems"(1) unfolding layered_loop.simps [of E i rem w] st' Let_def by (simp only: False if_False prod.case sum.case)
    show ?thesis
    proof (cases ?c)
      case c: False
      then have "layered_loop E i ?rem' ?w1 = (x, w1)" using U by (simp only: if_False)
      from IH(2) [OF c this ses pm ok i1] show ?thesis using same by (cases x) (auto dest: Suc_lessD)
    next
      case c: True
      obtain r2 ly2 where sv: "syn_npu_layered_save (ex_ly ?w1) = (r2, ly2)" by fastforce
      show ?thesis
      proof (cases r2)
        case (Inl e)
        then have "layered_loop E i ?rem' (tick ?w1) = (x, w1)"
          using U [unfolded if_P [OF c]] sv by (simp only: prod.case sum.case)
        from IH(1) [OF c sv [symmetric] Inl this _ pm ok] show ?thesis using same ses i1 by (cases x) (auto dest: Suc_lessD)
      next
        case (Inr slot)
        then have w1: "x = Some Leg_preempted" "w1 = park E i slot (ev_cyc E (ex_t ?w1)) (put_ly ly2 (tick ?w1))"
          using U [unfolded if_P [OF c]] sv by (simp_all only: prod.case sum.case prod.inject)
        have sv': "syn_npu_layered_save (ex_ly ?w1) = (Ok slot, ly2)" using sv Inr by simp
        have P: "jb_ctx_slot (ex_job i w1) = int slot" "ex_ly w1 = ly2" "i < length (in_jobs (ex_inf w1))"
          using park_sel [where w = "put_ly ly2 (tick ?w1)" and i = i] i1 unfolding w1 by simp_all
        show ?thesis using save_session [OF ses pm sv'] P w1(1) same c by auto
      qed
    qed
  qed
qed

text \<open>Where a job stands: its context parked after \<open>k\<close> layers, or about to begin.\<close>

definition parked :: "'p exec_env \<Rightarrow> u8 list \<Rightarrow> model_plan \<Rightarrow> nat \<Rightarrow> nat \<Rightarrow> 'p exec \<Rightarrow> bool" where
  "parked E inp p k i w \<longleftrightarrow> i < length (in_jobs (ex_inf w)) \<and> (\<exists>q slot. plan_agree p q \<and> jb_ctx_slot (ex_job i w) = int slot \<and> slot < SYN_LAYERED_CTX_SLOTS \<and>
     slot_inv (ev_act_max E) (ev_plan_max E) (ev_blob E) inp q k (ly_slots (ex_ly w) ! slot))"

definition leg_start :: "'p exec_env \<Rightarrow> u8 list \<Rightarrow> model_plan \<Rightarrow> nat \<Rightarrow> nat \<Rightarrow> itensor \<Rightarrow> 'p exec \<Rightarrow> bool" where
  "leg_start E inp p k i tin w \<longleftrightarrow>
     (if jb_resuming (ex_job i w) then parked E inp p k i w
      else k = 0 \<and> inp = tn_bytes tin \<and> length inp = unat (tn_size tin) \<and>
        (\<exists>n ly. syn_npu_layered_begin (ev_act_max E) (ev_plan_max E) (ev_blob E) (ev_plan_us E (ex_t w)) (Some inp)
           (length inp) (ex_ly w) = (Ok n, ly) \<and> 0 < n \<and> ly_plan ly = p))"

lemma plan_agree_trans: "plan_agree p q \<Longrightarrow> plan_agree q r \<Longrightarrow> plan_agree p r"
  by (auto simp: plan_agree_def src_agree_def buf_agree_def off_agree_def)

lemma ref_output_agree: "plan_agree p q \<Longrightarrow> ref_output p inp = ref_output q inp"
  using ref_acts_agree [of p q "mp_layer_count p" inp] by (simp add: plan_agree_def src_agree_def ref_output_def)

text \<open>The output of the model fits the buffer that the arena gives now.\<close>

definition output_room :: "'p exec_env \<Rightarrow> syn_model_info \<Rightarrow> model_plan \<Rightarrow> 'p exec \<Rightarrow> bool" where
  "output_room E info p w \<longleftrightarrow> (case fst (alloc_stage_output E (output_cap info) w) of
     None \<Rightarrow> False | Some t \<Rightarrow> mp_buf_size p ! mp_layer_count p \<le> unat (tn_size t))"

lemma output_room_mem:
  assumes "ex_mem w = ex_mem w'" "plan_agree p q"
  shows "output_room E info p w = output_room E info q w'"
proof -
  have "fst (alloc_stage_output E (output_cap info) w) = fst (alloc_stage_output E (output_cap info) w')"
    using assms(1) by (simp add: alloc_stage_output_def split: prod.split)
  moreover have "mp_buf_size p ! mp_layer_count p = mp_buf_size q ! mp_layer_count q"
    using assms(2) by (simp add: plan_agree_def src_agree_def buf_agree_def)
  ultimately show ?thesis by (simp only: output_room_def)
qed

text \<open>What a leg can come to, when \<open>k\<close> layers have run before it.\<close>

definition leg_outcome :: "'p exec_env \<Rightarrow> nat \<Rightarrow> syn_model_info \<Rightarrow> u8 list \<Rightarrow> model_plan \<Rightarrow> nat \<Rightarrow> 'p exec \<Rightarrow> leg \<Rightarrow> 'p exec \<Rightarrow> bool" where
  "leg_outcome E i info inp p k w r w1 \<longleftrightarrow>
     (case r of
        Leg_done t \<Rightarrow> output_room E info p w \<and> tn_bytes t = ref_output p inp
      | Leg_failed e \<Rightarrow> \<not> output_room E info p w \<and> e = ENOMEM
      | Leg_monolithic \<Rightarrow> False
      | Leg_preempted \<Rightarrow> layered_wf (ev_plan_max E) (ex_ly w1) \<and> (\<exists>k' > k. k' < mp_layer_count p \<and> parked E inp p k' i w1))"

lemma finish_session:
  assumes "finish_layered E info w = (r, w1)" "ex_session E inp (ex_ly w)" "ev_plan_max E < 2 ^ 16"
    and "ly_next (ex_ly w) = mp_layer_count (ly_plan (ex_ly w))"
  shows "leg_outcome E i info inp (ly_plan (ex_ly w)) k w r w1"
proof -
  obtain x w2 where a: "alloc_stage_output E (output_cap info) w = (x, w2)" by fastforce
  have l: "ex_ly w2 = ex_ly w" using a by (auto simp: alloc_stage_output_def split: prod.split_asm)
  let ?p = "ly_plan (ex_ly w)"
  show ?thesis
  proof (cases x)
    case (Some t)
    let ?c = "unat (tn_size t)"
    show ?thesis
    proof (cases "mp_buf_size ?p ! mp_layer_count ?p \<le> ?c")
      case True
      from output_session [OF assms(2-4) this] show ?thesis
        using assms(1) a Some True by (auto simp: finish_layered_def l fill_output_def leg_outcome_def output_room_def)
    next
      case False
      then have "syn_npu_layered_output True (Some ?c) (ex_ly w) = (Err ENOMEM, ex_ly w)"
        using assms(2,4) by (simp add: syn_npu_layered_output_def session_inv_def Let_def)
      then show ?thesis using assms(1) a Some False by (auto simp: finish_layered_def l leg_outcome_def output_room_def)
    qed
  qed (use assms(1) a in \<open>auto simp: finish_layered_def leg_outcome_def output_room_def\<close>)
qed

lemma run_session:
  assumes run: "run_layered E i info rem w = (r, w1)" and ses: "ex_session E inp (ex_ly w)" and pm: "ev_plan_max E < 2 ^ 16"
    and ok: "others_ok E i" and i: "i < length (in_jobs (ex_inf w))"
    and rem: "rem = mp_layer_count (ly_plan (ex_ly w)) - ly_next (ex_ly w)" and ag: "plan_agree p (ly_plan (ex_ly w))"
  shows "leg_outcome E i info inp p (ly_next (ex_ly w)) w r w1"
proof -
  obtain x w2 where l: "layered_loop E i rem w = (x, w2)" by fastforce
  note L = layered_loop_session [OF l ses pm ok i rem]
  show ?thesis
  proof (cases x)
    case None
    then have f: "finish_layered E info w2 = (r, w1)" using run l by (simp add: run_layered_def)
    have F: "ex_session E inp (ex_ly w2)" "ly_next (ex_ly w2) = mp_layer_count (ly_plan (ex_ly w2))"
      "ly_plan (ex_ly w2) = ly_plan (ex_ly w)" "ex_mem w = ex_mem w2" using L None by simp_all
    have "r \<noteq> Leg_preempted"
      using f by (auto simp: finish_layered_def split: prod.split_asm option.split_asm sum.split_asm)
    then show ?thesis
      using finish_session [OF f F(1) pm F(2)] F(3) ref_output_agree [OF ag] output_room_mem [OF F(4) ag]
      by (cases r) (auto simp: leg_outcome_def)
  next
    case (Some lg)
    then have "r = Leg_preempted" "w1 = w2" using run l L by (auto simp: run_layered_def)
    moreover have "mp_layer_count p = mp_layer_count (ly_plan (ex_ly w))" using ag by (simp add: plan_agree_def src_agree_def)
    ultimately show ?thesis using L Some ag unfolding parked_def leg_outcome_def by auto
  qed
qed

lemma leg_outcome_mem: "ex_mem w = ex_mem w' \<Longrightarrow> leg_outcome E i info inp p k w = leg_outcome E i info inp p k w'"
  using output_room_mem [of w w' p p E info] by (simp add: leg_outcome_def fun_eq_iff split: leg.split)

lemma leg_progress:
  assumes "execute_layered E i info tin w = (r, w1)" "leg_start E inp p k i tin w" "layered_wf (ev_plan_max E) (ex_ly w)"
    and "ev_plan_max E < 2 ^ 16" "others_ok E i" "i < length (in_jobs (ex_inf w))"
  shows "leg_outcome E i info inp p k w r w1"
proof (cases "jb_resuming (ex_job i w)")
  case True
  then obtain q slot where q: "plan_agree p q" "jb_ctx_slot (ex_job i w) = int slot" "slot < SYN_LAYERED_CTX_SLOTS"
    and sl: "slot_inv (ev_act_max E) (ev_plan_max E) (ev_blob E) inp q k (ly_slots (ex_ly w) ! slot)"
    using assms(2) by (auto simp: leg_start_def parked_def)
  let ?w1 = "upd_job i (\<lambda>j. j\<lparr>jb_resuming := False\<rparr>) w"
  obtain st where st: "syn_npu_layered_restore (ev_act_max E) (ev_plan_max E) (ev_blob E) (ev_plan_us E (ex_t ?w1)) (int slot) (ex_ly w) = (Ok (), st)"
    and ses: "ex_session E inp st" and ag: "plan_agree q (ly_plan st)" and k: "ly_next st = k"
    using restore_session [where blob' = "ev_blob E", OF sl assms(3,4) q(3)] by auto
  let ?w2 = "put_ly st (upd_job i (\<lambda>j. j\<lparr>jb_ctx_slot := - 1\<rparr>) ?w1)"
  have slot1: "jb_ctx_slot (ex_job i ?w1) = int slot" using q(2) assms(6) by (simp add: ex_job_def upd_job_def nth_set_job)
  have "syn_npu_layered_remaining st = Ok (mp_layer_count (ly_plan st) - ly_next st)"
    using ses by (simp add: syn_npu_layered_remaining_def session_inv_def)
  then have "run_layered E i info (mp_layer_count (ly_plan st) - ly_next st) ?w2 = (r, w1)"
    using assms(1) True st slot1 by (simp add: execute_layered_def Let_def)
  from run_session [OF this _ assms(4,5), where inp = inp and p = p] show ?thesis
    using ses assms(6) plan_agree_trans [OF q(1) ag] k leg_outcome_mem [of ?w2 w E i info inp p k]
    by (simp add: upd_job_def)
next
  case False
  note start = assms(2) [unfolded leg_start_def if_not_P [OF False]]
  then have k: "k = 0" and inp: "inp = tn_bytes tin" "length inp = unat (tn_size tin)" by blast+
  obtain n ly where b: "syn_npu_layered_begin (ev_act_max E) (ev_plan_max E) (ev_blob E) (ev_plan_us E (ex_t w)) (Some inp)
           (length inp) (ex_ly w) = (Ok n, ly)" and n: "0 < n" and p: "ly_plan ly = p"
    using start by blast
  note B = begin_session [OF assms(3,4) refl b n]
  have "run_layered E i info n (put_ly ly w) = (r, w1)"
  proof -
    have "syn_npu_layered_begin (ev_act_max E) (ev_plan_max E) (ev_blob E) (ev_plan_us E (ex_t w)) (Some (tn_bytes tin))
        (unat (tn_size tin)) (ex_ly w) = (Ok n, ly)" using b inp by metis
    then show ?thesis using assms(1) n unfolding execute_layered_def if_not_P [OF False] by simp
  qed
  from run_session [OF this _ assms(4,5), where inp = inp and p = p] show ?thesis
    using B assms(6) p k leg_outcome_mem [of "put_ly ly w" w E i info inp p 0] by simp
qed

section \<open>Between two legs\<close>

text \<open>
  What the other jobs call on the layered backend while one stays suspended with its context in
  \<open>slot\<close>: every operation, with any arguments, except that only the owner of a slot restores or frees it.
\<close>

inductive backend_other :: "'p exec_env \<Rightarrow> nat \<Rightarrow> layered \<Rightarrow> layered \<Rightarrow> bool" for E slot where
  bo_load: "backend_other E slot ly (syn_npu_layered_on_load (ev_act_max E) (ev_blob E) ptr sz ly)"
| bo_begin: "backend_other E slot ly (snd (syn_npu_layered_begin (ev_act_max E) (ev_plan_max E) (ev_blob E) us input n ly))"
| bo_step: "backend_other E slot ly (snd (syn_npu_layered_step ly))"
| bo_output: "backend_other E slot ly (snd (syn_npu_layered_output ptr_ok cap ly))"
| bo_save: "backend_other E slot ly (snd (syn_npu_layered_save ly))"
| bo_restore: "c \<noteq> int slot \<Longrightarrow>
    backend_other E slot ly (snd (syn_npu_layered_restore (ev_act_max E) (ev_plan_max E) (ev_blob E) us c ly))"
| bo_free: "c \<noteq> int slot \<Longrightarrow> backend_other E slot ly (syn_npu_layered_slot_free c ly)"

lemma parse_model_arrays: "parse_model act blob ptr sz p = (r, q) \<Longrightarrow> plan_arrays p \<Longrightarrow> plan_arrays q"
  by (auto simp: parse_model_def Let_def plan_arrays_def dest!: parse_layers_arrays split: option.split_asm if_split_asm)

lemma fold_arrays:
  assumes "\<And>i p. plan_arrays p \<Longrightarrow> plan_arrays (f i p)" "plan_arrays p"
  shows "plan_arrays (fold f xs p)"
  using assms(2) by (induction xs arbitrary: p) (simp_all add: assms(1))

lemma prepare_arrays:
  assumes "plan_arrays p"
  shows "plan_arrays (prepare_buffers p)"
proof -
  have "plan_arrays (init_lifetimes p)" unfolding init_lifetimes_def
    by (rule fold_arrays) (use assms in \<open>simp_all add: init_step_def plan_arrays_def\<close>)
  then have "plan_arrays (consume_lifetimes (init_lifetimes p))" unfolding consume_lifetimes_def
    by (rule fold_arrays [rotated]) (simp add: consume_step_def extend_last_def plan_arrays_def Let_def)
  then show ?thesis by (simp add: prepare_buffers_def Let_def plan_arrays_def)
qed

lemma place_loop_arrays: "place_loop pm bs peak p = (r, q) \<Longrightarrow> plan_arrays p \<Longrightarrow> plan_arrays q"
proof (induction bs arbitrary: peak p)
  case (Cons b bs)
  then show ?case by (fastforce simp: Let_def plan_arrays_def split: if_split_asm)
qed (auto simp: plan_arrays_def)

lemma plan_live_wf:
  assumes "plan_live act pm blob us m sz st = (r, st1)" "layered_wf pm st"
  shows "layered_wf pm st1" "ly_slots st1 = ly_slots st" "length (ly_area st1) = length (ly_area st)"
proof -
  have "plan_arrays (ly_plan st1)"
    using assms by (auto simp: plan_live_def place_buffers_def Let_def layered_wf_def split: prod.split_asm sum.split_asm
        dest!: parse_model_arrays place_loop_arrays intro: prepare_arrays)
  then show "layered_wf pm st1" "ly_slots st1 = ly_slots st" "length (ly_area st1) = length (ly_area st)"
    using assms by (auto simp: plan_live_def layered_wf_def split: prod.split_asm sum.split_asm)
qed

lemma backend_other_keeps:
  assumes "backend_other E slot ly ly'" "layered_wf (ev_plan_max E) ly" "ev_plan_max E < 2 ^ 16"
    and "lc_model (ly_slots ly ! slot) \<noteq> None"
  shows "layered_wf (ev_plan_max E) ly' \<and> ly_slots ly' ! slot = ly_slots ly ! slot"
  using assms
proof (cases rule: backend_other.cases)
  case (bo_load ptr sz)
  then show ?thesis using assms(2)
    by (auto simp: syn_npu_layered_on_load_def layered_wf_def split: prod.split sum.split option.split)
next
  case (bo_begin us input n)
  show ?thesis
  proof (cases "ly_resident ly")
    case (Some ms)
    obtain m sz where ms: "ms = (m, sz)" by fastforce
    obtain r st1 where pl: "plan_live (ev_act_max E) (ev_plan_max E) (ev_blob E) us m sz ly = (r, st1)" by fastforce
    note W = plan_live_wf [OF pl assms(2)]
    have fit: "mp_buf_off (ly_plan st1) ! 0 + mp_input_size (ly_plan st1) \<le> length (ly_area st1)" if "r = Ok ()"
    proof -
      have "plan_ok (ev_act_max E) (ev_plan_max E) (ly_plan st1)"
        using plan_live_Ok(1) [OF pl [unfolded that]] assms(2,3) by (simp add: layered_wf_def)
      then have "mp_buf_off (ly_plan st1) ! 0 + mp_buf_size (ly_plan st1) ! 0 \<le> ev_plan_max E"
        and "mp_buf_size (ly_plan st1) ! 0 = mp_input_size (ly_plan st1)"
        by (auto simp: plan_ok_def placed_def lifetimes_ok_def Let_def intro: le_trans)
      then show ?thesis using W assms(2) by (simp add: layered_wf_def)
    qed
    have "length (blit (mp_buf_off (ly_plan st1) ! 0) (take (mp_input_size (ly_plan st1)) bytes) (ly_area st1)) = length (ly_area st1)"
      if "r = Ok ()" for bytes using fit [OF that] by simp
    then show ?thesis using W bo_begin Some ms pl
      by (auto simp: syn_npu_layered_begin_def layered_wf_def split: sum.split option.split)
  qed (use bo_begin assms(2) in \<open>simp add: syn_npu_layered_begin_def\<close>)
next
  case bo_step
  then show ?thesis using assms(2) by (auto simp: syn_npu_layered_step_def Let_def layered_wf_def)
next
  case (bo_output ptr_ok cap)
  then show ?thesis using assms(2)
    by (auto simp: syn_npu_layered_output_def Let_def layered_wf_def split: option.split)
next
  case bo_save
  show ?thesis
  proof (cases "\<not> ly_active ly \<or> first_index (\<lambda>c. lc_model c = None) (ly_slots ly) = None")
    case False
    then obtain s where s: "ly_active ly" "first_index (\<lambda>c. lc_model c = None) (ly_slots ly) = Some s"
      by (metis not_None_eq)
    then have "s < length (ly_slots ly)" "lc_model (ly_slots ly ! s) = None"
      by (auto simp: first_index_Some_iff)
    then show ?thesis using bo_save s assms(2,4)
      by (auto simp: syn_npu_layered_save_def Let_def layered_wf_def nth_list_update dest!: set_update_subset_insert [THEN subsetD])
  qed (use bo_save assms(2) in \<open>auto simp: syn_npu_layered_save_def simp del: first_index_None\<close>)
next
  case (bo_restore c us)
  show ?thesis
  proof (cases "c < 0 \<or> int SYN_LAYERED_CTX_SLOTS \<le> c \<or> lc_model (ly_slots ly ! nat c) = None")
    case False
    then obtain m where c: "0 \<le> c" "c < int SYN_LAYERED_CTX_SLOTS" "lc_model (ly_slots ly ! nat c) = Some m" by auto
    obtain r st1 where pl: "plan_live (ev_act_max E) (ev_plan_max E) (ev_blob E) us m (lc_model_size (ly_slots ly ! nat c)) ly = (r, st1)"
      by fastforce
    have "length (lc_area (ly_slots ly ! nat c)) = ev_plan_max E" using assms(2) c by (simp add: layered_wf_def nat_less_iff)
    then show ?thesis using bo_restore c pl plan_live_wf [OF pl assms(2)]
      by (auto simp: syn_npu_layered_restore_def Let_def layered_wf_def nth_list_update nat_eq_iff split: sum.split dest!: set_update_subset_insert [THEN subsetD])
  qed (use bo_restore assms(2) in \<open>auto simp: syn_npu_layered_restore_def Let_def\<close>)
next
  case (bo_free c)
  have "length (lc_area (ly_slots ly ! nat c)) = ev_plan_max E" if "0 \<le> c" "c < int SYN_LAYERED_CTX_SLOTS"
    using assms(2) that by (simp add: layered_wf_def nat_less_iff)
  then show ?thesis using bo_free assms(2)
    by (auto simp: syn_npu_layered_slot_free_def layered_wf_def nth_list_update dest!: set_update_subset_insert [THEN subsetD])
qed

text \<open>
  A preempted leg and the next one: the job is suspended, the other threads and jobs run, and the
  dispatcher picks the job again. They leave the job alone (nobody cancels it or destroys a pipeline
  meanwhile); everything else is arbitrary.
\<close>

definition resumed :: "'p exec_env \<Rightarrow> nat \<Rightarrow> 'p exec \<Rightarrow> 'p exec \<Rightarrow> bool" where
  "resumed E i w w' \<longleftrightarrow> rtranclp (backend_other E (nat (jb_ctx_slot (ex_job i w)))) (ex_ly w) (ex_ly w') \<and>
     (\<exists>stage s. let (_, s1) = sched_suspend i (ex_inf (upd_job i (\<lambda>j. j\<lparr>jb_resume_stage := stage\<rparr>) w)) in
        length (in_jobs s) = length (in_jobs s1) \<and> in_jobs s ! i = in_jobs s1 ! i \<and>
        sched_dispatch s = (Some i, ex_inf w'))"

lemma backend_others_keep:
  assumes "rtranclp (backend_other E slot) ly ly'" "layered_wf (ev_plan_max E) ly" "ev_plan_max E < 2 ^ 16"
    and "lc_model (ly_slots ly ! slot) \<noteq> None"
  shows "layered_wf (ev_plan_max E) ly' \<and> ly_slots ly' ! slot = ly_slots ly ! slot"
  using assms
proof (induction rule: rtranclp_induct)
  case (step x y)
  then show ?case using backend_other_keeps [OF step.hyps(2)] by simp
qed simp

lemma suspend_job:
  assumes "sched_suspend i s = (d, s1)" "i < length (in_jobs s)"
  shows "length (in_jobs s1) = length (in_jobs s)" "in_jobs s1 ! i = (in_jobs s ! i)\<lparr>jb_state := JOB_SUSPENDED\<rparr>"
  using assms by (auto simp: sched_suspend_def nth_set_job)

lemma dispatch_resumes:
  assumes "sched_dispatch s = (Some i, s')" "i < length (in_jobs s)" "jb_state (in_jobs s ! i) = JOB_SUSPENDED"
  shows "length (in_jobs s') = length (in_jobs s)" "jb_resuming (in_jobs s' ! i)"
    "jb_ctx_slot (in_jobs s' ! i) = jb_ctx_slot (in_jobs s ! i)"
  using assms by (auto simp: sched_dispatch_def nth_set_job Let_def split: if_split_asm option.split_asm)

lemma resumed_parked:
  assumes "resumed E i w w'" "parked E inp p k i w" "layered_wf (ev_plan_max E) (ex_ly w)" "ev_plan_max E < 2 ^ 16"
    and i: "i < length (in_jobs (ex_inf w))"
  shows "parked E inp p k i w'" "jb_resuming (ex_job i w')" "layered_wf (ev_plan_max E) (ex_ly w')"
    "i < length (in_jobs (ex_inf w'))"
proof -
  obtain q slot where q: "plan_agree p q" "jb_ctx_slot (ex_job i w) = int slot" "slot < SYN_LAYERED_CTX_SLOTS"
    and sl: "slot_inv (ev_act_max E) (ev_plan_max E) (ev_blob E) inp q k (ly_slots (ex_ly w) ! slot)"
    using assms(2) by (auto simp: parked_def)
  let ?w0 = "\<lambda>stage. ex_inf (upd_job i (\<lambda>j. j\<lparr>jb_resume_stage := stage\<rparr>) w)"
  obtain stage s d s1 where s1: "sched_suspend i (?w0 stage) = (d, s1)"
    and s: "length (in_jobs s) = length (in_jobs s1)" "in_jobs s ! i = in_jobs s1 ! i" "sched_dispatch s = (Some i, ex_inf w')"
    using assms(1) by (auto simp: resumed_def)
  have i0: "i < length (in_jobs (?w0 stage))" using i by (simp add: upd_job_def)
  have job: "length (in_jobs s) = length (in_jobs (ex_inf w))" "jb_state (in_jobs s ! i) = JOB_SUSPENDED"
    "jb_ctx_slot (in_jobs s ! i) = int slot"
    using suspend_job [OF s1 i0] s(1,2) q(2) i by (simp_all add: upd_job_def nth_set_job ex_job_def)
  have il: "i < length (in_jobs s)" using i job(1) by simp
  note D = dispatch_resumes [OF s(3) il job(2)]
  have "lc_model (ly_slots (ex_ly w) ! slot) \<noteq> None" using sl by (simp add: slot_inv_def)
  with assms(1,3,4) q(2) backend_others_keep [of E slot "ex_ly w" "ex_ly w'"]
  have ly: "layered_wf (ev_plan_max E) (ex_ly w')" "ly_slots (ex_ly w') ! slot = ly_slots (ex_ly w) ! slot"
    by (simp_all add: resumed_def)
  show "parked E inp p k i w'" using D(1,3) il job(3) q(1,3) sl ly(2) unfolding parked_def ex_job_def by auto
  show "jb_resuming (ex_job i w')" "layered_wf (ev_plan_max E) (ex_ly w')" "i < length (in_jobs (ex_inf w'))"
    using D il ly(1) by (simp_all add: ex_job_def)
qed

section \<open>The whole run of a job\<close>

text \<open>
  \<open>legs E i info tin w n wl\<close>: from \<open>w\<close> the job was preempted \<open>n\<close> times and picked again each time;
  \<open>wl\<close> is where its next leg starts. The input tensor is read by the first leg only.
\<close>

inductive legs :: "'p exec_env \<Rightarrow> nat \<Rightarrow> syn_model_info \<Rightarrow> itensor \<Rightarrow> 'p exec \<Rightarrow> nat \<Rightarrow> 'p exec \<Rightarrow> bool" for E i info tin w where
  legs_start: "legs E i info tin w 0 w"
| legs_again: "legs E i info tin w n w1 \<Longrightarrow> execute_layered E i info t w1 = (Leg_preempted, w2) \<Longrightarrow> n = 0 \<longrightarrow> t = tin \<Longrightarrow>
    resumed E i w2 w3 \<Longrightarrow> legs E i info tin w (Suc n) w3"

lemma legs_progress:
  assumes "legs E i info tin w n wl" "leg_start E inp p 0 i tin w" "\<not> jb_resuming (ex_job i w)"
    and "layered_wf (ev_plan_max E) (ex_ly w)" "ev_plan_max E < 2 ^ 16" "others_ok E i" "i < length (in_jobs (ex_inf w))"
  shows "\<exists>k \<ge> n. (\<forall>t. (n = 0 \<longrightarrow> t = tin) \<longrightarrow> leg_start E inp p k i t wl) \<and> layered_wf (ev_plan_max E) (ex_ly wl) \<and>
    i < length (in_jobs (ex_inf wl)) \<and> (0 < n \<longrightarrow> k < mp_layer_count p)"
  using assms
proof (induction rule: legs.induct)
  case (legs_again n w1 t w2 w3)
  then obtain k where k: "n \<le> k" "leg_start E inp p k i t w1" "layered_wf (ev_plan_max E) (ex_ly w1)" "i < length (in_jobs (ex_inf w1))"
    by auto
  note P = leg_progress [OF legs_again.hyps(2) k(2,3) legs_again.prems(4,5) k(4)]
  then obtain k' where k': "k < k'" "k' < mp_layer_count p" "parked E inp p k' i w2" "layered_wf (ev_plan_max E) (ex_ly w2)"
    by (auto simp: leg_outcome_def)
  have i2: "i < length (in_jobs (ex_inf w2))" using k'(3) by (simp add: parked_def)
  note R = resumed_parked [OF legs_again.hyps(4) k'(3,4) legs_again.prems(4) i2]
  have "leg_start E inp p k' i t' w3" for t' using R(1,2) by (simp add: leg_start_def)
  then show ?case using R(3,4) k'(1,2) k(1) by (intro exI [of _ k']) auto
qed auto

text \<open>
  C3: preemption is invisible in the result and a job that is resumed always ends. However often a
  layered job is suspended between two layers and picked again, with other jobs using the backend
  meanwhile, it starts fewer than \<open>mp_layer_count\<close> legs after its first one, and whatever leg it runs either is
  preempted again with layers left, or hands over the reference output of the model on the input of
  the first leg, or fails with ENOMEM, which happens exactly when the arena has no buffer for the
  output at that leg. (The other jobs restore and free their own context slots only, and nobody
  cancels the job or destroys a pipeline while it is suspended.)
\<close>

theorem preempted_job_ends_with_the_reference:
  assumes "legs E i info tin w n wl" "execute_layered E i info t wl = (r, w1)" "n = 0 \<longrightarrow> t = tin"
    and "leg_start E inp p 0 i tin w" "\<not> jb_resuming (ex_job i w)" "layered_wf (ev_plan_max E) (ex_ly w)"
    and "ev_plan_max E < 2 ^ 16" "others_ok E i" "i < length (in_jobs (ex_inf w))"
  shows "n < mp_layer_count p \<and>
    (case r of
       Leg_done out \<Rightarrow> output_room E info p wl \<and> tn_bytes out = ref_output p inp
     | Leg_failed e \<Rightarrow> \<not> output_room E info p wl \<and> e = ENOMEM
     | Leg_preempted \<Rightarrow> Suc n < mp_layer_count p
     | Leg_monolithic \<Rightarrow> False)"
proof -
  obtain k where k: "n \<le> k" "leg_start E inp p k i t wl" "layered_wf (ev_plan_max E) (ex_ly wl)"
    "i < length (in_jobs (ex_inf wl))" "0 < n \<longrightarrow> k < mp_layer_count p"
    using legs_progress [OF assms(1,4-9)] assms(3) by blast
  have "0 < mp_layer_count p"
    using assms(4,5) begin_session(3) [OF assms(6,7)] by (auto simp: leg_start_def)
  moreover have "leg_outcome E i info inp p k wl r w1"
    by (rule leg_progress [OF assms(2) k(2,3) assms(7,8) k(4)])
  ultimately show ?thesis using k(1,5) by (auto simp: leg_outcome_def split: leg.splits)
qed

definition demo_tin :: itensor where
  "demo_tin = zero_tensor\<lparr>tn_data := 64, tn_size := 2, tn_bytes := [5, 7]\<rparr>"

definition demo_env :: "unit exec_env" where
  "demo_env = \<lparr>ev_cyc = of_nat, ev_now = int, ev_us = id, ev_plan_us = of_nat, ev_others = (\<lambda>_ x. x),
     ev_stage = (\<lambda>_ tin out. (Ok (), out)), ev_act_max = 64, ev_plan_max = 128, ev_blob = (\<lambda>_. demo_blob),
     ev_crc = (\<lambda>_. 7), ev_rd = (\<lambda>_ _. demo_blob), ev_tensor_sz = 32\<rparr>"

definition demo_exec :: "unit exec" where
  "demo_exec = \<lparr>ex_inf = gv_inf demo_running, ex_reg = demo_reg1, ex_mem = demo_arena,
     ex_prof = \<lparr>pf_enabled = False, pf_last_result = zero_result, pf_start_cycle = 0, pf_preprocess_cycle = 0,
       pf_npu_cycle = 0, pf_has_result = False\<rparr>,
     ex_health = demo_health, ex_t = 0\<rparr>"

lemma demo_exec_job: "\<not> jb_resuming (ex_job 0 demo_exec)" "length (in_jobs (ex_inf demo_exec)) = 1"
  by code_simp+

text \<open>A model of two layers whose job is preempted between them and picked again.\<close>

definition split_blob :: "u8 list" where
  "split_blob = [0x53, 0x59, 0x4E, 0x4C, 2, 0, 2, 0, 3, 0, 0, 0, 4, 0, 0, 0]"

definition split_env :: "unit exec_env" where
  "split_env = demo_env\<lparr>ev_plan_max := 16, ev_blob := (\<lambda>_. split_blob)\<rparr>"

definition split_layered :: layered where
  "split_layered = demo_layered\<lparr>ly_resident := Some (0, 16), ly_area := replicate 16 0,
     ly_slots := replicate 2 \<lparr>lc_model = None, lc_model_size = 0, lc_next_layer = 0, lc_live_bytes = 0, lc_area = replicate 16 0\<rparr>\<rparr>"

definition split_exec :: "unit exec" where
  "split_exec = put_ly split_layered (demo_exec\<lparr>ex_inf := (ex_inf demo_exec)\<lparr>in_jobs :=
     (let j = ex_job 0 demo_exec; prm = jb_params j
      in [j\<lparr>jb_params := prm\<lparr>ip_preemptible := True, ip_priority := 1\<rparr>\<rparr>,
          j\<lparr>jb_params := prm\<lparr>ip_priority := 2\<rparr>, jb_state := JOB_QUEUED\<rparr>])\<rparr>\<rparr>)"

lemma split_get: "get32 split_blob 0 = 0x4C4E5953" "get16 split_blob 4 = 2" "get16 split_blob 6 = 2"
  "get16 split_blob 8 = 3" "get16 split_blob 10 = 0" "get16 split_blob 12 = 4" "get16 split_blob 14 = 0"
  by (simp_all add: get32_def get16_def split_blob_def)

definition split_parsed :: model_plan where
  "split_parsed = demo_plan\<lparr>mp_model := 0, mp_model_size := 16, mp_layer_count := 2, mp_input_size := 2,
     mp_out_size := 3 # 4 # replicate 14 0, mp_src_a := 0 # 1 # replicate 14 0, mp_src_b := - 1 # - 1 # replicate 14 0\<rparr>"

definition split_placed :: model_plan where
  "split_placed = split_parsed\<lparr>mp_buf_size := 2 # 3 # 4 # replicate 14 0, mp_buf_off := 0 # 2 # 5 # replicate 14 0,
     mp_def := 0 # 0 # 1 # replicate 14 0, mp_last := 0 # 1 # 2 # replicate 14 0, mp_planned_peak := 9, mp_naive_peak := 9\<rparr>"

lemma split_parsed_eq: "parse_model 64 (\<lambda>_. split_blob) (Some 0) 16 demo_plan = (Ok (), split_parsed)"
  by (simp add: parse_model_def split_get upt_01 layer_srcs_def desc_bytes_def resolve_src_def Let_def
      demo_plan_def split_parsed_def rep16 replicate_num)

lemma split_prepared: "prepare_buffers split_parsed = split_placed\<lparr>mp_buf_off := replicate 17 0, mp_planned_peak := 0\<rparr>"
  by (simp add: prepare_buffers_def consume_lifetimes_def init_lifetimes_def init_step_def upt_01
      consume_step_def extend_last_def split_placed_def split_parsed_def demo_plan_def rep16 Let_def replicate_num)

lemma split_placed_eq: "place_buffers 16 split_parsed = (Ok (), split_placed)"
  unfolding place_buffers_def Let_def split_prepared
  by (simp add: ff_search.simps upt_01 time_overlap_def addr_overlap_def split_placed_def
      split_parsed_def demo_plan_def rep16 replicate_num)

definition split_begun :: layered where
  "split_begun = split_layered\<lparr>ly_plan := split_placed, ly_plan_us := 0, ly_area := [5, 7] @ replicate 14 0, ly_next := 0, ly_active := True\<rparr>"

lemma split_begin: "syn_npu_layered_begin 64 16 (\<lambda>_. split_blob) 0 (Some [5, 7]) 2 split_layered = (Ok 2, split_begun)"
proof -
  have p: "mp_input_size split_placed = 2" "mp_layer_count split_placed = 2" "mp_buf_off split_placed ! 0 = 0"
    by (simp_all add: split_placed_def split_parsed_def)
  have "ly_resident split_layered = Some (0, 16)" "ly_plan split_layered = demo_plan"
    by (simp_all add: split_layered_def demo_layered_def)
  then show ?thesis
    by (simp add: syn_npu_layered_begin_def plan_live_def split_parsed_eq split_placed_eq p)
       (simp add: split_begun_def split_layered_def demo_layered_def blit_def replicate_num)
qed

definition split_stepped :: layered where
  "split_stepped = snd (syn_npu_layered_step split_begun)"

lemma split_step: "syn_npu_layered_step split_begun = (Ok 1, split_stepped)"
  by (simp add: split_stepped_def syn_npu_layered_step_def split_begun_def split_placed_def split_parsed_def Let_def)

lemma split_job: "jb_resuming (ex_job 0 split_exec) = False" "length (in_jobs (ex_inf split_exec)) = 2"
  "ip_preemptible (jb_params (ex_job 0 split_exec))" "preempt_pending (ex_job 0 split_exec) (ex_inf split_exec)"
  using demo_exec_job(1) by (simp_all add: split_exec_def ex_job_def Let_def preempt_pending_def put_ly_def)

lemma split_boundary [simp]: "ex_inf (boundary split_env ly w) = ex_inf w" "ex_ly (boundary split_env ly w) = ly"
  by (simp_all add: boundary_def others_def split_env_def demo_env_def)

definition split_saved :: layered where
  "split_saved = snd (syn_npu_layered_save split_stepped)"

lemma split_save: "syn_npu_layered_save split_stepped = (Ok 0, split_saved)"
  by (simp add: split_saved_def split_stepped_def syn_npu_layered_save_def syn_npu_layered_step_def split_begun_def
     split_placed_def split_parsed_def Let_def split_layered_def replicate_num)

definition split_parked :: "unit exec" where
  "split_parked = snd (execute_layered split_env 0 (demo_info [107] 7) demo_tin split_exec)"

lemma split_exec_ly: "ex_ly split_exec = split_layered"
  by (simp add: split_exec_def)

lemma demo_exec_gate: "in_dispatch_paused (ex_inf demo_exec) = False"
  by code_simp

lemma split_exec_jobs: "in_jobs (ex_inf split_exec) = (let j = ex_job 0 demo_exec; prm = jb_params j
      in [j\<lparr>jb_params := prm\<lparr>ip_preemptible := True, ip_priority := 1\<rparr>\<rparr>,
          j\<lparr>jb_params := prm\<lparr>ip_priority := 2\<rparr>, jb_state := JOB_QUEUED\<rparr>])"
    "in_dispatch_paused (ex_inf split_exec) = False"
  using demo_exec_gate by (simp_all add: split_exec_def put_ly_def)

lemma split_first: "execute_layered split_env 0 (demo_info [107] 7) demo_tin split_exec = (Leg_preempted, split_parked)"
  and split_parked_jobs: "in_jobs (ex_inf split_parked) = (in_jobs (ex_inf split_exec))[0 := (ex_job 0 split_exec)\<lparr>jb_ctx_slot := 0\<rparr>]"
  and split_parked_gate: "in_dispatch_paused (ex_inf split_parked) = False"
proof -
  let ?w = "boundary split_env split_stepped (put_ly split_begun split_exec)"
  have pm: "ev_plan_max split_env = 16" "ev_act_max split_env = 64" "ev_blob split_env = (\<lambda>_. split_blob)" "ev_plan_us split_env (ex_t split_exec) = 0"
    by (simp_all add: split_env_def demo_env_def split_exec_def demo_exec_def put_ly_def)
  have c: "ip_preemptible (jb_params (ex_job 0 ?w))" "preempt_pending (ex_job 0 ?w) (ex_inf ?w)"
    using split_job by (simp_all add: ex_job_def)
  have "layered_loop split_env 0 2 (put_ly split_begun split_exec) =
      (Some Leg_preempted, park split_env 0 0 (ev_cyc split_env (ex_t ?w)) (put_ly split_saved (tick ?w)))"
    using c by (simp add: layered_loop.simps [of split_env 0 2] split_step split_save Let_def)
  then have e: "execute_layered split_env 0 (demo_info [107] 7) demo_tin split_exec =
      (Leg_preempted, park split_env 0 0 (ev_cyc split_env (ex_t ?w)) (put_ly split_saved (tick ?w)))"
    using split_job(1) pm split_begin split_exec_ly by (simp add: execute_layered_def run_layered_def demo_tin_def)
  then show "execute_layered split_env 0 (demo_info [107] 7) demo_tin split_exec = (Leg_preempted, split_parked)"
    by (simp add: split_parked_def)
  show "in_jobs (ex_inf split_parked) = (in_jobs (ex_inf split_exec))[0 := (ex_job 0 split_exec)\<lparr>jb_ctx_slot := 0\<rparr>]"
    "in_dispatch_paused (ex_inf split_parked) = False"
    using e split_exec_jobs(2) by (simp_all add: split_parked_def park_def Let_def set_job_def ex_job_def upd_job_def)
qed

text \<open>The other job is done and the first one is picked again.\<close>

definition split_back :: "unit exec" where
  "split_back = (let s1 = snd (sched_suspend 0 (ex_inf split_parked))
     in split_parked\<lparr>ex_inf := snd (sched_dispatch (s1\<lparr>in_jobs := (in_jobs s1)[1 := (in_jobs s1 ! 1)\<lparr>jb_state := JOB_DONE\<rparr>]\<rparr>))\<rparr>)"

lemma split_resumed: "resumed split_env 0 split_parked split_back"
proof -
  let ?s1 = "snd (sched_suspend 0 (ex_inf split_parked))"
  let ?s = "?s1\<lparr>in_jobs := (in_jobs ?s1)[1 := (in_jobs ?s1 ! 1)\<lparr>jb_state := JOB_DONE\<rparr>]\<rparr>"
  have j: "in_jobs (ex_inf split_parked) = [(ex_job 0 split_exec)\<lparr>jb_ctx_slot := 0\<rparr>, in_jobs (ex_inf split_exec) ! 1]"
    by (simp add: split_parked_jobs split_exec_jobs Let_def)
  have "pick_next_job ?s = Some 0"
    by (simp add: sched_suspend_def set_stats_def set_job_def j pick_next_job_def pick_step_def job_waiting_def)
  moreover have "\<not> in_dispatch_paused ?s" using split_parked_gate by (simp add: sched_suspend_def set_stats_def set_job_def)
  ultimately have "fst (sched_dispatch ?s) = Some 0" by (simp add: sched_dispatch_def Let_def)
  then have d: "sched_dispatch ?s = (Some 0, ex_inf split_back)"
    by (simp add: split_back_def Let_def prod_eq_iff)
  show ?thesis unfolding resumed_def
  proof (intro conjI exI)
    show "rtranclp (backend_other split_env (nat (jb_ctx_slot (ex_job 0 split_parked)))) (ex_ly split_parked) (ex_ly split_back)"
      by (simp add: split_back_def Let_def)
    have "upd_job 0 (\<lambda>j. j\<lparr>jb_resume_stage := jb_resume_stage (ex_job 0 split_parked)\<rparr>) split_parked = split_parked"
      by (simp add: upd_job_def set_job_def j ex_job_def)
    then show "let (_, s1) = sched_suspend 0 (ex_inf (upd_job 0 (\<lambda>j. j\<lparr>jb_resume_stage := jb_resume_stage (ex_job 0 split_parked)\<rparr>) split_parked))
      in length (in_jobs ?s) = length (in_jobs s1) \<and> in_jobs ?s ! 0 = in_jobs s1 ! 0 \<and>
        sched_dispatch ?s = (Some 0, ex_inf split_back)"
      using d by (simp split: prod.split)
  qed
qed

lemma split_leg_start: "leg_start split_env [5, 7] split_placed 0 0 demo_tin split_exec"
proof -
  have "ev_plan_max split_env = 16" "ev_act_max split_env = 64" "ev_blob split_env = (\<lambda>_. split_blob)" "ev_plan_us split_env (ex_t split_exec) = 0"
    by (simp_all add: split_env_def demo_env_def split_exec_def demo_exec_def put_ly_def)
  then show ?thesis using split_begin [unfolded numeral_2_eq_2] split_job(1)
    by (auto simp: leg_start_def demo_tin_def split_exec_ly split_begun_def)
qed

lemma split_wf: "layered_wf (ev_plan_max split_env) (ex_ly split_exec)" "ev_plan_max split_env < 2 ^ 16" "others_ok split_env 0"
  "0 < length (in_jobs (ex_inf split_exec))"
  using demo_plan_arrays split_job(2)
  by (simp_all add: split_env_def demo_env_def others_ok_def layered_wf_def split_exec_ly split_layered_def demo_layered_def)

lemma split_count: "mp_layer_count split_placed = 2"
  by (simp add: split_placed_def split_parsed_def)

theorem preempted_job_ends_with_the_reference_witness:
  "fst (execute_layered split_env 0 (demo_info [107] 7) demo_tin split_exec) = Leg_preempted \<and>
   (case fst (execute_layered split_env 0 (demo_info [107] 7) demo_tin split_back) of
     Leg_done out \<Rightarrow> tn_bytes out = ref_output split_placed [5, 7] | Leg_failed e \<Rightarrow> e = ENOMEM | _ \<Rightarrow> False)"
proof -
  obtain r w1 where e: "execute_layered split_env 0 (demo_info [107] 7) demo_tin split_back = (r, w1)" by fastforce
  have "legs split_env 0 (demo_info [107] 7) demo_tin split_exec (Suc 0) split_back"
    by (rule legs_again [OF legs_start split_first _ split_resumed]) simp
  from preempted_job_ends_with_the_reference [OF this e _ split_leg_start _ split_wf] split_job(1) e split_first show ?thesis
    by (cases r) (simp_all add: split_count)
qed

end
