(* ===== verification/Infer_Remote.thy ===== *)
theory Infer_Remote
  imports Ipc Drain_Gate Exec_Safety
begin

text \<open>
  Inference for the other core, \<open>src/core/syn_infer_remote.c\<close>: the request side of CPU1 and the serve
  side of CPU0, over the messages of \<open>Ipc\<close> and the exchange slot of the shared region. Statuses travel
  as numbers; \<open>errnum\<close> gives the positive number of an error, as the C library defines it. What the
  rest of the system does during a sleep or a wait is an argument.
\<close>

section \<open>Both sides\<close>

record 'c node =
  nd_ipc :: "'c ipc"
  nd_shm :: syn_shm_region

definition status_of :: "(errno \<Rightarrow> int) \<Rightarrow> unit res \<Rightarrow> int" where
  "status_of errnum r = (case r of Inr _ \<Rightarrow> 0 | Inl e \<Rightarrow> - errnum e)"

definition infer_slot :: "('c, 'z) node_scheme \<Rightarrow> syn_shm_infer_slot option" where
  "infer_slot n = map_option shm_slot (syn_ipc_region (nd_ipc n) (nd_shm n))"

definition upd_slot :: "(syn_shm_infer_slot \<Rightarrow> syn_shm_infer_slot) \<Rightarrow> ('c, 'z) node_scheme \<Rightarrow> ('c, 'z) node_scheme" where
  "upd_slot u n = n\<lparr>nd_shm := (nd_shm n)\<lparr>shm_slot := u (shm_slot (nd_shm n))\<rparr>\<rparr>"

text \<open>\<open>memcpy (dst, src, len)\<close> into the start of an array.\<close>

definition memcpy_into :: "u8 list \<Rightarrow> u8 list \<Rightarrow> nat \<Rightarrow> u8 list" where
  "memcpy_into dst src len = take len src @ drop len dst"

text \<open>The rounds that are left after a full ring; \<open>nap k\<close> is what happens in the sleep before round \<open>k\<close>.\<close>

fun send_tries ::
  "nat \<Rightarrow> bool \<Rightarrow> (nat \<Rightarrow> u32) \<Rightarrow> (nat \<Rightarrow> ('c, 'z) node_scheme \<Rightarrow> ('c, 'z) node_scheme) \<Rightarrow> syn_ipc_msg \<Rightarrow> ('c, 'z) node_scheme \<Rightarrow>
    unit res \<times> ('c, 'z) node_scheme" where
  "send_tries 0 cpu1 us nap msg n = (Err EAGAIN, n)"
| "send_tries (Suc k) cpu1 us nap msg n =
     (let (ret, mailbox, c, m) = syn_ipc_send cpu1 (us k) (Some msg) (nd_ipc n, nd_shm n); n1 = n\<lparr>nd_ipc := c, nd_shm := m\<rparr>
      in if ret = Err EAGAIN then send_tries k cpu1 us nap msg (nap k n1) else (ret, n1))"

definition send_with_retry ::
  "bool \<Rightarrow> (nat \<Rightarrow> u32) \<Rightarrow> (nat \<Rightarrow> ('c, 'z) node_scheme \<Rightarrow> ('c, 'z) node_scheme) \<Rightarrow> syn_ipc_msg \<Rightarrow> ('c, 'z) node_scheme \<Rightarrow>
    unit res \<times> ('c, 'z) node_scheme" where
  "send_with_retry = send_tries 10"

abbreviation (input) T_INFER_REQ :: u8 where "T_INFER_REQ \<equiv> 0"
abbreviation (input) T_INFER_RESP :: u8 where "T_INFER_RESP \<equiv> 1"
abbreviation (input) T_MODEL_LOAD :: u8 where "T_MODEL_LOAD \<equiv> 2"

section \<open>CPU1: requests\<close>

record 'c requester = "'c node" +
  rq_resp_sem :: bool
  rq_resp_msg :: syn_ipc_msg
  rq_handlers_ready :: bool

definition syn_remote_infer_input :: "'c requester \<Rightarrow> nat \<times> u8 list option" where
  "syn_remote_infer_input r = (SYN_SHM_INFER_INPUT_SIZE, map_option si_input (infer_slot r))"

definition resp_handler :: "syn_ipc_msg \<Rightarrow> 'c requester \<Rightarrow> 'c requester" where
  "resp_handler msg r = r\<lparr>rq_resp_msg := msg, rq_resp_sem := True\<rparr>"

text \<open>\<open>h\<close> stands for \<open>resp_handler\<close> in the table of handlers.\<close>

definition ensure_handlers :: "'c \<Rightarrow> 'c requester \<Rightarrow> unit res \<times> 'c requester" where
  "ensure_handlers h r =
     (if rq_handlers_ready r then (Ok (), r)
      else
        let (ret, c) = syn_ipc_register_handler (uint T_INFER_RESP) (Some h) (nd_ipc r);
            (ret2, c2) = (if is_ok ret then syn_ipc_register_handler (uint T_MODEL_LOAD) (Some h) c else (ret, c))
        in (ret2, r\<lparr>nd_ipc := c2, rq_handlers_ready := (is_ok ret2 \<or> rq_handlers_ready r)\<rparr>))"

text \<open>
  One exchange under the lock: \<open>meanwhile\<close> is the wait for the response, at most the timeout. The
  answer is the semaphore, not the message it was given for.
\<close>

definition transact ::
  "(nat \<Rightarrow> u32) \<Rightarrow> (nat \<Rightarrow> 'c requester \<Rightarrow> 'c requester) \<Rightarrow> ('c requester \<Rightarrow> 'c requester) \<Rightarrow> syn_ipc_msg \<Rightarrow> 'c requester \<Rightarrow>
    unit res \<times> 'c requester" where
  "transact us nap meanwhile req r =
     (case send_with_retry True us nap req (r\<lparr>rq_resp_sem := False\<rparr>) of
        (Inl e, r1) \<Rightarrow> (Err e, r1)
      | (Inr _, r1) \<Rightarrow>
          let r2 = meanwhile r1 in if rq_resp_sem r2 then (Ok (), r2\<lparr>rq_resp_sem := False\<rparr>) else (Err ETIMEDOUT, r2))"

definition mk_req :: "u8 \<Rightarrow> u8 \<Rightarrow> u16 \<Rightarrow> nat \<Rightarrow> syn_ipc_msg" where
  "mk_req type priority len entries = \<lparr>im_msg_id = 0, im_type = type, im_priority = priority, im_payload_len = len,
     im_payload_offset = of_nat (SYN_SHM_PAYLOAD_OFFSET entries), im_timestamp_us = 0, im_status = 0\<rparr>"

definition strlen :: "u8 list \<Rightarrow> nat" where
  "strlen s = length (takeWhile (\<lambda>c. c \<noteq> 0) s)"

text \<open>The second result is the value stored through \<open>handle\<close>.\<close>

definition syn_remote_model_lookup ::
  "(errno \<Rightarrow> int) \<Rightarrow> nat \<Rightarrow> 'c \<Rightarrow> (nat \<Rightarrow> u32) \<Rightarrow> (nat \<Rightarrow> 'c requester \<Rightarrow> 'c requester) \<Rightarrow> ('c requester \<Rightarrow> 'c requester) \<Rightarrow>
    u8 list option \<Rightarrow> bool \<Rightarrow> 'c requester \<Rightarrow> int \<times> u32 option \<times> 'c requester" where
  "syn_remote_model_lookup errnum entries h us nap meanwhile name handle r =
     (case name of None \<Rightarrow> (- errnum EINVAL, None, r)
      | Some nm \<Rightarrow>
          if \<not> handle then (- errnum EINVAL, None, r)
          else if infer_slot r = None then (- errnum ENODEV, None, r)
          else if strlen nm \<ge> 32 then (- errnum EMSGSIZE, None, r)
          else (case ensure_handlers h r of
                  (Inl e, r1) \<Rightarrow> (- errnum e, None, r1)
                | (Inr _, r1) \<Rightarrow>
                    (case transact us nap meanwhile (mk_req T_MODEL_LOAD 0 0 entries)
                            (upd_slot (\<lambda>s. s\<lparr>si_model_name := memcpy_into (si_model_name s) (take (strlen nm) nm @ [0]) (strlen nm + 1)\<rparr>) r1) of
                       (Inl e, r2) \<Rightarrow> (- errnum e, None, r2)
                     | (Inr _, r2) \<Rightarrow>
                         let st = im_status (rq_resp_msg r2)
                         in (st, if st = 0 then Some (si_model (shm_slot (nd_shm r2))) else None, r2))))"

text \<open>The input is NULL, the slot itself or a buffer of the caller; the output bytes are the second result.\<close>

datatype infer_input = In_null | In_slot | In_buf "u8 list"

definition fill_request :: "u32 \<Rightarrow> infer_input \<Rightarrow> u32 \<Rightarrow> syn_shm_infer_slot \<Rightarrow> syn_shm_infer_slot" where
  "fill_request model input len s =
     s\<lparr>si_model := model, si_input_len := len,
       si_input := (case input of In_buf xs \<Rightarrow> memcpy_into (si_input s) xs (unat len) | _ \<Rightarrow> si_input s)\<rparr>"

definition take_response :: "(errno \<Rightarrow> int) \<Rightarrow> u32 \<Rightarrow> 'c requester \<Rightarrow> int \<times> u8 list option" where
  "take_response errnum cap r =
     (let st = im_status (rq_resp_msg r); s = shm_slot (nd_shm r) in
      if st \<noteq> 0 then (st, None)
      else if si_output_len s > cap then (- errnum EMSGSIZE, None)
      else (0, Some (take (unat (si_output_len s)) (si_output s))))"

definition syn_remote_infer ::
  "(errno \<Rightarrow> int) \<Rightarrow> nat \<Rightarrow> 'c \<Rightarrow> (nat \<Rightarrow> u32) \<Rightarrow> (nat \<Rightarrow> 'c requester \<Rightarrow> 'c requester) \<Rightarrow> ('c requester \<Rightarrow> 'c requester) \<Rightarrow>
    u32 \<Rightarrow> infer_input \<Rightarrow> u32 \<Rightarrow> bool \<Rightarrow> u32 \<Rightarrow> u8 \<Rightarrow> 'c requester \<Rightarrow> int \<times> u8 list option \<times> 'c requester" where
  "syn_remote_infer errnum entries h us nap meanwhile model input input_len output cap priority r =
     (if input = In_null \<or> \<not> output \<or> input_len = 0 then (- errnum EINVAL, None, r)
      else if infer_slot r = None then (- errnum ENODEV, None, r)
      else if unat input_len > SYN_SHM_INFER_INPUT_SIZE then (- errnum EMSGSIZE, None, r)
      else (case ensure_handlers h r of
              (Inl e, r1) \<Rightarrow> (- errnum e, None, r1)
            | (Inr _, r1) \<Rightarrow>
                (case transact us nap meanwhile (mk_req T_INFER_REQ priority (ucast input_len) entries)
                        (upd_slot (fill_request model input input_len) r1) of
                   (Inl e, r2) \<Rightarrow> (- errnum e, None, r2)
                 | (Inr _, r2) \<Rightarrow> let (ret, out) = take_response errnum cap r2 in (ret, out, r2))))"

section \<open>CPU0: serving\<close>

text \<open>The output descriptor of a request starts as \<open>zero_tensor\<close>.\<close>

record ('c, 'p) server = "'c node" +
  sv_gate :: syn_drain_gate
  sv_count :: u32
  sv_errors :: u32
  sv_total_us :: "64 word"
  sv_exec :: "'p exec"

definition syn_remote_serve_drain :: "(syn_drain_gate \<Rightarrow> syn_drain_gate) \<Rightarrow> ('c, 'p) server \<Rightarrow> unit res \<times> ('c, 'p) server" where
  "syn_remote_serve_drain meanwhile v = (let (r, g) = syn_drain_gate_drain meanwhile (sv_gate v) in (r, v\<lparr>sv_gate := g\<rparr>))"

definition syn_remote_serve_resume :: "('c, 'p) server \<Rightarrow> ('c, 'p) server" where
  "syn_remote_serve_resume v = v\<lparr>sv_gate := syn_drain_gate_resume (sv_gate v)\<rparr>"

definition mk_resp :: "u8 \<Rightarrow> u8 \<Rightarrow> u16 \<Rightarrow> u32 \<Rightarrow> int \<Rightarrow> syn_ipc_msg" where
  "mk_resp type priority len corr st = \<lparr>im_msg_id = 0, im_type = type, im_priority = priority, im_payload_len = len,
     im_payload_offset = corr, im_timestamp_us = 0, im_status = st\<rparr>"

definition model_load_handler ::
  "(errno \<Rightarrow> int) \<Rightarrow> (nat \<Rightarrow> u32) \<Rightarrow> (nat \<Rightarrow> ('c, 'p) server \<Rightarrow> ('c, 'p) server) \<Rightarrow> syn_ipc_msg \<Rightarrow> ('c, 'p) server \<Rightarrow> ('c, 'p) server" where
  "model_load_handler errnum us nap msg v =
     (let v1 = upd_slot (\<lambda>s. s\<lparr>si_model_name := (si_model_name s)[31 := 0]\<rparr>) v;
          ret = syn_model_get_by_name (Some (si_model_name (shm_slot (nd_shm v1)))) True (ex_reg (sv_exec v1));
          v2 = upd_slot (\<lambda>s. s\<lparr>si_model := (case ret of Inr h \<Rightarrow> of_nat h | Inl _ \<Rightarrow> 0)\<rparr>) v1
      in snd (send_with_retry False us nap
            (mk_resp T_MODEL_LOAD 0 0 (im_msg_id msg) (status_of errnum (case ret of Inr _ \<Rightarrow> Ok () | Inl e \<Rightarrow> Err e))) v2))"

definition store_output :: "itensor \<Rightarrow> syn_shm_infer_slot \<Rightarrow> syn_shm_infer_slot" where
  "store_output out s = s\<lparr>si_output := memcpy_into (si_output s) (tn_bytes out) (unat (tn_size out)), si_output_len := tn_size out\<rparr>"

text \<open>
  The run of an admitted request with a valid model and length: the input goes from the slot to the
  arena, the output from the arena to the slot, and the ephemeral pool is reset. \<open>elapsed\<close> is the
  measured time.
\<close>

definition serve_run ::
  "'p exec_env \<Rightarrow> nat \<Rightarrow> ('p exec \<Rightarrow> 'p exec) \<Rightarrow> u32 \<Rightarrow> syn_model_info \<Rightarrow> nat \<Rightarrow> ('c, 'p) server \<Rightarrow> unit res \<times> ('c, 'p) server" where
  "serve_run E max_stages meanwhile elapsed info prio v =
     (let s = shm_slot (nd_shm v); w = sv_exec v;
          (t, a) = syn_mem_tensor_alloc (ev_tensor_sz E) (Some [si_input_len s]) 1 (dtype_of (mi_input_dtype info)) SYN_MEM_EPHEMERAL (ex_mem w);
          w1 = w\<lparr>ex_mem := a\<rparr>
      in case t of None \<Rightarrow> (Err ENOMEM, v\<lparr>sv_exec := w1\<rparr>)
      | Some (block, d) \<Rightarrow>
          let tin = syn_tensor.extend d \<lparr>tn_bytes = take (unat (si_input_len s)) (si_input s)\<rparr>;
              (ret, out, w2) = syn_infer_run_sync E max_stages meanwhile (unat (si_model s)) (Some tin) (Some zero_tensor) prio w1;
              o1 = (case out of Some x \<Rightarrow> x | None \<Rightarrow> zero_tensor);
              fits = unat (tn_size o1) \<le> SYN_SHM_INFER_OUTPUT_SIZE;
              ret1 = (if is_ok ret \<and> \<not> fits then Err EMSGSIZE else ret);
              v1 = v\<lparr>sv_exec := w2\<lparr>ex_mem := syn_mem_reset_ephemeral (ex_mem w2)\<rparr>\<rparr>
          in if is_ok ret1
             then (ret1, upd_slot (store_output o1) v1\<lparr>sv_count := sv_count v1 + 1, sv_total_us := sv_total_us v1 + ucast elapsed\<rparr>)
             else (ret1, v1))"

definition serve_checked ::
  "'p exec_env \<Rightarrow> nat \<Rightarrow> ('p exec \<Rightarrow> 'p exec) \<Rightarrow> u32 \<Rightarrow> bool \<Rightarrow> nat \<Rightarrow> ('c, 'p) server \<Rightarrow> unit res \<times> ('c, 'p) server" where
  "serve_checked E max_stages meanwhile elapsed admitted prio v =
     (if \<not> admitted then (Err EAGAIN, v)
      else case syn_model_get_info (unat (si_model (shm_slot (nd_shm v)))) True (ex_reg (sv_exec v)) of
        Inl e \<Rightarrow> (Err e, v)
      | Inr info \<Rightarrow>
          let len = si_input_len (shm_slot (nd_shm v)) in
          if unat len > SYN_SHM_INFER_INPUT_SIZE \<or> len = 0 then (Err EMSGSIZE, v)
          else serve_run E max_stages meanwhile elapsed info prio v)"

definition respond ::
  "(errno \<Rightarrow> int) \<Rightarrow> (nat \<Rightarrow> u32) \<Rightarrow> (nat \<Rightarrow> ('c, 'p) server \<Rightarrow> ('c, 'p) server) \<Rightarrow> syn_ipc_msg \<Rightarrow> unit res \<Rightarrow> ('c, 'p) server \<Rightarrow> ('c, 'p) server" where
  "respond errnum us nap msg ret v =
     (let v1 = (if is_ok ret then v else v\<lparr>sv_errors := sv_errors v + 1\<rparr>);
          v2 = upd_slot (\<lambda>s. s\<lparr>si_infer_status := status_of errnum ret\<rparr>) v1; len = si_output_len (shm_slot (nd_shm v2))
      in snd (send_with_retry False us nap
            (mk_resp T_INFER_RESP (im_priority msg) (ucast (min len 0xFFFF)) (im_msg_id msg) (status_of errnum ret)) v2))"

definition infer_req_handler ::
  "(errno \<Rightarrow> int) \<Rightarrow> 'p exec_env \<Rightarrow> nat \<Rightarrow> ('p exec \<Rightarrow> 'p exec) \<Rightarrow> u32 \<Rightarrow> (nat \<Rightarrow> u32) \<Rightarrow>
    (nat \<Rightarrow> ('c, 'p) server \<Rightarrow> ('c, 'p) server) \<Rightarrow> syn_ipc_msg \<Rightarrow> ('c, 'p) server \<Rightarrow> ('c, 'p) server" where
  "infer_req_handler errnum E max_stages meanwhile elapsed us nap msg v =
     (let prio = (if im_priority msg \<le> 2 then unat (im_priority msg) else 1);
          v1 = upd_slot (\<lambda>s. s\<lparr>si_output_len := 0\<rparr>) v;
          (admitted, g) = syn_drain_gate_enter (sv_gate v1);
          (ret, v2) = serve_checked E max_stages meanwhile elapsed admitted prio (v1\<lparr>sv_gate := g\<rparr>);
          v3 = respond errnum us nap msg ret v2
      in if admitted then v3\<lparr>sv_gate := syn_drain_gate_exit (sv_gate v3)\<rparr> else v3)"

text \<open>\<open>hl\<close> and \<open>hi\<close> stand for the two handlers.\<close>

definition syn_remote_serve_init :: "'c \<Rightarrow> 'c \<Rightarrow> ('c, 'p) server \<Rightarrow> unit res \<times> ('c, 'p) server" where
  "syn_remote_serve_init hl hi v =
     (if syn_ipc_region (nd_ipc v) (nd_shm v) = None then (Err ENODEV, v)
      else
        let (ret, c) = syn_ipc_register_handler (uint T_MODEL_LOAD) (Some hl) (nd_ipc v);
            (ret2, c2) = (if is_ok ret then syn_ipc_register_handler (uint T_INFER_REQ) (Some hi) c else (ret, c))
        in (ret2, v\<lparr>sv_gate := syn_drain_gate_init, nd_ipc := c2\<rparr>))"

definition syn_remote_serve_count :: "('c, 'p) server \<Rightarrow> u32" where
  "syn_remote_serve_count v = sv_count v"

definition syn_remote_serve_errors :: "('c, 'p) server \<Rightarrow> u32" where
  "syn_remote_serve_errors v = sv_errors v"

definition syn_remote_serve_avg_us :: "('c, 'p) server \<Rightarrow> u32" where
  "syn_remote_serve_avg_us v = (if sv_count v > 0 then ucast (sv_total_us v div ucast (sv_count v)) else 0)"

section \<open>What a send and a serve change\<close>

lemma put_tx_slot [simp]: "shm_slot (put_tx b r m) = shm_slot m"
  by (simp add: put_tx_def)

lemma tx_ring_slot [simp]: "tx_ring b (m\<lparr>shm_slot := s\<rparr>) = tx_ring b m"
  by (simp add: tx_ring_def)

lemma upd_slot_fields [simp]: "nd_ipc (upd_slot u n) = nd_ipc n" "shm_slot (nd_shm (upd_slot u n)) = u (shm_slot (nd_shm n))"
  "tx_ring b (nd_shm (upd_slot u n)) = tx_ring b (nd_shm n)"
  by (simp_all add: upd_slot_def)

text \<open>With room in the ring the first round of a send succeeds.\<close>

definition sent_node :: "bool \<Rightarrow> u32 \<Rightarrow> syn_ipc_msg \<Rightarrow> ('c, 'z) node_scheme \<Rightarrow> ('c, 'z) node_scheme" where
  "sent_node cpu1 us msg n =
     n\<lparr>nd_ipc := snd (stamp us msg (nd_ipc n)),
       nd_shm := put_tx cpu1 (snd (syn_ipc_ring_push (tx_ring cpu1 (nd_shm n)) (fst (stamp us msg (nd_ipc n))))) (nd_shm n)\<rparr>"

lemma send_room:
  assumes "ic_ready (nd_ipc n)" "ring_wf (tx_ring cpu1 (nd_shm n))"
    "length (ring_abs (tx_ring cpu1 (nd_shm n))) < length (rb_slots (tx_ring cpu1 (nd_shm n)))" "unat (im_type msg) < 6"
  shows "send_with_retry cpu1 us nap msg n = (Ok (), sent_node cpu1 (us 9) msg n)"
proof -
  obtain y c where st: "stamp (us 9) msg (nd_ipc n) = (y, c)" by fastforce
  obtain q where p: "syn_ipc_ring_push (tx_ring cpu1 (nd_shm n)) y = (Ok (), q)"
    using ring_push_ok(1) [OF assms(2,3), of y] by blast
  have "syn_ipc_send cpu1 (us 9) (Some msg) (nd_ipc n, nd_shm n) = (Ok (), True, c, put_tx cpu1 q (nd_shm n))"
    using assms(1,4) by (simp add: syn_ipc_send_def st p)
  then have "send_tries (Suc 9) cpu1 us nap msg n = (Ok (), n\<lparr>nd_ipc := c, nd_shm := put_tx cpu1 q (nd_shm n)\<rparr>)"
    unfolding send_tries.simps by simp
  then show ?thesis by (simp add: send_with_retry_def sent_node_def st p)
qed

lemma sent_node_fields:
  assumes "ring_wf (tx_ring cpu1 (nd_shm n))" "length (ring_abs (tx_ring cpu1 (nd_shm n))) < length (rb_slots (tx_ring cpu1 (nd_shm n)))"
  shows "ring_abs (tx_ring cpu1 (nd_shm (sent_node cpu1 us msg n))) = ring_abs (tx_ring cpu1 (nd_shm n)) @ [fst (stamp us msg (nd_ipc n))]"
    "ring_wf (tx_ring cpu1 (nd_shm (sent_node cpu1 us msg n)))"
    "length (rb_slots (tx_ring cpu1 (nd_shm (sent_node cpu1 us msg n)))) = length (rb_slots (tx_ring cpu1 (nd_shm n)))"
    "b \<noteq> cpu1 \<Longrightarrow> tx_ring b (nd_shm (sent_node cpu1 us msg n)) = tx_ring b (nd_shm n)"
    "shm_slot (nd_shm (sent_node cpu1 us msg n)) = shm_slot (nd_shm n)"
    "ic_handlers (nd_ipc (sent_node cpu1 us msg n)) = ic_handlers (nd_ipc n)"
    "ic_rx_queue (nd_ipc (sent_node cpu1 us msg n)) = ic_rx_queue (nd_ipc n)"
    "ic_ready (nd_ipc (sent_node cpu1 us msg n)) = ic_ready (nd_ipc n)"
    "node.more (sent_node cpu1 us msg n) = node.more n"
  using ring_push_ok [OF assms, of "fst (stamp us msg (nd_ipc n))"] assms(1)
    stamp_core [of us msg "nd_ipc n" "fst (stamp us msg (nd_ipc n))" "snd (stamp us msg (nd_ipc n))"]
  by (auto simp: sent_node_def tx_put_tx)

lemma stamp_msg: "im_type (fst (stamp us msg c)) = im_type msg" "im_priority (fst (stamp us msg c)) = im_priority msg"
  "im_payload_offset (fst (stamp us msg c)) = im_payload_offset msg" "im_status (fst (stamp us msg c)) = im_status msg"
  by (simp_all add: stamp_def)

text \<open>A serve reads and writes the slot and the engine only.\<close>

lemma serve_checked_frame:
  assumes "serve_checked E ms mw el ad prio v = (ret, v')"
  shows "nd_ipc v' = nd_ipc v" "tx_ring b (nd_shm v') = tx_ring b (nd_shm v)" "sv_gate v' = sv_gate v"
    "sv_errors v' = sv_errors v" "sv_count v' = sv_count v + (if is_ok ret then 1 else 0)"
    "unat (si_output_len (shm_slot (nd_shm v))) \<le> SYN_SHM_INFER_OUTPUT_SIZE \<Longrightarrow> unat (si_output_len (shm_slot (nd_shm v'))) \<le> SYN_SHM_INFER_OUTPUT_SIZE"
    "\<not> ad \<Longrightarrow> ret = Err EAGAIN \<and> v' = v"
  using assms by (auto simp: serve_checked_def serve_run_def Let_def store_output_def upd_slot_def split: if_split_asm sum.splits prod.splits option.splits)

text \<open>The handler with room for its response.\<close>

lemma infer_req_handler_unfold:
  fixes errnum :: "errno \<Rightarrow> int" and us :: "nat \<Rightarrow> u32"
  assumes "ic_ready (nd_ipc v)" "ring_wf (tx_ring False (nd_shm v))"
    "length (ring_abs (tx_ring False (nd_shm v))) < length (rb_slots (tx_ring False (nd_shm v)))"
    "serve_checked E ms mw el (\<not> dg_paused (sv_gate v)) (if im_priority msg \<le> 2 then unat (im_priority msg) else 1)
       (upd_slot (\<lambda>s. s\<lparr>si_output_len := 0\<rparr>) v\<lparr>sv_gate := snd (syn_drain_gate_enter (sv_gate v))\<rparr>) = (ret, v2)"
  defines "v3 \<equiv> upd_slot (\<lambda>s. s\<lparr>si_infer_status := status_of errnum ret\<rparr>) (if is_ok ret then v2 else v2\<lparr>sv_errors := sv_errors v2 + 1\<rparr>)"
  defines "v4 \<equiv> sent_node False (us 9) (mk_resp T_INFER_RESP (im_priority msg) (ucast (min (si_output_len (shm_slot (nd_shm v2))) 0xFFFF))
      (im_msg_id msg) (status_of errnum ret)) v3"
  shows "infer_req_handler errnum E ms mw el us nap msg v =
    (if dg_paused (sv_gate v) then v4 else v4\<lparr>sv_gate := syn_drain_gate_exit (sv_gate v4)\<rparr>)"
proof -
  note F = serve_checked_frame [OF assms(4)]
  have e: "nd_ipc v3 = nd_ipc v" "tx_ring b (nd_shm v3) = tx_ring b (nd_shm v)" "shm_slot (nd_shm v3) = (shm_slot (nd_shm v2))\<lparr>si_infer_status := status_of errnum ret\<rparr>" for b
    using F(1,2) by (simp_all add: v3_def)
  have "send_with_retry False us nap (mk_resp T_INFER_RESP (im_priority msg) (ucast (min (si_output_len (shm_slot (nd_shm v2))) 0xFFFF))
      (im_msg_id msg) (status_of errnum ret)) v3 = (Ok (), v4)"
    unfolding v4_def by (rule send_room) (use assms(1-3) in \<open>simp_all add: e mk_resp_def\<close>)
  then have r: "respond errnum us nap msg ret v2 = v4" by (cases "is_ok ret") (simp_all add: respond_def Let_def v3_def)
  show ?thesis using assms(4) r unfolding infer_req_handler_def Let_def
    by (simp add: syn_drain_gate_enter_def Let_def upd_slot_def)
qed

lemma sent_node_server [simp]: "sv_gate (sent_node b us msg v) = sv_gate v" "sv_count (sent_node b us msg v) = sv_count v"
  "sv_errors (sent_node b us msg v) = sv_errors v" "sv_exec (sent_node b us msg v) = sv_exec v"
  by (simp_all add: sent_node_def)

lemma upd_slot_server [simp]: "sv_gate (upd_slot u v) = sv_gate v" "sv_count (upd_slot u v) = sv_count v"
  "sv_errors (upd_slot u v) = sv_errors v" "sv_exec (upd_slot u v) = sv_exec v"
  by (simp_all add: upd_slot_def)

lemma gate_exit_fields: "\<not> dg_busy (syn_drain_gate_exit g)" "dg_paused (syn_drain_gate_exit g) = dg_paused g"
  by (simp_all add: gate_defs syn_drain_gate_exit_def Let_def)

text \<open>
  A request that arrives with room for a response is answered by exactly one message, with the
  status of the slot and the id of the request; it is counted once, as served or as failed; the length
  of the output stays in its area; the gate is left; and while an update drains, the request is refused
  with EAGAIN and the engine is not touched.
\<close>

theorem request_is_answered_once:
  fixes v :: "('c, 'p) server"
  assumes "ic_ready (nd_ipc v)" "ring_wf (tx_ring False (nd_shm v))"
    "length (ring_abs (tx_ring False (nd_shm v))) < length (rb_slots (tx_ring False (nd_shm v)))"
  shows "let v' = infer_req_handler errnum E ms mw el us nap msg v; s' = shm_slot (nd_shm v') in
    (\<exists>resp. ring_abs (tx_ring False (nd_shm v')) = ring_abs (tx_ring False (nd_shm v)) @ [resp] \<and>
       im_type resp = T_INFER_RESP \<and> im_payload_offset resp = im_msg_id msg \<and> im_status resp = si_infer_status s') \<and>
    tx_ring True (nd_shm v') = tx_ring True (nd_shm v) \<and>
    (sv_count v' = sv_count v + 1 \<and> sv_errors v' = sv_errors v \<and> si_infer_status s' = 0 \<or>
     sv_count v' = sv_count v \<and> sv_errors v' = sv_errors v + 1 \<and> (\<exists>e. si_infer_status s' = - errnum e)) \<and>
    unat (si_output_len s') \<le> SYN_SHM_INFER_OUTPUT_SIZE \<and> dg_paused (sv_gate v') = dg_paused (sv_gate v) \<and>
    (if dg_paused (sv_gate v) then sv_gate v' = sv_gate v \<and> sv_exec v' = sv_exec v \<and> si_infer_status s' = - errnum EAGAIN
     else \<not> dg_busy (sv_gate v'))"
proof -
  let ?v1 = "upd_slot (\<lambda>s. s\<lparr>si_output_len := 0\<rparr>) v\<lparr>sv_gate := snd (syn_drain_gate_enter (sv_gate v))\<rparr>"
  obtain ret v2 where s: "serve_checked E ms mw el (\<not> dg_paused (sv_gate v)) (if im_priority msg \<le> 2 then unat (im_priority msg) else 1) ?v1 = (ret, v2)"
    by fastforce
  note F = serve_checked_frame [OF s]
  define v3 where "v3 = upd_slot (\<lambda>s. s\<lparr>si_infer_status := status_of errnum ret\<rparr>) (if is_ok ret then v2 else v2\<lparr>sv_errors := sv_errors v2 + 1\<rparr>)"
  define resp where "resp = mk_resp T_INFER_RESP (im_priority msg) (ucast (min (si_output_len (shm_slot (nd_shm v2))) 0xFFFF))
      (im_msg_id msg) (status_of errnum ret)"
  define v4 where "v4 = sent_node False (us 9) resp v3"
  define v' where "v' = infer_req_handler errnum E ms mw el us nap msg v"
  have v': "v' = (if dg_paused (sv_gate v) then v4 else v4\<lparr>sv_gate := syn_drain_gate_exit (sv_gate v4)\<rparr>)"
    using infer_req_handler_unfold [OF assms s] by (simp add: v'_def v4_def v3_def resp_def)
  have rings: "tx_ring b (nd_shm v3) = tx_ring b (nd_shm v)" for b using F(2) by (simp add: v3_def)
  have wf3: "ring_wf (tx_ring False (nd_shm v3))" "length (ring_abs (tx_ring False (nd_shm v3))) < length (rb_slots (tx_ring False (nd_shm v3)))"
    using assms(2,3) unfolding rings by blast+
  note S = sent_node_fields [OF wf3, where us = "us 9" and msg = resp, folded v4_def]
  have v'shm: "nd_shm v' = nd_shm v4" by (simp add: v')
  have "ring_abs (tx_ring False (nd_shm v')) = ring_abs (tx_ring False (nd_shm v)) @ [fst (stamp (us 9) resp (nd_ipc v3))]"
    unfolding v'shm S(1) rings ..
  moreover have sl: "si_infer_status (shm_slot (nd_shm v')) = status_of errnum ret" unfolding v'shm S(5) by (simp add: v3_def)
  moreover have "tx_ring True (nd_shm v') = tx_ring True (nd_shm v)" using S(4) rings by (simp add: v'shm)
  moreover have "unat (si_output_len (shm_slot (nd_shm v'))) \<le> SYN_SHM_INFER_OUTPUT_SIZE"
    using F(6) unfolding v'shm S(5) by (simp add: v3_def upd_slot_def)
  moreover have "sv_count v' = sv_count v2 \<and> sv_errors v' = sv_errors v2 + (if is_ok ret then 0 else 1) \<and> sv_exec v' = sv_exec v2"
    by (simp add: v' v4_def v3_def)
  moreover have "sv_gate v4 = snd (syn_drain_gate_enter (sv_gate v))" using F(3) by (simp add: v4_def v3_def)
  ultimately show ?thesis using F(4,5,7) unfolding v'_def [symmetric] Let_def
    by (cases ret) (auto simp: stamp_msg resp_def mk_resp_def status_of_def v' gate_exit_fields syn_drain_gate_enter_def Let_def)
qed

definition demo_server :: "(nat, unit) server" where
  "demo_server = \<lparr>nd_ipc = fst demo_up, nd_shm = snd demo_up, sv_gate = \<lparr>dg_idle = False, dg_paused = True, dg_busy = False\<rparr>,
     sv_count = 0, sv_errors = 0, sv_total_us = 0, sv_exec = demo_exec\<rparr>"

definition demo_errnum :: "errno \<Rightarrow> int" where
  "demo_errnum e = (if e = EAGAIN then 11 else if e = EINVAL then 22 else 5)"

lemma demo_up_fields: "ic_ready (fst demo_up)" "ring_wf (tx_ring b (snd demo_up))" "ring_abs (tx_ring b (snd demo_up)) = []"
  "length (rb_slots (tx_ring b (snd demo_up))) = 4" "ic_rx_queue (fst demo_up) = []" "ic_handlers (fst demo_up) = replicate 6 None"
  by (cases b; simp add: demo_up_def syn_ipc_init_def Let_def boot_ipc_def SYN_SHM_PAYLOAD_OFFSET_def tx_ring_def zero_shm_def
      ring_wf_def ring_abs_def syn_ipc_ring_reset_def)+

theorem request_is_answered_once_witness:
  "si_infer_status (shm_slot (nd_shm (infer_req_handler demo_errnum demo_env 8 id 3 of_nat (\<lambda>_. id) demo_msg demo_server))) = - 11 \<and>
   sv_errors (infer_req_handler demo_errnum demo_env 8 id 3 of_nat (\<lambda>_. id) demo_msg demo_server) = 1"
proof -
  have h: "ic_ready (nd_ipc demo_server)" "ring_wf (tx_ring False (nd_shm demo_server))"
    "length (ring_abs (tx_ring False (nd_shm demo_server))) < length (rb_slots (tx_ring False (nd_shm demo_server)))"
    by (simp_all only: demo_server_def node.simps demo_up_fields) simp_all
  have f: "dg_paused (sv_gate demo_server)" "sv_errors demo_server = 0" by (simp_all add: demo_server_def)
  show ?thesis
    using request_is_answered_once [OF h, of demo_errnum demo_env 8 id 3 of_nat "\<lambda>_. id" demo_msg] f
    unfolding Let_def by (auto simp: demo_errnum_def)
qed

section \<open>A whole exchange\<close>

text \<open>The receive threads of the two cores with the handlers of this file.\<close>

fun serve_action ::
  "'c \<Rightarrow> 'c \<Rightarrow> (syn_ipc_msg \<Rightarrow> ('c, 'p) server \<Rightarrow> ('c, 'p) server) \<Rightarrow> (syn_ipc_msg \<Rightarrow> ('c, 'p) server \<Rightarrow> ('c, 'p) server) \<Rightarrow>
    'c rx_action \<Rightarrow> ('c, 'p) server \<Rightarrow> ('c, 'p) server" where
  "serve_action hi hl f_infer f_load (Handled k msg) v = (if k = hi then f_infer msg v else if k = hl then f_load msg v else v)"
| "serve_action hi hl f_infer f_load _ v = v"

fun resp_action :: "'c \<Rightarrow> 'c rx_action \<Rightarrow> 'c requester \<Rightarrow> 'c requester" where
  "resp_action h (Handled k msg) r = (if k = h then resp_handler msg r else r)"
| "resp_action h _ r = r"

text \<open>What the two receive threads do while the requester waits.\<close>

definition exchange ::
  "nat \<Rightarrow> 'c \<Rightarrow> (('c rx_action \<Rightarrow> ('c, 'p) server \<Rightarrow> ('c, 'p) server)) \<Rightarrow> ('c, 'p) server \<Rightarrow> 'c requester \<Rightarrow> 'c requester" where
  "exchange n h act v r =
     (let (as, c, m) = syn_ipc_rx_thread False n (nd_ipc v, nd_shm r);
          v1 = fold act as (v\<lparr>nd_ipc := c, nd_shm := m\<rparr>);
          (bs, c1, m1) = syn_ipc_rx_thread True n (nd_ipc r, nd_shm v1)
      in fold (resp_action h) bs (r\<lparr>nd_ipc := c1, nd_shm := m1\<rparr>))"

lemma rx_single:
  assumes "ring_wf (tx_ring (\<not> cpu1) m)" "length (ic_rx_queue c) \<le> n" "ring_abs (tx_ring (\<not> cpu1) m) = [x]"
    "handler_of c x = Some k" "syn_ipc_rx_thread cpu1 n (c, m) = (as, c', m')"
  shows "as = [Handled k x]" "ic_ready c' = ic_ready c" "ic_handlers c' = ic_handlers c" "shm_slot m' = shm_slot m"
    "tx_ring cpu1 m' = tx_ring cpu1 m"
proof -
  note R = rx_thread_spec [OF assms(1,2,5)]
  have "map rx_msg as = [x]" "filter is_handled as = [Handled k x]" using R(1,7) assms(3,4) by simp_all
  then show "as = [Handled k x]" by (cases as) (auto split: if_split_asm)
  show "ic_ready c' = ic_ready c" "ic_handlers c' = ic_handlers c" by (simp_all add: R(6))
  show "tx_ring cpu1 m' = tx_ring cpu1 m" by (rule R(5))
  show "shm_slot m' = shm_slot m" using assms(5) by (auto simp: syn_ipc_rx_thread_def split: prod.splits)
qed

text \<open>The outcome of a serve depends on the slot and the engine alone.\<close>

lemma serve_checked_cong:
  assumes "serve_checked E ms mw el ad prio v = (ret, v2)" "serve_checked E ms mw el ad prio v' = (ret', v2')"
    "shm_slot (nd_shm v) = shm_slot (nd_shm v')" "sv_exec v = sv_exec v'"
  shows "ret = ret' \<and> shm_slot (nd_shm v2) = shm_slot (nd_shm v2')"
proof (cases "syn_mem_tensor_alloc (ev_tensor_sz E) (Some [si_input_len (shm_slot (nd_shm v))]) 1
    (dtype_of (mi_input_dtype (case syn_model_get_info (unat (si_model (shm_slot (nd_shm v)))) True (ex_reg (sv_exec v)) of Inr i \<Rightarrow> i)))
    SYN_MEM_EPHEMERAL (ex_mem (sv_exec v))")
  case (Pair t a)
  then show ?thesis using assms
    by (auto simp: serve_checked_def serve_run_def Let_def upd_slot_def split: if_split_asm sum.splits prod.splits option.splits)
qed

text \<open>Both cores are up, the rings are empty and the handlers are registered.\<close>

definition exchange_ready :: "nat \<Rightarrow> 'c \<Rightarrow> 'c \<Rightarrow> 'c requester \<Rightarrow> ('c, 'p) server \<Rightarrow> bool" where
  "exchange_ready n h hi r v \<longleftrightarrow> ic_ready (nd_ipc r) \<and> ic_ready (nd_ipc v) \<and>
     ring_wf (tx_ring False (nd_shm r)) \<and> ring_wf (tx_ring True (nd_shm r)) \<and>
     ring_abs (tx_ring False (nd_shm r)) = [] \<and> ring_abs (tx_ring True (nd_shm r)) = [] \<and>
     length (ic_rx_queue (nd_ipc r)) \<le> n \<and> length (ic_rx_queue (nd_ipc v)) \<le> n \<and>
     length (ic_handlers (nd_ipc r)) = 6 \<and> (rq_handlers_ready r \<longrightarrow> ic_handlers (nd_ipc r) ! 1 = Some h) \<and>
     ic_handlers (nd_ipc v) ! 0 = Some hi"

lemma ensure_handlers_ready:
  assumes "length (ic_handlers (nd_ipc r)) = 6" "rq_handlers_ready r \<longrightarrow> ic_handlers (nd_ipc r) ! 1 = Some h"
  shows "\<exists>r1. ensure_handlers h r = (Ok (), r1) \<and> ic_handlers (nd_ipc r1) ! 1 = Some h \<and> nd_shm r1 = nd_shm r \<and>
    ic_ready (nd_ipc r1) = ic_ready (nd_ipc r) \<and> ic_rx_queue (nd_ipc r1) = ic_rx_queue (nd_ipc r)"
proof (cases "rq_handlers_ready r")
  case True
  then show ?thesis using assms by (simp add: ensure_handlers_def)
next
  case False
  then show ?thesis using assms by (simp add: ensure_handlers_def syn_ipc_register_handler_def)
qed

lemma room_when_empty: "ring_wf t \<Longrightarrow> ring_abs t = [] \<Longrightarrow> length (ring_abs t) < length (rb_slots t)"
  by (simp add: ring_wf_def)

text \<open>The serving half: CPU0 takes the request and puts one response.\<close>

lemma serve_half:
  fixes v :: "('c, 'p) server" and errnum :: "errno \<Rightarrow> int" and usr :: "nat \<Rightarrow> u32" and hl :: 'c
    and fl :: "syn_ipc_msg \<Rightarrow> ('c, 'p) server \<Rightarrow> ('c, 'p) server" and napr :: "nat \<Rightarrow> ('c, 'p) server \<Rightarrow> ('c, 'p) server"
  assumes "ic_ready (nd_ipc v)" "length (ic_rx_queue (nd_ipc v)) \<le> n" "ic_handlers (nd_ipc v) ! 0 = Some hi"
    "ring_wf (tx_ring False m)" "ring_wf (tx_ring True m)" "ring_abs (tx_ring False m) = []" "ring_abs (tx_ring True m) = [x]"
    "im_type x = T_INFER_REQ"
    "serve_checked E ms mw el (\<not> dg_paused (sv_gate v)) (if im_priority x \<le> 2 then unat (im_priority x) else 1)
       (v\<lparr>nd_shm := m\<lparr>shm_slot := (shm_slot m)\<lparr>si_output_len := 0\<rparr>\<rparr>\<rparr>) = (ret, v2)"
    "syn_ipc_rx_thread False n (nd_ipc v, m) = (as, c, m')"
  defines "act \<equiv> serve_action hi hl (infer_req_handler errnum E ms mw el usr napr) fl"
  defines "v1 \<equiv> fold act as (v\<lparr>nd_ipc := c, nd_shm := m'\<rparr>)"
  shows "\<exists>resp. ring_abs (tx_ring False (nd_shm v1)) = [resp] \<and> ring_wf (tx_ring False (nd_shm v1)) \<and>
    im_type resp = T_INFER_RESP \<and> im_status resp = status_of errnum ret \<and>
    shm_slot (nd_shm v1) = (shm_slot (nd_shm v2))\<lparr>si_infer_status := status_of errnum ret\<rparr>"
proof -
  have hx: "handler_of (nd_ipc v) x = Some hi" using assms(3,8) by (simp add: handler_of_def)
  have wfT: "ring_wf (tx_ring (\<not> False) m)" "ring_abs (tx_ring (\<not> False) m) = [x]" using assms(5,7) by simp_all
  note R = rx_single [OF wfT(1) assms(2) wfT(2) hx assms(10)]
  let ?w = "v\<lparr>nd_ipc := c, nd_shm := m'\<rparr>"
  have v1: "v1 = infer_req_handler errnum E ms mw el usr napr x ?w" by (simp add: v1_def act_def R(1))
  have w: "ic_ready (nd_ipc ?w)" "tx_ring False (nd_shm ?w) = tx_ring False m" using R(2,5) assms(1) by simp_all
  have wf: "ring_wf (tx_ring False (nd_shm ?w))" "length (ring_abs (tx_ring False (nd_shm ?w))) < length (rb_slots (tx_ring False (nd_shm ?w)))"
    unfolding w(2) using assms(4) room_when_empty [OF assms(4,6)] by blast+
  let ?w1 = "upd_slot (\<lambda>s. s\<lparr>si_output_len := 0\<rparr>) ?w\<lparr>sv_gate := snd (syn_drain_gate_enter (sv_gate ?w))\<rparr>"
  obtain ret' v2' where s: "serve_checked E ms mw el (\<not> dg_paused (sv_gate ?w)) (if im_priority x \<le> 2 then unat (im_priority x) else 1) ?w1 = (ret', v2')"
    by fastforce
  have sv: "sv_gate ?w = sv_gate v" by simp
  have eq: "ret = ret' \<and> shm_slot (nd_shm v2) = shm_slot (nd_shm v2')"
    by (rule serve_checked_cong [OF assms(9) s [unfolded sv]]) (use R(4) in \<open>simp_all add: upd_slot_def\<close>)
  note U = infer_req_handler_unfold [OF w(1) wf s, where errnum = errnum and us = usr and nap = napr, folded v1]
  note F = serve_checked_frame [OF s]
  define v3 where "v3 = upd_slot (\<lambda>s. s\<lparr>si_infer_status := status_of errnum ret'\<rparr>) (if is_ok ret' then v2' else v2'\<lparr>sv_errors := sv_errors v2' + 1\<rparr>)"
  define rm where "rm = mk_resp T_INFER_RESP (im_priority x) (ucast (min (si_output_len (shm_slot (nd_shm v2'))) 0xFFFF))
      (im_msg_id x) (status_of errnum ret')"
  have shm: "nd_shm v1 = nd_shm (sent_node False (usr 9) rm v3)" using U by (simp add: v3_def rm_def)
  have r3: "tx_ring False (nd_shm v3) = tx_ring False m" using F(2) w(2) by (simp add: v3_def)
  have wf3: "ring_wf (tx_ring False (nd_shm v3))" "length (ring_abs (tx_ring False (nd_shm v3))) < length (rb_slots (tx_ring False (nd_shm v3)))"
    unfolding r3 using assms(4) room_when_empty [OF assms(4,6)] by blast+
  note S = sent_node_fields [OF wf3, where us = "usr 9" and msg = rm, folded shm]
  have "ring_abs (tx_ring False (nd_shm v1)) = [fst (stamp (usr 9) rm (nd_ipc v3))]" using S(1) r3 assms(6) by simp
  moreover have "shm_slot (nd_shm v1) = (shm_slot (nd_shm v2))\<lparr>si_infer_status := status_of errnum ret\<rparr>"
    using S(5) eq by (simp add: v3_def)
  ultimately show ?thesis using S(2) eq by (simp add: stamp_msg rm_def mk_resp_def)
qed

text \<open>The status and the output a local run gives the caller of a remote one.\<close>

definition outcome :: "(errno \<Rightarrow> int) \<Rightarrow> u32 \<Rightarrow> unit res \<Rightarrow> syn_shm_infer_slot \<Rightarrow> int \<times> u8 list option" where
  "outcome errnum cap ret s =
     (case ret of Inl e \<Rightarrow> (- errnum e, None)
      | Inr _ \<Rightarrow> if si_output_len s > cap then (- errnum EMSGSIZE, None) else (0, Some (take (unat (si_output_len s)) (si_output s))))"

text \<open>The request of the caller, in the ring of the other core.\<close>

lemma request_sent:
  fixes r1 :: "'c requester" and us :: "nat \<Rightarrow> u32" and priority n len model input
  assumes "ic_ready (nd_ipc r1)" "ring_wf (tx_ring True (nd_shm r1))"
    "length (ring_abs (tx_ring True (nd_shm r1))) < length (rb_slots (tx_ring True (nd_shm r1)))"
  defines "req \<equiv> mk_req T_INFER_REQ priority (ucast len) n"
  defines "r2 \<equiv> upd_slot (fill_request model input len) r1\<lparr>rq_resp_sem := False\<rparr>"
  defines "r3 \<equiv> sent_node True (us 9) req r2" and "x \<equiv> fst (stamp (us 9) req (nd_ipc r2))"
  shows "send_with_retry True us nap req r2 = (Ok (), r3)" "ring_abs (tx_ring True (nd_shm r3)) = ring_abs (tx_ring True (nd_shm r1)) @ [x]"
    "ring_wf (tx_ring True (nd_shm r3))" "tx_ring False (nd_shm r3) = tx_ring False (nd_shm r1)"
    "shm_slot (nd_shm r3) = fill_request model input len (shm_slot (nd_shm r1))" "ic_handlers (nd_ipc r3) = ic_handlers (nd_ipc r1)"
    "ic_rx_queue (nd_ipc r3) = ic_rx_queue (nd_ipc r1)" "im_type x = T_INFER_REQ" "im_priority x = priority"
proof -
  have r2: "tx_ring b (nd_shm r2) = tx_ring b (nd_shm r1)" "nd_ipc r2 = nd_ipc r1"
    "shm_slot (nd_shm r2) = fill_request model input len (shm_slot (nd_shm r1))" for b
    by (simp_all add: r2_def upd_slot_def)
  have room: "ring_wf (tx_ring True (nd_shm r2))" "length (ring_abs (tx_ring True (nd_shm r2))) < length (rb_slots (tx_ring True (nd_shm r2)))"
    using assms(2,3) by (simp_all add: r2)
  show "send_with_retry True us nap req r2 = (Ok (), r3)"
    unfolding r3_def by (rule send_room) (use room r2 assms(1) in \<open>simp_all add: req_def mk_req_def\<close>)
  note S = sent_node_fields [OF room, where us = "us 9" and msg = req, folded r3_def x_def]
  show "ring_abs (tx_ring True (nd_shm r3)) = ring_abs (tx_ring True (nd_shm r1)) @ [x]" "ring_wf (tx_ring True (nd_shm r3))"
    "tx_ring False (nd_shm r3) = tx_ring False (nd_shm r1)" "shm_slot (nd_shm r3) = fill_request model input len (shm_slot (nd_shm r1))"
    "ic_handlers (nd_ipc r3) = ic_handlers (nd_ipc r1)" "ic_rx_queue (nd_ipc r3) = ic_rx_queue (nd_ipc r1)"
    using S(1,2,5-7) S(4) [where b = False] r2 by simp_all
  show "im_type x = T_INFER_REQ" "im_priority x = priority" by (simp_all add: x_def stamp_msg req_def mk_req_def)
qed

text \<open>The other core serves it: the slot and the response carry the result of the local run.\<close>

lemma request_served:
  fixes r3 :: "'c requester" and v :: "('c, 'p) server" and len :: u32 and errnum :: "errno \<Rightarrow> int" and usr :: "nat \<Rightarrow> u32" and hl :: 'c
    and fl :: "syn_ipc_msg \<Rightarrow> ('c, 'p) server \<Rightarrow> ('c, 'p) server" and napr :: "nat \<Rightarrow> ('c, 'p) server \<Rightarrow> ('c, 'p) server"
  assumes "ic_ready (nd_ipc v)" "length (ic_rx_queue (nd_ipc v)) \<le> n" "ic_handlers (nd_ipc v) ! 0 = Some hi"
    and "ring_wf (tx_ring True (nd_shm r3))" "ring_abs (tx_ring True (nd_shm r3)) = [x]" "im_type x = T_INFER_REQ" "im_priority x = priority"
    and "ring_wf (tx_ring False (nd_shm r3))" "ring_abs (tx_ring False (nd_shm r3)) = []"
    and "shm_slot (nd_shm r3) = fill_request model input len sl"
    and "serve_checked E ms mw el (\<not> dg_paused (sv_gate v)) (if priority \<le> 2 then unat priority else 1)
       (upd_slot (\<lambda>_. (fill_request model input len sl)\<lparr>si_output_len := 0\<rparr>) v) = (ret, v2)"
    and "syn_ipc_rx_thread False n (nd_ipc v, nd_shm r3) = (as, c, m)"
  defines "v1 \<equiv> fold (serve_action hi hl (infer_req_handler errnum E ms mw el usr napr) fl) as (v\<lparr>nd_ipc := c, nd_shm := m\<rparr>)"
  shows "\<exists>resp. ring_abs (tx_ring False (nd_shm v1)) = [resp] \<and> ring_wf (tx_ring False (nd_shm v1)) \<and>
    im_type resp = T_INFER_RESP \<and> im_status resp = status_of errnum ret \<and>
    shm_slot (nd_shm v1) = (shm_slot (nd_shm v2))\<lparr>si_infer_status := status_of errnum ret\<rparr>"
proof -
  define w where "w = v\<lparr>nd_shm := (nd_shm r3)\<lparr>shm_slot := (shm_slot (nd_shm r3))\<lparr>si_output_len := 0\<rparr>\<rparr>\<rparr>"
  obtain ret' v2' where s: "serve_checked E ms mw el (\<not> dg_paused (sv_gate v)) (if im_priority x \<le> 2 then unat (im_priority x) else 1) w = (ret', v2')"
    by fastforce
  have slots: "shm_slot (nd_shm (upd_slot (\<lambda>_. (fill_request model input len sl)\<lparr>si_output_len := 0\<rparr>) v)) = shm_slot (nd_shm w)"
    "sv_exec (upd_slot (\<lambda>_. (fill_request model input len sl)\<lparr>si_output_len := 0\<rparr>) v) = sv_exec w"
    by (simp_all add: w_def assms(10))
  have eq: "ret' = ret" "shm_slot (nd_shm v2') = shm_slot (nd_shm v2)"
    using serve_checked_cong [OF assms(11) s [unfolded assms(7)] slots] by simp_all
  show ?thesis
    using serve_half [OF assms(1-3) _ assms(4) _ assms(5,6) s [unfolded w_def] assms(12), where errnum = errnum and usr = usr and hl = hl and fl = fl and napr = napr]
      assms(8,9) unfolding v1_def [symmetric] eq by auto
qed

text \<open>The caller gets what the serve of the slot gives, and the slot carries the request.\<close>

lemma remote_call_serves_the_slot:
  fixes r :: "'c requester" and v :: "('c, 'p) server"
  assumes "exchange_ready n h hi r v" "\<And>e. errnum e > 0" "input \<noteq> In_null" "len \<noteq> 0" "unat len \<le> SYN_SHM_INFER_INPUT_SIZE"
    "serve_checked E ms mw el (\<not> dg_paused (sv_gate v)) (if priority \<le> 2 then unat priority else 1)
       (upd_slot (\<lambda>_. (fill_request model input len (shm_slot (nd_shm r)))\<lparr>si_output_len := 0\<rparr>) v) = (ret, v2)"
  shows "(case syn_remote_infer errnum n h us nap (exchange n h (serve_action hi hl (infer_req_handler errnum E ms mw el usr napr) fl) v)
       model input len True cap priority r of (st, out, r') \<Rightarrow> (st, out)) = outcome errnum cap ret (shm_slot (nd_shm v2))"
proof -
  have X: "ic_ready (nd_ipc r)" "ic_ready (nd_ipc v)" "ring_wf (tx_ring False (nd_shm r))" "ring_wf (tx_ring True (nd_shm r))"
    "ring_abs (tx_ring False (nd_shm r)) = []" "ring_abs (tx_ring True (nd_shm r)) = []"
    "length (ic_rx_queue (nd_ipc r)) \<le> n" "length (ic_rx_queue (nd_ipc v)) \<le> n" "length (ic_handlers (nd_ipc r)) = 6"
    "rq_handlers_ready r \<longrightarrow> ic_handlers (nd_ipc r) ! 1 = Some h" "ic_handlers (nd_ipc v) ! 0 = Some hi"
    using assms(1) by (simp_all add: exchange_ready_def)
  obtain r1 where e: "ensure_handlers h r = (Ok (), r1)" "ic_handlers (nd_ipc r1) ! 1 = Some h" "nd_shm r1 = nd_shm r"
    "ic_ready (nd_ipc r1)" "ic_rx_queue (nd_ipc r1) = ic_rx_queue (nd_ipc r)"
    using ensure_handlers_ready [OF X(9,10)] X(1) by auto
  define req where "req = mk_req T_INFER_REQ priority (ucast len) n"
  define r2 where "r2 = upd_slot (fill_request model input len) r1\<lparr>rq_resp_sem := False\<rparr>"
  define r3 where "r3 = sent_node True (us 9) req r2"
  define x where "x = fst (stamp (us 9) req (nd_ipc r2))"
  note S = request_sent [where ?r1.0 = r1 and us = us and priority = priority and len = len and n = n and model = model and input = input, folded req_def, folded r2_def, folded r3_def x_def, unfolded e(3),
    OF e(4) X(4) room_when_empty [OF X(4,6)]]
  have q: "ring_abs (tx_ring True (nd_shm r3)) = [x]" using S(2) X(6) by simp
  define act where "act = serve_action hi hl (infer_req_handler errnum E ms mw el usr napr) fl"
  obtain as c m where t0: "syn_ipc_rx_thread False n (nd_ipc v, nd_shm r3) = (as, c, m)" by (metis prod_cases3)
  define v1 where "v1 = fold act as (v\<lparr>nd_ipc := c, nd_shm := m\<rparr>)"
  obtain resp where H: "ring_abs (tx_ring False (nd_shm v1)) = [resp]" "ring_wf (tx_ring False (nd_shm v1))"
    "im_type resp = T_INFER_RESP" "im_status resp = status_of errnum ret"
    "shm_slot (nd_shm v1) = (shm_slot (nd_shm v2))\<lparr>si_infer_status := status_of errnum ret\<rparr>"
    using request_served [OF X(2,8,11) S(3) q S(8,9) _ _ S(5) assms(6) t0, where errnum = errnum and usr = usr and hl = hl and fl = fl and napr = napr]
      S(4) X(3,5) unfolding act_def [symmetric] v1_def [symmetric] by auto
  obtain bs c1 m1 where t1: "syn_ipc_rx_thread True n (nd_ipc r3, nd_shm v1) = (bs, c1, m1)" by (metis prod_cases3)
  have hr: "handler_of (nd_ipc r3) resp = Some h" using S(6) e(2) H(3) by (simp add: handler_of_def)
  have q1: "ring_wf (tx_ring (\<not> True) (nd_shm v1))" "ring_abs (tx_ring (\<not> True) (nd_shm v1)) = [resp]" using H(1,2) by simp_all
  have lq: "length (ic_rx_queue (nd_ipc r3)) \<le> n" using S(7) e(5) X(7) by simp
  note R = rx_single [OF q1(1) lq q1(2) hr t1]
  have ex: "exchange n h act v r3 = resp_handler resp (r3\<lparr>nd_ipc := c1, nd_shm := m1\<rparr>)"
    unfolding exchange_def t0 prod.case Let_def v1_def [symmetric] t1 R(1) by simp
  have tr: "transact us nap (exchange n h act v) req (upd_slot (fill_request model input len) r1) =
      (Ok (), (resp_handler resp (r3\<lparr>nd_ipc := c1, nd_shm := m1\<rparr>))\<lparr>rq_resp_sem := False\<rparr>)"
    unfolding transact_def r2_def [symmetric] S(1) by (simp add: Let_def ex resp_handler_def)
  define r4 where "r4 = (resp_handler resp (r3\<lparr>nd_ipc := c1, nd_shm := m1\<rparr>))\<lparr>rq_resp_sem := False\<rparr>"
  obtain st out where p: "take_response errnum cap r4 = (st, out)" by fastforce
  have "infer_slot r \<noteq> None" using X(1) by (simp add: infer_slot_def syn_ipc_region_def)
  then have "(case syn_remote_infer errnum n h us nap (exchange n h act v) model input len True cap priority r of (st, out, r') \<Rightarrow> (st, out)) =
      take_response errnum cap r4"
    using assms(3-5) unfolding syn_remote_infer_def e(1) req_def [symmetric] by (simp add: tr [folded r4_def] p del: not_None_eq)
  also have "\<dots> = outcome errnum cap ret (shm_slot (nd_shm v2))"
    using R(4) H(4,5) unfolding r4_def
    by (cases ret) (auto simp: take_response_def resp_handler_def outcome_def status_of_def Let_def simp: less_imp_neq [OF assms(2), symmetric])
  finally show ?thesis unfolding act_def .
qed

text \<open>
  The same inference by a thread of the AI core: a tensor with the bytes in the ephemeral pool, a
  synchronous run. \<open>input_bytes\<close> is what the caller passes, in a buffer of its own or in the slot.
\<close>

definition local_infer ::
  "'p exec_env \<Rightarrow> nat \<Rightarrow> ('p exec \<Rightarrow> 'p exec) \<Rightarrow> nat \<Rightarrow> nat \<Rightarrow> u8 list \<Rightarrow> 'p exec \<Rightarrow> unit res \<times> itensor" where
  "local_infer E max_stages meanwhile prio model bytes w =
     (case syn_model_get_info model True (ex_reg w) of
        Inl e \<Rightarrow> (Err e, zero_tensor)
      | Inr info \<Rightarrow>
          (case syn_mem_tensor_alloc (ev_tensor_sz E) (Some [of_nat (length bytes)]) 1 (dtype_of (mi_input_dtype info)) SYN_MEM_EPHEMERAL (ex_mem w) of
             (None, _) \<Rightarrow> (Err ENOMEM, zero_tensor)
           | (Some (_, d), a) \<Rightarrow>
               (case syn_infer_run_sync E max_stages meanwhile model (Some (syn_tensor.extend d \<lparr>tn_bytes = bytes\<rparr>)) (Some zero_tensor) prio (w\<lparr>ex_mem := a\<rparr>) of
                  (ret, out, _) \<Rightarrow> (ret, case out of Some x \<Rightarrow> x | None \<Rightarrow> zero_tensor))))"

fun input_bytes :: "infer_input \<Rightarrow> u32 \<Rightarrow> syn_shm_infer_slot \<Rightarrow> u8 list" where
  "input_bytes (In_buf xs) len s = take (unat len) xs"
| "input_bytes _ len s = take (unat len) (si_input s)"

lemma serve_is_local:
  assumes "serve_checked E ms mw el True prio (upd_slot (\<lambda>_. (fill_request model input len s)\<lparr>si_output_len := 0\<rparr>) v) = (ret, v2)"
    and "local_infer E ms mw prio (unat model) (input_bytes input len s) (sv_exec v) = (ret', out)"
    and "length (input_bytes input len s) = unat len" "len \<noteq> 0" "unat len \<le> SYN_SHM_INFER_INPUT_SIZE"
  shows "ret = (if is_ok ret' \<and> SYN_SHM_INFER_OUTPUT_SIZE < unat (tn_size out) then Err EMSGSIZE else ret')"
    "is_ok ret \<Longrightarrow> shm_slot (nd_shm v2) = store_output out ((fill_request model input len s)\<lparr>si_output_len := 0\<rparr>)"
proof -
  have b: "take (unat len) (si_input (fill_request model input len s)) = input_bytes input len s"
    using assms(3) by (cases input) (simp_all add: fill_request_def memcpy_into_def)
  have l: "(of_nat (length (input_bytes input len s)) :: u32) = len" using assms(3) by simp
  have f: "si_model (fill_request model input len s) = model" "si_input_len (fill_request model input len s) = len"
    by (simp_all add: fill_request_def)
  have "ret = (if is_ok ret' \<and> SYN_SHM_INFER_OUTPUT_SIZE < unat (tn_size out) then Err EMSGSIZE else ret') \<and>
    (is_ok ret \<longrightarrow> shm_slot (nd_shm v2) = store_output out ((fill_request model input len s)\<lparr>si_output_len := 0\<rparr>))"
    using assms(1,2,4,5) unfolding serve_checked_def serve_run_def local_infer_def l
    by (auto simp: f b Let_def not_le split: if_split_asm sum.splits prod.splits option.splits)
  then show "ret = (if is_ok ret' \<and> SYN_SHM_INFER_OUTPUT_SIZE < unat (tn_size out) then Err EMSGSIZE else ret')"
    "is_ok ret \<Longrightarrow> shm_slot (nd_shm v2) = store_output out ((fill_request model input len s)\<lparr>si_output_len := 0\<rparr>)" by blast+
qed

text \<open>
  C6: with both cores up, nothing in flight and the response inside the wait (the receive threads of
  both cores run while the caller waits), a remote inference gives its caller exactly what a run on the
  AI core gives for the caller's model and input bytes: its error, or its output bytes, or EMSGSIZE when
  the output does not fit the slot or the caller's buffer. While an update drains the caller gets EAGAIN.
  Request, receive thread and handler of CPU0, response and handler of CPU1 are all in between.
\<close>

theorem remote_call_is_the_local_call:
  fixes r :: "'c requester" and v :: "('c, 'p) server"
  assumes "exchange_ready n h hi r v" "\<And>e. errnum e > 0" "input \<noteq> In_null" "len \<noteq> 0" "unat len \<le> SYN_SHM_INFER_INPUT_SIZE"
    and "length (input_bytes input len (shm_slot (nd_shm r))) = unat len"
    and "local_infer E ms mw (if priority \<le> 2 then unat priority else 1) (unat model) (input_bytes input len (shm_slot (nd_shm r))) (sv_exec v) = (ret, res)"
    and "is_ok ret \<Longrightarrow> length (tn_bytes res) = unat (tn_size res)"
  shows "(case syn_remote_infer errnum n h us nap (exchange n h (serve_action hi hl (infer_req_handler errnum E ms mw el usr napr) fl) v)
       model input len True cap priority r of (st, out, r') \<Rightarrow> (st, out)) =
    (if dg_paused (sv_gate v) then (- errnum EAGAIN, None)
     else case ret of Inl e \<Rightarrow> (- errnum e, None)
       | Inr _ \<Rightarrow> if unat (tn_size res) > SYN_SHM_INFER_OUTPUT_SIZE \<or> tn_size res > cap then (- errnum EMSGSIZE, None)
          else (0, Some (tn_bytes res)))"
proof -
  let ?s = "shm_slot (nd_shm r)" let ?prio = "if priority \<le> 2 then unat priority else 1"
  obtain ret' v2 where s: "serve_checked E ms mw el (\<not> dg_paused (sv_gate v)) ?prio
      (upd_slot (\<lambda>_. (fill_request model input len ?s)\<lparr>si_output_len := 0\<rparr>) v) = (ret', v2)" by fastforce
  show ?thesis
  proof (cases "dg_paused (sv_gate v)")
    case True
    then have "ret' = Err EAGAIN" using s by (simp add: serve_checked_def)
    then show ?thesis using remote_call_serves_the_slot [OF assms(1-5) s] True by (simp add: outcome_def)
  next
    case False
    then have s': "serve_checked E ms mw el True ?prio (upd_slot (\<lambda>_. (fill_request model input len ?s)\<lparr>si_output_len := 0\<rparr>) v) = (ret', v2)"
      using s by simp
    note L = serve_is_local [OF s' assms(7,6,4,5)]
    have "take (unat (tn_size res)) (memcpy_into y (tn_bytes res) (unat (tn_size res))) = tn_bytes res" if "is_ok ret" for y
      using assms(8) [OF that] by (simp add: memcpy_into_def)
    then show ?thesis using remote_call_serves_the_slot [OF assms(1-5) s] False L assms(8)
      by (cases ret) (auto simp: outcome_def store_output_def)
  qed
qed

definition demo_server_open :: "(nat, unit) server" where
  "demo_server_open = demo_server\<lparr>sv_gate := syn_drain_gate_init, nd_ipc := (fst demo_up)\<lparr>ic_handlers := [Some 7, None, None, None, None, None]\<rparr>\<rparr>"

definition demo_requester :: "nat requester" where
  "demo_requester = \<lparr>nd_ipc = fst demo_up, nd_shm = snd demo_up, rq_resp_sem = False, rq_resp_msg = zero_msg, rq_handlers_ready = False\<rparr>"

lemma demo_exchange_ready: "exchange_ready 4 5 7 demo_requester demo_server_open"
  unfolding exchange_ready_def demo_requester_def demo_server_open_def demo_server_def
  by (simp_all only: node.simps requester.simps server.simps demo_up_fields ipc.simps) (simp_all add: demo_up_fields)

theorem remote_call_is_the_local_call_witness:
  "(case syn_remote_infer demo_errnum 4 5 of_nat (\<lambda>_. id)
      (exchange 4 5 (serve_action 7 8 (infer_req_handler demo_errnum demo_env 8 id 3 of_nat (\<lambda>_. id)) (\<lambda>_. id)) demo_server_open)
      0 (In_buf [1, 2, 3]) 3 True 16 1 demo_requester of (st, out, r') \<Rightarrow> (st, out)) = (- 22, None)"
proof -
  have p: "demo_errnum e > 0" for e by (simp add: demo_errnum_def)
  have g: "\<not> dg_paused (sv_gate demo_server_open)" by (simp add: demo_server_open_def gate_defs)
  have l: "local_infer demo_env 8 id (if (1 :: u8) \<le> 2 then unat (1 :: u8) else 1) (unat (0 :: u32))
      (input_bytes (In_buf [1, 2, 3]) 3 (shm_slot (nd_shm demo_requester))) (sv_exec demo_server_open) = (Err EINVAL, zero_tensor)"
    by (simp add: local_infer_def syn_model_get_info_def active_index_def handle_to_index_def)
  show ?thesis
    by (subst remote_call_is_the_local_call [OF demo_exchange_ready p _ _ _ _ l]) (simp_all add: g demo_errnum_def)
qed

text \<open>
  The requester does not look at the id or the type of the response that ends its wait: a late
  response of an earlier request that timed out completes the next request with status 0, and gives its
  caller the old content of the output area.
\<close>

theorem late_response_answers_the_next_request:
  fixes r :: "'c requester"
  assumes "ic_ready (nd_ipc r)" "ring_wf (tx_ring True (nd_shm r))"
    "length (ring_abs (tx_ring True (nd_shm r))) < length (rb_slots (tx_ring True (nd_shm r)))"
    "length (ic_handlers (nd_ipc r)) = 6" "rq_handlers_ready r \<longrightarrow> ic_handlers (nd_ipc r) ! 1 = Some h"
    "input \<noteq> In_null" "len \<noteq> 0" "unat len \<le> SYN_SHM_INFER_INPUT_SIZE"
    "im_status late = 0" "si_output_len (shm_slot (nd_shm r)) \<le> cap"
  shows "(case syn_remote_infer errnum n h us nap (resp_handler late) model input len True cap priority r of (st, out, r') \<Rightarrow> (st, out)) =
    (0, Some (take (unat (si_output_len (shm_slot (nd_shm r)))) (si_output (shm_slot (nd_shm r)))))"
proof -
  obtain r1 where e: "ensure_handlers h r = (Ok (), r1)" "nd_shm r1 = nd_shm r" "ic_ready (nd_ipc r1)"
    using ensure_handlers_ready [OF assms(4,5)] assms(1) by auto
  define req where "req = mk_req T_INFER_REQ priority (ucast len) n"
  define r2 where "r2 = upd_slot (fill_request model input len) r1\<lparr>rq_resp_sem := False\<rparr>"
  define r3 where "r3 = sent_node True (us 9) req r2"
  note S = request_sent [where ?r1.0 = r1 and us = us and priority = priority and len = len and n = n and model = model and input = input, folded req_def, folded r2_def, folded r3_def, unfolded e(2), OF e(3) assms(2,3)]
  have slot: "shm_slot (nd_shm r3) = fill_request model input len (shm_slot (nd_shm r))" by (rule S(5))
  have tr: "transact us nap (resp_handler late) req (upd_slot (fill_request model input len) r1) = (Ok (), (resp_handler late r3)\<lparr>rq_resp_sem := False\<rparr>)"
    unfolding transact_def r2_def [symmetric] S(1) by (simp add: Let_def resp_handler_def)
  have p: "take_response errnum cap ((resp_handler late r3)\<lparr>rq_resp_sem := False\<rparr>) =
      (0, Some (take (unat (si_output_len (shm_slot (nd_shm r)))) (si_output (shm_slot (nd_shm r)))))"
    using assms(9,10) by (simp add: take_response_def resp_handler_def slot fill_request_def Let_def not_less)
  have "infer_slot r \<noteq> None" using assms(1) by (simp add: infer_slot_def syn_ipc_region_def)
  then show ?thesis using assms(6-8) unfolding syn_remote_infer_def e(1) req_def [symmetric] by (simp add: tr p del: not_None_eq)
qed

theorem late_response_answers_the_next_request_witness:
  "(case syn_remote_infer demo_errnum 4 5 of_nat (\<lambda>_. id) (resp_handler (mk_resp 1 0 0 77 0)) 1 (In_buf [1, 2, 3]) 3 True 16 1 demo_requester of
     (st, out, r') \<Rightarrow> (st, out)) = (0, Some [])"
proof -
  have l: "si_output_len (shm_slot (nd_shm demo_requester)) = 0"
    by (simp add: demo_requester_def demo_up_def syn_ipc_init_def Let_def boot_ipc_def SYN_SHM_PAYLOAD_OFFSET_def zero_shm_def)
  have f: "ic_ready (nd_ipc demo_requester)" "ring_wf (tx_ring True (nd_shm demo_requester))" "ring_abs (tx_ring True (nd_shm demo_requester)) = []"
    "length (ic_handlers (nd_ipc demo_requester)) = 6" "\<not> rq_handlers_ready demo_requester"
    by (simp_all only: demo_requester_def node.simps requester.simps demo_up_fields) simp_all
  show ?thesis
    by (subst late_response_answers_the_next_request [OF f(1,2) room_when_empty [OF f(2,3)] f(4)])
       (simp_all add: l f(5) mk_resp_def)
qed

end
