(* ===== verification/Dsp.thy ===== *)
theory Dsp
  imports Float32
begin

text \<open>
  The DSP layer: the software kernels of \<open>src/hal/common/syn_dsp_soft.c\<close>, the element-wise operations
  of \<open>src/hal/stub/syn_hal_dsp_stub.c\<close> (the same bodies stand in the PowerQuad driver) and the
  PowerQuad driver \<open>src/hal/mcxn947/syn_hal_dsp_pq.c\<close> with its self-calibration and its cache of the
  coprocessor configuration. The coprocessor behind \<open>fsl_powerquad.h\<close> is a parameter: a record
  \<open>pq_engine\<close> of what a transform and a product return under the configuration that is applied. An
  array argument is an option, None for NULL.
\<close>

type_synonym i16 = "16 word"
type_synonym i32 = "32 word"
type_synonym i8 = "8 word"

section \<open>Software kernels\<close>

subsection \<open>Complex FFT\<close>

definition FFT_MAX_LEN :: nat where "FFT_MAX_LEN = 1024"

definition is_pow2 :: "nat \<Rightarrow> bool" where
  "is_pow2 x \<longleftrightarrow> x \<noteq> 0 \<and> x AND (x - 1) = 0"

text \<open>The reversed counter: \<open>while (j & bit) { j ^= bit; bit >>= 1; } j |= bit\<close>.\<close>

function rev_next :: "nat \<Rightarrow> nat \<Rightarrow> nat" where
  "rev_next j b = (if j AND b \<noteq> 0 then rev_next (j XOR b) (b div 2) else j OR b)"
  by pat_completeness auto
termination
proof (relation "measure snd")
  fix j b :: nat
  assume "j AND b \<noteq> 0"
  then have "b \<noteq> 0" by (cases b) auto
  then show "((j XOR b, b div 2), (j, b)) \<in> measure snd" by simp
qed simp

declare rev_next.simps [simp del]

definition swap_at :: "nat \<Rightarrow> nat \<Rightarrow> 'a list \<Rightarrow> 'a list" where
  "swap_at a b xs = xs[a := xs ! b, b := xs ! a]"

fun bitrev_loop :: "nat \<Rightarrow> nat list \<Rightarrow> nat \<Rightarrow> 'a list \<Rightarrow> 'a list" where
  "bitrev_loop len [] j xs = xs"
| "bitrev_loop len (i # is) j xs =
     bitrev_loop len is (rev_next j (len div 2))
       (if i < j then swap_at (2 * i + 1) (2 * j + 1) (swap_at (2 * i) (2 * j) xs) else xs)"

definition butterfly :: "nat \<Rightarrow> nat \<Rightarrow> f32 \<Rightarrow> f32 \<Rightarrow> f32 list \<Rightarrow> f32 list" where
  "butterfly u v wr wi xs =
     (let br = f_sub (f_mul (xs ! (2 * v)) wr) (f_mul (xs ! (2 * v + 1)) wi);
          bi = f_add (f_mul (xs ! (2 * v)) wi) (f_mul (xs ! (2 * v + 1)) wr);
          tr = xs ! (2 * u); ti = xs ! (2 * u + 1)
      in xs[2 * v := f_sub tr br, 2 * v + 1 := f_sub ti bi, 2 * u := f_add tr br, 2 * u + 1 := f_add ti bi])"

fun pair_loop :: "nat \<Rightarrow> nat \<Rightarrow> f32 \<Rightarrow> f32 \<Rightarrow> nat list \<Rightarrow> f32 \<Rightarrow> f32 \<Rightarrow> f32 list \<Rightarrow> f32 list" where
  "pair_loop grp half sr si [] wr wi xs = xs"
| "pair_loop grp half sr si (p # ps) wr wi xs =
     pair_loop grp half sr si ps (f_sub (f_mul wr sr) (f_mul wi si)) (f_add (f_mul wr si) (f_mul wi sr))
       (butterfly (grp + p) (grp + p + half) wr wi xs)"

definition fft_stage :: "libm \<Rightarrow> nat \<Rightarrow> nat \<Rightarrow> f32 list \<Rightarrow> f32 list" where
  "fft_stage L len stage xs =
     (let angle = f_div (f_mul (f_lit (- 2) 1) (f_lit 314159265358979 (10 ^ 14))) (f_of_int (int stage));
          sr = m_cos L angle; si = m_sin L angle
      in foldl (\<lambda>xs g. pair_loop (g * stage) (stage div 2) sr si [0..<stage div 2] (f_lit 1 1) (f_lit 0 1) xs) xs
           [0..<len div stage])"

function fft_stages :: "libm \<Rightarrow> nat \<Rightarrow> nat \<Rightarrow> f32 list \<Rightarrow> f32 list" where
  "fft_stages L len stage xs = (if 0 < stage \<and> stage \<le> len then fft_stages L len (2 * stage) (fft_stage L len stage xs) else xs)"
  by pat_completeness auto
termination by (relation "measure (\<lambda>(_, len, stage, _). Suc len - stage)") auto

declare fft_stages.simps [simp del]

definition syn_dsp_soft_fft_f32 :: "libm \<Rightarrow> f32 list option \<Rightarrow> bool \<Rightarrow> nat \<Rightarrow> f32 list res" where
  "syn_dsp_soft_fft_f32 L inp has_out len =
     (case inp of
        None \<Rightarrow> Err EINVAL
      | Some xs \<Rightarrow>
          if \<not> has_out \<or> len < 2 \<or> len > FFT_MAX_LEN \<or> \<not> is_pow2 len then Err EINVAL
          else Ok (fft_stages L len 2 (bitrev_loop len [0..<len] 0 (take (2 * len) xs))))"

subsection \<open>Q15 matrix times vector\<close>

definition q15_row :: "i16 list \<Rightarrow> i16 list \<Rightarrow> nat \<Rightarrow> nat \<Rightarrow> int" where
  "q15_row a b cols r = foldl (\<lambda>acc c. acc + sint (a ! (r * cols + c)) * sint (b ! c)) 0 [0..<cols]"

definition q15_sat :: "int \<Rightarrow> i16" where
  "q15_sat acc = (let v = acc div 2 ^ 15
     in if v > 2 ^ 15 - 1 then of_int (2 ^ 15 - 1) else if v < - (2 ^ 15) then of_int (- (2 ^ 15)) else of_int v)"

definition syn_dsp_soft_mat_mult_q15 :: "i16 list option \<Rightarrow> i16 list option \<Rightarrow> bool \<Rightarrow> u16 \<Rightarrow> u16 \<Rightarrow> i16 list res" where
  "syn_dsp_soft_mat_mult_q15 a b has_out rows cols =
     (case (a, b) of
        (Some a, Some b) \<Rightarrow>
          if \<not> has_out \<or> rows = 0 \<or> cols = 0 then Err EINVAL
          else Ok (map (\<lambda>r. q15_sat (q15_row a b (unat cols) r)) [0..<unat rows])
      | _ \<Rightarrow> Err EINVAL)"

section \<open>Element-wise operations\<close>

definition clamp8 :: "int \<Rightarrow> i8" where
  "clamp8 v = (if v < - 128 then of_int (- 128) else if v > 127 then of_int 127 else of_int v)"

definition syn_hal_dsp_normalize_int8 :: "u8 list option \<Rightarrow> bool \<Rightarrow> nat \<Rightarrow> f32 \<Rightarrow> int \<Rightarrow> i8 list res" where
  "syn_hal_dsp_normalize_int8 inp has_out len scale zero_point =
     (case inp of
        None \<Rightarrow> Err EINVAL
      | Some xs \<Rightarrow>
          if \<not> has_out \<or> len = 0 then Err EINVAL
          else Ok (map (\<lambda>x. clamp8 (add_i32 (f_to_i32 (f_mul (f_of_int (uint x)) scale)) zero_point)) (take len xs)))"

definition syn_hal_dsp_softmax_f32 :: "libm \<Rightarrow> f32 list option \<Rightarrow> bool \<Rightarrow> nat \<Rightarrow> f32 list res" where
  "syn_hal_dsp_softmax_f32 L inp has_out len =
     (case inp of
        None \<Rightarrow> Err EINVAL
      | Some xs \<Rightarrow>
          if \<not> has_out \<or> len = 0 then Err EINVAL
          else let max_val = foldl (\<lambda>m x. if f_lt m x then x else m) (xs ! 0) (map (nth xs) [1..<len]);
                   es = map (\<lambda>x. m_exp L (f_sub x max_val)) (take len xs);
                   sum = foldl f_add (f_lit 0 1) es
               in Ok (if f_lt (f_lit 0 1) sum then map (\<lambda>e. f_div e sum) es else es))"

definition syn_hal_dsp_argmax :: "i8 list option \<Rightarrow> nat \<Rightarrow> nat res" where
  "syn_hal_dsp_argmax data len =
     (case data of
        None \<Rightarrow> Err EINVAL
      | Some xs \<Rightarrow>
          if len = 0 then Err EINVAL
          else Ok (snd (foldl (\<lambda>(m, k) i. if sint (xs ! i) > sint m then (xs ! i, i) else (m, k)) (xs ! 0, 0) [1..<len])))"

section \<open>The PowerQuad driver\<close>

subsection \<open>The engine\<close>

definition PQ_FFT_MAX_LEN :: nat where "PQ_FFT_MAX_LEN = 512"
definition PQ_FFT_MIN_LEN :: nat where "PQ_FFT_MIN_LEN = 8"
definition PQ_MAT_MAX_DIM :: nat where "PQ_MAT_MAX_DIM = 16"

datatype pq_format = kPQ_16Bit | kPQ_32Bit | kPQ_Float

record pq_config =
  cf_inputA :: pq_format
  cf_inputB :: pq_format
  cf_output :: pq_format
  cf_prescale :: int
  cf_tmp :: pq_format
  cf_machine :: pq_format

text \<open>
  What \<open>PQ_GetDefaultConfig\<close> fills in, the configuration \<open>PQ_Init\<close> leaves in the coprocessor and the
  results of its two operations under an applied configuration.
\<close>

record pq_engine =
  pe_default :: pq_config
  pe_reset :: pq_config
  pe_cfft :: "pq_config \<Rightarrow> nat \<Rightarrow> i32 list \<Rightarrow> i32 list"
  pe_matmul :: "pq_config \<Rightarrow> nat \<Rightarrow> nat \<Rightarrow> i16 list \<Rightarrow> i16 list \<Rightarrow> i16 list"

datatype pq_cfg = PQ_CFG_NONE | PQ_CFG_FIXED32 | PQ_CFG_Q15

record pq_state =
  pq_fft_ok :: bool
  pq_mat_ok :: bool
  pq_gain_1_over_n :: bool
  pq_fft_gain :: f32
  pq_fft_cal_n :: nat
  pq_cfg_cur :: pq_cfg
  pq_hw :: pq_config

definition fixed32_config :: "pq_engine \<Rightarrow> pq_config" where
  "fixed32_config E = (pe_default E)\<lparr>cf_inputA := kPQ_32Bit, cf_inputB := kPQ_32Bit, cf_output := kPQ_32Bit,
     cf_tmp := kPQ_32Bit, cf_machine := kPQ_32Bit\<rparr>"

definition q15_config :: "pq_engine \<Rightarrow> pq_config" where
  "q15_config E = (pe_default E)\<lparr>cf_inputA := kPQ_16Bit, cf_inputB := kPQ_16Bit, cf_output := kPQ_16Bit,
     cf_prescale := - 15, cf_tmp := kPQ_Float, cf_machine := kPQ_Float\<rparr>"

definition pq_config_fixed32 :: "pq_engine \<Rightarrow> pq_state \<Rightarrow> pq_state" where
  "pq_config_fixed32 E s =
     (if pq_cfg_cur s = PQ_CFG_FIXED32 then s else s\<lparr>pq_hw := fixed32_config E, pq_cfg_cur := PQ_CFG_FIXED32\<rparr>)"

definition pq_config_q15 :: "pq_engine \<Rightarrow> pq_state \<Rightarrow> pq_state" where
  "pq_config_q15 E s =
     (if pq_cfg_cur s = PQ_CFG_Q15 then s else s\<lparr>pq_hw := q15_config E, pq_cfg_cur := PQ_CFG_Q15\<rparr>)"

subsection \<open>FFT\<close>

definition pq_f32_to_i32 :: "f32 \<Rightarrow> i32" where
  "pq_f32_to_i32 x = of_int (f_to_i32 (f_add x (if f_le (f_lit 0 1) x then f_lit 1 2 else f_lit (- 1) 2)))"

definition pq_fft_impulse_probe :: "pq_engine \<Rightarrow> nat \<Rightarrow> int \<Rightarrow> pq_state \<Rightarrow> i32 \<times> pq_state" where
  "pq_fft_impulse_probe E n amp s =
     (let s1 = pq_config_fixed32 E s
      in (pe_cfft E (pq_hw s1) n (of_int amp # replicate (2 * n - 1) 0) ! 0, s1))"

definition pq_calibrate_fft :: "pq_engine \<Rightarrow> pq_state \<Rightarrow> pq_state" where
  "pq_calibrate_fft E s =
     (let amp = 2 ^ 13; n1 = 16; n2 = 64;
          (r1, s1) = pq_fft_impulse_probe E n1 amp s;
          (r2, s2) = pq_fft_impulse_probe E n2 amp s1
      in if r1 = 0 \<or> r2 = 0 then s2
         else
           let g1 = f_div (f_of_int (sint r1)) (f_of_int amp);
               g2 = f_div (f_of_int (sint r2)) (f_of_int amp);
               ratio = f_div g1 g2;
               n_ratio = f_div (f_of_int (int n2)) (f_of_int (int n1));
               found = (\<lambda>b. s2\<lparr>pq_gain_1_over_n := b, pq_fft_gain := g1, pq_fft_cal_n := n1, pq_fft_ok := True\<rparr>)
           in if f_lt (f_abs (f_sub ratio (f_lit 1 1))) (f_lit 5 100) then found False
              else if f_lt (f_abs (f_sub ratio n_ratio)) (f_mul (f_lit 2 10) n_ratio) then found True
              else s2)"

definition pq_fft_gain_at :: "nat \<Rightarrow> pq_state \<Rightarrow> f32" where
  "pq_fft_gain_at n s =
     (if pq_gain_1_over_n s then f_div (f_mul (pq_fft_gain s) (f_of_int (int (pq_fft_cal_n s)))) (f_of_int (int n))
      else pq_fft_gain s)"

definition pq_fft_f32 :: "pq_engine \<Rightarrow> f32 list \<Rightarrow> nat \<Rightarrow> pq_state \<Rightarrow> f32 list \<times> pq_state" where
  "pq_fft_f32 E inp len s =
     (let xs = take (2 * len) inp;
          max_abs = foldl (\<lambda>m x. if f_lt m (f_abs x) then f_abs x else m) (f_lit 0 1) xs
      in if f_eq max_abs (f_lit 0 1) then (replicate (2 * len) 0, s)
         else
           let scale = f_exp2 (13 - f_frexp max_abs);
               buf_in = map (\<lambda>x. pq_f32_to_i32 (f_mul x scale)) xs;
               s1 = pq_config_fixed32 E s;
               buf_out = pe_cfft E (pq_hw s1) len buf_in;
               inv = f_div (f_lit 1 1) (f_mul scale (pq_fft_gain_at len s1))
           in (map (\<lambda>v. f_mul (f_of_int (sint v)) inv) (take (2 * len) buf_out), s1))"

subsection \<open>Matrix times vector\<close>

definition pq_mat_mult_q15 :: "pq_engine \<Rightarrow> i16 list \<Rightarrow> i16 list \<Rightarrow> nat \<Rightarrow> nat \<Rightarrow> pq_state \<Rightarrow> i16 list \<times> pq_state" where
  "pq_mat_mult_q15 E a b rows cols s =
     (let s1 = pq_config_q15 E s in (pe_matmul E (pq_hw s1) rows cols a b, s1))"

definition pq_calibrate_mat :: "pq_engine \<Rightarrow> pq_state \<Rightarrow> pq_state" where
  "pq_calibrate_mat E s =
     (let (r, s1) = pq_mat_mult_q15 E [16384, 8192, - 16384, 4096] [16384, - 16384] 2 2 s
      in if r ! 0 \<noteq> 4096 \<or> r ! 1 \<noteq> - 10240 then s1
         else let (r, s2) = pq_mat_mult_q15 E [- 32768, - 32768] [- 32768, - 32768] 1 2 s1
              in if r ! 0 \<noteq> 32767 then s2
                 else let (r, s3) = pq_mat_mult_q15 E [16384, 16384, 16384] [16384, 16384, 16384] 1 3 s2
                      in if r ! 0 \<noteq> 24576 then s3 else s3\<lparr>pq_mat_ok := True\<rparr>)"

subsection \<open>The HAL entry points\<close>

definition pq_boot :: "pq_config \<Rightarrow> pq_state" where
  "pq_boot hw = \<lparr>pq_fft_ok = False, pq_mat_ok = False, pq_gain_1_over_n = False, pq_fft_gain = 0, pq_fft_cal_n = 0,
     pq_cfg_cur = PQ_CFG_NONE, pq_hw = hw\<rparr>"

definition syn_hal_dsp_init :: "pq_engine \<Rightarrow> pq_state \<Rightarrow> pq_state" where
  "syn_hal_dsp_init E s = pq_calibrate_mat E (pq_calibrate_fft E (s\<lparr>pq_hw := pe_reset E\<rparr>))"

definition syn_hal_dsp_fft_f32 :: "libm \<Rightarrow> pq_engine \<Rightarrow> f32 list option \<Rightarrow> bool \<Rightarrow> nat \<Rightarrow> pq_state \<Rightarrow> f32 list res \<times> pq_state" where
  "syn_hal_dsp_fft_f32 L E inp has_out len s =
     (if pq_fft_ok s \<and> len \<ge> PQ_FFT_MIN_LEN \<and> len \<le> PQ_FFT_MAX_LEN \<and> len AND (len - 1) = 0 \<and> inp \<noteq> None \<and> has_out
      then let (ys, s1) = pq_fft_f32 E (the inp) len s in (Ok ys, s1)
      else (syn_dsp_soft_fft_f32 L inp has_out len, s))"

text \<open>An array of \<open>int16_t\<close> with its address.\<close>

definition syn_hal_dsp_mat_mult_q15 ::
  "pq_engine \<Rightarrow> (nat \<times> i16 list) option \<Rightarrow> (nat \<times> i16 list) option \<Rightarrow> nat option \<Rightarrow> u16 \<Rightarrow> u16 \<Rightarrow> pq_state \<Rightarrow>
   i16 list res \<times> pq_state" where
  "syn_hal_dsp_mat_mult_q15 E a b out rows cols s =
     (case (a, b, out) of
        (Some (pa, xa), Some (pb, xb), Some po) \<Rightarrow>
          if pq_mat_ok s \<and> rows > 0 \<and> unat rows \<le> PQ_MAT_MAX_DIM \<and> cols > 0 \<and> unat cols \<le> PQ_MAT_MAX_DIM \<and>
             pa AND 3 = 0 \<and> pb AND 3 = 0 \<and> po AND 3 = 0
          then let (r, s1) = pq_mat_mult_q15 E xa xb (unat rows) (unat cols) s in (Ok r, s1)
          else (syn_dsp_soft_mat_mult_q15 (Some xa) (Some xb) True rows cols, s)
      | _ \<Rightarrow> (Err EINVAL, s))"

section \<open>The first largest element\<close>

lemma argmax_fold:
  assumes "k0 < lo" "m0 = xs ! k0" "\<forall>j < lo. sint (xs ! j) \<le> sint m0 \<and> (j < k0 \<longrightarrow> sint (xs ! j) < sint m0)" "lo \<le> hi"
  shows "case foldl (\<lambda>(m, k) i. if sint (xs ! i) > sint m then (xs ! i, i) else (m, k)) (m0, k0) [lo..<hi] of (m, k) \<Rightarrow>
    k < hi \<and> m = xs ! k \<and> (\<forall>j < hi. sint (xs ! j) \<le> sint m \<and> (j < k \<longrightarrow> sint (xs ! j) < sint m))"
  using assms(4)
proof (induction hi rule: dec_induct)
  case base
  then show ?case using assms by auto
next
  case (step h)
  obtain m k where mk: "foldl (\<lambda>(m, k) i. if sint (xs ! i) > sint m then (xs ! i, i) else (m, k)) (m0, k0) [lo..<h] = (m, k)" by force
  with step.IH have I: "k < h" "m = xs ! k" "\<forall>j < h. sint (xs ! j) \<le> sint m \<and> (j < k \<longrightarrow> sint (xs ! j) < sint m)" by auto
  have "[lo..<Suc h] = [lo..<h] @ [h]" using step.hyps by simp
  then have F: "foldl (\<lambda>(m, k) i. if sint (xs ! i) > sint m then (xs ! i, i) else (m, k)) (m0, k0) [lo..<Suc h] =
      (if sint (xs ! h) > sint m then (xs ! h, h) else (m, k))" using mk by simp
  show ?case unfolding F using I by (cases "sint (xs ! h) > sint m") (auto simp: less_Suc_eq intro: order_trans order_le_less_trans)
qed

lemma argmax_first_max:
  assumes "syn_hal_dsp_argmax (Some xs) len = Ok k"
  shows "k < len \<and> (\<forall>j < len. sint (xs ! j) \<le> sint (xs ! k) \<and> (j < k \<longrightarrow> sint (xs ! j) < sint (xs ! k)))"
proof -
  have len: "1 \<le> len" using assms by (simp add: syn_hal_dsp_argmax_def split: if_splits)
  then show ?thesis using argmax_fold [of 0 1 "xs ! 0" xs len] assms
    by (auto simp: syn_hal_dsp_argmax_def split: prod.splits)
qed

section \<open>Fixed-point rows\<close>

text \<open>The 64-bit accumulator never overflows: a row has at most 65535 products below \<open>2 ^ 30\<close>.\<close>

lemma q15_prod_bound: "\<bar>sint (x :: i16) * sint (y :: i16)\<bar> \<le> 2 ^ 30"
proof -
  have "\<bar>sint z\<bar> \<le> 2 ^ 15" for z :: i16
    using sint_greater_eq [of z] sint_less [of z] by simp
  then have "\<bar>sint x\<bar> * \<bar>sint y\<bar> \<le> 2 ^ 15 * 2 ^ 15" by (intro mult_mono) simp_all
  then show ?thesis by (simp add: abs_mult)
qed

lemma q15_row_sum: "q15_row a b cols r = (\<Sum>c = 0..<cols. sint (a ! (r * cols + c)) * sint (b ! c))"
proof -
  have "foldl (\<lambda>acc c. acc + f c) v [0..<n] = v + (\<Sum>c = 0..<n. f c)" for f :: "nat \<Rightarrow> int" and v n
    by (induction n) auto
  then show ?thesis by (simp add: q15_row_def)
qed

lemma q15_row_fits: "cols < 2 ^ 16 \<Longrightarrow> \<bar>q15_row a b cols r\<bar> < 2 ^ 63"
proof -
  assume c: "cols < 2 ^ 16"
  have "\<bar>q15_row a b cols r\<bar> \<le> (\<Sum>c = 0..<cols. \<bar>sint (a ! (r * cols + c)) * sint (b ! c)\<bar>)"
    unfolding q15_row_sum by (rule sum_abs)
  also have "\<dots> \<le> (\<Sum>c = 0..<cols. 2 ^ 30)" by (intro sum_mono) (rule q15_prod_bound)
  also have "\<dots> < 2 ^ 63" using c by simp
  finally show ?thesis .
qed

section \<open>The configuration cache of the driver\<close>

text \<open>The coprocessor holds the configuration that the cache names.\<close>

definition pq_coherent :: "pq_engine \<Rightarrow> pq_state \<Rightarrow> bool" where
  "pq_coherent E s \<longleftrightarrow>
     (pq_cfg_cur s = PQ_CFG_FIXED32 \<longrightarrow> pq_hw s = fixed32_config E) \<and> (pq_cfg_cur s = PQ_CFG_Q15 \<longrightarrow> pq_hw s = q15_config E)"

lemma config_applied:
  "pq_coherent E s \<Longrightarrow> pq_hw (pq_config_q15 E s) = q15_config E"
  "pq_coherent E s \<Longrightarrow> pq_hw (pq_config_fixed32 E s) = fixed32_config E"
  "pq_coherent E s \<Longrightarrow> pq_coherent E (pq_config_q15 E s)"
  "pq_coherent E s \<Longrightarrow> pq_coherent E (pq_config_fixed32 E s)"
  by (auto simp: pq_coherent_def pq_config_q15_def pq_config_fixed32_def)

text \<open>What calibration found, as a function of the engine alone.\<close>

definition mat_probes_pass :: "pq_engine \<Rightarrow> bool" where
  "mat_probes_pass E \<longleftrightarrow> (let mm = pe_matmul E (q15_config E) in
     mm 2 2 [16384, 8192, - 16384, 4096] [16384, - 16384] ! 0 = 4096 \<and>
     mm 2 2 [16384, 8192, - 16384, 4096] [16384, - 16384] ! 1 = - 10240 \<and>
     mm 1 2 [- 32768, - 32768] [- 32768, - 32768] ! 0 = 32767 \<and>
     mm 1 3 [16384, 16384, 16384] [16384, 16384, 16384] ! 0 = 24576)"

definition pq_cal :: "pq_state \<Rightarrow> bool \<times> bool \<times> bool \<times> f32 \<times> nat" where
  "pq_cal s = (pq_fft_ok s, pq_mat_ok s, pq_gain_1_over_n s, pq_fft_gain s, pq_fft_cal_n s)"

lemma cal_config [simp]: "pq_cal (pq_config_q15 E s) = pq_cal s" "pq_cal (pq_config_fixed32 E s) = pq_cal s"
  by (simp_all add: pq_cal_def pq_config_q15_def pq_config_fixed32_def)

lemma calibrate_mat:
  assumes "pq_coherent E s"
  shows "pq_coherent E (pq_calibrate_mat E s)"
    "pq_cal (pq_calibrate_mat E s) = (if mat_probes_pass E then pq_cal (s\<lparr>pq_mat_ok := True\<rparr>) else pq_cal s)"
proof -
  have r: "pq_config_q15 E (pq_config_q15 E s) = pq_config_q15 E s" by (simp add: pq_config_q15_def)
  have u: "pq_coherent E (t\<lparr>pq_mat_ok := b\<rparr>) = pq_coherent E t" for t b by (simp add: pq_coherent_def)
  show "pq_coherent E (pq_calibrate_mat E s)"
    using config_applied(3) [OF assms] by (simp add: pq_calibrate_mat_def pq_mat_mult_q15_def Let_def r u)
  show "pq_cal (pq_calibrate_mat E s) = (if mat_probes_pass E then pq_cal (s\<lparr>pq_mat_ok := True\<rparr>) else pq_cal s)"
    using config_applied(1) [OF assms] cal_config(1) [of E s]
    by (simp add: pq_calibrate_mat_def pq_mat_mult_q15_def Let_def r mat_probes_pass_def pq_cal_def)
qed

lemma calibrate_fft_coherent:
  assumes "pq_coherent E s" shows "pq_coherent E (pq_calibrate_fft E s)" "pq_mat_ok (pq_calibrate_fft E s) = pq_mat_ok s"
proof -
  have r: "pq_config_fixed32 E (pq_config_fixed32 E s) = pq_config_fixed32 E s" by (simp add: pq_config_fixed32_def)
  have u: "pq_coherent E (t\<lparr>pq_gain_1_over_n := b, pq_fft_gain := g, pq_fft_cal_n := n, pq_fft_ok := o'\<rparr>) = pq_coherent E t" for t b g n o'
    by (simp add: pq_coherent_def)
  show "pq_coherent E (pq_calibrate_fft E s)"
    using config_applied(4) [OF assms] by (simp add: pq_calibrate_fft_def pq_fft_impulse_probe_def Let_def r u)
  show "pq_mat_ok (pq_calibrate_fft E s) = pq_mat_ok s"
    by (simp add: pq_calibrate_fft_def pq_fft_impulse_probe_def Let_def pq_config_fixed32_def)
qed

text \<open>The operations an application runs after the one initialisation.\<close>

datatype dsp_op =
    Dsp_fft "f32 list option" bool nat
  | Dsp_matmul "(nat \<times> i16 list) option" "(nat \<times> i16 list) option" "nat option" u16 u16

definition dsp_step :: "libm \<Rightarrow> pq_engine \<Rightarrow> dsp_op \<Rightarrow> pq_state \<Rightarrow> pq_state" where
  "dsp_step L E op s = (case op of
       Dsp_fft inp has_out len \<Rightarrow> snd (syn_hal_dsp_fft_f32 L E inp has_out len s)
     | Dsp_matmul a b out rows cols \<Rightarrow> snd (syn_hal_dsp_mat_mult_q15 E a b out rows cols s))"

lemma pq_fft_state: "snd (pq_fft_f32 E xs len s) = s \<or> snd (pq_fft_f32 E xs len s) = pq_config_fixed32 E s"
  by (simp add: pq_fft_f32_def Let_def)

lemma dsp_step_keeps: "pq_coherent E s \<Longrightarrow> pq_coherent E (dsp_step L E op s) \<and> pq_cal (dsp_step L E op s) = pq_cal s"
proof (cases op)
  case (Dsp_fft inp has_out len)
  assume "pq_coherent E s"
  then show ?thesis using pq_fft_state [of E "the inp" len s] config_applied
    by (auto simp: Dsp_fft dsp_step_def syn_hal_dsp_fft_f32_def split: prod.splits)
next
  case (Dsp_matmul a b out rows cols)
  assume "pq_coherent E s"
  then show ?thesis using config_applied
    by (auto simp: Dsp_matmul dsp_step_def syn_hal_dsp_mat_mult_q15_def pq_mat_mult_q15_def Let_def split: option.splits prod.splits)
qed

lemma dsp_history: "pq_coherent E s \<Longrightarrow>
   pq_coherent E (foldl (\<lambda>s op. dsp_step L E op s) s ops) \<and> pq_cal (foldl (\<lambda>s op. dsp_step L E op s) s ops) = pq_cal s"
  by (induction ops arbitrary: s) (auto simp: dsp_step_keeps)

definition dsp_ready :: "pq_engine \<Rightarrow> pq_config \<Rightarrow> pq_state" where
  "dsp_ready E hw = syn_hal_dsp_init E (pq_boot hw)"

lemma ready_coherent: "pq_coherent E (dsp_ready E hw)" "pq_mat_ok (dsp_ready E hw) = mat_probes_pass E"
proof -
  have c: "pq_coherent E ((pq_boot hw)\<lparr>pq_hw := pe_reset E\<rparr>)" by (simp add: pq_coherent_def pq_boot_def)
  note f = calibrate_fft_coherent [OF c]
  show "pq_coherent E (dsp_ready E hw)" using calibrate_mat(1) [OF f(1)] by (simp add: dsp_ready_def syn_hal_dsp_init_def)
  have "pq_mat_ok (pq_calibrate_fft E ((pq_boot hw)\<lparr>pq_hw := pe_reset E\<rparr>)) = False" using f(2) by (simp add: pq_boot_def)
  then show "pq_mat_ok (dsp_ready E hw) = mat_probes_pass E"
    using calibrate_mat(2) [OF f(1)] by (simp add: dsp_ready_def syn_hal_dsp_init_def pq_cal_def split: if_splits)
qed

text \<open>
  C29: after initialisation and any sequence of FFTs and products, a matrix product is exactly one of two
  things. When the known-answer probes passed and dimensions and alignment allow it, it is the product of
  the coprocessor under its Q15 configuration, whatever configuration the operations before it used; in
  every other case it is the software kernel. An engine that fails a probe is never used.
\<close>

theorem matmul_ignores_history:
  "fst (syn_hal_dsp_mat_mult_q15 E (Some (pa, xa)) (Some (pb, xb)) (Some po) rows cols
     (foldl (\<lambda>s op. dsp_step L E op s) (dsp_ready E hw) ops)) =
   (if mat_probes_pass E \<and> 0 < rows \<and> rows \<le> 16 \<and> 0 < cols \<and> cols \<le> 16 \<and> pa mod 4 = 0 \<and> pb mod 4 = 0 \<and> po mod 4 = 0
    then Ok (pe_matmul E (q15_config E) (unat rows) (unat cols) xa xb)
    else syn_dsp_soft_mat_mult_q15 (Some xa) (Some xb) True rows cols)"
proof -
  define s where "s = foldl (\<lambda>s op. dsp_step L E op s) (dsp_ready E hw) ops"
  have c: "pq_coherent E s" and ok: "pq_mat_ok s = mat_probes_pass E"
    using dsp_history [OF ready_coherent(1) [of E hw], of L ops] ready_coherent(2) [of E hw] by (auto simp: s_def pq_cal_def)
  have d: "unat n \<le> PQ_MAT_MAX_DIM \<longleftrightarrow> n \<le> 16" for n :: u16 by (simp add: word_le_nat_alt PQ_MAT_MAX_DIM_def)
  have a: "p AND 3 = p mod 4" for p :: nat using take_bit_eq_mask [of 2 p] by (simp add: take_bit_eq_mod mask_eq_exp_minus_1)
  show ?thesis unfolding s_def [symmetric] syn_hal_dsp_mat_mult_q15_def d a ok
    using config_applied(1) [OF c] by (auto simp: pq_mat_mult_q15_def Let_def)
qed

end
