(* ===== verification/Dsp_Fft.thy ===== *)
theory Dsp_Fft
  imports Dsp
begin

text \<open>
  The iterative in-place FFT of \<open>src/hal/common/syn_dsp_soft.c\<close> against the recursive
  decimation-in-time transform, bit for bit in binary32.
\<close>

section \<open>Bit reversal\<close>

fun rev_bits :: "nat \<Rightarrow> nat \<Rightarrow> nat" where
  "rev_bits 0 i = 0"
| "rev_bits (Suc n) i = (i mod 2) * 2 ^ n + rev_bits n (i div 2)"

lemma rev_bits_lt: "rev_bits n i < 2 ^ n"
proof (induction n arbitrary: i)
  case (Suc n)
  have "i mod 2 = 0 \<or> i mod 2 = 1" by auto
  then show ?case using Suc.IH [of "i div 2"] by auto
qed simp

lemma rev_bits_0 [simp]: "rev_bits n 0 = 0"
  by (induction n) auto

lemma exp_bit_ops:
  assumes "(a :: nat) < 2 ^ n"
  shows "a AND 2 ^ n = 0" "a OR 2 ^ n = 2 ^ n + a" "(2 ^ n + a) AND 2 ^ n \<noteq> 0" "(2 ^ n + a) XOR 2 ^ n = a"
proof -
  have b: "\<not> bit a n" using assms by (simp add: bit_iff_odd)
  then show z: "a AND 2 ^ n = 0" by (simp add: and_exp_eq_0_iff_not_bit)
  then show "a OR 2 ^ n = 2 ^ n + a" using disjunctive_add_eq_or [of a "2 ^ n"] by (simp add: add.commute)
  have x: "2 ^ n + a = a XOR 2 ^ n" using disjunctive_add_eq_xor [OF z] by (simp add: add.commute)
  then show "(2 ^ n + a) XOR 2 ^ n = a" by (simp add: xor.assoc)
  have "bit (2 ^ n + a) n" unfolding x using b by (simp add: bit_simps)
  then show "(2 ^ n + a) AND 2 ^ n \<noteq> 0" by (simp add: and_exp_eq_0_iff_not_bit)
qed

lemma rev_next_rev:
  assumes "i < 2 ^ n" shows "rev_next (rev_bits n i) (2 ^ n div 2) = rev_bits n (Suc i mod 2 ^ n)"
  using assms
proof (induction n arbitrary: i)
  case 0
  then show ?case by (simp add: rev_next.simps)
next
  case (Suc n)
  let ?r = "rev_bits n (i div 2)"
  have r: "?r < 2 ^ n" by (rule rev_bits_lt)
  show ?case
  proof (cases "even i")
    case True
    then have "Suc i < 2 ^ Suc n" using Suc.prems by (metis Suc_lessI even_Suc even_numeral even_power zero_less_Suc)
    moreover have "Suc i div 2 = i div 2" "Suc i mod 2 = 1" using True by (auto simp: odd_iff_mod_2_eq_one [symmetric])
    ultimately show ?thesis using True exp_bit_ops [OF r] by (simp add: rev_next.simps)
  next
    case False
    then have i: "i mod 2 = 1" "Suc i div 2 = Suc (i div 2)" "i div 2 < 2 ^ n" using Suc.prems by (auto simp: odd_iff_mod_2_eq_one)
    have m: "Suc i mod 2 ^ Suc n div 2 = Suc (i div 2) mod 2 ^ n"
      by (simp add: i(2) [symmetric] mod_mult2_eq div_mult2_eq)
    have e: "Suc i mod 2 ^ Suc n mod 2 = 0" using False by (simp add: mod_mod_cancel)
    have "rev_next (rev_bits (Suc n) i) (2 ^ Suc n div 2) = rev_next ?r (2 ^ n div 2)"
      using exp_bit_ops [OF r] i(1) by (simp add: rev_next.simps [of "2 ^ n + ?r"])
    also have "\<dots> = rev_bits n (Suc (i div 2) mod 2 ^ n)" using Suc.IH [OF i(3)] .
    finally show ?thesis using m e by simp
  qed
qed

lemma rev_bits_top: "rev_bits (Suc n) i = 2 * rev_bits n (i mod 2 ^ n) + i div 2 ^ n mod 2"
proof (induction n arbitrary: i)
  case (Suc n)
  have "i div 2 mod 2 ^ n = i mod 2 ^ Suc n div 2" "i div 2 div 2 ^ n = i div 2 ^ Suc n"
    by (simp_all add: mod_mult2_eq div_mult2_eq)
  moreover have "i mod 2 ^ Suc n mod 2 = i mod 2" by (simp add: mod_mod_cancel)
  ultimately show ?case using Suc.IH [of "i div 2"] by (simp add: algebra_simps)
qed simp

lemma rev_bits_invol: "i < 2 ^ n \<Longrightarrow> rev_bits n (rev_bits n i) = i"
proof (induction n arbitrary: i)
  case (Suc n)
  have "rev_bits (Suc n) (rev_bits (Suc n) i) =
      2 * rev_bits n (((i mod 2) * 2 ^ n + rev_bits n (i div 2)) mod 2 ^ n) + ((i mod 2) * 2 ^ n + rev_bits n (i div 2)) div 2 ^ n mod 2"
    by (subst rev_bits_top) simp
  also have "\<dots> = 2 * rev_bits n (rev_bits n (i div 2)) + i mod 2"
    using div_mod_split [OF rev_bits_lt [of n "i div 2"], of "i mod 2"] by simp
  also have "\<dots> = i" using Suc.IH [of "i div 2"] Suc.prems by auto
  finally show ?case .
qed simp

text \<open>The complex number at index \<open>k\<close> of an interleaved array.\<close>

definition cx :: "'a list \<Rightarrow> nat \<Rightarrow> 'a \<times> 'a" where
  "cx xs k = (xs ! (2 * k), xs ! (2 * k + 1))"

lemma length_swap_at [simp]: "length (swap_at a b xs) = length xs"
  by (simp add: swap_at_def)

lemma cx_swap:
  assumes "2 * len \<le> length xs" "i < len" "j < len" "i \<noteq> j"
  shows "cx (swap_at (2 * i + 1) (2 * j + 1) (swap_at (2 * i) (2 * j) xs)) k = cx xs (if k = i then j else if k = j then i else k)"
proof -
  have "2 * i + 1 < length xs" "2 * j + 1 < length xs" using assms by linarith+
  moreover have "2 * a \<noteq> Suc (2 * b)" for a b :: nat by presburger
  ultimately show ?thesis using assms(4) by (auto simp: cx_def swap_at_def nth_list_update)
qed

lemma bitrev_loop_spec:
  assumes "2 * 2 ^ n \<le> length ys" "i \<le> 2 ^ n" "j = rev_bits n (i mod 2 ^ n)"
    "\<And>k. k < 2 ^ n \<Longrightarrow> cx ys k = c (if min k (rev_bits n k) < i then rev_bits n k else k)"
  shows "length (bitrev_loop (2 ^ n) [i..<2 ^ n] j ys) = length ys \<and>
    (\<forall>k < 2 ^ n. cx (bitrev_loop (2 ^ n) [i..<2 ^ n] j ys) k = c (rev_bits n k))"
  using assms
proof (induction "2 ^ n - i" arbitrary: i j ys)
  case 0
  then show ?case by (auto simp: min_less_iff_disj)
next
  case (Suc d)
  then have i: "i < 2 ^ n" by simp
  have j: "j = rev_bits n i" and jl: "j < 2 ^ n" using Suc.prems(3) i rev_bits_lt by auto
  have ij: "rev_bits n j = i" using rev_bits_invol [OF i] j by simp
  define zs where "zs = (if i < j then swap_at (2 * i + 1) (2 * j + 1) (swap_at (2 * i) (2 * j) ys) else ys)"
  have lz: "length zs = length ys" by (simp add: zs_def)
  have inv: "cx zs k = c (if min k (rev_bits n k) < Suc i then rev_bits n k else k)" if k: "k < 2 ^ n" for k
  proof (cases "i < j")
    case True
    have sw: "cx zs k = cx ys (if k = i then j else if k = j then i else k)"
      using cx_swap [OF Suc.prems(1) i jl] True by (simp add: zs_def)
    have inj: "rev_bits n k = i \<longleftrightarrow> k = j" by (metis ij j rev_bits_invol [OF k])
    consider "k = i" | "k = j" "k \<noteq> i" | "k \<noteq> i" "k \<noteq> j" by blast
    then show ?thesis
    proof cases
      case 1
      then show ?thesis using sw Suc.prems(4) [OF jl] True ij j by simp
    next
      case 2
      then show ?thesis using sw Suc.prems(4) [OF i] True ij j by simp
    next
      case 3
      then have "min k (rev_bits n k) < Suc i \<longleftrightarrow> min k (rev_bits n k) < i" using inj by linarith
      then show ?thesis using sw 3 Suc.prems(4) [OF k] by simp
    qed
  next
    case False
    have "c (if min k (rev_bits n k) < Suc i then rev_bits n k else k) = c (if min k (rev_bits n k) < i then rev_bits n k else k)"
    proof (cases "min k (rev_bits n k) = i")
      case True
      then have "k = i \<or> k = j" using rev_bits_invol [OF k] j by (metis min_def)
      with True False ij j show ?thesis by auto
    next
      case False
      then have "min k (rev_bits n k) < Suc i \<longleftrightarrow> min k (rev_bits n k) < i" by linarith
      then show ?thesis by simp
    qed
    with False Suc.prems(4) [OF k] show ?thesis by (simp add: zs_def)
  qed
  have "rev_next j (2 ^ n div 2) = rev_bits n (Suc i mod 2 ^ n)" using rev_next_rev [OF i] j by simp
  moreover have "[i..<2 ^ n] = i # [Suc i..<2 ^ n]" using i by (simp add: upt_conv_Cons)
  ultimately have step: "bitrev_loop (2 ^ n) [i..<2 ^ n] j ys = bitrev_loop (2 ^ n) [Suc i..<2 ^ n] (rev_bits n (Suc i mod 2 ^ n)) zs"
    by (simp add: zs_def)
  have "length (bitrev_loop (2 ^ n) [Suc i..<2 ^ n] (rev_bits n (Suc i mod 2 ^ n)) zs) = length zs \<and>
      (\<forall>k < 2 ^ n. cx (bitrev_loop (2 ^ n) [Suc i..<2 ^ n] (rev_bits n (Suc i mod 2 ^ n)) zs) k = c (rev_bits n k))"
    using Suc.hyps(2) Suc.prems(1) i lz inv by (intro Suc.hyps(1)) auto
  then show ?case unfolding step lz .
qed

section \<open>The butterflies\<close>

fun cmul :: "f32 \<times> f32 \<Rightarrow> f32 \<times> f32 \<Rightarrow> f32 \<times> f32" where
  "cmul (x, y) (wr, wi) = (f_sub (f_mul x wr) (f_mul y wi), f_add (f_mul x wi) (f_mul y wr))"

fun cadd :: "f32 \<times> f32 \<Rightarrow> f32 \<times> f32 \<Rightarrow> f32 \<times> f32" where "cadd (a, b) (x, y) = (f_add a x, f_add b y)"
fun csub :: "f32 \<times> f32 \<Rightarrow> f32 \<times> f32 \<Rightarrow> f32 \<times> f32" where "csub (a, b) (x, y) = (f_sub a x, f_sub b y)"

text \<open>The twiddle factor of pair \<open>p\<close>, by the recurrence of the code.\<close>

fun twiddle :: "f32 \<Rightarrow> f32 \<Rightarrow> nat \<Rightarrow> f32 \<times> f32" where
  "twiddle sr si 0 = (f_lit 1 1, f_lit 0 1)"
| "twiddle sr si (Suc p) = (case twiddle sr si p of (wr, wi) \<Rightarrow> (f_sub (f_mul wr sr) (f_mul wi si), f_add (f_mul wr si) (f_mul wi sr)))"

lemma length_butterfly [simp]: "length (butterfly u v wr wi xs) = length xs"
  by (simp add: butterfly_def Let_def)

lemma cx_butterfly:
  assumes "2 * u + 1 < length xs" "2 * v + 1 < length xs" "u \<noteq> v"
  shows "cx (butterfly u v wr wi xs) k =
    (if k = v then csub (cx xs u) (cmul (cx xs v) (wr, wi)) else if k = u then cadd (cx xs u) (cmul (cx xs v) (wr, wi)) else cx xs k)"
proof -
  have "2 * a \<noteq> Suc (2 * b)" for a b :: nat by presburger
  then show ?thesis using assms by (auto simp: cx_def butterfly_def Let_def nth_list_update)
qed

lemma pair_loop_spec:
  assumes "2 * (grp + 2 * half) \<le> length xs" "p \<le> half" "(wr, wi) = twiddle sr si p"
  shows "length (pair_loop grp half sr si [p..<half] wr wi xs) = length xs \<and>
    cx (pair_loop grp half sr si [p..<half] wr wi xs) k =
      (if grp + p \<le> k \<and> k < grp + half then cadd (cx xs k) (cmul (cx xs (k + half)) (twiddle sr si (k - grp)))
       else if grp + half + p \<le> k \<and> k < grp + 2 * half then csub (cx xs (k - half)) (cmul (cx xs k) (twiddle sr si (k - half - grp)))
       else cx xs k)"
  using assms
proof (induction "half - p" arbitrary: p wr wi xs)
  case 0
  then show ?case by auto
next
  case (Suc d)
  then have p: "p < half" by simp
  define ys where "ys = butterfly (grp + p) (grp + p + half) wr wi xs"
  have ly: "length ys = length xs" by (simp add: ys_def)
  have cy: "cx ys k = (if k = grp + p + half then csub (cx xs (grp + p)) (cmul (cx xs (grp + p + half)) (twiddle sr si p))
      else if k = grp + p then cadd (cx xs (grp + p)) (cmul (cx xs (grp + p + half)) (twiddle sr si p)) else cx xs k)" for k
    unfolding ys_def Suc.prems(3) [symmetric] using Suc.prems(1) p by (subst cx_butterfly) auto
  have "[p..<half] = p # [Suc p..<half]" using p by (simp add: upt_conv_Cons)
  moreover have tw: "(f_sub (f_mul wr sr) (f_mul wi si), f_add (f_mul wr si) (f_mul wi sr)) = twiddle sr si (Suc p)"
    using Suc.prems(3) by (simp add: prod.case_eq_if prod_eq_iff)
  ultimately have step: "pair_loop grp half sr si [p..<half] wr wi xs =
      pair_loop grp half sr si [Suc p..<half] (fst (twiddle sr si (Suc p))) (snd (twiddle sr si (Suc p))) ys"
    by (simp add: ys_def prod_eq_iff prod.case_eq_if flip: tw)
  have IH: "length (pair_loop grp half sr si [Suc p..<half] (fst (twiddle sr si (Suc p))) (snd (twiddle sr si (Suc p))) ys) = length ys \<and>
    cx (pair_loop grp half sr si [Suc p..<half] (fst (twiddle sr si (Suc p))) (snd (twiddle sr si (Suc p))) ys) k =
      (if grp + Suc p \<le> k \<and> k < grp + half then cadd (cx ys k) (cmul (cx ys (k + half)) (twiddle sr si (k - grp)))
       else if grp + half + Suc p \<le> k \<and> k < grp + 2 * half then csub (cx ys (k - half)) (cmul (cx ys k) (twiddle sr si (k - half - grp)))
       else cx ys k)"
    using Suc.hyps(2) Suc.prems(1) p ly by (intro Suc.hyps(1)) auto
  consider "k = grp + p" | "k = grp + p + half" | "grp + p < k" "k < grp + half" | "grp + half + p < k" "k < grp + 2 * half"
    | "k < grp + p" | "grp + half \<le> k" "k < grp + half + p" | "grp + 2 * half \<le> k" by linarith
  then show ?case unfolding step using IH ly p by cases (auto simp: cy)
qed

section \<open>Stages\<close>

definition stage_tw :: "libm \<Rightarrow> nat \<Rightarrow> nat \<Rightarrow> f32 \<times> f32" where
  "stage_tw L stage p =
     (let angle = f_div (f_mul (f_lit (- 2) 1) (f_lit 314159265358979 (10 ^ 14))) (f_of_int (int stage))
      in twiddle (m_cos L angle) (m_sin L angle) p)"

definition stage_at :: "libm \<Rightarrow> nat \<Rightarrow> (nat \<Rightarrow> f32 \<times> f32) \<Rightarrow> nat \<Rightarrow> f32 \<times> f32" where
  "stage_at L half f k =
     (let p = k mod (2 * half)
      in if p < half then cadd (f k) (cmul (f (k + half)) (stage_tw L (2 * half) p))
         else csub (f (k - half)) (cmul (f k) (stage_tw L (2 * half) (p - half))))"

lemma group_index:
  fixes g s k :: nat assumes "g * s \<le> k" "k < Suc g * s" shows "k div s = g" "k mod s = k - g * s"
proof -
  show "k div s = g" using assms by (intro div_nat_eqI) (simp_all add: mult.commute)
  then show "k mod s = k - g * s" by (simp add: minus_div_mult_eq_mod [symmetric])
qed

lemma groups_spec:
  fixes sr si :: f32
  assumes "2 * (q * (2 * half)) \<le> length xs" "m \<le> q" "0 < half"
  defines "one \<equiv> \<lambda>ys g. pair_loop (g * (2 * half)) (2 * half div 2) sr si [0..<2 * half div 2] (f_lit 1 1) (f_lit 0 1) ys"
  shows "length (foldl one xs [0..<m]) = length xs \<and>
    cx (foldl one xs [0..<m]) k =
      (if k < m * (2 * half)
       then if k mod (2 * half) < half then cadd (cx xs k) (cmul (cx xs (k + half)) (twiddle sr si (k mod (2 * half))))
            else csub (cx xs (k - half)) (cmul (cx xs k) (twiddle sr si (k mod (2 * half) - half)))
       else cx xs k)"
  using assms(2)
proof (induction m arbitrary: k)
  case (Suc m)
  define ys where "ys = foldl one xs [0..<m]"
  have l0: "length ys = length xs" using Suc.IH Suc.prems by (simp add: ys_def)
  have cy: "cx ys i = cx xs i" if "m * (2 * half) \<le> i" for i
    using Suc.IH [of i] Suc.prems that by (auto simp: ys_def)
  have "Suc m * (2 * half) \<le> q * (2 * half)" using Suc.prems by (intro mult_le_mono1)
  then have room: "2 * (m * (2 * half) + 2 * half) \<le> length ys" using assms(1) l0 by simp
  have S: "length (one ys m) = length ys \<and> cx (one ys m) k =
      (if m * (2 * half) + 0 \<le> k \<and> k < m * (2 * half) + half
       then cadd (cx ys k) (cmul (cx ys (k + half)) (twiddle sr si (k - m * (2 * half))))
       else if m * (2 * half) + half + 0 \<le> k \<and> k < m * (2 * half) + 2 * half
       then csub (cx ys (k - half)) (cmul (cx ys k) (twiddle sr si (k - half - m * (2 * half)))) else cx ys k)"
    using pair_loop_spec [OF room, of 0 "f_lit 1 1" "f_lit 0 1" sr si k] by (simp add: one_def)
  have unf: "foldl one xs [0..<Suc m] = one ys m" by (simp add: ys_def)
  consider "k < m * (2 * half)" | "m * (2 * half) \<le> k" "k < m * (2 * half) + half"
    | "m * (2 * half) + half \<le> k" "k < m * (2 * half) + 2 * half" | "m * (2 * half) + 2 * half \<le> k" by linarith
  then show ?case
  proof cases
    case 1
    then show ?thesis unfolding unf using S Suc.IH [of k] Suc.prems l0 by (simp add: ys_def)
  next
    case 2
    then have "k mod (2 * half) = k - m * (2 * half)" using group_index [of m "2 * half" k] by simp
    moreover have "k - m * (2 * half) < half" using 2 by linarith
    ultimately show ?thesis unfolding unf using S 2 l0 cy by simp
  next
    case 3
    then have "k mod (2 * half) = k - m * (2 * half)" using group_index [of m "2 * half" k] by simp
    then show ?thesis unfolding unf using S 3 l0 cy by (auto simp: diff_diff_left add.commute)
  next
    case 4
    then show ?thesis unfolding unf using S l0 cy by simp
  qed
qed simp

lemma fft_stage_spec:
  assumes "2 * (q * (2 * half)) \<le> length xs" "0 < half"
  shows "length (fft_stage L (q * (2 * half)) (2 * half) xs) = length xs"
    "k < q * (2 * half) \<Longrightarrow> cx (fft_stage L (q * (2 * half)) (2 * half) xs) k = stage_at L half (cx xs) k"
proof -
  have d: "q * (2 * half) div (2 * half) = q" using assms(2) by simp
  show "length (fft_stage L (q * (2 * half)) (2 * half) xs) = length xs"
    unfolding fft_stage_def Let_def d using groups_spec [OF assms(1) order_refl assms(2)] by simp
  show "cx (fft_stage L (q * (2 * half)) (2 * half) xs) k = stage_at L half (cx xs) k" if "k < q * (2 * half)"
    unfolding fft_stage_def Let_def d stage_at_def stage_tw_def
    using groups_spec [OF assms(1) order_refl assms(2), where k = k] that by simp
qed

section \<open>The recursive transform\<close>

fun rfft :: "libm \<Rightarrow> nat \<Rightarrow> (nat \<Rightarrow> f32 \<times> f32) \<Rightarrow> nat \<Rightarrow> f32 \<times> f32" where
  "rfft L 0 f k = f 0"
| "rfft L (Suc n) f k =
     (if k < 2 ^ n
      then cadd (rfft L n (\<lambda>i. f (2 * i)) k) (cmul (rfft L n (\<lambda>i. f (2 * i + 1)) k) (stage_tw L (2 ^ Suc n) k))
      else csub (rfft L n (\<lambda>i. f (2 * i)) (k - 2 ^ n))
             (cmul (rfft L n (\<lambda>i. f (2 * i + 1)) (k - 2 ^ n)) (stage_tw L (2 ^ Suc n) (k - 2 ^ n))))"

lemma fft_stages_spec:
  assumes "m \<le> n" "2 * 2 ^ n \<le> length xs"
    "\<And>k. k < 2 ^ n \<Longrightarrow> cx xs k = rfft L m (\<lambda>i. f (i * 2 ^ (n - m) + rev_bits (n - m) (k div 2 ^ m))) (k mod 2 ^ m)"
  shows "length (fft_stages L (2 ^ n) (2 ^ Suc m) xs) = length xs \<and> (\<forall>k < 2 ^ n. cx (fft_stages L (2 ^ n) (2 ^ Suc m) xs) k = rfft L n f k)"
  using assms
proof (induction "n - m" arbitrary: m xs)
  case 0
  then have "m = n" by simp
  then show ?case using 0 by (subst fft_stages.simps, subst (2) fft_stages.simps) simp
next
  case (Suc d)
  then have mn: "m < n" and d: "n - m = Suc d" "n - Suc m = d" by auto
  define ys where "ys = fft_stage L (2 ^ n) (2 ^ Suc m) xs"
  have len: "(2 :: nat) ^ n = 2 ^ d * (2 * 2 ^ m)"
  proof -
    have "n = d + Suc m" using d mn by simp
    then show ?thesis by (simp add: power_add)
  qed
  have room: "2 * (2 ^ d * (2 * 2 ^ m)) \<le> length xs" using Suc.prems(2) len by simp
  have ly: "length ys = length xs" using fft_stage_spec(1) [OF room] by (simp add: ys_def len)
  have cy: "cx ys k = stage_at L (2 ^ m) (cx xs) k" if "k < 2 ^ n" for k
    using fft_stage_spec(2) [OF room, of k L] that by (simp add: ys_def len)
  have le: "(2 :: nat) ^ Suc m \<le> 2 ^ n" using mn by (intro power_increasing) auto
  have step: "fft_stages L (2 ^ n) (2 ^ Suc m) xs = fft_stages L (2 ^ n) (2 ^ Suc (Suc m)) ys"
    using le by (subst fft_stages.simps) (simp add: ys_def)
  have inv: "cx ys k = rfft L (Suc m) (\<lambda>i. f (i * 2 ^ (n - Suc m) + rev_bits (n - Suc m) (k div 2 ^ Suc m))) (k mod 2 ^ Suc m)"
    if k: "k < 2 ^ n" for k
  proof -
    define g p h where "g = k div 2 ^ Suc m" and "p = k mod 2 ^ Suc m" and "h = (\<lambda>i. f (i * 2 ^ d + rev_bits d g))"
    have kg: "k = g * 2 ^ Suc m + p" unfolding g_def p_def by (rule div_mult_mod_eq [symmetric])
    have p: "p < 2 ^ Suc m" by (simp add: p_def)
    have "g < 2 ^ d" using k len by (simp add: g_def less_mult_imp_div_less mult.commute)
    then have "g * 2 ^ Suc m + 2 ^ Suc m \<le> 2 ^ n"
      using mult_le_mono1 [of "Suc g" "2 ^ d" "2 ^ Suc m"] len by (simp add: algebra_simps)
    then have in0: "g * 2 ^ Suc m + j < 2 ^ n" and in1: "g * 2 ^ Suc m + 2 ^ m + j < 2 ^ n" if "j < 2 ^ m" for j using that by simp_all
    have A: "cx xs (g * 2 ^ Suc m + j) = rfft L m (\<lambda>i. h (2 * i)) j" if j: "j < 2 ^ m" for j
    proof -
      have "(g * 2 ^ Suc m + j) div 2 ^ m = 2 * g" "(g * 2 ^ Suc m + j) mod 2 ^ m = j"
        using div_mod_split [OF j, of "2 * g"] by (simp_all add: mult.assoc mult.left_commute)
      then show ?thesis using Suc.prems(3) [OF in0 [OF j]] d(1) by (simp add: h_def algebra_simps)
    qed
    have B: "cx xs (g * 2 ^ Suc m + 2 ^ m + j) = rfft L m (\<lambda>i. h (2 * i + 1)) j" if j: "j < 2 ^ m" for j
    proof -
      have "(g * 2 ^ Suc m + 2 ^ m + j) div 2 ^ m = 2 * g + 1" "(g * 2 ^ Suc m + 2 ^ m + j) mod 2 ^ m = j"
        using div_mod_split [OF j, of "2 * g + 1"] by (simp_all add: algebra_simps)
      then have "cx xs (g * 2 ^ Suc m + 2 ^ m + j) = rfft L m (\<lambda>i. f (i * 2 ^ Suc d + rev_bits (Suc d) (2 * g + 1))) j"
        using Suc.prems(3) [OF in1 [OF j]] d(1) by (simp del: rev_bits.simps power_Suc)
      moreover have "rev_bits (Suc d) (2 * g + 1) = 2 ^ d + rev_bits d g" by simp
      ultimately show ?thesis by (simp add: h_def algebra_simps del: rev_bits.simps)
    qed
    show ?thesis
    proof (cases "p < 2 ^ m")
      case True
      have "cx ys k = cadd (cx xs k) (cmul (cx xs (k + 2 ^ m)) (stage_tw L (2 ^ Suc m) p))"
        using cy [OF k] True by (simp add: stage_at_def p_def)
      also have "\<dots> = cadd (rfft L m (\<lambda>i. h (2 * i)) p) (cmul (rfft L m (\<lambda>i. h (2 * i + 1)) p) (stage_tw L (2 ^ Suc m) p))"
        using A [OF True] B [OF True] by (simp add: kg add.assoc add.commute [of p])
      also have "\<dots> = rfft L (Suc m) h p" using True by simp
      finally show ?thesis by (simp add: h_def d(2) g_def p_def)
    next
      case False
      then have q: "p - 2 ^ m < 2 ^ m" using p by simp
      have "cx ys k = csub (cx xs (k - 2 ^ m)) (cmul (cx xs k) (stage_tw L (2 ^ Suc m) (p - 2 ^ m)))"
        using cy [OF k] False by (simp add: stage_at_def p_def)
      also have "\<dots> = csub (rfft L m (\<lambda>i. h (2 * i)) (p - 2 ^ m))
          (cmul (rfft L m (\<lambda>i. h (2 * i + 1)) (p - 2 ^ m)) (stage_tw L (2 ^ Suc m) (p - 2 ^ m)))"
        using A [OF q] B [OF q] False by (simp add: kg)
      also have "\<dots> = rfft L (Suc m) h p" using False by simp
      finally show ?thesis by (simp add: h_def d(2) g_def p_def)
    qed
  qed
  show ?case unfolding step using Suc.hyps(1) [of "Suc m" ys] d mn Suc.prems(2) ly inv by simp
qed

lemma is_pow2_exp: "is_pow2 (2 ^ n)"
proof -
  have "(2 ^ n - 1 :: nat) < 2 ^ n" by simp
  then have "(2 ^ n - 1 :: nat) AND 2 ^ n = 0" by (rule exp_bit_ops(1))
  then show ?thesis by (simp add: is_pow2_def and.commute [of "2 ^ n"])
qed

text \<open>
  C15: for every power of two from 2 to 1024 the in-place FFT of the code returns, at every bin and bit
  for bit, what the recursive decimation-in-time transform gives on the input, whatever the sine and
  cosine of the library: the bit-reversal permutation and the stage loops put every butterfly where the
  recursion has it.
\<close>

theorem fft_is_the_recursive_transform:
  assumes "1 \<le> n" "n \<le> 10" "length xs = 2 * 2 ^ n"
  shows "\<exists>ys. syn_dsp_soft_fft_f32 L (Some xs) True (2 ^ n) = Ok ys \<and> length ys = length xs \<and>
    map (cx ys) [0..<2 ^ n] = map (rfft L n (cx xs)) [0..<2 ^ n]"
proof -
  define zs where "zs = bitrev_loop (2 ^ n) [0..<2 ^ n] 0 xs"
  have lz: "length zs = length xs" and cz: "cx zs k = cx xs (rev_bits n k)" if "k < 2 ^ n" for k
    using bitrev_loop_spec [of n xs 0 0 "cx xs"] assms(3) that by (auto simp: zs_def)
  have lz: "length zs = length xs" using lz [of 0] by simp
  have F: "length (fft_stages L (2 ^ n) (2 ^ Suc 0) zs) = length zs \<and>
      (\<forall>k < 2 ^ n. cx (fft_stages L (2 ^ n) (2 ^ Suc 0) zs) k = rfft L n (cx xs) k)"
    using assms(3) lz cz by (intro fft_stages_spec) auto
  have "(2 :: nat) ^ 1 \<le> 2 ^ n" "(2 :: nat) ^ n \<le> 2 ^ 10" using assms(1,2) by (intro power_increasing; simp)+
  then have "syn_dsp_soft_fft_f32 L (Some xs) True (2 ^ n) = Ok (fft_stages L (2 ^ n) 2 zs)"
    using is_pow2_exp [of n] assms(3) by (simp add: syn_dsp_soft_fft_f32_def FFT_MAX_LEN_def zs_def)
  then show ?thesis using F lz by simp
qed

definition demo_impulse :: "f32 list" where
  "demo_impulse = 0x3F800000 # replicate 7 0"

theorem fft_is_the_recursive_transform_witness:
  "\<exists>ys. syn_dsp_soft_fft_f32 \<lparr>m_exp = id, m_cos = id, m_sin = id, m_log = id, m_log10 = id, m_pow = (\<lambda>x y. x)\<rparr> (Some demo_impulse) True (2 ^ 2) = Ok ys \<and>
    length ys = length demo_impulse \<and>
    map (cx ys) [0..<2 ^ 2] = map (rfft \<lparr>m_exp = id, m_cos = id, m_sin = id, m_log = id, m_log10 = id, m_pow = (\<lambda>x y. x)\<rparr> 2 (cx demo_impulse)) [0..<2 ^ 2]"
  by (rule fft_is_the_recursive_transform) (simp_all add: demo_impulse_def)

end
