(* ===== verification/Postprocess.thy ===== *)
theory Postprocess
  imports Dsp Infer
begin

text \<open>
  The post-processors of \<open>src/postprocess/syn_postprocess_classify.c\<close> and
  \<open>src/postprocess/syn_postprocess_detect.c\<close>: softmax, argmax, top-k, dequantize and greedy
  non-maximum suppression. A stage takes its input and output tensors (None for NULL, a tensor whose
  data pointer is NULL has address 0) and its config, writes the front of the output data and sets the
  geometry; on an error the output tensor keeps its geometry.
\<close>

section \<open>Tensor elements\<close>

record dequantize_config =
  dq_scale :: f32
  dq_zero_point :: i32

definition valid_pair :: "itensor option \<Rightarrow> itensor option \<Rightarrow> bool" where
  "valid_pair tin out \<longleftrightarrow> (case (tin, out) of
       (Some i, Some u) \<Rightarrow> tn_data i \<noteq> 0 \<and> tn_size i > 0 \<and> tn_data u \<noteq> 0 | _ \<Rightarrow> False)"

definition element_count :: "itensor \<Rightarrow> nat" where
  "element_count t = (if tn_dtype t = SYN_NPU_DTYPE_FLOAT32 then unat (tn_size t) div 4 else unat (tn_size t))"

definition int8_at :: "u8 list \<Rightarrow> nat \<Rightarrow> f32" where
  "int8_at bs i = f_of_int (sint (bs ! i))"

definition dequant :: "dequantize_config \<Rightarrow> f32 \<Rightarrow> f32" where
  "dequant cfg q = f_mul (f_sub q (f_of_int (sint (dq_zero_point cfg)))) (dq_scale cfg)"

definition get_score :: "itensor \<Rightarrow> nat \<Rightarrow> dequantize_config option \<Rightarrow> f32" where
  "get_score t i cfg =
     (if tn_dtype t = SYN_NPU_DTYPE_FLOAT32 then get32 (tn_bytes t) (4 * i)
      else let q = int8_at (tn_bytes t) i in (case cfg of Some c \<Rightarrow> dequant c q | None \<Rightarrow> q))"

definition write_front :: "u8 list \<Rightarrow> itensor \<Rightarrow> itensor" where
  "write_front bs t = t\<lparr>tn_bytes := bs @ drop (length bs) (tn_bytes t)\<rparr>"

definition float_bytes :: "f32 list \<Rightarrow> u8 list" where
  "float_bytes fs = concat (map le32 fs)"

definition score_dtype :: "itensor \<Rightarrow> bool" where
  "score_dtype t \<longleftrightarrow> tn_dtype t = SYN_NPU_DTYPE_INT8 \<or> tn_dtype t = SYN_NPU_DTYPE_FLOAT32"

definition set_records :: "nat \<Rightarrow> itensor \<Rightarrow> itensor" where
  "set_records k t = t\<lparr>tn_size := of_nat k * 8, tn_dtype := SYN_NPU_DTYPE_FLOAT32, tn_ndim := 1, tn_shape := [of_nat k, 0, 0, 0]\<rparr>"

definition set_floats :: "itensor \<Rightarrow> u32 \<Rightarrow> itensor \<Rightarrow> itensor" where
  "set_floats tin needed t = t\<lparr>tn_size := needed, tn_dtype := SYN_NPU_DTYPE_FLOAT32, tn_ndim := tn_ndim tin, tn_shape := tn_shape tin\<rparr>"

section \<open>Classification\<close>

definition post_softmax :: "libm \<Rightarrow> itensor option \<Rightarrow> itensor option \<Rightarrow> dequantize_config option \<Rightarrow> unit res \<times> itensor option" where
  "post_softmax L tin out cfg =
     (if \<not> valid_pair tin out then (Err EINVAL, out)
      else let t = the tin; u = the out in
        if \<not> score_dtype t then (Err EINVAL, out)
        else let count = element_count t; needed = of_nat count * 4 in
          if tn_size u < needed then (Err ENOMEM, out)
          else let dst = map (\<lambda>i. get_score t i cfg) [0..<count] in
            (case syn_hal_dsp_softmax_f32 L (Some dst) True count of
               Inl e \<Rightarrow> (Err e, Some (write_front (float_bytes dst) u))
             | Inr ps \<Rightarrow> (Ok (), Some (set_floats t needed (write_front (float_bytes ps) u)))))"

definition post_argmax :: "itensor option \<Rightarrow> itensor option \<Rightarrow> unit res \<times> itensor option" where
  "post_argmax tin out =
     (if \<not> valid_pair tin out then (Err EINVAL, out)
      else let t = the tin; u = the out in
        if \<not> score_dtype t then (Err EINVAL, out)
        else if tn_size u < 8 then (Err ENOMEM, out)
        else let count = element_count t;
                 best = (if tn_dtype t = SYN_NPU_DTYPE_INT8 then syn_hal_dsp_argmax (Some (tn_bytes t)) count
                         else Ok (foldl (\<lambda>b i. if f_lt (get_score t b None) (get_score t i None) then i else b) 0 [1..<count]))
          in (case best of
                Inl e \<Rightarrow> (Err e, out)
              | Inr b \<Rightarrow> (Ok (), Some (set_records 1 (write_front (le32 (of_nat b) @ le32 (get_score t b None)) u)))))"

definition TOPK_MAX :: nat where "TOPK_MAX = 16"

text \<open>One round of the selection: \<open>(best, best_score)\<close>, no candidate yet is None.\<close>

definition topk_pick :: "(nat \<Rightarrow> f32) \<Rightarrow> nat \<Rightarrow> nat list \<Rightarrow> nat option \<times> f32" where
  "topk_pick score count chosen =
     foldl (\<lambda>(best, bs) i. if i \<in> set chosen then (best, bs)
                           else if best = None \<or> f_lt bs (score i) then (Some i, score i) else (best, bs))
       (None, f_lit 0 1) [0..<count]"

text \<open>\<open>(uint32_t)best\<close> of no candidate.\<close>

definition index_of_best :: "nat option \<Rightarrow> nat" where
  "index_of_best b = (case b of Some i \<Rightarrow> i | None \<Rightarrow> 2 ^ 32 - 1)"

fun topk_rounds :: "(nat \<Rightarrow> f32) \<Rightarrow> nat \<Rightarrow> nat \<Rightarrow> (nat \<times> f32) list \<Rightarrow> (nat \<times> f32) list" where
  "topk_rounds score count 0 acc = acc"
| "topk_rounds score count (Suc k) acc =
     (let (b, s) = topk_pick score count (map fst acc) in topk_rounds score count k (acc @ [(index_of_best b, s)]))"

definition post_top_k :: "itensor option \<Rightarrow> itensor option \<Rightarrow> u8 option \<Rightarrow> unit res \<times> itensor option" where
  "post_top_k tin out cfg =
     (if \<not> valid_pair tin out \<or> cfg = None \<or> the cfg = 0 \<or> unat (the cfg) > TOPK_MAX then (Err EINVAL, out)
      else let t = the tin; u = the out in
        if \<not> score_dtype t then (Err EINVAL, out)
        else let count = element_count t; k = (if unat (the cfg) < count then unat (the cfg) else count mod 2 ^ 8) in
          if unat (tn_size u) < k * 8 then (Err ENOMEM, out)
          else let rs = topk_rounds (\<lambda>i. get_score t i None) count k []
               in (Ok (), Some (set_records k (write_front (concat (map (\<lambda>(i, s). le32 (of_nat i) @ le32 s) rs)) u))))"

definition post_dequantize :: "itensor option \<Rightarrow> itensor option \<Rightarrow> dequantize_config option \<Rightarrow> unit res \<times> itensor option" where
  "post_dequantize tin out cfg =
     (if \<not> valid_pair tin out \<or> cfg = None \<or> tn_dtype (the tin) \<noteq> SYN_NPU_DTYPE_INT8 then (Err EINVAL, out)
      else let t = the tin; u = the out; needed = tn_size t * 4 in
        if tn_size u < needed then (Err ENOMEM, out)
        else (Ok (), Some (set_floats t needed
               (write_front (float_bytes (map (\<lambda>i. dequant (the cfg) (int8_at (tn_bytes t) i)) [0..<unat (tn_size t)])) u))))"

section \<open>Non-maximum suppression\<close>

record syn_bbox =
  bb_x1 :: f32
  bb_y1 :: f32
  bb_x2 :: f32
  bb_y2 :: f32
  bb_score :: f32
  bb_class_id :: f32

record nms_config =
  nc_iou_threshold :: f32
  nc_score_threshold :: f32
  nc_max_boxes :: u8

definition NMS_MAX_BOXES :: nat where "NMS_MAX_BOXES = 64"

definition box_at :: "u8 list \<Rightarrow> nat \<Rightarrow> syn_bbox" where
  "box_at bs i = \<lparr>bb_x1 = get32 bs (24 * i), bb_y1 = get32 bs (24 * i + 4), bb_x2 = get32 bs (24 * i + 8),
     bb_y2 = get32 bs (24 * i + 12), bb_score = get32 bs (24 * i + 16), bb_class_id = get32 bs (24 * i + 20)\<rparr>"

definition box_bytes :: "syn_bbox \<Rightarrow> u8 list" where
  "box_bytes b = float_bytes [bb_x1 b, bb_y1 b, bb_x2 b, bb_y2 b, bb_score b, bb_class_id b]"

definition box_iou :: "syn_bbox \<Rightarrow> syn_bbox \<Rightarrow> f32" where
  "box_iou a b =
     (let ix1 = (if f_lt (bb_x1 b) (bb_x1 a) then bb_x1 a else bb_x1 b);
          iy1 = (if f_lt (bb_y1 b) (bb_y1 a) then bb_y1 a else bb_y1 b);
          ix2 = (if f_lt (bb_x2 a) (bb_x2 b) then bb_x2 a else bb_x2 b);
          iy2 = (if f_lt (bb_y2 a) (bb_y2 b) then bb_y2 a else bb_y2 b);
          iw = f_sub ix2 ix1; ih = f_sub iy2 iy1
      in if f_le iw (f_lit 0 1) \<or> f_le ih (f_lit 0 1) then f_lit 0 1
         else let inter = f_mul iw ih;
                  area_a = f_mul (f_sub (bb_x2 a) (bb_x1 a)) (f_sub (bb_y2 a) (bb_y1 a));
                  area_b = f_mul (f_sub (bb_x2 b) (bb_x1 b)) (f_sub (bb_y2 b) (bb_y1 b));
                  uni = f_sub (f_add area_a area_b) inter
              in if f_lt (f_lit 0 1) uni then f_div inter uni else f_lit 0 1)"

text \<open>The index array: a candidate moves down past the entries of lower score.\<close>

fun order_pos :: "(nat \<Rightarrow> f32) \<Rightarrow> nat list \<Rightarrow> f32 \<Rightarrow> nat \<Rightarrow> nat" where
  "order_pos score order s 0 = 0"
| "order_pos score order s (Suc p) = (if f_lt (score (order ! p)) s then order_pos score order s p else Suc p)"

definition order_insert :: "(nat \<Rightarrow> f32) \<Rightarrow> nat \<Rightarrow> nat list \<Rightarrow> nat list" where
  "order_insert score i order =
     (let p = order_pos score order (score i) (length order) in take p order @ i # drop p order)"

definition nms_order :: "(nat \<Rightarrow> f32) \<Rightarrow> f32 \<Rightarrow> nat \<Rightarrow> nat list" where
  "nms_order score thr count =
     foldl (\<lambda>order i. if f_lt (score i) thr then order else order_insert score i order) [] [0..<count]"

definition suppress :: "(nat \<Rightarrow> nat \<Rightarrow> bool) \<Rightarrow> nat list \<Rightarrow> nat \<Rightarrow> bool list \<Rightarrow> bool list" where
  "suppress over order i hid =
     foldl (\<lambda>hid j. if hid ! j then hid else if over (order ! i) (order ! j) then hid[j := True] else hid)
       hid [i + 1..<length order]"

fun nms_loop :: "(nat \<Rightarrow> nat \<Rightarrow> bool) \<Rightarrow> nat list \<Rightarrow> nat \<Rightarrow> nat \<Rightarrow> nat list \<Rightarrow> bool list \<Rightarrow> nat list \<Rightarrow> nat list" where
  "nms_loop over order maxb cap [] hid kept = kept"
| "nms_loop over order maxb cap (i # is) hid kept =
     (if length kept \<ge> maxb then kept
      else if hid ! i then nms_loop over order maxb cap is hid kept
      else if (length kept + 1) * 24 > cap then kept
      else nms_loop over order maxb cap is (suppress over order i hid) (kept @ [order ! i]))"

definition nms_over :: "u8 list \<Rightarrow> f32 \<Rightarrow> nat \<Rightarrow> nat \<Rightarrow> bool" where
  "nms_over bs iou i j \<longleftrightarrow> f_eq (bb_class_id (box_at bs j)) (bb_class_id (box_at bs i)) \<and> f_lt iou (box_iou (box_at bs i) (box_at bs j))"

definition nms_kept :: "u8 list \<Rightarrow> nms_config \<Rightarrow> nat \<Rightarrow> nat \<Rightarrow> nat list" where
  "nms_kept bs cfg count cap =
     (let order = nms_order (\<lambda>i. bb_score (box_at bs i)) (nc_score_threshold cfg) count
      in nms_loop (nms_over bs (nc_iou_threshold cfg)) order (unat (nc_max_boxes cfg)) cap [0..<length order]
           (replicate NMS_MAX_BOXES False) [])"

definition post_nms :: "itensor option \<Rightarrow> itensor option \<Rightarrow> nms_config option \<Rightarrow> unit res \<times> itensor option" where
  "post_nms tin out cfg =
     (case (tin, out, cfg) of
        (Some t, Some u, Some c) \<Rightarrow>
          if tn_data t = 0 \<or> tn_data u = 0 \<or> nc_max_boxes c = 0 \<or> tn_dtype t \<noteq> SYN_NPU_DTYPE_FLOAT32 \<or> unat (tn_size t) mod 24 \<noteq> 0
          then (Err EINVAL, out)
          else let count = unat (tn_size t) div 24 in
            if count > NMS_MAX_BOXES then (Err EINVAL, out)
            else let kept = nms_kept (tn_bytes t) c count (unat (tn_size u));
                     v = write_front (concat (map (\<lambda>i. box_bytes (box_at (tn_bytes t) i)) kept)) u
                 in (Ok (), Some (v\<lparr>tn_size := of_nat (length kept) * 24, tn_dtype := SYN_NPU_DTYPE_FLOAT32, tn_ndim := 2,
                       tn_shape := [of_nat (length kept), 6, 0, 0]\<rparr>))
      | _ \<Rightarrow> (Err EINVAL, out))"

end
