(* ===== verification/Preprocess.thy ===== *)
theory Preprocess
  imports Postprocess
begin

text \<open>
  The pre-processors of \<open>src/preprocess/\<close>: bilinear resize and normalization of byte images, int8
  quantization and MFCC features. Image indices are computed in \<open>uint32_t\<close>, as in the code. The FFT of
  the MFCC stage is the software kernel, and its working buffer is taken from the scratch pool of the
  tensor arena.
\<close>

section \<open>Images\<close>

definition is_byte_image :: "itensor option \<Rightarrow> bool" where
  "is_byte_image t \<longleftrightarrow> (case t of
       None \<Rightarrow> False
     | Some t \<Rightarrow> tn_data t \<noteq> 0 \<and> tn_ndim t = 4 \<and> tn_shape t ! 0 = 1 \<and>
         (tn_dtype t = SYN_NPU_DTYPE_UINT8 \<or> tn_dtype t = SYN_NPU_DTYPE_INT8))"

definition no_buffer :: "itensor option \<Rightarrow> bool" where
  "no_buffer out \<longleftrightarrow> (case out of None \<Rightarrow> True | Some u \<Rightarrow> tn_data u = 0)"

text \<open>The source coordinate of a target coordinate: the two neighbours and the weight of the second.\<close>

definition resize_ratio :: "u32 \<Rightarrow> u32 \<Rightarrow> f32" where
  "resize_ratio src dst =
     (if dst > 1 then f_div (f_of_int (uint (src - 1))) (f_of_int (uint (dst - 1))) else f_lit 0 1)"

definition resize_coord :: "u32 \<Rightarrow> f32 \<Rightarrow> nat \<Rightarrow> u32 \<times> u32 \<times> f32" where
  "resize_coord n ratio x =
     (let s = f_mul (f_of_int (int x)) ratio; x0 = f_to_u32 s; x1 = (if x0 + 1 < n then x0 + 1 else x0)
      in (x0, x1, f_sub s (f_of_int (uint x0))))"

definition bilinear :: "f32 \<Rightarrow> f32 \<Rightarrow> f32 \<Rightarrow> f32 \<Rightarrow> f32 \<Rightarrow> f32 \<Rightarrow> f32" where
  "bilinear p00 p01 p10 p11 fx fy =
     (let u = f_add p00 (f_mul fx (f_sub p01 p00)); v = f_add p10 (f_mul fx (f_sub p11 p10))
      in f_add u (f_mul fy (f_sub v u)))"

definition resize_pixel :: "u8 list \<Rightarrow> u32 \<Rightarrow> u32 \<Rightarrow> u32 \<Rightarrow> f32 \<Rightarrow> f32 \<Rightarrow> nat \<Rightarrow> nat \<Rightarrow> nat \<Rightarrow> u8" where
  "resize_pixel src src_h src_w ch x_ratio y_ratio y x c =
     (let (y0, y1, fy) = resize_coord src_h y_ratio y; (x0, x1, fx) = resize_coord src_w x_ratio x;
          p = (\<lambda>yy xx. f_of_int (uint (src ! unat ((yy * src_w + xx) * ch + of_nat c))))
      in ucast (f_to_u32 (f_add (bilinear (p y0 x0) (p y0 x1) (p y1 x0) (p y1 x1) fx fy) (f_lit 1 2))))"

definition image_resize :: "itensor option \<Rightarrow> itensor option \<Rightarrow> (u16 \<times> u16) option \<Rightarrow> unit res \<times> itensor option" where
  "image_resize tin out cfg =
     (if \<not> is_byte_image tin \<or> no_buffer out \<or> cfg = None \<or> fst (the cfg) = 0 \<or> snd (the cfg) = 0 then (Err EINVAL, out)
      else let t = the tin; u = the out;
               src_h = tn_shape t ! 1; src_w = tn_shape t ! 2; ch = tn_shape t ! 3;
               dst_w = ucast (fst (the cfg)) :: u32; dst_h = ucast (snd (the cfg)) :: u32; needed = dst_h * dst_w * ch
        in if src_h = 0 \<or> src_w = 0 \<or> ch = 0 \<or> ch > 4 then (Err EINVAL, out)
           else if tn_size u < needed then (Err ENOMEM, out)
           else let xr = resize_ratio src_w dst_w; yr = resize_ratio src_h dst_h;
                    px = concat (map (\<lambda>y. concat (map (\<lambda>x. map (resize_pixel (tn_bytes t) src_h src_w ch xr yr y x) [0..<unat ch])
                           [0..<unat dst_w])) [0..<unat dst_h])
                in (Ok (), Some ((write_front px u)\<lparr>tn_size := needed, tn_dtype := tn_dtype t, tn_ndim := 4,
                      tn_shape := [1, dst_h, dst_w, ch]\<rparr>)))"

record normalize_config =
  nm_mean :: "f32 list"
  nm_std :: "f32 list"
  nm_channels :: u8

definition byte_value :: "itensor \<Rightarrow> nat \<Rightarrow> f32" where
  "byte_value t i = (if tn_dtype t = SYN_NPU_DTYPE_INT8 then f_of_int (sint (tn_bytes t ! i)) else f_of_int (uint (tn_bytes t ! i)))"

definition image_normalize :: "itensor option \<Rightarrow> itensor option \<Rightarrow> normalize_config option \<Rightarrow> unit res \<times> itensor option" where
  "image_normalize tin out cfg =
     (if \<not> is_byte_image tin \<or> no_buffer out \<or> cfg = None then (Err EINVAL, out)
      else let t = the tin; u = the out; c = the cfg; ch = tn_shape t ! 3 in
        if ch = 0 \<or> ch > 4 \<or> ucast (nm_channels c) \<noteq> ch then (Err EINVAL, out)
        else if \<exists>k \<in> set [0..<unat ch]. f_eq (nm_std c ! k) (f_lit 0 1) then (Err EINVAL, out)
        else let needed = tn_size t * 4 in
          if tn_size u < needed then (Err ENOMEM, out)
          else let dst = map (\<lambda>i. let k = i mod unat ch in f_div (f_sub (byte_value t i) (nm_mean c ! k)) (nm_std c ! k))
                       [0..<unat (tn_size t)]
               in (Ok (), Some (set_floats t needed (write_front (float_bytes dst) u))))"

section \<open>Quantization\<close>

record quantize_config =
  qz_scale :: f32
  qz_zero_point :: i32

definition quantize_one :: "quantize_config \<Rightarrow> f32 \<Rightarrow> i8" where
  "quantize_one cfg x = clamp8 (add_i32 (f_lround (f_div x (qz_scale cfg))) (sint (qz_zero_point cfg)))"

definition quantize_int8 :: "itensor option \<Rightarrow> itensor option \<Rightarrow> quantize_config option \<Rightarrow> unit res \<times> itensor option" where
  "quantize_int8 tin out cfg =
     (case (tin, out, cfg) of
        (Some t, Some u, Some c) \<Rightarrow>
          if tn_data t = 0 \<or> tn_data u = 0 \<or> f_eq (qz_scale c) (f_lit 0 1) \<or> tn_dtype t \<noteq> SYN_NPU_DTYPE_FLOAT32 then (Err EINVAL, out)
          else let count = tn_size t div 4 in
            if tn_size u < count then (Err ENOMEM, out)
            else let dst = map (\<lambda>i. quantize_one c (get32 (tn_bytes t) (4 * i))) [0..<unat count]
                 in (Ok (), Some ((write_front dst u)\<lparr>tn_size := count, tn_dtype := SYN_NPU_DTYPE_INT8, tn_ndim := tn_ndim t,
                       tn_shape := tn_shape t\<rparr>))
      | _ \<Rightarrow> (Err EINVAL, out))"

section \<open>MFCC\<close>

definition MFCC_MAX_FRAME_LEN :: nat where "MFCC_MAX_FRAME_LEN = 512"
definition MFCC_MAX_MEL :: nat where "MFCC_MAX_MEL = 32"
definition MFCC_PI :: f32 where "MFCC_PI = f_lit 314159265358979 (10 ^ 14)"

record mfcc_config =
  mf_sample_rate_hz :: u32
  mf_frame_len :: u16
  mf_num_mel :: u8
  mf_num_coeffs :: u8

definition hz_to_mel :: "libm \<Rightarrow> f32 \<Rightarrow> f32" where
  "hz_to_mel L hz = f_mul (f_lit 2595 1) (m_log10 L (f_add (f_lit 1 1) (f_div hz (f_lit 700 1))))"

definition mel_to_hz :: "libm \<Rightarrow> f32 \<Rightarrow> f32" where
  "mel_to_hz L mel = f_mul (f_lit 700 1) (f_sub (m_pow L (f_lit 10 1) (f_div mel (f_lit 2595 1))) (f_lit 1 1))"

definition mfcc_edges :: "libm \<Rightarrow> mfcc_config \<Rightarrow> f32 list" where
  "mfcc_edges L c =
     (let rate = f_of_int (uint (mf_sample_rate_hz c));
          mel_max = hz_to_mel L (f_div rate (f_lit 2 1))
      in map (\<lambda>m. let mel = f_div (f_mul mel_max (f_of_int (int m))) (f_of_int (uint (mf_num_mel c) + 1))
                  in f_div (f_mul (mel_to_hz L mel) (f_of_int (uint (mf_frame_len c)))) rate)
           [0..<unat (mf_num_mel c) + 2])"

definition mfcc_window :: "libm \<Rightarrow> nat \<Rightarrow> (nat \<Rightarrow> f32) \<Rightarrow> f32 list" where
  "mfcc_window L frame_len frame =
     concat (map (\<lambda>i. let w = f_sub (f_lit 54 100) (f_mul (f_lit 46 100)
                           (m_cos L (f_div (f_mul (f_mul (f_lit 2 1) MFCC_PI) (f_of_int (int i))) (f_of_int (int (frame_len - 1))))))
                      in [f_mul (frame i) w, f_lit 0 1]) [0..<frame_len])"

definition mel_energy :: "f32 list \<Rightarrow> nat \<Rightarrow> f32 \<Rightarrow> f32 \<Rightarrow> f32 \<Rightarrow> f32" where
  "mel_energy buf num_bins lo mid hi =
     foldl (\<lambda>energy k. let pos = f_of_int (int k) in
         if f_le pos lo \<or> f_le hi pos then energy
         else let weight = (if f_le pos mid
                            then if f_lt lo mid then f_div (f_sub pos lo) (f_sub mid lo) else f_lit 0 1
                            else if f_lt mid hi then f_div (f_sub hi pos) (f_sub hi mid) else f_lit 0 1);
                  re = buf ! (2 * k); im = buf ! (2 * k + 1)
              in f_add energy (f_mul weight (f_add (f_mul re re) (f_mul im im))))
       (f_lit 0 1) [0..<num_bins]"

definition mfcc_dct :: "libm \<Rightarrow> nat \<Rightarrow> f32 list \<Rightarrow> nat \<Rightarrow> f32" where
  "mfcc_dct L num_mel log_mel j =
     foldl (\<lambda>acc m. f_add acc (f_mul (log_mel ! m)
         (m_cos L (f_div (f_mul (f_mul MFCC_PI (f_of_int (int j))) (f_add (f_of_int (int m)) (f_lit 1 2))) (f_of_int (int num_mel))))))
       (f_lit 0 1) [0..<num_mel]"

definition mfcc_frame :: "libm \<Rightarrow> mfcc_config \<Rightarrow> f32 list \<Rightarrow> (nat \<Rightarrow> f32) \<Rightarrow> f32 list res" where
  "mfcc_frame L c edges frame =
     (let frame_len = unat (mf_frame_len c); num_mel = unat (mf_num_mel c)
      in case syn_dsp_soft_fft_f32 L (Some (mfcc_window L frame_len frame)) True frame_len of
           Inl e \<Rightarrow> Err e
         | Inr buf \<Rightarrow>
             (let log_mel = map (\<lambda>m. m_log L (f_add (mel_energy buf (frame_len div 2 + 1) (edges ! m) (edges ! (m + 1)) (edges ! (m + 2)))
                               (f_lit 1 (10 ^ 6)))) [0..<num_mel]
              in Ok (map (mfcc_dct L num_mel log_mel) [0..<unat (mf_num_coeffs c)])))"

text \<open>The frames in turn: the coefficients written so far, and the error that ended the loop.\<close>

fun mfcc_frames :: "(nat \<Rightarrow> f32 list res) \<Rightarrow> nat list \<Rightarrow> f32 list \<Rightarrow> unit res \<times> f32 list" where
  "mfcc_frames fr [] acc = (Ok (), acc)"
| "mfcc_frames fr (f # fs) acc = (case fr f of Inl e \<Rightarrow> (Err e, acc) | Inr cs \<Rightarrow> mfcc_frames fr fs (acc @ cs))"

definition mfcc_config_ok :: "mfcc_config \<Rightarrow> bool" where
  "mfcc_config_ok c \<longleftrightarrow> mf_sample_rate_hz c \<noteq> 0 \<and> unat (mf_frame_len c) \<ge> 8 \<and> unat (mf_frame_len c) \<le> MFCC_MAX_FRAME_LEN \<and>
     mf_frame_len c AND (mf_frame_len c - 1) = 0 \<and> mf_num_mel c \<noteq> 0 \<and> unat (mf_num_mel c) \<le> MFCC_MAX_MEL \<and>
     mf_num_coeffs c \<noteq> 0 \<and> mf_num_coeffs c \<le> mf_num_mel c"

definition audio_mfcc ::
  "libm \<Rightarrow> itensor option \<Rightarrow> itensor option \<Rightarrow> mfcc_config option \<Rightarrow> mem_arena \<Rightarrow> (unit res \<times> itensor option) \<times> mem_arena" where
  "audio_mfcc L tin out cfg a =
     (case (tin, out, cfg) of
        (Some t, Some u, Some c) \<Rightarrow>
          if tn_data t = 0 \<or> tn_data u = 0 \<or> tn_dtype t \<noteq> SYN_NPU_DTYPE_FLOAT32 \<or> \<not> mfcc_config_ok c then ((Err EINVAL, out), a)
          else let frame_len = ucast (mf_frame_len c) :: u32; num_frames = tn_size t div 4 div frame_len;
                   needed = num_frames * ucast (mf_num_coeffs c) * 4
            in if num_frames = 0 then ((Err EINVAL, out), a)
               else if tn_size u < needed then ((Err ENOMEM, out), a)
               else (case syn_mem_scratch_acquire (frame_len * 2 * 4) a of
                  (None, a1) \<Rightarrow> ((Err ENOMEM, out), a1)
                | (Some p, a1) \<Rightarrow>
                    (let edges = mfcc_edges L c;
                         fr = (\<lambda>f. mfcc_frame L c edges (\<lambda>i. get32 (tn_bytes t) (4 * (f * unat frame_len + i))));
                         (r, cs) = mfcc_frames fr [0..<unat num_frames] [];
                         v = write_front (float_bytes cs) u; a2 = syn_mem_scratch_release (Some p) a1
                     in case r of
                          Inl e \<Rightarrow> ((Err e, Some v), a2)
                        | Inr _ \<Rightarrow> ((Ok (), Some (v\<lparr>tn_size := needed, tn_dtype := SYN_NPU_DTYPE_FLOAT32, tn_ndim := 2,
                             tn_shape := [num_frames, ucast (mf_num_coeffs c), 0, 0]\<rparr>)), a2)))
      | _ \<Rightarrow> ((Err EINVAL, out), a))"

end
