(* ===== verification/Select_Safety.thy ===== *)
theory Select_Safety
  imports Postprocess
begin

text \<open>
  What the selecting post-processors choose: non-maximum suppression is the greedy choice by descending
  score, and top-k is the front of the stable order by descending score.
\<close>

section \<open>The candidate order\<close>

abbreviation desc :: "(nat \<Rightarrow> f32) \<Rightarrow> nat \<Rightarrow> nat \<Rightarrow> bool" where
  "desc score a b \<equiv> f_key (score b) < f_key (score a) \<or> f_key (score b) = f_key (score a) \<and> a < b"

lemma order_pos_le: "order_pos score order s n \<le> n"
  by (induction n) auto

lemma order_pos_split:
  assumes "sorted_wrt (\<lambda>a b. f_key (score b) \<le> f_key (score a)) order" "n \<le> length order"
    "\<forall>i \<in> set order. \<not> f_is_nan (score i)" "\<not> f_is_nan s" "\<forall>j. n \<le> j \<longrightarrow> j < length order \<longrightarrow> f_key (score (order ! j)) < f_key s"
  shows "(\<forall>j < order_pos score order s n. f_key s \<le> f_key (score (order ! j))) \<and>
    (\<forall>j. order_pos score order s n \<le> j \<longrightarrow> j < length order \<longrightarrow> f_key (score (order ! j)) < f_key s)"
  using assms
proof (induction n)
  case (Suc p)
  have nn: "\<not> f_is_nan (score (order ! p))" using Suc.prems by simp
  show ?case
  proof (cases "f_lt (score (order ! p)) s")
    case True
    then have "\<forall>j. p \<le> j \<longrightarrow> j < length order \<longrightarrow> f_key (score (order ! j)) < f_key s"
      using Suc.prems(5) by (metis f_lt_def not_less_eq_eq le_antisym)
    then show ?thesis using Suc.IH Suc.prems True by simp
  next
    case False
    then have p: "f_key s \<le> f_key (score (order ! p))" using nn Suc.prems(4) by (simp add: f_lt_def)
    have "f_key s \<le> f_key (score (order ! j))" if "j \<le> p" for j
      using p sorted_wrt_nth_less [OF Suc.prems(1), of j p] that Suc.prems(2) by (cases "j = p") auto
    then show ?thesis using False Suc.prems by simp
  qed
qed simp

lemma sorted_wrt_insert_mid:
  "sorted_wrt R (xs @ ys) \<Longrightarrow> \<forall>x \<in> set xs. R x i \<Longrightarrow> \<forall>y \<in> set ys. R i y \<Longrightarrow> sorted_wrt R (xs @ i # ys)"
  by (simp add: sorted_wrt_append)

lemma order_insert_spec:
  assumes "sorted_wrt (desc score) order" "\<forall>j \<in> set order. j < i \<and> \<not> f_is_nan (score j)" "\<not> f_is_nan (score i)"
  shows "sorted_wrt (desc score) (order_insert score i order)" "set (order_insert score i order) = insert i (set order)"
    "distinct order \<Longrightarrow> distinct (order_insert score i order)"
proof -
  define p where "p = order_pos score order (score i) (length order)"
  have pl: "p \<le> length order" unfolding p_def by (rule order_pos_le)
  have le: "sorted_wrt (\<lambda>a b. f_key (score b) \<le> f_key (score a)) order"
    by (rule sorted_wrt_mono_rel [OF _ assms(1)]) auto
  note sp = order_pos_split [OF le order_refl, of "score i", folded p_def]
  have hi: "f_key (score i) \<le> f_key (score (order ! j))" if "j < p" for j using sp assms that by auto
  have lo: "f_key (score (order ! j)) < f_key (score i)" if "p \<le> j" "j < length order" for j using sp assms that by auto
  have "desc score x i" if "x \<in> set (take p order)" for x
  proof -
    from that obtain j where "j < p" "j < length order" "x = order ! j" using pl by (auto simp: in_set_conv_nth)
    then show ?thesis using hi [of j] assms(2) nth_mem [of j order] by fastforce
  qed
  moreover have "desc score i y" if "y \<in> set (drop p order)" for y
  proof -
    from that obtain j where "j < length order - p" "y = order ! (p + j)" using pl by (auto simp: in_set_conv_nth)
    then show ?thesis using lo [of "p + j"] by simp
  qed
  ultimately show "sorted_wrt (desc score) (order_insert score i order)"
    unfolding order_insert_def Let_def p_def [symmetric] using assms(1) by (intro sorted_wrt_insert_mid) auto
  have t: "set (take p order) \<union> set (drop p order) = set order" by (metis append_take_drop_id set_append)
  then show "set (order_insert score i order) = insert i (set order)"
    unfolding order_insert_def Let_def p_def [symmetric] by auto
  show "distinct (order_insert score i order)" if "distinct order"
  proof -
    have "i \<notin> set order" using assms(2) by auto
    then have "i \<notin> set (take p order)" "i \<notin> set (drop p order)" using t by auto
    moreover have "distinct (take p order @ drop p order)" using that by simp
    ultimately show ?thesis unfolding order_insert_def Let_def p_def [symmetric] distinct_append by auto
  qed
qed

lemma nms_order_spec:
  assumes "\<forall>i < count. \<not> f_is_nan (score i)"
  shows "sorted_wrt (desc score) (nms_order score thr count) \<and> distinct (nms_order score thr count) \<and>
    set (nms_order score thr count) = {i. i < count \<and> \<not> f_lt (score i) thr}"
  using assms
proof (induction count)
  case (Suc n)
  let ?o = "nms_order score thr n"
  have IH: "sorted_wrt (desc score) ?o" "distinct ?o" "set ?o = {i. i < n \<and> \<not> f_lt (score i) thr}" using Suc by auto
  have unf: "nms_order score thr (Suc n) = (if f_lt (score n) thr then ?o else order_insert score n ?o)"
    by (simp add: nms_order_def)
  have old: "\<forall>j \<in> set ?o. j < n \<and> \<not> f_is_nan (score j)" using IH(3) Suc.prems by auto
  show ?case unfolding unf
    using IH order_insert_spec [OF IH(1) old] Suc.prems by (auto simp: less_Suc_eq)
qed (simp add: nms_order_def)

section \<open>The greedy loop\<close>

lemma suppress_spec:
  assumes "length order \<le> length hid"
  shows "length (suppress over order i hid) = length hid"
    "j < length order \<Longrightarrow> suppress over order i hid ! j \<longleftrightarrow> hid ! j \<or> i < j \<and> over (order ! i) (order ! j)"
proof -
  have *: "length (foldl (\<lambda>hid j. if hid ! j then hid else if over (order ! i) (order ! j) then hid[j := True] else hid) hid [lo..<n]) = length hid \<and>
      (\<forall>j < length hid. foldl (\<lambda>hid j. if hid ! j then hid else if over (order ! i) (order ! j) then hid[j := True] else hid) hid [lo..<n] ! j \<longleftrightarrow>
        hid ! j \<or> lo \<le> j \<and> j < n \<and> over (order ! i) (order ! j))" if "n \<le> length hid" for lo n
    using that
  proof (induction n)
    case (Suc n)
    then show ?case by (cases "lo \<le> n") (auto simp: nth_list_update less_Suc_eq)
  qed simp
  show "length (suppress over order i hid) = length hid" unfolding suppress_def using * [OF assms] by blast
  show "suppress over order i hid ! j \<longleftrightarrow> hid ! j \<or> i < j \<and> over (order ! i) (order ! j)" if "j < length order"
    unfolding suppress_def using * [OF assms, of "i + 1"] that assms by auto
qed

text \<open>The choice over the candidates in front of position \<open>i\<close>.\<close>

definition greedy_upto :: "(nat \<Rightarrow> nat \<Rightarrow> bool) \<Rightarrow> nat list \<Rightarrow> nat \<Rightarrow> nat list \<Rightarrow> bool" where
  "greedy_upto over order i ps \<longleftrightarrow>
     sorted_wrt (<) ps \<and> (\<forall>p \<in> set ps. p < i) \<and>
     (\<forall>j < i. j \<in> set ps \<longleftrightarrow> \<not> (\<exists>p \<in> set ps. p < j \<and> over (order ! p) (order ! j)))"

lemma nms_loop_greedy:
  assumes "greedy_upto over order i ps" "i \<le> length order" "length order \<le> length hid" "length ps \<le> maxb"
    "\<forall>j < length order. i \<le> j \<longrightarrow> (hid ! j \<longleftrightarrow> (\<exists>p \<in> set ps. over (order ! p) (order ! j)))" "length ps * 24 \<le> cap"
  shows "\<exists>qs m. nms_loop over order maxb cap [i..<length order] hid (map ((!) order) ps) = map ((!) order) qs \<and>
     m \<le> length order \<and> greedy_upto over order m qs \<and> length qs \<le> maxb \<and> length qs * 24 \<le> cap \<and>
     (m < length order \<longrightarrow> length qs = maxb \<or> (length qs + 1) * 24 > cap)"
  using assms
proof (induction "length order - i" arbitrary: i ps hid)
  case 0
  then show ?case by (intro exI [of _ ps] exI [of _ i]) simp
next
  case (Suc d)
  then have i: "i < length order" by simp
  have unf: "[i..<length order] = i # [Suc i..<length order]" using i by (simp add: upt_conv_Cons)
  have g: "sorted_wrt (<) ps" "\<forall>p \<in> set ps. p < i"
    "\<forall>j < i. j \<in> set ps \<longleftrightarrow> \<not> (\<exists>p \<in> set ps. p < j \<and> over (order ! p) (order ! j))"
    using Suc.prems(1) by (auto simp: greedy_upto_def)
  consider "length ps = maxb" | "length ps < maxb" "hid ! i" | "length ps < maxb" "\<not> hid ! i" "(length ps + 1) * 24 > cap"
    | "length ps < maxb" "\<not> hid ! i" "(length ps + 1) * 24 \<le> cap" using Suc.prems(4) by linarith
  then show ?case
  proof cases
    case 1
    then show ?thesis using Suc.prems i unfolding unf by (intro exI [of _ ps] exI [of _ i]) simp
  next
    case 2
    have "greedy_upto over order (Suc i) ps"
      unfolding greedy_upto_def using g Suc.prems(5) i 2(2) by (auto simp: less_Suc_eq)
    moreover have "\<forall>j < length order. Suc i \<le> j \<longrightarrow> (hid ! j \<longleftrightarrow> (\<exists>p \<in> set ps. over (order ! p) (order ! j)))"
      using Suc.prems(5) by simp
    ultimately show ?thesis using Suc.hyps(1) [of "Suc i" ps hid] Suc.hyps(2) Suc.prems 2 i unfolding unf by simp
  next
    case 3
    then show ?thesis using Suc.prems i unfolding unf by (intro exI [of _ ps] exI [of _ i]) simp
  next
    case 4
    define hid' where "hid' = suppress over order i hid"
    have l: "length hid' = length hid" using suppress_spec(1) [OF Suc.prems(3)] by (simp add: hid'_def)
    have h: "hid' ! j \<longleftrightarrow> hid ! j \<or> i < j \<and> over (order ! i) (order ! j)" if "j < length order" for j
      using suppress_spec(2) [OF Suc.prems(3) that] by (simp add: hid'_def)
    have "greedy_upto over order (Suc i) (ps @ [i])"
      unfolding greedy_upto_def using g Suc.prems(5) i 4(2)
      by (auto simp: less_Suc_eq sorted_wrt_append dest: order_less_trans)
    moreover have "\<forall>j < length order. Suc i \<le> j \<longrightarrow> (hid' ! j \<longleftrightarrow> (\<exists>p \<in> set (ps @ [i]). over (order ! p) (order ! j)))"
      using Suc.prems(5) h by auto
    ultimately have "\<exists>qs m. nms_loop over order maxb cap [Suc i..<length order] hid' (map ((!) order) (ps @ [i])) = map ((!) order) qs \<and>
        m \<le> length order \<and> greedy_upto over order m qs \<and> length qs \<le> maxb \<and> length qs * 24 \<le> cap \<and>
        (m < length order \<longrightarrow> length qs = maxb \<or> (length qs + 1) * 24 > cap)"
      using Suc.hyps(2) Suc.prems(3) 4 i l by (intro Suc.hyps(1)) auto
    then show ?thesis using 4 unfolding unf by (simp add: hid'_def)
  qed
qed

section \<open>Non-maximum suppression\<close>

text \<open>An output tensor that holds the boxes with the given indices.\<close>

definition nms_result :: "itensor \<Rightarrow> itensor \<Rightarrow> nat list \<Rightarrow> itensor" where
  "nms_result t u ks =
     (write_front (concat (map (\<lambda>i. box_bytes (box_at (tn_bytes t) i)) ks)) u)
       \<lparr>tn_size := of_nat (length ks) * 24, tn_dtype := SYN_NPU_DTYPE_FLOAT32, tn_ndim := 2, tn_shape := [of_nat (length ks), 6, 0, 0]\<rparr>"

text \<open>A good choice \<open>ks\<close> among the boxes of a tensor.\<close>

definition nms_choice :: "itensor \<Rightarrow> nms_config \<Rightarrow> nat \<Rightarrow> nat list \<Rightarrow> bool" where
  "nms_choice t c cap ks \<longleftrightarrow>
     (let count = unat (tn_size t) div 24; score = (\<lambda>i. bb_score (box_at (tn_bytes t) i));
          over = nms_over (tn_bytes t) (nc_iou_threshold c); room = min (unat (nc_max_boxes c)) (cap div 24)
      in length ks \<le> room \<and> sorted_wrt (desc score) ks \<and>
         (\<forall>k \<in> set ks. k < count \<and> \<not> f_lt (score k) (nc_score_threshold c)) \<and>
         sorted_wrt (\<lambda>k l. \<not> over k l) ks \<and>
         (\<forall>i < count. \<not> f_lt (score i) (nc_score_threshold c) \<longrightarrow> i \<notin> set ks \<longrightarrow>
            (\<exists>k \<in> set ks. desc score k i \<and> over k i) \<or> length ks = room \<and> (\<forall>k \<in> set ks. desc score k i)))"

lemma greedy_choice:
  assumes "sorted_wrt R order" "distinct order" "m \<le> length order" "greedy_upto over order m ps"
  shows "sorted_wrt R (map ((!) order) ps)" "set (map ((!) order) ps) \<subseteq> set order" "sorted_wrt (\<lambda>k l. \<not> over k l) (map ((!) order) ps)"
    "\<And>i. i \<in> set order \<Longrightarrow> i \<notin> set (map ((!) order) ps) \<Longrightarrow>
       (\<exists>k \<in> set (map ((!) order) ps). R k i \<and> over k i) \<or> m < length order \<and> (\<forall>k \<in> set (map ((!) order) ps). R k i)"
proof -
  have g: "sorted_wrt (<) ps" "\<forall>p \<in> set ps. p < m"
    "\<forall>j < m. j \<in> set ps \<longleftrightarrow> \<not> (\<exists>p \<in> set ps. p < j \<and> over (order ! p) (order ! j))"
    using assms(4) by (auto simp: greedy_upto_def)
  have R: "R (order ! p) (order ! q)" if "p < q" "q < length order" for p q
    using sorted_wrt_nth_less [OF assms(1)] that by simp
  show "sorted_wrt R (map ((!) order) ps)" unfolding sorted_wrt_map
    by (rule sorted_wrt_mono_rel [OF _ g(1)]) (use g(2) assms(3) R in force)
  show "set (map ((!) order) ps) \<subseteq> set order" using g(2) assms(3) by auto
  show "sorted_wrt (\<lambda>k l. \<not> over k l) (map ((!) order) ps)" unfolding sorted_wrt_map
    by (rule sorted_wrt_mono_rel [OF _ g(1)]) (use g(2,3) in blast)
  fix i assume i: "i \<in> set order" "i \<notin> set (map ((!) order) ps)"
  then obtain j where j: "j < length order" "i = order ! j" by (auto simp: in_set_conv_nth)
  with i(2) have np: "j \<notin> set ps" by auto
  show "(\<exists>k \<in> set (map ((!) order) ps). R k i \<and> over k i) \<or> m < length order \<and> (\<forall>k \<in> set (map ((!) order) ps). R k i)"
  proof (cases "j < m")
    case True
    then obtain p where "p \<in> set ps" "p < j" "over (order ! p) (order ! j)" using g(3) np by blast
    then show ?thesis using R [of p j] j by auto
  next
    case False
    then show ?thesis using R [of _ j] j g(2) by fastforce
  qed
qed

text \<open>
  C16: on a tensor of at most 64 boxes whose scores are numbers, non-maximum suppression returns success
  and exactly the greedy choice: the boxes come out unchanged, in descending score (input order among
  equals), all at or above the score threshold, no box overlaps an earlier one of its class above the IoU
  threshold, and a box that is left out is overlapped by a better one that was kept, or the limit of boxes or
  of the output buffer was reached by better ones.
\<close>

theorem nms_is_the_greedy_choice:
  assumes "tn_data t \<noteq> 0" "tn_data u \<noteq> 0" "nc_max_boxes c \<noteq> 0" "tn_dtype t = SYN_NPU_DTYPE_FLOAT32"
    "unat (tn_size t) mod 24 = 0" "unat (tn_size t) \<le> 64 * 24"
    "\<forall>i < unat (tn_size t) div 24. \<not> f_is_nan (bb_score (box_at (tn_bytes t) i))"
  shows "\<exists>ks. post_nms (Some t) (Some u) (Some c) = (Ok (), Some (nms_result t u ks)) \<and> nms_choice t c (unat (tn_size u)) ks"
proof -
  define count score over where "count = unat (tn_size t) div 24" and "score = (\<lambda>i. bb_score (box_at (tn_bytes t) i))"
    and "over = nms_over (tn_bytes t) (nc_iou_threshold c)"
  define order ks where "order = nms_order score (nc_score_threshold c) count" and "ks = nms_kept (tn_bytes t) c count (unat (tn_size u))"
  have "\<not> NMS_MAX_BOXES < count" using assms(6) by (simp add: count_def NMS_MAX_BOXES_def)
  then have run: "post_nms (Some t) (Some u) (Some c) = (Ok (), Some (nms_result t u ks))"
    using assms by (simp add: post_nms_def Let_def nms_result_def ks_def count_def)
  have O: "sorted_wrt (desc score) order" "distinct order" "set order = {i. i < count \<and> \<not> f_lt (score i) (nc_score_threshold c)}"
    using nms_order_spec [of count score "nc_score_threshold c"] assms(7) by (auto simp: order_def count_def score_def)
  have "card (set order) \<le> card {..<count}" using O(3) by (intro card_mono) auto
  then have lo: "length order \<le> NMS_MAX_BOXES" using assms(6) O(2) by (simp add: distinct_card count_def NMS_MAX_BOXES_def)
  have k: "ks = nms_loop over order (unat (nc_max_boxes c)) (unat (tn_size u)) [0..<length order] (replicate NMS_MAX_BOXES False) (map ((!) order) [])"
    by (simp add: ks_def nms_kept_def Let_def order_def score_def over_def)
  have "\<exists>qs m. ks = map ((!) order) qs \<and> m \<le> length order \<and> greedy_upto over order m qs \<and> length qs \<le> unat (nc_max_boxes c) \<and>
      length qs * 24 \<le> unat (tn_size u) \<and> (m < length order \<longrightarrow> length qs = unat (nc_max_boxes c) \<or> (length qs + 1) * 24 > unat (tn_size u))"
    unfolding k by (rule nms_loop_greedy) (use lo in \<open>auto simp: greedy_upto_def\<close>)
  then obtain qs m where q: "ks = map ((!) order) qs" "m \<le> length order" "greedy_upto over order m qs"
    "length qs \<le> unat (nc_max_boxes c)" "length qs * 24 \<le> unat (tn_size u)"
    "m < length order \<longrightarrow> length qs = unat (nc_max_boxes c) \<or> (length qs + 1) * 24 > unat (tn_size u)" by blast
  note G = greedy_choice [OF O(1,2) q(2,3), folded q(1)]
  have "length ks \<le> min (unat (nc_max_boxes c)) (unat (tn_size u) div 24)" using q by (simp add: less_eq_div_iff_mult_less_eq)
  moreover have "length ks = min (unat (nc_max_boxes c)) (unat (tn_size u) div 24)" if "m < length order"
    using q(6) that q(4,5) by (auto simp: q(1) min_def less_eq_div_iff_mult_less_eq div_nat_eqI not_le)
  ultimately have "nms_choice t c (unat (tn_size u)) ks"
    unfolding nms_choice_def Let_def count_def [symmetric] score_def [symmetric] over_def [symmetric]
    using G O(3) by blast
  with run show ?thesis by blast
qed

definition demo_nms_in :: itensor where
  "demo_nms_in = \<lparr>tn_data = 0x20000000, tn_size = 48, tn_dtype = SYN_NPU_DTYPE_FLOAT32, tn_ndim = 2, tn_shape = [2, 6, 0, 0],
     tn_lifetime = SYN_MEM_EPHEMERAL,
     tn_bytes = box_bytes \<lparr>bb_x1 = 0, bb_y1 = 0, bb_x2 = 0x3F800000, bb_y2 = 0x3F800000, bb_score = 0x3F000000, bb_class_id = 0\<rparr> @
       box_bytes \<lparr>bb_x1 = 0, bb_y1 = 0, bb_x2 = 0x3F800000, bb_y2 = 0x3F800000, bb_score = 0x3F400000, bb_class_id = 0\<rparr>\<rparr>"

definition demo_nms_out :: itensor where
  "demo_nms_out = \<lparr>tn_data = 0x20000100, tn_size = 48, tn_dtype = SYN_NPU_DTYPE_INT8, tn_ndim = 1, tn_shape = [48, 0, 0, 0],
     tn_lifetime = SYN_MEM_EPHEMERAL, tn_bytes = []\<rparr>"

definition demo_nms_cfg :: nms_config where
  "demo_nms_cfg = \<lparr>nc_iou_threshold = 0x3F000000, nc_score_threshold = 0x3E800000, nc_max_boxes = 4\<rparr>"

lemma less_2_iff: "(\<forall>i < 2. P (i :: nat)) \<longleftrightarrow> P 0 \<and> P 1"
  by (auto simp: less_2_cases_iff)

lemma demo_nms_scores: "\<forall>i < 2. \<not> f_is_nan (bb_score (box_at (tn_bytes demo_nms_in) i))"
  unfolding less_2_iff
  by (simp add: demo_nms_in_def box_at_def box_bytes_def float_bytes_def le32_def get32_def drop_bit_eq_div float_simps)

theorem nms_is_the_greedy_choice_witness:
  "\<exists>ks. post_nms (Some demo_nms_in) (Some demo_nms_out) (Some demo_nms_cfg) = (Ok (), Some (nms_result demo_nms_in demo_nms_out ks)) \<and>
     nms_choice demo_nms_in demo_nms_cfg (unat (tn_size demo_nms_out)) ks"
proof (rule nms_is_the_greedy_choice)
  have "unat (tn_size demo_nms_in) div 24 = 2" by (simp add: demo_nms_in_def)
  then show "\<forall>i < unat (tn_size demo_nms_in) div 24. \<not> f_is_nan (bb_score (box_at (tn_bytes demo_nms_in) i))"
    using demo_nms_scores by simp
qed (simp_all add: demo_nms_in_def demo_nms_out_def demo_nms_cfg_def)

section \<open>Top-k\<close>

lemma insort_key_lex:
  fixes f :: "nat \<Rightarrow> int"
  assumes "sorted_wrt (\<lambda>a b. f a < f b \<or> f a = f b \<and> a < b) ys" "\<forall>y \<in> set ys. x < y"
  shows "sorted_wrt (\<lambda>a b. f a < f b \<or> f a = f b \<and> a < b) (insort_key f x ys)"
  using assms by (induction ys) (auto simp: set_insort_key)

lemma sort_key_lex:
  fixes f :: "nat \<Rightarrow> int"
  shows "sorted_wrt (<) xs \<Longrightarrow> sorted_wrt (\<lambda>a b. f a < f b \<or> f a = f b \<and> a < b) (sort_key f xs)"
  by (induction xs) (auto intro: insort_key_lex)

lemma topk_pick_spec:
  assumes "\<forall>i < n. \<not> f_is_nan (score i)" "\<exists>i < n. i \<notin> set chosen"
  shows "\<exists>b < n. topk_pick score n chosen = (Some b, score b) \<and> b \<notin> set chosen \<and>
    (\<forall>i < n. i \<notin> set chosen \<longrightarrow> i \<noteq> b \<longrightarrow> desc score b i)"
proof -
  define F where "F = (\<lambda>(best :: nat option, bs) i. if i \<in> set chosen then (best, bs)
    else if best = None \<or> f_lt bs (score i) then (Some i, score i) else (best, bs))"
  have "(\<forall>i < m. i \<in> set chosen) \<and> foldl F (None, f_lit 0 1) [0..<m] = (None, f_lit 0 1) \<or>
      (\<exists>b < m. foldl F (None, f_lit 0 1) [0..<m] = (Some b, score b) \<and> b \<notin> set chosen \<and>
        (\<forall>i < m. i \<notin> set chosen \<longrightarrow> i \<noteq> b \<longrightarrow> desc score b i))" if "m \<le> n" for m
    using that
  proof (induction m)
    case (Suc m)
    have nn: "\<not> f_is_nan (score m)" using assms(1) Suc.prems by simp
    from Suc have "(\<forall>i < m. i \<in> set chosen) \<and> foldl F (None, f_lit 0 1) [0..<m] = (None, f_lit 0 1) \<or>
      (\<exists>b < m. foldl F (None, f_lit 0 1) [0..<m] = (Some b, score b) \<and> b \<notin> set chosen \<and>
        (\<forall>i < m. i \<notin> set chosen \<longrightarrow> i \<noteq> b \<longrightarrow> desc score b i))" by simp
    then show ?case
    proof (elim disjE exE conjE)
      assume a: "\<forall>i < m. i \<in> set chosen" "foldl F (None, f_lit 0 1) [0..<m] = (None, f_lit 0 1)"
      then show ?thesis by (cases "m \<in> set chosen") (auto simp: F_def less_Suc_eq)
    next
      fix b assume b: "b < m" "foldl F (None, f_lit 0 1) [0..<m] = (Some b, score b)" "b \<notin> set chosen"
        "\<forall>i < m. i \<notin> set chosen \<longrightarrow> i \<noteq> b \<longrightarrow> desc score b i"
      have nb: "\<not> f_is_nan (score b)" using assms(1) Suc.prems b(1) by simp
      have step: "foldl F (None, f_lit 0 1) [0..<Suc m] =
        (if m \<in> set chosen then (Some b, score b) else if f_lt (score b) (score m) then (Some m, score m) else (Some b, score b))"
        using b(2) by (simp add: F_def)
      show ?thesis
      proof (cases "m \<notin> set chosen \<and> f_lt (score b) (score m)")
        case True
        then have "f_key (score b) < f_key (score m)" by (simp add: f_lt_def)
        then have "\<forall>i < Suc m. i \<notin> set chosen \<longrightarrow> i \<noteq> m \<longrightarrow> desc score m i" using b(4) by (metis less_Suc_eq order_less_trans)
        then show ?thesis using step True by auto
      next
        case False
        then have "m \<in> set chosen \<or> desc score b m" using nn nb b(1) by (auto simp: f_lt_def)
        then show ?thesis using step False b by (auto simp: less_Suc_eq)
      qed
    qed
  qed simp
  from this [of n] show ?thesis unfolding topk_pick_def F_def [symmetric] using assms(2) by auto
qed

lemma topk_rounds_spec:
  assumes "\<forall>i < n. \<not> f_is_nan (score i)" "sorted_wrt (desc score) S" "set S = {..<n}" "r + k \<le> length S"
  shows "topk_rounds score n k (map (\<lambda>i. (i, score i)) (take r S)) = map (\<lambda>i. (i, score i)) (take (r + k) S)"
  using assms(4)
proof (induction k arbitrary: r)
  case (Suc k)
  then have r: "r < length S" by simp
  have before: "desc score (S ! p) (S ! q)" if "p < q" "q < length S" for p q
    using sorted_wrt_nth_less [OF assms(2)] that by simp
  have notin: "S ! r \<notin> set (take r S)"
  proof
    assume "S ! r \<in> set (take r S)"
    then obtain p where "p < r" "S ! p = S ! r" by (auto simp: in_set_conv_nth)
    with before [of p r] r have "desc score (S ! r) (S ! r)" by simp
    then show False by simp
  qed
  have Sr: "S ! r < n" using assms(3) r nth_mem by blast
  obtain b where b: "b < n" "topk_pick score n (take r S) = (Some b, score b)" "b \<notin> set (take r S)"
    "\<forall>i < n. i \<notin> set (take r S) \<longrightarrow> i \<noteq> b \<longrightarrow> desc score b i"
    using topk_pick_spec [OF assms(1), of "take r S"] notin Sr by blast
  have "b = S ! r"
  proof (rule ccontr)
    assume ne: "b \<noteq> S ! r"
    then have d: "desc score b (S ! r)" using b(4) Sr notin by blast
    obtain q where q: "q < length S" "b = S ! q" using b(1) assms(3) by (metis in_set_conv_nth lessThan_iff)
    have "r \<le> q" using b(3) q by (metis in_set_conv_nth length_take min_less_iff_conj not_le nth_take)
    then have "desc score (S ! r) b" using before [of r q] q ne by (cases "q = r") auto
    with d show False by auto
  qed
  moreover have "take (Suc r) S = take r S @ [S ! r]" using r by (rule take_Suc_conv_app_nth)
  ultimately have "topk_rounds score n (Suc k) (map (\<lambda>i. (i, score i)) (take r S)) =
      topk_rounds score n k (map (\<lambda>i. (i, score i)) (take (Suc r) S))"
    using b(2) by (simp add: Let_def index_of_best_def o_def)
  then show ?case using Suc.IH [of "Suc r"] Suc.prems by simp
qed simp

text \<open>
  C28: on an int8 tensor top-k writes, for every k from 1 to 16, the first k entries of the stable sort of
  all indices by descending value, each with its value as a float, and sets the output to that many records.
\<close>

theorem top_k_is_a_stable_sort_prefix:
  assumes "valid_pair (Some t) (Some u)" "tn_dtype t = SYN_NPU_DTYPE_INT8" "k \<noteq> 0" "k \<le> 16"
    "min (unat k) (unat (tn_size t)) * 8 \<le> unat (tn_size u)"
  shows "post_top_k (Some t) (Some u) (Some k) =
    (Ok (), Some (let is = take (unat k) (sort_key (\<lambda>i. - sint (tn_bytes t ! i)) [0..<unat (tn_size t)])
       in set_records (length is) (write_front (concat (map (\<lambda>i. le32 (of_nat i) @ le32 (f_of_int (sint (tn_bytes t ! i)))) is)) u)))"
proof -
  define n score S kk where "n = unat (tn_size t)" and "score = (\<lambda>i. get_score t i None)"
    and "S = sort_key (\<lambda>i. - sint (tn_bytes t ! i)) [0..<n]" and "kk = min (unat k) n"
  have sc: "score i = f_of_int (sint (tn_bytes t ! i))" for i
    using assms(2) by (simp add: score_def get_score_def int8_at_def)
  have key: "f_key (score i) = sint (tn_bytes t ! i) * 2 ^ 149" and nn: "\<not> f_is_nan (score i)" for i
  proof -
    have "\<bar>sint (tn_bytes t ! i)\<bar> < 2 ^ 24" using sint_greater_eq [of "tn_bytes t ! i"] sint_less [of "tn_bytes t ! i"] by simp
    note d = f_of_int_key [OF this]
    show "f_key (score i) = sint (tn_bytes t ! i) * 2 ^ 149" "\<not> f_is_nan (score i)"
      using d by (simp_all add: sc f_key_def f_int_def f_is_nan_def)
  qed
  have "sorted_wrt (\<lambda>a b. - sint (tn_bytes t ! a) < - sint (tn_bytes t ! b) \<or> - sint (tn_bytes t ! a) = - sint (tn_bytes t ! b) \<and> a < b) S"
    unfolding S_def by (rule sort_key_lex) simp
  then have S: "sorted_wrt (desc score) S" by (rule sorted_wrt_mono_rel [rotated]) (auto simp: key)
  have len: "length S = n" "set S = {..<n}" by (auto simp: S_def)
  have rounds: "topk_rounds score n kk [] = map (\<lambda>i. (i, score i)) (take kk S)"
    using topk_rounds_spec [OF _ S len(2), of 0 kk] nn len(1) by (simp add: kk_def)
  have tk: "take (unat k) S = take kk S" using len(1) by (simp add: kk_def min_def)
  have k16: "unat k \<le> 16" using assms(4) by (simp add: word_le_nat_alt)
  have cnt: "element_count t = n" using assms(2) by (simp add: element_count_def n_def)
  have kd: "(if unat k < n then unat k else n mod 2 ^ 8) = kk" using k16 by (auto simp: kk_def)
  have room: "kk * 8 \<le> unat (tn_size u)" using assms(5) by (simp add: kk_def n_def)
  have "post_top_k (Some t) (Some u) (Some k) = (Ok (), Some (set_records kk
      (write_front (concat (map (\<lambda>(i, s). le32 (of_nat i) @ le32 s) (topk_rounds score n kk []))) u)))"
  proof (cases "unat k < n")
    case True
    then have "kk = unat k" by (simp add: kk_def)
    then show ?thesis using assms(1-4) k16 room True unfolding post_top_k_def Let_def TOPK_MAX_def
      by (simp add: score_dtype_def cnt score_def linorder_not_less)
  next
    case False
    then have "kk = n" by (simp add: kk_def)
    then show ?thesis using assms(1-4) k16 room False unfolding post_top_k_def Let_def TOPK_MAX_def
      by (simp add: score_dtype_def cnt score_def linorder_not_less)
  qed
  moreover have "length (take kk S) = kk" by (simp add: kk_def len(1))
  ultimately show ?thesis unfolding rounds n_def [symmetric] S_def [symmetric] Let_def tk by (simp add: o_def sc)
qed

definition demo_logits :: itensor where
  "demo_logits = \<lparr>tn_data = 0x20000000, tn_size = 4, tn_dtype = SYN_NPU_DTYPE_INT8, tn_ndim = 1, tn_shape = [4, 0, 0, 0],
     tn_lifetime = SYN_MEM_EPHEMERAL, tn_bytes = [5, 0xF0, 9, 5]\<rparr>"

theorem top_k_is_a_stable_sort_prefix_witness:
  "post_top_k (Some demo_logits) (Some demo_nms_out) (Some 2) =
     (Ok (), Some (set_records 2 (write_front (le32 2 @ le32 (f_of_int 9) @ le32 0 @ le32 (f_of_int 5)) demo_nms_out)))"
proof -
  have l: "[0..<4 :: nat] = [0, 1, 2, 3]" by (simp add: upt_rec)
  have v: "valid_pair (Some demo_logits) (Some demo_nms_out)" by (simp add: valid_pair_def demo_logits_def demo_nms_out_def)
  show ?thesis using top_k_is_a_stable_sort_prefix [OF v, of 2]
    by (simp add: demo_logits_def demo_nms_out_def l Let_def sint_uint signed_take_bit_eq_if_positive flip: numeral_2_eq_2)
qed

end
