(* ===== verification/Stage_Fit.thy ===== *)
theory Stage_Fit
  imports Preprocess Infer_Exec
begin

text \<open>
  The built-in processors in the buffers the engine gives them: \<open>builtin_stage_capacity\<close> and
  \<open>stage_cap\<close> of \<open>src/core/syn_infer.c\<close> against the output checks and the writes of
  \<open>src/preprocess/\<close> and \<open>src/postprocess/\<close>.
\<close>

section \<open>The built-in stages with their configs\<close>

datatype builtin =
    B_resize "u16 \<times> u16" | B_normalize normalize_config | B_quantize quantize_config | B_mfcc mfcc_config
  | B_softmax "dequantize_config option" | B_argmax | B_top_k u8 | B_nms nms_config | B_dequantize dequantize_config

fun builtin_stage :: "builtin \<Rightarrow> 'p pipeline_stage" where
  "builtin_stage (B_resize wh) = STAGE_PREPROCESS (Image_Resize (Some wh))"
| "builtin_stage (B_normalize _) = STAGE_PREPROCESS Image_Normalize"
| "builtin_stage (B_quantize _) = STAGE_PREPROCESS Quantize_Int8"
| "builtin_stage (B_mfcc c) = STAGE_PREPROCESS (Audio_Mfcc (Some (mf_frame_len c, mf_num_coeffs c)))"
| "builtin_stage (B_softmax _) = STAGE_POSTPROCESS Softmax"
| "builtin_stage B_argmax = STAGE_POSTPROCESS Argmax"
| "builtin_stage (B_top_k k) = STAGE_POSTPROCESS (Top_K (Some k))"
| "builtin_stage (B_nms _) = STAGE_POSTPROCESS Nms"
| "builtin_stage (B_dequantize _) = STAGE_POSTPROCESS Dequantize"

fun run_builtin :: "libm \<Rightarrow> builtin \<Rightarrow> itensor \<Rightarrow> itensor \<Rightarrow> mem_arena \<Rightarrow> (unit res \<times> itensor option) \<times> mem_arena" where
  "run_builtin L (B_resize wh) t u a = (image_resize (Some t) (Some u) (Some wh), a)"
| "run_builtin L (B_normalize c) t u a = (image_normalize (Some t) (Some u) (Some c), a)"
| "run_builtin L (B_quantize c) t u a = (quantize_int8 (Some t) (Some u) (Some c), a)"
| "run_builtin L (B_mfcc c) t u a = audio_mfcc L (Some t) (Some u) (Some c) a"
| "run_builtin L (B_softmax c) t u a = (post_softmax L (Some t) (Some u) c, a)"
| "run_builtin L B_argmax t u a = (post_argmax (Some t) (Some u), a)"
| "run_builtin L (B_top_k k) t u a = (post_top_k (Some t) (Some u) (Some k), a)"
| "run_builtin L (B_nms c) t u a = (post_nms (Some t) (Some u) (Some c), a)"
| "run_builtin L (B_dequantize c) t u a = (post_dequantize (Some t) (Some u) (Some c), a)"

text \<open>
  What the sizes need beyond the checks of the code: the output of a resize and of the stages that widen
  bytes to floats is below 4 GB, and the scratch pool has room for the working buffer of an MFCC.
\<close>

fun builtin_ready :: "builtin \<Rightarrow> itensor \<Rightarrow> mem_arena \<Rightarrow> bool" where
  "builtin_ready (B_resize (w, h)) t a \<longleftrightarrow> unat h * unat w * unat (tn_shape t ! 3) < 2 ^ 32"
| "builtin_ready (B_mfcc c) t a \<longleftrightarrow> unat (tn_size t) < 2 ^ 30 \<and> fst (syn_mem_scratch_acquire (ucast (mf_frame_len c) * 2 * 4) a) \<noteq> None"
| "builtin_ready _ t a \<longleftrightarrow> unat (tn_size t) < 2 ^ 30"

section \<open>Lengths\<close>

definition stays_in :: "itensor \<Rightarrow> unit res \<times> itensor option \<Rightarrow> bool" where
  "stays_in u r \<longleftrightarrow> fst r \<noteq> Err ENOMEM \<and> (\<exists>v. snd r = Some v \<and> length (tn_bytes v) \<le> max (length (tn_bytes u)) (unat (tn_size u)))"

lemma length_float_bytes [simp]: "length (float_bytes fs) = 4 * length fs"
  by (induction fs) (auto simp: float_bytes_def)

lemma length_write_front [simp]: "length (tn_bytes (write_front bs u)) = max (length bs) (length (tn_bytes u))"
  by (simp add: write_front_def)

lemma stays_in_same [simp]: "e \<noteq> ENOMEM \<Longrightarrow> stays_in u (Err e, Some u)"
  by (simp add: stays_in_def)

lemma length_concat_const: "(\<And>x. x \<in> set xs \<Longrightarrow> length (f x) = n) \<Longrightarrow> length (concat (map f xs)) = length xs * n"
  by (induction xs) auto

lemma length_nms_loop:
  "length kept * 24 \<le> cap \<Longrightarrow> length (nms_loop over order maxb cap is hid kept) * 24 \<le> cap"
  by (induction over order maxb cap "is" hid kept rule: nms_loop.induct) auto

lemma length_topk_rounds: "length (topk_rounds score n k acc) = k + length acc"
  by (induction k arbitrary: acc) (auto simp: Let_def split: prod.splits)

lemma length_softmax: "syn_hal_dsp_softmax_f32 L (Some xs) True n = Ok ys \<Longrightarrow> length ys = min (length xs) n"
  by (auto simp: syn_hal_dsp_softmax_f32_def Let_def split: if_splits)

lemma length_mfcc_frames:
  assumes "\<And>f cs. f \<in> set fs \<Longrightarrow> fr f = Ok cs \<Longrightarrow> length cs = n"
  shows "length (snd (mfcc_frames fr fs acc)) \<le> length acc + length fs * n"
  using assms
proof (induction fs arbitrary: acc)
  case (Cons f fs)
  show ?case
  proof (cases "fr f")
    case (Inr cs)
    then show ?thesis using Cons.IH [of "acc @ cs"] Cons.prems by fastforce
  qed simp
qed simp

lemma length_mfcc_frame: "mfcc_frame L c edges frame = Ok cs \<Longrightarrow> length cs = unat (mf_num_coeffs c)"
  by (auto simp: mfcc_frame_def Let_def split: sum.splits)

lemma mfcc_frames_err: "fst (mfcc_frames fr fs acc) = Err e \<Longrightarrow> \<exists>f \<in> set fs. fr f = Err e"
  by (induction fs arbitrary: acc) (auto split: sum.splits)

lemma mfcc_frame_err: "mfcc_frame L c edges frame = Err e \<Longrightarrow> e = EINVAL"
  by (auto simp: mfcc_frame_def Let_def syn_dsp_soft_fft_f32_def split: sum.splits if_splits)

lemma unat_up: "unat (ucast (w :: u16) :: u32) = unat w" "unat (ucast (b :: u8) :: u32) = unat b"
  using unat_lt16 [of w] unat_lt8 [of b] by (simp_all add: unsigned_ucast_eq take_bit_nat_eq_self)

lemma u32_mul_small: "unat (a :: u32) * unat b < 2 ^ 32 \<Longrightarrow> unat (a * b) = unat a * unat b"
  by (simp add: unat_word_ariths)

section \<open>One lemma per stage\<close>

lemma fit_resize:
  assumes "ucast w * ucast h * (if tn_ndim t = 4 then tn_shape t ! 3 else 1) \<le> tn_size u" "unat h * unat w * unat (tn_shape t ! 3) < 2 ^ 32"
  shows "stays_in u (image_resize (Some t) (Some u) (Some (w, h)))"
proof (cases "is_byte_image (Some t)")
  case True
  let ?ch = "tn_shape t ! 3"
  have nd: "tn_ndim t = 4" using True by (simp add: is_byte_image_def)
  let ?n = "ucast h * ucast w * ?ch :: u32"
  have hw: "unat (ucast h * ucast w :: u32) = unat h * unat w"
  proof (rule trans [OF u32_mul_small])
    have "unat h * unat w < 2 ^ 16 * 2 ^ 16" using unat_lt16 [of h] unat_lt16 [of w] by (intro mult_strict_mono) auto
    then show "unat (ucast h :: u32) * unat (ucast w :: u32) < 2 ^ 32" by (simp add: unat_up)
  qed (simp add: unat_up)
  have n: "unat ?n = unat h * unat w * unat ?ch" using u32_mul_small [of "ucast h * ucast w" ?ch] hw assms(2) by simp
  have le: "?n \<le> tn_size u" using assms(1) nd by (simp add: mult.commute [of "ucast h"])
  have "length (concat (map (\<lambda>y. concat (map (\<lambda>x. map (f y x) [0..<unat ?ch]) [0..<unat (ucast w :: u32)])) [0..<unat (ucast h :: u32)])) = unat ?n"
    for f :: "nat \<Rightarrow> nat \<Rightarrow> nat \<Rightarrow> u8"
    by (subst length_concat_const [where n = "unat w * unat ?ch"], subst length_concat_const [where n = "unat ?ch"])
       (simp_all add: n unat_up)
  then show ?thesis using leD [OF le] le
    by (auto simp: image_resize_def Let_def stays_in_def word_le_nat_alt)
qed (simp add: image_resize_def)

lemma widen:
  assumes "tn_size t * 4 \<le> tn_size u" "unat (tn_size t) < 2 ^ 30"
  shows "4 * unat (tn_size t) \<le> unat (tn_size u)"
  using assms u32_mul_small [of "tn_size t" 4] by (simp add: word_le_nat_alt)

lemma fit_normalize:
  assumes "tn_size t * 4 \<le> tn_size u" "unat (tn_size t) < 2 ^ 30"
  shows "stays_in u (image_normalize (Some t) (Some u) (Some c))"
  using assms widen [OF assms] by (auto simp: image_normalize_def Let_def stays_in_def set_floats_def)

lemma fit_quantize:
  assumes "tn_size t div 4 \<le> tn_size u" shows "stays_in u (quantize_int8 (Some t) (Some u) (Some c))"
  using assms by (auto simp: quantize_int8_def Let_def stays_in_def word_le_nat_alt leD)

lemma fit_dequantize:
  assumes "tn_size t * 4 \<le> tn_size u" "unat (tn_size t) < 2 ^ 30"
  shows "stays_in u (post_dequantize (Some t) (Some u) (Some c))"
  using assms widen [OF assms] by (auto simp: post_dequantize_def Let_def stays_in_def set_floats_def)

lemma fit_argmax:
  assumes "8 \<le> tn_size u" shows "stays_in u (post_argmax (Some t) (Some u))"
proof -
  have "8 \<le> unat (tn_size u)" using assms by (simp add: word_le_nat_alt)
  then show ?thesis using assms
    by (auto simp: post_argmax_def Let_def stays_in_def set_records_def syn_hal_dsp_argmax_def split: sum.splits if_splits)
qed

lemma fit_top_k:
  assumes "ucast k * 8 \<le> tn_size u" shows "stays_in u (post_top_k (Some t) (Some u) (Some k))"
proof -
  have "unat (ucast k * 8 :: u32) = unat k * 8" using unat_lt8 [of k] by (simp add: unat_word_ariths unat_up)
  then have u: "unat k * 8 \<le> unat (tn_size u)" using assms by (simp add: word_le_nat_alt)
  define kk where "kk = (if unat k < element_count t then unat k else element_count t mod 2 ^ 8)"
  have kk: "kk * 8 \<le> unat (tn_size u)" if "\<not> unat k > TOPK_MAX"
    using u that by (auto simp: kk_def TOPK_MAX_def)
  have "length (concat (map (\<lambda>(i, s). le32 (of_nat i) @ le32 s) rs)) = length rs * 8" for rs :: "(nat \<times> f32) list"
    by (rule length_concat_const) (auto split: prod.splits)
  then show ?thesis using kk
    by (cases "unat k < element_count t")
       (auto simp: post_top_k_def Let_def kk_def stays_in_def set_records_def length_topk_rounds)
qed

lemma fit_nms:
  "tn_size t \<le> tn_size u \<Longrightarrow> stays_in u (post_nms (Some t) (Some u) (Some c))"
proof -
  have "length (concat (map (\<lambda>i. box_bytes (box_at bs i)) ks)) = length ks * 24" for bs ks
    by (rule length_concat_const) (simp add: box_bytes_def)
  moreover have "length (nms_kept bs c n cap) * 24 \<le> cap" for bs n cap
    unfolding nms_kept_def Let_def by (rule length_nms_loop) simp
  ultimately show "stays_in u (post_nms (Some t) (Some u) (Some c))"
    by (auto simp: post_nms_def Let_def stays_in_def) (metis max.coboundedI2)
qed

lemma fit_softmax:
  assumes "(if tn_dtype t = SYN_NPU_DTYPE_FLOAT32 then tn_size t else tn_size t * 4) \<le> tn_size u" "unat (tn_size t) < 2 ^ 30"
  shows "stays_in u (post_softmax L (Some t) (Some u) c)"
proof -
  have "4 * element_count t \<le> unat (tn_size u)"
    using assms widen [of t u] by (auto simp: element_count_def word_le_nat_alt)
  moreover have "unat (of_nat (element_count t) * 4 :: u32) = 4 * element_count t"
    using assms(2) by (simp add: unat_word_ariths unat_of_nat32 element_count_def)
  ultimately show ?thesis
    by (auto simp: post_softmax_def Let_def stays_in_def set_floats_def word_less_nat_alt syn_hal_dsp_softmax_f32_def split: sum.splits)
qed

lemma fit_mfcc:
  assumes "tn_size t div 4 div ucast (mf_frame_len c) * ucast (mf_num_coeffs c) * 4 \<le> tn_size u"
    "unat (tn_size t) < 2 ^ 30" "fst (syn_mem_scratch_acquire (ucast (mf_frame_len c) * 2 * 4) a) \<noteq> None"
  shows "stays_in u (fst (audio_mfcc L (Some t) (Some u) (Some c) a))"
proof -
  define frames where "frames = tn_size t div 4 div (ucast (mf_frame_len c) :: u32)"
  show ?thesis
  proof (cases "mfcc_config_ok c \<and> tn_data t \<noteq> 0 \<and> tn_data u \<noteq> 0 \<and> tn_dtype t = SYN_NPU_DTYPE_FLOAT32 \<and> frames \<noteq> 0")
    case False
    then show ?thesis by (auto simp: audio_mfcc_def Let_def frames_def)
  next
    case True
    then have c: "8 \<le> unat (mf_frame_len c)" "unat (mf_num_coeffs c) \<le> 32"
      by (auto simp: mfcc_config_ok_def MFCC_MAX_MEL_def word_le_nat_alt)
    have f: "unat frames = unat (tn_size t) div 4 div unat (mf_frame_len c)"
      by (simp add: frames_def unat_div_distrib unat_up)
    have "unat frames \<le> unat (tn_size t) div 4 div 8" unfolding f using c(1) by (rule div_le_mono2 [rotated]) simp
    then have b: "unat frames * 32 \<le> unat (tn_size t)" by simp
    have nb: "unat frames * unat (mf_num_coeffs c) \<le> unat (tn_size t)"
      using mult_le_mono2 [OF c(2), of "unat frames"] b by linarith
    have "unat (frames * ucast (mf_num_coeffs c)) = unat frames * unat (mf_num_coeffs c)"
      using u32_mul_small [of frames "ucast (mf_num_coeffs c)"] nb assms(2) by (simp add: unat_up)
    then have n: "unat (frames * ucast (mf_num_coeffs c) * 4) = unat frames * unat (mf_num_coeffs c) * 4"
      using u32_mul_small [of "frames * ucast (mf_num_coeffs c)" 4] nb assms(2) by simp
    have le: "frames * ucast (mf_num_coeffs c) * 4 \<le> tn_size u" using assms(1) by (simp add: frames_def)
    obtain p a1 where acq: "syn_mem_scratch_acquire (ucast (mf_frame_len c) * 2 * 4) a = (Some p, a1)"
      using assms(3) by (cases "syn_mem_scratch_acquire (ucast (mf_frame_len c) * 2 * 4) a") auto
    define fr where "fr = (\<lambda>f. mfcc_frame L c (mfcc_edges L c) (\<lambda>i. get32 (tn_bytes t) (4 * (f * unat (ucast (mf_frame_len c) :: u32) + i))))"
    obtain r cs where rc: "mfcc_frames fr [0..<unat frames] [] = (r, cs)" by force
    have "length cs \<le> unat frames * unat (mf_num_coeffs c)"
      using length_mfcc_frames [of "[0..<unat frames]" fr "unat (mf_num_coeffs c)" "[]"] rc length_mfcc_frame by (simp add: fr_def)
    then have l: "4 * length cs \<le> unat (tn_size u)" using le n by (simp add: word_le_nat_alt)
    have e: "r \<noteq> Err ENOMEM"
    proof
      assume "r = Err ENOMEM"
      then obtain f where "fr f = Err ENOMEM" using mfcc_frames_err [of fr "[0..<unat frames]" "[]" ENOMEM] rc by auto
      then show False using mfcc_frame_err by (fastforce simp: fr_def)
    qed
    have "fst (audio_mfcc L (Some t) (Some u) (Some c) a) =
      (case r of Inl e \<Rightarrow> (Err e, Some (write_front (float_bytes cs) u))
       | Inr _ \<Rightarrow> (Ok (), Some ((write_front (float_bytes cs) u)\<lparr>tn_size := frames * ucast (mf_num_coeffs c) * 4,
           tn_dtype := SYN_NPU_DTYPE_FLOAT32, tn_ndim := 2, tn_shape := [frames, ucast (mf_num_coeffs c), 0, 0]\<rparr>)))"
      unfolding audio_mfcc_def prod.case option.case Let_def frames_def [symmetric] fr_def [symmetric] acq rc
      using True leD [OF le] by (cases r) simp_all
    then show ?thesis using l e by (auto simp: stays_in_def split: sum.splits)
  qed
qed

text \<open>
  C17: whatever built-in stage the engine runs on an input below 1 GB, in the buffer that it allocates for
  it the stage never reports that the buffer is too small, and never writes past its end; for a resize
  the target must be below 4 GB, and for an MFCC the scratch pool must have room for its working buffer.
\<close>

theorem builtin_stages_fit_their_buffers:
  assumes "k < length stages" "stages ! k = builtin_stage b" "tn_size u = stage_cap stages k info t" "builtin_ready b t a"
  shows "stays_in u (fst (run_builtin L b t u a))"
proof -
  have cap: "builtin_stage_capacity (stages ! k) t \<le> tn_size u"
    unfolding assms(3) by (auto simp: stage_cap_def Let_def)
  note cap = cap [unfolded assms(2)]
  show ?thesis
  proof (cases b)
    case (B_resize wh)
    then show ?thesis using cap assms(4) by (cases wh) (simp add: builtin_stage_capacity_def fit_resize)
  next
    case (B_mfcc c)
    then show ?thesis using cap assms(4) by (simp add: builtin_stage_capacity_def fit_mfcc)
  qed (use cap assms(4) in \<open>simp_all add: builtin_stage_capacity_def fit_normalize fit_quantize fit_softmax fit_argmax fit_top_k fit_nms fit_dequantize\<close>)
qed

definition demo_bytes_in :: itensor where
  "demo_bytes_in = \<lparr>tn_data = 0x20000000, tn_size = 4, tn_dtype = SYN_NPU_DTYPE_INT8, tn_ndim = 1, tn_shape = [4, 0, 0, 0],
     tn_lifetime = SYN_MEM_EPHEMERAL, tn_bytes = [5, 0xF0, 9, 5]\<rparr>"

definition demo_stages :: "nat pipeline_stage list" where
  "demo_stages = [STAGE_MODEL, STAGE_POSTPROCESS Argmax]"

definition demo_bytes_out :: "syn_model_info \<Rightarrow> itensor" where
  "demo_bytes_out info = \<lparr>tn_data = 0x20000100, tn_size = stage_cap demo_stages 1 info demo_bytes_in, tn_dtype = SYN_NPU_DTYPE_INT8,
     tn_ndim = 1, tn_shape = [8, 0, 0, 0], tn_lifetime = SYN_MEM_EPHEMERAL, tn_bytes = []\<rparr>"

theorem builtin_stages_fit_their_buffers_witness:
  "\<forall>info L a. stays_in (demo_bytes_out info) (fst (run_builtin L B_argmax demo_bytes_in (demo_bytes_out info) a))"
  by (intro allI, rule builtin_stages_fit_their_buffers [of 1 demo_stages])
     (simp_all add: demo_stages_def demo_bytes_in_def demo_bytes_out_def)

section \<open>Where the image resize goes wrong\<close>

definition image4 :: "syn_npu_dtype \<Rightarrow> u32 \<Rightarrow> u32 \<Rightarrow> u8 list \<Rightarrow> itensor" where
  "image4 dt w ch bs = \<lparr>tn_data = 0x20000000, tn_size = w * ch, tn_dtype = dt, tn_ndim = 4, tn_shape = [1, 1, w, ch],
     tn_lifetime = SYN_MEM_EPHEMERAL, tn_bytes = bs\<rparr>"

definition buf :: "u32 \<Rightarrow> itensor" where
  "buf n = \<lparr>tn_data = 0x20000100, tn_size = n, tn_dtype = SYN_NPU_DTYPE_INT8, tn_ndim = 1, tn_shape = [n, 0, 0, 0],
     tn_lifetime = SYN_MEM_EPHEMERAL, tn_bytes = []\<rparr>"

text \<open>
  An int8 image is interpolated as unsigned bytes: widening a row of the two pixels -1 and 1 to three
  pixels succeeds and puts -128 between them, far outside the range of its neighbours.
\<close>

theorem resize_of_int8_leaves_the_range:
  "\<exists>out. image_resize (Some (image4 SYN_NPU_DTYPE_INT8 2 1 [0xFF, 1])) (Some (buf 64)) (Some (3, 1)) = (Ok (), Some out) \<and>
     tn_dtype out = SYN_NPU_DTYPE_INT8 \<and> map sint (tn_bytes out) = [- 1, - 128, 1]"
proof -
  have r: "resize_ratio 2 3 = 0x3F000000" "resize_ratio 1 1 = 0" by (simp_all add: resize_ratio_def float_simps)
  have i: "f_of_int 0 = 0" "f_of_int 1 = 0x3F800000" "f_of_int 2 = 0x40000000" by (simp_all add: float_simps)
  have m: "f_mul 0 0 = 0" "f_mul 0 0x3F000000 = 0" "f_mul 0x3F800000 0x3F000000 = 0x3F000000" "f_mul 0x40000000 0x3F000000 = 0x3F800000"
    by (simp_all add: float_simps)
  have u: "f_to_u32 0 = 0" "f_to_u32 0x3F000000 = 0" "f_to_u32 0x3F800000 = 1" by (simp_all add: float_simps)
  have d: "f_sub 0 0 = 0" "f_sub 0x3F000000 0 = 0x3F000000" "f_sub 0x3F800000 0x3F800000 = 0" by (simp_all add: float_simps)
  have y: "resize_coord 1 0 0 = (0, 0, 0)" by (simp add: resize_coord_def i m u d)
  have x: "resize_coord 2 0x3F000000 0 = (0, 1, 0)" "resize_coord 2 0x3F000000 1 = (0, 1, 0x3F000000)"
    "resize_coord 2 0x3F000000 2 = (1, 1, 0)"
    by (simp_all add: resize_coord_def i m u d)
  have c: "f_of_int 255 = 0x437F0000" "f_of_int 1 = 0x3F800000" by (simp_all add: float_simps)
  have e: "f_sub 0x3F800000 0x437F0000 = 0xC37E0000" "f_sub 0x437F0000 0x437F0000 = 0" "f_sub 0x43000000 0x43000000 = 0"
    "f_mul 0 0xC37E0000 = 0x80000000" "f_mul 0x3F000000 0xC37E0000 = 0xC2FE0000"
    "f_add 0x437F0000 0x80000000 = 0x437F0000" "f_add 0x437F0000 0xC2FE0000 = 0x43000000" "f_add 0x437F0000 0 = 0x437F0000"
    "f_add 0x43000000 0 = 0x43000000" "f_add 0x3F800000 0 = 0x3F800000"
    by (simp_all add: float_simps)
  have b: "bilinear 0x437F0000 0x3F800000 0x437F0000 0x3F800000 0 0 = 0x437F0000"
    "bilinear 0x437F0000 0x3F800000 0x437F0000 0x3F800000 0x3F000000 0 = 0x43000000"
    "bilinear 0x3F800000 0x3F800000 0x3F800000 0x3F800000 0 0 = 0x3F800000"
    by (simp_all add: bilinear_def Let_def e d m)
  have h: "f_lit 1 2 = 0x3F000000" "f_add 0x437F0000 0x3F000000 = 0x437F8000" "f_add 0x43000000 0x3F000000 = 0x43008000"
    "f_add 0x3F800000 0x3F000000 = 0x3FC00000" by (simp_all add: float_simps)
  have o: "f_to_u32 0x437F8000 = 255" "f_to_u32 0x43008000 = 128" "f_to_u32 0x3FC00000 = 1"
    by (simp_all add: float_simps)
  have px: "resize_pixel [0xFF, 1] 1 2 1 0x3F000000 0 0 0 0 = 0xFF" "resize_pixel [0xFF, 1] 1 2 1 0x3F000000 0 0 1 0 = 0x80"
    "resize_pixel [0xFF, 1] 1 2 1 0x3F000000 0 0 2 0 = 1"
    by (simp_all add: resize_pixel_def x [unfolded One_nat_def] y c b h o)
  have l: "[0..<3 :: nat] = [0, 1, 2]" "[0..<1 :: nat] = [0]" by (simp_all add: upt_rec)
  show ?thesis
    by (simp add: image_resize_def image4_def buf_def is_byte_image_def no_buffer_def Let_def r l px px [unfolded One_nat_def] write_front_def
        sint_uint signed_take_bit_eq_if_positive)
qed

text \<open>
  C40: the size of a resized image is computed in 32 bits and wraps: a target of 32768 by 32768 pixels of four
  channels needs 0 bytes for the check, passes it with a buffer of 64 bytes and writes 4 GB.
\<close>

theorem resize_size_wraps:
  "\<exists>out. image_resize (Some (image4 SYN_NPU_DTYPE_UINT8 1 4 [1, 2, 3, 4])) (Some (buf 64)) (Some (32768, 32768)) = (Ok (), Some out) \<and>
     tn_size out = 0 \<and> length (tn_bytes out) = 2 ^ 32"
proof -
  have len: "length (concat (map (\<lambda>y. concat (map (\<lambda>x. map (f y x) [0..<4]) [0..<32768])) [0..<32768])) = 2 ^ 32" for f :: "nat \<Rightarrow> nat \<Rightarrow> nat \<Rightarrow> u8"
    by (subst length_concat_const [where n = "32768 * 4"], subst length_concat_const [where n = 4]) simp_all
  have c: "ucast (32768 :: u16) = (32768 :: u32)" "(32768 * 32768 * 4 :: u32) = 0" "unat (32768 :: u32) = 32768" "unat (4 :: u32) = 4" by simp_all
  have ok: "is_byte_image (Some (image4 SYN_NPU_DTYPE_UINT8 1 4 [1, 2, 3, 4]))" "\<not> no_buffer (Some (buf 64))"
    by (simp_all add: is_byte_image_def image4_def no_buffer_def buf_def)
  have sh: "tn_shape (image4 SYN_NPU_DTYPE_UINT8 1 4 [1, 2, 3, 4]) = [1, 1, 1, 4]" by (simp add: image4_def)
  define px where "px = concat (map (\<lambda>y. concat (map (\<lambda>x. map (resize_pixel (tn_bytes (image4 SYN_NPU_DTYPE_UINT8 1 4 [1, 2, 3, 4]))
      1 1 4 (resize_ratio 1 32768) (resize_ratio 1 32768) y x) [0..<4]) [0..<32768])) [0..<32768])"
  have "length px = 2 ^ 32" unfolding px_def by (rule len)
  then show ?thesis using ok
    by (simp add: image_resize_def Let_def sh c px_def [symmetric] buf_def)
qed

end
