(* ===== verification/Dma_Hal.thy ===== *)
theory Dma_Hal
  imports Syn_Prelude
begin

text \<open>
  The two backends of the DMA interface: the software one, \<open>src/hal/stub/syn_hal_dma_stub.c\<close>, whose
  transfers are items of the work queue, and the one over the eDMA engine,
  \<open>src/hal/mcxn947/syn_hal_dma_edma.c\<close>, whose calls of the vendor's driver are arguments. Memory is a
  function from addresses to bytes; the address 0 is NULL. A callback is a value of \<open>'c\<close>, and \<open>call\<close>
  gives what it does to the whole state.
\<close>

section \<open>Configurations\<close>

datatype syn_dma_periph = SYN_DMA_PERIPH_CAMERA | SYN_DMA_PERIPH_SPI | SYN_DMA_PERIPH_MEMORY

record syn_dma_config =
  dc_src_periph :: syn_dma_periph
  dc_dst_periph :: syn_dma_periph
  dc_src_addr :: nat
  dc_dst_addr :: nat
  dc_transfer_size :: nat
  dc_circular :: bool

definition zero_dma_config :: syn_dma_config where
  "zero_dma_config = \<lparr>dc_src_periph = SYN_DMA_PERIPH_CAMERA, dc_dst_periph = SYN_DMA_PERIPH_CAMERA, dc_src_addr = 0, dc_dst_addr = 0,
     dc_transfer_size = 0, dc_circular = False\<rparr>"

type_synonym memory = "nat \<Rightarrow> u8"

definition mem_copy :: "nat \<Rightarrow> nat \<Rightarrow> nat \<Rightarrow> memory \<Rightarrow> memory" where
  "mem_copy dst src len m = (\<lambda>a. if dst \<le> a \<and> a < dst + len then m (src + (a - dst)) else m a)"

definition config_args_ok :: "syn_dma_config option \<Rightarrow> bool" where
  "config_args_ok config = (case config of None \<Rightarrow> False
     | Some c \<Rightarrow> dc_src_addr c \<noteq> 0 \<and> dc_dst_addr c \<noteq> 0 \<and> dc_transfer_size c \<noteq> 0)"

section \<open>The software backend\<close>

abbreviation (input) STUB_DMA_CHANNELS :: nat where "STUB_DMA_CHANNELS \<equiv> 4"

record 'c stub_channel =
  sc_cfg :: syn_dma_config
  sc_cb :: "'c option"
  sc_work :: bool
  sc_configured :: bool
  sc_active :: bool
  sc_remaining :: nat

record 'c dma_stub =
  ds_channels :: "'c stub_channel list"
  ds_ready :: bool
  ds_mem :: memory

definition zero_channel :: "'c stub_channel" where
  "zero_channel = \<lparr>sc_cfg = zero_dma_config, sc_cb = None, sc_work = False, sc_configured = False, sc_active = False, sc_remaining = 0\<rparr>"

definition upd_channel :: "nat \<Rightarrow> ('c stub_channel \<Rightarrow> 'c stub_channel) \<Rightarrow> ('c, 'z) dma_stub_scheme \<Rightarrow> ('c, 'z) dma_stub_scheme" where
  "upd_channel i u d = d\<lparr>ds_channels := (ds_channels d)[i := u (ds_channels d ! i)]\<rparr>"

text \<open>The work item: the copy up to the callback, and the re-arming after it.\<close>

definition stub_copy :: "nat \<Rightarrow> ('c, 'z) dma_stub_scheme \<Rightarrow> ('c, 'z) dma_stub_scheme" where
  "stub_copy i d =
     (let ch = ds_channels d ! i; c = sc_cfg ch
      in upd_channel i (\<lambda>ch. ch\<lparr>sc_remaining := 0, sc_active := dc_circular c\<rparr>)
           (d\<lparr>ds_mem := mem_copy (dc_dst_addr c) (dc_src_addr c) (dc_transfer_size c) (ds_mem d)\<rparr>))"

definition stub_rearm :: "nat \<Rightarrow> ('c, 'z) dma_stub_scheme \<Rightarrow> ('c, 'z) dma_stub_scheme" where
  "stub_rearm i d =
     (if sc_active (ds_channels d ! i)
      then upd_channel i (\<lambda>ch. ch\<lparr>sc_remaining := dc_transfer_size (sc_cfg ch), sc_work := True\<rparr>) d else d)"

definition stub_transfer_work ::
  "('c \<Rightarrow> nat \<Rightarrow> int \<Rightarrow> ('c, 'z) dma_stub_scheme \<Rightarrow> ('c, 'z) dma_stub_scheme) \<Rightarrow> nat \<Rightarrow> ('c, 'z) dma_stub_scheme \<Rightarrow> ('c, 'z) dma_stub_scheme" where
  "stub_transfer_work call i d0 =
     (let d = upd_channel i (\<lambda>ch. ch\<lparr>sc_work := False\<rparr>) d0 in
      if \<not> sc_active (ds_channels d ! i) then d
      else let d1 = stub_copy i d in
        stub_rearm i (case sc_cb (ds_channels d1 ! i) of None \<Rightarrow> d1 | Some cb \<Rightarrow> call cb i 0 d1))"

definition stub_dma_init :: "('c, 'z) dma_stub_scheme \<Rightarrow> unit res \<times> ('c, 'z) dma_stub_scheme" where
  "stub_dma_init d =
     (if ds_ready d then (Err EALREADY, d)
      else (Ok (), d\<lparr>ds_channels := replicate STUB_DMA_CHANNELS zero_channel, ds_ready := True\<rparr>))"

definition stub_get_channel :: "int \<Rightarrow> ('c, 'z) dma_stub_scheme \<Rightarrow> nat option" where
  "stub_get_channel channel d =
     (if \<not> ds_ready d \<or> channel < 0 \<or> channel \<ge> int STUB_DMA_CHANNELS then None else Some (nat channel))"

definition stub_dma_configure :: "int \<Rightarrow> syn_dma_config option \<Rightarrow> ('c, 'z) dma_stub_scheme \<Rightarrow> unit res \<times> ('c, 'z) dma_stub_scheme" where
  "stub_dma_configure channel config d =
     (case stub_get_channel channel d of None \<Rightarrow> (Err EINVAL, d)
      | Some i \<Rightarrow>
          if \<not> config_args_ok config then (Err EINVAL, d)
          else if sc_active (ds_channels d ! i) then (Err EBUSY, d)
          else (Ok (), upd_channel i (\<lambda>ch. ch\<lparr>sc_cfg := the config, sc_configured := True\<rparr>) d))"

definition stub_dma_start :: "int \<Rightarrow> 'c option \<Rightarrow> ('c, 'z) dma_stub_scheme \<Rightarrow> unit res \<times> ('c, 'z) dma_stub_scheme" where
  "stub_dma_start channel callback d =
     (case stub_get_channel channel d of None \<Rightarrow> (Err EINVAL, d)
      | Some i \<Rightarrow>
          if \<not> sc_configured (ds_channels d ! i) then (Err EINVAL, d)
          else if sc_active (ds_channels d ! i) then (Err EBUSY, d)
          else (Ok (), upd_channel i (\<lambda>ch. ch\<lparr>sc_cb := callback, sc_remaining := dc_transfer_size (sc_cfg ch),
                  sc_active := True, sc_work := True\<rparr>) d))"

definition stub_dma_stop :: "int \<Rightarrow> ('c, 'z) dma_stub_scheme \<Rightarrow> unit res \<times> ('c, 'z) dma_stub_scheme" where
  "stub_dma_stop channel d =
     (case stub_get_channel channel d of None \<Rightarrow> (Err EINVAL, d)
      | Some i \<Rightarrow> (Ok (), upd_channel i (\<lambda>ch. ch\<lparr>sc_active := False\<rparr>) d))"

definition stub_dma_get_remaining :: "int \<Rightarrow> bool \<Rightarrow> ('c, 'z) dma_stub_scheme \<Rightarrow> nat res" where
  "stub_dma_get_remaining channel remaining d =
     (case stub_get_channel channel d of None \<Rightarrow> Err EINVAL
      | Some i \<Rightarrow> if \<not> remaining then Err EINVAL else Ok (sc_remaining (ds_channels d ! i)))"

section \<open>The eDMA backend\<close>

abbreviation (input) SYN_DMA_CHANNELS :: nat where "SYN_DMA_CHANNELS \<equiv> 4"
abbreviation (input) EDMA_CH_BASE :: nat where "EDMA_CH_BASE \<equiv> 8"

record 'c edma_channel =
  ec_cfg :: syn_dma_config
  ec_cb :: "'c option"
  ec_configured :: bool
  ec_active :: bool

text \<open>What the engine is told, in order.\<close>

record dma_job =
  dj_source_address :: u32
  dj_dest_address :: u32
  dj_block_size :: nat
  dj_data_size :: nat
  dj_burst_length :: nat

datatype edma_cmd =
    Edma_config nat dma_job | Edma_reload nat u32 u32 nat | Edma_clear_done nat | Edma_enable_irq nat | Edma_trigger nat | Edma_stop nat

record 'c edma =
  ed_channels :: "'c edma_channel list"
  ed_ready :: bool
  ed_cmds :: "edma_cmd list"

definition dma_addr :: "nat \<Rightarrow> u32" where
  "dma_addr p = of_nat p AND NOT (push_bit 28 1)"

definition edma_get_channel :: "int \<Rightarrow> 'c edma \<Rightarrow> nat option" where
  "edma_get_channel channel d =
     (if \<not> ed_ready d \<or> channel < 0 \<or> channel \<ge> int SYN_DMA_CHANNELS then None else Some (nat channel))"

definition upd_edma :: "nat \<Rightarrow> ('c edma_channel \<Rightarrow> 'c edma_channel) \<Rightarrow> 'c edma \<Rightarrow> 'c edma" where
  "upd_edma i u d = d\<lparr>ed_channels := (ed_channels d)[i := u (ed_channels d ! i)]\<rparr>"

definition edma_emit :: "edma_cmd list \<Rightarrow> 'c edma \<Rightarrow> 'c edma" where
  "edma_emit cs d = d\<lparr>ed_cmds := ed_cmds d @ cs\<rparr>"

definition edma_init :: "bool \<Rightarrow> 'c edma \<Rightarrow> unit res \<times> 'c edma" where
  "edma_init device_ready d =
     (if ed_ready d then (Err EALREADY, d)
      else if \<not> device_ready then (Err ENODEV, d)
      else (Ok (), d\<lparr>ed_ready := True\<rparr>))"

definition edma_configure :: "int \<Rightarrow> syn_dma_config option \<Rightarrow> 'c edma \<Rightarrow> unit res \<times> 'c edma" where
  "edma_configure channel config d =
     (case edma_get_channel channel d of None \<Rightarrow> (Err EINVAL, d)
      | Some i \<Rightarrow>
          if \<not> config_args_ok config then (Err EINVAL, d)
          else let c = the config in
            if dc_src_periph c \<noteq> SYN_DMA_PERIPH_MEMORY \<or> dc_dst_periph c \<noteq> SYN_DMA_PERIPH_MEMORY then (Err ENOTSUP, d)
            else if ec_active (ed_channels d ! i) then (Err EBUSY, d)
            else (Ok (), upd_edma i (\<lambda>ch. ch\<lparr>ec_cfg := c, ec_configured := True\<rparr>) d))"

definition edma_width :: "syn_dma_config \<Rightarrow> nat" where
  "edma_width c = (if dc_src_addr c mod 4 \<noteq> 0 \<or> dc_dst_addr c mod 4 \<noteq> 0 \<or> dc_transfer_size c mod 4 \<noteq> 0 then 1 else 4)"

definition edma_job :: "syn_dma_config \<Rightarrow> dma_job" where
  "edma_job c = \<lparr>dj_source_address = dma_addr (dc_src_addr c), dj_dest_address = dma_addr (dc_dst_addr c),
     dj_block_size = dc_transfer_size c, dj_data_size = edma_width c, dj_burst_length = dc_transfer_size c\<rparr>"

text \<open>\<open>config_ret\<close> is what the vendor's configuration call returns.\<close>

definition edma_start :: "unit res \<Rightarrow> int \<Rightarrow> 'c option \<Rightarrow> 'c edma \<Rightarrow> unit res \<times> 'c edma" where
  "edma_start config_ret channel callback d =
     (case edma_get_channel channel d of None \<Rightarrow> (Err EINVAL, d)
      | Some i \<Rightarrow>
          if \<not> ec_configured (ed_channels d ! i) then (Err EINVAL, d)
          else if ec_active (ed_channels d ! i) then (Err EBUSY, d)
          else
            let hw = EDMA_CH_BASE + i; d1 = upd_edma i (\<lambda>ch. ch\<lparr>ec_cb := callback\<rparr>) d;
                d2 = edma_emit [Edma_config hw (edma_job (ec_cfg (ed_channels d ! i)))] d1
            in (case config_ret of Inl e \<Rightarrow> (Err e, d2)
                | Inr _ \<Rightarrow> (Ok (), edma_emit [Edma_clear_done hw, Edma_enable_irq hw, Edma_trigger hw] (upd_edma i (\<lambda>ch. ch\<lparr>ec_active := True\<rparr>) d2))))"

text \<open>The completion interrupt: \<open>status < 0\<close> is a failed transfer, \<open>reload_ok\<close> the answer of a reload.\<close>

definition syn_edma_done_cb ::
  "('c \<Rightarrow> nat \<Rightarrow> int \<Rightarrow> 'c edma \<Rightarrow> 'c edma) \<Rightarrow> bool \<Rightarrow> nat \<Rightarrow> int \<Rightarrow> 'c edma \<Rightarrow> 'c edma" where
  "syn_edma_done_cb call reload_ok i status d =
     (let c = ec_cfg (ed_channels d ! i); hw = EDMA_CH_BASE + i;
          d1 = (if status < 0 \<or> \<not> dc_circular c then upd_edma i (\<lambda>ch. ch\<lparr>ec_active := False\<rparr>) d else d);
          d2 = (case ec_cb (ed_channels d1 ! i) of None \<Rightarrow> d1 | Some cb \<Rightarrow> call cb i status d1);
          ch = ed_channels d2 ! i; c2 = ec_cfg ch
      in if ec_active ch \<and> dc_circular c2 then
           let d3 = edma_emit [Edma_reload hw (dma_addr (dc_src_addr c2)) (dma_addr (dc_dst_addr c2)) (dc_transfer_size c2)] d2
           in if \<not> reload_ok then upd_edma i (\<lambda>ch. ch\<lparr>ec_active := False\<rparr>) d3
              else edma_emit [Edma_clear_done hw, Edma_trigger hw] d3
         else d2)"

definition edma_stop :: "unit res \<Rightarrow> int \<Rightarrow> 'c edma \<Rightarrow> unit res \<times> 'c edma" where
  "edma_stop stop_ret channel d =
     (case edma_get_channel channel d of None \<Rightarrow> (Err EINVAL, d)
      | Some i \<Rightarrow> (stop_ret, edma_emit [Edma_stop (EDMA_CH_BASE + i)] (upd_edma i (\<lambda>ch. ch\<lparr>ec_active := False\<rparr>) d)))"

definition edma_get_remaining :: "nat res \<Rightarrow> int \<Rightarrow> bool \<Rightarrow> 'c edma \<Rightarrow> nat res" where
  "edma_get_remaining status channel remaining d =
     (case edma_get_channel channel d of None \<Rightarrow> Err EINVAL
      | Some i \<Rightarrow> if \<not> remaining then Err EINVAL else status)"

end
