(* ===== verification/Ingest.thy ===== *)
theory Ingest
  imports Dma_Hal
begin

text \<open>
  The double-buffered frame pump \<open>src/core/syn_ingest.c\<close> over the software DMA backend. The state of the
  pump extends that of the backend; \<open>ig_log\<close> is a ghost: what the consumer found in its buffer at the
  start and at the end of each call. What the system does while the consumer runs and while the pump
  waits is given per transfer.
\<close>

section \<open>State and operations\<close>

record ingest = "unit dma_stub" +
  ig_dma_done :: bool
  ig_dma_status :: int
  ig_frames :: u32
  ig_dma_errors :: u32
  ig_elapsed_us :: u32
  ig_log :: "(u32 \<times> u8 list \<times> u8 list) list"

record syn_ingest_config =
  gc_src :: nat
  gc_buf0 :: nat
  gc_buf1 :: nat
  gc_frame_size :: nat
  gc_dma_channel :: int
  gc_fill :: "(u32 \<Rightarrow> u8 list) option"
  gc_process :: bool

definition gc_buf :: "syn_ingest_config \<Rightarrow> u32 \<Rightarrow> nat" where
  "gc_buf cfg seq = (if seq AND 1 = 0 then gc_buf0 cfg else gc_buf1 cfg)"

definition mem_write :: "nat \<Rightarrow> u8 list \<Rightarrow> memory \<Rightarrow> memory" where
  "mem_write p bytes m = (\<lambda>a. if p \<le> a \<and> a < p + length bytes then bytes ! (a - p) else m a)"

definition mem_read :: "nat \<Rightarrow> nat \<Rightarrow> memory \<Rightarrow> u8 list" where
  "mem_read p len m = map m [p..<p + len]"

definition dma_cb :: "unit \<Rightarrow> nat \<Rightarrow> int \<Rightarrow> ingest \<Rightarrow> ingest" where
  "dma_cb cb channel status s = s\<lparr>ig_dma_status := status, ig_dma_done := True\<rparr>"

definition ingest_dma_config :: "syn_ingest_config \<Rightarrow> nat \<Rightarrow> syn_dma_config" where
  "ingest_dma_config cfg dst = \<lparr>dc_src_periph = SYN_DMA_PERIPH_MEMORY, dc_dst_periph = SYN_DMA_PERIPH_MEMORY,
     dc_src_addr = gc_src cfg, dc_dst_addr = dst, dc_transfer_size = gc_frame_size cfg, dc_circular = False\<rparr>"

definition kick_transfer :: "syn_ingest_config \<Rightarrow> u32 \<Rightarrow> nat \<Rightarrow> ingest \<Rightarrow> unit res \<times> ingest" where
  "kick_transfer cfg seq dst s =
     (let s1 = s\<lparr>ig_dma_done := False\<rparr>;
          s2 = (case gc_fill cfg of None \<Rightarrow> s1
                | Some fill \<Rightarrow> s1\<lparr>ds_mem := mem_write (gc_src cfg) (take (gc_frame_size cfg) (fill seq)) (ds_mem s1)\<rparr>);
          (ret, s3) = stub_dma_configure (gc_dma_channel cfg) (Some (ingest_dma_config cfg dst)) s2
      in if is_ok ret then stub_dma_start (gc_dma_channel cfg) (Some ()) s3 else (ret, s3))"

text \<open>A failed transfer gives its negative status, which the pump only compares with 0.\<close>

definition wait_transfer :: "(ingest \<Rightarrow> ingest) \<Rightarrow> ingest \<Rightarrow> unit res \<times> ingest" where
  "wait_transfer meanwhile s =
     (let s1 = meanwhile s in
      if \<not> ig_dma_done s1 then (Err ETIMEDOUT, s1)
      else
        let s2 = s1\<lparr>ig_dma_done := False\<rparr>
        in (if ig_dma_status s2 < 0 then Err EIO else Ok (), s2))"

definition count_error :: "ingest \<Rightarrow> ingest" where
  "count_error s = s\<lparr>ig_dma_errors := ig_dma_errors s + 1\<rparr>"

definition process_frame :: "syn_ingest_config \<Rightarrow> (ingest \<Rightarrow> ingest) \<Rightarrow> u32 \<Rightarrow> ingest \<Rightarrow> ingest" where
  "process_frame cfg during seq s =
     (let before = mem_read (gc_buf cfg seq) (gc_frame_size cfg) (ds_mem s); s1 = during s
      in s1\<lparr>ig_log := ig_log s1 @ [(seq, before, mem_read (gc_buf cfg seq) (gc_frame_size cfg) (ds_mem s1))],
            ig_frames := ig_frames s1 + 1\<rparr>)"

text \<open>The loop; the first number counts the frames that are left.\<close>

fun ingest_loop ::
  "syn_ingest_config \<Rightarrow> (u32 \<Rightarrow> ingest \<Rightarrow> ingest) \<Rightarrow> (u32 \<Rightarrow> ingest \<Rightarrow> ingest) \<Rightarrow> u32 \<Rightarrow> nat \<Rightarrow> u32 \<Rightarrow> ingest \<Rightarrow> unit res \<times> ingest" where
  "ingest_loop cfg early late frames 0 seq s = (Ok (), s)"
| "ingest_loop cfg early late frames (Suc k) seq s =
     (let more = seq + 1 < frames;
          (ret, s1) = (if more then kick_transfer cfg (seq + 1) (gc_buf cfg (seq + 1)) s else (Ok (), s))
      in if \<not> is_ok ret then (Err EIO, count_error s1)
         else
           let s2 = process_frame cfg (if more then early (seq + 1) else id) seq s1;
               (ret2, s3) = (if more then wait_transfer (late (seq + 1)) s2 else (Ok (), s2))
           in if \<not> is_ok ret2 then (Err EIO, count_error s3)
              else ingest_loop cfg early late frames k (seq + 1) s3)"

definition syn_ingest_run ::
  "(u32 \<Rightarrow> ingest \<Rightarrow> ingest) \<Rightarrow> (u32 \<Rightarrow> ingest \<Rightarrow> ingest) \<Rightarrow> u32 \<Rightarrow> syn_ingest_config option \<Rightarrow> u32 \<Rightarrow> ingest \<Rightarrow> unit res \<times> ingest" where
  "syn_ingest_run early late elapsed config frames s =
     (case config of None \<Rightarrow> (Err EINVAL, s)
      | Some cfg \<Rightarrow>
          if gc_src cfg = 0 \<or> gc_buf0 cfg = 0 \<or> gc_buf1 cfg = 0 \<or> gc_frame_size cfg = 0 \<or> \<not> gc_process cfg \<or> frames = 0 then (Err EINVAL, s)
          else
            let s0 = s\<lparr>ig_frames := 0, ig_dma_errors := 0, ig_elapsed_us := 0, ig_dma_done := False\<rparr>;
                (ret, s1) = kick_transfer cfg 0 (gc_buf0 cfg) s0;
                (ret1, s2) = (if is_ok ret then wait_transfer (late 0) (early 0 s1) else (ret, s1))
            in if \<not> is_ok ret1 then (Err EIO, count_error s2)
               else (case ingest_loop cfg early late frames (unat frames) 0 s2 of
                       (Inl e, s3) \<Rightarrow> (Err e, s3)
                     | (Inr _, s3) \<Rightarrow> (Ok (), s3\<lparr>ig_elapsed_us := elapsed\<rparr>)))"

definition syn_ingest_last_stats :: "ingest \<Rightarrow> u32 \<times> u32 \<times> u32" where
  "syn_ingest_last_stats s = (ig_frames s, ig_dma_errors s, ig_elapsed_us s)"

section \<open>One transfer\<close>

text \<open>The item of the work queue that makes a transfer runs while the consumer runs, in the wait, or too late.\<close>

datatype moment = Overlapped | In_wait | Too_late

definition run_work :: "nat \<Rightarrow> ingest \<Rightarrow> ingest" where
  "run_work i s = (if sc_work (ds_channels s ! i) then stub_transfer_work dma_cb i s else s)"

definition at_early :: "(u32 \<Rightarrow> moment) \<Rightarrow> nat \<Rightarrow> u32 \<Rightarrow> ingest \<Rightarrow> ingest" where
  "at_early mo i seq = (if mo seq = Overlapped then run_work i else id)"

definition at_late :: "(u32 \<Rightarrow> moment) \<Rightarrow> nat \<Rightarrow> u32 \<Rightarrow> ingest \<Rightarrow> ingest" where
  "at_late mo i seq = (if mo seq = In_wait then run_work i else id)"

definition channel_idle :: "nat \<Rightarrow> ingest \<Rightarrow> bool" where
  "channel_idle i s \<longleftrightarrow> ds_ready s \<and> length (ds_channels s) = STUB_DMA_CHANNELS \<and> \<not> sc_active (ds_channels s ! i) \<and> \<not> sc_work (ds_channels s ! i)"

definition channel_busy :: "syn_ingest_config \<Rightarrow> nat \<Rightarrow> nat \<Rightarrow> ingest \<Rightarrow> bool" where
  "channel_busy cfg i dst s \<longleftrightarrow> ds_ready s \<and> length (ds_channels s) = STUB_DMA_CHANNELS \<and> sc_active (ds_channels s ! i) \<and>
     sc_work (ds_channels s ! i) \<and> sc_cfg (ds_channels s ! i) = ingest_dma_config cfg dst \<and> sc_cb (ds_channels s ! i) = Some ()"

definition filled :: "syn_ingest_config \<Rightarrow> u32 \<Rightarrow> memory \<Rightarrow> memory" where
  "filled cfg seq m = (case gc_fill cfg of None \<Rightarrow> m | Some fill \<Rightarrow> mem_write (gc_src cfg) (take (gc_frame_size cfg) (fill seq)) m)"

lemma kick_ok:
  assumes "channel_idle i s" "gc_dma_channel cfg = int i" "i < 4" "gc_src cfg \<noteq> 0" "dst \<noteq> 0" "gc_frame_size cfg \<noteq> 0"
  shows "\<exists>s'. kick_transfer cfg seq dst s = (Ok (), s') \<and> channel_busy cfg i dst s' \<and> ds_mem s' = filled cfg seq (ds_mem s) \<and>
    \<not> ig_dma_done s' \<and> ig_log s' = ig_log s \<and> ig_frames s' = ig_frames s \<and> ig_dma_errors s' = ig_dma_errors s"
  using assms
  by (auto simp: kick_transfer_def stub_dma_configure_def stub_dma_start_def stub_get_channel_def config_args_ok_def
      channel_idle_def channel_busy_def ingest_dma_config_def upd_channel_def filled_def split: option.splits)

lemma run_work_ok:
  assumes "channel_busy cfg i dst s" "i < 4"
  defines "s' \<equiv> run_work i s"
  shows "channel_idle i s'" "ds_mem s' = mem_copy dst (gc_src cfg) (gc_frame_size cfg) (ds_mem s)" "ig_dma_done s'" "ig_dma_status s' = 0"
    "ig_log s' = ig_log s" "ig_frames s' = ig_frames s" "ig_dma_errors s' = ig_dma_errors s"
  using assms(1,2)
  by (simp_all add: s'_def run_work_def channel_busy_def channel_idle_def stub_transfer_work_def stub_copy_def stub_rearm_def
      upd_channel_def dma_cb_def ingest_dma_config_def Let_def)

section \<open>Memory\<close>

definition apart :: "nat \<Rightarrow> nat \<Rightarrow> nat \<Rightarrow> bool" where
  "apart p q n \<longleftrightarrow> p + n \<le> q \<or> q + n \<le> p"

lemma read_copy: "mem_read p n (mem_copy p q n m) = mem_read q n m"
proof (rule nth_equalityI)
  fix k assume "k < length (mem_read p n (mem_copy p q n m))"
  then show "mem_read p n (mem_copy p q n m) ! k = mem_read q n m ! k" by (simp add: mem_read_def mem_copy_def)
qed (simp add: mem_read_def)

lemma read_copy_apart: "apart p r n \<Longrightarrow> mem_read r n (mem_copy p q n m) = mem_read r n m"
  by (auto simp: mem_read_def mem_copy_def apart_def)

lemma length_mem_read [simp]: "length (mem_read p n m) = n"
  by (simp add: mem_read_def)

lemma read_write: "length bs \<le> n \<Longrightarrow> mem_read p n (mem_write p bs m) = bs @ drop (length bs) (mem_read p n m)"
  by (auto intro!: nth_equalityI simp: mem_read_def mem_write_def nth_append)

lemma read_write_apart: "apart p r n \<Longrightarrow> length bs \<le> n \<Longrightarrow> mem_read r n (mem_write p bs m) = mem_read r n m"
  by (auto simp: mem_read_def mem_write_def apart_def)

text \<open>The three buffers are apart, and every fill writes the same part of the source.\<close>

definition layout_ok :: "syn_ingest_config \<Rightarrow> bool" where
  "layout_ok cfg \<longleftrightarrow> (let n = gc_frame_size cfg in
     apart (gc_src cfg) (gc_buf0 cfg) n \<and> apart (gc_src cfg) (gc_buf1 cfg) n \<and> apart (gc_buf0 cfg) (gc_buf1 cfg) n) \<and>
     (\<forall>fill. gc_fill cfg = Some fill \<longrightarrow> (\<forall>seq q. length (fill seq) = length (fill q)))"

text \<open>Frame \<open>seq\<close>: what its fill writes, over the content \<open>m\<close> of the source.\<close>

definition frame_of :: "syn_ingest_config \<Rightarrow> memory \<Rightarrow> u32 \<Rightarrow> u8 list" where
  "frame_of cfg m seq = (let n = gc_frame_size cfg; body = mem_read (gc_src cfg) n m in
     case gc_fill cfg of None \<Rightarrow> body | Some fill \<Rightarrow> take n (fill seq) @ drop (length (fill seq)) body)"

definition source_ok :: "syn_ingest_config \<Rightarrow> memory \<Rightarrow> memory \<Rightarrow> bool" where
  "source_ok cfg m0 m \<longleftrightarrow> frame_of cfg m = frame_of cfg m0"

lemma frame_of_cong: "mem_read (gc_src cfg) (gc_frame_size cfg) m = mem_read (gc_src cfg) (gc_frame_size cfg) m' \<Longrightarrow> frame_of cfg m = frame_of cfg m'"
  by (simp add: frame_of_def fun_eq_iff)

lemma apart_sym: "apart p q n = apart q p n"
  by (auto simp: apart_def)

lemma gc_buf_apart: "layout_ok cfg \<Longrightarrow> apart (gc_src cfg) (gc_buf cfg seq) (gc_frame_size cfg)"
  by (simp add: layout_ok_def gc_buf_def Let_def)

lemma parity_next: "((w :: u32) + 1) AND 1 = 0 \<longleftrightarrow> w AND 1 \<noteq> 0"
  by (simp add: and_one_eq mod_2_eq_odd)

lemma next_buf_apart: "layout_ok cfg \<Longrightarrow> apart (gc_buf cfg (seq + 1)) (gc_buf cfg seq) (gc_frame_size cfg)"
  by (simp add: layout_ok_def gc_buf_def Let_def parity_next apart_sym)

lemma read_filled: "mem_read (gc_src cfg) (gc_frame_size cfg) (filled cfg seq m) = frame_of cfg m seq"
  by (auto simp: filled_def frame_of_def Let_def read_write min_def split: option.splits)

lemma frame_of_filled:
  assumes "layout_ok cfg"
  shows "frame_of cfg (filled cfg seq m) = frame_of cfg m"
proof
  fix q
  show "frame_of cfg (filled cfg seq m) q = frame_of cfg m q"
  proof (cases "gc_fill cfg")
    case (Some fill)
    then have "length (fill q) = length (fill seq)" using assms unfolding layout_ok_def by blast
    then show ?thesis using Some by (simp add: frame_of_def [of cfg "filled cfg seq m"] read_filled) (simp add: frame_of_def Let_def min_def)
  qed (simp add: filled_def)
qed

lemma filled_frame:
  assumes "layout_ok cfg" "source_ok cfg m0 m"
  shows "mem_read (gc_src cfg) (gc_frame_size cfg) (filled cfg seq m) = frame_of cfg m0 seq"
    "source_ok cfg m0 (filled cfg seq m)"
    "apart (gc_src cfg) r (gc_frame_size cfg) \<Longrightarrow> mem_read r (gc_frame_size cfg) (filled cfg seq m) = mem_read r (gc_frame_size cfg) m"
  using assms read_filled [of cfg seq m] frame_of_filled [OF assms(1), of seq m]
  by (simp_all add: source_ok_def) (simp add: filled_def read_write_apart split: option.splits)

text \<open>A transfer that is done has put its frame in its buffer, and left the other buffer and the source alone.\<close>

lemma transfer_memory:
  fixes seq :: u32
  assumes "layout_ok cfg" "source_ok cfg m0 m"
  defines "m' \<equiv> mem_copy (gc_buf cfg seq) (gc_src cfg) (gc_frame_size cfg) (filled cfg seq m)"
  shows "mem_read (gc_buf cfg seq) (gc_frame_size cfg) m' = frame_of cfg m0 seq" "source_ok cfg m0 m'"
    "apart (gc_buf cfg seq) r (gc_frame_size cfg) \<Longrightarrow> apart (gc_src cfg) r (gc_frame_size cfg) \<Longrightarrow>
       mem_read r (gc_frame_size cfg) m' = mem_read r (gc_frame_size cfg) m"
proof -
  note f = filled_frame [OF assms(1,2), where seq = seq] and g = gc_buf_apart [OF assms(1), of seq, unfolded apart_sym [of "gc_src cfg"]]
  show "mem_read (gc_buf cfg seq) (gc_frame_size cfg) m' = frame_of cfg m0 seq" using f(1) by (simp add: m'_def read_copy)
  have "mem_read (gc_src cfg) (gc_frame_size cfg) m' = mem_read (gc_src cfg) (gc_frame_size cfg) (filled cfg seq m)"
    using g by (simp add: m'_def read_copy_apart)
  then show "source_ok cfg m0 m'" using f(2) frame_of_cong by (metis source_ok_def)
  show "apart (gc_buf cfg seq) r (gc_frame_size cfg) \<Longrightarrow> apart (gc_src cfg) r (gc_frame_size cfg) \<Longrightarrow>
      mem_read r (gc_frame_size cfg) m' = mem_read r (gc_frame_size cfg) m"
    using f(3) by (simp add: m'_def read_copy_apart)
qed

section \<open>The pump\<close>

lemma kick_and_wait:
  assumes "channel_idle i s" "gc_dma_channel cfg = int i" "i < 4" "gc_src cfg \<noteq> 0" "gc_buf cfg seq \<noteq> 0" "gc_frame_size cfg \<noteq> 0"
    "layout_ok cfg" "source_ok cfg m0 (ds_mem s)"
  shows "\<exists>s1. kick_transfer cfg seq (gc_buf cfg seq) s = (Ok (), s1) \<and> channel_busy cfg i (gc_buf cfg seq) s1 \<and>
    ds_mem s1 = filled cfg seq (ds_mem s) \<and> ig_log s1 = ig_log s \<and> ig_frames s1 = ig_frames s \<and> ig_dma_errors s1 = ig_dma_errors s \<and> \<not> ig_dma_done s1"
  using kick_ok [OF assms(1-6), of seq] by blast

text \<open>The consumer between the start of the next transfer and its end.\<close>

lemma process_overlapped:
  fixes seq :: u32 and mo :: "u32 \<Rightarrow> moment"
  assumes "channel_busy cfg i (gc_buf cfg (seq + 1)) s1" "i < 4" "layout_ok cfg" "source_ok cfg m0 m" "ds_mem s1 = filled cfg (seq + 1) m"
    "mem_read (gc_buf cfg seq) (gc_frame_size cfg) m = frame_of cfg m0 seq" "\<not> ig_dma_done s1"
  defines "s2 \<equiv> process_frame cfg (at_early mo i (seq + 1)) seq s1"
  defines "w \<equiv> wait_transfer (at_late mo i (seq + 1)) s2"
  shows "ig_log s2 = ig_log s1 @ [(seq, frame_of cfg m0 seq, frame_of cfg m0 seq)] \<and> ig_frames s2 = ig_frames s1 + 1 \<and>
    ig_dma_errors s2 = ig_dma_errors s1 \<and> ig_log (snd w) = ig_log s2 \<and> ig_frames (snd w) = ig_frames s2 \<and> ig_dma_errors (snd w) = ig_dma_errors s2 \<and>
    (if mo (seq + 1) = Too_late then fst w = Err ETIMEDOUT \<and> channel_busy cfg i (gc_buf cfg (seq + 1)) (snd w)
     else fst w = Ok () \<and> channel_idle i (snd w) \<and> source_ok cfg m0 (ds_mem (snd w)) \<and>
       mem_read (gc_buf cfg (seq + 1)) (gc_frame_size cfg) (ds_mem (snd w)) = frame_of cfg m0 (seq + 1))"
proof -
  let ?m' = "mem_copy (gc_buf cfg (seq + 1)) (gc_src cfg) (gc_frame_size cfg) (ds_mem s1)"
  note T = transfer_memory [OF assms(3,4), of "seq + 1", folded assms(5)]
  have keep: "mem_read (gc_buf cfg seq) (gc_frame_size cfg) ?m' = frame_of cfg m0 seq"
    using T(3) [OF next_buf_apart [OF assms(3)] gc_buf_apart [OF assms(3)]] assms(6) by simp
  have now: "mem_read (gc_buf cfg seq) (gc_frame_size cfg) (ds_mem s1) = frame_of cfg m0 seq"
    using filled_frame(3) [OF assms(3,4) gc_buf_apart [OF assms(3)]] assms(5,6) by simp
  note R = run_work_ok [OF assms(1,2)]
  show ?thesis
  proof (cases "mo (seq + 1)")
    case Overlapped
    then show ?thesis using R T(1,2) keep now
      by (simp add: s2_def w_def at_early_def at_late_def process_frame_def wait_transfer_def Let_def channel_idle_def)
  next
    case In_wait
    have b2: "channel_busy cfg i (gc_buf cfg (seq + 1)) s2" and m2: "ds_mem s2 = ds_mem s1"
      using In_wait assms(1) by (simp_all add: s2_def at_early_def process_frame_def channel_busy_def Let_def)
    note R2 = run_work_ok [OF b2 assms(2)]
    show ?thesis using In_wait R2 m2 T(1,2) now
      by (simp add: w_def at_late_def wait_transfer_def Let_def channel_idle_def)
         (simp add: s2_def at_early_def process_frame_def Let_def)
  next
    case Too_late
    then show ?thesis using assms(1,7) now
      by (simp add: s2_def w_def at_early_def at_late_def process_frame_def wait_transfer_def Let_def channel_busy_def)
  qed
qed

text \<open>The frames before the first transfer that is too late.\<close>

definition reached :: "(u32 \<Rightarrow> moment) \<Rightarrow> nat \<Rightarrow> nat \<Rightarrow> nat" where
  "reached mo j frames = j + length (takeWhile (\<lambda>m. mo (of_nat m) \<noteq> Too_late) [j..<frames])"

lemma reached_step: "j < frames \<Longrightarrow> reached mo j frames = (if mo (of_nat j) = Too_late then j else reached mo (Suc j) frames)"
  by (simp add: reached_def upt_conv_Cons)

lemma reached_end: "reached mo frames frames = frames"
  by (simp add: reached_def)

lemma reached_ge: "j \<le> reached mo j frames"
  by (simp add: reached_def)

definition log_entry :: "syn_ingest_config \<Rightarrow> memory \<Rightarrow> nat \<Rightarrow> u32 \<times> u8 list \<times> u8 list" where
  "log_entry cfg m0 j = (of_nat j, frame_of cfg m0 (of_nat j), frame_of cfg m0 (of_nat j))"

definition pump_args :: "nat \<Rightarrow> syn_ingest_config \<Rightarrow> bool" where
  "pump_args i cfg \<longleftrightarrow> gc_dma_channel cfg = int i \<and> i < 4 \<and> gc_src cfg \<noteq> 0 \<and> gc_buf0 cfg \<noteq> 0 \<and> gc_buf1 cfg \<noteq> 0 \<and>
     gc_frame_size cfg \<noteq> 0 \<and> gc_process cfg \<and> layout_ok cfg"

lemma gc_buf_nonzero: "pump_args i cfg \<Longrightarrow> gc_buf cfg seq \<noteq> 0"
  by (simp add: pump_args_def gc_buf_def)

lemma next_lt: "j < unat (frames :: u32) \<Longrightarrow> (of_nat j + 1 < frames) = (Suc j < unat frames)"
  using unat_lt32 [of frames] by (simp add: word_less_nat_alt unat_add32 unat_of_nat32)

lemma ingest_loop_ok:
  fixes mo :: "u32 \<Rightarrow> moment"
  assumes "pump_args i cfg" "j < unat frames" "k = unat frames - j" "channel_idle i s" "source_ok cfg m0 (ds_mem s)"
    "mem_read (gc_buf cfg (of_nat j)) (gc_frame_size cfg) (ds_mem s) = frame_of cfg m0 (of_nat j)"
  defines "e \<equiv> reached mo (Suc j) (unat frames)"
  shows "\<exists>s'. ingest_loop cfg (at_early mo i) (at_late mo i) frames k (of_nat j) s = (if e = unat frames then Ok () else Err EIO, s') \<and>
    ig_log s' = ig_log s @ map (log_entry cfg m0) [j..<e] \<and> ig_frames s' = ig_frames s + of_nat (e - j) \<and>
    ig_dma_errors s' = ig_dma_errors s + (if e = unat frames then 0 else 1) \<and>
    (e \<noteq> unat frames \<longrightarrow> channel_busy cfg i (gc_buf cfg (of_nat e)) s')"
  using assms(2-6) unfolding e_def
proof (induction k arbitrary: j s)
  case 0
  then show ?case by simp
next
  case (Suc k)
  let ?q = "of_nat j :: u32" and ?F = "unat frames"
  have P: "gc_dma_channel cfg = int i" "i < 4" "gc_src cfg \<noteq> 0" "gc_frame_size cfg \<noteq> 0" "layout_ok cfg"
    using assms(1) by (simp_all add: pump_args_def)
  show ?case
  proof (cases "Suc j < ?F")
    case False
    then have j: "Suc j = ?F" "k = 0" using Suc.prems(1,2) by simp_all
    have "\<not> (?q + 1 < frames)" using next_lt [OF Suc.prems(1)] False by simp
    then have run: "ingest_loop cfg (at_early mo i) (at_late mo i) frames (Suc k) ?q s = (Ok (), process_frame cfg id ?q s)"
      by (simp add: j(2))
    have l: "ig_log (process_frame cfg id ?q s) = ig_log s @ [log_entry cfg m0 j]" "ig_frames (process_frame cfg id ?q s) = ig_frames s + 1"
      "ig_dma_errors (process_frame cfg id ?q s) = ig_dma_errors s"
      using Suc.prems(5) by (simp_all add: process_frame_def Let_def log_entry_def)
    have e: "reached mo (Suc j) ?F = ?F" "[j..<?F] = [j]" "?F - j = 1" using reached_end [of mo ?F] j(1) [symmetric] by simp_all
    show ?thesis unfolding run e by (simp add: l)
  next
    case True
    have more: "?q + 1 < frames" using next_lt [OF Suc.prems(1)] True by simp
    have q1: "?q + 1 = of_nat (Suc j)" by simp
    obtain s1 where k1: "kick_transfer cfg (?q + 1) (gc_buf cfg (?q + 1)) s = (Ok (), s1)" "channel_busy cfg i (gc_buf cfg (?q + 1)) s1"
      "ds_mem s1 = filled cfg (?q + 1) (ds_mem s)" "ig_log s1 = ig_log s" "ig_frames s1 = ig_frames s" "ig_dma_errors s1 = ig_dma_errors s" "\<not> ig_dma_done s1"
      using kick_and_wait [OF Suc.prems(3) P(1-3) gc_buf_nonzero [OF assms(1)] P(4,5) Suc.prems(4)] by blast
    define s2 where "s2 = process_frame cfg (at_early mo i (?q + 1)) ?q s1"
    obtain r3 s3 where w: "wait_transfer (at_late mo i (?q + 1)) s2 = (r3, s3)" by fastforce
    note O = process_overlapped [OF k1(2) P(2,5) Suc.prems(4) k1(3) Suc.prems(5) k1(7), of mo, folded s2_def, unfolded w fst_conv snd_conv]
    have step: "ingest_loop cfg (at_early mo i) (at_late mo i) frames (Suc k) ?q s =
        (if \<not> is_ok r3 then (Err EIO, count_error s3) else ingest_loop cfg (at_early mo i) (at_late mo i) frames k (?q + 1) s3)"
      using more k1(1) w by (simp add: s2_def)
    have log3: "ig_log s3 = ig_log s @ [log_entry cfg m0 j]" "ig_frames s3 = ig_frames s + 1" "ig_dma_errors s3 = ig_dma_errors s"
      using O k1(4-6) by (simp_all add: log_entry_def)
    show ?thesis
    proof (cases "mo (?q + 1) = Too_late")
      case late: True
      then have e: "reached mo (Suc j) ?F = Suc j" using reached_step [OF True, of mo] by (simp add: add.commute)
      have "channel_busy cfg i (gc_buf cfg (of_nat (Suc j))) (count_error s3)"
        using O late by (simp add: count_error_def channel_busy_def add.commute)
      moreover have "r3 = Err ETIMEDOUT" using O late by simp
      ultimately show ?thesis unfolding step e using True log3 by (simp add: count_error_def)
    next
      case ok: False
      then have e: "reached mo (Suc j) ?F = reached mo (Suc (Suc j)) ?F" using reached_step [OF True, of mo] by (simp add: add.commute)
      have "channel_idle i s3" "source_ok cfg m0 (ds_mem s3)" "mem_read (gc_buf cfg (of_nat (Suc j))) (gc_frame_size cfg) (ds_mem s3) = frame_of cfg m0 (of_nat (Suc j))"
        "r3 = Ok ()" using O ok by (simp_all add: add.commute)
      note IH = Suc.IH [of "Suc j" s3, OF True _ this(1-3)]
      have "k = ?F - Suc j" using Suc.prems(2) by simp
      from IH [OF this] obtain s' where s': "ingest_loop cfg (at_early mo i) (at_late mo i) frames k (of_nat (Suc j)) s3 =
          (if reached mo (Suc (Suc j)) ?F = ?F then Ok () else Err EIO, s')"
        "ig_log s' = ig_log s3 @ map (log_entry cfg m0) [Suc j..<reached mo (Suc (Suc j)) ?F]"
        "ig_frames s' = ig_frames s3 + of_nat (reached mo (Suc (Suc j)) ?F - Suc j)"
        "ig_dma_errors s' = ig_dma_errors s3 + (if reached mo (Suc (Suc j)) ?F = ?F then 0 else 1)"
        "reached mo (Suc (Suc j)) ?F \<noteq> ?F \<longrightarrow> channel_busy cfg i (gc_buf cfg (of_nat (reached mo (Suc (Suc j)) ?F))) s'"
        by blast
      have lt: "j < reached mo (Suc (Suc j)) ?F" using reached_ge [of "Suc (Suc j)" mo ?F] by simp
      have "reached mo (Suc (Suc j)) ?F - j = Suc (reached mo (Suc (Suc j)) ?F - Suc j)" using lt by simp
      then have c: "of_nat (reached mo (Suc (Suc j)) ?F - j) = (1 :: u32) + of_nat (reached mo (Suc (Suc j)) ?F - Suc j)"
        by (simp only: of_nat_Suc)
      define E where "E = reached mo (Suc (Suc j)) ?F"
      note S = s' [folded E_def]
      have up: "[j..<E] = j # [Suc j..<E]" using lt [folded E_def] by (simp add: upt_conv_Cons)
      show ?thesis unfolding step e E_def [symmetric]
      proof (intro exI [of _ s'] conjI)
        show "(if \<not> is_ok r3 then (Err EIO, count_error s3) else ingest_loop cfg (at_early mo i) (at_late mo i) frames k (?q + 1) s3) =
            (if E = ?F then Ok () else Err EIO, s')" using S(1) \<open>r3 = Ok ()\<close> unfolding q1 by simp
        show "ig_log s' = ig_log s @ map (log_entry cfg m0) [j..<E]" unfolding up using S(2) log3(1) by simp
        show "ig_frames s' = ig_frames s + of_nat (E - j)" unfolding c [folded E_def] using S(3) log3(2) by (simp only: add.assoc)
        show "ig_dma_errors s' = ig_dma_errors s + (if E = ?F then 0 else 1)" using S(4) log3(3) by simp
      qed (rule S(5))
    qed
  qed
qed

text \<open>The priming transfer; nothing is processed meanwhile.\<close>

lemma prime_ok:
  fixes mo :: "u32 \<Rightarrow> moment"
  assumes "channel_busy cfg i (gc_buf cfg 0) s1" "i < 4" "layout_ok cfg" "source_ok cfg m0 m" "ds_mem s1 = filled cfg 0 m" "\<not> ig_dma_done s1"
  defines "w \<equiv> wait_transfer (at_late mo i 0) (at_early mo i 0 s1)"
  shows "ig_log (snd w) = ig_log s1 \<and> ig_frames (snd w) = ig_frames s1 \<and> ig_dma_errors (snd w) = ig_dma_errors s1 \<and>
    (if mo 0 = Too_late then fst w = Err ETIMEDOUT \<and> channel_busy cfg i (gc_buf cfg 0) (snd w)
     else fst w = Ok () \<and> channel_idle i (snd w) \<and> source_ok cfg m0 (ds_mem (snd w)) \<and>
       mem_read (gc_buf cfg 0) (gc_frame_size cfg) (ds_mem (snd w)) = frame_of cfg m0 0)"
proof -
  note T = transfer_memory [OF assms(3,4), of 0, folded assms(5)]
  note R = run_work_ok [OF assms(1,2)]
  show ?thesis
    by (cases "mo 0") (use R T(1,2) assms(1,6) in \<open>simp_all add: w_def at_early_def at_late_def wait_transfer_def Let_def channel_idle_def channel_busy_def\<close>)
qed

lemma pump_run:
  fixes mo :: "u32 \<Rightarrow> moment"
  assumes "pump_args i cfg" "channel_idle i s" "frames \<noteq> 0"
  defines "e \<equiv> reached mo 0 (unat frames)"
  shows "\<exists>s'. syn_ingest_run (at_early mo i) (at_late mo i) el (Some cfg) frames s = (if e = unat frames then Ok () else Err EIO, s') \<and>
    ig_log s' = ig_log s @ map (log_entry cfg (ds_mem s)) [0..<e] \<and>
    ig_frames s' = of_nat e \<and> ig_dma_errors s' = (if e = unat frames then 0 else 1) \<and>
    (e \<noteq> unat frames \<longrightarrow> channel_busy cfg i (gc_buf cfg (of_nat e)) s') \<and>
    (e = unat frames \<longrightarrow> ig_elapsed_us s' = el)"
proof -
  let ?F = "unat frames"
  have P: "gc_dma_channel cfg = int i" "i < 4" "gc_src cfg \<noteq> 0" "gc_frame_size cfg \<noteq> 0" "layout_ok cfg" "gc_buf0 cfg \<noteq> 0" "gc_buf1 cfg \<noteq> 0" "gc_process cfg"
    using assms(1) by (simp_all add: pump_args_def)
  have F: "0 < ?F" using assms(3) by (simp add: unat_gt_0)
  define s0 where "s0 = s\<lparr>ig_frames := 0, ig_dma_errors := 0, ig_elapsed_us := 0, ig_dma_done := False\<rparr>"
  have idle: "channel_idle i s0" and src: "source_ok cfg (ds_mem s) (ds_mem s0)"
    using assms(2) by (simp_all add: s0_def channel_idle_def source_ok_def)
  have b0: "gc_buf cfg 0 = gc_buf0 cfg" by (simp add: gc_buf_def)
  obtain s1 where k: "kick_transfer cfg 0 (gc_buf cfg 0) s0 = (Ok (), s1)" "channel_busy cfg i (gc_buf cfg 0) s1" "ds_mem s1 = filled cfg 0 (ds_mem s0)"
    "ig_log s1 = ig_log s0" "ig_frames s1 = ig_frames s0" "ig_dma_errors s1 = ig_dma_errors s0" "\<not> ig_dma_done s1"
    using kick_and_wait [OF idle P(1-3) gc_buf_nonzero [OF assms(1)] P(4,5) src, of 0] by blast
  obtain r2 s2 where w: "wait_transfer (at_late mo i 0) (at_early mo i 0 s1) = (r2, s2)" by fastforce
  note O = prime_ok [OF k(2) P(2,5) src k(3) k(7), of mo, unfolded w fst_conv snd_conv]
  have run: "syn_ingest_run (at_early mo i) (at_late mo i) el (Some cfg) frames s =
      (if \<not> is_ok r2 then (Err EIO, count_error s2)
       else (case ingest_loop cfg (at_early mo i) (at_late mo i) frames ?F 0 s2 of
               (Inl e, s3) \<Rightarrow> (Err e, s3) | (Inr _, s3) \<Rightarrow> (Ok (), s3\<lparr>ig_elapsed_us := el\<rparr>)))"
    using P assms(3) k(1) w unfolding b0 s0_def by (simp add: syn_ingest_run_def)
  show ?thesis
  proof (cases "mo 0 = Too_late")
    case True
    then have e: "e = 0" using reached_step [OF F, of mo] by (simp add: e_def)
    have "r2 = Err ETIMEDOUT" "channel_busy cfg i (gc_buf cfg 0) (count_error s2)"
      using O True by (simp_all add: count_error_def channel_busy_def)
    then show ?thesis using O F k(4-6) unfolding run e by (simp add: s0_def count_error_def)
  next
    case False
    then have e: "e = reached mo (Suc 0) ?F" using reached_step [OF F, of mo] by (simp add: e_def)
    have ok: "r2 = Ok ()" "channel_idle i s2" "source_ok cfg (ds_mem s) (ds_mem s2)" "mem_read (gc_buf cfg (of_nat 0)) (gc_frame_size cfg) (ds_mem s2) = frame_of cfg (ds_mem s) (of_nat 0)"
      using O False by simp_all
    obtain s' where s': "ingest_loop cfg (at_early mo i) (at_late mo i) frames ?F (of_nat 0) s2 = (if e = ?F then Ok () else Err EIO, s')"
      "ig_log s' = ig_log s2 @ map (log_entry cfg (ds_mem s)) [0..<e]" "ig_frames s' = ig_frames s2 + of_nat (e - 0)"
      "ig_dma_errors s' = ig_dma_errors s2 + (if e = ?F then 0 else 1)" "e \<noteq> ?F \<longrightarrow> channel_busy cfg i (gc_buf cfg (of_nat e)) s'"
      using ingest_loop_ok [OF assms(1) F _ ok(2-4), where mo = mo] unfolding e [symmetric] by auto
    have base: "ig_log s2 = ig_log s" "ig_frames s2 = 0" "ig_dma_errors s2 = 0" using O k(4-6) by (simp_all add: s0_def)
    have l0: "ingest_loop cfg (at_early mo i) (at_late mo i) frames ?F 0 s2 = (if e = ?F then Ok () else Err EIO, s')" using s'(1) by simp
    show ?thesis
    proof (cases "e = ?F")
      case True
      then show ?thesis unfolding run l0 using ok(1) s'(2-5) base by simp
    next
      case False
      then show ?thesis unfolding run l0 using ok(1) s'(2-5) base by simp
    qed
  qed
qed

text \<open>
  C18: whenever each transfer completes, while the consumer works or in the wait that follows, the pump
  hands every frame over once, in order and complete, and its buffer does not change while the consumer
  works on it; at the first transfer that misses the timeout the pump stops with EIO after the frame
  before, and leaves that transfer running into its buffer.
\<close>

theorem pump_delivers_every_frame_in_order:
  fixes mo :: "u32 \<Rightarrow> moment"
  assumes "pump_args i cfg" "channel_idle i s" "frames \<noteq> 0"
  defines "e \<equiv> reached mo 0 (unat frames)"
  shows "\<exists>s'. syn_ingest_run (at_early mo i) (at_late mo i) el (Some cfg) frames s = (if e = unat frames then Ok () else Err EIO, s') \<and>
    ig_log s' = ig_log s @ map (log_entry cfg (ds_mem s)) [0..<e] \<and>
    ig_frames s' = of_nat e \<and> ig_dma_errors s' = (if e = unat frames then 0 else 1) \<and>
    (e \<noteq> unat frames \<longrightarrow> channel_busy cfg i (gc_buf cfg (of_nat e)) s')"
  using pump_run [OF assms(1-3), of mo el] unfolding e_def by blast

definition demo_pump :: syn_ingest_config where
  "demo_pump = \<lparr>gc_src = 100, gc_buf0 = 200, gc_buf1 = 300, gc_frame_size = 2, gc_dma_channel = 1,
     gc_fill = Some (\<lambda>seq. [ucast seq, 7]), gc_process = True\<rparr>"

definition demo_ingest :: ingest where
  "demo_ingest = \<lparr>ds_channels = replicate 4 zero_channel, ds_ready = True, ds_mem = (\<lambda>_. 0), ig_dma_done = False, ig_dma_status = 0,
     ig_frames = 0, ig_dma_errors = 0, ig_elapsed_us = 0, ig_log = []\<rparr>"

definition demo_moment :: "u32 \<Rightarrow> moment" where
  "demo_moment seq = (if seq = 1 then Overlapped else if seq = 3 then Too_late else In_wait)"

theorem pump_delivers_every_frame_in_order_witness:
  "\<exists>s'. syn_ingest_run (at_early demo_moment 1) (at_late demo_moment 1) 9 (Some demo_pump) 3 demo_ingest = (Ok (), s') \<and>
     ig_log s' = [(0, [0, 7], [0, 7]), (1, [1, 7], [1, 7]), (2, [2, 7], [2, 7])] \<and> ig_dma_errors s' = 0"
proof -
  have a: "pump_args 1 demo_pump" by (simp add: pump_args_def demo_pump_def layout_ok_def apart_def Let_def)
  have i: "channel_idle 1 demo_ingest" by (simp add: channel_idle_def demo_ingest_def zero_channel_def)
  have e: "reached demo_moment 0 (unat (3 :: u32)) = 3" by (simp add: reached_def upt_rec demo_moment_def)
  have l: "map (log_entry demo_pump (ds_mem demo_ingest)) [0..<3] = [(0, [0, 7], [0, 7]), (1, [1, 7], [1, 7]), (2, [2, 7], [2, 7])]"
    by (simp add: log_entry_def frame_of_def demo_pump_def upt_rec)
  show ?thesis
    using pump_delivers_every_frame_in_order [OF a i, of 3 demo_moment 9] unfolding e l
    by (auto simp: demo_ingest_def)
qed

end
