(* ===== verification/Dma_Bench.thy ===== *)
theory Dma_Bench
  imports Ingest Mem Infer
begin

text \<open>
  The command \<open>syn dma bench\<close> of \<open>src/core/syn_shell.c\<close>, where four components meet: it holds the gate of
  the inference engine, takes its three buffers from the scratch pool and the ephemeral region of the tensor
  arena, runs the frame pump over the DMA backend and checks every frame it is handed. The build is the one
  without the eDMA engine (frames of 512 bytes, no static buffers). What the rest of the system does while
  the command waits, and the measured times, are an environment record.
\<close>

section \<open>The frames\<close>

abbreviation (input) DMA_BENCH_FRAME :: nat where "DMA_BENCH_FRAME \<equiv> 512"
abbreviation (input) DMA_BENCH_STAMP :: nat where "DMA_BENCH_STAMP \<equiv> 64"
abbreviation (input) DMA_BENCH_CH :: int where "DMA_BENCH_CH \<equiv> 0"

record dma_bench_ctx =
  bc_bad_frames :: u32
  bc_checksum :: u32

definition stamp_byte :: "u32 \<Rightarrow> nat \<Rightarrow> u8" where
  "stamp_byte seq i = ucast (seq * 31 + of_nat i * 7)"

text \<open>The bytes a fill writes to the front of the source.\<close>

definition dma_bench_fill :: "nat \<Rightarrow> u32 \<Rightarrow> u8 list" where
  "dma_bench_fill sz seq = map (stamp_byte seq) [0..<min DMA_BENCH_STAMP sz]"

definition dma_bench_process :: "u8 list \<Rightarrow> u32 \<Rightarrow> dma_bench_ctx \<Rightarrow> dma_bench_ctx" where
  "dma_bench_process frame seq ctx =
     (if \<exists>i \<in> set [0..<min DMA_BENCH_STAMP (length frame)]. frame ! i \<noteq> stamp_byte seq i
      then ctx\<lparr>bc_bad_frames := bc_bad_frames ctx + 1\<rparr>
      else ctx\<lparr>bc_checksum := foldl (\<lambda>c i. c + get32 frame (4 * i)) (bc_checksum ctx) [0..<length frame div 4]\<rparr>)"

section \<open>The command\<close>

datatype bench_line =
    Bl_error errno
  | Bl_ingest_failed errno u32 u32
  | Bl_report u32 u32 u32 u32 u32 u32 "u32 option"

record 'p bench =
  bn_dma :: ingest
  bn_mem :: mem_arena
  bn_inf :: "'p infer"
  bn_out :: "bench_line list"

record 'p bench_env =
  be_tensor_sz :: u32
  be_drain :: "'p bench \<Rightarrow> 'p bench"
  be_settle :: "'p bench \<Rightarrow> 'p bench"
  be_early :: "u32 \<Rightarrow> ingest \<Rightarrow> ingest"
  be_late :: "u32 \<Rightarrow> ingest \<Rightarrow> ingest"
  be_cpu_us :: u32
  be_dma_us :: u32

definition bench_say :: "bench_line \<Rightarrow> 'p bench \<Rightarrow> 'p bench" where
  "bench_say l s = s\<lparr>bn_out := bn_out s @ [l]\<rparr>"

text \<open>\<open>syn_infer_quiesce\<close>, None when the running job never gives the semaphore, and the sleep after it.\<close>

definition bench_quiesce :: "'p bench_env \<Rightarrow> 'p bench \<Rightarrow> 'p bench option" where
  "bench_quiesce e s =
     (let (busy, i) = quiesce_enter (bn_inf s); s1 = s\<lparr>bn_inf := i\<rparr>
      in if \<not> busy then Some (be_settle e s1)
         else let s2 = be_drain e s1 in
           (case quiesce_drained (bn_inf s2) of None \<Rightarrow> None | Some i2 \<Rightarrow> Some (be_settle e (s2\<lparr>bn_inf := i2\<rparr>))))"

definition bench_release :: "'p bench \<Rightarrow> 'p bench" where
  "bench_release s = s\<lparr>bn_inf := syn_infer_release (bn_inf s)\<rparr>"

text \<open>The source and the two buffers; an error leaves what it took to the reset that follows.\<close>

definition bench_buffers :: "u32 \<Rightarrow> mem_arena \<Rightarrow> (u32 \<times> u32 \<times> u32) option \<times> mem_arena" where
  "bench_buffers tsz a =
     (case syn_mem_scratch_acquire (of_nat DMA_BENCH_FRAME) a of
        (None, a1) \<Rightarrow> (None, a1)
      | (Some src, a1) \<Rightarrow>
          let (b0, a2) = syn_mem_tensor_alloc tsz (Some [of_nat DMA_BENCH_FRAME]) 1 SYN_NPU_DTYPE_UINT8 SYN_MEM_EPHEMERAL a1;
              (b1, a3) = syn_mem_tensor_alloc tsz (Some [of_nat DMA_BENCH_FRAME]) 1 SYN_NPU_DTYPE_UINT8 SYN_MEM_EPHEMERAL a2
          in (case (b0, b1) of
                (Some (_, t0), Some (_, t1)) \<Rightarrow> (Some (src, tn_data t0, tn_data t1), a3)
              | _ \<Rightarrow> (None, syn_mem_reset_ephemeral (syn_mem_scratch_release (Some src) a3))))"

fun cpu_frames :: "nat \<Rightarrow> nat \<Rightarrow> nat \<Rightarrow> u32 \<Rightarrow> memory \<times> dma_bench_ctx \<Rightarrow> memory \<times> dma_bench_ctx" where
  "cpu_frames src dst 0 seq (m, ctx) = (m, ctx)"
| "cpu_frames src dst (Suc k) seq (m, ctx) =
     (let m1 = mem_write src (dma_bench_fill DMA_BENCH_FRAME seq) m;
          m2 = mem_copy dst src DMA_BENCH_FRAME m1
      in cpu_frames src dst k (seq + 1) (m2, dma_bench_process (mem_read dst DMA_BENCH_FRAME m2) seq ctx))"

definition bench_config :: "u32 \<Rightarrow> u32 \<Rightarrow> u32 \<Rightarrow> syn_ingest_config" where
  "bench_config src dst0 dst1 = \<lparr>gc_src = unat src, gc_buf0 = unat dst0, gc_buf1 = unat dst1, gc_frame_size = DMA_BENCH_FRAME,
     gc_dma_channel = DMA_BENCH_CH, gc_fill = Some (dma_bench_fill DMA_BENCH_FRAME), gc_process = True\<rparr>"

text \<open>The consumer over the frames that the pump handed to it.\<close>

definition bench_consume :: "(u32 \<times> u8 list \<times> u8 list) list \<Rightarrow> dma_bench_ctx \<Rightarrow> dma_bench_ctx" where
  "bench_consume log ctx = foldl (\<lambda>c (seq, frame, _). dma_bench_process frame seq c) ctx log"

definition bench_gain :: "u32 \<Rightarrow> u32 \<Rightarrow> u32 option" where
  "bench_gain cpu_us el = (if 0 < el \<and> el < cpu_us then Some ((cpu_us - el) * 100 div el) else None)"

definition bench_run :: "'p bench_env \<Rightarrow> u32 \<Rightarrow> u32 \<times> u32 \<times> u32 \<Rightarrow> 'p bench \<Rightarrow> unit res \<times> 'p bench" where
  "bench_run e frames bufs s =
     (let (src, dst0, dst1) = bufs;
          m0 = mem_write (unat src) (replicate DMA_BENCH_FRAME 0x5A) (ds_mem (bn_dma s));
          (m1, ctx) = cpu_frames (unat src) (unat dst0) (unat frames) 0 (m0, \<lparr>bc_bad_frames = 0, bc_checksum = 0\<rparr>);
          cpu_bad = bc_bad_frames ctx;
          d0 = (bn_dma s)\<lparr>ds_mem := m1\<rparr>;
          (ret, d1) = syn_ingest_run (be_early e) (be_late e) (be_dma_us e) (Some (bench_config src dst0 dst1)) frames d0;
          ctx1 = bench_consume (drop (length (ig_log d0)) (ig_log d1)) (ctx\<lparr>bc_bad_frames := 0\<rparr>);
          (n, errs, el) = syn_ingest_last_stats d1;
          s1 = s\<lparr>bn_dma := d1, bn_mem := syn_mem_reset_ephemeral (syn_mem_scratch_release (Some src) (bn_mem s))\<rparr>;
          s2 = bench_release s1
      in case ret of
           Inl er \<Rightarrow> (Err er, bench_say (Bl_ingest_failed er n errs) s2)
         | Inr _ \<Rightarrow> (Ok (), bench_say (Bl_report frames (be_cpu_us e) cpu_bad el (bc_bad_frames ctx1) errs (bench_gain (be_cpu_us e) el)) s2))"

text \<open>\<open>arg\<close> is the number \<open>strtoul\<close> gave, \<open>mode\<close> the third word. None: the command never returns.\<close>

definition cmd_dma_bench :: "'p bench_env \<Rightarrow> u32 option \<Rightarrow> string option \<Rightarrow> 'p bench \<Rightarrow> (unit res \<times> 'p bench) option" where
  "cmd_dma_bench e arg mode s =
     (let frames = (case arg of Some n \<Rightarrow> n | None \<Rightarrow> 64) in
      if frames = 0 then Some (Err EINVAL, bench_say (Bl_error EINVAL) s)
      else if mode \<noteq> None \<and> mode \<noteq> Some ''static'' \<and> mode \<noteq> Some ''arena'' then Some (Err EINVAL, bench_say (Bl_error EINVAL) s)
      else
        let (_, d) = stub_dma_init (bn_dma s); s1 = s\<lparr>bn_dma := d\<rparr>
        in if mode = Some ''static'' then Some (Err EINVAL, bench_say (Bl_error EINVAL) s1)
           else (case bench_quiesce e s1 of
                   None \<Rightarrow> None
                 | Some s2 \<Rightarrow>
                     (case bench_buffers (be_tensor_sz e) (bn_mem s2) of
                        (None, a) \<Rightarrow> Some (Err ENOMEM, bench_say (Bl_error ENOMEM) (bench_release (s2\<lparr>bn_mem := a\<rparr>)))
                      | (Some bufs, a) \<Rightarrow> Some (bench_run e frames bufs (s2\<lparr>bn_mem := a\<rparr>)))))"

section \<open>The buffers are apart\<close>

lemma bench_tensor:
  assumes "mem_inv (a, bs)" "0 < unat tsz" "unat tsz \<le> 4096"
    and "syn_mem_tensor_alloc tsz (Some [of_nat DMA_BENCH_FRAME]) 1 SYN_NPU_DTYPE_UINT8 SYN_MEM_EPHEMERAL a = (Some (b, t), a')"
  shows "\<exists>n. mem_inv (a', \<lparr>mb_pool = Pool_ephemeral, mb_addr = unat b, mb_size = n\<rparr> # bs) \<and>
    unat b \<le> unat (tn_data t) \<and> unat (tn_data t) + DMA_BENCH_FRAME = unat b + n \<and> ar_base a' = ar_base a"
proof -
  have disc: "op_disciplined tsz (Op_tensor [of_nat DMA_BENCH_FRAME] 1 SYN_NPU_DTYPE_UINT8 SYN_MEM_EPHEMERAL) a" by simp
  have wf: "arena_wf a" using assms(1) by (simp add: mem_inv_def)
  obtain sz where sz: "unat sz = round16 (unat tsz) + DMA_BENCH_FRAME" "unat sz < 2 ^ 30" "arena_alloc SYN_MEM_EPHEMERAL sz a = (Some b, a')"
    using tensor_alloc_Some [OF wf assms(2,3) disc assms(4)] by auto
  note r = arena_alloc_Some [OF wf sz(2) _ sz(3), simplified]
  have d: "unat (desc_size tsz) = round16 (unat tsz)"
    using unat_align_up [of tsz] assms(3) by (simp add: desc_size_def)
  have t: "tn_data t = b + desc_size tsz" using assms(4)
    by (auto simp: syn_mem_tensor_alloc_def Let_def split: if_splits option.splits prod.splits)
  have hi: "unat b + unat sz \<le> unat (ar_base a) + unat (ar_usable a)" "unat (ar_base a) + unat (ar_usable a) < 2 ^ 32"
    using r(2,3) wf by (simp_all add: arena_wf_def)
  then have u: "unat (tn_data t) = unat b + round16 (unat tsz)" using sz(1) d by (simp add: t unat_add32_small)
  have "mem_inv (a', \<lparr>mb_pool = Pool_ephemeral, mb_addr = unat b, mb_size = unat sz\<rparr> # bs)"
    using mem_inv_tensor [OF assms(1) sz(2) _ _ sz(3)] sz(1) by (simp add: pool_of_def)
  then show ?thesis using u sz(1) r by auto
qed

lemma bench_buffers_apart:
  assumes "mem_inv (a, bs)" "0 < unat tsz" "unat tsz \<le> 4096" "ar_base a \<noteq> 0"
    and "bench_buffers tsz a = (Some (src, dst0, dst1), a')"
  shows "apart (unat src) (unat dst0) DMA_BENCH_FRAME" "apart (unat src) (unat dst1) DMA_BENCH_FRAME"
    "apart (unat dst0) (unat dst1) DMA_BENCH_FRAME" "unat src \<noteq> 0" "unat dst0 \<noteq> 0" "unat dst1 \<noteq> 0"
proof -
  obtain a1 b0 t0 a2 b1 t1 where r: "syn_mem_scratch_acquire (of_nat DMA_BENCH_FRAME) a = (Some src, a1)"
    "syn_mem_tensor_alloc tsz (Some [of_nat DMA_BENCH_FRAME]) 1 SYN_NPU_DTYPE_UINT8 SYN_MEM_EPHEMERAL a1 = (Some (b0, t0), a2)"
    "syn_mem_tensor_alloc tsz (Some [of_nat DMA_BENCH_FRAME]) 1 SYN_NPU_DTYPE_UINT8 SYN_MEM_EPHEMERAL a2 = (Some (b1, t1), a')"
    "dst0 = tn_data t0" "dst1 = tn_data t1"
    using assms(5) by (auto simp: bench_buffers_def Let_def split: option.splits prod.splits)
  have wf: "arena_wf a" using assms(1) by (simp add: mem_inv_def)
  have i1: "mem_inv (a1, \<lparr>mb_pool = Pool_scratch, mb_addr = unat src, mb_size = DMA_BENCH_FRAME\<rparr> # bs)"
    using mem_inv_scratch [OF assms(1) _ r(1)] by simp
  have b1: "ar_base a1 = ar_base a" using scratch_acquire_Some(6) [OF wf _ r(1)] by simp
  obtain n0 where n0: "mem_inv (a2, \<lparr>mb_pool = Pool_ephemeral, mb_addr = unat b0, mb_size = n0\<rparr> #
      \<lparr>mb_pool = Pool_scratch, mb_addr = unat src, mb_size = DMA_BENCH_FRAME\<rparr> # bs)"
    "unat b0 \<le> unat dst0" "unat dst0 + DMA_BENCH_FRAME = unat b0 + n0" "ar_base a2 = ar_base a1"
    using bench_tensor [OF i1 assms(2,3) r(2)] r(4) by auto
  obtain n1 where n1: "mem_inv (a', \<lparr>mb_pool = Pool_ephemeral, mb_addr = unat b1, mb_size = n1\<rparr> #
      \<lparr>mb_pool = Pool_ephemeral, mb_addr = unat b0, mb_size = n0\<rparr> #
      \<lparr>mb_pool = Pool_scratch, mb_addr = unat src, mb_size = DMA_BENCH_FRAME\<rparr> # bs)"
    "unat b1 \<le> unat dst1" "unat dst1 + DMA_BENCH_FRAME = unat b1 + n1" "ar_base a' = ar_base a2"
    using bench_tensor [OF n0(1) assms(2,3) r(3)] r(5) by auto
  have d: "disjoint_ranges (unat b1) n1 (unat b0) n0" "disjoint_ranges (unat b1) n1 (unat src) DMA_BENCH_FRAME"
    "disjoint_ranges (unat b0) n0 (unat src) DMA_BENCH_FRAME"
    using n1(1) by (simp_all add: mem_inv_def)
  show "apart (unat src) (unat dst0) DMA_BENCH_FRAME" "apart (unat src) (unat dst1) DMA_BENCH_FRAME"
    "apart (unat dst0) (unat dst1) DMA_BENCH_FRAME"
    using d n0(2,3) n1(2,3) by (auto simp: apart_def disjoint_ranges_def)
  have "0 < unat (ar_base a')" using assms(4) b1 n0(4) n1(4) by (simp add: unat_gt_0)
  moreover have "unat (ar_base a') \<le> unat src" "unat (ar_base a') \<le> unat b0" "unat (ar_base a') \<le> unat b1"
    using n1(1) by (simp_all add: mem_inv_def block_in_def)
  ultimately show "unat src \<noteq> 0" "unat dst0 \<noteq> 0" "unat dst1 \<noteq> 0" using n0(2) n1(2) by auto
qed

section \<open>The frames the consumer accepts\<close>

definition bench_frame :: "u32 \<Rightarrow> u8 list" where
  "bench_frame seq = dma_bench_fill DMA_BENCH_FRAME seq @ replicate (DMA_BENCH_FRAME - DMA_BENCH_STAMP) 0x5A"

definition bench_body :: "nat \<Rightarrow> memory \<Rightarrow> bool" where
  "bench_body src m \<longleftrightarrow> drop DMA_BENCH_STAMP (mem_read src DMA_BENCH_FRAME m) = replicate (DMA_BENCH_FRAME - DMA_BENCH_STAMP) 0x5A"

lemma length_fill [simp]: "length (dma_bench_fill DMA_BENCH_FRAME seq) = DMA_BENCH_STAMP"
  by (simp add: dma_bench_fill_def)

text \<open>Only the stamp decides whether a frame is bad.\<close>

lemma process_bad:
  assumes "take DMA_BENCH_STAMP frame = dma_bench_fill DMA_BENCH_FRAME seq"
  shows "bc_bad_frames (dma_bench_process frame seq ctx) = bc_bad_frames ctx"
proof -
  have len: "DMA_BENCH_STAMP \<le> length frame" using arg_cong [OF assms, of length] by simp
  have "frame ! i = stamp_byte seq i" if "i < DMA_BENCH_STAMP" for i
    using arg_cong [OF assms, of "\<lambda>xs. xs ! i"] that by (simp add: dma_bench_fill_def)
  then show ?thesis using len by (auto simp: dma_bench_process_def min_def)
qed

lemma process_frame_good: "bc_bad_frames (dma_bench_process (bench_frame seq) seq ctx) = bc_bad_frames ctx"
  by (rule process_bad) (simp add: bench_frame_def)

lemma read_stamped:
  assumes "bench_body src m"
  shows "mem_read src DMA_BENCH_FRAME (mem_write src (dma_bench_fill DMA_BENCH_FRAME seq) m) = bench_frame seq"
    "bench_body src (mem_write src (dma_bench_fill DMA_BENCH_FRAME seq) m)"
  using assms by (simp_all add: read_write bench_body_def bench_frame_def)

lemma cpu_frames_good:
  assumes "apart src dst DMA_BENCH_FRAME" "bench_body src m"
  shows "bench_body src (fst (cpu_frames src dst k seq (m, ctx))) \<and>
    bc_bad_frames (snd (cpu_frames src dst k seq (m, ctx))) = bc_bad_frames ctx"
  using assms(2)
proof (induction k arbitrary: seq m ctx)
  case (Suc k)
  let ?m1 = "mem_write src (dma_bench_fill DMA_BENCH_FRAME seq) m"
  let ?m2 = "mem_copy dst src DMA_BENCH_FRAME ?m1"
  note r = read_stamped [OF Suc.prems, of seq]
  have a: "apart dst src DMA_BENCH_FRAME" using assms(1) by (simp add: apart_sym)
  have "bench_body src ?m2" using r(2) read_copy_apart [OF a] by (simp add: bench_body_def)
  moreover have "mem_read dst DMA_BENCH_FRAME ?m2 = bench_frame seq" using r(1) by (simp add: read_copy)
  ultimately show ?case using Suc.IH process_frame_good by (simp add: Let_def)
qed simp

lemma frame_of_bench: "bench_body (unat src) m \<Longrightarrow> frame_of (bench_config src d0 d1) m = bench_frame"
  by (simp add: fun_eq_iff frame_of_def bench_config_def bench_body_def bench_frame_def)

lemma bench_consume_good:
  "bc_bad_frames (bench_consume (map (\<lambda>j. (of_nat j, bench_frame (of_nat j), g j)) js) ctx) = bc_bad_frames ctx"
  by (induction js arbitrary: ctx) (simp_all add: bench_consume_def process_frame_good)

section \<open>The property\<close>

lemma release_opens:
  fixes s :: "'p infer"
  shows "\<not> in_dispatch_paused (syn_infer_release s)"
proof -
  have "\<not> in_dispatch_paused ((give_wake ^^ n) t)" if "\<not> in_dispatch_paused t" for n and t :: "'p infer"
    using that by (induction n) (simp_all add: give_wake_def)
  then show ?thesis by (simp add: syn_infer_release_def release_enter_def)
qed

lemma bench_pump_args:
  "apart (unat src) (unat d0) DMA_BENCH_FRAME \<Longrightarrow> apart (unat src) (unat d1) DMA_BENCH_FRAME \<Longrightarrow>
   apart (unat d0) (unat d1) DMA_BENCH_FRAME \<Longrightarrow> unat src \<noteq> 0 \<Longrightarrow> unat d0 \<noteq> 0 \<Longrightarrow> unat d1 \<noteq> 0 \<Longrightarrow>
   pump_args 0 (bench_config src d0 d1)"
  by (simp add: pump_args_def bench_config_def layout_ok_def Let_def)

lemma bench_run_result:
  fixes mo :: "u32 \<Rightarrow> moment" and e :: "'p bench_env"
  assumes "frames \<noteq> 0" "be_early e = at_early mo 0" "be_late e = at_late mo 0" "channel_idle 0 (bn_dma s)"
    and "apart (unat src) (unat d0) DMA_BENCH_FRAME" "apart (unat src) (unat d1) DMA_BENCH_FRAME"
      "apart (unat d0) (unat d1) DMA_BENCH_FRAME" "unat src \<noteq> 0" "unat d0 \<noteq> 0" "unat d1 \<noteq> 0"
  defines "n \<equiv> reached mo 0 (unat frames)" and "cfg \<equiv> bench_config src d0 d1"
  shows "\<exists>s'. bench_run e frames (src, d0, d1) s = (if n = unat frames then Ok () else Err EIO, s') \<and>
    bn_mem s' = syn_mem_reset_ephemeral (bn_mem s) \<and> \<not> in_dispatch_paused (bn_inf s') \<and>
    bn_out s' = bn_out s @ [if n = unat frames
      then Bl_report frames (be_cpu_us e) 0 (be_dma_us e) 0 0 (bench_gain (be_cpu_us e) (be_dma_us e))
      else Bl_ingest_failed EIO (of_nat n) 1] \<and>
    (n \<noteq> unat frames \<longrightarrow> channel_busy cfg 0 (gc_buf cfg (of_nat n)) (bn_dma s'))"
proof -
  define m0 where "m0 = mem_write (unat src) (replicate DMA_BENCH_FRAME 0x5A) (ds_mem (bn_dma s))"
  have b0: "bench_body (unat src) m0" by (simp add: bench_body_def m0_def read_write)
  obtain m1 ctx where c: "cpu_frames (unat src) (unat d0) (unat frames) 0 (m0, \<lparr>bc_bad_frames = 0, bc_checksum = 0\<rparr>) = (m1, ctx)" by force
  have b1: "bench_body (unat src) m1" "bc_bad_frames ctx = 0"
    using cpu_frames_good [OF assms(5) b0, of "unat frames" 0 "\<lparr>bc_bad_frames = 0, bc_checksum = 0\<rparr>"] by (simp_all add: c)
  define dm where "dm = (bn_dma s)\<lparr>ds_mem := m1\<rparr>"
  have pa: "pump_args 0 cfg" unfolding cfg_def by (rule bench_pump_args [OF assms(5-10)])
  have idle: "channel_idle 0 dm" using assms(4) by (simp add: dm_def channel_idle_def)
  obtain d' where r: "syn_ingest_run (be_early e) (be_late e) (be_dma_us e) (Some cfg) frames dm = (if n = unat frames then Ok () else Err EIO, d')"
    "ig_log d' = ig_log dm @ map (log_entry cfg (ds_mem dm)) [0..<n]" "ig_frames d' = of_nat n"
    "ig_dma_errors d' = (if n = unat frames then 0 else 1)" "n \<noteq> unat frames \<longrightarrow> channel_busy cfg 0 (gc_buf cfg (of_nat n)) d'"
    "n = unat frames \<longrightarrow> ig_elapsed_us d' = be_dma_us e"
    using pump_run [OF pa idle assms(1), of mo "be_dma_us e"] unfolding assms(2,3) n_def by blast
  have "frame_of cfg (ds_mem dm) = bench_frame" unfolding cfg_def using frame_of_bench b1(1) by (simp add: dm_def)
  then have "log_entry cfg (ds_mem dm) = (\<lambda>j. (of_nat j, bench_frame (of_nat j), bench_frame (of_nat j)))"
    by (simp add: log_entry_def fun_eq_iff)
  then have good: "bc_bad_frames (bench_consume (drop (length (ig_log dm)) (ig_log d')) (ctx\<lparr>bc_bad_frames := 0\<rparr>)) = 0"
    using bench_consume_good by (simp add: r(2))
  show ?thesis
    using r(1,3-6) b1(2) good
    by (cases "n = unat frames")
      (simp_all add: bench_run_def Let_def m0_def [symmetric] c dm_def [symmetric] cfg_def [symmetric] syn_ingest_last_stats_def
        bench_say_def bench_release_def release_opens syn_mem_scratch_release_def)
qed

text \<open>
  C19: over the arena, the gate of the engine, the pump and the DMA backend, \<open>syn dma bench\<close> with any number
  of frames finds no bad frame on either path when every transfer completes in time, and then leaves the
  ephemeral region empty and the gate open. When a transfer misses its timeout it reports EIO and does the
  same, while that transfer still writes into the buffer it has given back.
\<close>

theorem bench_finds_no_bad_frame:
  fixes mo :: "u32 \<Rightarrow> moment" and e :: "'p bench_env"
  assumes "frames \<noteq> 0" "mode = None \<or> mode = Some ''arena''" "be_early e = at_early mo 0" "be_late e = at_late mo 0"
    and "bench_quiesce e (s\<lparr>bn_dma := snd (stub_dma_init (bn_dma s))\<rparr>) = Some s2" "channel_idle 0 (bn_dma s2)"
    and "mem_inv (bn_mem s2, bs)" "ar_base (bn_mem s2) \<noteq> 0" "0 < unat (be_tensor_sz e)" "unat (be_tensor_sz e) \<le> 4096"
    and "bench_buffers (be_tensor_sz e) (bn_mem s2) = (Some (src, d0, d1), a)"
  defines "n \<equiv> reached mo 0 (unat frames)" and "cfg \<equiv> bench_config src d0 d1"
  shows "\<exists>s'. cmd_dma_bench e (Some frames) mode s = Some (if n = unat frames then Ok () else Err EIO, s') \<and>
    bn_mem s' = syn_mem_reset_ephemeral a \<and> \<not> in_dispatch_paused (bn_inf s') \<and>
    bn_out s' = bn_out s2 @ [if n = unat frames
      then Bl_report frames (be_cpu_us e) 0 (be_dma_us e) 0 0 (bench_gain (be_cpu_us e) (be_dma_us e))
      else Bl_ingest_failed EIO (of_nat n) 1] \<and>
    (n \<noteq> unat frames \<longrightarrow> channel_busy cfg 0 (gc_buf cfg (of_nat n)) (bn_dma s'))"
proof -
  have "cmd_dma_bench e (Some frames) mode s = Some (bench_run e frames (src, d0, d1) (s2\<lparr>bn_mem := a\<rparr>))"
    using assms(1,2,5,11) by (auto simp: cmd_dma_bench_def Let_def split: prod.split)
  then show ?thesis
    using bench_run_result [OF assms(1,3,4), of "s2\<lparr>bn_mem := a\<rparr>" src d0 d1] bench_buffers_apart [OF assms(7,9,10,8,11)] assms(6)
    unfolding n_def cfg_def by simp
qed

text \<open>A frame whose body is destroyed behind an intact stamp counts as good.\<close>

lemma body_is_not_checked:
  "length body = DMA_BENCH_FRAME - DMA_BENCH_STAMP \<Longrightarrow>
   bc_bad_frames (dma_bench_process (dma_bench_fill DMA_BENCH_FRAME seq @ body) seq ctx) = bc_bad_frames ctx"
  by (rule process_bad) simp

section \<open>A witness\<close>

definition demo_bench_env :: "unit bench_env" where
  "demo_bench_env = \<lparr>be_tensor_sz = 36, be_drain = id, be_settle = id, be_early = at_early demo_moment 0, be_late = at_late demo_moment 0,
     be_cpu_us = 30, be_dma_us = 20\<rparr>"

definition demo_bench :: "unit bench" where
  "demo_bench = \<lparr>bn_dma = demo_ingest\<lparr>ds_ready := False\<rparr>, bn_mem = demo_arena, bn_inf = boot_infer 4, bn_out = []\<rparr>"

lemma demo_bench_buffers:
  "fst (bench_buffers 36 demo_arena) = Some (536873984, 536870960, 536871520)"
  unfolding bench_buffers_def demo_arena_eq
  by (simp add: mem_eval syn_mem_scratch_acquire_def align_up_def)

theorem bench_finds_no_bad_frame_witness:
  "\<exists>s'. cmd_dma_bench demo_bench_env (Some 3) None demo_bench = Some (Ok (), s') \<and> bn_out s' = [Bl_report 3 30 0 20 0 0 (Some 50)]"
proof -
  define s2 where "s2 = the (bench_quiesce demo_bench_env (demo_bench\<lparr>bn_dma := snd (stub_dma_init (bn_dma demo_bench))\<rparr>))"
  have q: "bench_quiesce demo_bench_env (demo_bench\<lparr>bn_dma := snd (stub_dma_init (bn_dma demo_bench))\<rparr>) = Some s2"
    "bn_mem s2 = demo_arena" "channel_idle 0 (bn_dma s2)" "bn_out s2 = []"
    by (simp_all add: s2_def bench_quiesce_def quiesce_enter_def demo_bench_def boot_infer_def demo_bench_env_def stub_dma_init_def
        channel_idle_def demo_ingest_def zero_channel_def)
  have inv: "mem_inv (bn_mem s2, [])" "ar_base (bn_mem s2) \<noteq> 0"
    by (simp_all add: q(2) demo_arena_eq mem_inv_def arena_wf_def)
  have n: "reached demo_moment 0 (unat (3 :: u32)) = 3" by (simp add: reached_def upt_rec demo_moment_def)
  obtain a where b: "bench_buffers (be_tensor_sz demo_bench_env) (bn_mem s2) = (Some (536873984, 536870960, 536871520), a)"
    using demo_bench_buffers by (cases "bench_buffers 36 demo_arena") (simp add: q(2) demo_bench_env_def)
  have g: "bench_gain 30 20 = Some 50" by (simp add: bench_gain_def word_less_nat_alt)
  show ?thesis
    using bench_finds_no_bad_frame [OF _ _ _ _ q(1,3) inv _ _ b, of 3 None demo_moment, unfolded n] q(4) g
    by (auto simp: demo_bench_env_def)
qed

end
