(* ===== verification/Init.thy ===== *)
theory Init
  imports Mem Model_Registry Dsp Prof Npu_Neutron
begin

text \<open>
  Start and stop of the runtime, \<open>src/core/syn_init.c\<close>: the fixed order arena, NPU, DSP, profiling, the
  guard against a second start, and what a stop leaves behind in the components it does not name. The NPU
  backend is linked in, so its two operations are a record (\<open>npu_power\<close>, locale \<open>npu_cycle\<close>), and both
  backends provide it.
\<close>

section \<open>State and operations\<close>

record 'h npu_power =
  np_init :: "'h \<Rightarrow> unit res \<times> 'h"
  np_deinit :: "'h \<Rightarrow> 'h"

record 'h init_env =
  ie_arena :: u32
  ie_arena_size :: u32
  ie_scratch :: u32
  ie_pq :: pq_engine
  ie_profiling :: bool
  ie_npu :: "'h npu_power"

text \<open>The state of the files the two calls touch; the registry holds the state of the backend.\<close>

record 'h runtime =
  rt_initialized :: bool
  rt_mem :: mem_arena
  rt_dsp :: pq_state
  rt_prof :: profiler
  rt_reg :: "'h registry"

definition syn_init :: "'h init_env \<Rightarrow> 'h runtime \<Rightarrow> unit res \<times> 'h runtime" where
  "syn_init e s =
     (if rt_initialized s then (Err EALREADY, s)
      else (case syn_mem_init (ie_scratch e) (Some (ie_arena e)) (ie_arena_size e) (rt_mem s) of
              (Inl er, m) \<Rightarrow> (Err er, s\<lparr>rt_mem := m\<rparr>)
            | (Inr _, m) \<Rightarrow>
                (let s1 = s\<lparr>rt_mem := m\<rparr> in
                 case np_init (ie_npu e) (rg_hal (rt_reg s1)) of
                   (Inl er, h) \<Rightarrow> (Err er, s1\<lparr>rt_reg := (rt_reg s1)\<lparr>rg_hal := h\<rparr>\<rparr>)
                 | (Inr _, h) \<Rightarrow>
                     (let s2 = s1\<lparr>rt_reg := (rt_reg s1)\<lparr>rg_hal := h\<rparr>\<rparr>;
                          s3 = s2\<lparr>rt_dsp := syn_hal_dsp_init (ie_pq e) (rt_dsp s2)\<rparr>;
                          s4 = (if ie_profiling e then s3\<lparr>rt_prof := snd (syn_prof_enable (rt_prof s3))\<rparr> else s3)
                      in (Ok (), s4\<lparr>rt_initialized := True\<rparr>)))))"

definition syn_shutdown :: "'h init_env \<Rightarrow> 'h runtime \<Rightarrow> unit res \<times> 'h runtime" where
  "syn_shutdown e s =
     (if \<not> rt_initialized s then (Err EPERM, s)
      else let s1 = (if ie_profiling e then s\<lparr>rt_prof := snd (syn_prof_disable (rt_prof s))\<rparr> else s);
               s2 = s1\<lparr>rt_reg := (rt_reg s1)\<lparr>rg_hal := np_deinit (ie_npu e) (rg_hal (rt_reg s1))\<rparr>\<rparr>
           in (Ok (), s2\<lparr>rt_initialized := False\<rparr>))"

definition stub_power :: "npu_stub npu_power" where
  "stub_power = \<lparr>np_init = syn_hal_npu_init, np_deinit = syn_hal_npu_deinit\<rparr>"

definition neutron_power :: "'d neutron_env option \<Rightarrow> 'd npu_neutron npu_power" where
  "neutron_power drv = \<lparr>np_init = neutron_npu_init drv, np_deinit = neutron_npu_deinit drv\<rparr>"

lemma active_index_hal [simp]: "active_index (g\<lparr>rg_hal := h\<rparr>) m = active_index g m"
  by (simp add: active_index_def handle_to_index_def)

section \<open>What a backend promises over a stop and a start\<close>

locale npu_cycle =
  fixes P :: "'h npu_power" and ops :: "'h npu_ops" and has_model :: "'h \<Rightarrow> nat option"
  assumes init_empty: "np_init P h = (Ok (), h') \<Longrightarrow> has_model h' = None"
    and init_after_deinit: "fst (np_init P (np_deinit P h)) = Ok ()"
    and init_fails: "np_init P h = (Inl e, h') \<Longrightarrow> h' = h"
    and input_needs_model: "has_model h = None \<Longrightarrow> bytes \<noteq> [] \<Longrightarrow> no_set_input ops 0 (Some bytes) (length bytes) h = (Err EPERM, h)"
begin

lemma init_ok:
  assumes "syn_init e s = (Ok (), s')" "ie_npu e = P"
  shows "has_model (rg_hal (rt_reg s')) = None" "rt_reg s' = (rt_reg s)\<lparr>rg_hal := rg_hal (rt_reg s')\<rparr>" "rt_initialized s'"
    "syn_mem_init (ie_scratch e) (Some (ie_arena e)) (ie_arena_size e) (rt_mem s) = (Ok (), rt_mem s')"
  using assms init_empty
  by (auto simp: syn_init_def Let_def split: if_split_asm prod.split_asm sum.split_asm)

lemma restart:
  assumes "rt_initialized s" "ie_npu e = P" "ie_arena_size e > ie_scratch e"
  obtains s1 s2 where "syn_shutdown e s = (Ok (), s1)" "syn_init e s1 = (Ok (), s2)"
    "rt_reg s2 = (rt_reg s)\<lparr>rg_hal := rg_hal (rt_reg s2)\<rparr>" "has_model (rg_hal (rt_reg s2)) = None"
    "rg_hal (rt_reg s2) = snd (np_init P (np_deinit P (rg_hal (rt_reg s))))"
proof -
  define s1 where "s1 = snd (syn_shutdown e s)"
  have sd: "syn_shutdown e s = (Ok (), s1)" "\<not> rt_initialized s1" "rt_reg s1 = (rt_reg s)\<lparr>rg_hal := np_deinit P (rg_hal (rt_reg s))\<rparr>"
    using assms by (simp_all add: s1_def syn_shutdown_def Let_def)
  obtain h where h: "np_init P (np_deinit P (rg_hal (rt_reg s))) = (Ok (), h)"
    using init_after_deinit [of "rg_hal (rt_reg s)"] by (metis prod.collapse)
  define s2 where "s2 = snd (syn_init e s1)"
  have "ie_arena_size e \<noteq> 0" "\<not> ie_arena_size e \<le> ie_scratch e" using assms(3) by auto
  then have i: "syn_init e s1 = (Ok (), s2)" "rg_hal (rt_reg s2) = h"
    using sd h assms(2,3) by (simp_all add: s2_def syn_init_def syn_mem_init_def Let_def)
  have "(rt_reg s1)\<lparr>rg_hal := h\<rparr> = (rt_reg s)\<lparr>rg_hal := h\<rparr>" by (simp add: sd(3))
  then show ?thesis using that [OF sd(1) i(1)] init_ok [OF i(1) assms(2)] i(2) h by simp
qed

lemma infer_refused: "has_model h = None \<Longrightarrow> bytes \<noteq> [] \<Longrightarrow> npu_infer_once ops bytes cap h = (Err EPERM, h)"
  by (simp add: npu_infer_once_def input_needs_model)

lemma first_start_is_backed:
  assumes "syn_init e s = (Ok (), s')" "ie_npu e = P" "rg_resident (rt_reg s) = None"
  shows "resident_backed has_model (rt_reg s')"
proof -
  have "rg_resident (rt_reg s') = rg_resident ((rt_reg s)\<lparr>rg_hal := rg_hal (rt_reg s')\<rparr>)"
    by (rule arg_cong [OF init_ok(2) [OF assms(1,2)]])
  then show ?thesis using assms(3) by (simp add: resident_backed_def)
qed

end

interpretation stub_cycle: npu_cycle stub_power "stub_ops act_max blob" stub_model for act_max blob
  by unfold_locales
    (auto simp: stub_power_def stub_defs syn_hal_npu_init_def syn_hal_npu_deinit_def split: if_split_asm)

interpretation neutron_cycle: npu_cycle "neutron_power drv" "neutron_ops drv act_max blob" neutron_model
  for drv :: "'d neutron_env option" and act_max blob
  by unfold_locales
    (auto simp: neutron_power_def neutron_ops_def neutron_model_def neutron_npu_init_def neutron_npu_deinit_def neutron_npu_set_input_def
      Let_def split: if_split_asm option.splits prod.splits)

section \<open>Properties\<close>

lemma second_start_refused: "rt_initialized s \<Longrightarrow> syn_init e s = (Err EALREADY, s)"
  by (simp add: syn_init_def)

lemma init_arena_wf:
  assumes "syn_init e s = (Ok (), s')" "ie_npu e = stub_power"
    and "unat (ie_arena e) + unat (ie_arena_size e) < 2 ^ 32" "unat (ie_arena_size e) \<le> 2 ^ 30"
  shows "arena_wf (rt_mem s')"
  using arena_wf_init [OF stub_cycle.init_ok(4) [OF assms(1,2)] assms(3,4)] .

text \<open>
  C38: \<open>syn_shutdown\<close> followed by \<open>syn_init\<close> leaves the registry as it was while the NPU has lost its model.
  A model that was loaded and resident still counts as loaded and resident: loading it again is refused with
  EALREADY, making it resident succeeds without a load, and every inference on it then fails with EPERM. An
  unload followed by a load brings it back.
\<close>

theorem restart_forgets_the_resident_model:
  fixes act_max :: nat and blob :: "nat \<Rightarrow> u8 list"
  defines "ops \<equiv> stub_ops act_max blob"
  assumes "rt_initialized s" "ie_npu e = stub_power" "ie_arena_size e > ie_scratch e"
    and "active_index (rt_reg s) m = Some i" "sl_loaded (rg_slots (rt_reg s) ! i)"
      "sl_data (rg_slots (rt_reg s) ! i) = Some p" "rg_resident (rt_reg s) = Some p"
      "0 < sl_data_size (rg_slots (rt_reg s) ! i)" "sl_data_size (rg_slots (rt_reg s) ! i) \<le> STUB_MAX_MODEL_SIZE"
      "mi_crc32 (sl_info (rg_slots (rt_reg s) ! i)) = crc (rd p (sl_data_size (rg_slots (rt_reg s) ! i)))"
    and "bytes \<noteq> []" "length bytes \<le> STUB_MAX_INPUT_SIZE" "\<not> susp m"
  shows "\<exists>s1 s2 g1 g2. syn_shutdown e s = (Ok (), s1) \<and> syn_init e s1 = (Ok (), s2) \<and>
    syn_model_load ops crc rd m (rt_reg s2) = (Err EALREADY, rt_reg s2) \<and>
    syn_model_ensure_resident ops crc rd us m (rt_reg s2) = (Ok (), rt_reg s2) \<and>
    npu_infer_once ops bytes cap (rg_hal (rt_reg s2)) = (Err EPERM, rg_hal (rt_reg s2)) \<and>
    syn_model_unload ops susp m (rt_reg s2) = (Ok (), g1) \<and> syn_model_load ops crc rd m g1 = (Ok (), g2) \<and>
    is_ok (fst (npu_infer_once ops bytes cap (rg_hal g2)))"
proof -
  obtain s1 s2 where r: "syn_shutdown e s = (Ok (), s1)" "syn_init e s1 = (Ok (), s2)"
    "rt_reg s2 = (rt_reg s)\<lparr>rg_hal := rg_hal (rt_reg s2)\<rparr>" "stub_model (rg_hal (rt_reg s2)) = None"
    "rg_hal (rt_reg s2) = snd (np_init stub_power (np_deinit stub_power (rg_hal (rt_reg s))))"
    by (rule stub_cycle.restart [OF assms(2-4)])
  define g where "g = rt_reg s2"
  define h where "h = rg_hal g"
  have g: "g = (rt_reg s)\<lparr>rg_hal := h\<rparr>" using r(3) by (simp add: g_def h_def)
  have f: "active_index g m = Some i" "rg_slots g = rg_slots (rt_reg s)" "rg_resident g = Some p"
    using assms(5,8) by (simp_all add: g)
  have h: "ns_initialized h" "ns_state h = SYN_NPU_STATE_IDLE"
    using r(5) by (simp_all add: h_def g_def stub_power_def syn_hal_npu_init_def syn_hal_npu_deinit_def)
  have i: "i < length (rg_slots g)" using active_index_SomeD [OF f(1)] by simp
  define g1 where "g1 = snd (syn_model_unload ops susp m g)"
  have u: "syn_model_unload ops susp m g = (Ok (), g1)" "active_index g1 m = Some i" "rg_slots g1 ! i = (rg_slots g ! i)\<lparr>sl_loaded := False\<rparr>"
    "rg_hal g1 = snd (syn_hal_npu_unload_model act_max blob h)"
    using f(1) assms(6,7,14) f(2,3) i
    by (auto simp: g1_def syn_model_unload_def Let_def ops_def stub_ops_def h_def set_slot_def active_index_def handle_to_index_def
        nth_list_update split: if_splits)
  have hu: "ns_initialized (rg_hal g1)" "ns_state (rg_hal g1) = SYN_NPU_STATE_IDLE"
    using h by (simp_all add: u(4) syn_hal_npu_unload_model_def)
  define g2 where "g2 = snd (syn_model_load ops crc rd m g1)"
  have l: "syn_model_load ops crc rd m g1 = (Ok (), g2)"
    "rg_hal g2 = snd (syn_hal_npu_load_model act_max blob (Some p) (sl_data_size (rg_slots (rt_reg s) ! i)) (rg_hal g1))"
    using u(2,3) hu assms(7,9-11) f(2)
    by (simp_all add: g2_def syn_model_load_def model_do_load_def model_hal_load_def Let_def ops_def stub_ops_def syn_hal_npu_load_model_def)
  have "is_ok (fst (npu_infer_once ops bytes cap (rg_hal g2)))"
    using hu assms(9,10,12,13)
    by (simp add: l(2) npu_infer_once_def ops_def stub_ops_def syn_hal_npu_load_model_def syn_hal_npu_set_input_def
        syn_hal_npu_invoke_def syn_hal_npu_get_output_def Let_def)
  moreover have "syn_model_load ops crc rd m g = (Err EALREADY, g)" "syn_model_ensure_resident ops crc rd us m g = (Ok (), g)"
    using f assms(6,7) by (simp_all add: syn_model_load_def syn_model_ensure_resident_def Let_def)
  moreover have "npu_infer_once ops bytes cap h = (Err EPERM, h)"
    unfolding ops_def using r(4) assms(12) by (intro stub_cycle.infer_refused) (simp_all add: h_def g_def)
  ultimately show ?thesis using r(1,2) u(1) l(1) unfolding g_def h_def by blast
qed

section \<open>A witness\<close>

text \<open>A board whose coprocessor answers every probe with its input, with one model loaded.\<close>

definition demo_config :: pq_config where
  "demo_config = \<lparr>cf_inputA = kPQ_16Bit, cf_inputB = kPQ_16Bit, cf_output = kPQ_16Bit, cf_prescale = 0, cf_tmp = kPQ_Float,
     cf_machine = kPQ_Float\<rparr>"

definition demo_engine :: pq_engine where
  "demo_engine = \<lparr>pe_default = demo_config, pe_reset = demo_config, pe_cfft = (\<lambda>_ _ xs. xs), pe_matmul = (\<lambda>_ _ _ xs _. xs)\<rparr>"

definition demo_init_env :: "npu_stub init_env" where
  "demo_init_env = \<lparr>ie_arena = 536870912, ie_arena_size = 4096, ie_scratch = 1024, ie_pq = demo_engine, ie_profiling = True,
     ie_npu = stub_power\<rparr>"

abbreviation (input) demo_ops :: "npu_stub npu_ops" where "demo_ops \<equiv> stub_ops 64 (\<lambda>_. demo_blob)"

definition demo_runtime :: "npu_stub runtime" where
  "demo_runtime = \<lparr>rt_initialized = True, rt_mem = demo_arena, rt_dsp = pq_boot demo_config,
     rt_prof = \<lparr>pf_enabled = True, pf_last_result = zero_result, pf_start_cycle = 0, pf_preprocess_cycle = 0, pf_npu_cycle = 0,
       pf_has_result = False\<rparr>,
     rt_reg = snd (syn_model_load demo_ops (\<lambda>_. 7) (\<lambda>_ _. []) 1 demo_reg2)\<rparr>"

lemma demo_runtime_facts:
  "rt_initialized demo_runtime" "ie_npu demo_init_env = stub_power" "ie_arena_size demo_init_env > ie_scratch demo_init_env"
  "active_index (rt_reg demo_runtime) 1 = Some 0" "sl_loaded (rg_slots (rt_reg demo_runtime) ! 0)"
  "sl_data (rg_slots (rt_reg demo_runtime) ! 0) = Some 4096" "rg_resident (rt_reg demo_runtime) = Some 4096"
  "sl_data_size (rg_slots (rt_reg demo_runtime) ! 0) = 12" "mi_crc32 (sl_info (rg_slots (rt_reg demo_runtime) ! 0)) = 7"
  by (simp_all add: demo_runtime_def demo_init_env_def)
    (simp_all add: demo_reg2_def demo_reg1_def syn_model_register_def demo_registry_def empty_slot_def name_match_def syn_model_set_data_def
      active_index_def handle_to_index_def replicate_num syn_model_load_def model_do_load_def model_hal_load_def Let_def demo_info_def
      stub_ops_def syn_hal_npu_load_model_def demo_stub_def set_slot_def)

theorem restart_forgets_the_resident_model_witness:
  "\<exists>s1 s2. syn_shutdown demo_init_env demo_runtime = (Ok (), s1) \<and> syn_init demo_init_env s1 = (Ok (), s2) \<and>
     syn_model_ensure_resident demo_ops (\<lambda>_. 7) (\<lambda>_ _. []) 0 1 (rt_reg s2) = (Ok (), rt_reg s2) \<and>
     fst (npu_infer_once demo_ops [200, 103] 10 (rg_hal (rt_reg s2))) = Err EPERM"
  using restart_forgets_the_resident_model [where bytes = "[200, 103]" and susp = "\<lambda>_. False" and us = 0 and cap = 10 and rd = "\<lambda>_ _. []",
      OF demo_runtime_facts(1-7), of "\<lambda>_. 7" 64 "\<lambda>_. demo_blob"] demo_runtime_facts(8,9)
  by fastforce

end
