(* ===== verification/Console.thy ===== *)
theory Console
  imports Infer_Exec Dsp Ipc
begin

text \<open>
  The commands of \<open>src/core/syn_shell.c\<close> that drive the registry and the engine or inspect the state of the
  system: \<open>syn model\<close>, \<open>syn infer\<close>, \<open>syn mem\<close>, \<open>syn npu\<close>, \<open>syn prof\<close>, \<open>syn ipc\<close> and \<open>syn health hang\<close>. A printed
  line is a value with the numbers it shows; the names are the arguments of the command line and measured
  durations are arguments.
\<close>

section \<open>State and lines\<close>

datatype con_line =
    Cl_error errno
  | Cl_usage
  | Cl_not_found "u8 list"
  | Cl_not_loaded "u8 list"
  | Cl_already_loaded "u8 list"
  | Cl_loaded "u8 list" u32
  | Cl_unloaded "u8 list"
  | Cl_bad_priority string
  | Cl_models nat
  | Cl_model nat "u8 list" "u8 list" bool
  | Cl_info nat syn_model_info bool
  | Cl_class "u8 list" string nat i8 u32
  | Cl_bytes "u8 list" string u32 u32
  | Cl_arena syn_mem_stats
  | Cl_regions syn_mem_layout u32 u32 u32 u32
  | Cl_prof syn_prof_result
  | Cl_nothing
  | Cl_plan nat nat u32 u32
  | Cl_ring u32 u32 u32
  | Cl_hang

record 'p console =
  cn_exec :: "'p exec"
  cn_shm :: syn_shm_region
  cn_shm_up :: bool
  cn_out :: "con_line list"

definition con_say :: "con_line \<Rightarrow> 'p console \<Rightarrow> 'p console" where
  "con_say l s = s\<lparr>cn_out := cn_out s @ [l]\<rparr>"

definition put_reg :: "npu_stub registry \<Rightarrow> 'p console \<Rightarrow> 'p console" where
  "put_reg g s = s\<lparr>cn_exec := (cn_exec s)\<lparr>ex_reg := g\<rparr>\<rparr>"

definition con_ops :: "'p exec_env \<Rightarrow> npu_stub npu_ops" where
  "con_ops E = stub_ops (ev_act_max E) (ev_blob E)"

section \<open>Memory and profiler\<close>

definition cmd_mem_stats :: "'p console \<Rightarrow> unit res \<times> 'p console" where
  "cmd_mem_stats s =
     (case syn_mem_get_stats True (ex_mem (cn_exec s)) of
        Inl e \<Rightarrow> (Err e, con_say (Cl_error e) s)
      | Inr st \<Rightarrow> (Ok (), con_say (Cl_arena st) s))"

text \<open>The addresses where the persistent and the ephemeral region and the usable part end, and the free bytes.\<close>

definition cmd_mem_dump :: "'p console \<Rightarrow> unit res \<times> 'p console" where
  "cmd_mem_dump s =
     (case syn_mem_get_layout True (ex_mem (cn_exec s)) of
        Inl e \<Rightarrow> (Err e, con_say (Cl_error e) s)
      | Inr lay \<Rightarrow>
          let pers_end = ml_base lay + ml_persistent_used lay; eph_end = pers_end + ml_ephemeral_used lay
          in (Ok (), con_say (Cl_regions lay pers_end eph_end (ml_base lay + ml_usable lay)
                (ml_usable lay - ml_persistent_used lay - ml_ephemeral_used lay)) s))"

definition cmd_prof_last :: "'p console \<Rightarrow> unit res \<times> 'p console" where
  "cmd_prof_last s =
     (case syn_prof_get_last True (ex_prof (cn_exec s)) of
        Inl e \<Rightarrow> (Ok (), con_say Cl_nothing s)
      | Inr r \<Rightarrow> (Ok (), con_say (Cl_prof r) s))"

definition cmd_prof_enable :: "'p console \<Rightarrow> unit res \<times> 'p console" where
  "cmd_prof_enable s = (Ok (), s\<lparr>cn_exec := (cn_exec s)\<lparr>ex_prof := snd (syn_prof_enable (ex_prof (cn_exec s)))\<rparr>\<rparr>)"

definition cmd_prof_disable :: "'p console \<Rightarrow> unit res \<times> 'p console" where
  "cmd_prof_disable s = (Ok (), s\<lparr>cn_exec := (cn_exec s)\<lparr>ex_prof := snd (syn_prof_disable (ex_prof (cn_exec s)))\<rparr>\<rparr>)"

section \<open>Models\<close>

definition cmd_model_list :: "nat \<Rightarrow> 'p console \<Rightarrow> unit res \<times> 'p console" where
  "cmd_model_list max_models s =
     (let g = ex_reg (cn_exec s) in
      case syn_model_list True True max_models g of
        Inl e \<Rightarrow> (Err e, con_say (Cl_error e) s)
      | Inr hs \<Rightarrow> (Ok (), foldl (\<lambda>s h. case syn_model_get_info h True g of
            Inr info \<Rightarrow> con_say (Cl_model h (mi_name info) (mi_version info) (syn_model_is_loaded h g)) s
          | Inl _ \<Rightarrow> s) (con_say (Cl_models (length hs)) s) hs))"

definition cmd_model_info :: "u8 list \<Rightarrow> 'p console \<Rightarrow> unit res \<times> 'p console" where
  "cmd_model_info name s =
     (let g = ex_reg (cn_exec s) in
      case syn_model_get_by_name (Some name) True g of
        Inl e \<Rightarrow> (Err e, con_say (Cl_not_found name) s)
      | Inr h \<Rightarrow> (case syn_model_get_info h True g of
                    Inl e \<Rightarrow> (Err e, con_say (Cl_error e) s)
                  | Inr info \<Rightarrow> (Ok (), con_say (Cl_info h info (syn_model_is_loaded h g)) s)))"

definition cmd_model_load :: "'p exec_env \<Rightarrow> u32 \<Rightarrow> u8 list \<Rightarrow> 'p console \<Rightarrow> unit res \<times> 'p console" where
  "cmd_model_load E elapsed name s =
     (case syn_model_get_by_name (Some name) True (ex_reg (cn_exec s)) of
        Inl e \<Rightarrow> (Err e, con_say (Cl_not_found name) s)
      | Inr h \<Rightarrow>
          (let (r, g) = syn_model_load (con_ops E) (ev_crc E) (ev_rd E) h (ex_reg (cn_exec s)); s1 = put_reg g s
           in case r of
                Inr _ \<Rightarrow> (Ok (), con_say (Cl_loaded name elapsed) s1)
              | Inl e \<Rightarrow> if e = EALREADY then (Ok (), con_say (Cl_already_loaded name) s1) else (Err e, con_say (Cl_error e) s1)))"

definition cmd_model_unload :: "'p exec_env \<Rightarrow> u8 list \<Rightarrow> 'p console \<Rightarrow> unit res \<times> 'p console" where
  "cmd_model_unload E name s =
     (case syn_model_get_by_name (Some name) True (ex_reg (cn_exec s)) of
        Inl e \<Rightarrow> (Err e, con_say (Cl_not_found name) s)
      | Inr h \<Rightarrow>
          (let (r, g) = syn_model_unload (con_ops E) (\<lambda>m. syn_infer_model_suspended m (ex_inf (cn_exec s))) h (ex_reg (cn_exec s));
               s1 = put_reg g s
           in case r of
                Inr _ \<Rightarrow> (Ok (), con_say (Cl_unloaded name) s1)
              | Inl e \<Rightarrow> if e = EALREADY then (Ok (), con_say (Cl_not_loaded name) s1) else (Err e, con_say (Cl_error e) s1)))"

section \<open>Inference\<close>

text \<open>A priority is its number: 0 best effort, 1 normal, 2 realtime.\<close>

definition parse_priority :: "string \<Rightarrow> nat res" where
  "parse_priority arg =
     (if arg = ''rt'' \<or> arg = ''realtime'' \<or> arg = ''2'' then Ok 2
      else if arg = ''normal'' \<or> arg = ''1'' then Ok 1
      else if arg = ''be'' \<or> arg = ''best_effort'' \<or> arg = ''0'' then Ok 0
      else Err EINVAL)"

definition priority_name :: "nat \<Rightarrow> string" where
  "priority_name prio = (if prio = 2 then ''realtime'' else if prio = 1 then ''normal'' else ''best_effort'')"

definition gradient :: "u32 \<Rightarrow> u8 list" where
  "gradient n = map (\<lambda>i. of_nat (i mod 256)) [0..<unat n]"

definition infer_report :: "u8 list \<Rightarrow> nat \<Rightarrow> u32 \<Rightarrow> itensor \<Rightarrow> con_line" where
  "infer_report name prio elapsed out =
     (if tn_dtype out = SYN_NPU_DTYPE_INT8 \<and> tn_size out > 0
      then let xs = map ucast (tn_bytes out);
               top_class = (case syn_hal_dsp_argmax (Some xs) (unat (tn_size out)) of Inr k \<Rightarrow> k | Inl _ \<Rightarrow> 0)
           in Cl_class name (priority_name prio) top_class (xs ! top_class) elapsed
      else Cl_bytes name (priority_name prio) (tn_size out) elapsed)"

text \<open>
  The part behind the argument checks. The input tensor comes from the ephemeral region, and the region is
  reset at the end, on success and on failure. \<open>meanwhile\<close> is what the other threads do while the job runs.
\<close>

definition infer_run_model ::
  "'p exec_env \<Rightarrow> nat \<Rightarrow> ('p exec \<Rightarrow> 'p exec) \<Rightarrow> u32 \<Rightarrow> u8 list \<Rightarrow> nat \<Rightarrow> syn_model_info \<Rightarrow> nat \<Rightarrow> 'p console \<Rightarrow> unit res \<times> 'p console" where
  "infer_run_model E max_stages meanwhile elapsed name h info prio s =
     (let w = cn_exec s;
          (t, a) = syn_mem_tensor_alloc (ev_tensor_sz E) (Some [mi_input_size info]) 1 (dtype_of (mi_input_dtype info)) SYN_MEM_EPHEMERAL (ex_mem w);
          w1 = w\<lparr>ex_mem := a\<rparr>
      in case t of
           None \<Rightarrow> (Err ENOMEM, con_say (Cl_error ENOMEM) (s\<lparr>cn_exec := w1\<rparr>))
         | Some (block, d) \<Rightarrow>
             let tin = syn_tensor.extend d \<lparr>tn_bytes = gradient (tn_size d)\<rparr>;
                 (ret, out, w2) = syn_infer_run_sync E max_stages meanwhile h (Some tin) (Some zero_tensor) prio w1;
                 s1 = s\<lparr>cn_exec := w2\<lparr>ex_mem := syn_mem_reset_ephemeral (ex_mem w2)\<rparr>\<rparr>
             in (case ret of
                   Inl e \<Rightarrow> (Err e, con_say (Cl_error e) s1)
                 | Inr _ \<Rightarrow> (Ok (), con_say (infer_report name prio elapsed (case out of Some x \<Rightarrow> x | None \<Rightarrow> zero_tensor)) s1)))"

text \<open>A model that is loaded has an info, so the second refusal, which the code leaves out, never happens.\<close>

definition cmd_infer_run ::
  "'p exec_env \<Rightarrow> nat \<Rightarrow> ('p exec \<Rightarrow> 'p exec) \<Rightarrow> u32 \<Rightarrow> u8 list option \<Rightarrow> string option \<Rightarrow> 'p console \<Rightarrow> unit res \<times> 'p console" where
  "cmd_infer_run E max_stages meanwhile elapsed arg parg s =
     (case arg of
        None \<Rightarrow> (Err EINVAL, con_say Cl_usage s)
      | Some name \<Rightarrow>
          (case (case parg of None \<Rightarrow> Ok 1 | Some p \<Rightarrow> parse_priority p) of
             Inl _ \<Rightarrow> (Err EINVAL, con_say (Cl_bad_priority (the parg)) s)
           | Inr prio \<Rightarrow>
               let g = ex_reg (cn_exec s) in
               (case syn_model_get_by_name (Some name) True g of
                  Inl e \<Rightarrow> (Err e, con_say (Cl_not_found name) s)
                | Inr h \<Rightarrow>
                    if \<not> syn_model_is_loaded h g then (Err EPERM, con_say (Cl_not_loaded name) s)
                    else (case syn_model_get_info h True g of
                            Inl _ \<Rightarrow> (Err EPERM, con_say (Cl_not_loaded name) s)
                          | Inr info \<Rightarrow> infer_run_model E max_stages meanwhile elapsed name h info prio s))))"

definition cmd_npu_plan :: "'p console \<Rightarrow> unit res \<times> 'p console" where
  "cmd_npu_plan s =
     (let (planned, naive, us) = syn_npu_layered_plan_info (ex_ly (cn_exec s))
      in if naive = 0 then (Ok (), con_say Cl_nothing s)
         else (Ok (), con_say (Cl_plan planned naive (100 - of_nat planned * 100 div of_nat naive) us) s))"

section \<open>The second core\<close>

definition cmd_ipc_stats :: "'p console \<Rightarrow> unit res \<times> 'p console" where
  "cmd_ipc_stats s =
     (if \<not> cn_shm_up s \<or> sc_magic (shm_ctrl (cn_shm s)) \<noteq> SYN_SHM_MAGIC then (Err ENODEV, con_say (Cl_error ENODEV) s)
      else (Ok (), foldl (\<lambda>s r. con_say (Cl_ring (rb_head r) (rb_tail r) (rb_head r - rb_tail r)) s) s
              [shm_ring_c0_to_c1 (cn_shm s), shm_ring_c1_to_c0 (cn_shm s)]))"

text \<open>\<open>syn health hang cpu1\<close>; with \<open>cpu0\<close> the command never returns.\<close>

definition cmd_health_hang :: "string \<Rightarrow> 'p console \<Rightarrow> (unit res \<times> 'p console) option" where
  "cmd_health_hang arg s =
     (if arg = ''cpu0'' then None
      else if arg = ''cpu1'' then
        if \<not> cn_shm_up s then Some (Err ENODEV, con_say (Cl_error ENODEV) s)
        else Some (Ok (), con_say Cl_hang (s\<lparr>cn_shm := (cn_shm s)\<lparr>shm_ctrl := (shm_ctrl (cn_shm s))\<lparr>sc_debug_cmd := SYN_SHM_DEBUG_CPU1_HANG\<rparr>\<rparr>\<rparr>))
      else Some (Err EINVAL, con_say Cl_usage s))"

section \<open>What the commands guarantee\<close>

text \<open>Every name the console prints for a priority is one it accepts.\<close>

lemma priority_roundtrip: "p \<le> 2 \<Longrightarrow> parse_priority (priority_name p) = Ok p"
  by (auto simp: priority_name_def parse_priority_def le_Suc_eq numeral_2_eq_2)

text \<open>The numbers of \<open>syn mem dump\<close> do not wrap.\<close>

lemma mem_dump_adds_up:
  assumes "arena_wf (ex_mem (cn_exec s))" "cn_out (snd (cmd_mem_dump s)) = cn_out s @ [Cl_regions lay pe ee sb fr]"
  shows "unat pe = unat (ml_base lay) + unat (ml_persistent_used lay) \<and> unat ee = unat pe + unat (ml_ephemeral_used lay) \<and>
    unat ee + unat fr = unat sb"
proof -
  define a where "a = ex_mem (cn_exec s)"
  have wf: "arena_wf a" using assms(1) by (simp add: a_def)
  have l: "lay = \<lparr>ml_base = ar_base a, ml_total = ar_total a, ml_usable = ar_usable a, ml_persistent_used = ar_persistent_used a,
      ml_ephemeral_used = ar_ephemeral_used a, ml_scratch_total = ar_scratch_total a, ml_scratch_used = ar_scratch_used a\<rparr>"
    "pe = ar_base a + ar_persistent_used a" "ee = pe + ar_ephemeral_used a" "sb = ar_base a + ar_usable a"
    "fr = ar_usable a - ar_persistent_used a - ar_ephemeral_used a"
    using assms wf by (auto simp: cmd_mem_dump_def syn_mem_get_layout_def con_say_def Let_def a_def [symmetric] arena_wf_def)
  have b: "unat (ar_base a) + unat (ar_usable a) < 2 ^ 32" "unat (ar_persistent_used a) + unat (ar_ephemeral_used a) \<le> unat (ar_usable a)"
    using wf by (auto simp: arena_wf_def)
  have pe: "unat pe = unat (ar_base a) + unat (ar_persistent_used a)" using b by (simp add: l(2) unat_add32_small)
  have ee: "unat ee = unat pe + unat (ar_ephemeral_used a)" using b pe by (simp add: l(3) unat_add32_small)
  have sb: "unat sb = unat (ar_base a) + unat (ar_usable a)" using b by (simp add: l(4) unat_add32_small)
  have "unat (ar_usable a - ar_persistent_used a) = unat (ar_usable a) - unat (ar_persistent_used a)"
    using b by (intro unat_sub) (simp add: word_le_nat_alt)
  then have "unat fr = unat (ar_usable a) - unat (ar_persistent_used a) - unat (ar_ephemeral_used a)"
    unfolding l(5) using b by (subst unat_sub) (simp_all add: word_le_nat_alt)
  then show ?thesis using pe ee sb b by (simp add: l(1))
qed

lemma stub_load_not_already: "model_do_load (stub_ops am blob) crc rd i g \<noteq> (Err EALREADY, g')"
  by (auto simp: model_do_load_def model_hal_load_def stub_ops_def syn_hal_npu_load_model_def Let_def split: option.splits if_splits prod.splits sum.splits)

text \<open>A successful \<open>syn model load\<close>, the first or a repeated one, leaves the model of that name loaded.\<close>

lemma model_load_loads:
  assumes "cmd_model_load E el name s = (Ok (), s')"
  shows "\<exists>h. syn_model_get_by_name (Some name) True (ex_reg (cn_exec s)) = Ok h \<and> syn_model_is_loaded h (ex_reg (cn_exec s'))"
proof -
  define g where "g = ex_reg (cn_exec s)"
  obtain h where h: "syn_model_get_by_name (Some name) True g = Ok h"
    using assms by (auto simp: cmd_model_load_def g_def split: sum.splits)
  obtain r g' where r: "syn_model_load (con_ops E) (ev_crc E) (ev_rd E) h g = (r, g')" by force
  have ok: "r = Ok () \<or> r = Err EALREADY" "ex_reg (cn_exec s') = g'"
    using assms h r by (auto simp: cmd_model_load_def g_def [symmetric] put_reg_def con_say_def Let_def split: sum.splits if_splits)
  have "syn_model_is_loaded h g'"
    using r ok(1)
  proof (cases "active_index g h")
    case (Some i)
    then have i: "i < length (rg_slots g)" using active_index_SomeD by blast
    show ?thesis
    proof (cases "sl_loaded (rg_slots g ! i)")
      case True
      then show ?thesis using r Some by (simp add: syn_model_load_def syn_model_is_loaded_def)
    next
      case False
      then have d: "model_do_load (con_ops E) (ev_crc E) (ev_rd E) i g = (r, g')" using r Some by (simp add: syn_model_load_def)
      have "r \<noteq> Err EALREADY" using d stub_load_not_already by (fastforce simp: con_ops_def)
      then obtain g1 where g1: "model_hal_load (con_ops E) (ev_crc E) (ev_rd E) i g = (Ok (), g1)"
        "g' = set_slot i ((rg_slots g1 ! i)\<lparr>sl_loaded := True\<rparr>) g1"
        using ok(1) d by (auto simp: model_do_load_def split: prod.splits sum.splits)
      have "rg_slots g1 = rg_slots g" using hal_load_slots [OF g1(1)] .
      then show ?thesis using Some i
        by (auto simp: g1(2) syn_model_is_loaded_def active_index_def handle_to_index_def set_slot_def split: if_splits)
    qed
  qed (auto simp: syn_model_load_def)
  then show ?thesis using h ok(2) by (auto simp: g_def)
qed

section \<open>The reset at the end of \<open>syn infer run\<close>\<close>

definition arena_frame :: "mem_arena \<Rightarrow> u32 \<times> u32 \<times> u32 \<times> bool" where
  "arena_frame a = (ar_base a, ar_usable a, ar_persistent_used a, ar_initialized a)"

lemma frame_ephemeral: "arena_frame (snd (syn_mem_tensor_alloc tsz sh nd dt SYN_MEM_EPHEMERAL a)) = arena_frame a"
  by (auto simp: syn_mem_tensor_alloc_def arena_alloc_def arena_frame_def Let_def split: option.splits prod.splits if_splits)

lemma frame_reset: "arena_frame (syn_mem_reset_ephemeral a) = arena_frame a"
  by (simp add: arena_frame_def syn_mem_reset_ephemeral_def)

lemma alloc_same_place:
  assumes "arena_frame a = arena_frame a'" "ar_ephemeral_used a = 0" "ar_ephemeral_used a' = 0"
  shows "fst (syn_mem_tensor_alloc tsz sh nd dt SYN_MEM_EPHEMERAL a) = fst (syn_mem_tensor_alloc tsz sh nd dt SYN_MEM_EPHEMERAL a')"
  using assms by (auto simp: syn_mem_tensor_alloc_def arena_alloc_def arena_frame_def Let_def split: option.splits prod.splits if_splits)

lemma run_sync_frame:
  assumes "\<And>v. arena_frame (ex_mem (mw v)) = arena_frame (ex_mem v)"
  shows "arena_frame (ex_mem (snd (snd (syn_infer_run_sync E ms mw h tin out prio w)))) = arena_frame (ex_mem w)"
  by (simp add: syn_infer_run_sync_def Let_def put_ly_def tick_def assms split: prod.split option.split)

text \<open>
  The reset frees the ephemeral tensors of everybody: the first tensor that another thread had taken from the
  empty region is handed out a second time by the next request of its size.
\<close>

lemma infer_run_frees_foreign_tensors:
  assumes "\<And>v. arena_frame (ex_mem (mw v)) = arena_frame (ex_mem v)" "arena_wf a0" "ar_ephemeral_used a0 = 0"
    and "syn_mem_tensor_alloc tsz sh nd dt SYN_MEM_EPHEMERAL a0 = (Some (b, t), a1)"
    and "arena_frame (ex_mem (cn_exec s)) = arena_frame a1"
    and "cmd_infer_run E ms mw el arg parg s = (Ok (), s')"
  shows "\<exists>a2. syn_mem_tensor_alloc tsz sh nd dt SYN_MEM_EPHEMERAL (ex_mem (cn_exec s')) = (Some (b, t), a2)"
proof -
  obtain name h info prio where r: "infer_run_model E ms mw el name h info prio s = (Ok (), s')"
    using assms(6) by (auto simp: cmd_infer_run_def Let_def split: option.splits sum.splits if_splits)
  define al where "al = syn_mem_tensor_alloc (ev_tensor_sz E) (Some [mi_input_size info]) 1 (dtype_of (mi_input_dtype info)) SYN_MEM_EPHEMERAL (ex_mem (cn_exec s))"
  obtain block d where al1: "fst al = Some (block, d)"
    using r by (auto simp: infer_run_model_def al_def [unfolded One_nat_def, symmetric] Let_def split: prod.splits option.splits)
  define w1 where "w1 = (cn_exec s)\<lparr>ex_mem := snd al\<rparr>"
  obtain ret out w2 where rs: "syn_infer_run_sync E ms mw h (Some (syn_tensor.extend d \<lparr>tn_bytes = gradient (tn_size d)\<rparr>))
      (Some zero_tensor) prio w1 = (ret, out, w2)" by (rule prod_cases3)
  have m: "ex_mem (cn_exec s') = syn_mem_reset_ephemeral (ex_mem w2)"
    using r al1 rs by (auto simp: infer_run_model_def al_def [unfolded One_nat_def, symmetric] w1_def Let_def con_say_def split: prod.splits sum.splits)
  have "arena_frame (ex_mem w2) = arena_frame (ex_mem w1)"
    using run_sync_frame [of mw E ms h _ _ prio w1, OF assms(1)] rs by (metis snd_conv)
  also have "\<dots> = arena_frame (ex_mem (cn_exec s))" using frame_ephemeral by (simp add: w1_def al_def)
  also have "\<dots> = arena_frame a0" using assms(5) frame_ephemeral [of tsz sh nd dt a0] assms(4) by simp
  finally have f: "arena_frame (ex_mem (cn_exec s')) = arena_frame a0" unfolding m frame_reset .
  have "ar_initialized (ex_mem w2)" using f assms(2) by (simp add: m frame_reset arena_wf_def) (simp add: arena_frame_def)
  then have "ar_ephemeral_used (ex_mem (cn_exec s')) = 0" by (simp add: m syn_mem_reset_ephemeral_def)
  then have "fst (syn_mem_tensor_alloc tsz sh nd dt SYN_MEM_EPHEMERAL (ex_mem (cn_exec s'))) = Some (b, t)"
    using alloc_same_place [OF f _ assms(3)] assms(4) by simp
  then show ?thesis by (metis prod.collapse)
qed

end
