(* ===== verification/Mpu.thy ===== *)
theory Mpu
  imports Syn_Prelude
begin

text \<open>
  The memory guard between the cores, \<open>src/core/syn_mpu.c\<close> (CPU0): the region it programs, the policy for
  fatal errors and the self-test. The encoders \<open>ARM_MPU_RBAR\<close> and \<open>ARM_MPU_RLAR\<close> of CMSIS are arguments; so is
  the set of addresses whose writes fault, with the reason the kernel gives. A word of memory is a value of a
  function from addresses. A core that halts, or a call that never returns, is None.
\<close>

abbreviation (input) SYN_SHM_SHARED_BASE :: u32 where "SYN_SHM_SHARED_BASE \<equiv> 0x30040000"
abbreviation (input) SYN_SHM_SHARED_SIZE :: u32 where "SYN_SHM_SHARED_SIZE \<equiv> 0x18000"
abbreviation (input) SYN_MPU_GUARDED_BASE :: u32 where "SYN_MPU_GUARDED_BASE \<equiv> 0x30058000"
abbreviation (input) SYN_MPU_GUARDED_SIZE :: u32 where "SYN_MPU_GUARDED_SIZE \<equiv> 0x10000"

section \<open>The guard\<close>

datatype mpu_write = MPU_RNR u32 | MPU_RBAR u32 | MPU_RLAR u32

definition syn_mpu_guard_init :: "(u32 \<Rightarrow> bool \<Rightarrow> bool \<Rightarrow> bool \<Rightarrow> u32) \<Rightarrow> (u32 \<Rightarrow> u32 \<Rightarrow> u32) \<Rightarrow> u32 \<Rightarrow> mpu_write list" where
  "syn_mpu_guard_init rbar rlar regions =
     (if regions = 0 then []
      else [MPU_RNR (regions - 1), MPU_RBAR (rbar SYN_MPU_GUARDED_BASE True True True),
            MPU_RLAR (rlar (SYN_MPU_GUARDED_BASE + SYN_MPU_GUARDED_SIZE - 1) 1)])"

section \<open>The fatal-error policy\<close>

datatype fatal_reason =
    K_ERR_CPU_EXCEPTION | K_ERR_SPURIOUS_IRQ | K_ERR_STACK_CHK_FAIL | K_ERR_KERNEL_OOPS | K_ERR_KERNEL_PANIC
  | K_ERR_ARM_MEM_GENERIC | K_ERR_ARM_MEM_DATA_ACCESS | K_ERR_OTHER nat

text \<open>Whether the handler returns, which makes the kernel abort the thread; otherwise the core halts.\<close>

definition k_sys_fatal_error_handler :: "fatal_reason \<Rightarrow> bool" where
  "k_sys_fatal_error_handler reason \<longleftrightarrow>
     reason = K_ERR_CPU_EXCEPTION \<or> reason = K_ERR_ARM_MEM_GENERIC \<or> reason = K_ERR_ARM_MEM_DATA_ACCESS"

section \<open>The self-test\<close>

record mpu_sys =
  mp_mem :: "u32 \<Rightarrow> u32"
  mp_survived :: bool

text \<open>
  A store by a thread: None when it makes the core halt, \<open>(False, _)\<close> when it ends the thread. \<open>faults a\<close> is the
  reason of the fault of a write to \<open>a\<close>, if there is one.
\<close>

definition thread_store :: "(u32 \<Rightarrow> fatal_reason option) \<Rightarrow> u32 \<Rightarrow> u32 \<Rightarrow> mpu_sys \<Rightarrow> (bool \<times> mpu_sys) option" where
  "thread_store faults a v s =
     (case faults a of
        None \<Rightarrow> Some (True, s\<lparr>mp_mem := (mp_mem s)(a := v)\<rparr>)
      | Some reason \<Rightarrow> if k_sys_fatal_error_handler reason then Some (False, s) else None)"

definition guarded_word :: u32 where
  "guarded_word = SYN_MPU_GUARDED_BASE + SYN_MPU_GUARDED_SIZE div 2"

definition mpu_test_entry :: "(u32 \<Rightarrow> fatal_reason option) \<Rightarrow> mpu_sys \<Rightarrow> mpu_sys option" where
  "mpu_test_entry faults s =
     (case thread_store faults guarded_word 0xDEADBEEF s of
        None \<Rightarrow> None
      | Some (alive, s1) \<Rightarrow> Some (if alive then s1\<lparr>mp_survived := True\<rparr> else s1))"

definition shared_probe :: u32 where
  "shared_probe = SYN_SHM_SHARED_BASE + SYN_SHM_SHARED_SIZE - 4"

text \<open>
  The shared word is written by the caller itself; \<open>keeps\<close> says whether it reads back. \<open>started\<close> says whether
  the test thread came to run and ended within the 500 ms of the join.
\<close>

definition syn_mpu_selftest :: "bool \<Rightarrow> bool \<Rightarrow> (u32 \<Rightarrow> fatal_reason option) \<Rightarrow> mpu_sys \<Rightarrow> (unit res \<times> mpu_sys) option" where
  "syn_mpu_selftest keeps started faults s =
     (let before = mp_mem s shared_probe; s1 = s\<lparr>mp_mem := (mp_mem s)(shared_probe := 0xA5A5A5A5)\<rparr>
      in if faults shared_probe \<noteq> None then None
         else if \<not> keeps then Some (Err EIO, s1)
         else
           let s2 = s1\<lparr>mp_mem := (mp_mem s1)(shared_probe := before), mp_survived := False\<rparr>
           in if \<not> started then Some (Err ETIMEDOUT, s2)
              else (case mpu_test_entry faults s2 of
                      None \<Rightarrow> None
                    | Some s3 \<Rightarrow> Some (if mp_survived s3 then Err EPERM else Ok (), s3)))"

section \<open>What the verdict means\<close>

text \<open>
  The guarded region is the private memory of the other core and leaves the shared region out.
\<close>

lemma guard_is_beside_the_shared_region:
  "SYN_SHM_SHARED_BASE + SYN_SHM_SHARED_SIZE = SYN_MPU_GUARDED_BASE" "shared_probe < SYN_MPU_GUARDED_BASE"
  "SYN_MPU_GUARDED_BASE \<le> guarded_word" "guarded_word < SYN_MPU_GUARDED_BASE + SYN_MPU_GUARDED_SIZE"
  by (simp_all add: shared_probe_def guarded_word_def word_less_nat_alt word_le_nat_alt)

text \<open>
  A run that ends passes exactly when the write faults, and then memory is as it was; when it says EPERM the
  word of the other core is destroyed.
\<close>

lemma selftest_verdict:
  assumes "syn_mpu_selftest True True faults s = Some (r, s')"
  shows "(r = Ok () \<longleftrightarrow> faults guarded_word \<noteq> None) \<and> (r = Err EPERM \<longleftrightarrow> faults guarded_word = None) \<and>
    mp_mem s' = (if r = Ok () then mp_mem s else (mp_mem s)(guarded_word := 0xDEADBEEF))"
  using assms
  by (auto simp: syn_mpu_selftest_def mpu_test_entry_def thread_store_def Let_def split: option.splits if_splits)

end
