(* ===== verification/Spec2Isabelle.thy ===== *)
theory Spec2Isabelle
  imports Syn_Prelude Float32 Ipc_Ring Ipc Boot Drain_Gate Mem Npu_Layered Npu_Stub Npu_Neutron Synn
    Model_Registry Flash_Port Store_Image Model_Store Store_Safety Model_Ota Ota_Safety Ota_Shell Health Prof
    Infer Infer_Safety Infer_Exec Exec_Safety Infer_Remote Dsp Dsp_Fft Postprocess Preprocess Select_Safety
    Stage_Fit Dma_Hal Ingest Dma_Bench Init Console Mpu
begin

text \<open>
  \<^bold>\<open>SynapticOS\<close> is a runtime for neural-network inference on a dual-core microcontroller: C code on top of
  the Zephyr kernel. This development models its implementation files under \<open>src/\<close> and \<open>include/\<close>
  and proves what makes them correct.

  \<^bold>\<open>The parts and how they meet.\<close> An application registers models, builds pipelines and submits jobs. The
  engine (\<open>syn_infer.c\<close>) keeps the jobs in a table, dispatches them by priority and deadline, takes its buffers
  from the tensor arena (\<open>syn_mem.c\<close>), asks the registry (\<open>syn_model.c\<close>) to make the model of a job resident on
  the single-model NPU, and runs it on one of two backends (\<open>syn_hal_npu_stub.c\<close>, \<open>syn_hal_npu_neutron.c\<close>),
  in one piece or layer by layer (\<open>syn_npu_layered.c\<close>), with pre- and post-processors around it. The profiler and
  the health monitor are told of every stage. The model store (\<open>syn_model_store.c\<close>) keeps models in flash over
  power cycles through the flash port; the update engine (\<open>syn_model_ota.c\<close>) streams a new one into a free slot,
  fed by the shell. The second core reaches the engine through the ring, the messages and the remote-inference
  code, is started by \<open>syn_boot.c\<close>, and is kept out by the drain gate during an update. Frames come in through the
  DMA backends and the ingest pump.

  \<^bold>\<open>Which theory models which file\<close> (definitions carry the names of the C functions; two files that define the
  same name get a prefix, such as \<open>neutron_\<close>, \<open>stub_\<close> or \<open>edma_\<close>).
  \<^item> \<open>Syn_Prelude\<close>: errno values, machine integers, byte codecs, C strings, address ranges; the conventions.
  \<^item> \<open>Float32\<close>: the \<open>float\<close> of the sources, IEEE binary32, executable.
  \<^item> \<open>Mem\<close>: \<open>core/syn_mem.c\<close>. \<open>Prof\<close>: \<open>core/syn_prof.c\<close>. \<open>Health\<close>: \<open>core/syn_health.c\<close>.
    \<open>Init\<close>: \<open>core/syn_init.c\<close>. \<open>Mpu\<close>: \<open>core/syn_mpu.c\<close>.
  \<^item> \<open>Npu_Layered\<close>: \<open>hal/common/syn_npu_layered.c\<close>. \<open>Npu_Stub\<close>: \<open>hal/stub/syn_hal_npu_stub.c\<close> and the session
    interface of a backend. \<open>Synn\<close>: \<open>core/syn_synn.c\<close>. \<open>Npu_Neutron\<close>: \<open>hal/mcxn947/syn_hal_npu_neutron.c\<close>.
  \<^item> \<open>Model_Registry\<close>: \<open>core/syn_model.c\<close>.
  \<^item> \<open>Flash_Port\<close>: \<open>core/syn_flash_port*.{h,c}\<close>. \<open>Store_Image\<close> and \<open>Model_Store\<close>: \<open>core/syn_model_store.c\<close>, its
    flash image and its operations; \<open>Store_Safety\<close>: its histories.
  \<^item> \<open>Model_Ota\<close>: \<open>core/syn_model_ota.c\<close>; \<open>Ota_Safety\<close>: whole sessions; \<open>Ota_Shell\<close>: the update commands of
    \<open>core/syn_shell.c\<close> with the raw binary mode.
  \<^item> \<open>Infer\<close>: the pipelines, the job table and the locked sections of \<open>core/syn_infer.c\<close>; \<open>Infer_Exec\<close>: what its
    thread does outside the lock; \<open>Infer_Safety\<close>: the scheduler as a state machine; \<open>Exec_Safety\<close>: preemption.
  \<^item> \<open>Ipc_Ring\<close>: \<open>core/syn_ipc_ring.c\<close>. \<open>Ipc\<close>: \<open>core/syn_ipc.c\<close>. \<open>Boot\<close>: \<open>core/syn_boot.c\<close>. \<open>Drain_Gate\<close>:
    \<open>core/syn_drain_gate.c\<close>. \<open>Infer_Remote\<close>: \<open>core/syn_infer_remote.c\<close>, both sides.
  \<^item> \<open>Dsp\<close>: \<open>hal/common/syn_dsp_soft.c\<close>, \<open>hal/stub/syn_hal_dsp_stub.c\<close>, \<open>hal/mcxn947/syn_hal_dsp_pq.c\<close>;
    \<open>Dsp_Fft\<close>: the correctness of the FFT.
  \<^item> \<open>Preprocess\<close>, \<open>Postprocess\<close>: \<open>preprocess/*.c\<close>, \<open>postprocess/*.c\<close>; \<open>Select_Safety\<close>: what the selecting stages
    choose; \<open>Stage_Fit\<close>: the stages in the buffers of the engine.
  \<^item> \<open>Dma_Hal\<close>: \<open>hal/stub/syn_hal_dma_stub.c\<close>, \<open>hal/mcxn947/syn_hal_dma_edma.c\<close>. \<open>Ingest\<close>: \<open>core/syn_ingest.c\<close>.
    \<open>Dma_Bench\<close>, \<open>Console\<close>: the remaining commands of \<open>core/syn_shell.c\<close>.

  \<^bold>\<open>State and operations.\<close> The static variables of a file are one record, its fields in the order of the file; an
  operation takes the record and gives it back beside its result, so every early return shows what it has already
  changed. A critical section of a lock is one definition, and the state machines (\<open>sched_step\<close>, \<open>spsc_step\<close>,
  \<open>link_step\<close>, \<open>gate_step\<close>, the histories of the store, of the updates and of the boot) interleave these
  sections in any order. An operation that waits takes what the rest of the system does meanwhile as a function.

  \<^bold>\<open>Interfaces\<close> are locales, interpreted on the code's own definitions: \<open>bounded_fifo\<close> on the ring; \<open>npu_hal\<close> and
  \<open>npu_cycle\<close> on both NPU backends, used by the registry and by the start of the runtime; \<open>flash_laws\<close> and
  \<open>flash_reliable\<close> on the flash ports, used by the store and the update engine.

  \<^bold>\<open>What the lemmas show.\<close>
  \<^item> \<^emph>\<open>Storage\<close>: whatever the device does, including a power loss in any write, every history of the store leaves
    an adoptable registry copy, the active slot is never written, and the next boot finds the running state or a
    newer image that passed the loader, in particular what is committed; an update call leaves the second core
    held only when a restart failed; a finished update is in flash byte by byte, and a whole update over the shell ends with the new
    model active, however the bytes were fragmented.
  \<^item> \<^emph>\<open>Inference\<close>: the placement of activations never aliases live data, a layered run gives the reference output,
    over any number of preemptions, with other jobs on the backend in between, until it ends with that output or
    the arena has no buffer for it; no wake-up of the scheduler is lost, the gate
    stops it, the dispatch order is the documented one; a pipeline stage never overruns the buffer it is given.
  \<^item> \<^emph>\<open>Two cores\<close>: no interleaving of producer and consumer loses, tears or reorders a message; a remote inference
    gives exactly the result of a run on the AI core for the caller's model and input; the second core is not
    released before a start has asked the flash for its image (a restart does not ask again).
  \<^item> \<^emph>\<open>Signal processing\<close>: the FFT equals the recursive transform bit for bit, the coprocessor's configuration cache
    is invisible, suppression is the greedy choice, top-k the front of a stable sort.
  \<^item> \<^emph>\<open>Supervision\<close>: while a source hangs the watchdog is not fed, and the episode is reported once when the
    stale flag was clear before it.
  \<^item> \<^emph>\<open>Memory and frames\<close>: blocks of the arena are disjoint and aligned in every disciplined history; the pump hands
    every frame over once, complete and in order, and the bench finds no bad one.
  \<^item> \<^emph>\<open>Faults of the code\<close> are theorems too: a restart of the runtime or a failed swap on the NPU leaves the registry
    believing in a model that is gone; destroying a pipeline strands the jobs of others; the size check of the
    resize wraps at 32 bits.

  \<^bold>\<open>Bounds, fuel and parameters.\<close> Every loop is a total function: structural, or with a measure in its termination
  proof; waiting loops are bounded by their timeout or their retry count, or by the list of what happens
  meanwhile, so no fuel can run out unnoticed. A call that may never return has an option as its result. Kconfig
  values (number of slots, of jobs, of activations, pool sizes, ring entries) are arguments or list lengths; the
  hypotheses name the range they cover, which can be narrower than the one of Kconfig: the ring theorems ask for
  a number of entries that divides \<open>2 ^ 32\<close>, so 4, 8, 16, 32 or 64 of the 4 to 64 that Kconfig accepts
  (\<open>ring_wrap_loses_message\<close> loses a message with 5), and the arena theorems for an arena of at most \<open>2 ^ 30\<close>
  bytes whose base, size and scratch size are multiples of 16. The FFT theorem covers 2 to 1024 points, all that the kernel accepts. Floats round each
  operation on its own (no fused multiply-add), and a conversion to an integer saturates, as the target does.
  Parameters stand for code outside \<open>src/\<close>: the CRC-32 of Zephyr (its update function), the ROM flash functions,
  the vendor's drivers of the Neutron NPU, the eDMA engine and the PowerQuad coprocessor, the functions of
  \<open>math.h\<close> that are not exact, the clocks, the stages an application supplies. What the theorems need of them is a
  named hypothesis, and every theorem with hypotheses has a witness at a concrete instance.

  \<^bold>\<open>Not modelled.\<close>
  \<^item> Logging, hex dumps, and the commands that only print the result of one getter; the DSP benchmark, which prints
    times; \<open>syn dma probe\<close>, \<open>syn dma arena\<close> and the arena probe of the eDMA file, which exercise bus-security
    registers of one board and print them.
  \<^item> The hardware: caches and barriers (a barrier is a step boundary of the ring model), the memory protection unit
    beyond its register writes, interrupt priorities.
  \<^item> The samples, the application template, the tests, the Python tools under \<open>tools/\<close> and the build files.
  \<^item> The PowerQuad path of the MFCC: \<open>audio_mfcc\<close> runs the software FFT where the code calls the DSP interface.
  \<^item> Flash that cannot be read back: \<open>flash_reliable\<close> is a law of the RAM port; a torn page of the board that reads as
    an ECC error is outside the theorems that assume it.
  \<^item> A drain of a receive ring is one step of the link between the cores (\<open>rx_drain\<close>); the overlap of one push and
    one pop is in the ring model.
  \<^item> Data races between unlocked fields of one file (for instance the fields of a raw transfer, which the shell
    thread and its watchdog both write): operations of one component are steps.
\<close>

end
